(* ===== verification/Prelude.thy ===== *)
theory Prelude
  imports Main "HOL-Library.AList" "HOL-Library.Multiset"
begin

text \<open>
  Shared vocabulary of the development: the types the components exchange, the
  insertion-ordered dictionaries and sets of the source (\<open>Map\<close>, \<open>Set\<close> and plain
  objects), generic facts about lists, and the locale every state machine of the
  development is an instance of.
\<close>

section \<open>Types\<close>

type_synonym plan_id = string
type_synonym prd_id = string

text \<open>A fallible computation: \<open>Inl\<close> is the thrown error, \<open>Inr\<close> the value returned.\<close>

type_synonym ('e, 'a) result = "'e + 'a"

named_theorems frame_simps
  \<open>equations saying which part of a state an operation leaves alone\<close>

section \<open>Insertion-ordered dictionaries\<close>

text \<open>
  A \<open>Map\<close> or a record object of the source is an association list in insertion
  order: \<open>AList.update\<close> overwrites in place or appends, as \<open>Map.set\<close> does.
\<close>

abbreviation dget :: "('k \<times> 'v) list \<Rightarrow> 'k \<Rightarrow> 'v option" where
  "dget m k \<equiv> map_of m k"

abbreviation dput :: "'k \<Rightarrow> 'v \<Rightarrow> ('k \<times> 'v) list \<Rightarrow> ('k \<times> 'v) list" where
  "dput \<equiv> AList.update"

abbreviation ddel :: "'k \<Rightarrow> ('k \<times> 'v) list \<Rightarrow> ('k \<times> 'v) list" where
  "ddel \<equiv> AList.delete"

abbreviation dkeys :: "('k \<times> 'v) list \<Rightarrow> 'k list" where
  "dkeys m \<equiv> map fst m"

abbreviation dvals :: "('k \<times> 'v) list \<Rightarrow> 'v list" where
  "dvals m \<equiv> map snd m"

lemma dget_dput [simp]: "dget (dput k v m) k' = (if k' = k then Some v else dget m k')"
  by (simp add: update_conv')

lemma dget_ddel [simp]: "dget (ddel k m) k' = (if k' = k then None else dget m k')"
  by (simp add: delete_conv')

lemma dkeys_dput: "dkeys (dput k v m) = (if k \<in> set (dkeys m) then dkeys m else dkeys m @ [k])"
  by (simp add: update_keys)

lemma distinct_dkeys_dput [intro, simp]: "distinct (dkeys m) \<Longrightarrow> distinct (dkeys (dput k v m))"
  by (rule distinct_update)

lemma set_dkeys_dput [simp]: "fst ` set (dput k v m) = insert k (fst ` set m)"
  by (simp add: dom_map_of_conv_image_fst [symmetric] update_conv')

lemma distinct_dkeys_ddel [intro, simp]: "distinct (dkeys m) \<Longrightarrow> distinct (dkeys (ddel k m))"
  by (rule distinct_delete)

lemma dget_Some_dkeys: "dget m k = Some v \<Longrightarrow> k \<in> fst ` set m"
  by (metis domI dom_map_of_conv_image_fst)

lemma dkeys_dput_Some [simp]: "dget m k = Some v \<Longrightarrow> dkeys (dput k w m) = dkeys m"
  by (simp add: dkeys_dput dget_Some_dkeys)

lemma dget_None_iff: "dget m k = None \<longleftrightarrow> k \<notin> fst ` set m"
  by (simp add: map_of_eq_None_iff)

lemma dvals_dput_same_key:
  "dget m k = Some w \<Longrightarrow> distinct (dkeys m) \<Longrightarrow>
   set (dput k v m) = insert (k, v) (set m - {(k, w)})"
  by (induction m) (auto dest: map_of_SomeD simp: image_iff)

text \<open>A predicate on all the values, read through the lookup.\<close>

lemma dvals_all_iff:
  "distinct (dkeys m) \<Longrightarrow> (\<forall>v \<in> set (dvals m). P v) \<longleftrightarrow> (\<forall>k v. dget m k = Some v \<longrightarrow> P v)"
  by (auto simp: map_of_eq_Some_iff)

declare option.map_ident [simp]

text \<open>The keys whose value satisfies a predicate.\<close>

definition dsel :: "('v \<Rightarrow> bool) \<Rightarrow> ('k \<times> 'v) list \<Rightarrow> 'k set" where
  "dsel Q m = {k. \<exists>v. dget m k = Some v \<and> Q v}"

lemma finite_dsel [simp]: "finite (dsel Q m)"
  by (rule finite_subset [of _ "dom (dget m)"]) (auto simp: dsel_def finite_dom_map_of)

lemma dsel_dput: "dsel Q (dput k v m) = (if Q v then insert k (dsel Q m) else dsel Q m - {k})"
  by (auto simp: dsel_def)

lemma dsel_Nil [simp]: "dsel Q [] = {}"
  by (simp add: dsel_def)

lemma in_dsel: "dget m k = Some v \<Longrightarrow> k \<in> dsel Q m \<longleftrightarrow> Q v"
  by (simp add: dsel_def)

section \<open>Insertion-ordered sets\<close>

text \<open>\<open>[...new Set(xs)]\<close>: the first occurrence of each element, in order.\<close>

fun uniq :: "'a list \<Rightarrow> 'a list" where
  "uniq [] = []"
| "uniq (x # xs) = x # filter (\<lambda>y. y \<noteq> x) (uniq xs)"

lemma set_uniq [simp]: "set (uniq xs) = set xs"
  by (induction xs) auto

lemma distinct_uniq [simp]: "distinct (uniq xs)"
  by (induction xs) auto

lemma uniq_distinct: "distinct xs \<Longrightarrow> uniq xs = xs"
  by (induction xs) (auto simp: filter_id_conv)

text \<open>\<open>s.add(x)\<close> on such a set.\<close>

definition sadd :: "'a \<Rightarrow> 'a list \<Rightarrow> 'a list" where
  "sadd x xs = (if x \<in> set xs then xs else xs @ [x])"

lemma set_sadd [simp]: "set (sadd x xs) = insert x (set xs)"
  by (auto simp: sadd_def)

lemma distinct_sadd [simp]: "distinct (sadd x xs) \<longleftrightarrow> distinct xs"
  by (auto simp: sadd_def)

section \<open>Searching\<close>

text \<open>\<open>xs.find(p)\<close> is the library's \<open>List.find\<close>.\<close>

lemma find_SomeD: "List.find P xs = Some x \<Longrightarrow> x \<in> set xs \<and> P x"
  by (induction xs) (auto split: if_splits)

lemma find_None_iff': "List.find P xs = None \<longleftrightarrow> (\<forall>x \<in> set xs. \<not> P x)"
  by (induction xs) auto

lemma int_length_remove1:
  "x \<in> set xs \<Longrightarrow> int (length (remove1 x xs)) = int (length xs) - 1"
  by (induction xs) auto

section \<open>Machines\<close>

text \<open>
  A deterministic machine that may refuse an event (the source throws): the state,
  one operation per event, and an invariant the operations keep. Every machine of the
  development interprets it, so that facts about runs are proved once.
\<close>

locale machine =
  fixes step :: "'s \<Rightarrow> 'e \<Rightarrow> 's option"
    and inv :: "'s \<Rightarrow> bool"
  assumes step_inv: "inv s \<Longrightarrow> step s e = Some s' \<Longrightarrow> inv s'"
begin

primrec run :: "'s \<Rightarrow> 'e list \<Rightarrow> 's option" where
  "run s [] = Some s"
| "run s (e # es) = (case step s e of None \<Rightarrow> None | Some s' \<Rightarrow> run s' es)"

lemma run_append:
  "run s (es @ fs) = (case run s es of None \<Rightarrow> None | Some s' \<Rightarrow> run s' fs)"
  by (induction es arbitrary: s) (auto split: option.splits)

lemma run_inv: "inv s \<Longrightarrow> run s es = Some s' \<Longrightarrow> inv s'"
  by (induction es arbitrary: s) (auto split: option.splits intro: step_inv)

lemma run_stable:
  assumes stable: "\<And>s e s'. inv s \<Longrightarrow> P s \<Longrightarrow> step s e = Some s' \<Longrightarrow> P s'"
    and "inv s" and "P s" and "run s es = Some s'"
  shows "P s'"
  using assms(2-)
proof (induction es arbitrary: s)
  case Nil
  then show ?case by simp
next
  case (Cons e es)
  then show ?case
    by (auto split: option.splits intro: stable step_inv)
qed

end

end
