(* ===== verification/Events.thy ===== *)
theory Events
  imports Prelude
begin

text \<open>
  The events of \<open>packages/client/src/events\<close> that the modelled components emit or
  react to. An event carries the fields the components read or write; the timestamp,
  which no component reads, is left out.
\<close>

section \<open>Status enumerations\<close>

text \<open>\<open>PlanStatusSchema\<close>, \<open>EforgeStateSchema.status\<close> and the landing actions.\<close>

datatype plan_status = PPending | PRunning | PCompleted | PFailed | PBlocked | PMerged

datatype run_status = RunRunning | RunCompleted | RunFailed

datatype landing_action = LandPr | LandMerge | LandLeave

datatype terminal_status = QCompleted | QFailed | QSkipped

datatype dispatch_stage = StackingValidation | PolicyGateStage | ProfileRouting | DispatchStage

datatype landing_status = LandingComplete | LandingFailed | LandingSkippedStatus

section \<open>Validation payloads\<close>

datatype verdict = VPass | VFail | VUnknown

record criterion_verdict =
  cv_criterion :: string
  cv_verdict :: verdict
  cv_evidence :: string

record prd_gap =
  gap_requirement :: string
  gap_explanation :: string

datatype conflict_scope = ScopeNarrow | ScopeBroad | ScopeUnknown

record criteria_conflict =
  cc_criterion :: string
  cc_evidence :: string
  cc_conflictsWith :: string
  cc_scope :: conflict_scope
  cc_revise :: bool

record acceptance_event =
  ae_passed :: bool
  ae_verdicts :: "criterion_verdict list"
  ae_waivers :: "string list"
  ae_conflicts :: "criteria_conflict list"
  ae_source :: "string option"

section \<open>The event type\<close>

datatype (plugins only: size code) event =
    PlanStatusChange plan_id plan_status
  | PlanErrorSet plan_id string
  | PlanErrorClear plan_id
  | MergeWorktreeSet string
  | MergeWorktreeClear
  | ScheduleStart "plan_id list"
  | PlanScheduleReady plan_id string
  | PlanBuildFailed plan_id string "string option"
  | PlanMergeStart plan_id
  | PlanMergeComplete plan_id string
  | PlanningProgress string
  | ConfigWarning string string
  | AgentStart string
  | AgentRetry string nat nat string string
  | ValidationStart "string list"
  | ValidationCommandStart string
  | ValidationCommandTimeout string nat int
  | ValidationCommandComplete string int string
  | ValidationComplete bool
  | PrdValidationStart
  | PrdValidationComplete bool "prd_gap list" "nat option"
  | AcceptanceValidationComplete acceptance_event
  | GapCloseComplete bool
  | LandingStart landing_action
  | LandingSkipped landing_action string string string
  | MergeFinalizeSkipped string string string
  | StackLandingUpdate prd_id landing_action landing_status "string option" "string option"
  | StackLayerRecorded prd_id
  | DaemonError string string
  | DaemonWarning string string
  | SchedulerPaused
  | SchedulerResumed
  | SchedulerDequeued prd_id nat int
  | SchedulerCapacityBlocked nat nat nat
  | SchedulerDependencyBlocked prd_id "prd_id list"
  | QueuePrdDiscovered prd_id string "prd_id list"
  | QueuePrdComplete prd_id terminal_status
  | QueuePrdDispatchFailed prd_id string string dispatch_stage
  | SessionStart string
  | SessionProfile string "string option"
  | QueueProfileSelected prd_id string string
  | QueueProfileRouterFailed prd_id string string
  | OtherEvent string

end
