(* ===== verification/PlanState.thy ===== *)
theory PlanState
  imports Events
begin

text \<open>
  The in-memory state of a build (\<open>EforgeState\<close>), its single mutation entry point
  (\<open>packages/engine/src/state.ts\<close>), the guarded plan life cycle
  (\<open>orchestrator/plan-lifecycle.ts\<close>) and the initial and resumed states
  (\<open>orchestrator.ts\<close>). The lemmas show that the life cycle is the only way a plan
  moves, that its bookkeeping stays consistent, and that a merged plan never moves again.
\<close>

section \<open>State\<close>

record plan_state =
  ps_status :: plan_status
  ps_worktreePath :: "string option"
  ps_branch :: string
  ps_dependsOn :: "plan_id list"
  ps_merged :: bool
  ps_error :: "string option"

record eforge_state =
  es_setName :: string
  es_status :: run_status
  es_baseBranch :: string
  es_featureBranch :: string
  es_worktreeBase :: string
  es_mergeWorktreePath :: "string option"
  es_plans :: "(plan_id \<times> plan_state) list"
  es_completedPlans :: "plan_id list"
  es_ended :: bool \<comment> \<open>\<open>completedAt\<close> has been set\<close>

text \<open>The fields of one plan of \<open>OrchestrationConfig\<close> that the orchestrator reads.\<close>

record plan_entry =
  pe_id :: plan_id
  pe_name :: string
  pe_dependsOn :: "plan_id list"
  pe_branch :: string
  pe_allowNoOpMerge :: bool

record orchestration_config =
  oc_name :: string
  oc_description :: string
  oc_baseBranch :: string
  oc_diffBaseRef :: "string option"
  oc_stackedValidationPinRequired :: bool
  oc_plans :: "plan_entry list"

section \<open>The mutation entry point (state.ts)\<close>

definition set_plan_status :: "eforge_state \<Rightarrow> plan_id \<Rightarrow> plan_state \<Rightarrow> plan_status \<Rightarrow> eforge_state" where
  "set_plan_status s p plan st =
     (let s' = s\<lparr>es_plans := dput p (plan\<lparr>ps_status := st\<rparr>) (es_plans s)\<rparr>
      in if (st = PCompleted \<or> st = PMerged) \<and> p \<notin> set (es_completedPlans s)
         then s'\<lparr>es_completedPlans := es_completedPlans s @ [p]\<rparr>
         else s')"

definition mutateState :: "eforge_state \<Rightarrow> event \<Rightarrow> eforge_state" where
  "mutateState s ev =
     (case ev of
        PlanStatusChange p st \<Rightarrow>
          (case dget (es_plans s) p of
             None \<Rightarrow> s | Some plan \<Rightarrow> set_plan_status s p plan st)
      | PlanErrorSet p err \<Rightarrow>
          (case dget (es_plans s) p of
             None \<Rightarrow> s
           | Some plan \<Rightarrow> s\<lparr>es_plans := dput p (plan\<lparr>ps_error := Some err\<rparr>) (es_plans s)\<rparr>)
      | PlanErrorClear p \<Rightarrow>
          (case dget (es_plans s) p of
             None \<Rightarrow> s
           | Some plan \<Rightarrow> s\<lparr>es_plans := dput p (plan\<lparr>ps_error := None\<rparr>) (es_plans s)\<rparr>)
      | MergeWorktreeSet path \<Rightarrow> s\<lparr>es_mergeWorktreePath := Some path\<rparr>
      | MergeWorktreeClear \<Rightarrow> s\<lparr>es_mergeWorktreePath := None\<rparr>
      | _ \<Rightarrow> s)"

lemma mutateState_simps [simp]:
  "mutateState s (PlanStatusChange p st) =
     (case dget (es_plans s) p of None \<Rightarrow> s | Some plan \<Rightarrow> set_plan_status s p plan st)"
  "mutateState s (PlanErrorSet p err) =
     (case dget (es_plans s) p of
        None \<Rightarrow> s | Some plan \<Rightarrow> s\<lparr>es_plans := dput p (plan\<lparr>ps_error := Some err\<rparr>) (es_plans s)\<rparr>)"
  by (simp_all add: mutateState_def)

datatype lifecycle_error =
    UnknownPlan plan_id
  | InvalidTransition plan_id plan_status plan_status

definition updatePlanStatus ::
    "eforge_state \<Rightarrow> plan_id \<Rightarrow> plan_status \<Rightarrow> (lifecycle_error, eforge_state) result" where
  "updatePlanStatus s p st =
     (case dget (es_plans s) p of
        None \<Rightarrow> Inl (UnknownPlan p)
      | Some plan \<Rightarrow> Inr (set_plan_status s p plan st))"

section \<open>The guarded life cycle (plan-lifecycle.ts)\<close>

fun VALID_TRANSITIONS :: "plan_status \<Rightarrow> plan_status list" where
  "VALID_TRANSITIONS PPending = [PRunning, PBlocked]"
| "VALID_TRANSITIONS PRunning = [PCompleted, PFailed, PPending]"
| "VALID_TRANSITIONS PCompleted = [PMerged, PFailed]"
| "VALID_TRANSITIONS PFailed = [PPending]"
| "VALID_TRANSITIONS PBlocked = [PPending]"
| "VALID_TRANSITIONS PMerged = []"

definition transitionPlan ::
    "eforge_state \<Rightarrow> plan_id \<Rightarrow> plan_status \<Rightarrow> string option
     \<Rightarrow> (lifecycle_error, eforge_state \<times> event list) result" where
  "transitionPlan s p to err =
     (case dget (es_plans s) p of
        None \<Rightarrow> Inl (UnknownPlan p)
      | Some plan \<Rightarrow>
          if to \<notin> set (VALID_TRANSITIONS (ps_status plan))
          then Inl (InvalidTransition p (ps_status plan) to)
          else
            (let ev = PlanStatusChange p to;
                 s1 = mutateState s ev
             in case err of
                  None \<Rightarrow> Inr (s1, [ev])
                | Some msg \<Rightarrow>
                    (let ev2 = PlanErrorSet p msg
                     in Inr (mutateState s1 ev2, [ev, ev2]))))"

section \<open>Initial and resumed states (orchestrator.ts)\<close>

definition plan_state_of :: "plan_entry \<Rightarrow> plan_state" where
  "plan_state_of p =
     \<lparr>ps_status = PPending, ps_worktreePath = None, ps_branch = pe_branch p,
      ps_dependsOn = pe_dependsOn p, ps_merged = False, ps_error = None\<rparr>"

text \<open>\<open>worktreeBase\<close> is what \<open>computeWorktreeBase(repoRoot, config.name)\<close> returned.\<close>

definition initializeState :: "orchestration_config \<Rightarrow> string \<Rightarrow> eforge_state" where
  "initializeState config worktreeBase =
     \<lparr>es_setName = oc_name config, es_status = RunRunning,
      es_baseBranch = oc_baseBranch config,
      es_featureBranch = ''eforge/'' @ oc_name config,
      es_worktreeBase = worktreeBase, es_mergeWorktreePath = None,
      es_plans = fold (\<lambda>p m. dput (pe_id p) (plan_state_of p) m) (oc_plans config) [],
      es_completedPlans = [], es_ended = False\<rparr>"

fun applyResumeSeed :: "eforge_state \<Rightarrow> plan_id list \<Rightarrow> eforge_state" where
  "applyResumeSeed s [] = s"
| "applyResumeSeed s (p # ps) =
     (case dget (es_plans s) p of
        None \<Rightarrow> applyResumeSeed s ps
      | Some plan \<Rightarrow>
          (let s' = set_plan_status s p plan PMerged
           in case dget (es_plans s') p of
                None \<Rightarrow> applyResumeSeed s' ps
              | Some plan' \<Rightarrow>
                  applyResumeSeed
                    (s'\<lparr>es_plans := dput p (plan'\<lparr>ps_merged := True\<rparr>) (es_plans s')\<rparr>) ps))"

section \<open>Well-formed states\<close>

abbreviation plan_status_of :: "eforge_state \<Rightarrow> plan_id \<Rightarrow> plan_status option" where
  "plan_status_of s p \<equiv> map_option ps_status (dget (es_plans s) p)"

definition plan_ids :: "eforge_state \<Rightarrow> plan_id list" where
  "plan_ids s = dkeys (es_plans s)"

definition state_ok :: "eforge_state \<Rightarrow> bool" where
  "state_ok s \<longleftrightarrow>
     distinct (plan_ids s) \<and> distinct (es_completedPlans s) \<and>
     set (es_completedPlans s) \<subseteq> set (plan_ids s) \<and>
     (\<forall>(p, plan) \<in> set (es_plans s).
        ps_status plan \<in> {PCompleted, PMerged} \<longrightarrow> p \<in> set (es_completedPlans s))"

lemma state_okI:
  assumes "distinct (plan_ids s)" "distinct (es_completedPlans s)"
    "set (es_completedPlans s) \<subseteq> set (plan_ids s)"
    "\<And>p plan. dget (es_plans s) p = Some plan \<Longrightarrow> ps_status plan \<in> {PCompleted, PMerged} \<Longrightarrow>
       p \<in> set (es_completedPlans s)"
  shows "state_ok s"
  using assms by (auto simp: state_ok_def plan_ids_def)

lemma state_okD:
  assumes "state_ok s"
  shows "distinct (dkeys (es_plans s))" "distinct (es_completedPlans s)"
    "set (es_completedPlans s) \<subseteq> set (dkeys (es_plans s))"
    "dget (es_plans s) p = Some plan \<Longrightarrow> ps_status plan \<in> {PCompleted, PMerged} \<Longrightarrow>
       p \<in> set (es_completedPlans s)"
  using assms by (auto simp: state_ok_def plan_ids_def dest: map_of_SomeD)

lemma set_plan_status_plans [simp]:
  "es_plans (set_plan_status s p plan st) = dput p (plan\<lparr>ps_status := st\<rparr>) (es_plans s)"
  by (simp add: set_plan_status_def Let_def)

lemma set_plan_status_completed:
  "es_completedPlans (set_plan_status s p plan st) =
     (if st = PCompleted \<or> st = PMerged then sadd p (es_completedPlans s) else es_completedPlans s)"
  by (auto simp: set_plan_status_def Let_def sadd_def)

lemma set_plan_status_ok:
  assumes "state_ok s" and "dget (es_plans s) p = Some plan"
  shows "state_ok (set_plan_status s p plan st)"
proof (rule state_okI)
  note ok = state_okD [OF assms(1)]
  show "distinct (plan_ids (set_plan_status s p plan st))"
    using ok(1) by (simp add: plan_ids_def)
  show "distinct (es_completedPlans (set_plan_status s p plan st))"
    using ok(2) by (simp add: set_plan_status_completed)
  show "set (es_completedPlans (set_plan_status s p plan st))
        \<subseteq> set (plan_ids (set_plan_status s p plan st))"
    using ok(3) by (auto simp: plan_ids_def set_plan_status_completed)
  show "q \<in> set (es_completedPlans (set_plan_status s p plan st))"
    if "dget (es_plans (set_plan_status s p plan st)) q = Some plan'"
      and "ps_status plan' \<in> {PCompleted, PMerged}" for q plan'
    using that ok(4) [of q] by (auto simp: set_plan_status_completed split: if_splits)
qed

text \<open>Rewriting a plan's record without touching its status keeps a state well formed.\<close>

lemma dput_same_status_ok:
  assumes "state_ok s" and "dget (es_plans s) p = Some plan" and "ps_status plan' = ps_status plan"
  shows "state_ok (s\<lparr>es_plans := dput p plan' (es_plans s)\<rparr>)"
proof (rule state_okI)
  note ok = state_okD [OF assms(1)]
  show "distinct (plan_ids (s\<lparr>es_plans := dput p plan' (es_plans s)\<rparr>))"
    using ok(1) by (simp add: plan_ids_def)
  show "distinct (es_completedPlans (s\<lparr>es_plans := dput p plan' (es_plans s)\<rparr>))"
    using ok(2) by simp
  show "set (es_completedPlans (s\<lparr>es_plans := dput p plan' (es_plans s)\<rparr>))
        \<subseteq> set (plan_ids (s\<lparr>es_plans := dput p plan' (es_plans s)\<rparr>))"
    using ok(3) by (auto simp: plan_ids_def)
  show "q \<in> set (es_completedPlans (s\<lparr>es_plans := dput p plan' (es_plans s)\<rparr>))"
    if "dget (es_plans (s\<lparr>es_plans := dput p plan' (es_plans s)\<rparr>)) q = Some r"
      and "ps_status r \<in> {PCompleted, PMerged}" for q r
    using that ok(4) [of q] ok(4) [of p plan] assms(2,3) by (auto split: if_splits)
qed

lemma mutateState_ok:
  assumes ok: "state_ok s"
  shows "state_ok (mutateState s ev)"
proof -
  have path: "state_ok (s\<lparr>es_mergeWorktreePath := x\<rparr>)" for x
    using ok by (simp add: state_ok_def plan_ids_def)
  show ?thesis
    by (cases ev)
       (simp_all add: mutateState_def ok path set_plan_status_ok dput_same_status_ok
          split: option.splits)
qed

section \<open>What a transition does\<close>

text \<open>The plan record after a legal transition.\<close>

definition moved :: "plan_state \<Rightarrow> plan_status \<Rightarrow> string option \<Rightarrow> plan_state" where
  "moved plan to err =
     (case err of None \<Rightarrow> plan\<lparr>ps_status := to\<rparr> | Some m \<Rightarrow> plan\<lparr>ps_status := to, ps_error := Some m\<rparr>)"

lemma moved_simps [simp]:
  "ps_status (moved plan to err) = to"
  "ps_dependsOn (moved plan to err) = ps_dependsOn plan"
  "ps_merged (moved plan to err) = ps_merged plan"
  "ps_branch (moved plan to err) = ps_branch plan"
  by (simp_all add: moved_def split: option.splits)

lemma transitionPlan_InrE:
  assumes "transitionPlan s p to err = Inr (s', evs)"
  obtains plan where "dget (es_plans s) p = Some plan"
    and "to \<in> set (VALID_TRANSITIONS (ps_status plan))"
    and "\<And>q. dget (es_plans s') q = (if q = p then Some (moved plan to err) else dget (es_plans s) q)"
    and "es_completedPlans s' =
           (if to = PCompleted \<or> to = PMerged then sadd p (es_completedPlans s)
            else es_completedPlans s)"
    and "es_status s' = es_status s"
    and "dkeys (es_plans s') = dkeys (es_plans s)"
proof -
  from assms obtain plan where plan: "dget (es_plans s) p = Some plan"
    and legal: "to \<in> set (VALID_TRANSITIONS (ps_status plan))"
    by (auto simp: transitionPlan_def split: option.splits if_splits)
  show thesis
  proof (rule that [OF plan legal])
    show "dget (es_plans s') q = (if q = p then Some (moved plan to err) else dget (es_plans s) q)" for q
      using assms plan legal
      by (auto simp: transitionPlan_def Let_def moved_def split: option.splits if_splits)
    show "es_completedPlans s' =
            (if to = PCompleted \<or> to = PMerged then sadd p (es_completedPlans s)
             else es_completedPlans s)"
      using assms plan legal
      by (auto simp: transitionPlan_def Let_def set_plan_status_completed split: option.splits if_splits)
    show "es_status s' = es_status s"
      using assms plan legal
      by (auto simp: transitionPlan_def Let_def set_plan_status_def split: option.splits if_splits)
    show "dkeys (es_plans s') = dkeys (es_plans s)"
      using assms plan legal
      by (auto simp: transitionPlan_def Let_def split: option.splits if_splits)
  qed
qed

lemma transitionPlan_ok:
  "state_ok s \<Longrightarrow> transitionPlan s p to err = Inr (s', evs) \<Longrightarrow> state_ok s'"
  by (auto simp: transitionPlan_def Let_def simp del: mutateState_simps
      split: option.splits if_splits intro!: mutateState_ok)

lemma transitionPlan_succeeds_iff:
  "(\<exists>r. transitionPlan s p to err = Inr r) \<longleftrightarrow>
   (\<exists>plan. dget (es_plans s) p = Some plan \<and> to \<in> set (VALID_TRANSITIONS (ps_status plan)))"
  by (auto simp: transitionPlan_def Let_def split: option.splits if_splits)

section \<open>Runs of the life cycle\<close>

text \<open>One request to move a plan; a refused one is the thrown error.\<close>

definition lifecycle_step ::
    "eforge_state \<Rightarrow> plan_id \<times> plan_status \<times> string option \<Rightarrow> eforge_state option" where
  "lifecycle_step s r =
     (case r of (p, to, err) \<Rightarrow>
        (case transitionPlan s p to err of Inl _ \<Rightarrow> None | Inr (s', _) \<Rightarrow> Some s'))"

lemma lifecycle_step_SomeD:
  "lifecycle_step s (p, to, err) = Some s' \<Longrightarrow> \<exists>evs. transitionPlan s p to err = Inr (s', evs)"
  by (auto simp: lifecycle_step_def split: sum.splits)

interpretation lifecycle: machine lifecycle_step state_ok
  by unfold_locales (auto dest!: lifecycle_step_SomeD intro: transitionPlan_ok)

lemma lifecycle_step_other:
  assumes "lifecycle_step s (p, to, err) = Some s'" and "q \<noteq> p"
  shows "dget (es_plans s') q = dget (es_plans s) q"
  using lifecycle_step_SomeD [OF assms(1)] assms(2) by (auto elim: transitionPlan_InrE)

lemma lifecycle_step_merged:
  assumes "dget (es_plans s) q = Some plan" and "ps_status plan = PMerged"
    and "lifecycle_step s r = Some s'"
  shows "dget (es_plans s') q = Some plan"
proof (cases r)
  case (fields p to err)
  from assms(3) obtain evs where t: "transitionPlan s p to err = Inr (s', evs)"
    unfolding fields by (blast dest: lifecycle_step_SomeD)
  from t show ?thesis
  proof (rule transitionPlan_InrE)
    fix old
    assume "dget (es_plans s) p = Some old" "to \<in> set (VALID_TRANSITIONS (ps_status old))"
      "\<And>q. dget (es_plans s') q = (if q = p then Some (moved old to err) else dget (es_plans s) q)"
    with assms(1,2) show ?thesis by (cases "q = p") auto
  qed
qed

lemma lifecycle_step_completed:
  assumes "state_ok s" and "lifecycle_step s (p, to, err) = Some s'"
  shows "set (es_completedPlans s') =
           (if to = PCompleted then insert p (set (es_completedPlans s)) else set (es_completedPlans s))"
proof -
  from assms(2) obtain evs where t: "transitionPlan s p to err = Inr (s', evs)"
    by (blast dest: lifecycle_step_SomeD)
  from t show ?thesis
  proof (rule transitionPlan_InrE)
    fix plan
    assume plan: "dget (es_plans s) p = Some plan"
      and legal: "to \<in> set (VALID_TRANSITIONS (ps_status plan))"
      and c: "es_completedPlans s' =
           (if to = PCompleted \<or> to = PMerged then sadd p (es_completedPlans s)
            else es_completedPlans s)"
    have "p \<in> set (es_completedPlans s)" if "to = PMerged"
    proof -
      from legal that have "ps_status plan = PCompleted" by (cases "ps_status plan") auto
      with state_okD(4) [OF assms(1) plan] show ?thesis by simp
    qed
    with c show ?thesis by auto
  qed
qed

lemma lifecycle_run_completed:
  assumes "state_ok s" and "lifecycle.run s rs = Some s'"
  shows "set (es_completedPlans s') =
           set (es_completedPlans s) \<union> {p. \<exists>err. (p, PCompleted, err) \<in> set rs}"
  using assms
proof (induction rs arbitrary: s)
  case Nil
  then show ?case by simp
next
  case (Cons r rs)
  obtain p to err where r: "r = (p, to, err)" by (cases r)
  from Cons.prems r obtain s1 where st: "lifecycle_step s (p, to, err) = Some s1"
    and run: "lifecycle.run s1 rs = Some s'"
    by (auto split: option.splits)
  have "state_ok s1" using Cons.prems(1) st by (rule lifecycle.step_inv)
  from Cons.IH [OF this run] lifecycle_step_completed [OF Cons.prems(1) st] r
  show ?case by auto
qed

section \<open>The initial state\<close>

lemma init_plans_fold:
  "dget (fold (\<lambda>p m. dput (pe_id p) (plan_state_of p) m) ps m) q =
     (case List.find (\<lambda>p. pe_id p = q) (rev ps) of
        Some p \<Rightarrow> Some (plan_state_of p) | None \<Rightarrow> dget m q)"
proof (induction ps arbitrary: m)
  case Nil
  then show ?case by simp
next
  case (Cons p ps)
  have "List.find f (xs @ [x]) =
          (case List.find f xs of Some y \<Rightarrow> Some y | None \<Rightarrow> if f x then Some x else None)"
    for f and xs :: "plan_entry list" and x
    by (induction xs) auto
  with Cons show ?case by (auto split: option.splits)
qed

lemma init_plans_distinct:
  "distinct (dkeys m) \<Longrightarrow>
   distinct (dkeys (fold (\<lambda>p m. dput (pe_id p) (plan_state_of p) m) ps m))"
  by (induction ps arbitrary: m) (auto simp del: distinct_map)

lemma init_plans_keys:
  "fst ` set (fold (\<lambda>p m. dput (pe_id p) (plan_state_of p) m) ps m) = fst ` set m \<union> pe_id ` set ps"
  by (induction ps arbitrary: m) auto

lemma initializeState_plans:
  "dget (es_plans (initializeState config wb)) q =
     map_option plan_state_of (List.find (\<lambda>p. pe_id p = q) (rev (oc_plans config)))"
  by (auto simp: initializeState_def init_plans_fold split: option.splits)

lemma initializeState_pending:
  "dget (es_plans (initializeState config wb)) q = Some plan \<Longrightarrow>
   ps_status plan = PPending \<and> \<not> ps_merged plan"
  by (auto simp: initializeState_plans plan_state_of_def)

lemma initializeState_ok: "state_ok (initializeState config wb)"
proof (rule state_okI)
  show "distinct (plan_ids (initializeState config wb))"
    by (simp add: plan_ids_def initializeState_def init_plans_distinct del: distinct_map)
  show "q \<in> set (es_completedPlans (initializeState config wb))"
    if "dget (es_plans (initializeState config wb)) q = Some plan"
      and "ps_status plan \<in> {PCompleted, PMerged}" for q plan
    using initializeState_pending [OF that(1)] that(2) by simp
qed (simp_all add: initializeState_def)

section \<open>Resuming\<close>

lemma applyResumeSeed_step:
  assumes "dget (es_plans s) p = Some plan"
  shows "applyResumeSeed s (p # ps) =
     applyResumeSeed
       ((set_plan_status s p plan PMerged)
          \<lparr>es_plans := dput p (plan\<lparr>ps_status := PMerged, ps_merged := True\<rparr>)
             (dput p (plan\<lparr>ps_status := PMerged\<rparr>) (es_plans s))\<rparr>) ps"
  using assms by (simp add: Let_def)

lemma applyResumeSeed_plans:
  "dget (es_plans (applyResumeSeed s seed)) q =
     (if q \<in> set seed
      then map_option (\<lambda>plan. plan\<lparr>ps_status := PMerged, ps_merged := True\<rparr>) (dget (es_plans s) q)
      else dget (es_plans s) q)"
proof (induction seed arbitrary: s)
  case Nil
  then show ?case by simp
next
  case (Cons p ps)
  show ?case
  proof (cases "dget (es_plans s) p")
    case None
    with Cons.IH [of s] show ?thesis by (cases "q = p") auto
  next
    case (Some plan)
    then show ?thesis
      by (simp only: applyResumeSeed_step [OF Some] Cons.IH) auto
  qed
qed

lemma applyResumeSeed_ok: "state_ok s \<Longrightarrow> state_ok (applyResumeSeed s seed)"
proof (induction seed arbitrary: s)
  case Nil
  then show ?case by simp
next
  case (Cons p ps)
  show ?case
  proof (cases "dget (es_plans s) p")
    case None
    with Cons show ?thesis by simp
  next
    case (Some plan)
    have ok1: "state_ok (set_plan_status s p plan PMerged)"
      using Cons.prems Some by (rule set_plan_status_ok)
    have "state_ok ((set_plan_status s p plan PMerged)
          \<lparr>es_plans := dput p (plan\<lparr>ps_status := PMerged, ps_merged := True\<rparr>)
             (es_plans (set_plan_status s p plan PMerged))\<rparr>)"
      by (rule dput_same_status_ok [OF ok1, where plan = "plan\<lparr>ps_status := PMerged\<rparr>"]) simp_all
    from Cons.IH [OF this] show ?thesis
      by (simp only: applyResumeSeed_step [OF Some] set_plan_status_plans)
  qed
qed

section \<open>Properties\<close>

text \<open>
  C37. The life cycle never loses or corrupts a build's bookkeeping: after any accepted
  sequence of plan moves from a freshly initialised build, the state is well formed and
  \<open>completedPlans\<close> holds exactly the plans that were moved to \<open>completed\<close> at some point
  of the sequence (and each of them once).
\<close>

theorem completedPlans_exact:
  assumes "lifecycle.run (initializeState config wb) rs = Some s"
  shows "state_ok s \<and> distinct (es_completedPlans s) \<and>
         set (es_completedPlans s) = {p. \<exists>err. (p, PCompleted, err) \<in> set rs}"
proof -
  have ok: "state_ok s"
    using initializeState_ok assms by (rule lifecycle.run_inv)
  have "set (es_completedPlans s) = {p. \<exists>err. (p, PCompleted, err) \<in> set rs}"
    using lifecycle_run_completed [OF initializeState_ok assms] by (simp add: initializeState_def)
  with ok show ?thesis by (simp add: state_okD(2))
qed

definition demo_plan :: "string \<Rightarrow> string list \<Rightarrow> plan_entry" where
  "demo_plan i deps =
     \<lparr>pe_id = i, pe_name = i, pe_dependsOn = deps, pe_branch = ''b/'' @ i, pe_allowNoOpMerge = False\<rparr>"

definition demo_config :: orchestration_config where
  "demo_config =
     \<lparr>oc_name = ''set'', oc_description = ''d'', oc_baseBranch = ''main'', oc_diffBaseRef = None,
      oc_stackedValidationPinRequired = False,
      oc_plans = [demo_plan ''a'' [], demo_plan ''b'' [''a'']]\<rparr>"

theorem completedPlans_exact_witness:
  "\<exists>s. lifecycle.run (initializeState demo_config ''w'')
         [(''a'', PRunning, None), (''a'', PCompleted, None), (''a'', PMerged, None)] = Some s \<and>
       set (es_completedPlans s) = {''a''}"
proof -
  let ?rs = "[(''a'', PRunning, None), (''a'', PCompleted, None), (''a'', PMerged, None)]
               :: (plan_id \<times> plan_status \<times> string option) list"
  obtain s where s: "lifecycle.run (initializeState demo_config ''w'') ?rs = Some s"
    by (simp add: lifecycle_step_def transitionPlan_def initializeState_def demo_config_def
        demo_plan_def plan_state_of_def set_plan_status_def Let_def)
  from completedPlans_exact [OF s] have "set (es_completedPlans s) = {''a''}" by auto
  with s show ?thesis by blast
qed

text \<open>
  A merged plan is final: whatever moves are requested afterwards, of this plan or of
  others, its whole record (status, dependencies, branch, error) stays as it is.
\<close>

theorem merged_plan_is_final:
  assumes "state_ok s"
    and "dget (es_plans s) p = Some plan" and "ps_status plan = PMerged"
    and "lifecycle.run s rs = Some s'"
  shows "dget (es_plans s') p = Some plan"
  by (rule lifecycle.run_stable [where P = "\<lambda>s. dget (es_plans s) p = Some plan", OF _ assms(1,2,4)])
     (rule lifecycle_step_merged [OF _ assms(3)])

theorem merged_plan_is_final_witness:
  "\<exists>s. lifecycle.run (applyResumeSeed (initializeState demo_config ''w'') [''a''])
         [(''b'', PRunning, None)] = Some s \<and>
       plan_status_of s ''a'' = Some PMerged"
proof -
  let ?s0 = "applyResumeSeed (initializeState demo_config ''w'') [''a'']"
  have ok: "state_ok ?s0" by (rule applyResumeSeed_ok [OF initializeState_ok])
  have a: "dget (es_plans ?s0) ''a'' =
      Some ((plan_state_of (demo_plan ''a'' []))\<lparr>ps_status := PMerged, ps_merged := True\<rparr>)"
    by (simp add: applyResumeSeed_plans initializeState_plans demo_config_def demo_plan_def)
  have b: "dget (es_plans ?s0) ''b'' = Some (plan_state_of (demo_plan ''b'' [''a'']))"
    by (simp add: applyResumeSeed_plans initializeState_plans demo_config_def demo_plan_def)
  obtain s where s: "lifecycle.run ?s0 [(''b'', PRunning, None)] = Some s"
    using b by (simp add: lifecycle_step_def transitionPlan_def plan_state_of_def)
  from merged_plan_is_final [OF ok a _ s] s show ?thesis by auto
qed

text \<open>
  Resuming seeds exactly the plans with merge evidence: a seeded plan that still exists is
  \<open>merged\<close> (status and flag), every other plan of the configuration starts \<open>pending\<close>, ids
  that are no longer in the configuration are ignored, and the state is well formed.
\<close>

theorem resume_seed_exact:
  "state_ok (applyResumeSeed (initializeState config wb) seed) \<and>
   plan_status_of (applyResumeSeed (initializeState config wb) seed) p =
     (if p \<notin> pe_id ` set (oc_plans config) then None
      else if p \<in> set seed then Some PMerged else Some PPending)"
proof -
  have none: "dget (es_plans (initializeState config wb)) p = None \<longleftrightarrow> p \<notin> pe_id ` set (oc_plans config)"
    by (auto simp: initializeState_plans find_None_iff)
  then show ?thesis
    by (cases "dget (es_plans (initializeState config wb)) p")
       (auto simp: applyResumeSeed_ok initializeState_ok applyResumeSeed_plans
         dest: initializeState_pending)
qed

end
