(* ===== verification/Concurrency.thy ===== *)
theory Concurrency
  imports Prelude
begin

text \<open>
  \<open>packages/engine/src/concurrency.ts\<close>: the counting semaphore, the multi-producer
  single-consumer event queue and \<open>runParallel\<close>, which composes them. A promise that is
  still pending is a waiter's identity kept in the state; resolving it is the operation's
  second result. The lemmas bound the permits in use, show the hand-over is first come
  first served, and show the queue loses, duplicates and reorders nothing while a producer
  is registered.
\<close>

section \<open>Semaphore\<close>

record 'w semaphore =
  sem_permits :: int
  sem_waitQueue :: "'w list"

datatype semaphore_error = NeedsOnePermit

definition sem_new :: "int \<Rightarrow> (semaphore_error, 'w semaphore) result" where
  "sem_new n = (if n < 1 then Inl NeedsOnePermit
                else Inr \<lparr>sem_permits = n, sem_waitQueue = []\<rparr>)"

text \<open>\<open>acquire\<close>: the second component says whether the returned promise is already resolved.\<close>

definition sem_acquire :: "'w \<Rightarrow> 'w semaphore \<Rightarrow> 'w semaphore \<times> bool" where
  "sem_acquire w s =
     (if sem_permits s > 0 then (s\<lparr>sem_permits := sem_permits s - 1\<rparr>, True)
      else (s\<lparr>sem_waitQueue := sem_waitQueue s @ [w]\<rparr>, False))"

text \<open>\<open>release\<close>: the second component is the waiter whose promise it resolves.\<close>

definition sem_release :: "'w semaphore \<Rightarrow> 'w semaphore \<times> 'w option" where
  "sem_release s =
     (case sem_waitQueue s of
        [] \<Rightarrow> (s\<lparr>sem_permits := sem_permits s + 1\<rparr>, None)
      | w # ws \<Rightarrow> (s\<lparr>sem_waitQueue := ws\<rparr>, Some w))"

text \<open>
  The clients of one semaphore: who holds a permit, every request made and every grant
  given, in order. A client releases only a permit it holds (\<open>runParallel\<close>'s
  \<open>if (acquired) semaphore.release()\<close>).
\<close>

record 'w sem_system =
  ss_sem :: "'w semaphore"
  ss_holders :: "'w list"
  ss_requests :: "'w list"
  ss_grants :: "'w list"

datatype 'w sem_event = Acquire 'w | Release 'w

definition sem_request :: "'w \<Rightarrow> 'w sem_system \<Rightarrow> 'w sem_system" where
  "sem_request w s =
     (case sem_acquire w (ss_sem s) of
        (sem, True) \<Rightarrow> s\<lparr>ss_sem := sem, ss_holders := ss_holders s @ [w],
                        ss_requests := ss_requests s @ [w], ss_grants := ss_grants s @ [w]\<rparr>
      | (sem, False) \<Rightarrow> s\<lparr>ss_sem := sem, ss_requests := ss_requests s @ [w]\<rparr>)"

fun sem_step :: "'w sem_system \<Rightarrow> 'w sem_event \<Rightarrow> 'w sem_system option" where
  "sem_step s (Acquire w) = Some (sem_request w s)"
| "sem_step s (Release w) =
     (if w \<notin> set (ss_holders s) then None
      else (case sem_release (ss_sem s) of
              (sem, None) \<Rightarrow> Some (s\<lparr>ss_sem := sem, ss_holders := remove1 w (ss_holders s)\<rparr>)
            | (sem, Some v) \<Rightarrow>
                Some (s\<lparr>ss_sem := sem, ss_holders := remove1 w (ss_holders s) @ [v],
                        ss_grants := ss_grants s @ [v]\<rparr>)))"

definition sem_system_of :: "'w semaphore \<Rightarrow> 'w sem_system" where
  "sem_system_of sem = \<lparr>ss_sem = sem, ss_holders = [], ss_requests = [], ss_grants = []\<rparr>"

definition sem_inv :: "int \<Rightarrow> 'w sem_system \<Rightarrow> bool" where
  "sem_inv n s \<longleftrightarrow>
     sem_permits (ss_sem s) \<ge> 0 \<and>
     sem_permits (ss_sem s) + int (length (ss_holders s)) = n \<and>
     (sem_waitQueue (ss_sem s) \<noteq> [] \<longrightarrow> sem_permits (ss_sem s) = 0) \<and>
     ss_requests s = ss_grants s @ sem_waitQueue (ss_sem s)"

lemma sem_step_inv: "sem_inv n s \<Longrightarrow> sem_step s e = Some s' \<Longrightarrow> sem_inv n s'"
  by (cases e)
     (auto simp: sem_inv_def sem_request_def sem_acquire_def sem_release_def int_length_remove1
       split: if_splits list.splits)

interpretation sem: machine sem_step "sem_inv n" for n
  by unfold_locales (rule sem_step_inv)

lemma sem_new_inv: "sem_new n = Inr sem \<Longrightarrow> sem_inv n (sem_system_of sem)"
  by (auto simp: sem_new_def sem_inv_def sem_system_of_def split: if_splits)

section \<open>The event queue\<close>

text \<open>
  \<open>aq_waiting\<close>: a consumer's \<open>next()\<close> promise is parked. What the consumer receives from
  an operation is its second result.
\<close>

record 'a event_queue =
  aq_queue :: "'a list"
  aq_waiting :: bool
  aq_producers :: int
  aq_done :: bool

datatype 'a received = Value 'a | Finished

definition aq_new :: "'a event_queue" where
  "aq_new = \<lparr>aq_queue = [], aq_waiting = False, aq_producers = 0, aq_done = False\<rparr>"

definition aq_addProducer :: "'a event_queue \<Rightarrow> 'a event_queue" where
  "aq_addProducer q = q\<lparr>aq_producers := aq_producers q + 1, aq_done := False\<rparr>"

definition aq_removeProducer :: "'a event_queue \<Rightarrow> 'a event_queue \<times> 'a received option" where
  "aq_removeProducer q =
     (let q1 = q\<lparr>aq_producers := aq_producers q - 1\<rparr>
      in if aq_producers q1 \<le> 0
         then (let q2 = q1\<lparr>aq_done := True\<rparr>
               in if aq_waiting q2 then (q2\<lparr>aq_waiting := False\<rparr>, Some Finished) else (q2, None))
         else (q1, None))"

definition aq_push :: "'a \<Rightarrow> 'a event_queue \<Rightarrow> 'a event_queue \<times> 'a received option" where
  "aq_push x q =
     (if aq_done q then (q, None)
      else if aq_waiting q then (q\<lparr>aq_waiting := False\<rparr>, Some (Value x))
      else (q\<lparr>aq_queue := aq_queue q @ [x]\<rparr>, None))"

definition aq_drainAvailable :: "'a event_queue \<Rightarrow> 'a event_queue \<times> 'a list" where
  "aq_drainAvailable q = (q\<lparr>aq_queue := []\<rparr>, aq_queue q)"

text \<open>\<open>next()\<close> of the async iterator: \<open>None\<close> is a parked promise.\<close>

definition aq_next :: "'a event_queue \<Rightarrow> 'a event_queue \<times> 'a received option" where
  "aq_next q =
     (case aq_queue q of
        x # xs \<Rightarrow> (q\<lparr>aq_queue := xs\<rparr>, Some (Value x))
      | [] \<Rightarrow> if aq_done q then (q, Some Finished) else (q\<lparr>aq_waiting := True\<rparr>, None))"

text \<open>
  One consumer over the queue: \<open>qs_pushed\<close> is what producers pushed while the queue was
  open, \<open>qs_seen\<close> what the consumer received, \<open>qs_finished\<close> that it saw the end. The
  consumer is a \<open>for await\<close> loop: it asks for the next event only when it has no request
  parked and has not seen the end.
\<close>

record 'a queue_system =
  qs_q :: "'a event_queue"
  qs_pushed :: "'a list"
  qs_seen :: "'a list"
  qs_finished :: bool

datatype 'a queue_event = AddProducer | RemoveProducer | Push 'a | Drain | Next

definition receive :: "'a received option \<Rightarrow> 'a queue_system \<Rightarrow> 'a queue_system" where
  "receive r s =
     (case r of None \<Rightarrow> s
      | Some (Value x) \<Rightarrow> s\<lparr>qs_seen := qs_seen s @ [x]\<rparr>
      | Some Finished \<Rightarrow> s\<lparr>qs_finished := True\<rparr>)"

fun queue_step :: "'a queue_system \<Rightarrow> 'a queue_event \<Rightarrow> 'a queue_system option" where
  "queue_step s AddProducer = Some (s\<lparr>qs_q := aq_addProducer (qs_q s)\<rparr>)"
| "queue_step s RemoveProducer =
     (case aq_removeProducer (qs_q s) of (q, r) \<Rightarrow> Some (receive r (s\<lparr>qs_q := q\<rparr>)))"
| "queue_step s (Push x) =
     (case aq_push x (qs_q s) of (q, r) \<Rightarrow>
        Some (receive r (s\<lparr>qs_q := q,
          qs_pushed := (if aq_done (qs_q s) then qs_pushed s else qs_pushed s @ [x])\<rparr>)))"
| "queue_step s Drain =
     (case aq_drainAvailable (qs_q s) of (q, xs) \<Rightarrow>
        Some (s\<lparr>qs_q := q, qs_seen := qs_seen s @ xs\<rparr>))"
| "queue_step s Next =
     (if aq_waiting (qs_q s) \<or> qs_finished s then None
      else (case aq_next (qs_q s) of (q, r) \<Rightarrow> Some (receive r (s\<lparr>qs_q := q\<rparr>))))"

definition queue_system_new :: "'a queue_system" where
  "queue_system_new = \<lparr>qs_q = aq_new, qs_pushed = [], qs_seen = [], qs_finished = False\<rparr>"

definition queue_inv :: "'a queue_system \<Rightarrow> bool" where
  "queue_inv s \<longleftrightarrow>
     qs_seen s @ aq_queue (qs_q s) = qs_pushed s \<and>
     (aq_waiting (qs_q s) \<longrightarrow> aq_queue (qs_q s) = [] \<and> \<not> aq_done (qs_q s)) \<and>
     (aq_done (qs_q s) \<longrightarrow> aq_producers (qs_q s) \<le> 0)"

lemmas aq_defs = aq_addProducer_def aq_removeProducer_def aq_push_def aq_drainAvailable_def
  aq_next_def receive_def Let_def

lemma queue_step_inv: "queue_inv s \<Longrightarrow> queue_step s e = Some s' \<Longrightarrow> queue_inv s'"
  by (cases e) (auto simp: queue_inv_def aq_defs split: if_splits list.splits)

interpretation eq: machine queue_step queue_inv
  by unfold_locales (rule queue_step_inv)

lemma queue_new_inv: "queue_inv queue_system_new"
  by (simp add: queue_inv_def queue_system_new_def aq_new_def)

section \<open>runParallel\<close>

text \<open>
  A task is the events its generator yields followed by its outcome: a normal return or a
  thrown error. \<open>rp_log\<close> records which task pushed what. The tasks that still own a
  producer are \<open>rp_open\<close>; \<open>rp_fatal\<close> is \<open>fatalErrors\<close>.
\<close>

type_synonym ('a, 'x) task = "'a list \<times> 'x option"

record ('a, 'x) rp_state =
  rp_sem :: "nat sem_system"
  rp_qs :: "'a queue_system"
  rp_rest :: "nat \<Rightarrow> 'a list"
  rp_open :: "nat list"
  rp_log :: "(nat \<times> 'a) list"
  rp_fatal :: "'x list"

datatype rp_event = Emit nat | Finish nat | Consume

text \<open>
  The synchronous prologue of every task function (\<open>addProducer\<close> and the call of
  \<open>acquire\<close>) runs inside \<open>tasks.map\<close>, before the consumer loop starts. An empty task list
  returns at once (\<open>Inr None\<close>).
\<close>

fun rp_prologue :: "nat list \<Rightarrow> nat sem_system \<Rightarrow> 'a event_queue
    \<Rightarrow> nat sem_system \<times> 'a event_queue" where
  "rp_prologue [] ss q = (ss, q)"
| "rp_prologue (i # is) ss q = rp_prologue is (sem_request i ss) (aq_addProducer q)"

definition rp_start ::
    "('a, 'x) task list \<Rightarrow> int \<Rightarrow> (semaphore_error, ('a, 'x) rp_state option) result" where
  "rp_start tasks parallelism =
     (if tasks = [] then Inr None
      else case sem_new parallelism of
        Inl e \<Rightarrow> Inl e
      | Inr sem \<Rightarrow>
          (case rp_prologue [0..<length tasks] (sem_system_of sem) aq_new of
             (ss, q) \<Rightarrow>
               Inr (Some \<lparr>rp_sem = ss, rp_qs = queue_system_new\<lparr>qs_q := q\<rparr>,
                    rp_rest = (\<lambda>i. if i < length tasks then fst (tasks ! i) else []),
                    rp_open = [0..<length tasks], rp_log = [], rp_fatal = []\<rparr>)))"

definition rp_step ::
    "('a, 'x) task list \<Rightarrow> ('x \<Rightarrow> bool) \<Rightarrow> ('a, 'x) rp_state \<Rightarrow> rp_event \<Rightarrow> ('a, 'x) rp_state option" where
  "rp_step tasks rethrowIf s ev =
     (case ev of
        Emit i \<Rightarrow>
          (if i \<notin> set (ss_holders (rp_sem s)) then None
           else (case rp_rest s i of
                   [] \<Rightarrow> None
                 | x # xs \<Rightarrow>
                     map_option (\<lambda>qs. s\<lparr>rp_qs := qs, rp_rest := (rp_rest s)(i := xs),
                                        rp_log := rp_log s @ [(i, x)]\<rparr>)
                       (queue_step (rp_qs s) (Push x))))
      | Finish i \<Rightarrow>
          (if i \<notin> set (ss_holders (rp_sem s)) \<or> rp_rest s i \<noteq> [] then None
           else (case sem_step (rp_sem s) (Release i) of
                   None \<Rightarrow> None
                 | Some ss \<Rightarrow>
                     map_option (\<lambda>qs. s\<lparr>rp_sem := ss, rp_qs := qs, rp_open := remove1 i (rp_open s),
                         rp_fatal := rp_fatal s @
                           (case snd (tasks ! i) of Some x \<Rightarrow> if rethrowIf x then [x] else [] | None \<Rightarrow> [])\<rparr>)
                       (queue_step (rp_qs s) RemoveProducer)))
      | Consume \<Rightarrow> map_option (\<lambda>qs. s\<lparr>rp_qs := qs\<rparr>) (queue_step (rp_qs s) Next))"

definition rp_inv :: "('a, 'x) task list \<Rightarrow> int \<Rightarrow> ('a, 'x) rp_state \<Rightarrow> bool" where
  "rp_inv tasks n s \<longleftrightarrow>
     n \<ge> 1 \<and> sem_inv n (rp_sem s) \<and> queue_inv (rp_qs s) \<and>
     distinct (rp_open s) \<and> set (rp_open s) \<subseteq> {0..<length tasks} \<and>
     mset (rp_open s) = mset (ss_holders (rp_sem s)) + mset (sem_waitQueue (ss_sem (rp_sem s))) \<and>
     aq_producers (qs_q (rp_qs s)) = int (length (rp_open s)) \<and>
     (aq_done (qs_q (rp_qs s)) \<longleftrightarrow> rp_open s = []) \<and>
     map snd (rp_log s) = qs_pushed (rp_qs s) \<and>
     (\<forall>i < length tasks.
        map snd (filter (\<lambda>p. fst p = i) (rp_log s)) @ rp_rest s i = fst (tasks ! i)) \<and>
     (\<forall>i < length tasks. i \<notin> set (rp_open s) \<longrightarrow> rp_rest s i = []) \<and>
     (qs_finished (rp_qs s) \<longrightarrow> aq_queue (qs_q (rp_qs s)) = [] \<and> aq_done (qs_q (rp_qs s)))"

subsection \<open>The invariant\<close>

lemma rp_prologue_sem_inv: "sem_inv n ss \<Longrightarrow> sem_inv n (fst (rp_prologue is ss q))"
proof (induction "is" arbitrary: ss q)
  case Nil
  then show ?case by simp
next
  case (Cons i "is")
  have "sem_inv n (sem_request i ss)" by (rule sem_step_inv [OF Cons.prems, of "Acquire i"]) simp
  then show ?case by (simp add: Cons.IH)
qed

lemma sem_request_mset:
  "mset (ss_holders (sem_request i ss)) + mset (sem_waitQueue (ss_sem (sem_request i ss))) =
   add_mset i (mset (ss_holders ss) + mset (sem_waitQueue (ss_sem ss)))"
  by (simp add: sem_request_def sem_acquire_def)

lemma rp_prologue_members:
  "mset (ss_holders (fst (rp_prologue is ss q))) + mset (sem_waitQueue (ss_sem (fst (rp_prologue is ss q)))) =
   mset (ss_holders ss) + mset (sem_waitQueue (ss_sem ss)) + mset is"
  by (induction "is" arbitrary: ss q) (simp_all add: sem_request_mset)

lemma rp_prologue_queue:
  "snd (rp_prologue is ss q) =
     q\<lparr>aq_producers := aq_producers q + int (length is),
       aq_done := (if is = [] then aq_done q else False)\<rparr>"
  by (induction "is" arbitrary: ss q) (auto simp: aq_addProducer_def)

lemma rp_start_inv:
  fixes tasks :: "('a, 'x) task list"
  assumes "rp_start tasks n = Inr (Some s)"
  shows "rp_inv tasks n s"
proof -
  from assms obtain sem ss q where ne: "tasks \<noteq> []" and sem: "sem_new n = Inr sem"
    and pro: "rp_prologue [0..<length tasks] (sem_system_of sem) aq_new = (ss, q)"
    and s: "s = \<lparr>rp_sem = ss, rp_qs = queue_system_new\<lparr>qs_q := q\<rparr>,
                    rp_rest = (\<lambda>i. if i < length tasks then fst (tasks ! i) else []),
                    rp_open = [0..<length tasks], rp_log = [], rp_fatal = []\<rparr>"
    by (auto simp: rp_start_def split: if_splits sum.splits prod.splits)
  have n: "n \<ge> 1" using sem by (auto simp: sem_new_def split: if_splits)
  have "sem_inv n ss"
    using rp_prologue_sem_inv [OF sem_new_inv [OF sem], of "[0..<length tasks]" "aq_new :: 'a event_queue"]
    by (simp only: pro fst_conv)
  moreover have "mset (ss_holders ss) + mset (sem_waitQueue (ss_sem ss)) = mset [0..<length tasks]"
    using rp_prologue_members [of "[0..<length tasks]" "sem_system_of sem" "aq_new :: 'a event_queue"] sem
    unfolding pro by (auto simp: sem_system_of_def sem_new_def split: if_splits)
  moreover have "q = aq_new\<lparr>aq_producers := int (length tasks), aq_done := False\<rparr>"
    using rp_prologue_queue [of "[0..<length tasks]" "sem_system_of sem" "aq_new :: 'a event_queue"] ne
    unfolding pro by (simp add: aq_new_def)
  ultimately show ?thesis
    using n ne by (simp add: rp_inv_def s queue_system_new_def queue_inv_def aq_new_def)
qed

lemma rp_invD:
  assumes "rp_inv tasks n s"
  shows "n \<ge> 1" "sem_inv n (rp_sem s)" "queue_inv (rp_qs s)" "distinct (rp_open s)"
    "set (rp_open s) \<subseteq> {0..<length tasks}"
    "mset (rp_open s) = mset (ss_holders (rp_sem s)) + mset (sem_waitQueue (ss_sem (rp_sem s)))"
    "aq_producers (qs_q (rp_qs s)) = int (length (rp_open s))"
    "aq_done (qs_q (rp_qs s)) \<longleftrightarrow> rp_open s = []"
    "map snd (rp_log s) = qs_pushed (rp_qs s)"
    "i < length tasks \<Longrightarrow> map snd (filter (\<lambda>p. fst p = i) (rp_log s)) @ rp_rest s i = fst (tasks ! i)"
    "i < length tasks \<Longrightarrow> i \<notin> set (rp_open s) \<Longrightarrow> rp_rest s i = []"
    "qs_finished (rp_qs s) \<Longrightarrow> aq_queue (qs_q (rp_qs s)) = [] \<and> aq_done (qs_q (rp_qs s))"
  using assms unfolding rp_inv_def by blast+

lemma rp_holder_open:
  "rp_inv tasks n s \<Longrightarrow> i \<in> set (ss_holders (rp_sem s)) \<Longrightarrow> i \<in> set (rp_open s)"
  by (metis UnCI rp_invD(6) set_mset_mset set_mset_union)

lemma rp_emit_inv:
  assumes inv: "rp_inv tasks n s" and step: "rp_step tasks f s (Emit i) = Some s'"
  shows "rp_inv tasks n s'"
proof -
  note D = rp_invD [OF inv]
  from step obtain x xs qs where hold: "i \<in> set (ss_holders (rp_sem s))"
    and rest: "rp_rest s i = x # xs" and qs: "queue_step (rp_qs s) (Push x) = Some qs"
    and s': "s' = s\<lparr>rp_qs := qs, rp_rest := (rp_rest s)(i := xs), rp_log := rp_log s @ [(i, x)]\<rparr>"
    by (auto simp: rp_step_def split: if_splits list.splits)
  have i_open: "i \<in> set (rp_open s)" using inv hold by (rule rp_holder_open)
  then have open_q: "\<not> aq_done (qs_q (rp_qs s))" using D(8) by auto
  have qinv: "queue_inv qs" using D(3) qs by (rule queue_step_inv)
  have "qs_pushed qs = qs_pushed (rp_qs s) @ [x]"
    and "aq_producers (qs_q qs) = aq_producers (qs_q (rp_qs s))"
    and "aq_done (qs_q qs) = aq_done (qs_q (rp_qs s))"
    and "qs_finished qs = qs_finished (rp_qs s)"
    using qs open_q by (auto simp: aq_defs split: if_splits)
  moreover have "\<not> qs_finished (rp_qs s)" using D(12) open_q by blast
  ultimately show ?thesis
    using D(1,2,4-9) D(10) D(10) [of i] D(11) rest qinv i_open
    by (auto simp: rp_inv_def s')
qed

lemma rp_finish_inv:
  assumes inv: "rp_inv tasks n s" and step: "rp_step tasks f s (Finish i) = Some s'"
  shows "rp_inv tasks n s'"
proof -
  note D = rp_invD [OF inv]
  from step obtain ss qs where hold: "i \<in> set (ss_holders (rp_sem s))"
    and rest: "rp_rest s i = []" and ss: "sem_step (rp_sem s) (Release i) = Some ss"
    and qs: "queue_step (rp_qs s) RemoveProducer = Some qs"
    and s': "s' = s\<lparr>rp_sem := ss, rp_qs := qs, rp_open := remove1 i (rp_open s),
                   rp_fatal := rp_fatal s @
                     (case snd (tasks ! i) of Some x \<Rightarrow> if f x then [x] else [] | None \<Rightarrow> [])\<rparr>"
    by (auto simp: rp_step_def split: if_splits option.splits)
  have i_open: "i \<in> set (rp_open s)" using inv hold by (rule rp_holder_open)
  have len: "int (length (remove1 i (rp_open s))) = int (length (rp_open s)) - 1"
    using i_open by (rule int_length_remove1)
  have open_q: "\<not> aq_done (qs_q (rp_qs s))" using D(8) i_open by auto
  have fin: "\<not> qs_finished (rp_qs s)" using D(12) open_q by blast
  have members: "mset (remove1 i (rp_open s)) =
      mset (ss_holders ss) + mset (sem_waitQueue (ss_sem ss))"
    using ss hold D(6) by (auto simp: sem_release_def split: list.splits)
  have sinv: "sem_inv n ss" using D(2) ss by (rule sem_step_inv)
  have qinv: "queue_inv qs" using D(3) qs by (rule queue_step_inv)
  have q: "aq_producers (qs_q qs) = aq_producers (qs_q (rp_qs s)) - 1"
    "aq_done (qs_q qs) \<longleftrightarrow> aq_producers (qs_q (rp_qs s)) \<le> 1"
    "qs_pushed qs = qs_pushed (rp_qs s)"
    "qs_finished qs \<Longrightarrow> aq_queue (qs_q qs) = [] \<and> aq_done (qs_q qs)"
    using qs open_q fin D(3) by (auto simp: aq_defs queue_inv_def split: if_splits)
  have done_iff: "aq_done (qs_q qs) \<longleftrightarrow> remove1 i (rp_open s) = []"
    using q(2) D(7) len by (cases "remove1 i (rp_open s)") auto
  show ?thesis
    using D(1,4,5,9) D(10) D(11) rest members sinv qinv q len D(7) done_iff
    by (auto simp: rp_inv_def s' dest: notin_set_remove1)
qed

lemma rp_consume_inv:
  assumes inv: "rp_inv tasks n s" and step: "rp_step tasks f s Consume = Some s'"
  shows "rp_inv tasks n s'"
proof -
  note D = rp_invD [OF inv]
  from step obtain qs where qs: "queue_step (rp_qs s) Next = Some qs" and s': "s' = s\<lparr>rp_qs := qs\<rparr>"
    by (auto simp: rp_step_def)
  have qinv: "queue_inv qs" using D(3) qs by (rule queue_step_inv)
  have q: "aq_producers (qs_q qs) = aq_producers (qs_q (rp_qs s))"
    "aq_done (qs_q qs) = aq_done (qs_q (rp_qs s))" "qs_pushed qs = qs_pushed (rp_qs s)"
    "qs_finished qs \<Longrightarrow> aq_queue (qs_q qs) = [] \<and> aq_done (qs_q qs)"
    using qs D(12) by (auto simp: aq_defs split: if_splits list.splits)
  show ?thesis
    using D(1,2,4-9) D(10) D(11) qinv q by (simp add: rp_inv_def s')
qed

lemma rp_step_inv: "rp_inv tasks n s \<Longrightarrow> rp_step tasks f s ev = Some s' \<Longrightarrow> rp_inv tasks n s'"
  by (cases ev) (auto intro: rp_emit_inv rp_finish_inv rp_consume_inv)

interpretation rp: machine "rp_step tasks f" "rp_inv tasks n" for tasks f n
  by unfold_locales (rule rp_step_inv)

subsection \<open>Progress\<close>

definition qs_measure :: "'a queue_system \<Rightarrow> nat" where
  "qs_measure q =
     2 * length (aq_queue (qs_q q)) + (if aq_waiting (qs_q q) then 0 else 1) +
     (if qs_finished q then 0 else 2)"

definition rp_measure :: "('a, 'x) task list \<Rightarrow> ('a, 'x) rp_state \<Rightarrow> nat" where
  "rp_measure tasks s =
     4 * (\<Sum>i < length tasks. length (rp_rest s i)) + 4 * length (rp_open s) + qs_measure (rp_qs s)"

lemma qs_measure_step:
  "queue_step q (Push x) = Some q' \<Longrightarrow> qs_measure q' \<le> qs_measure q + 2"
  "queue_step q RemoveProducer = Some q' \<Longrightarrow> qs_measure q' \<le> qs_measure q + 2"
  "queue_step q Next = Some q' \<Longrightarrow> qs_measure q' < qs_measure q"
  by (auto simp: qs_measure_def aq_defs split: if_splits list.splits)

lemma rp_emit_less:
  assumes inv: "rp_inv tasks n s" and step: "rp_step tasks f s (Emit i) = Some s'"
  shows "rp_measure tasks s' < rp_measure tasks s"
proof -
  note D = rp_invD [OF inv]
  from step obtain x xs qs where hold: "i \<in> set (ss_holders (rp_sem s))"
    and rest: "rp_rest s i = x # xs" and qs: "queue_step (rp_qs s) (Push x) = Some qs"
    and s': "s' = s\<lparr>rp_qs := qs, rp_rest := (rp_rest s)(i := xs), rp_log := rp_log s @ [(i, x)]\<rparr>"
    by (auto simp: rp_step_def split: if_splits list.splits)
  have i: "i < length tasks" using rp_holder_open [OF inv hold] D(5) by auto
  let ?sum = "\<lambda>g. \<Sum>j < length tasks. length (g j)"
  have "?sum (rp_rest s) = length (rp_rest s i) + (\<Sum>j \<in> {..<length tasks} - {i}. length (rp_rest s j))"
    using i by (simp add: sum.remove)
  moreover have "?sum ((rp_rest s)(i := xs)) =
      length xs + (\<Sum>j \<in> {..<length tasks} - {i}. length (((rp_rest s)(i := xs)) j))"
    using i by (simp add: sum.remove)
  moreover have "(\<Sum>j \<in> {..<length tasks} - {i}. length (((rp_rest s)(i := xs)) j)) =
      (\<Sum>j \<in> {..<length tasks} - {i}. length (rp_rest s j))"
    by (rule sum.cong) auto
  ultimately have sum: "Suc (?sum (rp_rest s')) = ?sum (rp_rest s)"
    using rest by (simp add: s')
  have "rp_open s' = rp_open s" "rp_qs s' = qs" by (simp_all add: s')
  with sum qs_measure_step(1) [OF qs] show ?thesis by (simp add: rp_measure_def)
qed

lemma rp_finish_less:
  assumes inv: "rp_inv tasks n s" and step: "rp_step tasks f s (Finish i) = Some s'"
  shows "rp_measure tasks s' < rp_measure tasks s"
proof -
  from step obtain ss qs where hold: "i \<in> set (ss_holders (rp_sem s))"
    and qs: "queue_step (rp_qs s) RemoveProducer = Some qs"
    and s': "rp_rest s' = rp_rest s" "rp_qs s' = qs" "rp_open s' = remove1 i (rp_open s)"
    by (auto simp: rp_step_def split: if_splits option.splits)
  have "Suc (length (rp_open s')) = length (rp_open s)"
    using int_length_remove1 [OF rp_holder_open [OF inv hold]] unfolding s'(3) by linarith
  with qs_measure_step(2) [OF qs] show ?thesis by (simp add: rp_measure_def s'(1,2))
qed

lemma rp_consume_less:
  assumes step: "rp_step tasks f s Consume = Some s'"
  shows "rp_measure tasks s' < rp_measure tasks s"
proof -
  from step obtain qs where qs: "queue_step (rp_qs s) Next = Some qs" and s': "s' = s\<lparr>rp_qs := qs\<rparr>"
    by (auto simp: rp_step_def)
  from qs_measure_step(3) [OF qs] show ?thesis by (simp add: rp_measure_def s')
qed

lemma rp_step_less:
  "rp_inv tasks n s \<Longrightarrow> rp_step tasks f s ev = Some s' \<Longrightarrow> rp_measure tasks s' < rp_measure tasks s"
  by (cases ev) (auto intro: rp_emit_less rp_finish_less rp_consume_less)

lemma rp_run_length:
  assumes "rp_inv tasks n s" and "rp.run tasks f s es = Some s'"
  shows "length es + rp_measure tasks s' \<le> rp_measure tasks s"
  using assms
proof (induction es arbitrary: s)
  case Nil
  then show ?case by simp
next
  case (Cons e es)
  from Cons.prems(2) obtain s1 where st: "rp_step tasks f s e = Some s1"
    and run: "rp.run tasks f s1 es = Some s'"
    by (auto split: option.splits)
  from Cons.IH [OF rp_step_inv [OF Cons.prems(1) st] run] rp_step_less [OF Cons.prems(1) st]
  show ?case by simp
qed

text \<open>While the consumer has not seen the end, some task or the consumer can move.\<close>

lemma rp_progress:
  assumes inv: "rp_inv tasks n s" and unfinished: "\<not> qs_finished (rp_qs s)"
  shows "\<exists>ev s'. rp_step tasks f s ev = Some s'"
proof (cases "rp_open s")
  case Nil
  then have "aq_done (qs_q (rp_qs s))" using rp_invD(8) [OF inv] by simp
  then have "\<not> aq_waiting (qs_q (rp_qs s))" using rp_invD(3) [OF inv] by (auto simp: queue_inv_def)
  then have "\<exists>s'. rp_step tasks f s Consume = Some s'"
    using unfinished by (auto simp: rp_step_def split: prod.splits)
  then show ?thesis by blast
next
  case (Cons j js)
  have "ss_holders (rp_sem s) \<noteq> []"
  proof
    assume none: "ss_holders (rp_sem s) = []"
    with rp_invD(1,2) [OF inv] have "sem_waitQueue (ss_sem (rp_sem s)) = []"
      by (auto simp: sem_inv_def)
    with none rp_invD(6) [OF inv] Cons show False by simp
  qed
  then obtain i where i: "i \<in> set (ss_holders (rp_sem s))" by (cases "ss_holders (rp_sem s)") auto
  show ?thesis
  proof (cases "rp_rest s i")
    case (Cons x xs)
    have "\<exists>s'. rp_step tasks f s (Emit i) = Some s'"
      using i Cons by (auto simp: rp_step_def split: prod.splits)
    then show ?thesis by blast
  next
    case Nil
    have "\<exists>s'. rp_step tasks f s (Finish i) = Some s'"
      using i Nil by (auto simp: rp_step_def split: prod.splits option.splits)
    then show ?thesis by blast
  qed
qed

section \<open>Properties\<close>

text \<open>
  C39. The semaphore never hands out more permits than it was created with, never keeps a
  permit idle while someone waits, and serves requests in the order they were made.
\<close>

theorem semaphore_bounded_and_fair:
  assumes "sem_new n = Inr sem" and "sem.run (sem_system_of sem) es = Some s"
  shows "int (length (ss_holders s)) \<le> n \<and>
         (sem_waitQueue (ss_sem s) \<noteq> [] \<longrightarrow> int (length (ss_holders s)) = n) \<and>
         ss_requests s = ss_grants s @ sem_waitQueue (ss_sem s)"
proof -
  have "sem_inv n s" by (rule sem.run_inv [OF sem_new_inv [OF assms(1)] assms(2)])
  then show ?thesis by (auto simp: sem_inv_def)
qed

theorem semaphore_bounded_and_fair_witness:
  "\<exists>sem s. sem_new 1 = Inr sem \<and>
     sem.run (sem_system_of sem) [Acquire ''a'', Acquire ''b'', Acquire ''c'', Release ''a''] = Some s \<and>
     ss_grants s = [''a'', ''b''] \<and> length (ss_holders s) \<le> 1"
proof -
  let ?sem = "\<lparr>sem_permits = 1, sem_waitQueue = []\<rparr> :: string semaphore"
  have new: "sem_new 1 = Inr ?sem" by (simp add: sem_new_def)
  obtain s where
    s: "sem.run (sem_system_of ?sem) [Acquire ''a'', Acquire ''b'', Acquire ''c'', Release ''a''] = Some s"
    and g: "ss_grants s = [''a'', ''b'']"
    by (simp add: sem_system_of_def sem_request_def sem_acquire_def sem_release_def)
  from semaphore_bounded_and_fair [OF new s] new s g show ?thesis by auto
qed

text \<open>
  Whatever the interleaving of producers and consumer, what the consumer has received
  followed by what is still buffered is exactly what was pushed while the queue was open, in
  order; and the consumer can be parked only on an empty queue that is still open.
\<close>

theorem event_queue_fifo:
  assumes "eq.run queue_system_new es = Some s"
  shows "qs_seen s @ aq_queue (qs_q s) = qs_pushed s \<and>
         (aq_waiting (qs_q s) \<longrightarrow> aq_queue (qs_q s) = [] \<and> \<not> aq_done (qs_q s))"
  using eq.run_inv [OF queue_new_inv assms] by (simp add: queue_inv_def)

theorem event_queue_fifo_witness:
  "\<exists>s. eq.run queue_system_new
         [AddProducer, Next, Push (1::nat), Push 2, Push 3, Next, RemoveProducer] = Some s \<and>
       qs_seen s @ aq_queue (qs_q s) = [1, 2, 3]"
proof -
  obtain s where
    s: "eq.run queue_system_new
          [AddProducer, Next, Push (1::nat), Push 2, Push 3, Next, RemoveProducer] = Some s"
    and p: "qs_pushed s = [1, 2, 3]"
    by (simp add: queue_system_new_def aq_new_def aq_defs)
  from event_queue_fifo [OF s] s p show ?thesis by auto
qed

text \<open>
  \<open>runParallel\<close> runs at most \<open>parallelism\<close> tasks at a time, takes a bounded number of
  steps under every scheduling, and can stop only when the consumer has seen the end; then
  every task has run to its end and the consumer has received every event of every task, each
  task's events in the order the task yielded them.
\<close>

theorem runParallel_delivers_everything:
  assumes "rp_start tasks n = Inr (Some s0)" and "rp.run tasks f s0 es = Some s"
  shows "int (length (ss_holders (rp_sem s))) \<le> n \<and> length es \<le> rp_measure tasks s0 \<and>
         ((\<forall>ev. rp_step tasks f s ev = None) \<longrightarrow>
            qs_finished (rp_qs s) \<and> rp_open s = [] \<and> qs_seen (rp_qs s) = map snd (rp_log s) \<and>
            (\<forall>i < length tasks. map snd (filter (\<lambda>p. fst p = i) (rp_log s)) = fst (tasks ! i)))"
proof -
  have inv0: "rp_inv tasks n s0" using assms(1) by (rule rp_start_inv)
  have inv: "rp_inv tasks n s" by (rule rp.run_inv [OF inv0 assms(2)])
  note D = rp_invD [OF inv]
  have bound: "int (length (ss_holders (rp_sem s))) \<le> n" using D(2) by (auto simp: sem_inv_def)
  have len: "length es \<le> rp_measure tasks s0" using rp_run_length [OF inv0 assms(2)] by simp
  have "qs_finished (rp_qs s) \<and> rp_open s = [] \<and> qs_seen (rp_qs s) = map snd (rp_log s) \<and>
        (\<forall>i < length tasks. map snd (filter (\<lambda>p. fst p = i) (rp_log s)) = fst (tasks ! i))"
    if "\<forall>ev. rp_step tasks f s ev = None"
  proof -
    have fin: "qs_finished (rp_qs s)" using rp_progress [OF inv, of f] that by fastforce
    with D(8,12) have "rp_open s = []" and empty: "aq_queue (qs_q (rp_qs s)) = []" by auto
    moreover have "qs_seen (rp_qs s) = map snd (rp_log s)"
      using D(3,9) empty by (simp add: queue_inv_def)
    moreover have "map snd (filter (\<lambda>p. fst p = i) (rp_log s)) = fst (tasks ! i)"
      if "i < length tasks" for i
      using D(10) [OF that] D(11) [OF that] \<open>rp_open s = []\<close> by simp
    ultimately show ?thesis using fin by blast
  qed
  with bound len show ?thesis by blast
qed

definition demo_tasks :: "(nat, string) task list" where
  "demo_tasks = [([1, 2], None), ([3], Some ''boom'')]"

theorem runParallel_delivers_everything_witness:
  "\<exists>s0 s. rp_start demo_tasks 1 = Inr (Some s0) \<and>
     rp.run demo_tasks (\<lambda>_. True) s0
       [Emit 0, Consume, Emit 0, Finish 0, Consume, Emit 1, Consume, Finish 1, Consume] = Some s \<and>
     qs_seen (rp_qs s) = [1, 2, 3] \<and> rp_fatal s = [''boom''] \<and> length (ss_holders (rp_sem s)) \<le> 1"
proof -
  let ?es = "[Emit 0, Consume, Emit 0, Finish 0, Consume, Emit 1, Consume, Finish 1, Consume]"
  obtain s0 s where s0: "rp_start demo_tasks 1 = Inr (Some s0)"
    and s: "rp.run demo_tasks (\<lambda>_. True) s0 ?es = Some s"
    and r: "qs_seen (rp_qs s) = [1, 2, 3]" "rp_fatal s = [''boom'']"
    by (simp add: rp_start_def demo_tasks_def sem_new_def sem_system_of_def sem_request_def
        sem_acquire_def sem_release_def rp_step_def queue_system_new_def aq_new_def aq_defs
        upt_rec)
  from runParallel_delivers_everything [OF s0 s] s0 s r show ?thesis by auto
qed

end
