(* ===== verification/PlanGraph.thy ===== *)
theory PlanGraph
  imports Prelude
begin

text \<open>
  The dependency graph of a plan set: \<open>resolveDependencyGraph\<close> and \<open>transitiveReduce\<close> of
  \<open>packages/engine/src/plan.ts\<close>, and \<open>computeMaxConcurrency\<close> of
  \<open>orchestrator/phases.ts\<close>. A node is a plan id with its \<open>dependsOn\<close> list; the edge
  \<open>(p, d)\<close> says that \<open>p\<close> depends on \<open>d\<close>. The lemmas show that the waves are a
  topological layering, produced exactly for the graphs that have one, that the reduction
  keeps what is reachable, and that a graph without concurrency is a chain.
\<close>

type_synonym node = "plan_id \<times> plan_id list"

section \<open>resolveDependencyGraph\<close>

datatype graph_error =
    UnknownDependency plan_id plan_id
  | NoZeroDependencies
  | CircularDependency nat nat

type_synonym degrees = "(plan_id \<times> int) list"
type_synonym dependents = "(plan_id \<times> plan_id list) list"

text \<open>The pairs the doubly nested loop over \<open>plan.dependsOn\<close> visits, in its order.\<close>

definition edge_list :: "node list \<Rightarrow> (plan_id \<times> plan_id) list" where
  "edge_list plans = concat (map (\<lambda>(p, ds). map (\<lambda>d. (p, d)) ds) plans)"

fun init_maps :: "node list \<Rightarrow> degrees \<times> dependents \<Rightarrow> degrees \<times> dependents" where
  "init_maps [] m = m"
| "init_maps ((p, _) # ps) (ind, dep) = init_maps ps (dput p 0 ind, dput p [] dep)"

fun count_edges ::
    "plan_id set \<Rightarrow> (plan_id \<times> plan_id) list \<Rightarrow> degrees \<times> dependents
     \<Rightarrow> (graph_error, degrees \<times> dependents) result" where
  "count_edges ids [] m = Inr m"
| "count_edges ids ((p, d) # es) (ind, dep) =
     (if d \<notin> ids then Inl (UnknownDependency p d)
      else count_edges ids es
        (dput p ((case dget ind p of Some n \<Rightarrow> n | None \<Rightarrow> 0) + 1) ind,
         dput d ((case dget dep d of Some xs \<Rightarrow> xs | None \<Rightarrow> []) @ [p]) dep))"

text \<open>The innermost loop: one dependent's degree goes down, and at zero it joins the next wave.\<close>

fun relax :: "plan_id list \<Rightarrow> degrees \<times> plan_id list \<Rightarrow> degrees \<times> plan_id list" where
  "relax [] m = m"
| "relax (d # ds) (ind, nq) =
     (let newDegree = (case dget ind d of Some n \<Rightarrow> n | None \<Rightarrow> 1) - 1
      in relax ds (dput d newDegree ind, if newDegree = 0 then nq @ [d] else nq))"

definition dependents_of :: "dependents \<Rightarrow> plan_id \<Rightarrow> plan_id list" where
  "dependents_of dep p = (case dget dep p of Some xs \<Rightarrow> xs | None \<Rightarrow> [])"

fun relax_wave :: "dependents \<Rightarrow> plan_id list \<Rightarrow> degrees \<times> plan_id list \<Rightarrow> degrees \<times> plan_id list" where
  "relax_wave dep [] m = m"
| "relax_wave dep (p # ps) m = relax_wave dep ps (relax (dependents_of dep p) m)"

lemma relax_wave_concat: "relax_wave dep ps m = relax (concat (map (dependents_of dep) ps)) m"
proof -
  have "relax (xs @ ys) m = relax ys (relax xs m)" for xs ys m
    by (induction xs m rule: relax.induct) (auto simp: Let_def)
  then show ?thesis by (induction ps arbitrary: m) auto
qed

text \<open>Ids that can still reach degree zero: the measure of the wave loop.\<close>

definition waiting_ids :: "dependents \<Rightarrow> degrees \<Rightarrow> plan_id set" where
  "waiting_ids dep ind =
     {d \<in> set (concat (map snd dep)). case dget ind d of None \<Rightarrow> True | Some n \<Rightarrow> n \<ge> 1}"

lemma finite_waiting_ids [simp]: "finite (waiting_ids dep ind)"
  by (auto simp: waiting_ids_def)

lemma relax_waiting:
  assumes "set ds \<subseteq> set (concat (map snd dep))" and "relax ds (ind, nq) = (ind', nq')"
  shows "waiting_ids dep ind' \<subseteq> waiting_ids dep ind \<and>
         (nq' \<noteq> nq \<longrightarrow> waiting_ids dep ind' \<noteq> waiting_ids dep ind)"
  using assms
proof (induction ds arbitrary: ind nq)
  case Nil
  then show ?case by simp
next
  case (Cons d ds)
  define n where "n = (case dget ind d of Some n \<Rightarrow> n | None \<Rightarrow> 1) - 1"
  let ?ind = "dput d n ind" and ?nq = "if n = 0 then nq @ [d] else nq"
  have rest: "relax ds (?ind, ?nq) = (ind', nq')"
    using Cons.prems(2) by (simp add: Let_def n_def)
  from Cons.IH [OF _ rest] Cons.prems(1)
  have IH: "waiting_ids dep ind' \<subseteq> waiting_ids dep ?ind"
    "nq' \<noteq> ?nq \<Longrightarrow> waiting_ids dep ind' \<noteq> waiting_ids dep ?ind" by auto
  have step: "waiting_ids dep ?ind \<subseteq> waiting_ids dep ind"
    by (auto simp: waiting_ids_def n_def split: option.splits if_splits)
  have "waiting_ids dep ?ind \<noteq> waiting_ids dep ind" if "n = 0"
  proof -
    have "d \<in> waiting_ids dep ind" using that Cons.prems(1)
      by (auto simp: waiting_ids_def n_def split: option.splits)
    moreover have "d \<notin> waiting_ids dep ?ind" using that by (simp add: waiting_ids_def)
    ultimately show ?thesis by blast
  qed
  with IH step show ?case by (cases "n = 0") (simp, blast, simp, blast)
qed

lemma dependents_of_subset: "set (dependents_of dep p) \<subseteq> set (concat (map snd dep))"
proof (cases "dget dep p")
  case None
  then show ?thesis by (simp add: dependents_of_def)
next
  case (Some xs)
  then have "(p, xs) \<in> set dep" by (rule map_of_SomeD)
  with Some show ?thesis by (force simp: dependents_of_def)
qed

function wave_loop :: "dependents \<Rightarrow> degrees \<Rightarrow> plan_id list \<Rightarrow> plan_id list list" where
  "wave_loop dep ind [] = []"
| "wave_loop dep ind (p # ps) =
     (case relax_wave dep (p # ps) (ind, []) of
        (ind', nextQueue) \<Rightarrow> (p # ps) # wave_loop dep ind' nextQueue)"
  by pat_completeness auto
termination
proof (relation "measure (\<lambda>(dep, ind, q). 2 * card (waiting_ids dep ind) + (if q = [] then 0 else 1))",
    goal_cases)
  case (2 dep ind p ps ind' nq)
  have sub: "set (concat (map (dependents_of dep) (p # ps))) \<subseteq> set (concat (map snd dep))"
    using dependents_of_subset by fastforce
  have "relax (concat (map (dependents_of dep) (p # ps))) (ind, []) = (ind', nq)"
    using 2 by (simp only: relax_wave_concat)
  from relax_waiting [OF sub this]
  have le: "waiting_ids dep ind' \<subseteq> waiting_ids dep ind"
    and ne: "nq \<noteq> [] \<Longrightarrow> waiting_ids dep ind' \<noteq> waiting_ids dep ind" by auto
  have "card (waiting_ids dep ind') \<le> card (waiting_ids dep ind)"
    using le by (simp add: card_mono)
  moreover have "card (waiting_ids dep ind') < card (waiting_ids dep ind)" if "nq \<noteq> []"
    using le ne [OF that] by (simp add: psubset_card_mono psubsetI)
  ultimately show ?case by (cases "nq = []") auto
qed simp

definition resolveDependencyGraph ::
    "node list \<Rightarrow> (graph_error, plan_id list list \<times> plan_id list) result" where
  "resolveDependencyGraph plans =
     (case count_edges (set (map fst plans)) (edge_list plans) (init_maps plans ([], [])) of
        Inl e \<Rightarrow> Inl e
      | Inr (ind, dep) \<Rightarrow>
          (let queue = filter (\<lambda>p. dget ind p = Some 0) (map fst plans)
           in if queue = [] \<and> plans \<noteq> [] then Inl NoZeroDependencies
              else
                (let waves = wave_loop dep ind queue;
                     processed = length (concat waves)
                 in if processed \<noteq> length plans
                    then Inl (CircularDependency processed (length plans))
                    else Inr (waves, concat waves))))"

section \<open>Counting edges\<close>

definition edge_count :: "(plan_id \<times> plan_id) list \<Rightarrow> plan_id \<Rightarrow> plan_id set \<Rightarrow> nat" where
  "edge_count es p D = length (filter (\<lambda>e. fst e = p \<and> snd e \<notin> D) es)"

lemma count_edges_fail:
  "(\<exists>e. count_edges ids es m = Inl e) \<longleftrightarrow> (\<exists>(p, d) \<in> set es. d \<notin> ids)"
  by (induction ids es m rule: count_edges.induct) auto

lemma count_edges_degrees:
  assumes "count_edges ids es (ind, dep) = Inr (ind', dep')" and "dget ind p = Some n"
  shows "dget ind' p = Some (n + int (edge_count es p {}))"
  using assms
proof (induction es arbitrary: ind dep n)
  case Nil
  then show ?case by (simp add: edge_count_def)
next
  case (Cons e es)
  obtain q d where e: "e = (q, d)" by (cases e)
  show ?case
  proof (cases "q = p")
    case True
    then show ?thesis using Cons.prems Cons.IH [of _ _ "n + 1"]
      by (simp add: e edge_count_def split: if_splits)
  next
    case False
    then show ?thesis using Cons.prems Cons.IH [of _ _ n]
      by (simp add: e edge_count_def split: if_splits)
  qed
qed

lemma count_edges_dependents:
  assumes "count_edges ids es (ind, dep) = Inr (ind', dep')"
  shows "dependents_of dep' d = dependents_of dep d @ map fst (filter (\<lambda>e. snd e = d) es)"
  using assms
proof (induction es arbitrary: ind dep)
  case Nil
  then show ?case by simp
next
  case (Cons e es)
  obtain q x where e: "e = (q, x)" by (cases e)
  let ?dep = "dput x ((case dget dep x of Some xs \<Rightarrow> xs | None \<Rightarrow> []) @ [q]) dep"
  from Cons.prems obtain ind2 where "count_edges ids es (ind2, ?dep) = Inr (ind', dep')"
    by (auto simp: e split: if_splits)
  from Cons.IH [OF this] show ?case by (auto simp: e dependents_of_def)
qed

lemma init_maps_degrees:
  "dget (fst (init_maps ps m)) p = (if p \<in> fst ` set ps then Some 0 else dget (fst m) p)"
  by (induction ps m rule: init_maps.induct) auto

lemma init_maps_dependents:
  assumes "\<And>d. dependents_of (snd m) d = []"
  shows "dependents_of (snd (init_maps ps m)) d = []"
  using assms by (induction ps m rule: init_maps.induct) (auto simp: dependents_of_def)

section \<open>One wave\<close>

lemma relax_degrees:
  assumes "\<And>d. d \<in> set ds \<Longrightarrow> \<exists>n. dget ind d = Some n"
  shows "dget (fst (relax ds (ind, nq))) p =
           map_option (\<lambda>n. n - int (count_list ds p)) (dget ind p)"
  using assms
proof (induction ds arbitrary: ind nq)
  case Nil
  then show ?case by (cases "dget ind p") auto
next
  case (Cons d ds)
  from Cons.prems obtain n where n: "dget ind d = Some n" by auto
  have "\<exists>k. dget (dput d (n - 1) ind) x = Some k" if "x \<in> set ds" for x
    using Cons.prems that by auto
  from Cons.IH [OF this] show ?case by (auto simp: n Let_def)
qed

lemma relax_queue:
  assumes "\<And>d. d \<in> set ds \<Longrightarrow> \<exists>n. dget ind d = Some n \<and> int (count_list ds d) \<le> n"
  shows "\<exists>xs. snd (relax ds (ind, nq)) = nq @ xs \<and> distinct xs \<and>
           set xs = {d \<in> set ds. dget ind d = Some (int (count_list ds d))}"
  using assms
proof (induction ds arbitrary: ind nq)
  case Nil
  then show ?case by simp
next
  case (Cons d ds)
  from Cons.prems [of d] obtain n where n: "dget ind d = Some n" and ge: "int (count_list ds d) + 1 \<le> n"
    by auto
  let ?ind = "dput d (n - 1) ind" and ?nq = "if n - 1 = 0 then nq @ [d] else nq"
  have "\<exists>m. dget ?ind x = Some m \<and> int (count_list ds x) \<le> m" if "x \<in> set ds" for x
  proof (cases "x = d")
    case True
    with ge show ?thesis by simp
  next
    case False
    with Cons.prems [of x] that show ?thesis by auto
  qed
  from Cons.IH [OF this, of ?nq] obtain xs where
    xs: "snd (relax ds (?ind, ?nq)) = ?nq @ xs" "distinct xs"
      "set xs = {x \<in> set ds. dget ?ind x = Some (int (count_list ds x))}" by blast
  have red: "relax (d # ds) (ind, nq) = relax ds (?ind, ?nq)"
    by (simp add: n Let_def)
  show ?case
  proof (cases "n = 1")
    case True
    with ge have "count_list ds d = 0" by simp
    then have "d \<notin> set ds" by (simp add: count_list_0_iff)
    then have same: "(x \<in> set ds \<and> dget ?ind x = Some (int (count_list ds x))) =
        (x \<in> set ds \<and> dget ind x = Some (int (count_list (d # ds) x)))" for x by auto
    have "d \<notin> set xs" using \<open>d \<notin> set ds\<close> xs(3) by blast
    moreover have "set xs = {x \<in> set ds. dget ind x = Some (int (count_list (d # ds) x))}"
      unfolding xs(3) same ..
    then have "set (d # xs) = {x \<in> set (d # ds). dget ind x = Some (int (count_list (d # ds) x))}"
      using True n \<open>count_list ds d = 0\<close> by auto
    ultimately show ?thesis using xs(1,2) True
      by (intro exI [of _ "d # xs"]) (simp add: red del: relax.simps count_list.simps)
  next
    case False
    have gone: "d \<in> set ds \<longleftrightarrow> 0 < count_list ds d"
      using count_list_0_iff [of ds d] by auto
    have same: "(x \<in> set ds \<and> dget ?ind x = Some (int (count_list ds x))) =
        (x \<in> set (d # ds) \<and> dget ind x = Some (int (count_list (d # ds) x)))" for x
      using n False ge gone by (cases "x = d") auto
    have "set xs = {x \<in> set (d # ds). dget ind x = Some (int (count_list (d # ds) x))}"
      unfolding xs(3) same ..
    with xs False show ?thesis
      by (intro exI [of _ xs]) (simp add: red del: relax.simps)
  qed
qed

lemma count_list_map_filter:
  "count_list (map f (filter Q xs)) y = length (filter (\<lambda>x. Q x \<and> f x = y) xs)"
  by (induction xs) auto

lemma count_list_concat_fst:
  assumes "distinct q"
  shows "count_list (concat (map (\<lambda>d. map fst (filter (\<lambda>e. snd e = d) es)) q)) p =
           length (filter (\<lambda>e. fst e = p \<and> snd e \<in> set q) es)"
  using assms
proof (induction q)
  case Nil
  then show ?case by simp
next
  case (Cons d q)
  have "length (filter (\<lambda>e. fst e = p \<and> snd e \<in> set (d # q)) es) =
        length (filter (\<lambda>e. snd e = d \<and> fst e = p) es) +
        length (filter (\<lambda>e. fst e = p \<and> snd e \<in> set q) es)"
    using Cons.prems by (induction es) auto
  with Cons show ?case by (simp add: count_list_append count_list_map_filter)
qed

lemma edge_count_split:
  assumes "set q \<inter> D = {}"
  shows "edge_count es p D = edge_count es p (D \<union> set q) +
           length (filter (\<lambda>e. fst e = p \<and> snd e \<in> set q) es)"
  using assms unfolding edge_count_def by (induction es) auto

lemma edge_count_zero: "edge_count es p D = 0 \<longleftrightarrow> (\<forall>d. (p, d) \<in> set es \<longrightarrow> d \<in> D)"
  by (auto simp: edge_count_def filter_empty_conv)

section \<open>The layering\<close>

text \<open>
  What the waves are, independently of counters: starting from a set \<open>D\<close> of placed ids, each
  wave holds exactly the ids not placed yet whose dependencies are all placed, and the waves
  stop when there is no such id.
\<close>

definition placeable :: "(plan_id \<times> plan_id) set \<Rightarrow> plan_id set \<Rightarrow> plan_id set \<Rightarrow> plan_id set" where
  "placeable E ids D = {p \<in> ids. p \<notin> D \<and> (\<forall>d. (p, d) \<in> E \<longrightarrow> d \<in> D)}"

primrec layering ::
    "(plan_id \<times> plan_id) set \<Rightarrow> plan_id set \<Rightarrow> plan_id set \<Rightarrow> plan_id list list \<Rightarrow> bool" where
  "layering E ids D [] \<longleftrightarrow> placeable E ids D = {}"
| "layering E ids D (w # ws) \<longleftrightarrow>
     w \<noteq> [] \<and> distinct w \<and> set w = placeable E ids D \<and> layering E ids (D \<union> set w) ws"

lemma layering_distinct:
  "layering E ids D ws \<Longrightarrow>
   distinct (concat ws) \<and> set (concat ws) \<inter> D = {} \<and> set (concat ws) \<subseteq> ids"
proof (induction ws arbitrary: D)
  case Nil
  then show ?case by simp
next
  case (Cons w ws)
  from Cons.prems have w: "distinct w" "set w = placeable E ids D"
    and rest: "layering E ids (D \<union> set w) ws" by auto
  from Cons.IH [OF rest] w show ?case by (auto simp: placeable_def)
qed

lemma layering_stuck:
  "layering E ids D ws \<Longrightarrow> placeable E ids (D \<union> set (concat ws)) = {}"
proof (induction ws arbitrary: D)
  case Nil
  then show ?case by simp
next
  case (Cons w ws)
  from Cons.prems have "layering E ids (D \<union> set w) ws" unfolding layering.simps by blast
  then have "placeable E ids ((D \<union> set w) \<union> set (concat ws)) = {}" by (rule Cons.IH)
  moreover have "(D \<union> set w) \<union> set (concat ws) = D \<union> set (concat (w # ws))" by auto
  ultimately show ?case by (simp only:)
qed

lemma layering_deps:
  assumes "layering E ids D ws" and "k < length ws" and "p \<in> set (ws ! k)" and "(p, d) \<in> E"
  shows "d \<in> D \<or> (\<exists>j<k. d \<in> set (ws ! j))"
  using assms
proof (induction ws arbitrary: D k)
  case Nil
  then show ?case by simp
next
  case (Cons w ws)
  from Cons.prems have w: "set w = placeable E ids D"
    and rest: "layering E ids (D \<union> set w) ws" by auto
  show ?case
  proof (cases k)
    case 0
    with Cons.prems w show ?thesis by (auto simp: placeable_def)
  next
    case (Suc i)
    with Cons.IH [OF rest, of i] Cons.prems have
      "d \<in> D \<union> set w \<or> (\<exists>j<i. d \<in> set (ws ! j))" by simp
    with Suc show ?thesis by (metis Suc_mono UnE nth_Cons_0 nth_Cons_Suc zero_less_Suc)
  qed
qed

lemma layering_wave_dep:
  assumes "layering E ids D ws" and "Suc k < length ws" and "p \<in> set (ws ! Suc k)"
  shows "\<exists>d \<in> set (ws ! k). (p, d) \<in> E"
  using assms
proof (induction ws arbitrary: D k)
  case Nil
  then show ?case by simp
next
  case (Cons w ws)
  from Cons.prems have w: "set w = placeable E ids D"
    and rest: "layering E ids (D \<union> set w) ws" by auto
  show ?case
  proof (cases k)
    case 0
    from Cons.prems(2,3) 0 obtain w' ws' where ws: "ws = w' # ws'" and p: "p \<in> set w'"
      by (cases ws) auto
    from rest ws p have "p \<in> placeable E ids (D \<union> set w)" by auto
    then have "p \<in> ids" "p \<notin> D" "p \<notin> set w" by (auto simp: placeable_def)
    then obtain d where "(p, d) \<in> E" "d \<notin> D" by (auto simp: w placeable_def)
    moreover from \<open>p \<in> placeable E ids (D \<union> set w)\<close> calculation have "d \<in> set w"
      by (auto simp: placeable_def)
    ultimately show ?thesis using 0 by auto
  next
    case (Suc i)
    with Cons.IH [OF rest, of i] Cons.prems show ?thesis by simp
  qed
qed

lemma layering_unique_trancl:
  assumes "layering E ids {} ws" and "(p, d) \<in> E\<^sup>+" and "k < length ws" and "p \<in> set (ws ! k)"
  shows "\<exists>j<k. d \<in> set (ws ! j)"
  using assms(2-)
proof (induction rule: trancl_induct)
  case (base d)
  with layering_deps [OF assms(1)] show ?case by blast
next
  case (step y z)
  then obtain j where "j < k" "y \<in> set (ws ! j)" by blast
  with layering_deps [OF assms(1), of j y z] step show ?case
    by (metis empty_iff order_less_trans)
qed

lemma layering_acyclic:
  assumes "layering E ids {} ws" and "(p, p) \<in> E\<^sup>+"
  shows "p \<notin> set (concat ws)"
proof -
  have "k < length ws \<longrightarrow> p \<notin> set (ws ! k)" for k
  proof (induction k rule: less_induct)
    case (less k)
    with layering_unique_trancl [OF assms] show ?case by (metis order_less_trans)
  qed
  then show ?thesis by (metis in_set_conv_nth set_concat UN_E)
qed

lemma acyclic_not_stuck:
  assumes "finite E" and "acyclic E" and "E \<subseteq> ids \<times> ids" and "placeable E ids D = {}"
  shows "ids \<subseteq> D"
proof (rule ccontr)
  assume "\<not> ids \<subseteq> D"
  then obtain x where x: "x \<in> ids - D" by blast
  from assms(1,2) have "wf (E\<inverse>)" by (rule finite_acyclic_wf_converse)
  from wfE_min [OF this x] obtain z where z: "z \<in> ids - D"
    and min: "\<And>y. (y, z) \<in> E\<inverse> \<Longrightarrow> y \<notin> ids - D" by blast
  from min assms(3) have "(z, d) \<in> E \<longrightarrow> d \<in> D" for d by auto
  with z have "z \<in> placeable E ids D" by (auto simp: placeable_def)
  with assms(4) show False by simp
qed

section \<open>The loop computes the layering\<close>

definition wave_inv ::
    "(plan_id \<times> plan_id) list \<Rightarrow> plan_id set \<Rightarrow> dependents \<Rightarrow> degrees \<Rightarrow> plan_id list \<Rightarrow> plan_id set \<Rightarrow> bool" where
  "wave_inv es ids dep ind q D \<longleftrightarrow>
     set es \<subseteq> ids \<times> ids \<and>
     (\<forall>d. dependents_of dep d = map fst (filter (\<lambda>e. snd e = d) es)) \<and>
     (\<forall>p \<in> ids. dget ind p = Some (int (edge_count es p D))) \<and>
     distinct q \<and> set q = placeable (set es) ids D \<and>
     (\<forall>p d. p \<in> D \<and> (p, d) \<in> set es \<longrightarrow> d \<in> D)"

lemma wave_inv_step:
  assumes inv: "wave_inv es ids dep ind q D" and "relax_wave dep q (ind, []) = (ind', nq)"
  shows "wave_inv es ids dep ind' nq (D \<union> set q)"
proof -
  let ?ds = "concat (map (dependents_of dep) q)"
  from inv have es: "set es \<subseteq> ids \<times> ids"
    and dep: "dependents_of dep = (\<lambda>d. map fst (filter (\<lambda>e. snd e = d) es))"
    and ind: "\<And>p. p \<in> ids \<Longrightarrow> dget ind p = Some (int (edge_count es p D))"
    and q: "distinct q" "set q = placeable (set es) ids D"
    and closed: "\<And>p d. p \<in> D \<Longrightarrow> (p, d) \<in> set es \<Longrightarrow> d \<in> D"
    unfolding wave_inv_def by auto
  have rel: "relax ?ds (ind, []) = (ind', nq)" using assms(2) by (simp add: relax_wave_concat)
  have disj: "set q \<inter> D = {}" using q(2) by (auto simp: placeable_def)
  have cnt: "count_list ?ds p = length (filter (\<lambda>e. fst e = p \<and> snd e \<in> set q) es)" for p
    unfolding dep by (rule count_list_concat_fst [OF q(1)])
  have split: "edge_count es p D = edge_count es p (D \<union> set q) + count_list ?ds p" for p
    unfolding cnt by (rule edge_count_split [OF disj])
  have ds_ids: "set ?ds \<subseteq> ids" using es by (auto simp: dep)
  have in_ds: "p \<in> set ?ds \<longleftrightarrow> (\<exists>d \<in> set q. (p, d) \<in> set es)" for p by (force simp: dep)
  have "dget ind' p = Some (int (edge_count es p (D \<union> set q)))" if "p \<in> ids" for p
    using relax_degrees [of ?ds ind "[]" p] ind ds_ids that split [of p]
    by (auto simp: rel subset_iff)
  moreover have "\<exists>n. dget ind p = Some n \<and> int (count_list ?ds p) \<le> n" if "p \<in> set ?ds" for p
    using ind [of p] ds_ids that split [of p] by auto
  from relax_queue [OF this, where nq = "[]"] rel
  have nq: "distinct nq" "set nq = {p \<in> set ?ds. dget ind p = Some (int (count_list ?ds p))}"
    by auto
  moreover have "set nq = placeable (set es) ids (D \<union> set q)"
  proof -
    have "p \<in> set nq \<longleftrightarrow> p \<in> set ?ds \<and> edge_count es p (D \<union> set q) = 0" for p
      using nq(2) ind [of p] ds_ids split [of p] by auto
    moreover have "p \<in> ids \<and> p \<notin> D \<union> set q" if "p \<in> set ?ds" for p
    proof -
      from that obtain d where d: "d \<in> set q" "(p, d) \<in> set es" unfolding in_ds by blast
      then have "d \<notin> D" using disj by blast
      with d(2) closed have "p \<notin> D" by blast
      moreover have "p \<notin> set q" using d(2) \<open>d \<notin> D\<close> unfolding q(2) placeable_def by blast
      moreover have "p \<in> ids" using that ds_ids by blast
      ultimately show ?thesis by blast
    qed
    moreover have "p \<in> set ?ds"
      if "p \<in> ids" "p \<notin> D \<union> set q" "edge_count es p (D \<union> set q) = 0" for p
    proof -
      from that(1,2) obtain d where "(p, d) \<in> set es" "d \<notin> D" by (auto simp: q(2) placeable_def)
      with that(3) show ?thesis unfolding in_ds edge_count_zero by blast
    qed
    ultimately have "p \<in> set nq \<longleftrightarrow>
        p \<in> ids \<and> p \<notin> D \<union> set q \<and> edge_count es p (D \<union> set q) = 0" for p by blast
    then show ?thesis unfolding placeable_def edge_count_zero by blast
  qed
  moreover have "\<forall>p d. p \<in> D \<union> set q \<and> (p, d) \<in> set es \<longrightarrow> d \<in> D \<union> set q"
    using closed by (auto simp: q(2) placeable_def)
  ultimately show ?thesis using es dep unfolding wave_inv_def by (simp add: fun_eq_iff)
qed

lemma wave_loop_layering:
  "wave_inv es ids dep ind q D \<Longrightarrow> layering (set es) ids D (wave_loop dep ind q)"
proof (induction dep ind q arbitrary: D rule: wave_loop.induct)
  case (1 dep ind)
  then show ?case by (simp add: wave_inv_def)
next
  case (2 dep ind p ps)
  obtain ind' nq where r: "relax_wave dep (p # ps) (ind, []) = (ind', nq)"
    by (cases "relax_wave dep (p # ps) (ind, [])")
  have "layering (set es) ids (D \<union> set (p # ps)) (wave_loop dep ind' nq)"
    by (rule "2.IH" [OF r [symmetric] wave_inv_step [OF "2.prems" r]])
  moreover have "distinct (p # ps)" "set (p # ps) = placeable (set es) ids D"
    using "2.prems" unfolding wave_inv_def by blast+
  ultimately show ?case by (simp only: wave_loop.simps layering.simps r prod.case) simp
qed

section \<open>What resolving returns\<close>

definition edges :: "node list \<Rightarrow> (plan_id \<times> plan_id) set" where
  "edges plans = set (edge_list plans)"

definition known_deps :: "node list \<Rightarrow> bool" where
  "known_deps plans \<longleftrightarrow> (\<forall>(p, ds) \<in> set plans. \<forall>d \<in> set ds. d \<in> set (map fst plans))"

lemma edges_iff: "(p, d) \<in> edges plans \<longleftrightarrow> (\<exists>ds. (p, ds) \<in> set plans \<and> d \<in> set ds)"
  by (force simp: edges_def edge_list_def)

lemma finite_edges [simp]: "finite (edges plans)"
  by (simp add: edges_def)

lemma known_deps_iff:
  "known_deps plans \<longleftrightarrow> (\<forall>p d. (p, d) \<in> edges plans \<longrightarrow> d \<in> set (map fst plans))"
  unfolding known_deps_def edges_iff by (simp only: Ball_def split_paired_All prod.case) blast

lemma known_deps_edges:
  "known_deps plans \<longleftrightarrow> edges plans \<subseteq> set (map fst plans) \<times> set (map fst plans)"
  unfolding known_deps_def by (force simp: edges_iff)

lemma count_edges_known:
  "(\<exists>m'. count_edges (set (map fst plans)) (edge_list plans) m = Inr m') \<longleftrightarrow> known_deps plans"
proof -
  have "(\<exists>m'. count_edges (set (map fst plans)) (edge_list plans) m = Inr m') \<longleftrightarrow>
        \<not> (\<exists>e. count_edges (set (map fst plans)) (edge_list plans) m = Inl e)"
    by (cases "count_edges (set (map fst plans)) (edge_list plans) m") auto
  also have "\<dots> \<longleftrightarrow> known_deps plans"
    unfolding count_edges_fail edges_def [symmetric] known_deps_iff by blast
  finally show ?thesis .
qed

lemma resolve_start:
  assumes "distinct (map fst plans)"
    and "count_edges (set (map fst plans)) (edge_list plans) (init_maps plans ([], [])) = Inr (ind, dep)"
  shows "wave_inv (edge_list plans) (set (map fst plans)) dep ind
           (filter (\<lambda>p. dget ind p = Some 0) (map fst plans)) {}"
proof -
  obtain i0 d0 where m: "init_maps plans ([], []) = (i0, d0)" by (cases "init_maps plans ([], [])")
  have i0: "dget i0 p = Some 0" if "p \<in> set (map fst plans)" for p
    using init_maps_degrees [of plans "([], [])" p] that m by simp
  have d0: "dependents_of d0 d = []" for d
    using init_maps_dependents [of "([], [])" plans d] m by (simp add: dependents_of_def)
  have es: "edges plans \<subseteq> set (map fst plans) \<times> set (map fst plans)"
    using count_edges_known [of plans "init_maps plans ([], [])"] assms(2) known_deps_edges by auto
  have ind: "dget ind p = Some (int (edge_count (edge_list plans) p {}))" if "p \<in> set (map fst plans)" for p
    using count_edges_degrees [OF assms(2) [unfolded m] i0 [OF that]] by simp
  have dep: "dependents_of dep d = map fst (filter (\<lambda>e. snd e = d) (edge_list plans))" for d
    using count_edges_dependents [OF assms(2) [unfolded m], of d] by (simp add: d0)
  have "set (filter (\<lambda>p. dget ind p = Some 0) (map fst plans)) =
        placeable (set (edge_list plans)) (set (map fst plans)) {}"
  proof -
    have "dget ind p = Some 0 \<longleftrightarrow> (\<forall>d. (p, d) \<notin> set (edge_list plans))"
      if "p \<in> set (map fst plans)" for p
      using ind [OF that] edge_count_zero [of "edge_list plans" p "{}"] by simp
    then show ?thesis unfolding placeable_def set_filter by blast
  qed
  with assms(1) es ind dep show ?thesis
    by (simp add: wave_inv_def edges_def del: set_filter set_map)
qed

lemma resolve_cases:
  assumes "distinct (map fst plans)" and "known_deps plans"
  obtains waves where
    "layering (edges plans) (set (map fst plans)) {} waves"
    "resolveDependencyGraph plans =
       (if waves = [] \<and> plans \<noteq> [] then Inl NoZeroDependencies
        else if length (concat waves) \<noteq> length plans
        then Inl (CircularDependency (length (concat waves)) (length plans))
        else Inr (waves, concat waves))"
proof -
  from assms(2) obtain ind dep where
    ce: "count_edges (set (map fst plans)) (edge_list plans) (init_maps plans ([], [])) = Inr (ind, dep)"
    using count_edges_known by fastforce
  let ?q = "filter (\<lambda>p. dget ind p = Some 0) (map fst plans)"
  let ?w = "wave_loop dep ind ?q"
  have "layering (edges plans) (set (map fst plans)) {} ?w"
    unfolding edges_def by (rule wave_loop_layering [OF resolve_start [OF assms(1) ce]])
  moreover have "?w = [] \<longleftrightarrow> ?q = []" by (cases ?q) (simp_all add: case_prod_beta)
  then have "resolveDependencyGraph plans =
       (if ?w = [] \<and> plans \<noteq> [] then Inl NoZeroDependencies
        else if length (concat ?w) \<noteq> length plans
        then Inl (CircularDependency (length (concat ?w)) (length plans))
        else Inr (?w, concat ?w))"
    unfolding resolveDependencyGraph_def ce sum.case prod.case Let_def
    by (simp del: length_concat)
  ultimately show thesis by (rule that)
qed

lemma resolve_Inr_layering:
  assumes "distinct (map fst plans)" and "resolveDependencyGraph plans = Inr (waves, order)"
  shows "known_deps plans \<and> order = concat waves \<and> length order = length plans \<and>
         layering (edges plans) (set (map fst plans)) {} waves"
proof -
  have k: "known_deps plans"
    using assms(2) count_edges_known [of plans "init_maps plans ([], [])"]
    by (auto simp: resolveDependencyGraph_def split: sum.splits)
  obtain w where "layering (edges plans) (set (map fst plans)) {} w"
    "resolveDependencyGraph plans =
       (if w = [] \<and> plans \<noteq> [] then Inl NoZeroDependencies
        else if length (concat w) \<noteq> length plans
        then Inl (CircularDependency (length (concat w)) (length plans))
        else Inr (w, concat w))"
    by (rule resolve_cases [OF assms(1) k])
  with assms(2) k show ?thesis by (auto split: if_splits)
qed

lemma resolve_Inr_order:
  assumes "distinct (map fst plans)" and "resolveDependencyGraph plans = Inr (waves, order)"
  shows "distinct order" and "set order = set (map fst plans)"
proof -
  from resolve_Inr_layering [OF assms] have o: "order = concat waves" "length order = length plans"
    and lay: "layering (edges plans) (set (map fst plans)) {} waves" by auto
  show d: "distinct order" using layering_distinct [OF lay] o by auto
  have sub: "set order \<subseteq> set (map fst plans)"
    using layering_distinct [OF lay] unfolding o(1) by blast
  have "card (set order) = card (set (map fst plans))"
    using d assms(1) o(2) by (metis distinct_card length_map)
  with sub show "set order = set (map fst plans)" by (simp add: card_subset_eq del: set_map)
qed

lemma resolve_Inr_acyclic:
  assumes "distinct (map fst plans)" and r: "resolveDependencyGraph plans = Inr (waves, order)"
  shows "acyclic (edges plans)"
proof -
  from resolve_Inr_layering [OF assms] have k: "known_deps plans" and o: "order = concat waves"
    and lay: "layering (edges plans) (set (map fst plans)) {} waves" by blast+
  have all: "set (concat waves) = set (map fst plans)"
    using resolve_Inr_order(2) [OF assms] unfolding o .
  have "(p, p) \<notin> (edges plans)\<^sup>+" for p
  proof
    assume pp: "(p, p) \<in> (edges plans)\<^sup>+"
    then have "p \<in> set (map fst plans)" using k unfolding known_deps_edges
      by (metis (no_types, lifting) SigmaD1 subsetD tranclD)
    with layering_acyclic [OF lay pp] all show False by blast
  qed
  then show ?thesis by (simp add: acyclic_def)
qed

section \<open>Properties of resolving\<close>

text \<open>
  C1. When \<open>resolveDependencyGraph\<close> returns, its merge order lists every plan exactly once, the
  waves cut it into layers, every dependency of a plan sits in a strictly earlier wave, and a
  plan of a later wave has a dependency in the wave just before (no plan waits longer than it
  has to).
\<close>

theorem resolve_order_sound:
  assumes "distinct (map fst plans)" and "resolveDependencyGraph plans = Inr (waves, order)"
  shows "order = concat waves \<and> distinct order \<and> set order = set (map fst plans) \<and>
    (\<forall>k p ds d. k < length waves \<and> p \<in> set (waves ! k) \<and> (p, ds) \<in> set plans \<and> d \<in> set ds \<longrightarrow>
       (\<exists>j<k. d \<in> set (waves ! j))) \<and>
    (\<forall>k p ds. Suc k < length waves \<and> p \<in> set (waves ! Suc k) \<and> (p, ds) \<in> set plans \<longrightarrow>
       set ds \<inter> set (waves ! k) \<noteq> {})"
proof -
  from resolve_Inr_layering [OF assms] have o: "order = concat waves" "length order = length plans"
    and lay: "layering (edges plans) (set (map fst plans)) {} waves" by auto
  have "\<exists>j<k. d \<in> set (waves ! j)"
    if "k < length waves" "p \<in> set (waves ! k)" "(p, ds) \<in> set plans" "d \<in> set ds" for k p ds d
    using layering_deps [OF lay that(1,2)] that(3,4) edges_iff by blast
  moreover have "set ds \<inter> set (waves ! k) \<noteq> {}"
    if "Suc k < length waves" "p \<in> set (waves ! Suc k)" "(p, ds) \<in> set plans" for k p ds
  proof -
    from layering_wave_dep [OF lay that(1,2)] obtain d ds' where
      "d \<in> set (waves ! k)" "(p, ds') \<in> set plans" "d \<in> set ds'" by (auto simp: edges_iff)
    with that(3) assms(1) show ?thesis by (metis disjoint_iff eq_key_imp_eq_value)
  qed
  ultimately show ?thesis using o(1) resolve_Inr_order [OF assms] by blast
qed

theorem resolve_order_sound_witness:
  "\<exists>waves order. resolveDependencyGraph [(''a'', []), (''c'', [''a'', ''b'']), (''b'', [''a''])] =
       Inr (waves, order) \<and> distinct order \<and> waves = [[''a''], [''b''], [''c'']]"
proof -
  have r: "resolveDependencyGraph [(''a'', []), (''c'', [''a'', ''b'']), (''b'', [''a''])] =
      Inr ([[''a''], [''b''], [''c'']], [''a'', ''b'', ''c''])"
    by (simp add: resolveDependencyGraph_def edge_list_def dependents_of_def Let_def)
  with resolve_order_sound [OF _ r] show ?thesis by simp
qed

text \<open>
  C2. \<open>resolveDependencyGraph\<close> rejects exactly the plan sets that cannot be ordered: it returns
  if and only if every dependency names a plan of the set and no plan depends on itself through
  any chain of dependencies.
\<close>

theorem resolve_succeeds_iff:
  assumes "distinct (map fst plans)"
  shows "(\<exists>r. resolveDependencyGraph plans = Inr r) \<longleftrightarrow> known_deps plans \<and> acyclic (edges plans)"
proof
  assume "\<exists>r. resolveDependencyGraph plans = Inr r"
  then obtain waves order where r: "resolveDependencyGraph plans = Inr (waves, order)" by auto
  with resolve_Inr_layering [OF assms r] resolve_Inr_acyclic [OF assms r]
  show "known_deps plans \<and> acyclic (edges plans)" by blast
next
  assume "known_deps plans \<and> acyclic (edges plans)"
  then have k: "known_deps plans" and ac: "acyclic (edges plans)" by auto
  obtain w where lay: "layering (edges plans) (set (map fst plans)) {} w"
    and r: "resolveDependencyGraph plans =
       (if w = [] \<and> plans \<noteq> [] then Inl NoZeroDependencies
        else if length (concat w) \<noteq> length plans
        then Inl (CircularDependency (length (concat w)) (length plans))
        else Inr (w, concat w))"
    by (rule resolve_cases [OF assms k])
  have "set (map fst plans) \<subseteq> {} \<union> set (concat w)"
    using acyclic_not_stuck [OF finite_edges ac _ layering_stuck [OF lay]] k
    unfolding known_deps_edges by blast
  with layering_distinct [OF lay] have "set (concat w) = set (map fst plans)" "distinct (concat w)"
    by blast+
  then have len: "length (concat w) = length plans"
    using assms by (metis distinct_card length_map)
  then have "w = [] \<longrightarrow> plans = []" by auto
  with len r show "\<exists>r. resolveDependencyGraph plans = Inr r" by auto
qed

theorem resolve_succeeds_iff_witness:
  "\<not> acyclic (edges [(''a'', [''c'']), (''b'', [''a'']), (''c'', [''b'']), (''d'', [])])"
proof -
  let ?g = "[(''a'', [''c'']), (''b'', [''a'']), (''c'', [''b'']), (''d'', [])] :: node list"
  have "resolveDependencyGraph ?g = Inl (CircularDependency 1 4)"
    by (simp add: resolveDependencyGraph_def edge_list_def dependents_of_def Let_def)
  moreover have "known_deps ?g" by (simp add: known_deps_def)
  ultimately show ?thesis using resolve_succeeds_iff [of ?g] by simp
qed

end
