(* ===== verification/FailurePropagation.thy ===== *)
theory FailurePropagation
  imports PlanState PlanGraph
begin

text \<open>
  \<open>propagateFailure\<close> and \<open>shouldSkipMerge\<close> of \<open>packages/engine/src/orchestrator/phases.ts\<close>.
  The state is mutated in place, so a throw leaves the transitions made before it: the
  model returns the state beside the result. The lemmas show which plans are blocked and
  for which states the function throws.
\<close>

section \<open>The worklist\<close>

definition plan_nodes :: "plan_entry list \<Rightarrow> node list" where
  "plan_nodes plans = map (\<lambda>p. (pe_id p, pe_dependsOn p)) plans"

text \<open>The adjacency map: plan id to its direct dependents.\<close>

fun adjacency :: "(plan_id \<times> plan_id) list \<Rightarrow> dependents \<Rightarrow> dependents" where
  "adjacency [] m = m"
| "adjacency ((p, d) # es) m =
     adjacency es (dput d ((case dget m d of Some xs \<Rightarrow> xs | None \<Rightarrow> []) @ [p]) m)"

definition blocked_error :: "plan_id \<Rightarrow> string" where
  "blocked_error p = ''Blocked by failed dependency: '' @ p"

text \<open>The inner loop over the dependents of one plan; \<open>blocked\<close> is the visited set.\<close>

fun block_deps ::
    "plan_id \<Rightarrow> plan_id list \<Rightarrow> eforge_state \<Rightarrow> plan_id list \<Rightarrow> plan_id list \<Rightarrow> event list
     \<Rightarrow> eforge_state \<times> (lifecycle_error, plan_id list \<times> plan_id list \<times> event list) result" where
  "block_deps f [] s blocked queue evs = (s, Inr (blocked, queue, evs))"
| "block_deps f (d # ds) s blocked queue evs =
     (if d \<in> set blocked then block_deps f ds s blocked queue evs
      else
        (case dget (es_plans s) d of
           None \<Rightarrow> block_deps f ds s (blocked @ [d]) (queue @ [d]) evs
         | Some plan \<Rightarrow>
             if ps_status plan \<noteq> PCompleted \<and> ps_status plan \<noteq> PMerged
             then (case transitionPlan s d PBlocked (Some (blocked_error f)) of
                     Inl e \<Rightarrow> (s, Inl e)
                   | Inr (s', es) \<Rightarrow> block_deps f ds s' (blocked @ [d]) (queue @ [d]) (evs @ es))
             else block_deps f ds s (blocked @ [d]) (queue @ [d]) evs))"

definition unblocked :: "dependents \<Rightarrow> plan_id list \<Rightarrow> plan_id set" where
  "unblocked m blocked = set (concat (map snd m)) - set blocked"

lemma finite_unblocked [simp]: "finite (unblocked m blocked)"
  by (simp add: unblocked_def)

lemma block_deps_measure:
  assumes "block_deps f ds s blocked queue evs = (s', Inr (blocked', queue', evs'))"
    and "set ds \<subseteq> set (concat (map snd m))"
  shows "2 * card (unblocked m blocked') + length queue' \<le> 2 * card (unblocked m blocked) + length queue"
  using assms
proof (induction f ds s blocked queue evs rule: block_deps.induct)
  case (1 f s blocked queue evs)
  then show ?case by simp
next
  case (2 f d ds s blocked queue evs)
  have sub: "set ds \<subseteq> set (concat (map snd m))" using "2.prems" by simp
  have less: "2 * card (unblocked m (blocked @ [d])) + length (queue @ [d])
      \<le> 2 * card (unblocked m blocked) + length queue" if "d \<notin> set blocked"
  proof -
    have "unblocked m (blocked @ [d]) = unblocked m blocked - {d}"
      by (auto simp: unblocked_def)
    moreover have "d \<in> unblocked m blocked" using that "2.prems"(2) by (simp add: unblocked_def)
    then have "card (unblocked m blocked - {d}) < card (unblocked m blocked)"
      by (rule card_Diff1_less [OF finite_unblocked])
    ultimately show ?thesis by simp
  qed
  show ?case
  proof (cases "d \<in> set blocked")
    case True
    with "2.IH"(1) [OF True _ sub] "2.prems" show ?thesis by simp
  next
    case False
    note IH = "2.IH"(2-) [OF False] and less = less [OF False]
    show ?thesis
    proof (cases "dget (es_plans s) d")
      case None
      with IH(1) [OF None _ sub] "2.prems" False less show ?thesis by simp
    next
      case (Some plan)
      show ?thesis
      proof (cases "ps_status plan \<noteq> PCompleted \<and> ps_status plan \<noteq> PMerged")
        case True
        with Some False "2.prems"(1) obtain s1 es where
          t: "transitionPlan s d PBlocked (Some (blocked_error f)) = Inr (s1, es)"
          by (auto split: sum.splits)
        with IH(2) [OF Some True t refl _ sub] "2.prems" False Some True less show ?thesis by simp
      next
        case c: False
        with IH(3) [OF Some c _ sub] "2.prems" False Some less show ?thesis by auto
      qed
    qed
  qed
qed

function block_loop ::
    "dependents \<Rightarrow> plan_id \<Rightarrow> eforge_state \<Rightarrow> plan_id list \<Rightarrow> plan_id list \<Rightarrow> event list
     \<Rightarrow> eforge_state \<times> (lifecycle_error, event list) result" where
  "block_loop m f s blocked [] evs = (s, Inr evs)"
| "block_loop m f s blocked (current # queue) evs =
     (case block_deps f (dependents_of m current) s blocked queue evs of
        (s', Inl e) \<Rightarrow> (s', Inl e)
      | (s', Inr (blocked', queue', evs')) \<Rightarrow> block_loop m f s' blocked' queue' evs')"
  by pat_completeness auto
termination
proof (relation "measure (\<lambda>(m, f, s, blocked, queue, evs). 2 * card (unblocked m blocked) + length queue)",
    goal_cases)
  case (2 m f s blocked current queue evs s' r t blocked' u queue' evs')
  then have "block_deps f (dependents_of m current) s blocked queue evs =
      (s', Inr (blocked', queue', evs'))" by simp
  from block_deps_measure [OF this dependents_of_subset] show ?case by simp
qed simp

definition propagateFailure ::
    "eforge_state \<Rightarrow> plan_id \<Rightarrow> plan_entry list \<Rightarrow> eforge_state \<times> (lifecycle_error, event list) result" where
  "propagateFailure s failedPlanId plans =
     block_loop (adjacency (edge_list (plan_nodes plans)) []) failedPlanId s [] [failedPlanId] []"

definition shouldSkipMerge :: "plan_id \<Rightarrow> plan_entry list \<Rightarrow> plan_id list \<Rightarrow> string option" where
  "shouldSkipMerge p plans failedMerges =
     (case List.find (\<lambda>e. pe_id e = p) plans of
        None \<Rightarrow> None
      | Some plan \<Rightarrow>
          (case List.find (\<lambda>d. d \<in> set failedMerges) (pe_dependsOn plan) of
             None \<Rightarrow> None
           | Some d \<Rightarrow> Some (''Skipped: dependency '' @ [CHR 0x22] @ d @ [CHR 0x22] @ '' failed to merge'')))"

section \<open>What is blocked\<close>

lemma adjacency_dependents:
  "set (dependents_of (adjacency es m) d) = set (dependents_of m d) \<union> {p. (p, d) \<in> set es}"
  by (induction es m rule: adjacency.induct) (auto simp: dependents_of_def split: option.splits if_splits)

text \<open>The plans that depend on \<open>p\<close>, directly or through others.\<close>

definition dependents_star :: "plan_entry list \<Rightarrow> plan_id \<Rightarrow> plan_id set" where
  "dependents_star plans p = {q. (q, p) \<in> (edges (plan_nodes plans))\<^sup>+}"

text \<open>\<open>s'\<close> is \<open>s\<close> with the unfinished plans among \<open>B\<close> blocked, and nothing else changed.\<close>

definition blocks_exactly :: "eforge_state \<Rightarrow> plan_id \<Rightarrow> plan_id set \<Rightarrow> eforge_state \<Rightarrow> bool" where
  "blocks_exactly s f B s' \<longleftrightarrow>
     (\<forall>q. dget (es_plans s') q =
        map_option (\<lambda>plan. if q \<in> B \<and> ps_status plan \<noteq> PCompleted \<and> ps_status plan \<noteq> PMerged
                          then moved plan PBlocked (Some (blocked_error f)) else plan)
          (dget (es_plans s) q)) \<and>
     es_completedPlans s' = es_completedPlans s \<and> es_status s' = es_status s \<and>
     dkeys (es_plans s') = dkeys (es_plans s)"

definition blockable :: "eforge_state \<Rightarrow> plan_id set \<Rightarrow> bool" where
  "blockable s B \<longleftrightarrow>
     (\<forall>q \<in> B. \<forall>plan. dget (es_plans s) q = Some plan \<longrightarrow>
        ps_status plan \<in> {PPending, PCompleted, PMerged})"

lemma blockable_mono: "A \<subseteq> B \<Longrightarrow> blockable s B \<Longrightarrow> blockable s A"
  unfolding blockable_def by blast

lemma blocks_exactly_refl: "blocks_exactly s f {} s"
  by (simp add: blocks_exactly_def option.map_ident)

lemma blocks_exactly_finished:
  assumes "blocks_exactly s f B s'"
    and "\<And>plan. dget (es_plans s) d = Some plan \<Longrightarrow> ps_status plan \<in> {PCompleted, PMerged}"
  shows "blocks_exactly s f (insert d B) s'"
proof -
  have "map_option (\<lambda>plan. if q \<in> B \<and> ps_status plan \<noteq> PCompleted \<and> ps_status plan \<noteq> PMerged
            then moved plan PBlocked (Some (blocked_error f)) else plan) (dget (es_plans s) q) =
        map_option (\<lambda>plan. if q \<in> insert d B \<and> ps_status plan \<noteq> PCompleted \<and> ps_status plan \<noteq> PMerged
            then moved plan PBlocked (Some (blocked_error f)) else plan) (dget (es_plans s) q)" for q
    using assms(2) by (cases "q = d"; cases "dget (es_plans s) q") auto
  with assms(1) show ?thesis by (simp add: blocks_exactly_def)
qed

lemma blocks_exactly_step:
  assumes ex: "blocks_exactly s f B s1" and new: "d \<notin> B"
    and t: "transitionPlan s1 d PBlocked (Some (blocked_error f)) = Inr (s2, evs)"
  shows "blocks_exactly s f (insert d B) s2"
  using t
proof (rule transitionPlan_InrE)
  fix plan
  assume p: "dget (es_plans s1) d = Some plan"
    and legal: "PBlocked \<in> set (VALID_TRANSITIONS (ps_status plan))"
    and upd: "\<And>q. dget (es_plans s2) q =
      (if q = d then Some (moved plan PBlocked (Some (blocked_error f))) else dget (es_plans s1) q)"
    and rest: "es_completedPlans s2 =
      (if PBlocked = PCompleted \<or> PBlocked = PMerged then sadd d (es_completedPlans s1)
       else es_completedPlans s1)"
      "es_status s2 = es_status s1" "dkeys (es_plans s2) = dkeys (es_plans s1)"
  from ex have s1: "dget (es_plans s1) q =
        map_option (\<lambda>plan. if q \<in> B \<and> ps_status plan \<noteq> PCompleted \<and> ps_status plan \<noteq> PMerged
                          then moved plan PBlocked (Some (blocked_error f)) else plan)
          (dget (es_plans s) q)" for q
    unfolding blocks_exactly_def by blast
  have d: "dget (es_plans s) d = Some plan" using s1 [of d] p new by auto
  have st: "ps_status plan = PPending" using legal by (cases "ps_status plan") auto
  have "dget (es_plans s2) q =
        map_option (\<lambda>plan. if q \<in> insert d B \<and> ps_status plan \<noteq> PCompleted \<and> ps_status plan \<noteq> PMerged
                          then moved plan PBlocked (Some (blocked_error f)) else plan)
          (dget (es_plans s) q)" for q
    using d st by (cases "q = d") (auto simp: upd s1)
  moreover have "es_completedPlans s1 = es_completedPlans s" "es_status s1 = es_status s"
    "dkeys (es_plans s1) = dkeys (es_plans s)"
    using ex unfolding blocks_exactly_def by blast+
  ultimately show ?thesis using rest unfolding blocks_exactly_def by simp
qed

lemma blocks_exactly_other:
  "blocks_exactly s f B s' \<Longrightarrow> d \<notin> B \<Longrightarrow> dget (es_plans s') d = dget (es_plans s) d"
  by (simp add: blocks_exactly_def option.map_ident)

definition block_post ::
    "eforge_state \<Rightarrow> plan_id \<Rightarrow> plan_id list \<Rightarrow> plan_id list \<Rightarrow> plan_id list \<Rightarrow> eforge_state
     \<Rightarrow> (lifecycle_error, plan_id list \<times> plan_id list \<times> event list) result \<Rightarrow> bool" where
  "block_post s f ds blocked queue s2 r \<longleftrightarrow>
     (case r of
        Inr (blocked', queue', evs') \<Rightarrow>
          (\<exists>xs. blocked' = blocked @ xs \<and> queue' = queue @ xs \<and>
             set blocked \<union> set xs = set blocked \<union> set ds) \<and>
          blocks_exactly s f (set blocked') s2 \<and> blockable s (set blocked')
      | Inl e \<Rightarrow> \<not> blockable s (set ds) \<and>
          (\<exists>B. set blocked \<subseteq> B \<and> B \<subseteq> set blocked \<union> set ds \<and> blocks_exactly s f B s2))"

lemma block_post_seen:
  "d \<in> set blocked \<Longrightarrow> block_post s f ds blocked queue s2 r \<Longrightarrow>
   block_post s f (d # ds) blocked queue s2 r"
  by (auto simp: block_post_def blockable_def insert_absorb split: sum.splits)

lemma block_post_new:
  assumes IH: "block_post s f ds (blocked @ [d]) (queue @ [d]) s2 r"
  shows "block_post s f (d # ds) blocked queue s2 r"
proof (cases r)
  case (Inl e)
  with IH obtain B where "\<not> blockable s (set ds)" "set (blocked @ [d]) \<subseteq> B"
    "B \<subseteq> set (blocked @ [d]) \<union> set ds" "blocks_exactly s f B s2" by (auto simp: block_post_def)
  moreover from this have "\<not> blockable s (set (d # ds))" by (auto simp: blockable_def)
  ultimately show ?thesis using Inl by (auto simp: block_post_def intro!: exI [of _ B])
next
  case (Inr t)
  obtain b' q' e' where t: "t = (b', q', e')" by (cases t)
  with IH Inr obtain xs where "b' = (blocked @ [d]) @ xs" "q' = (queue @ [d]) @ xs"
    "set (blocked @ [d]) \<union> set xs = set (blocked @ [d]) \<union> set ds"
    "blocks_exactly s f (set b') s2" "blockable s (set b')" by (auto simp: block_post_def)
  then show ?thesis using Inr t by (auto simp: block_post_def intro!: exI [of _ "d # xs"])
qed

lemma block_deps_spec:
  assumes "block_deps f ds s1 blocked queue evs = (s2, r)"
    and "blocks_exactly s f (set blocked) s1" and "blockable s (set blocked)"
  shows "block_post s f ds blocked queue s2 r"
  using assms
proof (induction f ds s1 blocked queue evs rule: block_deps.induct)
  case (1 f s1 blocked queue evs)
  then show ?case by (auto simp: block_post_def)
next
  case (2 f d ds s1 blocked queue evs)
  note ex = "2.prems"(2) and ok = "2.prems"(3)
  show ?case
  proof (cases "d \<in> set blocked")
    case True
    with "2.prems"(1) have "block_deps f ds s1 blocked queue evs = (s2, r)" by simp
    with "2.IH"(1) [OF True this ex ok] True show ?thesis by (blast intro: block_post_seen)
  next
    case new: False
    have other: "dget (es_plans s1) d = dget (es_plans s) d"
      by (rule blocks_exactly_other [OF ex new])
    show ?thesis
    proof (cases "dget (es_plans s1) d")
      case None
      with "2.prems"(1) new have run: "block_deps f ds s1 (blocked @ [d]) (queue @ [d]) evs = (s2, r)"
        by simp
      have "blocks_exactly s f (insert d (set blocked)) s1"
        by (rule blocks_exactly_finished [OF ex]) (use None other in simp)
      moreover have "blockable s (insert d (set blocked))"
        using ok None other by (auto simp: blockable_def)
      ultimately show ?thesis using "2.IH"(2) [OF new None run] by (simp add: block_post_new)
    next
      case (Some plan)
      show ?thesis
      proof (cases "ps_status plan \<noteq> PCompleted \<and> ps_status plan \<noteq> PMerged")
        case act: True
        show ?thesis
        proof (cases "transitionPlan s1 d PBlocked (Some (blocked_error f))")
          case (Inl e)
          with "2.prems"(1) new Some act have r: "s2 = s1" "r = Inl e" by auto
          have "\<not> (\<exists>x. transitionPlan s1 d PBlocked (Some (blocked_error f)) = Inr x)" using Inl by simp
          then have "PBlocked \<notin> set (VALID_TRANSITIONS (ps_status plan))"
            unfolding transitionPlan_succeeds_iff using Some by blast
          then have "ps_status plan \<noteq> PPending" by auto
          with act have "\<not> blockable s (set (d # ds))"
            using Some other by (auto simp: blockable_def)
          then show ?thesis using r ex by (auto simp: block_post_def)
        next
          case (Inr x)
          obtain s3 es where x: "x = (s3, es)" by (cases x)
          with Inr have t: "transitionPlan s1 d PBlocked (Some (blocked_error f)) = Inr (s3, es)" by simp
          with "2.prems"(1) new Some act have
            run: "block_deps f ds s3 (blocked @ [d]) (queue @ [d]) (evs @ es) = (s2, r)" by simp
          have "blocks_exactly s f (insert d (set blocked)) s3"
            by (rule blocks_exactly_step [OF ex new t])
          moreover from t Some have "PBlocked \<in> set (VALID_TRANSITIONS (ps_status plan))"
            using transitionPlan_succeeds_iff [of s1 d PBlocked "Some (blocked_error f)"] by auto
          then have "ps_status plan = PPending" by (cases "ps_status plan") auto
          then have "blockable s (insert d (set blocked))"
            using ok Some other by (auto simp: blockable_def)
          ultimately show ?thesis
            using "2.IH"(3) [OF new Some act t refl run] by (simp add: block_post_new)
        qed
      next
        case fin: False
        with "2.prems"(1) new Some have
          run: "block_deps f ds s1 (blocked @ [d]) (queue @ [d]) evs = (s2, r)" by auto
        have "blocks_exactly s f (insert d (set blocked)) s1"
          by (rule blocks_exactly_finished [OF ex]) (use Some other fin in auto)
        moreover have "blockable s (insert d (set blocked))"
          using ok Some other fin by (auto simp: blockable_def)
        ultimately show ?thesis using "2.IH"(4) [OF new Some fin run] by (simp add: block_post_new)
      qed
    qed
  qed
qed

definition block_inv :: "(plan_id \<times> plan_id) set \<Rightarrow> plan_id \<Rightarrow> plan_id list \<Rightarrow> plan_id list \<Rightarrow> bool" where
  "block_inv E f blocked queue \<longleftrightarrow>
     (\<forall>q \<in> set blocked. (q, f) \<in> E\<^sup>+) \<and> set queue \<subseteq> insert f (set blocked) \<and>
     (\<forall>x \<in> insert f (set blocked) - set queue. \<forall>q. (q, x) \<in> E \<longrightarrow> q \<in> set blocked)"

lemma block_inv_blocked: "block_inv E f blocked queue \<Longrightarrow> set blocked \<subseteq> {q. (q, f) \<in> E\<^sup>+}"
  unfolding block_inv_def by blast

lemma block_inv_current:
  assumes "block_inv E f blocked (current # queue)"
  shows "current = f \<or> (current, f) \<in> E\<^sup>+"
proof -
  have "set (current # queue) \<subseteq> insert f (set blocked)"
    using assms unfolding block_inv_def by (elim conjE)
  then have "current \<in> insert f (set blocked)" by auto
  with block_inv_blocked [OF assms] show ?thesis by blast
qed

lemma block_inv_step:
  assumes "block_inv E f blocked (current # queue)" and "set ds = {q. (q, current) \<in> E}"
    and "set blocked \<union> set xs = set blocked \<union> set ds"
  shows "block_inv E f (blocked @ xs) (queue @ xs)"
proof -
  from assms(1) have reach: "\<And>q. q \<in> set blocked \<Longrightarrow> (q, f) \<in> E\<^sup>+"
    and sub: "set (current # queue) \<subseteq> insert f (set blocked)"
    and closed: "\<And>x q. x \<in> insert f (set blocked) \<Longrightarrow> x \<notin> set (current # queue) \<Longrightarrow> (q, x) \<in> E \<Longrightarrow>
      q \<in> set blocked"
    unfolding block_inv_def by blast+
  have cur: "current = f \<or> (current, f) \<in> E\<^sup>+" using sub reach by auto
  have "(q, f) \<in> E\<^sup>+" if "(q, current) \<in> E" for q
    using cur that by (auto intro: trancl_into_trancl2)
  with assms(2) have ds: "(q, f) \<in> E\<^sup>+" if "q \<in> set ds" for q using that by blast
  then have "\<forall>q \<in> set (blocked @ xs). (q, f) \<in> E\<^sup>+"
    using reach assms(3) by auto
  moreover have "set (queue @ xs) \<subseteq> insert f (set (blocked @ xs))" using sub by auto
  moreover have "q \<in> set (blocked @ xs)"
    if "x \<in> insert f (set (blocked @ xs)) - set (queue @ xs)" "(q, x) \<in> E" for x q
  proof (cases "x = current")
    case True
    with that(2) assms(2,3) show ?thesis by auto
  next
    case False
    with that closed [of x q] show ?thesis by auto
  qed
  ultimately show ?thesis unfolding block_inv_def by blast
qed

lemma block_inv_done:
  assumes "block_inv E f blocked []"
  shows "set blocked = {q. (q, f) \<in> E\<^sup>+}"
proof -
  from assms have closed: "\<And>x q. x = f \<or> x \<in> set blocked \<Longrightarrow> (q, x) \<in> E \<Longrightarrow> q \<in> set blocked"
    unfolding block_inv_def by auto
  have "q \<in> set blocked" if "(q, f) \<in> E\<^sup>+" for q
    using that by (induction rule: converse_trancl_induct) (use closed in blast)+
  with assms show ?thesis unfolding block_inv_def by blast
qed

lemma block_loop_spec:
  assumes "block_loop m f s1 blocked queue evs = (s2, r)"
    and "\<And>d. set (dependents_of m d) = {q. (q, d) \<in> E}"
    and "block_inv E f blocked queue"
    and "blocks_exactly s f (set blocked) s1" and "blockable s (set blocked)"
  shows "case r of
      Inr _ \<Rightarrow> blocks_exactly s f {q. (q, f) \<in> E\<^sup>+} s2 \<and> blockable s {q. (q, f) \<in> E\<^sup>+}
    | Inl e \<Rightarrow> \<not> blockable s {q. (q, f) \<in> E\<^sup>+} \<and>
        (\<exists>B \<subseteq> {q. (q, f) \<in> E\<^sup>+}. blocks_exactly s f B s2)"
  using assms
proof (induction m f s1 blocked queue evs rule: block_loop.induct)
  case (1 m f s1 blocked evs)
  then show ?case using block_inv_done [OF "1.prems"(3)] by auto
next
  case (2 m f s1 blocked current queue evs)
  let ?D = "{q. (q, f) \<in> E\<^sup>+}"
  obtain s3 x where bd: "block_deps f (dependents_of m current) s1 blocked queue evs = (s3, x)"
    by (cases "block_deps f (dependents_of m current) s1 blocked queue evs")
  note post = block_deps_spec [OF bd "2.prems"(4,5), unfolded block_post_def]
  show ?case
  proof (cases x)
    case (Inl e)
    from post [unfolded Inl sum.case] obtain B where
      nb: "\<not> blockable s (set (dependents_of m current))"
      and B: "B \<subseteq> set blocked \<union> set (dependents_of m current)" "blocks_exactly s f B s3" by blast
    from block_inv_current [OF "2.prems"(3)] have D: "set (dependents_of m current) \<subseteq> ?D"
      unfolding "2.prems"(2) by (auto intro: trancl_into_trancl2)
    from B(1) D block_inv_blocked [OF "2.prems"(3)] have "B \<subseteq> ?D" by blast
    moreover have "\<not> blockable s ?D" using nb blockable_mono [OF D] by blast
    moreover have "r = Inl e" "s2 = s3" using "2.prems"(1) bd Inl by auto
    ultimately show ?thesis using B(2) by (simp only: sum.case) blast
  next
    case (Inr y)
    obtain b' q' e' where y: "y = (b', q', e')" by (cases y)
    from post [unfolded Inr y sum.case prod.case] obtain xs where xs: "b' = blocked @ xs" "q' = queue @ xs"
      "set blocked \<union> set xs = set blocked \<union> set (dependents_of m current)"
      and ex: "blocks_exactly s f (set b') s3" and ok: "blockable s (set b')" by blast
    have inv: "block_inv E f b' q'"
      unfolding xs(1,2) by (rule block_inv_step [OF "2.prems"(3) "2.prems"(2) xs(3)])
    have "block_loop m f s3 b' q' e' = (s2, r)" using "2.prems"(1) bd Inr y by simp
    from "2.IH" [OF bd [symmetric] Inr y [symmetric] refl this "2.prems"(2) inv ex ok] show ?thesis .
  qed
qed

lemma propagateFailure_spec:
  assumes "propagateFailure s f plans = (s', r)"
  shows "case r of
      Inr _ \<Rightarrow> blocks_exactly s f (dependents_star plans f) s' \<and> blockable s (dependents_star plans f)
    | Inl e \<Rightarrow> \<not> blockable s (dependents_star plans f) \<and>
        (\<exists>B \<subseteq> dependents_star plans f. blocks_exactly s f B s')"
  unfolding dependents_star_def
proof (rule block_loop_spec [where blocked = "[]"])
  let ?es = "edge_list (plan_nodes plans)"
  show "block_loop (adjacency ?es []) f s [] [f] [] = (s', r)"
    using assms unfolding propagateFailure_def .
  show "set (dependents_of (adjacency ?es []) d) = {q. (q, d) \<in> edges (plan_nodes plans)}" for d
    by (simp add: adjacency_dependents edges_def) (simp add: dependents_of_def)
qed (simp_all add: block_inv_def blocks_exactly_refl blockable_def)

lemma blockable_iff:
  "blockable s D \<longleftrightarrow>
     (\<forall>q \<in> D. plan_status_of s q \<in> {None, Some PPending, Some PCompleted, Some PMerged})"
proof -
  have "(\<forall>plan. dget (es_plans s) q = Some plan \<longrightarrow> ps_status plan \<in> {PPending, PCompleted, PMerged}) \<longleftrightarrow>
        plan_status_of s q \<in> {None, Some PPending, Some PCompleted, Some PMerged}" for q
    by (cases "dget (es_plans s) q") auto
  then show ?thesis unfolding blockable_def by (simp only:)
qed

text \<open>A plan set where \<open>c\<close> waits for two independent plans.\<close>

definition diamond_config :: orchestration_config where
  "diamond_config = demo_config\<lparr>oc_plans :=
     [demo_plan ''a'' [], demo_plan ''b'' [], demo_plan ''c'' [''a'', ''b'']]\<rparr>"

lemma diamond_c:
  "x = ''a'' \<or> x = ''b'' \<Longrightarrow> ''c'' \<in> dependents_star (oc_plans diamond_config) x"
  unfolding dependents_star_def
  by (auto simp: diamond_config_def demo_plan_def plan_nodes_def edges_iff intro!: r_into_trancl)

lemma initial_blockable: "blockable (initializeState config wb) D"
  unfolding blockable_def by (auto dest: initializeState_pending)

lemma diamond_first:
  "\<exists>s1 evs. propagateFailure (initializeState diamond_config ''w'') ''a'' (oc_plans diamond_config) =
     (s1, Inr evs)"
proof -
  obtain s1 r where p: "propagateFailure (initializeState diamond_config ''w'') ''a''
      (oc_plans diamond_config) = (s1, r)"
    by (cases "propagateFailure (initializeState diamond_config ''w'') ''a'' (oc_plans diamond_config)")
  from propagateFailure_spec [OF p] initial_blockable p show ?thesis by (cases r) auto
qed

section \<open>Properties\<close>

text \<open>
  C21. \<open>propagateFailure\<close> returns exactly when none of the plans that depend on the failed one,
  directly or through others, is running, failed or already blocked; it then blocks the pending
  ones among them with the error naming the failed plan, leaves the completed and merged ones
  and every plan that does not depend on the failed one as they were, and changes no other part
  of the state.
\<close>

theorem propagateFailure_exact:
  assumes "propagateFailure s f plans = (s', r)"
  shows "((\<exists>evs. r = Inr evs) \<longleftrightarrow>
      (\<forall>q \<in> dependents_star plans f.
         plan_status_of s q \<in> {None, Some PPending, Some PCompleted, Some PMerged})) \<and>
    (\<forall>evs. r = Inr evs \<longrightarrow>
      (\<forall>q plan. dget (es_plans s) q = Some plan \<longrightarrow>
         dget (es_plans s') q = Some
           (if q \<in> dependents_star plans f \<and> ps_status plan = PPending
            then plan\<lparr>ps_status := PBlocked, ps_error := Some (blocked_error f)\<rparr> else plan)) \<and>
      es_completedPlans s' = es_completedPlans s \<and> es_status s' = es_status s)"
proof (intro conjI allI impI)
  show "(\<exists>evs. r = Inr evs) \<longleftrightarrow>
      (\<forall>q \<in> dependents_star plans f.
         plan_status_of s q \<in> {None, Some PPending, Some PCompleted, Some PMerged})"
    using propagateFailure_spec [OF assms] unfolding blockable_iff by (cases r) auto
next
  fix evs q plan
  assume r: "r = Inr evs" and p: "dget (es_plans s) q = Some plan"
  from propagateFailure_spec [OF assms] r have
    ex: "blocks_exactly s f (dependents_star plans f) s'" and b: "blockable s (dependents_star plans f)"
    by auto
  have "ps_status plan \<in> {PPending, PCompleted, PMerged}" if "q \<in> dependents_star plans f"
    using b p that unfolding blockable_def by blast
  then show "dget (es_plans s') q = Some
      (if q \<in> dependents_star plans f \<and> ps_status plan = PPending
       then plan\<lparr>ps_status := PBlocked, ps_error := Some (blocked_error f)\<rparr> else plan)"
    using ex p unfolding blocks_exactly_def by (auto simp: moved_def)
next
  fix evs
  assume "r = Inr evs"
  with propagateFailure_spec [OF assms] have
    ex: "blocks_exactly s f (dependents_star plans f) s'" by auto
  then show "es_completedPlans s' = es_completedPlans s" "es_status s' = es_status s"
    unfolding blocks_exactly_def by auto
qed

theorem propagateFailure_exact_witness:
  "\<exists>s'. fst (propagateFailure (initializeState diamond_config ''w'') ''a'' (oc_plans diamond_config)) = s' \<and>
     plan_status_of s' ''c'' = Some PBlocked"
proof -
  obtain s' evs where p: "propagateFailure (initializeState diamond_config ''w'') ''a''
      (oc_plans diamond_config) = (s', Inr evs)"
    using diamond_first by blast
  obtain plan where c: "dget (es_plans (initializeState diamond_config ''w'')) ''c'' = Some plan"
    "ps_status plan = PPending"
    by (auto simp: initializeState_plans diamond_config_def demo_plan_def plan_state_of_def)
  from propagateFailure_exact [OF p] c diamond_c [of "''a''"] have
    "plan_status_of s' ''c'' = Some PBlocked" by auto
  with p show ?thesis by auto
qed

text \<open>
  A second failing dependency is not survived: when a plan was blocked because one of its
  dependencies failed, the failure of another plan it depends on makes \<open>propagateFailure\<close>
  throw, whatever the other plans are.
\<close>

theorem second_failure_throws:
  assumes "propagateFailure s f plans = (s1, Inr evs)"
    and "c \<in> dependents_star plans f" and "plan_status_of s c = Some PPending"
    and "c \<in> dependents_star plans g"
  shows "\<exists>s2 e. propagateFailure s1 g plans = (s2, Inl e)"
proof -
  from propagateFailure_spec [OF assms(1)] have
    ex: "blocks_exactly s f (dependents_star plans f) s1" by auto
  from assms(3) obtain plan where "dget (es_plans s) c = Some plan" "ps_status plan = PPending" by auto
  with ex assms(2) have c: "plan_status_of s1 c = Some PBlocked" unfolding blocks_exactly_def by auto
  obtain s2 r where p: "propagateFailure s1 g plans = (s2, r)"
    by (cases "propagateFailure s1 g plans")
  have "plan_status_of s1 c \<notin> {None, Some PPending, Some PCompleted, Some PMerged}"
    unfolding c by simp
  with assms(4) have "\<not> blockable s1 (dependents_star plans g)" unfolding blockable_iff by blast
  with propagateFailure_spec [OF p] p show ?thesis by (cases r) auto
qed

theorem second_failure_throws_witness:
  "\<exists>s1 s2 e. fst (propagateFailure (initializeState diamond_config ''w'') ''a'' (oc_plans diamond_config)) = s1 \<and>
     propagateFailure s1 ''b'' (oc_plans diamond_config) = (s2, Inl e)"
proof -
  let ?s = "initializeState diamond_config ''w''"
  have st: "plan_status_of ?s ''c'' = Some PPending"
    by (auto simp: initializeState_plans diamond_config_def demo_plan_def plan_state_of_def)
  have d: "''c'' \<in> dependents_star (oc_plans diamond_config) ''a''"
    "''c'' \<in> dependents_star (oc_plans diamond_config) ''b''"
    by (rule diamond_c, simp)+
  obtain s1 evs where p: "propagateFailure ?s ''a'' (oc_plans diamond_config) = (s1, Inr evs)"
    using diamond_first by blast
  from second_failure_throws [OF p d(1) st d(2)] p show ?thesis by auto
qed

end
