(* ===== verification/PlanExecution.thy ===== *)
theory PlanExecution
  imports FailurePropagation Concurrency
begin

text \<open>
  \<open>executePlans\<close> of \<open>packages/engine/src/orchestrator/phases.ts\<close> as a machine. One event is
  what happens between two waits of the program: an asynchronous result arriving at a plan's
  launch (\<open>launchPlan\<close>), or one turn of the consuming loop up to the next external call. What
  the worktree manager, the plan runner, the policy gates and \<open>mergePlan\<close> answer is the
  event's argument. The lemmas show that a plan starts only after everything it depends on is
  merged, that the semaphore bounds the running plans, that the loop neither gets stuck nor
  ends too early, and what the final status of the run means.
\<close>

section \<open>State\<close>

record exec_cfg =
  ec_config :: orchestration_config
  ec_parallelism :: int
  ec_planGates :: bool \<comment> \<open>\<open>hasPolicyGates(ctx, 'plan-merge')\<close>\<close>
  ec_noCommittedChangesReason :: "string option"

text \<open>Where the asynchronous body of one \<open>launchPlan\<close> waits.\<close>

datatype stage =
    StWaiting \<comment> \<open>\<open>await semaphore.acquire()\<close>\<close>
  | StAcquiring \<comment> \<open>\<open>await acquireForPlan\<close>\<close>
  | StBuilding "string option" \<comment> \<open>in the runner's loop, with \<open>buildFailedError\<close>\<close>
  | StReleasing \<comment> \<open>\<open>await releaseForPlan\<close> in the \<open>finally\<close> block\<close>
  | StEnded

text \<open>Where the consuming loop waits: for an event, a policy gate or a merge.\<close>

datatype loop_state =
    LNext
  | LGate plan_id "plan_id list"
  | LMerge plan_id "plan_id list"
  | LEnded
  | LThrown lifecycle_error

record exec_state =
  xs_state :: eforge_state
  xs_running :: "plan_id list"
  xs_sem :: "plan_id semaphore"
  xs_queue :: "event event_queue"
  xs_inbox :: "event received option" \<comment> \<open>what \<open>next()\<close> resolved to, not handled yet\<close>
  xs_stages :: "(plan_id \<times> stage) list"
  xs_rejected :: "plan_id list" \<comment> \<open>launches whose promise rejected\<close>
  xs_failedMerges :: "plan_id list"
  xs_recentlyMerged :: "plan_id list"
  xs_sentinel :: bool
  xs_loop :: loop_state
  xs_yielded :: "event list"
  xs_aborted :: bool

section \<open>Small operations\<close>

definition status_name :: "plan_status \<Rightarrow> string" where
  "status_name st =
     (case st of PPending \<Rightarrow> ''pending'' | PRunning \<Rightarrow> ''running'' | PCompleted \<Rightarrow> ''completed''
      | PFailed \<Rightarrow> ''failed'' | PBlocked \<Rightarrow> ''blocked'' | PMerged \<Rightarrow> ''merged'')"

definition squote :: "string \<Rightarrow> string" where
  "squote s = [CHR 0x27] @ s @ [CHR 0x27]"

primrec join_comma :: "string list \<Rightarrow> string" where
  "join_comma [] = ''''"
| "join_comma (s # ss) = (if ss = [] then s else s @ '', '' @ join_comma ss)"

definition lifecycle_message :: "lifecycle_error \<Rightarrow> string" where
  "lifecycle_message e =
     (case e of
        UnknownPlan p \<Rightarrow> ''Unknown plan ID: '' @ squote p
      | InvalidTransition p st to \<Rightarrow>
          ''Invalid plan transition for '' @ squote p @ '': '' @ squote (status_name st) @ '' -> '' @
          squote (status_name to) @ ''. Allowed transitions from '' @ squote (status_name st) @ '': ['' @
          join_comma (map (squote \<circ> status_name) (VALID_TRANSITIONS st)) @ '']'')"

definition xpush :: "event \<Rightarrow> exec_state \<Rightarrow> exec_state" where
  "xpush e x =
     (case aq_push e (xs_queue x) of
        (q, None) \<Rightarrow> x\<lparr>xs_queue := q\<rparr>
      | (q, Some v) \<Rightarrow> x\<lparr>xs_queue := q, xs_inbox := Some v\<rparr>)"

definition xpush_all :: "event list \<Rightarrow> exec_state \<Rightarrow> exec_state" where
  "xpush_all es x = fold xpush es x"

definition xremoveProducer :: "exec_state \<Rightarrow> exec_state" where
  "xremoveProducer x =
     (case aq_removeProducer (xs_queue x) of
        (q, None) \<Rightarrow> x\<lparr>xs_queue := q\<rparr>
      | (q, Some v) \<Rightarrow> x\<lparr>xs_queue := q, xs_inbox := Some v\<rparr>)"

definition removeSentinel :: "exec_state \<Rightarrow> exec_state" where
  "removeSentinel x = (if xs_sentinel x then xremoveProducer (x\<lparr>xs_sentinel := False\<rparr>) else x)"

definition yield :: "event list \<Rightarrow> exec_state \<Rightarrow> exec_state" where
  "yield es x = x\<lparr>xs_yielded := xs_yielded x @ es\<rparr>"

section \<open>Launching\<close>

definition isReady :: "eforge_state \<Rightarrow> plan_id \<Rightarrow> bool" where
  "isReady s p =
     (case dget (es_plans s) p of
        None \<Rightarrow> False
      | Some plan \<Rightarrow>
          ps_status plan = PPending \<and>
          list_all (\<lambda>d. case dget (es_plans s) d of None \<Rightarrow> False | Some dep \<Rightarrow> ps_status dep = PMerged)
            (ps_dependsOn plan))"

definition launchPlan :: "plan_id \<Rightarrow> exec_state \<Rightarrow> exec_state" where
  "launchPlan p x =
     (case sem_acquire p (xs_sem x) of
        (sem, acquired) \<Rightarrow>
          x\<lparr>xs_queue := aq_addProducer (xs_queue x), xs_sem := sem,
            xs_stages := dput p (if acquired then StAcquiring else StWaiting) (xs_stages x),
            xs_running := xs_running x @ [p]\<rparr>)"

fun startReadyPlans :: "string \<Rightarrow> plan_id list \<Rightarrow> exec_state \<Rightarrow> exec_state" where
  "startReadyPlans reason [] x = x"
| "startReadyPlans reason (p # ps) x =
     (if p \<in> set (xs_running x) \<or> \<not> isReady (xs_state x) p then startReadyPlans reason ps x
      else startReadyPlans reason ps (launchPlan p (xpush (PlanScheduleReady p reason) x)))"

definition all_ids :: "exec_cfg \<Rightarrow> plan_id list" where
  "all_ids cfg = map pe_id (oc_plans (ec_config cfg))"

text \<open>The \<open>finally\<close> block up to its \<open>await\<close>: the permit goes to the next waiting launch.\<close>

definition finallyRelease :: "plan_id \<Rightarrow> exec_state \<Rightarrow> exec_state" where
  "finallyRelease p x =
     (case sem_release (xs_sem x) of
        (sem, None) \<Rightarrow> x\<lparr>xs_sem := sem, xs_stages := dput p StReleasing (xs_stages x)\<rparr>
      | (sem, Some v) \<Rightarrow>
          x\<lparr>xs_sem := sem, xs_stages := dput v StAcquiring (dput p StReleasing (xs_stages x))\<rparr>)"

text \<open>A state change whose events go to the queue; a throw is the second result.\<close>

definition xtransition ::
    "plan_id \<Rightarrow> plan_status \<Rightarrow> string option \<Rightarrow> exec_state \<Rightarrow> exec_state \<times> lifecycle_error option" where
  "xtransition p to err x =
     (case transitionPlan (xs_state x) p to err of
        Inl e \<Rightarrow> (x, Some e)
      | Inr (s, es) \<Rightarrow> (xpush_all es (x\<lparr>xs_state := s\<rparr>), None))"

definition xpropagate :: "exec_cfg \<Rightarrow> plan_id \<Rightarrow> exec_state \<Rightarrow> exec_state \<times> lifecycle_error option" where
  "xpropagate cfg p x =
     (case propagateFailure (xs_state x) p (oc_plans (ec_config cfg)) of
        (s, Inl e) \<Rightarrow> (x\<lparr>xs_state := s\<rparr>, Some e)
      | (s, Inr es) \<Rightarrow> (xpush_all es (x\<lparr>xs_state := s\<rparr>), None))"

text \<open>Running the second statement only when the first did not throw.\<close>

definition andthen ::
    "(exec_state \<Rightarrow> exec_state \<times> lifecycle_error option) \<Rightarrow>
     (exec_state \<Rightarrow> exec_state \<times> lifecycle_error option) \<Rightarrow>
     exec_state \<Rightarrow> exec_state \<times> lifecycle_error option" where
  "andthen f g x = (case f x of (x', Some e) \<Rightarrow> (x', Some e) | (x', None) \<Rightarrow> g x')"

definition stop :: "exec_state \<Rightarrow> exec_state \<times> lifecycle_error option" where
  "stop x = (x, None)"

text \<open>The body of the \<open>catch\<close> block.\<close>

definition catch_body ::
    "exec_cfg \<Rightarrow> plan_id \<Rightarrow> string \<Rightarrow> exec_state \<Rightarrow> exec_state \<times> lifecycle_error option" where
  "catch_body cfg p failure =
     andthen (\<lambda>x. if plan_status_of (xs_state x) p = Some PPending then xtransition p PRunning None x else stop x)
       (andthen (\<lambda>x. if plan_status_of (xs_state x) p \<noteq> Some PFailed
                    then xtransition p PFailed (Some failure) x else stop x)
          (xpropagate cfg p))"

definition catchFailure :: "exec_cfg \<Rightarrow> plan_id \<Rightarrow> string \<Rightarrow> string option \<Rightarrow> exec_state \<Rightarrow> exec_state" where
  "catchFailure cfg p err buildFailedError x =
     (let (x1, failure) =
            (case buildFailedError of
               None \<Rightarrow> (xpush (PlanBuildFailed p err None) x, err)
             | Some e \<Rightarrow> (x, e))
      in case catch_body cfg p failure x1 of
           (x2, None) \<Rightarrow> finallyRelease p x2
         | (x2, Some _) \<Rightarrow> finallyRelease p (x2\<lparr>xs_rejected := xs_rejected x2 @ [p]\<rparr>))"

text \<open>After \<open>acquireForPlan\<close>.\<close>

definition set_worktree :: "plan_id \<Rightarrow> string \<Rightarrow> eforge_state \<Rightarrow> eforge_state" where
  "set_worktree p path s =
     (case dget (es_plans s) p of
        None \<Rightarrow> s
      | Some plan \<Rightarrow> s\<lparr>es_plans := dput p (plan\<lparr>ps_worktreePath := Some path\<rparr>) (es_plans s)\<rparr>)"

definition onAcquired :: "exec_cfg \<Rightarrow> plan_id \<Rightarrow> (string, string) result \<Rightarrow> exec_state \<Rightarrow> exec_state" where
  "onAcquired cfg p r x =
     (case r of
        Inl err \<Rightarrow> catchFailure cfg p err None x
      | Inr path \<Rightarrow>
          (case xtransition p PRunning None (x\<lparr>xs_state := set_worktree p path (xs_state x)\<rparr>) of
             (x', Some e) \<Rightarrow> catchFailure cfg p (lifecycle_message e) None x'
           | (x', None) \<Rightarrow> x'\<lparr>xs_stages := dput p (StBuilding None) (xs_stages x')\<rparr>))"

text \<open>One event of the plan runner.\<close>

definition onRunnerEvent :: "plan_id \<Rightarrow> string option \<Rightarrow> event \<Rightarrow> exec_state \<Rightarrow> exec_state" where
  "onRunnerEvent p buildFailedError e x =
     (let failure = (case e of PlanBuildFailed q err _ \<Rightarrow> if q = p then Some err else buildFailedError
                     | _ \<Rightarrow> buildFailedError)
      in xpush e (x\<lparr>xs_stages := dput p (StBuilding failure) (xs_stages x)\<rparr>))"

text \<open>The runner's generator returned.\<close>

definition onRunnerEnd :: "exec_cfg \<Rightarrow> plan_id \<Rightarrow> string option \<Rightarrow> exec_state \<Rightarrow> exec_state" where
  "onRunnerEnd cfg p buildFailedError x =
     (case (case buildFailedError of
              Some err \<Rightarrow> andthen (xtransition p PFailed (Some err)) (xpropagate cfg p) x
            | None \<Rightarrow> xtransition p PCompleted None x) of
        (x', None) \<Rightarrow> finallyRelease p x'
      | (x', Some e) \<Rightarrow> catchFailure cfg p (lifecycle_message e) buildFailedError x')"

section \<open>The consuming loop\<close>

text \<open>The \<open>finally\<close> block and the promotion of a plan's failure to the run.\<close>

definition any_terminal_failure :: "eforge_state \<Rightarrow> bool" where
  "any_terminal_failure s \<longleftrightarrow> list_ex (\<lambda>plan. ps_status plan = PFailed \<or> ps_status plan = PBlocked) (dvals (es_plans s))"

definition promote :: "eforge_state \<Rightarrow> eforge_state" where
  "promote s =
     (if any_terminal_failure s \<and> es_status s \<noteq> RunFailed
      then s\<lparr>es_status := RunFailed, es_ended := True\<rparr> else s)"

definition endLoop :: "exec_state \<Rightarrow> exec_state" where
  "endLoop x = (removeSentinel x)\<lparr>xs_loop := LEnded, xs_state := promote (xs_state x)\<rparr>"

definition throwLoop :: "lifecycle_error \<Rightarrow> exec_state \<Rightarrow> exec_state" where
  "throwLoop e x = (removeSentinel x)\<lparr>xs_loop := LThrown e\<rparr>"

text \<open>A failed merge: the plan fails, the events are yielded and the dependents are blocked.\<close>

definition failMerge ::
    "exec_cfg \<Rightarrow> plan_id \<Rightarrow> string \<Rightarrow> exec_state \<Rightarrow> exec_state \<times> lifecycle_error option" where
  "failMerge cfg p err x =
     (let x0 = x\<lparr>xs_failedMerges := sadd p (xs_failedMerges x)\<rparr>
      in case transitionPlan (xs_state x0) p PFailed (Some err) of
           Inl e \<Rightarrow> (x0, Some e)
         | Inr (s, es) \<Rightarrow>
             (let x1 = yield (es @ [PlanBuildFailed p err None]) (x0\<lparr>xs_state := s\<rparr>)
              in case propagateFailure s p (oc_plans (ec_config cfg)) of
                   (s', Inl e) \<Rightarrow> (x1\<lparr>xs_state := s'\<rparr>, Some e)
                 | (s', Inr fs) \<Rightarrow> (yield fs (x1\<lparr>xs_state := s'\<rparr>), None)))"

text \<open>After the last merge of a turn: launch what became ready, or let the queue end.\<close>

definition afterMerges :: "exec_cfg \<Rightarrow> exec_state \<Rightarrow> exec_state" where
  "afterMerges cfg x =
     (let x1 = (if xs_aborted x then x else startReadyPlans ''dependencies merged'' (all_ids cfg) x);
          x2 = (if xs_running x1 = [] then removeSentinel x1 else x1)
      in x2\<lparr>xs_loop := LNext\<rparr>)"

text \<open>The merge loop from its next plan on, up to the next external call.\<close>

fun mergeNext :: "exec_cfg \<Rightarrow> plan_id list \<Rightarrow> exec_state \<Rightarrow> exec_state" where
  "mergeNext cfg [] x = afterMerges cfg x"
| "mergeNext cfg (p # ps) x =
     (if xs_aborted x then afterMerges cfg x
      else if plan_status_of (xs_state x) p \<noteq> Some PCompleted then mergeNext cfg ps x
      else
        (case shouldSkipMerge p (oc_plans (ec_config cfg)) (xs_failedMerges x) of
           Some reason \<Rightarrow>
             (case failMerge cfg p reason x of
                (x', Some e) \<Rightarrow> throwLoop e x'
              | (x', None) \<Rightarrow> mergeNext cfg ps x')
         | None \<Rightarrow>
             (yield [PlanMergeStart p] x)\<lparr>xs_loop := (if ec_planGates cfg then LGate p ps else LMerge p ps)\<rparr>))"

text \<open>The \<open>catch\<close> block around a merge.\<close>

definition mergeError :: "exec_cfg \<Rightarrow> plan_id \<Rightarrow> plan_id list \<Rightarrow> string \<Rightarrow> exec_state \<Rightarrow> exec_state" where
  "mergeError cfg p ps msg x =
     (case failMerge cfg p (''Merge failed: '' @ msg) x of
        (x', Some e) \<Rightarrow> throwLoop e x'
      | (x', None) \<Rightarrow> mergeNext cfg ps x')"

text \<open>The policy gate's answer: its events, and the reason it blocks for, if it does.\<close>

definition onGate ::
    "exec_cfg \<Rightarrow> plan_id \<Rightarrow> plan_id list \<Rightarrow> event list \<Rightarrow> string option \<Rightarrow> exec_state \<Rightarrow> exec_state" where
  "onGate cfg p ps es blockedFor x =
     (let x1 = yield es x
      in case blockedFor of
           None \<Rightarrow> x1\<lparr>xs_loop := LMerge p ps\<rparr>
         | Some reason \<Rightarrow>
             (case failMerge cfg p (''Policy gate blocked plan merge: '' @ reason) x1 of
                (x2, Some e) \<Rightarrow> mergeError cfg p ps (lifecycle_message e) x2
              | (x2, None) \<Rightarrow> mergeNext cfg ps x2))"

definition waiver_message :: "exec_cfg \<Rightarrow> plan_id \<Rightarrow> string" where
  "waiver_message cfg p =
     (let noOp = (case List.find (\<lambda>e. pe_id e = p) (oc_plans (ec_config cfg)) of
                    None \<Rightarrow> False | Some e \<Rightarrow> pe_allowNoOpMerge e);
          reason = (if noOp then Some ''compiler residue plan: represented work may already be satisfied by completed dependencies''
                    else ec_noCommittedChangesReason cfg)
      in ''No committed changes waiver ('' @ (if noOp then ''allowNoOpMerge'' else ''allowNoCommittedChanges'') @
         ''): '' @ (case reason of None \<Rightarrow> ''(no reason provided)'' | Some r \<Rightarrow> r))"

definition set_merged :: "plan_id \<Rightarrow> eforge_state \<Rightarrow> eforge_state" where
  "set_merged p s =
     (case dget (es_plans s) p of
        None \<Rightarrow> s
      | Some plan \<Rightarrow> s\<lparr>es_plans := dput p (plan\<lparr>ps_merged := True\<rparr>) (es_plans s)\<rparr>)"

text \<open>\<open>mergePlan\<close> returned a commit.\<close>

definition onMerged ::
    "exec_cfg \<Rightarrow> plan_id \<Rightarrow> plan_id list \<Rightarrow> string \<Rightarrow> bool \<Rightarrow> exec_state \<Rightarrow> exec_state" where
  "onMerged cfg p ps commitSha waived x =
     (case transitionPlan (xs_state x) p PMerged None of
        Inl e \<Rightarrow> mergeError cfg p ps (lifecycle_message e) x
      | Inr (s, es) \<Rightarrow>
          mergeNext cfg ps
            (yield (es @ [PlanMergeComplete p commitSha] @
                    (if waived then [PlanningProgress (waiver_message cfg p)] else []))
               (x\<lparr>xs_state := set_merged p s, xs_recentlyMerged := xs_recentlyMerged x @ [p]\<rparr>)))"

definition stale_completed :: "eforge_state \<Rightarrow> event \<Rightarrow> bool" where
  "stale_completed s e \<longleftrightarrow>
     (case e of PlanStatusChange p st \<Rightarrow> st = PCompleted \<and> plan_status_of s p = Some PFailed | _ \<Rightarrow> False)"

definition just_completed :: "exec_state \<Rightarrow> plan_id list" where
  "just_completed x =
     filter (\<lambda>p. plan_status_of (xs_state x) p \<in> {Some PCompleted, Some PFailed}) (xs_running x)"

text \<open>The loop body for a value \<open>next()\<close> resolved to.\<close>

definition onNext :: "exec_cfg \<Rightarrow> event received \<Rightarrow> exec_state \<Rightarrow> exec_state" where
  "onNext cfg v x =
     (case v of
        Finished \<Rightarrow> endLoop x
      | Value e \<Rightarrow>
          if xs_aborted x then endLoop x
          else
            (let x1 = (if stale_completed (xs_state x) e then x else yield [e] x);
                 js = just_completed x1
             in if js = [] then x1
                else mergeNext cfg js
                       (x1\<lparr>xs_running := filter (\<lambda>p. p \<notin> set js) (xs_running x1)\<rparr>)))"

section \<open>The machine\<close>

datatype exec_event =
    Acquired plan_id "(string, string) result"
  | RunnerEvent plan_id event
  | RunnerEnd plan_id
  | RunnerThrow plan_id string
  | Released plan_id
  | CallNext
  | HandleNext
  | GateAnswer "event list" "string option"
  | MergeAnswer string bool
  | MergeThrow string
  | AbortSignal

definition exec_step :: "exec_cfg \<Rightarrow> exec_state \<Rightarrow> exec_event \<Rightarrow> exec_state option" where
  "exec_step cfg x ev =
     (case ev of
        Acquired p r \<Rightarrow>
          (if dget (xs_stages x) p = Some StAcquiring then Some (onAcquired cfg p r x) else None)
      | RunnerEvent p e \<Rightarrow>
          (case dget (xs_stages x) p of Some (StBuilding b) \<Rightarrow> Some (onRunnerEvent p b e x) | _ \<Rightarrow> None)
      | RunnerEnd p \<Rightarrow>
          (case dget (xs_stages x) p of Some (StBuilding b) \<Rightarrow> Some (onRunnerEnd cfg p b x) | _ \<Rightarrow> None)
      | RunnerThrow p err \<Rightarrow>
          (case dget (xs_stages x) p of Some (StBuilding b) \<Rightarrow> Some (catchFailure cfg p err b x) | _ \<Rightarrow> None)
      | Released p \<Rightarrow>
          (if dget (xs_stages x) p = Some StReleasing
           then Some (xremoveProducer (x\<lparr>xs_stages := dput p StEnded (xs_stages x)\<rparr>)) else None)
      | CallNext \<Rightarrow>
          (if xs_loop x = LNext \<and> xs_inbox x = None \<and> \<not> aq_waiting (xs_queue x)
           then (case aq_next (xs_queue x) of (q, r) \<Rightarrow> Some (x\<lparr>xs_queue := q, xs_inbox := r\<rparr>))
           else None)
      | HandleNext \<Rightarrow>
          (case xs_inbox x of
             Some v \<Rightarrow> if xs_loop x = LNext then Some (onNext cfg v (x\<lparr>xs_inbox := None\<rparr>)) else None
           | None \<Rightarrow> None)
      | GateAnswer es blockedFor \<Rightarrow>
          (case xs_loop x of LGate p ps \<Rightarrow> Some (onGate cfg p ps es blockedFor x) | _ \<Rightarrow> None)
      | MergeAnswer sha waived \<Rightarrow>
          (case xs_loop x of LMerge p ps \<Rightarrow> Some (onMerged cfg p ps sha waived x) | _ \<Rightarrow> None)
      | MergeThrow msg \<Rightarrow>
          (case xs_loop x of
             LGate p ps \<Rightarrow> Some (mergeError cfg p ps msg x)
           | LMerge p ps \<Rightarrow> Some (mergeError cfg p ps msg x)
           | _ \<Rightarrow> None)
      | AbortSignal \<Rightarrow> Some (x\<lparr>xs_aborted := True\<rparr>))"

text \<open>The statements before the loop; the semaphore's constructor is the only one that can throw.\<close>

definition exec_start :: "exec_cfg \<Rightarrow> eforge_state \<Rightarrow> plan_id semaphore \<Rightarrow> exec_state" where
  "exec_start cfg s sem =
     (let x0 = \<lparr>xs_state = s, xs_running = [], xs_sem = sem, xs_queue = aq_new, xs_inbox = None,
                xs_stages = [], xs_rejected = [], xs_failedMerges = [], xs_recentlyMerged = [],
                xs_sentinel = False, xs_loop = LNext,
                xs_yielded = [ScheduleStart (all_ids cfg)], xs_aborted = False\<rparr>;
          x1 = startReadyPlans ''no dependencies'' (all_ids cfg) x0;
          x2 = x1\<lparr>xs_queue := aq_addProducer (xs_queue x1), xs_sentinel := True\<rparr>
      in if xs_running x2 = [] then removeSentinel x2 else x2)"

section \<open>Framing\<close>

text \<open>What the operations of one launch leave alone, apart from the plan states and the queue.\<close>

definition xframe :: "exec_state \<Rightarrow> plan_id list \<times> plan_id semaphore \<times> (plan_id \<times> stage) list \<times> bool \<times> loop_state \<times> bool" where
  "xframe x = (xs_running x, xs_sem x, xs_stages x, xs_sentinel x, xs_loop x, xs_aborted x)"

lemma xframe_eqD:
  assumes "xframe x' = xframe x"
  shows "xs_running x' = xs_running x" "xs_sem x' = xs_sem x" "xs_stages x' = xs_stages x"
    "xs_sentinel x' = xs_sentinel x" "xs_loop x' = xs_loop x" "xs_aborted x' = xs_aborted x"
  using assms by (auto simp: xframe_def)

lemma xpush_frame [simp]: "xframe (xpush e x) = xframe x" "xs_state (xpush e x) = xs_state x"
  by (auto simp: xpush_def xframe_def split: prod.splits option.splits)

lemma xpush_all_frame [simp]:
  "xframe (xpush_all es x) = xframe x" "xs_state (xpush_all es x) = xs_state x"
  by (induction es arbitrary: x) (simp_all add: xpush_all_def)

section \<open>Plan states\<close>

abbreviation deps_of :: "eforge_state \<Rightarrow> plan_id \<Rightarrow> plan_id list option" where
  "deps_of s p \<equiv> map_option ps_dependsOn (dget (es_plans s) p)"

text \<open>
  \<open>L\<close> is the set of launched plans. A plan that was launched, or that is neither pending nor
  blocked, has all its dependencies merged; a launched plan is never blocked.
\<close>

definition plans_inv :: "plan_entry list \<Rightarrow> plan_id set \<Rightarrow> eforge_state \<Rightarrow> bool" where
  "plans_inv plans L s \<longleftrightarrow>
     (\<forall>e \<in> set plans. deps_of s (pe_id e) = Some (pe_dependsOn e)) \<and>
     (\<forall>p ds. deps_of s p = Some ds \<and> (p \<in> L \<or> plan_status_of s p \<notin> {Some PPending, Some PBlocked}) \<longrightarrow>
        (\<forall>d \<in> set ds. plan_status_of s d = Some PMerged)) \<and>
     (\<forall>p \<in> L. plan_status_of s p \<notin> {None, Some PBlocked})"

text \<open>What a step of plan \<open>p\<close> does to the others: at most it blocks plans not launched yet.\<close>

definition advances :: "plan_id set \<Rightarrow> plan_id \<Rightarrow> eforge_state \<Rightarrow> eforge_state \<Rightarrow> bool" where
  "advances L p s s' \<longleftrightarrow>
     (\<forall>q. deps_of s' q = deps_of s q) \<and>
     (\<forall>q. q \<noteq> p \<longrightarrow> plan_status_of s' q = plan_status_of s q \<or>
        (plan_status_of s q = Some PPending \<and> q \<notin> L \<and> plan_status_of s' q = Some PBlocked)) \<and>
     es_status s' = es_status s"

lemma advances_refl [simp]: "advances L p s s"
  by (simp add: advances_def)

lemma advances_trans:
  assumes "advances L p s s1" and "advances L p s1 s2"
  shows "advances L p s s2"
proof -
  have "plan_status_of s2 q = plan_status_of s q \<or>
      (plan_status_of s q = Some PPending \<and> q \<notin> L \<and> plan_status_of s2 q = Some PBlocked)" if "q \<noteq> p" for q
  proof -
    from assms(1) that have 1: "plan_status_of s1 q = plan_status_of s q \<or>
      (plan_status_of s q = Some PPending \<and> q \<notin> L \<and> plan_status_of s1 q = Some PBlocked)"
      unfolding advances_def by blast
    from assms(2) that have "plan_status_of s2 q = plan_status_of s1 q \<or>
      (plan_status_of s1 q = Some PPending \<and> q \<notin> L \<and> plan_status_of s2 q = Some PBlocked)"
      unfolding advances_def by blast
    with 1 show ?thesis by (elim disjE conjE) simp_all
  qed
  moreover have "deps_of s2 q = deps_of s q" for q
    using assms unfolding advances_def by simp
  moreover have "es_status s2 = es_status s"
    using assms unfolding advances_def by simp
  ultimately show ?thesis unfolding advances_def by blast
qed

lemma advancesD:
  assumes "advances L p s s'"
  shows "deps_of s' q = deps_of s q" "es_status s' = es_status s"
    "q \<noteq> p \<Longrightarrow> q \<in> L \<Longrightarrow> plan_status_of s' q = plan_status_of s q"
    "q \<noteq> p \<Longrightarrow> plan_status_of s' q = plan_status_of s q \<or>
        (plan_status_of s q = Some PPending \<and> q \<notin> L \<and> plan_status_of s' q = Some PBlocked)"
  using assms unfolding advances_def by blast+

lemma plans_invD:
  assumes "plans_inv plans L s"
  shows "e \<in> set plans \<Longrightarrow> deps_of s (pe_id e) = Some (pe_dependsOn e)"
    "deps_of s p = Some ds \<Longrightarrow> p \<in> L \<or> plan_status_of s p \<notin> {Some PPending, Some PBlocked} \<Longrightarrow>
       d \<in> set ds \<Longrightarrow> plan_status_of s d = Some PMerged"
    "p \<in> L \<Longrightarrow> plan_status_of s p \<noteq> None" "p \<in> L \<Longrightarrow> plan_status_of s p \<noteq> Some PBlocked"
proof -
  note inv = assms [unfolded plans_inv_def]
  show "e \<in> set plans \<Longrightarrow> deps_of s (pe_id e) = Some (pe_dependsOn e)"
    by (rule inv [THEN conjunct1, rule_format])
  show "deps_of s p = Some ds \<Longrightarrow> p \<in> L \<or> plan_status_of s p \<notin> {Some PPending, Some PBlocked} \<Longrightarrow>
       d \<in> set ds \<Longrightarrow> plan_status_of s d = Some PMerged"
    by (rule inv [THEN conjunct2, THEN conjunct1, rule_format, OF conjI])
  show "p \<in> L \<Longrightarrow> plan_status_of s p \<noteq> None" "p \<in> L \<Longrightarrow> plan_status_of s p \<noteq> Some PBlocked"
    using inv [THEN conjunct2, THEN conjunct2] by auto
qed

lemma plans_inv_advances:
  assumes inv: "plans_inv plans L s" and adv: "advances L p s s'" and p: "p \<in> L"
    and "plan_status_of s p \<noteq> Some PMerged" and "plan_status_of s' p \<notin> {None, Some PBlocked}"
  shows "plans_inv plans L s'"
proof -
  have merged: "plan_status_of s' d = Some PMerged" if "plan_status_of s d = Some PMerged" for d
  proof -
    from that assms(4) have "d \<noteq> p" by auto
    with advancesD(4) [OF adv this] that show ?thesis by auto
  qed
  have started: "q \<in> L \<or> plan_status_of s q \<notin> {Some PPending, Some PBlocked}"
    if "q \<in> L \<or> plan_status_of s' q \<notin> {Some PPending, Some PBlocked}" for q
  proof (cases "q = p")
    case False
    from advancesD(4) [OF adv False] that show ?thesis by auto
  qed (use p in simp)
  have "plan_status_of s' d = Some PMerged"
    if "deps_of s' q = Some ds" "q \<in> L \<or> plan_status_of s' q \<notin> {Some PPending, Some PBlocked}"
      "d \<in> set ds" for q ds d
    using plans_invD(2) [OF inv, of q ds d] started [OF that(2)] that advancesD(1) [OF adv, of q] merged
    by simp
  moreover have "plan_status_of s' q \<notin> {None, Some PBlocked}" if "q \<in> L" for q
    using advancesD(3) [OF adv _ that] plans_invD(3,4) [OF inv that] assms(5) by (cases "q = p") auto
  moreover have "deps_of s' (pe_id e) = Some (pe_dependsOn e)" if "e \<in> set plans" for e
    using plans_invD(1) [OF inv that] advancesD(1) [OF adv, of "pe_id e"] by simp
  ultimately show ?thesis unfolding plans_inv_def by blast
qed

lemma transitionPlan_advances:
  assumes "transitionPlan s p to err = Inr (s', es)"
  shows "advances L p s s'" and "plan_status_of s' p = Some to" and "es \<noteq> []"
proof -
  from assms show "advances L p s s'"
  proof (rule transitionPlan_InrE)
    fix plan
    assume "dget (es_plans s) p = Some plan"
      "\<And>q. dget (es_plans s') q = (if q = p then Some (moved plan to err) else dget (es_plans s) q)"
      "es_status s' = es_status s"
    then show ?thesis unfolding advances_def by simp
  qed
  from assms show "plan_status_of s' p = Some to" by (rule transitionPlan_InrE) simp
  from assms show "es \<noteq> []"
    by (auto simp: transitionPlan_def Let_def split: option.splits if_splits)
qed

lemma transitionPlan_possible:
  assumes "plan_status_of s p = Some st" and "to \<in> set (VALID_TRANSITIONS st)"
  obtains s' es where "transitionPlan s p to err = Inr (s', es)"
  using assms transitionPlan_succeeds_iff [of s p to err] by auto

text \<open>The plans below a plan that is not merged have not started.\<close>

lemma dependents_star_waiting:
  assumes inv: "plans_inv plans L s" and f: "plan_status_of s f \<noteq> Some PMerged"
    and q: "q \<in> dependents_star plans f"
  shows "q \<notin> L \<and> plan_status_of s q \<in> {Some PPending, Some PBlocked}"
proof -
  have edge: "q \<notin> L \<and> plan_status_of s q \<in> {Some PPending, Some PBlocked}"
    if "(q, x) \<in> edges (plan_nodes plans)" "plan_status_of s x \<noteq> Some PMerged" for q x
  proof -
    from that(1) obtain e where e: "e \<in> set plans" "q = pe_id e" "x \<in> set (pe_dependsOn e)"
      by (auto simp: edges_iff plan_nodes_def)
    with plans_invD(1) [OF inv e(1)] have "deps_of s q = Some (pe_dependsOn e)" by simp
    from plans_invD(2) [OF inv this _ e(3)] that(2) show ?thesis by blast
  qed
  from q have "(q, f) \<in> (edges (plan_nodes plans))\<^sup>+" by (simp add: dependents_star_def)
  then show ?thesis
  proof (induction rule: converse_trancl_induct)
    case (base y)
    with edge f show ?case by blast
  next
    case (step y z)
    then have "plan_status_of s z \<noteq> Some PMerged" by auto
    with edge step(1) show ?case by blast
  qed
qed

lemma propagateFailure_advances:
  assumes inv: "plans_inv plans L s" and f: "plan_status_of s f \<noteq> Some PMerged" and "f \<in> L"
    and p: "propagateFailure s f plans = (s', r)"
  shows "advances L f s s'" and "plan_status_of s' f = plan_status_of s f"
proof -
  from propagateFailure_spec [OF p] obtain B where B: "B \<subseteq> dependents_star plans f"
    and ex: "blocks_exactly s f B s'" by (cases r) auto
  have s': "dget (es_plans s') q =
        map_option (\<lambda>plan. if q \<in> B \<and> ps_status plan \<noteq> PCompleted \<and> ps_status plan \<noteq> PMerged
                          then moved plan PBlocked (Some (blocked_error f)) else plan)
          (dget (es_plans s) q)" for q
    using ex unfolding blocks_exactly_def by blast
  have same: "plan_status_of s' q = plan_status_of s q" if "q \<notin> B" for q
    using that by (simp add: s' option.map_comp comp_def)
  have fB: "f \<notin> B" using dependents_star_waiting [OF inv f] B \<open>f \<in> L\<close> by blast
  have "plan_status_of s' q = plan_status_of s q \<or>
        (plan_status_of s q = Some PPending \<and> q \<notin> L \<and> plan_status_of s' q = Some PBlocked)" for q
  proof (cases "q \<in> B")
    case True
    with dependents_star_waiting [OF inv f, of q] B
    have "q \<notin> L" "plan_status_of s q \<in> {Some PPending, Some PBlocked}" by auto
    with True show ?thesis by (cases "dget (es_plans s) q") (auto simp: s')
  qed (simp add: same)
  moreover have "deps_of s' q = deps_of s q" for q
    by (cases "dget (es_plans s) q") (simp_all add: s')
  ultimately show "advances L f s s'"
    using ex unfolding advances_def blocks_exactly_def by blast
  show "plan_status_of s' f = plan_status_of s f" by (rule same [OF fB])
qed

section \<open>Event queue and semaphore\<close>

text \<open>\<open>n\<close> producers are registered; the queue is done exactly when there are none.\<close>

definition queue_ok :: "int \<Rightarrow> exec_state \<Rightarrow> bool" where
  "queue_ok n x \<longleftrightarrow>
     aq_producers (xs_queue x) = n \<and> (aq_done (xs_queue x) \<longleftrightarrow> n \<le> 0) \<and>
     (aq_waiting (xs_queue x) \<longrightarrow> aq_queue (xs_queue x) = [] \<and> xs_inbox x = None \<and> n > 0) \<and>
     (xs_inbox x = Some Finished \<longrightarrow> n \<le> 0)"

text \<open>An event is buffered or already delivered, so the loop will turn again.\<close>

definition pending_event :: "exec_state \<Rightarrow> bool" where
  "pending_event x \<longleftrightarrow> aq_queue (xs_queue x) \<noteq> [] \<or> (\<exists>e. xs_inbox x = Some (Value e))"

text \<open>The loop is away from \<open>next()\<close>: nothing delivered, nobody parked.\<close>

definition idle :: "exec_state \<Rightarrow> bool" where
  "idle x \<longleftrightarrow> xs_inbox x = None \<and> \<not> aq_waiting (xs_queue x)"

lemma xpush_queue:
  assumes "queue_ok n x"
  shows "queue_ok n (xpush e x)" and "n > 0 \<or> pending_event x \<Longrightarrow> pending_event (xpush e x)"
  using assms by (auto simp: queue_ok_def xpush_def aq_push_def pending_event_def)

lemma xpush_idle: "idle x \<Longrightarrow> idle (xpush e x)"
  by (auto simp: idle_def xpush_def aq_push_def)

lemma xpush_all_idle: "idle x \<Longrightarrow> idle (xpush_all es x)"
  by (induction es arbitrary: x) (simp_all add: xpush_all_def xpush_idle)

lemma xpush_all_queue:
  assumes "queue_ok n x"
  shows "queue_ok n (xpush_all es x)"
    and "(n > 0 \<and> es \<noteq> []) \<or> pending_event x \<Longrightarrow> pending_event (xpush_all es x)"
proof -
  have "queue_ok n (xpush_all es x) \<and>
      ((n > 0 \<and> es \<noteq> []) \<or> pending_event x \<longrightarrow> pending_event (xpush_all es x))"
    using assms
  proof (induction es arbitrary: x)
    case Nil
    then show ?case by (simp add: xpush_all_def)
  next
    case (Cons e es)
    have step: "xpush_all (e # es) x = xpush_all es (xpush e x)" by (simp add: xpush_all_def)
    from Cons.IH [OF xpush_queue(1) [OF Cons.prems]] xpush_queue(2) [OF Cons.prems, of e]
    show ?case unfolding step by auto
  qed
  then show "queue_ok n (xpush_all es x)"
    "(n > 0 \<and> es \<noteq> []) \<or> pending_event x \<Longrightarrow> pending_event (xpush_all es x)" by blast+
qed

lemma queue_ok_cong:
  "xs_queue x' = xs_queue x \<Longrightarrow> xs_inbox x' = xs_inbox x \<Longrightarrow> queue_ok n x' = queue_ok n x"
  "xs_queue x' = xs_queue x \<Longrightarrow> xs_inbox x' = xs_inbox x \<Longrightarrow> pending_event x' = pending_event x"
  by (simp_all add: queue_ok_def pending_event_def)

lemma xremoveProducer_frame [simp]:
  "xs_running (xremoveProducer x) = xs_running x" "xs_sem (xremoveProducer x) = xs_sem x"
  "xs_stages (xremoveProducer x) = xs_stages x" "xs_sentinel (xremoveProducer x) = xs_sentinel x"
  "xs_loop (xremoveProducer x) = xs_loop x" "xs_aborted (xremoveProducer x) = xs_aborted x"
  "xs_state (xremoveProducer x) = xs_state x"
  by (auto simp: xremoveProducer_def split: prod.splits option.splits)

lemma xremoveProducer_queue:
  assumes "queue_ok n x"
  shows "queue_ok (n - 1) (xremoveProducer x)" and "pending_event x \<Longrightarrow> pending_event (xremoveProducer x)"
  using assms by (auto simp: queue_ok_def xremoveProducer_def aq_removeProducer_def Let_def pending_event_def)

lemma removeSentinel_frame [simp]:
  "xs_running (removeSentinel x) = xs_running x" "xs_sem (removeSentinel x) = xs_sem x"
  "xs_stages (removeSentinel x) = xs_stages x" "xs_sentinel (removeSentinel x) = False"
  "xs_loop (removeSentinel x) = xs_loop x" "xs_aborted (removeSentinel x) = xs_aborted x"
  "xs_state (removeSentinel x) = xs_state x"
  by (auto simp: removeSentinel_def)

lemma removeSentinel_queue:
  assumes "queue_ok ((if xs_sentinel x then 1 else 0) + n) x"
  shows "queue_ok n (removeSentinel x)" and "pending_event x \<Longrightarrow> pending_event (removeSentinel x)"
proof -
  let ?x = "x\<lparr>xs_sentinel := False\<rparr>"
  have "queue_ok (1 + n) ?x" if "xs_sentinel x"
    using assms that by (simp add: queue_ok_def)
  from xremoveProducer_queue [OF this] assms
  show "queue_ok n (removeSentinel x)" "pending_event x \<Longrightarrow> pending_event (removeSentinel x)"
    by (auto simp: removeSentinel_def pending_event_def)
qed

definition holds_permit :: "stage \<Rightarrow> bool" where
  "holds_permit st \<longleftrightarrow> (case st of StAcquiring \<Rightarrow> True | StBuilding _ \<Rightarrow> True | _ \<Rightarrow> False)"

definition not_ended :: "stage \<Rightarrow> bool" where
  "not_ended st \<longleftrightarrow> st \<noteq> StEnded"

text \<open>The semaphore of \<open>n\<close> permits agrees with where the launches are.\<close>

definition permits_ok :: "int \<Rightarrow> plan_id semaphore \<Rightarrow> (plan_id \<times> stage) list \<Rightarrow> bool" where
  "permits_ok n sem m \<longleftrightarrow>
     sem_permits sem \<ge> 0 \<and> sem_permits sem + int (card (dsel holds_permit m)) = n \<and>
     (sem_waitQueue sem \<noteq> [] \<longrightarrow> sem_permits sem = 0) \<and>
     distinct (sem_waitQueue sem) \<and> set (sem_waitQueue sem) = dsel (\<lambda>st. st = StWaiting) m"

lemma permits_ok_launch:
  assumes "permits_ok n sem m" and "dget m p = None"
    and "sem_acquire p sem = (sem', acquired)"
  shows "permits_ok n sem' (dput p (if acquired then StAcquiring else StWaiting) m)"
proof -
  have "p \<notin> dsel Q m" for Q using assms(2) by (simp add: dsel_def)
  then show ?thesis using assms
    by (auto simp: permits_ok_def sem_acquire_def dsel_dput holds_permit_def split: if_splits)
qed

lemma permits_ok_same:
  assumes "permits_ok n sem m" and "dget m p = Some st" and "holds_permit st = holds_permit st'"
    and "st \<noteq> StWaiting" and "st' \<noteq> StWaiting"
  shows "permits_ok n sem (dput p st' m)"
proof -
  have "dsel holds_permit (dput p st' m) = dsel holds_permit m"
    using assms(2,3) by (auto simp: dsel_dput dsel_def)
  moreover have "dsel (\<lambda>st. st = StWaiting) (dput p st' m) = dsel (\<lambda>st. st = StWaiting) m"
    using assms(2,4,5) by (auto simp: dsel_dput dsel_def)
  ultimately show ?thesis using assms(1) by (simp add: permits_ok_def)
qed

lemma finallyRelease_stages:
  assumes ok: "permits_ok n (xs_sem x) (xs_stages x)" and p: "dget (xs_stages x) p = Some st"
    and h: "holds_permit st"
  shows "permits_ok n (xs_sem (finallyRelease p x)) (xs_stages (finallyRelease p x))"
    and "dget (xs_stages (finallyRelease p x)) q =
      (if q = p then Some StReleasing
       else if dget (xs_stages x) q = Some StWaiting
              \<and> (\<exists>ws. sem_waitQueue (xs_sem x) = q # ws) then Some StAcquiring
       else dget (xs_stages x) q)"
proof -
  let ?m = "xs_stages x" and ?sem = "xs_sem x"
  have pin: "p \<in> dsel holds_permit ?m" using p h by (simp add: in_dsel)
  then have card: "int (card (dsel holds_permit ?m - {p})) = int (card (dsel holds_permit ?m)) - 1"
    by (simp add: card_Diff_singleton)
       (metis One_nat_def Suc_leI card_gt_0_iff empty_iff finite_dsel of_nat_diff of_nat_1)
  have nw: "p \<notin> dsel (\<lambda>st. st = StWaiting) ?m"
    using p h by (auto simp: in_dsel holds_permit_def)
  show "permits_ok n (xs_sem (finallyRelease p x)) (xs_stages (finallyRelease p x))"
  proof (cases "sem_waitQueue ?sem")
    case Nil
    with ok card nw pin show ?thesis
      by (simp add: finallyRelease_def sem_release_def permits_ok_def dsel_dput holds_permit_def)
  next
    case (Cons v ws)
    with ok have v: "v \<in> dsel (\<lambda>st. st = StWaiting) ?m" by (auto simp: permits_ok_def)
    then have vp: "v \<noteq> p" "v \<notin> dsel holds_permit ?m"
      using nw by (auto simp: dsel_def holds_permit_def)
    then have "int (card (insert v (dsel holds_permit ?m - {p}))) = int (card (dsel holds_permit ?m))"
      using card by (simp add: card_insert_if)
    with ok Cons vp nw show ?thesis
      by (simp add: finallyRelease_def sem_release_def permits_ok_def dsel_dput holds_permit_def) auto
  qed
  show "dget (xs_stages (finallyRelease p x)) q =
      (if q = p then Some StReleasing
       else if dget ?m q = Some StWaiting \<and> (\<exists>ws. sem_waitQueue ?sem = q # ws) then Some StAcquiring
       else dget ?m q)"
  proof (cases "sem_waitQueue ?sem")
    case Nil
    then show ?thesis by (simp add: finallyRelease_def sem_release_def)
  next
    case (Cons v ws)
    with ok have v: "dget ?m v = Some StWaiting" by (auto simp: permits_ok_def dsel_def)
    with nw have "v \<noteq> p" by (auto simp: dsel_def)
    with Cons v show ?thesis by (simp add: finallyRelease_def sem_release_def)
  qed
qed

lemma finallyRelease_frame [simp]:
  "xs_running (finallyRelease p x) = xs_running x" "xs_queue (finallyRelease p x) = xs_queue x"
  "xs_inbox (finallyRelease p x) = xs_inbox x" "xs_sentinel (finallyRelease p x) = xs_sentinel x"
  "xs_loop (finallyRelease p x) = xs_loop x" "xs_aborted (finallyRelease p x) = xs_aborted x"
  "xs_state (finallyRelease p x) = xs_state x"
  by (auto simp: finallyRelease_def split: prod.splits option.splits)

section \<open>The steps of one launch\<close>

declare map_option_eq_Some [iff del] map_option_is_None [iff del] None_eq_map_option_iff [iff del] option.map_disc_iff [simp del]

definition moves :: "plan_id set \<Rightarrow> plan_id \<Rightarrow> int \<Rightarrow> exec_state \<Rightarrow> exec_state \<Rightarrow> bool" where
  "moves L p n x x' \<longleftrightarrow>
     advances L p (xs_state x) (xs_state x') \<and> xframe x' = xframe x \<and> queue_ok n x' \<and>
     (pending_event x \<longrightarrow> pending_event x') \<and> (idle x \<longrightarrow> idle x')"

lemma moves_trans: "moves L p n x y \<Longrightarrow> moves L p n y z \<Longrightarrow> moves L p n x z"
  unfolding moves_def using advances_trans by auto

lemma moves_refl: "queue_ok n x \<Longrightarrow> moves L p n x x"
  by (simp add: moves_def)

lemma moves_push:
  assumes "advances L p (xs_state x) s" and q: "queue_ok n x"
  shows "moves L p n x (xpush_all es (x\<lparr>xs_state := s\<rparr>))"
proof (rule moves_trans)
  show m: "moves L p n x (x\<lparr>xs_state := s\<rparr>)"
    using assms by (simp add: moves_def xframe_def queue_ok_def pending_event_def idle_def)
  then have "queue_ok n (x\<lparr>xs_state := s\<rparr>)" by (simp add: moves_def)
  from xpush_all_queue [OF this, of es]
  show "moves L p n (x\<lparr>xs_state := s\<rparr>) (xpush_all es (x\<lparr>xs_state := s\<rparr>))"
    by (simp add: moves_def xpush_all_idle)
qed

lemma xpush_all_Nil [simp]: "xpush_all [] x = x"
  by (simp add: xpush_all_def)

lemma xtransition_moves:
  assumes "plan_status_of (xs_state x) p = Some st" and "to \<in> set (VALID_TRANSITIONS st)"
    and q: "queue_ok n x" and "n > 0"
  obtains x' where "xtransition p to err x = (x', None)" "moves L p n x x'"
    "plan_status_of (xs_state x') p = Some to" "pending_event x'"
proof -
  from transitionPlan_possible [OF assms(1,2)] obtain s es where
    t: "transitionPlan (xs_state x) p to err = Inr (s, es)" by blast
  let ?x = "x\<lparr>xs_state := s\<rparr>"
  have q': "queue_ok n ?x" using q by (simp add: queue_ok_def)
  note adv = transitionPlan_advances [OF t]
  have "moves L p n x (xpush_all es ?x)" by (rule moves_push [OF adv(1) q])
  moreover have "pending_event (xpush_all es ?x)"
    using xpush_all_queue(2) [OF q', of es] adv(3) \<open>n > 0\<close> by blast
  ultimately show thesis
    using that [of "xpush_all es ?x"] t adv(2) by (simp add: xtransition_def)
qed

lemma xpropagate_moves:
  assumes inv: "plans_inv (oc_plans (ec_config cfg)) L (xs_state x)" and "p \<in> L"
    and "plan_status_of (xs_state x) p \<noteq> Some PMerged" and q: "queue_ok n x"
    and "xpropagate cfg p x = (x', r)"
  shows "moves L p n x x'" and "plan_status_of (xs_state x') p = plan_status_of (xs_state x) p"
proof -
  obtain s w where w: "propagateFailure (xs_state x) p (oc_plans (ec_config cfg)) = (s, w)"
    by (cases "propagateFailure (xs_state x) p (oc_plans (ec_config cfg))")
  let ?x = "x\<lparr>xs_state := s\<rparr>"
  note adv = propagateFailure_advances [OF inv assms(3,2) w]
  have "x' = xpush_all [] ?x \<or> (\<exists>es. x' = xpush_all es ?x)"
    using assms(5) w by (auto simp: xpropagate_def split: sum.splits)
  then obtain es where x': "x' = xpush_all es ?x" by blast
  show "moves L p n x x'" "plan_status_of (xs_state x') p = plan_status_of (xs_state x) p"
    using moves_push [OF adv(1) q] adv(2) by (simp_all add: x')
qed

lemma plans_inv_moves:
  assumes "plans_inv plans L (xs_state x)" and "moves L p n x y" and "p \<in> L"
    and "plan_status_of (xs_state x) p \<in> {Some PPending, Some PRunning, Some PFailed}"
    and "plan_status_of (xs_state y) p \<in> {Some PRunning, Some PFailed, Some PCompleted}"
  shows "plans_inv plans L (xs_state y)"
proof (rule plans_inv_advances [OF assms(1) _ assms(3)])
  show "advances L p (xs_state x) (xs_state y)" using assms(2) by (simp add: moves_def)
  show "plan_status_of (xs_state x) p \<noteq> Some PMerged" using assms(4) by auto
  show "plan_status_of (xs_state y) p \<notin> {None, Some PBlocked}" using assms(5) by auto
qed

text \<open>Failing a plan and telling its dependents.\<close>

lemma fail_and_propagate:
  assumes inv: "plans_inv (oc_plans (ec_config cfg)) L (xs_state x)" and p: "p \<in> L"
    and st: "plan_status_of (xs_state x) p \<in> {Some PRunning, Some PFailed}"
    and q: "queue_ok n x" "n > 0"
    and run: "andthen (\<lambda>x. if plan_status_of (xs_state x) p \<noteq> Some PFailed
                    then xtransition p PFailed (Some failure) x else stop x) (xpropagate cfg p) x = (x', r)"
  shows "moves L p n x x' \<and> plan_status_of (xs_state x') p = Some PFailed \<and>
         (plan_status_of (xs_state x) p \<noteq> Some PFailed \<longrightarrow> pending_event x')"
proof (cases "plan_status_of (xs_state x) p = Some PFailed")
  case True
  with run have pr: "xpropagate cfg p x = (x', r)" by (simp add: andthen_def stop_def)
  have "plan_status_of (xs_state x) p \<noteq> Some PMerged" using st by auto
  from xpropagate_moves [OF inv p this q(1) pr] True show ?thesis by simp
next
  case False
  with st have s: "plan_status_of (xs_state x) p = Some PRunning" by auto
  obtain y where y: "xtransition p PFailed (Some failure) x = (y, None)" "moves L p n x y"
    "plan_status_of (xs_state y) p = Some PFailed" "pending_event y"
    by (rule xtransition_moves [OF s _ q, of PFailed "Some failure" L]) auto
  with run False have pr: "xpropagate cfg p y = (x', r)" by (simp add: andthen_def)
  have "plans_inv (oc_plans (ec_config cfg)) L (xs_state y)"
    by (rule plans_inv_moves [OF inv y(2) p]) (use s y(3) in simp_all)
  moreover have "plan_status_of (xs_state y) p \<noteq> Some PMerged" using y(3) by simp
  moreover have "queue_ok n y" using y(2) by (simp add: moves_def)
  ultimately have "moves L p n y x'" "plan_status_of (xs_state x') p = plan_status_of (xs_state y) p"
    using xpropagate_moves [OF _ p _ _ pr] by blast+
  moreover from this y(4) have "pending_event x'" by (simp add: moves_def)
  ultimately show ?thesis using y(3) moves_trans [OF y(2)] by simp
qed

lemma catch_body_moves:
  assumes inv: "plans_inv (oc_plans (ec_config cfg)) L (xs_state x)" and p: "p \<in> L"
    and st: "plan_status_of (xs_state x) p \<in> {Some PPending, Some PRunning, Some PFailed}"
    and q: "queue_ok n x" "n > 0" and run: "catch_body cfg p failure x = (x', r)"
  shows "moves L p n x x' \<and> plan_status_of (xs_state x') p = Some PFailed \<and>
         (plan_status_of (xs_state x) p \<noteq> Some PFailed \<longrightarrow> pending_event x')"
proof (cases "plan_status_of (xs_state x) p = Some PPending")
  case False
  with run have "andthen (\<lambda>x. if plan_status_of (xs_state x) p \<noteq> Some PFailed
      then xtransition p PFailed (Some failure) x else stop x) (xpropagate cfg p) x = (x', r)"
    by (simp add: catch_body_def andthen_def stop_def)
  from fail_and_propagate [OF inv p _ q this] st False show ?thesis by simp
next
  case True
  obtain y where y: "xtransition p PRunning None x = (y, None)" "moves L p n x y"
    "plan_status_of (xs_state y) p = Some PRunning" "pending_event y"
    by (rule xtransition_moves [OF True _ q, of PRunning None L]) auto
  with run True have run': "andthen (\<lambda>x. if plan_status_of (xs_state x) p \<noteq> Some PFailed
      then xtransition p PFailed (Some failure) x else stop x) (xpropagate cfg p) y = (x', r)"
    by (simp add: catch_body_def andthen_def)
  have inv': "plans_inv (oc_plans (ec_config cfg)) L (xs_state y)"
    by (rule plans_inv_moves [OF inv y(2) p]) (use True y(3) in simp_all)
  have "queue_ok n y" using y(2) by (simp add: moves_def)
  from fail_and_propagate [OF inv' p _ this q(2) run'] y(3) have
    "moves L p n y x'" "plan_status_of (xs_state x') p = Some PFailed" "pending_event x'" by auto
  with moves_trans [OF y(2)] show ?thesis by blast
qed

lemma catchFailure_moves:
  assumes inv: "plans_inv (oc_plans (ec_config cfg)) L (xs_state x)" and p: "p \<in> L"
    and st: "plan_status_of (xs_state x) p \<in> {Some PPending, Some PRunning, Some PFailed}"
    and q: "queue_ok n x" "n > 0"
  obtains y where "catchFailure cfg p err b x = finallyRelease p y" "moves L p n x y"
    "plan_status_of (xs_state y) p = Some PFailed"
    "plan_status_of (xs_state x) p \<noteq> Some PFailed \<longrightarrow> pending_event y"
proof -
  define x1 where "x1 = (case b of None \<Rightarrow> xpush (PlanBuildFailed p err None) x | Some _ \<Rightarrow> x)"
  define failure where "failure = (case b of None \<Rightarrow> err | Some e \<Rightarrow> e)"
  have m: "moves L p n x x1" "xs_state x1 = xs_state x"
    using xpush_queue [OF q(1)] q by (auto simp: x1_def moves_def xpush_idle split: option.splits)
  have q1: "queue_ok n x1" using m(1) by (simp add: moves_def)
  obtain x2 r where c: "catch_body cfg p failure x1 = (x2, r)" by (cases "catch_body cfg p failure x1")
  have inv1: "plans_inv (oc_plans (ec_config cfg)) L (xs_state x1)" using inv m(2) by simp
  have st1: "plan_status_of (xs_state x1) p \<in> {Some PPending, Some PRunning, Some PFailed}"
    using st unfolding m(2) .
  note body = catch_body_moves [OF inv1 p st1 q1 q(2) c]
  define y where "y = (case r of None \<Rightarrow> x2 | Some _ \<Rightarrow> x2\<lparr>xs_rejected := xs_rejected x2 @ [p]\<rparr>)"
  have y: "xframe y = xframe x2" "xs_state y = xs_state x2" "queue_ok n y = queue_ok n x2"
    "pending_event y = pending_event x2" "idle y = idle x2"
    by (auto simp: y_def xframe_def queue_ok_def pending_event_def idle_def split: option.splits)
  have "catchFailure cfg p err b x = finallyRelease p y"
    using c by (simp add: catchFailure_def x1_def failure_def y_def split: option.splits)
  moreover have "moves L p n x1 y" using body y by (simp add: moves_def)
  with m(1) have "moves L p n x y" by (rule moves_trans)
  moreover have "plan_status_of (xs_state y) p = Some PFailed" using body y by simp
  moreover have "plan_status_of (xs_state x) p \<noteq> Some PFailed \<longrightarrow> pending_event y"
    using body y m(2) by simp
  ultimately show thesis by (rule that)
qed

lemma onRunnerEnd_moves:
  assumes inv: "plans_inv (oc_plans (ec_config cfg)) L (xs_state x)" and p: "p \<in> L"
    and st: "plan_status_of (xs_state x) p = Some PRunning"
    and q: "queue_ok n x" "n > 0"
  obtains y where "onRunnerEnd cfg p b x = finallyRelease p y" "moves L p n x y"
    "plan_status_of (xs_state y) p \<in> {Some PFailed, Some PCompleted}" "pending_event y"
proof (cases b)
  case None
  obtain y where "xtransition p PCompleted None x = (y, None)" "moves L p n x y"
    "plan_status_of (xs_state y) p = Some PCompleted" "pending_event y"
    by (rule xtransition_moves [OF st _ q, of PCompleted None L]) auto
  with None that [of y] show thesis by (simp add: onRunnerEnd_def)
next
  case (Some err)
  obtain y where y: "xtransition p PFailed (Some err) x = (y, None)" "moves L p n x y"
    "plan_status_of (xs_state y) p = Some PFailed" "pending_event y"
    by (rule xtransition_moves [OF st _ q, of PFailed "Some err" L]) auto
  obtain z r where z: "xpropagate cfg p y = (z, r)" by (cases "xpropagate cfg p y")
  have inv': "plans_inv (oc_plans (ec_config cfg)) L (xs_state y)"
    by (rule plans_inv_moves [OF inv y(2) p]) (use st y(3) in simp_all)
  have qy: "queue_ok n y" using y(2) by (simp add: moves_def)
  have "plan_status_of (xs_state y) p \<noteq> Some PMerged" using y(3) by simp
  note pr = xpropagate_moves [OF inv' p this qy z]
  have mz: "moves L p n x z" using y(2) pr(1) by (rule moves_trans)
  have fz: "plan_status_of (xs_state z) p = Some PFailed" using pr(2) y(3) by simp
  have pz: "pending_event z" using pr(1) y(4) by (simp add: moves_def)
  show thesis
  proof (cases r)
    case None
    with Some y z mz fz pz that [of z] show thesis by (simp add: onRunnerEnd_def andthen_def)
  next
    case (Some e)
    have invz: "plans_inv (oc_plans (ec_config cfg)) L (xs_state z)"
      by (rule plans_inv_moves [OF inv mz p]) (use st fz in simp_all)
    have qz: "queue_ok n z" using mz by (simp add: moves_def)
    have "plan_status_of (xs_state z) p \<in> {Some PPending, Some PRunning, Some PFailed}" using fz by simp
    from catchFailure_moves [OF invz p this qz q(2), of "lifecycle_message e" b]
    obtain w where w: "catchFailure cfg p (lifecycle_message e) b z = finallyRelease p w"
      "moves L p n z w" "plan_status_of (xs_state w) p = Some PFailed" by blast
    have "onRunnerEnd cfg p b x = finallyRelease p w"
      using \<open>b = Some err\<close> y(1) z Some w(1) by (simp add: onRunnerEnd_def andthen_def)
    moreover have "moves L p n x w" using mz w(2) by (rule moves_trans)
    moreover have "pending_event w" using w(2) pz by (simp add: moves_def)
    ultimately show thesis using that [of w] w(3) by simp
  qed
qed

section \<open>The invariant of the launches\<close>

fun fits :: "stage \<Rightarrow> plan_status option \<Rightarrow> bool" where
  "fits StWaiting st = (st = Some PPending)"
| "fits StAcquiring st = (st = Some PPending)"
| "fits (StBuilding b) st = (st = Some PRunning)"
| "fits StReleasing st = (st \<in> {Some PCompleted, Some PFailed, Some PMerged})"
| "fits StEnded st = (st \<in> {Some PCompleted, Some PFailed, Some PMerged})"

definition launched :: "exec_state \<Rightarrow> plan_id set" where
  "launched x = fst ` set (xs_stages x)"

definition producers :: "exec_state \<Rightarrow> int" where
  "producers x = (if xs_sentinel x then 1 else 0) + int (card (dsel not_ended (xs_stages x)))"

definition launches_inv :: "exec_cfg \<Rightarrow> exec_state \<Rightarrow> bool" where
  "launches_inv cfg x \<longleftrightarrow>
     plans_inv (oc_plans (ec_config cfg)) (launched x) (xs_state x) \<and>
     (\<forall>p st. dget (xs_stages x) p = Some st \<longrightarrow> fits st (plan_status_of (xs_state x) p)) \<and>
     (\<forall>p. plan_status_of (xs_state x) p = Some PRunning \<longrightarrow> (\<exists>b. dget (xs_stages x) p = Some (StBuilding b))) \<and>
     (\<forall>p. plan_status_of (xs_state x) p \<in> {Some PCompleted, Some PFailed} \<longrightarrow> p \<in> launched x) \<and>
     permits_ok (ec_parallelism cfg) (xs_sem x) (xs_stages x) \<and>
     queue_ok (producers x) x"

lemma launches_invD:
  assumes "launches_inv cfg x"
  shows "plans_inv (oc_plans (ec_config cfg)) (launched x) (xs_state x)"
    "dget (xs_stages x) p = Some st \<Longrightarrow> fits st (plan_status_of (xs_state x) p)"
    "plan_status_of (xs_state x) p = Some PRunning \<Longrightarrow> \<exists>b. dget (xs_stages x) p = Some (StBuilding b)"
    "permits_ok (ec_parallelism cfg) (xs_sem x) (xs_stages x)"
    "queue_ok (producers x) x"
    "plan_status_of (xs_state x) p \<in> {Some PCompleted, Some PFailed} \<Longrightarrow> p \<in> launched x"
  using assms unfolding launches_inv_def by blast+

lemma launched_iff: "p \<in> launched x \<longleftrightarrow> dget (xs_stages x) p \<noteq> None"
  using dget_None_iff [of "xs_stages x" p] by (simp add: launched_def)

lemma producers_pos:
  assumes "dget (xs_stages x) p = Some st" and "not_ended st"
  shows "producers x > 0"
proof -
  have "p \<in> dsel not_ended (xs_stages x)" using assms by (simp add: in_dsel)
  then have "card (dsel not_ended (xs_stages x)) > 0" by (metis card_gt_0_iff empty_iff finite_dsel)
  then show ?thesis by (simp add: producers_def)
qed

text \<open>Every step of a plan changes the stages pointwise and keeps their domain.\<close>

lemma launches_inv_step:
  assumes inv: "launches_inv cfg x" and p: "p \<in> launched x"
    and adv: "advances (launched x) p (xs_state x) (xs_state y)"
    and plan: "plan_status_of (xs_state x) p \<noteq> Some PMerged"
      "plan_status_of (xs_state y) p \<notin> {None, Some PBlocked}"
    and st: "dget (xs_stages y) p = Some st" "fits st (plan_status_of (xs_state y) p)"
      "plan_status_of (xs_state y) p = Some PRunning \<Longrightarrow> \<exists>b. st = StBuilding b"
    and other: "\<And>q. q \<noteq> p \<Longrightarrow> dget (xs_stages y) q = dget (xs_stages x) q \<or>
        (dget (xs_stages x) q = Some StWaiting \<and> dget (xs_stages y) q = Some StAcquiring)"
    and sem: "permits_ok (ec_parallelism cfg) (xs_sem y) (xs_stages y)" and q: "queue_ok (producers y) y"
  shows "launches_inv cfg y"
proof -
  have dom: "launched y = launched x"
  proof -
    have "q \<in> launched y \<longleftrightarrow> q \<in> launched x" for q
      using other [of q] st(1) p unfolding launched_iff by (cases "q = p") (auto simp del: not_None_eq)
    then show ?thesis by blast
  qed
  have "plans_inv (oc_plans (ec_config cfg)) (launched y) (xs_state y)"
    unfolding dom by (rule plans_inv_advances [OF launches_invD(1) [OF inv] adv p plan])
  moreover have "fits st' (plan_status_of (xs_state y) r)" if "dget (xs_stages y) r = Some st'" for r st'
  proof (cases "r = p")
    case True
    with that st show ?thesis by simp
  next
    case False
    from that have "r \<in> launched x" using dom launched_iff [of r y] by simp
    with advancesD(3) [OF adv False]
    have same: "plan_status_of (xs_state y) r = plan_status_of (xs_state x) r" by blast
    from other [OF False] that have
      "dget (xs_stages x) r = Some st' \<or> dget (xs_stages x) r = Some StWaiting \<and> st' = StAcquiring"
      by auto
    then show ?thesis using launches_invD(2) [OF inv, of r] unfolding same by auto
  qed
  moreover have "\<exists>b. dget (xs_stages y) r = Some (StBuilding b)"
    if "plan_status_of (xs_state y) r = Some PRunning" for r
  proof (cases "r = p")
    case True
    with that st(1,3) show ?thesis by auto
  next
    case False
    from advancesD(4) [OF adv False] that have "plan_status_of (xs_state x) r = Some PRunning" by auto
    from launches_invD(3) [OF inv this] other [OF False] show ?thesis by auto
  qed
  moreover have "r \<in> launched y"
    if "plan_status_of (xs_state y) r \<in> {Some PCompleted, Some PFailed}" for r
  proof (cases "r = p")
    case True
    with p dom show ?thesis by simp
  next
    case False
    from advancesD(4) [OF adv False] that
    have "plan_status_of (xs_state x) r \<in> {Some PCompleted, Some PFailed}" by auto
    from launches_invD(6) [OF inv this] dom show ?thesis by simp
  qed
  ultimately show ?thesis using sem q unfolding launches_inv_def by blast
qed

lemma producers_cong:
  assumes "xs_sentinel y = xs_sentinel x"
    and "\<And>q. (\<exists>st. dget (xs_stages y) q = Some st \<and> not_ended st) \<longleftrightarrow>
             (\<exists>st. dget (xs_stages x) q = Some st \<and> not_ended st)"
  shows "producers y = producers x"
proof -
  have "dsel not_ended (xs_stages y) = dsel not_ended (xs_stages x)"
    using assms(2) unfolding dsel_def by blast
  with assms(1) show ?thesis by (simp add: producers_def)
qed

lemma release_step:
  assumes inv: "launches_inv cfg x" and p: "dget (xs_stages x) p = Some st" "holds_permit st"
    and mv: "moves (launched x) p (producers x) x y"
    and fin: "plan_status_of (xs_state y) p \<in> {Some PCompleted, Some PFailed}"
  shows "launches_inv cfg (finallyRelease p y)"
    and "launched (finallyRelease p y) = launched x"
proof -
  let ?z = "finallyRelease p y"
  have fr: "xs_stages y = xs_stages x" "xs_sem y = xs_sem x" "xs_sentinel y = xs_sentinel x"
    using mv by (auto simp: moves_def xframe_def)
  have ok: "permits_ok (ec_parallelism cfg) (xs_sem y) (xs_stages y)"
    using launches_invD(4) [OF inv] by (simp add: fr)
  have py: "dget (xs_stages y) p = Some st" using p(1) by (simp add: fr)
  note fs = finallyRelease_stages [OF ok py p(2)]
  have pl: "p \<in> launched x" using p(1) by (simp add: launched_iff)
  have prod: "producers ?z = producers x"
  proof (rule producers_cong)
    fix q
    show "(\<exists>st. dget (xs_stages ?z) q = Some st \<and> not_ended st) \<longleftrightarrow>
          (\<exists>st. dget (xs_stages x) q = Some st \<and> not_ended st)"
      using p unfolding fs(2) by (auto simp: fr not_ended_def holds_permit_def)
  qed (simp add: fr)
  have "queue_ok (producers ?z) ?z"
    unfolding prod using mv by (simp add: moves_def queue_ok_def)
  moreover have "plan_status_of (xs_state x) p \<noteq> Some PMerged"
    using launches_invD(2) [OF inv p(1)] p(2) by (cases st) (auto simp: holds_permit_def)
  ultimately show "launches_inv cfg ?z"
    using mv fin fs pl fr
    by (intro launches_inv_step [OF inv pl, of ?z StReleasing]) (auto simp: moves_def)
  have "q \<in> launched ?z \<longleftrightarrow> q \<in> launched x" for q
    using p(1) unfolding launched_iff fs(2) fr by auto
  then show "launched ?z = launched x" by blast
qed

lemma building_step:
  assumes inv: "launches_inv cfg x" and p: "dget (xs_stages x) p = Some st" "holds_permit st"
    and mv: "moves (launched x) p (producers x) x y"
    and run: "plan_status_of (xs_state y) p = Some PRunning"
  shows "launches_inv cfg (y\<lparr>xs_stages := dput p (StBuilding b) (xs_stages y)\<rparr>)"
    and "launched (y\<lparr>xs_stages := dput p (StBuilding b) (xs_stages y)\<rparr>) = launched x"
proof -
  let ?z = "y\<lparr>xs_stages := dput p (StBuilding b) (xs_stages y)\<rparr>"
  have fr: "xs_stages y = xs_stages x" "xs_sem y = xs_sem x" "xs_sentinel y = xs_sentinel x"
    using mv by (auto simp: moves_def xframe_def)
  have pl: "p \<in> launched x" using p(1) by (simp add: launched_iff)
  have ne: "st \<noteq> StWaiting" "not_ended st" using p(2) by (auto simp: holds_permit_def not_ended_def)
  have "holds_permit st = holds_permit (StBuilding b)" using p(2) by (simp add: holds_permit_def)
  from permits_ok_same [OF launches_invD(4) [OF inv] p(1) this ne(1)]
  have sem: "permits_ok (ec_parallelism cfg) (xs_sem ?z) (xs_stages ?z)" by (simp add: fr)
  have prod: "producers ?z = producers x"
    using p(1) ne(2) by (intro producers_cong) (auto simp: fr not_ended_def)
  have "queue_ok (producers ?z) ?z"
    unfolding prod using mv by (simp add: moves_def queue_ok_def)
  moreover have "plan_status_of (xs_state x) p \<noteq> Some PMerged"
    using launches_invD(2) [OF inv p(1)] p(2) by (cases st) (auto simp: holds_permit_def)
  ultimately show "launches_inv cfg ?z"
    using mv run sem
    by (intro launches_inv_step [OF inv pl, of ?z "StBuilding b"]) (auto simp: moves_def fr)
  show "launched ?z = launched x" using pl by (auto simp: fr launched_def)
qed

lemma released_step:
  assumes inv: "launches_inv cfg x" and p: "dget (xs_stages x) p = Some StReleasing"
  shows "launches_inv cfg (xremoveProducer (x\<lparr>xs_stages := dput p StEnded (xs_stages x)\<rparr>))"
proof -
  let ?m = "dput p StEnded (xs_stages x)"
  let ?y = "x\<lparr>xs_stages := ?m\<rparr>"
  have pin: "p \<in> dsel not_ended (xs_stages x)" using p by (simp add: in_dsel not_ended_def)
  have "dsel not_ended ?m = dsel not_ended (xs_stages x) - {p}"
    by (simp add: dsel_dput not_ended_def)
  then have "int (card (dsel not_ended ?m)) = int (card (dsel not_ended (xs_stages x))) - 1"
    using pin by (simp add: card_Diff_singleton)
      (metis One_nat_def Suc_leI card_gt_0_iff empty_iff finite_dsel of_nat_diff of_nat_1)
  then have prod: "producers (xremoveProducer ?y) = producers x - 1" by (simp add: producers_def)
  have q: "queue_ok (producers x) ?y" using launches_invD(5) [OF inv] by (simp add: queue_ok_def)
  have "permits_ok (ec_parallelism cfg) (xs_sem x) ?m"
    by (rule permits_ok_same [OF launches_invD(4) [OF inv] p]) (simp_all add: holds_permit_def)
  moreover have "insert p (launched x) = launched x"
    using p launched_iff [of p x] by (simp add: insert_absorb)
  moreover have "fits StEnded (plan_status_of (xs_state x) p)"
    using launches_invD(2) [OF inv p] by simp
  moreover have "launched (xremoveProducer ?y) = insert p (launched x)"
    by (auto simp: launched_def)
  ultimately show ?thesis
    using inv xremoveProducer_queue(1) [OF q] p unfolding launches_inv_def prod by (auto simp del: fits.simps)
qed

end
