(* ===== verification/PlanExecutionLoop.thy ===== *)
theory PlanExecutionLoop
  imports PlanExecution
begin

text \<open>
  The consuming loop of \<open>executePlans\<close> (definitions in PlanExecution): its invariant is kept
  by every event, and from it follow the properties of a whole run: dependency order, bounded
  concurrency, no early end, no lost wake-up, and the meaning of the final run status.
\<close>

section \<open>The invariant of the loop\<close>

text \<open>\<open>todo\<close> are the plans taken out of \<open>running\<close> whose merge is still to be tried.\<close>

definition loop_core :: "plan_id list \<Rightarrow> exec_state \<Rightarrow> bool" where
  "loop_core todo x \<longleftrightarrow>
     set (xs_running x) \<subseteq> launched x \<and>
     (\<forall>q \<in> set (xs_running x). plan_status_of (xs_state x) q \<noteq> Some PMerged) \<and>
     (\<forall>q \<in> set (xs_running x). plan_status_of (xs_state x) q \<in> {Some PCompleted, Some PFailed} \<longrightarrow>
        pending_event x) \<and>
     (\<forall>q \<in> launched x. q \<notin> set (xs_running x) \<and> q \<notin> set todo \<longrightarrow>
        plan_status_of (xs_state x) q \<in> {Some PMerged, Some PFailed} \<or> xs_aborted x) \<and>
     set todo \<subseteq> launched x - set (xs_running x) \<and>
     (\<forall>q \<in> set todo. plan_status_of (xs_state x) q \<in> {Some PCompleted, Some PFailed, Some PMerged})"

lemma loop_coreD:
  assumes "loop_core todo x"
  shows "q \<in> set (xs_running x) \<Longrightarrow> q \<in> launched x"
    "q \<in> set (xs_running x) \<Longrightarrow> plan_status_of (xs_state x) q \<in> {Some PCompleted, Some PFailed} \<Longrightarrow>
       pending_event x"
    "q \<in> launched x \<Longrightarrow> q \<notin> set (xs_running x) \<Longrightarrow> q \<notin> set todo \<Longrightarrow>
       plan_status_of (xs_state x) q \<in> {Some PMerged, Some PFailed} \<or> xs_aborted x"
    "q \<in> set todo \<Longrightarrow> q \<in> launched x" "q \<in> set todo \<Longrightarrow> q \<notin> set (xs_running x)"
    "q \<in> set todo \<Longrightarrow> plan_status_of (xs_state x) q \<in> {Some PCompleted, Some PFailed, Some PMerged}"
    "q \<in> set (xs_running x) \<Longrightarrow> plan_status_of (xs_state x) q \<noteq> Some PMerged"
  using assms unfolding loop_core_def by blast+

lemma loop_coreI:
  assumes "\<And>q. q \<in> set (xs_running x) \<Longrightarrow> q \<in> launched x \<and> plan_status_of (xs_state x) q \<noteq> Some PMerged"
    "\<And>q. q \<in> set (xs_running x) \<Longrightarrow> plan_status_of (xs_state x) q \<in> {Some PCompleted, Some PFailed} \<Longrightarrow>
       pending_event x"
    "\<And>q. q \<in> launched x \<Longrightarrow> q \<notin> set (xs_running x) \<Longrightarrow> q \<notin> set todo \<Longrightarrow>
       plan_status_of (xs_state x) q \<in> {Some PMerged, Some PFailed} \<or> xs_aborted x"
    "\<And>q. q \<in> set todo \<Longrightarrow> q \<in> launched x \<and> q \<notin> set (xs_running x) \<and>
       plan_status_of (xs_state x) q \<in> {Some PCompleted, Some PFailed, Some PMerged}"
  shows "loop_core todo x"
  using assms unfolding loop_core_def by blast

definition no_ready :: "exec_cfg \<Rightarrow> exec_state \<Rightarrow> bool" where
  "no_ready cfg x \<longleftrightarrow>
     (\<forall>p \<in> set (all_ids cfg). isReady (xs_state x) p \<longrightarrow> p \<in> set (xs_running x))"

text \<open>The state a loop that was not aborted ends in.\<close>

definition finished :: "exec_cfg \<Rightarrow> exec_state \<Rightarrow> bool" where
  "finished cfg x \<longleftrightarrow>
     dsel not_ended (xs_stages x) = {} \<and>
     (\<forall>q \<in> launched x. plan_status_of (xs_state x) q \<in> {Some PMerged, Some PFailed}) \<and>
     (\<forall>p \<in> set (all_ids cfg). \<not> isReady (xs_state x) p)"

definition loop_inv :: "exec_cfg \<Rightarrow> exec_state \<Rightarrow> bool" where
  "loop_inv cfg x \<longleftrightarrow>
     (case xs_loop x of
        LNext \<Rightarrow> loop_core [] x \<and> (xs_sentinel x \<longleftrightarrow> xs_running x \<noteq> []) \<and>
                 (\<not> xs_aborted x \<longrightarrow> no_ready cfg x)
      | LGate p ps \<Rightarrow> loop_core (p # ps) x \<and> xs_sentinel x \<and> idle x \<and>
                 plan_status_of (xs_state x) p = Some PCompleted
      | LMerge p ps \<Rightarrow> loop_core (p # ps) x \<and> xs_sentinel x \<and> idle x \<and>
                 plan_status_of (xs_state x) p = Some PCompleted
      | LEnded \<Rightarrow> \<not> xs_sentinel x \<and> (\<not> xs_aborted x \<longrightarrow> finished cfg x)
      | LThrown e \<Rightarrow> \<not> xs_sentinel x)"

lemma isReady_iff:
  "isReady s p \<longleftrightarrow> plan_status_of s p = Some PPending \<and>
     (\<forall>ds d. deps_of s p = Some ds \<and> d \<in> set ds \<longrightarrow> plan_status_of s d = Some PMerged)"
proof -
  have "(case dget (es_plans s) d of None \<Rightarrow> False | Some dep \<Rightarrow> ps_status dep = PMerged) \<longleftrightarrow>
        plan_status_of s d = Some PMerged" for d
    by (cases "dget (es_plans s) d") auto
  then show ?thesis
    by (cases "dget (es_plans s) p") (auto simp: isReady_def list_all_iff)
qed

lemma isReady_back:
  assumes adv: "advances L p s s'" and r: "isReady s' q"
    and p: "plan_status_of s p \<in> {Some PPending, Some PRunning, Some PFailed}"
      "plan_status_of s' p \<in> {Some PRunning, Some PFailed, Some PCompleted}"
  shows "isReady s q"
proof -
  from r p(2) have "q \<noteq> p" by (auto simp: isReady_iff)
  with r advancesD(4) [OF adv this] have "plan_status_of s q = Some PPending"
    by (auto simp: isReady_iff)
  moreover have "plan_status_of s d = Some PMerged" if "plan_status_of s' d = Some PMerged" for d
  proof -
    from that p(2) have "d \<noteq> p" by auto
    from advancesD(4) [OF adv this] that show ?thesis by auto
  qed
  ultimately show ?thesis using r advancesD(1) [OF adv, of q] by (auto simp: isReady_iff)
qed

lemma loop_core_plan_step:
  assumes core: "loop_core todo x" and p: "p \<in> launched x"
    and adv: "advances (launched x) p (xs_state x) (xs_state y)"
    and same: "launched y = launched x" "xs_running y = xs_running x" "xs_aborted y = xs_aborted x"
    and s: "plan_status_of (xs_state x) p \<in> {Some PPending, Some PRunning}"
      "plan_status_of (xs_state y) p \<in> {Some PRunning, Some PFailed, Some PCompleted}"
    and ev: "plan_status_of (xs_state y) p \<noteq> Some PRunning \<Longrightarrow> pending_event y"
      "pending_event x \<Longrightarrow> pending_event y"
  shows "loop_core todo y"
proof -
  have st: "plan_status_of (xs_state y) q = plan_status_of (xs_state x) q"
    if "q \<in> launched x" "q \<noteq> p" for q
    using advancesD(3) [OF adv that(2,1)] .
  show ?thesis
  proof (rule loop_coreI)
    fix q
    show "q \<in> launched y \<and> plan_status_of (xs_state y) q \<noteq> Some PMerged" if "q \<in> set (xs_running y)"
      using loop_coreD(1,7) [OF core, of q] that s(2) st [of q] by (cases "q = p") (auto simp: same)
    show "pending_event y"
      if "q \<in> set (xs_running y)" "plan_status_of (xs_state y) q \<in> {Some PCompleted, Some PFailed}"
    proof (cases "q = p")
      case True
      with that(2) have "plan_status_of (xs_state y) p \<noteq> Some PRunning" by auto
      then show ?thesis by (rule ev(1))
    next
      case False
      have run: "q \<in> set (xs_running x)" using that(1) by (simp add: same)
      from loop_coreD(2) [OF core run] that(2) st [OF loop_coreD(1) [OF core run] False] ev(2)
      show ?thesis by simp
    qed
    show "plan_status_of (xs_state y) q \<in> {Some PMerged, Some PFailed} \<or> xs_aborted y"
      if "q \<in> launched y" "q \<notin> set (xs_running y)" "q \<notin> set todo"
    proof -
      have "plan_status_of (xs_state x) q \<in> {Some PMerged, Some PFailed} \<or> xs_aborted x"
        using loop_coreD(3) [OF core] that by (simp add: same)
      then show ?thesis using st [of q] that(1) s(1) by (cases "q = p") (auto simp: same)
    qed
    assume q: "q \<in> set todo"
    note t = loop_coreD(4-6) [OF core q]
    from t(3) s(1) have "q \<noteq> p" by auto
    with t st [OF t(1)] show "q \<in> launched y \<and> q \<notin> set (xs_running y) \<and>
        plan_status_of (xs_state y) q \<in> {Some PCompleted, Some PFailed, Some PMerged}"
      by (simp add: same)
  qed
qed

lemma loop_inv_plan_step:
  assumes inv: "loop_inv cfg x" and p: "p \<in> launched x"
    and adv: "advances (launched x) p (xs_state x) (xs_state y)"
    and same: "launched y = launched x" "xs_running y = xs_running x" "xs_aborted y = xs_aborted x"
      "xs_loop y = xs_loop x" "xs_sentinel y = xs_sentinel x"
    and s: "plan_status_of (xs_state x) p \<in> {Some PPending, Some PRunning}"
      "plan_status_of (xs_state y) p \<in> {Some PRunning, Some PFailed, Some PCompleted}"
    and ev: "plan_status_of (xs_state y) p \<noteq> Some PRunning \<Longrightarrow> pending_event y"
      "pending_event x \<Longrightarrow> pending_event y" "idle x \<Longrightarrow> idle y"
  shows "loop_inv cfg y"
proof -
  have core: "loop_core todo x \<Longrightarrow> loop_core todo y" for todo
    by (rule loop_core_plan_step [OF _ p adv same(1-3) s ev(1,2)])
  have "no_ready cfg x \<Longrightarrow> no_ready cfg y"
    unfolding no_ready_def same using isReady_back [OF adv _ _ s(2)] s(1) by blast
  moreover have "plan_status_of (xs_state y) q = Some PCompleted"
    if "loop_core (q # ps) x" "plan_status_of (xs_state x) q = Some PCompleted" for q ps
  proof -
    from that s(1) have "q \<in> launched x" "q \<noteq> p" by (auto simp: loop_core_def)
    with advancesD(3) [OF adv] that(2) show ?thesis by simp
  qed
  moreover have "plan_status_of (xs_state x) p \<notin> {Some PMerged, Some PFailed}" using s(1) by auto
  then have "\<not> finished cfg x" using p unfolding finished_def by blast
  ultimately show ?thesis
    using inv core ev(3) unfolding loop_inv_def same by (auto split: loop_state.splits)
qed

section \<open>Launching ready plans\<close>

definition exec_inv :: "exec_cfg \<Rightarrow> exec_state \<Rightarrow> bool" where
  "exec_inv cfg x \<longleftrightarrow> launches_inv cfg x \<and> loop_inv cfg x"

lemma xpush_simps [simp]:
  "xs_running (xpush e x) = xs_running x" "xs_sem (xpush e x) = xs_sem x"
  "xs_stages (xpush e x) = xs_stages x" "xs_sentinel (xpush e x) = xs_sentinel x"
  "xs_loop (xpush e x) = xs_loop x" "xs_aborted (xpush e x) = xs_aborted x"
  using xframe_eqD [OF xpush_frame(1)] by blast+

lemma producers_xpush [simp]:
  "producers (xpush e x) = producers x" "launched (xpush e x) = launched x"
  by (simp_all add: producers_def launched_def)

lemma launches_inv_xpush: "launches_inv cfg x \<Longrightarrow> launches_inv cfg (xpush e x)"
  unfolding launches_inv_def by (simp add: xpush_queue)

lemma launchPlan_simps:
  "xs_state (launchPlan p x) = xs_state x" "xs_running (launchPlan p x) = xs_running x @ [p]"
  "xs_sentinel (launchPlan p x) = xs_sentinel x" "xs_loop (launchPlan p x) = xs_loop x"
  "xs_aborted (launchPlan p x) = xs_aborted x" "xs_inbox (launchPlan p x) = xs_inbox x"
  "xs_queue (launchPlan p x) = aq_addProducer (xs_queue x)"
  "launched (launchPlan p x) = insert p (launched x)"
  by (simp_all add: launchPlan_def launched_def split: prod.splits)

lemma plans_inv_insert:
  assumes inv: "plans_inv plans L s" and r: "isReady s p"
  shows "plans_inv plans (insert p L) s"
proof -
  have "plan_status_of s d = Some PMerged"
    if "deps_of s q = Some ds" "q \<in> insert p L \<or> plan_status_of s q \<notin> {Some PPending, Some PBlocked}"
      "d \<in> set ds" for q ds d
  proof (cases "q = p")
    case True
    with that r show ?thesis unfolding isReady_iff by blast
  next
    case False
    with that(2) have "q \<in> L \<or> plan_status_of s q \<notin> {Some PPending, Some PBlocked}" by blast
    from plans_invD(2) [OF inv that(1) this that(3)] show ?thesis .
  qed
  moreover have "plan_status_of s q \<notin> {None, Some PBlocked}" if "q \<in> insert p L" for q
    using that r plans_invD(3,4) [OF inv, of q] by (cases "q = p") (auto simp: isReady_iff)
  ultimately show ?thesis
    using plans_invD(1) [OF inv] unfolding plans_inv_def by blast
qed

lemma launchPlan_inv:
  assumes inv: "launches_inv cfg x" and new: "p \<notin> launched x" and r: "isReady (xs_state x) p"
    and i: "xs_inbox x \<noteq> Some Finished"
  shows "launches_inv cfg (launchPlan p x)"
proof -
  obtain sem acq where a: "sem_acquire p (xs_sem x) = (sem, acq)" by (cases "sem_acquire p (xs_sem x)")
  let ?st = "if acq then StAcquiring else StWaiting"
  let ?y = "launchPlan p x"
  have none: "dget (xs_stages x) p = None" using new by (simp add: dget_None_iff launched_def)
  have stg: "xs_stages ?y = dput p ?st (xs_stages x)" "xs_sem ?y = sem"
    using a by (simp_all add: launchPlan_def)
  have "plans_inv (oc_plans (ec_config cfg)) (insert p (launched x)) (xs_state x)"
    by (rule plans_inv_insert [OF launches_invD(1) [OF inv] r])
  moreover have "fits st (plan_status_of (xs_state x) q)" if "dget (xs_stages ?y) q = Some st" for q st
    using that launches_invD(2) [OF inv, of q] r unfolding stg isReady_iff by (auto split: if_splits)
  moreover have "\<exists>b. dget (xs_stages ?y) q = Some (StBuilding b)"
    if "plan_status_of (xs_state x) q = Some PRunning" for q
    using launches_invD(3) [OF inv that] r that unfolding stg isReady_iff by auto
  moreover have "q \<in> insert p (launched x)"
    if "plan_status_of (xs_state x) q \<in> {Some PCompleted, Some PFailed}" for q
    using launches_invD(6) [OF inv that] by simp
  moreover have "permits_ok (ec_parallelism cfg) sem (xs_stages ?y)"
    unfolding stg by (rule permits_ok_launch [OF launches_invD(4) [OF inv] none a])
  moreover have "queue_ok (producers ?y) ?y"
  proof -
    have "p \<notin> dsel not_ended (xs_stages x)" using none by (simp add: dsel_def)
    then have "producers ?y = producers x + 1"
      by (simp add: producers_def stg dsel_dput not_ended_def launchPlan_simps)
    then show ?thesis using launches_invD(5) [OF inv] i
      by (auto simp: queue_ok_def launchPlan_simps aq_addProducer_def producers_def)
  qed
  ultimately show ?thesis
    unfolding launches_inv_def by (simp add: launchPlan_simps stg)
qed

text \<open>What \<open>startReadyPlans\<close> needs of the state it starts from, and what it gives.\<close>

lemma startReadyPlans_inv:
  assumes "launches_inv cfg x" and "loop_core [] x" and "idle x"
    and "\<not> xs_aborted x"
  shows "launches_inv cfg (startReadyPlans reason ps x) \<and> loop_core [] (startReadyPlans reason ps x) \<and>
    idle (startReadyPlans reason ps x) \<and> xs_state (startReadyPlans reason ps x) = xs_state x \<and>
    xs_sentinel (startReadyPlans reason ps x) = xs_sentinel x \<and>
    xs_aborted (startReadyPlans reason ps x) = xs_aborted x \<and>
    set (xs_running x) \<subseteq> set (xs_running (startReadyPlans reason ps x)) \<and>
    (\<forall>p \<in> set ps. isReady (xs_state x) p \<longrightarrow> p \<in> set (xs_running (startReadyPlans reason ps x)))"
  using assms
proof (induction reason ps x rule: startReadyPlans.induct)
  case (1 reason x)
  then show ?case by simp
next
  case (2 reason p ps x)
  show ?case
  proof (cases "p \<in> set (xs_running x) \<or> \<not> isReady (xs_state x) p")
    case True
    then have "startReadyPlans reason (p # ps) x = startReadyPlans reason ps x" by simp
    then show ?thesis using "2.IH"(1) [OF True "2.prems"] True by auto
  next
    case False
    let ?x = "xpush (PlanScheduleReady p reason) x"
    let ?y = "launchPlan p ?x"
    have r: "isReady (xs_state x) p" and nr: "p \<notin> set (xs_running x)" using False by auto
    have new: "p \<notin> launched x"
      using "2.prems"(2,4) r nr unfolding loop_core_def isReady_iff by auto
    have idx: "idle ?x" using "2.prems"(3) by (rule xpush_idle)
    have inv: "launches_inv cfg ?y"
      by (rule launchPlan_inv [OF launches_inv_xpush [OF "2.prems"(1)]])
         (use new r idx in \<open>simp_all add: idle_def\<close>)
    have pe: "pending_event ?y" if "pending_event x"
      using that xpush_queue(2) [OF launches_invD(5) [OF "2.prems"(1)]]
      by (simp add: pending_event_def launchPlan_simps aq_addProducer_def)
    have core: "loop_core [] ?y"
      using "2.prems"(2) r pe unfolding loop_core_def
      by (auto simp: launchPlan_simps isReady_iff)
    have id: "idle ?y" using idx by (simp add: idle_def launchPlan_simps aq_addProducer_def)
    have "\<not> xs_aborted ?y" using "2.prems"(4) by (simp add: launchPlan_simps)
    note IH = "2.IH"(2) [OF False inv core id this]
    have red: "startReadyPlans reason (p # ps) x = startReadyPlans reason ps ?y"
      using False by simp
    from IH show ?thesis unfolding red by (auto simp: launchPlan_simps)
  qed
qed

section \<open>Merging\<close>

lemma plans_inv_cong: "es_plans s' = es_plans s \<Longrightarrow> plans_inv plans L s' = plans_inv plans L s"
  by (simp only: plans_inv_def)

lemma launches_inv_cong:
  assumes "es_plans (xs_state y) = es_plans (xs_state x)" "xs_sem y = xs_sem x" "xs_stages y = xs_stages x"
    "xs_queue y = xs_queue x" "xs_inbox y = xs_inbox x" "xs_sentinel y = xs_sentinel x"
  shows "launches_inv cfg y = launches_inv cfg x" "producers y = producers x"
    "launched y = launched x" "idle y = idle x" "pending_event y = pending_event x"
  using assms
  by (simp_all add: launches_inv_def producers_def launched_def queue_ok_def idle_def
      pending_event_def plans_inv_cong [OF assms(1)])

text \<open>The merge of a completed plan changes only the plan states.\<close>

definition same_but_state :: "exec_state \<Rightarrow> exec_state \<Rightarrow> bool" where
  "same_but_state x y \<longleftrightarrow>
     xframe y = xframe x \<and> xs_queue y = xs_queue x \<and> xs_inbox y = xs_inbox x"

lemma same_but_stateD:
  assumes "same_but_state x y"
  shows "xs_running y = xs_running x" "xs_sem y = xs_sem x" "xs_stages y = xs_stages x"
    "xs_sentinel y = xs_sentinel x" "xs_loop y = xs_loop x" "xs_aborted y = xs_aborted x"
    "xs_queue y = xs_queue x" "xs_inbox y = xs_inbox x"
    "launched y = launched x" "producers y = producers x" "idle y = idle x"
    "pending_event y = pending_event x"
  using assms
  by (auto simp: same_but_state_def xframe_def producers_def launched_def idle_def pending_event_def)

lemma merge_launches_inv:
  assumes inv: "launches_inv cfg x" and p: "p \<in> launched x"
    and c: "plan_status_of (xs_state x) p = Some PCompleted"
    and adv: "advances (launched x) p (xs_state x) (xs_state y)"
    and st: "plan_status_of (xs_state y) p \<in> {Some PFailed, Some PMerged}"
    and same: "same_but_state x y"
  shows "launches_inv cfg y"
proof -
  from p obtain stg where g: "dget (xs_stages x) p = Some stg" by (auto simp: launched_iff)
  have f: "fits stg (plan_status_of (xs_state y) p)"
    using launches_invD(2) [OF inv g] c st by (cases stg) auto
  show ?thesis
  proof (rule launches_inv_step [OF inv p adv])
    show "dget (xs_stages y) p = Some stg" using g by (simp add: same_but_stateD [OF same])
    show "queue_ok (producers y) y" using launches_invD(5) [OF inv]
      by (simp add: same_but_stateD [OF same] queue_ok_def)
    show "permits_ok (ec_parallelism cfg) (xs_sem y) (xs_stages y)"
      using launches_invD(4) [OF inv] by (simp add: same_but_stateD [OF same])
  qed (use c st f same_but_stateD(3) [OF same] in auto)
qed

lemma merge_loop_core:
  assumes core: "loop_core (p # ps) x"
    and adv: "advances (launched x) p (xs_state x) (xs_state y)"
    and st: "plan_status_of (xs_state y) p \<in> {Some PFailed, Some PMerged}"
    and same: "same_but_state x y"
  shows "loop_core ps y"
proof (rule loop_coreI)
  note eqs = same_but_stateD [OF same]
  have other: "plan_status_of (xs_state y) q = plan_status_of (xs_state x) q"
    if "q \<in> launched x" "q \<noteq> p" for q
    using advancesD(3) [OF adv that(2,1)] .
  have np: "p \<notin> set (xs_running x)" using loop_coreD(5) [OF core, of p] by simp
  fix q
  show "q \<in> launched y \<and> plan_status_of (xs_state y) q \<noteq> Some PMerged" if "q \<in> set (xs_running y)"
    using loop_coreD(1,7) [OF core, of q] that np other [of q] by (cases "q = p") (auto simp: eqs)
  show "pending_event y"
    if "q \<in> set (xs_running y)" "plan_status_of (xs_state y) q \<in> {Some PCompleted, Some PFailed}"
  proof -
    from that(1) np have q: "q \<in> set (xs_running x)" "q \<noteq> p" by (auto simp: eqs)
    from loop_coreD(2) [OF core q(1)] other [OF loop_coreD(1) [OF core q(1)] q(2)] that(2)
    show ?thesis by (simp add: eqs)
  qed
  show "plan_status_of (xs_state y) q \<in> {Some PMerged, Some PFailed} \<or> xs_aborted y"
    if "q \<in> launched y" "q \<notin> set (xs_running y)" "q \<notin> set ps"
  proof (cases "q = p")
    case True
    with st show ?thesis by auto
  next
    case False
    from that False have "q \<in> launched x" "q \<notin> set (xs_running x)" "q \<notin> set (p # ps)"
      by (auto simp: eqs)
    from loop_coreD(3) [OF core this] other [OF this(1) False] show ?thesis by (simp add: eqs)
  qed
  assume q: "q \<in> set ps"
  then have "q \<in> set (p # ps)" by simp
  note t = loop_coreD(4-6) [OF core this]
  have "plan_status_of (xs_state y) q \<in> {Some PCompleted, Some PFailed, Some PMerged}"
    using t st other [OF t(1)] by (cases "q = p") auto
  with t show "q \<in> launched y \<and> q \<notin> set (xs_running y) \<and>
      plan_status_of (xs_state y) q \<in> {Some PCompleted, Some PFailed, Some PMerged}"
    by (simp add: eqs)
qed

lemma failMerge_spec:
  assumes inv: "launches_inv cfg x" and p: "p \<in> launched x"
    and c: "plan_status_of (xs_state x) p = Some PCompleted"
    and run: "failMerge cfg p err x = (y, r)"
  shows "advances (launched x) p (xs_state x) (xs_state y)"
    and "plan_status_of (xs_state y) p = Some PFailed" and "same_but_state x y"
proof -
  obtain s es where t: "transitionPlan (xs_state x) p PFailed (Some err) = Inr (s, es)"
    by (rule transitionPlan_possible [OF c, of PFailed "Some err"]) auto
  note adv = transitionPlan_advances [OF t]
  obtain s' w where w: "propagateFailure s p (oc_plans (ec_config cfg)) = (s', w)"
    by (cases "propagateFailure s p (oc_plans (ec_config cfg))")
  have "plans_inv (oc_plans (ec_config cfg)) (launched x) s"
    by (rule plans_inv_advances [OF launches_invD(1) [OF inv] adv(1) p]) (use c adv(2) in simp_all)
  from propagateFailure_advances [OF this _ p w] adv(2)
  have pr: "advances (launched x) p s s'" "plan_status_of s' p = Some PFailed" by simp_all
  have y: "xs_state y = s'" "same_but_state x y"
    using run t w
    by (auto simp: failMerge_def Let_def yield_def same_but_state_def xframe_def split: sum.splits)
  show "advances (launched x) p (xs_state x) (xs_state y)"
    unfolding y(1) using adv(1) pr(1) by (rule advances_trans)
  show "plan_status_of (xs_state y) p = Some PFailed" "same_but_state x y" using y pr(2) by simp_all
qed

lemma throwLoop_inv:
  assumes "launches_inv cfg x" and "xs_sentinel x"
  shows "exec_inv cfg (throwLoop e x)"
proof -
  let ?y = "removeSentinel x"
  have pr: "producers ?y = producers x - 1" using assms(2) by (simp add: producers_def)
  have "queue_ok ((if xs_sentinel x then 1 else 0) + (producers x - 1)) x"
    using launches_invD(5) [OF assms(1)] assms(2) by simp
  from removeSentinel_queue(1) [OF this] assms(1) have "launches_inv cfg ?y"
    unfolding launches_inv_def pr by (simp add: launched_def)
  then have "launches_inv cfg (throwLoop e x)"
    unfolding throwLoop_def by (subst launches_inv_cong(1) [where x = ?y]) simp_all
  then show ?thesis unfolding exec_inv_def by (simp add: loop_inv_def throwLoop_def)
qed

lemma removeSentinel_launches:
  assumes "launches_inv cfg x"
  shows "launches_inv cfg (removeSentinel x)" and "launched (removeSentinel x) = launched x"
    and "pending_event x \<Longrightarrow> pending_event (removeSentinel x)"
proof -
  have q: "queue_ok ((if xs_sentinel x then 1 else 0) + producers (removeSentinel x)) x"
    using launches_invD(5) [OF assms] by (simp add: producers_def)
  from removeSentinel_queue(1) [OF q] assms show "launches_inv cfg (removeSentinel x)"
    unfolding launches_inv_def by (simp add: launched_def)
  show "launched (removeSentinel x) = launched x" by (simp add: launched_def)
  show "pending_event x \<Longrightarrow> pending_event (removeSentinel x)" by (rule removeSentinel_queue(2) [OF q])
qed

lemma afterMerges_inv:
  assumes inv: "launches_inv cfg x" and core: "loop_core [] x \<or> (xs_aborted x \<and> loop_core todo x)"
    and id: "idle x" and s: "xs_sentinel x"
  shows "exec_inv cfg (afterMerges cfg x)"
proof -
  define x1 where "x1 = (if xs_aborted x then x else startReadyPlans ''dependencies merged'' (all_ids cfg) x)"
  have core0: "loop_core [] x" using core unfolding loop_core_def by auto
  have 1: "launches_inv cfg x1" "loop_core [] x1" "xs_sentinel x1" "xs_aborted x1 = xs_aborted x"
    "\<not> xs_aborted x \<longrightarrow> no_ready cfg x1"
    using startReadyPlans_inv [OF inv core0 id, of "''dependencies merged''" "all_ids cfg"] inv core0 s
    by (auto simp: x1_def no_ready_def)
  define x2 where "x2 = (if xs_running x1 = [] then removeSentinel x1 else x1)"
  have 2: "launches_inv cfg x2" "xs_sentinel x2 \<longleftrightarrow> xs_running x2 \<noteq> []" "xs_aborted x2 = xs_aborted x"
    "xs_state x2 = xs_state x1" "xs_running x2 = xs_running x1" "launched x2 = launched x1"
    "pending_event x1 \<Longrightarrow> pending_event x2"
    using 1 removeSentinel_launches [OF 1(1)] by (auto simp: x2_def)
  have core2: "loop_core [] x2" using 1(2,4) 2 unfolding loop_core_def by auto
  have eq: "afterMerges cfg x = x2\<lparr>xs_loop := LNext\<rparr>"
    by (simp add: afterMerges_def x1_def x2_def Let_def)
  have "launches_inv cfg (x2\<lparr>xs_loop := LNext\<rparr>)"
    using 2(1) by (subst launches_inv_cong(1) [where x = x2]) simp_all
  moreover have "loop_inv cfg (x2\<lparr>xs_loop := LNext\<rparr>)"
    using core2 2(2-5) 1(5)
    by (simp add: loop_inv_def loop_core_def no_ready_def launched_def pending_event_def)
  ultimately show ?thesis unfolding eq exec_inv_def by blast
qed

lemma mergeNext_inv:
  assumes "launches_inv cfg x" and "loop_core ps x" and "idle x" and "xs_sentinel x"
  shows "exec_inv cfg (mergeNext cfg ps x)"
  using assms
proof (induction cfg ps x rule: mergeNext.induct)
  case (1 cfg x)
  then show ?case by (simp add: afterMerges_inv)
next
  case (2 cfg p ps x)
  note prems = "2.prems"
  have pl: "p \<in> launched x" using loop_coreD(4) [OF prems(2), of p] by simp
  show ?case
  proof (cases "xs_aborted x")
    case True
    then show ?thesis using afterMerges_inv [OF prems(1) _ prems(3,4), of "p # ps"] prems(2) by simp
  next
    case na: False
    show ?thesis
    proof (cases "plan_status_of (xs_state x) p = Some PCompleted")
      case False
      have "loop_core ps x"
      proof (rule loop_coreI)
        fix q
        show "plan_status_of (xs_state x) q \<in> {Some PMerged, Some PFailed} \<or> xs_aborted x"
          if "q \<in> launched x" "q \<notin> set (xs_running x)" "q \<notin> set ps"
          using that loop_coreD(3) [OF prems(2), of q] loop_coreD(6) [OF prems(2), of p] False
          by (cases "q = p") auto
        show "pending_event x" if "q \<in> set (xs_running x)"
            "plan_status_of (xs_state x) q \<in> {Some PCompleted, Some PFailed}"
          using loop_coreD(2) [OF prems(2) that] .
        show "q \<in> launched x \<and> plan_status_of (xs_state x) q \<noteq> Some PMerged" if "q \<in> set (xs_running x)"
          using loop_coreD(1,7) [OF prems(2) that] by blast
        assume "q \<in> set ps"
        then have "q \<in> set (p # ps)" by simp
        from loop_coreD(4-6) [OF prems(2) this] show "q \<in> launched x \<and> q \<notin> set (xs_running x) \<and>
            plan_status_of (xs_state x) q \<in> {Some PCompleted, Some PFailed, Some PMerged}" by blast
      qed
      with "2.IH"(1) [OF na] False prems na show ?thesis by simp
    next
      case c: True
      show ?thesis
      proof (cases "shouldSkipMerge p (oc_plans (ec_config cfg)) (xs_failedMerges x)")
        case None
        let ?y = "(yield [PlanMergeStart p] x)\<lparr>xs_loop := (if ec_planGates cfg then LGate p ps else LMerge p ps)\<rparr>"
        have "launches_inv cfg ?y"
          using prems(1) by (subst launches_inv_cong(1) [where x = x]) (simp_all add: yield_def)
        moreover have "loop_inv cfg ?y"
          using prems c unfolding loop_inv_def
          by (simp add: yield_def loop_core_def launched_def pending_event_def idle_def)
        ultimately show ?thesis using na c None by (simp add: exec_inv_def)
      next
        case (Some reason)
        obtain y r where f: "failMerge cfg p reason x = (y, r)" by (cases "failMerge cfg p reason x")
        note fm = failMerge_spec [OF prems(1) pl c f]
        note same = same_but_stateD [OF fm(3)]
        have inv': "launches_inv cfg y"
          by (rule merge_launches_inv [OF prems(1) pl c fm(1) _ fm(3)]) (simp add: fm(2))
        have core': "loop_core ps y"
          by (rule merge_loop_core [OF prems(2) fm(1) _ fm(3)]) (simp add: fm(2))
        have id': "idle y" "xs_sentinel y" using prems(3,4) same by simp_all
        show ?thesis
        proof (cases r)
          case None
          with "2.IH"(2) [OF na _ Some f [symmetric] None inv' core' id'] c na Some f show ?thesis by simp
        next
          case e: (Some e)
          with c na Some f throwLoop_inv [OF inv' id'(2)] show ?thesis by simp
        qed
      qed
    qed
  qed
qed

section \<open>Every event keeps the invariant\<close>

lemma merging_state:
  assumes "exec_inv cfg x" and "xs_loop x = LGate p ps \<or> xs_loop x = LMerge p ps"
  shows "launches_inv cfg x" "loop_core (p # ps) x" "xs_sentinel x" "idle x"
    "plan_status_of (xs_state x) p = Some PCompleted" "p \<in> launched x"
proof -
  from assms show "launches_inv cfg x" "xs_sentinel x" "idle x"
    "plan_status_of (xs_state x) p = Some PCompleted"
    by (auto simp: exec_inv_def loop_inv_def)
  from assms show c: "loop_core (p # ps) x" by (auto simp: exec_inv_def loop_inv_def)
  show "p \<in> launched x" using loop_coreD(4) [OF c, of p] by simp
qed

lemma failMerge_inv:
  assumes "launches_inv cfg x" "loop_core (p # ps) x" "xs_sentinel x" "idle x"
    "plan_status_of (xs_state x) p = Some PCompleted" "p \<in> launched x"
    and f: "failMerge cfg p err x = (y, r)"
  shows "launches_inv cfg y" "loop_core ps y" "xs_sentinel y" "idle y"
    "plan_status_of (xs_state y) p = Some PFailed"
proof -
  note fm = failMerge_spec [OF assms(1,6,5) f]
  note same = same_but_stateD [OF fm(3)]
  show "launches_inv cfg y"
    by (rule merge_launches_inv [OF assms(1,6,5) fm(1) _ fm(3)]) (simp add: fm(2))
  show "loop_core ps y"
    by (rule merge_loop_core [OF assms(2) fm(1) _ fm(3)]) (simp add: fm(2))
  show "xs_sentinel y" "idle y" using assms(3,4) same by simp_all
  show "plan_status_of (xs_state y) p = Some PFailed" by (rule fm(2))
qed

lemma mergeError_inv:
  assumes "exec_inv cfg x" and "xs_loop x = LGate p ps \<or> xs_loop x = LMerge p ps"
  shows "exec_inv cfg (mergeError cfg p ps msg x)"
proof -
  obtain y r where f: "failMerge cfg p (''Merge failed: '' @ msg) x = (y, r)"
    by (cases "failMerge cfg p (''Merge failed: '' @ msg) x")
  note fm = failMerge_inv [OF merging_state [OF assms] f]
  show ?thesis
    using f mergeNext_inv [OF fm(1,2,4,3)] throwLoop_inv [OF fm(1,3)]
    by (cases r) (simp_all add: mergeError_def)
qed

text \<open>A second failure of the same plan can only be thrown.\<close>

lemma mergeError_failed:
  assumes inv: "launches_inv cfg x" and s: "xs_sentinel x"
    and st: "plan_status_of (xs_state x) p = Some PFailed"
  shows "exec_inv cfg (mergeError cfg p ps msg x)"
proof -
  let ?x0 = "x\<lparr>xs_failedMerges := sadd p (xs_failedMerges x)\<rparr>"
  from st obtain plan where plan: "dget (es_plans (xs_state x)) p = Some plan" "ps_status plan = PFailed"
    by (cases "dget (es_plans (xs_state x)) p") auto
  then obtain e where "transitionPlan (xs_state x) p PFailed (Some (''Merge failed: '' @ msg)) = Inl e"
    by (auto simp: transitionPlan_def)
  then have eq: "mergeError cfg p ps msg x = throwLoop e ?x0"
    by (simp add: mergeError_def failMerge_def)
  have "launches_inv cfg ?x0" using inv by (subst launches_inv_cong(1) [where x = x]) simp_all
  then show ?thesis unfolding eq using s by (intro throwLoop_inv) simp_all
qed

lemma onGate_inv:
  assumes inv: "exec_inv cfg x" and l: "xs_loop x = LGate p ps"
  shows "exec_inv cfg (onGate cfg p ps es blockedFor x)"
proof -
  let ?x = "yield es x"
  have inv': "exec_inv cfg ?x" and l': "xs_loop ?x = LGate p ps"
    using inv l launches_inv_cong [of ?x x] unfolding exec_inv_def loop_inv_def loop_core_def no_ready_def
    by (simp_all add: yield_def)
  note ms = merging_state [OF inv' disjI1 [OF l']]
  show ?thesis
  proof (cases blockedFor)
    case None
    have "launches_inv cfg (?x\<lparr>xs_loop := LMerge p ps\<rparr>)"
      using ms(1) by (subst launches_inv_cong(1) [where x = ?x]) simp_all
    moreover have "loop_inv cfg (?x\<lparr>xs_loop := LMerge p ps\<rparr>)"
      using ms unfolding loop_inv_def
      by (simp add: loop_core_def launched_def pending_event_def idle_def)
    ultimately show ?thesis using None by (simp add: onGate_def Let_def exec_inv_def)
  next
    case (Some reason)
    obtain y r where f: "failMerge cfg p (''Policy gate blocked plan merge: '' @ reason) ?x = (y, r)"
      by (cases "failMerge cfg p (''Policy gate blocked plan merge: '' @ reason) ?x")
    note fm = failMerge_inv [OF ms f]
    show ?thesis
      using f Some mergeNext_inv [OF fm(1,2,4,3)] mergeError_failed [OF fm(1,3,5)]
      by (cases r) (simp_all add: onGate_def Let_def)
  qed
qed

lemma set_merged_status:
  "plan_status_of (set_merged p s) q = plan_status_of s q" "deps_of (set_merged p s) q = deps_of s q"
  "es_status (set_merged p s) = es_status s"
  by (auto simp: set_merged_def split: option.splits)

lemma set_merged_advances: "advances L p s s' \<Longrightarrow> advances L p s (set_merged p s')"
  unfolding advances_def set_merged_status .

lemma onMerged_inv:
  assumes inv: "exec_inv cfg x" and l: "xs_loop x = LMerge p ps"
  shows "exec_inv cfg (onMerged cfg p ps sha waived x)"
proof -
  note ms = merging_state [OF inv disjI2 [OF l]]
  obtain s es where t: "transitionPlan (xs_state x) p PMerged None = Inr (s, es)"
    by (rule transitionPlan_possible [OF ms(5), of PMerged None]) auto
  note adv = transitionPlan_advances [OF t]
  define y where "y = yield (es @ [PlanMergeComplete p sha] @
      (if waived then [PlanningProgress (waiver_message cfg p)] else []))
    (x\<lparr>xs_state := set_merged p s, xs_recentlyMerged := xs_recentlyMerged x @ [p]\<rparr>)"
  have y: "xs_state y = set_merged p s" "same_but_state x y"
    by (simp_all add: y_def yield_def same_but_state_def xframe_def)
  note same = same_but_stateD [OF y(2)]
  have a: "advances (launched x) p (xs_state x) (xs_state y)"
    unfolding y(1) by (rule set_merged_advances [OF adv(1)])
  have st: "plan_status_of (xs_state y) p \<in> {Some PFailed, Some PMerged}"
    unfolding y(1) set_merged_status adv(2) by simp
  have "launches_inv cfg y" by (rule merge_launches_inv [OF ms(1,6,5) a st y(2)])
  moreover have "loop_core ps y" by (rule merge_loop_core [OF ms(2) a st y(2)])
  moreover have "idle y" "xs_sentinel y" using ms(3,4) same by simp_all
  ultimately have "exec_inv cfg (mergeNext cfg ps y)" by (rule mergeNext_inv)
  then show ?thesis by (simp add: onMerged_def t y_def)
qed

lemma isReady_cong: "es_plans s' = es_plans s \<Longrightarrow> isReady s' p = isReady s p"
  by (simp only: isReady_def)

lemma promote_plans [simp]: "es_plans (promote s) = es_plans s"
  by (simp add: promote_def)

lemma endLoop_inv:
  assumes "launches_inv cfg x" and "\<not> xs_aborted x \<Longrightarrow> finished cfg x"
  shows "exec_inv cfg (endLoop x)"
proof -
  let ?y = "removeSentinel x"
  have inv: "launches_inv cfg ?y" by (rule removeSentinel_launches(1) [OF assms(1)])
  have "launches_inv cfg (?y\<lparr>xs_loop := LEnded, xs_state := promote (xs_state ?y)\<rparr>)"
    using inv by (subst launches_inv_cong(1) [where x = ?y]) simp_all
  then have "launches_inv cfg (endLoop x)" by (simp add: endLoop_def)
  moreover have "finished cfg (endLoop x) = finished cfg x"
    unfolding finished_def endLoop_def
    by (simp add: launched_def isReady_cong [of "promote (xs_state x)"])
  ultimately show ?thesis using assms(2) by (simp add: exec_inv_def loop_inv_def endLoop_def)
qed

lemma next_state:
  assumes "exec_inv cfg x" and "xs_loop x = LNext"
  shows "launches_inv cfg x" "loop_core [] x" "xs_sentinel x \<longleftrightarrow> xs_running x \<noteq> []"
    "\<not> xs_aborted x \<Longrightarrow> no_ready cfg x"
  using assms by (simp_all add: exec_inv_def loop_inv_def)

lemma onNext_inv:
  assumes inv: "exec_inv cfg x" and l: "xs_loop x = LNext" and i: "xs_inbox x = Some v"
  shows "exec_inv cfg (onNext cfg v (x\<lparr>xs_inbox := None\<rparr>))"
proof -
  let ?x = "x\<lparr>xs_inbox := None\<rparr>"
  note ns = next_state [OF inv l]
  have q: "queue_ok (producers x) x" by (rule launches_invD(5) [OF ns(1)])
  have linv: "launches_inv cfg ?x"
    using ns(1) q i unfolding launches_inv_def queue_ok_def by (auto simp: producers_def launched_def)
  have id: "idle ?x" using q i by (auto simp: idle_def queue_ok_def)
  show ?thesis
  proof (cases v)
    case Finished
    have "producers x \<le> 0" using q i Finished by (simp add: queue_ok_def)
    then have "\<not> xs_sentinel x" "card (dsel not_ended (xs_stages x)) = 0"
      by (simp_all add: producers_def split: if_splits)
    then have "xs_running x = []" "dsel not_ended (xs_stages x) = {}" using ns(3) by simp_all
    then have "finished cfg ?x" if "\<not> xs_aborted x"
      using loop_coreD(3) [OF ns(2)] ns(4) [OF that] that
      unfolding finished_def no_ready_def by (simp add: launched_def)
    with Finished endLoop_inv [OF linv] show ?thesis by (simp add: onNext_def)
  next
    case (Value e)
    define x1 where "x1 = (if stale_completed (xs_state x) e then ?x else yield [e] ?x)"
    have x1: "launches_inv cfg x1" "idle x1" "xs_state x1 = xs_state x" "xs_running x1 = xs_running x"
      "xs_loop x1 = LNext" "xs_aborted x1 = xs_aborted x" "xs_sentinel x1 = xs_sentinel x"
      "launched x1 = launched x"
      using linv id l launches_inv_cong [of "yield [e] ?x" ?x]
      by (auto simp: x1_def yield_def launched_def idle_def)
    define js where "js = just_completed x1"
    define y where "y = x1\<lparr>xs_running := filter (\<lambda>p. p \<notin> set js) (xs_running x1)\<rparr>"
    have js: "q \<in> set js \<longleftrightarrow> q \<in> set (xs_running x) \<and>
        plan_status_of (xs_state x) q \<in> {Some PCompleted, Some PFailed}" for q
      by (simp add: js_def just_completed_def x1)
    have y: "xs_state y = xs_state x" "xs_aborted y = xs_aborted x" "xs_sentinel y = xs_sentinel x"
      "xs_loop y = LNext" "launched y = launched x" "idle y = idle x1"
      "set (xs_running y) = set (xs_running x) - set js"
      using x1 by (auto simp: y_def launched_def idle_def)
    have core: "loop_core js y"
    proof (rule loop_coreI)
      fix q
      show "q \<in> launched y \<and> plan_status_of (xs_state y) q \<noteq> Some PMerged" if "q \<in> set (xs_running y)"
        using that loop_coreD(1,7) [OF ns(2), of q] by (simp add: y)
      show "pending_event y" if "q \<in> set (xs_running y)"
        "plan_status_of (xs_state y) q \<in> {Some PCompleted, Some PFailed}"
        using that js [of q] by (simp add: y)
      show "plan_status_of (xs_state y) q \<in> {Some PMerged, Some PFailed} \<or> xs_aborted y"
        if "q \<in> launched y" "q \<notin> set (xs_running y)" "q \<notin> set js"
        using that loop_coreD(3) [OF ns(2), of q] by (simp add: y)
      show "q \<in> launched y \<and> q \<notin> set (xs_running y) \<and>
          plan_status_of (xs_state y) q \<in> {Some PCompleted, Some PFailed, Some PMerged}" if "q \<in> set js"
        using that js [of q] loop_coreD(1) [OF ns(2), of q] by (auto simp: y)
    qed
    have yinv: "launches_inv cfg y"
      using x1(1) by (subst launches_inv_cong(1) [where x = x1]) (simp_all add: y_def)
    show ?thesis
    proof (cases "xs_aborted x")
      case True
      with Value endLoop_inv [OF linv] show ?thesis by (simp add: onNext_def)
    next
      case na: False
      show ?thesis
      proof (cases "js = []")
        case True
        then have yx: "y = x1" by (simp add: y_def)
        have "loop_core [] x1" using core unfolding yx True .
        moreover have "no_ready cfg x1" using ns(4) [OF na] unfolding no_ready_def x1(3,4) .
        moreover have "xs_sentinel x1 \<longleftrightarrow> xs_running x1 \<noteq> []" using ns(3) by (simp add: x1(4,7))
        ultimately have "loop_inv cfg x1" by (simp add: loop_inv_def x1(5))
        with x1(1) True Value na show ?thesis
          by (simp add: onNext_def Let_def exec_inv_def x1_def [symmetric] js_def [symmetric])
      next
        case False
        then obtain q where "q \<in> set js" by (cases js) auto
        then have "xs_running x \<noteq> []" using js [of q] by auto
        then have s: "xs_sentinel y" using ns(3) y by simp
        have "idle y" using y x1 by simp
        from mergeNext_inv [OF yinv core this s] Value na False show ?thesis
          by (simp add: onNext_def Let_def x1_def [symmetric] js_def [symmetric] y_def)
      qed
    qed
  qed
qed

lemma plan_step_inv:
  assumes inv: "exec_inv cfg x" and p: "dget (xs_stages x) p = Some st" "holds_permit st"
    and mv: "moves (launched x) p (producers x) x y"
    and y: "(z = finallyRelease p y \<and> plan_status_of (xs_state y) p \<in> {Some PFailed, Some PCompleted} \<and>
               pending_event y) \<or>
            (z = y\<lparr>xs_stages := dput p (StBuilding b) (xs_stages y)\<rparr> \<and>
               plan_status_of (xs_state y) p = Some PRunning)"
  shows "exec_inv cfg z"
proof -
  have li: "launches_inv cfg x" and lo: "loop_inv cfg x" using inv by (auto simp: exec_inv_def)
  have pl: "p \<in> launched x" using p(1) by (simp add: launched_iff)
  have fr: "xs_running y = xs_running x" "xs_aborted y = xs_aborted x" "xs_loop y = xs_loop x"
    "xs_sentinel y = xs_sentinel x"
    using mv by (auto simp: moves_def xframe_def)
  have adv: "advances (launched x) p (xs_state x) (xs_state y)"
    and ev: "pending_event x \<Longrightarrow> pending_event y" "idle x \<Longrightarrow> idle y"
    using mv by (auto simp: moves_def)
  have s: "plan_status_of (xs_state x) p \<in> {Some PPending, Some PRunning}"
    using launches_invD(2) [OF li p(1)] p(2) by (cases st) (auto simp: holds_permit_def)
  from y show ?thesis
  proof (elim disjE conjE)
    assume z: "z = finallyRelease p y"
      and f: "plan_status_of (xs_state y) p \<in> {Some PFailed, Some PCompleted}" and pe: "pending_event y"
    note rs = release_step [OF li p mv]
    have zs: "xs_state z = xs_state y" "pending_event z = pending_event y" "idle z = idle y"
      by (simp_all add: z pending_event_def idle_def)
    have "loop_inv cfg z"
    proof (rule loop_inv_plan_step [OF lo pl])
      show "launched z = launched x" unfolding z by (rule rs(2)) (use f in auto)
    qed (use adv fr s f pe ev zs z in auto)
    moreover have "launches_inv cfg z" unfolding z by (rule rs(1)) (use f in auto)
    ultimately show ?thesis by (simp add: exec_inv_def)
  next
    assume z: "z = y\<lparr>xs_stages := dput p (StBuilding b) (xs_stages y)\<rparr>"
      and r: "plan_status_of (xs_state y) p = Some PRunning"
    note bs = building_step [OF li p mv r, of b]
    have zs: "xs_state z = xs_state y" "pending_event z = pending_event y" "idle z = idle y"
      by (simp_all add: z pending_event_def idle_def)
    have "loop_inv cfg z"
    proof (rule loop_inv_plan_step [OF lo pl])
      show "launched z = launched x" unfolding z by (rule bs(2))
    qed (use adv fr s r ev zs z in auto)
    moreover have "launches_inv cfg z" unfolding z by (rule bs(1))
    ultimately show ?thesis by (simp add: exec_inv_def)
  qed
qed

lemma stage_facts:
  assumes inv: "exec_inv cfg x" and p: "dget (xs_stages x) p = Some st" "holds_permit st"
  shows "p \<in> launched x" "queue_ok (producers x) x" "producers x > 0"
    "plans_inv (oc_plans (ec_config cfg)) (launched x) (xs_state x)"
    "st = StAcquiring \<Longrightarrow> plan_status_of (xs_state x) p = Some PPending"
    "st = StBuilding b \<Longrightarrow> plan_status_of (xs_state x) p = Some PRunning"
proof -
  have li: "launches_inv cfg x" using inv by (simp add: exec_inv_def)
  show "p \<in> launched x" using p(1) by (simp add: launched_iff)
  show "queue_ok (producers x) x" "plans_inv (oc_plans (ec_config cfg)) (launched x) (xs_state x)"
    using launches_invD [OF li] by blast+
  show "producers x > 0"
    by (rule producers_pos [OF p(1)]) (use p(2) in \<open>auto simp: holds_permit_def not_ended_def\<close>)
  show "st = StAcquiring \<Longrightarrow> plan_status_of (xs_state x) p = Some PPending"
    "st = StBuilding b \<Longrightarrow> plan_status_of (xs_state x) p = Some PRunning"
    using launches_invD(2) [OF li p(1)] by auto
qed

lemma catchFailure_inv:
  assumes inv: "exec_inv cfg x" and p: "dget (xs_stages x) p = Some st" "holds_permit st"
    and y: "moves (launched x) p (producers x) x y"
      "plan_status_of (xs_state y) p \<in> {Some PPending, Some PRunning}"
  shows "exec_inv cfg (catchFailure cfg p err b y)"
proof -
  note sf = stage_facts [OF inv p]
  have "advances (launched x) p (xs_state x) (xs_state y)" using y(1) by (simp add: moves_def)
  moreover have "plan_status_of (xs_state x) p \<noteq> Some PMerged"
    using p(2) sf(5,6) by (cases st) (auto simp: holds_permit_def)
  ultimately have pi: "plans_inv (oc_plans (ec_config cfg)) (launched x) (xs_state y)"
    by (rule plans_inv_advances [OF sf(4) _ sf(1)]) (use y(2) in auto)
  have q: "queue_ok (producers x) y" using y(1) by (simp add: moves_def)
  have "plan_status_of (xs_state y) p \<in> {Some PPending, Some PRunning, Some PFailed}" using y(2) by auto
  from catchFailure_moves [OF pi sf(1) this q sf(3), of err b]
  obtain w where w: "catchFailure cfg p err b y = finallyRelease p w" "moves (launched x) p (producers x) y w"
    "plan_status_of (xs_state w) p = Some PFailed"
    "plan_status_of (xs_state y) p \<noteq> Some PFailed \<longrightarrow> pending_event w" by blast
  show ?thesis unfolding w(1)
    by (rule plan_step_inv [OF inv p moves_trans [OF y(1) w(2)]]) (use w(3,4) y(2) in auto)
qed

lemma onAcquired_inv:
  assumes inv: "exec_inv cfg x" and p: "dget (xs_stages x) p = Some StAcquiring"
  shows "exec_inv cfg (onAcquired cfg p r x)"
proof -
  have h: "holds_permit StAcquiring" by (simp add: holds_permit_def)
  note sf = stage_facts [OF inv p h]
  show ?thesis
  proof (cases r)
    case (Inl err)
    then show ?thesis
      using catchFailure_inv [OF inv p h moves_refl [OF sf(2)]] sf(5) by (simp add: onAcquired_def)
  next
    case (Inr path)
    let ?x = "x\<lparr>xs_state := set_worktree p path (xs_state x)\<rparr>"
    have ws: "plan_status_of (set_worktree p path s) q = plan_status_of s q"
      "deps_of (set_worktree p path s) q = deps_of s q"
      "es_status (set_worktree p path s) = es_status s" for s q
      by (auto simp: set_worktree_def split: option.splits)
    have m: "moves (launched x) p (producers x) x ?x"
      using sf(2) ws by (simp add: moves_def xframe_def advances_def queue_ok_def pending_event_def idle_def)
    have q: "queue_ok (producers x) ?x" using m by (simp add: moves_def)
    have st: "plan_status_of (xs_state ?x) p = Some PPending" using sf(5) by (simp add: ws)
    obtain y where y: "xtransition p PRunning None ?x = (y, None)" "moves (launched x) p (producers x) ?x y"
      "plan_status_of (xs_state y) p = Some PRunning"
      by (rule xtransition_moves [OF st _ q sf(3), of PRunning None "launched x"]) auto
    have "onAcquired cfg p r x = y\<lparr>xs_stages := dput p (StBuilding None) (xs_stages y)\<rparr>"
      using Inr y(1) by (simp add: onAcquired_def)
    then show ?thesis
      using plan_step_inv [OF inv p h moves_trans [OF m y(2)]] y(3) by blast
  qed
qed

lemma onRunnerEvent_inv:
  assumes inv: "exec_inv cfg x" and p: "dget (xs_stages x) p = Some (StBuilding b)"
  shows "exec_inv cfg (onRunnerEvent p b e x)"
proof -
  have h: "holds_permit (StBuilding b)" by (simp add: holds_permit_def)
  note sf = stage_facts [OF inv p h]
  have m: "moves (launched x) p (producers x) x (xpush e x)"
    using xpush_queue [OF sf(2)] by (simp add: moves_def xpush_idle)
  have comm: "xpush e (x\<lparr>xs_stages := m'\<rparr>) = (xpush e x)\<lparr>xs_stages := m'\<rparr>" for m'
    by (auto simp: xpush_def split: prod.splits option.splits)
  obtain b' where "onRunnerEvent p b e x =
      (xpush e x)\<lparr>xs_stages := dput p (StBuilding b') (xs_stages (xpush e x))\<rparr>"
    by (simp add: onRunnerEvent_def Let_def comm)
  then show ?thesis using plan_step_inv [OF inv p h m] sf(6) by auto
qed

lemma onRunnerEnd_inv:
  assumes inv: "exec_inv cfg x" and p: "dget (xs_stages x) p = Some (StBuilding b)"
  shows "exec_inv cfg (onRunnerEnd cfg p b x)"
proof -
  have h: "holds_permit (StBuilding b)" by (simp add: holds_permit_def)
  note sf = stage_facts [OF inv p h]
  obtain y where y: "onRunnerEnd cfg p b x = finallyRelease p y" "moves (launched x) p (producers x) x y"
    "plan_status_of (xs_state y) p \<in> {Some PFailed, Some PCompleted}" "pending_event y"
    by (rule onRunnerEnd_moves [OF sf(4,1) _ sf(2,3), of b]) (use sf(6) in auto)
  show ?thesis unfolding y(1) by (rule plan_step_inv [OF inv p h y(2)]) (use y(3,4) in auto)
qed

lemma released_inv:
  assumes inv: "exec_inv cfg x" and p: "dget (xs_stages x) p = Some StReleasing"
  shows "exec_inv cfg (xremoveProducer (x\<lparr>xs_stages := dput p StEnded (xs_stages x)\<rparr>))" (is "exec_inv cfg ?z")
proof -
  let ?y = "x\<lparr>xs_stages := dput p StEnded (xs_stages x)\<rparr>"
  have li: "launches_inv cfg x" and lo: "loop_inv cfg x" using inv by (auto simp: exec_inv_def)
  have q: "queue_ok (producers x) ?y" using launches_invD(5) [OF li] by (simp add: queue_ok_def)
  have pe: "pending_event x \<Longrightarrow> pending_event ?z"
    using xremoveProducer_queue(2) [OF q] by (simp add: pending_event_def)
  have id: "idle x \<Longrightarrow> idle ?z"
    by (auto simp: idle_def xremoveProducer_def aq_removeProducer_def Let_def)
  have dom: "launched ?z = launched x"
    using p by (auto simp: launched_def dest: dget_Some_dkeys)
  have core: "loop_core todo x \<Longrightarrow> loop_core todo ?z" for todo
    using pe unfolding loop_core_def dom by simp
  have "p \<in> dsel not_ended (xs_stages x)" using p by (simp add: in_dsel not_ended_def)
  then have "\<not> finished cfg x" unfolding finished_def by blast
  then have "loop_inv cfg ?z"
    using lo core id unfolding loop_inv_def
    by (auto simp: no_ready_def split: loop_state.splits)
  with released_step [OF li p] show ?thesis by (simp add: exec_inv_def)
qed

lemma callNext_inv:
  assumes inv: "exec_inv cfg x" and l: "xs_loop x = LNext" and i: "xs_inbox x = None"
    and w: "\<not> aq_waiting (xs_queue x)" and n: "aq_next (xs_queue x) = (q, r)"
  shows "exec_inv cfg (x\<lparr>xs_queue := q, xs_inbox := r\<rparr>)" (is "exec_inv cfg ?z")
proof -
  have li: "launches_inv cfg x" using inv by (simp add: exec_inv_def)
  note ns = next_state [OF inv l]
  have "queue_ok (producers x) ?z"
    using launches_invD(5) [OF li] n i w
    by (auto simp: queue_ok_def aq_next_def split: list.splits if_splits)
  then have "launches_inv cfg ?z"
    using li unfolding launches_inv_def by (simp add: producers_def launched_def)
  moreover have "pending_event ?z" if "pending_event x"
    using that n i by (auto simp: pending_event_def aq_next_def split: list.splits if_splits)
  then have "loop_core [] ?z" using ns(2) unfolding loop_core_def by (auto simp: launched_def)
  then have "loop_inv cfg ?z"
    using ns l by (simp add: loop_inv_def no_ready_def)
  ultimately show ?thesis by (simp add: exec_inv_def)
qed

lemma abort_inv:
  assumes "exec_inv cfg x"
  shows "exec_inv cfg (x\<lparr>xs_aborted := True\<rparr>)"
proof -
  let ?z = "x\<lparr>xs_aborted := True\<rparr>"
  have "launches_inv cfg ?z" using assms
    by (subst launches_inv_cong(1) [where x = x]) (simp_all add: exec_inv_def)
  moreover have "loop_core todo x \<Longrightarrow> loop_core todo ?z" for todo
    unfolding loop_core_def by (simp add: launched_def pending_event_def)
  then have "loop_inv cfg ?z"
    using assms unfolding exec_inv_def loop_inv_def
    by (auto simp: idle_def split: loop_state.splits)
  ultimately show ?thesis by (simp add: exec_inv_def)
qed

lemma exec_step_inv: "exec_inv cfg x \<Longrightarrow> exec_step cfg x ev = Some x' \<Longrightarrow> exec_inv cfg x'"
proof (cases ev)
  case (Acquired p r)
  assume "exec_inv cfg x" "exec_step cfg x ev = Some x'"
  with Acquired show ?thesis using onAcquired_inv [of cfg x p r]
    by (simp add: exec_step_def split: if_splits)
next
  case (RunnerEvent p e)
  assume "exec_inv cfg x" "exec_step cfg x ev = Some x'"
  with RunnerEvent show ?thesis
    by (auto simp: exec_step_def onRunnerEvent_inv split: option.splits stage.splits)
next
  case (RunnerEnd p)
  assume "exec_inv cfg x" "exec_step cfg x ev = Some x'"
  with RunnerEnd show ?thesis
    by (auto simp: exec_step_def onRunnerEnd_inv split: option.splits stage.splits)
next
  case (RunnerThrow p err)
  assume a: "exec_inv cfg x" "exec_step cfg x ev = Some x'"
  with RunnerThrow obtain b where b: "dget (xs_stages x) p = Some (StBuilding b)"
    and x': "x' = catchFailure cfg p err b x"
    by (auto simp: exec_step_def split: option.splits stage.splits)
  have h: "holds_permit (StBuilding b)" by (simp add: holds_permit_def)
  note sf = stage_facts [OF a(1) b h]
  show ?thesis unfolding x'
    by (rule catchFailure_inv [OF a(1) b h moves_refl [OF sf(2)]]) (use sf(6) in auto)
next
  case (Released p)
  assume "exec_inv cfg x" "exec_step cfg x ev = Some x'"
  with Released show ?thesis using released_inv [of cfg x p]
    by (simp add: exec_step_def split: if_splits)
next
  case CallNext
  assume "exec_inv cfg x" "exec_step cfg x ev = Some x'"
  with CallNext show ?thesis
    by (auto simp: exec_step_def callNext_inv split: if_splits prod.splits)
next
  case HandleNext
  assume "exec_inv cfg x" "exec_step cfg x ev = Some x'"
  with HandleNext show ?thesis
    by (auto simp: exec_step_def onNext_inv split: option.splits if_splits)
next
  case (GateAnswer es r)
  assume "exec_inv cfg x" "exec_step cfg x ev = Some x'"
  with GateAnswer show ?thesis
    by (auto simp: exec_step_def onGate_inv split: loop_state.splits)
next
  case (MergeAnswer sha w)
  assume "exec_inv cfg x" "exec_step cfg x ev = Some x'"
  with MergeAnswer show ?thesis
    by (auto simp: exec_step_def onMerged_inv split: loop_state.splits)
next
  case (MergeThrow msg)
  assume "exec_inv cfg x" "exec_step cfg x ev = Some x'"
  with MergeThrow show ?thesis
    by (auto simp: exec_step_def mergeError_inv split: loop_state.splits)
next
  case AbortSignal
  assume "exec_inv cfg x" "exec_step cfg x ev = Some x'"
  with AbortSignal show ?thesis by (auto simp: exec_step_def abort_inv)
qed

interpretation exec: machine "exec_step cfg" "exec_inv cfg" for cfg
  by unfold_locales (rule exec_step_inv)

section \<open>The start\<close>

text \<open>A semaphore was built, no plan is running yet, and what is already merged has merged dependencies.\<close>

definition start_ok :: "exec_cfg \<Rightarrow> eforge_state \<Rightarrow> plan_id semaphore \<Rightarrow> bool" where
  "start_ok cfg s sem \<longleftrightarrow>
     sem_new (ec_parallelism cfg) = Inr sem \<and>
     plans_inv (oc_plans (ec_config cfg)) {} s \<and>
     (\<forall>p. plan_status_of s p \<notin> {Some PRunning, Some PCompleted, Some PFailed})"

text \<open>Registering the sentinel commutes with launching.\<close>

definition addSentinel :: "exec_state \<Rightarrow> exec_state" where
  "addSentinel x = x\<lparr>xs_queue := aq_addProducer (xs_queue x), xs_sentinel := True\<rparr>"

lemma addSentinel_start:
  assumes "\<not> aq_done (xs_queue x)" and "\<not> aq_waiting (xs_queue x)"
  shows "startReadyPlans reason ps (addSentinel x) = addSentinel (startReadyPlans reason ps x)"
  using assms
proof (induction reason ps x rule: startReadyPlans.induct)
  case (1 reason x)
  then show ?case by simp
next
  case (2 reason p ps x)
  let ?x = "xpush (PlanScheduleReady p reason) x"
  have push: "xpush (PlanScheduleReady p reason) (addSentinel x) = addSentinel ?x"
    "\<not> aq_done (xs_queue ?x)" "\<not> aq_waiting (xs_queue ?x)"
    using "2.prems" by (simp_all add: addSentinel_def xpush_def aq_push_def aq_addProducer_def)
  have launch: "launchPlan p (addSentinel ?x) = addSentinel (launchPlan p ?x)"
    by (simp add: launchPlan_def addSentinel_def split: prod.splits)
  have q: "\<not> aq_done (xs_queue (launchPlan p ?x))" "\<not> aq_waiting (xs_queue (launchPlan p ?x))"
    using push(2,3) by (simp_all add: launchPlan_simps aq_addProducer_def)
  have eq: "xs_running (addSentinel x) = xs_running x" "xs_state (addSentinel x) = xs_state x"
    by (simp_all add: addSentinel_def)
  show ?case
  proof (cases "p \<in> set (xs_running x) \<or> \<not> isReady (xs_state x) p")
    case True
    with "2.IH"(1) [OF True "2.prems"] show ?thesis by (simp add: eq)
  next
    case False
    with "2.IH"(2) [OF False q] show ?thesis by (simp add: eq push(1) launch)
  qed
qed

lemma exec_start_inv:
  assumes "start_ok cfg s sem"
  shows "exec_inv cfg (exec_start cfg s sem)"
proof -
  define x0 where "x0 = \<lparr>xs_state = s, xs_running = [], xs_sem = sem, xs_queue = aq_new, xs_inbox = None,
      xs_stages = [], xs_rejected = [], xs_failedMerges = [], xs_recentlyMerged = [],
      xs_sentinel = False, xs_loop = LNext,
      xs_yielded = [ScheduleStart (all_ids cfg)], xs_aborted = False\<rparr>"
  define x1 where "x1 = startReadyPlans ''no dependencies'' (all_ids cfg) (addSentinel x0)"
  have x1: "x1 = addSentinel (startReadyPlans ''no dependencies'' (all_ids cfg) x0)"
    unfolding x1_def by (rule addSentinel_start) (simp_all add: x0_def aq_new_def)
  have eq: "exec_start cfg s sem = (if xs_running x1 = [] then removeSentinel x1 else x1)"
    unfolding exec_start_def Let_def x0_def [symmetric] x1 addSentinel_def by simp
  have sem: "permits_ok (ec_parallelism cfg) sem []"
    using assms by (auto simp: start_ok_def sem_new_def permits_ok_def split: if_splits)
  have inv0: "launches_inv cfg (addSentinel x0)"
    using assms sem unfolding start_ok_def launches_inv_def
    by (simp add: addSentinel_def x0_def launched_def producers_def queue_ok_def aq_addProducer_def aq_new_def)
  have core0: "loop_core [] (addSentinel x0)"
    by (simp add: loop_core_def addSentinel_def x0_def launched_def)
  have id0: "idle (addSentinel x0)"
    by (simp add: idle_def addSentinel_def x0_def aq_addProducer_def aq_new_def)
  have na: "\<not> xs_aborted (addSentinel x0)" by (simp add: addSentinel_def x0_def)
  note st = startReadyPlans_inv [OF inv0 core0 id0 na, of "''no dependencies''" "all_ids cfg",
      folded x1_def]
  have s1: "xs_sentinel x1" using st by (simp add: addSentinel_def)
  have l1: "xs_loop x1 = LNext"
  proof -
    have "xs_loop (startReadyPlans r ps x) = xs_loop x" for r ps x
      by (induction r ps x rule: startReadyPlans.induct) (simp_all add: launchPlan_simps)
    then show ?thesis by (simp add: x1_def addSentinel_def x0_def)
  qed
  define x2 where "x2 = (if xs_running x1 = [] then removeSentinel x1 else x1)"
  have x2: "launches_inv cfg x2" "xs_sentinel x2 \<longleftrightarrow> xs_running x2 \<noteq> []" "xs_loop x2 = LNext"
    "xs_state x2 = xs_state x1" "xs_running x2 = xs_running x1" "launched x2 = launched x1"
    "pending_event x1 \<Longrightarrow> pending_event x2" "xs_aborted x2 = xs_aborted x1"
    using st s1 l1 removeSentinel_launches [of cfg x1] by (auto simp: x2_def)
  have "loop_core [] x2" using st x2 unfolding loop_core_def by auto
  moreover have "no_ready cfg x2" using st unfolding no_ready_def x2 by simp
  ultimately have "loop_inv cfg x2" using x2(2,3) by (simp add: loop_inv_def)
  with x2(1) show ?thesis unfolding eq x2_def [symmetric] exec_inv_def by blast
qed

text \<open>The states the orchestrator starts from: fresh, or resumed with a seed closed under dependencies.\<close>

lemma resumed_start_ok:
  assumes ids: "distinct (map pe_id (oc_plans (ec_config cfg)))"
    and closed: "\<And>e d. e \<in> set (oc_plans (ec_config cfg)) \<Longrightarrow> pe_id e \<in> set seed \<Longrightarrow>
      d \<in> set (pe_dependsOn e) \<Longrightarrow> d \<in> set seed \<and> d \<in> set (map pe_id (oc_plans (ec_config cfg)))"
    and sem: "sem_new (ec_parallelism cfg) = Inr sem"
  shows "start_ok cfg (applyResumeSeed (initializeState (ec_config cfg) wb) seed) sem"
proof -
  let ?plans = "oc_plans (ec_config cfg)"
  let ?s = "applyResumeSeed (initializeState (ec_config cfg) wb) seed"
  have find: "List.find (\<lambda>p. pe_id p = pe_id e) (rev ?plans) = Some e" if e: "e \<in> set ?plans" for e
  proof -
    obtain e' where e': "List.find (\<lambda>p. pe_id p = pe_id e) (rev ?plans) = Some e'"
      using e find_None_iff' [of "\<lambda>p. pe_id p = pe_id e" "rev ?plans"]
      by (cases "List.find (\<lambda>p. pe_id p = pe_id e) (rev ?plans)") auto
    from find_SomeD [OF e'] e ids have "e' = e" by (auto simp: distinct_map inj_on_def)
    with e' show ?thesis by simp
  qed
  have st: "plan_status_of ?s (pe_id e) = Some (if pe_id e \<in> set seed then PMerged else PPending)"
    "deps_of ?s (pe_id e) = Some (pe_dependsOn e)" if "e \<in> set ?plans" for e
    using find [OF that] by (simp_all add: applyResumeSeed_plans initializeState_plans plan_state_of_def)
  have known: "\<exists>e \<in> set ?plans. q = pe_id e" if "plan_status_of ?s q \<noteq> None" for q
  proof -
    have "dget (es_plans (initializeState (ec_config cfg) wb)) q \<noteq> None"
    proof
      assume "dget (es_plans (initializeState (ec_config cfg) wb)) q = None"
      then have "dget (es_plans ?s) q = None" by (simp add: applyResumeSeed_plans)
      with that show False by simp
    qed
    then obtain e where "List.find (\<lambda>p. pe_id p = q) (rev ?plans) = Some e"
      by (auto simp: initializeState_plans map_option_eq_Some)
    from find_SomeD [OF this] show ?thesis by auto
  qed
  have "plan_status_of ?s d = Some PMerged"
    if q: "deps_of ?s q = Some ds" "plan_status_of ?s q \<notin> {Some PPending, Some PBlocked}" "d \<in> set ds"
    for q ds d
  proof -
    have "plan_status_of ?s q \<noteq> None" using q(1) by (cases "dget (es_plans ?s) q") auto
    from known [OF this] obtain e where e: "e \<in> set ?plans" "q = pe_id e" by blast
    with q st [OF e(1)] have "pe_id e \<in> set seed" "ds = pe_dependsOn e" by (auto split: if_splits)
    from closed [OF e(1) this(1)] q(3) this(2) have "d \<in> set seed" "d \<in> set (map pe_id ?plans)" by auto
    then show ?thesis using st(1) by auto
  qed
  moreover have "plan_status_of ?s q \<notin> {Some PRunning, Some PCompleted, Some PFailed}" for q
  proof
    assume r: "plan_status_of ?s q \<in> {Some PRunning, Some PCompleted, Some PFailed}"
    then have "plan_status_of ?s q \<noteq> None" by auto
    from known [OF this] obtain e where "e \<in> set ?plans" "q = pe_id e" by blast
    with st(1) r show False by (auto split: if_splits)
  qed
  ultimately show ?thesis using st(2) sem unfolding start_ok_def plans_inv_def by blast
qed

section \<open>The status of the run\<close>

lemma transitionPlan_es: "transitionPlan s p to err = Inr (s', es) \<Longrightarrow> es_status s' = es_status s"
  using transitionPlan_advances(1) [of s p to err s' es UNIV] by (auto dest: advancesD(2))

lemma propagateFailure_es: "propagateFailure s f plans = (s', r) \<Longrightarrow> es_status s' = es_status s"
  using propagateFailure_spec [of s f plans s' r]
  by (auto simp: blocks_exactly_def split: sum.splits)

definition run_status_kept :: "exec_state \<Rightarrow> exec_state \<Rightarrow> bool" where
  "run_status_kept x y \<longleftrightarrow>
     es_status (xs_state y) = es_status (xs_state x) \<and> xs_aborted y = xs_aborted x"

lemma run_status_keptI [simp]:
  "xs_state y = xs_state x \<Longrightarrow> xs_aborted y = xs_aborted x \<Longrightarrow> run_status_kept x y"
  by (simp add: run_status_kept_def)

lemma run_status_kept_trans: "run_status_kept x y \<Longrightarrow> run_status_kept y z \<Longrightarrow> run_status_kept x z"
  by (simp add: run_status_kept_def)

lemma xtransition_kept: "xtransition p to err x = (y, r) \<Longrightarrow> run_status_kept x y \<and> xs_loop y = xs_loop x"
  using xframe_eqD(5,6) [OF xpush_all_frame(1)]
  by (auto simp: xtransition_def run_status_kept_def dest: transitionPlan_es split: sum.splits)

lemma xpropagate_kept: "xpropagate cfg p x = (y, r) \<Longrightarrow> run_status_kept x y \<and> xs_loop y = xs_loop x"
  using xframe_eqD(5,6) [OF xpush_all_frame(1)]
  by (auto simp: xpropagate_def run_status_kept_def dest: propagateFailure_es split: prod.splits sum.splits)

lemma andthen_kept:
  assumes "\<And>x y r. f x = (y, r) \<Longrightarrow> run_status_kept x y \<and> xs_loop y = xs_loop x"
    and "\<And>x y r. g x = (y, r) \<Longrightarrow> run_status_kept x y \<and> xs_loop y = xs_loop x"
    and "andthen f g x = (y, r)"
  shows "run_status_kept x y \<and> xs_loop y = xs_loop x"
  using assms(3) assms(1) [of x] assms(2)
  by (auto simp: andthen_def split: prod.splits option.splits intro: run_status_kept_trans) 

lemma catch_body_kept: "catch_body cfg p f x = (y, r) \<Longrightarrow> run_status_kept x y \<and> xs_loop y = xs_loop x"
  unfolding catch_body_def
  by (erule andthen_kept [rotated 2], simp split: if_splits add: stop_def xtransition_kept,
      erule andthen_kept [rotated 2], simp split: if_splits add: stop_def xtransition_kept,
      rule xpropagate_kept)

lemma finallyRelease_kept: "run_status_kept x (finallyRelease p y) = run_status_kept x y"
  by (simp add: run_status_kept_def)

lemma catchFailure_kept:
  "run_status_kept x (catchFailure cfg p err b x) \<and> xs_loop (catchFailure cfg p err b x) = xs_loop x"
proof -
  define x1 where "x1 = (case b of None \<Rightarrow> xpush (PlanBuildFailed p err None) x | Some _ \<Rightarrow> x)"
  define f where "f = (case b of None \<Rightarrow> err | Some e \<Rightarrow> e)"
  have 1: "run_status_kept x x1" "xs_loop x1 = xs_loop x"
    by (simp_all add: x1_def split: option.splits)
  obtain x2 r where c: "catch_body cfg p f x1 = (x2, r)" by (cases "catch_body cfg p f x1")
  have "\<exists>rej. catchFailure cfg p err b x = finallyRelease p (x2\<lparr>xs_rejected := rej\<rparr>)"
  proof (cases r)
    case None
    have "x2 = x2\<lparr>xs_rejected := xs_rejected x2\<rparr>" by simp
    with None c show ?thesis
      by (intro exI [of _ "xs_rejected x2"]) (simp add: catchFailure_def x1_def f_def split: option.splits)
  next
    case (Some e)
    with c show ?thesis
      by (intro exI [of _ "xs_rejected x2 @ [p]"])
         (simp add: catchFailure_def x1_def f_def split: option.splits)
  qed
  with catch_body_kept [OF c] 1 show ?thesis by (auto simp: run_status_kept_def)
qed

lemma onRunnerEnd_kept:
  "run_status_kept x (onRunnerEnd cfg p b x) \<and> xs_loop (onRunnerEnd cfg p b x) = xs_loop x"
proof -
  define res where "res = (case b of Some err \<Rightarrow> andthen (xtransition p PFailed (Some err)) (xpropagate cfg p) x
      | None \<Rightarrow> xtransition p PCompleted None x)"
  obtain y r where y: "res = (y, r)" by (cases res)
  have "run_status_kept x y \<and> xs_loop y = xs_loop x"
  proof (cases b)
    case None
    with y show ?thesis by (simp add: res_def xtransition_kept)
  next
    case (Some err)
    with y have "andthen (xtransition p PFailed (Some err)) (xpropagate cfg p) x = (y, r)"
      by (simp add: res_def)
    then show ?thesis by (rule andthen_kept [rotated 2]) (erule xtransition_kept, erule xpropagate_kept)
  qed
  with y catchFailure_kept [of y cfg p] show ?thesis
    by (cases r) (auto simp: onRunnerEnd_def res_def [symmetric] run_status_kept_def)
qed

lemma onAcquired_kept:
  "run_status_kept x (onAcquired cfg p a x) \<and> xs_loop (onAcquired cfg p a x) = xs_loop x"
proof (cases a)
  case (Inl err)
  with catchFailure_kept [of x cfg p err None] show ?thesis by (simp add: onAcquired_def)
next
  case (Inr path)
  let ?x = "x\<lparr>xs_state := set_worktree p path (xs_state x)\<rparr>"
  have 1: "run_status_kept x ?x" by (simp add: run_status_kept_def set_worktree_def split: option.splits)
  obtain y r where y: "xtransition p PRunning None ?x = (y, r)" by (cases "xtransition p PRunning None ?x")
  from xtransition_kept [OF y] 1 have 2: "run_status_kept x y" "xs_loop y = xs_loop x"
    by (auto intro: run_status_kept_trans)
  with Inr y catchFailure_kept [of y cfg p] show ?thesis
    by (cases r) (auto simp: onAcquired_def run_status_kept_def)
qed

lemma failMerge_kept: "failMerge cfg p err x = (y, r) \<Longrightarrow> run_status_kept x y"
  by (auto simp: failMerge_def Let_def yield_def run_status_kept_def
      dest!: transitionPlan_es propagateFailure_es split: sum.splits prod.splits)

lemma startReadyPlans_kept:
  "xs_state (startReadyPlans reason ps x) = xs_state x \<and>
   xs_aborted (startReadyPlans reason ps x) = xs_aborted x"
  by (induction reason ps x rule: startReadyPlans.induct) (simp_all add: launchPlan_simps)

lemma afterMerges_kept:
  "xs_state (afterMerges cfg x) = xs_state x \<and> xs_aborted (afterMerges cfg x) = xs_aborted x \<and>
   xs_loop (afterMerges cfg x) = LNext"
  by (simp add: afterMerges_def Let_def startReadyPlans_kept)

lemma mergeNext_kept:
  "run_status_kept x (mergeNext cfg ps x) \<and> xs_loop (mergeNext cfg ps x) \<noteq> LEnded"
proof (induction cfg ps x rule: mergeNext.induct)
  case (1 cfg x)
  then show ?case by (simp add: afterMerges_kept)
next
  case (2 cfg p ps x)
  show ?case
  proof (cases "xs_aborted x \<or> plan_status_of (xs_state x) p \<noteq> Some PCompleted")
    case True
    then show ?thesis using "2.IH"(1) by (cases "xs_aborted x") (simp_all add: afterMerges_kept)
  next
    case c: False
    show ?thesis
    proof (cases "shouldSkipMerge p (oc_plans (ec_config cfg)) (xs_failedMerges x)")
      case None
      with c show ?thesis by (simp add: yield_def)
    next
      case (Some reason)
      obtain y r where f: "failMerge cfg p reason x = (y, r)" by (cases "failMerge cfg p reason x")
      note k = failMerge_kept [OF f]
      show ?thesis
      proof (cases r)
        case None
        from "2.IH"(2) [OF _ _ Some f [symmetric] None] c
        have "run_status_kept y (mergeNext cfg ps y) \<and> xs_loop (mergeNext cfg ps y) \<noteq> LEnded" by simp
        with c None Some f k show ?thesis by (auto intro: run_status_kept_trans)
      next
        case (Some e)
        with c \<open>shouldSkipMerge p _ _ = Some reason\<close> f k show ?thesis
          by (simp add: throwLoop_def run_status_kept_def)
      qed
    qed
  qed
qed

lemma mergeError_kept:
  "run_status_kept x (mergeError cfg p ps msg x) \<and> xs_loop (mergeError cfg p ps msg x) \<noteq> LEnded"
proof -
  obtain y r where f: "failMerge cfg p (''Merge failed: '' @ msg) x = (y, r)"
    by (cases "failMerge cfg p (''Merge failed: '' @ msg) x")
  with failMerge_kept [OF f] mergeNext_kept [of y cfg ps] show ?thesis
    by (cases r) (auto simp: mergeError_def throwLoop_def run_status_kept_def)
qed

lemma onGate_kept:
  "run_status_kept x (onGate cfg p ps es b x) \<and> xs_loop (onGate cfg p ps es b x) \<noteq> LEnded"
proof (cases b)
  case None
  then show ?thesis by (simp add: onGate_def yield_def)
next
  case (Some reason)
  let ?f = "failMerge cfg p (''Policy gate blocked plan merge: '' @ reason) (yield es x)"
  obtain y r where f: "?f = (y, r)" by (cases ?f)
  have 1: "run_status_kept x y" using failMerge_kept [OF f] by (simp add: run_status_kept_def yield_def)
  show ?thesis
    using Some f 1 mergeNext_kept [of y cfg ps] mergeError_kept [of y cfg p ps]
    by (cases r) (auto simp: onGate_def run_status_kept_def)
qed

lemma onMerged_kept:
  "run_status_kept x (onMerged cfg p ps sha w x) \<and> xs_loop (onMerged cfg p ps sha w x) \<noteq> LEnded"
proof (cases "transitionPlan (xs_state x) p PMerged None")
  case (Inl e)
  with mergeError_kept show ?thesis by (simp add: onMerged_def)
next
  case (Inr a)
  obtain s es where a: "a = (s, es)" by (cases a)
  define y where "y = yield (es @ [PlanMergeComplete p sha] @
      (if w then [PlanningProgress (waiver_message cfg p)] else []))
    (x\<lparr>xs_state := set_merged p s, xs_recentlyMerged := xs_recentlyMerged x @ [p]\<rparr>)"
  have "run_status_kept x y"
    using transitionPlan_es [of "xs_state x" p PMerged None s es] Inr a
    by (simp add: y_def yield_def run_status_kept_def set_merged_status)
  with mergeNext_kept [of y cfg ps] Inr a show ?thesis
    by (auto simp: onMerged_def y_def intro: run_status_kept_trans)
qed

text \<open>Only the end of the loop touches the run's status.\<close>

lemma exec_step_status:
  assumes "exec_step cfg x ev = Some y"
  shows "es_status (xs_state y) = es_status (xs_state x) \<and> (xs_aborted x \<longrightarrow> xs_aborted y) \<and>
           (xs_loop y = LEnded \<longrightarrow> xs_loop x = LEnded) \<or>
         (xs_loop x = LNext \<and> xs_loop y = LEnded \<and> (\<exists>s. es_status s = es_status (xs_state x) \<and> xs_state y = promote s))"
proof (cases ev)
  case HandleNext
  with assms obtain v where v: "xs_inbox x = Some v" "xs_loop x = LNext"
    "y = onNext cfg v (x\<lparr>xs_inbox := None\<rparr>)"
    by (auto simp: exec_step_def run_status_kept_def split: option.splits if_splits)
  show ?thesis
  proof (cases "v = Finished \<or> xs_aborted x")
    case True
    then have "y = endLoop (x\<lparr>xs_inbox := None\<rparr>)" using v(3) by (cases v) (auto simp: onNext_def)
    with v(2) show ?thesis by (auto simp: endLoop_def)
  next
    case False
    then obtain e where e: "v = Value e" "\<not> xs_aborted x" by (cases v) auto
    define x1 where "x1 = (if stale_completed (xs_state x) e then x\<lparr>xs_inbox := None\<rparr>
        else yield [e] (x\<lparr>xs_inbox := None\<rparr>))"
    define x2 where "x2 = x1\<lparr>xs_running := filter (\<lambda>p. p \<notin> set (just_completed x1)) (xs_running x1)\<rparr>"
    have k: "run_status_kept x x1" "run_status_kept x x2" "xs_loop x1 = LNext"
      using v(2) by (simp_all add: x1_def x2_def yield_def run_status_kept_def)
    have "y = (if just_completed x1 = [] then x1 else mergeNext cfg (just_completed x1) x2)"
      using v(3) e by (simp add: onNext_def x1_def x2_def Let_def)
    then show ?thesis
      using k mergeNext_kept [of x2 cfg "just_completed x1"] by (auto simp: run_status_kept_def)
  qed
next
  case (Acquired p r)
  with assms onAcquired_kept [of x cfg p r] show ?thesis by (auto simp: exec_step_def run_status_kept_def split: if_splits)
next
  case (RunnerEvent p e)
  with assms show ?thesis
    by (auto simp: exec_step_def onRunnerEvent_def Let_def split: option.splits stage.splits)
next
  case (RunnerEnd p)
  with assms onRunnerEnd_kept [of x cfg p] show ?thesis
    by (auto simp: exec_step_def run_status_kept_def split: option.splits stage.splits)
next
  case (RunnerThrow p err)
  with assms catchFailure_kept [of x cfg p err] show ?thesis
    by (auto simp: exec_step_def run_status_kept_def split: option.splits stage.splits)
next
  case (Released p)
  with assms show ?thesis by (auto simp: exec_step_def run_status_kept_def split: if_splits)
next
  case CallNext
  with assms show ?thesis by (auto simp: exec_step_def run_status_kept_def split: if_splits prod.splits)
next
  case (GateAnswer es r)
  with assms onGate_kept [of x cfg] show ?thesis
    by (auto simp: exec_step_def run_status_kept_def split: loop_state.splits)
next
  case (MergeAnswer sha w)
  with assms onMerged_kept [of x cfg] show ?thesis
    by (auto simp: exec_step_def run_status_kept_def split: loop_state.splits)
next
  case (MergeThrow msg)
  with assms mergeError_kept [of x cfg] show ?thesis
    by (auto simp: exec_step_def run_status_kept_def split: loop_state.splits)
next
  case AbortSignal
  with assms show ?thesis by (auto simp: exec_step_def run_status_kept_def)
qed

text \<open>The second invariant of the machine: what the run's status means.\<close>

definition status_inv :: "exec_cfg \<Rightarrow> exec_state \<Rightarrow> bool" where
  "status_inv cfg x \<longleftrightarrow>
     exec_inv cfg x \<and>
     (xs_loop x \<noteq> LEnded \<longrightarrow> es_status (xs_state x) \<noteq> RunFailed) \<and>
     (xs_loop x = LEnded \<and> \<not> xs_aborted x \<longrightarrow>
        (es_status (xs_state x) = RunFailed \<longleftrightarrow> any_terminal_failure (xs_state x)))"

lemma ended_steps:
  assumes inv: "exec_inv cfg x" and l: "xs_loop x = LEnded" and na: "\<not> xs_aborted x"
    and st: "exec_step cfg x ev = Some y"
  shows "xs_aborted y"
proof -
  have "finished cfg x" using inv l na by (simp add: exec_inv_def loop_inv_def)
  then have none: "dget (xs_stages x) p = Some stg \<Longrightarrow> stg = StEnded" for p stg
    unfolding finished_def dsel_def not_ended_def by blast
  from st l none show ?thesis
    by (cases ev) (auto simp: exec_step_def split: if_splits option.splits stage.splits)
qed

lemma exec_step_loop_ended:
  assumes "exec_step cfg x ev = Some y" and "xs_loop x = LEnded"
  shows "xs_loop y = LEnded"
proof (cases ev)
  case (Acquired p r)
  with assms onAcquired_kept [of x cfg p r] show ?thesis by (auto simp: exec_step_def split: if_splits)
next
  case (RunnerEvent p e)
  with assms show ?thesis
    by (auto simp: exec_step_def onRunnerEvent_def Let_def split: option.splits stage.splits)
next
  case (RunnerEnd p)
  with assms onRunnerEnd_kept [of x cfg p] show ?thesis
    by (auto simp: exec_step_def split: option.splits stage.splits)
next
  case (RunnerThrow p err)
  with assms catchFailure_kept [of x cfg p err] show ?thesis
    by (auto simp: exec_step_def split: option.splits stage.splits)
qed (use assms in \<open>auto simp: exec_step_def split: if_splits option.splits\<close>)

lemma status_inv_step:
  assumes inv: "status_inv cfg x" and st: "exec_step cfg x ev = Some y"
  shows "status_inv cfg y"
proof -
  have ei: "exec_inv cfg x" using inv by (simp add: status_inv_def)
  have ey: "exec_inv cfg y" using ei st by (rule exec_step_inv)
  from exec_step_status [OF st] show ?thesis
  proof (elim disjE conjE exE)
    assume k: "es_status (xs_state y) = es_status (xs_state x)" "xs_aborted x \<longrightarrow> xs_aborted y"
      "xs_loop y = LEnded \<longrightarrow> xs_loop x = LEnded"
    show ?thesis
    proof (cases "xs_loop y = LEnded")
      case True
      then have "xs_aborted y" using k ended_steps [OF ei _ _ st] by blast
      with ey True show ?thesis by (simp add: status_inv_def)
    next
      case False
      show ?thesis
      proof (cases "xs_loop x = LEnded")
        case l: True
        with exec_step_loop_ended [OF st l] False show ?thesis by simp
      next
        case l: False
        with inv k ey False show ?thesis by (simp add: status_inv_def)
      qed
    qed
  next
    fix s
    assume a: "xs_loop x = LNext" "xs_loop y = LEnded" "es_status s = es_status (xs_state x)"
      "xs_state y = promote s"
    have "es_status s \<noteq> RunFailed" using inv a by (simp add: status_inv_def)
    moreover have "any_terminal_failure (promote s) = any_terminal_failure s"
      by (simp add: any_terminal_failure_def)
    ultimately show ?thesis using ey a by (simp add: status_inv_def promote_def)
  qed
qed

interpretation exec_status: machine "exec_step cfg" "status_inv cfg" for cfg
  by unfold_locales (rule status_inv_step)

section \<open>Properties\<close>

lemma reachable_inv:
  assumes "start_ok cfg s sem" and "exec.run cfg (exec_start cfg s sem) evs = Some x"
  shows "exec_inv cfg x"
  using exec.run_inv [OF exec_start_inv [OF assms(1)] assms(2)] .

lemma exec_start_status:
  assumes "es_status s \<noteq> RunFailed"
  shows "xs_loop (exec_start cfg s sem) = LNext \<and> es_status (xs_state (exec_start cfg s sem)) \<noteq> RunFailed"
proof -
  have "xs_loop (startReadyPlans r ps x) = xs_loop x" for r ps x
    by (induction r ps x rule: startReadyPlans.induct) (simp_all add: launchPlan_simps)
  with assms show ?thesis by (simp add: exec_start_def Let_def startReadyPlans_kept)
qed

lemma reachable_status:
  assumes "start_ok cfg s sem" and "es_status s \<noteq> RunFailed"
    and "exec.run cfg (exec_start cfg s sem) evs = Some x"
  shows "status_inv cfg x"
proof (rule exec_status.run_inv [OF _ assms(3)])
  show "status_inv cfg (exec_start cfg s sem)"
    using exec_start_inv [OF assms(1)] exec_start_status [OF assms(2), of cfg sem]
    by (simp add: status_inv_def)
qed

text \<open>A run over two plans, one after the other, used by the witnesses.\<close>

definition demo_exec :: exec_cfg where
  "demo_exec = \<lparr>ec_config = demo_config, ec_parallelism = 1, ec_planGates = False,
     ec_noCommittedChangesReason = None\<rparr>"

definition demo_sem :: "plan_id semaphore" where
  "demo_sem = \<lparr>sem_permits = 1, sem_waitQueue = []\<rparr>"

definition demo_start :: exec_state where
  "demo_start = exec_start demo_exec (applyResumeSeed (initializeState demo_config ''w'') []) demo_sem"

lemma demo_start_ok:
  "start_ok demo_exec (applyResumeSeed (initializeState demo_config ''w'') []) demo_sem"
proof -
  have "start_ok demo_exec (applyResumeSeed (initializeState (ec_config demo_exec) ''w'') []) demo_sem"
    by (rule resumed_start_ok)
       (simp_all add: demo_exec_def demo_config_def demo_plan_def sem_new_def demo_sem_def)
  then show ?thesis by (simp add: demo_exec_def)
qed

definition demo_events :: "exec_event list" where
  "demo_events = [Acquired ''a'' (Inr ''x''), RunnerEnd ''a'', CallNext, HandleNext, MergeAnswer ''c1'' False,
     Released ''a'', Acquired ''b'' (Inr ''y'')]"

lemma demo_run:
  "\<exists>x. exec.run demo_exec demo_start demo_events = Some x \<and>
     plan_status_of (xs_state x) ''b'' = Some PRunning \<and>
     deps_of (xs_state x) ''b'' = Some [''a''] \<and> xs_loop x = LNext"
  unfolding demo_start_def demo_events_def
  by (simp add: demo_exec_def demo_config_def demo_plan_def demo_sem_def exec_start_def
      initializeState_def plan_state_of_def all_ids_def isReady_def launchPlan_def xpush_def aq_push_def aq_new_def
      aq_addProducer_def sem_acquire_def exec_step_def onAcquired_def set_worktree_def
      xtransition_def transitionPlan_def set_plan_status_def xpush_all_def onRunnerEnd_def
      finallyRelease_def sem_release_def aq_next_def onNext_def stale_completed_def yield_def
      just_completed_def shouldSkipMerge_def onMerged_def set_merged_def afterMerges_def
      xremoveProducer_def aq_removeProducer_def Let_def)

text \<open>
  C3. \<open>executePlans\<close> respects the dependency order: from a fresh or properly resumed state, in
  every state the build can reach, whatever the worktrees, runners, gates and merges answer and
  in whatever order, a plan that was started (running, completed, merged or failed) has every
  plan it depends on merged.
\<close>

theorem exec_dependency_order:
  assumes "start_ok cfg s sem" and "exec.run cfg (exec_start cfg s sem) evs = Some x"
    and "dget (es_plans (xs_state x)) p = Some plan" and "ps_status plan \<notin> {PPending, PBlocked}"
    and "d \<in> set (ps_dependsOn plan)"
  shows "plan_status_of (xs_state x) d = Some PMerged"
proof (rule plans_invD(2) [OF launches_invD(1), where p = p])
  show "launches_inv cfg x" using reachable_inv [OF assms(1,2)] by (simp add: exec_inv_def)
qed (use assms(3-5) in auto)

theorem exec_dependency_order_witness:
  "\<exists>x. exec.run demo_exec demo_start demo_events = Some x \<and>
     plan_status_of (xs_state x) ''b'' = Some PRunning \<and> plan_status_of (xs_state x) ''a'' = Some PMerged"
proof -
  obtain x where x: "exec.run demo_exec demo_start demo_events = Some x"
    "plan_status_of (xs_state x) ''b'' = Some PRunning" "deps_of (xs_state x) ''b'' = Some [''a'']"
    using demo_run by blast
  then obtain plan where p: "dget (es_plans (xs_state x)) ''b'' = Some plan" "ps_status plan = PRunning"
    "ps_dependsOn plan = [''a'']" by (cases "dget (es_plans (xs_state x)) ''b''") auto
  from exec_dependency_order [OF demo_start_ok x(1) [unfolded demo_start_def] p(1), of "''a''"] p x
  show ?thesis by auto
qed

text \<open>
  C20. The semaphore bounds the build: no reachable state has more plans running than the
  configured parallelism.
\<close>

theorem exec_concurrency_bounded:
  assumes "start_ok cfg s sem" and "exec.run cfg (exec_start cfg s sem) evs = Some x"
  shows "int (card {p. plan_status_of (xs_state x) p = Some PRunning}) \<le> ec_parallelism cfg"
proof -
  have li: "launches_inv cfg x" using reachable_inv [OF assms] by (simp add: exec_inv_def)
  have "{p. plan_status_of (xs_state x) p = Some PRunning} \<subseteq> dsel holds_permit (xs_stages x)"
    using launches_invD(3) [OF li] by (force simp: dsel_def holds_permit_def)
  then have "card {p. plan_status_of (xs_state x) p = Some PRunning} \<le> card (dsel holds_permit (xs_stages x))"
    by (simp add: card_mono)
  with launches_invD(4) [OF li] show ?thesis by (simp add: permits_ok_def)
qed

theorem exec_concurrency_bounded_witness:
  "\<exists>x. exec.run demo_exec demo_start demo_events = Some x \<and>
     int (card {p. plan_status_of (xs_state x) p = Some PRunning}) \<le> 1"
proof -
  obtain x where x: "exec.run demo_exec demo_start demo_events = Some x" using demo_run by blast
  from exec_concurrency_bounded [OF demo_start_ok x [unfolded demo_start_def]] x show ?thesis
    by (auto simp: demo_exec_def)
qed

text \<open>
  C18. A build that runs to its end ends right: when the consuming loop finished without an
  abort, the run is \<open>failed\<close> exactly when some plan is failed or blocked, and if it is not
  failed then every plan of the configuration is merged (for an acyclic configuration without
  unknown dependencies). No plan is forgotten.
\<close>

theorem exec_ends_right:
  assumes "start_ok cfg s sem" and "es_status s \<noteq> RunFailed"
    and "known_deps (plan_nodes (oc_plans (ec_config cfg)))"
    and "acyclic (edges (plan_nodes (oc_plans (ec_config cfg))))"
    and "exec.run cfg (exec_start cfg s sem) evs = Some x"
    and "xs_loop x = LEnded" and "\<not> xs_aborted x"
  shows "(es_status (xs_state x) = RunFailed \<longleftrightarrow>
           (\<exists>plan \<in> set (dvals (es_plans (xs_state x))). ps_status plan \<in> {PFailed, PBlocked})) \<and>
         (es_status (xs_state x) \<noteq> RunFailed \<longrightarrow>
           (\<forall>p \<in> set (all_ids cfg). plan_status_of (xs_state x) p = Some PMerged))"
proof -
  let ?plans = "oc_plans (ec_config cfg)"
  let ?st = "plan_status_of (xs_state x)"
  have st: "status_inv cfg x" by (rule reachable_status [OF assms(1,2,5)])
  have li: "launches_inv cfg x" and fin: "finished cfg x"
    using st assms(6,7) by (auto simp: status_inv_def exec_inv_def loop_inv_def)
  have failed: "es_status (xs_state x) = RunFailed \<longleftrightarrow> any_terminal_failure (xs_state x)"
    using st assms(6,7) by (simp add: status_inv_def)
  have eq: "any_terminal_failure (xs_state x) \<longleftrightarrow>
      (\<exists>plan \<in> set (dvals (es_plans (xs_state x))). ps_status plan \<in> {PFailed, PBlocked})"
    by (simp add: any_terminal_failure_def list_ex_iff)
  have ids: "set (all_ids cfg) = set (map fst (plan_nodes ?plans))"
    by (simp add: all_ids_def plan_nodes_def comp_def)
  have "?st p = Some PMerged" if nf: "\<not> any_terminal_failure (xs_state x)" and p: "p \<in> set (all_ids cfg)" for p
  proof -
    have not_failed: "?st q \<notin> {Some PFailed, Some PBlocked}" for q
    proof (cases "dget (es_plans (xs_state x)) q")
      case (Some plan)
      then have "plan \<in> set (dvals (es_plans (xs_state x)))" by (force dest: map_of_SomeD)
      with nf Some show ?thesis unfolding eq by auto
    qed simp
    define S where "S = {q \<in> set (all_ids cfg). ?st q \<noteq> Some PMerged}"
    have stuck: "\<exists>d. (q, d) \<in> edges (plan_nodes ?plans) \<and> ?st d \<noteq> Some PMerged" if q: "q \<in> S" for q
    proof -
      from q obtain e where e: "e \<in> set ?plans" "q = pe_id e" by (auto simp: S_def all_ids_def)
      have deps: "deps_of (xs_state x) q = Some (pe_dependsOn e)"
        using plans_invD(1) [OF launches_invD(1) [OF li] e(1)] e(2) by simp
      have nl: "q \<notin> launched x"
        using fin q not_failed [of q] unfolding finished_def S_def by blast
      have "?st q \<noteq> None" using deps by (cases "dget (es_plans (xs_state x)) q") auto
      moreover have "?st q \<noteq> Some PRunning"
        using launches_invD(3) [OF li, of q] nl by (auto simp: launched_iff)
      moreover have "?st q \<noteq> Some PCompleted" using launches_invD(6) [OF li, of q] nl by auto
      ultimately have "?st q = Some PPending"
        using q not_failed [of q] unfolding S_def by (cases "?st q"; cases "the (?st q)") auto
      moreover have "\<not> isReady (xs_state x) q" using fin q unfolding finished_def S_def by blast
      ultimately obtain d where "d \<in> set (pe_dependsOn e)" "?st d \<noteq> Some PMerged"
        using deps by (auto simp: isReady_iff)
      with e show ?thesis by (auto simp: edges_iff plan_nodes_def)
    qed
    have "placeable (edges (plan_nodes ?plans)) (set (all_ids cfg)) (set (all_ids cfg) - S) = {}"
      using stuck unfolding placeable_def S_def by blast
    from acyclic_not_stuck [OF finite_edges assms(4) _ this] assms(3) ids
    have "set (all_ids cfg) \<subseteq> set (all_ids cfg) - S" unfolding known_deps_edges by blast
    with p show ?thesis unfolding S_def by blast
  qed
  with failed eq show ?thesis by blast
qed

definition demo_rest :: "exec_event list" where
  "demo_rest = [RunnerEnd ''b'', CallNext, HandleNext, MergeAnswer ''c2'' True, Released ''b'',
     CallNext, HandleNext, CallNext, HandleNext, CallNext, HandleNext, CallNext, HandleNext,
     CallNext, HandleNext]"

lemma demo_run_end:
  "\<exists>x. exec.run demo_exec demo_start (demo_events @ demo_rest) = Some x \<and> xs_loop x = LEnded \<and>
     \<not> xs_aborted x \<and> es_status (xs_state x) = RunRunning"
  unfolding demo_start_def demo_events_def demo_rest_def
  by (simp add: demo_exec_def demo_config_def demo_plan_def demo_sem_def exec_start_def
      initializeState_def plan_state_of_def all_ids_def isReady_def launchPlan_def xpush_def aq_push_def aq_new_def
      aq_addProducer_def sem_acquire_def exec_step_def onAcquired_def set_worktree_def
      xtransition_def transitionPlan_def set_plan_status_def xpush_all_def onRunnerEnd_def
      finallyRelease_def sem_release_def aq_next_def onNext_def stale_completed_def yield_def
      just_completed_def shouldSkipMerge_def onMerged_def set_merged_def afterMerges_def
      removeSentinel_def endLoop_def promote_def any_terminal_failure_def
      xremoveProducer_def aq_removeProducer_def Let_def)

theorem exec_ends_right_witness:
  "\<exists>x. exec.run demo_exec demo_start (demo_events @ demo_rest) = Some x \<and>
     plan_status_of (xs_state x) ''b'' = Some PMerged"
proof -
  obtain x where x: "exec.run demo_exec demo_start (demo_events @ demo_rest) = Some x"
    "xs_loop x = LEnded" "\<not> xs_aborted x" "es_status (xs_state x) = RunRunning"
    using demo_run_end by blast
  have g: "plan_nodes (oc_plans (ec_config demo_exec)) = [(''a'', []), (''b'', [''a''])]"
    by (simp add: plan_nodes_def demo_exec_def demo_config_def demo_plan_def)
  have k: "known_deps (plan_nodes (oc_plans (ec_config demo_exec)))"
    by (simp add: g known_deps_def)
  have "edges (plan_nodes (oc_plans (ec_config demo_exec))) = {(''b'', ''a'')}"
    unfolding g by (auto simp: edges_def edge_list_def)
  then have a: "acyclic (edges (plan_nodes (oc_plans (ec_config demo_exec))))"
    by (auto simp: acyclic_def trancl_insert)
  have r: "es_status (applyResumeSeed (initializeState demo_config ''w'') []) \<noteq> RunFailed"
    by (simp add: initializeState_def)
  from exec_ends_right [OF demo_start_ok r k a x(1) [unfolded demo_start_def] x(2,3)] x(1,4)
  show ?thesis by (auto simp: demo_exec_def demo_config_def demo_plan_def all_ids_def)
qed

text \<open>
  C19. The build never hangs by itself: in every reachable state whose loop has not ended, the
  loop can turn, or a merge or policy gate is in flight, or some launch waits for an answer of
  the worktree manager or of its runner.
\<close>

theorem exec_never_stuck:
  assumes "start_ok cfg s sem" and "exec.run cfg (exec_start cfg s sem) evs = Some x"
    and "xs_loop x \<noteq> LEnded" and "\<forall>e. xs_loop x \<noteq> LThrown e"
  shows "exec_step cfg x CallNext \<noteq> None \<or> exec_step cfg x HandleNext \<noteq> None \<or>
    (\<exists>p ps. xs_loop x = LGate p ps \<or> xs_loop x = LMerge p ps) \<or>
    (\<exists>p st. dget (xs_stages x) p = Some st \<and> (st = StAcquiring \<or> (\<exists>b. st = StBuilding b) \<or> st = StReleasing))"
proof (cases "xs_loop x")
  case LNext
  have inv: "exec_inv cfg x" by (rule reachable_inv [OF assms(1,2)])
  have li: "launches_inv cfg x" using inv by (simp add: exec_inv_def)
  note ns = next_state [OF inv LNext]
  note q = launches_invD(5) [OF li] and pm = launches_invD(4) [OF li]
  show ?thesis
  proof (cases "xs_inbox x")
    case (Some v)
    with LNext have "exec_step cfg x HandleNext \<noteq> None" by (simp add: exec_step_def)
    then show ?thesis by blast
  next
    case i: None
    show ?thesis
    proof (cases "aq_waiting (xs_queue x)")
      case False
      with LNext i have "exec_step cfg x CallNext \<noteq> None"
        by (simp add: exec_step_def split: prod.splits)
      then show ?thesis by blast
    next
      case True
      with q have pos: "producers x > 0" and quiet: "\<not> pending_event x"
        using i by (auto simp: queue_ok_def pending_event_def)
      have "\<exists>p st. dget (xs_stages x) p = Some st \<and> st \<noteq> StEnded"
      proof (cases "xs_running x")
        case (Cons p ps)
        then have r: "p \<in> set (xs_running x)" by simp
        from loop_coreD(1) [OF ns(2) r] obtain st where st: "dget (xs_stages x) p = Some st"
          by (auto simp: launched_iff)
        have "plan_status_of (xs_state x) p \<notin> {Some PCompleted, Some PFailed, Some PMerged}"
          using loop_coreD(2,7) [OF ns(2) r] quiet by auto
        then have "st \<noteq> StEnded" using launches_invD(2) [OF li st] by auto
        with st show ?thesis by blast
      next
        case Nil
        with ns(3) pos have "card (dsel not_ended (xs_stages x)) > 0" by (simp add: producers_def)
        then obtain p where "p \<in> dsel not_ended (xs_stages x)" by (metis card.empty ex_in_conv less_irrefl)
        then show ?thesis by (auto simp: dsel_def not_ended_def)
      qed
      then obtain p st where p: "dget (xs_stages x) p = Some st" "st \<noteq> StEnded" by blast
      show ?thesis
      proof (cases "st = StWaiting")
        case False
        then have "st = StAcquiring \<or> (\<exists>b. st = StBuilding b) \<or> st = StReleasing"
          using p(2) by (cases st) auto
        with p(1) show ?thesis by blast
      next
        case w: True
        then have "p \<in> set (sem_waitQueue (xs_sem x))" using p pm by (simp add: permits_ok_def in_dsel)
        then have "sem_permits (xs_sem x) = 0" using pm by (auto simp: permits_ok_def)
        moreover have "ec_parallelism cfg \<ge> 1"
          using assms(1) by (auto simp: start_ok_def sem_new_def split: if_splits)
        ultimately have "card (dsel holds_permit (xs_stages x)) > 0" using pm by (simp add: permits_ok_def)
        then obtain h where "h \<in> dsel holds_permit (xs_stages x)"
          by (metis card.empty ex_in_conv less_irrefl)
        then obtain st' where h: "dget (xs_stages x) h = Some st'" "holds_permit st'"
          by (auto simp: dsel_def)
        then have "st' = StAcquiring \<or> (\<exists>b. st' = StBuilding b) \<or> st' = StReleasing"
          by (cases st') (auto simp: holds_permit_def)
        with h(1) show ?thesis by blast
      qed
    qed
  qed
qed (use assms(3,4) in auto)

theorem exec_never_stuck_witness:
  "\<exists>x. exec.run demo_exec demo_start demo_events = Some x \<and>
    (exec_step demo_exec x CallNext \<noteq> None \<or> exec_step demo_exec x HandleNext \<noteq> None \<or>
     (\<exists>p ps. xs_loop x = LGate p ps \<or> xs_loop x = LMerge p ps) \<or>
     (\<exists>p st. dget (xs_stages x) p = Some st \<and> (st = StAcquiring \<or> (\<exists>b. st = StBuilding b) \<or> st = StReleasing)))"
proof -
  obtain x where x: "exec.run demo_exec demo_start demo_events = Some x" "xs_loop x = LNext"
    using demo_run by blast
  have "xs_loop x \<noteq> LEnded" "\<forall>e. xs_loop x \<noteq> LThrown e" using x(2) by auto
  from exec_never_stuck [OF demo_start_ok x(1) [unfolded demo_start_def] this] x(1)
  show ?thesis by blast
qed

text \<open>
  What becomes of a build whose plan fails below a plan that is already blocked: the launch
  of the failing plan rejects with an unhandled error (after the plan itself was marked failed),
  because \<open>propagateFailure\<close> throws in the \<open>try\<close> block and again in the \<open>catch\<close> block.
\<close>

theorem second_failure_rejects:
  assumes "start_ok cfg s sem" and "exec.run cfg (exec_start cfg s sem) evs = Some x"
    and "dget (xs_stages x) p = Some (StBuilding (Some err))"
    and "c \<in> dependents_star (oc_plans (ec_config cfg)) p"
    and "plan_status_of (xs_state x) c = Some PBlocked"
  shows "\<exists>y. exec_step cfg x (RunnerEnd p) = Some y \<and> p \<in> set (xs_rejected y) \<and>
             plan_status_of (xs_state y) p = Some PFailed"
proof -
  let ?plans = "oc_plans (ec_config cfg)"
  have inv: "exec_inv cfg x" by (rule reachable_inv [OF assms(1,2)])
  have h: "holds_permit (StBuilding (Some err))" by (simp add: holds_permit_def)
  note sf = stage_facts [OF inv assms(3) h]
  have run: "plan_status_of (xs_state x) p = Some PRunning" using sf(6) by simp
  then have cp: "c \<noteq> p" using assms(5) by auto
  have throws: "\<exists>z e. xpropagate cfg p y = (z, Some e) \<and> plan_status_of (xs_state z) c = Some PBlocked \<and>
      plan_status_of (xs_state z) p = Some PFailed"
    if y: "plans_inv ?plans (launched x) (xs_state y)" "plan_status_of (xs_state y) c = Some PBlocked"
      "plan_status_of (xs_state y) p = Some PFailed" for y
  proof -
    obtain s' r where w: "propagateFailure (xs_state y) p ?plans = (s', r)"
      by (cases "propagateFailure (xs_state y) p ?plans")
    have "\<not> blockable (xs_state y) (dependents_star ?plans p)"
      using assms(4) y(2) unfolding blockable_iff by force
    with propagateFailure_spec [OF w] obtain e where e: "r = Inl e" by (cases r) auto
    have "plan_status_of (xs_state y) p \<noteq> Some PMerged" using y(3) by simp
    note adv = propagateFailure_advances [OF y(1) this sf(1) w]
    have "plan_status_of s' c = Some PBlocked" using advancesD(4) [OF adv(1) cp] y(2) by auto
    with w e adv(2) y(3) show ?thesis by (simp add: xpropagate_def)
  qed
  obtain y where y: "xtransition p PFailed (Some err) x = (y, None)" "moves (launched x) p (producers x) x y"
    "plan_status_of (xs_state y) p = Some PFailed"
    by (rule xtransition_moves [OF run _ sf(2,3), of PFailed "Some err" "launched x"]) auto
  have cy: "plan_status_of (xs_state y) c = Some PBlocked"
    using advancesD(4) [of "launched x" p "xs_state x" "xs_state y" c] y(2) cp assms(5)
    by (auto simp: moves_def)
  have iy: "plans_inv ?plans (launched x) (xs_state y)"
    by (rule plans_inv_moves [OF sf(4) y(2) sf(1)]) (use run y(3) in simp_all)
  from throws [OF iy cy y(3)] obtain z e where z: "xpropagate cfg p y = (z, Some e)"
    "plan_status_of (xs_state z) c = Some PBlocked" "plan_status_of (xs_state z) p = Some PFailed" by blast
  have qy: "queue_ok (producers x) y" using y(2) by (simp add: moves_def)
  have "plan_status_of (xs_state y) p \<noteq> Some PMerged" using y(3) by simp
  note mz = xpropagate_moves(1) [OF iy sf(1) this qy z(1)]
  have iz: "plans_inv ?plans (launched x) (xs_state z)"
    by (rule plans_inv_moves [OF iy mz sf(1)]) (use y(3) z(3) in simp_all)
  from throws [OF iz z(2,3)] obtain u e' where u: "xpropagate cfg p z = (u, Some e')"
    "plan_status_of (xs_state u) p = Some PFailed" by blast
  have body: "catch_body cfg p err z = (u, Some e')"
    using z(3) u(1) by (simp add: catch_body_def andthen_def stop_def)
  have "onRunnerEnd cfg p (Some err) x = finallyRelease p (u\<lparr>xs_rejected := xs_rejected u @ [p]\<rparr>)"
    using y(1) z(1) body by (simp add: onRunnerEnd_def andthen_def catchFailure_def)
  moreover have "xs_rejected (finallyRelease p v) = xs_rejected v" for v
    by (auto simp: finallyRelease_def split: prod.splits option.splits)
  ultimately show ?thesis using assms(3) u(2) by (simp add: exec_step_def)
qed

definition diamond_exec :: exec_cfg where
  "diamond_exec = \<lparr>ec_config = diamond_config, ec_parallelism = 3, ec_planGates = False,
     ec_noCommittedChangesReason = None\<rparr>"

definition diamond_start :: exec_state where
  "diamond_start = exec_start diamond_exec (applyResumeSeed (initializeState diamond_config ''w'') [])
     \<lparr>sem_permits = 3, sem_waitQueue = []\<rparr>"

definition diamond_events :: "exec_event list" where
  "diamond_events = [Acquired ''a'' (Inr ''x''), Acquired ''b'' (Inr ''y''),
     RunnerEvent ''a'' (PlanBuildFailed ''a'' ''boom'' None), RunnerEnd ''a'',
     RunnerEvent ''b'' (PlanBuildFailed ''b'' ''bang'' None)]"

lemma diamond_start_ok:
  "start_ok diamond_exec (applyResumeSeed (initializeState diamond_config ''w'') [])
     \<lparr>sem_permits = 3, sem_waitQueue = []\<rparr>"
proof -
  have "start_ok diamond_exec (applyResumeSeed (initializeState (ec_config diamond_exec) ''w'') [])
     \<lparr>sem_permits = 3, sem_waitQueue = []\<rparr>"
    by (rule resumed_start_ok)
       (simp_all add: diamond_exec_def diamond_config_def demo_config_def demo_plan_def sem_new_def)
  then show ?thesis by (simp add: diamond_exec_def)
qed

lemma diamond_run:
  "\<exists>x. exec.run diamond_exec diamond_start diamond_events = Some x \<and>
     dget (xs_stages x) ''b'' = Some (StBuilding (Some ''bang'')) \<and>
     plan_status_of (xs_state x) ''c'' = Some PBlocked"
  unfolding diamond_start_def diamond_events_def
  by (simp add: diamond_exec_def diamond_config_def demo_config_def demo_plan_def exec_start_def
      initializeState_def plan_state_of_def all_ids_def isReady_def launchPlan_def xpush_def aq_push_def aq_new_def
      aq_addProducer_def sem_acquire_def exec_step_def onAcquired_def set_worktree_def onRunnerEvent_def
      xtransition_def transitionPlan_def set_plan_status_def xpush_all_def onRunnerEnd_def
      andthen_def xpropagate_def propagateFailure_def plan_nodes_def edge_list_def dependents_of_def
      finallyRelease_def sem_release_def Let_def)

theorem second_failure_rejects_witness:
  "\<exists>x y. exec.run diamond_exec diamond_start diamond_events = Some x \<and>
     exec_step diamond_exec x (RunnerEnd ''b'') = Some y \<and> ''b'' \<in> set (xs_rejected y)"
proof -
  obtain x where x: "exec.run diamond_exec diamond_start diamond_events = Some x"
    "dget (xs_stages x) ''b'' = Some (StBuilding (Some ''bang''))"
    "plan_status_of (xs_state x) ''c'' = Some PBlocked"
    using diamond_run by blast
  have c: "''c'' \<in> dependents_star (oc_plans (ec_config diamond_exec)) ''b''"
    using diamond_c by (simp add: diamond_exec_def)
  from second_failure_rejects [OF diamond_start_ok x(1) [unfolded diamond_start_def] x(2) c x(3)] x(1)
  show ?thesis by blast
qed

declare map_option_eq_Some [iff] map_option_is_None [iff] None_eq_map_option_iff [iff]
  option.map_disc_iff [simp]

end
