(* ===== verification/PlanWaves.thy ===== *)
theory PlanWaves
  imports PlanReduction PlanExecutionLoop
begin

text \<open>
  \<open>computeMaxConcurrency\<close> of \<open>packages/engine/src/orchestrator/phases.ts\<close>. The memoised
  recursion \<open>resolveWave\<close> threads its \<open>visited\<close> set and the shared \<open>waveOf\<close> map; the fuel is the
  number of plans plus one, which is proved to be enough. The lemmas show that its waves are the
  waves of \<open>resolveDependencyGraph\<close>, and what \<open>executePlans\<close> relies on when the result is 1:
  then plans never run at the same time and can share one worktree.
\<close>

section \<open>resolveWave\<close>

type_synonym wave_map = "(plan_id \<times> nat) list"

fun resolveWave ::
    "nat \<Rightarrow> dependents \<Rightarrow> plan_id \<Rightarrow> plan_id list \<times> wave_map \<Rightarrow> (nat \<times> plan_id list \<times> wave_map) option"
and resolveWave_deps ::
    "nat \<Rightarrow> dependents \<Rightarrow> plan_id list \<Rightarrow> nat \<Rightarrow> plan_id list \<times> wave_map
     \<Rightarrow> (nat \<times> plan_id list \<times> wave_map) option" where
  "resolveWave 0 m p s = None"
| "resolveWave (Suc n) m p (visited, waveOf) =
     (case dget waveOf p of
        Some w \<Rightarrow> Some (w, visited, waveOf)
      | None \<Rightarrow>
          if p \<in> set visited then Some (0, visited, waveOf)
          else if dependents_of m p = []
          then Some (0, visited @ [p], dput p 0 waveOf)
          else
            (case resolveWave_deps n m (dependents_of m p) 0 (visited @ [p], waveOf) of
               None \<Rightarrow> None
             | Some (maxDepWave, visited', waveOf') \<Rightarrow>
                 Some (maxDepWave + 1, visited', dput p (maxDepWave + 1) waveOf')))"
| "resolveWave_deps n m [] maxDepWave s = Some (maxDepWave, s)"
| "resolveWave_deps n m (d # ds) maxDepWave s =
     (case resolveWave n m d s of
        None \<Rightarrow> None
      | Some (w, s') \<Rightarrow> resolveWave_deps n m ds (max maxDepWave w) s')"

fun assignWaves :: "nat \<Rightarrow> dependents \<Rightarrow> plan_id list \<Rightarrow> wave_map \<Rightarrow> wave_map option" where
  "assignWaves n m [] waveOf = Some waveOf"
| "assignWaves n m (p # ps) waveOf =
     (case resolveWave n m p ([], waveOf) of
        None \<Rightarrow> None
      | Some (_, _, waveOf') \<Rightarrow> assignWaves n m ps waveOf')"

fun countWaves :: "nat list \<Rightarrow> (nat \<times> nat) list \<Rightarrow> (nat \<times> nat) list" where
  "countWaves [] counts = counts"
| "countWaves (w # ws) counts =
     countWaves ws (dput w ((case dget counts w of Some c \<Rightarrow> c | None \<Rightarrow> 0) + 1) counts)"

definition wave_of :: "wave_map \<Rightarrow> plan_id \<Rightarrow> nat" where
  "wave_of waveOf p = (case dget waveOf p of Some w \<Rightarrow> w | None \<Rightarrow> 0)"

definition computeMaxConcurrency :: "node list \<Rightarrow> nat option" where
  "computeMaxConcurrency plans =
     (if plans = [] then Some 0
      else
        (case assignWaves (Suc (length plans)) (deps_map plans []) (map fst plans) [] of
           None \<Rightarrow> None
         | Some waveOf \<Rightarrow>
             Some (fold max (dvals (countWaves (map (wave_of waveOf) (map fst plans)) [])) 0)))"

section \<open>The fuel is enough\<close>

definition unvisited :: "dependents \<Rightarrow> plan_id list \<Rightarrow> plan_id set" where
  "unvisited m visited = fst ` set m - set visited"

lemma unvisited_less:
  assumes "p \<in> unvisited m visited"
  shows "card (unvisited m (visited @ [p])) < card (unvisited m visited)"
proof -
  have eq: "unvisited m (visited @ [p]) = unvisited m visited - {p}" by (auto simp: unvisited_def)
  have "finite (unvisited m visited)" by (simp add: unvisited_def)
  then show ?thesis unfolding eq using assms by (rule card_Diff1_less)
qed

lemma resolveWave_total:
  shows "card (unvisited m (fst s)) < n \<Longrightarrow>
     \<exists>w v' w'. resolveWave n m p s = Some (w, v', w') \<and> set (fst s) \<subseteq> set v'"
    and "card (unvisited m (fst s)) < n \<Longrightarrow>
     \<exists>w v' w'. resolveWave_deps n m ds mx s = Some (w, v', w') \<and> set (fst s) \<subseteq> set v'"
proof (induction n m p s and n m ds mx s rule: resolveWave_resolveWave_deps.induct)
  case (1 m p s)
  then show ?case by simp
next
  case (2 n m p visited waveOf)
  show ?case
  proof (cases "dget waveOf p = None \<and> p \<notin> set visited \<and> dependents_of m p \<noteq> []")
    case False
    then show ?thesis by (auto split: option.splits)
  next
    case True
    then have "p \<in> unvisited m visited"
      by (auto simp: unvisited_def dependents_of_def dest: dget_Some_dkeys split: option.splits)
    from unvisited_less [OF this] "2.prems" have "card (unvisited m (fst (visited @ [p], waveOf))) < n"
      by simp
    from "2.IH" [OF _ _ _ this] True obtain w v' w' where
      "resolveWave_deps n m (dependents_of m p) 0 (visited @ [p], waveOf) = Some (w, v', w')"
      "set (visited @ [p]) \<subseteq> set v'" by auto
    with True show ?thesis by auto
  qed
next
  case (3 n m maxDepWave s)
  then show ?case by (cases s) auto
next
  case (4 n m d ds maxDepWave s)
  from "4.IH"(1) [OF "4.prems"] obtain w v' w' where
    r: "resolveWave n m d s = Some (w, v', w')" "set (fst s) \<subseteq> set v'" by blast
  have "unvisited m v' \<subseteq> unvisited m (fst s)" using r(2) by (auto simp: unvisited_def)
  then have "card (unvisited m v') \<le> card (unvisited m (fst s))"
    by (rule card_mono [rotated]) (simp add: unvisited_def)
  with "4.prems" have "card (unvisited m (fst (v', w'))) < n" by simp
  from "4.IH"(2) [OF r(1) refl this] r show ?case by auto
qed

section \<open>The waves of an acyclic graph\<close>

definition wave_valid :: "dependents \<Rightarrow> wave_map \<Rightarrow> bool" where
  "wave_valid m w \<longleftrightarrow>
     (\<forall>p k. dget w p = Some k \<longrightarrow>
        (\<forall>d \<in> set (dependents_of m p). dget w d \<noteq> None) \<and>
        k = (if dependents_of m p = [] then 0
             else Suc (Max (wave_of w ` set (dependents_of m p)))))"

definition wave_grows :: "dependents \<Rightarrow> plan_id set \<Rightarrow> wave_map \<Rightarrow> wave_map \<Rightarrow> bool" where
  "wave_grows m from w w' \<longleftrightarrow>
     (\<forall>q k. dget w q = Some k \<longrightarrow> dget w' q = Some k) \<and>
     (\<forall>q. dget w' q \<noteq> None \<longrightarrow> dget w q \<noteq> None \<or> (\<exists>p \<in> from. (p, q) \<in> (map_edges m)\<^sup>*))"

lemma wave_grows_refl [simp]: "wave_grows m A w w"
  by (simp add: wave_grows_def)

lemma wave_grows_trans:
  assumes "wave_grows m A w1 w2" and "wave_grows m B w2 w3"
  shows "wave_grows m (A \<union> B) w1 w3"
  using assms unfolding wave_grows_def by blast

lemma wave_growsD: "wave_grows m A w w' \<Longrightarrow> dget w q = Some k \<Longrightarrow> dget w' q = Some k"
  unfolding wave_grows_def by blast

text \<open>Visited plans without a wave are the callers: nothing below the current plan.\<close>

definition above_only :: "dependents \<Rightarrow> plan_id set \<Rightarrow> plan_id list \<Rightarrow> wave_map \<Rightarrow> bool" where
  "above_only m from visited w \<longleftrightarrow>
     (\<forall>x \<in> set visited. dget w x = None \<longrightarrow> (\<forall>p \<in> from. (p, x) \<notin> (map_edges m)\<^sup>*))"

definition wave_post ::
    "dependents \<Rightarrow> plan_id set \<Rightarrow> plan_id list \<Rightarrow> wave_map \<Rightarrow> plan_id list \<Rightarrow> wave_map \<Rightarrow> bool" where
  "wave_post m from v w v' w' \<longleftrightarrow>
     wave_valid m w' \<and> wave_grows m from w w' \<and>
     (\<forall>x \<in> set v'. dget w' x = None \<longrightarrow> x \<in> set v \<and> dget w x = None)"

lemma above_only_post:
  assumes "above_only m (insert d A) v w" and "wave_post m {d} v w v' w'"
  shows "above_only m A v' w'"
  using assms unfolding above_only_def wave_post_def by blast

lemma wave_post_trans:
  assumes "wave_post m A v w v1 w1" and "wave_post m B v1 w1 v2 w2"
  shows "wave_post m (A \<union> B) v w v2 w2"
  using assms wave_grows_trans [of m A w w1 B w2] unfolding wave_post_def by blast

text \<open>Giving a plan its wave once its dependencies have theirs.\<close>

lemma wave_post_assign:
  assumes ac: "acyclic (map_edges m)" and none: "dget w p = None" and nv: "p \<notin> set visited"
    and post: "wave_post m (set (dependents_of m p)) (visited @ [p]) w v1 w1"
    and deps: "\<forall>d \<in> set (dependents_of m p). dget w1 d \<noteq> None"
    and k: "k = (if dependents_of m p = [] then 0
                 else Suc (Max (wave_of w1 ` set (dependents_of m p))))"
  shows "wave_post m {p} visited w v1 (dput p k w1)"
proof -
  let ?E = "map_edges m"
  have edge: "(p, d) \<in> ?E" if "d \<in> set (dependents_of m p)" for d
    using that by (simp add: map_edges_def)
  have up: "(d, p) \<notin> ?E\<^sup>*" if "d \<in> set (dependents_of m p)" for d
    using edge [OF that] ac unfolding acyclic_def by (meson rtrancl_into_trancl2)
  have np: "dget w1 p = None"
    using post none up unfolding wave_post_def wave_grows_def by blast
  have pd: "p \<notin> set (dependents_of m p)" using up by auto
  have valid: "wave_valid m (dput p k w1)"
    unfolding wave_valid_def
  proof (intro allI impI)
    fix q j
    assume j: "dget (dput p k w1) q = Some j"
    have same: "wave_of (dput p k w1) ` set (dependents_of m q) = wave_of w1 ` set (dependents_of m q)"
      if "p \<notin> set (dependents_of m q)"
      by (rule image_cong) (use that in \<open>auto simp: wave_of_def\<close>)
    show "(\<forall>d\<in>set (dependents_of m q). dget (dput p k w1) d \<noteq> None) \<and>
        j = (if dependents_of m q = [] then 0
             else Suc (Max (wave_of (dput p k w1) ` set (dependents_of m q))))"
    proof (cases "q = p")
      case True
      with j k deps pd same [of] show ?thesis by (auto split: if_splits)
    next
      case False
      with j have q: "dget w1 q = Some j" by simp
      have v: "(\<forall>d\<in>set (dependents_of m q). dget w1 d \<noteq> None) \<and>
        j = (if dependents_of m q = [] then 0 else Suc (Max (wave_of w1 ` set (dependents_of m q))))"
        using post q unfolding wave_post_def wave_valid_def by blast
      then have "p \<notin> set (dependents_of m q)" using np by auto
      with v same show ?thesis by auto
    qed
  qed
  have "wave_grows m {p} w (dput p k w1)"
    unfolding wave_grows_def
  proof (intro conjI allI impI)
    fix q j
    assume "dget w q = Some j"
    with post none show "dget (dput p k w1) q = Some j"
      unfolding wave_post_def wave_grows_def by (cases "q = p") auto
  next
    fix q
    assume q: "dget (dput p k w1) q \<noteq> None"
    show "dget w q \<noteq> None \<or> (\<exists>x \<in> {p}. (x, q) \<in> ?E\<^sup>*)"
    proof (cases "q = p")
      case True
      then show ?thesis by simp
    next
      case False
      with q have "dget w1 q \<noteq> None" by simp
      with post consider "dget w q \<noteq> None" | d where "d \<in> set (dependents_of m p)" "(d, q) \<in> ?E\<^sup>*"
        unfolding wave_post_def wave_grows_def by blast
      then show ?thesis using edge by cases (auto intro: converse_rtrancl_into_rtrancl)
    qed
  qed
  moreover have "x \<in> set visited \<and> dget w x = None"
    if "x \<in> set v1" "dget (dput p k w1) x = None" for x
  proof -
    from that(2) have "x \<noteq> p" "dget w1 x = None" by (auto split: if_splits)
    with post that(1) show ?thesis unfolding wave_post_def by auto
  qed
  ultimately show ?thesis using valid unfolding wave_post_def by blast
qed

lemma resolveWave_spec:
  assumes ac: "acyclic (map_edges m)"
  shows "resolveWave n m p s = Some (k, v', w') \<Longrightarrow> wave_valid m (snd s) \<Longrightarrow>
      above_only m {p} (fst s) (snd s) \<Longrightarrow>
      wave_post m {p} (fst s) (snd s) v' w' \<and> dget w' p = Some k"
    and "resolveWave_deps n m ds mx s = Some (k, v', w') \<Longrightarrow> wave_valid m (snd s) \<Longrightarrow>
      above_only m (set ds) (fst s) (snd s) \<Longrightarrow>
      wave_post m (set ds) (fst s) (snd s) v' w' \<and> (\<forall>d \<in> set ds. dget w' d \<noteq> None) \<and>
      k = Max (insert mx (wave_of w' ` set ds))"
  using ac
proof (induction n m p s and n m ds mx s arbitrary: k v' w' and k v' w'
    rule: resolveWave_resolveWave_deps.induct)
  case (1 m p s)
  then show ?case by simp
next
  case (2 n m p visited waveOf)
  show ?case
  proof (cases "dget waveOf p")
    case (Some w)
    with 2(2,3) show ?thesis by (auto simp: wave_post_def)
  next
    case None
    have nv: "p \<notin> set visited" using 2(4) None by (auto simp: above_only_def)
    show ?thesis
    proof (cases "dependents_of m p = []")
      case True
      with 2(2) None nv have r: "k = 0" "v' = visited @ [p]" "w' = dput p 0 waveOf" by auto
      have "wave_post m (set (dependents_of m p)) (visited @ [p]) waveOf (visited @ [p]) waveOf"
        using 2(3) by (simp add: wave_post_def)
      from wave_post_assign [OF 2(5) None nv this _ refl] True r show ?thesis by simp
    next
      case False
      with 2(2) None nv obtain mx v1 w1 where
        d: "resolveWave_deps n m (dependents_of m p) 0 (visited @ [p], waveOf) = Some (mx, v1, w1)"
        and r: "k = mx + 1" "v' = v1" "w' = dput p (mx + 1) w1"
        by (auto split: option.splits)
      have "above_only m (set (dependents_of m p)) (visited @ [p]) waveOf"
        unfolding above_only_def
      proof (intro ballI impI)
        fix x q
        assume x: "x \<in> set (visited @ [p])" "dget waveOf x = None" and q: "q \<in> set (dependents_of m p)"
        have e: "(p, q) \<in> map_edges m" using q by (simp add: map_edges_def)
        show "(q, x) \<notin> (map_edges m)\<^sup>*"
        proof
          assume qx: "(q, x) \<in> (map_edges m)\<^sup>*"
          show False
          proof (cases "x = p")
            case True
            with e qx 2(5) show False unfolding acyclic_def by (meson rtrancl_into_trancl2)
          next
            case False
            with x 2(4) have "(p, x) \<notin> (map_edges m)\<^sup>*" by (auto simp: above_only_def)
            with e qx show False by (meson converse_rtrancl_into_rtrancl)
          qed
        qed
      qed
      with 2(1) [OF None nv False d] 2(3,5)
      have post: "wave_post m (set (dependents_of m p)) (visited @ [p]) waveOf v1 w1"
        and deps: "\<forall>d \<in> set (dependents_of m p). dget w1 d \<noteq> None"
        and mx: "mx = Max (insert 0 (wave_of w1 ` set (dependents_of m p)))" by auto
      have "mx = Max (wave_of w1 ` set (dependents_of m p))"
        using mx False by (simp add: Max_insert)
      then have "k = (if dependents_of m p = [] then 0
          else Suc (Max (wave_of w1 ` set (dependents_of m p))))" using r False by simp
      from wave_post_assign [OF 2(5) None nv post deps this] r show ?thesis by simp
    qed
  qed
next
  case (3 n m maxDepWave s)
  then show ?case by (cases s) (auto simp: wave_post_def)
next
  case (4 n m d ds maxDepWave s)
  from 4(3) obtain w v1 w1 where
    r: "resolveWave n m d s = Some (w, v1, w1)"
      "resolveWave_deps n m ds (max maxDepWave w) (v1, w1) = Some (k, v', w')"
    by (auto split: option.splits)
  have a: "above_only m {d} (fst s) (snd s)" using 4(5) by (auto simp: above_only_def)
  from 4(1) [OF r(1) 4(4) a 4(6)] have p1: "wave_post m {d} (fst s) (snd s) v1 w1" "dget w1 d = Some w"
    by auto
  have "above_only m (insert d (set ds)) (fst s) (snd s)" using 4(5) by simp
  from above_only_post [OF this p1(1)] have a2: "above_only m (set ds) v1 w1" .
  have "wave_valid m w1" using p1(1) by (simp add: wave_post_def)
  with 4(2) [OF r(1) refl, of k v' w'] r(2) a2 4(6) have p2: "wave_post m (set ds) v1 w1 v' w'"
    "\<forall>d \<in> set ds. dget w' d \<noteq> None" "k = Max (insert (max maxDepWave w) (wave_of w' ` set ds))"
    by auto
  have d': "dget w' d = Some w"
    using p2(1) p1(2) by (auto simp: wave_post_def intro: wave_growsD)
  have "wave_post m (set (d # ds)) (fst s) (snd s) v' w'"
    using wave_post_trans [OF p1(1) p2(1)] by simp
  moreover have "k = Max (insert maxDepWave (wave_of w' ` set (d # ds)))"
    using d' p2(3) by (cases "ds = []") (simp_all add: wave_of_def Max_insert max.assoc)
  ultimately show ?case using p2(2) d' by auto
qed

section \<open>The result\<close>

lemma deps_map_keys: "fst ` set (deps_map plans m) = fst ` set plans \<union> fst ` set m"
  by (induction plans m rule: deps_map.induct) auto

lemma assignWaves_spec:
  assumes "acyclic (map_edges m)" and "card (fst ` set m) < n" and "wave_valid m w"
  shows "\<exists>w'. assignWaves n m ps w = Some w' \<and> wave_valid m w' \<and>
    (\<forall>q k. dget w q = Some k \<longrightarrow> dget w' q = Some k) \<and> (\<forall>p \<in> set ps. dget w' p \<noteq> None)"
  using assms(3)
proof (induction ps arbitrary: w)
  case Nil
  then show ?case by simp
next
  case (Cons p ps)
  have "card (unvisited m (fst ([], w))) < n" using assms(2) by (simp add: unvisited_def)
  from resolveWave_total(1) [OF this, of p] obtain k v1 w1 where
    r: "resolveWave n m p ([], w) = Some (k, v1, w1)" by blast
  have "above_only m {p} (fst ([], w)) (snd ([], w))" by (simp add: above_only_def)
  from resolveWave_spec(1) [OF assms(1) r _ this] Cons.prems have
    p1: "wave_valid m w1" "wave_grows m {p} w w1" "dget w1 p = Some k" by (auto simp: wave_post_def)
  from Cons.IH [OF p1(1)] obtain w' where w': "assignWaves n m ps w1 = Some w'" "wave_valid m w'"
    "\<forall>q k. dget w1 q = Some k \<longrightarrow> dget w' q = Some k" "\<forall>p \<in> set ps. dget w' p \<noteq> None" by blast
  have "dget w' p = Some k" using w'(3) p1(3) by blast
  moreover have "dget w' q = Some j" if "dget w q = Some j" for q j
    using wave_growsD [OF p1(2) that] w'(3) by blast
  ultimately show ?case using r w' by auto
qed

lemma assignWaves_total:
  assumes "card (fst ` set m) < n"
  shows "assignWaves n m ps w \<noteq> None"
proof (induction ps arbitrary: w)
  case Nil
  then show ?case by simp
next
  case (Cons p ps)
  have "card (unvisited m (fst ([], w))) < n" using assms by (simp add: unvisited_def)
  from resolveWave_total(1) [OF this, of p] obtain k v1 w1 where
    "resolveWave n m p ([], w) = Some (k, v1, w1)" by blast
  with Cons.IH show ?case by simp
qed

lemma fuel_enough: "card (fst ` set (deps_map plans [])) < Suc (length plans)"
  using card_length [of "map fst plans"] by (simp add: deps_map_keys)

text \<open>The recorded waves are the waves of the layering.\<close>

lemma wave_valid_layering:
  assumes valid: "wave_valid m w" and lay: "layering (map_edges m) ids {} waves"
    and all: "\<And>p. p \<in> set (concat waves) \<Longrightarrow> dget w p \<noteq> None"
    and "k < length waves" and "p \<in> set (waves ! k)"
  shows "dget w p = Some k"
  using assms(4,5)
proof (induction k arbitrary: p rule: less_induct)
  case (less k)
  have p: "p \<in> set (concat waves)" using less.prems by (auto simp: set_concat intro: nth_mem)
  obtain j where j: "dget w p = Some j" using all [OF p] by blast
  have dj: "j = (if dependents_of m p = [] then 0 else Suc (Max (wave_of w ` set (dependents_of m p))))"
    using valid j unfolding wave_valid_def by blast
  have below: "\<exists>i<k. wave_of w d = i" if "d \<in> set (dependents_of m p)" for d
  proof -
    have "(p, d) \<in> map_edges m" using that by (simp add: map_edges_def)
    with layering_deps [OF lay less.prems this] obtain i where i: "i < k" "d \<in> set (waves ! i)" by blast
    with less.IH [OF i(1)] less.prems(1) have "dget w d = Some i" by simp
    with i show ?thesis by (auto simp: wave_of_def)
  qed
  have "j = k"
  proof (cases k)
    case 0
    have "dependents_of m p = []"
    proof (rule ccontr)
      assume "dependents_of m p \<noteq> []"
      then obtain d where "d \<in> set (dependents_of m p)" by (cases "dependents_of m p") auto
      with below 0 show False by blast
    qed
    with dj 0 show ?thesis by simp
  next
    case (Suc i)
    from layering_wave_dep [OF lay, of i p] less.prems Suc obtain d where
      d: "d \<in> set (waves ! i)" "(p, d) \<in> map_edges m" by auto
    have di: "wave_of w d = i" using less.IH [of i d] d(1) Suc less.prems(1) by (simp add: wave_of_def)
    have dp: "d \<in> set (dependents_of m p)" using d(2) by (simp add: map_edges_def)
    have "Max (wave_of w ` set (dependents_of m p)) = i"
    proof (rule Max_eqI)
      show "y \<le> i" if "y \<in> wave_of w ` set (dependents_of m p)" for y
        using that below Suc by fastforce
      show "i \<in> wave_of w ` set (dependents_of m p)" using dp di by blast
    qed simp
    moreover have "dependents_of m p \<noteq> []" using dp by auto
    ultimately show ?thesis using dj Suc by simp
  qed
  with j show ?case by simp
qed

lemma countWaves_lookup:
  "dget (countWaves ws counts) k =
     (if k \<in> set ws then Some ((case dget counts k of Some c \<Rightarrow> c | None \<Rightarrow> 0) + count_list ws k)
      else dget counts k)"
  by (induction ws counts rule: countWaves.induct) (auto split: option.splits simp: count_list_0_iff)

lemma countWaves_distinct: "distinct (dkeys counts) \<Longrightarrow> distinct (dkeys (countWaves ws counts))"
  by (induction ws counts rule: countWaves.induct) (auto simp del: distinct_map)

lemma countWaves_values: "set (dvals (countWaves ws [])) = count_list ws ` set ws"
proof (rule set_eqI)
  fix x
  have "x \<in> set (dvals (countWaves ws [])) \<longleftrightarrow> (\<exists>k. dget (countWaves ws []) k = Some x)"
    using map_of_eq_Some_iff [OF countWaves_distinct [of "[]" ws]] by force
  also have "\<dots> \<longleftrightarrow> x \<in> count_list ws ` set ws"
    by (auto simp: countWaves_lookup split: if_splits)
  finally show "x \<in> set (dvals (countWaves ws [])) \<longleftrightarrow> x \<in> count_list ws ` set ws" .
qed

lemma fold_max_eq: "fold max xs (n::nat) = Max (insert n (set xs))"
proof (induction xs arbitrary: n)
  case Nil
  then show ?case by simp
next
  case (Cons a xs)
  then show ?case by (cases "set xs = {}") (simp_all add: max.assoc max.left_commute max.commute)
qed

lemma layering_nth:
  "layering E ids D ws \<Longrightarrow> k < length ws \<Longrightarrow> ws ! k \<noteq> [] \<and> distinct (ws ! k)"
  by (induction ws arbitrary: D k) (auto simp: nth_Cons split: nat.splits)

lemma concat_nth_disjoint:
  assumes "distinct (concat ws)" and "j < length ws" and "k < length ws"
    and "x \<in> set (ws ! j)" and "x \<in> set (ws ! k)"
  shows "j = k"
  using assms
proof (induction ws arbitrary: j k)
  case Nil
  then show ?case by simp
next
  case (Cons w ws)
  have "x \<in> set (concat ws)" if "x \<in> set (ws ! i)" "i < length ws" for i
    using that nth_mem by fastforce
  with Cons show ?case by (cases j; cases k) auto
qed

lemma computeMaxConcurrency_layers:
  assumes ids: "distinct (map fst plans)" and r: "resolveDependencyGraph plans = Inr (waves, order)"
    and ne: "plans \<noteq> []"
  shows "\<exists>w. assignWaves (Suc (length plans)) (deps_map plans []) (map fst plans) [] = Some w \<and>
     (\<forall>k < length waves. \<forall>p \<in> set (waves ! k). dget w p = Some k)"
proof -
  let ?m = "deps_map plans []"
  note lay = resolve_Inr_layering [OF ids r]
  have E: "map_edges ?m = edges plans" by (rule map_edges_deps_map [OF ids])
  have ac: "acyclic (map_edges ?m)" unfolding E by (rule resolve_Inr_acyclic [OF ids r])
  have "wave_valid ?m []" by (simp add: wave_valid_def)
  from assignWaves_spec [OF ac fuel_enough this, of "map fst plans"] obtain w where
    w: "assignWaves (Suc (length plans)) ?m (map fst plans) [] = Some w" "wave_valid ?m w"
      "\<forall>p \<in> set (map fst plans). dget w p \<noteq> None" by blast
  have "set (concat waves) = set (map fst plans)"
    using lay resolve_Inr_order(2) [OF ids r] by metis
  then have "dget w p \<noteq> None" if "p \<in> set (concat waves)" for p
    using w(3) that by blast
  from wave_valid_layering [OF w(2) _ this, of "set (map fst plans)"] lay w(1)
  show ?thesis unfolding E by blast
qed

lemma chain_of_small_waves:
  assumes lay: "layering E ids {} waves" and small: "\<And>w. w \<in> set waves \<Longrightarrow> length w \<le> 1"
    and p: "p \<in> set (concat waves)" and q: "q \<in> set (concat waves)" and "p \<noteq> q"
  shows "(p, q) \<in> E\<^sup>+ \<or> (q, p) \<in> E\<^sup>+"
proof -
  have only: "u = v" if "k < length waves" "u \<in> set (waves ! k)" "v \<in> set (waves ! k)" for k u v
    using small [OF nth_mem [OF that(1)]] that(2,3) by (cases "waves ! k"; cases "tl (waves ! k)") auto
  have down: "(u, v) \<in> E\<^sup>+"
    if "j < k" "k < length waves" "u \<in> set (waves ! k)" "v \<in> set (waves ! j)" for j k u v
    using that
  proof (induction k arbitrary: u)
    case 0
    then show ?case by simp
  next
    case (Suc k)
    from layering_wave_dep [OF lay Suc.prems(2,3)] obtain d where
      d: "d \<in> set (waves ! k)" "(u, d) \<in> E" by blast
    show ?case
    proof (cases "j = k")
      case True
      with only [of k d v] d Suc.prems show ?thesis by auto
    next
      case False
      with Suc.IH [of d] Suc.prems d(1) have "(d, v) \<in> E\<^sup>+" by simp
      with d(2) show ?thesis by (rule trancl_into_trancl2)
    qed
  qed
  from p q obtain i j where "i < length waves" "p \<in> set (waves ! i)" "j < length waves" "q \<in> set (waves ! j)"
    by (metis UN_E in_set_conv_nth set_concat)
  with down [of j i p q] down [of i j q p] only [of i p q] assms(5) show ?thesis
    by (metis linorder_neqE_nat)
qed

lemma computeMaxConcurrency_waves:
  assumes "distinct (map fst plans)" and "resolveDependencyGraph plans = Inr (waves, order)"
  shows "computeMaxConcurrency plans = Some (Max (insert 0 (length ` set waves)))"
proof (cases "plans = []")
  case True
  then have "waves = []" using assms(2)
    by (simp add: resolveDependencyGraph_def edge_list_def Let_def)
  with True show ?thesis by (simp add: computeMaxConcurrency_def)
next
  case False
  obtain w where w: "assignWaves (Suc (length plans)) (deps_map plans []) (map fst plans) [] = Some w"
    and lev: "\<And>k p. k < length waves \<Longrightarrow> p \<in> set (waves ! k) \<Longrightarrow> dget w p = Some k"
    using computeMaxConcurrency_layers [OF assms False] by blast
  note lay = resolve_Inr_layering [OF assms] and ord = resolve_Inr_order [OF assms]
  let ?ws = "map (wave_of w) (map fst plans)"
  have order: "order = concat waves" "distinct (concat waves)" "set (concat waves) = set (map fst plans)"
    using lay ord by auto
  have level: "\<exists>k<length waves. p \<in> set (waves ! k)" if "p \<in> set (map fst plans)" for p
    using that unfolding order(3) [symmetric] by (auto simp: in_set_conv_nth) (metis nth_mem)
  have cnt: "count_list ?ws k = length (waves ! k)" if k: "k < length waves" for k
  proof -
    have eq: "{p \<in> set (map fst plans). wave_of w p = k} = set (waves ! k)"
    proof (intro set_eqI iffI)
      fix p
      assume p: "p \<in> {p \<in> set (map fst plans). wave_of w p = k}"
      then obtain j where j: "j < length waves" "p \<in> set (waves ! j)" using level by blast
      with lev p have "j = k" by (simp add: wave_of_def)
      with j show "p \<in> set (waves ! k)" by simp
    next
      fix p
      assume p: "p \<in> set (waves ! k)"
      then have "p \<in> set (concat waves)" using k by (auto intro!: bexI [of _ "waves ! k"])
      with lev [OF k p] order(3) show "p \<in> {p \<in> set (map fst plans). wave_of w p = k}"
        by (simp add: wave_of_def)
    qed
    have "count_list ?ws k = length (filter (\<lambda>p. wave_of w p = k) (map fst plans))"
      using count_list_map_filter [of "wave_of w" "\<lambda>_. True" "map fst plans" k] by simp
    also have "\<dots> = card (set (filter (\<lambda>p. wave_of w p = k) (map fst plans)))"
      using assms(1) by (metis distinct_card distinct_filter)
    also have "\<dots> = card (set (waves ! k))" using eq by (simp only: set_filter)
    also have "\<dots> = length (waves ! k)"
      using layering_nth [of _ _ "{}" waves k] lay k by (metis distinct_card)
    finally show ?thesis .
  qed
  have keys: "set ?ws = {..<length waves}"
  proof (intro set_eqI iffI)
    fix k
    assume "k \<in> set ?ws"
    then obtain p where p: "p \<in> set (map fst plans)" "k = wave_of w p" by auto
    from level [OF p(1)] obtain j where "j < length waves" "p \<in> set (waves ! j)" by blast
    with lev p(2) show "k \<in> {..<length waves}" by (simp add: wave_of_def)
  next
    fix k
    assume "k \<in> {..<length waves}"
    then have k: "k < length waves" by simp
    then obtain p where p: "p \<in> set (waves ! k)"
      using layering_nth [of _ _ "{}" waves k] lay by (metis list.set_intros(1) neq_Nil_conv)
    then have "p \<in> set (concat waves)" using k by (auto intro!: bexI [of _ "waves ! k"])
    with order(3) lev [OF k p] show "k \<in> set ?ws" by (force simp: wave_of_def image_iff)
  qed
  have "set (dvals (countWaves ?ws [])) = length ` set waves"
    unfolding countWaves_values keys using cnt by (auto simp: set_conv_nth image_iff)
  then show ?thesis
    using False w by (simp add: computeMaxConcurrency_def fold_max_eq del: map_map)
qed

lemma computeMaxConcurrency_max:
  assumes "distinct (map fst plans)" and "resolveDependencyGraph plans = Inr (waves, order)"
    and "computeMaxConcurrency plans = Some n" and "w \<in> set waves"
  shows "length w \<le> n"
  using computeMaxConcurrency_waves [OF assms(1,2)] assms(3,4) by simp

section \<open>Properties\<close>

text \<open>
  C40. The fuel of the model is enough: \<open>computeMaxConcurrency\<close> returns a number for every plan
  set, cyclic and unknown dependencies included.
\<close>

theorem computeMaxConcurrency_total: "\<exists>n. computeMaxConcurrency plans = Some n"
  using assignWaves_total [OF fuel_enough, of plans "map fst plans" "[]"]
  by (auto simp: computeMaxConcurrency_def split: option.splits)

text \<open>
  The recursive wave assignment of the scheduler agrees with the planner's: for a plan set
  \<open>resolveDependencyGraph\<close> accepts, \<open>computeMaxConcurrency\<close> is the size of its largest wave.
\<close>

theorem computeMaxConcurrency_largest_wave:
  assumes "distinct (map fst plans)" and "resolveDependencyGraph plans = Inr (waves, order)"
  shows "computeMaxConcurrency plans = Some (Max (insert 0 (length ` set waves)))"
  using assms by (rule computeMaxConcurrency_waves)

theorem computeMaxConcurrency_largest_wave_witness:
  "computeMaxConcurrency [(''a'', []), (''b'', []), (''c'', [''a'', ''b''])] = Some 2"
proof -
  let ?g = "[(''a'', []), (''b'', []), (''c'', [''a'', ''b''])] :: node list"
  have r: "resolveDependencyGraph ?g = Inr ([[''a'', ''b''], [''c'']], [''a'', ''b'', ''c''])"
    by (simp add: resolveDependencyGraph_def edge_list_def dependents_of_def Let_def)
  from computeMaxConcurrency_largest_wave [OF _ r] show ?thesis by simp
qed

text \<open>
  Sharing one worktree is safe: when \<open>computeMaxConcurrency\<close> is at most 1, which is when
  \<open>executePlans\<close> asks for no worktree per plan, no reachable state of the build has two plans
  running, whatever the semaphore would allow.
\<close>

theorem shared_worktree_safe:
  assumes "resolveDependencyGraph (plan_nodes (oc_plans (ec_config cfg))) = Inr (waves, order)"
    and "distinct (all_ids cfg)"
    and "computeMaxConcurrency (plan_nodes (oc_plans (ec_config cfg))) = Some n" and "n \<le> 1"
    and "start_ok cfg s sem" and "exec.run cfg (exec_start cfg s sem) evs = Some x"
    and "p \<in> set (all_ids cfg)" and "q \<in> set (all_ids cfg)"
    and "plan_status_of (xs_state x) p = Some PRunning" and "plan_status_of (xs_state x) q = Some PRunning"
  shows "p = q"
proof (rule ccontr)
  assume pq: "p \<noteq> q"
  let ?g = "plan_nodes (oc_plans (ec_config cfg))"
  have ids: "map fst ?g = all_ids cfg" by (simp add: plan_nodes_def all_ids_def)
  have d: "distinct (map fst ?g)" using assms(2) by (simp only: ids)
  note lay = resolve_Inr_layering [OF d assms(1)] and ord = resolve_Inr_order [OF d assms(1)]
  have small: "length w \<le> 1" if "w \<in> set waves" for w
    using computeMaxConcurrency_max [OF d assms(1,3) that] assms(4) by simp
  have "li": "launches_inv cfg x" using reachable_inv [OF assms(5,6)] by (simp add: exec_inv_def)
  have waiting: "plan_status_of (xs_state x) u \<noteq> Some PRunning"
    if "(u, v) \<in> (edges ?g)\<^sup>+" "plan_status_of (xs_state x) v \<noteq> Some PMerged" for u v
    using dependents_star_waiting [OF launches_invD(1) [OF li] that(2), of u] that(1)
    by (auto simp: dependents_star_def)
  have l: "layering (edges ?g) (set (map fst ?g)) {} waves" using lay by blast
  have all: "set (concat waves) = set (all_ids cfg)" using lay ord(2) ids by metis
  from chain_of_small_waves [OF l small _ _ pq] assms(7,8)
  consider "(p, q) \<in> (edges ?g)\<^sup>+" | "(q, p) \<in> (edges ?g)\<^sup>+" unfolding all by blast
  then show False using waiting assms(9,10) by cases auto
qed

theorem shared_worktree_safe_witness:
  "\<exists>x. exec.run demo_exec demo_start demo_events = Some x \<and>
     plan_status_of (xs_state x) ''a'' \<noteq> Some PRunning"
proof -
  obtain x where x: "exec.run demo_exec demo_start demo_events = Some x"
    "plan_status_of (xs_state x) ''b'' = Some PRunning" using demo_run by blast
  have g: "plan_nodes (oc_plans (ec_config demo_exec)) = [(''a'', []), (''b'', [''a''])]"
    by (simp add: plan_nodes_def demo_exec_def demo_config_def demo_plan_def)
  have r: "resolveDependencyGraph (plan_nodes (oc_plans (ec_config demo_exec))) =
      Inr ([[''a''], [''b'']], [''a'', ''b''])"
    unfolding g by (simp add: resolveDependencyGraph_def edge_list_def dependents_of_def Let_def)
  have c: "computeMaxConcurrency (plan_nodes (oc_plans (ec_config demo_exec))) = Some 1"
    using computeMaxConcurrency_waves [OF _ r] by (simp add: g)
  have i: "all_ids demo_exec = [''a'', ''b'']"
    by (simp add: all_ids_def demo_exec_def demo_config_def demo_plan_def)
  have "plan_status_of (xs_state x) ''a'' \<noteq> Some PRunning"
    using shared_worktree_safe [OF r _ c order_refl demo_start_ok x(1) [unfolded demo_start_def], of "''a''" "''b''"]
      x(2) by (auto simp: i)
  with x(1) show ?thesis by blast
qed

end
