(* ===== verification/Registry.thy ===== *)
theory Registry
  imports Events
begin

text \<open>
  The durable registries of \<open>artifacts/registry.ts\<close>, \<open>artifacts/completions.ts\<close> and
  \<open>stacking/state.ts\<close>: JSON files that are read, changed and rewritten under a lock.
  A file is what reading it gives; the schema check of a load is the predicate
  \<open>artifact_ok\<close>, \<open>completion_ok\<close> or \<open>layer_ok\<close> on every record. The locale
  \<open>keyed_registry\<close> states the contract the three share, and the machine of locked
  updates shows that concurrent writers lose no update.
\<close>

section \<open>Files and generic list operations\<close>

text \<open>What reading a registry file gives: ENOENT, another read error, text that is not
  JSON, or a JSON value of the right shape whose fields the schema still has to check.\<close>

datatype 'a reg_file = NoFile | Unreadable | BadJson | Json 'a

datatype reg_error = ReadError | WriteError | LockTimeout | LockError

fun find_index :: "('a \<Rightarrow> bool) \<Rightarrow> 'a list \<Rightarrow> nat option" where
  "find_index P [] = None"
| "find_index P (x # xs) = (if P x then Some 0 else map_option Suc (find_index P xs))"

lemma find_index_None: "find_index P xs = None \<longleftrightarrow> (\<forall>x \<in> set xs. \<not> P x)"
  by (induction xs) auto

lemma find_index_Some:
  "find_index P xs = Some i \<Longrightarrow> i < length xs \<and> P (xs ! i) \<and> (\<forall>j < i. \<not> P (xs ! j))"
proof (induction xs arbitrary: i)
  case Nil
  then show ?case by simp
next
  case (Cons x xs)
  then show ?case
    by (auto split: if_splits simp: less_Suc_eq_0_disj nth_Cons')
qed

text \<open>Replacing the first match in place keeps every other lookup.\<close>

lemma find_update_first:
  "find_index P xs = Some i \<Longrightarrow> P y \<Longrightarrow> (\<And>x. P x \<Longrightarrow> \<not> Q x) \<Longrightarrow>
   List.find Q (xs[i := y]) = List.find Q xs"
  by (induction xs arbitrary: i) (auto split: if_splits nat.splits)

lemma find_update_same:
  "find_index P xs = Some i \<Longrightarrow> P y \<Longrightarrow> List.find P (xs[i := y]) = Some y"
  by (induction xs arbitrary: i) (auto split: if_splits nat.splits)

lemma find_nth_first: "find_index P xs = Some i \<Longrightarrow> List.find P xs = Some (xs ! i)"
  by (induction xs arbitrary: i) (auto split: if_splits nat.splits)

lemma find_append: "List.find P (xs @ ys) = (case List.find P xs of None \<Rightarrow> List.find P ys | s \<Rightarrow> s)"
  by (induction xs) auto

text \<open>The read-modify-write step the registries share: the first record with the key is
  replaced in place, or the new record is appended.\<close>

definition upsert_by :: "('a \<Rightarrow> 'k) \<Rightarrow> ('a option \<Rightarrow> 'a) \<Rightarrow> 'k \<Rightarrow> 'a list \<Rightarrow> 'a list" where
  "upsert_by key mk k xs =
     (case find_index (\<lambda>b. key b = k) xs of
        Some i \<Rightarrow> xs[i := mk (Some (xs ! i))]
      | None \<Rightarrow> xs @ [mk None])"

definition lookup_by :: "('a \<Rightarrow> 'k) \<Rightarrow> 'a list \<Rightarrow> 'k \<Rightarrow> 'a option" where
  "lookup_by key xs k = List.find (\<lambda>b. key b = k) xs"

lemma lookup_upsert_by:
  assumes "\<And>old. key (mk old) = k"
  shows "lookup_by key (upsert_by key mk k xs) k' =
         (if k' = k then Some (mk (lookup_by key xs k)) else lookup_by key xs k')"
proof (cases "find_index (\<lambda>b. key b = k) xs")
  case None
  then have "List.find (\<lambda>b. key b = k) xs = None"
    by (simp add: find_None_iff' find_index_None)
  with None assms show ?thesis
    by (auto simp: upsert_by_def lookup_by_def find_append split: option.splits)
next
  case (Some i)
  show ?thesis
  proof (cases "k' = k")
    case True
    with Some assms show ?thesis
      by (simp add: upsert_by_def lookup_by_def find_update_same find_nth_first)
  next
    case False
    with Some assms have "List.find (\<lambda>b. key b = k') (xs[i := mk (Some (xs ! i))]) =
        List.find (\<lambda>b. key b = k') xs"
      by (intro find_update_first [of "\<lambda>b. key b = k"]) auto
    with Some False show ?thesis
      by (simp add: upsert_by_def lookup_by_def)
  qed
qed

lemma set_upsert_by: "set (upsert_by key mk k xs) \<subseteq> insert (mk (lookup_by key xs k)) (set xs)"
proof (cases "find_index (\<lambda>b. key b = k) xs")
  case None
  then have "List.find (\<lambda>b. key b = k) xs = None"
    by (simp add: find_None_iff' find_index_None)
  with None show ?thesis by (auto simp: upsert_by_def lookup_by_def)
next
  case (Some i)
  then show ?thesis
    using set_update_subset_insert by (fastforce simp: upsert_by_def lookup_by_def find_nth_first)
qed

lemma distinct_upsert_by:
  assumes "\<And>old. key (mk old) = k" and "distinct (map key xs)"
  shows "distinct (map key (upsert_by key mk k xs))"
proof (cases "find_index (\<lambda>b. key b = k) xs")
  case None
  then have "k \<notin> key ` set xs" by (auto simp: find_index_None)
  with None assms show ?thesis by (simp add: upsert_by_def)
next
  case (Some i)
  then have "i < length xs" and k: "key (xs ! i) = k"
    using find_index_Some [OF Some] by auto
  then have "map key (xs[i := mk (Some (xs ! i))]) = map key xs"
    by (metis assms(1) list_update_id map_update nth_map)
  with Some assms show ?thesis by (simp add: upsert_by_def)
qed

text \<open>A partial update replaces the first record with the key, if there is one.\<close>

lemma lookup_update_by:
  assumes i: "find_index (\<lambda>b. key b = k) xs = Some i" and key: "\<And>b. key (f b) = key b"
  shows "lookup_by key (xs[i := f (xs ! i)]) k' =
         (if k' = k then map_option f (lookup_by key xs k) else lookup_by key xs k')"
proof (cases "k' = k")
  case True
  with i find_index_Some [OF i] key show ?thesis
    by (simp add: lookup_by_def find_nth_first find_update_same)
next
  case False
  with find_index_Some [OF i] key
  have "List.find (\<lambda>b. key b = k') (xs[i := f (xs ! i)]) = List.find (\<lambda>b. key b = k') xs"
    by (intro find_update_first [OF i]) auto
  with False show ?thesis by (simp add: lookup_by_def)
qed

section \<open>The contract of a registry\<close>

text \<open>
  What the callers of a registry rely on: the record stored under a key is found again,
  the other keys are untouched, and what is stored depends on the old record of that key
  only.
\<close>

locale keyed_registry =
  fixes lookup :: "'g \<Rightarrow> 'k \<Rightarrow> 'r option"
    and upsert :: "'r \<Rightarrow> 'g \<Rightarrow> 'g"
    and key :: "'r \<Rightarrow> 'k"
    and stored :: "'r option \<Rightarrow> 'r \<Rightarrow> 'r"
  assumes lookup_upsert:
      "lookup (upsert r g) k = (if k = key r then Some (stored (lookup g (key r)) r) else lookup g k)"
begin

lemma upsert_found: "lookup (upsert r g) (key r) \<noteq> None"
  by (simp add: lookup_upsert)

lemma upsert_commute:
  "key r \<noteq> key q \<Longrightarrow> lookup (upsert r (upsert q g)) k = lookup (upsert q (upsert r g)) k"
  by (simp add: lookup_upsert)

lemma never_lost: "lookup g k \<noteq> None \<Longrightarrow> lookup (fold upsert rs g) k \<noteq> None"
proof (induction rs arbitrary: g)
  case Nil
  then show ?case by simp
next
  case (Cons r rs)
  have "lookup (upsert r g) k \<noteq> None"
    using Cons.prems by (simp add: lookup_upsert)
  from Cons.IH [OF this] show ?case by simp
qed

lemma all_recorded: "k \<in> key ` set rs \<Longrightarrow> lookup (fold upsert rs g) k \<noteq> None"
proof (induction rs arbitrary: g)
  case Nil
  then show ?case by simp
next
  case (Cons r rs)
  then show ?case
    by (cases "k \<in> key ` set rs") (use never_lost upsert_found in \<open>auto simp del: not_None_eq\<close>)
qed

lemma untouched: "k \<notin> key ` set rs \<Longrightarrow> lookup (fold upsert rs g) k = lookup g k"
  by (induction rs arbitrary: g) (auto simp: lookup_upsert)

lemma last_write:
  "lookup (fold upsert (rs @ [r]) g) (key r) = Some (stored (lookup (fold upsert rs g) (key r)) r)"
  by (simp add: lookup_upsert)

end

section \<open>Locked updates\<close>

text \<open>
  \<open>withArtifactRegistryLock\<close> and its copy for completions: \<open>mkdir\<close> on the lock path is
  tried until it succeeds. An attempt that finds the directory carries the milliseconds
  since the first one.
\<close>

datatype lock_attempt = Made | Exists nat | MkdirFailed

definition lock_timeout_ms :: nat where
  "lock_timeout_ms = 10000"

definition lock_retry_ms :: nat where
  "lock_retry_ms = 25"

text \<open>\<open>None\<close>: still waiting after the attempts given.\<close>

fun acquireLock :: "lock_attempt list \<Rightarrow> (reg_error, unit) result option" where
  "acquireLock [] = None"
| "acquireLock (Made # as) = Some (Inr ())"
| "acquireLock (MkdirFailed # as) = Some (Inl LockError)"
| "acquireLock (Exists t # as) =
     (if t \<ge> lock_timeout_ms then Some (Inl LockTimeout) else acquireLock as)"

text \<open>The attempts when the lock is never free: attempt \<open>i\<close> comes at least 25 ms after the
  one before.\<close>

definition paced :: "lock_attempt list \<Rightarrow> bool" where
  "paced as \<longleftrightarrow> (\<forall>i t. i < length as \<longrightarrow> as ! i = Exists t \<longrightarrow> t \<ge> i * lock_retry_ms)"

lemma acquireLock_waiting:
  "acquireLock as = None \<Longrightarrow> i < length as \<Longrightarrow> \<exists>t. as ! i = Exists t \<and> t < lock_timeout_ms"
  by (induction as arbitrary: i rule: acquireLock.induct)
     (auto split: if_splits simp: nth_Cons' not_le)

text \<open>
  One writer: it holds the lock while it reads the file and writes it back. \<open>op p g\<close> is
  the registry writer \<open>p\<close> saves, \<open>None\<close> when it saves nothing. An exception of the read or
  the write still releases the lock (\<open>finally\<close>). A write that fails leaves the file as it
  was, because the new text is renamed into place. A crash leaves the lock behind.
\<close>

datatype 'g phase = Outside | Locked | Have 'g | Leaving

record 'g reg_world =
  rw_lock :: "nat option"
  rw_file :: "'g reg_file"
  rw_phase :: "nat \<Rightarrow> 'g phase"
  rw_log :: "nat list"

datatype reg_action = TryMkdir nat | DoRead nat | DoWrite nat bool | DoRelease nat | Crash nat

definition reg_start :: "'g reg_file \<Rightarrow> 'g reg_world" where
  "reg_start f = \<lparr>rw_lock = None, rw_file = f, rw_phase = (\<lambda>_. Outside), rw_log = []\<rparr>"

definition set_phase :: "nat \<Rightarrow> 'g phase \<Rightarrow> 'g reg_world \<Rightarrow> 'g reg_world" where
  "set_phase p ph w = w\<lparr>rw_phase := (rw_phase w)(p := ph)\<rparr>"

definition reg_step ::
    "('g reg_file \<Rightarrow> (reg_error, 'g) result) \<Rightarrow> (nat \<Rightarrow> 'g \<Rightarrow> 'g option) \<Rightarrow>
     'g reg_world \<Rightarrow> reg_action \<Rightarrow> 'g reg_world option" where
  "reg_step load op w a =
     (case a of
        TryMkdir p \<Rightarrow>
          (case rw_phase w p of
             Outside \<Rightarrow> Some (if rw_lock w = None then set_phase p Locked (w\<lparr>rw_lock := Some p\<rparr>) else w)
           | _ \<Rightarrow> None)
      | DoRead p \<Rightarrow>
          (case rw_phase w p of
             Locked \<Rightarrow> Some (case load (rw_file w) of
                               Inl _ \<Rightarrow> set_phase p Leaving w
                             | Inr g \<Rightarrow> set_phase p (Have g) w)
           | _ \<Rightarrow> None)
      | DoWrite p written \<Rightarrow>
          (case rw_phase w p of
             Have g \<Rightarrow> Some (set_phase p Leaving
                (case op p g of
                   None \<Rightarrow> w
                 | Some g' \<Rightarrow> if written then w\<lparr>rw_file := Json g', rw_log := rw_log w @ [p]\<rparr> else w))
           | _ \<Rightarrow> None)
      | DoRelease p \<Rightarrow>
          (case rw_phase w p of
             Leaving \<Rightarrow> Some (set_phase p Outside (w\<lparr>rw_lock := None\<rparr>))
           | _ \<Rightarrow> None)
      | Crash p \<Rightarrow> Some (set_phase p Outside w))"

definition effect :: "(nat \<Rightarrow> 'g \<Rightarrow> 'g option) \<Rightarrow> nat \<Rightarrow> 'g \<Rightarrow> 'g" where
  "effect op p g = (case op p g of None \<Rightarrow> g | Some g' \<Rightarrow> g')"

text \<open>What a registry must offer for the protocol: the schema accepts what its operations
  save.\<close>

definition reg_sound ::
    "('g reg_file \<Rightarrow> (reg_error, 'g) result) \<Rightarrow> (nat \<Rightarrow> 'g \<Rightarrow> 'g option) \<Rightarrow> ('g \<Rightarrow> bool) \<Rightarrow> bool" where
  "reg_sound load op good \<longleftrightarrow>
     (\<forall>g. good g \<longrightarrow> load (Json g) = Inr g) \<and> (\<forall>p g g'. good g \<longrightarrow> op p g = Some g' \<longrightarrow> good g')"

definition reg_inv ::
    "('g reg_file \<Rightarrow> (reg_error, 'g) result) \<Rightarrow> (nat \<Rightarrow> 'g \<Rightarrow> 'g option) \<Rightarrow> ('g \<Rightarrow> bool) \<Rightarrow> 'g \<Rightarrow>
     'g reg_world \<Rightarrow> bool" where
  "reg_inv load op good g0 w \<longleftrightarrow>
     reg_sound load op good \<and> good (fold (effect op) (rw_log w) g0) \<and>
     load (rw_file w) = Inr (fold (effect op) (rw_log w) g0) \<and>
     (\<forall>p. rw_phase w p \<noteq> Outside \<longrightarrow> rw_lock w = Some p) \<and>
     (\<forall>p g. rw_phase w p = Have g \<longrightarrow> g = fold (effect op) (rw_log w) g0)"

lemma reg_inv_start:
  "reg_sound load op good \<Longrightarrow> good g \<Longrightarrow> load f = Inr g \<Longrightarrow> reg_inv load op good g (reg_start f)"
  by (simp add: reg_inv_def reg_start_def)

lemma reg_inv_step:
  assumes inv: "reg_inv load op good g0 w" and step: "reg_step load op w a = Some w'"
  shows "reg_inv load op good g0 w'"
proof (cases a)
  case (DoWrite p written)
  then obtain g where have_g: "rw_phase w p = Have g"
    using step by (auto simp: reg_step_def split: phase.splits)
  with inv have g: "g = fold (effect op) (rw_log w) g0"
    and others: "\<And>q. q \<noteq> p \<Longrightarrow> rw_phase w q = Outside" and mine: "rw_lock w = Some p"
    by (auto simp: reg_inv_def) (metis option.inject phase.distinct(3))
  have good_g: "good g" using inv g by (simp add: reg_inv_def)
  show ?thesis
  proof (cases "op p g")
    case None
    with inv step DoWrite have_g others show ?thesis
      by (auto simp: reg_step_def reg_inv_def set_phase_def split: if_splits)
  next
    case (Some g')
    have "good g'" "load (Json g') = Inr g'" "effect op p g = g'"
      using inv Some good_g by (auto simp: reg_inv_def reg_sound_def effect_def)
    show ?thesis
    proof (cases written)
      case True
      have w': "w' = set_phase p Leaving (w\<lparr>rw_file := Json g', rw_log := rw_log w @ [p]\<rparr>)"
        using step DoWrite have_g Some True by (simp add: reg_step_def)
      have "fold (effect op) (rw_log w @ [p]) g0 = g'"
        using \<open>effect op p g = g'\<close> by (simp add: g)
      with inv \<open>good g'\<close> \<open>load (Json g') = Inr g'\<close> others mine show ?thesis
        unfolding w' reg_inv_def set_phase_def by (auto split: if_splits)
    next
      case False
      then have w': "w' = set_phase p Leaving w"
        using step DoWrite have_g Some by (simp add: reg_step_def)
      from inv others mine show ?thesis
        unfolding w' reg_inv_def set_phase_def by (auto split: if_splits)
    qed
  qed
next
  case (DoRelease p)
  then have leaving: "rw_phase w p = Leaving" and w': "w' = set_phase p Outside (w\<lparr>rw_lock := None\<rparr>)"
    using step by (auto simp: reg_step_def split: phase.splits)
  with inv have "rw_phase w q = Outside" if "q \<noteq> p" for q
    using that unfolding reg_inv_def by (metis option.inject phase.distinct(5))
  with inv show ?thesis
    unfolding w' reg_inv_def set_phase_def by auto
qed (use inv step in \<open>auto simp: reg_step_def reg_inv_def set_phase_def split: phase.splits sum.splits if_splits\<close>)

interpretation reg: machine "reg_step load op" "reg_inv load op good g0" for load op good g0
  by unfold_locales (rule reg_inv_step)

text \<open>No update is lost: what a load gives is the log of committed updates applied in order.\<close>

lemma reg_run_load:
  "reg_sound load op good \<Longrightarrow> good g \<Longrightarrow> load f = Inr g \<Longrightarrow> reg.run load op (reg_start f) as = Some w \<Longrightarrow>
   load (rw_file w) = Inr (fold (effect op) (rw_log w) g)"
  using reg.run_inv [of load op good g "reg_start f" as w] reg_inv_start [of load op good g f]
  by (simp add: reg_inv_def)

lemma reg_run_exclusive:
  "reg_sound load op good \<Longrightarrow> good g \<Longrightarrow> load f = Inr g \<Longrightarrow> reg.run load op (reg_start f) as = Some w \<Longrightarrow>
   rw_phase w p \<noteq> Outside \<Longrightarrow> rw_phase w q \<noteq> Outside \<Longrightarrow> p = q"
  using reg.run_inv [of load op good g "reg_start f" as w] reg_inv_start [of load op good g f]
  by (simp add: reg_inv_def) (metis option.inject)

text \<open>A lock whose holder is gone stays: nothing but its holder removes it.\<close>

definition wedged :: "'g reg_world \<Rightarrow> bool" where
  "wedged w \<longleftrightarrow> rw_lock w \<noteq> None \<and> (\<forall>p. rw_phase w p = Outside)"

lemma wedged_step: "wedged w \<Longrightarrow> reg_step load op w a = Some w' \<Longrightarrow> w' = w"
  by (cases a) (auto simp: wedged_def reg_step_def set_phase_def fun_upd_idem split: if_splits)

lemma wedged_run: "wedged w \<Longrightarrow> reg.run load op w as = Some w' \<Longrightarrow> w' = w"
  by (induction as arbitrary: w) (auto split: option.splits dest: wedged_step)

section \<open>The artifact registry\<close>

datatype built = Built

record artifact =
  ar_prdId :: prd_id
  ar_artifactBranch :: string
  ar_commitSha :: string
  ar_resolvedBase :: string
  ar_landingAction :: landing_action
  ar_status :: built
  ar_recordedAt :: string
  ar_updatedAt :: string
  ar_landingStatus :: "landing_status option"
  ar_prUrl :: "string option"
  ar_landingCompletedAt :: "string option"
  ar_landingFailureReason :: "string option"

text \<open>\<open>artifactRecordSchema\<close>: the fields with \<open>min(1)\<close> are not empty.\<close>

definition artifact_ok :: "artifact \<Rightarrow> bool" where
  "artifact_ok b \<longleftrightarrow> ar_prdId b \<noteq> [] \<and> ar_artifactBranch b \<noteq> [] \<and> ar_commitSha b \<noteq> [] \<and>
     ar_resolvedBase b \<noteq> [] \<and> ar_recordedAt b \<noteq> [] \<and> ar_updatedAt b \<noteq> []"

definition loadArtifactRegistry :: "artifact list reg_file \<Rightarrow> (reg_error, artifact list) result" where
  "loadArtifactRegistry f =
     (case f of
        NoFile \<Rightarrow> Inr []
      | Unreadable \<Rightarrow> Inl ReadError
      | BadJson \<Rightarrow> Inr []
      | Json bs \<Rightarrow> Inr (if list_all artifact_ok bs then bs else []))"

text \<open>\<open>upsertArtifact\<close> inside the lock: the first creation time survives retries.\<close>

definition stored_artifact :: "string \<Rightarrow> artifact \<Rightarrow> artifact option \<Rightarrow> artifact" where
  "stored_artifact now r old =
     r\<lparr>ar_recordedAt := (case old of Some o' \<Rightarrow> ar_recordedAt o' | None \<Rightarrow> ar_recordedAt r),
       ar_updatedAt := now\<rparr>"

definition upsertArtifact :: "string \<Rightarrow> artifact \<Rightarrow> artifact list \<Rightarrow> artifact list" where
  "upsertArtifact now r bs = upsert_by ar_prdId (stored_artifact now r) (ar_prdId r) bs"

definition lookupArtifactByPrdId :: "artifact list \<Rightarrow> prd_id \<Rightarrow> artifact option" where
  "lookupArtifactByPrdId bs prd = List.find (\<lambda>b. ar_prdId b = prd) bs"

definition hasUsableArtifact :: "artifact list \<Rightarrow> prd_id \<Rightarrow> bool" where
  "hasUsableArtifact bs prd =
     (case lookupArtifactByPrdId bs prd of Some r \<Rightarrow> ar_status r = Built | None \<Rightarrow> False)"

text \<open>\<open>ArtifactRecordUpdates\<close>: \<open>None\<close> is a key that is absent; an optional field may be
  present and undefined.\<close>

record artifact_updates =
  au_artifactBranch :: "string option"
  au_commitSha :: "string option"
  au_resolvedBase :: "string option"
  au_landingAction :: "landing_action option"
  au_landingStatus :: "landing_status option option"
  au_prUrl :: "string option option"
  au_landingCompletedAt :: "string option option"
  au_landingFailureReason :: "string option option"

definition over :: "'a option \<Rightarrow> 'a \<Rightarrow> 'a" where
  "over u x = (case u of None \<Rightarrow> x | Some y \<Rightarrow> y)"

definition merge_updates :: "string \<Rightarrow> artifact_updates \<Rightarrow> artifact \<Rightarrow> artifact" where
  "merge_updates now u b = b\<lparr>
     ar_artifactBranch := over (au_artifactBranch u) (ar_artifactBranch b),
     ar_commitSha := over (au_commitSha u) (ar_commitSha b),
     ar_resolvedBase := over (au_resolvedBase u) (ar_resolvedBase b),
     ar_landingAction := over (au_landingAction u) (ar_landingAction b),
     ar_landingStatus := over (au_landingStatus u) (ar_landingStatus b),
     ar_prUrl := over (au_prUrl u) (ar_prUrl b),
     ar_landingCompletedAt := over (au_landingCompletedAt u) (ar_landingCompletedAt b),
     ar_landingFailureReason := over (au_landingFailureReason u) (ar_landingFailureReason b),
     ar_updatedAt := now\<rparr>"

text \<open>\<open>updateArtifactRecord\<close>: \<open>None\<close> when there is no record, and then nothing is saved.\<close>

definition updateArtifactRecord ::
    "string \<Rightarrow> prd_id \<Rightarrow> artifact_updates \<Rightarrow> artifact list \<Rightarrow> artifact list option" where
  "updateArtifactRecord now prd u bs =
     (case find_index (\<lambda>b. ar_prdId b = prd) bs of
        None \<Rightarrow> None
      | Some i \<Rightarrow> Some (bs[i := merge_updates now u (bs ! i)]))"

lemma stored_artifact_simps [simp]:
  "ar_prdId (stored_artifact now r old) = ar_prdId r"
  "ar_status (stored_artifact now r old) = ar_status r"
  "ar_updatedAt (stored_artifact now r old) = now"
  by (simp_all add: stored_artifact_def)

lemma merge_updates_simps [simp]:
  "ar_prdId (merge_updates now u b) = ar_prdId b"
  "ar_recordedAt (merge_updates now u b) = ar_recordedAt b"
  "ar_updatedAt (merge_updates now u b) = now"
  by (simp_all add: merge_updates_def)

lemma lookup_artifact_by: "lookupArtifactByPrdId = lookup_by ar_prdId"
  by (intro ext) (simp add: lookupArtifactByPrdId_def lookup_by_def)

lemma lookup_upsertArtifact:
  "lookupArtifactByPrdId (upsertArtifact now r bs) k =
     (if k = ar_prdId r then Some (stored_artifact now r (lookupArtifactByPrdId bs (ar_prdId r)))
      else lookupArtifactByPrdId bs k)"
  by (simp add: lookup_artifact_by upsertArtifact_def lookup_upsert_by)

interpretation artifacts: keyed_registry lookupArtifactByPrdId "upsertArtifact now" ar_prdId
    "\<lambda>old r. stored_artifact now r old" for now
  by unfold_locales (simp add: lookup_upsertArtifact)

lemma hasUsableArtifact_iff: "hasUsableArtifact bs k \<longleftrightarrow> lookupArtifactByPrdId bs k \<noteq> None"
  using built.exhaust by (auto simp: hasUsableArtifact_def split: option.splits)

lemma updateArtifactRecord_lookup:
  assumes "updateArtifactRecord now prd u bs = Some bs'"
  shows "lookupArtifactByPrdId bs' k =
    (if k = prd then map_option (merge_updates now u) (lookupArtifactByPrdId bs prd)
     else lookupArtifactByPrdId bs k)"
proof -
  obtain i where "find_index (\<lambda>b. ar_prdId b = prd) bs = Some i"
    and "bs' = bs[i := merge_updates now u (bs ! i)]"
    using assms by (auto simp: updateArtifactRecord_def split: option.splits)
  then show ?thesis
    using lookup_update_by [of ar_prdId prd bs i "merge_updates now u"]
    by (simp add: lookup_artifact_by)
qed

text \<open>The operations of concurrent writers: writer \<open>p\<close> records an artifact or updates one.\<close>

datatype artifact_op = Record artifact | Update prd_id artifact_updates

definition artifact_op :: "(nat \<Rightarrow> string) \<Rightarrow> (nat \<Rightarrow> artifact_op) \<Rightarrow> nat \<Rightarrow> artifact list \<Rightarrow> artifact list option" where
  "artifact_op now ops p bs =
     (case ops p of
        Record r \<Rightarrow> Some (upsertArtifact (now p) r bs)
      | Update prd u \<Rightarrow> updateArtifactRecord (now p) prd u bs)"

definition updates_ok :: "artifact_updates \<Rightarrow> bool" where
  "updates_ok u \<longleftrightarrow> au_artifactBranch u \<noteq> Some [] \<and> au_commitSha u \<noteq> Some [] \<and> au_resolvedBase u \<noteq> Some []"

definition artifact_op_ok :: "artifact_op \<Rightarrow> bool" where
  "artifact_op_ok c = (case c of Record r \<Rightarrow> artifact_ok r | Update _ u \<Rightarrow> updates_ok u)"

lemma stored_artifact_ok:
  "artifact_ok r \<Longrightarrow> now \<noteq> [] \<Longrightarrow> (\<And>o'. old = Some o' \<Longrightarrow> artifact_ok o') \<Longrightarrow>
   artifact_ok (stored_artifact now r old)"
  by (cases old) (auto simp: artifact_ok_def stored_artifact_def)

lemma merge_updates_ok:
  "artifact_ok b \<Longrightarrow> updates_ok u \<Longrightarrow> now \<noteq> [] \<Longrightarrow> artifact_ok (merge_updates now u b)"
  by (auto simp: artifact_ok_def merge_updates_def updates_ok_def over_def split: option.splits)

lemma upsertArtifact_ok:
  assumes "list_all artifact_ok bs" "artifact_ok r" "now \<noteq> []"
  shows "list_all artifact_ok (upsertArtifact now r bs)"
proof -
  have "artifact_ok (stored_artifact now r (lookup_by ar_prdId bs (ar_prdId r)))"
    using assms by (intro stored_artifact_ok) (auto simp: lookup_by_def list_all_iff dest!: find_SomeD)
  moreover have "set (upsertArtifact now r bs) \<subseteq>
      insert (stored_artifact now r (lookup_by ar_prdId bs (ar_prdId r))) (set bs)"
    unfolding upsertArtifact_def by (rule set_upsert_by)
  ultimately show ?thesis using assms(1) by (auto simp: list_all_iff)
qed

lemma updateArtifactRecord_ok:
  assumes "list_all artifact_ok bs" "updates_ok u" "now \<noteq> []" "updateArtifactRecord now prd u bs = Some bs'"
  shows "list_all artifact_ok bs'"
proof -
  obtain i where i: "find_index (\<lambda>b. ar_prdId b = prd) bs = Some i"
    and bs': "bs' = bs[i := merge_updates now u (bs ! i)]"
    using assms(4) by (auto simp: updateArtifactRecord_def split: option.splits)
  then have "artifact_ok (merge_updates now u (bs ! i))"
    using find_index_Some [OF i] assms by (intro merge_updates_ok) (auto simp: list_all_iff)
  then show ?thesis
    using assms(1) set_update_subset_insert [of bs i] unfolding bs' list_all_iff by blast
qed

lemma artifact_reg_sound:
  assumes "\<And>p. artifact_op_ok (ops p)" and "\<And>p. now p \<noteq> []"
  shows "reg_sound loadArtifactRegistry (artifact_op now ops) (list_all artifact_ok)"
  unfolding reg_sound_def
proof (intro conjI allI impI)
  fix p g g'
  assume "list_all artifact_ok g" "artifact_op now ops p g = Some g'"
  then show "list_all artifact_ok g'"
    using assms [of p]
    by (cases "ops p")
       (auto simp: artifact_op_def artifact_op_ok_def intro: upsertArtifact_ok updateArtifactRecord_ok)
qed (simp add: loadArtifactRegistry_def)

lemma artifact_op_keeps:
  "lookupArtifactByPrdId g k \<noteq> None \<Longrightarrow> lookupArtifactByPrdId (effect (artifact_op now ops) p g) k \<noteq> None"
  by (cases "ops p")
     (auto simp: effect_def artifact_op_def lookup_upsertArtifact updateArtifactRecord_lookup
           split: option.splits)

lemma fold_artifact_keeps:
  "lookupArtifactByPrdId g k \<noteq> None \<Longrightarrow>
   lookupArtifactByPrdId (fold (effect (artifact_op now ops)) ps g) k \<noteq> None"
proof (induction ps arbitrary: g)
  case Nil
  then show ?case by simp
next
  case (Cons p ps)
  from Cons.IH [OF artifact_op_keeps [OF Cons.prems]] show ?case by simp
qed

lemma fold_artifact_records:
  "p \<in> set ps \<Longrightarrow> ops p = Record r \<Longrightarrow>
   lookupArtifactByPrdId (fold (effect (artifact_op now ops)) ps g) (ar_prdId r) \<noteq> None"
proof (induction ps arbitrary: g)
  case Nil
  then show ?case by simp
next
  case (Cons q ps)
  show ?case
  proof (cases "p = q")
    case True
    then have "lookupArtifactByPrdId (effect (artifact_op now ops) q g) (ar_prdId r) \<noteq> None"
      using Cons.prems by (simp add: effect_def artifact_op_def lookup_upsertArtifact)
    from fold_artifact_keeps [OF this] show ?thesis by simp
  next
    case False
    with Cons show ?thesis by simp
  qed
qed

section \<open>The completion registry\<close>

datatype completion_status = CCompleted | CFailed | CSkipped

record completion =
  co_prdId :: prd_id
  co_status :: completion_status
  co_artifactAvailable :: bool
  co_artifactBranch :: "string option"
  co_completedAt :: string
  co_updatedAt :: string

definition completion_ok :: "completion \<Rightarrow> bool" where
  "completion_ok c \<longleftrightarrow> co_prdId c \<noteq> [] \<and> co_completedAt c \<noteq> [] \<and> co_updatedAt c \<noteq> []"

type_synonym completions = "(prd_id \<times> completion) list"

definition loadCompletionRegistry :: "completions reg_file \<Rightarrow> (reg_error, completions) result" where
  "loadCompletionRegistry f =
     (case f of
        NoFile \<Rightarrow> Inr []
      | Unreadable \<Rightarrow> Inl ReadError
      | BadJson \<Rightarrow> Inr []
      | Json cs \<Rightarrow> Inr (if list_all (\<lambda>(_, c). completion_ok c) cs then cs else []))"

definition upsertCompletion :: "string \<Rightarrow> completion \<Rightarrow> completions \<Rightarrow> completions" where
  "upsertCompletion now c cs = dput (co_prdId c) (c\<lparr>co_updatedAt := now\<rparr>) cs"

definition lookupCompletion :: "completions \<Rightarrow> prd_id \<Rightarrow> completion option" where
  "lookupCompletion cs prd = dget cs prd"

interpretation completions: keyed_registry lookupCompletion "upsertCompletion now" co_prdId
    "\<lambda>_ c. c\<lparr>co_updatedAt := now\<rparr>" for now
  by unfold_locales (simp add: lookupCompletion_def upsertCompletion_def)

lemma completion_reg_sound:
  assumes "\<And>p. completion_ok (cs p)" and "\<And>p. now p \<noteq> []"
  shows "reg_sound loadCompletionRegistry (\<lambda>p g. Some (upsertCompletion (now p) (cs p) g))
           (list_all (\<lambda>(_, c). completion_ok c))"
proof -
  have "list_all (\<lambda>(_, c). completion_ok c) (upsertCompletion (now p) (cs p) g)"
    if "list_all (\<lambda>(_, c). completion_ok c) g" for p g
  proof -
    have "completion_ok ((cs p)\<lparr>co_updatedAt := now p\<rparr>)"
      using assms [of p] by (simp add: completion_ok_def)
    with that show ?thesis
      unfolding upsertCompletion_def by (induction g) auto
  qed
  then show ?thesis by (auto simp: reg_sound_def loadCompletionRegistry_def)
qed

section \<open>Properties\<close>

definition demo_artifact :: artifact where
  "demo_artifact = \<lparr>ar_prdId = ''a'', ar_artifactBranch = ''eforge/a'', ar_commitSha = ''c0'',
     ar_resolvedBase = ''main'', ar_landingAction = LandPr, ar_status = Built,
     ar_recordedAt = ''t0'', ar_updatedAt = ''t0'', ar_landingStatus = None, ar_prUrl = None,
     ar_landingCompletedAt = None, ar_landingFailureReason = None\<rparr>"

definition demo_updates :: artifact_updates where
  "demo_updates = \<lparr>au_artifactBranch = None, au_commitSha = None, au_resolvedBase = None,
     au_landingAction = None, au_landingStatus = Some (Some LandingComplete), au_prUrl = Some (Some ''url''),
     au_landingCompletedAt = Some (Some ''t1''), au_landingFailureReason = None\<rparr>"

definition demo_ops :: "nat \<Rightarrow> artifact_op" where
  "demo_ops p = (if p = 0 then Record demo_artifact else Update ''a'' demo_updates)"

text \<open> C38. Concurrent writers of the artifact registry, each taking the lock directory, reading,
  changing and renaming the file, lose no update: after any interleaving (crashes included)
  a load gives the committed updates applied in the order in which they were committed. \<close>
theorem artifact_updates_not_lost:
  assumes "\<And>p. artifact_op_ok (ops p)" and "\<And>p. now p \<noteq> []"
    and "list_all artifact_ok bs" and "loadArtifactRegistry f = Inr bs"
    and "reg.run loadArtifactRegistry (artifact_op now ops) (reg_start f) as = Some w"
  shows "loadArtifactRegistry (rw_file w) = Inr (fold (effect (artifact_op now ops)) (rw_log w) bs)"
  by (rule reg_run_load [OF artifact_reg_sound assms(3,4,5)]) (use assms in auto)

theorem artifact_updates_not_lost_witness:
  "\<exists>w. reg.run loadArtifactRegistry (artifact_op (\<lambda>_. ''t2'') demo_ops)
      (reg_start NoFile) [TryMkdir 0, TryMkdir 1, DoRead 0, DoWrite 0 True, DoRelease 0,
        TryMkdir 1, DoRead 1, DoWrite 1 True] = Some w \<and>
    loadArtifactRegistry (rw_file w) = Inr [demo_artifact\<lparr>ar_updatedAt := ''t2'', ar_landingStatus := Some LandingComplete,
       ar_prUrl := Some ''url'', ar_landingCompletedAt := Some ''t1''\<rparr>]"
proof -
  let ?op = "artifact_op (\<lambda>_. ''t2'') demo_ops"
  let ?as = "[TryMkdir 0, TryMkdir 1, DoRead 0, DoWrite 0 True, DoRelease 0,
        TryMkdir 1, DoRead 1, DoWrite 1 True]"
  have ok: "artifact_op_ok (demo_ops p)" for p
    by (simp add: artifact_op_ok_def demo_ops_def demo_artifact_def artifact_ok_def updates_ok_def
        demo_updates_def)
  obtain w where w: "reg.run loadArtifactRegistry ?op (reg_start NoFile) ?as = Some w" "rw_log w = [0, 1]"
    by (simp add: reg_start_def reg_step_def set_phase_def loadArtifactRegistry_def artifact_op_def
        demo_ops_def upsertArtifact_def upsert_by_def demo_artifact_def updateArtifactRecord_def
        artifact_ok_def stored_artifact_def)
  have "loadArtifactRegistry (rw_file w) = Inr (fold (effect ?op) (rw_log w) [])"
    by (rule artifact_updates_not_lost [OF ok _ _ _ w(1)]) (simp_all add: loadArtifactRegistry_def)
  then have "loadArtifactRegistry (rw_file w) = Inr [demo_artifact\<lparr>ar_updatedAt := ''t2'',
      ar_landingStatus := Some LandingComplete, ar_prUrl := Some ''url'', ar_landingCompletedAt := Some ''t1''\<rparr>]"
    by (simp add: w effect_def artifact_op_def demo_ops_def upsertArtifact_def upsert_by_def
        demo_artifact_def demo_updates_def updateArtifactRecord_def merge_updates_def over_def
        stored_artifact_def)
  with w(1) show ?thesis by blast
qed

text \<open> A recorded artifact stays usable: once a writer has committed the record of a build,
  every later state of the registry offers a usable artifact for that PRD, whatever the
  other writers do. \<close>
theorem recorded_artifact_stays_usable:
  assumes "\<And>p. artifact_op_ok (ops p)" and "\<And>p. now p \<noteq> []"
    and "list_all artifact_ok bs" and "loadArtifactRegistry f = Inr bs"
    and "reg.run loadArtifactRegistry (artifact_op now ops) (reg_start f) as = Some w"
    and "p \<in> set (rw_log w)" and "ops p = Record r"
  shows "\<exists>bs'. loadArtifactRegistry (rw_file w) = Inr bs' \<and> hasUsableArtifact bs' (ar_prdId r)"
proof -
  have "loadArtifactRegistry (rw_file w) = Inr (fold (effect (artifact_op now ops)) (rw_log w) bs)"
    by (rule reg_run_load [OF artifact_reg_sound assms(3,4,5)]) (use assms in auto)
  with fold_artifact_records [of p "rw_log w" ops r now bs] assms(6,7) show ?thesis
    by (auto simp: hasUsableArtifact_iff)
qed

theorem recorded_artifact_stays_usable_witness:
  "\<exists>w bs'. reg.run loadArtifactRegistry (artifact_op (\<lambda>_. ''t2'') demo_ops) (reg_start BadJson)
      [TryMkdir 0, DoRead 0, DoWrite 0 True, Crash 0, TryMkdir 1] = Some w \<and>
    loadArtifactRegistry (rw_file w) = Inr bs' \<and> hasUsableArtifact bs' ''a''"
proof -
  let ?op = "artifact_op (\<lambda>_. ''t2'') demo_ops"
  have ok: "artifact_op_ok (demo_ops p)" for p
    by (simp add: artifact_op_ok_def demo_ops_def demo_artifact_def artifact_ok_def updates_ok_def
        demo_updates_def)
  obtain w where w: "reg.run loadArtifactRegistry ?op (reg_start BadJson)
      [TryMkdir 0, DoRead 0, DoWrite 0 True, Crash 0, TryMkdir 1] = Some w" "rw_log w = [0]"
    by (simp add: reg_start_def reg_step_def set_phase_def loadArtifactRegistry_def artifact_op_def
        demo_ops_def upsertArtifact_def upsert_by_def)
  have "\<exists>bs'. loadArtifactRegistry (rw_file w) = Inr bs' \<and> hasUsableArtifact bs' (ar_prdId demo_artifact)"
    by (rule recorded_artifact_stays_usable [OF ok _ _ _ w(1), of "[]" 0])
       (simp_all add: loadArtifactRegistry_def w demo_ops_def)
  with w(1) show ?thesis by (auto simp: demo_artifact_def)
qed

text \<open> Waiting for the lock directory is bounded: attempts at least 25 ms apart are given up
  with a timeout or end otherwise after at most 401 of them. \<close>
theorem lock_wait_bounded:
  assumes "paced as" and "length as > 400"
  shows "acquireLock as \<noteq> None"
proof
  assume "acquireLock as = None"
  from acquireLock_waiting [OF this assms(2)] obtain t where
    t: "as ! 400 = Exists t" "t < lock_timeout_ms" by blast
  with assms have "t \<ge> 400 * lock_retry_ms" by (auto simp: paced_def)
  with t show False by (simp add: lock_timeout_ms_def lock_retry_ms_def)
qed

theorem lock_wait_bounded_witness:
  "acquireLock (map (\<lambda>i. Exists (30 * i)) [0..<401]) \<noteq> None"
  by (rule lock_wait_bounded) (auto simp: paced_def lock_retry_ms_def)

end
