(* ===== verification/LockFile.thy ===== *)
theory LockFile
  imports Prelude
begin

text \<open>
  Pid lock files: how the text of a lock file is classified
  (\<open>readPrdLockStatus\<close> of \<open>prd-queue.ts\<close>, \<open>isStackStateLockStale\<close> of
  \<open>stacking/state.ts\<close>), and two protocols on top of it: the claim of a PRD, which never
  breaks a lock, and the lock of the stack state, which removes a stale one.
\<close>

section \<open>The text of a lock\<close>

text \<open>\<open>String.prototype.trim\<close> and \<open>/^[0-9]+$/\<close> on 8-bit characters.\<close>

definition is_ws :: "char \<Rightarrow> bool" where
  "is_ws c \<longleftrightarrow> (of_char c :: nat) \<in> {9, 10, 11, 12, 13, 32, 160}"

definition trim :: "string \<Rightarrow> string" where
  "trim s = rev (dropWhile is_ws (rev (dropWhile is_ws s)))"

definition is_digit :: "char \<Rightarrow> bool" where
  "is_digit c \<longleftrightarrow> 48 \<le> (of_char c :: nat) \<and> (of_char c :: nat) \<le> 57"

definition all_digits :: "string \<Rightarrow> bool" where
  "all_digits s \<longleftrightarrow> s \<noteq> [] \<and> list_all is_digit s"

definition dec_val :: "string \<Rightarrow> nat" where
  "dec_val s = foldl (\<lambda>n c. 10 * n + (of_char c - 48)) 0 s"

datatype lock_read = LockAbsent | LockReadError | LockText string

text \<open>\<open>process.kill(pid, 0)\<close>: a pid that is not a 32-bit integer is refused with another
  error code.\<close>

datatype probe = Signalled | ESRCH | EPERM | OtherErrno

definition kill0 :: "(nat \<Rightarrow> probe) \<Rightarrow> nat \<Rightarrow> probe" where
  "kill0 os pid = (if pid < 2 ^ 31 then os pid else OtherErrno)"

datatype prd_lock = Absent | Live nat | Stale nat | Corrupt

definition max_safe :: nat where
  "max_safe = 2 ^ 53 - 1"

definition readPrdLockStatus :: "(nat \<Rightarrow> probe) \<Rightarrow> lock_read \<Rightarrow> prd_lock option" where
  "readPrdLockStatus os r =
     (case r of
        LockAbsent \<Rightarrow> Some Absent
      | LockReadError \<Rightarrow> None
      | LockText content \<Rightarrow>
          (let trimmed = trim content in
           if \<not> all_digits trimmed then Some Corrupt
           else let pid = dec_val trimmed in
             if pid > max_safe \<or> pid = 0 then Some Corrupt
             else Some (case kill0 os pid of
                          Signalled \<Rightarrow> Live pid
                        | EPERM \<Rightarrow> Live pid
                        | _ \<Rightarrow> Stale pid)))"

text \<open>The same question asked of the stack lock: an empty lock is stale after five seconds
  (\<open>age\<close> is \<open>None\<close> when \<open>stat\<close> fails), and only ESRCH proves the holder gone. A decimal
  beyond the largest double is infinite.\<close>

definition empty_lock_stale_ms :: nat where
  "empty_lock_stale_ms = 5000"

definition isStackStateLockStale :: "(nat \<Rightarrow> probe) \<Rightarrow> nat option \<Rightarrow> lock_read \<Rightarrow> bool" where
  "isStackStateLockStale os age r =
     (case r of
        LockText content \<Rightarrow>
          (let trimmedPid = trim content in
           if trimmedPid = [] then (case age of Some a \<Rightarrow> a > empty_lock_stale_ms | None \<Rightarrow> False)
           else if \<not> all_digits trimmedPid then True
           else let pid = dec_val trimmedPid in
             if pid \<ge> 2 ^ 1024 - 2 ^ 970 \<or> pid = 0 then True
             else kill0 os pid = ESRCH)
      | _ \<Rightarrow> False)"

text \<open>The two classifications of the same text differ only where the errno is not
  conclusive or the text is empty or out of range.\<close>

lemma lock_classes_agree:
  assumes "trim content \<noteq> []" and "kill0 os (dec_val (trim content)) \<noteq> OtherErrno"
    and "dec_val (trim content) \<le> max_safe"
  shows "isStackStateLockStale os age (LockText content) \<longleftrightarrow>
    (\<exists>pid. readPrdLockStatus os (LockText content) \<in> {Some (Stale pid), Some Corrupt})"
proof -
  have "dec_val (trim content) < 2 ^ 1024 - 2 ^ 970"
    using assms(3) unfolding max_safe_def by (rule le_less_trans) simp
  with assms show ?thesis
    by (auto simp: isStackStateLockStale_def readPrdLockStatus_def Let_def split: probe.splits)
qed

text \<open>\<open>String(pid)\<close>.\<close>

fun dec_string :: "nat \<Rightarrow> string" where
  "dec_string n = (if n < 10 then [char_of (48 + n)] else dec_string (n div 10) @ [char_of (48 + n mod 10)])"

declare dec_string.simps [simp del]

lemma of_char_digit: "n < 10 \<Longrightarrow> (of_char (char_of (48 + n) :: char) :: nat) = 48 + n"
  by simp

lemma dec_string_digits: "all_digits (dec_string n)"
  by (induction n rule: dec_string.induct)
     (subst dec_string.simps, auto simp: all_digits_def is_digit_def)

lemma dec_string_val: "dec_val (dec_string n) = n"
proof (induction n rule: dec_string.induct)
  case (1 n)
  show ?case
  proof (cases "n < 10")
    case True
    then show ?thesis by (subst dec_string.simps) (simp add: dec_val_def)
  next
    case False
    with 1 show ?thesis
      by (subst dec_string.simps) (simp add: dec_val_def)
  qed
qed

lemma is_digit_not_ws: "is_digit c \<Longrightarrow> \<not> is_ws c"
  by (auto simp: is_digit_def is_ws_def)

lemma trim_digits: "all_digits s \<Longrightarrow> trim s = s"
proof -
  assume "all_digits s"
  then have nows: "\<forall>c \<in> set s. \<not> is_ws c"
    by (auto simp: all_digits_def list_all_iff dest: is_digit_not_ws)
  have "dropWhile is_ws t = t" if "\<forall>c \<in> set t. \<not> is_ws c" for t :: string
    using that by (cases t) auto
  from this [of s] this [of "rev s"] nows show ?thesis by (simp add: trim_def)
qed

text \<open>A lock written with \<open>String(process.pid)\<close> is read back as that pid.\<close>

lemma readPrdLockStatus_written:
  assumes "0 < pid" "pid < 2 ^ 31"
  shows "readPrdLockStatus os (LockText (dec_string pid)) =
    Some (case os pid of Signalled \<Rightarrow> Live pid | EPERM \<Rightarrow> Live pid | _ \<Rightarrow> Stale pid)"
proof -
  have "pid \<le> max_safe" using assms by (simp add: max_safe_def)
  with assms show ?thesis
    by (simp add: readPrdLockStatus_def trim_digits dec_string_digits dec_string_val kill0_def)
qed

section \<open>The claim of a PRD\<close>

text \<open>
  \<open>claimPrd\<close>: \<open>open\<close> with \<open>O_CREAT | O_EXCL\<close> creates the lock or fails with EEXIST, and
  then the claimer does not get it; \<open>releasePrd\<close> removes the lock whoever made it and
  ignores ENOENT. The locks of all the PRDs are a dictionary from the PRD to the pid text.
\<close>

type_synonym lock_dir = "(prd_id \<times> string) list"

definition claimPrd :: "nat \<Rightarrow> prd_id \<Rightarrow> lock_dir \<Rightarrow> lock_dir \<times> bool" where
  "claimPrd pid prd locks =
     (case dget locks prd of
        Some _ \<Rightarrow> (locks, False)
      | None \<Rightarrow> (dput prd (dec_string pid) locks, True))"

definition releasePrd :: "prd_id \<Rightarrow> lock_dir \<Rightarrow> lock_dir" where
  "releasePrd prd locks = ddel prd locks"

definition isPrdRunning :: "prd_id \<Rightarrow> lock_dir \<Rightarrow> bool" where
  "isPrdRunning prd locks \<longleftrightarrow> dget locks prd \<noteq> None"

definition read_lock :: "lock_dir \<Rightarrow> prd_id \<Rightarrow> lock_read" where
  "read_lock locks prd = (case dget locks prd of None \<Rightarrow> LockAbsent | Some c \<Rightarrow> LockText c)"

text \<open>What the callers of a lock rely on.\<close>

locale exclusive_lock =
  fixes claim :: "'o \<Rightarrow> 'k \<Rightarrow> 's \<Rightarrow> 's \<times> bool"
    and release :: "'k \<Rightarrow> 's \<Rightarrow> 's"
    and held :: "'s \<Rightarrow> 'k \<Rightarrow> bool"
  assumes claim_free: "\<not> held s k \<Longrightarrow> snd (claim q k s) \<and> held (fst (claim q k s)) k"
    and claim_held: "held s k \<Longrightarrow> claim q k s = (s, False)"
    and claim_other: "k' \<noteq> k \<Longrightarrow> held (fst (claim q k s)) k' = held s k'"
    and release_frees: "\<not> held (release k s) k"
    and release_other: "k' \<noteq> k \<Longrightarrow> held (release k s) k' = held s k'"
begin

lemma second_claim_fails:
  "claim q k s = (s', True) \<Longrightarrow> claim q' k s' = (s', False)"
  using claim_free [of s k q] claim_held [of s k q] claim_held [of s' k q'] by (cases "held s k") auto

lemma claim_iff_free: "snd (claim q k s) \<longleftrightarrow> \<not> held s k"
  using claim_free claim_held by fastforce

primrec claims :: "('o \<times> 'k) list \<Rightarrow> 's \<Rightarrow> 's \<times> ('o \<times> 'k) list" where
  "claims [] s = (s, [])"
| "claims (c # cs) s =
     (let (s', ok) = claim (fst c) (snd c) s; (s'', won) = claims cs s'
      in (s'', if ok then c # won else won))"

text \<open>Of any sequence of claims without a release, at most one per key wins, and none does
  where the lock is held.\<close>

lemma claims_distinct:
  "distinct (map snd (snd (claims cs s))) \<and> (\<forall>k \<in> set (map snd (snd (claims cs s))). \<not> held s k)"
proof (induction cs arbitrary: s)
  case Nil
  then show ?case by simp
next
  case (Cons c cs)
  obtain q k where c: "c = (q, k)" by (cases c)
  obtain s' ok where cl: "claim q k s = (s', ok)" by (cases "claim q k s")
  have rest: "distinct (map snd (snd (claims cs s')))"
    "\<And>k'. k' \<in> set (map snd (snd (claims cs s'))) \<Longrightarrow> \<not> held s' k'"
    using Cons.IH [of s'] by blast+
  have other: "held s' k' = held s k'" if "k' \<noteq> k" for k'
    using claim_other [OF that, of q s] cl by simp
  show ?case
  proof (cases ok)
    case True
    then have "\<not> held s k" "held s' k"
      using claim_free [of s k q] claim_held [of s k q] cl by (cases "held s k"; simp)+
    with rest other cl True c show ?thesis
      by (auto simp: split_beta Let_def) (metis image_eqI snd_conv)+
  next
    case False
    then have "s' = s"
      using claim_free [of s k q] claim_held [of s k q] cl by (cases "held s k") auto
    with rest cl False c show ?thesis by (simp add: split_beta Let_def)
  qed
qed

end

interpretation prd_claim: exclusive_lock claimPrd releasePrd "\<lambda>locks prd. isPrdRunning prd locks"
  by unfold_locales
     (auto simp: claimPrd_def releasePrd_def isPrdRunning_def split: option.splits)

section \<open>The lock of the stack state\<close>

text \<open>
  \<open>withStackStateLock\<close>: processes retry \<open>open(lockPath, 'wx')\<close>; on EEXIST a process asks
  whether the lock is stale and, if it is, removes the path and retries. The question and
  the removal are separate steps. The lock file is the pid of its creator. \<open>Leave\<close> is the
  \<open>finally\<close> that removes the path.
\<close>

datatype waiter = Trying | FoundStale | Inside | Gone

record lock_world =
  lw_file :: "nat option"
  lw_alive :: "nat \<Rightarrow> bool"
  lw_proc :: "nat \<Rightarrow> waiter"

datatype lock_step = Open nat | Check nat | Remove nat | Leave nat | Die nat

definition lock_start :: lock_world where
  "lock_start = \<lparr>lw_file = None, lw_alive = (\<lambda>_. True), lw_proc = (\<lambda>_. Trying)\<rparr>"

definition proc_os :: "lock_world \<Rightarrow> nat \<Rightarrow> probe" where
  "proc_os w pid = (if lw_alive w pid then Signalled else ESRCH)"

definition lock_text :: "lock_world \<Rightarrow> lock_read" where
  "lock_text w = (case lw_file w of None \<Rightarrow> LockAbsent | Some pid \<Rightarrow> LockText (dec_string pid))"

definition set_proc :: "nat \<Rightarrow> waiter \<Rightarrow> lock_world \<Rightarrow> lock_world" where
  "set_proc p s w = w\<lparr>lw_proc := (lw_proc w)(p := s)\<rparr>"

definition stack_lock_step :: "lock_world \<Rightarrow> lock_step \<Rightarrow> lock_world option" where
  "stack_lock_step w a =
     (case a of
        Open p \<Rightarrow>
          (if lw_alive w p \<and> lw_proc w p = Trying
           then Some (if lw_file w = None then set_proc p Inside (w\<lparr>lw_file := Some p\<rparr>) else w)
           else None)
      | Check p \<Rightarrow>
          (if lw_alive w p \<and> lw_proc w p = Trying
           then Some (if isStackStateLockStale (proc_os w) None (lock_text w)
                      then set_proc p FoundStale w else w)
           else None)
      | Remove p \<Rightarrow>
          (if lw_alive w p \<and> lw_proc w p = FoundStale
           then Some (set_proc p Trying (w\<lparr>lw_file := None\<rparr>))
           else None)
      | Leave p \<Rightarrow>
          (if lw_alive w p \<and> lw_proc w p = Inside
           then Some (set_proc p Gone (w\<lparr>lw_file := None\<rparr>))
           else None)
      | Die p \<Rightarrow> Some (w\<lparr>lw_alive := (lw_alive w)(p := False)\<rparr>))"

text \<open>While every process lives no lock is stale, and the lock excludes.\<close>

definition lock_inv :: "lock_world \<Rightarrow> bool" where
  "lock_inv w \<longleftrightarrow> (\<forall>p. lw_proc w p = Inside \<longrightarrow> lw_file w = Some p) \<and>
     (\<forall>p. lw_file w = Some p \<longrightarrow> 0 < p \<and> p < 2 ^ 31) \<and>
     (\<forall>p. lw_alive w p) \<and> (\<forall>p. lw_proc w p \<noteq> FoundStale)"

definition live_step :: "lock_world \<Rightarrow> lock_step \<Rightarrow> lock_world option" where
  "live_step w a =
     (case a of
        Die p \<Rightarrow> None
      | Open p \<Rightarrow> if 0 < p \<and> p < 2 ^ 31 then stack_lock_step w a else None
      | _ \<Rightarrow> stack_lock_step w a)"

lemma stale_iff:
  assumes "lw_file w = Some p" "0 < p" "p < 2 ^ 31"
  shows "isStackStateLockStale (proc_os w) None (lock_text w) \<longleftrightarrow> \<not> lw_alive w p"
proof -
  have "p < 2 ^ 1024 - 2 ^ 970" using assms(3) by (rule less_trans) simp
  moreover have "dec_string p \<noteq> []" using dec_string_digits [of p] by (auto simp: all_digits_def)
  ultimately show ?thesis
    using assms
    by (simp add: isStackStateLockStale_def lock_text_def trim_digits dec_string_digits
        dec_string_val kill0_def proc_os_def Let_def)
qed

lemma live_not_stale: "lock_inv w \<Longrightarrow> \<not> isStackStateLockStale (proc_os w) None (lock_text w)"
  by (cases "lw_file w")
     (simp add: isStackStateLockStale_def lock_text_def, simp add: stale_iff lock_inv_def)

lemma live_step_inv:
  assumes inv: "lock_inv w" and step: "live_step w a = Some w'"
  shows "lock_inv w'"
proof (cases a)
  case (Leave p)
  then have "lw_proc w p = Inside" and w': "w' = set_proc p Gone (w\<lparr>lw_file := None\<rparr>)"
    using step by (auto simp: live_step_def stack_lock_step_def split: if_splits)
  with inv have "lw_proc w q \<noteq> Inside" if "q \<noteq> p" for q
    using that unfolding lock_inv_def by (metis option.inject)
  with inv show ?thesis by (simp add: w' lock_inv_def set_proc_def)
qed (use inv step live_not_stale [OF inv] in
  \<open>auto simp: live_step_def stack_lock_step_def lock_inv_def set_proc_def split: if_splits\<close>)

interpretation live_lock: machine live_step lock_inv
  by unfold_locales (rule live_step_inv)

interpretation stack_lock: machine stack_lock_step "\<lambda>_. True"
  by unfold_locales simp

section \<open>Properties\<close>

text \<open> Whatever the order in which processes claim PRDs, between two releases at most one
  claim per PRD succeeds, and none does for a PRD that is already claimed. \<close>
theorem claims_exclusive:
  "distinct (map snd (snd (prd_claim.claims cs locks))) \<and>
   (\<forall>prd \<in> set (map snd (snd (prd_claim.claims cs locks))). \<not> isPrdRunning prd locks)"
  by (rule prd_claim.claims_distinct)

theorem claims_exclusive_witness:
  "snd (prd_claim.claims [(7, ''a''), (8, ''a''), (8, ''b'')] [(''b'', ''5'')]) = [(7, ''a'')] \<and>
   \<not> isPrdRunning ''a'' [(''b'', ''5'')]"
  using claims_exclusive [of "[(7, ''a''), (8, ''a''), (8, ''b'')]" "[(''b'', ''5'')]"]
  by (simp add: claimPrd_def isPrdRunning_def Let_def)

text \<open> While no process dies, two processes are never inside the lock of the stack state. \<close>
theorem stack_lock_excludes_live:
  assumes "live_lock.run lock_start as = Some w" and "lw_proc w p = Inside" and "lw_proc w q = Inside"
  shows "p = q"
  using live_lock.run_inv [OF _ assms(1)] assms(2,3)
  by (simp add: lock_inv_def lock_start_def) (metis option.inject)

theorem stack_lock_excludes_live_witness:
  "\<exists>w. live_lock.run lock_start [Open 1, Check 2, Open 2, Leave 1, Open 2] = Some w \<and>
     lw_proc w 2 = Inside \<and> (\<forall>q. lw_proc w q = Inside \<longrightarrow> 2 = q)"
proof -
  have "\<exists>w. live_lock.run lock_start [Open 1, Check 2, Open 2, Leave 1, Open 2] = Some w \<and>
     lw_proc w 2 = Inside"
    by (simp add: live_step_def stack_lock_step_def lock_start_def set_proc_def stale_iff)
  then show ?thesis using stack_lock_excludes_live by blast
qed

text \<open> After a holder died the lock no longer excludes: two waiters that both found it
  stale end up inside together, because the second removes the lock the first has just
  created. \<close>
theorem stale_lock_admits_two:
  "\<exists>as w. stack_lock.run lock_start as = Some w \<and> lw_alive w 2 \<and> lw_alive w 3 \<and>
     lw_proc w 2 = Inside \<and> lw_proc w 3 = Inside"
  by (rule exI [of _ "[Open 1, Die 1, Check 2, Check 3, Remove 2, Open 2, Remove 3, Open 3]"])
     (simp add: stack_lock_step_def lock_start_def set_proc_def stale_iff)

end
