(* ===== verification/StackState.thy ===== *)
theory StackState
  imports Registry LockFile
begin

text \<open>
  The stack projection (\<open>stacking/state.ts\<close>, \<open>stacking/artifacts.ts\<close>): one layer per PRD in
  \<open>.eforge/stacks/layers.json\<close>, with the artifact a build recorded and the outcome of its
  landing. The lock of the file is the one of \<open>LockFile\<close>; the theorems say what no
  sequence of updates can take away from a layer.
\<close>

section \<open>Layers\<close>

datatype layer_status = LayerPending | LayerBuilding | LayerBuilt | LayerMerged | LayerLanded | LayerFailed

datatype landing_state = LsStarted | LsComplete | LsSkipped | LsFailed

record artifact_ref =
  ref_branch :: string
  ref_commitSha :: "string option"
  ref_prUrl :: "string option"

record layer_landing =
  ll_action :: landing_action
  ll_status :: landing_state
  ll_prUrl :: "string option"
  ll_reason :: "string option"
  ll_originalBaseBranch :: "string option"
  ll_effectiveBaseBranch :: "string option"
  ll_baseRepairReason :: bool
  ll_startedAt :: string
  ll_completedAt :: "string option"

record stack_layer =
  sl_prdId :: prd_id
  sl_stackId :: string
  sl_parentPrdId :: "prd_id option"
  sl_branch :: string
  sl_baseBranch :: "string option"
  sl_artifact :: "artifact_ref option"
  sl_landingAction :: "landing_action option"
  sl_landing :: "layer_landing option"
  sl_status :: layer_status
  sl_recordedAt :: string
  sl_updatedAt :: string

definition layer_ok :: "stack_layer \<Rightarrow> bool" where
  "layer_ok l \<longleftrightarrow> sl_prdId l \<noteq> [] \<and> sl_stackId l \<noteq> [] \<and> sl_branch l \<noteq> [] \<and>
     (case sl_landing l of None \<Rightarrow> True | Some d \<Rightarrow> ll_startedAt d \<noteq> []) \<and>
     sl_recordedAt l \<noteq> [] \<and> sl_updatedAt l \<noteq> []"

definition loadStackState :: "stack_layer list reg_file \<Rightarrow> (reg_error, stack_layer list) result" where
  "loadStackState f =
     (case f of
        NoFile \<Rightarrow> Inr []
      | Unreadable \<Rightarrow> Inl ReadError
      | BadJson \<Rightarrow> Inr []
      | Json ls \<Rightarrow> Inr (if list_all layer_ok ls then ls else []))"

section \<open>Operations\<close>

definition upsertStackLayer :: "stack_layer \<Rightarrow> stack_layer list \<Rightarrow> stack_layer list" where
  "upsertStackLayer l ls = upsert_by sl_prdId (\<lambda>_. l) (sl_prdId l) ls"

definition lookupLayerByPrdId :: "stack_layer list \<Rightarrow> prd_id \<Rightarrow> stack_layer option" where
  "lookupLayerByPrdId ls prd = List.find (\<lambda>l. sl_prdId l = prd) ls"

text \<open>An empty \<open>parentPrdId\<close> counts as none.\<close>

definition getParentArtifactBranch :: "stack_layer list \<Rightarrow> prd_id \<Rightarrow> string option" where
  "getParentArtifactBranch ls child =
     (case lookupLayerByPrdId ls child of
        None \<Rightarrow> None
      | Some c \<Rightarrow>
          (case sl_parentPrdId c of
             None \<Rightarrow> None
           | Some q \<Rightarrow>
               if q = [] then None
               else case lookupLayerByPrdId ls q of
                      None \<Rightarrow> None
                    | Some parent \<Rightarrow>
                        Some (case sl_artifact parent of
                                Some a \<Rightarrow> ref_branch a
                              | None \<Rightarrow> sl_branch parent)))"

definition getRecordedArtifactRef :: "stack_layer list \<Rightarrow> prd_id \<Rightarrow> string option" where
  "getRecordedArtifactRef ls prd =
     (case lookupLayerByPrdId ls prd of
        None \<Rightarrow> None
      | Some l \<Rightarrow> map_option ref_branch (sl_artifact l))"

definition isArtifactAvailable :: "stack_layer list \<Rightarrow> prd_id \<Rightarrow> bool" where
  "isArtifactAvailable ls prd \<longleftrightarrow> getRecordedArtifactRef ls prd \<noteq> None"

text \<open>The locked updates of one layer; without a layer they change nothing.\<close>

definition update_layer :: "prd_id \<Rightarrow> (stack_layer \<Rightarrow> stack_layer) \<Rightarrow> stack_layer list \<Rightarrow> stack_layer list" where
  "update_layer prd f ls =
     (case find_index (\<lambda>l. sl_prdId l = prd) ls of
        None \<Rightarrow> ls
      | Some i \<Rightarrow> ls[i := f (ls ! i)])"

definition updateStackLayerStatusAndLanding ::
    "string \<Rightarrow> prd_id \<Rightarrow> layer_status \<Rightarrow> layer_landing \<Rightarrow> stack_layer list \<Rightarrow> stack_layer list" where
  "updateStackLayerStatusAndLanding now prd status landing =
     update_layer prd (\<lambda>l. l\<lparr>sl_status := status, sl_landing := Some landing, sl_updatedAt := now\<rparr>)"

definition updateStackLayerLanding ::
    "string \<Rightarrow> prd_id \<Rightarrow> layer_landing \<Rightarrow> stack_layer list \<Rightarrow> stack_layer list" where
  "updateStackLayerLanding now prd landing =
     update_layer prd (\<lambda>l. l\<lparr>sl_landing := Some landing, sl_updatedAt := now\<rparr>)"

definition failed_landing :: "string \<Rightarrow> string \<Rightarrow> stack_layer \<Rightarrow> layer_landing" where
  "failed_landing now reason l =
     \<lparr>ll_action = (case sl_landing l of
          Some d \<Rightarrow> ll_action d
        | None \<Rightarrow> (case sl_landingAction l of Some a \<Rightarrow> a | None \<Rightarrow> LandLeave)),
      ll_status = LsFailed, ll_prUrl = None, ll_reason = Some reason, ll_originalBaseBranch = None,
      ll_effectiveBaseBranch = None, ll_baseRepairReason = False,
      ll_startedAt = (case sl_landing l of Some d \<Rightarrow> ll_startedAt d | None \<Rightarrow> now),
      ll_completedAt = Some now\<rparr>"

definition landing_complete :: "stack_layer \<Rightarrow> bool" where
  "landing_complete l \<longleftrightarrow> (case sl_landing l of Some d \<Rightarrow> ll_status d = LsComplete | None \<Rightarrow> False)"

definition failed_layer :: "string \<Rightarrow> string \<Rightarrow> stack_layer \<Rightarrow> stack_layer" where
  "failed_layer now reason l = l\<lparr>sl_status := LayerFailed, sl_updatedAt := now,
     sl_landing := (if landing_complete l then sl_landing l else Some (failed_landing now reason l))\<rparr>"

definition markStackLayerFailed :: "string \<Rightarrow> prd_id \<Rightarrow> string \<Rightarrow> stack_layer list \<Rightarrow> stack_layer list" where
  "markStackLayerFailed now prd reason =
     update_layer prd (failed_layer now reason)"

lemma failed_layer_simps [simp]:
  "sl_prdId (failed_layer now reason l) = sl_prdId l"
  "sl_recordedAt (failed_layer now reason l) = sl_recordedAt l"
  "sl_artifact (failed_layer now reason l) = sl_artifact l"
  "sl_landing l = Some d \<Longrightarrow> ll_status d = LsComplete \<Longrightarrow> sl_landing (failed_layer now reason l) = Some d"
  by (simp_all add: failed_layer_def landing_complete_def)

text \<open>\<open>recordSuccessfulBuildArtifact\<close>: the layer a finished build writes, keeping the landing
  and the creation time of an earlier run. \<open>sha\<close> is the commit of the merge worktree.\<close>

record stack_context =
  sc_prdId :: prd_id
  sc_stackId :: string
  sc_parentPrdId :: "prd_id option"
  sc_branch :: string
  sc_baseBranch :: string

definition recordSuccessfulBuildArtifact ::
    "string \<Rightarrow> string \<Rightarrow> landing_action option \<Rightarrow> stack_context \<Rightarrow> stack_layer list \<Rightarrow> stack_layer list" where
  "recordSuccessfulBuildArtifact now sha action ctx ls =
     (let existing = lookupLayerByPrdId ls (sc_prdId ctx)
      in upsertStackLayer
        \<lparr>sl_prdId = sc_prdId ctx, sl_stackId = sc_stackId ctx, sl_parentPrdId = sc_parentPrdId ctx,
         sl_branch = sc_branch ctx, sl_baseBranch = Some (sc_baseBranch ctx),
         sl_artifact = Some \<lparr>ref_branch = sc_branch ctx, ref_commitSha = Some sha, ref_prUrl = None\<rparr>,
         sl_landingAction = action,
         sl_landing = (case existing of Some l \<Rightarrow> sl_landing l | None \<Rightarrow> None),
         sl_status = LayerBuilt,
         sl_recordedAt = (case existing of Some l \<Rightarrow> sl_recordedAt l | None \<Rightarrow> now),
         sl_updatedAt = now\<rparr> ls)"

section \<open>What the operations do to each layer\<close>

lemma lookup_layer_by: "lookupLayerByPrdId = lookup_by sl_prdId"
  by (intro ext) (simp add: lookupLayerByPrdId_def lookup_by_def)

interpretation layers: keyed_registry lookupLayerByPrdId upsertStackLayer sl_prdId "\<lambda>_ l. l"
  by unfold_locales (simp add: lookup_layer_by upsertStackLayer_def lookup_upsert_by)

lemma lookup_update_layer:
  assumes "\<And>l. sl_prdId (f l) = sl_prdId l"
  shows "lookupLayerByPrdId (update_layer prd f ls) k =
    (if k = prd then map_option f (lookupLayerByPrdId ls prd) else lookupLayerByPrdId ls k)"
proof (cases "find_index (\<lambda>l. sl_prdId l = prd) ls")
  case None
  then have "List.find (\<lambda>l. sl_prdId l = prd) ls = None"
    by (simp add: find_None_iff' find_index_None)
  with None show ?thesis by (simp add: update_layer_def lookupLayerByPrdId_def)
next
  case (Some i)
  with assms lookup_update_by [of sl_prdId prd ls i f k] show ?thesis
    by (simp add: update_layer_def lookup_layer_by)
qed

lemmas layer_lookups =
  updateStackLayerStatusAndLanding_def updateStackLayerLanding_def markStackLayerFailed_def
  recordSuccessfulBuildArtifact_def lookup_update_layer layers.lookup_upsert Let_def

datatype layer_op =
    RecordBuild string string "landing_action option" stack_context
  | SetStatusLanding string prd_id layer_status layer_landing
  | SetLanding string prd_id layer_landing
  | MarkFailed string prd_id string

definition layer_op :: "layer_op \<Rightarrow> stack_layer list \<Rightarrow> stack_layer list" where
  "layer_op c ls =
     (case c of
        RecordBuild now sha action ctx \<Rightarrow> recordSuccessfulBuildArtifact now sha action ctx ls
      | SetStatusLanding now prd st d \<Rightarrow> updateStackLayerStatusAndLanding now prd st d ls
      | SetLanding now prd d \<Rightarrow> updateStackLayerLanding now prd d ls
      | MarkFailed now prd reason \<Rightarrow> markStackLayerFailed now prd reason ls)"

definition sets_landing :: "prd_id \<Rightarrow> layer_op \<Rightarrow> bool" where
  "sets_landing prd c =
     (case c of SetStatusLanding _ q _ _ \<Rightarrow> q = prd | SetLanding _ q _ \<Rightarrow> q = prd | _ \<Rightarrow> False)"

definition layer_kept :: "prd_id \<Rightarrow> stack_layer \<Rightarrow> stack_layer list \<Rightarrow> bool" where
  "layer_kept prd l ls \<longleftrightarrow>
     (\<exists>l'. lookupLayerByPrdId ls prd = Some l' \<and> sl_recordedAt l' = sl_recordedAt l \<and>
        (sl_artifact l \<noteq> None \<longrightarrow> sl_artifact l' \<noteq> None))"

lemma layer_kept_step: "layer_kept prd l ls \<Longrightarrow> layer_kept prd l (layer_op c ls)"
  by (cases c) (auto simp: layer_kept_def layer_op_def layer_lookups)

lemma layer_kept_fold: "layer_kept prd l ls \<Longrightarrow> layer_kept prd l (fold layer_op cs ls)"
  by (induction cs arbitrary: ls) (auto intro: layer_kept_step)

definition landed :: "prd_id \<Rightarrow> layer_landing \<Rightarrow> stack_layer list \<Rightarrow> bool" where
  "landed prd d ls \<longleftrightarrow>
     (\<exists>l. lookupLayerByPrdId ls prd = Some l \<and> sl_landing l = Some d \<and> ll_status d = LsComplete)"

lemma landed_step: "landed prd d ls \<Longrightarrow> \<not> sets_landing prd c \<Longrightarrow> landed prd d (layer_op c ls)"
  by (cases c) (auto simp: landed_def layer_op_def layer_lookups sets_landing_def)

lemma landed_fold:
  "landed prd d ls \<Longrightarrow> \<forall>c \<in> set cs. \<not> sets_landing prd c \<Longrightarrow> landed prd d (fold layer_op cs ls)"
  by (induction cs arbitrary: ls) (auto intro: landed_step)

section \<open>Properties\<close>

text \<open> An artifact recorded for a layer stays available to the layers above it, and its
  creation time stays, under every later sequence of rebuilds, landing updates and failure
  marks. \<close>
theorem stack_artifact_never_lost:
  assumes "isArtifactAvailable ls prd"
  shows "isArtifactAvailable (fold layer_op cs ls) prd \<and>
    map_option sl_recordedAt (lookupLayerByPrdId (fold layer_op cs ls) prd) =
    map_option sl_recordedAt (lookupLayerByPrdId ls prd)"
proof -
  obtain l where l: "lookupLayerByPrdId ls prd = Some l" "sl_artifact l \<noteq> None"
    using assms by (auto simp: isArtifactAvailable_def getRecordedArtifactRef_def split: option.splits)
  then have "layer_kept prd l (fold layer_op cs ls)"
    by (intro layer_kept_fold) (auto simp: layer_kept_def)
  with l show ?thesis
    by (auto simp: layer_kept_def isArtifactAvailable_def getRecordedArtifactRef_def)
qed

definition demo_context :: stack_context where
  "demo_context = \<lparr>sc_prdId = ''a'', sc_stackId = ''s'', sc_parentPrdId = None,
     sc_branch = ''eforge/a'', sc_baseBranch = ''main''\<rparr>"

definition demo_landing :: layer_landing where
  "demo_landing = \<lparr>ll_action = LandPr, ll_status = LsComplete, ll_prUrl = Some ''url'', ll_reason = None,
     ll_originalBaseBranch = None, ll_effectiveBaseBranch = None, ll_baseRepairReason = False,
     ll_startedAt = ''t1'', ll_completedAt = Some ''t2''\<rparr>"

lemmas layer_defs = layer_op_def recordSuccessfulBuildArtifact_def upsertStackLayer_def upsert_by_def
  lookupLayerByPrdId_def markStackLayerFailed_def failed_layer_def updateStackLayerStatusAndLanding_def
  update_layer_def isArtifactAvailable_def getRecordedArtifactRef_def

theorem stack_artifact_never_lost_witness:
  "let ls = layer_op (RecordBuild ''t0'' ''c0'' None demo_context) [];
       ls' = fold layer_op [MarkFailed ''t1'' ''a'' ''boom'', RecordBuild ''t2'' ''c1'' None demo_context] ls
   in isArtifactAvailable ls ''a'' \<and> isArtifactAvailable ls' ''a'' \<and>
      map_option sl_recordedAt (lookupLayerByPrdId ls' ''a'') = Some ''t0''"
proof -
  let ?ls = "layer_op (RecordBuild ''t0'' ''c0'' None demo_context) []"
  have "isArtifactAvailable ?ls ''a''" "map_option sl_recordedAt (lookupLayerByPrdId ?ls ''a'') = Some ''t0''"
    by (simp_all add: layer_defs demo_context_def)
  with stack_artifact_never_lost [of ?ls "''a''"] show ?thesis
    unfolding Let_def by metis
qed

text \<open> A completed landing is final for failures and rebuilds: only an explicit landing
  update changes the landing record of a layer whose landing is complete. \<close>
theorem completed_landing_survives:
  assumes "lookupLayerByPrdId ls prd = Some l" and "sl_landing l = Some d" and "ll_status d = LsComplete"
    and "\<forall>c \<in> set cs. \<not> sets_landing prd c"
  shows "\<exists>l'. lookupLayerByPrdId (fold layer_op cs ls) prd = Some l' \<and> sl_landing l' = Some d"
  using landed_fold [of prd d ls cs] assms by (auto simp: landed_def)

theorem completed_landing_survives_witness:
  "let ls = fold layer_op [RecordBuild ''t0'' ''c0'' None demo_context,
         SetStatusLanding ''t1'' ''a'' LayerLanded demo_landing] []
   in \<exists>l'. lookupLayerByPrdId (fold layer_op [MarkFailed ''t3'' ''a'' ''late''] ls) ''a'' = Some l' \<and>
      sl_landing l' = Some demo_landing"
proof -
  let ?ls = "fold layer_op [RecordBuild ''t0'' ''c0'' None demo_context,
         SetStatusLanding ''t1'' ''a'' LayerLanded demo_landing] []"
  have "\<exists>l. lookupLayerByPrdId ?ls ''a'' = Some l \<and> sl_landing l = Some demo_landing"
    by (simp add: layer_defs demo_context_def)
  then obtain l where "lookupLayerByPrdId ?ls ''a'' = Some l" "sl_landing l = Some demo_landing"
    by blast
  from completed_landing_survives [OF this, of "[MarkFailed ''t3'' ''a'' ''late'']"] show ?thesis
    by (simp add: Let_def demo_landing_def sets_landing_def)
qed

end
