(* ===== verification/Queue.thy ===== *)
theory Queue
  imports Registry LockFile PlanGraph "HOL-Library.List_Lexorder"
begin

text \<open>
  The PRD queue of \<open>prd-queue.ts\<close>: a PRD is a markdown file, and its state is the
  directory the file is in (the queue root, \<open>waiting\<close>, \<open>failed\<close>, \<open>skipped\<close>). The disk is
  a record of those directories, the lock files and the two registries; a file is what
  parsing its frontmatter gives. Every operation is a function of the disk.
\<close>

section \<open>Files and directories\<close>

record prd_fm =
  fm_title :: string
  fm_created :: "string option"
  fm_priority :: "int option"
  fm_depends_on :: "prd_id list option"
  fm_skip_reason :: "string option"
  fm_held :: "bool option"
  fm_hold_reason :: "string option"
  fm_held_at :: "string option"
  fm_profile :: "string option"
  fm_stack_id :: "string option"
  fm_stack_parent :: "prd_id option"
  fm_landing :: "landing_action option"
  fm_landing_auto_merge :: "bool option"
  fm_postMerge :: "string list option"
  fm_resume_mode :: bool
  fm_resume_from :: "prd_id option"
  fm_resume_set_name :: "string option"
  fm_resume_feature_branch :: "string option"
  fm_resume_base_branch :: "string option"

definition plain_fm :: "string \<Rightarrow> prd_fm" where
  "plain_fm title = \<lparr>fm_title = title, fm_created = None, fm_priority = None, fm_depends_on = None,
     fm_skip_reason = None, fm_held = None, fm_hold_reason = None, fm_held_at = None,
     fm_profile = None, fm_stack_id = None, fm_stack_parent = None, fm_landing = None,
     fm_landing_auto_merge = None, fm_postMerge = None, fm_resume_mode = False,
     fm_resume_from = None, fm_resume_set_name = None, fm_resume_feature_branch = None,
     fm_resume_base_branch = None\<rparr>"

definition deps_of :: "prd_fm \<Rightarrow> prd_id list" where
  "deps_of fm = (case fm_depends_on fm of Some ds \<Rightarrow> ds | None \<Rightarrow> [])"

text \<open>\<open>getCompiledResumeFrontmatter\<close>: all five resume fields or none; \<open>Inl\<close> lists the missing.\<close>

definition resume_fields :: "prd_fm \<Rightarrow> (string \<times> bool) list" where
  "resume_fields fm =
     [(''resume_mode'', fm_resume_mode fm), (''resume_from'', fm_resume_from fm \<noteq> None),
      (''resume_set_name'', fm_resume_set_name fm \<noteq> None),
      (''resume_feature_branch'', fm_resume_feature_branch fm \<noteq> None),
      (''resume_base_branch'', fm_resume_base_branch fm \<noteq> None)]"

definition getCompiledResumeFrontmatter ::
    "prd_fm \<Rightarrow> (string list, (prd_id \<times> string \<times> string \<times> string) option) result" where
  "getCompiledResumeFrontmatter fm =
     (let present = filter snd (resume_fields fm)
      in if present = [] then Inr None
         else if length present \<noteq> 5 then Inl (map fst (filter (\<lambda>f. \<not> snd f) (resume_fields fm)))
         else Inr (Some (the (fm_resume_from fm), the (fm_resume_set_name fm),
                the (fm_resume_feature_branch fm), the (fm_resume_base_branch fm))))"

text \<open>What reading and parsing a markdown file gives.\<close>

datatype md_file = Prd prd_fm | NoFrontmatter | BadFrontmatter | LegacyOnSuccess | UnreadableMd

datatype qloc = RootDir | WaitingDir | FailedDir | SkippedDir

text \<open>A directory, \<open>None\<close> when \<open>readdir\<close> fails; a markdown file is named by its PRD id.\<close>

type_synonym qdir = "(prd_id \<times> md_file) list option"

record qdisk =
  d_root :: qdir
  d_waiting :: qdir
  d_failed :: qdir
  d_skipped :: qdir
  d_locks :: lock_dir
  d_artifacts :: "artifact list reg_file"
  d_completions :: "completions reg_file"

definition dir_of :: "qloc \<Rightarrow> qdisk \<Rightarrow> qdir" where
  "dir_of l d = (case l of RootDir \<Rightarrow> d_root d | WaitingDir \<Rightarrow> d_waiting d
     | FailedDir \<Rightarrow> d_failed d | SkippedDir \<Rightarrow> d_skipped d)"

definition set_dir :: "qloc \<Rightarrow> qdir \<Rightarrow> qdisk \<Rightarrow> qdisk" where
  "set_dir l x d = (case l of RootDir \<Rightarrow> d\<lparr>d_root := x\<rparr> | WaitingDir \<Rightarrow> d\<lparr>d_waiting := x\<rparr>
     | FailedDir \<Rightarrow> d\<lparr>d_failed := x\<rparr> | SkippedDir \<Rightarrow> d\<lparr>d_skipped := x\<rparr>)"

definition entries :: "qloc \<Rightarrow> qdisk \<Rightarrow> (prd_id \<times> md_file) list" where
  "entries l d = (case dir_of l d of None \<Rightarrow> [] | Some es \<Rightarrow> es)"

definition ids_in :: "qloc \<Rightarrow> qdisk \<Rightarrow> prd_id list" where
  "ids_in l d = map fst (entries l d)"

lemma dir_of_set_dir [simp]: "dir_of l (set_dir l' x d) = (if l = l' then x else dir_of l d)"
  by (cases l; cases l') (simp_all add: dir_of_def set_dir_def)

lemma entries_set_dir [simp]:
  "entries l (set_dir l' x d) = (if l = l' then (case x of None \<Rightarrow> [] | Some es \<Rightarrow> es) else entries l d)"
  by (simp add: entries_def)

lemma set_dir_frame [frame_simps, simp]:
  "d_locks (set_dir l x d) = d_locks d"
  "d_artifacts (set_dir l x d) = d_artifacts d"
  "d_completions (set_dir l x d) = d_completions d"
  by (cases l; simp add: set_dir_def)+

section \<open>Loading a directory\<close>

record queued_prd =
  q_id :: prd_id
  q_loc :: qloc
  q_fm :: prd_fm

datatype load_error = ReadFileFailed prd_id | InvalidFrontmatter prd_id

fun load_files :: "qloc \<Rightarrow> (prd_id \<times> md_file) list \<Rightarrow> (load_error, queued_prd list) result" where
  "load_files l [] = Inr []"
| "load_files l ((i, f) # fs) =
     (case f of
        UnreadableMd \<Rightarrow> Inl (ReadFileFailed i)
      | LegacyOnSuccess \<Rightarrow> Inl (InvalidFrontmatter i)
      | NoFrontmatter \<Rightarrow> load_files l fs
      | BadFrontmatter \<Rightarrow> load_files l fs
      | Prd fm \<Rightarrow>
          (case load_files l fs of
             Inl e \<Rightarrow> Inl e
           | Inr qs \<Rightarrow> Inr (\<lparr>q_id = i, q_loc = l, q_fm = fm\<rparr> # qs)))"

text \<open>The file names in the order of \<open>sort()\<close>: by code units.\<close>

definition name_codes :: "prd_id \<Rightarrow> nat list" where
  "name_codes i = map of_char (i @ ''.md'')"

definition loadQueue :: "qloc \<Rightarrow> qdisk \<Rightarrow> (load_error, queued_prd list) result" where
  "loadQueue l d =
     (case dir_of l d of
        None \<Rightarrow> Inr []
      | Some es \<Rightarrow> load_files l (sort_key (\<lambda>e. name_codes (fst e)) es))"

text \<open>\<open>loadQueue(\<dots>).catch(() => [])\<close>.\<close>

definition loadOr :: "qloc \<Rightarrow> qdisk \<Rightarrow> queued_prd list" where
  "loadOr l d = (case loadQueue l d of Inl _ \<Rightarrow> [] | Inr qs \<Rightarrow> qs)"

definition loadable :: "md_file \<Rightarrow> bool" where
  "loadable f \<longleftrightarrow> f \<noteq> UnreadableMd \<and> f \<noteq> LegacyOnSuccess"

lemma load_files_Inr_iff: "(\<exists>qs. load_files l es = Inr qs) \<longleftrightarrow> (\<forall>e \<in> set es. loadable (snd e))"
  by (induction l es rule: load_files.induct)
     (auto simp: loadable_def split: md_file.splits sum.splits)

lemma load_files_set:
  "load_files l es = Inr qs \<Longrightarrow>
   set qs = {\<lparr>q_id = i, q_loc = l, q_fm = fm\<rparr> | i fm. (i, Prd fm) \<in> set es}"
  by (induction l es arbitrary: qs rule: load_files.induct)
     (auto split: md_file.splits sum.splits)

lemma load_files_ids: "load_files l es = Inr qs \<Longrightarrow> distinct (map fst es) \<Longrightarrow> distinct (map q_id qs)"
proof (induction l es arbitrary: qs rule: load_files.induct)
  case (2 l i f fs)
  then show ?case
    by (auto split: md_file.splits sum.splits dest!: load_files_set) (force simp: image_iff)
qed simp

lemma loadQueue_Inr_iff: "(\<exists>qs. loadQueue l d = Inr qs) \<longleftrightarrow> (\<forall>e \<in> set (entries l d). loadable (snd e))"
  by (auto simp: loadQueue_def entries_def load_files_Inr_iff split: option.splits)

lemma loadQueue_set:
  "loadQueue l d = Inr qs \<Longrightarrow>
   q \<in> set qs \<longleftrightarrow> (\<exists>i fm. (i, Prd fm) \<in> set (entries l d) \<and> q = \<lparr>q_id = i, q_loc = l, q_fm = fm\<rparr>)"
  by (auto simp: loadQueue_def entries_def split: option.splits dest!: load_files_set)

lemma loadQueue_distinct:
  assumes "loadQueue l d = Inr qs" and "distinct (ids_in l d)"
  shows "distinct (map q_id qs)"
proof (cases "dir_of l d")
  case None
  with assms show ?thesis by (simp add: loadQueue_def)
next
  case (Some es)
  have "distinct (map fst (sort_key (\<lambda>e. name_codes (fst e)) es)) = distinct (map fst es)"
    by (metis mset_eq_imp_distinct_iff mset_map mset_sort)
  with assms Some show ?thesis
    by (auto simp: loadQueue_def ids_in_def entries_def intro: load_files_ids)
qed

section \<open>Queue order\<close>

text \<open>
  \<open>resolveQueueOrder\<close>: the waves of the dependency graph of the queue, each sorted by
  priority (missing last) and creation date. \<open>lc\<close> is \<open>localeCompare\<close>, negative, zero or
  positive. \<open>Array.prototype.sort\<close> is stable.
\<close>

definition q_created :: "queued_prd \<Rightarrow> string" where
  "q_created q = (case fm_created (q_fm q) of Some c \<Rightarrow> c | None \<Rightarrow> [])"

definition compare_prds :: "(string \<Rightarrow> string \<Rightarrow> int) \<Rightarrow> queued_prd \<Rightarrow> queued_prd \<Rightarrow> int" where
  "compare_prds lc a b =
     (case (fm_priority (q_fm a), fm_priority (q_fm b)) of
        (Some x, Some y) \<Rightarrow> if x \<noteq> y then x - y else lc (q_created a) (q_created b)
      | (Some _, None) \<Rightarrow> - 1
      | (None, Some _) \<Rightarrow> 1
      | (None, None) \<Rightarrow> lc (q_created a) (q_created b))"

fun insert_by :: "('a \<Rightarrow> 'a \<Rightarrow> int) \<Rightarrow> 'a \<Rightarrow> 'a list \<Rightarrow> 'a list" where
  "insert_by cmp x [] = [x]"
| "insert_by cmp x (y # ys) = (if cmp x y \<le> 0 then x # y # ys else y # insert_by cmp x ys)"

definition sort_by :: "('a \<Rightarrow> 'a \<Rightarrow> int) \<Rightarrow> 'a list \<Rightarrow> 'a list" where
  "sort_by cmp xs = foldr (insert_by cmp) xs []"

definition queue_nodes :: "queued_prd list \<Rightarrow> node list" where
  "queue_nodes prds =
     map (\<lambda>p. (q_id p, filter (\<lambda>dep. dep \<in> set (map q_id prds)) (deps_of (q_fm p)))) prds"

definition find_prd :: "queued_prd list \<Rightarrow> prd_id \<Rightarrow> queued_prd option" where
  "find_prd prds i = map_of (rev (map (\<lambda>p. (q_id p, p)) prds)) i"

definition wave_prds :: "queued_prd list \<Rightarrow> prd_id list \<Rightarrow> queued_prd list" where
  "wave_prds prds wave = concat (map (\<lambda>i. case find_prd prds i of None \<Rightarrow> [] | Some p \<Rightarrow> [p]) wave)"

definition order_wave ::
    "(string \<Rightarrow> string \<Rightarrow> int) \<Rightarrow> queued_prd list \<Rightarrow> prd_id list \<Rightarrow> queued_prd list" where
  "order_wave lc prds wave =
     sort_by (compare_prds lc) (wave_prds prds wave)"

definition resolveQueueOrder ::
    "(string \<Rightarrow> string \<Rightarrow> int) \<Rightarrow> queued_prd list \<Rightarrow> (graph_error, queued_prd list) result" where
  "resolveQueueOrder lc prds =
     (if prds = [] then Inr []
      else case resolveDependencyGraph (queue_nodes prds) of
             Inl e \<Rightarrow> Inl e
           | Inr (waves, _) \<Rightarrow> Inr (concat (map (order_wave lc prds) waves)))"

subsection \<open>Sorting\<close>

lemma mset_insert_by [simp]: "mset (insert_by cmp x xs) = add_mset x (mset xs)"
  by (induction xs) auto

lemma mset_sort_by [simp]: "mset (sort_by cmp xs) = mset xs"
proof -
  have "mset (foldr (insert_by cmp) xs ys) = mset xs + mset ys" for ys
    by (induction xs) auto
  then show ?thesis by (simp add: sort_by_def)
qed

lemma set_sort_by [simp]: "set (sort_by cmp xs) = set xs"
  by (metis mset_sort_by set_mset_mset)

definition preorder_cmp :: "('a \<Rightarrow> 'a \<Rightarrow> int) \<Rightarrow> bool" where
  "preorder_cmp cmp \<longleftrightarrow>
     (\<forall>a b. cmp a b > 0 \<longrightarrow> cmp b a \<le> 0) \<and>
     (\<forall>a b c. cmp a b \<le> 0 \<longrightarrow> cmp b c \<le> 0 \<longrightarrow> cmp a c \<le> 0)"

lemma preorder_cmp_trans: "preorder_cmp cmp \<Longrightarrow> cmp a b \<le> 0 \<Longrightarrow> cmp b c \<le> 0 \<Longrightarrow> cmp a c \<le> 0"
  unfolding preorder_cmp_def by blast

lemma sorted_insert_by:
  "preorder_cmp cmp \<Longrightarrow> sorted_wrt (\<lambda>a b. cmp a b \<le> 0) xs \<Longrightarrow>
   sorted_wrt (\<lambda>a b. cmp a b \<le> 0) (insert_by cmp x xs)"
proof (induction xs)
  case Nil
  then show ?case by simp
next
  case (Cons y ys)
  show ?case
  proof (cases "cmp x y \<le> 0")
    case True
    with Cons.prems show ?thesis by (auto intro: preorder_cmp_trans)
  next
    case False
    then have "cmp y x \<le> 0" using Cons.prems(1) unfolding preorder_cmp_def by (meson not_le)
    moreover have "set (insert_by cmp x ys) = insert x (set ys)"
      by (metis mset_insert_by set_mset_add_mset_insert set_mset_mset)
    ultimately show ?thesis using Cons False by simp
  qed
qed

lemma sorted_sort_by: "preorder_cmp cmp \<Longrightarrow> sorted_wrt (\<lambda>a b. cmp a b \<le> 0) (sort_by cmp xs)"
  unfolding sort_by_def by (induction xs) (auto intro: sorted_insert_by)

lemma preorder_compare_prds: "preorder_cmp lc \<Longrightarrow> preorder_cmp (compare_prds lc)"
  unfolding preorder_cmp_def compare_prds_def
  by (auto split: option.splits if_splits)

lemma queue_nodes_ids [simp]: "map fst (queue_nodes prds) = map q_id prds"
  by (simp add: queue_nodes_def)

lemma find_prd_iff:
  assumes "distinct (map q_id prds)"
  shows "find_prd prds i = Some p \<longleftrightarrow> p \<in> set prds \<and> q_id p = i"
proof -
  have "distinct (map fst (rev (map (\<lambda>p. (q_id p, p)) prds)))"
    using assms by (simp add: rev_map [symmetric] o_def)
  then show ?thesis unfolding find_prd_def by (simp add: map_of_eq_Some_iff) blast
qed

lemma set_wave_prds:
  assumes "distinct (map q_id prds)"
  shows "set (wave_prds prds wave) = {p \<in> set prds. q_id p \<in> set wave}"
proof (induction wave)
  case Nil
  then show ?case by (simp add: wave_prds_def)
next
  case (Cons i wave)
  have "set (wave_prds prds (i # wave)) =
      {p. find_prd prds i = Some p} \<union> set (wave_prds prds wave)"
    by (auto simp: wave_prds_def split: option.splits)
  then show ?case unfolding Cons.IH find_prd_iff [OF assms] by auto
qed

lemma set_order_wave:
  "distinct (map q_id prds) \<Longrightarrow> set (order_wave lc prds wave) = {p \<in> set prds. q_id p \<in> set wave}"
  unfolding order_wave_def set_sort_by by (rule set_wave_prds)

lemma wave_prds_ids:
  assumes "distinct (map q_id prds)" "set wave \<subseteq> set (map q_id prds)"
  shows "map q_id (wave_prds prds wave) = wave"
  using assms(2)
proof (induction wave)
  case Nil
  then show ?case by (simp add: wave_prds_def)
next
  case (Cons i wave)
  then obtain p where "p \<in> set prds" "q_id p = i" by auto
  with find_prd_iff [OF assms(1), of i p] have "find_prd prds i = Some p" by blast
  with Cons \<open>q_id p = i\<close> show ?case by (simp add: wave_prds_def)
qed

lemma order_wave_ids:
  assumes "distinct (map q_id prds)" "set wave \<subseteq> set (map q_id prds)"
  shows "mset (map q_id (order_wave lc prds wave)) = mset wave"
  using wave_prds_ids [OF assms] unfolding order_wave_def by (metis mset_map mset_sort_by)

lemma resolveQueueOrder_InrD:
  assumes d: "distinct (map q_id prds)" and r: "resolveQueueOrder lc prds = Inr out" and ne: "prds \<noteq> []"
  obtains waves where "resolveDependencyGraph (queue_nodes prds) = Inr (waves, concat waves)"
    and "out = concat (map (order_wave lc prds) waves)"
    and "layering (edges (queue_nodes prds)) (set (map q_id prds)) {} waves"
    and "set (concat waves) = set (map q_id prds)" and "distinct (concat waves)"
proof -
  obtain waves order where w: "resolveDependencyGraph (queue_nodes prds) = Inr (waves, order)"
    and out: "out = concat (map (order_wave lc prds) waves)"
    using r ne by (auto simp: resolveQueueOrder_def split: sum.splits)
  from d have d': "distinct (map fst (queue_nodes prds))" by simp
  from resolve_Inr_layering [OF d' w] resolve_Inr_order [OF d' w] w out show thesis
    by (intro that) simp_all
qed

lemma mset_order_waves:
  assumes "distinct (map q_id prds)" "set (concat waves) \<subseteq> set (map q_id prds)"
  shows "mset (map q_id (concat (map (order_wave lc prds) waves))) = mset (concat waves)"
  using assms(2)
proof (induction waves)
  case Nil
  then show ?case by simp
next
  case (Cons w ws)
  then have "set w \<subseteq> set (map q_id prds)" by auto
  from order_wave_ids [OF assms(1) this, of lc] Cons show ?case by simp
qed

lemma resolveQueueOrder_mset:
  assumes d: "distinct (map q_id prds)" and r: "resolveQueueOrder lc prds = Inr out"
  shows "mset out = mset prds"
proof (cases "prds = []")
  case True
  with r show ?thesis by (simp add: resolveQueueOrder_def)
next
  case False
  then obtain waves where w: "out = concat (map (order_wave lc prds) waves)"
    "set (concat waves) = set (map q_id prds)" "distinct (concat waves)"
    by (rule resolveQueueOrder_InrD [OF d r])
  have ids: "mset (map q_id out) = mset (concat waves)"
    unfolding w(1) by (rule mset_order_waves [OF d]) (simp only: w(2) subset_refl)
  then have "distinct (map q_id out)"
    using w(3) by (metis mset_eq_imp_distinct_iff)
  then have "distinct out" by (simp add: distinct_map)
  moreover have "set out = {p \<in> set prds. q_id p \<in> set (concat waves)}"
    unfolding w(1) by (auto simp: set_order_wave [OF d])
  then have "set out = set prds" unfolding w(2) by auto
  ultimately show ?thesis
    using d by (metis distinct_map set_eq_iff_mset_eq_distinct)
qed

lemma queue_edges:
  "(p, d) \<in> edges (queue_nodes prds) \<longleftrightarrow>
   (\<exists>q \<in> set prds. q_id q = p \<and> d \<in> set (deps_of (q_fm q)) \<and> d \<in> set (map q_id prds))"
  by (auto simp: edges_iff queue_nodes_def)

text \<open>The blocks the queue order is made of: one per wave.\<close>

definition queue_blocks ::
    "(string \<Rightarrow> string \<Rightarrow> int) \<Rightarrow> queued_prd list \<Rightarrow> queued_prd list list \<Rightarrow> bool" where
  "queue_blocks lc prds bs \<longleftrightarrow>
     (\<forall>b \<in> set bs. sorted_wrt (\<lambda>x y. compare_prds lc x y \<le> 0) b) \<and>
     (\<forall>k p d. k < length bs \<and> p \<in> set (bs ! k) \<and> d \<in> set (deps_of (q_fm p)) \<and> d \<in> set (map q_id prds) \<longrightarrow>
        (\<exists>j < k. d \<in> q_id ` set (bs ! j))) \<and>
     (\<forall>k p. Suc k < length bs \<and> p \<in> set (bs ! Suc k) \<longrightarrow>
        (\<exists>d \<in> set (deps_of (q_fm p)). d \<in> q_id ` set (bs ! k)))"

lemma resolveQueueOrder_blocks:
  assumes d: "distinct (map q_id prds)" and lc: "preorder_cmp lc" and r: "resolveQueueOrder lc prds = Inr out"
  shows "\<exists>bs. out = concat bs \<and> queue_blocks lc prds bs"
proof (cases "prds = []")
  case True
  with r show ?thesis
    by (intro exI [of _ "[]"]) (simp add: resolveQueueOrder_def queue_blocks_def)
next
  case False
  then obtain waves where out: "out = concat (map (order_wave lc prds) waves)"
    and lay: "layering (edges (queue_nodes prds)) (set (map q_id prds)) {} waves"
    and all: "set (concat waves) = set (map q_id prds)" and dist: "distinct (concat waves)"
    by (rule resolveQueueOrder_InrD [OF d r])
  note blk = set_order_wave [OF d, of lc]
  have uniq: "p = q" if "p \<in> set prds" "q \<in> set prds" "q_id p = q_id q" for p q
    using that d by (auto simp: distinct_map inj_on_def)
  have ids: "i \<in> q_id ` set (order_wave lc prds (waves ! k))" if "i \<in> set (waves ! k)" "k < length waves" for i k
  proof -
    have "i \<in> set (map q_id prds)" using that all by (metis UN_I nth_mem set_concat)
    then show ?thesis using that by (auto simp: blk)
  qed
  have sorted: "sorted_wrt (\<lambda>x y. compare_prds lc x y \<le> 0) (order_wave lc prds w)" for w
    unfolding order_wave_def by (rule sorted_sort_by [OF preorder_compare_prds [OF lc]])
  have earlier: "\<exists>j < k. x \<in> q_id ` set (order_wave lc prds (waves ! j))"
    if "k < length waves" "p \<in> set (order_wave lc prds (waves ! k))"
      "x \<in> set (deps_of (q_fm p))" "x \<in> set (map q_id prds)" for k p x
  proof -
    have "(q_id p, x) \<in> edges (queue_nodes prds)" "q_id p \<in> set (waves ! k)"
      using that unfolding queue_edges by (auto simp: blk)
    from layering_deps [OF lay that(1) this(2,1)] obtain j where "j < k" "x \<in> set (waves ! j)" by blast
    with ids [of x j] that(1) show ?thesis by (intro exI [of _ j]) simp
  qed
  have tight: "\<exists>x \<in> set (deps_of (q_fm p)). x \<in> q_id ` set (order_wave lc prds (waves ! k))"
    if "Suc k < length waves" "p \<in> set (order_wave lc prds (waves ! Suc k))" for k p
  proof -
    have p: "p \<in> set prds" "q_id p \<in> set (waves ! Suc k)" using that(2) by (simp_all add: blk)
    from layering_wave_dep [OF lay that(1) p(2)] obtain x where
      x: "x \<in> set (waves ! k)" "(q_id p, x) \<in> edges (queue_nodes prds)" by blast
    then obtain q where "q \<in> set prds" "q_id q = q_id p" "x \<in> set (deps_of (q_fm q))"
      unfolding queue_edges by blast
    with uniq [OF \<open>q \<in> set prds\<close> p(1)] ids [OF x(1)] that(1) show ?thesis by auto
  qed
  have "queue_blocks lc prds (map (order_wave lc prds) waves)"
    unfolding queue_blocks_def length_map
  proof (intro conjI allI impI ballI)
    fix k p x
    assume "k < length waves \<and> p \<in> set (map (order_wave lc prds) waves ! k) \<and>
      x \<in> set (deps_of (q_fm p)) \<and> x \<in> set (map q_id prds)"
    then obtain j where "j < k" "k < length waves" "x \<in> q_id ` set (order_wave lc prds (waves ! j))"
      using earlier [of k p x] by auto
    then show "\<exists>j < k. x \<in> q_id ` set (map (order_wave lc prds) waves ! j)"
      by (intro exI [of _ j]) simp
  qed (use sorted tight in auto)
  with out show ?thesis by blast
qed

section \<open>Moving files\<close>

lemma dput_new: "k \<notin> fst ` set m \<Longrightarrow> dput k v m = m @ [(k, v)]"
  by (induction m) auto

datatype fs_error = ENOENT | OutsideQueue

text \<open>A path the queue code handles: a PRD file of a queue directory, or a path elsewhere.\<close>

datatype qpath = QPath qloc prd_id | ElsewherePath

definition file_exists :: "qloc \<Rightarrow> prd_id \<Rightarrow> qdisk \<Rightarrow> bool" where
  "file_exists l i d \<longleftrightarrow> i \<in> set (ids_in l d)"

definition mkdirp :: "qloc \<Rightarrow> qdisk \<Rightarrow> qdisk" where
  "mkdirp l d = set_dir l (Some (entries l d)) d"

text \<open>\<open>mkdir(dest, recursive)\<close> and \<open>rename\<close>: an existing file at the destination is replaced.\<close>

definition move_file :: "qloc \<Rightarrow> qloc \<Rightarrow> prd_id \<Rightarrow> qdisk \<Rightarrow> (fs_error \<times> qdisk, qdisk) result" where
  "move_file src dst i d =
     (let d1 = mkdirp dst d
      in case dget (entries src d1) i of
           None \<Rightarrow> Inl (ENOENT, d1)
         | Some f \<Rightarrow>
             (let d2 = set_dir src (Some (ddel i (entries src d1))) d1
              in Inr (set_dir dst (Some (dput i f (entries dst d2))) d2)))"

text \<open>\<open>movePrdToSubdir\<close> is applied to files of the queue root.\<close>

definition movePrdToSubdir :: "prd_id \<Rightarrow> qloc \<Rightarrow> qdisk \<Rightarrow> (fs_error \<times> qdisk, qdisk) result" where
  "movePrdToSubdir i subdir d = move_file RootDir subdir i d"

definition movePrdFromWaiting :: "prd_id \<Rightarrow> qloc \<Rightarrow> qdisk \<Rightarrow> (fs_error \<times> qdisk, qdisk) result" where
  "movePrdFromWaiting i dst d = move_file WaitingDir dst i d"

text \<open>The copy is exclusive: an existing destination is left alone and nothing moves.\<close>

definition movePrdFromWaitingNoOverwrite ::
    "prd_id \<Rightarrow> qloc \<Rightarrow> qdisk \<Rightarrow> (fs_error \<times> qdisk, qdisk \<times> bool) result" where
  "movePrdFromWaitingNoOverwrite i dst d =
     (let d1 = mkdirp dst d
      in case dget (entries WaitingDir d1) i of
           None \<Rightarrow> Inl (ENOENT, d1)
         | Some f \<Rightarrow>
             if file_exists dst i d1 then Inr (d1, False)
             else (let d2 = set_dir dst (Some (dput i f (entries dst d1))) d1
                   in Inr (set_dir WaitingDir (Some (ddel i (entries WaitingDir d2))) d2, True)))"

definition cleanupCompletedPrd :: "qpath \<Rightarrow> qdisk \<Rightarrow> (fs_error, qdisk) result" where
  "cleanupCompletedPrd path d =
     (case path of
        ElsewherePath \<Rightarrow> Inl OutsideQueue
      | QPath l i \<Rightarrow>
          Inr (case dir_of l d of None \<Rightarrow> d | Some es \<Rightarrow> set_dir l (Some (ddel i es)) d))"

lemma entries_mkdirp [simp]: "entries l (mkdirp l' d) = entries l d"
  by (simp add: mkdirp_def)

lemma mkdirp_frame [frame_simps, simp]:
  "d_locks (mkdirp l d) = d_locks d"
  "d_artifacts (mkdirp l d) = d_artifacts d"
  "d_completions (mkdirp l d) = d_completions d"
  by (simp_all add: mkdirp_def)

lemma file_exists_iff: "file_exists l i d \<longleftrightarrow> dget (entries l d) i \<noteq> None"
  by (simp add: file_exists_def ids_in_def dget_None_iff)

lemma move_fileD:
  assumes "move_file src dst i d = Inr d'" and "src \<noteq> dst"
  obtains f where "dget (entries src d) i = Some f"
    and "entries src d' = ddel i (entries src d)"
    and "entries dst d' = dput i f (entries dst d)"
    and "\<forall>l. l \<noteq> src \<longrightarrow> l \<noteq> dst \<longrightarrow> entries l d' = entries l d"
  using assms by (auto simp: move_file_def Let_def split: option.splits)

lemma move_file_Inr_iff: "(\<exists>d'. move_file src dst i d = Inr d') \<longleftrightarrow> file_exists src i d"
  by (auto simp: move_file_def Let_def file_exists_iff split: option.splits)

section \<open>Dependents that cannot run\<close>

definition findDependents :: "queued_prd list \<Rightarrow> prd_id \<Rightarrow> queued_prd list" where
  "findDependents prds upstream = filter (\<lambda>p. upstream \<in> set (deps_of (q_fm p))) prds"

text \<open>
  \<open>propagateSkip\<close>: the list of dependents is read once, then each is moved and its own
  dependents are skipped. The recursion carries fuel; \<open>None\<close> is running out of it.
\<close>

fun propagateSkip :: "nat \<Rightarrow> prd_id \<Rightarrow> qdisk \<Rightarrow> (fs_error \<times> qdisk, qdisk) result option"
  and skip_each :: "nat \<Rightarrow> queued_prd list \<Rightarrow> qdisk \<Rightarrow> (fs_error \<times> qdisk, qdisk) result option" where
  "propagateSkip 0 upstream d = None"
| "propagateSkip (Suc n) upstream d =
     (case loadQueue WaitingDir d of
        Inl _ \<Rightarrow> Some (Inr d)
      | Inr waitingPrds \<Rightarrow> skip_each n (findDependents waitingPrds upstream) d)"
| "skip_each n [] d = Some (Inr d)"
| "skip_each n (q # qs) d =
     (case movePrdFromWaiting (q_id q) SkippedDir d of
        Inl e \<Rightarrow> Some (Inl e)
      | Inr d1 \<Rightarrow>
          (case propagateSkip n (q_id q) d1 of
             None \<Rightarrow> None
           | Some (Inl e) \<Rightarrow> Some (Inl e)
           | Some (Inr d2) \<Rightarrow> skip_each n qs d2))"

definition waiting_count :: "qdisk \<Rightarrow> nat" where
  "waiting_count d = length (entries WaitingDir d)"

definition skip_fuel :: "qdisk \<Rightarrow> nat" where
  "skip_fuel d = Suc (waiting_count d)"

lemma ddel_length: "dget es i = Some f \<Longrightarrow> length (ddel i es) < length es"
proof -
  assume "dget es i = Some f"
  then have "(i, f) \<in> set es" by (rule map_of_SomeD)
  then show ?thesis unfolding AList.delete_eq by (intro length_filter_less) auto
qed

lemma movePrdFromWaiting_count:
  "movePrdFromWaiting i SkippedDir d = Inr d' \<Longrightarrow> waiting_count d' < waiting_count d"
  unfolding movePrdFromWaiting_def
  by (erule move_fileD) (auto simp: waiting_count_def intro: ddel_length)

lemma propagateSkip_count:
  "propagateSkip n u d = Some (Inr d') \<Longrightarrow> waiting_count d' \<le> waiting_count d"
  "skip_each n qs d = Some (Inr d') \<Longrightarrow> waiting_count d' \<le> waiting_count d"
proof (induction n u d and n qs d arbitrary: d' and d' rule: propagateSkip_skip_each.induct)
  case (4 n q qs d)
  from "4.prems" obtain d1 d2 where m: "movePrdFromWaiting (q_id q) SkippedDir d = Inr d1"
    and p: "propagateSkip n (q_id q) d1 = Some (Inr d2)" and rest: "skip_each n qs d2 = Some (Inr d')"
    by (auto split: sum.splits option.splits)
  have "waiting_count d' \<le> waiting_count d2" by (rule "4.IH"(2) [OF m p refl rest])
  also have "\<dots> \<le> waiting_count d1" by (rule "4.IH"(1) [OF m p])
  also have "\<dots> < waiting_count d" by (rule movePrdFromWaiting_count [OF m])
  finally show ?case by simp
qed (auto split: sum.splits)

text \<open>The fuel is enough.\<close>

lemma propagateSkip_fuel:
  "waiting_count d < n \<Longrightarrow> propagateSkip n u d \<noteq> None"
  "qs = [] \<or> waiting_count d \<le> n \<Longrightarrow> skip_each n qs d \<noteq> None"
proof (induction n u d and n qs d rule: propagateSkip_skip_each.induct)
  case (4 n q qs d)
  show ?case
  proof (cases "movePrdFromWaiting (q_id q) SkippedDir d")
    case (Inl e)
    then show ?thesis by simp
  next
    case (Inr d1)
    then have c1: "waiting_count d1 < n"
      using movePrdFromWaiting_count "4.prems" by fastforce
    then obtain r where r: "propagateSkip n (q_id q) d1 = Some r"
      using "4.IH"(1) [OF Inr] by blast
    show ?thesis
    proof (cases r)
      case (Inl e)
      with Inr r show ?thesis by simp
    next
      case d2: (Inr d2)
      then have "waiting_count d2 \<le> n" using propagateSkip_count(1) r c1 by fastforce
      then show ?thesis using "4.IH"(2) [OF Inr r d2] Inr r d2 by simp
    qed
  qed
qed (auto split: sum.splits)

subsection \<open>What is skipped\<close>

abbreviation wget :: "qdisk \<Rightarrow> prd_id \<Rightarrow> md_file option" where
  "wget d \<equiv> dget (entries WaitingDir d)"

abbreviation sget :: "qdisk \<Rightarrow> prd_id \<Rightarrow> md_file option" where
  "sget d \<equiv> dget (entries SkippedDir d)"

text \<open>\<open>(i, u)\<close>: the waiting PRD \<open>i\<close> depends on \<open>u\<close>.\<close>

definition waits :: "qdisk \<Rightarrow> (prd_id \<times> prd_id) set" where
  "waits d = {(i, u). \<exists>fm. wget d i = Some (Prd fm) \<and> u \<in> set (deps_of fm)}"

definition downstream :: "qdisk \<Rightarrow> prd_id \<Rightarrow> prd_id set" where
  "downstream d u = {i. (i, u) \<in> (waits d)\<^sup>+}"

definition closed_under :: "(prd_id \<times> prd_id) set \<Rightarrow> prd_id set \<Rightarrow> bool" where
  "closed_under R A \<longleftrightarrow> (\<forall>i u. (i, u) \<in> R \<longrightarrow> u \<in> A \<longrightarrow> i \<in> A)"

text \<open>\<open>d'\<close> is \<open>d\<close> with some waiting files, all in \<open>A\<close>, moved to the skipped directory.\<close>

definition skips :: "prd_id set \<Rightarrow> qdisk \<Rightarrow> qdisk \<Rightarrow> bool" where
  "skips A d d' \<longleftrightarrow>
     (\<forall>l. l \<noteq> WaitingDir \<longrightarrow> l \<noteq> SkippedDir \<longrightarrow> entries l d' = entries l d) \<and>
     (\<forall>i. (wget d' i = wget d i \<and> sget d' i = sget d i) \<or>
          (i \<in> A \<and> wget d i \<noteq> None \<and> wget d' i = None \<and> sget d' i = wget d i))"

definition final_disk :: "(fs_error \<times> qdisk, qdisk) result \<Rightarrow> qdisk" where
  "final_disk r = (case r of Inl (_, d) \<Rightarrow> d | Inr d \<Rightarrow> d)"

definition waiting_distinct :: "qdisk \<Rightarrow> bool" where
  "waiting_distinct d \<longleftrightarrow> distinct (ids_in WaitingDir d)"

lemma skips_refl [simp]: "skips A d d"
  by (simp add: skips_def)

lemma skips_trans: "skips A d d1 \<Longrightarrow> skips A d1 d2 \<Longrightarrow> skips A d d2"
  unfolding skips_def by metis

lemma skips_mono: "skips A d d' \<Longrightarrow> A \<subseteq> B \<Longrightarrow> skips B d d'"
  unfolding skips_def by (metis subsetD)

lemma skips_waits: "skips A d d' \<Longrightarrow> waits d' \<subseteq> waits d"
  unfolding skips_def waits_def by (auto) (metis option.distinct(1))

lemma skips_keeps: "skips A d d' \<Longrightarrow> i \<notin> A \<Longrightarrow> wget d' i = wget d i"
  unfolding skips_def by metis

lemma closed_mono: "closed_under R A \<Longrightarrow> R' \<subseteq> R \<Longrightarrow> closed_under R' A"
  unfolding closed_under_def by blast

lemma downstream_closed: "closed_under (waits d) (downstream d u)"
  by (auto simp: closed_under_def downstream_def intro: trancl_into_trancl2)

lemma waits_downstream: "(i, u) \<in> waits d \<Longrightarrow> i \<in> downstream d u"
  by (simp add: downstream_def r_into_trancl)

lemma trancl_closed: "(i, u) \<in> R\<^sup>+ \<Longrightarrow> closed_under R A \<Longrightarrow> u \<in> A \<Longrightarrow> i \<in> A"
  by (induction rule: converse_trancl_induct) (auto simp: closed_under_def)

lemma downstream_subset: "closed_under (waits d) A \<Longrightarrow> u \<in> A \<Longrightarrow> downstream d u \<subseteq> A"
  by (auto simp: downstream_def intro: trancl_closed)

lemma downstream_waiting: "i \<in> downstream d u \<Longrightarrow> wget d i \<noteq> None"
  unfolding downstream_def mem_Collect_eq
  by (erule converse_tranclE) (auto simp: waits_def)

lemma moveD:
  assumes "movePrdFromWaiting i SkippedDir d = Inr d'"
  shows "skips {i} d d'" and "wget d' i = None" and "waiting_distinct d \<Longrightarrow> waiting_distinct d'"
proof -
  obtain f where "wget d i = Some f" "entries WaitingDir d' = ddel i (entries WaitingDir d)"
    "entries SkippedDir d' = dput i f (entries SkippedDir d)"
    "\<forall>l. l \<noteq> WaitingDir \<longrightarrow> l \<noteq> SkippedDir \<longrightarrow> entries l d' = entries l d"
    by (rule move_fileD [OF assms [unfolded movePrdFromWaiting_def]]) (simp, rule that)
  then show "skips {i} d d'" "wget d' i = None" "waiting_distinct d \<Longrightarrow> waiting_distinct d'"
    by (simp_all add: skips_def waiting_distinct_def ids_in_def)
qed

lemma move_fails:
  "movePrdFromWaiting i SkippedDir d = Inl (e, d') \<Longrightarrow>
   e = ENOENT \<and> wget d i = None \<and> skips A d d' \<and> (waiting_distinct d \<longrightarrow> waiting_distinct d')"
  by (auto simp: movePrdFromWaiting_def move_file_def Let_def skips_def waiting_distinct_def ids_in_def
      split: option.splits)

lemma waiting_deps:
  assumes "loadQueue WaitingDir d = Inr ws" and "waiting_distinct d"
  shows "q_id ` set (findDependents ws u) = {i. (i, u) \<in> waits d}"
proof -
  have iff: "(i, f) \<in> set (entries WaitingDir d) \<longleftrightarrow> wget d i = Some f" for i f
    using assms(2) by (simp add: waiting_distinct_def ids_in_def)
  have F: "q \<in> set (findDependents ws u) \<longleftrightarrow>
      (\<exists>i fm. wget d i = Some (Prd fm) \<and> q = \<lparr>q_id = i, q_loc = WaitingDir, q_fm = fm\<rparr> \<and>
         u \<in> set (deps_of fm))" for q
    using loadQueue_set [OF assms(1), of q] by (auto simp: findDependents_def iff)
  show ?thesis
  proof (intro set_eqI iffI)
    fix i
    assume "i \<in> {i. (i, u) \<in> waits d}"
    then obtain fm where "wget d i = Some (Prd fm)" "u \<in> set (deps_of fm)" by (auto simp: waits_def)
    then have "\<lparr>q_id = i, q_loc = WaitingDir, q_fm = fm\<rparr> \<in> set (findDependents ws u)" by (simp add: F)
    then show "i \<in> q_id ` set (findDependents ws u)" by (rule image_eqI [rotated]) simp
  qed (use F in \<open>auto simp: waits_def\<close>)
qed

text \<open>Only dependents are skipped, and no file is lost.\<close>

lemma propagateSkip_skips:
  "propagateSkip n u d = Some r \<Longrightarrow> waiting_distinct d \<Longrightarrow> closed_under (waits d) A \<Longrightarrow>
     (\<And>i. (i, u) \<in> waits d \<Longrightarrow> i \<in> A) \<Longrightarrow> skips A d (final_disk r) \<and> waiting_distinct (final_disk r)"
  "skip_each n qs d = Some r \<Longrightarrow> waiting_distinct d \<Longrightarrow> closed_under (waits d) A \<Longrightarrow>
     q_id ` set qs \<subseteq> A \<Longrightarrow> skips A d (final_disk r) \<and> waiting_distinct (final_disk r)"
proof (induction n u d and n qs d arbitrary: r and r rule: propagateSkip_skip_each.induct)
  case (2 n u d)
  show ?case
  proof (cases "loadQueue WaitingDir d")
    case (Inl e)
    with "2.prems" show ?thesis by (auto simp: final_disk_def)
  next
    case (Inr ws)
    with "2.prems"(1) have "skip_each n (findDependents ws u) d = Some r" by simp
    moreover have "q_id ` set (findDependents ws u) \<subseteq> A"
      using waiting_deps [OF Inr "2.prems"(2)] "2.prems"(4) by blast
    ultimately show ?thesis using "2.IH" [OF Inr] "2.prems" by blast
  qed
next
  case (4 n q qs d)
  show ?case
  proof (cases "movePrdFromWaiting (q_id q) SkippedDir d")
    case (Inl x)
    then obtain e d' where m: "movePrdFromWaiting (q_id q) SkippedDir d = Inl (e, d')"
      by (cases x) auto
    with "4.prems"(1) have "final_disk r = d'" by (auto simp: final_disk_def)
    with move_fails [OF m, of A] "4.prems"(2) show ?thesis by simp
  next
    case (Inr d1)
    have s1: "skips A d d1" using moveD(1) [OF Inr] "4.prems"(4) by (auto elim: skips_mono)
    have d1: "waiting_distinct d1" by (rule moveD(3) [OF Inr "4.prems"(2)])
    have c1: "closed_under (waits d1) A" by (rule closed_mono [OF "4.prems"(3) skips_waits [OF s1]])
    obtain r1 where r1: "propagateSkip n (q_id q) d1 = Some r1"
      using "4.prems"(1) Inr by (auto split: option.splits)
    have ih: "skips A d1 (final_disk r1) \<and> waiting_distinct (final_disk r1)"
      using c1 "4.prems"(4) by (intro "4.IH"(1) [OF Inr r1 d1 c1]) (auto simp: closed_under_def)
    show ?thesis
    proof (cases r1)
      case (Inl e)
      with r1 Inr "4.prems"(1) have "r = r1" by simp
      with ih s1 skips_trans show ?thesis by blast
    next
      case d2: (Inr d2)
      then have s2: "skips A d1 d2" "waiting_distinct d2" using ih by (simp_all add: final_disk_def)
      have "closed_under (waits d2) A" by (rule closed_mono [OF c1 skips_waits [OF s2(1)]])
      moreover have "skip_each n qs d2 = Some r" using r1 d2 Inr "4.prems"(1) by simp
      ultimately have "skips A d2 (final_disk r) \<and> waiting_distinct (final_disk r)"
        using "4.IH"(2) [OF Inr r1 d2 _ s2(2)] "4.prems"(4) by simp
      with s1 s2 skips_trans show ?thesis by blast
    qed
  qed
qed (auto simp: final_disk_def)

text \<open>When it returns, no dependent of \<open>u\<close> or of a skipped PRD is left waiting.\<close>

definition all_loadable :: "qdisk \<Rightarrow> bool" where
  "all_loadable d \<longleftrightarrow> (\<forall>i f. wget d i = Some f \<longrightarrow> loadable f)"

definition settled :: "qdisk \<Rightarrow> qdisk \<Rightarrow> bool" where
  "settled d d' \<longleftrightarrow> (\<forall>m i. wget d m \<noteq> None \<longrightarrow> wget d' m = None \<longrightarrow> (i, m) \<notin> waits d')"

lemma loadable_load:
  assumes "all_loadable d" "waiting_distinct d"
  obtains ws where "loadQueue WaitingDir d = Inr ws"
proof -
  have "\<forall>e \<in> set (entries WaitingDir d). loadable (snd e)"
    using assms by (auto simp: all_loadable_def waiting_distinct_def ids_in_def)
  then show thesis using that by (auto simp: loadQueue_Inr_iff [symmetric])
qed

lemma skips_loadable: "skips A d d' \<Longrightarrow> all_loadable d \<Longrightarrow> all_loadable d'"
  unfolding skips_def all_loadable_def by (metis option.distinct(1))

lemma propagateSkip_settled:
  "propagateSkip n u d = Some (Inr d') \<Longrightarrow> waiting_distinct d \<Longrightarrow> all_loadable d \<Longrightarrow>
     settled d d' \<and> (\<forall>i. (i, u) \<notin> waits d')"
  "skip_each n qs d = Some (Inr d') \<Longrightarrow> waiting_distinct d \<Longrightarrow> all_loadable d \<Longrightarrow>
     settled d d' \<and> (\<forall>q \<in> set qs. wget d' (q_id q) = None)"
proof (induction n u d and n qs d arbitrary: d' and d' rule: propagateSkip_skip_each.induct)
  case (2 n u d)
  obtain ws where ws: "loadQueue WaitingDir d = Inr ws"
    by (rule loadable_load [OF "2.prems"(3,2)])
  have r: "skip_each n (findDependents ws u) d = Some (Inr d')" using "2.prems"(1) ws by simp
  have s: "settled d d'" and gone: "\<forall>q \<in> set (findDependents ws u). wget d' (q_id q) = None"
    using "2.IH" [OF ws r "2.prems"(2,3)] by blast+
  have "(i, u) \<notin> waits d'" for i
  proof
    assume iu: "(i, u) \<in> waits d'"
    have "skips UNIV d d'"
      using propagateSkip_skips(2) [OF r "2.prems"(2), of UNIV]
      by (simp add: final_disk_def closed_under_def)
    from skips_waits [OF this] iu have "i \<in> q_id ` set (findDependents ws u)"
      using waiting_deps [OF ws "2.prems"(2)] by blast
    with gone iu show False by (auto simp: waits_def)
  qed
  with s show ?case by blast
next
  case (4 n q qs d)
  from "4.prems"(1) obtain d1 d2 where m: "movePrdFromWaiting (q_id q) SkippedDir d = Inr d1"
    and p: "propagateSkip n (q_id q) d1 = Some (Inr d2)" and rest: "skip_each n qs d2 = Some (Inr d')"
    by (auto split: sum.splits option.splits)
  have dist1: "waiting_distinct d1" by (rule moveD(3) [OF m "4.prems"(2)])
  have load1: "all_loadable d1" by (rule skips_loadable [OF moveD(1) [OF m] "4.prems"(3)])
  have s12: "skips UNIV d1 d2" "waiting_distinct d2"
    using propagateSkip_skips(1) [OF p dist1, of UNIV] by (simp_all add: final_disk_def closed_under_def)
  have load2: "all_loadable d2" by (rule skips_loadable [OF s12(1) load1])
  have s2: "skips UNIV d2 d'"
    using propagateSkip_skips(2) [OF rest s12(2), of UNIV] by (simp add: final_disk_def closed_under_def)
  have a: "settled d1 d2" "\<forall>i. (i, q_id q) \<notin> waits d2" using "4.IH"(1) [OF m p dist1 load1] by blast+
  have b: "settled d2 d'" "\<forall>x \<in> set qs. wget d' (q_id x) = None"
    using "4.IH"(2) [OF m p refl rest s12(2) load2] by blast+
  have down: "waits d' \<subseteq> waits d2" by (rule skips_waits [OF s2])
  have "settled d d'"
    unfolding settled_def
  proof (intro allI impI)
    fix k i
    assume k: "wget d k \<noteq> None" "wget d' k = None"
    consider "k = q_id q" | "wget d1 k \<noteq> None" "wget d2 k = None" | "wget d2 k \<noteq> None"
      using k(1) skips_keeps [OF moveD(1) [OF m], of k] by (metis singletonD)
    then show "(i, k) \<notin> waits d'"
      using a b(1) down k(2) unfolding settled_def by cases blast+
  qed
  moreover have "wget d' (q_id q) = None"
    using moveD(2) [OF m] s12(1) s2 unfolding skips_def by metis
  ultimately show ?case using b(2) by simp
qed (auto simp: settled_def)

lemma skips_stay: "skips A d d' \<Longrightarrow> (i, u) \<in> waits d \<Longrightarrow> (i, u) \<notin> waits d' \<Longrightarrow> wget d' i = None"
proof (rule ccontr)
  assume "skips A d d'" "(i, u) \<in> waits d" "(i, u) \<notin> waits d'" "wget d' i \<noteq> None"
  then have "wget d' i = wget d i" unfolding skips_def by metis
  with \<open>(i, u) \<in> waits d\<close> \<open>(i, u) \<notin> waits d'\<close> show False by (simp add: waits_def)
qed

lemma settled_all:
  assumes s: "settled d d'" and u: "\<forall>i. (i, u) \<notin> waits d'" and sk: "skips A d d'"
    and i: "(i, u) \<in> (waits d)\<^sup>+"
  shows "wget d' i = None"
  using i
proof (induction rule: converse_trancl_induct)
  case (base i)
  then show ?case using skips_stay [OF sk] u by blast
next
  case (step i j)
  then have "wget d j \<noteq> None" using downstream_waiting [of j d u] by (simp add: downstream_def)
  with step.IH s have "(i, j) \<notin> waits d'" by (simp add: settled_def)
  with step.hyps(1) show ?case by (rule skips_stay [OF sk])
qed

text \<open>It returns when no skipped PRD is reached along two edges.\<close>

definition single_edges :: "prd_id set \<Rightarrow> qdisk \<Rightarrow> bool" where
  "single_edges A d \<longleftrightarrow> (\<forall>i a b. (i, a) \<in> waits d \<longrightarrow> (i, b) \<in> waits d \<longrightarrow> a \<in> A \<longrightarrow> b \<in> A \<longrightarrow> a = b)"

lemma single_mono: "single_edges A d \<Longrightarrow> waits d' \<subseteq> waits d \<Longrightarrow> B \<subseteq> A \<Longrightarrow> single_edges B d'"
  unfolding single_edges_def by blast

lemma propagateSkip_returns:
  "propagateSkip n u d = Some r \<Longrightarrow> waiting_distinct d \<Longrightarrow> closed_under (waits d) A \<Longrightarrow>
     single_edges A d \<Longrightarrow> u \<in> A \<Longrightarrow> wget d u = None \<Longrightarrow> \<not> isl r"
  "skip_each n qs d = Some r \<Longrightarrow> waiting_distinct d \<Longrightarrow> closed_under (waits d) A \<Longrightarrow> single_edges A d \<Longrightarrow>
     q_id ` set qs \<subseteq> A \<Longrightarrow> distinct (map q_id qs) \<Longrightarrow> \<forall>q \<in> set qs. wget d (q_id q) \<noteq> None \<Longrightarrow>
     \<forall>q \<in> set qs. \<forall>a \<in> A. (q_id q, a) \<notin> waits d \<Longrightarrow> \<not> isl r"
proof (induction n u d and n qs d arbitrary: r A and r A rule: propagateSkip_skip_each.induct)
  case (2 n u d)
  show ?case
  proof (cases "loadQueue WaitingDir d")
    case (Inl e)
    with "2.prems"(1) show ?thesis by auto
  next
    case (Inr ws)
    let ?qs = "findDependents ws u" and ?B = "downstream d u"
    have ids: "q_id ` set ?qs = {i. (i, u) \<in> waits d}" by (rule waiting_deps [OF Inr "2.prems"(2)])
    have sub: "?B \<subseteq> A" by (rule downstream_subset [OF "2.prems"(3,5)])
    have "u \<notin> ?B" using downstream_waiting [of u d u] "2.prems"(6) by blast
    have each: "skip_each n ?qs d = Some r" using "2.prems"(1) Inr by simp
    show ?thesis
    proof (rule "2.IH" [OF Inr each "2.prems"(2) downstream_closed])
      show "single_edges ?B d" by (rule single_mono [OF "2.prems"(4) subset_refl sub])
      show "q_id ` set ?qs \<subseteq> ?B" unfolding ids by (auto intro: waits_downstream)
      have "distinct (map q_id ws)"
        using loadQueue_distinct [OF Inr] "2.prems"(2) by (simp add: waiting_distinct_def)
      then show "distinct (map q_id ?qs)" by (simp add: findDependents_def distinct_map_filter)
      show "\<forall>q \<in> set ?qs. wget d (q_id q) \<noteq> None"
        using ids by (auto simp: waits_def)
      show "\<forall>q \<in> set ?qs. \<forall>a \<in> ?B. (q_id q, a) \<notin> waits d"
        using ids "2.prems"(4,5) sub \<open>u \<notin> ?B\<close> unfolding single_edges_def by blast
    qed
  qed
next
  case (4 n q qs d)
  have "wget d (q_id q) \<noteq> None" using "4.prems"(7) by simp
  then obtain d1 where m: "movePrdFromWaiting (q_id q) SkippedDir d = Inr d1"
    using move_file_Inr_iff [of WaitingDir SkippedDir "q_id q" d]
    by (auto simp: movePrdFromWaiting_def file_exists_iff)
  obtain r1 where r1: "propagateSkip n (q_id q) d1 = Some r1"
    using "4.prems"(1) m by (auto split: option.splits)
  note s1 = moveD(1) [OF m]
  have dist1: "waiting_distinct d1" by (rule moveD(3) [OF m "4.prems"(2)])
  have c1: "closed_under (waits d1) A" by (rule closed_mono [OF "4.prems"(3) skips_waits [OF s1]])
  have e1: "single_edges A d1" by (rule single_mono [OF "4.prems"(4) skips_waits [OF s1] subset_refl])
  obtain d2 where d2: "r1 = Inr d2"
    using "4.IH"(1) [OF m r1 dist1 c1 e1 _ moveD(2) [OF m]] "4.prems"(5) by (cases r1) auto
  have rest: "skip_each n qs d2 = Some r" using "4.prems"(1) m r1 d2 by simp
  have sk: "skips (downstream d1 (q_id q)) d1 d2" and dist2: "waiting_distinct d2"
    using propagateSkip_skips(1) [OF r1 dist1 downstream_closed waits_downstream]
    by (simp_all add: d2 final_disk_def)
  have w21: "waits d2 \<subseteq> waits d" using skips_waits [OF sk] skips_waits [OF s1] by blast
  have untouched: "wget d2 (q_id x) = wget d (q_id x)" if "x \<in> set qs" for x
  proof -
    have "q_id x \<notin> downstream d1 (q_id q)"
    proof
      assume "q_id x \<in> downstream d1 (q_id q)"
      then obtain a where xa: "(q_id x, a) \<in> waits d1" and "a = q_id q \<or> (a, q_id q) \<in> (waits d1)\<^sup>+"
        unfolding downstream_def mem_Collect_eq by (metis converse_tranclE)
      then have "a \<in> A" using trancl_closed [OF _ c1] "4.prems"(5) by auto
      with xa skips_waits [OF s1] "4.prems"(8) that show False by auto
    qed
    moreover have "q_id x \<noteq> q_id q" using "4.prems"(6) that by (metis distinct.simps(2) image_eqI list.simps(9) set_map)
    ultimately show ?thesis using skips_keeps [OF sk] skips_keeps [OF s1] by simp
  qed
  show ?case
  proof (rule "4.IH"(2) [OF m r1 d2 rest dist2])
    show "closed_under (waits d2) A" by (rule closed_mono [OF "4.prems"(3) w21])
    show "single_edges A d2" by (rule single_mono [OF "4.prems"(4) w21 subset_refl])
    show "\<forall>x \<in> set qs. wget d2 (q_id x) \<noteq> None" using untouched "4.prems"(7) by simp
    show "\<forall>x \<in> set qs. \<forall>a \<in> A. (q_id x, a) \<notin> waits d2" using "4.prems"(8) w21 by auto
  qed (use "4.prems" in auto)
qed auto

section \<open>Unblocking\<close>

text \<open>
  \<open>unblockWaiting\<close>. \<open>terminal\<close> holds the ids of the failed and skipped directories; an
  unreadable registry makes the call throw. \<open>active\<close> is \<open>stillActiveIds\<close>.
\<close>

definition depHasUsableArtifact :: "bool \<Rightarrow> artifact list \<Rightarrow> prd_id set \<Rightarrow> prd_id \<Rightarrow> bool" where
  "depHasUsableArtifact requireArtifacts registry terminal dep \<longleftrightarrow>
     \<not> requireArtifacts \<or> (dep \<notin> terminal \<and> hasUsableArtifact registry dep)"

fun unblock_each ::
    "(prd_id \<Rightarrow> bool) \<Rightarrow> queued_prd list \<Rightarrow> prd_id set \<Rightarrow> qdisk \<Rightarrow> (fs_error \<times> qdisk, qdisk \<times> prd_id list) result" where
  "unblock_each usable [] active d = Inr (d, [])"
| "unblock_each usable (q # qs) active d =
     (if \<forall>dep \<in> set (deps_of (q_fm q)). dep \<notin> active \<and> usable dep
      then (case movePrdFromWaitingNoOverwrite (q_id q) RootDir d of
              Inl e \<Rightarrow> Inl e
            | Inr (d1, moved) \<Rightarrow>
                if moved
                then (case unblock_each usable qs (active - {q_id q}) d1 of
                        Inl e \<Rightarrow> Inl e
                      | Inr (d2, us) \<Rightarrow> Inr (d2, q_id q # us))
                else unblock_each usable qs active d1)
      else unblock_each usable qs active d)"

datatype queue_error = Fs fs_error | Registry reg_error

definition unblockWaiting ::
    "prd_id \<Rightarrow> bool \<Rightarrow> qdisk \<Rightarrow> (queue_error \<times> qdisk, qdisk \<times> prd_id list) result" where
  "unblockWaiting completedId requireArtifacts d =
     (case loadQueue WaitingDir d of
        Inl _ \<Rightarrow> Inr (d, [])
      | Inr waitingPrds \<Rightarrow>
          if waitingPrds = [] then Inr (d, [])
          else
            (let active = set (map q_id waitingPrds @ map q_id (loadOr RootDir d)) - {completedId};
                 terminal = set (map q_id (loadOr FailedDir d) @ map q_id (loadOr SkippedDir d))
             in case (if requireArtifacts then loadArtifactRegistry (d_artifacts d) else Inr []) of
                  Inl e \<Rightarrow> Inl (Registry e, d)
                | Inr registry \<Rightarrow>
                    (case unblock_each (depHasUsableArtifact requireArtifacts registry terminal)
                            waitingPrds active d of
                       Inl (e, d') \<Rightarrow> Inl (Fs e, d')
                     | Inr r \<Rightarrow> Inr r)))"

abbreviation rget :: "qdisk \<Rightarrow> prd_id \<Rightarrow> md_file option" where
  "rget d \<equiv> dget (entries RootDir d)"

text \<open>\<open>d'\<close> is \<open>d\<close> with the waiting files \<open>us\<close> moved to the root, where there was none.\<close>

definition releases :: "prd_id set \<Rightarrow> qdisk \<Rightarrow> qdisk \<Rightarrow> bool" where
  "releases us d d' \<longleftrightarrow>
     (\<forall>l. l \<noteq> WaitingDir \<longrightarrow> l \<noteq> RootDir \<longrightarrow> entries l d' = entries l d) \<and>
     (\<forall>i. if i \<in> us then wget d i \<noteq> None \<and> rget d i = None \<and> wget d' i = None \<and> rget d' i = wget d i
          else wget d' i = wget d i \<and> rget d' i = rget d i)"

lemma releases_refl [simp]: "releases {} d d"
  by (simp add: releases_def)

lemma releases_step:
  assumes a: "releases {i} d d1" and b: "releases us d1 d2"
  shows "i \<notin> us \<and> releases (insert i us) d d2"
proof -
  have i: "i \<notin> us" using a b unfolding releases_def by (metis singletonI)
  then show ?thesis using a b unfolding releases_def by (auto split: if_splits) metis+
qed

lemma no_overwriteD:
  assumes "movePrdFromWaitingNoOverwrite i RootDir d = Inr (d', moved)"
  shows "if moved then releases {i} d d' else releases {} d d'"
  using assms
  by (auto simp: movePrdFromWaitingNoOverwrite_def Let_def releases_def file_exists_iff
      split: option.splits if_splits)

text \<open>Why a PRD may be released: each dependency is usable, and inactive or released before.\<close>

definition release_ok :: "(prd_id \<Rightarrow> bool) \<Rightarrow> prd_id set \<Rightarrow> prd_id list \<Rightarrow> queued_prd \<Rightarrow> bool" where
  "release_ok usable active us q \<longleftrightarrow>
     (\<forall>dep \<in> set (deps_of (q_fm q)). usable dep \<and> (dep \<notin> active \<or> dep \<in> set us))"

lemma release_ok_Cons:
  "release_ok usable (active - {i}) us q \<Longrightarrow> release_ok usable active (i # us) q"
  by (auto simp: release_ok_def)

definition released_ok :: "(prd_id \<Rightarrow> bool) \<Rightarrow> prd_id set \<Rightarrow> queued_prd list \<Rightarrow> prd_id list \<Rightarrow> bool" where
  "released_ok usable active qs us \<longleftrightarrow>
     (\<forall>i \<in> set us. \<exists>q \<in> set qs. q_id q = i \<and> release_ok usable active us q)"

lemma unblock_each_sound:
  "unblock_each usable qs active d = Inr (d', us) \<Longrightarrow>
   releases (set us) d d' \<and> distinct us \<and> released_ok usable active qs us"
proof (induction usable qs active d arbitrary: d' us rule: unblock_each.induct)
  case (1 usable active d)
  then show ?case by (simp add: released_ok_def)
next
  case (2 usable q qs active d)
  let ?ok = "\<forall>dep \<in> set (deps_of (q_fm q)). dep \<notin> active \<and> usable dep"
  consider (moved) d1 us1 where "?ok" "movePrdFromWaitingNoOverwrite (q_id q) RootDir d = Inr (d1, True)"
      "unblock_each usable qs (active - {q_id q}) d1 = Inr (d', us1)" "us = q_id q # us1"
    | (kept) d1 where "?ok" "movePrdFromWaitingNoOverwrite (q_id q) RootDir d = Inr (d1, False)"
      "unblock_each usable qs active d1 = Inr (d', us)"
    | (blocked) "\<not> ?ok" "unblock_each usable qs active d = Inr (d', us)"
    using "2.prems" by (auto split: if_splits sum.splits prod.splits)
  then show ?case
  proof cases
    case moved
    have ih: "releases (set us1) d1 d'" "distinct us1" "released_ok usable (active - {q_id q}) qs us1"
      using "2.IH"(1) [OF moved(1,2) refl _ moved(3)] by auto
    have r: "releases {q_id q} d d1" using no_overwriteD [OF moved(2)] by simp
    have "released_ok usable active (q # qs) us"
      using ih(3) moved(1) unfolding released_ok_def moved(4)
      by (auto intro: release_ok_Cons) (auto simp: release_ok_def)
    with releases_step [OF r ih(1)] ih(2) show ?thesis by (simp add: moved(4))
  next
    case kept
    have ih: "releases (set us) d1 d' \<and> distinct us \<and> released_ok usable active qs us"
      using "2.IH"(2) [OF kept(1,2) refl _ kept(3)] by auto
    have r: "releases {} d d1" using no_overwriteD [OF kept(2)] by simp
    have "releases (set us) d d'" using r ih unfolding releases_def by (metis empty_iff)
    with ih show ?thesis by (auto simp: released_ok_def)
  next
    case blocked
    from "2.IH"(3) [OF blocked] show ?thesis by (auto simp: released_ok_def)
  qed
qed

section \<open>Adding dependents\<close>

datatype dep_error =
    DepFailedItem prd_id
  | DepSkippedItem prd_id
  | DepTerminalItem prd_id
  | DepFailedCompletion prd_id
  | DepSkippedCompletion prd_id
  | DepNoArtifact prd_id
  | DepNoDurableArtifact prd_id
  | DepUnknown prd_id
  | DepLockUnreadable prd_id
  | DepRegistry reg_error

definition ids_or :: "qloc \<Rightarrow> qdisk \<Rightarrow> prd_id set" where
  "ids_or l d = set (map q_id (loadOr l d))"

definition is_live :: "prd_lock \<Rightarrow> bool" where
  "is_live s = (case s of Live _ \<Rightarrow> True | _ \<Rightarrow> False)"

text \<open>\<open>classifyAfterQueueId\<close>: the dependency list to persist and whether the new PRD waits.\<close>

definition classifyAfterQueueId ::
    "(nat \<Rightarrow> probe) \<Rightarrow> prd_id \<Rightarrow> qdisk \<Rightarrow> (dep_error, prd_id list \<times> bool) result" where
  "classifyAfterQueueId os a d =
     (if a \<in> ids_or RootDir d then Inr ([a], True)
      else if a \<in> ids_or WaitingDir d then Inr ([a], True)
      else case readPrdLockStatus os (read_lock (d_locks d) a) of
        None \<Rightarrow> Inl (DepLockUnreadable a)
      | Some status \<Rightarrow>
        if is_live status then Inr ([a], True)
        else if a \<in> ids_or FailedDir d then Inl (DepFailedItem a)
        else if a \<in> ids_or SkippedDir d then Inl (DepSkippedItem a)
        else case loadCompletionRegistry (d_completions d) of
          Inl e \<Rightarrow> Inl (DepRegistry e)
        | Inr completions \<Rightarrow>
          (let record = lookupCompletion completions a
           in case map_option co_status record of
                Some CFailed \<Rightarrow> Inl (DepFailedCompletion a)
              | Some CSkipped \<Rightarrow> Inl (DepSkippedCompletion a)
              | status \<Rightarrow>
                  if status = Some CCompleted \<and> \<not> co_artifactAvailable (the record)
                  then Inl (DepNoArtifact a)
                  else case loadArtifactRegistry (d_artifacts d) of
                    Inl e \<Rightarrow> Inl (DepRegistry e)
                  | Inr registry \<Rightarrow>
                      if hasUsableArtifact registry a then Inr ([a], False)
                      else if status = Some CCompleted then Inl (DepNoDurableArtifact a)
                      else Inl (DepUnknown a)))"

text \<open>\<open>validateDependsOnExists\<close>: one dependency, then the loop.\<close>

definition check_dep ::
    "(nat \<Rightarrow> probe) \<Rightarrow> qdisk \<Rightarrow> artifact list \<Rightarrow> completions \<Rightarrow> prd_id \<Rightarrow> dep_error option" where
  "check_dep os d registry completions dep =
     (if dep \<in> ids_or RootDir d \<union> ids_or WaitingDir d then None
      else case readPrdLockStatus os (read_lock (d_locks d) dep) of
        None \<Rightarrow> Some (DepLockUnreadable dep)
      | Some status \<Rightarrow>
        if is_live status then None
        else if dep \<in> ids_or FailedDir d \<union> ids_or SkippedDir d then Some (DepTerminalItem dep)
        else (let record = lookupCompletion completions dep; st = map_option co_status record
          in if st = Some CFailed \<or> st = Some CSkipped then Some (DepFailedCompletion dep)
             else if st = Some CCompleted \<and> \<not> co_artifactAvailable (the record) then Some (DepNoArtifact dep)
             else if hasUsableArtifact registry dep then None
             else if st = Some CCompleted then Some (DepNoDurableArtifact dep)
             else Some (DepUnknown dep)))"

fun check_deps :: "(prd_id \<Rightarrow> dep_error option) \<Rightarrow> prd_id list \<Rightarrow> (dep_error, unit) result" where
  "check_deps chk [] = Inr ()"
| "check_deps chk (dep # deps) = (case chk dep of Some e \<Rightarrow> Inl e | None \<Rightarrow> check_deps chk deps)"

definition validateDependsOnExists ::
    "(nat \<Rightarrow> probe) \<Rightarrow> prd_id list \<Rightarrow> qdisk \<Rightarrow> (dep_error, unit) result" where
  "validateDependsOnExists os depends_on d =
     (if depends_on = [] then Inr ()
      else case loadArtifactRegistry (d_artifacts d) of
        Inl e \<Rightarrow> Inl (DepRegistry e)
      | Inr registry \<Rightarrow>
          (case loadCompletionRegistry (d_completions d) of
             Inl e \<Rightarrow> Inl (DepRegistry e)
           | Inr completions \<Rightarrow> check_deps (check_dep os d registry completions) depends_on))"

lemma check_deps_Inr: "check_deps chk deps = Inr () \<longleftrightarrow> (\<forall>dep \<in> set deps. chk dep = None)"
  by (induction deps) (auto split: option.splits)

lemma classify_check:
  assumes "loadArtifactRegistry (d_artifacts d) = Inr registry"
    and "loadCompletionRegistry (d_completions d) = Inr completions"
  shows "\<not> isl (classifyAfterQueueId os a d) \<longleftrightarrow> check_dep os d registry completions a = None"
proof (cases "lookupCompletion completions a")
  case None
  with assms show ?thesis
    by (cases "readPrdLockStatus os (read_lock (d_locks d) a)")
       (simp_all add: classifyAfterQueueId_def check_dep_def)
next
  case (Some c)
  with assms show ?thesis
    by (cases "readPrdLockStatus os (read_lock (d_locks d) a)"; cases "co_status c")
       (simp_all add: classifyAfterQueueId_def check_dep_def)
qed

lemma classify_placement:
  "classifyAfterQueueId os a d = Inr (deps, w) \<Longrightarrow> deps = [a] \<and>
   (w \<longleftrightarrow> a \<in> ids_or RootDir d \<union> ids_or WaitingDir d \<or>
      (\<exists>pid. readPrdLockStatus os (read_lock (d_locks d) a) = Some (Live pid)))"
  by (auto simp: classifyAfterQueueId_def Let_def is_live_def
      split: option.splits completion_status.splits if_splits prd_lock.splits sum.splits)

section \<open>Enqueueing\<close>

definition lower :: "char \<Rightarrow> char" where
  "lower c = (let n = (of_char c :: nat) in if 65 \<le> n \<and> n \<le> 90 then char_of (n + 32) else c)"

definition slug_char :: "char \<Rightarrow> bool" where
  "slug_char c \<longleftrightarrow> (let n = (of_char c :: nat) in (97 \<le> n \<and> n \<le> 122) \<or> (48 \<le> n \<and> n \<le> 57))"

definition dash :: char where
  "dash = CHR ''-''"

text \<open>\<open>replace(/[^a-z0-9]+/g, '-')\<close>; the flag says that the run before was replaced.\<close>

fun dash_runs :: "bool \<Rightarrow> string \<Rightarrow> string" where
  "dash_runs inrun [] = []"
| "dash_runs inrun (c # cs) =
     (if slug_char c then c # dash_runs False cs
      else if inrun then dash_runs True cs else dash # dash_runs True cs)"

text \<open>\<open>replace(/-+/g, '-')\<close>.\<close>

fun squeeze :: "string \<Rightarrow> string" where
  "squeeze (c # c' # cs) = (if c = dash \<and> c' = dash then squeeze (c' # cs) else c # squeeze (c' # cs))"
| "squeeze cs = cs"

text \<open>\<open>replace(/^-|-$/g, '')\<close>.\<close>

definition strip_dashes :: "string \<Rightarrow> string" where
  "strip_dashes s =
     (let s1 = (if s \<noteq> [] \<and> hd s = dash then tl s else s)
      in if s1 \<noteq> [] \<and> last s1 = dash then butlast s1 else s1)"

definition slugify :: "string \<Rightarrow> string" where
  "slugify title = strip_dashes (squeeze (dash_runs False (map lower title)))"

text \<open>The loop over suffixes, with fuel.\<close>

fun free_slug :: "nat \<Rightarrow> string list \<Rightarrow> string \<Rightarrow> nat \<Rightarrow> string \<Rightarrow> string option" where
  "free_slug 0 existing base suffix slug = None"
| "free_slug (Suc n) existing base suffix slug =
     (if slug \<in> set existing
      then free_slug n existing base (suffix + 1) (base @ dash # dec_string (suffix + 1))
      else Some slug)"

definition has_control :: "string \<Rightarrow> bool" where
  "has_control s \<longleftrightarrow> (\<exists>c \<in> set s. (of_char c :: nat) < 32 \<or> (of_char c :: nat) = 127)"

record enqueue_options =
  eo_title :: string
  eo_priority :: "int option"
  eo_depends_on :: "prd_id list option"
  eo_intoWaiting :: bool
  eo_postMerge :: "string list option"
  eo_profile :: "string option"
  eo_landingAction :: "landing_action option"
  eo_landingAutoMerge :: "bool option"
  eo_stack_id :: "string option"
  eo_stack_parent :: "prd_id option"

datatype enqueue_error = BadPostMerge | BadTitle | OutOfFuel

definition nonempty_list :: "'a list option \<Rightarrow> 'a list option" where
  "nonempty_list x = (case x of Some (a # as) \<Rightarrow> Some (a # as) | _ \<Rightarrow> None)"

definition post_merge_ok :: "string list option \<Rightarrow> bool" where
  "post_merge_ok cmds \<longleftrightarrow>
     (case cmds of None \<Rightarrow> True | Some cs \<Rightarrow> list_all (\<lambda>c. trim c \<noteq> [] \<and> \<not> has_control c) cs)"

definition new_frontmatter :: "string \<Rightarrow> enqueue_options \<Rightarrow> prd_fm" where
  "new_frontmatter today opt = (plain_fm (eo_title opt))\<lparr>
     fm_created := Some today,
     fm_priority := eo_priority opt,
     fm_depends_on := nonempty_list (eo_depends_on opt),
     fm_profile := eo_profile opt,
     fm_stack_id := eo_stack_id opt,
     fm_stack_parent := eo_stack_parent opt,
     fm_landing := eo_landingAction opt,
     fm_landing_auto_merge := eo_landingAutoMerge opt,
     fm_postMerge := nonempty_list (eo_postMerge opt)\<rparr>"

text \<open>\<open>enqueuePrd\<close>. \<open>others\<close> are the names in the target directory that are not PRD files.\<close>

definition enqueuePrd ::
    "string list \<Rightarrow> string \<Rightarrow> enqueue_options \<Rightarrow> qdisk \<Rightarrow> (enqueue_error \<times> qdisk, qdisk \<times> prd_id \<times> prd_fm) result" where
  "enqueuePrd others today opt d =
     (let target = (if eo_intoWaiting opt then WaitingDir else RootDir);
          d1 = mkdirp target d;
          baseSlug = (if slugify (eo_title opt) = [] then ''untitled'' else slugify (eo_title opt));
          existing = ids_in target d1 @ others
      in case free_slug (Suc (length existing)) existing baseSlug 1 baseSlug of
           None \<Rightarrow> Inl (OutOfFuel, d1)
         | Some slug \<Rightarrow>
             if \<not> post_merge_ok (eo_postMerge opt) then Inl (BadPostMerge, d1)
             else if has_control (eo_title opt) then Inl (BadTitle, d1)
             else (let fm = new_frontmatter today opt
                   in Inr (set_dir target (Some (dput slug (Prd fm) (entries target d1))) d1, slug, fm)))"

text \<open>\<open>validatePrdId\<close> of the finalizer.\<close>

definition id_char :: "char \<Rightarrow> bool" where
  "id_char c \<longleftrightarrow> (let n = (of_char c :: nat) in
     (65 \<le> n \<and> n \<le> 90) \<or> (97 \<le> n \<and> n \<le> 122) \<or> (48 \<le> n \<and> n \<le> 57))"

definition validatePrdId :: "prd_id \<Rightarrow> bool" where
  "validatePrdId i \<longleftrightarrow> i \<noteq> [] \<and> id_char (hd i) \<and>
     list_all (\<lambda>c. id_char c \<or> c \<in> set ''._-'') (tl i) \<and> i \<noteq> ''.'' \<and> i \<noteq> ''..''"

subsection \<open>Fresh, valid slugs\<close>

lemma slug_char_id: "slug_char c \<Longrightarrow> id_char c"
  by (auto simp: slug_char_def id_char_def Let_def)

lemma slug_char_not_dash: "slug_char c \<Longrightarrow> c \<noteq> dash"
  by (auto simp: slug_char_def dash_def Let_def)

definition slug_like :: "string \<Rightarrow> bool" where
  "slug_like s \<longleftrightarrow> (\<forall>c \<in> set s. slug_char c \<or> c = dash)"

lemma dash_runs_like: "slug_like (dash_runs b s)"
  by (induction b s rule: dash_runs.induct) (auto simp: slug_like_def)

text \<open>No two dashes in a row.\<close>

fun single_dashes :: "string \<Rightarrow> bool" where
  "single_dashes (c # c' # cs) \<longleftrightarrow> \<not> (c = dash \<and> c' = dash) \<and> single_dashes (c' # cs)"
| "single_dashes cs \<longleftrightarrow> True"

lemma squeeze_head: "s \<noteq> [] \<Longrightarrow> squeeze s \<noteq> [] \<and> hd (squeeze s) = hd s"
  by (induction s rule: squeeze.induct) auto

lemma squeeze_single: "single_dashes (squeeze s)"
proof (induction s rule: squeeze.induct)
  case (1 c c' cs)
  show ?case
  proof (cases "c = dash \<and> c' = dash")
    case True
    with 1(1) show ?thesis by simp
  next
    case False
    then obtain r rs where r: "squeeze (c' # cs) = r # rs" "r = c'"
      using squeeze_head [of "c' # cs"] by (cases "squeeze (c' # cs)") auto
    have "single_dashes (r # rs)" using 1(2) False r(1) by simp
    moreover have "squeeze (c # c' # cs) = c # r # rs" using False r(1) by (auto simp del: squeeze.simps(2))
    ultimately show ?thesis using False r(2) by auto
  qed
qed simp_all

lemma squeeze_like: "slug_like s \<Longrightarrow> slug_like (squeeze s)"
  by (induction s rule: squeeze.induct) (auto simp: slug_like_def split: if_splits)

lemma slugify_valid:
  assumes "slugify title \<noteq> []"
  shows "slug_char (hd (slugify title))" and "slug_like (slugify title)"
proof -
  define s where "s = squeeze (dash_runs False (map lower title))"
  have like: "slug_like s" and single: "single_dashes s"
    unfolding s_def by (simp_all add: squeeze_like dash_runs_like squeeze_single)
  define s1 where "s1 = (if s \<noteq> [] \<and> hd s = dash then tl s else s)"
  have s1: "slug_like s1" and h: "s1 \<noteq> [] \<Longrightarrow> slug_char (hd s1)"
  proof -
    show "slug_like s1" using like by (cases s) (auto simp: s1_def slug_like_def)
    show "slug_char (hd s1)" if "s1 \<noteq> []"
      using that like single
      by (cases s rule: single_dashes.cases) (auto simp: s1_def slug_like_def split: if_splits)
  qed
  have slug: "slugify title = (if s1 \<noteq> [] \<and> last s1 = dash then butlast s1 else s1)"
    by (simp add: slugify_def strip_dashes_def Let_def s_def s1_def)
  show "slug_like (slugify title)"
    using s1 unfolding slug slug_like_def by (auto dest: in_set_butlastD)
  show "slug_char (hd (slugify title))"
    using assms h unfolding slug by (cases s1) auto
qed

definition candidate :: "string \<Rightarrow> nat \<Rightarrow> string" where
  "candidate base k = (if k = 0 then base else base @ dash # dec_string (k + 1))"

lemma candidate_inj: "candidate base j = candidate base k \<Longrightarrow> j = k"
proof -
  assume eq: "candidate base j = candidate base k"
  have pos: "length (candidate base i) > length base" if "i \<noteq> 0" for i
    using that by (simp add: candidate_def)
  show "j = k"
  proof (cases "j = 0 \<or> k = 0")
    case True
    with eq pos [of j] pos [of k] show ?thesis by (metis candidate_def less_irrefl)
  next
    case False
    with eq have "dec_string (j + 1) = dec_string (k + 1)" by (simp add: candidate_def)
    then show ?thesis by (metis add_right_cancel dec_string_val)
  qed
qed

lemma free_slug_candidates:
  "free_slug n existing base (Suc k) (candidate base k) = None \<Longrightarrow>
   j < n \<Longrightarrow> candidate base (k + j) \<in> set existing"
proof (induction n arbitrary: k j)
  case 0
  then show ?case by simp
next
  case (Suc n)
  have "base @ dash # dec_string (Suc (Suc k)) = candidate base (Suc k)" by (simp add: candidate_def)
  with Suc.prems(1) have used: "candidate base k \<in> set existing"
    and rest: "free_slug n existing base (Suc (Suc k)) (candidate base (Suc k)) = None"
    by (auto split: if_splits)
  show ?case
  proof (cases j)
    case 0
    with used show ?thesis by simp
  next
    case (Suc i)
    with Suc.IH [OF rest, of i] Suc.prems(2) show ?thesis by simp
  qed
qed

lemma free_slug_found: "free_slug (Suc (length existing)) existing base 1 base \<noteq> None"
proof
  assume none: "free_slug (Suc (length existing)) existing base 1 base = None"
  have "candidate base j \<in> set existing" if "j < Suc (length existing)" for j
    using free_slug_candidates [of "Suc (length existing)" existing base 0 j] none that
    by (simp add: candidate_def)
  then have "candidate base ` {..< Suc (length existing)} \<subseteq> set existing" by blast
  moreover have "inj_on (candidate base) {..< Suc (length existing)}"
    using candidate_inj by (auto simp: inj_on_def)
  ultimately have "Suc (length existing) \<le> card (set existing)"
    by (metis List.finite_set card_image card_lessThan card_mono)
  with card_length [of existing] show False by simp
qed

lemma free_slug_fresh:
  "free_slug n existing base k slug = Some s \<Longrightarrow> s \<notin> set existing \<and> (s = slug \<or> (\<exists>j. s = base @ dash # dec_string j))"
  by (induction n existing base k slug rule: free_slug.induct) (auto split: if_splits)

lemma digit_ok: "is_digit c \<Longrightarrow> id_char c"
  by (auto simp: is_digit_def id_char_def Let_def)

lemma slug_valid:
  assumes "base = (if slugify title = [] then ''untitled'' else slugify title)"
    and "s = base \<or> (\<exists>j. s = base @ dash # dec_string j)"
  shows "validatePrdId s"
proof -
  have "base \<noteq> [] \<and> slug_char (hd base) \<and> slug_like base"
    using assms(1) slugify_valid [of title]
    by (auto simp: slug_like_def slug_char_def split: if_splits)
  then obtain c cs where base: "base = c # cs" "slug_char c" "slug_like cs"
    by (cases base) (auto simp: slug_like_def)
  have ok: "list_all (\<lambda>c. id_char c \<or> c \<in> set ''._-'') t" if "slug_like t" for t
    using that by (auto simp: slug_like_def list_all_iff dash_def intro: slug_char_id)
  have "list_all (\<lambda>c. id_char c \<or> c \<in> set ''._-'') (dec_string j)" for j
    using dec_string_digits [of j] digit_ok by (auto simp: all_digits_def list_all_iff)
  then have tl: "list_all (\<lambda>c. id_char c \<or> c \<in> set ''._-'') (tl s)" and hd: "hd s = c" and ne: "s \<noteq> []"
    using assms(2) base ok [of cs] by (auto simp: dash_def)
  have "c \<noteq> CHR ''.''" using base(2) by (auto simp: slug_char_def Let_def)
  then have "s \<noteq> ''.''" "s \<noteq> ''..''" using hd by auto
  with tl hd ne slug_char_id [OF base(2)] show ?thesis by (simp add: validatePrdId_def)
qed

text \<open>\<open>setQueuedPrdStackParent\<close>: the file is rewritten from the PRD in memory.\<close>

definition write_prd :: "queued_prd \<Rightarrow> qdisk \<Rightarrow> (fs_error, qdisk) result" where
  "write_prd q d =
     (case dir_of (q_loc q) d of
        None \<Rightarrow> Inl ENOENT
      | Some es \<Rightarrow> Inr (set_dir (q_loc q) (Some (dput (q_id q) (Prd (q_fm q)) es)) d))"

definition setQueuedPrdStackParent ::
    "queued_prd \<Rightarrow> prd_id \<Rightarrow> qdisk \<Rightarrow> (fs_error, queued_prd \<times> qdisk) result" where
  "setQueuedPrdStackParent q parent d =
     (let q' = q\<lparr>q_fm := (q_fm q)\<lparr>fm_stack_parent := Some parent\<rparr>\<rparr>
      in case write_prd q' d of Inl e \<Rightarrow> Inl e | Inr d' \<Rightarrow> Inr (q', d'))"

text \<open>\<open>queueExecExitCode\<close>: the status of the child process.\<close>

definition queueExecExitCode :: "terminal_status option \<Rightarrow> string option \<Rightarrow> nat" where
  "queueExecExitCode status skipReason =
     (case status of
        Some QCompleted \<Rightarrow> 0
      | Some QFailed \<Rightarrow> 1
      | Some QSkipped \<Rightarrow>
          if skipReason = Some ''claimed by another process'' then 10
          else if skipReason = Some ''needs revision'' then 11
          else 2
      | None \<Rightarrow> 1)"

section \<open>Properties\<close>

definition demo_prd :: "string \<Rightarrow> string list \<Rightarrow> int option \<Rightarrow> queued_prd" where
  "demo_prd i deps pri = \<lparr>q_id = i, q_loc = RootDir,
     q_fm = (plain_fm i)\<lparr>fm_depends_on := Some deps, fm_priority := pri\<rparr>\<rparr>"

definition demo_file :: "string list \<Rightarrow> md_file" where
  "demo_file deps = Prd ((plain_fm ''t'')\<lparr>fm_depends_on := Some deps\<rparr>)"

definition demo_disk :: "(prd_id \<times> md_file) list \<Rightarrow> qdisk" where
  "demo_disk ws = \<lparr>d_root = Some [], d_waiting = Some ws, d_failed = None, d_skipped = None,
     d_locks = [], d_artifacts = NoFile, d_completions = NoFile\<rparr>"

definition no_dates :: "string \<Rightarrow> string \<Rightarrow> int" where
  "no_dates a b = 0"

text \<open> C26. \<open>resolveQueueOrder\<close> returns every queued PRD exactly once, as a sequence of blocks: a
  PRD's queued dependencies are in earlier blocks, it is in the block right after one of them,
  and each block is sorted by priority (missing last) and creation date. \<close>
theorem queue_order_sound:
  assumes "distinct (map q_id prds)" and "preorder_cmp lc" and "resolveQueueOrder lc prds = Inr out"
  shows "mset out = mset prds \<and> (\<exists>bs. out = concat bs \<and> queue_blocks lc prds bs)"
  using resolveQueueOrder_mset [OF assms(1,3)] resolveQueueOrder_blocks [OF assms] by blast

theorem queue_order_sound_witness:
  "\<exists>out. resolveQueueOrder no_dates [demo_prd ''a'' [] None, demo_prd ''c'' [''b''] (Some 1),
       demo_prd ''b'' [''z''] (Some 5)] = Inr out \<and> map q_id out = [''b'', ''a'', ''c''] \<and>
     (\<exists>bs. out = concat bs \<and> queue_blocks no_dates [demo_prd ''a'' [] None,
       demo_prd ''c'' [''b''] (Some 1), demo_prd ''b'' [''z''] (Some 5)] bs)"
proof -
  let ?q = "[demo_prd ''a'' [] None, demo_prd ''c'' [''b''] (Some 1), demo_prd ''b'' [''z''] (Some 5)]"
  have r: "resolveQueueOrder no_dates ?q = Inr [?q ! 2, ?q ! 0, ?q ! 1]"
    by (simp add: resolveQueueOrder_def queue_nodes_def demo_prd_def deps_of_def plain_fm_def
        resolveDependencyGraph_def edge_list_def dependents_of_def Let_def order_wave_def sort_by_def
        wave_prds_def find_prd_def compare_prds_def)
  have "distinct (map q_id ?q)" "preorder_cmp no_dates"
    by (simp_all add: demo_prd_def preorder_cmp_def no_dates_def)
  from queue_order_sound [OF this r] r show ?thesis by (simp add: demo_prd_def)
qed

text \<open> \<open>propagateSkip\<close> always returns, skips nothing but (transitive) dependents of the failed
  PRD and loses no file; when it does not throw, every one of them has been moved from
  \<open>waiting\<close> to \<open>skipped\<close>; and it does not throw when no two dependency chains lead to the
  same PRD. \<close>
theorem propagateSkip_exact:
  assumes "waiting_distinct d" and "all_loadable d"
  shows "\<exists>r. propagateSkip (skip_fuel d) u d = Some r \<and> skips (downstream d u) d (final_disk r) \<and>
    (\<forall>d'. r = Inr d' \<longrightarrow> (\<forall>i \<in> downstream d u. wget d' i = None \<and> sget d' i = wget d i)) \<and>
    (wget d u = None \<longrightarrow> single_edges (insert u (downstream d u)) d \<longrightarrow> \<not> isl r)"
proof -
  obtain r where r: "propagateSkip (skip_fuel d) u d = Some r"
    using propagateSkip_fuel(1) [of d "skip_fuel d" u] by (auto simp: skip_fuel_def)
  have sk: "skips (downstream d u) d (final_disk r)"
    using propagateSkip_skips(1) [OF r assms(1) downstream_closed waits_downstream] by blast
  have "wget d' i = None \<and> sget d' i = wget d i" if "r = Inr d'" "i \<in> downstream d u" for d' i
  proof -
    have st: "settled d d'" "\<forall>i. (i, u) \<notin> waits d'"
      using propagateSkip_settled(1) [OF r [unfolded that(1)] assms] by blast+
    have sk': "skips (downstream d u) d d'" using sk that(1) by (simp add: final_disk_def)
    have "wget d' i = None"
      using settled_all [OF st sk'] that(2) by (simp add: downstream_def)
    moreover have "wget d i \<noteq> None" by (rule downstream_waiting [OF that(2)])
    ultimately show ?thesis using sk' unfolding skips_def by metis
  qed
  moreover have "\<not> isl r" if "wget d u = None" "single_edges (insert u (downstream d u)) d"
  proof (rule propagateSkip_returns(1) [OF r assms(1) _ that(2) _ that(1)])
    show "closed_under (waits d) (insert u (downstream d u))"
      using downstream_closed [of d u] waits_downstream [of _ u d] by (auto simp: closed_under_def)
  qed simp
  ultimately show ?thesis using r sk by (intro exI [of _ r] conjI) blast+
qed

theorem propagateSkip_exact_witness:
  "\<exists>d'. propagateSkip 3 ''a'' (demo_disk [(''b'', demo_file [''a'']), (''c'', demo_file [''b''])]) = Some (Inr d') \<and>
     wget d' ''b'' = None \<and> sget d' ''b'' = Some (demo_file [''a''])"
proof -
  let ?d = "demo_disk [(''b'', demo_file [''a'']), (''c'', demo_file [''b''])]"
  have ok: "waiting_distinct ?d" "all_loadable ?d" "skip_fuel ?d = 3"
    by (auto simp: demo_disk_def waiting_distinct_def ids_in_def entries_def dir_of_def all_loadable_def
        loadable_def demo_file_def skip_fuel_def waiting_count_def split: if_splits)
  have b: "''b'' \<in> downstream ?d ''a''"
    by (rule waits_downstream)
       (simp add: waits_def demo_disk_def entries_def dir_of_def demo_file_def deps_of_def)
  have "\<exists>d'. propagateSkip 3 ''a'' ?d = Some (Inr d')"
    by (simp add: demo_disk_def loadQueue_def dir_of_def numeral_eq_Suc name_codes_def demo_file_def
        findDependents_def deps_of_def movePrdFromWaiting_def move_file_def mkdirp_def Let_def
        entries_def set_dir_def)
  then obtain d' where d': "propagateSkip 3 ''a'' ?d = Some (Inr d')" by blast
  with propagateSkip_exact [OF ok(1,2), of "''a''"] b
  have "wget d' ''b'' = None \<and> sget d' ''b'' = wget ?d ''b''" by (auto simp: ok(3))
  with d' show ?thesis by (simp add: demo_disk_def entries_def dir_of_def)
qed

text \<open> A waiting PRD that depends on the failed one and on another of its dependents makes
  \<open>propagateSkip\<close> throw: its file has been moved by the recursion when its turn comes. The
  dependents after it stay in \<open>waiting\<close>. \<close>
theorem propagateSkip_diamond_throws:
  "\<exists>d d'. waiting_distinct d \<and> all_loadable d \<and>
     propagateSkip (skip_fuel d) ''a'' d = Some (Inl (ENOENT, d')) \<and>
     ''e'' \<in> downstream d ''a'' \<and> wget d' ''e'' \<noteq> None"
proof -
  let ?d = "demo_disk [(''b'', demo_file [''a'']), (''c'', demo_file [''a'', ''b'']), (''e'', demo_file [''a''])]"
  have "waiting_distinct ?d" "all_loadable ?d" "skip_fuel ?d = 4"
    by (auto simp: demo_disk_def waiting_distinct_def ids_in_def entries_def dir_of_def all_loadable_def
        loadable_def demo_file_def skip_fuel_def waiting_count_def split: if_splits)
  moreover have "''e'' \<in> downstream ?d ''a''"
    by (rule waits_downstream)
       (simp add: waits_def demo_disk_def entries_def dir_of_def demo_file_def deps_of_def)
  moreover have "\<exists>d'. propagateSkip 4 ''a'' ?d = Some (Inl (ENOENT, d')) \<and> wget d' ''e'' \<noteq> None"
    by (simp add: demo_disk_def loadQueue_def dir_of_def numeral_eq_Suc name_codes_def demo_file_def
        findDependents_def deps_of_def movePrdFromWaiting_def move_file_def mkdirp_def Let_def
        entries_def set_dir_def)
  ultimately show ?thesis by metis
qed

text \<open> \<open>unblockWaiting\<close> moves to the queue root only waiting PRDs whose dependencies are all
  usable and each inactive (or released by the same call), never over an existing file, and
  changes nothing else. \<close>
theorem unblockWaiting_sound:
  assumes "unblockWaiting c True d = Inr (d', us)"
  shows "releases (set us) d d' \<and> distinct us \<and>
    (\<forall>i \<in> set us. \<exists>fm registry. (i, Prd fm) \<in> set (entries WaitingDir d) \<and>
       loadArtifactRegistry (d_artifacts d) = Inr registry \<and>
       (\<forall>dep \<in> set (deps_of fm). hasUsableArtifact registry dep \<and>
          dep \<notin> ids_or FailedDir d \<and> dep \<notin> ids_or SkippedDir d \<and>
          (dep = c \<or> dep \<in> set us \<or> dep \<notin> ids_or WaitingDir d \<union> ids_or RootDir d)))"
proof (cases "us = []")
  case True
  with assms have "releases {} d d'"
    by (auto simp: unblockWaiting_def Let_def split: sum.splits if_splits prod.splits
        dest!: unblock_each_sound)
  with True show ?thesis by simp
next
  case False
  then obtain ws registry where ws: "loadQueue WaitingDir d = Inr ws"
    and reg: "loadArtifactRegistry (d_artifacts d) = Inr registry"
    and each: "unblock_each (depHasUsableArtifact True registry
        (set (map q_id (loadOr FailedDir d) @ map q_id (loadOr SkippedDir d)))) ws
        (set (map q_id ws @ map q_id (loadOr RootDir d)) - {c}) d = Inr (d', us)"
    using assms by (auto simp: unblockWaiting_def Let_def split: sum.splits if_splits prod.splits)
  note sound = unblock_each_sound [OF each]
  have wids: "loadOr WaitingDir d = ws" by (simp add: loadOr_def ws)
  have "\<exists>fm registry. (i, Prd fm) \<in> set (entries WaitingDir d) \<and>
       loadArtifactRegistry (d_artifacts d) = Inr registry \<and>
       (\<forall>dep \<in> set (deps_of fm). hasUsableArtifact registry dep \<and>
          dep \<notin> ids_or FailedDir d \<and> dep \<notin> ids_or SkippedDir d \<and>
          (dep = c \<or> dep \<in> set us \<or> dep \<notin> ids_or WaitingDir d \<union> ids_or RootDir d))"
    if i: "i \<in> set us" for i
  proof -
    from sound i obtain q where q: "q \<in> set ws" "q_id q = i"
      and ok: "release_ok (depHasUsableArtifact True registry
        (set (map q_id (loadOr FailedDir d) @ map q_id (loadOr SkippedDir d))))
        (set (map q_id ws @ map q_id (loadOr RootDir d)) - {c}) us q"
      by (auto simp: released_ok_def)
    then have "(i, Prd (q_fm q)) \<in> set (entries WaitingDir d)"
      using loadQueue_set [OF ws, of q] by auto
    then show ?thesis
      using reg ok
      by (intro exI [of _ "q_fm q"] exI [of _ registry])
         (auto simp: release_ok_def depHasUsableArtifact_def wids ids_or_def)
  qed
  with sound show ?thesis by blast
qed

theorem unblockWaiting_sound_witness:
  "\<exists>d'. unblockWaiting ''a'' True ((demo_disk [(''b'', demo_file [''a''])])\<lparr>d_artifacts := Json [demo_artifact]\<rparr>)
       = Inr (d', [''b'']) \<and> rget d' ''b'' = Some (demo_file [''a''])"
proof -
  let ?d = "(demo_disk [(''b'', demo_file [''a''])])\<lparr>d_artifacts := Json [demo_artifact]\<rparr>"
  have "\<exists>d'. unblockWaiting ''a'' True ?d = Inr (d', [''b''])"
    by (simp add: unblockWaiting_def demo_disk_def loadQueue_def dir_of_def demo_file_def loadOr_def
        loadArtifactRegistry_def demo_artifact_def artifact_ok_def deps_of_def depHasUsableArtifact_def
        hasUsableArtifact_def lookupArtifactByPrdId_def movePrdFromWaitingNoOverwrite_def mkdirp_def
        entries_def set_dir_def file_exists_def ids_in_def Let_def)
  then obtain d' where d': "unblockWaiting ''a'' True ?d = Inr (d', [''b''])" by blast
  with unblockWaiting_sound [OF d'] show ?thesis
    by (auto simp: releases_def demo_disk_def entries_def dir_of_def split: if_splits)
qed

text \<open> An explicit \<open>afterQueueId\<close> is accepted exactly when the same id is accepted as a
  \<open>depends_on\<close> entry, once both registries can be read. \<close>
theorem afterQueueId_equiv_dependsOn:
  assumes "loadArtifactRegistry (d_artifacts d) = Inr registry"
    and "loadCompletionRegistry (d_completions d) = Inr completions"
  shows "\<not> isl (classifyAfterQueueId os a d) \<longleftrightarrow> validateDependsOnExists os [a] d = Inr ()"
  using classify_check [OF assms, of os a] assms
  by (simp add: validateDependsOnExists_def split: option.splits)

theorem afterQueueId_equiv_dependsOn_witness:
  "validateDependsOnExists (\<lambda>_. ESRCH) [''a''] (demo_disk [(''a'', demo_file [])]) = Inr ()"
proof -
  let ?d = "demo_disk [(''a'', demo_file [])]"
  have "\<not> isl (classifyAfterQueueId (\<lambda>_. ESRCH) ''a'' ?d)"
    by (simp add: classifyAfterQueueId_def ids_or_def loadOr_def loadQueue_def demo_disk_def dir_of_def
        demo_file_def)
  with afterQueueId_equiv_dependsOn [of ?d "[]" "[]" "\<lambda>_. ESRCH" "''a''"] show ?thesis
    by (simp add: demo_disk_def loadArtifactRegistry_def loadCompletionRegistry_def)
qed

text \<open> Enqueueing writes a new file: the id it returns was not in the target directory, passes
  the id check of the finalizer, and the only change to the disk is that file; it fails for
  nothing but control characters or empty commands in what the caller passed. \<close>
theorem enqueuePrd_fresh:
  "case enqueuePrd others today opt d of
     Inl (e, d') \<Rightarrow> (e = BadPostMerge \<and> \<not> post_merge_ok (eo_postMerge opt) \<or> e = BadTitle \<and> has_control (eo_title opt)) \<and>
       (\<forall>l. entries l d' = entries l d)
   | Inr (d', i, fm) \<Rightarrow>
       (let target = (if eo_intoWaiting opt then WaitingDir else RootDir)
        in i \<notin> set (ids_in target d) \<and> i \<notin> set others \<and> validatePrdId i \<and>
           entries target d' = entries target d @ [(i, Prd fm)] \<and>
           (\<forall>l. l \<noteq> target \<longrightarrow> entries l d' = entries l d))"
proof -
  define target where "target = (if eo_intoWaiting opt then WaitingDir else RootDir)"
  define base where "base = (if slugify (eo_title opt) = [] then ''untitled'' else slugify (eo_title opt))"
  let ?ex = "ids_in target (mkdirp target d) @ others"
  obtain s where s: "free_slug (Suc (length ?ex)) ?ex base 1 base = Some s"
    using free_slug_found [of ?ex base] by blast
  have fresh: "s \<notin> set (ids_in target d)" "s \<notin> set others"
    using free_slug_fresh [OF s] by (simp_all add: ids_in_def)
  have "validatePrdId s" using slug_valid [OF base_def] free_slug_fresh [OF s] by blast
  moreover have "dput s f (entries target d) = entries target d @ [(s, f)]" for f
    using fresh(1) by (intro dput_new) (simp add: ids_in_def)
  moreover have "enqueuePrd others today opt d =
      (if \<not> post_merge_ok (eo_postMerge opt) then Inl (BadPostMerge, mkdirp target d)
       else if has_control (eo_title opt) then Inl (BadTitle, mkdirp target d)
       else Inr (set_dir target (Some (dput s (Prd (new_frontmatter today opt)) (entries target d)))
              (mkdirp target d), s, new_frontmatter today opt))"
    unfolding enqueuePrd_def Let_def target_def [symmetric] base_def [symmetric] s option.case
    by simp
  ultimately show ?thesis
    using fresh unfolding Let_def target_def [symmetric] by simp
qed

definition demo_enqueue :: enqueue_options where
  "demo_enqueue = \<lparr>eo_title = ''Add  A!'', eo_priority = None, eo_depends_on = Some [], eo_intoWaiting = True,
     eo_postMerge = None, eo_profile = None, eo_landingAction = None, eo_landingAutoMerge = None,
     eo_stack_id = None, eo_stack_parent = None\<rparr>"

theorem enqueuePrd_fresh_witness:
  "\<exists>d' fm. enqueuePrd [] ''2026-01-01'' demo_enqueue (demo_disk [(''add-a'', demo_file [])]) = Inr (d', ''add-a-2'', fm) \<and>
     validatePrdId ''add-a-2'' \<and> fm_depends_on fm = None \<and>
     entries WaitingDir d' = [(''add-a'', demo_file []), (''add-a-2'', Prd fm)]"
proof -
  let ?d = "demo_disk [(''add-a'', demo_file [])]"
  have slug: "slugify ''Add  A!'' = ''add-a''"
    by code_simp
  have two: "dec_string 2 = ''2''" by code_simp
  have "\<exists>d' fm. enqueuePrd [] ''2026-01-01'' demo_enqueue ?d = Inr (d', ''add-a-2'', fm) \<and> fm_depends_on fm = None"
    by (simp add: enqueuePrd_def demo_enqueue_def slug demo_disk_def ids_in_def entries_def dir_of_def
        mkdirp_def set_dir_def dash_def two [unfolded numeral_2_eq_2] has_control_def post_merge_ok_def
        new_frontmatter_def nonempty_list_def plain_fm_def Let_def)
  then obtain d' fm where r: "enqueuePrd [] ''2026-01-01'' demo_enqueue ?d = Inr (d', ''add-a-2'', fm)"
    "fm_depends_on fm = None" by blast
  with enqueuePrd_fresh [where others = "[]" and today = "''2026-01-01''" and opt = demo_enqueue and d = ?d] show ?thesis
    by (simp add: demo_enqueue_def demo_disk_def entries_def dir_of_def Let_def)
qed

end
