(* ===== verification/Finalizer.thy ===== *)
theory Finalizer
  imports Queue
begin

text \<open>
  The shared finalizer of \<open>queue/finalizer.ts\<close>: what happens on disk when a queued PRD
  reaches a terminal state. The world adds the recovery sidecars of the failed directory
  to the disk of the queue. An action returns the world it leaves, also when it throws.
  Failures of the file system that the disk does not decide are the switches of
  \<open>fin_env\<close>. The map of finalizations in flight serialises the calls for one PRD, so a call
  is one step here.
\<close>

section \<open>The world and its actions\<close>

record sidecar =
  sc_rationale :: string
  sc_appliedAction :: "string option"
  sc_autoResume :: bool

record world =
  w_disk :: qdisk
  w_json :: "(prd_id \<times> sidecar) list"
  w_md :: "prd_id list"

datatype fin_error = FinFs fs_error | FinRegistry reg_error | FinSidecar | FinRelease | InvalidPrdId

record fin_env =
  fe_now :: string
  fe_registry :: "reg_error option"
  fe_release_ok :: bool
  fe_sidecar_ok :: bool

type_synonym 'a act = "world \<times> (fin_error, 'a) result"

definition on_disk :: "(qdisk \<Rightarrow> qdisk) \<Rightarrow> world \<Rightarrow> world" where
  "on_disk f w = w\<lparr>w_disk := f (w_disk w)\<rparr>"

definition andThen :: "'a act \<Rightarrow> ('a \<Rightarrow> world \<Rightarrow> 'b act) \<Rightarrow> 'b act" where
  "andThen m f = (case m of (w, Inl e) \<Rightarrow> (w, Inl e) | (w, Inr x) \<Rightarrow> f x w)"

record fin_opts =
  fo_prdId :: prd_id
  fo_status :: terminal_status
  fo_filePath :: "qpath option"
  fo_releaseLock :: "bool option"
  fo_requireArtifacts :: "bool option"
  fo_writeFailedEvidence :: "(qpath \<Rightarrow> world \<Rightarrow> world \<times> bool) option"
  fo_propagateDependents :: "bool option"

datatype transition = CompletedCleanup | ToFailed | ToSkipped | AlreadyTerminal | Missing

record fin_result =
  fr_finalized :: bool
  fr_lockReleased :: bool
  fr_transition :: transition

section \<open>Helpers\<close>

definition exists_at :: "qloc \<Rightarrow> prd_id \<Rightarrow> world \<Rightarrow> bool" where
  "exists_at l i w \<longleftrightarrow> file_exists l i (w_disk w)"

definition resolveCurrentPrdPath :: "prd_id \<Rightarrow> world \<Rightarrow> qpath option" where
  "resolveCurrentPrdPath i w =
     (case List.find (\<lambda>l. exists_at l i w) [RootDir, FailedDir, SkippedDir] of
        Some l \<Rightarrow> Some (QPath l i)
      | None \<Rightarrow> (case List.find (\<lambda>q. q_id q = i) (loadOr WaitingDir (w_disk w)) of
                  Some q \<Rightarrow> Some (QPath (q_loc q) (q_id q))
                | None \<Rightarrow> None))"

datatype location = AtRoot | AtFailed | AtSkipped | AtOther

definition classifyQueuePath :: "prd_id \<Rightarrow> qpath \<Rightarrow> location" where
  "classifyQueuePath i path =
     (if path = QPath RootDir i then AtRoot
      else if path = QPath FailedDir i then AtFailed
      else if path = QPath SkippedDir i then AtSkipped
      else AtOther)"

definition hasRecoveryEvidence :: "prd_id \<Rightarrow> world \<Rightarrow> bool" where
  "hasRecoveryEvidence i w \<longleftrightarrow> dget (w_json w) i \<noteq> None \<or> i \<in> set (w_md w)"

definition writeDegradedRecoveryEvidence :: "fin_env \<Rightarrow> prd_id \<Rightarrow> string \<Rightarrow> world \<Rightarrow> unit act" where
  "writeDegradedRecoveryEvidence env i reason w =
     (if dget (w_json w) i \<noteq> None then (w, Inr ())
      else if \<not> fe_sidecar_ok env then (w, Inl FinSidecar)
      else (w\<lparr>w_disk := mkdirp FailedDir (w_disk w),
              w_json := dput i \<lparr>sc_rationale = reason, sc_appliedAction = None, sc_autoResume = False\<rparr> (w_json w),
              w_md := sadd i (w_md w)\<rparr>, Inr ()))"

definition moveTerminalAware :: "prd_id \<Rightarrow> qpath \<Rightarrow> qloc \<Rightarrow> world \<Rightarrow> unit act" where
  "moveTerminalAware i path target w =
     (if path = QPath target i then (w, Inr ())
      else if classifyQueuePath i path \<noteq> AtRoot then (w, Inr ())
      else case movePrdToSubdir i target (w_disk w) of
             Inr d \<Rightarrow> (w\<lparr>w_disk := d\<rparr>, Inr ())
           | Inl (e, d) \<Rightarrow>
               (w\<lparr>w_disk := d\<rparr>, if e = ENOENT \<and> file_exists target i d then Inr () else Inl (FinFs e)))"

definition finalizeFailedFile :: "fin_env \<Rightarrow> fin_opts \<Rightarrow> qpath \<Rightarrow> world \<Rightarrow> unit act" where
  "finalizeFailedFile env opt path w =
     (let i = fo_prdId opt in
      if classifyQueuePath i path = AtFailed
      then writeDegradedRecoveryEvidence env i ''failed PRD was already terminal without recovery evidence'' w
      else case fo_writeFailedEvidence opt of
        Some write \<Rightarrow>
          (case write path w of (w1, threw) \<Rightarrow>
             let attempt = (if threw then (w1, Inl FinSidecar)
                  else if hasRecoveryEvidence i w1 then (w1, Inr ())
                  else writeDegradedRecoveryEvidence env i
                         ''failed evidence writer completed without recovery evidence'' w1)
             in case attempt of
                  (w2, Inr _) \<Rightarrow> (w2, Inr ())
                | (w2, Inl _) \<Rightarrow>
                    andThen (moveTerminalAware i path FailedDir w2)
                      (\<lambda>_. writeDegradedRecoveryEvidence env i ''failed evidence writer threw''))
      | None \<Rightarrow>
          andThen (moveTerminalAware i path FailedDir w)
            (\<lambda>_. writeDegradedRecoveryEvidence env i ''shared finalizer replay without build evidence''))"

text \<open>Propagation is best effort: an error leaves what it had done.\<close>

definition unblock_best_effort :: "fin_opts \<Rightarrow> world \<Rightarrow> world" where
  "unblock_best_effort opt = on_disk (\<lambda>d.
     case unblockWaiting (fo_prdId opt) (fo_requireArtifacts opt \<noteq> Some False) d of
       Inl (e, d') \<Rightarrow> d' | Inr (d', _) \<Rightarrow> d')"

definition skip_best_effort :: "fin_opts \<Rightarrow> world \<Rightarrow> world" where
  "skip_best_effort opt = on_disk (\<lambda>d.
     case propagateSkip (skip_fuel d) (fo_prdId opt) d of None \<Rightarrow> d | Some r \<Rightarrow> final_disk r)"

definition propagateExistingTerminalDependents ::
    "fin_opts \<Rightarrow> completion_status \<Rightarrow> bool \<Rightarrow> world \<Rightarrow> world" where
  "propagateExistingTerminalDependents opt status artifactAvailable w =
     (if status = CCompleted
      then (if artifactAvailable \<or> fo_requireArtifacts opt = Some False then unblock_best_effort opt w else w)
      else if fo_propagateDependents opt \<noteq> Some False then skip_best_effort opt w else w)"

definition completion_of :: "terminal_status \<Rightarrow> completion_status" where
  "completion_of s = (case s of QCompleted \<Rightarrow> CCompleted | QFailed \<Rightarrow> CFailed | QSkipped \<Rightarrow> CSkipped)"

definition recordCompletion :: "fin_env \<Rightarrow> fin_opts \<Rightarrow> world \<Rightarrow> unit act" where
  "recordCompletion env opt w =
     (let record = (if fo_status opt = QCompleted
            then (case loadArtifactRegistry (d_artifacts (w_disk w)) of
                    Inl _ \<Rightarrow> None
                  | Inr bs \<Rightarrow> lookupArtifactByPrdId bs (fo_prdId opt))
            else None);
          c = \<lparr>co_prdId = fo_prdId opt, co_status = completion_of (fo_status opt),
               co_artifactAvailable = (case record of Some r \<Rightarrow> ar_status r = Built | None \<Rightarrow> False),
               co_artifactBranch = map_option ar_artifactBranch record,
               co_completedAt = fe_now env, co_updatedAt = fe_now env\<rparr>
      in case fe_registry env of
           Some e \<Rightarrow> (w, Inl (FinRegistry e))
         | None \<Rightarrow>
             (case loadCompletionRegistry (d_completions (w_disk w)) of
                Inl e \<Rightarrow> (w, Inl (FinRegistry e))
              | Inr cs \<Rightarrow>
                  (on_disk (\<lambda>d. d\<lparr>d_completions := Json (upsertCompletion (fe_now env) c cs)\<rparr>) w, Inr ())))"

definition getTerminalCompletion :: "prd_id \<Rightarrow> world \<Rightarrow> completion option" where
  "getTerminalCompletion i w =
     (case loadCompletionRegistry (d_completions (w_disk w)) of
        Inl _ \<Rightarrow> None
      | Inr cs \<Rightarrow> lookupCompletion cs i)"

definition release_lock :: "fin_env \<Rightarrow> prd_id \<Rightarrow> world \<Rightarrow> unit act" where
  "release_lock env i w =
     (if fe_release_ok env then (on_disk (\<lambda>d. d\<lparr>d_locks := releasePrd i (d_locks d)\<rparr>) w, Inr ())
      else (w, Inl FinRelease))"

text \<open>The \<open>finally\<close> of both finalization paths: the lock is released after a failure too, and
  the first error is the one thrown.\<close>

definition finally_release :: "fin_env \<Rightarrow> fin_opts \<Rightarrow> transition \<Rightarrow> unit act \<Rightarrow> fin_result act" where
  "finally_release env opt tr body =
     (let (w, outcome) = body;
          done = (\<lambda>released. case outcome of
             Inl e \<Rightarrow> Inl e
           | Inr _ \<Rightarrow> Inr \<lparr>fr_finalized = True, fr_lockReleased = released, fr_transition = tr\<rparr>)
      in if fo_releaseLock opt = Some False then (w, done False)
         else case release_lock env (fo_prdId opt) w of
                (w', Inr _) \<Rightarrow> (w', done True)
              | (w', Inl e) \<Rightarrow> (w', case outcome of Inl e' \<Rightarrow> Inl e' | Inr _ \<Rightarrow> Inl e))"

definition cleanup_path :: "qpath option \<Rightarrow> world \<Rightarrow> unit act" where
  "cleanup_path path w =
     (case path of
        None \<Rightarrow> (w, Inr ())
      | Some p \<Rightarrow> (case cleanupCompletedPrd p (w_disk w) of
                    Inl e \<Rightarrow> (w, Inl (FinFs e))
                  | Inr d \<Rightarrow> (w\<lparr>w_disk := d\<rparr>, Inr ())))"

definition finalizeAdoptedCompletedPrd :: "fin_env \<Rightarrow> fin_opts \<Rightarrow> qpath \<Rightarrow> world \<Rightarrow> fin_result act" where
  "finalizeAdoptedCompletedPrd env opt path w =
     finally_release env opt CompletedCleanup
       (andThen (cleanup_path (Some path) w) (\<lambda>_ w1. (unblock_best_effort opt w1, Inr ())))"

definition releaseAlreadyTerminalLock :: "fin_env \<Rightarrow> fin_opts \<Rightarrow> completion \<Rightarrow> world \<Rightarrow> fin_result act" where
  "releaseAlreadyTerminalLock env opt c w =
     (let w1 = propagateExistingTerminalDependents opt (co_status c) (co_artifactAvailable c) w;
          r = (\<lambda>released. \<lparr>fr_finalized = False, fr_lockReleased = released, fr_transition = AlreadyTerminal\<rparr>)
      in if fo_releaseLock opt = Some False then (w1, Inr (r False))
         else andThen (release_lock env (fo_prdId opt) w1) (\<lambda>_ w2. (w2, Inr (r True))))"

section \<open>The finalizer\<close>

definition terminal_file :: "fin_env \<Rightarrow> fin_opts \<Rightarrow> qpath option \<Rightarrow> world \<Rightarrow> unit act" where
  "terminal_file env opt path w =
     (case fo_status opt of
        QCompleted \<Rightarrow> cleanup_path path w
      | QFailed \<Rightarrow>
          (case path of
             Some p \<Rightarrow> finalizeFailedFile env opt p w
           | None \<Rightarrow> writeDegradedRecoveryEvidence env (fo_prdId opt)
                       ''failed completion replay without PRD file'' w)
      | QSkipped \<Rightarrow>
          (case path of
             Some p \<Rightarrow> moveTerminalAware (fo_prdId opt) p SkippedDir w
           | None \<Rightarrow> (w, Inr ())))"

definition propagate_dependents :: "fin_opts \<Rightarrow> world \<Rightarrow> world" where
  "propagate_dependents opt w =
     (if fo_status opt = QCompleted then unblock_best_effort opt w
      else if fo_propagateDependents opt \<noteq> Some False then skip_best_effort opt w else w)"

definition transition_of :: "terminal_status \<Rightarrow> qpath option \<Rightarrow> transition" where
  "transition_of s path =
     (case s of
        QCompleted \<Rightarrow> CompletedCleanup
      | QFailed \<Rightarrow> if path = None then Missing else ToFailed
      | QSkipped \<Rightarrow> if path = None then Missing else ToSkipped)"

definition finalize_fresh :: "fin_env \<Rightarrow> fin_opts \<Rightarrow> qpath option \<Rightarrow> world \<Rightarrow> fin_result act" where
  "finalize_fresh env opt path w =
     finally_release env opt (transition_of (fo_status opt) path)
       (andThen (terminal_file env opt path w)
          (\<lambda>_ w1. andThen (recordCompletion env opt w1)
             (\<lambda>_ w2. (propagate_dependents opt w2, Inr ()))))"

definition finalizeQueuedPrdOnce :: "fin_env \<Rightarrow> fin_opts \<Rightarrow> world \<Rightarrow> fin_result act" where
  "finalizeQueuedPrdOnce env opt w =
     (let i = fo_prdId opt;
          filePath = (case fo_filePath opt of Some p \<Rightarrow> Some p | None \<Rightarrow> resolveCurrentPrdPath i w)
      in case getTerminalCompletion i w of
           None \<Rightarrow> finalize_fresh env opt filePath w
         | Some c \<Rightarrow>
             (case filePath of
                None \<Rightarrow> releaseAlreadyTerminalLock env opt c w
              | Some p \<Rightarrow>
                  (let location = classifyQueuePath i p
                   in if fo_status opt = QCompleted \<and> co_status c = CCompleted \<and> location = AtRoot
                      then finalizeAdoptedCompletedPrd env opt p w
                      else if location = AtSkipped \<or> (location = AtFailed \<and> hasRecoveryEvidence i w)
                      then releaseAlreadyTerminalLock env opt c w
                      else finalize_fresh env opt filePath w)))"

definition finalizeQueuedPrd :: "fin_env \<Rightarrow> fin_opts \<Rightarrow> world \<Rightarrow> fin_result act" where
  "finalizeQueuedPrd env opt w =
     (if \<not> validatePrdId (fo_prdId opt) then (w, Inl InvalidPrdId)
      else finalizeQueuedPrdOnce env opt w)"

section \<open>What the steps leave alone\<close>

definition meta :: "qdisk \<Rightarrow> lock_dir \<times> artifact list reg_file \<times> completions reg_file" where
  "meta d = (d_locks d, d_artifacts d, d_completions d)"

lemma meta_set_dir [simp]: "meta (set_dir l x d) = meta d"
  by (simp add: meta_def)

lemma meta_mkdirp [simp]: "meta (mkdirp l d) = meta d"
  by (simp add: meta_def)

lemma meta_move_file: "meta (final_disk (move_file src dst i d)) = meta d"
  by (auto simp: move_file_def Let_def final_disk_def split: option.splits)

text \<open>Whatever every single move keeps, the whole propagation keeps.\<close>

lemma propagateSkip_keeps:
  assumes move: "\<And>i d. P d \<Longrightarrow> P (final_disk (movePrdFromWaiting i SkippedDir d))"
  shows "propagateSkip n u d = Some r \<Longrightarrow> P d \<Longrightarrow> P (final_disk r)"
    and "skip_each n qs d = Some r \<Longrightarrow> P d \<Longrightarrow> P (final_disk r)"
proof (induction n u d and n qs d arbitrary: r and r rule: propagateSkip_skip_each.induct)
  case (2 n u d)
  show ?case
  proof (cases "loadQueue WaitingDir d")
    case (Inl e)
    with "2.prems" show ?thesis by (auto simp: final_disk_def)
  next
    case (Inr ws)
    with "2.prems" have "skip_each n (findDependents ws u) d = Some r" by simp
    then show ?thesis using "2.IH" [OF Inr] "2.prems"(2) by blast
  qed
next
  case (4 n q qs d)
  let ?m = "movePrdFromWaiting (q_id q) SkippedDir d"
  have m: "P (final_disk ?m)" by (rule move [OF "4.prems"(2)])
  show ?case
  proof (cases ?m)
    case (Inl x)
    with "4.prems"(1) m show ?thesis by auto
  next
    case (Inr d1)
    then obtain r1 where r1: "propagateSkip n (q_id q) d1 = Some r1"
      using "4.prems" by (auto split: option.splits)
    have m1: "P (final_disk r1)"
      using "4.IH"(1) [OF Inr r1] m Inr by (simp add: final_disk_def)
    show ?thesis
    proof (cases r1)
      case (Inl e)
      with "4.prems" Inr r1 have "r = r1" by simp
      with m1 show ?thesis by simp
    next
      case d2: (Inr d2)
      then have "skip_each n qs d2 = Some r" using "4.prems" Inr r1 by simp
      from "4.IH"(2) [OF Inr r1 d2 this] m1 d2 show ?thesis by (simp add: final_disk_def)
    qed
  qed
qed (auto simp: final_disk_def)

lemma meta_propagateSkip: "propagateSkip n u d = Some r \<Longrightarrow> meta (final_disk r) = meta d"
  by (rule propagateSkip_keeps(1) [of "\<lambda>d'. meta d' = meta d"])
     (simp_all add: movePrdFromWaiting_def meta_move_file)

lemma entries_move_file:
  "l \<noteq> src \<Longrightarrow> l \<noteq> dst \<Longrightarrow> entries l (final_disk (move_file src dst i d)) = entries l d"
  by (auto simp: move_file_def Let_def final_disk_def split: option.splits)

lemma entries_propagateSkip:
  "propagateSkip n u d = Some r \<Longrightarrow> l \<noteq> WaitingDir \<Longrightarrow> l \<noteq> SkippedDir \<Longrightarrow> entries l (final_disk r) = entries l d"
  by (rule propagateSkip_keeps(1) [of "\<lambda>d'. entries l d' = entries l d"])
     (simp_all add: movePrdFromWaiting_def entries_move_file)

lemma skipped_propagateSkip:
  "propagateSkip n u d = Some r \<Longrightarrow> file_exists SkippedDir i d \<Longrightarrow> file_exists SkippedDir i (final_disk r)"
  by (rule propagateSkip_keeps(1) [of "file_exists SkippedDir i"])
     (auto simp: movePrdFromWaiting_def move_file_def Let_def final_disk_def file_exists_iff
       split: option.splits)

definition final_unblock :: "(fs_error \<times> qdisk, qdisk \<times> 'a) result \<Rightarrow> qdisk" where
  "final_unblock r = (case r of Inl (_, d) \<Rightarrow> d | Inr (d, _) \<Rightarrow> d)"

lemma meta_no_overwrite: "meta (final_unblock (movePrdFromWaitingNoOverwrite i l d)) = meta d"
  by (auto simp: movePrdFromWaitingNoOverwrite_def Let_def final_unblock_def split: option.splits)

lemma meta_unblock_each: "meta (final_unblock (unblock_each usable qs active d)) = meta d"
proof (induction usable qs active d rule: unblock_each.induct)
  case (2 usable q qs active d)
  show ?case
  proof (cases "movePrdFromWaitingNoOverwrite (q_id q) RootDir d")
    case (Inl x)
    with 2 meta_no_overwrite [of "q_id q" RootDir d] show ?thesis
      by (auto simp: final_unblock_def)
  next
    case (Inr y)
    then obtain d1 moved where y: "movePrdFromWaitingNoOverwrite (q_id q) RootDir d = Inr (d1, moved)"
      by (cases y) auto
    then have m: "meta d1 = meta d" using meta_no_overwrite [of "q_id q" RootDir d]
      by (simp add: final_unblock_def)
    from "2.IH"(1) [OF _ y refl] "2.IH"(2) [OF _ y refl] "2.IH"(3) y m show ?thesis
      by (cases moved) (auto simp: final_unblock_def split: sum.splits)
  qed
qed (simp add: final_unblock_def)

lemma meta_unblockWaiting:
  "unblockWaiting c b d = Inl (e, d') \<Longrightarrow> meta d' = meta d"
  "unblockWaiting c b d = Inr (d', us) \<Longrightarrow> meta d' = meta d"
proof -
  have each: "unblock_each usable qs active d = Inl (x, d') \<Longrightarrow> meta d' = meta d"
    "unblock_each usable qs active d = Inr (d', us) \<Longrightarrow> meta d' = meta d" for usable qs active x
    using meta_unblock_each [of usable qs active d] by (simp_all add: final_unblock_def)
  show "unblockWaiting c b d = Inl (e, d') \<Longrightarrow> meta d' = meta d"
    "unblockWaiting c b d = Inr (d', us) \<Longrightarrow> meta d' = meta d"
    by (auto simp: unblockWaiting_def Let_def split: sum.splits if_splits dest: each)
qed

lemma meta_unblock_best_effort: "meta (w_disk (unblock_best_effort opt w)) = meta (w_disk w)"
  by (auto simp: unblock_best_effort_def on_disk_def dest: meta_unblockWaiting
      split: sum.splits)

lemma meta_skip_best_effort: "meta (w_disk (skip_best_effort opt w)) = meta (w_disk w)"
  by (auto simp: skip_best_effort_def on_disk_def meta_propagateSkip split: option.splits)

lemma skip_best_effort_files:
  "l \<noteq> WaitingDir \<Longrightarrow> l \<noteq> SkippedDir \<Longrightarrow>
   entries l (w_disk (skip_best_effort opt w)) = entries l (w_disk w)"
  "file_exists SkippedDir i (w_disk w) \<Longrightarrow> file_exists SkippedDir i (w_disk (skip_best_effort opt w))"
  by (auto simp: skip_best_effort_def on_disk_def entries_propagateSkip skipped_propagateSkip
      split: option.splits)

lemma best_effort_sidecars [simp]:
  "w_json (unblock_best_effort opt w) = w_json w" "w_md (unblock_best_effort opt w) = w_md w"
  "w_json (skip_best_effort opt w) = w_json w" "w_md (skip_best_effort opt w) = w_md w"
  by (simp_all add: unblock_best_effort_def skip_best_effort_def on_disk_def)

abbreviation comps_of :: "world \<Rightarrow> completions reg_file" where
  "comps_of w \<equiv> d_completions (w_disk w)"

abbreviation locks_of :: "world \<Rightarrow> lock_dir" where
  "locks_of w \<equiv> d_locks (w_disk w)"

lemma meta_eqD:
  "meta d' = meta d \<Longrightarrow> d_locks d' = d_locks d"
  "meta d' = meta d \<Longrightarrow> d_artifacts d' = d_artifacts d"
  "meta d' = meta d \<Longrightarrow> d_completions d' = d_completions d"
  by (simp_all add: meta_def)

lemma best_effort_meta [simp]:
  "meta (w_disk (propagate_dependents opt w)) = meta (w_disk w)"
  "meta (w_disk (propagateExistingTerminalDependents opt st av w)) = meta (w_disk w)"
  by (simp_all add: propagate_dependents_def propagateExistingTerminalDependents_def
      meta_unblock_best_effort meta_skip_best_effort)

lemma propagated_sidecars [simp]:
  "w_json (propagate_dependents opt w) = w_json w" "w_md (propagate_dependents opt w) = w_md w"
  by (simp_all add: propagate_dependents_def)

lemmas propagated_meta = best_effort_meta [THEN meta_eqD(1)] best_effort_meta [THEN meta_eqD(2)]
  best_effort_meta [THEN meta_eqD(3)] meta_unblock_best_effort [THEN meta_eqD(1)]
  meta_unblock_best_effort [THEN meta_eqD(3)]

section \<open>The lock\<close>

lemma release_lock_frees:
  "release_lock env i w = (w', r) \<Longrightarrow> fe_release_ok env \<Longrightarrow>
   \<not> isPrdRunning i (locks_of w') \<and> comps_of w' = comps_of w \<and> w_json w' = w_json w \<and> w_md w' = w_md w \<and>
   (\<forall>l. entries l (w_disk w') = entries l (w_disk w)) \<and> r = Inr ()"
  by (auto simp: release_lock_def on_disk_def isPrdRunning_def releasePrd_def entries_def dir_of_def
      split: qloc.splits)

lemma finally_release_frees:
  "finally_release env opt tr body = (w', r) \<Longrightarrow> fe_release_ok env \<Longrightarrow> fo_releaseLock opt \<noteq> Some False \<Longrightarrow>
   \<not> isPrdRunning (fo_prdId opt) (locks_of w')"
  by (auto simp: finally_release_def Let_def release_lock_def on_disk_def isPrdRunning_def releasePrd_def
      split: prod.splits)

lemma finally_release_ok:
  "finally_release env opt tr body = (w', Inr r) \<Longrightarrow>
   \<exists>w1. body = (w1, Inr ()) \<and> comps_of w' = comps_of w1 \<and> w_json w' = w_json w1 \<and> w_md w' = w_md w1 \<and>
     (\<forall>l. entries l (w_disk w') = entries l (w_disk w1)) \<and>
     r = \<lparr>fr_finalized = True, fr_lockReleased = (fo_releaseLock opt \<noteq> Some False), fr_transition = tr\<rparr>"
  by (auto simp: finally_release_def Let_def release_lock_def on_disk_def entries_def dir_of_def
      split: prod.splits sum.splits if_splits qloc.splits)

lemma already_terminal_frees:
  "releaseAlreadyTerminalLock env opt c w = (w', r) \<Longrightarrow> fe_release_ok env \<Longrightarrow> fo_releaseLock opt \<noteq> Some False \<Longrightarrow>
   \<not> isPrdRunning (fo_prdId opt) (locks_of w')"
  by (auto simp: releaseAlreadyTerminalLock_def Let_def andThen_def release_lock_def on_disk_def
      isPrdRunning_def releasePrd_def)

lemma finalize_frees:
  "finalizeQueuedPrdOnce env opt w = (w', r) \<Longrightarrow> fe_release_ok env \<Longrightarrow> fo_releaseLock opt \<noteq> Some False \<Longrightarrow>
   \<not> isPrdRunning (fo_prdId opt) (locks_of w')"
  by (auto simp: finalizeQueuedPrdOnce_def Let_def finalize_fresh_def finalizeAdoptedCompletedPrd_def
      split: option.splits if_splits dest: finally_release_frees already_terminal_frees)

section \<open>The record of the completion\<close>

lemma load_upsert_completion:
  assumes "loadCompletionRegistry f = Inr cs" and "completion_ok c" and "now \<noteq> []"
  shows "loadCompletionRegistry (Json (upsertCompletion now c cs)) = Inr (upsertCompletion now c cs)"
proof -
  have "list_all (\<lambda>(_, c). completion_ok c) cs"
    using assms(1) by (auto simp: loadCompletionRegistry_def split: reg_file.splits if_splits)
  then have "list_all (\<lambda>(_, c). completion_ok c) (upsertCompletion now c cs)"
    using completion_reg_sound [of "\<lambda>_. c" "\<lambda>_. now"] assms(2,3) by (simp add: reg_sound_def)
  then show ?thesis by (simp add: loadCompletionRegistry_def)
qed

lemma recordCompletion_records:
  assumes r: "recordCompletion env opt w = (w', Inr ())" and "fe_now env \<noteq> []" and "fo_prdId opt \<noteq> []"
  shows "\<exists>c. getTerminalCompletion (fo_prdId opt) w' = Some c \<and> co_status c = completion_of (fo_status opt)"
    and "w_json w' = w_json w" and "w_md w' = w_md w" and "entries l (w_disk w') = entries l (w_disk w)"
proof -
  define c where "c = (let record = (if fo_status opt = QCompleted
            then (case loadArtifactRegistry (d_artifacts (w_disk w)) of
                    Inl _ \<Rightarrow> None
                  | Inr bs \<Rightarrow> lookupArtifactByPrdId bs (fo_prdId opt))
            else None) in \<lparr>co_prdId = fo_prdId opt, co_status = completion_of (fo_status opt),
               co_artifactAvailable = (case record of Some r \<Rightarrow> ar_status r = Built | None \<Rightarrow> False),
               co_artifactBranch = map_option ar_artifactBranch record,
               co_completedAt = fe_now env, co_updatedAt = fe_now env\<rparr>)"
  have c: "completion_ok c" "co_prdId c = fo_prdId opt" "co_status c = completion_of (fo_status opt)"
    using assms(2,3) by (simp_all add: c_def Let_def completion_ok_def)
  obtain cs where cs: "loadCompletionRegistry (comps_of w) = Inr cs"
    and w': "w' = on_disk (\<lambda>d. d\<lparr>d_completions := Json (upsertCompletion (fe_now env) c cs)\<rparr>) w"
    using r by (auto simp: recordCompletion_def Let_def c_def split: option.splits sum.splits)
  have "lookupCompletion (upsertCompletion (fe_now env) c cs) (fo_prdId opt) =
      Some (c\<lparr>co_updatedAt := fe_now env\<rparr>)"
    by (simp add: completions.lookup_upsert c(2))
  with load_upsert_completion [OF cs c(1) assms(2)] c(3)
  show "\<exists>c. getTerminalCompletion (fo_prdId opt) w' = Some c \<and> co_status c = completion_of (fo_status opt)"
    by (simp add: getTerminalCompletion_def w' on_disk_def)
  show "w_json w' = w_json w" "w_md w' = w_md w" "entries l (w_disk w') = entries l (w_disk w)"
    by (simp_all add: w' on_disk_def entries_def dir_of_def split: qloc.splits)
qed

lemma andThen_Inr:
  "andThen m f = (w', Inr y) \<longleftrightarrow> (\<exists>w1 x. m = (w1, Inr x) \<and> f x w1 = (w', Inr y))"
  by (auto simp: andThen_def split: prod.splits sum.splits)

lemma getTerminalCompletion_cong: "comps_of w' = comps_of w \<Longrightarrow> getTerminalCompletion i w' = getTerminalCompletion i w"
  by (simp add: getTerminalCompletion_def)

lemma finalize_fresh_ok:
  assumes "finalize_fresh env opt path w = (w', Inr r)"
  obtains w1 w2 where "terminal_file env opt path w = (w1, Inr ())" and "recordCompletion env opt w1 = (w2, Inr ())"
    and "comps_of w' = comps_of w2" and "w_json w' = w_json w2" and "w_md w' = w_md w2"
    and "\<forall>l. entries l (w_disk w') = entries l (w_disk (propagate_dependents opt w2))"
    and "fr_transition r = transition_of (fo_status opt) path" and "fr_finalized r"
proof -
  from finally_release_ok [OF assms [unfolded finalize_fresh_def]] obtain w1 w2 where
    "terminal_file env opt path w = (w1, Inr ())" "recordCompletion env opt w1 = (w2, Inr ())"
    "comps_of w' = comps_of (propagate_dependents opt w2)"
    "w_json w' = w_json (propagate_dependents opt w2)" "w_md w' = w_md (propagate_dependents opt w2)"
    "\<forall>l. entries l (w_disk w') = entries l (w_disk (propagate_dependents opt w2))"
    "fr_transition r = transition_of (fo_status opt) path" "fr_finalized r"
    by (auto simp: andThen_Inr)
  then show thesis
    by (intro that [of w1 w2]) (simp_all add: propagated_meta)
qed

lemma finalize_records:
  assumes r: "finalizeQueuedPrdOnce env opt w = (w', Inr r)" and "fr_finalized r"
    and "fe_now env \<noteq> []" and "fo_prdId opt \<noteq> []"
  shows "\<exists>c. getTerminalCompletion (fo_prdId opt) w' = Some c \<and> co_status c = completion_of (fo_status opt)"
proof -
  have fresh: ?thesis if "finalize_fresh env opt path w = (w', Inr r)" for path
  proof (rule finalize_fresh_ok [OF that])
    fix w1 w2
    assume "recordCompletion env opt w1 = (w2, Inr ())" "comps_of w' = comps_of w2"
    with recordCompletion_records(1) [OF _ assms(3,4)] getTerminalCompletion_cong show ?thesis by metis
  qed
  have adopted: ?thesis
    if "finalizeAdoptedCompletedPrd env opt p w = (w', Inr r)" "getTerminalCompletion (fo_prdId opt) w = Some c"
      "co_status c = CCompleted" "fo_status opt = QCompleted" for p c
  proof -
    from finally_release_ok [OF that(1) [unfolded finalizeAdoptedCompletedPrd_def]] obtain w1 where
      "cleanup_path (Some p) w = (w1, Inr ())" "comps_of w' = comps_of (unblock_best_effort opt w1)"
      by (auto simp: andThen_Inr)
    then have "comps_of w' = comps_of w"
      by (auto simp: propagated_meta cleanup_path_def cleanupCompletedPrd_def split: qpath.splits option.splits)
    from getTerminalCompletion_cong [OF this, of "fo_prdId opt"] that(2-4) show ?thesis
      by (simp add: completion_of_def)
  qed
  have not_terminal: False if "releaseAlreadyTerminalLock env opt c w = (w', Inr r)" for c
    using that assms(2)
    by (auto simp: releaseAlreadyTerminalLock_def Let_def andThen_Inr split: if_splits)
  consider path where "finalize_fresh env opt path w = (w', Inr r)"
    | p c where "finalizeAdoptedCompletedPrd env opt p w = (w', Inr r)"
        "getTerminalCompletion (fo_prdId opt) w = Some c" "co_status c = CCompleted" "fo_status opt = QCompleted"
    | c where "releaseAlreadyTerminalLock env opt c w = (w', Inr r)"
    using r by (auto simp: finalizeQueuedPrdOnce_def Let_def split: option.splits if_splits)
  then show ?thesis using fresh adopted not_terminal by cases blast+
qed

section \<open>The file\<close>

lemma degraded_evidence:
  "writeDegradedRecoveryEvidence env i reason w = (w', Inr ()) \<Longrightarrow>
   dget (w_json w') i \<noteq> None \<and> (\<forall>l. entries l (w_disk w') = entries l (w_disk w))"
  by (auto simp: writeDegradedRecoveryEvidence_def split: if_splits)

lemma moved_from_root:
  "moveTerminalAware i (QPath RootDir i) target w = (w', Inr ()) \<Longrightarrow> target \<noteq> RootDir \<Longrightarrow>
   file_exists target i (w_disk w') \<and> \<not> file_exists RootDir i (w_disk w') \<and> w_json w' = w_json w"
  by (auto simp: moveTerminalAware_def classifyQueuePath_def movePrdToSubdir_def move_file_def Let_def
      file_exists_iff split: if_splits option.splits)

lemma failed_file:
  assumes "terminal_file env opt (Some (QPath RootDir (fo_prdId opt))) w = (w', Inr ())"
    and "fo_status opt = QFailed" and "fo_writeFailedEvidence opt = None"
  shows "file_exists FailedDir (fo_prdId opt) (w_disk w') \<and> \<not> file_exists RootDir (fo_prdId opt) (w_disk w') \<and>
    dget (w_json w') (fo_prdId opt) \<noteq> None"
proof -
  obtain w1 where w1: "moveTerminalAware (fo_prdId opt) (QPath RootDir (fo_prdId opt)) FailedDir w = (w1, Inr ())"
    and w2: "writeDegradedRecoveryEvidence env (fo_prdId opt) ''shared finalizer replay without build evidence'' w1 = (w', Inr ())"
    using assms by (auto simp: terminal_file_def finalizeFailedFile_def Let_def classifyQueuePath_def andThen_Inr)
  from moved_from_root [OF w1] degraded_evidence [OF w2] show ?thesis by (simp add: file_exists_iff)
qed

lemma file_exists_cong: "entries l d' = entries l d \<Longrightarrow> file_exists l i d' = file_exists l i d"
  by (simp add: file_exists_iff)

text \<open>The disk a finalization of a root file leaves, by status.\<close>

definition root_file_final :: "fin_opts \<Rightarrow> world \<Rightarrow> bool" where
  "root_file_final opt w \<longleftrightarrow>
     (let i = fo_prdId opt
      in (fo_status opt = QFailed \<and> fo_writeFailedEvidence opt = None \<longrightarrow>
            file_exists FailedDir i (w_disk w) \<and> \<not> file_exists RootDir i (w_disk w) \<and> hasRecoveryEvidence i w) \<and>
         (fo_status opt = QSkipped \<longrightarrow>
            file_exists SkippedDir i (w_disk w) \<and> \<not> file_exists RootDir i (w_disk w)))"

lemma finalize_fresh_files:
  assumes "finalize_fresh env opt (Some (QPath RootDir (fo_prdId opt))) w = (w', Inr r)"
    and "fe_now env \<noteq> []" and "fo_prdId opt \<noteq> []"
  shows "root_file_final opt w'"
proof (rule finalize_fresh_ok [OF assms(1)])
  fix w1 w2
  let ?i = "fo_prdId opt"
  assume t: "terminal_file env opt (Some (QPath RootDir ?i)) w = (w1, Inr ())"
    and rec: "recordCompletion env opt w1 = (w2, Inr ())"
    and j: "w_json w' = w_json w2" "w_md w' = w_md w2"
    and e: "\<forall>l. entries l (w_disk w') = entries l (w_disk (propagate_dependents opt w2))"
  note r2 = recordCompletion_records(2-4) [OF rec assms(2,3)]
  have keep: "entries l (w_disk w') = entries l (w_disk w1)"
    if "fo_status opt \<noteq> QCompleted" "l \<noteq> WaitingDir" "l \<noteq> SkippedDir" for l
    using e r2(3) that by (simp add: propagate_dependents_def skip_best_effort_files)
  have skipped: "file_exists SkippedDir ?i (w_disk w')"
    if "fo_status opt \<noteq> QCompleted" "file_exists SkippedDir ?i (w_disk w1)"
  proof -
    have "file_exists SkippedDir ?i (w_disk w2)" using that(2) r2(3) file_exists_cong by blast
    then have "file_exists SkippedDir ?i (w_disk (propagate_dependents opt w2))"
      using that(1) by (auto simp: propagate_dependents_def skip_best_effort_files)
    then show ?thesis using e file_exists_cong by blast
  qed
  have "file_exists FailedDir ?i (w_disk w') \<and> \<not> file_exists RootDir ?i (w_disk w') \<and> hasRecoveryEvidence ?i w'"
    if "fo_status opt = QFailed" "fo_writeFailedEvidence opt = None"
    using failed_file [OF t that] keep [of FailedDir] keep [of RootDir] that j r2(1)
    by (simp add: hasRecoveryEvidence_def file_exists_iff)
  moreover have "file_exists SkippedDir ?i (w_disk w') \<and> \<not> file_exists RootDir ?i (w_disk w')"
    if "fo_status opt = QSkipped"
  proof -
    from t that have "moveTerminalAware ?i (QPath RootDir ?i) SkippedDir w = (w1, Inr ())"
      by (simp add: terminal_file_def)
    from moved_from_root [OF this] skipped keep [of RootDir] that show ?thesis
      by (simp add: file_exists_iff)
  qed
  ultimately show "root_file_final opt w'" by (simp add: root_file_final_def Let_def)
qed

section \<open>Properties\<close>

definition demo_fin :: "terminal_status \<Rightarrow> fin_opts" where
  "demo_fin s = \<lparr>fo_prdId = ''a'', fo_status = s, fo_filePath = None, fo_releaseLock = None,
     fo_requireArtifacts = None, fo_writeFailedEvidence = None, fo_propagateDependents = None\<rparr>"

definition demo_env :: fin_env where
  "demo_env = \<lparr>fe_now = ''t9'', fe_registry = None, fe_release_ok = True, fe_sidecar_ok = True\<rparr>"

definition demo_world :: world where
  "demo_world = \<lparr>w_disk = (demo_disk [])\<lparr>d_root := Some [(''a'', demo_file [])], d_locks := [(''a'', ''77'')]\<rparr>,
     w_json = [], w_md = []\<rparr>"

text \<open> The lock of a PRD is released whatever its finalization does: also when moving the
  file, writing the evidence or recording the completion throws, and also when the PRD was
  already terminal. \<close>
theorem finalize_always_releases:
  assumes "finalizeQueuedPrd env opt w = (w', r)" and "validatePrdId (fo_prdId opt)"
    and "fe_release_ok env" and "fo_releaseLock opt \<noteq> Some False"
  shows "\<not> isPrdRunning (fo_prdId opt) (locks_of w')"
  using finalize_frees [of env opt w w' r] assms by (simp add: finalizeQueuedPrd_def)

theorem finalize_always_releases_witness:
  "\<exists>w' e. finalizeQueuedPrd (demo_env\<lparr>fe_registry := Some LockTimeout\<rparr>) (demo_fin QFailed) demo_world = (w', Inl e) \<and>
     \<not> isPrdRunning ''a'' (locks_of w')"
proof -
  let ?env = "demo_env\<lparr>fe_registry := Some LockTimeout\<rparr>"
  obtain w' r where r: "finalizeQueuedPrd ?env (demo_fin QFailed) demo_world = (w', r)"
    by (cases "finalizeQueuedPrd ?env (demo_fin QFailed) demo_world") auto
  moreover have "validatePrdId ''a''" by code_simp
  moreover have "snd (finalizeQueuedPrd ?env (demo_fin QFailed) demo_world) = Inl (FinRegistry LockTimeout)"
    using \<open>validatePrdId ''a''\<close>
    by (simp add: finalizeQueuedPrd_def finalizeQueuedPrdOnce_def getTerminalCompletion_def demo_world_def
        demo_disk_def loadCompletionRegistry_def demo_fin_def Let_def finalize_fresh_def
        resolveCurrentPrdPath_def exists_at_def file_exists_def ids_in_def entries_def dir_of_def
        terminal_file_def finalizeFailedFile_def classifyQueuePath_def moveTerminalAware_def
        movePrdToSubdir_def move_file_def mkdirp_def set_dir_def andThen_def writeDegradedRecoveryEvidence_def
        recordCompletion_def finally_release_def release_lock_def on_disk_def lookupCompletion_def demo_env_def)
  ultimately show ?thesis
    using finalize_always_releases [OF r] by (simp add: demo_fin_def demo_env_def)
qed

text \<open> A finalization that reports success has recorded the completion with its status, and
  a PRD file that was in the queue root is in \<open>failed\<close> with recovery evidence, or in
  \<open>skipped\<close>, and no longer in the root. \<close>
theorem finalize_records_outcome:
  assumes "finalizeQueuedPrd env opt w = (w', Inr r)" and "fr_finalized r" and "fe_now env \<noteq> []"
  shows "(\<exists>c. getTerminalCompletion (fo_prdId opt) w' = Some c \<and> co_status c = completion_of (fo_status opt)) \<and>
    (fo_filePath opt = Some (QPath RootDir (fo_prdId opt)) \<longrightarrow> root_file_final opt w')"
proof
  have v: "fo_prdId opt \<noteq> []" and once: "finalizeQueuedPrdOnce env opt w = (w', Inr r)"
    using assms(1) by (auto simp: finalizeQueuedPrd_def validatePrdId_def split: if_splits)
  show "\<exists>c. getTerminalCompletion (fo_prdId opt) w' = Some c \<and> co_status c = completion_of (fo_status opt)"
    by (rule finalize_records [OF once assms(2,3) v])
  show "fo_filePath opt = Some (QPath RootDir (fo_prdId opt)) \<longrightarrow> root_file_final opt w'"
  proof
    assume path: "fo_filePath opt = Some (QPath RootDir (fo_prdId opt))"
    show "root_file_final opt w'"
    proof (cases "fo_status opt = QCompleted")
      case True
      then show ?thesis by (simp add: root_file_final_def)
    next
      case False
      then have "finalize_fresh env opt (Some (QPath RootDir (fo_prdId opt))) w = (w', Inr r)"
        using once path
        by (auto simp: finalizeQueuedPrdOnce_def classifyQueuePath_def Let_def split: option.splits)
      then show ?thesis by (rule finalize_fresh_files [OF _ assms(3) v])
    qed
  qed
qed

lemmas finalizer_defs = finalizeQueuedPrd_def finalizeQueuedPrdOnce_def getTerminalCompletion_def
  loadCompletionRegistry_def Let_def finalize_fresh_def exists_at_def file_exists_def ids_in_def
  entries_def dir_of_def terminal_file_def finalizeFailedFile_def classifyQueuePath_def
  moveTerminalAware_def movePrdToSubdir_def move_file_def mkdirp_def set_dir_def andThen_def
  writeDegradedRecoveryEvidence_def recordCompletion_def finally_release_def release_lock_def
  on_disk_def lookupCompletion_def upsertCompletion_def propagate_dependents_def transition_of_def
  skip_best_effort_def unblock_best_effort_def

lemmas demo_fin_defs = demo_world_def demo_disk_def demo_fin_def demo_env_def

theorem finalize_records_outcome_witness:
  "\<exists>w' r. finalizeQueuedPrd demo_env ((demo_fin QFailed)\<lparr>fo_filePath := Some (QPath RootDir ''a'')\<rparr>) demo_world = (w', Inr r) \<and>
     file_exists FailedDir ''a'' (w_disk w') \<and> hasRecoveryEvidence ''a'' w' \<and> fr_transition r = ToFailed"
proof -
  let ?opt = "(demo_fin QFailed)\<lparr>fo_filePath := Some (QPath RootDir ''a'')\<rparr>"
  have v: "validatePrdId ''a''" by code_simp
  have "\<exists>w' r. finalizeQueuedPrd demo_env ?opt demo_world = (w', Inr r) \<and> fr_transition r = ToFailed \<and> fr_finalized r"
    using v by (simp add: finalizer_defs demo_fin_defs)
  then obtain w' r where r: "finalizeQueuedPrd demo_env ?opt demo_world = (w', Inr r)" "fr_finalized r"
    "fr_transition r = ToFailed" by blast
  have "root_file_final ?opt w'"
    using finalize_records_outcome [OF r(1,2)] by (simp add: demo_env_def demo_fin_def)
  with r show ?thesis by (auto simp: root_file_final_def demo_fin_def Let_def)
qed

text \<open> A replayed completion is recorded once: when the completion is already known and the
  file is gone, in \<open>skipped\<close>, or in \<open>failed\<close> with evidence, finalizing again reports that it
  did nothing and changes neither the completion record nor the recovery evidence. \<close>
theorem finalize_replay_noop:
  assumes "getTerminalCompletion (fo_prdId opt) w = Some c" and "validatePrdId (fo_prdId opt)"
    and "fo_filePath opt = None" and "fe_release_ok env"
    and "resolveCurrentPrdPath (fo_prdId opt) w \<in>
      {None, Some (QPath SkippedDir (fo_prdId opt))} \<union>
      (if hasRecoveryEvidence (fo_prdId opt) w then {Some (QPath FailedDir (fo_prdId opt))} else {})"
  shows "\<exists>w' r. finalizeQueuedPrd env opt w = (w', Inr r) \<and> \<not> fr_finalized r \<and> fr_transition r = AlreadyTerminal \<and>
    comps_of w' = comps_of w \<and> w_json w' = w_json w \<and> w_md w' = w_md w"
proof -
  have "finalizeQueuedPrd env opt w = releaseAlreadyTerminalLock env opt c w"
    using assms by (auto simp: finalizeQueuedPrd_def finalizeQueuedPrdOnce_def Let_def classifyQueuePath_def
        split: if_splits)
  then show ?thesis
    using assms(4)
    by (simp add: releaseAlreadyTerminalLock_def Let_def andThen_def release_lock_def on_disk_def
        propagated_meta) (simp add: propagateExistingTerminalDependents_def)
qed

theorem finalize_replay_noop_witness:
  "let w1 = fst (finalizeQueuedPrd demo_env (demo_fin QFailed) demo_world)
   in \<exists>w' r. finalizeQueuedPrd demo_env (demo_fin QSkipped) w1 = (w', Inr r) \<and>
      \<not> fr_finalized r \<and> comps_of w' = comps_of w1"
proof -
  let ?w1 = "fst (finalizeQueuedPrd demo_env (demo_fin QFailed) demo_world)"
  have v: "validatePrdId ''a''" by code_simp
  have "getTerminalCompletion ''a'' ?w1 \<noteq> None" "resolveCurrentPrdPath ''a'' ?w1 = Some (QPath FailedDir ''a'')"
    "hasRecoveryEvidence ''a'' ?w1"
    using v by (simp_all add: finalizer_defs demo_fin_defs resolveCurrentPrdPath_def demo_file_def
        completion_ok_def hasRecoveryEvidence_def loadOr_def skip_fuel_def waiting_count_def loadQueue_def
        findDependents_def final_disk_def)
  then show ?thesis
    using finalize_replay_noop [of "demo_fin QSkipped" ?w1 _ demo_env] v
    by (auto simp: Let_def demo_fin_def demo_env_def)
qed

end
