(* ===== verification/DispatchValidation.thy ===== *)
theory DispatchValidation
  imports Queue
begin

text \<open>
  \<open>queue/dispatch-validation.ts\<close>: whether a PRD of a stacked repository can be dispatched,
  and the parent layer inferred for it.
\<close>

datatype blocker = ParentNotListed prd_id prd_id | ParentAmbiguous prd_id | DefaultBlocker

record stack_validation =
  sv_canDispatch :: bool
  sv_blockers :: "blocker list"
  sv_inferredStackParent :: "prd_id option"
  sv_requiresStackParentChoice :: bool
  sv_meaningfulDependencyIds :: "prd_id list"

definition stack_ok :: "prd_id list \<Rightarrow> stack_validation" where
  "stack_ok ids = \<lparr>sv_canDispatch = True, sv_blockers = [], sv_inferredStackParent = None,
     sv_requiresStackParentChoice = False, sv_meaningfulDependencyIds = ids\<rparr>"

text \<open>An empty \<open>stack_parent\<close> counts as none.\<close>

definition validateStackedDispatch ::
    "prd_id \<Rightarrow> prd_id list \<Rightarrow> prd_id option \<Rightarrow> bool \<Rightarrow> stack_validation" where
  "validateStackedDispatch prd dependsOn stackParent stackingEnabled =
     (let ids = uniq (filter (\<lambda>dep. dep \<noteq> []) dependsOn)
      in if \<not> stackingEnabled then stack_ok ids
         else if stackParent \<noteq> None \<and> stackParent \<noteq> Some []
         then (if the stackParent \<notin> set ids
               then \<lparr>sv_canDispatch = False, sv_blockers = [ParentNotListed (the stackParent) prd],
                     sv_inferredStackParent = None, sv_requiresStackParentChoice = (length ids > 0),
                     sv_meaningfulDependencyIds = ids\<rparr>
               else stack_ok ids)
         else if length ids = 1 then (stack_ok ids)\<lparr>sv_inferredStackParent := Some (ids ! 0)\<rparr>
         else if length ids > 1
         then \<lparr>sv_canDispatch = False, sv_blockers = [ParentAmbiguous prd], sv_inferredStackParent = None,
               sv_requiresStackParentChoice = True, sv_meaningfulDependencyIds = ids\<rparr>
         else stack_ok ids)"

datatype validation_error = Blocked blocker | PersistFailed prd_id prd_id

definition applyStackedDispatchValidation ::
    "bool \<Rightarrow> queued_prd \<Rightarrow> qdisk \<Rightarrow> (validation_error, queued_prd \<times> qdisk) result" where
  "applyStackedDispatchValidation stackingEnabled prd d =
     (let v = validateStackedDispatch (q_id prd) (deps_of (q_fm prd)) (fm_stack_parent (q_fm prd)) stackingEnabled
      in if \<not> sv_canDispatch v
         then Inl (Blocked (case sv_blockers v of b # _ \<Rightarrow> b | [] \<Rightarrow> DefaultBlocker))
         else case sv_inferredStackParent v of
                None \<Rightarrow> Inr (prd, d)
              | Some parent \<Rightarrow>
                  if parent = [] then Inr (prd, d)
                  else (case setQueuedPrdStackParent prd parent d of
                          Inl _ \<Rightarrow> Inl (PersistFailed parent (q_id prd))
                        | Inr r \<Rightarrow> Inr r))"

text \<open>The parent a stacked PRD gets: its own if it names one, else its only dependency.\<close>

definition stack_parent_of :: "queued_prd \<Rightarrow> prd_id option" where
  "stack_parent_of q = (case fm_stack_parent (q_fm q) of Some p \<Rightarrow> if p = [] then None else Some p | None \<Rightarrow> None)"

text \<open> A stacked PRD that passes validation has an unambiguous parent among its dependencies,
  or no dependency at all; the frontmatter written to disk is the one dispatched, and the
  dependencies and the id do not change. \<close>
theorem stacked_dispatch_has_parent:
  assumes "applyStackedDispatchValidation True q d = Inr (q', d')"
  shows "q_id q' = q_id q \<and> deps_of (q_fm q') = deps_of (q_fm q) \<and>
    (case stack_parent_of q' of
       Some p \<Rightarrow> p \<in> set (deps_of (q_fm q)) \<and>
         (stack_parent_of q = Some p \<or> (\<forall>dep \<in> set (deps_of (q_fm q)). dep = p \<or> dep = []))
     | None \<Rightarrow> \<forall>dep \<in> set (deps_of (q_fm q)). dep = [])"
proof -
  let ?ids = "uniq (filter (\<lambda>dep. dep \<noteq> []) (deps_of (q_fm q)))"
  have ids: "set ?ids = {dep \<in> set (deps_of (q_fm q)). dep \<noteq> []}" by auto
  show ?thesis
  proof (cases "stack_parent_of q")
    case (Some p)
    then have p: "fm_stack_parent (q_fm q) = Some p" "p \<noteq> []"
      by (auto simp: stack_parent_of_def split: option.splits if_splits)
    with assms have "p \<in> set ?ids \<and> q' = q"
      by (auto simp: applyStackedDispatchValidation_def validateStackedDispatch_def Let_def stack_ok_def
          split: if_splits simp del: set_uniq)
    with Some p show ?thesis by auto
  next
    case None
    then have none: "fm_stack_parent (q_fm q) = None \<or> fm_stack_parent (q_fm q) = Some []"
      by (auto simp: stack_parent_of_def split: option.splits if_splits)
    consider "?ids = []" | p where "?ids = [p]" | "length ?ids > 1"
      by (cases ?ids; cases "tl ?ids") auto
    then show ?thesis
    proof cases
      case 1
      with none assms have "q' = q"
        by (auto simp: applyStackedDispatchValidation_def validateStackedDispatch_def Let_def stack_ok_def
            split: if_splits)
      moreover have "\<forall>dep \<in> set (deps_of (q_fm q)). dep = []" using 1 ids by auto
      ultimately show ?thesis using None by simp
    next
      case (2 p)
      then have p: "p \<noteq> []" "p \<in> set (deps_of (q_fm q))" "\<forall>dep \<in> set (deps_of (q_fm q)). dep = p \<or> dep = []"
        using ids by auto
      from 2 none p(1) assms have "setQueuedPrdStackParent q p d = Inr (q', d')"
        by (auto simp: applyStackedDispatchValidation_def validateStackedDispatch_def Let_def stack_ok_def
            split: if_splits sum.splits)
      then have "q' = q\<lparr>q_fm := (q_fm q)\<lparr>fm_stack_parent := Some p\<rparr>\<rparr>"
        by (auto simp: setQueuedPrdStackParent_def Let_def split: sum.splits)
      with p show ?thesis by (simp add: stack_parent_of_def deps_of_def)
    next
      case 3
      with none assms show ?thesis
        by (auto simp: applyStackedDispatchValidation_def validateStackedDispatch_def Let_def
            split: if_splits)
    qed
  qed
qed

theorem stacked_dispatch_has_parent_witness:
  "\<exists>q' d'. applyStackedDispatchValidation True (demo_prd ''b'' [''a'', ''a'', ''''] None)
       ((demo_disk [])\<lparr>d_root := Some [(''b'', demo_file [])]\<rparr>) = Inr (q', d') \<and> stack_parent_of q' = Some ''a''"
proof -
  let ?q = "demo_prd ''b'' [''a'', ''a'', ''''] None" and ?d = "(demo_disk [])\<lparr>d_root := Some [(''b'', demo_file [])]\<rparr>"
  have "\<exists>q' d'. applyStackedDispatchValidation True ?q ?d = Inr (q', d')"
    by (simp add: applyStackedDispatchValidation_def validateStackedDispatch_def demo_prd_def deps_of_def
        plain_fm_def demo_disk_def stack_ok_def setQueuedPrdStackParent_def write_prd_def dir_of_def Let_def)
  then obtain q' d' where r: "applyStackedDispatchValidation True ?q ?d = Inr (q', d')" by blast
  have none: "stack_parent_of ?q = None" by (simp add: stack_parent_of_def demo_prd_def plain_fm_def)
  from stacked_dispatch_has_parent [OF r] none have "stack_parent_of q' = Some ''a''"
    by (auto simp: demo_prd_def deps_of_def split: option.splits)
  with r show ?thesis by blast
qed

end
