(* ===== verification/Scheduler.thy ===== *)
theory Scheduler
  imports Finalizer DispatchValidation Concurrency
begin

text \<open>
  The queue scheduler of \<open>queue/scheduler.ts\<close>: its in-memory state and the operations on
  it, each with the disk it reads and writes as an argument. \<open>SchedulerMachine\<close> puts them
  together as the asynchronous handlers run.
\<close>

section \<open>State\<close>

datatype prd_status = SPending | SRunning | SCompleted | SFailed | SSkipped | SBlocked

text \<open>\<open>PrdRunState\<close>. Handlers keep references to these objects across awaits, so each has an
  identity; the status of an object that left the map is kept in \<open>sd_orphans\<close>.\<close>

record prd_run =
  pr_status :: prd_status
  pr_dependsOn :: "prd_id list"
  pr_ref :: nat

record sched =
  sd_state :: "(prd_id \<times> prd_run) list"
  sd_ordered :: "queued_prd list"
  sd_launching :: "prd_id list"
  sd_processed :: nat
  sd_skipped :: nat
  sd_suspended :: bool
  sd_finalized :: "prd_id list"
  sd_out :: "event list"
  sd_next :: nat
  sd_orphans :: "(nat \<times> prd_status) list"

definition emit :: "event \<Rightarrow> sched \<Rightarrow> sched" where
  "emit e s = s\<lparr>sd_out := sd_out s @ [e]\<rparr>"

definition run_of :: "sched \<Rightarrow> prd_id \<Rightarrow> prd_run option" where
  "run_of s i = dget (sd_state s) i"

definition status_of :: "sched \<Rightarrow> prd_id \<Rightarrow> prd_status option" where
  "status_of s i = map_option pr_status (run_of s i)"

definition set_status :: "prd_id \<Rightarrow> prd_status \<Rightarrow> sched \<Rightarrow> sched" where
  "set_status i st s =
     (case run_of s i of None \<Rightarrow> s | Some r \<Rightarrow> s\<lparr>sd_state := dput i (r\<lparr>pr_status := st\<rparr>) (sd_state s)\<rparr>)"

definition set_deps :: "prd_id \<Rightarrow> prd_id list \<Rightarrow> sched \<Rightarrow> sched" where
  "set_deps i ds s =
     (case run_of s i of None \<Rightarrow> s | Some r \<Rightarrow> s\<lparr>sd_state := dput i (r\<lparr>pr_dependsOn := ds\<rparr>) (sd_state s)\<rparr>)"

definition new_run :: "prd_id \<Rightarrow> prd_id list \<Rightarrow> sched \<Rightarrow> sched" where
  "new_run i ds s = s\<lparr>
     sd_state := dput i \<lparr>pr_status = SPending, pr_dependsOn = ds, pr_ref = sd_next s\<rparr> (sd_state s),
     sd_next := Suc (sd_next s)\<rparr>"

definition drop_run :: "prd_id \<Rightarrow> sched \<Rightarrow> sched" where
  "drop_run i s =
     (case run_of s i of
        None \<Rightarrow> s
      | Some r \<Rightarrow> s\<lparr>sd_state := ddel i (sd_state s), sd_orphans := (pr_ref r, pr_status r) # sd_orphans s\<rparr>)"

definition count_status :: "prd_status \<Rightarrow> sched \<Rightarrow> nat" where
  "count_status st s = length (filter (\<lambda>r. pr_status r = st) (dvals (sd_state s)))"

definition replace_first :: "queued_prd \<Rightarrow> queued_prd list \<Rightarrow> queued_prd list option" where
  "replace_first q qs = map_option (\<lambda>k. qs[k := q]) (find_index (\<lambda>p. q_id p = q_id q) qs)"

definition remove_first :: "prd_id \<Rightarrow> queued_prd list \<Rightarrow> queued_prd list" where
  "remove_first i qs =
     (case find_index (\<lambda>p. q_id p = i) qs of None \<Rightarrow> qs | Some k \<Rightarrow> take k qs @ drop (Suc k) qs)"

text \<open>The constructor.\<close>

definition sched_new :: "queued_prd list \<Rightarrow> sched" where
  "sched_new prds =
     fold (\<lambda>q. new_run (q_id q) (deps_of (q_fm q))) prds
       \<lparr>sd_state = [], sd_ordered = prds, sd_launching = [], sd_processed = 0, sd_skipped = 0,
        sd_suspended = False, sd_finalized = [], sd_out = [], sd_next = 0, sd_orphans = []\<rparr>"

definition finalizeBlockedAsSkipped :: "sched \<Rightarrow> sched" where
  "finalizeBlockedAsSkipped s = s\<lparr>sd_skipped := sd_skipped s + count_status SBlocked s\<rparr>"

definition sched_pause :: "sched \<Rightarrow> sched" where
  "sched_pause s = (if sd_suspended s then s else emit SchedulerPaused (s\<lparr>sd_suspended := True\<rparr>))"

text \<open>\<open>resume\<close>; the flag says whether a tick is triggered.\<close>

definition sched_resume :: "sched \<Rightarrow> sched \<times> bool" where
  "sched_resume s =
     (if \<not> sd_suspended s then (s, False) else (emit SchedulerResumed (s\<lparr>sd_suspended := False\<rparr>), True))"

section \<open>Dependencies\<close>

text \<open>What a scan has read: the two registries and the ids of the failed and skipped
  directories.\<close>

record snapshot =
  sn_artifacts :: "artifact list"
  sn_completions :: completions
  sn_terminal :: "prd_id list"

definition completion_status_of :: "snapshot \<Rightarrow> prd_id \<Rightarrow> completion_status option" where
  "completion_status_of sn dep = map_option co_status (lookupCompletion (sn_completions sn) dep)"

definition isDependencyBlocking :: "snapshot \<Rightarrow> sched \<Rightarrow> prd_id \<Rightarrow> bool" where
  "isDependencyBlocking sn s dep =
     (if dep \<in> set (sn_terminal sn) then True
      else case status_of s dep of
             Some st \<Rightarrow> st = SFailed \<or> st = SSkipped \<or> st = SBlocked
           | None \<Rightarrow> completion_status_of sn dep = Some CFailed \<or> completion_status_of sn dep = Some CSkipped)"

definition isDependencySatisfied :: "snapshot \<Rightarrow> sched \<Rightarrow> prd_id \<Rightarrow> bool" where
  "isDependencySatisfied sn s dep =
     (if dep \<in> set (sn_terminal sn) then False
      else case status_of s dep of
             Some st \<Rightarrow> st = SCompleted \<and> hasUsableArtifact (sn_artifacts sn) dep
           | None \<Rightarrow>
               (case lookupCompletion (sn_completions sn) dep of
                  Some c \<Rightarrow> if co_status c = CFailed \<or> co_status c = CSkipped then False
                            else if co_status c = CCompleted \<and> \<not> co_artifactAvailable c then False
                            else hasUsableArtifact (sn_artifacts sn) dep
                | None \<Rightarrow> hasUsableArtifact (sn_artifacts sn) dep))"

definition sched_isReady :: "snapshot \<Rightarrow> sched \<Rightarrow> prd_id \<Rightarrow> bool" where
  "sched_isReady sn s i =
     (case run_of s i of
        None \<Rightarrow> False
      | Some r \<Rightarrow> pr_status r = SPending \<and> list_all (isDependencySatisfied sn s) (pr_dependsOn r))"

text \<open>
  \<open>propagateBlocked\<close>: one pass over the map per worklist entry blocks the pending PRDs that
  depend on it and appends them. The measure is the pending PRDs plus the worklist.
\<close>

definition hit :: "prd_id \<Rightarrow> prd_run \<Rightarrow> bool" where
  "hit current r \<longleftrightarrow> pr_status r = SPending \<and> current \<in> set (pr_dependsOn r)"

definition block_pass :: "prd_id \<Rightarrow> (prd_id \<times> prd_run) list \<Rightarrow> (prd_id \<times> prd_run) list" where
  "block_pass current m = map (\<lambda>(i, r). (i, if hit current r then r\<lparr>pr_status := SBlocked\<rparr> else r)) m"

definition newly_blocked :: "prd_id \<Rightarrow> (prd_id \<times> prd_run) list \<Rightarrow> prd_id list" where
  "newly_blocked current m = map fst (filter (\<lambda>(i, r). hit current r) m)"

definition pending_count :: "(prd_id \<times> prd_run) list \<Rightarrow> nat" where
  "pending_count m = length (filter (\<lambda>(i, r). pr_status r = SPending) m)"

lemma pending_block_pass:
  "pending_count (block_pass c m) + length (newly_blocked c m) = pending_count m"
proof (induction m)
  case Nil
  then show ?case by (simp add: pending_count_def block_pass_def newly_blocked_def)
next
  case (Cons x m)
  obtain i r where x: "x = (i, r)" by (cases x)
  show ?case
  proof (cases "hit c r")
    case True
    with Cons show ?thesis by (simp add: x pending_count_def block_pass_def newly_blocked_def) (simp add: hit_def)
  next
    case False
    with Cons show ?thesis by (simp add: x pending_count_def block_pass_def newly_blocked_def)
  qed
qed

function propagate_loop :: "prd_id list \<Rightarrow> (prd_id \<times> prd_run) list \<Rightarrow> (prd_id \<times> prd_run) list" where
  "propagate_loop [] m = m"
| "propagate_loop (c # q) m = propagate_loop (q @ newly_blocked c m) (block_pass c m)"
  by pat_completeness auto
termination
proof (relation "measure (\<lambda>(q, m). length q + pending_count m)")
  fix c q m
  show "((q @ newly_blocked c m, block_pass c m), (c # q, m)) \<in> measure (\<lambda>(q, m). length q + pending_count m)"
    using pending_block_pass [of c m] by simp
qed simp

definition propagateBlocked :: "prd_id \<Rightarrow> sched \<Rightarrow> sched" where
  "propagateBlocked failedId s = s\<lparr>sd_state := propagate_loop [failedId] (sd_state s)\<rparr>"

section \<open>Reconciliation with the disk\<close>

text \<open>A lock that cannot be read is \<open>None\<close>. \<open>rm i\<close> says whether removing the lock of \<open>i\<close>
  succeeds.\<close>

definition lock_status :: "(nat \<Rightarrow> probe) \<Rightarrow> qdisk \<Rightarrow> prd_id \<Rightarrow> prd_lock option" where
  "lock_status os d i = readPrdLockStatus os (read_lock (d_locks d) i)"

definition free_lock :: "prd_id \<Rightarrow> qdisk \<Rightarrow> qdisk" where
  "free_lock i d = d\<lparr>d_locks := releasePrd i (d_locks d)\<rparr>"

definition promote_one ::
    "(nat \<Rightarrow> probe) \<Rightarrow> (prd_id \<Rightarrow> bool) \<Rightarrow> queued_prd \<Rightarrow> sched \<times> qdisk \<Rightarrow> sched \<times> qdisk" where
  "promote_one os rm prd x =
     (case x of (s, d) \<Rightarrow>
        let i = q_id prd in
        if status_of s i \<noteq> Some SPending then (s, d)
        else case lock_status os d i of
               None \<Rightarrow> (set_status i SRunning s, d)
             | Some l \<Rightarrow>
                 if is_live l then (set_status i SRunning s, d)
                 else if l \<noteq> Absent
                 then (if rm i then (s, free_lock i d) else (set_status i SRunning s, d))
                 else (s, d))"

definition refresh_one :: "queued_prd \<Rightarrow> sched \<Rightarrow> sched" where
  "refresh_one prd s =
     (if run_of s (q_id prd) = None then s
      else (let s1 = set_deps (q_id prd) (deps_of (q_fm prd)) s
            in s1\<lparr>sd_ordered := (case replace_first prd (sd_ordered s1) of Some qs \<Rightarrow> qs | None \<Rightarrow> sd_ordered s1)\<rparr>))"

definition demote_one ::
    "(nat \<Rightarrow> probe) \<Rightarrow> (prd_id \<Rightarrow> bool) \<Rightarrow> prd_id list \<Rightarrow> prd_id \<Rightarrow> sched \<times> qdisk \<Rightarrow> sched \<times> qdisk" where
  "demote_one os rm rootIds i x =
     (case x of (s, d) \<Rightarrow>
        if i \<in> set (sd_launching s) then (s, d)
        else if i \<notin> set rootIds
        then (drop_run i (s\<lparr>sd_ordered := remove_first i (sd_ordered s)\<rparr>), d)
        else case lock_status os d i of
               None \<Rightarrow> (s, d)
             | Some l \<Rightarrow>
                 if is_live l then (s, d)
                 else if l \<noteq> Absent
                 then (if rm i then (set_status i SPending s, free_lock i d) else (s, d))
                 else (set_status i SPending s, d))"

definition running_ids :: "sched \<Rightarrow> prd_id list" where
  "running_ids s = map fst (filter (\<lambda>(i, r). pr_status r = SRunning) (sd_state s))"

definition reconcileQueueState ::
    "(nat \<Rightarrow> probe) \<Rightarrow> (prd_id \<Rightarrow> bool) \<Rightarrow> queued_prd list \<Rightarrow> sched \<times> qdisk \<Rightarrow> sched \<times> qdisk" where
  "reconcileQueueState os rm fresh x =
     (case fold (promote_one os rm) fresh x of
        (s1, d1) \<Rightarrow>
          (let s2 = fold refresh_one fresh s1
           in fold (demote_one os rm (map q_id fresh)) (running_ids s2) (s2, d1)))"

definition rebuildDispatchOrder :: "queued_prd list \<Rightarrow> sched \<Rightarrow> sched" where
  "rebuildDispatchOrder fresh s =
     (let freshIds = set (map q_id fresh);
          s1 = fold drop_run
                 (map fst (filter (\<lambda>(i, r). (pr_status r = SPending \<or> pr_status r = SBlocked) \<and> i \<notin> freshIds) (sd_state s))) s;
          preserved = filter (\<lambda>p. q_id p \<notin> freshIds \<and>
             (q_id p \<in> set (sd_launching s1) \<or> status_of s1 (q_id p) = Some SRunning)) (sd_ordered s1)
      in s1\<lparr>sd_ordered := fresh @ preserved\<rparr>)"

text \<open>One PRD of the fresh queue: new, queued again, or known.\<close>

definition discover_one :: "queued_prd \<Rightarrow> sched \<Rightarrow> sched" where
  "discover_one prd s =
     (let i = q_id prd; ds = deps_of (q_fm prd);
          discovered = QueuePrdDiscovered i (fm_title (q_fm prd)) ds
      in case status_of s i of
           None \<Rightarrow>
             emit discovered
               (let s1 = new_run i ds (s\<lparr>sd_finalized := removeAll i (sd_finalized s)\<rparr>)
                in s1\<lparr>sd_ordered := sd_ordered s1 @ [prd]\<rparr>)
         | Some st \<Rightarrow>
             if st \<in> {SCompleted, SFailed, SBlocked, SSkipped}
             then emit discovered
               (let s1 = set_deps i ds (set_status i SPending (s\<lparr>sd_finalized := removeAll i (sd_finalized s)\<rparr>))
                in s1\<lparr>sd_ordered := (case replace_first prd (sd_ordered s1) of
                      Some qs \<Rightarrow> qs | None \<Rightarrow> sd_ordered s1 @ [prd])\<rparr>)
             else s)"

text \<open>\<open>discoverNewPrds\<close>; an error of the queue order (a dependency cycle) is thrown.\<close>

definition discoverNewPrds ::
    "(string \<Rightarrow> string \<Rightarrow> int) \<Rightarrow> (nat \<Rightarrow> probe) \<Rightarrow> (prd_id \<Rightarrow> bool) \<Rightarrow> sched \<times> qdisk
     \<Rightarrow> (graph_error, sched \<times> qdisk) result" where
  "discoverNewPrds lc os rm x =
     (case x of (s, d) \<Rightarrow>
        case loadQueue RootDir d of
          Inl _ \<Rightarrow> Inr (s, d)
        | Inr freshPrds \<Rightarrow>
            (case resolveQueueOrder lc freshPrds of
               Inl e \<Rightarrow> Inl e
             | Inr fresh \<Rightarrow>
                 (case reconcileQueueState os rm fresh (fold discover_one fresh s, d) of
                    (s1, d1) \<Rightarrow> Inr (rebuildDispatchOrder fresh s1, d1))))"

section \<open>The scan for ready PRDs\<close>

record scan =
  sc_sched :: sched
  sc_running :: nat
  sc_capEmitted :: bool
  sc_depEmitted :: "prd_id list"
  sc_launched :: "queued_prd list"

definition scan_block :: "snapshot \<Rightarrow> queued_prd \<Rightarrow> scan \<Rightarrow> scan" where
  "scan_block sn prd c =
     (let i = q_id prd; s = sc_sched c
      in case run_of s i of
           None \<Rightarrow> c
         | Some r \<Rightarrow>
             if pr_status r \<noteq> SPending then c
             else
               (let s1 = (if \<exists>dep \<in> set (pr_dependsOn r). isDependencyBlocking sn s dep
                          then propagateBlocked i (set_status i SBlocked s) else s);
                    unmet = filter (\<lambda>dep. \<not> isDependencySatisfied sn s1 dep) (pr_dependsOn r)
                in if unmet \<noteq> [] \<and> i \<notin> set (sc_depEmitted c)
                   then c\<lparr>sc_sched := emit (SchedulerDependencyBlocked i unmet) s1,
                          sc_depEmitted := sadd i (sc_depEmitted c)\<rparr>
                   else c\<lparr>sc_sched := s1\<rparr>))"

definition scan_launch :: "snapshot \<Rightarrow> nat \<Rightarrow> queued_prd \<Rightarrow> scan \<Rightarrow> scan" where
  "scan_launch sn parallelism prd c =
     (let i = q_id prd; s = sc_sched c
      in if \<not> sched_isReady sn s i then c
         else if i \<in> set (sd_launching s) then c
         else if sc_running c \<ge> parallelism
         then (if sc_capEmitted c then c
               else c\<lparr>sc_capEmitted := True,
                      sc_sched := emit (SchedulerCapacityBlocked (count_status SPending s) (sc_running c) parallelism) s\<rparr>)
         else
           (let s1 = set_status i SRunning s;
                s2 = s1\<lparr>sd_launching := sadd i (sd_launching s1)\<rparr>;
                n = Suc (sc_running c)
            in c\<lparr>sc_sched := emit (SchedulerDequeued i (count_status SPending s2) (int parallelism - int n)) s2,
                 sc_running := n,
                 sc_launched := sc_launched c @ [prd]\<rparr>))"

definition scan_one :: "snapshot \<Rightarrow> nat \<Rightarrow> queued_prd \<Rightarrow> scan \<Rightarrow> scan" where
  "scan_one sn parallelism prd c =
     (if status_of (sc_sched c) (q_id prd) = Some SPending \<and> fm_held (q_fm prd) = Some True then c
      else scan_launch sn parallelism prd (scan_block sn prd c))"

text \<open>
  \<open>startReadyPrds\<close> in two parts, because the registries are read in between: the count of
  running PRDs and the suspension test, then the loop. The loop has no await, so the abort
  flag is the same for all of it.
\<close>

definition startReadyPrds_begin :: "sched \<Rightarrow> nat option" where
  "startReadyPrds_begin s = (if sd_suspended s then None else Some (count_status SRunning s))"

definition startReadyPrds_loop :: "snapshot \<Rightarrow> nat \<Rightarrow> bool \<Rightarrow> nat \<Rightarrow> sched \<Rightarrow> sched \<times> queued_prd list" where
  "startReadyPrds_loop sn parallelism aborted runningCount s =
     (if aborted then (s, [])
      else (let c = fold (scan_one sn parallelism) (sd_ordered s)
                  \<lparr>sc_sched = s, sc_running = runningCount, sc_capEmitted = False, sc_depEmitted = [], sc_launched = []\<rparr>
            in (sc_sched c, sc_launched c)))"

definition read_snapshot :: "qdisk \<Rightarrow> (reg_error, snapshot) result" where
  "read_snapshot d =
     (case loadArtifactRegistry (d_artifacts d) of
        Inl e \<Rightarrow> Inl e
      | Inr arts \<Rightarrow>
          (case loadCompletionRegistry (d_completions d) of
             Inl e \<Rightarrow> Inl e
           | Inr cs \<Rightarrow> Inr \<lparr>sn_artifacts = arts, sn_completions = cs,
               sn_terminal = map q_id (loadOr FailedDir d) @ map q_id (loadOr SkippedDir d)\<rparr>))"

section \<open>Dispatch failures\<close>

definition fin_call :: "prd_id \<Rightarrow> terminal_status \<Rightarrow> qpath option \<Rightarrow> fin_opts" where
  "fin_call i st path = \<lparr>fo_prdId = i, fo_status = st, fo_filePath = path, fo_releaseLock = Some True,
     fo_requireArtifacts = Some True, fo_writeFailedEvidence = None, fo_propagateDependents = None\<rparr>"

definition failDispatch ::
    "fin_env \<Rightarrow> queued_prd \<Rightarrow> string \<Rightarrow> dispatch_stage \<Rightarrow> sched \<times> world \<Rightarrow> sched \<times> world" where
  "failDispatch env prd message stage x =
     (case x of (s, w) \<Rightarrow>
        let i = q_id prd;
            s1 = emit (PlanErrorSet i message) (emit (PlanStatusChange i PFailed)
                   (emit (QueuePrdDispatchFailed i (fm_title (q_fm prd)) message stage) s))
        in case finalizeQueuedPrd env (fin_call i QFailed (Some (QPath (q_loc prd) i))) w of
             (w', Inl _) \<Rightarrow> (emit (DaemonError ''scheduler:fail-dispatch-finalizer'' i) s1, w')
           | (w', Inr _) \<Rightarrow>
               (let s2 = s1\<lparr>sd_finalized := sadd i (sd_finalized s1), sd_processed := Suc (sd_processed s1)\<rparr>
                in (emit (QueuePrdComplete i QFailed) (propagateBlocked i (set_status i SFailed s2)), w')))"

text \<open>\<open>wasAutoResumeRequeued\<close>.\<close>

definition wasAutoResumeRequeued :: "prd_id \<Rightarrow> world \<Rightarrow> bool" where
  "wasAutoResumeRequeued i w \<longleftrightarrow> exists_at RootDir i w \<and>
     (case dget (w_json w) i of
        None \<Rightarrow> False
      | Some sc \<Rightarrow> sc_appliedAction sc = Some ''continue-repair'' \<or> sc_autoResume sc)"

end
