(* ===== verification/SchedulerScan.thy ===== *)
theory SchedulerScan
  imports Scheduler
begin

text \<open>
  The lemmas of \<open>propagateBlocked\<close> and of the scan for ready PRDs. Blocking reaches exactly
  the pending PRDs that depend, through pending PRDs, on the failed one. A scan moves a PRD
  from pending to running or blocked only, so what it decides about dependencies holds for
  the state it started from.
\<close>

section \<open>Blocking\<close>

lemma dget_block_pass [simp]:
  "dget (block_pass c m) i = map_option (\<lambda>r. if hit c r then r\<lparr>pr_status := SBlocked\<rparr> else r) (dget m i)"
  by (induction m) (auto simp: block_pass_def)

lemma dkeys_block_pass [simp]: "map fst (block_pass c m) = map fst m"
  by (induction m) (auto simp: block_pass_def)

lemma in_newly_blocked:
  "distinct (map fst m) \<Longrightarrow> i \<in> set (newly_blocked c m) \<longleftrightarrow> (\<exists>r. dget m i = Some r \<and> hit c r)"
  by (auto simp: newly_blocked_def image_iff dest: map_of_SomeD)

lemma hit_blocked [simp]: "\<not> hit c (r\<lparr>pr_status := SBlocked\<rparr>)"
  by (simp add: hit_def)

text \<open>The pending PRDs that depend on \<open>f\<close>, directly or through other pending ones.\<close>

inductive blocked_from :: "(prd_id \<times> prd_run) list \<Rightarrow> prd_id \<Rightarrow> prd_id \<Rightarrow> bool" for m f where
  base: "dget m i = Some r \<Longrightarrow> hit f r \<Longrightarrow> blocked_from m f i"
| step: "blocked_from m f j \<Longrightarrow> dget m i = Some r \<Longrightarrow> hit j r \<Longrightarrow> blocked_from m f i"

lemma blocked_from_pending: "blocked_from m f i \<Longrightarrow> \<exists>r. dget m i = Some r \<and> pr_status r = SPending"
  by (induction rule: blocked_from.induct) (auto simp: hit_def)

lemma blocked_from_trans: "blocked_from m j i \<Longrightarrow> blocked_from m f j \<Longrightarrow> blocked_from m f i"
  by (induction rule: blocked_from.induct) (auto intro: blocked_from.intros)

lemma blocked_from_pass: "blocked_from (block_pass c m) f i \<Longrightarrow> blocked_from m f i"
proof (induction rule: blocked_from.induct)
  case (base i r)
  then obtain r0 where "dget m i = Some r0" "hit f r0" by (auto split: if_splits)
  then show ?case by (rule blocked_from.base)
next
  case (step j i r)
  then obtain r0 where "dget m i = Some r0" "hit j r0" by (auto split: if_splits)
  with step.IH show ?case by (rule blocked_from.step)
qed

lemma blocked_from_one_pass:
  assumes "blocked_from m f i" and "distinct (map fst m)" and "f = c \<or> f \<in> set q"
  shows "(\<exists>r. dget m i = Some r \<and> hit c r) \<or>
    (\<exists>f' \<in> set (q @ newly_blocked c m). blocked_from (block_pass c m) f' i)"
  using assms(1)
proof (induction rule: blocked_from.induct)
  case (base i r)
  show ?case
  proof (cases "hit c r")
    case False
    with base assms(3) have "f \<in> set q" by auto
    moreover have "blocked_from (block_pass c m) f i"
      by (rule blocked_from.base [where r = r]) (simp_all add: base False)
    ultimately show ?thesis by auto
  qed (use base in auto)
next
  case (step j i r)
  show ?case
  proof (cases "hit c r")
    case False
    then have new: "dget (block_pass c m) i = Some r" by (simp add: step)
    from step.IH show ?thesis
    proof
      assume "\<exists>r. dget m j = Some r \<and> hit c r"
      then have "j \<in> set (newly_blocked c m)" by (simp add: in_newly_blocked assms(2))
      moreover have "blocked_from (block_pass c m) j i"
        by (rule blocked_from.base [OF new]) (rule step)
      ultimately show ?thesis by auto
    next
      assume "\<exists>f' \<in> set (q @ newly_blocked c m). blocked_from (block_pass c m) f' j"
      with new step.hyps show ?thesis by (blast intro: blocked_from.step)
    qed
  qed (use step in auto)
qed

lemma dget_propagate_loop:
  "distinct (map fst m) \<Longrightarrow> dget (propagate_loop q m) i =
     map_option (\<lambda>r. if \<exists>f \<in> set q. blocked_from m f i then r\<lparr>pr_status := SBlocked\<rparr> else r) (dget m i)"
proof (induction q m rule: propagate_loop.induct)
  case (2 c q m)
  show ?case
  proof (cases "dget m i")
    case None
    with 2 show ?thesis by simp
  next
    case (Some r)
    let ?new = "\<exists>f' \<in> set (q @ newly_blocked c m). blocked_from (block_pass c m) f' i"
    have "hit c r \<or> ?new \<longleftrightarrow> (\<exists>f \<in> set (c # q). blocked_from m f i)" (is "?l \<longleftrightarrow> ?r")
    proof
      assume ?l
      then show ?r
      proof
        assume "hit c r"
        with Some have "blocked_from m c i" by (rule blocked_from.base)
        then show ?r by simp
      next
        assume ?new
        then obtain f' where f': "f' \<in> set (q @ newly_blocked c m)" "blocked_from (block_pass c m) f' i" by blast
        from f'(2) have i: "blocked_from m f' i" by (rule blocked_from_pass)
        show ?r
        proof (cases "f' \<in> set q")
          case False
          with f' 2(2) obtain r' where "dget m f' = Some r'" "hit c r'" by (auto simp: in_newly_blocked)
          then have "blocked_from m c f'" by (rule blocked_from.base)
          with i show ?thesis by (auto intro: blocked_from_trans)
        qed (use i in auto)
      qed
    next
      assume ?r
      with Some 2(2) show ?l using blocked_from_one_pass [of m _ i c q] by fastforce
    qed
    moreover have "dget (propagate_loop (c # q) m) i =
       map_option (\<lambda>r. if ?new then r\<lparr>pr_status := SBlocked\<rparr> else r) (dget (block_pass c m) i)"
      using 2 by simp
    ultimately show ?thesis using Some by auto
  qed
qed simp

lemma dkeys_propagate_loop [simp]: "map fst (propagate_loop q m) = map fst m"
  by (induction q m rule: propagate_loop.induct) simp_all

abbreviation sched_ok :: "sched \<Rightarrow> bool" where
  "sched_ok s \<equiv> distinct (map fst (sd_state s))"

lemma run_of_propagateBlocked:
  "sched_ok s \<Longrightarrow> run_of (propagateBlocked f s) i =
     map_option (\<lambda>r. if blocked_from (sd_state s) f i then r\<lparr>pr_status := SBlocked\<rparr> else r) (run_of s i)"
  by (simp add: run_of_def propagateBlocked_def dget_propagate_loop del: propagate_loop.simps)

section \<open>How a scan changes the state\<close>

definition later_run :: "prd_run \<Rightarrow> prd_run \<Rightarrow> bool" where
  "later_run r r' \<longleftrightarrow> pr_dependsOn r' = pr_dependsOn r \<and>
     (pr_status r' = pr_status r \<or> pr_status r = SPending \<and> (pr_status r' = SRunning \<or> pr_status r' = SBlocked))"

definition later :: "sched \<Rightarrow> sched \<Rightarrow> bool" where
  "later s s' \<longleftrightarrow> (\<forall>i. rel_option later_run (run_of s i) (run_of s' i))"

lemma later_run_refl [simp]: "later_run r r"
  by (simp add: later_run_def)

lemma later_run_trans: "later_run r r' \<Longrightarrow> later_run r' r'' \<Longrightarrow> later_run r r''"
  by (auto simp: later_run_def)

lemma later_refl [simp]: "later s s"
  by (simp add: later_def option.rel_refl)

lemma laterD:
  assumes "later s s'"
  shows "run_of s i = None \<longleftrightarrow> run_of s' i = None"
    and "run_of s' i = Some r' \<Longrightarrow> \<exists>r. run_of s i = Some r \<and> later_run r r'"
proof -
  have rel: "rel_option later_run (run_of s i) (run_of s' i)" using assms by (simp add: later_def)
  then show "run_of s i = None \<longleftrightarrow> run_of s' i = None"
    by (cases "run_of s i"; cases "run_of s' i") simp_all
  show "run_of s' i = Some r' \<Longrightarrow> \<exists>r. run_of s i = Some r \<and> later_run r r'"
    using rel by (cases "run_of s i") simp_all
qed

lemma later_trans:
  assumes "later s s'" and "later s' s''"
  shows "later s s''"
  unfolding later_def
proof
  fix i
  have "rel_option later_run (run_of s i) (run_of s' i)" "rel_option later_run (run_of s' i) (run_of s'' i)"
    using assms by (simp_all add: later_def)
  then show "rel_option later_run (run_of s i) (run_of s'' i)"
    by (cases "run_of s i"; cases "run_of s' i"; cases "run_of s'' i") (auto intro: later_run_trans)
qed

lemma later_eq_state: "sd_state s' = sd_state s \<Longrightarrow> later s s'"
  by (simp add: later_def run_of_def option.rel_refl)

lemma later_eq_state_right: "sd_state s'' = sd_state s' \<Longrightarrow> later s s' \<Longrightarrow> later s s''"
  by (erule later_trans) (rule later_eq_state)

lemma later_set_status:
  "status_of s i = Some SPending \<Longrightarrow> st = SRunning \<or> st = SBlocked \<Longrightarrow> later s (set_status i st s)"
  by (auto simp: later_def set_status_def run_of_def status_of_def later_run_def option.rel_refl
      intro: option.rel_refl split: option.splits)

lemma later_propagateBlocked:
  assumes "sched_ok s"
  shows "later s (propagateBlocked f s)"
  unfolding later_def
proof
  fix i
  show "rel_option later_run (run_of s i) (run_of (propagateBlocked f s) i)"
  proof (cases "run_of s i")
    case (Some r)
    then have "blocked_from (sd_state s) f i \<Longrightarrow> pr_status r = SPending"
      using blocked_from_pending by (fastforce simp: run_of_def)
    with Some show ?thesis by (simp add: run_of_propagateBlocked [OF assms] later_run_def)
  qed (simp add: run_of_propagateBlocked [OF assms])
qed

lemma set_status_ok [simp]: "sched_ok s \<Longrightarrow> sched_ok (set_status i st s)"
  by (simp add: set_status_def split: option.splits)

lemma propagateBlocked_ok [simp]: "sched_ok s \<Longrightarrow> sched_ok (propagateBlocked f s)"
  by (simp add: propagateBlocked_def)

lemma emit_frame [simp]:
  "sd_state (emit e s) = sd_state s" "sd_ordered (emit e s) = sd_ordered s"
  "sd_launching (emit e s) = sd_launching s" "sd_suspended (emit e s) = sd_suspended s"
  "sd_finalized (emit e s) = sd_finalized s"
  by (simp_all add: emit_def)

lemma run_of_emit [simp]: "run_of (emit e s) = run_of s"
  by (rule ext) (simp add: run_of_def)

lemma status_of_emit [simp]: "status_of (emit e s) = status_of s"
  by (rule ext) (simp add: status_of_def)

lemma propagateBlocked_launching [simp]: "sd_launching (propagateBlocked f s) = sd_launching s"
  by (simp add: propagateBlocked_def)

lemma set_status_launching [simp]: "sd_launching (set_status i st s) = sd_launching s"
  by (simp add: set_status_def split: option.splits)

lemma status_set_status:
  "status_of (set_status i st s) j = (if j = i \<and> status_of s i \<noteq> None then Some st else status_of s j)"
  by (auto simp: status_of_def set_status_def run_of_def split: option.splits)

text \<open>A scan changes nothing that decides whether a dependency is satisfied.\<close>

lemma satisfied_later:
  assumes "later s s'"
  shows "isDependencySatisfied sn s' dep = isDependencySatisfied sn s dep"
proof (cases "run_of s' dep")
  case None
  with laterD(1) [OF assms, of dep] show ?thesis by (simp add: isDependencySatisfied_def status_of_def)
next
  case (Some r')
  with laterD(2) [OF assms] obtain r where "run_of s dep = Some r" "later_run r r'" by blast
  with Some show ?thesis by (auto simp: isDependencySatisfied_def status_of_def later_run_def)
qed

lemma ready_later:
  assumes "later s s'" and "sched_isReady sn s' i"
  shows "sched_isReady sn s i"
proof -
  from assms(2) obtain r' where r': "run_of s' i = Some r'" "pr_status r' = SPending"
    "list_all (isDependencySatisfied sn s') (pr_dependsOn r')"
    by (auto simp: sched_isReady_def split: option.splits)
  with laterD(2) [OF assms(1)] obtain r where "run_of s i = Some r" "pr_dependsOn r' = pr_dependsOn r"
    "pr_status r = SPending" by (fastforce simp: later_run_def)
  moreover have "isDependencySatisfied sn s = isDependencySatisfied sn s'"
    by (rule ext) (simp add: satisfied_later [OF assms(1)])
  ultimately show ?thesis using r' by (simp add: sched_isReady_def)
qed

section \<open>The invariant of the loop\<close>

definition scan_inv :: "snapshot \<Rightarrow> nat \<Rightarrow> nat \<Rightarrow> sched \<Rightarrow> scan \<Rightarrow> bool" where
  "scan_inv sn par n s c \<longleftrightarrow>
     sched_ok (sc_sched c) \<and> later s (sc_sched c) \<and>
     sd_ordered (sc_sched c) = sd_ordered s \<and>
     set (sd_launching (sc_sched c)) = set (sd_launching s) \<union> q_id ` set (sc_launched c) \<and>
     distinct (map q_id (sc_launched c)) \<and>
     sc_running c = n + length (sc_launched c) \<and>
     (sc_launched c \<noteq> [] \<longrightarrow> sc_running c \<le> par) \<and>
     (\<forall>q \<in> set (sc_launched c). sched_isReady sn s (q_id q) \<and> fm_held (q_fm q) \<noteq> Some True \<and>
        q_id q \<notin> set (sd_launching s) \<and> status_of (sc_sched c) (q_id q) = Some SRunning)"

lemma later_status:
  assumes "later s s'" and "status_of s i \<noteq> Some SPending"
  shows "status_of s' i = status_of s i"
proof (cases "run_of s' i")
  case None
  with laterD(1) [OF assms(1), of i] show ?thesis by (simp add: status_of_def)
next
  case (Some r')
  with laterD(2) [OF assms(1)] obtain r where "run_of s i = Some r" "later_run r r'" by blast
  with Some assms(2) show ?thesis by (auto simp: status_of_def later_run_def)
qed

lemma ready_pending: "sched_isReady sn s i \<Longrightarrow> status_of s i = Some SPending"
  by (auto simp: sched_isReady_def status_of_def split: option.splits)

lemma scan_block_frame:
  assumes "sched_ok (sc_sched c)"
  shows "sched_ok (sc_sched (scan_block sn q c))" "later (sc_sched c) (sc_sched (scan_block sn q c))"
    "sd_ordered (sc_sched (scan_block sn q c)) = sd_ordered (sc_sched c)"
    "sd_launching (sc_sched (scan_block sn q c)) = sd_launching (sc_sched c)"
    "sc_launched (scan_block sn q c) = sc_launched c"
    "sc_running (scan_block sn q c) = sc_running c"
proof -
  let ?s = "sc_sched c" let ?b = "propagateBlocked (q_id q) (set_status (q_id q) SBlocked ?s)"
  have "sc_sched (scan_block sn q c) = ?s \<or>
      (\<exists>s1 e. (s1 = ?s \<or> status_of ?s (q_id q) = Some SPending \<and> s1 = ?b) \<and>
        (sc_sched (scan_block sn q c) = s1 \<or> sc_sched (scan_block sn q c) = emit e s1))"
    by (auto simp: scan_block_def Let_def status_of_def split: option.splits)
  moreover have "status_of ?s (q_id q) = Some SPending \<Longrightarrow> later ?s ?b"
    using assms by (blast intro: later_trans later_set_status later_propagateBlocked set_status_ok)
  moreover have "sd_ordered ?b = sd_ordered ?s"
    by (simp add: propagateBlocked_def set_status_def split: option.splits)
  ultimately show "sched_ok (sc_sched (scan_block sn q c))" "later ?s (sc_sched (scan_block sn q c))"
    "sd_ordered (sc_sched (scan_block sn q c)) = sd_ordered ?s"
    "sd_launching (sc_sched (scan_block sn q c)) = sd_launching ?s"
    using assms by (auto intro: later_eq_state_right later_eq_state)
  show "sc_launched (scan_block sn q c) = sc_launched c" "sc_running (scan_block sn q c) = sc_running c"
    by (auto simp: scan_block_def Let_def split: option.splits)
qed

lemma scan_block_inv:
  assumes "scan_inv sn par n s c"
  shows "scan_inv sn par n s (scan_block sn q c)"
proof -
  have ok: "sched_ok (sc_sched c)" using assms by (simp add: scan_inv_def)
  note fr = scan_block_frame [OF ok, of sn q]
  have "later s (sc_sched (scan_block sn q c))"
    using assms fr(2) by (auto simp: scan_inv_def intro: later_trans)
  moreover have "status_of (sc_sched c) i = Some SRunning \<Longrightarrow>
      status_of (sc_sched (scan_block sn q c)) i = Some SRunning" for i
    using later_status [OF fr(2), of i] by simp
  ultimately show ?thesis using assms fr(1) unfolding scan_inv_def by (auto simp: fr(3-6))
qed

lemma later_launch:
  assumes "sched_isReady sn s i"
  shows "later s (set_status i SRunning s)"
  using assms by (auto intro!: later_set_status dest: ready_pending)

lemma scan_launch_cases:
  obtains (skip) "scan_launch sn par q c = c" and
      "\<not> sched_isReady sn (sc_sched c) (q_id q) \<or> q_id q \<in> set (sd_launching (sc_sched c)) \<or> par \<le> sc_running c"
    | (full) e where "scan_launch sn par q c = c\<lparr>sc_capEmitted := True, sc_sched := emit e (sc_sched c)\<rparr>"
        "par \<le> sc_running c"
    | (launch) e where "scan_launch sn par q c = c\<lparr>
          sc_sched := emit e ((set_status (q_id q) SRunning (sc_sched c))\<lparr>sd_launching := sadd (q_id q) (sd_launching (sc_sched c))\<rparr>),
          sc_running := Suc (sc_running c), sc_launched := sc_launched c @ [q]\<rparr>"
        "sched_isReady sn (sc_sched c) (q_id q)" "q_id q \<notin> set (sd_launching (sc_sched c))" "sc_running c < par"
proof -
  consider "\<not> sched_isReady sn (sc_sched c) (q_id q) \<or> q_id q \<in> set (sd_launching (sc_sched c))"
    | "sched_isReady sn (sc_sched c) (q_id q)" "q_id q \<notin> set (sd_launching (sc_sched c))" "par \<le> sc_running c"
    | "sched_isReady sn (sc_sched c) (q_id q)" "q_id q \<notin> set (sd_launching (sc_sched c))" "sc_running c < par"
    by fastforce
  then show thesis
  proof cases
    case 1
    then have "scan_launch sn par q c = c" by (auto simp: scan_launch_def Let_def)
    with that(1) 1 show thesis by blast
  next
    case 2
    with that(1,2) show thesis by (cases "sc_capEmitted c") (simp_all add: scan_launch_def Let_def)
  next
    case 3
    with that(3) show thesis by (simp add: scan_launch_def Let_def)
  qed
qed

lemma scan_launch_inv:
  assumes inv: "scan_inv sn par n s c" and held: "status_of (sc_sched c) (q_id q) = Some SPending \<Longrightarrow> fm_held (q_fm q) \<noteq> Some True"
  shows "scan_inv sn par n s (scan_launch sn par q c)"
proof (cases rule: scan_launch_cases [of sn par q c])
  case skip
  with inv show ?thesis by simp
next
  case (full e)
  have "later s (emit e (sc_sched c))"
    using inv by (intro later_eq_state_right [of "emit e (sc_sched c)" "sc_sched c"]) (simp_all add: scan_inv_def)
  with inv show ?thesis unfolding scan_inv_def by (auto simp: full(1))
next
  case (launch e)
  let ?i = "q_id q" let ?s1 = "set_status ?i SRunning (sc_sched c)"
  have later: "later s (sc_sched c)" "sched_ok (sc_sched c)" using inv by (simp_all add: scan_inv_def)
  have "later s ?s1" using later(1) later_launch [OF launch(2)] by (rule later_trans)
  then have l: "later s (emit e (?s1\<lparr>sd_launching := sadd ?i (sd_launching (sc_sched c))\<rparr>))"
    by (rule later_eq_state_right [rotated]) simp
  have pend: "status_of (sc_sched c) ?i = Some SPending" using launch(2) by (rule ready_pending)
  have st: "status_of (?s1\<lparr>sd_launching := x\<rparr>) j = (if j = ?i then Some SRunning else status_of (sc_sched c) j)"
    for x j using pend by (auto simp: status_of_def run_of_def set_status_def split: option.splits)
  have "sd_ordered ?s1 = sd_ordered (sc_sched c)" by (simp add: set_status_def split: option.splits)
  with inv launch l pend held ready_later [OF later(1) launch(2)] show ?thesis
    unfolding scan_inv_def by (simp add: st)
qed

lemma scan_one_inv: "scan_inv sn par n s c \<Longrightarrow> scan_inv sn par n s (scan_one sn par q c)"
proof (cases "status_of (sc_sched c) (q_id q) = Some SPending \<and> fm_held (q_fm q) = Some True")
  case False
  assume inv: "scan_inv sn par n s c"
  then have ok: "sched_ok (sc_sched c)" by (simp add: scan_inv_def)
  have "status_of (sc_sched (scan_block sn q c)) (q_id q) = Some SPending \<Longrightarrow> status_of (sc_sched c) (q_id q) = Some SPending"
    using later_status [OF scan_block_frame(2) [OF ok], of "q_id q" sn q] by fastforce
  with False inv show ?thesis by (auto simp: scan_one_def intro!: scan_launch_inv scan_block_inv)
qed (auto simp: scan_one_def)

lemma scan_fold_inv: "scan_inv sn par n s c \<Longrightarrow> scan_inv sn par n s (fold (scan_one sn par) qs c)"
  by (induction qs arbitrary: c) (simp_all add: scan_one_inv)

definition scan_mono :: "scan \<Rightarrow> scan \<Rightarrow> bool" where
  "scan_mono c c' \<longleftrightarrow> sched_ok (sc_sched c') \<and> later (sc_sched c) (sc_sched c') \<and>
     set (sd_launching (sc_sched c)) \<subseteq> set (sd_launching (sc_sched c')) \<and> sc_running c \<le> sc_running c'"

lemma scan_mono_trans: "scan_mono c c' \<Longrightarrow> scan_mono c' c'' \<Longrightarrow> scan_mono c c''"
  by (auto simp: scan_mono_def intro: later_trans)

lemma scan_launch_mono: "sched_ok (sc_sched c) \<Longrightarrow> scan_mono c (scan_launch sn par q c)"
proof (cases rule: scan_launch_cases [of sn par q c])
  case (launch e)
  assume ok: "sched_ok (sc_sched c)"
  have "later (sc_sched c) (emit e ((set_status (q_id q) SRunning (sc_sched c))\<lparr>sd_launching := x\<rparr>))" for x
    using later_launch [OF launch(2)] by (rule later_eq_state_right [rotated]) simp
  with ok launch(1) show ?thesis by (auto simp: scan_mono_def)
qed (auto simp: scan_mono_def intro: later_eq_state)

lemma scan_one_mono: "sched_ok (sc_sched c) \<Longrightarrow> scan_mono c (scan_one sn par q c)"
  using scan_mono_trans [of c "scan_block sn q c"] scan_launch_mono [of "scan_block sn q c" sn par q]
    scan_block_frame [of c sn q]
  by (auto simp: scan_one_def scan_mono_def)

lemma scan_fold_mono: "sched_ok (sc_sched c) \<Longrightarrow> scan_mono c (fold (scan_one sn par) qs c)"
proof (induction qs arbitrary: c)
  case (Cons q qs)
  have one: "scan_mono c (scan_one sn par q c)" using Cons.prems by (rule scan_one_mono)
  then have "scan_mono (scan_one sn par q c) (fold (scan_one sn par) qs (scan_one sn par q c))"
    by (intro Cons.IH) (simp add: scan_mono_def)
  with one show ?case by (simp add: scan_mono_trans)
qed (simp add: scan_mono_def)

text \<open>A PRD that the loop leaves ready was not launched for want of capacity.\<close>

lemma scan_one_serves:
  assumes "sched_isReady sn (sc_sched (scan_one sn par q c)) (q_id q)"
    and "q_id q \<notin> set (sd_launching (sc_sched (scan_one sn par q c)))" and "fm_held (q_fm q) \<noteq> Some True"
  shows "par \<le> sc_running (scan_one sn par q c)"
  using assms
  by (cases rule: scan_launch_cases [of sn par q "scan_block sn q c"]) (auto simp: scan_one_def)

lemma scan_fold_serves:
  assumes "sched_ok (sc_sched c)" and "q \<in> set qs" and "c' = fold (scan_one sn par) qs c"
    and "sched_isReady sn (sc_sched c') (q_id q)" and "q_id q \<notin> set (sd_launching (sc_sched c'))"
    and "fm_held (q_fm q) \<noteq> Some True"
  shows "par \<le> sc_running c'"
proof -
  from assms(2) obtain xs ys where qs: "qs = xs @ q # ys" by (auto simp: in_set_conv_decomp)
  let ?c1 = "fold (scan_one sn par) xs c" let ?c2 = "scan_one sn par q ?c1"
  have "scan_mono c ?c1" using assms(1) by (rule scan_fold_mono)
  then have "scan_mono ?c1 ?c2" by (intro scan_one_mono) (simp add: scan_mono_def)
  then have "scan_mono ?c2 (fold (scan_one sn par) ys ?c2)" by (intro scan_fold_mono) (simp add: scan_mono_def)
  then have m: "scan_mono ?c2 c'" by (simp add: assms(3) qs)
  then have "sched_isReady sn (sc_sched ?c2) (q_id q)" "q_id q \<notin> set (sd_launching (sc_sched ?c2))"
    using assms(4,5) by (auto simp: scan_mono_def intro: ready_later)
  then have "par \<le> sc_running ?c2" using assms(6) by (rule scan_one_serves)
  with m show ?thesis by (simp add: scan_mono_def)
qed

lemma scan_result:
  assumes "startReadyPrds_loop sn par False n s = (s', qs)" and "sched_ok s"
  obtains c where "scan_inv sn par n s c" and "sc_sched c = s'" and "sc_launched c = qs"
    and "c = fold (scan_one sn par) (sd_ordered s)
        \<lparr>sc_sched = s, sc_running = n, sc_capEmitted = False, sc_depEmitted = [], sc_launched = []\<rparr>"
proof (rule that)
  show "scan_inv sn par n s (fold (scan_one sn par) (sd_ordered s)
      \<lparr>sc_sched = s, sc_running = n, sc_capEmitted = False, sc_depEmitted = [], sc_launched = []\<rparr>)"
    using assms(2) by (intro scan_fold_inv) (simp add: scan_inv_def)
qed (use assms in \<open>simp_all add: startReadyPrds_loop_def Let_def\<close>)

section \<open>Properties\<close>

text \<open> Blocking the dependents of a failed PRD blocks exactly the pending PRDs that depend on
  it, directly or through other pending PRDs; every other PRD keeps its state. \<close>
theorem propagateBlocked_exact:
  assumes "distinct (map fst (sd_state s))"
  shows "run_of (propagateBlocked f s) i =
    map_option (\<lambda>r. if blocked_from (sd_state s) f i then r\<lparr>pr_status := SBlocked\<rparr> else r) (run_of s i)"
  using assms by (rule run_of_propagateBlocked)

definition demo_sched :: sched where
  "demo_sched = sched_new [demo_prd ''a'' [] None, demo_prd ''b'' [''a''] None, demo_prd ''c'' [''b''] None, demo_prd ''d'' [] None]"

lemmas demo_sched_defs = demo_sched_def sched_new_def new_run_def demo_prd_def deps_of_def plain_fm_def

theorem propagateBlocked_exact_witness:
  "status_of (propagateBlocked ''a'' demo_sched) ''c'' = Some SBlocked \<and>
   status_of (propagateBlocked ''a'' demo_sched) ''d'' = Some SPending"
proof -
  have ok: "distinct (map fst (sd_state demo_sched))" by (simp add: demo_sched_defs)
  have b: "blocked_from (sd_state demo_sched) ''a'' ''b''"
    by (rule blocked_from.base) (simp add: demo_sched_defs, simp add: hit_def)
  have "blocked_from (sd_state demo_sched) ''a'' ''c''"
    by (rule blocked_from.step [OF b]) (simp add: demo_sched_defs, simp add: hit_def)
  moreover have "\<not> blocked_from (sd_state demo_sched) ''a'' ''d''"
  proof
    assume "blocked_from (sd_state demo_sched) ''a'' ''d''"
    then show False by cases (auto simp: demo_sched_defs hit_def)
  qed
  moreover have "run_of demo_sched ''c'' \<noteq> None" "status_of demo_sched ''d'' = Some SPending"
    by (simp_all add: demo_sched_defs run_of_def status_of_def)
  ultimately show ?thesis
    using propagateBlocked_exact [OF ok, of "''a''" "''c''"] propagateBlocked_exact [OF ok, of "''a''" "''d''"]
    by (auto simp: status_of_def)
qed

text \<open> C24. A scan launches each PRD at most once, only PRDs that were pending, not held, not being
  launched and had every dependency satisfied, and never more than the capacity left. \<close>
theorem scan_launches_only_ready:
  assumes "startReadyPrds_loop sn par False n s = (s', qs)" and "distinct (map fst (sd_state s))"
  shows "distinct (map q_id qs) \<and> (qs \<noteq> [] \<longrightarrow> n + length qs \<le> par) \<and>
    (\<forall>q \<in> set qs. status_of s (q_id q) = Some SPending \<and> status_of s' (q_id q) = Some SRunning \<and>
       fm_held (q_fm q) \<noteq> Some True \<and> q_id q \<notin> set (sd_launching s) \<and>
       (\<forall>r dep. run_of s (q_id q) = Some r \<longrightarrow> dep \<in> set (pr_dependsOn r) \<longrightarrow> isDependencySatisfied sn s dep))"
proof -
  obtain c where inv: "scan_inv sn par n s c" and c: "sc_sched c = s'" "sc_launched c = qs"
    using assms by (rule scan_result)
  have "sched_isReady sn s i \<Longrightarrow> run_of s i = Some r \<Longrightarrow> dep \<in> set (pr_dependsOn r) \<Longrightarrow> isDependencySatisfied sn s dep"
    for i r dep by (auto simp: sched_isReady_def list_all_iff)
  with inv c show ?thesis unfolding scan_inv_def by (auto dest: ready_pending)
qed

definition demo_sn :: snapshot where
  "demo_sn = \<lparr>sn_artifacts = [], sn_completions = [], sn_terminal = []\<rparr>"

lemma demo_scan:
  "map q_id (snd (startReadyPrds_loop demo_sn 1 False 0 demo_sched)) = [''a'']"
  "sched_isReady demo_sn (fst (startReadyPrds_loop demo_sn 1 False 0 demo_sched)) ''d''"
  "sd_launching (fst (startReadyPrds_loop demo_sn 1 False 0 demo_sched)) = [''a'']"
  by code_simp+

theorem scan_launches_only_ready_witness:
  "\<exists>s' qs. startReadyPrds_loop demo_sn 1 False 0 demo_sched = (s', qs) \<and> map q_id qs = [''a''] \<and>
     length qs \<le> 1 \<and> status_of demo_sched ''b'' = Some SPending"
proof -
  obtain s' qs where r: "startReadyPrds_loop demo_sn 1 False 0 demo_sched = (s', qs)" by fastforce
  have "distinct (map fst (sd_state demo_sched))" by (simp add: demo_sched_defs)
  from scan_launches_only_ready [OF r this] have "length qs \<le> 1" by (cases qs) auto
  moreover have "map q_id qs = [''a'']" using r demo_scan(1) by simp
  moreover have "status_of demo_sched ''b'' = Some SPending" by (simp add: demo_sched_defs status_of_def run_of_def)
  ultimately show ?thesis using r by (intro exI conjI)
qed

text \<open> A scan is work conserving: a PRD of the dispatch order that is still ready when the loop
  ends, is not held and is not being launched, was left because the capacity is used up. \<close>
theorem scan_work_conserving:
  assumes "startReadyPrds_loop sn par False n s = (s', qs)" and "distinct (map fst (sd_state s))"
    and "q \<in> set (sd_ordered s)" and "sched_isReady sn s' (q_id q)"
    and "q_id q \<notin> set (sd_launching s')" and "fm_held (q_fm q) \<noteq> Some True"
  shows "par \<le> n + length qs"
proof -
  obtain c where c: "scan_inv sn par n s c" "sc_sched c = s'" "sc_launched c = qs"
    "c = fold (scan_one sn par) (sd_ordered s)
      \<lparr>sc_sched = s, sc_running = n, sc_capEmitted = False, sc_depEmitted = [], sc_launched = []\<rparr>"
    using assms(1,2) by (rule scan_result)
  have "par \<le> sc_running c"
    by (rule scan_fold_serves [OF _ assms(3) c(4)]) (use assms c in simp_all)
  with c(1,3) show ?thesis by (simp add: scan_inv_def)
qed

theorem scan_work_conserving_witness:
  "\<exists>s' qs. startReadyPrds_loop demo_sn 1 False 0 demo_sched = (s', qs) \<and>
     sched_isReady demo_sn s' ''d'' \<and> 1 \<le> 0 + length qs"
proof -
  obtain s' qs where r: "startReadyPrds_loop demo_sn 1 False 0 demo_sched = (s', qs)" by fastforce
  have rd: "sched_isReady demo_sn s' ''d''" "''d'' \<notin> set (sd_launching s')"
    using demo_scan(2,3) r by simp_all
  have "1 \<le> 0 + length qs"
    by (rule scan_work_conserving [OF r, where q = "demo_prd ''d'' [] None"])
       (use rd in \<open>simp_all add: demo_sched_defs\<close>)
  with r rd show ?thesis by blast
qed

end
