(* ===== verification/SchedulerMachine.thy ===== *)
theory SchedulerMachine
  imports SchedulerScan
begin

text \<open>
  The scheduler as it runs: the handlers of the bus (\<open>onMutation\<close>, \<open>onComplete\<close>,
  \<open>resume\<close>) and the launch closures of \<open>startReadyPrds\<close>, interleaved at their awaits. A task
  is the list of what a handler still has to do; a job is one launch closure with its
  phase. Everything between two awaits is one step. The disk may change between steps in
  any way, and completions may arrive for any PRD at any time. The lemmas bound the children
  that run and show when a PRD has one launch closure at most.
\<close>

section \<open>The machine\<close>

datatype job_phase = JGate | JRoute | JValidate | JAcquire | JChild | JFailing string dispatch_stage

record job =
  jb_prd :: queued_prd
  jb_phase :: job_phase
  jb_override :: "string option"

datatype todo =
    CheckRequeued prd_id
  | Discover
  | Reblock prd_id nat
  | Propagate prd_id
  | ScanBegin
  | ScanLoop nat
  | Finalize prd_id terminal_status nat

record sched_task =
  tk_todo :: "todo list"
  tk_resume :: bool

record config =
  mc_parallelism :: nat
  mc_gates :: bool
  mc_routers :: bool
  mc_profile :: "string option"
  mc_stacking :: bool
  mc_env :: fin_env
  mc_os :: "nat \<Rightarrow> probe"
  mc_rm :: "prd_id \<Rightarrow> bool"
  mc_lc :: "string \<Rightarrow> string \<Rightarrow> int"

record mach =
  m_sched :: sched
  m_world :: world
  m_sem :: "nat sem_system"
  m_jobs :: "(nat \<times> job) list"
  m_tasks :: "(nat \<times> sched_task) list"
  m_fresh :: nat
  m_aborted :: bool
  m_rejected :: nat

datatype gate_answer = GateAllow "event list" | GateBlock "event list" string | GateThrow string

datatype route_answer = RouteNone | RouteSelect string | RouteThrow string

datatype child_exit = ChildStatus terminal_status | AlreadyClaimed | ChildThrew

datatype sched_event =
    Mutation
  | Complete prd_id terminal_status
  | PauseEv
  | ResumeEv
  | AbortEv
  | DiskChange world
  | RunTask nat
  | GateAns nat gate_answer
  | RouteAns nat route_answer
  | ValidateJob nat
  | SpawnJob nat
  | ExitJob nat child_exit
  | FailJob nat

definition on_sched :: "(sched \<Rightarrow> sched) \<Rightarrow> mach \<Rightarrow> mach" where
  "on_sched f m = m\<lparr>m_sched := f (m_sched m)\<rparr>"

definition add_task :: "bool \<Rightarrow> todo list \<Rightarrow> mach \<Rightarrow> mach" where
  "add_task res ts m = m\<lparr>m_tasks := m_tasks m @ [(m_fresh m, \<lparr>tk_todo = ts, tk_resume = res\<rparr>)],
     m_fresh := Suc (m_fresh m)\<rparr>"

definition tick :: "todo list" where
  "tick = [Discover, ScanBegin]"

text \<open>The constructor and \<open>start\<close>.\<close>

definition mach_start :: "config \<Rightarrow> queued_prd list \<Rightarrow> world \<Rightarrow> (semaphore_error, mach) result" where
  "mach_start c prds w =
     (case sem_new (int (mc_parallelism c)) of
        Inl e \<Rightarrow> Inl e
      | Inr sem \<Rightarrow> Inr (add_task False tick
          \<lparr>m_sched = sched_new prds, m_world = w, m_sem = sem_system_of sem, m_jobs = [], m_tasks = [],
           m_fresh = 0, m_aborted = False, m_rejected = 0\<rparr>))"

section \<open>The completion handler\<close>

text \<open>The status of the object a handler holds, whether or not it is still in the map.\<close>

definition obj_status :: "prd_id \<Rightarrow> nat \<Rightarrow> sched \<Rightarrow> prd_status option" where
  "obj_status i ref s =
     (case run_of s i of
        Some r \<Rightarrow> if pr_ref r = ref then Some (pr_status r) else dget (sd_orphans s) ref
      | None \<Rightarrow> dget (sd_orphans s) ref)"

definition set_obj :: "prd_id \<Rightarrow> nat \<Rightarrow> prd_status \<Rightarrow> sched \<Rightarrow> sched" where
  "set_obj i ref st s =
     (if \<exists>r. run_of s i = Some r \<and> pr_ref r = ref then set_status i st s
      else s\<lparr>sd_orphans := (ref, st) # sd_orphans s\<rparr>)"

lemma set_obj_code [code]:
  "set_obj i ref st s =
     (if (case run_of s i of Some r \<Rightarrow> pr_ref r = ref | None \<Rightarrow> False) then set_status i st s
      else s\<lparr>sd_orphans := (ref, st) # sd_orphans s\<rparr>)"
  by (simp add: set_obj_def split: option.splits)

definition prd_status_of :: "terminal_status \<Rightarrow> prd_status" where
  "prd_status_of st = (case st of QCompleted \<Rightarrow> SCompleted | QFailed \<Rightarrow> SFailed | QSkipped \<Rightarrow> SSkipped)"

text \<open>The part of \<open>onComplete\<close> before the finalizer is called: what it has still to do.\<close>

definition complete_prologue :: "prd_id \<Rightarrow> terminal_status \<Rightarrow> sched \<Rightarrow> sched \<times> todo list" where
  "complete_prologue i st s =
     (if i \<in> set (sd_finalized s)
      then (s, if st = QCompleted then [] else [Discover, Propagate i, ScanBegin])
      else case run_of s i of
             None \<Rightarrow> (emit (DaemonWarning ''queue-scheduler'' i) s, [])
           | Some r \<Rightarrow>
               (case pr_status r of
                  SRunning \<Rightarrow> (s\<lparr>sd_finalized := sadd i (sd_finalized s)\<rparr>, [Finalize i st (pr_ref r)])
                | SPending \<Rightarrow> (emit (DaemonWarning ''queue-scheduler'' i) s, [])
                | SBlocked \<Rightarrow> (emit (DaemonWarning ''queue-scheduler'' i) s, [])
                | _ \<Rightarrow> (s, [])))"

definition is_dead :: "prd_status option \<Rightarrow> bool" where
  "is_dead st \<longleftrightarrow> st = Some SFailed \<or> st = Some SSkipped"

text \<open>After the finalizer: counters, the status of the object, the dependents.\<close>

definition complete_epilogue :: "prd_id \<Rightarrow> terminal_status \<Rightarrow> nat \<Rightarrow> sched \<Rightarrow> sched" where
  "complete_epilogue i st ref s =
     (let s1 = (if st = QSkipped then s\<lparr>sd_skipped := Suc (sd_skipped s)\<rparr>
                else s\<lparr>sd_processed := Suc (sd_processed s)\<rparr>);
          s2 = (if obj_status i ref s1 = Some SRunning then set_obj i ref (prd_status_of st) s1 else s1)
      in if is_dead (obj_status i ref s2) then propagateBlocked i s2 else s2)"

section \<open>One step of a task\<close>

definition new_job :: "queued_prd \<Rightarrow> job" where
  "new_job q = \<lparr>jb_prd = q, jb_phase = JGate, jb_override = None\<rparr>"

definition add_job :: "queued_prd \<Rightarrow> mach \<Rightarrow> mach" where
  "add_job q m = m\<lparr>m_jobs := m_jobs m @ [(m_fresh m, new_job q)], m_fresh := Suc (m_fresh m)\<rparr>"

text \<open>The new state and what the task does next; \<open>None\<close> when it throws.\<close>

definition run_todo :: "config \<Rightarrow> todo \<Rightarrow> mach \<Rightarrow> mach \<times> todo list option" where
  "run_todo c td m =
     (case td of
        CheckRequeued i \<Rightarrow>
          if wasAutoResumeRequeued i (m_world m) then (m, Some tick)
          else (case complete_prologue i QFailed (m_sched m) of (s, ts) \<Rightarrow> (m\<lparr>m_sched := s\<rparr>, Some ts))
      | Discover \<Rightarrow>
          (case discoverNewPrds (mc_lc c) (mc_os c) (mc_rm c) (m_sched m, w_disk (m_world m)) of
             Inl _ \<Rightarrow> (m, None)
           | Inr (s, d) \<Rightarrow> (m\<lparr>m_sched := s, m_world := (m_world m)\<lparr>w_disk := d\<rparr>\<rparr>, Some []))
      | Reblock i ref \<Rightarrow>
          (if is_dead (obj_status i ref (m_sched m)) then (on_sched (propagateBlocked i) m, Some []) else (m, Some []))
      | Propagate i \<Rightarrow> (on_sched (propagateBlocked i) m, Some [])
      | ScanBegin \<Rightarrow>
          (case startReadyPrds_begin (m_sched m) of None \<Rightarrow> (m, Some []) | Some n \<Rightarrow> (m, Some [ScanLoop n]))
      | ScanLoop n \<Rightarrow>
          (case read_snapshot (w_disk (m_world m)) of
             Inl _ \<Rightarrow> (m, None)
           | Inr sn \<Rightarrow>
               (case startReadyPrds_loop sn (mc_parallelism c) (m_aborted m) n (m_sched m) of
                  (s, qs) \<Rightarrow> (fold add_job qs (m\<lparr>m_sched := s\<rparr>), Some [])))
      | Finalize i st ref \<Rightarrow>
          (case finalizeQueuedPrd (mc_env c) (fin_call i st None) (m_world m) of
             (w, Inl _) \<Rightarrow>
               (on_sched (\<lambda>s. emit (DaemonError ''queue-scheduler'' i) (s\<lparr>sd_finalized := removeAll i (sd_finalized s)\<rparr>))
                  (m\<lparr>m_world := w\<rparr>), Some [])
           | (w, Inr _) \<Rightarrow>
               (on_sched (complete_epilogue i st ref) (m\<lparr>m_world := w\<rparr>), Some [Discover, Reblock i ref, ScanBegin])))"

definition set_task :: "nat \<Rightarrow> bool \<Rightarrow> todo list \<Rightarrow> mach \<Rightarrow> mach" where
  "set_task t res ts m =
     m\<lparr>m_tasks := (if ts = [] then ddel t (m_tasks m) else dput t \<lparr>tk_todo = ts, tk_resume = res\<rparr> (m_tasks m))\<rparr>"

text \<open>A task that throws ends: \<open>resume\<close> reports it, the other handlers leave the promise
  rejected with nobody to catch it.\<close>

definition run_task :: "config \<Rightarrow> nat \<Rightarrow> mach \<Rightarrow> mach option" where
  "run_task c t m =
     (case dget (m_tasks m) t of
        None \<Rightarrow> None
      | Some tk \<Rightarrow>
          (case tk_todo tk of
             [] \<Rightarrow> None
           | td # rest \<Rightarrow>
               Some (case run_todo c td m of
                  (m', Some ts) \<Rightarrow> set_task t (tk_resume tk) (ts @ rest) m'
                | (m', None) \<Rightarrow>
                    (let m'' = set_task t (tk_resume tk) [] m'
                     in if tk_resume tk then on_sched (emit (DaemonError ''scheduler:resume'' [])) m''
                        else m''\<lparr>m_rejected := Suc (m_rejected m'')\<rparr>))))"

section \<open>The launch closure\<close>

definition set_job :: "nat \<Rightarrow> job \<Rightarrow> mach \<Rightarrow> mach" where
  "set_job j b m = m\<lparr>m_jobs := dput j b (m_jobs m)\<rparr>"

definition forget :: "prd_id \<Rightarrow> sched \<Rightarrow> sched" where
  "forget i s = s\<lparr>sd_launching := removeAll i (sd_launching s)\<rparr>"

text \<open>The \<open>finally\<close> block of a closure that holds no permit.\<close>

definition end_job :: "nat \<Rightarrow> job \<Rightarrow> mach \<Rightarrow> mach" where
  "end_job j b m = on_sched (forget (q_id (jb_prd b))) (m\<lparr>m_jobs := ddel j (m_jobs m)\<rparr>)"

definition complete_event :: "prd_id \<Rightarrow> terminal_status \<Rightarrow> mach \<Rightarrow> mach" where
  "complete_event i st = on_sched (emit (QueuePrdComplete i st))"

definition fail_job :: "nat \<Rightarrow> job \<Rightarrow> string \<Rightarrow> dispatch_stage \<Rightarrow> mach \<Rightarrow> mach" where
  "fail_job j b msg stage = set_job j (b\<lparr>jb_phase := JFailing msg stage\<rparr>)"

text \<open>The policy gate. A blocked PRD leaves \<open>launching\<close> before its failure is recorded.\<close>

definition gate_job :: "config \<Rightarrow> nat \<Rightarrow> gate_answer \<Rightarrow> job \<Rightarrow> mach \<Rightarrow> mach option" where
  "gate_job c j ans b m =
     (let i = q_id (jb_prd b) in
      if \<not> mc_gates c then (if ans = GateAllow [] then Some (set_job j (b\<lparr>jb_phase := JRoute\<rparr>) m) else None)
      else case getCompiledResumeFrontmatter (q_fm (jb_prd b)) of
             Inl _ \<Rightarrow> Some (fail_job j b ''incomplete resume frontmatter'' DispatchStage m)
           | Inr _ \<Rightarrow>
               (case ans of
                  GateThrow msg \<Rightarrow> Some (fail_job j b msg DispatchStage m)
                | GateAllow es \<Rightarrow>
                    Some (set_job j (b\<lparr>jb_phase := JRoute\<rparr>) (on_sched (fold emit es) m))
                | GateBlock es msg \<Rightarrow>
                    (let w = m_world m;
                         w' = (if q_loc (jb_prd b) = RootDir
                               then (case movePrdToSubdir i FailedDir (w_disk w) of
                                       Inr d \<Rightarrow> w\<lparr>w_disk := d\<rparr> | Inl (_, d) \<Rightarrow> w\<lparr>w_disk := d\<rparr>) else w)
                     in Some (fail_job j b msg PolicyGateStage
                          (on_sched (\<lambda>s. forget i (fold emit es s)) (m\<lparr>m_world := w'\<rparr>))))))"

definition setQueuedPrdProfile :: "queued_prd \<Rightarrow> string \<Rightarrow> qdisk \<Rightarrow> (fs_error, queued_prd \<times> qdisk) result" where
  "setQueuedPrdProfile q profile d =
     (let q' = q\<lparr>q_fm := (q_fm q)\<lparr>fm_profile := Some profile\<rparr>\<rparr>
      in case write_prd q' d of Inl e \<Rightarrow> Inl e | Inr d' \<Rightarrow> Inr (q', d'))"

text \<open>A frontmatter profile that is empty counts as none.\<close>

definition named_profile :: "queued_prd \<Rightarrow> bool" where
  "named_profile q \<longleftrightarrow> fm_profile (q_fm q) \<noteq> None \<and> fm_profile (q_fm q) \<noteq> Some []"

definition routed :: "nat \<Rightarrow> job \<Rightarrow> mach \<Rightarrow> mach" where
  "routed j b m =
     (if m_aborted m then complete_event (q_id (jb_prd b)) QSkipped (end_job j b m)
      else set_job j (b\<lparr>jb_phase := JValidate\<rparr>) m)"

definition route_job :: "config \<Rightarrow> nat \<Rightarrow> route_answer \<Rightarrow> job \<Rightarrow> mach \<Rightarrow> mach option" where
  "route_job c j ans b m =
     (let q = jb_prd b in
      if \<not> mc_routers c \<or> named_profile q then (if ans = RouteNone then Some (routed j b m) else None)
      else case ans of
             RouteThrow msg \<Rightarrow> Some (fail_job j b msg DispatchStage m)
           | RouteNone \<Rightarrow> Some (routed j b m)
           | RouteSelect p \<Rightarrow>
               (let m1 = on_sched (emit (QueueProfileSelected (q_id q) p [])) m
                in case setQueuedPrdProfile q p (w_disk (m_world m)) of
                     Inr (q', d) \<Rightarrow>
                       Some (routed j (b\<lparr>jb_prd := q'\<rparr>) (m1\<lparr>m_world := (m_world m1)\<lparr>w_disk := d\<rparr>\<rparr>))
                   | Inl _ \<Rightarrow>
                       Some (routed j (b\<lparr>jb_override := Some p\<rparr>)
                          (on_sched (emit (QueueProfileRouterFailed (q_id q) p ''persist-failed'')) m1))))"

definition blocker_text :: "validation_error \<Rightarrow> string" where
  "blocker_text e = (case e of Blocked (ParentNotListed p i) \<Rightarrow> p @ i | Blocked (ParentAmbiguous i) \<Rightarrow> i
     | Blocked DefaultBlocker \<Rightarrow> [] | PersistFailed p i \<Rightarrow> p @ i)"

text \<open>The stacking validation, then the session events and the request for a permit.\<close>

definition session_profile :: "config \<Rightarrow> queued_prd \<Rightarrow> string option \<Rightarrow> string option" where
  "session_profile c q override =
     (case fm_profile (q_fm q) of Some p \<Rightarrow> Some p
      | None \<Rightarrow> (case override of Some p \<Rightarrow> Some p | None \<Rightarrow> mc_profile c))"

definition validate_job :: "config \<Rightarrow> nat \<Rightarrow> job \<Rightarrow> mach \<Rightarrow> mach" where
  "validate_job c j b m =
     (case applyStackedDispatchValidation (mc_stacking c) (jb_prd b) (w_disk (m_world m)) of
        Inl e \<Rightarrow> fail_job j b (blocker_text e) StackingValidation m
      | Inr (q, d) \<Rightarrow>
          (let m1 = on_sched (\<lambda>s. emit (SessionProfile (q_id q) (session_profile c q (jb_override b)))
                        (emit (SessionStart (q_id q)) s)) (m\<lparr>m_world := (m_world m)\<lparr>w_disk := d\<rparr>\<rparr>)
           in set_job j (b\<lparr>jb_prd := q, jb_phase := JAcquire\<rparr>) (m1\<lparr>m_sem := sem_request j (m_sem m1)\<rparr>)))"

definition exit_job :: "nat \<Rightarrow> child_exit \<Rightarrow> job \<Rightarrow> mach \<Rightarrow> mach" where
  "exit_job j x b m =
     (let i = q_id (jb_prd b);
          m1 = (case x of ChildStatus st \<Rightarrow> complete_event i st m | AlreadyClaimed \<Rightarrow> m
                | ChildThrew \<Rightarrow> complete_event i QFailed m);
          m2 = end_job j b m1
      in m2\<lparr>m_sem := the (sem_step (m_sem m2) (Release j))\<rparr>)"

definition failing_job :: "config \<Rightarrow> nat \<Rightarrow> string \<Rightarrow> dispatch_stage \<Rightarrow> job \<Rightarrow> mach \<Rightarrow> mach" where
  "failing_job c j msg stage b m =
     (case failDispatch (mc_env c) (jb_prd b) msg stage (m_sched m, m_world m) of
        (s, w) \<Rightarrow> end_job j b (m\<lparr>m_sched := s, m_world := w\<rparr>))"

section \<open>Steps and runs\<close>

definition with_job :: "nat \<Rightarrow> (job \<Rightarrow> mach \<Rightarrow> mach option) \<Rightarrow> mach \<Rightarrow> mach option" where
  "with_job j f m = (case dget (m_jobs m) j of None \<Rightarrow> None | Some b \<Rightarrow> f b m)"

definition in_phase :: "job_phase \<Rightarrow> (job \<Rightarrow> mach \<Rightarrow> mach option) \<Rightarrow> job \<Rightarrow> mach \<Rightarrow> mach option" where
  "in_phase ph f b m = (if jb_phase b = ph then f b m else None)"

fun mach_step :: "config \<Rightarrow> mach \<Rightarrow> sched_event \<Rightarrow> mach option" where
  "mach_step c m Mutation = Some (add_task False tick m)"
| "mach_step c m (Complete i st) =
     (if st = QFailed then Some (add_task False [CheckRequeued i] m)
      else (case complete_prologue i st (m_sched m) of (s, ts) \<Rightarrow>
              Some (if ts = [] then m\<lparr>m_sched := s\<rparr> else add_task False ts (m\<lparr>m_sched := s\<rparr>))))"
| "mach_step c m PauseEv = Some (on_sched sched_pause m)"
| "mach_step c m ResumeEv =
     (case sched_resume (m_sched m) of (s, trigger) \<Rightarrow>
        Some (if trigger then add_task True tick (m\<lparr>m_sched := s\<rparr>) else m))"
| "mach_step c m AbortEv = Some (m\<lparr>m_aborted := True\<rparr>)"
| "mach_step c m (DiskChange w) = Some (m\<lparr>m_world := w\<rparr>)"
| "mach_step c m (RunTask t) = run_task c t m"
| "mach_step c m (GateAns j ans) = with_job j (in_phase JGate (gate_job c j ans)) m"
| "mach_step c m (RouteAns j ans) = with_job j (in_phase JRoute (route_job c j ans)) m"
| "mach_step c m (ValidateJob j) = with_job j (in_phase JValidate (\<lambda>b m. Some (validate_job c j b m))) m"
| "mach_step c m (SpawnJob j) =
     with_job j (in_phase JAcquire (\<lambda>b m. if j \<in> set (ss_holders (m_sem m))
        then Some (set_job j (b\<lparr>jb_phase := JChild\<rparr>) m) else None)) m"
| "mach_step c m (ExitJob j x) = with_job j (in_phase JChild (\<lambda>b m. Some (exit_job j x b m))) m"
| "mach_step c m (FailJob j) =
     with_job j (\<lambda>b m. case jb_phase b of JFailing msg stage \<Rightarrow> Some (failing_job c j msg stage b m) | _ \<Rightarrow> None) m"

fun mach_run :: "config \<Rightarrow> mach \<Rightarrow> sched_event list \<Rightarrow> mach option" where
  "mach_run c m [] = Some m"
| "mach_run c m (e # es) = (case mach_step c m e of None \<Rightarrow> None | Some m' \<Rightarrow> mach_run c m' es)"

section \<open>What the operations keep\<close>

text \<open>Only launches and the end of a closure change \<open>launching\<close>; the map keeps its keys distinct.\<close>

definition keeps :: "sched \<Rightarrow> sched \<Rightarrow> bool" where
  "keeps s s' \<longleftrightarrow> sd_launching s' = sd_launching s \<and> (sched_ok s \<longrightarrow> sched_ok s')"

lemma keeps_refl [simp, intro]: "keeps s s"
  by (simp add: keeps_def)

lemma keeps_trans: "keeps s s' \<Longrightarrow> keeps s' s'' \<Longrightarrow> keeps s s''"
  by (simp add: keeps_def)

lemma keeps_fold: "(\<And>x s. keeps s (f x s)) \<Longrightarrow> keeps s (fold f xs s)"
  by (induction xs arbitrary: s) (auto intro: keeps_trans)

lemma keeps_fold_fst:
  assumes "\<And>x y. keeps (fst y) (fst (f x y))"
  shows "keeps (fst y) (fst (fold f xs y))"
proof (induction xs arbitrary: y)
  case (Cons x xs)
  from assms Cons.IH show ?case by (simp del: split_paired_All) (rule keeps_trans)
qed simp

named_theorems keeps_intros

lemma keeps_op: "keeps s t \<Longrightarrow> keeps t (f t) \<Longrightarrow> keeps s (f t)"
  by (rule keeps_trans)

lemma keeps_basic:
  "keeps s (emit e s)" "keeps s (set_status i st s)" "keeps s (set_deps i ds s)" "keeps s (new_run i ds s)"
  "keeps s (drop_run i s)" "keeps s (propagateBlocked i s)"
  "keeps s (s\<lparr>sd_finalized := x\<rparr>)" "keeps s (s\<lparr>sd_ordered := y\<rparr>)" "keeps s (s\<lparr>sd_skipped := z\<rparr>)"
  "keeps s (s\<lparr>sd_processed := z\<rparr>)" "keeps s (s\<lparr>sd_suspended := b\<rparr>)" "keeps s (s\<lparr>sd_orphans := os\<rparr>)"
  by (auto simp: keeps_def set_deps_def new_run_def drop_run_def run_of_def emit_def
      intro: distinct_dkeys_dput distinct_dkeys_ddel split: option.splits)

lemmas keeps_ops [keeps_intros] = keeps_basic [THEN keeps_trans [rotated]]

lemma keeps_discover_one [keeps_intros]: "keeps s t \<Longrightarrow> keeps s (discover_one q t)"
  unfolding discover_one_def Let_def
  by (auto split: option.splits intro!: keeps_intros)

lemma keeps_promote_one: "keeps (fst x) (fst (promote_one os rm q x))"
  unfolding promote_one_def Let_def
  by (auto split: option.splits prod.splits if_splits intro!: keeps_intros)

lemma keeps_refresh_one [keeps_intros]: "keeps s t \<Longrightarrow> keeps s (refresh_one q t)"
  unfolding refresh_one_def Let_def
  by (auto intro!: keeps_intros)

lemma keeps_demote_one: "keeps (fst x) (fst (demote_one os rm ids i x))"
  unfolding demote_one_def
  by (auto split: option.splits prod.splits if_splits intro!: keeps_intros)

lemma keeps_reconcile: "keeps s (fst (reconcileQueueState os rm fresh (s, d)))"
proof -
  obtain s1 d1 where p: "fold (promote_one os rm) fresh (s, d) = (s1, d1)" by fastforce
  let ?s2 = "fold refresh_one fresh s1"
  have "keeps s s1"
    using keeps_fold_fst [where f = "promote_one os rm" and y = "(s, d)" and xs = fresh, OF keeps_promote_one] p by simp
  moreover have "keeps s1 ?s2" by (rule keeps_fold) (rule keeps_refresh_one, simp)
  moreover have "keeps ?s2 (fst (fold (demote_one os rm (map q_id fresh)) (running_ids ?s2) (?s2, d1)))"
    using keeps_fold_fst [where f = "demote_one os rm (map q_id fresh)" and y = "(?s2, d1)", OF keeps_demote_one] by simp
  ultimately show ?thesis by (auto simp: reconcileQueueState_def p Let_def intro: keeps_trans)
qed

lemma keeps_rebuild: "keeps s (rebuildDispatchOrder fresh s)"
  unfolding rebuildDispatchOrder_def Let_def
  by (intro keeps_intros keeps_fold keeps_refl)

lemma keeps_discover:
  assumes "discoverNewPrds lc os rm (s, d) = Inr (s', d')"
  shows "keeps s s'"
proof (cases "loadQueue RootDir d")
  case (Inr freshPrds)
  with assms obtain fresh where f: "resolveQueueOrder lc freshPrds = Inr fresh"
    by (auto simp: discoverNewPrds_def split: sum.splits)
  let ?s1 = "fold discover_one fresh s"
  obtain s1 d1 where r: "reconcileQueueState os rm fresh (?s1, d) = (s1, d1)" by fastforce
  have "keeps s ?s1" by (rule keeps_fold) (rule keeps_discover_one, simp)
  moreover have "keeps ?s1 s1" using keeps_reconcile [of ?s1 os rm fresh d] r by simp
  moreover have "s' = rebuildDispatchOrder fresh s1" using assms Inr f r by (simp add: discoverNewPrds_def)
  ultimately show ?thesis using keeps_rebuild [of s1 fresh] by (auto intro: keeps_trans)
qed (use assms in \<open>simp add: discoverNewPrds_def\<close>)

lemma keeps_set_obj [keeps_intros]: "keeps s t \<Longrightarrow> keeps s (set_obj i ref st t)"
  by (auto simp: set_obj_def intro!: keeps_intros)

lemma keeps_epilogue [keeps_intros]: "keeps s t \<Longrightarrow> keeps s (complete_epilogue i st ref t)"
  unfolding complete_epilogue_def Let_def by (auto intro!: keeps_intros)

lemma keeps_prologue: "keeps s (fst (complete_prologue i st s))"
  by (auto simp: complete_prologue_def intro!: keeps_intros split: option.splits prd_status.splits)

lemma keeps_failDispatch: "keeps s (fst (failDispatch env q msg stage (s, w)))"
  unfolding failDispatch_def Let_def
  by (auto split: prod.splits sum.splits intro!: keeps_intros)

lemma keeps_pause: "keeps s (sched_pause s)" and keeps_resume: "keeps s (fst (sched_resume s))"
  by (auto simp: sched_pause_def sched_resume_def intro!: keeps_intros)

section \<open>The invariant\<close>

definition mach_inv :: "nat \<Rightarrow> mach \<Rightarrow> bool" where
  "mach_inv par m \<longleftrightarrow> sem_inv (int par) (m_sem m) \<and> sched_ok (m_sched m) \<and>
     distinct (map fst (m_jobs m)) \<and> (\<forall>j \<in> fst ` set (m_jobs m). j < m_fresh m) \<and>
     (\<forall>j b. dget (m_jobs m) j = Some b \<longrightarrow> jb_phase b = JChild \<longrightarrow> j \<in> set (ss_holders (m_sem m)))"

text \<open>The PRDs with a launch closure, and that \<open>launching\<close> holds exactly these, once each.\<close>

definition job_ids :: "mach \<Rightarrow> prd_id list" where
  "job_ids m = map (\<lambda>(j, b). q_id (jb_prd b)) (m_jobs m)"

definition launch_inv :: "mach \<Rightarrow> bool" where
  "launch_inv m \<longleftrightarrow> distinct (job_ids m) \<and> set (sd_launching (m_sched m)) = set (job_ids m) \<and>
     (\<forall>b \<in> snd ` set (m_jobs m). \<forall>msg. jb_phase b \<noteq> JFailing msg PolicyGateStage)"

lemma mach_frame [simp]:
  "m_jobs (on_sched f m) = m_jobs m" "m_sem (on_sched f m) = m_sem m" "m_fresh (on_sched f m) = m_fresh m"
  "m_sched (on_sched f m) = f (m_sched m)" "m_world (on_sched f m) = m_world m"
  "m_jobs (set_task t r ts m) = m_jobs m" "m_sem (set_task t r ts m) = m_sem m"
  "m_fresh (set_task t r ts m) = m_fresh m" "m_sched (set_task t r ts m) = m_sched m"
  "m_jobs (add_task r ts m) = m_jobs m" "m_sem (add_task r ts m) = m_sem m"
  "m_fresh (add_task r ts m) = Suc (m_fresh m)" "m_sched (add_task r ts m) = m_sched m"
  "m_jobs (set_job j b m) = dput j b (m_jobs m)" "m_sem (set_job j b m) = m_sem m"
  "m_fresh (set_job j b m) = m_fresh m" "m_sched (set_job j b m) = m_sched m"
  "m_jobs (end_job j b m) = ddel j (m_jobs m)" "m_sem (end_job j b m) = m_sem m"
  "m_fresh (end_job j b m) = m_fresh m" "m_sched (end_job j b m) = forget (q_id (jb_prd b)) (m_sched m)"
  by (simp_all add: on_sched_def set_task_def add_task_def set_job_def end_job_def)

lemma sched_ok_forget [simp]: "sched_ok (forget i s) = sched_ok s" "sd_launching (forget i s) = removeAll i (sd_launching s)"
  by (simp_all add: forget_def)

text \<open>A step that leaves the closures and the permits alone.\<close>

definition quiet :: "mach \<Rightarrow> mach \<Rightarrow> bool" where
  "quiet m m' \<longleftrightarrow> m_jobs m' = m_jobs m \<and> m_sem m' = m_sem m \<and> m_fresh m \<le> m_fresh m' \<and> keeps (m_sched m) (m_sched m')"

lemma quiet_inv: "quiet m m' \<Longrightarrow> mach_inv par m \<Longrightarrow> mach_inv par m'"
  by (auto simp: quiet_def mach_inv_def keeps_def)

lemma quiet_launch: "quiet m m' \<Longrightarrow> launch_inv m \<Longrightarrow> launch_inv m'"
  by (simp add: quiet_def launch_inv_def keeps_def job_ids_def)

fun new_jobs :: "nat \<Rightarrow> queued_prd list \<Rightarrow> (nat \<times> job) list" where
  "new_jobs n [] = []"
| "new_jobs n (q # qs) = (n, new_job q) # new_jobs (Suc n) qs"

lemma new_jobs_keys: "map fst (new_jobs n qs) = [n ..< n + length qs]"
  by (induction qs arbitrary: n) (simp_all add: upt_conv_Cons del: upt.simps)

lemma new_jobs_ids: "map (\<lambda>(j, b). q_id (jb_prd b)) (new_jobs n qs) = map q_id qs"
  by (induction qs arbitrary: n) (simp_all add: new_job_def)

lemma new_jobs_phase: "(j, b) \<in> set (new_jobs n qs) \<Longrightarrow> jb_phase b = JGate"
  by (induction qs arbitrary: n) (auto simp: new_job_def)

lemma fold_add_job:
  "m_sched (fold add_job qs m) = m_sched m" "m_sem (fold add_job qs m) = m_sem m"
  "m_fresh (fold add_job qs m) = m_fresh m + length qs"
  "m_jobs (fold add_job qs m) = m_jobs m @ new_jobs (m_fresh m) qs"
  by (induction qs arbitrary: m) (simp_all add: add_job_def)

text \<open>A scan adds one closure per launched PRD.\<close>

definition launches :: "queued_prd list \<Rightarrow> mach \<Rightarrow> mach \<Rightarrow> bool" where
  "launches qs m m' \<longleftrightarrow> m_sem m' = m_sem m \<and> m_fresh m' = m_fresh m + length qs \<and>
     m_jobs m' = m_jobs m @ new_jobs (m_fresh m) qs \<and>
     (sched_ok (m_sched m) \<longrightarrow> sched_ok (m_sched m') \<and> distinct (map q_id qs) \<and>
       (\<forall>q \<in> set qs. q_id q \<notin> set (sd_launching (m_sched m))) \<and>
       set (sd_launching (m_sched m')) = set (sd_launching (m_sched m)) \<union> q_id ` set qs)"

lemma launches_inv:
  assumes l: "launches qs m m'" and inv: "mach_inv par m"
  shows "mach_inv par m'"
proof -
  have jobs: "m_jobs m' = m_jobs m @ new_jobs (m_fresh m) qs" using l by (simp add: launches_def)
  have "map fst (m_jobs m') = map fst (m_jobs m) @ [m_fresh m ..< m_fresh m + length qs]"
    by (simp add: jobs new_jobs_keys)
  moreover have "set (map fst (m_jobs m)) \<inter> {m_fresh m ..< m_fresh m + length qs} = {}"
    using inv by (fastforce simp: mach_inv_def)
  ultimately have "distinct (map fst (m_jobs m'))" using inv by (simp add: mach_inv_def)
  moreover have "fst ` set (m_jobs m') = fst ` set (m_jobs m) \<union> {m_fresh m ..< m_fresh m + length qs}"
    using arg_cong [where f = set, OF new_jobs_keys [of "m_fresh m" qs]] by (simp add: jobs image_Un)
  then have "\<forall>j \<in> fst ` set (m_jobs m'). j < m_fresh m'"
    using inv l by (auto simp: mach_inv_def launches_def)
  moreover have "dget (m_jobs m) j = Some b" if "dget (m_jobs m') j = Some b" "jb_phase b = JChild" for j b
    using that new_jobs_phase [OF map_of_SomeD, of "m_fresh m" qs j b] by (auto simp: jobs map_add_Some_iff)
  moreover have "j \<in> set (ss_holders (m_sem m))" if "dget (m_jobs m) j = Some b" "jb_phase b = JChild" for j b
    using inv that by (simp add: mach_inv_def)
  moreover have "m_sem m' = m_sem m" "sched_ok (m_sched m')" "sem_inv (int par) (m_sem m)"
    using inv l by (simp_all add: mach_inv_def launches_def)
  ultimately show ?thesis unfolding mach_inv_def by metis
qed

lemma launches_launch:
  assumes l: "launches qs m m'" and inv: "launch_inv m" and ok: "sched_ok (m_sched m)"
  shows "launch_inv m'"
proof -
  have jobs: "m_jobs m' = m_jobs m @ new_jobs (m_fresh m) qs" using l by (simp add: launches_def)
  have ids: "job_ids m' = job_ids m @ map q_id qs"
    by (simp add: job_ids_def jobs new_jobs_ids)
  have "\<forall>b \<in> snd ` set (m_jobs m'). \<forall>msg. jb_phase b \<noteq> JFailing msg PolicyGateStage"
    using inv unfolding jobs launch_inv_def by (auto dest!: new_jobs_phase)
  with l inv ok show ?thesis by (auto simp: launch_inv_def ids launches_def)
qed

text \<open>A step of a task is quiet or a scan.\<close>

lemma scan_launches:
  assumes "startReadyPrds_loop sn par ab n (m_sched m) = (s, qs)"
  shows "launches qs m (fold add_job qs (m\<lparr>m_sched := s\<rparr>))"
proof (cases ab)
  case True
  with assms show ?thesis by (simp add: startReadyPrds_loop_def launches_def)
next
  case False
  have "sched_ok s \<and> distinct (map q_id qs) \<and> (\<forall>q \<in> set qs. q_id q \<notin> set (sd_launching (m_sched m))) \<and>
      set (sd_launching s) = set (sd_launching (m_sched m)) \<union> q_id ` set qs"
    if ok: "sched_ok (m_sched m)"
  proof -
    from assms False have "startReadyPrds_loop sn par False n (m_sched m) = (s, qs)" by simp
    then obtain c where "scan_inv sn par n (m_sched m) c" "sc_sched c = s" "sc_launched c = qs"
      using ok by (rule scan_result)
    then show ?thesis unfolding scan_inv_def by blast
  qed
  then show ?thesis by (simp add: launches_def fold_add_job)
qed

lemma run_todo_effect:
  assumes "run_todo c td m = (m', r)"
  shows "quiet m m' \<or> (\<exists>qs. launches qs m m')"
proof (cases td)
  case (CheckRequeued i)
  with assms keeps_prologue [of "m_sched m" i QFailed] show ?thesis
    by (auto simp: run_todo_def quiet_def split: if_splits prod.splits)
next
  case Discover
  with assms show ?thesis
    by (auto simp: run_todo_def quiet_def split: sum.splits prod.splits dest: keeps_discover)
next
  case (Reblock i ref)
  with assms show ?thesis by (auto simp: run_todo_def quiet_def intro!: keeps_intros split: if_splits)
next
  case (Propagate i)
  with assms show ?thesis by (auto simp: run_todo_def quiet_def intro!: keeps_intros)
next
  case ScanBegin
  with assms show ?thesis by (auto simp: run_todo_def quiet_def split: option.splits)
next
  case (ScanLoop n)
  show ?thesis
  proof (cases "read_snapshot (w_disk (m_world m))")
    case (Inr sn)
    obtain s qs where r: "startReadyPrds_loop sn (mc_parallelism c) (m_aborted m) n (m_sched m) = (s, qs)" by fastforce
    with ScanLoop Inr assms have "m' = fold add_job qs (m\<lparr>m_sched := s\<rparr>)" by (simp add: run_todo_def)
    with scan_launches [OF r] show ?thesis by blast
  qed (use ScanLoop assms in \<open>simp add: run_todo_def quiet_def\<close>)
next
  case (Finalize i st ref)
  with assms show ?thesis
    by (auto simp: run_todo_def quiet_def split: sum.splits prod.splits intro!: keeps_intros)
qed

lemma run_task_effect:
  assumes "run_task c t m = Some m'"
  shows "quiet m m' \<or> (\<exists>qs. launches qs m m')"
proof -
  from assms obtain tk td rest where tk: "dget (m_tasks m) t = Some tk" "tk_todo tk = td # rest"
    by (auto simp: run_task_def split: option.splits list.splits)
  obtain m1 r where r: "run_todo c td m = (m1, r)" by fastforce
  have "m_jobs m' = m_jobs m1 \<and> m_sem m' = m_sem m1 \<and> m_fresh m' = m_fresh m1 \<and> keeps (m_sched m1) (m_sched m') \<and>
      sd_launching (m_sched m') = sd_launching (m_sched m1) \<and> (sched_ok (m_sched m1) \<longrightarrow> sched_ok (m_sched m'))"
    using assms tk r by (auto simp: run_task_def Let_def intro!: keeps_intros split: option.splits if_splits)
  with run_todo_effect [OF r] show ?thesis
    by (auto simp: quiet_def launches_def intro: keeps_trans)
qed

subsection \<open>Steps of a closure\<close>

lemma map_dput_same:
  "dget m k = Some v \<Longrightarrow> f (k, w) = f (k, v) \<Longrightarrow> map f (dput k w m) = map f m"
  by (induction m) auto

lemma ddel_filter: "ddel j m = filter (\<lambda>x. fst x \<noteq> j) m"
  by (induction m) auto

lemma keys_ddel: "fst ` set (ddel j m) = fst ` set m - {j}"
  by (auto simp: ddel_filter)

lemma ids_ddel:
  assumes "distinct (map fst m)" and "distinct (map (\<lambda>(j, b). g b) m)" and "dget m j = Some b"
  shows "distinct (map (\<lambda>(j, b). g b) (ddel j m))"
    and "set (map (\<lambda>(j, b). g b) (ddel j m)) = set (map (\<lambda>(j, b). g b) m) - {g b}"
proof -
  show "distinct (map (\<lambda>(j, b). g b) (ddel j m))" using assms(2) by (simp add: ddel_filter distinct_map_filter)
  have mem: "(j, b) \<in> set m" using assms(3) by (rule map_of_SomeD)
  have iff: "x = (j, b) \<longleftrightarrow> fst x = j" "x = (j, b) \<longleftrightarrow> g (snd x) = g b" if x: "x \<in> set m" for x
  proof -
    show "x = (j, b) \<longleftrightarrow> fst x = j"
      using x mem assms(1) inj_onD [of fst "set m" x "(j, b)"] by (auto simp: distinct_map)
    show "x = (j, b) \<longleftrightarrow> g (snd x) = g b"
      using x mem assms(2) inj_onD [of "\<lambda>(j, b). g b" "set m" x "(j, b)"] by (auto simp: distinct_map split_beta)
  qed
  then have "fst x \<noteq> j \<longleftrightarrow> g (snd x) \<noteq> g b" if "x \<in> set m" for x using that by blast
  then have "ddel j m = filter (\<lambda>x. g (snd x) \<noteq> g b) m"
    unfolding ddel_filter by (auto intro!: filter_cong)
  then show "set (map (\<lambda>(j, b). g b) (ddel j m)) = set (map (\<lambda>(j, b). g b) m) - {g b}"
    by (auto simp: split_beta)
qed

text \<open>A step of closure \<open>j\<close> replaces it or ends it.\<close>

definition moved :: "nat \<Rightarrow> job \<Rightarrow> job \<Rightarrow> mach \<Rightarrow> mach \<Rightarrow> bool" where
  "moved j b b' m m' \<longleftrightarrow> dget (m_jobs m) j = Some b \<and> q_id (jb_prd b') = q_id (jb_prd b) \<and>
     m_jobs m' = dput j b' (m_jobs m) \<and> m_fresh m' = m_fresh m \<and> keeps (m_sched m) (m_sched m')"

definition ended :: "nat \<Rightarrow> job \<Rightarrow> mach \<Rightarrow> mach \<Rightarrow> bool" where
  "ended j b m m' \<longleftrightarrow> dget (m_jobs m) j = Some b \<and> m_jobs m' = ddel j (m_jobs m) \<and> m_fresh m' = m_fresh m \<and>
     (\<exists>s. keeps (m_sched m) s \<and> keeps (forget (q_id (jb_prd b)) s) (m_sched m'))"

lemma endedI:
  "dget (m_jobs m) j = Some b \<Longrightarrow> m_jobs m' = ddel j (m_jobs m) \<Longrightarrow> m_fresh m' = m_fresh m \<Longrightarrow>
   keeps (m_sched m) s \<Longrightarrow> m_sched m' = forget (q_id (jb_prd b)) s \<Longrightarrow> ended j b m m'"
  unfolding ended_def by auto

lemma in_dput: "x \<in> set (dput k w m) \<Longrightarrow> x = (k, w) \<or> x \<in> set m"
  by (induction m) (auto split: if_splits)

lemma moved_launch:
  assumes "moved j b b' m m'" and "launch_inv m" and "\<And>msg. jb_phase b' \<noteq> JFailing msg PolicyGateStage"
  shows "launch_inv m'"
proof -
  have "job_ids m' = job_ids m"
    using assms(1) map_dput_same [where f = "\<lambda>(j, b). q_id (jb_prd b)", of "m_jobs m" j b b']
    by (simp add: moved_def job_ids_def)
  moreover have "\<forall>x \<in> snd ` set (m_jobs m'). \<forall>msg. jb_phase x \<noteq> JFailing msg PolicyGateStage"
    using assms by (auto simp: moved_def launch_inv_def dest!: in_dput)
  ultimately show ?thesis using assms(1,2) by (simp add: launch_inv_def moved_def keeps_def)
qed

lemma ended_launch:
  assumes "ended j b m m'" and "launch_inv m" and "distinct (map fst (m_jobs m))"
  shows "launch_inv m'"
proof -
  from assms(1) obtain s where s: "keeps (m_sched m) s" "keeps (forget (q_id (jb_prd b)) s) (m_sched m')"
    and j: "dget (m_jobs m) j = Some b" and jobs: "m_jobs m' = ddel j (m_jobs m)" by (auto simp: ended_def)
  have d: "distinct (map (\<lambda>(j, b). q_id (jb_prd b)) (m_jobs m))"
    using assms(2) by (simp add: launch_inv_def job_ids_def)
  note ids = ids_ddel [OF assms(3), where g = "\<lambda>b. q_id (jb_prd b)", OF d j]
  have "\<forall>x \<in> snd ` set (m_jobs m'). \<forall>msg. jb_phase x \<noteq> JFailing msg PolicyGateStage"
    using assms(2) by (auto simp: jobs launch_inv_def AList.delete_eq)
  moreover have "set (sd_launching (m_sched m')) = set (sd_launching (m_sched m)) - {q_id (jb_prd b)}"
    using s by (simp add: keeps_def)
  ultimately show ?thesis using ids assms(2) by (simp add: launch_inv_def job_ids_def jobs)
qed

lemma moved_inv:
  assumes "moved j b b' m m'" and "mach_inv par m" and "sem_inv (int par) (m_sem m')"
    and "\<And>k. k \<in> set (ss_holders (m_sem m)) \<Longrightarrow> k \<in> set (ss_holders (m_sem m'))"
    and "jb_phase b' = JChild \<Longrightarrow> j \<in> set (ss_holders (m_sem m'))"
  shows "mach_inv par m'"
  using assms unfolding mach_inv_def moved_def
  by (auto simp: keeps_def dget_Some_dkeys split: if_splits dest: in_dput)

lemma ended_inv:
  assumes "ended j b m m'" and "mach_inv par m" and "sem_inv (int par) (m_sem m')"
    and "\<And>k. k \<noteq> j \<Longrightarrow> k \<in> set (ss_holders (m_sem m)) \<Longrightarrow> k \<in> set (ss_holders (m_sem m'))"
  shows "mach_inv par m'"
proof -
  have jobs: "m_jobs m' = ddel j (m_jobs m)" "m_fresh m' = m_fresh m" using assms(1) by (auto simp: ended_def)
  have "sched_ok (m_sched m')" using assms(1,2) by (auto simp: ended_def mach_inv_def keeps_def)
  moreover have "\<forall>k \<in> fst ` set (m_jobs m'). k < m_fresh m'"
    using assms(2) unfolding jobs keys_ddel by (auto simp: mach_inv_def)
  moreover have "distinct (map fst (m_jobs m'))"
    using assms(2) unfolding jobs mach_inv_def by (blast intro: distinct_dkeys_ddel)
  moreover have "\<forall>k x. dget (m_jobs m') k = Some x \<longrightarrow> jb_phase x = JChild \<longrightarrow> k \<in> set (ss_holders (m_sem m'))"
    unfolding jobs dget_ddel using assms(2,4) by (auto simp: mach_inv_def)
  ultimately show ?thesis using assms(3) by (simp add: mach_inv_def)
qed

lemma sem_request_holders:
  assumes "sem_inv n s"
  shows "sem_inv n (sem_request j s)" and "k \<in> set (ss_holders s) \<Longrightarrow> k \<in> set (ss_holders (sem_request j s))"
proof -
  show "sem_inv n (sem_request j s)" by (rule sem_step_inv [OF assms, where e = "Acquire j"]) simp
  show "k \<in> set (ss_holders s) \<Longrightarrow> k \<in> set (ss_holders (sem_request j s))"
    by (simp add: sem_request_def sem_acquire_def)
qed

lemma sem_release_holders:
  assumes "sem_inv n s" and "j \<in> set (ss_holders s)" and "s' = the (sem_step s (Release j))"
  shows "sem_inv n s'" and "k \<noteq> j \<Longrightarrow> k \<in> set (ss_holders s) \<Longrightarrow> k \<in> set (ss_holders s')"
proof -
  obtain sem w where "sem_release (ss_sem s) = (sem, w)" by fastforce
  then obtain s1 where s1: "sem_step s (Release j) = Some s1" using assms(2) by (cases w) auto
  then have "s' = s1" using assms(3) by simp
  show "sem_inv n s'" using sem_step_inv [OF assms(1) s1] \<open>s' = s1\<close> by simp
  show "k \<noteq> j \<Longrightarrow> k \<in> set (ss_holders s) \<Longrightarrow> k \<in> set (ss_holders s')"
    using s1 \<open>s' = s1\<close> assms(2) by (auto simp: in_set_remove1 split: option.splits prod.splits)
qed

text \<open>What each step of a closure does.\<close>

lemma keeps_fold_emit: "keeps s (fold emit es s)"
  by (rule keeps_fold) (rule keeps_basic)

lemma gate_effect:
  assumes "gate_job c j ans b m = Some m'" and "dget (m_jobs m) j = Some b"
  shows "m_sem m' = m_sem m \<and> m_fresh m' = m_fresh m \<and>
    (\<exists>b'. m_jobs m' = dput j b' (m_jobs m) \<and> jb_prd b' = jb_prd b \<and> jb_phase b' \<noteq> JChild \<and>
      (sched_ok (m_sched m) \<longrightarrow> sched_ok (m_sched m')) \<and>
      ((\<exists>msg. jb_phase b' = JFailing msg PolicyGateStage) \<and> mc_gates c \<or>
       (\<forall>msg. jb_phase b' \<noteq> JFailing msg PolicyGateStage) \<and> keeps (m_sched m) (m_sched m')))"
  using assms keeps_fold_emit [of "m_sched m"]
  by (auto simp: gate_job_def Let_def fail_job_def keeps_def split: if_splits sum.splits gate_answer.splits)

lemma routed_effect:
  assumes "dget (m_jobs m) j = Some b" and "keeps (m_sched m) (m_sched m1)" and "m_jobs m1 = m_jobs m"
    and "m_fresh m1 = m_fresh m" and "q_id (jb_prd b1) = q_id (jb_prd b)"
  shows "moved j b (b1\<lparr>jb_phase := JValidate\<rparr>) m (routed j b1 m1) \<or> ended j b m (routed j b1 m1)"
    and "m_sem (routed j b1 m1) = m_sem m1"
  using assms by (auto simp: routed_def moved_def ended_def complete_event_def intro!: keeps_intros)

lemma route_effect:
  assumes "route_job c j ans b m = Some m'" and b: "dget (m_jobs m) j = Some b"
  shows "m_sem m' = m_sem m \<and> (ended j b m m' \<or>
    (\<exists>b'. moved j b b' m m' \<and> jb_phase b' \<noteq> JChild \<and> (\<forall>msg. jb_phase b' \<noteq> JFailing msg PolicyGateStage)))"
proof (cases "\<not> mc_routers c \<or> named_profile (jb_prd b)")
  case True
  then have "m' = routed j b m" using assms(1) by (auto simp: route_job_def split: if_splits)
  with routed_effect [OF b, of m b] show ?thesis by fastforce
next
  case False
  show ?thesis
  proof (cases ans)
    case RouteNone
    then have "m' = routed j b m" using assms(1) False by (auto simp: route_job_def)
    with routed_effect [OF b, of m b] show ?thesis by fastforce
  next
    case (RouteThrow msg)
    then have "m' = fail_job j b msg DispatchStage m" using assms(1) False by (auto simp: route_job_def)
    then show ?thesis using b
      by (intro conjI disjI2 exI [of _ "b\<lparr>jb_phase := JFailing msg DispatchStage\<rparr>"]) (auto simp: fail_job_def moved_def)
  next
    case (RouteSelect p)
    let ?m1 = "on_sched (emit (QueueProfileSelected (q_id (jb_prd b)) p [])) m"
    consider (persisted) q d where "setQueuedPrdProfile (jb_prd b) p (w_disk (m_world m)) = Inr (q, d)"
        "m' = routed j (b\<lparr>jb_prd := q\<rparr>) (?m1\<lparr>m_world := (m_world ?m1)\<lparr>w_disk := d\<rparr>\<rparr>)"
      | (override) "m' = routed j (b\<lparr>jb_override := Some p\<rparr>)
          (on_sched (emit (QueueProfileRouterFailed (q_id (jb_prd b)) p ''persist-failed'')) ?m1)"
      using assms(1) False RouteSelect by (auto simp: route_job_def Let_def split: sum.splits prod.splits)
    then show ?thesis
    proof cases
      case persisted
      then have "q_id q = q_id (jb_prd b)"
        by (auto simp: setQueuedPrdProfile_def Let_def split: sum.splits)
      with routed_effect [OF b, of "?m1\<lparr>m_world := (m_world ?m1)\<lparr>w_disk := d\<rparr>\<rparr>" "b\<lparr>jb_prd := q\<rparr>"] persisted(2)
      show ?thesis by (fastforce intro!: keeps_intros)
    next
      case override
      with routed_effect [OF b, of "on_sched (emit (QueueProfileRouterFailed (q_id (jb_prd b)) p ''persist-failed'')) ?m1"
          "b\<lparr>jb_override := Some p\<rparr>"]
      show ?thesis by (fastforce intro!: keeps_intros)
    qed
  qed
qed

lemma validation_id: "applyStackedDispatchValidation st q d = Inr (q', d') \<Longrightarrow> q_id q' = q_id q"
  by (auto simp: applyStackedDispatchValidation_def setQueuedPrdStackParent_def Let_def
      split: if_splits option.splits sum.splits)

lemma validate_effect:
  assumes b: "dget (m_jobs m) j = Some b" and inv: "sem_inv n (m_sem m)"
  shows "\<exists>b'. moved j b b' m (validate_job c j b m) \<and> jb_phase b' \<noteq> JChild \<and>
      (\<forall>msg. jb_phase b' \<noteq> JFailing msg PolicyGateStage)" (is ?moved)
    and "sem_inv n (m_sem (validate_job c j b m))"
    and "k \<in> set (ss_holders (m_sem m)) \<Longrightarrow> k \<in> set (ss_holders (m_sem (validate_job c j b m)))"
proof -
  consider (err) e where "applyStackedDispatchValidation (mc_stacking c) (jb_prd b) (w_disk (m_world m)) = Inl e"
    | (ok) q d where "applyStackedDispatchValidation (mc_stacking c) (jb_prd b) (w_disk (m_world m)) = Inr (q, d)"
    by (cases "applyStackedDispatchValidation (mc_stacking c) (jb_prd b) (w_disk (m_world m))") auto
  then have "?moved \<and> (m_sem (validate_job c j b m) = m_sem m \<or> m_sem (validate_job c j b m) = sem_request j (m_sem m))"
  proof cases
    case err
    then show ?thesis using b
      by (intro conjI exI [of _ "b\<lparr>jb_phase := JFailing (blocker_text e) StackingValidation\<rparr>"])
         (simp_all add: validate_job_def fail_job_def moved_def)
  next
    case ok
    then show ?thesis using b validation_id [OF ok]
      by (intro conjI exI [of _ "b\<lparr>jb_prd := q, jb_phase := JAcquire\<rparr>"])
         (auto simp: validate_job_def moved_def Let_def intro!: keeps_intros)
  qed
  then show ?moved "sem_inv n (m_sem (validate_job c j b m))"
    "k \<in> set (ss_holders (m_sem m)) \<Longrightarrow> k \<in> set (ss_holders (m_sem (validate_job c j b m)))"
    using inv sem_request_holders [OF inv] by auto
qed

lemma exit_effect:
  assumes "dget (m_jobs m) j = Some b" and "sem_inv n (m_sem m)" and "j \<in> set (ss_holders (m_sem m))"
  shows "ended j b m (exit_job j x b m)" and "sem_inv n (m_sem (exit_job j x b m))"
    and "k \<noteq> j \<Longrightarrow> k \<in> set (ss_holders (m_sem m)) \<Longrightarrow> k \<in> set (ss_holders (m_sem (exit_job j x b m)))"
proof -
  show "ended j b m (exit_job j x b m)"
    using assms(1) by (cases x; intro endedI [where s = "m_sched (case x of ChildStatus st \<Rightarrow> complete_event (q_id (jb_prd b)) st m
        | AlreadyClaimed \<Rightarrow> m | ChildThrew \<Rightarrow> complete_event (q_id (jb_prd b)) QFailed m)"])
      (auto simp: exit_job_def Let_def complete_event_def intro!: keeps_intros)
  have sem: "m_sem (exit_job j x b m) = the (sem_step (m_sem m) (Release j))"
    by (cases x) (simp_all add: exit_job_def Let_def complete_event_def)
  show "sem_inv n (m_sem (exit_job j x b m))"
    "k \<noteq> j \<Longrightarrow> k \<in> set (ss_holders (m_sem m)) \<Longrightarrow> k \<in> set (ss_holders (m_sem (exit_job j x b m)))"
    using sem_release_holders [OF assms(2,3) sem] by auto
qed

lemma failing_effect:
  assumes "dget (m_jobs m) j = Some b"
  shows "ended j b m (failing_job c j msg stage b m) \<and> m_sem (failing_job c j msg stage b m) = m_sem m"
proof -
  obtain s w where r: "failDispatch (mc_env c) (jb_prd b) msg stage (m_sched m, m_world m) = (s, w)" by fastforce
  with keeps_failDispatch [of "m_sched m" "mc_env c" "jb_prd b" msg stage "m_world m"] have "keeps (m_sched m) s" by simp
  with assms r show ?thesis by (auto simp: failing_job_def ended_def)
qed

section \<open>Every step keeps the invariants\<close>

lemma with_jobE:
  assumes "with_job j f m = Some m'"
  obtains b where "dget (m_jobs m) j = Some b" and "f b m = Some m'"
  using assms by (auto simp: with_job_def split: option.splits)

lemma in_phaseE: "in_phase ph f b m = Some m' \<Longrightarrow> jb_phase b = ph \<and> f b m = Some m'"
  by (simp add: in_phase_def split: if_splits)

lemma handler_quiet:
  "quiet m (add_task r ts m)" "quiet m (m\<lparr>m_aborted := True\<rparr>)" "quiet m (m\<lparr>m_world := w\<rparr>)"
  "keeps (m_sched m) s \<Longrightarrow> quiet m (m\<lparr>m_sched := s\<rparr>)"
  "keeps (m_sched m) s \<Longrightarrow> quiet m (add_task r ts (m\<lparr>m_sched := s\<rparr>))"
  "keeps (m_sched m) (f (m_sched m)) \<Longrightarrow> quiet m (on_sched f m)"
  "quiet m m"
  by (simp_all add: quiet_def)

lemma handler_effect:
  assumes "mach_step c m e = Some m'"
    and "e \<in> {Mutation, PauseEv, ResumeEv, AbortEv} \<union> range DiskChange \<union> range (\<lambda>(i, st). Complete i st)"
  shows "quiet m m'"
proof -
  note pre = keeps_prologue [of "m_sched m"] keeps_resume [of "m_sched m"] keeps_pause [of "m_sched m"]
  from assms(2) consider "e = Mutation" | "e = PauseEv" | "e = ResumeEv" | "e = AbortEv" | w where "e = DiskChange w"
    | i st where "e = Complete i st" by auto
  then show ?thesis
  proof cases
    case (6 i st)
    then show ?thesis
    proof (cases "st = QFailed")
      case False
      obtain s ts where r: "complete_prologue i st (m_sched m) = (s, ts)" by fastforce
      then have "keeps (m_sched m) s" using pre(1) [of i st] by simp
      then show ?thesis using assms(1) 6 False r handler_quiet by (cases "ts = []") auto
    qed (use assms(1) handler_quiet in auto)
  next
    case 3
    obtain s t where r: "sched_resume (m_sched m) = (s, t)" by fastforce
    then have "keeps (m_sched m) s" using pre(2) by simp
    then show ?thesis using assms(1) 3 r handler_quiet by (cases t) auto
  next
    case 2
    then have "m' = on_sched sched_pause m" using assms(1) by simp
    then show ?thesis using handler_quiet(6) [of m sched_pause] pre(3) by simp
  qed (use assms(1) handler_quiet in auto)
qed

lemma step_cases:
  obtains (handler) "e \<in> {Mutation, PauseEv, ResumeEv, AbortEv} \<union> range DiskChange \<union> range (\<lambda>(i, st). Complete i st)"
    | (task) t where "e = RunTask t" | (gate) j a where "e = GateAns j a" | (route) j r where "e = RouteAns j r"
    | (validate) j where "e = ValidateJob j" | (spawn) j where "e = SpawnJob j"
    | (exit) j x where "e = ExitJob j x" | (fail) j where "e = FailJob j"
  by (cases e) auto

lemma task_inv:
  assumes "run_task c t m = Some m'"
  shows "mach_inv par m \<Longrightarrow> mach_inv par m'" and "mach_inv par m \<Longrightarrow> launch_inv m \<Longrightarrow> launch_inv m'"
  using run_task_effect [OF assms] quiet_inv quiet_launch launches_inv launches_launch
  by (auto simp: mach_inv_def [of _ m])

lemma spawn_effect:
  assumes "mach_step c m (SpawnJob j) = Some m'"
  obtains b where "moved j b (b\<lparr>jb_phase := JChild\<rparr>) m m'" and "j \<in> set (ss_holders (m_sem m))" and "m_sem m' = m_sem m"
  using assms by (auto simp: with_job_def in_phase_def moved_def split: option.splits if_splits)

lemma fail_step:
  assumes "mach_step c m (FailJob j) = Some m'"
  obtains b msg stage where "dget (m_jobs m) j = Some b" and "m' = failing_job c j msg stage b m"
  using assms by (auto simp: with_job_def split: option.splits job_phase.splits)

lemma gate_mach_inv:
  assumes "gate_job c j ans b m = Some m'" and b: "dget (m_jobs m) j = Some b" and inv: "mach_inv par m"
  shows "mach_inv par m'"
proof -
  from gate_effect [OF assms(1) b] obtain b' where b': "m_jobs m' = dput j b' (m_jobs m)" "jb_phase b' \<noteq> JChild"
    "m_sem m' = m_sem m" "m_fresh m' = m_fresh m" "sched_ok (m_sched m) \<longrightarrow> sched_ok (m_sched m')" by blast
  have "distinct (map fst (m_jobs m'))" using inv unfolding b' mach_inv_def by (blast intro: distinct_dkeys_dput)
  moreover have "\<forall>k \<in> fst ` set (m_jobs m'). k < m_fresh m'"
    using inv dget_Some_dkeys [OF b] unfolding b' set_dkeys_dput by (auto simp: mach_inv_def)
  moreover have "k \<in> set (ss_holders (m_sem m'))" if "dget (m_jobs m') k = Some x" "jb_phase x = JChild" for k x
    using inv that b'(2) unfolding b' dget_dput mach_inv_def by (cases "k = j") auto
  ultimately show ?thesis using inv b' by (simp add: mach_inv_def)
qed

lemma mach_step_inv:
  assumes step: "mach_step c m e = Some m'" and inv: "mach_inv par m"
  shows "mach_inv par m'"
proof -
  have sem: "sem_inv (int par) (m_sem m)" using inv by (simp add: mach_inv_def)
  show ?thesis
  proof (cases e rule: step_cases)
    case handler
    with step inv show ?thesis by (blast intro: quiet_inv handler_effect)
  next
    case (task t)
    with step inv task_inv show ?thesis by simp
  next
    case (gate j a)
    with step obtain b where "dget (m_jobs m) j = Some b" "gate_job c j a b m = Some m'"
      by (auto elim!: with_jobE dest!: in_phaseE)
    with inv gate_mach_inv show ?thesis by blast
  next
    case (route j r)
    with step obtain b where "dget (m_jobs m) j = Some b" "route_job c j r b m = Some m'"
      by (auto elim!: with_jobE dest!: in_phaseE)
    from route_effect [OF this(2,1)] inv sem show ?thesis by (auto intro: moved_inv ended_inv)
  next
    case (validate j)
    with step obtain b where b: "dget (m_jobs m) j = Some b" "m' = validate_job c j b m"
      by (auto elim!: with_jobE dest!: in_phaseE)
    note eff = validate_effect [OF b(1) sem, where c = c, folded b(2)]
    from eff(1) obtain b' where "moved j b b' m m'" "jb_phase b' \<noteq> JChild" by blast
    from moved_inv [OF this(1) inv eff(2)] eff(3) this(2) show ?thesis by blast
  next
    case (spawn j)
    with step obtain b where "moved j b (b\<lparr>jb_phase := JChild\<rparr>) m m'" "j \<in> set (ss_holders (m_sem m))" "m_sem m' = m_sem m"
      by (blast elim: spawn_effect)
    with moved_inv [OF this(1) inv] sem show ?thesis by simp
  next
    case (exit j x)
    with step obtain b where b: "dget (m_jobs m) j = Some b" "jb_phase b = JChild" "m' = exit_job j x b m"
      by (auto elim!: with_jobE dest!: in_phaseE)
    with inv have h: "j \<in> set (ss_holders (m_sem m))" unfolding mach_inv_def by blast
    note eff = exit_effect [OF b(1) sem h, where x = x, folded b(3)]
    from ended_inv [OF eff(1) inv eff(2)] eff(3) show ?thesis by blast
  next
    case (fail j)
    with step obtain b msg stage where "dget (m_jobs m) j = Some b" "m' = failing_job c j msg stage b m"
      by (blast elim: fail_step)
    with failing_effect [OF this(1), of c msg stage] inv sem show ?thesis by (auto intro: ended_inv)
  qed
qed

lemma mach_step_launch:
  assumes step: "mach_step c m e = Some m'" and inv: "mach_inv par m" and launch: "launch_inv m" and gates: "\<not> mc_gates c"
  shows "launch_inv m'"
proof -
  have sem: "sem_inv (int par) (m_sem m)" and keys: "distinct (map fst (m_jobs m))"
    using inv by (simp_all add: mach_inv_def)
  show ?thesis
  proof (cases e rule: step_cases)
    case handler
    with step launch show ?thesis by (blast intro: quiet_launch handler_effect)
  next
    case (task t)
    with step inv launch task_inv(2) show ?thesis by simp
  next
    case (gate j a)
    with step obtain b where b: "dget (m_jobs m) j = Some b" "gate_job c j a b m = Some m'"
      by (auto elim!: with_jobE dest!: in_phaseE)
    with gates have "m' = set_job j (b\<lparr>jb_phase := JRoute\<rparr>) m" by (auto simp: gate_job_def Let_def split: if_splits)
    with b(1) have "moved j b (b\<lparr>jb_phase := JRoute\<rparr>) m m'" by (simp add: moved_def)
    then show ?thesis using launch by (rule moved_launch) simp
  next
    case (route j r)
    with step obtain b where "dget (m_jobs m) j = Some b" "route_job c j r b m = Some m'"
      by (auto elim!: with_jobE dest!: in_phaseE)
    from route_effect [OF this(2,1)] launch keys show ?thesis by (blast intro: moved_launch ended_launch)
  next
    case (validate j)
    with step obtain b where b: "dget (m_jobs m) j = Some b" "m' = validate_job c j b m"
      by (auto elim!: with_jobE dest!: in_phaseE)
    from validate_effect(1) [OF b(1) sem, where c = c, folded b(2)] launch show ?thesis by (blast intro: moved_launch)
  next
    case (spawn j)
    with step obtain b where "moved j b (b\<lparr>jb_phase := JChild\<rparr>) m m'" by (blast elim: spawn_effect)
    then show ?thesis using launch by (rule moved_launch) simp
  next
    case (exit j x)
    with step obtain b where b: "dget (m_jobs m) j = Some b" "jb_phase b = JChild" "m' = exit_job j x b m"
      by (auto elim!: with_jobE dest!: in_phaseE)
    with inv have h: "j \<in> set (ss_holders (m_sem m))" unfolding mach_inv_def by blast
    from ended_launch [OF exit_effect(1) [OF b(1) sem h, where x = x, folded b(3)] launch keys] show ?thesis .
  next
    case (fail j)
    with step obtain b msg stage where "dget (m_jobs m) j = Some b" "m' = failing_job c j msg stage b m"
      by (blast elim: fail_step)
    with failing_effect [OF this(1), of c msg stage] launch keys show ?thesis by (blast intro: ended_launch)
  qed
qed

lemma sched_new_ok: "sched_ok (sched_new qs)" "sd_launching (sched_new qs) = []"
proof -
  have "keeps s (fold (\<lambda>q. new_run (q_id q) (deps_of (q_fm q))) qs s)" for s
    by (rule keeps_fold) (rule keeps_basic)
  then show "sched_ok (sched_new qs)" "sd_launching (sched_new qs) = []"
    by (simp_all add: sched_new_def keeps_def)
qed

lemma mach_start_inv:
  assumes "mach_start c qs w = Inr m"
  shows "mach_inv (mc_parallelism c) m" and "launch_inv m"
proof -
  from assms obtain sem :: "nat semaphore" where s: "sem_new (int (mc_parallelism c)) = Inr sem"
    by (auto simp: mach_start_def split: sum.splits)
  with assms show "launch_inv m" by (auto simp: mach_start_def launch_inv_def job_ids_def sched_new_ok)
  from sem_new_inv [OF s] s assms show "mach_inv (mc_parallelism c) m"
    by (auto simp: mach_start_def mach_inv_def sched_new_ok)
qed

lemma mach_run_inv:
  "mach_run c m es = Some m' \<Longrightarrow> mach_inv par m \<Longrightarrow> mach_inv par m'"
  by (induction c m es rule: mach_run.induct) (auto dest: mach_step_inv split: option.splits)

lemma mach_run_launch:
  "mach_run c m es = Some m' \<Longrightarrow> \<not> mc_gates c \<Longrightarrow> mach_inv par m \<Longrightarrow> launch_inv m \<Longrightarrow> launch_inv m'"
proof (induction c m es rule: mach_run.induct)
  case (2 c m e es)
  then obtain m1 where m1: "mach_step c m e = Some m1" "mach_run c m1 es = Some m'" by (auto split: option.splits)
  from 2(1) [OF m1 2(3) mach_step_inv [OF m1(1) 2(4)] mach_step_launch [OF m1(1) 2(4,5,3)]] show ?case .
qed simp

section \<open>Properties\<close>

definition children :: "mach \<Rightarrow> nat list" where
  "children m = map fst (filter (\<lambda>(j, b). jb_phase b = JChild) (m_jobs m))"

text \<open> C22. However the handlers and the launch closures interleave, and whatever happens to the
  disk, at most \<open>parallelism\<close> child processes run at a time. \<close>
theorem children_bounded:
  assumes "mach_start c qs w = Inr m" and "mach_run c m es = Some m'"
  shows "length (children m') \<le> mc_parallelism c"
proof -
  have inv: "mach_inv (mc_parallelism c) m'"
    using mach_run_inv [OF assms(2)] mach_start_inv(1) [OF assms(1)] by blast
  then have keys: "distinct (map fst (m_jobs m'))" by (simp add: mach_inv_def)
  have "distinct (children m')" using keys by (simp add: children_def distinct_map_filter)
  moreover have "set (children m') \<subseteq> set (ss_holders (m_sem m'))"
  proof
    fix j assume "j \<in> set (children m')"
    then obtain b where "(j, b) \<in> set (m_jobs m')" "jb_phase b = JChild" by (auto simp: children_def)
    with keys have "dget (m_jobs m') j = Some b" by simp
    with inv \<open>jb_phase b = JChild\<close> show "j \<in> set (ss_holders (m_sem m'))" unfolding mach_inv_def by blast
  qed
  ultimately have "length (children m') \<le> length (ss_holders (m_sem m'))"
    by (metis List.finite_set card_length card_mono distinct_card le_trans)
  with inv show ?thesis by (simp add: mach_inv_def sem_inv_def)
qed

definition demo_config :: "bool \<Rightarrow> config" where
  "demo_config gates = \<lparr>mc_parallelism = 1, mc_gates = gates, mc_routers = False, mc_profile = None,
     mc_stacking = False, mc_env = demo_env, mc_os = (\<lambda>_. ESRCH), mc_rm = (\<lambda>_. True), mc_lc = no_dates\<rparr>"

definition queue_world :: world where
  "queue_world = \<lparr>w_disk = (demo_disk [])\<lparr>d_root := Some [(''a'', demo_file []), (''b'', demo_file [])]\<rparr>,
     w_json = [], w_md = []\<rparr>"

definition demo_run :: "bool \<Rightarrow> sched_event list \<Rightarrow> mach option" where
  "demo_run gates es =
     (case mach_start (demo_config gates) [] queue_world of Inl _ \<Rightarrow> None | Inr m \<Rightarrow> mach_run (demo_config gates) m es)"

text \<open>Start, and one launch brought to its child.\<close>

definition first_launch :: "sched_event list" where
  "first_launch = [RunTask 0, RunTask 0, RunTask 0, GateAns 1 (GateAllow []), RouteAns 1 RouteNone,
     ValidateJob 1, SpawnJob 1]"

lemma demo_children: "map_option children (demo_run False first_launch) = Some [1]"
  by code_simp

lemma demo_runE:
  assumes "map_option f (demo_run g es) = Some x"
  obtains m m' where "mach_start (demo_config g) [] queue_world = Inr m"
    and "mach_run (demo_config g) m es = Some m'" and "f m' = x"
  using assms by (auto simp: demo_run_def split: sum.splits)

theorem children_bounded_witness:
  "\<exists>m m'. mach_run (demo_config False) m first_launch = Some m' \<and> children m' = [1] \<and>
     length (children m') \<le> mc_parallelism (demo_config False)"
proof -
  obtain m m' where r: "mach_start (demo_config False) [] queue_world = Inr m"
    "mach_run (demo_config False) m first_launch = Some m'" "children m' = [1]"
    by (rule demo_runE [OF demo_children])
  from children_bounded [OF r(1,2)] r show ?thesis by (intro exI conjI)
qed

text \<open> C23. Without policy gates a PRD has one launch closure at most, and \<open>launching\<close> holds exactly
  the PRDs with one: no tick launches a PRD again before its closure has ended. \<close>
theorem one_closure_per_prd:
  assumes "mach_start c qs w = Inr m" and "mach_run c m es = Some m'" and "\<not> mc_gates c"
  shows "distinct (job_ids m') \<and> set (sd_launching (m_sched m')) = set (job_ids m')"
proof -
  have "launch_inv m'"
    using mach_run_launch [OF assms(2,3)] mach_start_inv [OF assms(1)] by blast
  then show ?thesis by (simp add: launch_inv_def)
qed

lemma demo_ids: "map_option job_ids (demo_run False (first_launch @ [Mutation, RunTask 2, RunTask 2, RunTask 2])) = Some [''a'']"
  by code_simp

theorem one_closure_per_prd_witness:
  "\<exists>m m'. mach_run (demo_config False) m (first_launch @ [Mutation, RunTask 2, RunTask 2, RunTask 2]) = Some m' \<and>
     set (sd_launching (m_sched m')) = {''a''}"
proof -
  obtain m m' where r: "mach_start (demo_config False) [] queue_world = Inr m"
    "mach_run (demo_config False) m (first_launch @ [Mutation, RunTask 2, RunTask 2, RunTask 2]) = Some m'"
    "job_ids m' = [''a'']"
    by (rule demo_runE [OF demo_ids])
  have "\<not> mc_gates (demo_config False)" by (simp add: demo_config_def)
  from one_closure_per_prd [OF r(1,2) this] r show ?thesis by (intro exI conjI) auto
qed

text \<open>
  A blocked PRD leaves \<open>launching\<close> before its failure is recorded. When its file is queued
  again in between, the next tick gives it a second closure.
\<close>

definition requeue_race :: "sched_event list" where
  "requeue_race = [RunTask 0, RunTask 0, RunTask 0, GateAns 1 (GateBlock [] ''no''), DiskChange queue_world,
     Mutation, RunTask 2, RunTask 2, RunTask 2]"

text \<open> With a policy gate the previous property fails: a PRD can have two launch closures. \<close>
theorem policy_gate_second_closure:
  "\<exists>m m'. mach_start (demo_config True) [] queue_world = Inr m \<and>
     mach_run (demo_config True) m requeue_race = Some m' \<and> job_ids m' = [''a'', ''a'']"
proof -
  have "map_option job_ids (demo_run True requeue_race) = Some [''a'', ''a'']" by code_simp
  then show ?thesis by (rule demo_runE) blast
qed

text \<open>Two ticks whose counts are both taken before either launches.\<close>

definition two_ticks :: "sched_event list" where
  "two_ticks = [Mutation, RunTask 0, RunTask 0, RunTask 1, RunTask 1, RunTask 0, RunTask 1]"

text \<open> The capacity test of a tick is not a bound on the PRDs marked running: two interleaved
  ticks with one slot mark two. (The children are bounded by the semaphore.) \<close>
theorem two_ticks_exceed_capacity:
  "\<exists>m m'. mach_start (demo_config False) [] queue_world = Inr m \<and>
     mach_run (demo_config False) m two_ticks = Some m' \<and>
     count_status SRunning (m_sched m') = 2 \<and> mc_parallelism (demo_config False) = 1"
proof -
  have "map_option (\<lambda>m. count_status SRunning (m_sched m)) (demo_run False two_ticks) = Some 2" by code_simp
  moreover have "mc_parallelism (demo_config False) = 1" by (simp add: demo_config_def)
  ultimately show ?thesis by (elim demo_runE) blast
qed

end
