(* ===== verification/Acceptance.thy ===== *)
theory Acceptance
  imports Registry LockFile Events
begin

text \<open>
  The acceptance gate of \<open>prdValidate\<close>: matching the verdicts of the PRD validator with the
  expected criteria (\<open>validation/acceptance-criteria.ts\<close>), resolving unknown ones
  (\<open>validation/acceptance-unknown-resolution.ts\<close>) and the policy for conflicts
  (\<open>orchestrator/acceptance-conflict-policy.ts\<close>). The Markdown normalisation of a
  criterion's text, a chain of regular expressions, is the argument \<open>norm\<close>; nothing below
  depends on what it does.
\<close>

section \<open>Matching verdicts with criteria\<close>

record criterion =
  ec_id :: string
  ec_text :: string

definition starts_with :: "string \<Rightarrow> string \<Rightarrow> bool" where
  "starts_with p s \<longleftrightarrow> take (length p) s = p"

definition id_match :: "criterion \<Rightarrow> criterion_verdict \<Rightarrow> bool" where
  "id_match c v \<longleftrightarrow> (let t = trim (cv_criterion v) in t = ec_id c \<or> starts_with (ec_id c @ '':'') t)"

definition text_match :: "(string \<Rightarrow> string) \<Rightarrow> criterion \<Rightarrow> criterion_verdict \<Rightarrow> bool" where
  "text_match norm c v \<longleftrightarrow> norm (cv_criterion v) = norm (ec_text c)"

definition find_unused :: "(criterion_verdict \<Rightarrow> bool) \<Rightarrow> nat list \<Rightarrow> criterion_verdict list \<Rightarrow> nat option" where
  "find_unused P used vs = find_index (\<lambda>(i, v). i \<notin> set used \<and> P v) (enumerate 0 vs)"

text \<open>The result maps the id of a criterion to the position of its verdict.\<close>

type_synonym matching = "(string \<times> nat option) list"

definition match_id :: "criterion_verdict list \<Rightarrow> criterion \<Rightarrow> matching \<times> nat list \<Rightarrow> matching \<times> nat list" where
  "match_id vs c x =
     (case x of (m, used) \<Rightarrow>
        case find_unused (id_match c) used vs of
          None \<Rightarrow> (m, used)
        | Some i \<Rightarrow> (dput (ec_id c) (Some i) m, i # used))"

definition match_text ::
    "(string \<Rightarrow> string) \<Rightarrow> criterion_verdict list \<Rightarrow> criterion \<Rightarrow> matching \<times> nat list \<Rightarrow> matching \<times> nat list" where
  "match_text norm vs c x =
     (case x of (m, used) \<Rightarrow>
        if dget m (ec_id c) \<noteq> None then (m, used)
        else case find_unused (text_match norm c) used vs of
               None \<Rightarrow> (dput (ec_id c) None m, used)
             | Some i \<Rightarrow> (dput (ec_id c) (Some i) m, i # used))"

definition matchVerdictsToExpected :: "(string \<Rightarrow> string) \<Rightarrow> criterion list \<Rightarrow> criterion_verdict list \<Rightarrow> matching" where
  "matchVerdictsToExpected norm expected vs =
     fst (fold (match_text norm vs) expected (fold (match_id vs) expected ([], [])))"

definition missing_verdict :: "criterion list \<Rightarrow> string \<Rightarrow> criterion_verdict" where
  "missing_verdict expected i =
     (let c = the (List.find (\<lambda>e. ec_id e = i) expected)
      in \<lparr>cv_criterion = ec_text c, cv_verdict = VUnknown,
          cv_evidence = ''Validator did not provide evidence for expected criterion '' @ i @ '': '' @ ec_text c\<rparr>)"

definition synthesizeMissingVerdicts ::
    "(string \<Rightarrow> string) \<Rightarrow> criterion list \<Rightarrow> criterion_verdict list \<Rightarrow> criterion_verdict list" where
  "synthesizeMissingVerdicts norm expected vs =
     vs @ map (\<lambda>(i, _). missing_verdict expected i)
       (filter (\<lambda>(_, v). v = None) (matchVerdictsToExpected norm expected vs))"

definition all_pass :: "criterion_verdict list \<Rightarrow> bool" where
  "all_pass vs \<longleftrightarrow> vs \<noteq> [] \<and> list_all (\<lambda>v. cv_verdict v = VPass) vs"

definition has_waiver :: "string list \<Rightarrow> bool" where
  "has_waiver ws \<longleftrightarrow> list_ex (\<lambda>w. trim w \<noteq> []) ws"

section \<open>Unknown verdicts\<close>

datatype resolver_evidence =
    FileEvidence string string
  | CommandEvidence "string list" string

record resolution =
  rs_criterion :: string
  rs_pass :: bool
  rs_evidence :: resolver_evidence

record cmd_evidence =
  ce_command :: string
  ce_exitCode :: int
  ce_output :: string

definition verdict_of :: "(string \<Rightarrow> string) \<Rightarrow> criterion list \<Rightarrow> criterion_verdict list \<Rightarrow> criterion \<Rightarrow> nat option" where
  "verdict_of norm expected vs c =
     (case dget (matchVerdictsToExpected norm expected vs) (ec_id c) of Some (Some i) \<Rightarrow> Some i | _ \<Rightarrow> None)"

definition getExpectedUnknownCriteria ::
    "(string \<Rightarrow> string) \<Rightarrow> criterion list \<Rightarrow> criterion_verdict list \<Rightarrow> criterion list" where
  "getExpectedUnknownCriteria norm expected vs =
     filter (\<lambda>c. case verdict_of norm expected vs c of Some i \<Rightarrow> cv_verdict (vs ! i) = VUnknown | None \<Rightarrow> False) expected"

definition shouldRunAcceptanceUnknownResolver ::
    "(string \<Rightarrow> string) \<Rightarrow> bool option \<Rightarrow> criterion list option \<Rightarrow> acceptance_event \<Rightarrow> cmd_evidence list option \<Rightarrow> bool" where
  "shouldRunAcceptanceUnknownResolver norm prdPassed expected ev commands \<longleftrightarrow>
     prdPassed = Some True \<and>
     (case expected of None \<Rightarrow> False
      | Some es \<Rightarrow> es \<noteq> [] \<and> list_all (\<lambda>v. cv_verdict v \<noteq> VFail) (ae_verdicts ev) \<and>
          (case commands of None \<Rightarrow> True | Some cs \<Rightarrow> list_all (\<lambda>c. ce_exitCode c = 0) cs) \<and>
          getExpectedUnknownCriteria norm es (ae_verdicts ev) \<noteq> [])"

fun join_with :: "string \<Rightarrow> string list \<Rightarrow> string" where
  "join_with sep [] = []"
| "join_with sep [x] = x"
| "join_with sep (x # y # xs) = x @ sep @ join_with sep (y # xs)"

definition formatResolutionEvidence :: "resolver_evidence \<Rightarrow> string" where
  "formatResolutionEvidence e =
     (case e of
        FileEvidence path body \<Rightarrow> ''Acceptance unknown resolver file evidence ('' @ path @ ''): '' @ body
      | CommandEvidence argv body \<Rightarrow> ''Acceptance unknown resolver command evidence ('' @ join_with '' '' argv @ ''): '' @ body)"

text \<open>\<open>mergeAcceptanceUnknownResolutions\<close>. A later resolution for a criterion wins, as in the
  \<open>Map\<close>; the error names the criterion whose verdict was not unknown.\<close>

definition resolution_for :: "resolution list \<Rightarrow> string \<Rightarrow> resolution option" where
  "resolution_for rs i = List.find (\<lambda>r. rs_criterion r = i) (rev rs)"

definition resolved_verdict :: "criterion \<Rightarrow> resolution \<Rightarrow> criterion_verdict" where
  "resolved_verdict c r = \<lparr>cv_criterion = ec_text c, cv_verdict = (if rs_pass r then VPass else VFail),
     cv_evidence = formatResolutionEvidence (rs_evidence r)\<rparr>"

fun merge_each ::
    "criterion_verdict list \<Rightarrow> (criterion \<Rightarrow> nat option) \<Rightarrow> resolution list \<Rightarrow> criterion list
     \<Rightarrow> criterion_verdict list \<Rightarrow> (string, criterion_verdict list) result" where
  "merge_each vs at rs [] out = Inr out"
| "merge_each vs at rs (c # cs) out =
     (case (resolution_for rs (ec_id c), at c) of
        (Some r, Some i) \<Rightarrow>
          if cv_verdict (vs ! i) \<noteq> VUnknown then Inl (ec_id c)
          else merge_each vs at rs cs (out[i := resolved_verdict c r])
      | _ \<Rightarrow> merge_each vs at rs cs out)"

definition mergeAcceptanceUnknownResolutions ::
    "(string \<Rightarrow> string) \<Rightarrow> acceptance_event \<Rightarrow> criterion list \<Rightarrow> resolution list \<Rightarrow> (string, acceptance_event) result" where
  "mergeAcceptanceUnknownResolutions norm ev expected rs =
     (if rs = [] then Inr (ev\<lparr>ae_passed := all_pass (ae_verdicts ev)\<rparr>)
      else case merge_each (ae_verdicts ev) (verdict_of norm expected (ae_verdicts ev)) rs expected (ae_verdicts ev) of
             Inl e \<Rightarrow> Inl e
           | Inr vs \<Rightarrow> Inr (ev\<lparr>ae_verdicts := vs, ae_passed := all_pass vs\<rparr>))"

definition hasUnresolvedAcceptanceUnknowns :: "(string \<Rightarrow> string) \<Rightarrow> acceptance_event \<Rightarrow> criterion list \<Rightarrow> bool" where
  "hasUnresolvedAcceptanceUnknowns norm ev expected \<longleftrightarrow> getExpectedUnknownCriteria norm expected (ae_verdicts ev) \<noteq> []"

section \<open>Conflicts between criteria\<close>

datatype conflict_policy = PolicyManual | PolicyAutoWaiveNarrow | PolicyFail

definition acceptanceEventPassed :: "acceptance_event \<Rightarrow> bool" where
  "acceptanceEventPassed ev \<longleftrightarrow> ae_passed ev \<and> ae_verdicts ev \<noteq> [] \<and> (all_pass (ae_verdicts ev) \<or> has_waiver (ae_waivers ev))"

definition non_passing :: "acceptance_event \<Rightarrow> criterion_verdict list" where
  "non_passing ev = filter (\<lambda>v. cv_verdict v \<noteq> VPass) (ae_verdicts ev)"

text \<open>The \<open>Map\<close> keeps the last conflict of a criterion.\<close>

definition conflict_for :: "acceptance_event \<Rightarrow> criterion_verdict \<Rightarrow> criteria_conflict option" where
  "conflict_for ev v = List.find (\<lambda>c. cc_criterion c = cv_criterion v) (rev (ae_conflicts ev))"

definition waivable :: "acceptance_event \<Rightarrow> criterion_verdict \<Rightarrow> bool" where
  "waivable ev v \<longleftrightarrow> (case conflict_for ev v of Some c \<Rightarrow> cc_scope c = ScopeNarrow \<and> cc_revise c | None \<Rightarrow> False)"

definition canAutoWaiveAcceptanceConflicts :: "acceptance_event \<Rightarrow> cmd_evidence list option \<Rightarrow> bool" where
  "canAutoWaiveAcceptanceConflicts ev commands \<longleftrightarrow>
     (case commands of
        None \<Rightarrow> False
      | Some cs \<Rightarrow> cs \<noteq> [] \<and> list_all (\<lambda>c. ce_exitCode c = 0) cs \<and>
          non_passing ev \<noteq> [] \<and> list_all (waivable ev) (non_passing ev))"

definition conflict_waiver :: "criteria_conflict \<Rightarrow> string" where
  "conflict_waiver c = ''Acceptance criterion conflict ('' @ cc_criterion c @ ''): '' @ cc_evidence c @
     '' Conflicts with: '' @ cc_conflictsWith c"

definition applyAcceptanceConflictPolicy ::
    "conflict_policy option \<Rightarrow> cmd_evidence list option \<Rightarrow> acceptance_event \<Rightarrow> acceptance_event \<times> string option" where
  "applyAcceptanceConflictPolicy configured commands ev =
     (if non_passing ev = [] \<or> ae_conflicts ev = [] \<or> acceptanceEventPassed ev then (ev, None)
      else let policy = (case configured of Some p \<Rightarrow> p | None \<Rightarrow> PolicyManual)
           in if policy = PolicyAutoWaiveNarrow \<and> canAutoWaiveAcceptanceConflicts ev commands
              then (ev\<lparr>ae_passed := True, ae_waivers := ae_waivers ev @ map conflict_waiver (ae_conflicts ev)\<rparr>,
                    Some ''Acceptance criteria conflict auto-waived'')
              else if policy = PolicyManual
              then (ev, Some ''Acceptance criteria conflict detected'')
              else (ev, None))"

definition buildAcceptanceValidationEvents ::
    "conflict_policy option \<Rightarrow> cmd_evidence list option \<Rightarrow> acceptance_event \<Rightarrow> event list \<times> bool" where
  "buildAcceptanceValidationEvents configured commands ev =
     (case applyAcceptanceConflictPolicy configured commands ev of
        (ev', msg) \<Rightarrow>
          ((case msg of Some m \<Rightarrow> [PlanningProgress m, AcceptanceValidationComplete ev']
            | None \<Rightarrow> [AcceptanceValidationComplete ev']), acceptanceEventPassed ev'))"

section \<open>The matching is sound\<close>

lemma find_index_SomeD: "find_index P xs = Some i \<Longrightarrow> i < length xs \<and> P (xs ! i)"
  by (induction xs arbitrary: i) (auto split: if_splits)

lemma find_unused_SomeD:
  assumes "find_unused P used vs = Some i"
  shows "i < length vs \<and> P (vs ! i) \<and> i \<notin> set used"
  using find_index_SomeD [OF assms [unfolded find_unused_def]] by (auto simp: nth_enumerate_eq)

definition matching_inv ::
    "(string \<Rightarrow> string) \<Rightarrow> criterion list \<Rightarrow> criterion_verdict list \<Rightarrow> matching \<times> nat list \<Rightarrow> bool" where
  "matching_inv norm expected vs x \<longleftrightarrow> distinct (map fst (fst x)) \<and>
     (\<forall>i k. dget (fst x) i = Some (Some k) \<longrightarrow> k \<in> set (snd x) \<and> k < length vs \<and>
        (\<exists>c \<in> set expected. ec_id c = i \<and> (id_match c (vs ! k) \<or> text_match norm c (vs ! k)))) \<and>
     (\<forall>i j k. dget (fst x) i = Some (Some k) \<longrightarrow> dget (fst x) j = Some (Some k) \<longrightarrow> i = j)"

lemma matching_invD:
  assumes "matching_inv norm expected vs (m, used)" and "dget m i = Some (Some k)"
  shows "k < length vs" and "\<exists>c \<in> set expected. ec_id c = i \<and> (id_match c (vs ! k) \<or> text_match norm c (vs ! k))"
  using assms by (simp_all add: matching_inv_def)

lemma matching_inv_dput:
  assumes "matching_inv norm expected vs (m, used)" and "c \<in> set expected"
    and "k < length vs" and "k \<notin> set used" and "id_match c (vs ! k) \<or> text_match norm c (vs ! k)"
  shows "matching_inv norm expected vs (dput (ec_id c) (Some k) m, k # used)"
  using assms unfolding matching_inv_def by auto

lemma match_id_inv:
  "matching_inv norm expected vs x \<Longrightarrow> c \<in> set expected \<Longrightarrow> matching_inv norm expected vs (match_id vs c x)"
  by (auto simp: match_id_def intro!: matching_inv_dput dest: find_unused_SomeD split: prod.splits option.splits)

lemma match_text_inv:
  assumes "matching_inv norm expected vs x" and "c \<in> set expected"
  shows "matching_inv norm expected vs (match_text norm vs c x)"
proof -
  obtain m used where x: "x = (m, used)" by fastforce
  have "matching_inv norm expected vs (dput (ec_id c) None m, used)" if "dget m (ec_id c) = None"
    using assms that unfolding matching_inv_def x by auto
  with assms show ?thesis
    unfolding x by (auto simp: match_text_def intro!: matching_inv_dput dest: find_unused_SomeD split: option.splits)
qed

lemma fold_invariant:
  "P x \<Longrightarrow> (\<And>c x. c \<in> set cs \<Longrightarrow> P x \<Longrightarrow> P (f c x)) \<Longrightarrow> P (fold f cs x)"
  by (induction cs arbitrary: x) auto

lemma match_text_dom:
  "i \<in> fst ` set (fst x) \<or> i = ec_id c \<Longrightarrow> i \<in> fst ` set (fst (match_text norm vs c x))"
  by (auto simp: match_text_def dest: dget_Some_dkeys split: prod.splits option.splits)

lemma fold_match_text_dom:
  "i \<in> fst ` set (fst x) \<or> i \<in> ec_id ` set cs \<Longrightarrow> i \<in> fst ` set (fst (fold (match_text norm vs) cs x))"
proof (induction cs arbitrary: x)
  case (Cons c cs)
  from Cons.prems have "i \<in> fst ` set (fst (match_text norm vs c x)) \<or> i \<in> ec_id ` set cs"
    using match_text_dom [of i x c norm vs] by auto
  then show ?case using Cons.IH [of "match_text norm vs c x"] by simp
qed simp

lemma matching_sound:
  assumes "m = matchVerdictsToExpected norm expected vs"
  obtains used where "matching_inv norm expected vs (m, used)" and "ec_id ` set expected \<subseteq> fst ` set m"
proof -
  let ?x = "fold (match_id vs) expected ([], [])"
  let ?y = "fold (match_text norm vs) expected ?x"
  have "matching_inv norm expected vs ?x"
    by (rule fold_invariant) (simp_all add: match_id_inv, simp add: matching_inv_def)
  then have inv: "matching_inv norm expected vs ?y" by (rule fold_invariant) (rule match_text_inv)
  have m: "m = fst ?y" using assms by (simp add: matchVerdictsToExpected_def)
  have "ec_id ` set expected \<subseteq> fst ` set m"
  proof
    fix i assume "i \<in> ec_id ` set expected"
    then show "i \<in> fst ` set m" unfolding m by (intro fold_match_text_dom disjI2)
  qed
  moreover have "matching_inv norm expected vs (m, snd ?y)" using inv m by simp
  ultimately show thesis by (rule that [rotated])
qed

section \<open>Properties\<close>

text \<open> A build whose verdicts all pass has examined every expected criterion: each is matched,
  by id or by text, with a passing verdict of the validator, and no verdict counts for two. \<close>
theorem accepted_criteria_examined:
  assumes "distinct (map ec_id expected)" and "all_pass (synthesizeMissingVerdicts norm expected vs)"
  shows "\<exists>f. inj_on f (ec_id ` set expected) \<and> (\<forall>c \<in> set expected. f (ec_id c) < length vs \<and>
    cv_verdict (vs ! f (ec_id c)) = VPass \<and> (id_match c (vs ! f (ec_id c)) \<or> text_match norm c (vs ! f (ec_id c))))"
proof -
  define m where "m = matchVerdictsToExpected norm expected vs"
  from matching_sound [OF m_def] obtain used where
    inv: "matching_inv norm expected vs (m, used)" and dom: "ec_id ` set expected \<subseteq> fst ` set m" by blast
  have pass: "cv_verdict v = VPass" if "v \<in> set (synthesizeMissingVerdicts norm expected vs)" for v
    using assms(2) that by (simp add: all_pass_def list_all_iff)
  have matched: "\<exists>k. dget m i = Some (Some k)" if i: "i \<in> ec_id ` set expected" for i
  proof -
    from dom i obtain v where v: "dget m i = Some v" by (metis dget_None_iff not_Some_eq subsetD)
    have "v \<noteq> None"
    proof
      assume "v = None"
      with v have "(i, None) \<in> set m" by (simp add: map_of_SomeD)
      then have "missing_verdict expected i \<in> set (synthesizeMissingVerdicts norm expected vs)"
        by (force simp: synthesizeMissingVerdicts_def m_def)
      with pass show False by (fastforce simp: missing_verdict_def Let_def)
    qed
    with v show ?thesis by auto
  qed
  let ?f = "\<lambda>i. the (the (dget m i))"
  have "inj_on ?f (ec_id ` set expected)"
  proof (rule inj_onI)
    fix i j assume ij: "i \<in> ec_id ` set expected" "j \<in> ec_id ` set expected" "?f i = ?f j"
    with matched obtain k l where "dget m i = Some (Some k)" "dget m j = Some (Some l)" by blast
    with ij(3) inv show "i = j" unfolding matching_inv_def by (metis fst_conv option.sel)
  qed
  moreover have "?f (ec_id c) < length vs \<and> cv_verdict (vs ! ?f (ec_id c)) = VPass \<and>
      (id_match c (vs ! ?f (ec_id c)) \<or> text_match norm c (vs ! ?f (ec_id c)))" if c: "c \<in> set expected" for c
  proof -
    from matched c obtain k where k: "dget m (ec_id c) = Some (Some k)" by blast
    from matching_invD [OF inv k] obtain c' where c': "c' \<in> set expected" "ec_id c' = ec_id c" "k < length vs"
      "id_match c' (vs ! k) \<or> text_match norm c' (vs ! k)" by blast
    moreover have "c' = c" using assms(1) c c' by (auto simp: distinct_map dest: inj_onD)
    moreover have "cv_verdict (vs ! k) = VPass"
      using \<open>k < length vs\<close> by (intro pass) (simp add: synthesizeMissingVerdicts_def)
    ultimately show ?thesis using k by simp
  qed
  ultimately show ?thesis by blast
qed

definition demo_criteria :: "criterion list" where
  "demo_criteria = [\<lparr>ec_id = ''ac-001'', ec_text = ''x''\<rparr>, \<lparr>ec_id = ''ac-002'', ec_text = ''y''\<rparr>]"

definition demo_verdicts :: "criterion_verdict list" where
  "demo_verdicts = [\<lparr>cv_criterion = ''y'', cv_verdict = VPass, cv_evidence = ''e''\<rparr>,
     \<lparr>cv_criterion = ''ac-001: x'', cv_verdict = VPass, cv_evidence = ''e''\<rparr>]"

theorem accepted_criteria_examined_witness:
  "\<exists>f. inj_on f {''ac-001'', ''ac-002''} \<and> f ''ac-001'' < length demo_verdicts"
proof -
  have "all_pass (synthesizeMissingVerdicts (\<lambda>s. s) demo_criteria demo_verdicts)" by code_simp
  moreover have "distinct (map ec_id demo_criteria)" by (simp add: demo_criteria_def)
  ultimately show ?thesis
    using accepted_criteria_examined [of demo_criteria "\<lambda>s. s" demo_verdicts] by (auto simp: demo_criteria_def)
qed

text \<open> C25. The conflict policy accepts an event only if every verdict passes, or a waiver was
  given, or the policy waives narrow conflicts, every command of the last validation exited
  0 and every criterion that does not pass has a narrow conflict that asks for its revision. \<close>
theorem acceptance_gate_sound:
  assumes "buildAcceptanceValidationEvents configured commands ev = (out, True)"
  shows "ae_verdicts ev \<noteq> [] \<and> (all_pass (ae_verdicts ev) \<or> has_waiver (ae_waivers ev) \<or>
    configured = Some PolicyAutoWaiveNarrow \<and>
    (\<exists>cs. commands = Some cs \<and> cs \<noteq> [] \<and> list_all (\<lambda>c. ce_exitCode c = 0) cs) \<and>
    (\<forall>v \<in> set (ae_verdicts ev). cv_verdict v \<noteq> VPass \<longrightarrow>
       (\<exists>c \<in> set (ae_conflicts ev). cc_criterion c = cv_criterion v \<and> cc_scope c = ScopeNarrow \<and> cc_revise c)))"
proof -
  obtain ev' msg where r: "applyAcceptanceConflictPolicy configured commands ev = (ev', msg)" by fastforce
  with assms have acc: "acceptanceEventPassed ev'" by (simp add: buildAcceptanceValidationEvents_def)
  show ?thesis
  proof (cases "acceptanceEventPassed ev")
    case True
    then show ?thesis by (auto simp: acceptanceEventPassed_def)
  next
    case False
    with acc have "ev' \<noteq> ev" by blast
    with r have auto_waive: "configured = Some PolicyAutoWaiveNarrow" "canAutoWaiveAcceptanceConflicts ev commands"
      "ae_verdicts ev' = ae_verdicts ev"
      by (auto simp: applyAcceptanceConflictPolicy_def Let_def split: if_splits option.splits)
    have "\<exists>c \<in> set (ae_conflicts ev). cc_criterion c = cv_criterion v \<and> cc_scope c = ScopeNarrow \<and> cc_revise c"
      if w: "waivable ev v" for v
    proof -
      from w obtain c where c: "conflict_for ev v = Some c" "cc_scope c = ScopeNarrow" "cc_revise c"
        by (auto simp: waivable_def split: option.splits)
      then obtain k where "k < length (rev (ae_conflicts ev))" "c = rev (ae_conflicts ev) ! k" "cc_criterion c = cv_criterion v"
        by (auto simp: conflict_for_def find_Some_iff)
      then have "c \<in> set (ae_conflicts ev)" by (metis nth_mem set_rev)
      with c \<open>cc_criterion c = cv_criterion v\<close> show ?thesis by blast
    qed
    with auto_waive acc show ?thesis
      by (auto simp: canAutoWaiveAcceptanceConflicts_def acceptanceEventPassed_def list_all_iff non_passing_def
          split: option.splits)
  qed
qed

definition demo_acceptance :: acceptance_event where
  "demo_acceptance = \<lparr>ae_passed = True, ae_verdicts = demo_verdicts, ae_waivers = [], ae_conflicts = [], ae_source = None\<rparr>"

theorem acceptance_gate_sound_witness:
  "\<exists>out. buildAcceptanceValidationEvents None None demo_acceptance = (out, True) \<and> ae_verdicts demo_acceptance \<noteq> []"
proof -
  have "snd (buildAcceptanceValidationEvents None None demo_acceptance)" by code_simp
  then obtain out where r: "buildAcceptanceValidationEvents None None demo_acceptance = (out, True)"
    by (metis (full_types) prod.collapse)
  from acceptance_gate_sound [OF r] r show ?thesis by blast
qed

end
