(* ===== verification/BuildPhases.thy ===== *)
theory BuildPhases
  imports Acceptance StackState PlanState
begin

text \<open>
  The phases after \<open>executePlans\<close> (\<open>orchestrator/phases.ts\<close> from \<open>validate\<close> on, and
  \<open>Orchestrator.execute\<close>): validation commands with fix cycles, PRD validation with gap
  closing and the acceptance gate, recording the artifact, landing. What the phases ask of
  git, of shells, of agents and of the registry files is answered by the fields of
  \<open>build_env\<close>; each question is asked at its own time, so an answer may change from one
  question to the next.
\<close>

section \<open>State and environment\<close>

datatype exn = AbortError | Err string

record validation_policy =
  vp_allowNoCommands :: bool
  vp_noCommandsReason :: "string option"
  vp_allowNoAcceptanceCriteria :: bool
  vp_noAcceptanceCriteriaReason :: "string option"
  vp_conflictPolicy :: "conflict_policy option"

record cmd_result =
  cr_timedOut :: bool
  cr_exitCode :: int
  cr_stdout :: string
  cr_stderr :: string
  cr_pid :: "int option"

record landing_result =
  lr_succeeded :: bool
  lr_prUrl :: "string option"
  lr_freshnessRetry :: bool

datatype sync_answer = SyncOk string | SyncFailed string | SyncThrew exn

record build_env =
  be_postMerge :: "string list option"
  be_validate :: "string list option"
  be_timeout :: "int option"
  be_maxRetries :: nat
  be_policy :: "validation_policy option"
  be_action :: landing_action
  be_feature :: string
  be_base :: string
  be_expected :: "criterion list option"
  be_minPercent :: nat
  be_prdId :: "prd_id option"
  be_stack :: "stack_context option"
  be_provider :: bool
  be_norm :: "string \<Rightarrow> string"
  be_now :: "nat \<Rightarrow> string"
  be_aborted :: "nat \<Rightarrow> bool"
  be_dirty :: "nat \<Rightarrow> string list option"
  be_sha :: "nat \<Rightarrow> string option"
  be_exec :: "nat \<Rightarrow> string \<Rightarrow> cmd_result"
  be_fixer :: "(nat \<Rightarrow> cmd_evidence list \<Rightarrow> nat \<Rightarrow> event list \<times> exn option) option"
  be_prdValidator :: "(nat \<Rightarrow> cmd_evidence list option \<Rightarrow> event list \<times> exn option) option"
  be_gapCloser :: "(nat \<Rightarrow> prd_gap list \<Rightarrow> nat option \<Rightarrow> event list \<times> exn option) option"
  be_resolver :: "(nat \<Rightarrow> criterion list \<Rightarrow> criterion_verdict list \<Rightarrow> event list \<times> (exn, resolution list option) result) option"
  be_gitStatus :: "nat \<Rightarrow> string"
  be_registry :: "nat \<Rightarrow> reg_error option"
  be_sync :: "nat \<Rightarrow> event list \<times> sync_answer"
  be_stackLanding :: "nat \<Rightarrow> event list \<times> exn option"
  be_gates :: bool
  be_policyEvidence :: "nat \<Rightarrow> string option"
  be_gate :: "nat \<Rightarrow> event list \<times> string option"
  be_landing :: "nat \<Rightarrow> bool \<Rightarrow> event list \<times> (exn, landing_result) result"

record build =
  bd_state :: eforge_state
  bd_out :: "event list"
  bd_evidence :: "cmd_evidence list option"
  bd_gapClosed :: bool
  bd_landed :: bool
  bd_synced :: bool
  bd_time :: nat
  bd_artifacts :: "artifact list reg_file"
  bd_layers :: "stack_layer list reg_file"

text \<open>A phase ends normally or throws; what it did before stays done.\<close>

type_synonym phase = "build \<Rightarrow> build \<times> exn option"

definition followed_by :: "phase \<Rightarrow> phase \<Rightarrow> phase" where
  "followed_by p q b = (case p b of (b', None) \<Rightarrow> q b' | (b', Some e) \<Rightarrow> (b', Some e))"

definition yields :: "event list \<Rightarrow> build \<Rightarrow> build" where
  "yields es b = b\<lparr>bd_out := bd_out b @ es\<rparr>"

definition tick_time :: "build \<Rightarrow> build" where
  "tick_time b = b\<lparr>bd_time := Suc (bd_time b)\<rparr>"

definition fail_build :: "build \<Rightarrow> build" where
  "fail_build b = b\<lparr>bd_state := (bd_state b)\<lparr>es_status := RunFailed, es_ended := True\<rparr>\<rparr>"

definition build_failed :: "build \<Rightarrow> bool" where
  "build_failed b \<longleftrightarrow> es_status (bd_state b) = RunFailed"

definition unless_failed :: "phase \<Rightarrow> phase" where
  "unless_failed p b = (if build_failed b then (b, None) else p b)"

definition all_merged :: "build \<Rightarrow> bool" where
  "all_merged b \<longleftrightarrow> list_all (\<lambda>p. ps_status p = PMerged) (dvals (es_plans (bd_state b)))"

definition aborted :: "build_env \<Rightarrow> build \<Rightarrow> bool" where
  "aborted env b \<longleftrightarrow> be_aborted env (bd_time b)"

definition opt_list :: "'a list option \<Rightarrow> 'a list" where
  "opt_list x = (case x of Some xs \<Rightarrow> xs | None \<Rightarrow> [])"

definition landing_skipped :: "build_env \<Rightarrow> string \<Rightarrow> event list" where
  "landing_skipped env reason =
     LandingSkipped (be_action env) (be_feature env) (be_base env) reason #
     (if be_action env = LandMerge then [MergeFinalizeSkipped (be_feature env) (be_base env) reason] else [])"

section \<open>Validation commands\<close>

definition MIN_POST_MERGE_COMMAND_TIMEOUT_MS :: int where
  "MIN_POST_MERGE_COMMAND_TIMEOUT_MS = 10000"

definition normalizePostMergeCommandTimeoutMs :: "int option \<Rightarrow> int \<Rightarrow> int" where
  "normalizePostMergeCommandTimeoutMs t d =
     max (case t of Some x \<Rightarrow> x | None \<Rightarrow> d) MIN_POST_MERGE_COMMAND_TIMEOUT_MS"

definition effective_timeout :: "build_env \<Rightarrow> int" where
  "effective_timeout env = normalizePostMergeCommandTimeoutMs (be_timeout env) 300000"

definition timeout_clamped :: "build_env \<Rightarrow> bool" where
  "timeout_clamped env \<longleftrightarrow>
     (case be_timeout env of Some t \<Rightarrow> t | None \<Rightarrow> effective_timeout env) < MIN_POST_MERGE_COMMAND_TIMEOUT_MS"

definition validation_commands :: "build_env \<Rightarrow> string list" where
  "validation_commands env = uniq (opt_list (be_postMerge env) @ opt_list (be_validate env))"

text \<open>A worktree whose state cannot be read counts as clean.\<close>

definition detectValidationDirtyWorktree ::
    "build_env \<Rightarrow> nat \<Rightarrow> string \<Rightarrow> string \<Rightarrow> string \<Rightarrow> cmd_evidence option" where
  "detectValidationDirtyWorktree env t command reason output =
     (let files = opt_list (be_dirty env t)
      in if files = [] then None
         else Some \<lparr>ce_command = command, ce_exitCode = 1,
           ce_output = (if trim output = [] then [] else trim output @ ''\<newline>\<newline>'') @
             ''Validation detected a dirty merge worktree '' @ reason @ ''. Dirty files:\<newline>'' @
             join_with ''\<newline>'' (take 10 files) @ 
             (if length files > 10 then ''\<newline>... and '' @ dec_string (length files - 10) @ '' more files'' else [])\<rparr>)"

definition record_evidence :: "cmd_evidence \<Rightarrow> build \<Rightarrow> build" where
  "record_evidence e b =
     yields [ValidationCommandComplete (ce_command e) (ce_exitCode e) (ce_output e)]
       (b\<lparr>bd_evidence := Some (opt_list (bd_evidence b) @ [e])\<rparr>)"

text \<open>One command: what it did, and the failure if it failed.\<close>

definition run_command :: "build_env \<Rightarrow> string \<Rightarrow> build \<Rightarrow> build \<times> cmd_evidence option" where
  "run_command env cmd b =
     (let b1 = tick_time (yields [ValidationCommandStart cmd] b);
          r = be_exec env (bd_time b) cmd;
          output = trim (cr_stdout r @ cr_stderr r)
      in if cr_timedOut r
         then (let e = \<lparr>ce_command = cmd, ce_exitCode = 124, ce_output = ''[timed out after '' @ dec_string (nat (effective_timeout env)) @ ''ms]''\<rparr>
               in (record_evidence e (yields [ValidationCommandTimeout cmd (nat (effective_timeout env))
                     (case cr_pid r of Some p \<Rightarrow> p | None \<Rightarrow> -1)] b1), Some e))
         else if cr_exitCode r \<noteq> 0
         then (let e = \<lparr>ce_command = cmd, ce_exitCode = cr_exitCode r, ce_output = output\<rparr>
               in (record_evidence e b1, Some e))
         else case detectValidationDirtyWorktree env (bd_time b1) cmd ''after validation command exited 0'' output of
                Some e \<Rightarrow> (record_evidence e (tick_time b1), Some e)
              | None \<Rightarrow> (record_evidence \<lparr>ce_command = cmd, ce_exitCode = 0, ce_output = output\<rparr> (tick_time b1), None))"

text \<open>The command loop: the failures and whether all of it passed.\<close>

fun run_commands :: "build_env \<Rightarrow> string list \<Rightarrow> build \<Rightarrow> build \<times> cmd_evidence list \<times> bool" where
  "run_commands env [] b = (b, [], True)"
| "run_commands env (cmd # cmds) b =
     (if aborted env b then (b, [], False)
      else case run_command env cmd b of
             (b', Some e) \<Rightarrow> (b', [e], False)
           | (b', None) \<Rightarrow> run_commands env cmds b')"

definition validation_attempt :: "build_env \<Rightarrow> build \<Rightarrow> build \<times> cmd_evidence list \<times> bool" where
  "validation_attempt env b =
     (let cmds = validation_commands env;
          b1 = yields [ValidationStart cmds] (b\<lparr>bd_evidence := Some []\<rparr>);
          r = (case detectValidationDirtyWorktree env (bd_time b1) ''pre-validation worktree cleanliness check''
                      ''before validation commands ran'' [] of
                 Some e \<Rightarrow> (record_evidence e (tick_time b1), [e], False)
               | None \<Rightarrow> run_commands env cmds (tick_time b1))
      in case r of (b2, failures, passed) \<Rightarrow> (yields [ValidationComplete passed] b2, failures, passed))"

text \<open>The attempt loop; \<open>rest\<close> counts the retries left. The flag says whether it passed.\<close>

fun validation_loop :: "build_env \<Rightarrow> nat \<Rightarrow> build \<Rightarrow> build \<times> exn option \<times> bool" where
  "validation_loop env rest b =
     (case validation_attempt env b of
        (b1, failures, True) \<Rightarrow> (b1, None, True)
      | (b1, failures, False) \<Rightarrow>
          (case (rest, be_fixer env) of
             (Suc rest', Some fixer) \<Rightarrow>
               if aborted env b1 then (b1, None, False)
               else (case fixer (bd_time b1) failures (be_maxRetries env - rest') of
                       (es, Some e) \<Rightarrow> (tick_time (yields es b1), Some e, False)
                     | (es, None) \<Rightarrow> validation_loop env rest' (tick_time (yields es b1)))
           | _ \<Rightarrow> (b1, None, False)))"

declare validation_loop.simps [simp del]

definition validate :: "build_env \<Rightarrow> phase" where
  "validate env b =
     (if \<not> all_merged b \<or> aborted env b then (b, None)
      else if validation_commands env = []
      then (case be_policy env of
              Some p \<Rightarrow>
                if vp_allowNoCommands p \<and> trim (opt_list (vp_noCommandsReason p)) \<noteq> []
                then (yields [ValidationStart [], PlanningProgress (opt_list (vp_noCommandsReason p)), ValidationComplete True] b, None)
                else (fail_build (yields ([ValidationStart [], ValidationComplete False] @
                        landing_skipped env ''No validation commands configured and no waiver'') b), None)
            | None \<Rightarrow> (fail_build (yields ([ValidationStart [], ValidationComplete False] @
                        landing_skipped env ''No validation commands configured and no waiver'') b), None))
      else (case validation_loop env (be_maxRetries env)
                   (if timeout_clamped env then yields [ConfigWarning ''validate'' ''clamped''] b else b) of
              (b1, Some e, _) \<Rightarrow> (b1, Some e)
            | (b1, None, True) \<Rightarrow> (b1, None)
            | (b1, None, False) \<Rightarrow> (fail_build (yields (landing_skipped env ''Validation failed'') b1), None)))"

section \<open>PRD validation\<close>

text \<open>The locals of \<open>prdValidate\<close>.\<close>

record prd_locals =
  pv_terminal :: bool
  pv_passed :: "bool option"
  pv_received :: bool
  pv_accepted :: bool
  pv_buffered :: "acceptance_event option"
  pv_gapRun :: bool

definition waiver_reason :: "build_env \<Rightarrow> string" where
  "waiver_reason env =
     (case be_policy env of
        Some p \<Rightarrow> if vp_allowNoAcceptanceCriteria p then trim (opt_list (vp_noAcceptanceCriteriaReason p)) else []
      | None \<Rightarrow> [])"

definition unknown_verdict :: "string \<Rightarrow> string \<Rightarrow> criterion_verdict" where
  "unknown_verdict c e = \<lparr>cv_criterion = c, cv_verdict = VUnknown, cv_evidence = e\<rparr>"

definition criteria_text :: string where
  "criteria_text = ''Acceptance criteria''"

definition plan_acceptance :: "bool \<Rightarrow> criterion_verdict list \<Rightarrow> string list \<Rightarrow> event" where
  "plan_acceptance passed vs ws = AcceptanceValidationComplete
     \<lparr>ae_passed = passed, ae_verdicts = vs, ae_waivers = ws, ae_conflicts = [], ae_source = Some ''plan''\<rparr>"

text \<open>No validator is configured.\<close>

definition no_validator :: "build_env \<Rightarrow> build \<Rightarrow> build" where
  "no_validator env b =
     (case be_expected env of
        None \<Rightarrow> b
      | Some expected \<Rightarrow>
          if waiver_reason env \<noteq> []
          then yields [PrdValidationStart, PrdValidationComplete True [] (Some 100),
                 plan_acceptance True [unknown_verdict criteria_text ''No PRD validator configured.''] [waiver_reason env]] b
          else fail_build (yields [PrdValidationStart,
                 PrdValidationComplete False [\<lparr>gap_requirement = ''No PRD validator configured'',
                   gap_explanation = ''Acceptance criteria enforcement requires a PRD validator''\<rparr>] None,
                 plan_acceptance False
                   (if expected \<noteq> []
                    then map (\<lambda>c. unknown_verdict (ec_text c)
                           (''No PRD validator configured to evaluate expected criterion '' @ ec_id c @ '': '' @ ec_text c)) expected
                    else [unknown_verdict criteria_text ''No PRD validator configured to evaluate acceptance criteria.'']) [],
                 PlanningProgress ''Acceptance criteria validation not possible''] b))"

text \<open>What is kept of the validator's acceptance event.\<close>

definition buffer_acceptance :: "build_env \<Rightarrow> acceptance_event \<Rightarrow> acceptance_event" where
  "buffer_acceptance env ev =
     (case be_expected env of
        Some [] \<Rightarrow>
          if waiver_reason env \<noteq> [] then ev\<lparr>ae_passed := True, ae_waivers := [waiver_reason env]\<rparr>
          else \<lparr>ae_passed = False,
                ae_verdicts = [unknown_verdict criteria_text ''No acceptance criteria found in PRD''],
                ae_waivers = [], ae_conflicts = [], ae_source = ae_source ev\<rparr>
      | Some (c # cs) \<Rightarrow>
          (let vs = synthesizeMissingVerdicts (be_norm env) (c # cs) (ae_verdicts ev)
           in ev\<lparr>ae_verdicts := vs, ae_passed := all_pass vs \<or> has_waiver (ae_waivers ev)\<rparr>)
      | None \<Rightarrow> ev)"

definition last_gap_close :: "event list \<Rightarrow> bool option" where
  "last_gap_close es = fold (\<lambda>e r. case e of GapCloseComplete p \<Rightarrow> Some p | _ \<Rightarrow> r) es None"

definition gap_failed :: "string \<Rightarrow> build \<Rightarrow> build" where
  "gap_failed reason b = fail_build (yields [PlanningProgress (''Gap closing failed: '' @ reason)] b)"

text \<open>The gap closer runs; an abort is thrown on.\<close>

definition close_gaps ::
    "(nat \<Rightarrow> prd_gap list \<Rightarrow> nat option \<Rightarrow> event list \<times> exn option) \<Rightarrow> prd_gap list \<Rightarrow> nat option
     \<Rightarrow> build \<times> prd_locals \<Rightarrow> (build \<times> prd_locals) \<times> exn option" where
  "close_gaps closer gaps pct x =
     (case x of (b, v) \<Rightarrow>
        case closer (bd_time b) gaps pct of (es, threw) \<Rightarrow>
          let b1 = tick_time (yields es b)
          in case threw of
               Some AbortError \<Rightarrow> ((b1, v), Some AbortError)
             | Some (Err reason) \<Rightarrow> ((gap_failed reason b1, v), None)
             | None \<Rightarrow>
                 if build_failed b1 then ((b1, v), None)
                 else (case last_gap_close es of
                         Some True \<Rightarrow> ((b1\<lparr>bd_gapClosed := True\<rparr>, v\<lparr>pv_gapRun := True\<rparr>), None)
                       | Some False \<Rightarrow> ((gap_failed ''Gap closing completed with passed=false'' b1, v), None)
                       | None \<Rightarrow> ((gap_failed ''Gap closer did not emit a terminal event'' b1, v), None)))"

definition prd_gap_handling ::
    "build_env \<Rightarrow> prd_gap list \<Rightarrow> nat option \<Rightarrow> build \<times> prd_locals \<Rightarrow> (build \<times> prd_locals) \<times> exn option" where
  "prd_gap_handling env gaps pct x =
     (case x of (b, v) \<Rightarrow>
        if list_ex (\<lambda>g. gap_requirement g = ''Implementation diff unavailable'') gaps
        then ((fail_build (yields [PlanningProgress ''PRD validation evidence unavailable''] b), v), None)
        else if (case pct of Some p \<Rightarrow> p < be_minPercent env | None \<Rightarrow> False)
        then ((fail_build (yields [PlanningProgress ''PRD completion is below viability threshold''] b), v), None)
        else case be_gapCloser env of
               Some closer \<Rightarrow>
                 if bd_gapClosed b then ((fail_build b, v), None) else close_gaps closer gaps pct (b, v)
             | None \<Rightarrow> ((fail_build b, v), None))"

text \<open>One event of the validator.\<close>

definition prd_event :: "build_env \<Rightarrow> event \<Rightarrow> build \<times> prd_locals \<Rightarrow> (build \<times> prd_locals) \<times> exn option" where
  "prd_event env e x =
     (case x of (b, v) \<Rightarrow>
        case e of
          AcceptanceValidationComplete ev \<Rightarrow>
            ((b, v\<lparr>pv_buffered := Some (buffer_acceptance env ev), pv_received := True\<rparr>), None)
        | PrdValidationComplete passed gaps pct \<Rightarrow>
            (let x1 = (yields [e] b, v\<lparr>pv_terminal := True, pv_passed := Some passed\<rparr>)
             in if passed then (x1, None) else prd_gap_handling env gaps pct x1)
        | _ \<Rightarrow> ((yields [e] b, v), None))"

fun prd_events :: "build_env \<Rightarrow> event list \<Rightarrow> build \<times> prd_locals \<Rightarrow> (build \<times> prd_locals) \<times> exn option" where
  "prd_events env [] x = (x, None)"
| "prd_events env (e # es) x =
     (case prd_event env e x of
        (x', None) \<Rightarrow> prd_events env es x'
      | (x', Some ex) \<Rightarrow> (x', Some ex))"

text \<open>The \<open>try\<close> block and its handler; an abort leaves \<open>prdValidate\<close>.\<close>

definition prd_try ::
    "build_env \<Rightarrow> (nat \<Rightarrow> cmd_evidence list option \<Rightarrow> event list \<times> exn option) \<Rightarrow> build
     \<Rightarrow> (build \<times> prd_locals) \<times> exn option" where
  "prd_try env validator b =
     (case validator (bd_time b) (bd_evidence b) of (es, ended) \<Rightarrow>
        case prd_events env es (tick_time b, \<lparr>pv_terminal = False, pv_passed = None, pv_received = False,
               pv_accepted = False, pv_buffered = None, pv_gapRun = False\<rparr>) of
          ((b1, v), threw) \<Rightarrow>
            (case (if threw = None then ended else threw) of
               None \<Rightarrow> ((b1, v), None)
             | Some AbortError \<Rightarrow> ((b1, v), Some AbortError)
             | Some (Err message) \<Rightarrow>
                 ((fail_build (yields (PlanningProgress (''PRD validation failed: '' @ message) #
                     (if pv_terminal v then []
                      else [PrdValidationComplete False [\<lparr>gap_requirement = ''PRD validator crashed'', gap_explanation = message\<rparr>] None])) b1), v), None)))"

definition missing_terminal :: "build \<times> prd_locals \<Rightarrow> build \<times> prd_locals" where
  "missing_terminal x =
     (case x of (b, v) \<Rightarrow>
        if \<not> pv_terminal v \<and> \<not> build_failed b
        then (fail_build (yields [PlanningProgress ''PRD validation failed: no terminal verdict'',
                PrdValidationComplete False [\<lparr>gap_requirement = ''PRD validator terminal verdict missing'',
                  gap_explanation = ''Validator completed without emitting prd_validation:complete.''\<rparr>] None] b), v)
        else (b, v))"

definition conflict_policy_of :: "build_env \<Rightarrow> conflict_policy option" where
  "conflict_policy_of env = (case be_policy env of Some p \<Rightarrow> vp_conflictPolicy p | None \<Rightarrow> None)"

definition emit_acceptance :: "build_env \<Rightarrow> acceptance_event \<Rightarrow> build \<times> prd_locals \<Rightarrow> build \<times> prd_locals" where
  "emit_acceptance env ev x =
     (case x of (b, v) \<Rightarrow>
        case buildAcceptanceValidationEvents (conflict_policy_of env) (bd_evidence b) ev of
          (es, passed) \<Rightarrow> (yields es b, v\<lparr>pv_accepted := passed\<rparr>))"

text \<open>\<open>failResolver\<close> and \<open>resolveAcceptanceUnknownsIfNeeded\<close>.\<close>

definition failResolver :: "string \<Rightarrow> acceptance_event \<Rightarrow> acceptance_event" where
  "failResolver message ev = ev\<lparr>ae_passed := False,
     ae_verdicts := map (\<lambda>v. if cv_verdict v = VUnknown then v\<lparr>cv_evidence := cv_evidence v @ '' '' @ message\<rparr> else v) (ae_verdicts ev)\<rparr>"

definition resolveAcceptanceUnknownsIfNeeded ::
    "build_env \<Rightarrow> bool option \<Rightarrow> acceptance_event \<Rightarrow> build \<Rightarrow> build \<times> (exn, acceptance_event) result" where
  "resolveAcceptanceUnknownsIfNeeded env prdPassed ev b =
     (case be_resolver env of
        None \<Rightarrow> (b, Inr ev)
      | Some resolver \<Rightarrow>
          if \<not> shouldRunAcceptanceUnknownResolver (be_norm env) prdPassed (be_expected env) ev (bd_evidence b)
          then (b, Inr ev)
          else
            (let expected = opt_list (be_expected env); dirty = be_gitStatus env (bd_time b); b1 = tick_time b
             in if dirty \<noteq> []
                then (fail_build b1, Inr (failResolver (''Acceptance unknown resolver skipped: dirty merge worktree before resolver ('' @ dirty @ '')'') ev))
                else case resolver (bd_time b1) (getExpectedUnknownCriteria (be_norm env) expected (ae_verdicts ev)) (ae_verdicts ev) of
                  (es, answer) \<Rightarrow>
                    (let b2 = tick_time (yields es b1)
                     in if answer = Inl AbortError then (b2, Inl AbortError)
                        else (let after = be_gitStatus env (bd_time b2); b3 = tick_time b2
                              in if after \<noteq> []
                                 then (fail_build b3, Inr (failResolver (''Acceptance unknown resolver failed: dirty merge worktree after resolver ('' @ after @ '')'') ev))
                                 else case answer of
                                   Inl (Err m) \<Rightarrow> (fail_build b3, Inr (failResolver (''Acceptance unknown resolver failed: '' @ m) ev))
                                 | Inl AbortError \<Rightarrow> (b3, Inl AbortError)
                                 | Inr None \<Rightarrow> (fail_build b3, Inr (failResolver ''Acceptance unknown resolver failed: resolver did not return structured verdicts'' ev))
                                 | Inr (Some rs) \<Rightarrow>
                                     (case mergeAcceptanceUnknownResolutions (be_norm env) ev expected rs of
                                        Inl c \<Rightarrow> (b3, Inl (Err (''Resolver attempted to replace non-unknown criterion '' @ c)))
                                      | Inr merged \<Rightarrow>
                                          (b3, Inr (if hasUnresolvedAcceptanceUnknowns (be_norm env) merged expected
                                                    then merged\<lparr>ae_passed := False\<rparr> else merged)))))))"

definition no_evidence :: acceptance_event where
  "no_evidence = \<lparr>ae_passed = False,
     ae_verdicts = [unknown_verdict criteria_text ''Validator did not emit acceptance validation evidence.''],
     ae_waivers = [], ae_conflicts = [], ae_source = Some ''prd''\<rparr>"

text \<open>The acceptance gate after a passed PRD validation.\<close>

definition acceptance_gate :: "build_env \<Rightarrow> build \<times> prd_locals \<Rightarrow> build \<times> exn option" where
  "acceptance_gate env x =
     (case x of (b, v) \<Rightarrow>
        let ev = (if \<not> pv_received v then no_evidence else the (pv_buffered v))
        in case resolveAcceptanceUnknownsIfNeeded env (pv_passed v) ev b of
             (b1, Inl e) \<Rightarrow> (b1, Some e)
           | (b1, Inr resolved) \<Rightarrow>
               (case emit_acceptance env resolved (b1, v) of
                  (b2, v2) \<Rightarrow>
                    (if pv_accepted v2 then b2
                     else fail_build (yields [PlanningProgress ''Acceptance criteria validation failed''] b2), None)))"

definition prdValidate :: "build_env \<Rightarrow> phase" where
  "prdValidate env b =
     (case be_prdValidator env of
        None \<Rightarrow> (no_validator env b, None)
      | Some validator \<Rightarrow>
          if build_failed b then (b, None)
          else (case prd_try env validator b of
                  ((b1, v1), Some e) \<Rightarrow> (b1, Some e)
                | (x1, None) \<Rightarrow>
                    (case missing_terminal x1 of (b2, v2) \<Rightarrow>
                       if pv_passed v2 \<noteq> Some True
                       then (case pv_buffered v2 of
                               Some ev \<Rightarrow> (fst (emit_acceptance env ev (b2, v2)), None)
                             | None \<Rightarrow> (b2, None))
                       else if build_failed b2 \<or> pv_gapRun v2 then (b2, None)
                       else acceptance_gate env (b2, v2))))"

end
