(* ===== verification/BuildLanding.thy ===== *)
theory BuildLanding
  imports BuildPhases
begin

text \<open>
  The phases that end a build: the base synchronisation before validation, the artifact
  record, stack landing, the landing attempts with their freshness retries, \<open>finalize\<close> and
  the sequence of phases of \<open>Orchestrator.execute\<close>. What git-spice, the landing action and
  the policy gate do are answers of the environment.
\<close>

section \<open>Base synchronisation\<close>

definition isDirectPrBaseSyncApplicable :: "build_env \<Rightarrow> bool" where
  "isDirectPrBaseSyncApplicable env \<longleftrightarrow> be_action env = LandPr \<and> be_stack env = None"

definition skip_landing :: "build_env \<Rightarrow> string \<Rightarrow> event" where
  "skip_landing env reason = LandingSkipped (be_action env) (be_feature env) (be_base env) reason"

definition syncDirectPrBaseBeforeValidation :: "build_env \<Rightarrow> phase" where
  "syncDirectPrBaseBeforeValidation env b =
     (if \<not> isDirectPrBaseSyncApplicable env then (b, None)
      else case be_sync env (bd_time b) of
             (es, answer) \<Rightarrow>
               (let b1 = tick_time (yields es b)
                in case answer of
                     SyncOk point \<Rightarrow> (yields [PlanningProgress point] (b1\<lparr>bd_synced := True\<rparr>), None)
                   | SyncFailed msg \<Rightarrow>
                       (fail_build (yields [skip_landing env (''Direct PR base sync failed: '' @ msg)] b1), None)
                   | SyncThrew e \<Rightarrow> (b1, Some e)))"

section \<open>Registry updates\<close>

text \<open>A locked update of the artifact registry and of the stack layers; the first component
  is the file after it.\<close>

definition update_artifacts ::
    "build_env \<Rightarrow> (artifact list \<Rightarrow> artifact list option) \<Rightarrow> build \<Rightarrow> build \<times> reg_error option" where
  "update_artifacts env f b =
     (let b1 = tick_time b
      in case be_registry env (bd_time b) of
           Some e \<Rightarrow> (b1, Some e)
         | None \<Rightarrow>
             (case loadArtifactRegistry (bd_artifacts b) of
                Inl e \<Rightarrow> (b1, Some e)
              | Inr bs \<Rightarrow> (b1\<lparr>bd_artifacts := (case f bs of Some bs' \<Rightarrow> Json bs' | None \<Rightarrow> bd_artifacts b)\<rparr>, None)))"

definition update_layers ::
    "build_env \<Rightarrow> (stack_layer list \<Rightarrow> stack_layer list) \<Rightarrow> build \<Rightarrow> build \<times> reg_error option" where
  "update_layers env f b =
     (let b1 = tick_time b
      in case be_registry env (bd_time b) of
           Some e \<Rightarrow> (b1, Some e)
         | None \<Rightarrow>
             (case loadStackState (bd_layers b) of
                Inl e \<Rightarrow> (b1, Some e)
              | Inr ls \<Rightarrow> (b1\<lparr>bd_layers := Json (f ls)\<rparr>, None)))"

definition no_updates :: artifact_updates where
  "no_updates = \<lparr>au_artifactBranch = None, au_commitSha = None, au_resolvedBase = None, au_landingAction = None,
     au_landingStatus = None, au_prUrl = None, au_landingCompletedAt = None, au_landingFailureReason = None\<rparr>"

text \<open>\<open>updateArtifactRecord\<close> where its failure is swallowed; without a PRD id nothing is done.\<close>

definition note_artifact :: "build_env \<Rightarrow> artifact_updates \<Rightarrow> build \<Rightarrow> build" where
  "note_artifact env u b =
     (case be_prdId env of
        None \<Rightarrow> b
      | Some i \<Rightarrow> fst (update_artifacts env (updateArtifactRecord (be_now env (bd_time b)) i u) b))"

definition layer_landing_of :: "build_env \<Rightarrow> landing_state \<Rightarrow> string option \<Rightarrow> string \<Rightarrow> string \<Rightarrow> layer_landing" where
  "layer_landing_of env st reason started now = \<lparr>ll_action = be_action env, ll_status = st, ll_prUrl = None, ll_reason = reason,
     ll_originalBaseBranch = None, ll_effectiveBaseBranch = None, ll_baseRepairReason = False,
     ll_startedAt = started, ll_completedAt = Some now\<rparr>"

definition landing_status_of :: "landing_state \<Rightarrow> landing_status" where
  "landing_status_of st = (case st of LsComplete \<Rightarrow> LandingComplete | LsSkipped \<Rightarrow> LandingSkippedStatus | _ \<Rightarrow> LandingFailed)"

text \<open>\<open>updateStackLayerStatusAndLanding\<close> with its event; a failure of the file is thrown.\<close>

definition mark_layer ::
    "build_env \<Rightarrow> stack_context \<Rightarrow> layer_status \<Rightarrow> landing_state \<Rightarrow> string option \<Rightarrow> phase" where
  "mark_layer env sc layer st reason b =
     (let now = be_now env (bd_time b)
      in case update_layers env (updateStackLayerStatusAndLanding now (sc_prdId sc) layer (layer_landing_of env st reason now now)) b of
           (b1, Some e) \<Rightarrow> (b1, Some (Err ''stack state''))
         | (b1, None) \<Rightarrow>
             (yields [StackLandingUpdate (sc_prdId sc) (be_action env) (landing_status_of st) reason None] b1, None))"

section \<open>Recording the artifact\<close>

definition new_artifact :: "build_env \<Rightarrow> prd_id \<Rightarrow> string \<Rightarrow> string \<Rightarrow> artifact" where
  "new_artifact env i sha now = \<lparr>ar_prdId = i, ar_artifactBranch = be_feature env, ar_commitSha = sha, ar_resolvedBase = be_base env,
     ar_landingAction = be_action env, ar_status = Built, ar_recordedAt = now, ar_updatedAt = now,
     ar_landingStatus = None, ar_prUrl = None, ar_landingCompletedAt = None, ar_landingFailureReason = None\<rparr>"

text \<open>The \<open>try\<close> block: \<open>True\<close> when it did not throw.\<close>

definition record_layer :: "build_env \<Rightarrow> stack_context \<Rightarrow> build \<Rightarrow> build \<times> bool" where
  "record_layer env sc b =
     (let now = be_now env (bd_time b)
      in case be_sha env (bd_time b) of
           None \<Rightarrow> (tick_time b, False)
         | Some sha \<Rightarrow>
             (case update_layers env (recordSuccessfulBuildArtifact now sha (Some (be_action env)) sc) (tick_time b) of
                (b1, Some e) \<Rightarrow> (b1, False)
              | (b1, None) \<Rightarrow> (yields [StackLayerRecorded (sc_prdId sc)] b1, True)))"

definition try_record :: "build_env \<Rightarrow> prd_id \<Rightarrow> build \<Rightarrow> build \<times> bool" where
  "try_record env i b =
     (let now = be_now env (bd_time b); b1 = tick_time b; b2 = tick_time b1
      in case be_sha env (bd_time b) of
           None \<Rightarrow> (b1, False)
         | Some sha \<Rightarrow>
             (if be_dirty env (bd_time b1) \<noteq> Some [] then (b2, False)
              else case update_artifacts env (\<lambda>bs. Some (upsertArtifact now (new_artifact env i sha now) bs)) b2 of
                     (b3, Some e) \<Rightarrow> (b3, False)
                   | (b3, None) \<Rightarrow>
                       (case be_stack env of None \<Rightarrow> (b3, True) | Some sc \<Rightarrow> record_layer env sc b3)))"

definition recordArtifact :: "build_env \<Rightarrow> build \<Rightarrow> build" where
  "recordArtifact env b =
     (case be_prdId env of
        None \<Rightarrow> b
      | Some i \<Rightarrow>
          if build_failed b \<or> aborted env b \<or> \<not> all_merged b then b
          else (case try_record env i b of
                  (b1, True) \<Rightarrow> b1
                | (b1, False) \<Rightarrow>
                    yields [DaemonError ''stack:artifact-recording'' i, skip_landing env ''Stack artifact recording failed''] (fail_build b1)))"

section \<open>Stack landing\<close>

definition pre_landing_skip :: "build_env \<Rightarrow> build \<Rightarrow> string option" where
  "pre_landing_skip env b =
     (if build_failed b then Some ''Build failed before landing could be attempted''
      else if aborted env b then Some ''Build aborted before landing could be attempted''
      else None)"

text \<open>What the landing's own events say: the last completion and the last failure.\<close>

definition landing_completed :: "event list \<Rightarrow> (string option) option" where
  "landing_completed es = fold (\<lambda>e r. case e of StackLandingUpdate _ _ LandingComplete _ url \<Rightarrow> Some url | _ \<Rightarrow> r) es None"

definition landing_failure :: "event list \<Rightarrow> string option" where
  "landing_failure es = fold (\<lambda>e r. case e of
     StackLandingUpdate _ _ LandingFailed reason _ \<Rightarrow> Some (case reason of Some x \<Rightarrow> x | None \<Rightarrow> ''Stack landing failed'') | _ \<Rightarrow> r) es None"

text \<open>The commit of the feature branch, when the worktree is clean and it can be read.\<close>

definition refresh_sha :: "build_env \<Rightarrow> build \<Rightarrow> build \<times> string option" where
  "refresh_sha env b =
     (let b1 = tick_time b
      in if be_dirty env (bd_time b) \<noteq> Some [] then (b1, None) else (tick_time b1, be_sha env (bd_time b1)))"

definition note_complete :: "build_env \<Rightarrow> landing_status \<Rightarrow> string option \<Rightarrow> string option \<Rightarrow> build \<Rightarrow> build" where
  "note_complete env st url reason b =
     (if be_prdId env = None then b
      else case refresh_sha env b of
             (b1, sha) \<Rightarrow>
               note_artifact env (no_updates\<lparr>au_commitSha := sha, au_landingStatus := Some (Some st),
                 au_prUrl := (case url of Some u \<Rightarrow> Some (Some u) | None \<Rightarrow> None),
                 au_landingCompletedAt := Some (Some (be_now env (bd_time b))),
                 au_landingFailureReason := (if st = LandingComplete \<or> reason = None then None else Some reason)\<rparr>) b1)"

definition note_landing :: "build_env \<Rightarrow> landing_status \<Rightarrow> string \<Rightarrow> build \<Rightarrow> build" where
  "note_landing env st reason b =
     note_artifact env (no_updates\<lparr>au_landingStatus := Some (Some st), au_landingFailureReason := Some (Some reason),
       au_landingCompletedAt := Some (Some (be_now env (bd_time b)))\<rparr>) b"

definition stackLanding :: "build_env \<Rightarrow> phase" where
  "stackLanding env b =
     (case be_stack env of
        None \<Rightarrow> (b, None)
      | Some sc \<Rightarrow>
          if \<not> be_provider env then (b, None)
          else (case pre_landing_skip env b of
            Some reason \<Rightarrow>
              (let now = be_now env (bd_time b)
               in case update_layers env (updateStackLayerStatusAndLanding now (sc_prdId sc) LayerFailed
                      (layer_landing_of env LsSkipped (Some reason) now now)) b of
                    (b1, Some e) \<Rightarrow> (b1, Some (Err ''stack state''))
                  | (b1, None) \<Rightarrow>
                      (yields [StackLandingUpdate (sc_prdId sc) (be_action env) LandingSkippedStatus (Some reason) None]
                         (note_landing env LandingSkippedStatus reason b1), None))
          | None \<Rightarrow>
              if be_action env \<noteq> LandPr then (b, None)
              else (case be_stackLanding env (bd_time b) of
                (es, Some e) \<Rightarrow> (tick_time (yields es b), Some e)
              | (es, None) \<Rightarrow>
                  (let b1 = tick_time (yields es b)
                   in case landing_completed es of
                        Some url \<Rightarrow> (note_complete env LandingComplete url None (b1\<lparr>bd_landed := True\<rparr>), None)
                      | None \<Rightarrow>
                          (let failure = landing_failure es;
                               reason = (case failure of Some r \<Rightarrow> r | None \<Rightarrow> ''Stack landing did not complete'');
                               b2 = note_landing env LandingFailed reason b1
                           in case (if failure = None then mark_layer env sc LayerFailed LsFailed (Some reason) b2 else (b2, None)) of
                                (b3, Some e) \<Rightarrow> (b3, Some e)
                              | (b3, None) \<Rightarrow> (fail_build b3, None))))))"

section \<open>Landing attempts\<close>

record landing_run =
  ln_result :: landing_result
  ln_startedAt :: "string option"
  ln_reason :: "string option"

definition no_landing :: landing_result where
  "no_landing = \<lparr>lr_succeeded = False, lr_prUrl = None, lr_freshnessRetry = False\<rparr>"

definition last_skip_reason :: "event list \<Rightarrow> string option" where
  "last_skip_reason es = fold (\<lambda>e r. case e of LandingSkipped _ _ _ reason \<Rightarrow> Some reason | _ \<Rightarrow> r) es None"

definition runFinalizeLandingAttempt :: "build_env \<Rightarrow> bool \<Rightarrow> build \<Rightarrow> build \<times> (exn, landing_run) result" where
  "runFinalizeLandingAttempt env guard b =
     (case be_landing env (bd_time b) guard of
        (es, answer) \<Rightarrow>
          (let b1 = tick_time (yields es b)
           in case answer of
                Inl e \<Rightarrow> (b1, Inl e)
              | Inr r \<Rightarrow> (b1, Inr \<lparr>ln_result = r,
                  ln_startedAt = (if list_ex (\<lambda>e. case e of LandingStart _ \<Rightarrow> True | _ \<Rightarrow> False) es then Some (be_now env (bd_time b)) else None),
                  ln_reason = last_skip_reason es\<rparr>)))"

definition DEFAULT_DIRECT_PR_FRESHNESS_RETRIES :: nat where
  "DEFAULT_DIRECT_PR_FRESHNESS_RETRIES = 2"

definition runDirectPrFinalFreshnessValidationCycle :: "build_env \<Rightarrow> phase" where
  "runDirectPrFinalFreshnessValidationCycle env b =
     followed_by (validate env)
       (unless_failed
         (followed_by (prdValidate env)
           (\<lambda>b2. if \<not> build_failed b2 \<and> \<not> bd_gapClosed b \<and> bd_gapClosed b2
                 then followed_by (validate env) (unless_failed (prdValidate env)) b2 else (b2, None)))) b"

text \<open>Between two attempts: the base is synchronised and the result validated and recorded again.\<close>

definition refresh_for_retry :: "build_env \<Rightarrow> phase" where
  "refresh_for_retry env =
     followed_by (syncDirectPrBaseBeforeValidation env)
       (unless_failed
         (followed_by (runDirectPrFinalFreshnessValidationCycle env)
           (unless_failed (\<lambda>b. (recordArtifact env b, None)))))"

fun direct_pr_attempts :: "build_env \<Rightarrow> nat \<Rightarrow> build \<Rightarrow> build \<times> (exn, landing_run) result" where
  "direct_pr_attempts env budget b =
     (case runFinalizeLandingAttempt env True b of
        (b1, Inl e) \<Rightarrow> (b1, Inl e)
      | (b1, Inr run) \<Rightarrow>
          if \<not> lr_freshnessRetry (ln_result run) then (b1, Inr run)
          else (case budget of
            0 \<Rightarrow> (let reason = ''freshness retry budget exhausted''
                  in (fail_build (yields [skip_landing env reason] b1),
                      Inr (run\<lparr>ln_result := no_landing, ln_reason := Some reason\<rparr>)))
          | Suc budget' \<Rightarrow>
              (case refresh_for_retry env (yields [PlanningProgress ''retrying base sync and validation''] b1) of
                 (b2, Some e) \<Rightarrow> (b2, Inl e)
               | (b2, None) \<Rightarrow>
                   if build_failed b2 then (b2, Inr (run\<lparr>ln_result := no_landing\<rparr>))
                   else direct_pr_attempts env budget' b2)))"

declare direct_pr_attempts.simps [simp del]

definition runFinalizeLanding :: "build_env \<Rightarrow> build \<Rightarrow> build \<times> (exn, landing_run) result" where
  "runFinalizeLanding env b =
     (if isDirectPrBaseSyncApplicable env
      then direct_pr_attempts env DEFAULT_DIRECT_PR_FRESHNESS_RETRIES b
      else runFinalizeLandingAttempt env False b)"

section \<open>Finalization\<close>

definition recordFinalPolicyFailure :: "build_env \<Rightarrow> string \<Rightarrow> phase" where
  "recordFinalPolicyFailure env reason b =
     (let b1 = note_landing env LandingSkippedStatus reason b
      in case be_stack env of None \<Rightarrow> (b1, None) | Some sc \<Rightarrow> mark_layer env sc LayerFailed LsFailed (Some reason) b1)"

text \<open>The policy gate before a merge: \<open>Some reason\<close> when it stops the landing.\<close>

definition final_gate :: "build_env \<Rightarrow> build \<Rightarrow> build \<times> string option" where
  "final_gate env b =
     (if be_action env \<noteq> LandMerge \<or> \<not> be_gates env then (b, None)
      else case be_policyEvidence env (bd_time b) of
             Some reason \<Rightarrow> (tick_time b, Some (''Final merge policy evidence unavailable: '' @ reason))
           | None \<Rightarrow>
               (case be_gate env (Suc (bd_time b)) of
                  (es, blocked) \<Rightarrow> (tick_time (yields es (tick_time b)),
                    map_option (\<lambda>r. ''Policy gate blocked final merge: '' @ r) blocked)))"

definition finish_status :: "build \<Rightarrow> build" where
  "finish_status b = b\<lparr>bd_state := (bd_state b)\<lparr>es_status := (if bd_landed b then RunCompleted else RunFailed), es_ended := True\<rparr>\<rparr>"

definition stack_outcome :: "build_env \<Rightarrow> landing_run \<Rightarrow> phase" where
  "stack_outcome env run b =
     (case be_stack env of
        None \<Rightarrow> (b, None)
      | Some sc \<Rightarrow>
          if be_action env = LandPr then (b, None)
          else
            (let now = be_now env (bd_time b); ok = lr_succeeded (ln_result run);
                 started = (case ln_startedAt run of Some t \<Rightarrow> t | None \<Rightarrow> now);
                 st = (if ok then LsComplete else LsFailed);
                 layer = (if ok then (if be_action env = LandMerge then LayerMerged else LayerLanded) else LayerFailed)
             in case update_layers env (updateStackLayerStatusAndLanding now (sc_prdId sc) layer
                    (layer_landing_of env st (ln_reason run) started now)) b of
                  (b1, Some e) \<Rightarrow> (b1, Some (Err ''stack state''))
                | (b1, None) \<Rightarrow>
                    (yields [StackLandingUpdate (sc_prdId sc) (be_action env) (landing_status_of st) (ln_reason run) None] b1, None)))"

definition land :: "build_env \<Rightarrow> phase" where
  "land env b =
     (if be_action env = LandPr \<and> be_stack env \<noteq> None \<and> bd_landed b then (b, None)
      else case runFinalizeLanding env b of
             (b1, Inl e) \<Rightarrow> (b1, Some e)
           | (b1, Inr run) \<Rightarrow>
               (let r = ln_result run;
                    st = (if lr_succeeded r then LandingComplete
                          else if ln_reason run \<noteq> None then LandingSkippedStatus else LandingFailed)
                in stack_outcome env run
                     (note_complete env st (lr_prUrl r) (ln_reason run) (b1\<lparr>bd_landed := lr_succeeded r\<rparr>))))"

definition finalize :: "build_env \<Rightarrow> phase" where
  "finalize env b =
     (if all_merged b \<and> \<not> aborted env b
      then (case final_gate env b of
              (b1, Some reason) \<Rightarrow>
                (case recordFinalPolicyFailure env reason (yields (landing_skipped env reason) b1) of
                   (b2, Some e) \<Rightarrow> (b2, Some e)
                 | (b2, None) \<Rightarrow> (fail_build b2, None))
            | (b1, None) \<Rightarrow>
                (case land env b1 of
                   (b2, Some e) \<Rightarrow> (b2, Some e)
                 | (b2, None) \<Rightarrow> (finish_status b2, None)))
      else (finish_status (yields (landing_skipped env
             (if \<not> all_merged b then ''Not all plans merged successfully'' else ''Aborted before finalize'')) b), None))"

section \<open>The sequence of phases\<close>

text \<open>\<open>Orchestrator.execute\<close> after \<open>executePlans\<close>.\<close>

definition after_gap_close :: "build_env \<Rightarrow> phase" where
  "after_gap_close env b =
     (if build_failed b \<or> \<not> bd_gapClosed b then (b, None)
      else followed_by (validate env) (unless_failed (prdValidate env)) b)"

definition execute :: "build_env \<Rightarrow> phase" where
  "execute env =
     followed_by (unless_failed (syncDirectPrBaseBeforeValidation env))
    (followed_by (unless_failed (validate env))
    (followed_by (unless_failed (prdValidate env))
    (followed_by (after_gap_close env)
    (followed_by (unless_failed (\<lambda>b. (recordArtifact env b, None)))
    (followed_by (stackLanding env)
                 (unless_failed (finalize env)))))))"

end
