(* ===== verification/BuildProps.thy ===== *)
theory BuildProps
  imports BuildLanding
begin

text \<open>
  What a finished build has been through. Phases other than \<open>validate\<close> are calm: they keep
  the plans and the evidence of the last validation, let time pass and change the status
  to failed only. \<open>validate\<close> leaves a build that failed, was aborted or has evidence of
  every command exiting 0.
\<close>

section \<open>Calm steps\<close>

definition calm :: "build \<Rightarrow> build \<Rightarrow> bool" where
  "calm b b' \<longleftrightarrow> es_plans (bd_state b') = es_plans (bd_state b) \<and> bd_time b \<le> bd_time b' \<and>
     bd_evidence b' = bd_evidence b \<and> bd_landed b' = bd_landed b \<and>
     (es_status (bd_state b') = es_status (bd_state b) \<or> build_failed b')"

lemma calm_refl [simp, intro]: "calm b b"
  by (simp add: calm_def)

lemma calm_trans: "calm b b' \<Longrightarrow> calm b' b'' \<Longrightarrow> calm b b''"
  by (auto simp: calm_def build_failed_def)

named_theorems calm_intros

lemma calm_ops [calm_intros]:
  "calm b c \<Longrightarrow> calm b (yields es c)"
  "calm b c \<Longrightarrow> calm b (tick_time c)"
  "calm b c \<Longrightarrow> calm b (fail_build c)"
  "calm b c \<Longrightarrow> calm b (c\<lparr>bd_gapClosed := g\<rparr>)"
  "calm b c \<Longrightarrow> calm b (c\<lparr>bd_synced := s\<rparr>)"
  "calm b c \<Longrightarrow> calm b (c\<lparr>bd_artifacts := x\<rparr>)"
  "calm b c \<Longrightarrow> calm b (c\<lparr>bd_layers := y\<rparr>)"
  by (auto simp: calm_def yields_def tick_time_def fail_build_def build_failed_def)

lemma calm_fst: "calm c (fst (f c)) \<Longrightarrow> calm b c \<Longrightarrow> f c = (c', x) \<Longrightarrow> calm b c'"
  by (auto intro: calm_trans)

lemma build_failed_simps [simp]:
  "build_failed (yields es b) = build_failed b" "build_failed (tick_time b) = build_failed b"
  "build_failed (fail_build b)" "build_failed (b\<lparr>bd_gapClosed := g\<rparr>) = build_failed b"
  "build_failed (b\<lparr>bd_landed := l\<rparr>) = build_failed b" "build_failed (b\<lparr>bd_synced := s\<rparr>) = build_failed b"
  by (simp_all add: build_failed_def yields_def tick_time_def fail_build_def)

lemma update_artifacts_calm: "calm b (fst (update_artifacts env f b))"
  by (auto simp: update_artifacts_def Let_def intro!: calm_intros split: option.splits sum.splits)

lemma update_layers_calm: "calm b (fst (update_layers env f b))"
  by (auto simp: update_layers_def Let_def intro!: calm_intros split: option.splits sum.splits)

lemma note_artifact_calm [calm_intros]: "calm b c \<Longrightarrow> calm b (note_artifact env u c)"
  by (auto simp: note_artifact_def intro: calm_trans update_artifacts_calm split: option.splits)

lemma note_landing_calm [calm_intros]: "calm b c \<Longrightarrow> calm b (note_landing env st reason c)"
  by (auto simp: note_landing_def intro!: calm_intros)

lemma refresh_sha_calm: "calm b (fst (refresh_sha env b))"
  by (auto simp: refresh_sha_def Let_def intro!: calm_intros)

lemma note_complete_calm [calm_intros]:
  assumes "calm b c"
  shows "calm b (note_complete env st url reason c)"
proof (cases "be_prdId env")
  case (Some i)
  obtain c1 sha where r: "refresh_sha env c = (c1, sha)" by fastforce
  have "calm b c1" using refresh_sha_calm assms r by (rule calm_fst)
  then show ?thesis by (simp add: note_complete_def Some r note_artifact_calm)
qed (simp add: note_complete_def assms)

lemma mark_layer_calm: "calm b (fst (mark_layer env sc l st reason b))"
proof -
  let ?f = "updateStackLayerStatusAndLanding (be_now env (bd_time b)) (sc_prdId sc) l
    (layer_landing_of env st reason (be_now env (bd_time b)) (be_now env (bd_time b)))"
  obtain b1 e where r: "update_layers env ?f b = (b1, e)" by fastforce
  then have "calm b b1" using update_layers_calm [of b env ?f] by simp
  with r show ?thesis by (auto simp: mark_layer_def Let_def intro!: calm_intros split: option.splits)
qed

lemma stack_outcome_calm: "calm b (fst (stack_outcome env run b))"
proof (cases "be_stack env")
  case (Some sc)
  have "calm b b1" if "update_layers env f b = (b1, e)" for f b1 e
    using update_layers_calm [of b env f] that by simp
  with Some show ?thesis
    by (auto simp: stack_outcome_def Let_def intro!: calm_intros split: option.splits prod.splits)
qed (simp add: stack_outcome_def)

lemma sync_calm: "calm b (fst (syncDirectPrBaseBeforeValidation env b))"
  by (auto simp: syncDirectPrBaseBeforeValidation_def Let_def intro!: calm_intros split: prod.splits sync_answer.splits)

lemma record_layer_calm: "calm b (fst (record_layer env sc b))"
proof -
  have "calm b b1" if "update_layers env f (tick_time b) = (b1, e)" for f b1 e
    using update_layers_calm [of "tick_time b" env f] that calm_ops(2) [of b b] by (auto intro: calm_trans)
  then show ?thesis
    by (auto simp: record_layer_def Let_def intro!: calm_intros split: option.splits prod.splits)
qed

lemma try_record_calm: "calm b (fst (try_record env i b))"
proof -
  have two: "calm b (tick_time (tick_time b))" by (intro calm_intros calm_refl)
  have upd: "calm b b3" if "update_artifacts env f (tick_time (tick_time b)) = (b3, e)" for f b3 e
    using update_artifacts_calm two that by (rule calm_fst)
  have layer: "calm b b4" if "update_artifacts env f (tick_time (tick_time b)) = (b3, None)" "record_layer env sc b3 = (b4, ok)" for f b3 sc b4 ok
    using record_layer_calm upd [OF that(1)] that(2) by (rule calm_fst)
  show ?thesis
    by (auto simp: try_record_def Let_def two intro!: calm_intros split: option.splits prod.splits)
       (auto intro: upd layer, metis prod.collapse layer)
qed

lemma recordArtifact_calm [calm_intros]:
  assumes "calm b c"
  shows "calm b (recordArtifact env c)"
proof (cases "be_prdId env")
  case (Some i)
  obtain c1 ok where r: "try_record env i c = (c1, ok)" by fastforce
  have "calm b c1" using try_record_calm assms r by (rule calm_fst)
  with assms show ?thesis by (auto simp: recordArtifact_def Some r intro!: calm_intros split: bool.splits)
qed (simp add: recordArtifact_def assms)

lemma no_validator_calm: "calm b (no_validator env b)"
  by (auto simp: no_validator_def intro!: calm_intros split: option.splits)

lemma close_gaps_calm: "calm b (fst (fst (close_gaps closer gaps pct (b, v))))"
  by (auto simp: close_gaps_def gap_failed_def Let_def intro!: calm_intros split: prod.splits option.splits exn.splits bool.splits)

lemma gap_handling_calm: "calm b (fst (fst (prd_gap_handling env gaps pct (b, v))))"
  using close_gaps_calm [of b _ gaps pct v]
  by (auto simp: prd_gap_handling_def intro!: calm_intros split: option.splits)

lemma prd_event_calm: "calm b (fst (fst (prd_event env e (b, v))))"
proof (cases "\<exists>passed gaps pct. e = PrdValidationComplete passed gaps pct")
  case True
  then obtain passed gaps pct where e: "e = PrdValidationComplete passed gaps pct" by blast
  have "calm b (fst (fst (prd_gap_handling env gaps pct (yields [e] b, v'))))" for v'
    using gap_handling_calm by (rule calm_trans [rotated]) (intro calm_intros calm_refl)
  then show ?thesis by (auto simp: prd_event_def e Let_def intro!: calm_intros)
next
  case False
  then show ?thesis by (auto simp: prd_event_def intro!: calm_intros split: event.splits)
qed

lemma prd_events_calm: "calm (fst x) (fst (fst (prd_events env es x)))"
proof (induction es arbitrary: x)
  case (Cons e es)
  obtain b v where x: "x = (b, v)" by fastforce
  obtain b1 v1 ex where r: "prd_event env e (b, v) = ((b1, v1), ex)" by (metis prod.collapse)
  have one: "calm b b1" using prd_event_calm [of b env e v] r by simp
  with Cons.IH [of "(b1, v1)"] show ?case by (auto simp: x r intro: calm_trans split: option.splits)
qed simp

lemma prd_try_calm: "calm b (fst (fst (prd_try env validator b)))"
proof -
  obtain es ended where a: "validator (bd_time b) (bd_evidence b) = (es, ended)" by fastforce
  let ?v = "\<lparr>pv_terminal = False, pv_passed = None, pv_received = False, pv_accepted = False,
    pv_buffered = None, pv_gapRun = False\<rparr>"
  obtain b1 v threw where r: "prd_events env es (tick_time b, ?v) = ((b1, v), threw)" by (metis prod.collapse)
  have "calm b (tick_time b)" by (intro calm_intros calm_refl)
  with prd_events_calm [of "(tick_time b, ?v)" env es] r have "calm b b1" by (auto intro: calm_trans)
  then show ?thesis by (auto simp: prd_try_def a r intro!: calm_intros split: option.splits exn.splits)
qed

lemma missing_terminal_calm: "calm b c \<Longrightarrow> calm b (fst (missing_terminal (c, v)))"
  by (auto simp: missing_terminal_def intro!: calm_intros)

lemma emit_acceptance_calm: "calm b c \<Longrightarrow> calm b (fst (emit_acceptance env ev (c, v)))"
  by (auto simp: emit_acceptance_def intro!: calm_intros split: prod.splits)

lemma resolve_calm: "calm b (fst (resolveAcceptanceUnknownsIfNeeded env p ev b))"
  by (auto simp: resolveAcceptanceUnknownsIfNeeded_def Let_def intro!: calm_intros
      split: option.splits prod.splits sum.splits exn.splits)

lemma acceptance_gate_calm: "calm b (fst (acceptance_gate env (b, v)))"
proof -
  obtain b1 r where r: "resolveAcceptanceUnknownsIfNeeded env (pv_passed v)
      (if \<not> pv_received v then no_evidence else the (pv_buffered v)) b = (b1, r)" by fastforce
  have b1: "calm b b1" using resolve_calm r by (metis fst_conv)
  have "calm b b2" if "emit_acceptance env ev (b1, v) = (b2, v2)" for ev b2 v2
    using emit_acceptance_calm [OF b1, of env ev v] that by simp
  with b1 r show ?thesis
    by (auto simp: acceptance_gate_def Let_def intro!: calm_intros split: sum.splits prod.splits)
qed

lemma prdValidate_calm: "calm b (fst (prdValidate env b))"
proof (cases "be_prdValidator env")
  case (Some validator)
  obtain b1 v1 e where t: "prd_try env validator b = ((b1, v1), e)" by (metis prod.collapse)
  obtain b2 v2 where m: "missing_terminal (b1, v1) = (b2, v2)" by fastforce
  have "calm b b1" using prd_try_calm [of b env validator] t by simp
  then have b2: "calm b b2" using missing_terminal_calm [of b b1 v1] m by simp
  have gate: "calm b (fst (acceptance_gate env (b2, v2)))"
    using acceptance_gate_calm b2 by (blast intro: calm_trans)
  have emit: "calm b (fst (emit_acceptance env ev (b2, v2)))" for ev
    using emit_acceptance_calm [OF b2] .
  from \<open>calm b b1\<close> b2 gate emit show ?thesis
    by (simp add: prdValidate_def Some t m split: option.splits)
qed (simp add: prdValidate_def no_validator_calm)

section \<open>Validation\<close>

text \<open>\<open>validate\<close> keeps the plans and the status unless it fails the build.\<close>

definition steady :: "build \<Rightarrow> build \<Rightarrow> bool" where
  "steady b b' \<longleftrightarrow> es_plans (bd_state b') = es_plans (bd_state b) \<and> bd_time b \<le> bd_time b' \<and>
     bd_landed b' = bd_landed b \<and>
     (es_status (bd_state b') = es_status (bd_state b) \<or> build_failed b')"

lemma calm_steady: "calm b b' \<Longrightarrow> steady b b'"
  by (simp add: calm_def steady_def)

lemma steady_trans: "steady b b' \<Longrightarrow> steady b' b'' \<Longrightarrow> steady b b''"
  by (auto simp: steady_def build_failed_def)

lemma steady_ops [calm_intros]:
  "steady b c \<Longrightarrow> steady b (yields es c)"
  "steady b c \<Longrightarrow> steady b (tick_time c)"
  "steady b c \<Longrightarrow> steady b (fail_build c)"
  "steady b c \<Longrightarrow> steady b (record_evidence e c)"
  "steady b c \<Longrightarrow> steady b (c\<lparr>bd_evidence := ev\<rparr>)"
  "steady b b"
  by (auto simp: steady_def yields_def tick_time_def fail_build_def build_failed_def record_evidence_def)

lemma run_command_steady: "steady b (fst (run_command env cmd b))"
  by (auto simp: run_command_def Let_def intro!: calm_intros split: option.splits)

lemma run_commands_steady: "steady b (fst (run_commands env cmds b))"
proof (induction cmds arbitrary: b)
  case (Cons cmd cmds)
  obtain b1 e where r: "run_command env cmd b = (b1, e)" by fastforce
  then have "steady b b1" using run_command_steady [of b env cmd] by simp
  with Cons.IH [of b1] r show ?case by (auto intro: steady_trans calm_intros split: option.splits)
qed (simp add: steady_ops)

lemma attempt_steady: "steady b (fst (validation_attempt env b))"
proof -
  let ?b1 = "yields [ValidationStart (validation_commands env)] (b\<lparr>bd_evidence := Some []\<rparr>)"
  have s: "steady b ?b1" "steady b (tick_time ?b1)" by (intro calm_intros)+
  have "steady b b2" if "run_commands env cs (tick_time ?b1) = (b2, x)" for cs b2 x
    using run_commands_steady [of "tick_time ?b1" env cs] that s(2) by (auto intro: steady_trans)
  then show ?thesis
    by (auto simp: validation_attempt_def Let_def intro!: calm_intros split: option.splits prod.splits)
qed

text \<open>Evidence that the configured commands all exited 0.\<close>

definition commands_passed :: "build_env \<Rightarrow> build \<Rightarrow> bool" where
  "commands_passed env b \<longleftrightarrow> (\<exists>ev. bd_evidence b = Some ev \<and> map ce_command ev = validation_commands env \<and>
     list_all (\<lambda>e. ce_exitCode e = 0) ev)"

definition commands_waived :: "build_env \<Rightarrow> bool" where
  "commands_waived env \<longleftrightarrow> validation_commands env = [] \<and>
     (\<exists>p. be_policy env = Some p \<and> vp_allowNoCommands p \<and> trim (opt_list (vp_noCommandsReason p)) \<noteq> [])"

definition validated :: "build_env \<Rightarrow> build \<Rightarrow> bool" where
  "validated env b \<longleftrightarrow> commands_passed env b \<or> commands_waived env"

lemma evidence_frame [simp]:
  "bd_evidence (yields es b) = bd_evidence b" "bd_evidence (tick_time b) = bd_evidence b"
  "bd_evidence (record_evidence e b) = Some (opt_list (bd_evidence b) @ [e])"
  by (simp_all add: yields_def tick_time_def record_evidence_def)

lemma run_command_evidence:
  assumes "run_command env cmd b = (b', None)"
  shows "\<exists>e. bd_evidence b' = Some (opt_list (bd_evidence b) @ [e]) \<and> ce_command e = cmd \<and> ce_exitCode e = 0"
  using assms by (auto simp: run_command_def Let_def split: if_splits option.splits)

lemma run_commands_evidence:
  "run_commands env cmds b = (b', failures, True) \<Longrightarrow> bd_evidence b = Some ev0 \<Longrightarrow>
   \<exists>ev. bd_evidence b' = Some (ev0 @ ev) \<and> map ce_command ev = cmds \<and> list_all (\<lambda>e. ce_exitCode e = 0) ev"
proof (induction cmds arbitrary: b ev0)
  case (Cons cmd cmds)
  then obtain b1 where b1: "run_command env cmd b = (b1, None)" "run_commands env cmds b1 = (b', failures, True)"
    by (auto split: if_splits prod.splits option.splits)
  from run_command_evidence [OF b1(1)] Cons.prems(2) obtain e where
    e: "bd_evidence b1 = Some (ev0 @ [e])" "ce_command e = cmd" "ce_exitCode e = 0" by (auto simp: opt_list_def)
  from Cons.IH [OF b1(2) e(1)] obtain ev where "bd_evidence b' = Some ((ev0 @ [e]) @ ev)"
    "map ce_command ev = cmds" "list_all (\<lambda>e. ce_exitCode e = 0) ev" by blast
  with e show ?case by (intro exI [of _ "e # ev"]) simp
qed auto

lemma attempt_evidence:
  assumes "validation_attempt env b = (b', failures, True)"
  shows "commands_passed env b'"
proof -
  let ?b1 = "tick_time (yields [ValidationStart (validation_commands env)] (b\<lparr>bd_evidence := Some []\<rparr>))"
  from assms obtain b2 where b2: "run_commands env (validation_commands env) ?b1 = (b2, failures, True)"
    "b' = yields [ValidationComplete True] b2"
    by (auto simp: validation_attempt_def Let_def split: option.splits prod.splits)
  have "bd_evidence ?b1 = Some []" by simp
  from run_commands_evidence [OF b2(1) this] b2(2) show ?thesis by (auto simp: commands_passed_def)
qed

lemma loop_result:
  "validation_loop env n b = (b', e, passed) \<Longrightarrow> steady b b' \<and> (passed \<longrightarrow> e = None \<and> commands_passed env b')"
proof (induction n arbitrary: b rule: less_induct)
  case (less n)
  obtain b1 failures ok where a: "validation_attempt env b = (b1, failures, ok)" by (metis prod.collapse)
  have s: "steady b b1" using attempt_steady [of b env] a by simp
  show ?case
  proof (cases ok)
    case True
    then show ?thesis using less(2) a s attempt_evidence [of env b b1 failures]
      by (simp add: validation_loop.simps [of env n b])
  next
    case False
    show ?thesis
    proof (cases "n = 0 \<or> be_fixer env = None \<or> aborted env b1")
      case True
      then show ?thesis using less(2) a s False
        by (auto simp: validation_loop.simps [of env n b] split: nat.splits option.splits)
    next
      case retry: False
      then obtain n' fixer where n: "n = Suc n'" "be_fixer env = Some fixer" "\<not> aborted env b1"
        by (cases n) auto
      obtain es ex where f: "fixer (bd_time b1) failures (be_maxRetries env - n') = (es, ex)" by fastforce
      let ?b2 = "tick_time (yields es b1)"
      have s2: "steady b ?b2" using s by (intro calm_intros)
      show ?thesis
      proof (cases ex)
        case None
        with less(2) a False n f have "validation_loop env n' ?b2 = (b', e, passed)"
          by (simp add: validation_loop.simps [of env "Suc n'" b])
        with less(1) [of n' ?b2] n(1) s2 show ?thesis by (auto intro: steady_trans)
      next
        case (Some x)
        then show ?thesis using less(2) a False n f s2 by (simp add: validation_loop.simps [of env "Suc n'" b])
      qed
    qed
  qed
qed

lemma validate_steady: "steady b (fst (validate env b))"
proof -
  let ?b = "if timeout_clamped env then yields [ConfigWarning ''validate'' ''clamped''] b else b"
  obtain b1 e p where l: "validation_loop env (be_maxRetries env) ?b = (b1, e, p)" by (metis prod.collapse)
  have "steady b ?b" by (simp add: steady_ops)
  with loop_result [OF l] have "steady b b1" by (auto intro: steady_trans)
  with l show ?thesis
    by (auto simp: validate_def intro!: calm_intros split: option.splits bool.splits)
qed

lemma validate_result:
  assumes "validate env b = (b', None)"
  shows "build_failed b' \<or> \<not> all_merged b \<or> aborted env b \<and> b' = b \<or> validated env b'"
proof -
  let ?b = "if timeout_clamped env then yields [ConfigWarning ''validate'' ''clamped''] b else b"
  obtain b1 e p where l: "validation_loop env (be_maxRetries env) ?b = (b1, e, p)" by (metis prod.collapse)
  from loop_result [OF l] assms l show ?thesis
    by (auto simp: validate_def validated_def commands_waived_def commands_passed_def
        split: if_splits option.splits bool.splits)
qed

section \<open>Landing\<close>

definition sound :: "build_env \<Rightarrow> build \<Rightarrow> bool" where
  "sound env b \<longleftrightarrow> all_merged b \<and> es_status (bd_state b) \<noteq> RunCompleted \<and> (build_failed b \<or> validated env b)"

lemma all_merged_cong: "es_plans (bd_state b') = es_plans (bd_state b) \<Longrightarrow> all_merged b' = all_merged b"
  by (simp add: all_merged_def)

lemma calm_sound: "calm b b' \<Longrightarrow> sound env b \<Longrightarrow> sound env b'"
  using all_merged_cong [of b' b]
  by (auto simp: calm_def sound_def validated_def commands_passed_def build_failed_def)

lemma validate_sound:
  assumes "validate env b = (b', None)" and "sound env b"
  shows "sound env b'"
proof -
  have "steady b b'" using validate_steady [of b env] assms(1) by simp
  then have "all_merged b'" "es_status (bd_state b') \<noteq> RunCompleted"
    using assms(2) all_merged_cong [of b' b] by (auto simp: steady_def sound_def build_failed_def)
  with validate_result [OF assms(1)] assms(2) show ?thesis by (auto simp: sound_def)
qed

text \<open>A phase that keeps soundness when it ends normally, and composition.\<close>

definition keeps_sound :: "build_env \<Rightarrow> phase \<Rightarrow> bool" where
  "keeps_sound env p \<longleftrightarrow> (\<forall>b b'. p b = (b', None) \<longrightarrow> sound env b \<longrightarrow> sound env b')"

lemma keeps_sound_calm: "(\<And>b. calm b (fst (p b))) \<Longrightarrow> keeps_sound env p"
  unfolding keeps_sound_def by (metis calm_sound fst_conv)

lemma followed_byD: "followed_by p q b = (b', None) \<Longrightarrow> \<exists>b1. p b = (b1, None) \<and> q b1 = (b', None)"
  by (auto simp: followed_by_def split: prod.splits option.splits)

lemma keeps_sound_followed_by: "keeps_sound env p \<Longrightarrow> keeps_sound env q \<Longrightarrow> keeps_sound env (followed_by p q)"
  unfolding keeps_sound_def by (blast dest: followed_byD)

lemma keeps_sound_unless_failed: "keeps_sound env p \<Longrightarrow> keeps_sound env (unless_failed p)"
  unfolding keeps_sound_def by (auto simp: unless_failed_def split: if_splits)

lemma keeps_sound_validate: "keeps_sound env (validate env)"
  unfolding keeps_sound_def by (blast intro: validate_sound)

lemmas keeps_sound_phases = keeps_sound_validate keeps_sound_calm [OF prdValidate_calm]
  keeps_sound_calm [OF sync_calm] keeps_sound_unless_failed keeps_sound_followed_by

lemma keeps_sound_record: "keeps_sound env (\<lambda>b. (recordArtifact env b, None))"
  by (rule keeps_sound_calm) (simp add: recordArtifact_calm)

lemma keeps_sound_cycle: "keeps_sound env (runDirectPrFinalFreshnessValidationCycle env)"
proof -
  have again: "keeps_sound env (followed_by (validate env) (unless_failed (prdValidate env)))"
    by (intro keeps_sound_phases)
  have "keeps_sound env (\<lambda>b2. if \<not> build_failed b2 \<and> \<not> g \<and> bd_gapClosed b2
      then followed_by (validate env) (unless_failed (prdValidate env)) b2 else (b2, None))" for g
    using again unfolding keeps_sound_def by (auto split: if_splits)
  then have "keeps_sound env (followed_by (validate env) (unless_failed (followed_by (prdValidate env)
      (\<lambda>b2. if \<not> build_failed b2 \<and> \<not> g \<and> bd_gapClosed b2
         then followed_by (validate env) (unless_failed (prdValidate env)) b2 else (b2, None)))))" for g
    by (intro keeps_sound_phases)
  then show ?thesis unfolding keeps_sound_def runDirectPrFinalFreshnessValidationCycle_def by blast
qed

lemma keeps_sound_refresh: "keeps_sound env (refresh_for_retry env)"
  unfolding refresh_for_retry_def by (intro keeps_sound_phases keeps_sound_cycle keeps_sound_record)

lemma attempt_run_calm: "calm b (fst (runFinalizeLandingAttempt env g b))"
  by (auto simp: runFinalizeLandingAttempt_def Let_def intro!: calm_intros split: prod.splits sum.splits)

lemma attempt_run_status: "runFinalizeLandingAttempt env g b = (b', r) \<Longrightarrow> build_failed b' = build_failed b"
  by (auto simp: runFinalizeLandingAttempt_def Let_def split: prod.splits sum.splits)

lemma attempts_sound:
  "direct_pr_attempts env budget b = (b', Inr run) \<Longrightarrow> sound env b \<Longrightarrow> \<not> build_failed b \<Longrightarrow>
   sound env b' \<and> (lr_succeeded (ln_result run) \<longrightarrow> \<not> build_failed b')"
proof (induction budget arbitrary: b rule: less_induct)
  case (less budget)
  obtain b1 r where a: "runFinalizeLandingAttempt env True b = (b1, r)" by fastforce
  have b1: "sound env b1" "\<not> build_failed b1"
    using attempt_run_calm [of b env True] attempt_run_status [OF a] a less(3,4) calm_sound by auto
  have eq: "direct_pr_attempts env budget b = (b', Inr run)" by (rule less(2))
  obtain run1 where r: "r = Inr run1" using eq a by (cases r) (auto simp: direct_pr_attempts.simps [of env budget b])
  show ?case
  proof (cases "lr_freshnessRetry (ln_result run1)")
    case False
    then show ?thesis using eq a r b1 by (auto simp: direct_pr_attempts.simps [of env budget b])
  next
    case True
    show ?thesis
    proof (cases budget)
      case 0
      with eq a r True have "b' = fail_build (yields [skip_landing env ''freshness retry budget exhausted''] b1)"
        "\<not> lr_succeeded (ln_result run)"
        by (auto simp: direct_pr_attempts.simps [of env 0 b] no_landing_def Let_def)
      moreover have "calm b1 (fail_build (yields es b1))" for es by (intro calm_intros calm_refl)
      ultimately show ?thesis using b1 calm_sound by blast
    next
      case (Suc budget')
      let ?b = "yields [PlanningProgress ''retrying base sync and validation''] b1"
      obtain b2 e where f: "refresh_for_retry env ?b = (b2, e)" by fastforce
      have "e = None" using eq a r True Suc f
        by (cases e) (auto simp: direct_pr_attempts.simps [of env "Suc budget'" b])
      moreover have "sound env ?b" using b1(1) calm_sound calm_ops(1) by blast
      ultimately have b2: "sound env b2" using keeps_sound_refresh f unfolding keeps_sound_def by blast
      show ?thesis
      proof (cases "build_failed b2")
        case True
        with eq a r \<open>lr_freshnessRetry (ln_result run1)\<close> Suc f \<open>e = None\<close> have "b' = b2" "\<not> lr_succeeded (ln_result run)"
          by (auto simp: direct_pr_attempts.simps [of env "Suc budget'" b] no_landing_def)
        with b2 show ?thesis by simp
      next
        case False
        with eq a r True Suc f \<open>e = None\<close> have "direct_pr_attempts env budget' b2 = (b', Inr run)"
          by (simp add: direct_pr_attempts.simps [of env "Suc budget'" b])
        from less(1) [OF _ this b2 False] Suc show ?thesis by simp
      qed
    qed
  qed
qed

lemma landing_sound:
  assumes "runFinalizeLanding env b = (b', Inr run)" and "sound env b" and "\<not> build_failed b"
  shows "sound env b' \<and> (lr_succeeded (ln_result run) \<longrightarrow> \<not> build_failed b')"
proof (cases "isDirectPrBaseSyncApplicable env")
  case True
  with assms attempts_sound show ?thesis by (simp add: runFinalizeLanding_def)
next
  case False
  then have a: "runFinalizeLandingAttempt env False b = (b', Inr run)" using assms(1) by (simp add: runFinalizeLanding_def)
  with attempt_run_calm [of b env False] attempt_run_status [OF a] assms(2,3) calm_sound show ?thesis by auto
qed

section \<open>The sequence of phases\<close>

definition uncompleted :: "build \<Rightarrow> bool" where
  "uncompleted b \<longleftrightarrow> es_status (bd_state b) \<noteq> RunCompleted"

definition before_validation :: "build_env \<Rightarrow> build \<Rightarrow> bool" where
  "before_validation env b \<longleftrightarrow> uncompleted b \<and> \<not> bd_landed b \<and> (build_failed b \<or> aborted env b \<or> all_merged b)"

definition after_validation :: "build_env \<Rightarrow> build \<Rightarrow> bool" where
  "after_validation env b \<longleftrightarrow> uncompleted b \<and> \<not> bd_landed b \<and>
     (build_failed b \<or> aborted env b \<or> all_merged b \<and> validated env b)"

definition before_finalize :: "build_env \<Rightarrow> build \<Rightarrow> bool" where
  "before_finalize env b \<longleftrightarrow> uncompleted b \<and> (bd_landed b \<longrightarrow> all_merged b \<and> validated env b) \<and>
     (build_failed b \<or> aborted env b \<or> all_merged b \<and> validated env b)"

definition completed_soundly :: "build_env \<Rightarrow> build \<Rightarrow> bool" where
  "completed_soundly env b \<longleftrightarrow>
     (es_status (bd_state b) = RunCompleted \<longrightarrow> bd_landed b \<and> all_merged b \<and> validated env b)"

text \<open>A phase that leads from \<open>P\<close> to \<open>Q\<close>, and never completes the run when it throws.\<close>

definition leads :: "(build \<Rightarrow> bool) \<Rightarrow> phase \<Rightarrow> (build \<Rightarrow> bool) \<Rightarrow> bool" where
  "leads P p Q \<longleftrightarrow> (\<forall>b b' r. p b = (b', r) \<longrightarrow> P b \<longrightarrow> (if r = None then Q b' else uncompleted b'))"

lemma leads_followed_by: "leads P p Q \<Longrightarrow> leads Q q R \<Longrightarrow> leads P (followed_by p q) R"
  unfolding leads_def followed_by_def by (fastforce split: prod.splits option.splits if_splits)

lemma leads_unless_failed: "leads P p Q \<Longrightarrow> (\<And>b. P b \<Longrightarrow> build_failed b \<Longrightarrow> Q b) \<Longrightarrow> leads P (unless_failed p) Q"
  unfolding leads_def unless_failed_def by auto

text \<open>An \<open>AbortSignal\<close> that is aborted stays aborted.\<close>

definition abort_stays :: "build_env \<Rightarrow> bool" where
  "abort_stays env \<longleftrightarrow> (\<forall>m n. m \<le> n \<longrightarrow> be_aborted env m \<longrightarrow> be_aborted env n)"

lemma abort_later:
  assumes "abort_stays env" and "bd_time b \<le> bd_time b'" and "aborted env b"
  shows "aborted env b'"
  using assms unfolding aborted_def abort_stays_def by blast

lemma calm_keeps:
  assumes "abort_stays env" and "calm b b'"
  shows "uncompleted b \<Longrightarrow> uncompleted b'" and "before_validation env b \<Longrightarrow> before_validation env b'"
    and "after_validation env b \<Longrightarrow> after_validation env b'" and "before_finalize env b \<Longrightarrow> before_finalize env b'"
proof -
  have plans: "all_merged b' = all_merged b" using assms(2) by (intro all_merged_cong) (simp add: calm_def)
  have abort: "aborted env b \<Longrightarrow> aborted env b'" using abort_later [OF assms(1), of b b'] assms(2) by (simp add: calm_def)
  have valid: "validated env b' = validated env b" using assms(2) by (simp add: calm_def validated_def commands_passed_def)
  show unc: "uncompleted b \<Longrightarrow> uncompleted b'" using assms(2) by (auto simp: calm_def uncompleted_def build_failed_def)
  show "before_validation env b \<Longrightarrow> before_validation env b'" "after_validation env b \<Longrightarrow> after_validation env b'"
    "before_finalize env b \<Longrightarrow> before_finalize env b'"
    using plans abort valid unc assms(2)
    by (auto simp: before_validation_def after_validation_def before_finalize_def calm_def build_failed_def)
qed

lemma leads_calm:
  assumes "abort_stays env" and "\<And>b. calm b (fst (p b))"
  shows "leads (before_validation env) p (before_validation env)" and "leads (after_validation env) p (after_validation env)"
proof -
  have c: "calm b b'" if "p b = (b', r)" for b b' r using assms(2) [of b] that by simp
  have u: "before_validation env b \<Longrightarrow> uncompleted b" "after_validation env b \<Longrightarrow> uncompleted b" for b
    by (simp_all add: before_validation_def after_validation_def)
  show "leads (before_validation env) p (before_validation env)" "leads (after_validation env) p (after_validation env)"
    unfolding leads_def using calm_keeps [OF assms(1) c] u by auto
qed

lemma leads_validate:
  assumes "abort_stays env"
  shows "leads (before_validation env) (validate env) (after_validation env)"
  unfolding leads_def
proof (intro allI impI)
  fix b b' r assume v: "validate env b = (b', r)" and pre: "before_validation env b"
  have s: "steady b b'" using validate_steady [of b env] v by simp
  then have unc: "uncompleted b'" "\<not> bd_landed b'" using pre
    by (auto simp: before_validation_def steady_def uncompleted_def build_failed_def)
  have "after_validation env b'" if "r = None"
  proof -
    have "aborted env b \<Longrightarrow> aborted env b'" using abort_later [OF assms, of b b'] s by (simp add: steady_def)
    moreover have "all_merged b' = all_merged b" "build_failed b \<Longrightarrow> build_failed b'"
      using s all_merged_cong [of b' b] by (auto simp: steady_def build_failed_def)
    moreover have "build_failed b' \<or> \<not> all_merged b \<or> aborted env b \<or> validated env b'"
      using validate_result [of env b b'] v that by blast
    ultimately show ?thesis using pre unc by (auto simp: before_validation_def after_validation_def)
  qed
  with unc show "if r = None then after_validation env b' else uncompleted b'" by simp
qed

lemma leads_weaken: "leads P p Q \<Longrightarrow> (\<And>b. P' b \<Longrightarrow> P b) \<Longrightarrow> leads P' p Q"
  unfolding leads_def by blast

lemma after_before: "after_validation env b \<Longrightarrow> before_validation env b"
  by (auto simp: before_validation_def after_validation_def)

lemma after_finalize: "after_validation env b \<Longrightarrow> before_finalize env b"
  by (auto simp: before_finalize_def after_validation_def)

lemma stackLanding_cases:
  assumes "stackLanding env b = (b', r)"
  shows "calm b b' \<or> \<not> build_failed b \<and> \<not> aborted env b \<and> (\<exists>c. calm b c \<and> calm (c\<lparr>bd_landed := True\<rparr>) b')"
proof (cases "be_stack env")
  case (Some sc)
  show ?thesis
  proof (cases "be_provider env")
    case True
    show ?thesis
    proof (cases "pre_landing_skip env b")
      case (Some reason)
      have "calm b b1" if "update_layers env f b = (b1, e)" for f b1 e
        using update_layers_calm [of b env f] that by simp
      with assms \<open>be_stack env = Some sc\<close> True Some show ?thesis
        by (auto simp: stackLanding_def Let_def intro!: calm_intros split: prod.splits option.splits)
    next
      case None
      then have ok: "\<not> build_failed b" "\<not> aborted env b" by (auto simp: pre_landing_skip_def split: if_splits)
      obtain es x where l: "be_stackLanding env (bd_time b) = (es, x)" by fastforce
      let ?b1 = "tick_time (yields es b)"
      have b1: "calm b ?b1" by (intro calm_intros calm_refl)
      show ?thesis
      proof (cases "be_action env = LandPr \<and> x = None \<and> landing_completed es \<noteq> None")
        case True
        then obtain url where "landing_completed es = Some url" by auto
        with True \<open>be_stack env = Some sc\<close> \<open>be_provider env\<close> None l assms
        have "b' = note_complete env LandingComplete url None (?b1\<lparr>bd_landed := True\<rparr>)"
          by (simp add: stackLanding_def Let_def)
        then have "calm (?b1\<lparr>bd_landed := True\<rparr>) b'" by (simp add: note_complete_calm)
        with b1 ok show ?thesis by blast
      next
        case False
        have nl: "calm b (note_landing env LandingFailed reason ?b1)" for reason
          by (intro calm_intros calm_refl)
        have ml: "calm b b3" if "mark_layer env sc l st re (note_landing env LandingFailed reason ?b1) = (b3, e)" for l st re reason b3 e
          using mark_layer_calm nl that by (rule calm_fst)
        from False \<open>be_stack env = Some sc\<close> \<open>be_provider env\<close> None l assms b1 nl show ?thesis
          by (auto simp: stackLanding_def Let_def intro!: calm_intros dest: ml split: option.splits prod.splits if_splits)
      qed
    qed
  qed (use assms Some in \<open>simp add: stackLanding_def\<close>)
qed (use assms in \<open>simp add: stackLanding_def\<close>)

lemma leads_stackLanding:
  assumes "abort_stays env"
  shows "leads (after_validation env) (stackLanding env) (before_finalize env)"
  unfolding leads_def
proof (intro allI impI)
  fix b b' r assume s: "stackLanding env b = (b', r)" and pre: "after_validation env b"
  from stackLanding_cases [OF s] have "before_finalize env b'"
  proof
    assume "calm b b'"
    with calm_keeps(4) [OF assms] after_finalize [OF pre] show ?thesis by blast
  next
    assume "\<not> build_failed b \<and> \<not> aborted env b \<and> (\<exists>c. calm b c \<and> calm (c\<lparr>bd_landed := True\<rparr>) b')"
    then obtain c where c: "\<not> build_failed b" "\<not> aborted env b" "calm b c" "calm (c\<lparr>bd_landed := True\<rparr>) b'" by blast
    have "sound env b" using pre c(1,2) by (simp add: after_validation_def sound_def uncompleted_def)
    then have "all_merged c" "validated env c" "uncompleted c"
      using calm_keeps(1) [OF assms c(3)] all_merged_cong [of c b] pre c
      by (auto simp: calm_def after_validation_def validated_def commands_passed_def sound_def)
    then have "before_finalize env (c\<lparr>bd_landed := True\<rparr>)"
      by (simp add: before_finalize_def uncompleted_def all_merged_def validated_def commands_passed_def)
    with calm_keeps(4) [OF assms c(4)] show ?thesis by blast
  qed
  then show "if r = None then before_finalize env b' else uncompleted b'" by (simp add: before_finalize_def)
qed

lemma finish_sound:
  assumes "bd_landed b \<Longrightarrow> all_merged b \<and> validated env b"
  shows "completed_soundly env (finish_status b)"
  using assms by (auto simp: completed_soundly_def finish_status_def all_merged_def validated_def commands_passed_def)

lemma final_gate_calm: "calm b (fst (final_gate env b))"
  by (auto simp: final_gate_def intro!: calm_intros split: option.splits prod.splits)

lemma policy_failure_calm: "calm b (fst (recordFinalPolicyFailure env reason b))"
proof -
  have nl: "calm b (note_landing env LandingSkippedStatus reason b)" by (intro calm_intros calm_refl)
  with mark_layer_calm [of "note_landing env LandingSkippedStatus reason b" env] show ?thesis
    by (auto simp: recordFinalPolicyFailure_def Let_def intro: calm_trans split: option.splits)
qed

lemma followed_by_steady:
  assumes "\<And>b. steady b (fst (p b))" and "\<And>b. steady b (fst (q b))"
  shows "steady b (fst (followed_by p q b))"
proof -
  obtain b1 e where r: "p b = (b1, e)" by fastforce
  with assms(1) [of b] assms(2) [of b1] show ?thesis
    by (auto simp: followed_by_def intro: steady_trans split: option.splits)
qed

lemma unless_failed_steady: "(\<And>b. steady b (fst (p b))) \<Longrightarrow> steady b (fst (unless_failed p b))"
  by (simp add: unless_failed_def steady_ops)

lemmas steady_phases = validate_steady calm_steady [OF prdValidate_calm] calm_steady [OF sync_calm]
  followed_by_steady unless_failed_steady

lemma refresh_steady: "steady b (fst (refresh_for_retry env b))"
proof -
  have "steady b (fst (runDirectPrFinalFreshnessValidationCycle env b))" for b
    unfolding runDirectPrFinalFreshnessValidationCycle_def
    by (intro steady_phases) (simp add: followed_by_steady steady_phases steady_ops)
  moreover have "steady b (fst (recordArtifact env b, None))" for b
    using calm_steady [OF recordArtifact_calm [OF calm_refl]] by simp
  ultimately show ?thesis unfolding refresh_for_retry_def by (intro steady_phases)
qed

lemma attempts_steady: "steady b (fst (direct_pr_attempts env n b))"
proof (induction n arbitrary: b rule: less_induct)
  case (less n)
  obtain b1 r where a: "runFinalizeLandingAttempt env True b = (b1, r)" by fastforce
  have b1: "steady b b1" using calm_steady [OF attempt_run_calm [of b env True]] a by simp
  show ?case
  proof (cases n)
    case 0
    with a b1 show ?thesis
      by (auto simp: direct_pr_attempts.simps [of env 0 b] Let_def intro!: steady_ops split: sum.splits)
  next
    case (Suc n')
    let ?b = "yields [PlanningProgress ''retrying base sync and validation''] b1"
    obtain b2 e where f: "refresh_for_retry env ?b = (b2, e)" by fastforce
    have "steady b ?b" using b1 by (rule steady_ops)
    then have b2: "steady b b2" using refresh_steady [of ?b env] f by (auto intro: steady_trans)
    with less [of n' b2] Suc have "steady b (fst (direct_pr_attempts env n' b2))" by (auto intro: steady_trans)
    with a b1 b2 f Suc show ?thesis
      by (auto simp: direct_pr_attempts.simps [of env "Suc n'" b] split: sum.splits option.splits)
  qed
qed

lemma runFinalizeLanding_steady: "steady b (fst (runFinalizeLanding env b))"
  using attempts_steady calm_steady [OF attempt_run_calm] by (simp add: runFinalizeLanding_def)

text \<open>Landing a validated build: it lands validated or throws without completing.\<close>

lemma land_sound:
  assumes "land env b = (b', r)" and "sound env b" and "\<not> build_failed b"
  shows "uncompleted b' \<and> (r = None \<longrightarrow> bd_landed b' \<longrightarrow> all_merged b' \<and> validated env b')"
proof (cases "be_action env = LandPr \<and> be_stack env \<noteq> None \<and> bd_landed b")
  case True
  with assms show ?thesis by (auto simp: land_def sound_def uncompleted_def)
next
  case False
  obtain b1 x where l: "runFinalizeLanding env b = (b1, x)" by fastforce
  show ?thesis
  proof (cases x)
    case (Inr run)
    let ?r = "ln_result run"
    let ?b2 = "b1\<lparr>bd_landed := lr_succeeded ?r\<rparr>"
    from landing_sound [OF _ assms(2,3)] l Inr have s: "sound env b1" "lr_succeeded ?r \<longrightarrow> \<not> build_failed b1" by auto
    define b3 where "b3 = note_complete env (if lr_succeeded ?r then LandingComplete
       else if ln_reason run \<noteq> None then LandingSkippedStatus else LandingFailed) (lr_prUrl ?r) (ln_reason run) ?b2"
    have "calm ?b2 b3" unfolding b3_def by (intro calm_intros calm_refl)
    moreover have "land env b = stack_outcome env run b3"
      unfolding land_def b3_def Let_def using False l Inr by auto
    then have "stack_outcome env run b3 = (b', r)" using assms(1) by simp
    with stack_outcome_calm [of b3 env run] have "calm b3 b'" by simp
    ultimately have c: "calm ?b2 b'" by (rule calm_trans)
    have "sound env ?b2" using s(1) by (simp add: sound_def all_merged_def validated_def commands_passed_def)
    from calm_sound [OF c this] have s': "sound env b'" .
    show ?thesis
    proof (cases "lr_succeeded ?r")
      case True
      then have "validated env ?b2"
        using s by (simp add: sound_def validated_def commands_passed_def)
      then have "validated env b'" using c by (simp add: calm_def validated_def commands_passed_def)
      with s' show ?thesis by (simp add: sound_def uncompleted_def)
    next
      case False
      then have "\<not> bd_landed b'" using c by (simp add: calm_def)
      with s' show ?thesis by (simp add: sound_def uncompleted_def)
    qed
  next
    case (Inl e)
    have "b' = b1" "r \<noteq> None" using False l Inl assms(1) by (auto simp: land_def)
    moreover have "steady b b1" using runFinalizeLanding_steady [of b env] l by simp
    ultimately show ?thesis using assms(2) by (auto simp: sound_def uncompleted_def steady_def build_failed_def)
  qed
qed

lemma leads_finalize:
  assumes "abort_stays env"
  shows "leads (\<lambda>b. before_finalize env b \<and> \<not> build_failed b) (finalize env) (completed_soundly env)"
  unfolding leads_def
proof (intro allI impI)
  fix b b' r assume f: "finalize env b = (b', r)" and pre: "before_finalize env b \<and> \<not> build_failed b"
  show "if r = None then completed_soundly env b' else uncompleted b'"
  proof (cases "all_merged b \<and> \<not> aborted env b")
    case False
    let ?y = "\<lambda>reason. yields (landing_skipped env reason) b"
    have "before_finalize env (?y reason)" for reason
      using calm_keeps(4) [OF assms calm_ops(1) [OF calm_refl]] pre by blast
    then have "completed_soundly env (finish_status (?y reason))" for reason
      by (intro finish_sound) (auto simp: before_finalize_def)
    then show ?thesis using False f by (auto simp: finalize_def)
  next
    case True
    obtain b1 stop where g: "final_gate env b = (b1, stop)" by fastforce
    have c: "calm b b1" using final_gate_calm [of b env] g by simp
    have "sound env b" using pre True by (auto simp: before_finalize_def sound_def uncompleted_def)
    with c have s: "sound env b1" by (rule calm_sound)
    show ?thesis
    proof (cases stop)
      case (Some reason)
      let ?y = "yields (landing_skipped env reason) b1"
      obtain b2 e where p: "recordFinalPolicyFailure env reason ?y = (b2, e)" by fastforce
      have "calm ?y b2" using policy_failure_calm [of ?y env reason] p by simp
      then have "calm b1 b2" using calm_ops(1) [OF calm_refl] by (blast intro: calm_trans)
      with s have "uncompleted b2" by (auto simp: sound_def uncompleted_def calm_def build_failed_def)
      moreover have "completed_soundly env (fail_build b2)" by (simp add: completed_soundly_def fail_build_def)
      ultimately show ?thesis using f True g Some p by (auto simp: finalize_def split: option.splits)
    next
      case None
      have "\<not> build_failed b1"
        using pre g None by (auto simp: final_gate_def split: if_splits option.splits prod.splits)
      obtain b2 e where l: "land env b1 = (b2, e)" by fastforce
      from land_sound [OF l s \<open>\<not> build_failed b1\<close>] f True g None l finish_sound [of b2 env] show ?thesis
        by (auto simp: finalize_def split: option.splits)
    qed
  qed
qed

lemma leads_execute:
  assumes "abort_stays env"
  shows "leads (before_validation env) (execute env) (completed_soundly env)"
proof -
  note calm_phase = leads_calm [OF assms]
  have failed: "before_validation env b \<Longrightarrow> build_failed b \<Longrightarrow> after_validation env b" for b
    by (simp add: before_validation_def after_validation_def)
  have sync: "leads (before_validation env) (unless_failed (syncDirectPrBaseBeforeValidation env)) (before_validation env)"
    by (rule leads_unless_failed [OF calm_phase(1) [OF sync_calm]])
  have validate: "leads (before_validation env) (unless_failed (validate env)) (after_validation env)"
    by (rule leads_unless_failed [OF leads_validate [OF assms]]) (rule failed)
  have prd: "leads (after_validation env) (unless_failed (prdValidate env)) (after_validation env)"
    by (rule leads_unless_failed [OF calm_phase(2) [OF prdValidate_calm]])
  have "leads (after_validation env) (followed_by (validate env) (unless_failed (prdValidate env))) (after_validation env)"
    by (rule leads_followed_by [OF leads_weaken [OF leads_validate [OF assms] after_before] prd])
  then have again: "leads (after_validation env) (after_gap_close env) (after_validation env)"
    unfolding leads_def after_gap_close_def by auto
  have recorded: "leads (after_validation env) (unless_failed (\<lambda>b. (recordArtifact env b, None))) (after_validation env)"
    by (rule leads_unless_failed [OF calm_phase(2)]) (simp_all add: recordArtifact_calm)
  have "leads (before_finalize env) (unless_failed (finalize env)) (completed_soundly env)"
    unfolding leads_def
  proof (intro allI impI)
    fix b b' r assume u: "unless_failed (finalize env) b = (b', r)" and pre: "before_finalize env b"
    show "if r = None then completed_soundly env b' else uncompleted b'"
    proof (cases "build_failed b")
      case True
      with u have "b' = b" "r = None" by (auto simp: unless_failed_def)
      with True show ?thesis by (simp add: completed_soundly_def build_failed_def)
    next
      case False
      with u leads_finalize [OF assms] pre show ?thesis by (auto simp: unless_failed_def leads_def)
    qed
  qed
  then show ?thesis unfolding execute_def
    by (intro leads_followed_by [OF sync] leads_followed_by [OF validate] leads_followed_by [OF prd]
        leads_followed_by [OF again] leads_followed_by [OF recorded] leads_followed_by [OF leads_stackLanding [OF assms]])
qed

end
