(* ===== verification/BuildGate.thy ===== *)
theory BuildGate
  imports BuildProps
begin

text \<open>The PRD gate: what \<open>prdValidate\<close> has seen when it lets a build go on; and the properties
  of the phases.\<close>

section \<open>The events of the validator\<close>

definition passed_event :: "event \<Rightarrow> bool" where
  "passed_event e \<longleftrightarrow> (\<exists>gaps pct. e = PrdValidationComplete True gaps pct)"

definition gate_inv :: "bool \<Rightarrow> build \<times> prd_locals \<Rightarrow> bool" where
  "gate_inv closed0 x \<longleftrightarrow> (case x of (b, v) \<Rightarrow>
     (closed0 \<longrightarrow> bd_gapClosed b) \<and>
     (pv_passed v = None \<longleftrightarrow> \<not> pv_terminal v) \<and>
     (pv_passed v = Some True \<longrightarrow> (\<exists>e \<in> set (bd_out b). passed_event e)) \<and>
     (pv_gapRun v \<longrightarrow> \<not> closed0 \<and> bd_gapClosed b) \<and>
     (\<not> build_failed b \<longrightarrow> pv_passed v = Some False \<longrightarrow> pv_gapRun v))"

lemma out_frame [simp]:
  "bd_out (yields es b) = bd_out b @ es" "bd_out (tick_time b) = bd_out b" "bd_out (fail_build b) = bd_out b"
  "bd_gapClosed (yields es b) = bd_gapClosed b" "bd_gapClosed (tick_time b) = bd_gapClosed b"
  "bd_gapClosed (fail_build b) = bd_gapClosed b"
  by (simp_all add: yields_def tick_time_def fail_build_def)

lemma close_gaps_inv:
  assumes "close_gaps closer gaps pct (b, v) = ((b', v'), e)"
    and "pv_passed v = Some False" and "pv_terminal v" and "\<not> bd_gapClosed b" and "\<not> c0"
    and "pv_gapRun v \<longrightarrow> \<not> c0 \<and> bd_gapClosed b"
  shows "e = Some AbortError \<or> gate_inv c0 ((b', v'))"
  using assms
  by (auto simp: close_gaps_def gate_inv_def gap_failed_def Let_def split: prod.splits option.splits exn.splits bool.splits if_splits)

lemma gap_handling_inv:
  assumes "prd_gap_handling env gaps pct (b, v) = ((b', v'), e)"
    and "pv_passed v = Some False" and "pv_terminal v" and "c0 \<longrightarrow> bd_gapClosed b"
    and "pv_gapRun v \<longrightarrow> \<not> c0 \<and> bd_gapClosed b"
  shows "e = Some AbortError \<or> gate_inv c0 ((b', v'))"
  using assms close_gaps_inv [of _ gaps pct b v b' v' e c0]
  by (auto simp: prd_gap_handling_def gate_inv_def split: if_splits option.splits)

lemma prd_event_inv:
  assumes r: "prd_event env e (b, v) = ((b', v'), ex)" and inv: "gate_inv c0 (b, v)"
  shows "ex = Some AbortError \<or> gate_inv c0 (b', v')"
proof (cases "\<exists>passed gaps pct. e = PrdValidationComplete passed gaps pct")
  case True
  then obtain passed gaps pct where e: "e = PrdValidationComplete passed gaps pct" by blast
  show ?thesis
  proof (cases passed)
    case True
    with r inv e show ?thesis by (auto simp: prd_event_def gate_inv_def passed_event_def Let_def)
  next
    case False
    with r e have "prd_gap_handling env gaps pct (yields [e] b, v\<lparr>pv_terminal := True, pv_passed := Some False\<rparr>) = ((b', v'), ex)"
      by (simp add: prd_event_def Let_def)
    then show ?thesis by (rule gap_handling_inv) (use inv in \<open>auto simp: gate_inv_def\<close>)
  qed
next
  case False
  then have "ex = None \<and> (b' = b \<or> b' = yields [e] b) \<and>
      (\<exists>a r. v' = v \<or> v' = v\<lparr>pv_buffered := a, pv_received := r\<rparr>)"
    using r by (auto simp: prd_event_def split: event.splits)
  with inv show ?thesis by (auto simp: gate_inv_def)
qed

lemma prd_events_inv:
  "prd_events env es x = (x', ex) \<Longrightarrow> gate_inv c0 x \<Longrightarrow> ex = Some AbortError \<or> gate_inv c0 x'"
proof (induction es arbitrary: x)
  case (Cons e es)
  obtain b v where x: "x = (b, v)" by fastforce
  obtain b1 v1 ex1 where r: "prd_event env e (b, v) = ((b1, v1), ex1)" by (metis prod.collapse)
  from prd_event_inv [OF r] Cons.prems(2) have one: "ex1 = Some AbortError \<or> gate_inv c0 (b1, v1)" by (simp add: x)
  show ?case
  proof (cases ex1)
    case None
    with Cons.prems(1) r have "prd_events env es (b1, v1) = (x', ex)" by (simp add: x)
    with Cons.IH one None show ?thesis by blast
  next
    case (Some a)
    with Cons.prems(1) r one show ?thesis by (auto simp: x)
  qed
qed simp

lemma prd_try_inv:
  assumes "prd_try env validator b = (x, None)"
  shows "gate_inv (bd_gapClosed b) x"
proof -
  obtain es ended where a: "validator (bd_time b) (bd_evidence b) = (es, ended)" by fastforce
  let ?x = "(tick_time b, \<lparr>pv_terminal = False, pv_passed = None, pv_received = False, pv_accepted = False,
    pv_buffered = None, pv_gapRun = False\<rparr>)"
  obtain b1 v threw where r: "prd_events env es ?x = ((b1, v), threw)" by (metis prod.collapse)
  have "gate_inv (bd_gapClosed b) ?x" by (simp add: gate_inv_def)
  from prd_events_inv [OF r this] have "threw = Some AbortError \<or> gate_inv (bd_gapClosed b) (b1, v)" .
  with assms show ?thesis
    by (auto simp: prd_try_def a r gate_inv_def split: if_splits option.splits exn.splits)
qed

lemma missing_terminal_inv:
  "gate_inv c0 x \<Longrightarrow> missing_terminal x = (b, v) \<Longrightarrow> gate_inv c0 (b, v) \<and> (build_failed b \<or> pv_terminal v)"
  by (auto simp: missing_terminal_def gate_inv_def split: prod.splits if_splits)

lemma resolve_out: "set (bd_out b) \<subseteq> set (bd_out (fst (resolveAcceptanceUnknownsIfNeeded env p ev b)))"
  by (auto simp: resolveAcceptanceUnknownsIfNeeded_def Let_def split: option.splits prod.splits sum.splits exn.splits)

section \<open>Properties\<close>


text \<open> C4. A build that ends as completed was landed, has every plan merged, and its last validation
  ran every configured command, each exiting 0 in a clean worktree (or a waiver says that
  there are no commands). \<close>
theorem completed_build_was_validated:
  assumes "execute env b = (b', r)" and "es_status (bd_state b') = RunCompleted"
    and "es_status (bd_state b) \<noteq> RunCompleted" and "\<not> bd_landed b"
    and "build_failed b \<or> aborted env b \<or> all_merged b" and "abort_stays env"
  shows "r = None \<and> bd_landed b' \<and> all_merged b' \<and> (commands_passed env b' \<or> commands_waived env)"
proof -
  have pre: "before_validation env b" using assms(3,4,5) by (simp add: before_validation_def uncompleted_def)
  with leads_execute [OF assms(6)] assms(1) have "if r = None then completed_soundly env b' else uncompleted b'"
    unfolding leads_def by blast
  with assms(2) show ?thesis
    by (auto simp: completed_soundly_def uncompleted_def validated_def split: if_splits)
qed

definition demo_env :: "landing_action \<Rightarrow> (nat \<Rightarrow> bool) \<Rightarrow> (nat \<Rightarrow> bool \<Rightarrow> event list \<times> (exn, landing_result) result) \<Rightarrow> build_env" where
  "demo_env action abort landing = \<lparr>be_postMerge = None, be_validate = Some [''test''], be_timeout = None, be_maxRetries = 2,
     be_policy = None, be_action = action, be_feature = ''f'', be_base = ''main'', be_expected = None, be_minPercent = 75,
     be_prdId = None, be_stack = None, be_provider = False, be_norm = (\<lambda>s. s), be_now = (\<lambda>_. ''t''),
     be_aborted = abort, be_dirty = (\<lambda>_. Some []), be_sha = (\<lambda>_. Some ''sha''),
     be_exec = (\<lambda>_ _. \<lparr>cr_timedOut = False, cr_exitCode = 0, cr_stdout = [], cr_stderr = [], cr_pid = None\<rparr>),
     be_fixer = None, be_prdValidator = None, be_gapCloser = None, be_resolver = None, be_gitStatus = (\<lambda>_. []),
     be_registry = (\<lambda>_. None), be_sync = (\<lambda>_. ([], SyncOk ''synced'')), be_stackLanding = (\<lambda>_. ([], None)),
     be_gates = False, be_policyEvidence = (\<lambda>_. None), be_gate = (\<lambda>_. ([], None)), be_landing = landing\<rparr>"

definition demo_build :: build where
  "demo_build = \<lparr>bd_state = \<lparr>es_setName = ''s'', es_status = RunRunning, es_baseBranch = ''main'', es_featureBranch = ''f'',
       es_worktreeBase = ''w'', es_mergeWorktreePath = None, es_plans = [], es_completedPlans = [], es_ended = False\<rparr>,
     bd_out = [], bd_evidence = None, bd_gapClosed = False, bd_landed = False, bd_synced = False, bd_time = 0,
     bd_artifacts = NoFile, bd_layers = NoFile\<rparr>"

definition lands :: "nat \<Rightarrow> bool \<Rightarrow> event list \<times> (exn, landing_result) result" where
  "lands t g = ([], Inr \<lparr>lr_succeeded = True, lr_prUrl = None, lr_freshnessRetry = False\<rparr>)"

text \<open>The remote base has moved at the first landing attempt only.\<close>

definition base_moved_once :: "nat \<Rightarrow> nat \<Rightarrow> bool \<Rightarrow> event list \<times> (exn, landing_result) result" where
  "base_moved_once k t g = ([], Inr \<lparr>lr_succeeded = (t \<noteq> k), lr_prUrl = None, lr_freshnessRetry = (t = k)\<rparr>)"

lemma demo_merge:
  "(case execute (demo_env LandMerge (\<lambda>_. False) lands) demo_build of
     (b', r) \<Rightarrow> es_status (bd_state b') = RunCompleted \<and> r = None)"
  by code_simp

theorem completed_build_was_validated_witness:
  "\<exists>b'. execute (demo_env LandMerge (\<lambda>_. False) lands) demo_build = (b', None) \<and>
     commands_passed (demo_env LandMerge (\<lambda>_. False) lands) b'"
proof -
  let ?env = "demo_env LandMerge (\<lambda>_. False) lands"
  obtain b' where r: "execute ?env demo_build = (b', None)" "es_status (bd_state b') = RunCompleted"
    using demo_merge by (auto split: prod.splits)
  have "es_status (bd_state demo_build) \<noteq> RunCompleted" "\<not> bd_landed demo_build" "all_merged demo_build" "abort_stays ?env"
    by (simp_all add: demo_build_def all_merged_def abort_stays_def demo_env_def)
  with completed_build_was_validated [OF r] have "commands_passed ?env b' \<or> commands_waived ?env" by blast
  moreover have "\<not> commands_waived ?env"
    by (simp add: commands_waived_def validation_commands_def demo_env_def opt_list_def)
  ultimately show ?thesis using r by blast
qed

text \<open>
  Aborting during a freshness retry does not stop it: \<open>validate\<close> returns without a verdict
  when the signal is aborted, the base synchronised in between is not validated, and the
  next attempt lands it. In the run below the abort comes after the first attempt; the
  output has two synchronisations, one validation, and the run completes.
\<close>

theorem aborted_retry_lands_unvalidated:
  "\<exists>k a b'. execute (demo_env LandPr (\<lambda>t. t \<ge> a) (base_moved_once k)) demo_build = (b', None) \<and>
     es_status (bd_state b') = RunCompleted \<and>
     length (filter (\<lambda>e. e = PlanningProgress ''synced'') (bd_out b')) = 2 \<and>
     length (filter (\<lambda>e. e = ValidationComplete True) (bd_out b')) = 1"
proof -
  have "(case execute (demo_env LandPr (\<lambda>t. t \<ge> 5) (base_moved_once 4)) demo_build of
     (b', r) \<Rightarrow> r = None \<and> es_status (bd_state b') = RunCompleted \<and>
       length (filter (\<lambda>e. e = PlanningProgress ''synced'') (bd_out b')) = 2 \<and>
       length (filter (\<lambda>e. e = ValidationComplete True) (bd_out b')) = 1)"
    by code_simp
  then show ?thesis by (intro exI [of _ 4] exI [of _ 5]) (auto split: prod.splits)
qed


end
