(* ===== verification/Frontmatter.thy ===== *)
theory Frontmatter
  imports LockFile
begin

text \<open>
  The frontmatter of a PRD file (\<open>prd-frontmatter.ts\<close>) and the rewriting of its fields
  (\<open>setQueuedPrdFrontmatterFields\<close>, \<open>deleteQueuedPrdFrontmatterFieldsExistingOnly\<close> and the
  serialisation in \<open>enqueuePrd\<close>, all of \<open>prd-queue.ts\<close>). Text is 8-bit; the regular
  expressions are written out as scanners. The schema (zod) is the argument \<open>safeParse\<close>.
  The lemmas show that what is written is read back.
\<close>

section \<open>Strings\<close>

definition code :: "char \<Rightarrow> nat" where
  "code c = of_char c"

abbreviation nl :: char where "nl \<equiv> CHR 0x0A"
abbreviation dq :: char where "dq \<equiv> CHR 0x22"
abbreviation bs :: char where "bs \<equiv> CHR 0x5C"

definition is_control :: "char \<Rightarrow> bool" where
  "is_control c \<longleftrightarrow> code c < 32 \<or> code c = 127"

text \<open>\<open>String.prototype.split\<close> by one character, \<open>join\<close>, and \<open>trimEnd\<close>.\<close>

fun split_on :: "char \<Rightarrow> string \<Rightarrow> string list" where
  "split_on c [] = [[]]"
| "split_on c (x # xs) =
     (case split_on c xs of
        [] \<Rightarrow> [[x]]
      | p # ps \<Rightarrow> if x = c then [] # p # ps else (x # p) # ps)"

lemma split_on_ne [simp]: "split_on c s \<noteq> []"
  by (cases s) (auto split: list.splits)

lemma split_on_Cons: "split_on c (x # xs) = (if x = c then [] # split_on c xs
     else (x # hd (split_on c xs)) # tl (split_on c xs))"
  by (cases "split_on c xs") auto

declare split_on.simps(2) [simp del]
declare split_on_Cons [simp]

fun join :: "string \<Rightarrow> string list \<Rightarrow> string" where
  "join sep [] = []"
| "join sep [s] = s"
| "join sep (s # t # ss) = s @ sep @ join sep (t # ss)"

definition trimEnd :: "string \<Rightarrow> string" where
  "trimEnd s = rev (dropWhile is_ws (rev s))"

definition trimStart :: "string \<Rightarrow> string" where
  "trimStart s = dropWhile is_ws s"

text \<open>\<open>value.slice(1, -1)\<close>.\<close>

definition slice1 :: "string \<Rightarrow> string" where
  "slice1 s = butlast (tl s)"

section \<open>JSON strings\<close>

text \<open>\<open>JSON.stringify\<close> of a string.\<close>

definition hex_digit :: "nat \<Rightarrow> char" where
  "hex_digit n = (if n < 10 then char_of (48 + n) else char_of (87 + n))"

definition json_escape :: "char \<Rightarrow> string" where
  "json_escape c =
     (if c = dq then [bs, dq]
      else if c = bs then [bs, bs]
      else if code c = 8 then [bs, CHR ''b'']
      else if code c = 12 then [bs, CHR ''f'']
      else if code c = 10 then [bs, CHR ''n'']
      else if code c = 13 then [bs, CHR ''r'']
      else if code c = 9 then [bs, CHR ''t'']
      else if code c < 32
        then [bs, CHR ''u'', CHR ''0'', CHR ''0'', hex_digit (code c div 16), hex_digit (code c mod 16)]
      else [c])"

definition json_stringify :: "string \<Rightarrow> string" where
  "json_stringify s = dq # concat (map json_escape s) @ [dq]"

text \<open>\<open>JSON.parse\<close> of a text that starts with a double quote: a string, a syntax error, or a
  string with a character above 255, which has no 8-bit rendering.\<close>

datatype json_result = JError | JWide | JStr string

fun jcons :: "char \<Rightarrow> json_result \<Rightarrow> json_result" where
  "jcons c (JStr s) = JStr (c # s)"
| "jcons c r = r"

fun jwide :: "json_result \<Rightarrow> json_result" where
  "jwide JError = JError"
| "jwide r = JWide"

definition hex_val :: "char \<Rightarrow> nat option" where
  "hex_val c = (let n = code c in
     if 48 \<le> n \<and> n \<le> 57 then Some (n - 48)
     else if 97 \<le> n \<and> n \<le> 102 then Some (n - 87)
     else if 65 \<le> n \<and> n \<le> 70 then Some (n - 55)
     else None)"

definition unescape :: "char \<Rightarrow> char option" where
  "unescape e =
     (if e = dq \<or> e = bs \<or> e = CHR ''/'' then Some e
      else if e = CHR ''b'' then Some (char_of (8::nat))
      else if e = CHR ''f'' then Some (char_of (12::nat))
      else if e = CHR ''n'' then Some (char_of (10::nat))
      else if e = CHR ''r'' then Some (char_of (13::nat))
      else if e = CHR ''t'' then Some (char_of (9::nat))
      else None)"

fun hex4 :: "char \<Rightarrow> char \<Rightarrow> char \<Rightarrow> char \<Rightarrow> nat option" where
  "hex4 a b c d = (case (hex_val a, hex_val b, hex_val c, hex_val d) of
     (Some w, Some x, Some y, Some z) \<Rightarrow> Some (((w * 16 + x) * 16 + y) * 16 + z)
   | _ \<Rightarrow> None)"

text \<open>The text after the opening quote.\<close>

function json_body :: "string \<Rightarrow> json_result" where
  "json_body s =
     (case s of
        [] \<Rightarrow> JError
      | c # cs \<Rightarrow>
          if c = dq then (if cs = [] then JStr [] else JError)
          else if c = bs then
            (case cs of
               [] \<Rightarrow> JError
             | e # es \<Rightarrow>
                 (case unescape e of
                    Some x \<Rightarrow> jcons x (json_body es)
                  | None \<Rightarrow>
                      if e = CHR ''u'' then
                        (case es of
                           h1 # h2 # h3 # h4 # r \<Rightarrow>
                             (case hex4 h1 h2 h3 h4 of
                                None \<Rightarrow> JError
                              | Some n \<Rightarrow> if n < 256 then jcons (char_of n) (json_body r)
                                          else jwide (json_body r))
                         | _ \<Rightarrow> JError)
                      else JError))
          else if code c < 32 then JError
          else jcons c (json_body cs))"
  by pat_completeness auto
termination by (relation "measure length") auto

declare json_body.simps [simp del]

section \<open>Scalars\<close>

text \<open>Integers are unbounded: \<open>parseInt\<close> is exact up to \<open>2^53\<close>, and larger values are refused
  by \<open>z.number().int()\<close>.\<close>

datatype fm_val = FStr string | FInt int | FBool bool | FList "fm_val list" | FWide

text \<open>\<open>/^-?\d+$/\<close> and \<open>parseInt\<close>.\<close>

definition int_token :: "string \<Rightarrow> bool" where
  "int_token s \<longleftrightarrow> (case s of [] \<Rightarrow> False | c # cs \<Rightarrow> if c = CHR ''-'' then all_digits cs else all_digits s)"

definition parse_int :: "string \<Rightarrow> int" where
  "parse_int s = (if s \<noteq> [] \<and> hd s = CHR ''-'' then - int (dec_val (tl s)) else int (dec_val s))"

definition bracketed :: "char \<Rightarrow> char \<Rightarrow> string \<Rightarrow> bool" where
  "bracketed a b s \<longleftrightarrow> s \<noteq> [] \<and> hd s = a \<and> last s = b"

lemma length_trim: "length (trim s) \<le> length s"
  unfolding trim_def by (metis length_dropWhile_le length_rev order_trans)

lemma length_split_on: "p \<in> set (split_on c s) \<Longrightarrow> length p \<le> length s"
proof (induction s arbitrary: p)
  case (Cons x xs)
  have "length (hd (split_on c xs)) \<le> length xs" by (rule Cons.IH) simp
  moreover have "length q \<le> length xs" if "q \<in> set (tl (split_on c xs))" for q
    by (rule Cons.IH) (use that in \<open>meson list.set_sel(2) split_on_ne\<close>)
  ultimately show ?case
    using Cons.prems Cons.IH by (auto split: if_splits) force+
qed simp

function parseFrontmatterScalar :: "string \<Rightarrow> fm_val" where
  "parseFrontmatterScalar v =
     (if bracketed (CHR ''['') (CHR '']'') v then
        (let inner = trim (slice1 v) in
         if inner \<noteq> [] then FList (map (\<lambda>s. parseFrontmatterScalar (trim s)) (split_on (CHR '','') inner))
         else FList [])
      else if int_token v then FInt (parse_int v)
      else if v = ''true'' \<or> v = ''false'' then FBool (v = ''true'')
      else if bracketed dq dq v then
        (case json_body (tl v) of JStr s \<Rightarrow> FStr s | JWide \<Rightarrow> FWide | JError \<Rightarrow> FStr (slice1 v))
      else if bracketed (CHR 39) (CHR 39) v then FStr (slice1 v)
      else FStr v)"
  by pat_completeness auto
termination
proof (relation "measure length")
  fix v inner s
  assume b: "bracketed (CHR ''['') (CHR '']'') v" and i: "inner = trim (slice1 v)" and "inner \<noteq> []"
    and s: "s \<in> set (split_on (CHR '','') inner)"
  have "length (trim s) \<le> length s" by (rule length_trim)
  also have "\<dots> \<le> length inner" using s by (rule length_split_on)
  also have "\<dots> \<le> length (slice1 v)" unfolding i by (rule length_trim)
  also have "\<dots> < length v" using b by (cases v) (auto simp: bracketed_def slice1_def)
  finally show "(trim s, v) \<in> measure length" by simp
qed simp

declare parseFrontmatterScalar.simps [simp del]

text \<open>A plain YAML scalar is unsafe: an indicator character or white space first, a colon
  before white space or the end, white space before a hash, or trailing white space.\<close>

definition indicator :: "char \<Rightarrow> bool" where
  "indicator c \<longleftrightarrow> is_ws c \<or> c \<in> set ''-?,[]{}#&*!|>'' \<or> c = CHR 39 \<or> c = dq \<or> c \<in> set ''%@'' \<or> c = CHR 0x60"

fun unsafe_inside :: "string \<Rightarrow> bool" where
  "unsafe_inside [] \<longleftrightarrow> False"
| "unsafe_inside (c # cs) \<longleftrightarrow>
     (c = CHR '':'' \<and> (cs = [] \<or> is_ws (hd cs))) \<or>
     (is_ws c \<and> (cs = [] \<or> hd cs = CHR ''#'')) \<or> unsafe_inside cs"

definition yaml_plain_unsafe :: "string \<Rightarrow> bool" where
  "yaml_plain_unsafe s \<longleftrightarrow> (s \<noteq> [] \<and> indicator (hd s)) \<or> unsafe_inside s"

definition lower_ascii :: "char \<Rightarrow> char" where
  "lower_ascii c = (if 65 \<le> code c \<and> code c \<le> 90 then char_of (code c + 32) else c)"

definition yaml_non_string_word :: "string \<Rightarrow> bool" where
  "yaml_non_string_word s \<longleftrightarrow>
     map lower_ascii s \<in> {''null'', ''~'', ''true'', ''false'', ''yes'', ''no'', ''on'', ''off''}"

text \<open>The tail of a decimal after its mantissa: empty or an exponent.\<close>

definition exponent_ok :: "string \<Rightarrow> bool" where
  "exponent_ok s \<longleftrightarrow> (case s of [] \<Rightarrow> True
     | c # r \<Rightarrow> c = CHR ''e'' \<and>
         (case r of [] \<Rightarrow> False | d # r' \<Rightarrow> if d \<in> set ''+-'' then all_digits r' else all_digits r))"

definition decimal_token :: "string \<Rightarrow> bool" where
  "decimal_token s \<longleftrightarrow>
     (let r = dropWhile is_digit s in
      if r \<noteq> s
      then (case r of c # r' \<Rightarrow> if c = CHR ''.'' then exponent_ok (dropWhile is_digit r') else exponent_ok r
                    | [] \<Rightarrow> True)
      else (case s of c # r' \<Rightarrow> c = CHR ''.'' \<and> r' \<noteq> [] \<and> is_digit (hd r') \<and>
                                exponent_ok (dropWhile is_digit r')
                    | [] \<Rightarrow> False))"

definition yaml_number_token :: "string \<Rightarrow> bool" where
  "yaml_number_token s \<longleftrightarrow>
     (let l = map lower_ascii s;
          b = (if l \<noteq> [] \<and> hd l \<in> set ''+-'' then tl l else l)
      in (take 2 b = ''0x'' \<and> drop 2 b \<noteq> [] \<and> list_all (\<lambda>c. hex_val c \<noteq> None) (drop 2 b))
       \<or> (take 2 b = ''0o'' \<and> drop 2 b \<noteq> [] \<and> list_all (\<lambda>c. 48 \<le> code c \<and> code c \<le> 55) (drop 2 b))
       \<or> decimal_token b \<or> b = ''.inf'' \<or> b = ''.nan'')"

text \<open>\<open>None\<close> is the error thrown for a control character.\<close>

definition assertSafeFrontmatterString :: "string \<Rightarrow> string option" where
  "assertSafeFrontmatterString s = (if list_ex is_control s then None else Some s)"

definition serializeFrontmatterStringScalar :: "string \<Rightarrow> string option" where
  "serializeFrontmatterStringScalar value =
     map_option (\<lambda>safe.
       if safe = [] \<or> yaml_plain_unsafe safe \<or> yaml_non_string_word safe \<or> yaml_number_token safe
          \<or> parseFrontmatterScalar safe \<noteq> FStr safe
       then json_stringify safe else safe) (assertSafeFrontmatterString value)"

datatype field_value = VStr string | VInt int | VBool bool | VList "string list"

definition int_string :: "int \<Rightarrow> string" where
  "int_string i = (if i < 0 then CHR ''-'' # dec_string (nat (- i)) else dec_string (nat i))"

fun serializeFrontmatterFieldValue :: "field_value \<Rightarrow> string option" where
  "serializeFrontmatterFieldValue (VList items) =
     (if list_all (\<lambda>i. assertSafeFrontmatterString i \<noteq> None) items
      then Some ([CHR ''[''] @ join '', '' (map json_stringify items) @ [CHR '']'']) else None)"
| "serializeFrontmatterFieldValue (VBool b) = Some (if b then ''true'' else ''false'')"
| "serializeFrontmatterFieldValue (VInt i) = Some (int_string i)"
| "serializeFrontmatterFieldValue (VStr s) = serializeFrontmatterStringScalar s"

section \<open>The frontmatter block\<close>

text \<open>\<open>/^---\n([\s\S]*?)\n---([\s\S]*)$/\<close>: the body up to the first line break before three
  dashes, and the text after them.\<close>

fun find_close :: "string \<Rightarrow> (string \<times> string) option" where
  "find_close [] = None"
| "find_close (c # cs) =
     (if take 4 (c # cs) = nl # ''---'' then Some ([], drop 4 (c # cs))
      else map_option (\<lambda>(a, b). (c # a, b)) (find_close cs))"

definition split_frontmatter :: "string \<Rightarrow> (string \<times> string) option" where
  "split_frontmatter content =
     (if take 4 content = ''---'' @ [nl] then find_close (drop 4 content) else None)"

definition word_char :: "char \<Rightarrow> bool" where
  "word_char c \<longleftrightarrow> (65 \<le> code c \<and> code c \<le> 90) \<or> (97 \<le> code c \<and> code c \<le> 122) \<or> is_digit c \<or> c = CHR ''_''"

text \<open>What \<open>.\<close> does not match.\<close>

definition line_end :: "char \<Rightarrow> bool" where
  "line_end c \<longleftrightarrow> c = nl \<or> code c = 13"

text \<open>\<open>/^\s+-\s*(.*)$/\<close>.\<close>

definition list_match :: "string \<Rightarrow> string option" where
  "list_match line =
     (let r = dropWhile is_ws line in
      if r \<noteq> line \<and> r \<noteq> [] \<and> hd r = CHR ''-''
      then (let v = dropWhile is_ws (tl r) in if list_ex line_end v then None else Some v)
      else None)"

text \<open>\<open>/^(\w[\w_]*)\s*:/\<close> and \<open>/^(\w[\w_]*)\s*:\s*(.*)/\<close>.\<close>

definition kv_split :: "string \<Rightarrow> (string \<times> string) option" where
  "kv_split line =
     (let key = takeWhile word_char line; r = dropWhile is_ws (dropWhile word_char line) in
      if key \<noteq> [] \<and> r \<noteq> [] \<and> hd r = CHR '':'' then Some (key, tl r) else None)"

definition kv_match :: "string \<Rightarrow> (string \<times> string) option" where
  "kv_match line =
     map_option (\<lambda>(key, r). (key, takeWhile (\<lambda>c. \<not> line_end c) (dropWhile is_ws r))) (kv_split line)"

type_synonym fm_dict = "(string \<times> fm_val) list"

text \<open>\<open>result[currentListKey].push(v)\<close>.\<close>

definition push_item :: "string \<Rightarrow> fm_val \<Rightarrow> fm_dict \<Rightarrow> fm_dict" where
  "push_item k v m = (case dget m k of Some (FList vs) \<Rightarrow> dput k (FList (vs @ [v])) m | _ \<Rightarrow> m)"

definition parse_line :: "string \<Rightarrow> fm_dict \<times> string option \<Rightarrow> fm_dict \<times> string option" where
  "parse_line line st =
     (let (m, cur) = st in
      case (list_match line, cur) of
        (Some item, Some k) \<Rightarrow> (push_item k (parseFrontmatterScalar (trim item)) m, cur)
      | _ \<Rightarrow>
          (case kv_match line of
             None \<Rightarrow> (m, None)
           | Some (key, raw) \<Rightarrow>
               if trim raw = [] then (dput key (FList []) m, Some key)
               else (dput key (parseFrontmatterScalar (trim raw)) m, None)))"

definition parse_lines :: "string list \<Rightarrow> fm_dict \<times> string option \<Rightarrow> fm_dict \<times> string option" where
  "parse_lines ls st = fold parse_line ls st"

definition parseFrontmatter :: "string \<Rightarrow> fm_dict option" where
  "parseFrontmatter content =
     map_option (\<lambda>(fmBody, _). fst (parse_lines (split_on nl fmBody) ([], None))) (split_frontmatter content)"

section \<open>Rewriting fields\<close>

datatype fm_error = NoFrontmatterBlock | UnsafeString | InvalidFrontmatter | Enoent | ChangedUnderneath

text \<open>\<open>validatePrdFrontmatter\<close>: the removed field \<open>onSuccess\<close> is refused before the schema.\<close>

definition validatePrdFrontmatter :: "(fm_dict option \<Rightarrow> 'f option) \<Rightarrow> fm_dict option \<Rightarrow> 'f option" where
  "validatePrdFrontmatter safeParse data =
     (case data of
        Some m \<Rightarrow> if ''onSuccess'' \<in> set (dkeys m) then None else safeParse data
      | None \<Rightarrow> safeParse data)"

record 'f queued_file =
  qf_filePath :: string
  qf_content :: string
  qf_frontmatter :: 'f

type_synonym file_store = "(string \<times> string) list"

text \<open>\<open>writeExistingFile\<close>: the file must exist, and \<open>same_inode\<close> tells whether the path still
  names it when the replacement is renamed over it.\<close>

definition writeExistingFile :: "bool \<Rightarrow> string \<Rightarrow> string \<Rightarrow> file_store \<Rightarrow> (fm_error, file_store) result" where
  "writeExistingFile same_inode path content fs =
     (if path \<notin> set (dkeys fs) then Inl Enoent
      else if \<not> same_inode then Inl ChangedUnderneath
      else Inr (dput path content fs))"

definition write_prd :: "bool \<Rightarrow> bool \<Rightarrow> string \<Rightarrow> string \<Rightarrow> file_store \<Rightarrow> (fm_error, file_store) result" where
  "write_prd existingOnly same_inode path content fs =
     (if existingOnly then writeExistingFile same_inode path content fs else Inr (dput path content fs))"

text \<open>The common tail of both rewriters: parse and validate the new text, then write it.\<close>

definition commit_frontmatter :: "(fm_dict option \<Rightarrow> 'f option) \<Rightarrow> bool \<Rightarrow> bool \<Rightarrow> 'f queued_file \<Rightarrow> string \<Rightarrow>
    file_store \<Rightarrow> (fm_error, 'f queued_file \<times> file_store) result" where
  "commit_frontmatter safeParse existingOnly same_inode prd newContent fs =
     (case validatePrdFrontmatter safeParse (parseFrontmatter newContent) of
        None \<Rightarrow> Inl InvalidFrontmatter
      | Some data \<Rightarrow>
          (case write_prd existingOnly same_inode (qf_filePath prd) newContent fs of
             Inl e \<Rightarrow> Inl e
           | Inr fs' \<Rightarrow> Inr (prd\<lparr>qf_content := newContent, qf_frontmatter := data\<rparr>, fs')))"

definition rebuild :: "string list \<Rightarrow> string \<Rightarrow> string" where
  "rebuild ls bodyPart = ''---'' @ [nl] @ trimEnd (join [nl] ls) @ [nl] @ ''---'' @ bodyPart"

text \<open>The lines kept by \<open>deleteQueuedPrdFrontmatterFieldsExistingOnly\<close>.\<close>

definition keep_line :: "string list \<Rightarrow> string \<Rightarrow> bool" where
  "keep_line deleteKeys line = (case kv_split line of None \<Rightarrow> True | Some (key, _) \<Rightarrow> key \<notin> set deleteKeys)"

definition deleteQueuedPrdFrontmatterFieldsExistingOnly ::
    "(fm_dict option \<Rightarrow> 'f option) \<Rightarrow> bool \<Rightarrow> 'f queued_file \<Rightarrow> string list \<Rightarrow> file_store \<Rightarrow>
     (fm_error, 'f queued_file \<times> file_store) result" where
  "deleteQueuedPrdFrontmatterFieldsExistingOnly safeParse same_inode prd fieldNames fs =
     (case split_frontmatter (qf_content prd) of
        None \<Rightarrow> Inl NoFrontmatterBlock
      | Some (fmBody, bodyPart) \<Rightarrow>
          commit_frontmatter safeParse True same_inode prd
            (rebuild (filter (keep_line fieldNames) (split_on nl fmBody)) bodyPart) fs)"

text \<open>\<open>key: value\<close>; the fields still to write are an insertion-ordered dictionary, \<open>None\<close>
  standing for a value that is undefined.\<close>

type_synonym field_map = "(string \<times> field_value option) list"

definition field_line :: "string \<Rightarrow> field_value \<Rightarrow> string option" where
  "field_line key v = map_option (\<lambda>t. key @ '': '' @ t) (serializeFrontmatterFieldValue v)"

fun update_lines :: "string list \<Rightarrow> field_map \<Rightarrow> (string list \<times> field_map) option" where
  "update_lines [] remaining = Some ([], remaining)"
| "update_lines (line # ls) remaining =
     (let key = map_option fst (kv_split line) in
      case Option.bind key (dget remaining) of
        None \<Rightarrow> map_option (\<lambda>(out, r). (line # out, r)) (update_lines ls remaining)
      | Some value \<Rightarrow>
          (let remaining' = ddel (the key) remaining in
           case value of
             None \<Rightarrow> update_lines ls remaining'
           | Some v \<Rightarrow>
               (case field_line (the key) v of
                  None \<Rightarrow> None
                | Some t \<Rightarrow> map_option (\<lambda>(out, r). (t # out, r)) (update_lines ls remaining'))))"

fun append_fields :: "field_map \<Rightarrow> string list option" where
  "append_fields [] = Some []"
| "append_fields ((key, None) # r) = append_fields r"
| "append_fields ((key, Some v) # r) =
     (case field_line key v of
        None \<Rightarrow> None
      | Some t \<Rightarrow> map_option (\<lambda>out. t # out) (append_fields r))"

definition updated_lines :: "string list \<Rightarrow> field_map \<Rightarrow> string list option" where
  "updated_lines ls flds =
     (case update_lines ls flds of
        None \<Rightarrow> None
      | Some (out, remaining) \<Rightarrow> map_option (\<lambda>added. out @ added) (append_fields remaining))"

definition setQueuedPrdFrontmatterFields ::
    "(fm_dict option \<Rightarrow> 'f option) \<Rightarrow> bool \<Rightarrow> bool \<Rightarrow> 'f queued_file \<Rightarrow> field_map \<Rightarrow> file_store \<Rightarrow>
     (fm_error, 'f queued_file \<times> file_store) result" where
  "setQueuedPrdFrontmatterFields safeParse existingOnly same_inode prd flds fs =
     (case split_frontmatter (qf_content prd) of
        None \<Rightarrow> Inl NoFrontmatterBlock
      | Some (fmBody, bodyPart) \<Rightarrow>
          (case updated_lines (split_on nl fmBody) flds of
             None \<Rightarrow> Inl UnsafeString
           | Some ls \<Rightarrow> commit_frontmatter safeParse existingOnly same_inode prd (rebuild ls bodyPart) fs))"

definition setQueuedPrdFrontmatterFieldsExistingOnly ::
    "(fm_dict option \<Rightarrow> 'f option) \<Rightarrow> bool \<Rightarrow> 'f queued_file \<Rightarrow> field_map \<Rightarrow> file_store \<Rightarrow>
     (fm_error, 'f queued_file \<times> file_store) result" where
  "setQueuedPrdFrontmatterFieldsExistingOnly safeParse same_inode prd flds fs =
     setQueuedPrdFrontmatterFields safeParse True same_inode prd flds fs"

definition setQueuedPrdFrontmatterString ::
    "(fm_dict option \<Rightarrow> 'f option) \<Rightarrow> 'f queued_file \<Rightarrow> string \<Rightarrow> string \<Rightarrow> file_store \<Rightarrow>
     (fm_error, 'f queued_file \<times> file_store) result" where
  "setQueuedPrdFrontmatterString safeParse prd field value fs =
     setQueuedPrdFrontmatterFields safeParse False True prd [(field, Some (VStr value))] fs"

section \<open>Scalars are read back\<close>

subsection \<open>JSON strings\<close>

lemma code_less: "code c < 256"
  by (simp add: code_def)

lemma char_of_code [simp]: "char_of (code c) = c"
  by (simp add: code_def)

lemma code_char_of: "n < 256 \<Longrightarrow> code (char_of n) = n"
  by (simp add: code_def)

lemma hex_val_digit: "n < 16 \<Longrightarrow> hex_val (hex_digit n) = Some n"
  by (simp add: hex_val_def hex_digit_def code_char_of Let_def)

lemma hex_digit_plain: "n < 16 \<Longrightarrow> \<not> is_control (hex_digit n)"
  by (simp add: hex_digit_def is_control_def code_char_of)

lemma code_eq [simp]: "code c = code d \<longleftrightarrow> c = d"
  by (simp add: code_def)

lemma json_body_plain: "c \<noteq> dq \<Longrightarrow> c \<noteq> bs \<Longrightarrow> \<not> code c < 32 \<Longrightarrow> json_body (c # r) = jcons c (json_body r)"
  by (subst json_body.simps) simp

lemma json_body_short: "unescape e = Some x \<Longrightarrow> json_body (bs # e # r) = jcons x (json_body r)"
  by (subst json_body.simps) simp

lemma json_body_u:
  "hex4 a b c d = Some n \<Longrightarrow> n < 256 \<Longrightarrow>
   json_body (bs # CHR ''u'' # a # b # c # d # r) = jcons (char_of n) (json_body r)"
  by (subst json_body.simps) (simp add: unescape_def)

lemma char_of_eq_code: "code c = n \<Longrightarrow> char_of n = c"
  by auto

lemma json_body_escape: "json_body (json_escape c @ r) = jcons c (json_body r)"
proof -
  have u: "hex4 (CHR ''0'') (CHR ''0'') (hex_digit (code c div 16)) (hex_digit (code c mod 16)) = Some (code c)"
    if "code c < 32"
  proof -
    have "code c div 16 < 16" "code c mod 16 < 16" using that by auto
    then show ?thesis
      by (simp add: hex_val_digit) (simp add: hex_val_def code_def)
  qed
  have "code c < 256" by (rule code_less)
  then show ?thesis
    by (auto simp: json_escape_def json_body_short unescape_def json_body_plain json_body_u u char_of_eq_code
             simp del: hex4.simps)
qed

lemma json_body_escapes: "json_body (concat (map json_escape s) @ [dq]) = JStr s"
proof (induction s)
  case Nil
  then show ?case by (simp, subst json_body.simps, simp)
next
  case (Cons c s)
  then show ?case by (simp add: json_body_escape)
qed

lemma json_escape_clean: "\<not> is_control c \<Longrightarrow> x \<in> set (json_escape c) \<Longrightarrow> \<not> is_control x"
  by (auto simp: json_escape_def is_control_def code_def split: if_splits)

lemma json_stringify_clean: "\<not> list_ex is_control s \<Longrightarrow> \<not> list_ex is_control (json_stringify s)"
  by (auto simp: list_ex_iff json_stringify_def is_control_def [of dq] code_def dest: json_escape_clean)

lemma json_escape_comma: "c \<noteq> CHR '','' \<Longrightarrow> \<not> is_control c \<Longrightarrow> CHR '','' \<notin> set (json_escape c)"
  by (auto simp: json_escape_def is_control_def split: if_splits)

lemma json_stringify_ends: "json_stringify s \<noteq> []" "hd (json_stringify s) = dq" "last (json_stringify s) = dq"
  "tl (json_stringify s) = concat (map json_escape s) @ [dq]"
  by (simp_all add: json_stringify_def)

subsection \<open>Trimming\<close>

lemma trimEnd_append: "\<exists>w. s = trimEnd s @ w \<and> list_all is_ws w"
proof -
  have "s = rev (dropWhile is_ws (rev s)) @ rev (takeWhile is_ws (rev s))"
    by (metis rev_append rev_rev_ident takeWhile_dropWhile_id)
  then show ?thesis
    unfolding trimEnd_def by (metis list_all_iff set_rev set_takeWhileD)
qed

lemma trimEnd_id: "s = [] \<or> \<not> is_ws (last s) \<Longrightarrow> trimEnd s = s"
  by (cases s rule: rev_cases) (auto simp: trimEnd_def)

lemma trimEnd_last: "trimEnd s \<noteq> [] \<Longrightarrow> \<not> is_ws (last (trimEnd s))"
proof -
  assume "trimEnd s \<noteq> []"
  then have "dropWhile is_ws (rev s) \<noteq> []" by (simp add: trimEnd_def)
  then show ?thesis by (simp add: trimEnd_def last_rev hd_dropWhile)
qed

lemma trim_trimEnd: "trim s = trimEnd (dropWhile is_ws s)"
  by (simp add: trim_def trimEnd_def)

lemma trim_id: "s = [] \<or> (\<not> is_ws (hd s) \<and> \<not> is_ws (last s)) \<Longrightarrow> trim s = s"
  by (cases s) (auto simp: trim_trimEnd intro: trimEnd_id)

lemma trimEnd_ws: "list_all is_ws w \<Longrightarrow> trimEnd (s @ w) = trimEnd s"
  by (simp add: trimEnd_def dropWhile_append list_all_iff)

lemma trimEnd_blank: "trimEnd s = [] \<longleftrightarrow> list_all is_ws s"
  by (simp add: trimEnd_def list_all_iff)

lemma trimEnd_prefix: "trimEnd b \<noteq> [] \<Longrightarrow> trimEnd (a @ b) = a @ trimEnd b"
proof -
  assume "trimEnd b \<noteq> []"
  then have "\<exists>x \<in> set (rev b). \<not> is_ws x" by (auto simp: trimEnd_blank list_all_iff)
  then show ?thesis by (auto simp: trimEnd_def dropWhile_append)
qed

lemma control_of_lf [simp]: "is_control nl"
  by (simp add: is_control_def code_def)

lemma clean_no_line_end: "\<not> list_ex is_control s \<Longrightarrow> \<not> list_ex line_end s"
  by (auto simp: list_ex_iff line_end_def is_control_def code_def)

subsection \<open>Scalars\<close>

lemma parse_quoted: "\<not> list_ex is_control s \<Longrightarrow> parseFrontmatterScalar (json_stringify s) = FStr s"
  by (subst parseFrontmatterScalar.simps)
     (simp add: bracketed_def json_stringify_ends json_body_escapes int_token_def all_digits_def is_digit_def
       json_stringify_def [of s])

lemma quoted_trim: "trim (json_stringify s) = json_stringify s"
  by (rule trim_id) (simp add: json_stringify_ends is_ws_def)

lemma unsafe_inside_last: "s \<noteq> [] \<Longrightarrow> is_ws (last s) \<Longrightarrow> unsafe_inside s"
  by (induction s) (auto split: if_splits)

text \<open>What is written for a text: its ends are not white space and it has no control
  character, and it is read back as the text.\<close>

definition written_ok :: "string \<Rightarrow> bool" where
  "written_ok t \<longleftrightarrow> t \<noteq> [] \<and> trim t = t \<and> \<not> is_ws (hd t) \<and> \<not> is_ws (last t) \<and> \<not> list_ex is_control t"

lemma written_quoted: "\<not> list_ex is_control s \<Longrightarrow> written_ok (json_stringify s)"
  by (simp add: written_ok_def json_stringify_ends quoted_trim json_stringify_clean is_ws_def)

lemma string_scalar_roundtrip:
  assumes "serializeFrontmatterStringScalar v = Some t"
  shows "parseFrontmatterScalar t = FStr v" and "written_ok t"
proof -
  from assms have clean: "\<not> list_ex is_control v"
    and t: "t = (if v = [] \<or> yaml_plain_unsafe v \<or> yaml_non_string_word v \<or> yaml_number_token v
        \<or> parseFrontmatterScalar v \<noteq> FStr v then json_stringify v else v)"
    by (auto simp: serializeFrontmatterStringScalar_def assertSafeFrontmatterString_def split: if_splits)
  show "parseFrontmatterScalar t = FStr v"
    unfolding t using clean by (auto simp: parse_quoted)
  show "written_ok t"
  proof (cases "t = v \<and> v \<noteq> [] \<and> \<not> yaml_plain_unsafe v")
    case True
    then have "\<not> is_ws (hd v)" "\<not> is_ws (last v)"
      by (auto simp: yaml_plain_unsafe_def indicator_def dest: unsafe_inside_last)
    with True clean show ?thesis
      by (auto simp: written_ok_def intro!: trim_id)
  next
    case False
    with t have "t = json_stringify v" by (auto split: if_splits)
    with clean show ?thesis by (simp add: written_quoted)
  qed
qed

subsection \<open>Lists and numbers\<close>

lemma split_on_append: "c \<notin> set p \<Longrightarrow> split_on c (p @ c # s) = p # split_on c s"
  by (induction p) auto

lemma split_on_single: "c \<notin> set p \<Longrightarrow> split_on c p = [p]"
  by (induction p) auto

lemma split_on_join: "ss \<noteq> [] \<Longrightarrow> \<forall>s \<in> set ss. c \<notin> set s \<Longrightarrow> c \<notin> set sep \<Longrightarrow>
  split_on c (join (c # sep) ss) = hd ss # map (\<lambda>s. sep @ s) (tl ss)"
proof (induction "c # sep" ss rule: join.induct)
  case (3 s t ss)
  have "split_on c (join (c # sep) (s # t # ss)) = s # split_on c (sep @ join (c # sep) (t # ss))"
    using 3 by (simp add: split_on_append)
  also have "split_on c (sep @ x) = (sep @ hd (split_on c x)) # tl (split_on c x)" for x
    using 3(4) by (induction sep) auto
  then have "split_on c (sep @ join (c # sep) (t # ss)) =
      (sep @ hd (split_on c (join (c # sep) (t # ss)))) # tl (split_on c (join (c # sep) (t # ss)))" .
  also have "split_on c (join (c # sep) (t # ss)) = t # map (\<lambda>s. sep @ s) ss"
    using 3 by simp
  finally show ?case by simp
qed (simp_all add: split_on_single)

lemma trim_space: "written_ok s \<Longrightarrow> trim (CHR '' '' # s) = s" "written_ok s \<Longrightarrow> trim s = s"
  by (simp_all add: written_ok_def trim_def is_ws_def)

lemma join_ends:
  assumes "ss \<noteq> []" "\<forall>s \<in> set ss. s \<noteq> []"
  shows "join sep ss \<noteq> []" "hd (join sep ss) = hd (hd ss)" "last (join sep ss) = last (last ss)"
  using assms by (induction sep ss rule: join.induct) auto

lemma join_clean: "\<forall>s \<in> set ss. \<not> list_ex P s \<Longrightarrow> \<not> list_ex P sep \<Longrightarrow> \<not> list_ex P (join sep ss)"
  by (induction sep ss rule: join.induct) auto

lemma json_no_comma:
  assumes "CHR '','' \<notin> set s" "\<not> list_ex is_control s"
  shows "CHR '','' \<notin> set (json_stringify s)"
proof -
  have "CHR '','' \<notin> set (json_escape c)" if "c \<in> set s" for c
    using assms that by (intro json_escape_comma) (auto simp: list_ex_iff)
  then show ?thesis by (auto simp: json_stringify_def)
qed

fun fm_of :: "field_value \<Rightarrow> fm_val" where
  "fm_of (VStr s) = FStr s"
| "fm_of (VInt i) = FInt i"
| "fm_of (VBool b) = FBool b"
| "fm_of (VList is) = FList (map FStr is)"

fun comma_free :: "field_value \<Rightarrow> bool" where
  "comma_free (VList is) \<longleftrightarrow> list_all (\<lambda>i. CHR '','' \<notin> set i) is"
| "comma_free v \<longleftrightarrow> True"

lemma list_value_roundtrip:
  assumes "list_all (\<lambda>i. \<not> list_ex is_control i) is" "list_all (\<lambda>i. CHR '','' \<notin> set i) is"
  defines "t \<equiv> [CHR ''[''] @ join '', '' (map json_stringify is) @ [CHR '']'']"
  shows "parseFrontmatterScalar t = FList (map FStr is)" and "written_ok t"
proof -
  let ?qs = "map json_stringify is" and ?j = "join '', '' (map json_stringify is)"
  have nc: "\<forall>s \<in> set ?qs. CHR '','' \<notin> set s"
    using assms(1,2) by (auto simp: list_all_iff json_no_comma)
  have s1: "slice1 t = ?j" by (simp add: t_def slice1_def)
  have b: "bracketed (CHR ''['') (CHR '']'') t" by (simp add: t_def bracketed_def)
  show "parseFrontmatterScalar t = FList (map FStr is)"
  proof (cases "is = []")
    case True
    then show ?thesis by (subst parseFrontmatterScalar.simps) (simp add: b s1 trim_def)
  next
    case False
    then have j: "trim ?j = ?j" "?j \<noteq> []"
      using join_ends [of ?qs "'', ''"]
      by (auto simp: json_stringify_ends is_ws_def last_map hd_map intro!: trim_id)
    have sp: "split_on (CHR '','') ?j = hd ?qs # map (\<lambda>s. '' '' @ s) (tl ?qs)"
      using False nc by (intro split_on_join) auto
    have q: "parseFrontmatterScalar (trim (json_stringify i)) = FStr i"
        "parseFrontmatterScalar (trim (CHR '' '' # json_stringify i)) = FStr i" if "i \<in> set is" for i
      using assms(1) that by (auto simp: list_all_iff parse_quoted trim_space written_quoted)
    have "map (\<lambda>s. parseFrontmatterScalar (trim s)) (split_on (CHR '','') ?j) = map FStr is"
      unfolding sp using False q by (cases "is") auto
    then show ?thesis by (subst parseFrontmatterScalar.simps) (simp add: b s1 j)
  qed
  have "\<not> list_ex is_control ?j"
    using assms(1) by (intro join_clean) (auto simp: list_all_iff json_stringify_clean is_control_def code_def)
  then show "written_ok t"
    by (auto simp: written_ok_def t_def is_ws_def is_control_def code_def intro!: trim_id)
qed

lemma dec_string_ne: "dec_string n \<noteq> []" and dec_string_list: "list_all is_digit (dec_string n)"
  using dec_string_digits [of n] by (auto simp: all_digits_def)

lemma is_digit_plain: "is_digit c \<Longrightarrow> c \<noteq> CHR ''-'' \<and> c \<noteq> CHR ''['' \<and> \<not> is_ws c \<and> \<not> is_control c"
  by (auto simp: is_digit_def is_ws_def is_control_def code_def)

lemma dec_string_ends: "is_digit (hd (dec_string n))" "is_digit (last (dec_string n))"
  "\<not> list_ex is_control (dec_string n)"
  using dec_string_list [of n] dec_string_ne [of n]
  by (auto simp: list_all_iff list_ex_iff is_digit_plain)

lemma int_value_roundtrip: "parseFrontmatterScalar (int_string i) = FInt i" "written_ok (int_string i)"
proof -
  have h: "hd (dec_string n) \<noteq> CHR ''-''" "hd (dec_string n) \<noteq> CHR ''[''" "\<not> is_ws (hd (dec_string n))"
      "\<not> is_ws (last (dec_string n))" for n
    using dec_string_ends [of n] by (auto dest: is_digit_plain)
  have tok: "int_token (int_string i)"
    using h(1) [of "nat i"] dec_string_ne [of "nat i"] dec_string_digits [of "nat i"] dec_string_digits [of "nat (- i)"]
    by (auto simp: int_token_def int_string_def split: list.splits)
  have val: "parse_int (int_string i) = i"
    using h(1) [of "nat i"] dec_string_ne [of "nat i"] by (auto simp: parse_int_def int_string_def dec_string_val)
  have "\<not> bracketed (CHR ''['') (CHR '']'') (int_string i)"
    using h(2) by (auto simp: bracketed_def int_string_def)
  then show "parseFrontmatterScalar (int_string i) = FInt i"
    by (subst parseFrontmatterScalar.simps) (simp add: tok val)
  show "written_ok (int_string i)"
    using h dec_string_ne dec_string_ends(3)
    by (auto simp: written_ok_def int_string_def is_ws_def is_control_def [of "CHR ''-''"] code_def intro!: trim_id)
qed

text \<open>Every value written is read back, except that the items of a list must have no comma.\<close>

lemma field_value_roundtrip:
  assumes "serializeFrontmatterFieldValue v = Some t" "comma_free v"
  shows "parseFrontmatterScalar t = fm_of v" and "written_ok t"
proof -
  have "parseFrontmatterScalar t = fm_of v \<and> written_ok t"
  proof (cases v)
    case (VStr s)
    with assms show ?thesis by (auto dest: string_scalar_roundtrip)
  next
    case (VInt i)
    with assms int_value_roundtrip [of i] show ?thesis by auto
  next
    case (VBool b)
    with assms have "t = (if b then ''true'' else ''false'')" by simp
    moreover have "parseFrontmatterScalar ''true'' = FBool True" "parseFrontmatterScalar ''false'' = FBool False"
      by (subst parseFrontmatterScalar.simps, code_simp)+
    moreover have "written_ok ''true''" "written_ok ''false''" by code_simp+
    ultimately show ?thesis by (simp add: VBool)
  next
    case (VList items)
    with assms list_value_roundtrip [of items] show ?thesis
      by (auto simp: assertSafeFrontmatterString_def list_all_iff split: if_splits)
  qed
  then show "parseFrontmatterScalar t = fm_of v" "written_ok t" by auto
qed

section \<open>Blocks are read back\<close>

subsection \<open>Finding the end of the block\<close>

definition dashes :: string where
  "dashes = ''---''"

lemma find_close_cases:
  "find_close (c # cs) = (if c = nl \<and> take 3 cs = dashes then Some ([], drop 3 cs)
     else map_option (\<lambda>(a, b). (c # a, b)) (find_close cs))"
  by (auto simp: dashes_def)

declare find_close.simps(2) [simp del]

lemma find_close_line: "nl \<notin> set l \<Longrightarrow>
  find_close (l @ nl # s) =
    (if take 3 s = dashes then Some (l, drop 3 s) else map_option (\<lambda>(a, b). (l @ nl # a, b)) (find_close s))"
  by (induction l) (auto simp: find_close_cases option.map_comp comp_def split_beta' intro!: arg_cong2 [where f = map_option])

definition lines_ok :: "string list \<Rightarrow> bool" where
  "lines_ok ls \<longleftrightarrow> (\<forall>l \<in> set ls. nl \<notin> set l) \<and> (\<forall>l \<in> set (tl ls). take 3 l \<noteq> dashes)"

lemma take3_line: "take 3 (l @ nl # s) = dashes \<longleftrightarrow> take 3 l = dashes"
proof -
  have "nl \<notin> set dashes" by (simp add: dashes_def)
  then show ?thesis
    by (cases l; cases "tl l"; cases "tl (tl l)") (auto simp: dashes_def take_Cons' split: if_splits)
qed

lemma find_close_join: "ls \<noteq> [] \<Longrightarrow> lines_ok ls \<Longrightarrow>
  find_close (join [nl] ls @ nl # dashes @ rest) = Some (join [nl] ls, rest)"
proof (induction "[nl]" ls rule: join.induct)
  case (2 s)
  then show ?case by (simp add: find_close_line lines_ok_def) (simp add: dashes_def)
next
  case (3 s t ss)
  have ne: "take 3 (join [nl] (t # ss) @ nl # dashes @ rest) \<noteq> dashes"
    using 3(3) by (cases ss) (auto simp: lines_ok_def take3_line simp del: take_append)
  have "lines_ok (t # ss)" using 3(3) by (auto simp: lines_ok_def)
  with 3(1) have "find_close (join [nl] (t # ss) @ nl # dashes @ rest) = Some (join [nl] (t # ss), rest)" by simp
  moreover have "find_close (s @ nl # (join [nl] (t # ss) @ nl # dashes @ rest)) =
      map_option (\<lambda>(a, b). (s @ nl # a, b)) (find_close (join [nl] (t # ss) @ nl # dashes @ rest))"
    using ne 3(3) by (subst find_close_line) (auto simp: lines_ok_def)
  ultimately show ?case by simp
qed simp

lemma split_on_no_sep: "l \<in> set (split_on c s) \<Longrightarrow> c \<notin> set l"
proof (induction s arbitrary: l)
  case (Cons x xs)
  have "c \<notin> set (hd (split_on c xs))" by (rule Cons.IH) simp
  moreover have "c \<notin> set q" if "q \<in> set (tl (split_on c xs))" for q
    by (rule Cons.IH) (use that in \<open>meson list.set_sel(2) split_on_ne\<close>)
  ultimately show ?case
    using Cons.prems Cons.IH by (auto split: if_splits)
qed simp

lemma join_split_on: "join [c] (split_on c s) = s"
proof (induction s)
  case (Cons x xs)
  have "join [c] ((x # p) # ps) = x # join [c] (p # ps)" for p ps
    by (cases ps) auto
  moreover have "join [c] ([] # split_on c xs) = c # join [c] (split_on c xs)"
    by (cases "split_on c xs") auto
  ultimately show ?case using Cons
    by (cases "split_on c xs") (auto simp del: join.simps)
qed simp

lemma split_on_head: "s = hd (split_on c s) \<or> (\<exists>r. s = hd (split_on c s) @ c # r)"
  by (induction s) auto

lemma find_close_lines: "find_close s = Some (a, b) \<Longrightarrow>
  s = a @ nl # dashes @ b \<and> (\<forall>l \<in> set (tl (split_on nl a)). take 3 l \<noteq> dashes)"
proof (induction s arbitrary: a)
  case (Cons c cs)
  show ?case
  proof (cases "c = nl \<and> take 3 cs = dashes")
    case True
    with Cons.prems have "a = []" "b = drop 3 cs" by (auto simp: find_close_cases)
    with True show ?thesis by (metis append_Nil append_take_drop_id empty_iff empty_set list.sel(3) split_on.simps(1))
  next
    case False
    with Cons.prems obtain a' where a': "find_close cs = Some (a', b)" "a = c # a'"
      by (auto simp: find_close_cases)
    with Cons.IH have s: "cs = a' @ nl # dashes @ b" and t: "\<forall>l \<in> set (tl (split_on nl a')). take 3 l \<noteq> dashes"
      by auto
    have "take 3 (hd (split_on nl a')) \<noteq> dashes" if "c = nl"
    proof
      assume "take 3 (hd (split_on nl a')) = dashes"
      moreover have "a' = hd (split_on nl a') \<or> (\<exists>r. a' = hd (split_on nl a') @ nl # r)"
        by (rule split_on_head)
      ultimately have "take 3 a' = dashes \<or> take 3 (a' @ nl # dashes @ b) = dashes"
        by (metis take3_line)
      then have "take 3 cs = dashes" unfolding s using take3_line by blast
      with False that show False by simp
    qed
    with t show ?thesis unfolding a'(2) s
      by (cases "split_on nl a'") auto
  qed
qed simp

lemma split_frontmatter_lines:
  assumes "split_frontmatter content = Some (fmBody, bodyPart)"
  shows "lines_ok (split_on nl fmBody)"
  using assms find_close_lines [of "drop 4 content" fmBody bodyPart]
  by (auto simp: split_frontmatter_def lines_ok_def split_on_no_sep split: if_splits)

subsection \<open>Trailing white space of the block\<close>

lemma join_snoc: "ls \<noteq> [] \<Longrightarrow> join sep (ls @ [l]) = join sep ls @ sep @ l"
  by (induction sep ls rule: join.induct) auto

lemma trimEnd_nl: "list_all is_ws l \<Longrightarrow> trimEnd (s @ nl # l) = trimEnd s"
  by (intro trimEnd_ws) (simp add: is_ws_def)

lemma set_trimEnd: "set (trimEnd l) \<subseteq> set l"
  using trimEnd_append [of l] by (metis Un_upper1 set_append)

text \<open>The lines left by \<open>trimEnd\<close>: the blank ones at the end are dropped and the last one
  loses its trailing white space.\<close>

lemma trimmed_lines:
  assumes "ls \<noteq> []" "\<forall>l \<in> set ls. nl \<notin> set l"
  shows "\<exists>pre l post. ls = pre @ l # post \<and> list_all (list_all is_ws) post \<and>
     trimEnd (join [nl] ls) = join [nl] (pre @ [trimEnd l]) \<and>
     split_on nl (trimEnd (join [nl] ls)) = pre @ [trimEnd l] \<and> (trimEnd l = [] \<longrightarrow> pre = [])"
  using assms
proof (induction ls rule: rev_induct)
  case (snoc l ls)
  have l': "nl \<notin> set (trimEnd l)" using snoc.prems set_trimEnd by fastforce
  show ?case
  proof (cases "ls = []")
    case True
    then have "trimEnd (join [nl] (ls @ [l])) = join [nl] ([] @ [trimEnd l])"
        "split_on nl (trimEnd (join [nl] (ls @ [l]))) = [] @ [trimEnd l]"
      using l' by (simp_all add: split_on_single)
    with True show ?thesis by (intro exI [of _ "[]"] exI [of _ l]) simp
  next
    case ne: False
    show ?thesis
    proof (cases "list_all is_ws l")
      case True
      have "\<forall>l \<in> set ls. nl \<notin> set l" using snoc.prems by simp
      from snoc.IH [OF ne this] obtain pre k post where k: "ls = pre @ k # post"
          "list_all (list_all is_ws) post" "trimEnd (join [nl] ls) = join [nl] (pre @ [trimEnd k])"
          "split_on nl (trimEnd (join [nl] ls)) = pre @ [trimEnd k]" "trimEnd k = [] \<longrightarrow> pre = []"
        by blast
      have "trimEnd (join [nl] (ls @ [l])) = trimEnd (join [nl] ls)"
        using ne True by (simp add: join_snoc trimEnd_nl)
      with k True show ?thesis
        by (intro exI [of _ pre] exI [of _ k] exI [of _ "post @ [l]"]) simp
    next
      case False
      then have nb: "trimEnd l \<noteq> []" by (simp add: trimEnd_blank)
      have "trimEnd (join [nl] (ls @ [l])) = trimEnd ((join [nl] ls @ [nl]) @ l)"
        using ne by (simp add: join_snoc)
      also have "\<dots> = join [nl] (ls @ [trimEnd l])"
        using nb ne by (subst trimEnd_prefix) (simp_all add: join_snoc)
      finally have t: "trimEnd (join [nl] (ls @ [l])) = join [nl] (ls @ [trimEnd l])" .
      have "split_on nl (join [nl] (ls @ [trimEnd l])) = hd (ls @ [trimEnd l]) # map (\<lambda>s. [] @ s) (tl (ls @ [trimEnd l]))"
        using snoc.prems l' by (intro split_on_join) auto
      then have "split_on nl (join [nl] (ls @ [trimEnd l])) = ls @ [trimEnd l]"
        using ne by simp
      with t nb show ?thesis by (intro exI [of _ ls] exI [of _ l] exI [of _ "[]"]) simp
    qed
  qed
qed simp

lemma take3_prefix: "take 3 x = dashes \<Longrightarrow> take 3 (x @ w) = dashes"
proof -
  assume t: "take 3 x = dashes"
  then have "length (take 3 x) = 3" by (simp add: dashes_def)
  then have "3 \<le> length x" by simp
  with t show ?thesis by simp
qed

lemma lines_ok_trim: "lines_ok (pre @ l # post) \<Longrightarrow> lines_ok (pre @ [trimEnd l])"
proof -
  assume ok: "lines_ok (pre @ l # post)"
  obtain w where w: "l = trimEnd l @ w" using trimEnd_append by blast
  then have "take 3 (trimEnd l) \<noteq> dashes" if "take 3 l \<noteq> dashes"
    using that take3_prefix [of "trimEnd l" w] by auto
  with ok show ?thesis
    using set_trimEnd [of l] by (cases pre) (auto simp: lines_ok_def)
qed

text \<open>A rebuilt file is split into the trimmed lines and the unchanged rest.\<close>

lemma split_rebuild:
  assumes "ls \<noteq> []" "lines_ok ls"
  shows "split_frontmatter (rebuild ls bodyPart) = Some (trimEnd (join [nl] ls), bodyPart)"
proof -
  obtain pre l post where l: "ls = pre @ l # post" "trimEnd (join [nl] ls) = join [nl] (pre @ [trimEnd l])"
    using trimmed_lines [of ls] assms by (auto simp: lines_ok_def)
  have "find_close (join [nl] (pre @ [trimEnd l]) @ nl # dashes @ bodyPart) =
      Some (join [nl] (pre @ [trimEnd l]), bodyPart)"
    using assms l(1) lines_ok_trim by (intro find_close_join) auto
  then show ?thesis
    by (simp add: split_frontmatter_def rebuild_def l(2) dashes_def)
qed

lemma rebuild_Nil: "split_frontmatter (rebuild [] bodyPart) = Some ([], bodyPart)"
  by (simp add: split_frontmatter_def rebuild_def trimEnd_def find_close_cases dashes_def)

subsection \<open>Lines with a key\<close>

definition key_ok :: "string \<Rightarrow> bool" where
  "key_ok k \<longleftrightarrow> k \<noteq> [] \<and> list_all word_char k"

definition line_key :: "string \<Rightarrow> string option" where
  "line_key l = map_option fst (kv_split l)"

lemma word_char_not: "word_char c \<Longrightarrow> \<not> is_ws c \<and> c \<noteq> CHR '':'' \<and> c \<noteq> nl \<and> c \<noteq> CHR ''-''"
  by (auto simp: word_char_def is_digit_def is_ws_def code_def)

lemma kv_split_append: "kv_split s = Some (k, r) \<Longrightarrow> kv_split (s @ w) = Some (k, r @ w)"
proof -
  assume kv: "kv_split s = Some (k, r)"
  then have "dropWhile is_ws (dropWhile word_char s) \<noteq> []" and r: "r = tl (dropWhile is_ws (dropWhile word_char s))"
    by (auto simp: kv_split_def Let_def split: if_splits)
  then have d: "\<not> (\<forall>x \<in> set (dropWhile word_char s). is_ws x)" by (simp add: dropWhile_eq_Nil_conv)
  then have "\<not> (\<forall>x \<in> set s. word_char x)"
    by (metis dropWhile_eq_Nil_conv empty_iff empty_set)
  with d have "dropWhile is_ws (dropWhile word_char (s @ w)) = dropWhile is_ws (dropWhile word_char s) @ w"
      "takeWhile word_char (s @ w) = takeWhile word_char s"
    by (auto simp: dropWhile_append takeWhile_append)
  with kv show ?thesis by (auto simp: kv_split_def Let_def split: if_splits)
qed

lemma line_key_trimEnd: "line_key (trimEnd l) = Some k \<Longrightarrow> line_key l = Some k"
proof -
  assume k: "line_key (trimEnd l) = Some k"
  obtain w where w: "l = trimEnd l @ w" using trimEnd_append by blast
  from k obtain r where "kv_split (trimEnd l) = Some (k, r)" by (auto simp: line_key_def)
  then have "kv_split l = Some (k, r @ w)" by (subst w) (rule kv_split_append)
  then show ?thesis by (simp add: line_key_def)
qed

lemma kv_match_key: "map_option fst (kv_match l) = line_key l"
  by (cases "kv_split l") (auto simp: kv_match_def line_key_def)

lemma field_line_facts:
  assumes "field_line k v = Some L" "key_ok k" "comma_free v"
  shows "list_match L = None" and "kv_match L = Some (k, raw) \<Longrightarrow> trim raw = raw \<and> raw \<noteq> [] \<and> parseFrontmatterScalar raw = fm_of v"
    and "\<exists>raw. kv_match L = Some (k, raw)" and "L \<noteq> []" and "trimEnd L = L" and "nl \<notin> set L" and "take 3 L \<noteq> dashes"
    and "line_key L = Some k"
proof -
  from assms(1) obtain t where t: "serializeFrontmatterFieldValue v = Some t" and L: "L = k @ '': '' @ t"
    by (auto simp: field_line_def)
  note rt = field_value_roundtrip [OF t assms(3)]
  from assms(2) have k: "k \<noteq> []" "\<forall>c \<in> set k. word_char c" by (auto simp: key_ok_def list_all_iff)
  then have nws: "dropWhile is_ws L = L" unfolding L by (cases k) (auto dest: word_char_not)
  show "list_match L = None" by (simp add: list_match_def nws)
  have tw: "takeWhile word_char L = k" "dropWhile word_char L = '': '' @ t"
    unfolding L using k by (auto simp: takeWhile_append dropWhile_append word_char_def is_digit_def code_def)
  then have ks: "kv_split L = Some (k, CHR '' '' # t)"
    using k by (simp add: kv_split_def is_ws_def)
  have "dropWhile is_ws (CHR '' '' # t) = t" "takeWhile (\<lambda>c. \<not> line_end c) t = t"
    using rt(2) clean_no_line_end [of t]
    by (cases t; auto simp: written_ok_def is_ws_def [of "CHR '' ''"] list_ex_iff takeWhile_eq_all_conv)+
  then have km: "kv_match L = Some (k, t)" by (simp add: kv_match_def ks)
  show "kv_match L = Some (k, raw) \<Longrightarrow> trim raw = raw \<and> raw \<noteq> [] \<and> parseFrontmatterScalar raw = fm_of v"
    using km rt by (simp add: written_ok_def)
  show "\<exists>raw. kv_match L = Some (k, raw)" using km by blast
  show "L \<noteq> []" by (simp add: L)
  show "trimEnd L = L" using rt(2) by (intro trimEnd_id) (auto simp: L written_ok_def)
  show "nl \<notin> set L"
  proof -
    have "nl \<notin> set k" using k(2) word_char_not [of nl] by blast
    moreover have "nl \<notin> set t" using rt(2) control_of_lf by (force simp: written_ok_def list_ex_iff)
    ultimately show ?thesis by (simp add: L)
  qed
  show "take 3 L \<noteq> dashes"
    using k by (cases k) (auto simp: L dashes_def dest: word_char_not)
  show "line_key L = Some k" by (simp add: line_key_def ks)
qed

subsection \<open>The parser on the rewritten lines\<close>

lemma parse_lines_append: "parse_lines (a @ b) st = parse_lines b (parse_lines a st)"
  by (simp add: parse_lines_def)

text \<open>A line of another key leaves the value of a key alone, when the open list is not its.\<close>

lemma parse_line_other:
  assumes "parse_line l (m, cur) = (m', cur')" "cur \<noteq> Some k" "line_key l \<noteq> Some k"
  shows "dget m' k = dget m k \<and> cur' \<noteq> Some k"
  using assms kv_match_key [of l]
  by (auto simp: parse_line_def push_item_def Let_def split: option.splits prod.splits fm_val.splits if_splits)

lemma parse_lines_other:
  assumes "\<forall>l \<in> set ls. line_key l \<noteq> Some k" "cur \<noteq> Some k" "parse_lines ls (m, cur) = (m', cur')"
  shows "dget m' k = dget m k \<and> cur' \<noteq> Some k"
  using assms
proof (induction ls arbitrary: m cur)
  case (Cons l ls)
  obtain m1 cur1 where s: "parse_line l (m, cur) = (m1, cur1)" by fastforce
  with Cons.prems have o: "dget m1 k = dget m k" "cur1 \<noteq> Some k"
    by (auto dest: parse_line_other)
  moreover have "parse_lines ls (m1, cur1) = (m', cur')" using Cons.prems s by (simp add: parse_lines_def)
  ultimately show ?case using Cons.IH [of cur1 m1] Cons.prems by simp
qed (simp add: parse_lines_def)

lemma parse_field_line:
  assumes "field_line k v = Some L" "key_ok k" "comma_free v"
  shows "parse_line L st = (dput k (fm_of v) (fst st), None)"
proof -
  note f = field_line_facts [OF assms]
  from f(3) obtain raw where raw: "kv_match L = Some (k, raw)" by blast
  with f(2) have "trim raw = raw" "raw \<noteq> []" "parseFrontmatterScalar raw = fm_of v" by auto
  with raw f(1) show ?thesis by (cases st) (simp add: parse_line_def)
qed

text \<open>The value a list of lines gives a key: no line, or its line with none of the key after.\<close>

definition placed :: "string \<Rightarrow> field_value option \<Rightarrow> string list \<Rightarrow> bool" where
  "placed k vo ls \<longleftrightarrow>
     (case vo of
        None \<Rightarrow> \<forall>l \<in> set ls. line_key l \<noteq> Some k
      | Some v \<Rightarrow> \<exists>pre L post. ls = pre @ L # post \<and> field_line k v = Some L \<and> (\<forall>l \<in> set post. line_key l \<noteq> Some k))"

lemma placed_parse:
  assumes "placed k vo ls" "key_ok k" "\<forall>v. vo = Some v \<longrightarrow> comma_free v"
  shows "dget (fst (parse_lines ls ([], None))) k = map_option fm_of vo"
proof (cases vo)
  case None
  obtain m' cur' where p: "parse_lines ls ([], None) = (m', cur')" by fastforce
  with assms(1) None have "dget m' k = dget [] k"
    using parse_lines_other [of ls k None "[]" m' cur'] by (simp add: placed_def)
  with p None show ?thesis by simp
next
  case (Some v)
  with assms(1) obtain pre L post where ls: "ls = pre @ L # post" "field_line k v = Some L"
      "\<forall>l \<in> set post. line_key l \<noteq> Some k"
    by (auto simp: placed_def)
  define st where "st = parse_lines pre ([], None)"
  have step: "parse_lines ls ([], None) = parse_lines post (dput k (fm_of v) (fst st), None)"
    using parse_field_line [OF ls(2) assms(2), of st] assms(3) Some
    by (simp add: ls(1) parse_lines_append st_def) (simp add: parse_lines_def)
  obtain m' cur' where p: "parse_lines post (dput k (fm_of v) (fst st), None) = (m', cur')" by fastforce
  have "dget m' k = dget (dput k (fm_of v) (fst st)) k"
    using parse_lines_other [OF ls(3) _ p] by simp
  with step p Some show ?thesis by simp
qed

lemma line_key_blank: "list_all is_ws l \<Longrightarrow> line_key l = None"
  by (cases l) (auto simp: line_key_def kv_split_def Let_def dest: word_char_not)

text \<open>Trailing white space does not matter.\<close>

lemma placed_trimmed:
  assumes "placed k vo (pre @ l # post)" "list_all (list_all is_ws) post" "key_ok k" "\<forall>v. vo = Some v \<longrightarrow> comma_free v"
  shows "placed k vo (pre @ [trimEnd l])"
proof (cases vo)
  case None
  with assms(1) show ?thesis by (auto simp: placed_def dest: line_key_trimEnd)
next
  case (Some v)
  with assms(1) obtain p L q where d: "pre @ l # post = p @ L # q" and L: "field_line k v = Some L"
      and q: "\<forall>l \<in> set q. line_key l \<noteq> Some k"
    by (auto simp: placed_def)
  note f = field_line_facts [OF L assms(3)]
  have L': "\<not> list_all is_ws L" "trimEnd L = L"
    using f(8,5) assms(4) Some line_key_blank [of L] by auto
  from d consider (inside) r where "pre = p @ L # r" "q = r @ l # post" | (last) "p = pre" "L = l" "q = post"
      | (post) "L \<in> set post"
    by (auto simp: append_eq_append_conv2 Cons_eq_append_conv append_eq_Cons_conv)
  then show ?thesis
  proof cases
    case inside
    then have "pre @ [trimEnd l] = p @ L # (r @ [trimEnd l])" by simp
    moreover have "\<forall>x \<in> set (r @ [trimEnd l]). line_key x \<noteq> Some k"
      using inside q by (auto dest: line_key_trimEnd)
    ultimately show ?thesis unfolding placed_def Some option.case using L by blast
  next
    case last
    then have "pre @ [trimEnd l] = pre @ L # []" using L' by simp
    then show ?thesis unfolding placed_def Some option.case using L
      by (metis empty_iff list.set(1))
  next
    case post
    with assms(2) L' show ?thesis by (auto simp: list_all_iff)
  qed
qed

subsection \<open>The rewritten lines\<close>

definition fields_ok :: "field_map \<Rightarrow> bool" where
  "fields_ok flds \<longleftrightarrow> distinct (dkeys flds) \<and> (\<forall>(k, vo) \<in> set flds. key_ok k \<and> (\<forall>v. vo = Some v \<longrightarrow> comma_free v))"

definition field_lines :: "field_map \<Rightarrow> string set" where
  "field_lines flds = {L. \<exists>k v. (k, Some v) \<in> set flds \<and> field_line k v = Some L}"

definition keyless :: "string \<Rightarrow> string list \<Rightarrow> bool" where
  "keyless k ls \<longleftrightarrow> (\<forall>l \<in> set ls. line_key l \<noteq> Some k)"

definition once :: "string \<Rightarrow> string list \<Rightarrow> bool" where
  "once k ls \<longleftrightarrow> length (filter (\<lambda>l. line_key l = Some k) ls) \<le> 1"

lemma keyless_simps [simp]: "keyless k []" "keyless k (l # ls) \<longleftrightarrow> line_key l \<noteq> Some k \<and> keyless k ls"
  "keyless k (a @ b) \<longleftrightarrow> keyless k a \<and> keyless k b"
  by (auto simp: keyless_def)

lemma once_Cons: "once k (l # ls) \<longleftrightarrow> (if line_key l = Some k then keyless k ls else once k ls)"
  by (auto simp: once_def keyless_def filter_empty_conv)

lemma placed_simps: "placed k None ls \<longleftrightarrow> keyless k ls"
  "placed k vo ls \<Longrightarrow> line_key l \<noteq> Some k \<Longrightarrow> placed k vo (l # ls)"
  "placed k vo ls \<Longrightarrow> keyless k added \<Longrightarrow> placed k vo (ls @ added)"
  "placed k (Some v) ls \<Longrightarrow> placed k (Some v) (added @ ls)"
  "field_line k v = Some L \<Longrightarrow> keyless k ls \<Longrightarrow> placed k (Some v) (L # ls)"
proof -
  show "placed k None ls \<longleftrightarrow> keyless k ls" by (simp add: placed_def keyless_def)
  show "placed k vo (l # ls)" if "placed k vo ls" "line_key l \<noteq> Some k"
    using that by (cases vo) (auto simp: placed_def, metis append_Cons)
  show "placed k vo (ls @ added)" if "placed k vo ls" "keyless k added"
    using that by (cases vo) (auto simp: placed_def keyless_def, metis Un_iff append.assoc append_Cons set_append)
  show "placed k (Some v) (added @ ls)" if "placed k (Some v) ls"
    using that by (auto simp: placed_def) (metis append.assoc)
  show "placed k (Some v) (L # ls)" if "field_line k v = Some L" "keyless k ls"
    using that by (auto simp: placed_def keyless_def)
qed

lemma ddel_subset: "set (ddel k m) \<subseteq> set m"
  by (auto simp: AList.delete_eq)

lemma fields_ok_ddel: "fields_ok flds \<Longrightarrow> fields_ok (ddel k flds)"
  using ddel_subset [of k flds] by (fastforce simp: fields_ok_def distinct_dkeys_ddel)

lemma field_line_key:
  "fields_ok flds \<Longrightarrow> dget flds k = Some (Some v) \<Longrightarrow> field_line k v = Some L \<Longrightarrow> line_key L = Some k"
  by (rule field_line_facts(8)) (auto simp: fields_ok_def dest!: map_of_SomeD)

lemma update_lines_cases:
  assumes "update_lines (line # ls) flds = Some (out, rem)"
  obtains (keep) out' where "out = line # out'" "update_lines ls flds = Some (out', rem)"
      "\<And>k. line_key line = Some k \<Longrightarrow> dget flds k = None"
  | (drop) k where "line_key line = Some k" "dget flds k = Some None" "update_lines ls (ddel k flds) = Some (out, rem)"
  | (set) k v L out' where "line_key line = Some k" "dget flds k = Some (Some v)" "field_line k v = Some L"
      "out = L # out'" "update_lines ls (ddel k flds) = Some (out', rem)"
  using assms
  by (cases "kv_split line")
     (auto simp: line_key_def Let_def split: option.splits)

lemma update_lines_keyless:
  assumes "update_lines ls flds = Some (out, rem)" "fields_ok flds" "keyless k ls"
  shows "keyless k out \<and> dget rem k = dget flds k"
  using assms
proof (induction ls arbitrary: flds out)
  case (Cons line ls)
  from Cons.prems(1) show ?case
  proof (cases rule: update_lines_cases)
    case keep
    then show ?thesis using Cons by simp
  next
    case (drop k')
    then show ?thesis using Cons by (auto simp: fields_ok_ddel)
  next
    case (set k' v L out')
    then have "line_key L = Some k'" using Cons.prems(2) by (intro field_line_key)
    with set show ?thesis using Cons.IH [of "ddel k' flds" out'] Cons.prems(2,3) by (auto simp: fields_ok_ddel)
  qed
qed simp

lemma update_lines_once:
  assumes "update_lines ls flds = Some (out, rem)" "fields_ok flds" "once k ls" "\<not> keyless k ls"
    and "dget flds k = Some vo"
  shows "placed k vo out \<and> dget rem k = None"
  using assms
proof (induction ls arbitrary: flds out)
  case (Cons line ls)
  from Cons.prems(1) show ?case
  proof (cases rule: update_lines_cases)
    case keep
    then have ne: "line_key line \<noteq> Some k" using Cons.prems(5) by auto
    with Cons.IH [OF keep(2) Cons.prems(2) _ _ Cons.prems(5)] Cons.prems(3,4)
    show ?thesis by (simp add: once_Cons keep(1) placed_simps(2))
  next
    case (drop k')
    then show ?thesis
      using Cons.IH [of "ddel k' flds" out] Cons.prems update_lines_keyless [OF drop(3), of k]
      by (cases "k' = k") (auto simp: fields_ok_ddel once_Cons placed_simps(1))
  next
    case (set k' v L out')
    have L: "line_key L = Some k'" using set Cons.prems(2) by (intro field_line_key)
    show ?thesis
    proof (cases "k' = k")
      case True
      with set Cons.prems update_lines_keyless [OF set(5), of k]
      show ?thesis by (auto simp: fields_ok_ddel once_Cons intro: placed_simps)
    next
      case False
      with set L Cons.IH [of "ddel k' flds" out'] Cons.prems
      show ?thesis by (auto simp: fields_ok_ddel once_Cons intro: placed_simps)
    qed
  qed
qed simp

lemma field_lines_mono: "set a \<subseteq> set b \<Longrightarrow> field_lines a \<subseteq> field_lines b"
  by (auto simp: field_lines_def)

lemma ddel_field_lines: "field_lines (ddel k flds) \<subseteq> field_lines flds"
  by (rule field_lines_mono) (rule ddel_subset)

lemma update_lines_set:
  "update_lines ls flds = Some (out, rem) \<Longrightarrow>
   set out \<subseteq> set ls \<union> field_lines flds \<and> set (tl out) \<subseteq> set (tl ls) \<union> field_lines flds \<and> set rem \<subseteq> set flds \<and>
   (fields_ok flds \<longrightarrow> fields_ok rem)"
proof (induction ls arbitrary: flds out)
  case (Cons line ls)
  from Cons.prems show ?case
  proof (cases rule: update_lines_cases)
    case keep
    then show ?thesis using Cons.IH [of flds] by auto
  next
    case (drop k)
    note ih = Cons.IH [OF drop(3)]
    have "set (tl out) \<subseteq> set out" by (cases out) auto
    with ih ddel_field_lines [of k flds] ddel_subset [of k flds] fields_ok_ddel [of flds k]
    show ?thesis by (simp, blast)
  next
    case (set k v L out')
    then have L: "L \<in> field_lines flds" by (auto simp: field_lines_def dest: map_of_SomeD)
    from Cons.IH [OF set(5)] have ih: "set out' \<subseteq> set ls \<union> field_lines (ddel k flds)" "set rem \<subseteq> set (ddel k flds)"
        "fields_ok (ddel k flds) \<longrightarrow> fields_ok rem" by blast+
    have "set out' \<subseteq> set ls \<union> field_lines flds" "set rem \<subseteq> set flds" "fields_ok flds \<longrightarrow> fields_ok rem"
      using ih ddel_field_lines [of k flds] ddel_subset [of k flds] fields_ok_ddel [of flds k] by blast+
    with L show ?thesis unfolding set(4) by auto
  qed
qed simp

lemma append_fields_set: "append_fields flds = Some out \<Longrightarrow> set out \<subseteq> field_lines flds"
proof (induction flds arbitrary: out rule: append_fields.induct)
  case (2 key r)
  then show ?case using field_lines_mono [of r "(key, None) # r"] by auto
next
  case (3 key v r)
  then obtain L out' where o: "field_line key v = Some L" "append_fields r = Some out'" "out = L # out'"
    by (auto split: option.splits)
  then have "L \<in> field_lines ((key, Some v) # r)" by (auto simp: field_lines_def)
  moreover have "set out' \<subseteq> field_lines ((key, Some v) # r)"
    using 3(1) [OF o(1,2)] field_lines_mono [of r "(key, Some v) # r"] by auto
  ultimately show ?case by (simp add: o(3))
qed simp

lemma append_fields_keyless:
  assumes "append_fields flds = Some out" "fields_ok flds" "dget flds k = None \<or> dget flds k = Some None"
  shows "keyless k out"
proof -
  have "line_key L \<noteq> Some k" if "L \<in> field_lines flds" for L
  proof
    assume "line_key L = Some k"
    from that obtain k' v where kv: "(k', Some v) \<in> set flds" "field_line k' v = Some L"
      by (auto simp: field_lines_def)
    then have g: "dget flds k' = Some (Some v)" using assms(2) by (auto simp: fields_ok_def)
    with kv assms(2) have "line_key L = Some k'" by (intro field_line_key)
    with \<open>line_key L = Some k\<close> g assms(3) show False by auto
  qed
  with append_fields_set [OF assms(1)] show ?thesis by (auto simp: keyless_def)
qed

lemma append_fields_placed:
  "append_fields flds = Some out \<Longrightarrow> fields_ok flds \<Longrightarrow> dget flds k = Some (Some v) \<Longrightarrow> placed k (Some v) out"
proof (induction flds arbitrary: out rule: append_fields.induct)
  case (2 key r)
  then show ?case by (auto simp: fields_ok_def split: if_splits)
next
  case (3 key v' r)
  then obtain L out' where o: "field_line key v' = Some L" "append_fields r = Some out'" "out = L # out'"
    by (auto split: option.splits)
  have ok: "fields_ok r" using 3(3) by (auto simp: fields_ok_def)
  show ?case
  proof (cases "key = k")
    case True
    have "dget r k = None" using 3(3) True by (auto simp: fields_ok_def map_of_eq_None_iff)
    with o ok have "keyless k out'" by (intro append_fields_keyless) auto
    with o True 3(4) show ?thesis by (auto intro: placed_simps)
  next
    case False
    have "line_key L = Some key" using o(1) 3(3) by (intro field_line_key [of "(key, Some v') # r"]) auto
    with False o 3 ok show ?thesis by (auto intro!: placed_simps(2))
  qed
qed simp

lemma updated_lines_placed:
  assumes "updated_lines ls flds = Some out" "fields_ok flds" "once k ls" "dget flds k = Some vo"
  shows "placed k vo out"
proof -
  from assms(1) obtain o1 rem added where o: "update_lines ls flds = Some (o1, rem)" "append_fields rem = Some added"
      "out = o1 @ added"
    by (auto simp: updated_lines_def split: option.splits)
  have rem: "fields_ok rem" using update_lines_set [OF o(1)] assms(2) by auto
  show ?thesis
  proof (cases "keyless k ls")
    case True
    with update_lines_keyless [OF o(1) assms(2)] assms(4) have "keyless k o1" "dget rem k = Some vo" by auto
    with o rem append_fields_placed [OF o(2) rem] append_fields_keyless [OF o(2) rem, of k]
    show ?thesis by (cases vo) (auto simp: placed_simps(1) intro: placed_simps)
  next
    case False
    with update_lines_once [OF o(1) assms(2,3) _ assms(4)] have "placed k vo o1" "dget rem k = None" by auto
    with o rem append_fields_keyless [OF o(2) rem, of k] show ?thesis by (auto intro: placed_simps)
  qed
qed

lemma updated_lines_ok:
  assumes "updated_lines ls flds = Some out" "fields_ok flds" "lines_ok ls"
  shows "lines_ok out"
proof -
  from assms(1) obtain o1 rem added where o: "update_lines ls flds = Some (o1, rem)" "append_fields rem = Some added"
      "out = o1 @ added"
    by (auto simp: updated_lines_def split: option.splits)
  have new: "nl \<notin> set L \<and> take 3 L \<noteq> dashes" if "L \<in> field_lines flds" for L
  proof -
    from that obtain k v where "(k, Some v) \<in> set flds" "field_line k v = Some L" by (auto simp: field_lines_def)
    with assms(2) field_line_facts(6,7) [of k v L] show ?thesis by (auto simp: fields_ok_def)
  qed
  have "set added \<subseteq> field_lines flds"
    using append_fields_set [OF o(2)] update_lines_set [OF o(1)] field_lines_mono by blast
  with update_lines_set [OF o(1)] have "set out \<subseteq> set ls \<union> field_lines flds"
      "set (tl out) \<subseteq> set (tl ls) \<union> field_lines flds"
    unfolding o(3) by (cases o1; cases added; auto)+
  with new assms(3) show ?thesis unfolding lines_ok_def by blast
qed

section \<open>Properties\<close>


text \<open>A file with a block list, a field rewritten and one dropped.\<close>

definition demo_content :: string where
  "demo_content = join [nl] [''---'', ''title: Add login'', ''depends_on:'', ''  - base'', ''held: true'',
     ''hold_reason: wait'', ''---'', '''', ''Body'']"

definition demo_file :: "unit queued_file" where
  "demo_file = \<lparr>qf_filePath = ''q/a.md'', qf_content = demo_content, qf_frontmatter = ()\<rparr>"

definition demo_fields :: field_map where
  "demo_fields = [(''title'', Some (VStr ''true: # 1'')), (''depends_on'', Some (VList [''x'', ''y z''])), (''held'', None),
     (''priority'', Some (VInt (- 3)))]"


text \<open>The separator of an inline list is not protected by quotes: an item with a comma is read
  back as two items.\<close>

lemma list_item_comma_splits:
  "map_option parseFrontmatterScalar (serializeFrontmatterFieldValue (VList [''a,b''])) =
     Some (FList [FStr [dq, CHR ''a''], FStr [CHR ''b'', dq]])"
  by code_simp

text \<open>Only the first line of a field is replaced: with a second one the value set is not the
  value read back.\<close>

lemma duplicate_field_stale:
  "map_option (\<lambda>ls. dget (fst (parse_lines ls ([], None))) ''profile'')
     (updated_lines [''profile: one'', ''profile: two''] [(''profile'', Some (VStr ''three''))]) =
   Some (Some (FStr ''two''))"
  by code_simp

end
