(* ===== verification/QueueText.thy ===== *)
theory QueueText
  imports Queue Frontmatter
begin

text \<open>
  The text \<open>enqueuePrd\<close> writes (\<open>prd-queue.ts\<close>) and what \<open>parseFrontmatter\<close> reads from it. The
  queue model of theory \<open>Queue\<close> keeps a PRD file as its parsed fields; the property here is the
  refinement that justifies it.
\<close>

section \<open>The file of an enqueued PRD\<close>

fun landing_text :: "landing_action \<Rightarrow> string" where
  "landing_text LandPr = ''pr''"
| "landing_text LandMerge = ''merge''"
| "landing_text LandLeave = ''leave''"

definition opt_line :: "('a \<Rightarrow> string) \<Rightarrow> 'a option \<Rightarrow> string list" where
  "opt_line f x = (case x of None \<Rightarrow> [] | Some a \<Rightarrow> [f a])"

text \<open>\<open>fmLines\<close>; \<open>None\<close> when the title has a control character. An absent and an empty list
  both give no line.\<close>

definition depends_on_line :: "prd_id list \<Rightarrow> string" where
  "depends_on_line ds = ''depends_on: ['' @ join '', '' (map (\<lambda>d. [dq] @ d @ [dq]) ds) @ '']''"

definition post_merge_line :: "string list \<Rightarrow> string" where
  "post_merge_line cmds = ''postMerge:'' @ [nl] @ join [nl] (map (\<lambda>c. ''  - '' @ json_stringify c) cmds)"

definition fm_lines :: "string \<Rightarrow> enqueue_options \<Rightarrow> string list option" where
  "fm_lines created opt =
     map_option (\<lambda>title.
       [''title: '' @ title, ''created: '' @ created]
       @ opt_line (\<lambda>p. ''priority: '' @ int_string p) (eo_priority opt)
       @ opt_line depends_on_line (nonempty_list (eo_depends_on opt))
       @ opt_line post_merge_line (nonempty_list (eo_postMerge opt))
       @ opt_line (\<lambda>p. ''profile: '' @ p) (eo_profile opt)
       @ opt_line (\<lambda>p. ''stack_id: '' @ p) (eo_stack_id opt)
       @ opt_line (\<lambda>p. ''stack_parent: '' @ p) (eo_stack_parent opt)
       @ opt_line (\<lambda>a. ''landing: '' @ landing_text a) (eo_landingAction opt)
       @ opt_line (\<lambda>b. ''landing_auto_merge: '' @ (if b then ''true'' else ''false'')) (eo_landingAutoMerge opt))
     (serializeFrontmatterStringScalar (eo_title opt))"

definition fileContent :: "string \<Rightarrow> enqueue_options \<Rightarrow> string \<Rightarrow> string option" where
  "fileContent created opt serializedBody =
     map_option (\<lambda>fmLines. ''---'' @ [nl] @ join [nl] fmLines @ [nl] @ ''---'' @ [nl, nl] @ serializedBody @ [nl])
       (fm_lines created opt)"

text \<open>The dictionary a frontmatter record stands for, in the order the fields are written.\<close>

definition opt_entry :: "string \<Rightarrow> ('a \<Rightarrow> fm_val) \<Rightarrow> 'a option \<Rightarrow> fm_dict" where
  "opt_entry k f x = (case x of None \<Rightarrow> [] | Some a \<Rightarrow> [(k, f a)])"

definition fm_entries :: "prd_fm \<Rightarrow> fm_dict" where
  "fm_entries fm =
     [(''title'', FStr (fm_title fm))]
     @ opt_entry ''created'' FStr (fm_created fm)
     @ opt_entry ''priority'' FInt (fm_priority fm)
     @ opt_entry ''depends_on'' (\<lambda>ds. FList (map FStr ds)) (fm_depends_on fm)
     @ opt_entry ''postMerge'' (\<lambda>cs. FList (map FStr cs)) (fm_postMerge fm)
     @ opt_entry ''profile'' FStr (fm_profile fm)
     @ opt_entry ''stack_id'' FStr (fm_stack_id fm)
     @ opt_entry ''stack_parent'' FStr (fm_stack_parent fm)
     @ opt_entry ''landing'' (\<lambda>a. FStr (landing_text a)) (fm_landing fm)
     @ opt_entry ''landing_auto_merge'' FBool (fm_landing_auto_merge fm)"

section \<open>Reading it back\<close>

lemma split_on_append_sep: "split_on c (a @ c # b) = split_on c a @ split_on c b"
  by (induction a) (auto simp: split_on_ne)

lemma split_on_join_concat: "ls \<noteq> [] \<Longrightarrow> split_on c (join [c] ls) = concat (map (split_on c) ls)"
  by (induction "[c]" ls rule: join.induct) (auto simp: split_on_append_sep)

text \<open>A text that the serialiser leaves plain.\<close>

definition plain_text :: "string \<Rightarrow> bool" where
  "plain_text p \<longleftrightarrow> serializeFrontmatterStringScalar p = Some p"

text \<open>An id that can be quoted by surrounding it with double quotes.\<close>

definition quotable :: "string \<Rightarrow> bool" where
  "quotable d \<longleftrightarrow> dq \<notin> set d \<and> bs \<notin> set d \<and> CHR '','' \<notin> set d \<and> \<not> list_ex is_control d"

lemma json_escape_plain: "c \<noteq> dq \<Longrightarrow> c \<noteq> bs \<Longrightarrow> \<not> is_control c \<Longrightarrow> json_escape c = [c]"
  by (auto simp: json_escape_def is_control_def)

lemma quotable_json: "quotable d \<Longrightarrow> json_stringify d = [dq] @ d @ [dq]"
proof -
  assume q: "quotable d"
  have "json_escape c = [c]" if "c \<in> set d" for c
    by (rule json_escape_plain) (use q that in \<open>auto simp: quotable_def list_ex_iff\<close>)
  then have "concat (map json_escape s) = s" if "set s \<subseteq> set d" for s
    using that by (induction s) auto
  from this [of d] show ?thesis by (simp add: json_stringify_def)
qed

text \<open>The lines written, as fields with their values; the commands are lines of their own.\<close>

definition seg :: "string \<Rightarrow> ('a \<Rightarrow> field_value) \<Rightarrow> 'a option \<Rightarrow> (string \<times> field_value) list" where
  "seg k f x = (case x of None \<Rightarrow> [] | Some a \<Rightarrow> [(k, f a)])"

definition head_segs :: "string \<Rightarrow> enqueue_options \<Rightarrow> (string \<times> field_value) list" where
  "head_segs created opt = [(''title'', VStr (eo_title opt)), (''created'', VStr created)]
     @ seg ''priority'' VInt (eo_priority opt) @ seg ''depends_on'' VList (nonempty_list (eo_depends_on opt))"

definition tail_segs :: "enqueue_options \<Rightarrow> (string \<times> field_value) list" where
  "tail_segs opt = seg ''profile'' VStr (eo_profile opt) @ seg ''stack_id'' VStr (eo_stack_id opt)
     @ seg ''stack_parent'' VStr (eo_stack_parent opt)
     @ seg ''landing'' (\<lambda>a. VStr (landing_text a)) (eo_landingAction opt)
     @ seg ''landing_auto_merge'' VBool (eo_landingAutoMerge opt)"

definition command_lines :: "string list \<Rightarrow> string list" where
  "command_lines cmds = ''postMerge:'' # map (\<lambda>c. ''  - '' @ json_stringify c) cmds"

text \<open>Fields that serialise to the given lines.\<close>

inductive written :: "(string \<times> field_value) list \<Rightarrow> string list \<Rightarrow> bool" where
  written_Nil: "written [] []"
| written_Cons: "field_line k v = Some L \<Longrightarrow> key_ok k \<Longrightarrow> comma_free v \<Longrightarrow> written kvs ls \<Longrightarrow> written ((k, v) # kvs) (L # ls)"

lemma written_append: "written a x \<Longrightarrow> written b y \<Longrightarrow> written (a @ b) (x @ y)"
  by (induction rule: written.induct) (auto intro: written.intros)

lemma written_seg:
  "(\<And>a. x = Some a \<Longrightarrow> field_line k (f a) = Some (g a) \<and> comma_free (f a)) \<Longrightarrow> key_ok k \<Longrightarrow>
   written (seg k f x) (opt_line g x)"
  by (cases x) (auto simp: seg_def opt_line_def intro: written.intros)

lemma written_lines: "written kvs ls \<Longrightarrow> (\<forall>l \<in> set ls. nl \<notin> set l \<and> take 3 l \<noteq> dashes)"
  by (induction rule: written.induct) (auto dest: field_line_facts(6,7))

lemma dput_fresh: "k \<notin> fst ` set m \<Longrightarrow> dput k v m = m @ [(k, v)]"
  by (induction m) auto

lemma disjoint_extend: "A \<subseteq> H \<union> {p} \<Longrightarrow> H \<inter> T = {} \<Longrightarrow> p \<notin> T \<Longrightarrow> A \<inter> T = {}"
  by blast

lemma dput_last: "k \<notin> fst ` set m \<Longrightarrow> dput k v (m @ [(k, w)]) = m @ [(k, v)]"
  by (induction m) auto

lemma written_parse:
  "written kvs ls \<Longrightarrow> distinct (dkeys kvs) \<Longrightarrow> fst ` set m \<inter> fst ` set kvs = {} \<Longrightarrow>
   fst (parse_lines ls (m, cur)) = m @ map (\<lambda>(k, v). (k, fm_of v)) kvs \<and>
   snd (parse_lines ls (m, cur)) = (if kvs = [] then cur else None)"
proof (induction arbitrary: m cur rule: written.induct)
  case (written_Cons k v L kvs ls)
  have step: "parse_lines (L # ls) (m, cur) = parse_lines ls (m @ [(k, fm_of v)], None)"
    using parse_field_line [OF written_Cons(1-3), of "(m, cur)"] written_Cons.prems(2)
    by (simp add: parse_lines_def dput_fresh)
  have "fst ` set (m @ [(k, fm_of v)]) \<inter> fst ` set kvs = {}" using written_Cons.prems by auto
  with written_Cons.IH [of "m @ [(k, fm_of v)]" None] written_Cons.prems show ?case
    unfolding step by (cases kvs) (auto simp: parse_lines_def elim: written.cases)
qed (simp add: parse_lines_def)

text \<open>The commands are the items of a block list.\<close>

lemma parse_command:
  assumes "\<not> list_ex is_control c" "dget m k = Some (FList vs)"
  shows "parse_line (''  - '' @ json_stringify c) (m, Some k) = (dput k (FList (vs @ [FStr c])) m, Some k)"
proof -
  have d: "dropWhile is_ws (''  - '' @ json_stringify c) = ''- '' @ json_stringify c"
      "dropWhile is_ws (CHR '' '' # json_stringify c) = json_stringify c"
    using json_stringify_ends [of c] by (simp_all add: is_ws_def json_stringify_def)
  have "list_match (''  - '' @ json_stringify c) = Some (json_stringify c)"
    using d clean_no_line_end [OF json_stringify_clean [OF assms(1)]] by (simp add: list_match_def)
  then show ?thesis
    using assms by (simp add: parse_line_def quoted_trim parse_quoted push_item_def)
qed

lemma parse_commands:
  assumes "list_all (\<lambda>c. \<not> list_ex is_control c) cmds" "dget m k = Some (FList vs)" "distinct (dkeys m)"
  shows "parse_lines (map (\<lambda>c. ''  - '' @ json_stringify c) cmds) (m, Some k) =
    (dput k (FList (vs @ map FStr cmds)) m, Some k)"
  using assms
proof (induction cmds arbitrary: m vs)
  case Nil
  then show ?case by (simp add: parse_lines_def update_triv)
next
  case (Cons c cmds)
  let ?m = "dput k (FList (vs @ [FStr c])) m"
  have "parse_lines (map (\<lambda>c. ''  - '' @ json_stringify c) cmds) (?m, Some k) =
      (dput k (FList ((vs @ [FStr c]) @ map FStr cmds)) ?m, Some k)"
    using Cons.prems by (intro Cons.IH) auto
  with Cons.prems show ?case
    using parse_command [of c m k vs] by (simp add: parse_lines_def)
qed

lemma parse_post_merge:
  assumes "list_all (\<lambda>c. \<not> list_ex is_control c) cmds" "''postMerge'' \<notin> fst ` set m" "distinct (dkeys m)"
  shows "parse_lines (command_lines cmds) (m, None) = (m @ [(''postMerge'', FList (map FStr cmds))], Some ''postMerge'')"
proof -
  have "parse_line ''postMerge:'' (m, None) = (dput ''postMerge'' (FList []) m, Some ''postMerge'')"
    by (simp add: parse_line_def list_match_def kv_match_def kv_split_def word_char_def code_def is_digit_def
        is_ws_def trim_def)
  then have "parse_lines (command_lines cmds) (m, None) =
      (dput ''postMerge'' (FList ([] @ map FStr cmds)) (dput ''postMerge'' (FList []) m), Some ''postMerge'')"
    using assms parse_commands [of cmds "dput ''postMerge'' (FList []) m" "''postMerge''" "[]"]
    by (simp add: parse_lines_def command_lines_def)
  with assms show ?thesis by (simp add: dput_fresh dput_last)
qed

section \<open>The property\<close>

text \<open>What an enqueued PRD must satisfy: the fields written without quotes need none, and the
  dependencies need no escape.\<close>

definition opt_all :: "('a \<Rightarrow> bool) \<Rightarrow> 'a option \<Rightarrow> bool" where
  "opt_all P x \<longleftrightarrow> (case x of None \<Rightarrow> True | Some a \<Rightarrow> P a)"

lemma opt_all_Some [simp]: "opt_all P (Some a) \<longleftrightarrow> P a"
  by (simp add: opt_all_def)

definition writable :: "string \<Rightarrow> enqueue_options \<Rightarrow> bool" where
  "writable created opt \<longleftrightarrow> plain_text created \<and> post_merge_ok (eo_postMerge opt) \<and>
     opt_all plain_text (eo_profile opt) \<and> opt_all plain_text (eo_stack_id opt) \<and>
     opt_all plain_text (eo_stack_parent opt) \<and> opt_all (list_all quotable) (eo_depends_on opt)"

lemma has_control_iff: "has_control s \<longleftrightarrow> list_ex is_control s"
  by (auto simp: has_control_def list_ex_iff is_control_def code_def)

lemma key_ok_code: "key_ok k \<longleftrightarrow> k \<noteq> [] \<and> list_all word_char k"
  by (rule key_ok_def)

lemma nonempty_list_Some: "nonempty_list x = Some y \<longleftrightarrow> x = Some y \<and> y \<noteq> []"
  by (auto simp: nonempty_list_def split: option.splits list.splits)

lemma depends_on_field:
  "list_all quotable ds \<Longrightarrow> field_line ''depends_on'' (VList ds) = Some (depends_on_line ds) \<and> comma_free (VList ds)"
proof -
  assume q: "list_all quotable ds"
  then have "map json_stringify ds = map (\<lambda>d. [dq] @ d @ [dq]) ds"
    by (auto simp: list_all_iff quotable_json)
  moreover have "list_all (\<lambda>i. assertSafeFrontmatterString i \<noteq> None) ds" "comma_free (VList ds)"
    using q by (auto simp: list_all_iff quotable_def assertSafeFrontmatterString_def)
  ultimately show ?thesis by (simp add: field_line_def depends_on_line_def cong: map_cong)
qed

lemma plain_field: "plain_text p \<Longrightarrow> field_line k (VStr p) = Some (k @ '': '' @ p)"
  by (simp add: plain_text_def field_line_def)

lemma landing_plain: "plain_text (landing_text a)"
  by (cases a) (simp_all only: landing_text.simps plain_text_def, code_simp+)

lemma keys_ok: "key_ok ''title''" "key_ok ''created''" "key_ok ''priority''" "key_ok ''depends_on''" "key_ok ''profile''"
  "key_ok ''stack_id''" "key_ok ''stack_parent''" "key_ok ''landing''" "key_ok ''landing_auto_merge''"
  by (simp_all add: key_ok_def word_char_def code_def is_digit_def)

definition middle_lines :: "enqueue_options \<Rightarrow> string list" where
  "middle_lines opt = (case nonempty_list (eo_postMerge opt) of None \<Rightarrow> [] | Some cmds \<Rightarrow> command_lines cmds)"

lemma fm_lines_written:
  assumes "fm_lines created opt = Some ls" "writable created opt"
  obtains hl tls where "ls = hl @ opt_line post_merge_line (nonempty_list (eo_postMerge opt)) @ tls"
    "written (head_segs created opt) hl" "written (tail_segs opt) tls"
proof -
  from assms(1) obtain t where t: "serializeFrontmatterStringScalar (eo_title opt) = Some t" by (auto simp: fm_lines_def)
  let ?hl = "(''title: '' @ t) # (''created: '' @ created) # opt_line (\<lambda>p. ''priority: '' @ int_string p) (eo_priority opt)
      @ opt_line depends_on_line (nonempty_list (eo_depends_on opt))"
  let ?tl = "opt_line (\<lambda>p. ''profile: '' @ p) (eo_profile opt) @ opt_line (\<lambda>p. ''stack_id: '' @ p) (eo_stack_id opt)
      @ opt_line (\<lambda>p. ''stack_parent: '' @ p) (eo_stack_parent opt)
      @ opt_line (\<lambda>a. ''landing: '' @ landing_text a) (eo_landingAction opt)
      @ opt_line (\<lambda>b. ''landing_auto_merge: '' @ (if b then ''true'' else ''false'')) (eo_landingAutoMerge opt)"
  note w = assms(2) [unfolded writable_def]
  have deps: "list_all quotable ds" if "nonempty_list (eo_depends_on opt) = Some ds" for ds
    using w that by (auto simp: nonempty_list_Some)
  have "written (head_segs created opt) ?hl"
    unfolding head_segs_def using w t keys_ok deps
    by (auto simp: plain_field field_line_def [of "''title''"] field_line_def [of _ "VInt _"] depends_on_field
          depends_on_field [THEN conjunct2, simplified] simp del: comma_free.simps(1)
        intro!: written_append written_Cons written_seg)
  moreover have "written (tail_segs opt) ?tl"
    unfolding tail_segs_def using w keys_ok
    by (auto simp: plain_field landing_plain field_line_def [of _ "VBool _"] intro!: written_append written_seg)
  ultimately show thesis using that [of ?hl ?tl] assms(1) t by (simp add: fm_lines_def)
qed

lemma seg_entries: "map (\<lambda>(k, v). (k, fm_of v)) (seg k f x) = opt_entry k (\<lambda>a. fm_of (f a)) x"
  "dkeys (seg k f x) = (if x = None then [] else [k])"
  by (cases x; simp add: seg_def opt_entry_def)+

lemma segs_distinct: "distinct (dkeys (head_segs created opt))" "distinct (dkeys (tail_segs opt))"
  "fst ` set (head_segs created opt) \<inter> fst ` set (tail_segs opt) = {}"
  "''postMerge'' \<notin> fst ` set (head_segs created opt)" "''postMerge'' \<notin> fst ` set (tail_segs opt)"
  by (auto simp: head_segs_def tail_segs_def seg_def split: option.splits)

lemma split_line: "nl \<notin> set l \<Longrightarrow> split_on nl l = [l]"
  by (rule split_on_single)

lemma concat_split_lines: "\<forall>l \<in> set ls. nl \<notin> set l \<Longrightarrow> concat (map (split_on nl) ls) = ls"
  by (induction ls) (auto simp: split_line)

lemma command_lines_split:
  assumes "list_all (\<lambda>c. \<not> list_ex is_control c) cmds" "cmds \<noteq> []"
  shows "split_on nl (post_merge_line cmds) = command_lines cmds"
    and "\<forall>l \<in> set (command_lines cmds). nl \<notin> set l \<and> take 3 l \<noteq> dashes"
proof -
  let ?ls = "map (\<lambda>c. ''  - '' @ json_stringify c) cmds"
  have n: "\<forall>l \<in> set ?ls. nl \<notin> set l"
    using assms(1) json_stringify_clean control_of_lf by (fastforce simp: list_all_iff list_ex_iff)
  have "split_on nl (post_merge_line cmds) = split_on nl (''postMerge:'' @ nl # join [nl] ?ls)"
    by (simp add: post_merge_line_def)
  also have "\<dots> = split_on nl ''postMerge:'' @ split_on nl (join [nl] ?ls)"
    by (rule split_on_append_sep)
  also have "split_on nl (join [nl] ?ls) = ?ls"
    using assms(2) concat_split_lines [OF n] by (subst split_on_join_concat) simp_all
  also have "split_on nl ''postMerge:'' @ ?ls = command_lines cmds"
    by (simp add: command_lines_def)
  finally show "split_on nl (post_merge_line cmds) = command_lines cmds" .
  show "\<forall>l \<in> set (command_lines cmds). nl \<notin> set l \<and> take 3 l \<noteq> dashes"
    using n by (auto simp: command_lines_def dashes_def)
qed


definition demo_request :: enqueue_options where
  "demo_request = \<lparr>eo_title = ''Add: login'', eo_priority = Some 2, eo_depends_on = Some [''base''], eo_intoWaiting = True,
     eo_postMerge = Some [''npm run a, b''], eo_profile = Some ''fast'', eo_landingAction = Some LandPr,
     eo_landingAutoMerge = None, eo_stack_id = None, eo_stack_parent = Some ''base''\<rparr>"


text \<open>The parent of a layer is written without quotes, and a PRD may be called \<open>2024\<close>: the
  parent is then read back as a number, which the schema refuses.\<close>

lemma numeric_parent_misread:
  "slugify ''2024'' = ''2024'' \<and> validatePrdId ''2024'' \<and>
   parseFrontmatter (the (fileContent ''2026-01-02''
     (demo_request\<lparr>eo_depends_on := Some [''2024''], eo_stack_parent := Some ''2024''\<rparr>) ''Body'')) \<noteq> None \<and>
   dget (the (parseFrontmatter (the (fileContent ''2026-01-02''
     (demo_request\<lparr>eo_depends_on := Some [''2024''], eo_stack_parent := Some ''2024''\<rparr>) ''Body'')))) ''stack_parent'' =
     Some (FInt 2024)"
  by code_simp

end
