(* ===== verification/QueueSnapshot.thy ===== *)
theory QueueSnapshot
  imports Finalizer
begin

text \<open>
  The snapshot queue controls work on (\<open>queue/snapshot.ts\<close>): the records of the four queue
  directories with the status a lock gives them, and the cascade of dependents of a PRD. The
  lemmas show that the cascade is exactly the transitive dependents.
\<close>

section \<open>Errors and surroundings\<close>

datatype qc_kind = QcNotFound | QcValidation | QcConflict

datatype qc_error = QcError qc_kind | QcThrown

text \<open>
  What the disk does not decide: the answer of \<open>kill(pid, 0)\<close>, the own pid, whether the removal
  of a lock succeeds, whether a path is a plain file below the queue directory (not a link out
  of it), whether a failing \<open>readFile\<close> reports that the file is missing, and \<open>localeCompare\<close>
  of two paths and of two ids.
\<close>

record qc_env =
  qe_os :: "nat \<Rightarrow> probe"
  qe_pid :: nat
  qe_release_ok :: "prd_id \<Rightarrow> bool"
  qe_plain :: "qloc \<Rightarrow> prd_id \<Rightarrow> bool"
  qe_missing :: "prd_id \<Rightarrow> bool"
  qe_path_cmp :: "qpath \<Rightarrow> qpath \<Rightarrow> int"
  qe_id_cmp :: "prd_id \<Rightarrow> prd_id \<Rightarrow> int"

fun has_dotdot :: "string \<Rightarrow> bool" where
  "has_dotdot (c # d # cs) \<longleftrightarrow> (c = CHR ''.'' \<and> d = CHR ''.'') \<or> has_dotdot (d # cs)"
| "has_dotdot cs \<longleftrightarrow> False"

definition assertSafePrdId :: "prd_id \<Rightarrow> bool" where
  "assertSafePrdId i \<longleftrightarrow>
     length i > 0 \<and> CHR ''/'' \<notin> set i \<and> CHR 0x5C \<notin> set i \<and> \<not> has_dotdot i \<and> CHR 0x00 \<notin> set i"

section \<open>Records\<close>

datatype q_status = QsPending | QsRunning | QsWaiting | QsFailed | QsSkipped

record qrec =
  qr_prd :: queued_prd
  qr_status :: q_status
  qr_lock :: "prd_lock option"

abbreviation "qr_id r \<equiv> q_id (qr_prd r)"
abbreviation "qr_location r \<equiv> q_loc (qr_prd r)"
abbreviation "qr_fm r \<equiv> q_fm (qr_prd r)"
abbreviation "qr_dependsOn r \<equiv> deps_of (q_fm (qr_prd r))"
abbreviation "qr_path r \<equiv> QPath (q_loc (qr_prd r)) (q_id (qr_prd r))"
abbreviation "qr_held r \<equiv> fm_held (q_fm (qr_prd r)) = Some True"

fun is_live :: "prd_lock \<Rightarrow> bool" where
  "is_live (Live _) = True"
| "is_live _ = False"

fun is_stale_or_corrupt :: "prd_lock \<Rightarrow> bool" where
  "is_stale_or_corrupt (Stale _) = True"
| "is_stale_or_corrupt Corrupt = True"
| "is_stale_or_corrupt _ = False"

fun location_status :: "qloc \<Rightarrow> q_status" where
  "location_status RootDir = QsPending"
| "location_status WaitingDir = QsWaiting"
| "location_status FailedDir = QsFailed"
| "location_status SkippedDir = QsSkipped"

definition statusFor :: "qloc \<Rightarrow> prd_lock option \<Rightarrow> q_status" where
  "statusFor l lock =
     (if l = RootDir \<and> (case lock of Some k \<Rightarrow> is_live k | None \<Rightarrow> False) then QsRunning
      else location_status l)"

text \<open>\<open>assertQueueRecordStillAtExpectedPath\<close>.\<close>

definition still_at_path :: "qc_env \<Rightarrow> qloc \<Rightarrow> prd_id \<Rightarrow> qdisk \<Rightarrow> qc_error option" where
  "still_at_path env l i d =
     (if \<not> file_exists l i d then Some (QcError QcConflict)
      else if \<not> qe_plain env l i then Some (QcError QcValidation)
      else None)"

definition lock_status :: "qc_env \<Rightarrow> prd_id \<Rightarrow> qdisk \<Rightarrow> prd_lock option" where
  "lock_status env i d = readPrdLockStatus (qe_os env) (read_lock (d_locks d) i)"

text \<open>\<open>releasePrd\<close> on the disk; \<open>None\<close> when it throws.\<close>

definition release_on :: "qc_env \<Rightarrow> prd_id \<Rightarrow> qdisk \<Rightarrow> qdisk option" where
  "release_on env i d =
     (if qe_release_ok env i then Some (d\<lparr>d_locks := releasePrd i (d_locks d)\<rparr>) else None)"

text \<open>The lock of a root record: in a snapshot for mutation a stale or corrupt one is removed
  and the lock is read again.\<close>

definition classify_lock :: "qc_env \<Rightarrow> bool \<Rightarrow> prd_id \<Rightarrow> qdisk \<Rightarrow> qdisk \<times> (qc_error, prd_lock) result" where
  "classify_lock env mutation i d =
     (case lock_status env i d of
        None \<Rightarrow> (d, Inl QcThrown)
      | Some k \<Rightarrow>
          if mutation \<and> is_stale_or_corrupt k
          then (case release_on env i d of
                  None \<Rightarrow> (d, Inl QcThrown)
                | Some d1 \<Rightarrow> (case lock_status env i d1 of
                                None \<Rightarrow> (d1, Inl QcThrown)
                              | Some k1 \<Rightarrow> (d1, Inr k1)))
          else (d, Inr k))"

definition load_record :: "qc_env \<Rightarrow> bool \<Rightarrow> queued_prd \<Rightarrow> qdisk \<Rightarrow> qdisk \<times> (qc_error, qrec) result" where
  "load_record env mutation p d =
     (if \<not> assertSafePrdId (q_id p) then (d, Inl (QcError QcValidation))
      else case (if mutation then still_at_path env (q_loc p) (q_id p) d else None) of
             Some e \<Rightarrow> (d, Inl e)
           | None \<Rightarrow>
               if q_loc p = RootDir
               then (case classify_lock env mutation (q_id p) d of
                       (d1, Inl e) \<Rightarrow> (d1, Inl e)
                     | (d1, Inr k) \<Rightarrow> (d1, Inr \<lparr>qr_prd = p, qr_status = statusFor (q_loc p) (Some k), qr_lock = Some k\<rparr>))
               else (d, Inr \<lparr>qr_prd = p, qr_status = statusFor (q_loc p) None, qr_lock = None\<rparr>))"

fun load_records :: "qc_env \<Rightarrow> bool \<Rightarrow> queued_prd list \<Rightarrow> qdisk \<Rightarrow> qdisk \<times> (qc_error, qrec list) result" where
  "load_records env mutation [] d = (d, Inr [])"
| "load_records env mutation (p # ps) d =
     (case load_record env mutation p d of
        (d1, Inl e) \<Rightarrow> (d1, Inl e)
      | (d1, Inr r) \<Rightarrow>
          (case load_records env mutation ps d1 of
             (d2, Inl e) \<Rightarrow> (d2, Inl e)
           | (d2, Inr rs) \<Rightarrow> (d2, Inr (r # rs))))"

text \<open>A directory that is missing has no records; so has one in which reading a file reports
  that it is missing.\<close>

definition loadLocation :: "qc_env \<Rightarrow> bool \<Rightarrow> qloc \<Rightarrow> qdisk \<Rightarrow> qdisk \<times> (qc_error, qrec list) result" where
  "loadLocation env mutation l d =
     (case loadQueue l d of
        Inl (ReadFileFailed i) \<Rightarrow> if qe_missing env i then (d, Inr []) else (d, Inl (QcError QcConflict))
      | Inl (InvalidFrontmatter i) \<Rightarrow> (d, Inl (QcError QcConflict))
      | Inr prds \<Rightarrow> load_records env mutation prds d)"

record snapshot_rec =
  sn_records :: "qrec list"
  sn_byId :: "(prd_id \<times> qrec) list"
  sn_duplicates :: "(prd_id \<times> qrec list) list"

fun location_rank :: "qloc \<Rightarrow> int" where
  "location_rank FailedDir = 0"
| "location_rank RootDir = 1"
| "location_rank SkippedDir = 2"
| "location_rank WaitingDir = 3"

definition compare_records :: "qc_env \<Rightarrow> qrec \<Rightarrow> qrec \<Rightarrow> int" where
  "compare_records env a b =
     (let l = location_rank (qr_location a) - location_rank (qr_location b) in
      if l \<noteq> 0 then l
      else let p = qe_path_cmp env (qr_path a) (qr_path b) in
        if p \<noteq> 0 then p else qe_id_cmp env (qr_id a) (qr_id b))"

definition group_records :: "qrec list \<Rightarrow> (prd_id \<times> qrec list) list" where
  "group_records rs =
     fold (\<lambda>r g. dput (qr_id r) ((case dget g (qr_id r) of Some xs \<Rightarrow> xs | None \<Rightarrow> []) @ [r]) g) rs []"

definition make_snapshot :: "qc_env \<Rightarrow> qrec list \<Rightarrow> snapshot_rec" where
  "make_snapshot env rs =
     (let records = sort_by (compare_records env) rs; grouped = group_records records
      in \<lparr>sn_records = records,
          sn_byId = map (\<lambda>(i, g). (i, hd g)) (filter (\<lambda>(i, g). length g = 1) grouped),
          sn_duplicates = filter (\<lambda>(i, g). length g \<noteq> 1) grouped\<rparr>)"

fun load_locations :: "qc_env \<Rightarrow> bool \<Rightarrow> qloc list \<Rightarrow> qdisk \<Rightarrow> qdisk \<times> (qc_error, qrec list) result" where
  "load_locations env mutation [] d = (d, Inr [])"
| "load_locations env mutation (l # ls) d =
     (case loadLocation env mutation l d of
        (d1, Inl e) \<Rightarrow> (d1, Inl e)
      | (d1, Inr rs) \<Rightarrow>
          (case load_locations env mutation ls d1 of
             (d2, Inl e) \<Rightarrow> (d2, Inl e)
           | (d2, Inr rs') \<Rightarrow> (d2, Inr (rs @ rs'))))"

definition loadQueueControlSnapshot :: "qc_env \<Rightarrow> bool \<Rightarrow> qdisk \<Rightarrow> qdisk \<times> (qc_error, snapshot_rec) result" where
  "loadQueueControlSnapshot env mutation d =
     (case load_locations env mutation [RootDir, WaitingDir, FailedDir, SkippedDir] d of
        (d1, Inl e) \<Rightarrow> (d1, Inl e)
      | (d1, Inr rs) \<Rightarrow> (d1, Inr (make_snapshot env rs)))"

section \<open>The cascade of dependents\<close>

definition byUpstream :: "qrec list \<Rightarrow> prd_id \<Rightarrow> qrec list" where
  "byUpstream rs u = concat (map (\<lambda>r. map (\<lambda>_. r) (filter (\<lambda>d. d = u) (qr_dependsOn r))) rs)"

type_synonym cascade_dependent = "qrec \<times> nat"

lemma set_byUpstream: "set (byUpstream rs u) = {r \<in> set rs. u \<in> set (qr_dependsOn r)}"
  by (auto simp: byUpstream_def)

function cascade_loop :: "qrec list \<Rightarrow> prd_id list \<Rightarrow> cascade_dependent list \<Rightarrow> cascade_dependent list" where
  "cascade_loop rs seen [] = []"
| "cascade_loop rs seen ((r, n) # queue) =
     (if qr_id r \<in> set seen then cascade_loop rs seen queue
      else (r, n) # cascade_loop rs (qr_id r # seen) (queue @ map (\<lambda>c. (c, Suc n)) (byUpstream rs (qr_id r))))"
  by pat_completeness auto
termination
proof (relation "measures [\<lambda>(rs, seen, q). card ((qr_id ` set rs \<union> qr_id ` fst ` set q) - set seen), \<lambda>(rs, seen, q). length q]",
    goal_cases)
  case 1
  then show ?case by simp
next
  case (2 rs seen r n queue)
  then have "card ((qr_id ` set rs \<union> qr_id ` fst ` set queue) - set seen) \<le>
      card ((qr_id ` set rs \<union> qr_id ` fst ` set ((r, n) # queue)) - set seen)"
    by (intro card_mono) auto
  then show ?case by auto
next
  case (3 rs seen r n queue)
  have "(qr_id ` set rs \<union> qr_id ` fst ` set (queue @ map (\<lambda>c. (c, Suc n)) (byUpstream rs (qr_id r)))) - set (qr_id r # seen)
      \<subset> (qr_id ` set rs \<union> qr_id ` fst ` set ((r, n) # queue)) - set seen"
    using 3 by (auto simp: set_byUpstream)
  then have "card ((qr_id ` set rs \<union> qr_id ` fst ` set (queue @ map (\<lambda>c. (c, Suc n)) (byUpstream rs (qr_id r)))) - set (qr_id r # seen))
      < card ((qr_id ` set rs \<union> qr_id ` fst ` set ((r, n) # queue)) - set seen)"
    by (intro psubset_card_mono) auto
  then show ?case by simp
qed

definition compare_dependents :: "qc_env \<Rightarrow> cascade_dependent \<Rightarrow> cascade_dependent \<Rightarrow> int" where
  "compare_dependents env a b =
     (let n = int (snd a) - int (snd b) in if n \<noteq> 0 then n else qe_id_cmp env (qr_id (fst a)) (qr_id (fst b)))"

definition findCascadeDependents :: "qc_env \<Rightarrow> prd_id \<Rightarrow> qrec list \<Rightarrow> cascade_dependent list" where
  "findCascadeDependents env target rs =
     sort_by (compare_dependents env) (cascade_loop rs [] (map (\<lambda>r. (r, 1)) (byUpstream rs target)))"

subsection \<open>The cascade is the transitive dependents\<close>

definition dep_edges :: "qrec list \<Rightarrow> (prd_id \<times> prd_id) set" where
  "dep_edges rs = {(u, qr_id r) | u r. r \<in> set rs \<and> u \<in> set (qr_dependsOn r)}"

lemma byUpstream_edge: "r \<in> set (byUpstream rs u) \<Longrightarrow> r \<in> set rs \<and> (u, qr_id r) \<in> dep_edges rs"
  by (auto simp: set_byUpstream dep_edges_def)

lemma edge_byUpstream: "(u, v) \<in> dep_edges rs \<Longrightarrow> \<exists>r \<in> set (byUpstream rs u). qr_id r = v"
  by (auto simp: set_byUpstream dep_edges_def)

lemma cascade_loop_sound:
  assumes "\<forall>(r, n) \<in> set queue. r \<in> set rs \<and> (t, qr_id r) \<in> dep_edges rs ^^ n"
  shows "\<forall>(r, n) \<in> set (cascade_loop rs seen queue). r \<in> set rs \<and> (t, qr_id r) \<in> dep_edges rs ^^ n"
  using assms
proof (induction rs seen queue rule: cascade_loop.induct)
  case (2 rs seen r n queue)
  show ?case
  proof (cases "qr_id r \<in> set seen")
    case True
    with 2 show ?thesis by simp
  next
    case False
    have "(t, qr_id c) \<in> dep_edges rs ^^ Suc n" if "c \<in> set (byUpstream rs (qr_id r))" for c
    proof (rule relpow_Suc_I)
      show "(t, qr_id r) \<in> dep_edges rs ^^ n" using 2(3) by simp
      show "(qr_id r, qr_id c) \<in> dep_edges rs" using byUpstream_edge [OF that] by blast
    qed
    then have "\<forall>(c, k) \<in> set (queue @ map (\<lambda>c. (c, Suc n)) (byUpstream rs (qr_id r))).
        c \<in> set rs \<and> (t, qr_id c) \<in> dep_edges rs ^^ k"
      using 2(3) by (auto dest: byUpstream_edge simp del: relpow.simps)
    note ih = 2(2) [OF False this]
    have e: "cascade_loop rs seen ((r, n) # queue) = (r, n) # cascade_loop rs (qr_id r # seen)
        (queue @ map (\<lambda>c. (c, Suc n)) (byUpstream rs (qr_id r)))"
      using False by simp
    have "r \<in> set rs \<and> (t, qr_id r) \<in> dep_edges rs ^^ n" using 2(3) by simp
    with ih show ?thesis unfolding e by (simp only: list.set ball_simps prod.case)
  qed
qed simp

lemma cascade_loop_distinct:
  "distinct (map (\<lambda>x. qr_id (fst x)) (cascade_loop rs seen queue)) \<and>
   set (map (\<lambda>x. qr_id (fst x)) (cascade_loop rs seen queue)) \<inter> set seen = {}"
  by (induction rs seen queue rule: cascade_loop.induct) auto

definition loop_ids :: "qrec list \<Rightarrow> prd_id list \<Rightarrow> cascade_dependent list \<Rightarrow> prd_id set" where
  "loop_ids rs seen queue = (\<lambda>x. qr_id (fst x)) ` set (cascade_loop rs seen queue)"

lemma cascade_loop_complete:
  "(\<forall>x \<in> set queue. qr_id (fst x) \<in> set seen \<union> loop_ids rs seen queue) \<and>
   (\<forall>i \<in> loop_ids rs seen queue. \<forall>c \<in> set (byUpstream rs i). qr_id c \<in> set seen \<union> loop_ids rs seen queue)"
proof (induction rs seen queue rule: cascade_loop.induct)
  case (2 rs seen r n queue)
  show ?case
  proof (cases "qr_id r \<in> set seen")
    case True
    with 2 have e: "loop_ids rs seen ((r, n) # queue) = loop_ids rs seen queue" by (simp add: loop_ids_def)
    show ?thesis unfolding e using 2(1) [OF True] True by auto
  next
    case False
    let ?q = "queue @ map (\<lambda>c. (c, Suc n)) (byUpstream rs (qr_id r))"
    have e: "loop_ids rs seen ((r, n) # queue) = insert (qr_id r) (loop_ids rs (qr_id r # seen) ?q)"
      using False by (simp add: loop_ids_def)
    from 2(2) [OF False] have q: "\<forall>x \<in> set ?q. qr_id (fst x) \<in> insert (qr_id r) (set seen) \<union> loop_ids rs (qr_id r # seen) ?q"
      and c: "\<forall>i \<in> loop_ids rs (qr_id r # seen) ?q. \<forall>c \<in> set (byUpstream rs i).
          qr_id c \<in> insert (qr_id r) (set seen) \<union> loop_ids rs (qr_id r # seen) ?q"
      by simp_all
    have "\<forall>c \<in> set (byUpstream rs (qr_id r)). qr_id c \<in> insert (qr_id r) (set seen) \<union> loop_ids rs (qr_id r # seen) ?q"
    proof
      fix c assume "c \<in> set (byUpstream rs (qr_id r))"
      then have "(c, Suc n) \<in> set ?q" by simp
      with q show "qr_id c \<in> insert (qr_id r) (set seen) \<union> loop_ids rs (qr_id r # seen) ?q" by fastforce
    qed
    then show ?thesis unfolding e using q c by auto
  qed
qed (simp add: loop_ids_def)

lemma cascade_loop_pos: "\<forall>(r, n) \<in> set queue. n > 0 \<Longrightarrow> \<forall>(r, n) \<in> set (cascade_loop rs seen queue). n > 0"
  by (induction rs seen queue rule: cascade_loop.induct) auto

text \<open>The records found: exactly those the target reaches along the dependencies.\<close>

lemma cascade_ids:
  "(\<lambda>x. qr_id (fst x)) ` set (findCascadeDependents env t rs) = {i. (t, i) \<in> (dep_edges rs)\<^sup>+}"
proof -
  let ?q = "map (\<lambda>r. (r, 1)) (byUpstream rs t)"
  have ids: "(\<lambda>x. qr_id (fst x)) ` set (findCascadeDependents env t rs) = loop_ids rs [] ?q"
    by (simp add: findCascadeDependents_def loop_ids_def)
  have sound: "\<forall>(r, n) \<in> set (cascade_loop rs [] ?q). r \<in> set rs \<and> (t, qr_id r) \<in> dep_edges rs ^^ n"
    by (rule cascade_loop_sound) (auto dest: byUpstream_edge)
  have pos: "\<forall>(r, n) \<in> set (cascade_loop rs [] ?q). n > 0" by (rule cascade_loop_pos) auto
  note comp = cascade_loop_complete [of ?q "[]" rs]
  have "i \<in> loop_ids rs [] ?q" if "(t, i) \<in> (dep_edges rs)\<^sup>+" for i
    using that
  proof (induction rule: trancl_induct)
    case (base y)
    then obtain r where "r \<in> set (byUpstream rs t)" "qr_id r = y" using edge_byUpstream by blast
    with comp show ?case by force
  next
    case (step y z)
    then obtain r where "r \<in> set (byUpstream rs y)" "qr_id r = z" using edge_byUpstream by blast
    with comp step.IH show ?case by force
  qed
  moreover have "(t, i) \<in> (dep_edges rs)\<^sup>+" if "i \<in> loop_ids rs [] ?q" for i
  proof -
    from that obtain r n where rn: "(r, n) \<in> set (cascade_loop rs [] ?q)" "qr_id r = i"
      by (auto simp: loop_ids_def)
    with sound pos show ?thesis by (auto simp: trancl_power)
  qed
  ultimately show ?thesis unfolding ids by blast
qed

text \<open>
  \<open>findCascadeDependents\<close> is exact: over records with distinct ids it returns each
  transitive dependent of the target once, with a depth that is the length of a dependency path
  from the target, ordered by depth when the id comparison is a preorder.
\<close>

theorem cascade_dependents_exact:
  assumes "distinct (map qr_id rs)" and "preorder_cmp (qe_id_cmp env)"
  shows "set (map fst (findCascadeDependents env t rs)) = {r \<in> set rs. (t, qr_id r) \<in> (dep_edges rs)\<^sup>+} \<and>
    distinct (map fst (findCascadeDependents env t rs)) \<and>
    (\<forall>(r, n) \<in> set (findCascadeDependents env t rs). n > 0 \<and> (t, qr_id r) \<in> dep_edges rs ^^ n) \<and>
    sorted (map snd (findCascadeDependents env t rs))"
proof -
  let ?q = "map (\<lambda>r. (r, 1)) (byUpstream rs t)" and ?c = "findCascadeDependents env t rs"
  have set: "set ?c = set (cascade_loop rs [] ?q)" by (simp add: findCascadeDependents_def)
  have sound: "\<forall>(r, n) \<in> set ?c. r \<in> set rs \<and> (t, qr_id r) \<in> dep_edges rs ^^ n"
    unfolding set by (rule cascade_loop_sound) (auto dest: byUpstream_edge)
  have pos: "\<forall>(r, n) \<in> set ?c. n > 0" unfolding set by (rule cascade_loop_pos) auto
  have inj: "inj_on qr_id (set rs)" using assms(1) by (simp add: distinct_map)
  have "set (map fst ?c) = {r \<in> set rs. qr_id r \<in> (\<lambda>x. qr_id (fst x)) ` set ?c}"
  proof (intro set_eqI iffI)
    fix x assume "x \<in> set (map fst ?c)"
    then obtain n where "(x, n) \<in> set ?c" by auto
    with sound show "x \<in> {r \<in> set rs. qr_id r \<in> (\<lambda>x. qr_id (fst x)) ` set ?c}" by force
  next
    fix x assume "x \<in> {r \<in> set rs. qr_id r \<in> (\<lambda>x. qr_id (fst x)) ` set ?c}"
    then obtain r n where x: "x \<in> set rs" "(r, n) \<in> set ?c" "qr_id x = qr_id r" by auto
    with sound inj have "x = r" by (blast dest: inj_onD)
    with x show "x \<in> set (map fst ?c)" by force
  qed
  then have "set (map fst ?c) = {r \<in> set rs. (t, qr_id r) \<in> (dep_edges rs)\<^sup>+}"
    unfolding cascade_ids by simp
  moreover have "distinct (map (\<lambda>x. qr_id (fst x)) (cascade_loop rs [] ?q))"
    using cascade_loop_distinct by blast
  then have "distinct (map (\<lambda>x. qr_id (fst x)) ?c)"
    unfolding findCascadeDependents_def by (metis mset_eq_imp_distinct_iff mset_map mset_sort_by)
  then have "distinct (map fst ?c)" by (auto simp: distinct_map inj_on_def)
  moreover have "preorder_cmp (compare_dependents env)"
    using assms(2) unfolding preorder_cmp_def compare_dependents_def Let_def by (auto split: if_splits)
  then have "sorted_wrt (\<lambda>a b. compare_dependents env a b \<le> 0) ?c"
    unfolding findCascadeDependents_def by (rule sorted_sort_by)
  then have "sorted_wrt (\<lambda>a b. snd a \<le> snd b) ?c"
    by (rule sorted_wrt_mono_rel [rotated]) (auto simp: compare_dependents_def Let_def split: if_splits)
  then have "sorted (map snd ?c)" by (simp add: sorted_map)
  ultimately show ?thesis using sound pos by blast
qed


definition demo_records :: "qrec list" where
  "demo_records = [\<lparr>qr_prd = demo_prd ''c'' [''b''] None, qr_status = QsWaiting, qr_lock = None\<rparr>,
     \<lparr>qr_prd = demo_prd ''b'' [''a''] None, qr_status = QsWaiting, qr_lock = None\<rparr>,
     \<lparr>qr_prd = demo_prd ''d'' [''z''] None, qr_status = QsPending, qr_lock = None\<rparr>]"

definition flat_env :: qc_env where
  "flat_env = \<lparr>qe_os = (\<lambda>_. ESRCH), qe_pid = 7, qe_release_ok = (\<lambda>_. True), qe_plain = (\<lambda>_ _. True),
     qe_missing = (\<lambda>_. False), qe_path_cmp = (\<lambda>_ _. 0), qe_id_cmp = (\<lambda>_ _. 0)\<rparr>"

lemma cascade_dependents_exact_witness:
  "set (map fst (findCascadeDependents flat_env ''a'' demo_records)) =
     {r \<in> set demo_records. (''a'', qr_id r) \<in> (dep_edges demo_records)\<^sup>+} \<and>
   map (\<lambda>(r, n). (qr_id r, n)) (findCascadeDependents flat_env ''a'' demo_records) = [(''b'', 1), (''c'', 2)]"
proof
  have "distinct (map qr_id demo_records)" "preorder_cmp (qe_id_cmp flat_env)"
    by (simp_all add: demo_records_def demo_prd_def flat_env_def preorder_cmp_def)
  from cascade_dependents_exact [OF this, of "''a''"]
  show "set (map fst (findCascadeDependents flat_env ''a'' demo_records)) =
     {r \<in> set demo_records. (''a'', qr_id r) \<in> (dep_edges demo_records)\<^sup>+}" by (rule conjunct1)
qed code_simp

end
