(* ===== verification/QueueControl.thy ===== *)
theory QueueControl
  imports QueueSnapshot
begin

text \<open>
  Operator controls of queued PRDs (\<open>queue/control.ts\<close>, \<open>queue/hold.ts\<close>): change of priority,
  removal, override of a dependency, hold and unhold. Other processes run between the awaits:
  their effect is a state transformer at each of the places the source names for its race tests,
  and before the write of an override.
  The properties hold for every such interference.
\<close>

section \<open>Actions\<close>

type_synonym 'a qc_act = "world \<times> (qc_error, 'a) result"

definition andDo :: "'a qc_act \<Rightarrow> ('a \<Rightarrow> world \<Rightarrow> 'b qc_act) \<Rightarrow> 'b qc_act" where
  "andDo m f = (case m of (w, Inl e) \<Rightarrow> (w, Inl e) | (w, Inr x) \<Rightarrow> f x w)"

text \<open>What other processes do at an await.\<close>

record qc_hooks =
  hk_afterLocate :: "world \<Rightarrow> world"
  hk_afterRootClaim :: "world \<Rightarrow> world"
  hk_beforeWrite :: "world \<Rightarrow> world"

definition no_hooks :: qc_hooks where
  "no_hooks = \<lparr>hk_afterLocate = (\<lambda>w. w), hk_afterRootClaim = (\<lambda>w. w), hk_beforeWrite = (\<lambda>w. w)\<rparr>"

text \<open>\<open>try ... finally releasePrd(id)\<close>: an error of the release replaces the outcome.\<close>

definition finally_releasing :: "qc_env \<Rightarrow> prd_id \<Rightarrow> 'a qc_act \<Rightarrow> 'a qc_act" where
  "finally_releasing env i m =
     (case m of (w, r) \<Rightarrow>
        case release_on env i (w_disk w) of
          None \<Rightarrow> (w, Inl QcThrown)
        | Some d \<Rightarrow> (w\<lparr>w_disk := d\<rparr>, r))"

section \<open>Locating\<close>

record located =
  lc_prd :: queued_prd
  lc_status :: q_status

abbreviation "lc_location l \<equiv> q_loc (lc_prd l)"

definition strictLoadQueue :: "qloc \<Rightarrow> world \<Rightarrow> (qc_error, queued_prd list) result" where
  "strictLoadQueue l w =
     (case loadQueue l (w_disk w) of Inl _ \<Rightarrow> Inl (QcError QcConflict) | Inr prds \<Rightarrow> Inr prds)"

definition with_load :: "qloc \<Rightarrow> world \<Rightarrow> (queued_prd list \<Rightarrow> 'a qc_act) \<Rightarrow> 'a qc_act" where
  "with_load l w f = (case strictLoadQueue l w of Inl e \<Rightarrow> (w, Inl e) | Inr prds \<Rightarrow> f prds)"

definition classifyRootStatus :: "qc_env \<Rightarrow> prd_id \<Rightarrow> world \<Rightarrow> q_status qc_act" where
  "classifyRootStatus env i w =
     (case lock_status env i (w_disk w) of
        None \<Rightarrow> (w, Inl QcThrown)
      | Some k \<Rightarrow>
          if is_live k then (w, Inr QsRunning)
          else if k = Absent then (w, Inr QsPending)
          else (case release_on env i (w_disk w) of
                  None \<Rightarrow> (w, Inl (QcError QcConflict))
                | Some d \<Rightarrow> (w\<lparr>w_disk := d\<rparr>, Inr QsPending)))"

fun find_in :: "prd_id \<Rightarrow> qloc list \<Rightarrow> world \<Rightarrow> located qc_act" where
  "find_in i [] w = (w, Inl (QcError QcNotFound))"
| "find_in i (l # ls) w =
     with_load l w (\<lambda>prds.
       case List.find (\<lambda>p. q_id p = i) prds of
         Some p \<Rightarrow> (w, Inr \<lparr>lc_prd = p, lc_status = location_status l\<rparr>)
       | None \<Rightarrow> find_in i ls w)"

definition findQueuedPrdForControl :: "qc_env \<Rightarrow> prd_id \<Rightarrow> world \<Rightarrow> located qc_act" where
  "findQueuedPrdForControl env i w =
     (if \<not> assertSafePrdId i then (w, Inl (QcError QcValidation))
      else with_load RootDir w (\<lambda>rootPrds.
        case List.find (\<lambda>p. q_id p = i) rootPrds of
          Some root \<Rightarrow>
            andDo (classifyRootStatus env i w) (\<lambda>st w1. (w1, Inr \<lparr>lc_prd = root, lc_status = st\<rparr>))
        | None \<Rightarrow> find_in i [WaitingDir, FailedDir, SkippedDir] w))"

definition reloadExpectedPrd :: "located \<Rightarrow> world \<Rightarrow> queued_prd qc_act" where
  "reloadExpectedPrd located w =
     with_load (lc_location located) w (\<lambda>prds.
       case List.find (\<lambda>p. q_id p = q_id (lc_prd located)) prds of
         None \<Rightarrow> (w, Inl (QcError QcConflict))
       | Some fresh \<Rightarrow> (w, Inr fresh))"

section \<open>Rewriting a file\<close>

text \<open>\<open>setQueuedPrdFrontmatterFieldsExistingOnly\<close> on a parsed file: the file is replaced by the
  loaded frontmatter with the fields changed; a missing file is \<open>not-found\<close>.\<close>

definition rewrite_existing :: "queued_prd \<Rightarrow> prd_fm \<Rightarrow> world \<Rightarrow> unit qc_act" where
  "rewrite_existing prd fm w =
     (let l = q_loc prd; i = q_id prd in
      if file_exists l i (w_disk w)
      then (on_disk (\<lambda>d. set_dir l (Some (dput i (Prd fm) (entries l d))) d) w, Inr ())
      else (w, Inl (QcError QcNotFound)))"

definition setPriorityExistingOnly :: "queued_prd \<Rightarrow> int \<Rightarrow> world \<Rightarrow> unit qc_act" where
  "setPriorityExistingOnly prd priority w = rewrite_existing prd ((q_fm prd)\<lparr>fm_priority := Some priority\<rparr>) w"

definition override_fm :: "prd_id list \<Rightarrow> bool \<Rightarrow> prd_fm \<Rightarrow> prd_fm" where
  "override_fm dependsOn clearStackParent fm =
     (let fm1 = fm\<lparr>fm_depends_on := Some dependsOn\<rparr>
      in if clearStackParent then fm1\<lparr>fm_stack_parent := None\<rparr> else fm1)"

definition setDependencyOverrideExistingOnly :: "queued_prd \<Rightarrow> prd_id list \<Rightarrow> bool \<Rightarrow> world \<Rightarrow> unit qc_act" where
  "setDependencyOverrideExistingOnly prd dependsOn clearStackParent w =
     rewrite_existing prd (override_fm dependsOn clearStackParent (q_fm prd)) w"

definition remove_file :: "qloc \<Rightarrow> prd_id \<Rightarrow> qdisk \<Rightarrow> qdisk" where
  "remove_file l i d = set_dir l (Some (ddel i (entries l d))) d"

definition removeMainPrdFile :: "queued_prd \<Rightarrow> world \<Rightarrow> unit qc_act" where
  "removeMainPrdFile prd w =
     (if file_exists (q_loc prd) (q_id prd) (w_disk w)
      then (on_disk (remove_file (q_loc prd) (q_id prd)) w, Inr ())
      else (w, Inl (QcError QcNotFound)))"

text \<open>The copy in the root is created exclusively, then the original is removed; if it is gone
  the copy is removed again. \<open>between\<close> is what others do between the two.\<close>

definition moveWaitingPrdToQueueRoot ::
    "(world \<Rightarrow> world) \<Rightarrow> queued_prd \<Rightarrow> prd_id list \<Rightarrow> bool \<Rightarrow> world \<Rightarrow> unit qc_act" where
  "moveWaitingPrdToQueueRoot between prd currentDependsOn clearStackParent w =
     (let i = q_id prd in
      if file_exists RootDir i (w_disk w) then (w, Inl (QcError QcConflict))
      else
        (let fm = override_fm currentDependsOn clearStackParent (q_fm prd);
             w1 = between (on_disk (\<lambda>d. set_dir RootDir (Some (entries RootDir d @ [(i, Prd fm)])) d) w)
         in if file_exists (q_loc prd) i (w_disk w1)
            then (on_disk (remove_file (q_loc prd) i) w1, Inr ())
            else (on_disk (remove_file RootDir i) w1, Inl (QcError QcNotFound))))"

section \<open>Priority\<close>

definition claim_root :: "qc_env \<Rightarrow> prd_id \<Rightarrow> world \<Rightarrow> unit qc_act" where
  "claim_root env i w =
     (case claimPrd (qe_pid env) i (d_locks (w_disk w)) of
        (locks, claimed) \<Rightarrow>
          if claimed then (on_disk (\<lambda>d. d\<lparr>d_locks := locks\<rparr>) w, Inr ())
          else (w, Inl (QcError QcConflict)))"

text \<open>A root PRD is changed under its claim; any other PRD without.\<close>

definition under_claim :: "qc_env \<Rightarrow> qc_hooks \<Rightarrow> located \<Rightarrow> (world \<Rightarrow> 'a qc_act) \<Rightarrow> world \<Rightarrow> 'a qc_act" where
  "under_claim env hk located body w =
     (let i = q_id (lc_prd located) in
      if lc_location located = RootDir
      then andDo (claim_root env i w) (\<lambda>_ w1. finally_releasing env i (body (hk_afterRootClaim hk w1)))
      else body w)"

definition updateQueuedPrdPriority :: "qc_env \<Rightarrow> qc_hooks \<Rightarrow> prd_id \<Rightarrow> int \<Rightarrow> world \<Rightarrow> q_status qc_act" where
  "updateQueuedPrdPriority env hk i priority w =
     (if \<not> assertSafePrdId i then (w, Inl (QcError QcValidation))
      else andDo (findQueuedPrdForControl env i w) (\<lambda>located w1.
        let w2 = hk_afterLocate hk w1 in
        if lc_status located \<noteq> QsPending \<and> lc_status located \<noteq> QsWaiting then (w2, Inl (QcError QcConflict))
        else andDo (under_claim env hk located (\<lambda>w3.
               andDo (reloadExpectedPrd located w3) (\<lambda>fresh w4.
                 setPriorityExistingOnly fresh priority (hk_beforeWrite hk w4))) w2)
             (\<lambda>_ w5. (w5, Inr (lc_status located)))))"

section \<open>Override of a dependency\<close>

record override_result =
  or_previousStatus :: q_status
  or_currentStatus :: q_status
  or_previousDependsOn :: "prd_id list"
  or_currentDependsOn :: "prd_id list"
  or_movedToQueueRoot :: bool
  or_clearStackParent :: bool

definition dependencyOverrideMutation ::
    "prd_id \<Rightarrow> located \<Rightarrow> queued_prd \<Rightarrow> (qc_error, override_result) result" where
  "dependencyOverrideMutation dep located fresh =
     (let previous = deps_of (q_fm fresh) in
      if dep \<notin> set previous then Inl (QcError QcConflict)
      else
        (let current = filter (\<lambda>i. i \<noteq> dep) previous;
             moved = (lc_status located = QsWaiting \<and> length current = 0)
         in Inr \<lparr>or_previousStatus = lc_status located,
              or_currentStatus = (if moved then QsPending else lc_status located),
              or_previousDependsOn = previous, or_currentDependsOn = current,
              or_movedToQueueRoot = moved,
              or_clearStackParent = (fm_stack_parent (q_fm fresh) = Some dep)\<rparr>))"

definition override_body :: "qc_hooks \<Rightarrow> prd_id \<Rightarrow> located \<Rightarrow> world \<Rightarrow> override_result qc_act" where
  "override_body hk dep located w =
     andDo (reloadExpectedPrd located w) (\<lambda>fresh w1.
       case dependencyOverrideMutation dep located fresh of
         Inl e \<Rightarrow> (w1, Inl e)
       | Inr m \<Rightarrow>
           andDo (if or_movedToQueueRoot m
                  then moveWaitingPrdToQueueRoot (hk_beforeWrite hk) fresh (or_currentDependsOn m) (or_clearStackParent m) w1
                  else setDependencyOverrideExistingOnly fresh (or_currentDependsOn m) (or_clearStackParent m)
                         (hk_beforeWrite hk w1))
             (\<lambda>_ w2. (w2, Inr m)))"

definition overrideQueuedPrdDependency ::
    "qc_env \<Rightarrow> qc_hooks \<Rightarrow> prd_id \<Rightarrow> prd_id \<Rightarrow> world \<Rightarrow> override_result qc_act" where
  "overrideQueuedPrdDependency env hk i dep w =
     (if \<not> assertSafePrdId i \<or> \<not> assertSafePrdId dep then (w, Inl (QcError QcValidation))
      else andDo (findQueuedPrdForControl env i w) (\<lambda>located w1.
        let w2 = hk_afterLocate hk w1 in
        if lc_status located \<noteq> QsPending \<and> lc_status located \<noteq> QsWaiting then (w2, Inl (QcError QcConflict))
        else under_claim env hk located (override_body hk dep located) w2))"

section \<open>Removal\<close>

text \<open>The live dependents, in the root and in \<open>waiting\<close>.\<close>

definition findLiveDependents :: "prd_id \<Rightarrow> world \<Rightarrow> (qc_error, prd_id list) result" where
  "findLiveDependents i w =
     (case (strictLoadQueue RootDir w, strictLoadQueue WaitingDir w) of
        (Inr root, Inr waiting) \<Rightarrow>
          Inr (uniq (map q_id (filter (\<lambda>p. i \<in> set (deps_of (q_fm p))) (filter (\<lambda>p. q_id p \<noteq> i) (root @ waiting)))))
      | _ \<Rightarrow> Inl (QcError QcConflict))"

definition refuse_dependents :: "prd_id \<Rightarrow> world \<Rightarrow> unit qc_act" where
  "refuse_dependents i w =
     (case findLiveDependents i w of
        Inl e \<Rightarrow> (w, Inl e)
      | Inr ds \<Rightarrow> if length ds > 0 then (w, Inl (QcError QcConflict)) else (w, Inr ()))"

definition removal_body :: "qc_hooks \<Rightarrow> located \<Rightarrow> world \<Rightarrow> unit qc_act" where
  "removal_body hk located w =
     andDo (reloadExpectedPrd located w) (\<lambda>fresh w1.
       andDo (refuse_dependents (q_id (lc_prd located)) w1) (\<lambda>_ w2.
         andDo (refuse_dependents (q_id (lc_prd located)) (hk_beforeWrite hk w2)) (\<lambda>_ w3.
           removeMainPrdFile fresh w3)))"

datatype sidecar_kind = RecoveryMd | RecoveryJson

definition removed_sidecars :: "prd_id \<Rightarrow> world \<Rightarrow> world \<times> sidecar_kind list" where
  "removed_sidecars i w =
     (let md = (if i \<in> set (w_md w) then [RecoveryMd] else []);
          json = (if dget (w_json w) i \<noteq> None then [RecoveryJson] else [])
      in (w\<lparr>w_md := removeAll i (w_md w), w_json := ddel i (w_json w)\<rparr>, md @ json))"

definition removeQueuedPrd :: "qc_env \<Rightarrow> qc_hooks \<Rightarrow> prd_id \<Rightarrow> world \<Rightarrow> (q_status \<times> sidecar_kind list) qc_act" where
  "removeQueuedPrd env hk i w =
     (if \<not> assertSafePrdId i then (w, Inl (QcError QcValidation))
      else andDo (findQueuedPrdForControl env i w) (\<lambda>located w1.
        let w2 = hk_afterLocate hk w1 in
        if lc_status located = QsRunning then (w2, Inl (QcError QcConflict))
        else andDo (under_claim env hk located (removal_body hk located) w2) (\<lambda>_ w3.
          if lc_location located = FailedDir
          then (case removed_sidecars i w3 of (w4, cs) \<Rightarrow> (w4, Inr (lc_status located, cs)))
          else (w3, Inr (lc_status located, [])))))"

section \<open>Hold and unhold\<close>

definition validateReason :: "string option \<Rightarrow> (qc_error, string option) result" where
  "validateReason reason =
     (case reason of
        None \<Rightarrow> Inr None
      | Some r \<Rightarrow>
          (let trimmed = trim r in
           if length trimmed = 0 then Inr None
           else if length trimmed > 500 \<or> has_control trimmed then Inl (QcError QcValidation)
           else Inr (Some trimmed)))"

definition locateMutable :: "qc_env \<Rightarrow> prd_id \<Rightarrow> world \<Rightarrow> qrec qc_act" where
  "locateMutable env i w =
     (case loadQueueControlSnapshot env False (w_disk w) of
        (d, Inl e) \<Rightarrow> (w\<lparr>w_disk := d\<rparr>, Inl e)
      | (d, Inr sn) \<Rightarrow>
          (let w1 = w\<lparr>w_disk := d\<rparr> in
           if dget (sn_duplicates sn) i \<noteq> None then (w1, Inl (QcError QcConflict))
           else case dget (sn_byId sn) i of
                  None \<Rightarrow> (w1, Inl (QcError QcNotFound))
                | Some r \<Rightarrow>
                    if qr_status r \<noteq> QsPending \<and> qr_status r \<noteq> QsWaiting then (w1, Inl (QcError QcConflict))
                    else (w1, Inr r)))"

datatype hold_status = Held | AlreadyHeld | Unheld | AlreadyUnheld

definition reloadPrd :: "qrec \<Rightarrow> world \<Rightarrow> queued_prd qc_act" where
  "reloadPrd r w =
     (case loadQueue (qr_location r) (w_disk w) of
        Inl _ \<Rightarrow> (w, Inl QcThrown)
      | Inr prds \<Rightarrow>
          (case List.find (\<lambda>p. q_id p = qr_id r) prds of
             None \<Rightarrow> (w, Inl (QcError QcConflict))
           | Some fresh \<Rightarrow> (w, Inr fresh)))"

text \<open>The part after the record was located; \<open>body\<close> gets the fresh PRD.\<close>

definition mutate_located :: "qc_env \<Rightarrow> qc_hooks \<Rightarrow> (queued_prd \<Rightarrow> world \<Rightarrow> 'a qc_act) \<Rightarrow> qrec \<Rightarrow> world \<Rightarrow> 'a qc_act" where
  "mutate_located env hk body r w =
     under_claim env hk \<lparr>lc_prd = qr_prd r, lc_status = qr_status r\<rparr>
       (\<lambda>w1. andDo (reloadPrd r w1) body) (hk_afterLocate hk w)"

definition write_checked :: "qc_env \<Rightarrow> qc_hooks \<Rightarrow> queued_prd \<Rightarrow> prd_fm \<Rightarrow> 'a \<Rightarrow> world \<Rightarrow> 'a qc_act" where
  "write_checked env hk fresh fm status w =
     (let w1 = hk_beforeWrite hk w in
      case still_at_path env (q_loc fresh) (q_id fresh) (w_disk w1) of
        Some e \<Rightarrow> (w1, Inl e)
      | None \<Rightarrow> andDo (rewrite_existing fresh fm w1) (\<lambda>_ w2. (w2, Inr status)))"

definition held_fm :: "string \<Rightarrow> string option \<Rightarrow> prd_fm \<Rightarrow> prd_fm" where
  "held_fm now reason fm =
     (let fm1 = fm\<lparr>fm_held := Some True, fm_held_at := Some now\<rparr>
      in case reason of None \<Rightarrow> fm1 | Some r \<Rightarrow> fm1\<lparr>fm_hold_reason := Some r\<rparr>)"

definition unheld_fm :: "prd_fm \<Rightarrow> prd_fm" where
  "unheld_fm fm = fm\<lparr>fm_held := None, fm_hold_reason := None, fm_held_at := None\<rparr>"

definition holdQueuedPrd ::
    "qc_env \<Rightarrow> qc_hooks \<Rightarrow> string \<Rightarrow> prd_id \<Rightarrow> string option \<Rightarrow> world \<Rightarrow> hold_status qc_act" where
  "holdQueuedPrd env hk now i reason w =
     (if \<not> assertSafePrdId i then (w, Inl (QcError QcValidation))
      else case validateReason reason of
             Inl e \<Rightarrow> (w, Inl e)
           | Inr rsn \<Rightarrow>
               andDo (locateMutable env i w) (mutate_located env hk (\<lambda>fresh w1.
                 if fm_held (q_fm fresh) = Some True then (w1, Inr AlreadyHeld)
                 else write_checked env hk fresh (held_fm now rsn (q_fm fresh)) Held w1)))"

definition unholdQueuedPrd :: "qc_env \<Rightarrow> qc_hooks \<Rightarrow> prd_id \<Rightarrow> world \<Rightarrow> hold_status qc_act" where
  "unholdQueuedPrd env hk i w =
     (if \<not> assertSafePrdId i then (w, Inl (QcError QcValidation))
      else andDo (locateMutable env i w) (mutate_located env hk (\<lambda>fresh w1.
        if fm_held (q_fm fresh) \<noteq> Some True \<and> fm_hold_reason (q_fm fresh) = None \<and> fm_held_at (q_fm fresh) = None
        then (w1, Inr AlreadyUnheld)
        else write_checked env hk fresh (unheld_fm (q_fm fresh)) Unheld w1)))"

section \<open>Specifications of actions\<close>

text \<open>\<open>Q\<close> holds of a returned value and its world, \<open>R\<close> of the world an error leaves.\<close>

definition spec :: "'a qc_act \<Rightarrow> ('a \<Rightarrow> world \<Rightarrow> bool) \<Rightarrow> (world \<Rightarrow> bool) \<Rightarrow> bool" where
  "spec m Q R \<longleftrightarrow> (case m of (w, Inr x) \<Rightarrow> Q x w | (w, Inl e) \<Rightarrow> R w)"

lemma spec_simps [simp]: "spec (w, Inr x) Q R \<longleftrightarrow> Q x w" "spec (w, Inl e) Q R \<longleftrightarrow> R w"
  by (simp_all add: spec_def)

lemma spec_InrD: "spec m Q R \<Longrightarrow> m = (w, Inr x) \<Longrightarrow> Q x w"
  and spec_InlD: "spec m Q R \<Longrightarrow> m = (w, Inl e) \<Longrightarrow> R w"
  by simp_all

lemma spec_mono: "spec m Q R \<Longrightarrow> (\<And>x w. Q x w \<Longrightarrow> Q' x w) \<Longrightarrow> (\<And>w. R w \<Longrightarrow> R' w) \<Longrightarrow> spec m Q' R'"
  by (auto simp: spec_def split: prod.splits sum.splits)

lemma spec_andDo: "spec m (\<lambda>x w. spec (f x w) Q R) R \<Longrightarrow> spec (andDo m f) Q R"
  by (auto simp: spec_def andDo_def split: prod.splits sum.splits)

lemma spec_if: "(b \<Longrightarrow> spec m Q R) \<Longrightarrow> (\<not> b \<Longrightarrow> spec m' Q R) \<Longrightarrow> spec (if b then m else m') Q R"
  by simp

lemma spec_with_load:
  "(\<And>prds. loadQueue l (w_disk w) = Inr prds \<Longrightarrow> spec (f prds) Q R) \<Longrightarrow> R w \<Longrightarrow> spec (with_load l w f) Q R"
  by (auto simp: with_load_def strictLoadQueue_def split: sum.splits)

lemma find_SomeD': "List.find P xs = Some x \<Longrightarrow> x \<in> set xs \<and> P x"
  by (induction xs) (auto split: if_splits)

lemma find_loaded:
  assumes "loadQueue l d = Inr prds" "List.find (\<lambda>p. q_id p = i) prds = Some p"
  obtains fm where "(i, Prd fm) \<in> set (entries l d)" and "p = \<lparr>q_id = i, q_loc = l, q_fm = fm\<rparr>"
  using find_SomeD' [OF assms(2)] loadQueue_set [OF assms(1), of p] by auto

lemma find_not_loaded:
  assumes "loadQueue l d = Inr prds" "List.find (\<lambda>p. q_id p = i) prds = None"
  shows "(i, Prd fm) \<notin> set (entries l d)"
  using assms(2) loadQueue_set [OF assms(1), of "\<lparr>q_id = i, q_loc = l, q_fm = fm\<rparr>"]
  by (auto simp: find_None_iff)

abbreviation prd_at :: "qloc \<Rightarrow> prd_id \<Rightarrow> prd_fm \<Rightarrow> world \<Rightarrow> bool" where
  "prd_at l i fm w \<equiv> (i, Prd fm) \<in> set (entries l (w_disk w))"

definition the_prd :: "qloc \<Rightarrow> prd_id \<Rightarrow> prd_fm \<Rightarrow> queued_prd" where
  "the_prd l i fm = \<lparr>q_id = i, q_loc = l, q_fm = fm\<rparr>"

lemma the_prd_simps [simp]: "q_id (the_prd l i fm) = i" "q_loc (the_prd l i fm) = l" "q_fm (the_prd l i fm) = fm"
  by (simp_all add: the_prd_def)

text \<open>Two worlds that differ only in the lock of one PRD, which may have been removed.\<close>

definition lock_only :: "prd_id \<Rightarrow> world \<Rightarrow> world \<Rightarrow> bool" where
  "lock_only i w w' \<longleftrightarrow>
     (\<exists>L. w' = w\<lparr>w_disk := (w_disk w)\<lparr>d_locks := L\<rparr>\<rparr> \<and>
        (\<forall>j. j \<noteq> i \<longrightarrow> dget L j = dget (d_locks (w_disk w)) j) \<and>
        (dget L i = None \<or> dget L i = dget (d_locks (w_disk w)) i))"

lemma lock_only_refl [simp]: "lock_only i w w"
  unfolding lock_only_def by (intro exI [of _ "d_locks (w_disk w)"]) simp

lemma lock_only_release: "lock_only i w (w\<lparr>w_disk := (w_disk w)\<lparr>d_locks := releasePrd i (d_locks (w_disk w))\<rparr>\<rparr>)"
  unfolding lock_only_def
  by (intro exI [of _ "releasePrd i (d_locks (w_disk w))"]) (simp add: releasePrd_def)

lemma entries_locks [simp]: "entries l (d\<lparr>d_locks := L\<rparr>) = entries l d"
  by (cases l) (simp_all add: entries_def dir_of_def)

lemma dir_of_locks [simp]: "dir_of l (d\<lparr>d_locks := L\<rparr>) = dir_of l d"
  by (cases l) (simp_all add: dir_of_def)

lemma lock_only_entries: "lock_only i w w' \<Longrightarrow> entries l (w_disk w') = entries l (w_disk w)"
  by (auto simp: lock_only_def)

lemma loadQueue_locks [simp]: "loadQueue l (d\<lparr>d_locks := L\<rparr>) = loadQueue l d"
  by (simp add: loadQueue_def)

lemma release_on_Some: "release_on env i d = Some d' \<Longrightarrow> d' = d\<lparr>d_locks := releasePrd i (d_locks d)\<rparr>"
  by (simp add: release_on_def split: if_splits)

section \<open>Locating a PRD\<close>

lemma find_in_spec:
  assumes "\<And>l fm. l \<in> set ls \<Longrightarrow> prd_at l i fm w \<Longrightarrow> Q \<lparr>lc_prd = the_prd l i fm, lc_status = location_status l\<rparr> w"
    and "R w"
  shows "spec (find_in i ls w) Q R"
  using assms(1)
proof (induction ls)
  case Nil
  then show ?case using assms(2) by simp
next
  case (Cons l ls)
  show ?case unfolding find_in.simps
  proof (rule spec_with_load)
    fix prds assume l: "loadQueue l (w_disk w) = Inr prds"
    show "spec (case List.find (\<lambda>p. q_id p = i) prds of None \<Rightarrow> find_in i ls w
        | Some p \<Rightarrow> (w, Inr \<lparr>lc_prd = p, lc_status = location_status l\<rparr>)) Q R"
    proof (cases "List.find (\<lambda>p. q_id p = i) prds")
      case (Some p)
      obtain fm where "prd_at l i fm w" "p = \<lparr>q_id = i, q_loc = l, q_fm = fm\<rparr>" by (rule find_loaded [OF l Some])
      then show ?thesis using Cons.prems Some by (simp add: the_prd_def)
    qed (use Cons in simp)
  qed (rule assms(2))
qed

lemma classify_spec:
  "spec (classifyRootStatus env i w)
     (\<lambda>st w1. lock_only i w w1 \<and> (st = QsRunning \<or> st = QsPending) \<and> (st = QsPending \<longrightarrow> dget (d_locks (w_disk w1)) i = None))
     (lock_only i w)"
proof (cases "lock_status env i (w_disk w)")
  case None
  then show ?thesis by (simp add: classifyRootStatus_def)
next
  case (Some k)
  have absent: "dget (d_locks (w_disk w)) i = None" if "k = Absent"
    using Some that by (cases "dget (d_locks (w_disk w)) i")
      (auto simp: lock_status_def read_lock_def readPrdLockStatus_def Let_def split: if_splits probe.splits)
  with Some show ?thesis
    by (cases "release_on env i (w_disk w)")
       (auto simp: classifyRootStatus_def lock_only_release [unfolded releasePrd_def] releasePrd_def dest!: release_on_Some)
qed

text \<open>What locating gives: the file, its status, and at most a stale lock less.\<close>

definition located_ok :: "prd_id \<Rightarrow> world \<Rightarrow> located \<Rightarrow> world \<Rightarrow> bool" where
  "located_ok i w located w1 \<longleftrightarrow>
     lock_only i w w1 \<and>
     (\<exists>l fm. lc_prd located = the_prd l i fm \<and> prd_at l i fm w \<and>
        (if l = RootDir then lc_status located = QsRunning \<or> lc_status located = QsPending
         else lc_status located = location_status l))"

lemma locate_spec: "spec (findQueuedPrdForControl env i w) (located_ok i w) (lock_only i w)"
proof (cases "assertSafePrdId i")
  case True
  show ?thesis unfolding findQueuedPrdForControl_def
  proof (simp add: True, rule spec_with_load)
    fix prds assume l: "loadQueue RootDir (w_disk w) = Inr prds"
    show "spec (case List.find (\<lambda>p. q_id p = i) prds of
        None \<Rightarrow> find_in i [WaitingDir, FailedDir, SkippedDir] w
      | Some root \<Rightarrow> andDo (classifyRootStatus env i w) (\<lambda>st w1. (w1, Inr \<lparr>lc_prd = root, lc_status = st\<rparr>)))
        (located_ok i w) (lock_only i w)"
    proof (cases "List.find (\<lambda>p. q_id p = i) prds")
      case None
      have "spec (find_in i [WaitingDir, FailedDir, SkippedDir] w) (located_ok i w) (lock_only i w)"
        by (rule find_in_spec) (auto simp: located_ok_def)
      with None show ?thesis by simp
    next
      case (Some root)
      have "spec (andDo (classifyRootStatus env i w) (\<lambda>st w1. (w1, Inr \<lparr>lc_prd = root, lc_status = st\<rparr>)))
          (located_ok i w) (lock_only i w)"
      proof (rule spec_andDo, rule spec_mono [OF classify_spec])
        fix st w1
        assume "lock_only i w w1 \<and> (st = QsRunning \<or> st = QsPending) \<and> (st = QsPending \<longrightarrow> dget (d_locks (w_disk w1)) i = None)"
        then show "spec (w1, Inr \<lparr>lc_prd = root, lc_status = st\<rparr>) (located_ok i w) (lock_only i w)"
          by (rule_tac find_loaded [OF l Some]) (auto simp: located_ok_def the_prd_def)
      qed
      with Some show ?thesis by simp
    qed
  qed simp
qed (simp add: findQueuedPrdForControl_def)

lemma reload_spec:
  assumes "\<And>fm. prd_at (lc_location located) (q_id (lc_prd located)) fm w \<Longrightarrow>
      Q (the_prd (lc_location located) (q_id (lc_prd located)) fm) w" and "R w"
  shows "spec (reloadExpectedPrd located w) Q R"
  unfolding reloadExpectedPrd_def
proof (rule spec_with_load)
  fix prds assume l: "loadQueue (lc_location located) (w_disk w) = Inr prds"
  show "spec (case List.find (\<lambda>p. q_id p = q_id (lc_prd located)) prds of
      None \<Rightarrow> (w, Inl (QcError QcConflict)) | Some fresh \<Rightarrow> (w, Inr fresh)) Q R"
  proof (cases "List.find (\<lambda>p. q_id p = q_id (lc_prd located)) prds")
    case (Some p)
    obtain fm where "prd_at (lc_location located) (q_id (lc_prd located)) fm w"
        "p = \<lparr>q_id = q_id (lc_prd located), q_loc = lc_location located, q_fm = fm\<rparr>"
      by (rule find_loaded [OF l Some])
    then show ?thesis using assms(1) Some by (simp add: the_prd_def)
  qed (use assms(2) in simp)
qed (rule assms(2))

lemma under_claim_spec:
  assumes ok: "qe_release_ok env i" and i: "i = q_id (lc_prd located)"
    and root: "\<And>L w1. lc_location located = RootDir \<Longrightarrow> dget (d_locks (w_disk w)) i = None \<Longrightarrow>
        w1 = hk_afterRootClaim hk (on_disk (\<lambda>d. d\<lparr>d_locks := dput i L (d_locks d)\<rparr>) w) \<Longrightarrow>
        spec (body w1) (\<lambda>x w2. Q x (on_disk (\<lambda>d. d\<lparr>d_locks := releasePrd i (d_locks d)\<rparr>) w2))
                       (\<lambda>w2. R (on_disk (\<lambda>d. d\<lparr>d_locks := releasePrd i (d_locks d)\<rparr>) w2))"
    and other: "lc_location located \<noteq> RootDir \<Longrightarrow> spec (body w) Q R" and "R w"
  shows "spec (under_claim env hk located body w) Q R"
proof (cases "lc_location located = RootDir")
  case True
  show ?thesis
  proof (cases "dget (d_locks (w_disk w)) i")
    case None
    let ?w1 = "hk_afterRootClaim hk (on_disk (\<lambda>d. d\<lparr>d_locks := dput i (dec_string (qe_pid env)) (d_locks d)\<rparr>) w)"
    have "spec (finally_releasing env i (body ?w1)) Q R"
      using root [where L = "dec_string (qe_pid env)", OF True None refl] ok
      by (auto simp: finally_releasing_def release_on_def spec_def on_disk_def split: prod.splits sum.splits)
    with True None i show ?thesis
      by (simp add: under_claim_def claim_root_def claimPrd_def andDo_def on_disk_def Let_def)
  next
    case (Some c)
    with True i \<open>R w\<close> show ?thesis by (simp add: under_claim_def claim_root_def claimPrd_def andDo_def)
  qed
qed (simp add: under_claim_def other)

section \<open>Removal\<close>

definition no_live_dependents :: "prd_id \<Rightarrow> world \<Rightarrow> bool" where
  "no_live_dependents i w \<longleftrightarrow>
     (\<forall>l \<in> {RootDir, WaitingDir}. \<forall>(j, f) \<in> set (entries l (w_disk w)).
        case f of Prd fm \<Rightarrow> j \<noteq> i \<longrightarrow> i \<notin> set (deps_of fm) | _ \<Rightarrow> True)"

lemma no_live_iff:
  "no_live_dependents i w \<longleftrightarrow>
     (\<forall>l j fm. l = RootDir \<or> l = WaitingDir \<longrightarrow> prd_at l j fm w \<longrightarrow> j \<noteq> i \<longrightarrow> i \<notin> set (deps_of fm))"
  unfolding no_live_dependents_def by (fastforce split: md_file.splits)

lemma uniq_Nil_iff: "uniq xs = [] \<longleftrightarrow> xs = []"
proof -
  have "set (uniq xs) = {} \<longleftrightarrow> set xs = {}" by simp
  then show ?thesis unfolding set_empty .
qed

lemma refuse_spec: "spec (refuse_dependents i w) (\<lambda>_ w'. w' = w \<and> no_live_dependents i w) (\<lambda>w'. w' = w)"
proof (cases "loadQueue RootDir (w_disk w)")
  case root: (Inr root)
  show ?thesis
  proof (cases "loadQueue WaitingDir (w_disk w)")
    case (Inr waiting)
    let ?ds = "filter (\<lambda>p. i \<in> set (deps_of (q_fm p))) (filter (\<lambda>p. q_id p \<noteq> i) (root @ waiting))"
    have "no_live_dependents i w" if "?ds = []"
      unfolding no_live_iff
    proof (intro allI impI)
      fix l j fm assume l: "l = RootDir \<or> l = WaitingDir" and at: "prd_at l j fm w" and "j \<noteq> i"
      have "the_prd RootDir j fm \<in> set root" if "l = RootDir"
        using at that loadQueue_set [OF root] by (simp add: the_prd_def)
      moreover have "the_prd WaitingDir j fm \<in> set waiting" if "l = WaitingDir"
        using at that loadQueue_set [OF Inr] by (simp add: the_prd_def)
      ultimately have "the_prd l j fm \<in> set (root @ waiting)" using l by auto
      then have "the_prd l j fm \<in> set (filter (\<lambda>p. q_id p \<noteq> i) (root @ waiting))" using \<open>j \<noteq> i\<close> by simp
      with that show "i \<notin> set (deps_of fm)" unfolding filter_empty_conv by (metis the_prd_simps(3))
    qed
    moreover have "uniq (map q_id ?ds) = [] \<longleftrightarrow> ?ds = []" by (simp only: uniq_Nil_iff map_is_Nil_conv)
    ultimately show ?thesis
      using Inr root
      by (auto simp: refuse_dependents_def findLiveDependents_def strictLoadQueue_def)
  qed (use root in \<open>simp add: refuse_dependents_def findLiveDependents_def strictLoadQueue_def\<close>)
qed (simp add: refuse_dependents_def findLiveDependents_def strictLoadQueue_def)

lemma entries_remove: "entries l (remove_file l' i d) = (if l = l' then ddel i (entries l d) else entries l d)"
  by (auto simp: remove_file_def)

lemma removed_gone: "\<not> file_exists l i (remove_file l i d)"
  by (auto simp: file_exists_def ids_in_def entries_remove AList.delete_eq)

lemma remove_main_spec:
  assumes "no_live_dependents i w" "q_id prd = i"
  shows "spec (removeMainPrdFile prd w)
    (\<lambda>_ w'. w' = on_disk (remove_file (q_loc prd) i) w \<and> no_live_dependents i w' \<and> \<not> file_exists (q_loc prd) i (w_disk w'))
    (\<lambda>w'. w' = w)"
proof -
  have "prd_at l j fm w" if "prd_at l j fm (on_disk (remove_file (q_loc prd) i) w)" for l j fm
    using that by (auto simp: on_disk_def entries_remove AList.delete_eq split: if_splits)
  then have "no_live_dependents i (on_disk (remove_file (q_loc prd) i) w)"
    using assms(1) unfolding no_live_iff by blast
  then show ?thesis using assms(2) by (simp add: removeMainPrdFile_def removed_gone) (simp add: on_disk_def removed_gone)
qed

lemma removal_body_spec:
  "spec (removal_body hk located w)
     (\<lambda>_ w'. no_live_dependents (q_id (lc_prd located)) w' \<and>
        \<not> file_exists (lc_location located) (q_id (lc_prd located)) (w_disk w')) (\<lambda>_. True)"
  unfolding removal_body_def
proof (intro spec_andDo, rule reload_spec)
  let ?i = "q_id (lc_prd located)" and ?l = "lc_location located"
  fix fm assume "prd_at ?l ?i fm w"
  show "spec (andDo (refuse_dependents ?i w)
      (\<lambda>_ w2. andDo (refuse_dependents ?i (hk_beforeWrite hk w2)) (\<lambda>_ w3. removeMainPrdFile (the_prd ?l ?i fm) w3)))
      (\<lambda>_ w'. no_live_dependents ?i w' \<and> \<not> file_exists ?l ?i (w_disk w')) (\<lambda>_. True)"
  proof (rule spec_andDo, rule spec_mono [OF refuse_spec])
    fix w2
    show "spec (andDo (refuse_dependents ?i (hk_beforeWrite hk w2)) (\<lambda>_ w3. removeMainPrdFile (the_prd ?l ?i fm) w3))
      (\<lambda>_ w'. no_live_dependents ?i w' \<and> \<not> file_exists ?l ?i (w_disk w')) (\<lambda>_. True)"
    proof (rule spec_andDo, rule spec_mono [OF refuse_spec])
      fix w3 assume "w3 = hk_beforeWrite hk w2 \<and> no_live_dependents ?i (hk_beforeWrite hk w2)"
      then have "no_live_dependents ?i w3" by simp
      from remove_main_spec [OF this, of "the_prd ?l ?i fm"]
      show "spec (removeMainPrdFile (the_prd ?l ?i fm) w3)
          (\<lambda>_ w'. no_live_dependents ?i w' \<and> \<not> file_exists ?l ?i (w_disk w')) (\<lambda>_. True)"
        by (auto elim: spec_mono)
    qed simp
  qed simp
qed simp

lemma no_live_locks [simp]: "no_live_dependents i (on_disk (\<lambda>d. d\<lparr>d_locks := f d\<rparr>) w) = no_live_dependents i w"
  by (simp add: no_live_iff on_disk_def)

lemma file_exists_locks [simp]: "file_exists l i (d\<lparr>d_locks := L\<rparr>) = file_exists l i d"
  by (simp add: file_exists_def ids_in_def)

definition removal_safe :: "prd_id \<Rightarrow> q_status \<Rightarrow> world \<Rightarrow> bool" where
  "removal_safe i st w \<longleftrightarrow> st \<noteq> QsRunning \<and> no_live_dependents i w \<and>
     (\<exists>l \<in> {RootDir, WaitingDir, FailedDir, SkippedDir}. location_status l = st \<and> \<not> file_exists l i (w_disk w) \<and>
        (l = RootDir \<longrightarrow> dget (d_locks (w_disk w)) i = None) \<and>
        (l = FailedDir \<longrightarrow> dget (w_json w) i = None \<and> i \<notin> set (w_md w)))"

lemma qloc_all: "l \<in> {RootDir, WaitingDir, FailedDir, SkippedDir}"
  by (cases l) auto


section \<open>Failed controls\<close>

lemma no_hooks_simps [simp]: "hk_afterLocate no_hooks w = w" "hk_afterRootClaim no_hooks w = w" "hk_beforeWrite no_hooks w = w"
  by (simp_all add: no_hooks_def)

lemma lock_only_trans: "lock_only i a b \<Longrightarrow> lock_only i b c \<Longrightarrow> lock_only i a c"
  by (auto simp: lock_only_def)

lemma lock_only_claimed:
  "dget (d_locks (w_disk w)) i = None \<Longrightarrow>
   lock_only i w (on_disk (\<lambda>d. d\<lparr>d_locks := releasePrd i (d_locks d)\<rparr>) (on_disk (\<lambda>d. d\<lparr>d_locks := dput i L (d_locks d)\<rparr>) w))"
  unfolding lock_only_def
  by (intro exI [of _ "releasePrd i (dput i L (d_locks (w_disk w)))"]) (simp add: on_disk_def releasePrd_def)

text \<open>A body that leaves its world unchanged when it fails, run under the claim.\<close>

lemma under_claim_fails:
  assumes "qe_release_ok env i" "i = q_id (lc_prd located)" "\<And>w. spec (body w) (\<lambda>_ _. True) (\<lambda>w'. w' = w)"
    and "lock_only i w0 w"
  shows "spec (under_claim env no_hooks located body w) (\<lambda>_ _. True) (lock_only i w0)"
proof (rule under_claim_spec [OF assms(1,2)])
  fix L w1 assume "dget (d_locks (w_disk w)) i = None"
    and w1: "w1 = hk_afterRootClaim no_hooks (on_disk (\<lambda>d. d\<lparr>d_locks := dput i L (d_locks d)\<rparr>) w)"
  then have "lock_only i w0 (on_disk (\<lambda>d. d\<lparr>d_locks := releasePrd i (d_locks d)\<rparr>) w1)"
    using assms(4) lock_only_claimed lock_only_trans by (simp only: no_hooks_simps)
  then show "spec (body w1) (\<lambda>_ _. True) (\<lambda>w2. lock_only i w0 (on_disk (\<lambda>d. d\<lparr>d_locks := releasePrd i (d_locks d)\<rparr>) w2))"
    by (intro spec_mono [OF assms(3)]) auto
next
  show "spec (body w) (\<lambda>_ _. True) (lock_only i w0)" by (rule spec_mono [OF assms(3)]) (use assms(4) in auto)
qed (rule assms(4))

lemma rewrite_fails: "spec (rewrite_existing prd fm w) (\<lambda>_ _. True) (\<lambda>w'. w' = w)"
  by (simp add: rewrite_existing_def Let_def)

lemma reload_keeps: "spec (reloadExpectedPrd located w)
    (\<lambda>fresh w'. w' = w \<and> (\<exists>fm. fresh = the_prd (lc_location located) (q_id (lc_prd located)) fm \<and>
       prd_at (lc_location located) (q_id (lc_prd located)) fm w)) (\<lambda>w'. w' = w)"
  by (rule reload_spec) auto

lemma priority_body_fails:
  "spec (andDo (reloadExpectedPrd located w) (\<lambda>fresh w4. setPriorityExistingOnly fresh p w4)) (\<lambda>_ _. True) (\<lambda>w'. w' = w)"
  by (intro spec_andDo spec_mono [OF reload_keeps]) (auto simp: setPriorityExistingOnly_def rewrite_fails)

lemma prd_at_exists: "prd_at l i fm w \<Longrightarrow> file_exists l i (w_disk w)"
  by (force simp: file_exists_def ids_in_def)

lemma file_exists_set_dir:
  "file_exists l i (set_dir l' x d) \<longleftrightarrow>
   (if l = l' then i \<in> fst ` set (case x of None \<Rightarrow> [] | Some es \<Rightarrow> es) else file_exists l i d)"
  by (auto simp: file_exists_def ids_in_def)

lemma override_body_fails: "spec (override_body no_hooks dep located w) (\<lambda>_ _. True) (\<lambda>w'. w' = w)"
  unfolding override_body_def
proof (rule spec_andDo, rule spec_mono [OF reload_keeps])
  fix fresh w1
  assume "w1 = w \<and> (\<exists>fm. fresh = the_prd (lc_location located) (q_id (lc_prd located)) fm \<and>
    prd_at (lc_location located) (q_id (lc_prd located)) fm w)"
  then have e: "w1 = w" "file_exists (q_loc fresh) (q_id fresh) (w_disk w)" by (auto simp: prd_at_exists)
  have move: "spec (moveWaitingPrdToQueueRoot (hk_beforeWrite no_hooks) fresh ids clear w) (\<lambda>_ _. True) (\<lambda>w'. w' = w)" for ids clear
    using e(2) by (auto simp: moveWaitingPrdToQueueRoot_def Let_def on_disk_def file_exists_set_dir)
  show "spec (case dependencyOverrideMutation dep located fresh of Inl e \<Rightarrow> (w1, Inl e)
      | Inr m \<Rightarrow> andDo (if or_movedToQueueRoot m
          then moveWaitingPrdToQueueRoot (hk_beforeWrite no_hooks) fresh (or_currentDependsOn m) (or_clearStackParent m) w1
          else setDependencyOverrideExistingOnly fresh (or_currentDependsOn m) (or_clearStackParent m) (hk_beforeWrite no_hooks w1))
        (\<lambda>_ w2. (w2, Inr m))) (\<lambda>_ _. True) (\<lambda>w'. w' = w)"
    unfolding e(1)
    by (auto split: sum.splits intro!: spec_andDo spec_mono [OF move] spec_mono [OF rewrite_fails]
        simp: setDependencyOverrideExistingOnly_def)
qed auto

lemma removal_body_fails: "spec (removal_body no_hooks located w) (\<lambda>_ _. True) (\<lambda>w'. w' = w)"
  unfolding removal_body_def no_hooks_simps
proof (rule spec_andDo, rule spec_mono [OF reload_keeps])
  let ?i = "q_id (lc_prd located)"
  fix fresh w1 assume "w1 = w \<and> (\<exists>fm. fresh = the_prd (lc_location located) ?i fm \<and> prd_at (lc_location located) ?i fm w)"
  then have w1: "w1 = w" by simp
  show "spec (andDo (refuse_dependents ?i w1) (\<lambda>_ w2. andDo (refuse_dependents ?i w2) (\<lambda>_ w3. removeMainPrdFile fresh w3)))
      (\<lambda>_ _. True) (\<lambda>w'. w' = w)"
    unfolding w1
  proof (rule spec_andDo, rule spec_mono [OF refuse_spec])
    fix w2 assume "w2 = w \<and> no_live_dependents ?i w"
    then have w2: "w2 = w" by simp
    show "spec (andDo (refuse_dependents ?i w2) (\<lambda>_ w3. removeMainPrdFile fresh w3)) (\<lambda>_ _. True) (\<lambda>w'. w' = w)"
      unfolding w2
      by (rule spec_andDo, rule spec_mono [OF refuse_spec]) (auto simp: removeMainPrdFile_def)
  qed simp
qed simp

subsection \<open>Snapshots that only read\<close>

lemma classify_lock_reads: "fst (classify_lock env False i d) = d"
  by (simp add: classify_lock_def split: option.splits)

lemma load_record_reads: "fst (load_record env False p d) = d"
  using classify_lock_reads [of env "q_id p" d]
  by (auto simp: load_record_def split: prod.splits sum.splits)

lemma load_records_reads: "fst (load_records env False ps d) = d"
proof (induction ps)
  case (Cons p ps)
  then show ?case using load_record_reads [of env p d]
    by (cases "load_record env False p d"; cases "load_records env False ps d")
       (auto split: sum.splits)
qed simp

lemma loadLocation_reads: "fst (loadLocation env False l d) = d"
  using load_records_reads by (simp add: loadLocation_def split: sum.splits load_error.splits)

lemma load_locations_reads: "fst (load_locations env False ls d) = d"
proof (induction ls)
  case (Cons l ls)
  then show ?case using loadLocation_reads [of env l d]
    by (cases "loadLocation env False l d"; cases "load_locations env False ls d")
       (auto split: sum.splits)
qed simp

lemma snapshot_reads: "fst (loadQueueControlSnapshot env False d) = d"
  using load_locations_reads [of env "[RootDir, WaitingDir, FailedDir, SkippedDir]" d]
  by (auto simp: loadQueueControlSnapshot_def split: prod.splits sum.splits)

lemma locateMutable_reads: "spec (locateMutable env i w) (\<lambda>_ w'. w' = w) (\<lambda>w'. w' = w)"
  using snapshot_reads [of env "w_disk w"]
  by (cases "loadQueueControlSnapshot env False (w_disk w)")
     (auto simp: locateMutable_def Let_def split: sum.splits option.splits)


lemma write_checked_fails: "spec (write_checked env no_hooks fresh fm st w) (\<lambda>_ _. True) (\<lambda>w'. w' = w)"
  by (auto simp: write_checked_def Let_def split: option.splits intro!: spec_andDo spec_mono [OF rewrite_fails])

lemma reloadPrd_fails: "spec (reloadPrd r w) (\<lambda>_ w'. w' = w) (\<lambda>w'. w' = w)"
  by (auto simp: reloadPrd_def split: sum.splits option.splits)

lemma mutate_located_fails:
  assumes "qe_release_ok env (qr_id r)" "\<And>fresh w. spec (body fresh w) (\<lambda>_ _. True) (\<lambda>w'. w' = w)"
  shows "spec (mutate_located env no_hooks body r w) (\<lambda>_ _. True) (lock_only (qr_id r) w)"
  unfolding mutate_located_def no_hooks_simps
proof (rule under_claim_fails [OF assms(1)])
  show "spec (andDo (reloadPrd r w1) body) (\<lambda>_ _. True) (\<lambda>w'. w' = w1)" for w1
    by (rule spec_andDo, rule spec_mono [OF reloadPrd_fails]) (auto intro: spec_mono [OF assms(2)])
qed simp_all

text \<open>\<open>locateMutable\<close> gives a record of the PRD it was asked for.\<close>

lemma mem_dput: "p \<in> set (dput k v m) \<Longrightarrow> p = (k, v) \<or> p \<in> set m"
  by (induction m) (auto split: if_splits)

lemma group_records_ids:
  "\<forall>(i, xs) \<in> set (group_records rs). xs \<noteq> [] \<and> (\<forall>x \<in> set xs. qr_id x = i)"
proof (induction rs rule: rev_induct)
  case (snoc r rs)
  let ?g = "group_records rs" and ?new = "(case dget (group_records rs) (qr_id r) of Some xs \<Rightarrow> xs | None \<Rightarrow> []) @ [r]"
  have step: "group_records (rs @ [r]) = dput (qr_id r) ?new ?g" by (simp add: group_records_def)
  have new: "?new \<noteq> []" "\<forall>x \<in> set ?new. qr_id x = qr_id r"
    using snoc by (auto split: option.splits dest!: sym [of "Some _"] map_of_SomeD)
  show ?case
  proof (rule ballI)
    fix p assume "p \<in> set (group_records (rs @ [r]))"
    then have "p = (qr_id r, ?new) \<or> p \<in> set ?g" unfolding step by (rule mem_dput)
    then show "case p of (i, xs) \<Rightarrow> xs \<noteq> [] \<and> (\<forall>x \<in> set xs. qr_id x = i)"
    proof
      assume "p = (qr_id r, ?new)"
      then show ?thesis using new by (simp only: prod.case) blast
    qed (use snoc in blast)
  qed
qed (simp add: group_records_def)

lemma byId_id: "dget (sn_byId (make_snapshot env rs)) i = Some r \<Longrightarrow> qr_id r = i"
  using group_records_ids [of "sort_by (compare_records env) rs"]
  by (force simp: make_snapshot_def Let_def dest!: map_of_SomeD)

lemma locateMutable_spec: "spec (locateMutable env i w) (\<lambda>r w'. w' = w \<and> qr_id r = i) (\<lambda>w'. w' = w)"
proof -
  obtain d r where s: "loadQueueControlSnapshot env False (w_disk w) = (d, r)" by (rule prod.exhaust)
  with snapshot_reads [of env "w_disk w"] have d: "d = w_disk w" by simp
  show ?thesis
  proof (cases r)
    case (Inr sn)
    then obtain rs where "sn = make_snapshot env rs"
      using s by (auto simp: loadQueueControlSnapshot_def split: prod.splits sum.splits)
    with s d Inr show ?thesis
      by (auto simp: locateMutable_def Let_def byId_id split: option.splits)
  qed (simp add: locateMutable_def s d)
qed

text \<open>
  A control that fails changes nothing: when change of priority, override of a dependency,
  hold or unhold returns an error, no PRD file and no sidecar of the queue has changed, no claim
  was left behind, and at most a stale lock of the PRD itself is gone.
\<close>

theorem failed_control_changes_nothing:
  assumes "\<forall>j. qe_release_ok env j"
  shows "spec (updateQueuedPrdPriority env no_hooks i p w) (\<lambda>_ _. True) (lock_only i w)
    \<and> spec (overrideQueuedPrdDependency env no_hooks i dep w) (\<lambda>_ _. True) (lock_only i w)
    \<and> spec (removeQueuedPrd env no_hooks i w) (\<lambda>_ _. True) (lock_only i w)
    \<and> spec (holdQueuedPrd env no_hooks now i reason w) (\<lambda>_ _. True) (lock_only i w)
    \<and> spec (unholdQueuedPrd env no_hooks i w) (\<lambda>_ _. True) (lock_only i w)"
proof (intro conjI)
  have control: "spec (andDo (findQueuedPrdForControl env i w) f) (\<lambda>_ _. True) (lock_only i w)"
    if "\<And>located w1. q_id (lc_prd located) = i \<Longrightarrow> lock_only i w w1 \<Longrightarrow> spec (f located w1) (\<lambda>_ _. True) (lock_only i w)"
    for f :: "located \<Rightarrow> world \<Rightarrow> 'a qc_act"
    by (rule spec_andDo, rule spec_mono [OF locate_spec]) (auto simp: located_ok_def intro: that)
  have claimed: "spec (under_claim env no_hooks located body w1) (\<lambda>_ _. True) (lock_only i w)"
    if "q_id (lc_prd located) = i" "lock_only i w w1" "\<And>w. spec (body w) (\<lambda>_ _. True) (\<lambda>w'. w' = w)"
    for located w1 and body :: "world \<Rightarrow> 'a qc_act"
    by (rule under_claim_fails) (use that assms in auto)
  show "spec (updateQueuedPrdPriority env no_hooks i p w) (\<lambda>_ _. True) (lock_only i w)"
    unfolding updateQueuedPrdPriority_def no_hooks_simps Let_def
    by (rule spec_if, simp, rule control, rule spec_if, simp, rule spec_andDo)
      (rule spec_mono [OF claimed [OF _ _ priority_body_fails]], simp_all)
  show "spec (overrideQueuedPrdDependency env no_hooks i dep w) (\<lambda>_ _. True) (lock_only i w)"
    unfolding overrideQueuedPrdDependency_def no_hooks_simps Let_def
    by (rule spec_if, simp, rule control, rule spec_if, simp, rule claimed [OF _ _ override_body_fails])
  show "spec (removeQueuedPrd env no_hooks i w) (\<lambda>_ _. True) (lock_only i w)"
    unfolding removeQueuedPrd_def no_hooks_simps Let_def
    by (rule spec_if, simp, rule control, rule spec_if, simp, rule spec_andDo)
      (rule spec_mono [OF claimed [OF _ _ removal_body_fails]], simp_all split: prod.splits)
  have mutable: "spec (andDo (locateMutable env i w) (mutate_located env no_hooks body)) (\<lambda>_ _. True) (lock_only i w)"
    if "\<And>fresh w. spec (body fresh w) (\<lambda>_ _. True) (\<lambda>w'. w' = w)" for body :: "queued_prd \<Rightarrow> world \<Rightarrow> 'a qc_act"
  proof (rule spec_andDo, rule spec_mono [OF locateMutable_spec])
    fix r :: qrec and w' assume "w' = w \<and> qr_id r = i"
    then show "spec (mutate_located env no_hooks body r w') (\<lambda>_ _. True) (lock_only i w)"
      using mutate_located_fails [of env r body w] that assms by auto
  qed simp
  show "spec (holdQueuedPrd env no_hooks now i reason w) (\<lambda>_ _. True) (lock_only i w)"
    unfolding holdQueuedPrd_def
    by (rule spec_if, simp) (auto split: sum.split intro!: mutable simp: write_checked_fails)
  show "spec (unholdQueuedPrd env no_hooks i w) (\<lambda>_ _. True) (lock_only i w)"
    unfolding unholdQueuedPrd_def
    by (rule spec_if, simp) (auto intro!: mutable simp: write_checked_fails)
qed

section \<open>What an override does\<close>

text \<open>Exactly the named dependency is gone; the PRD moves to the root exactly when it was waiting
  on nothing else, and no other PRD, no sidecar and no other lock is touched.\<close>

definition override_done :: "prd_id \<Rightarrow> prd_id \<Rightarrow> world \<Rightarrow> override_result \<Rightarrow> world \<Rightarrow> bool" where
  "override_done i dep w m w' \<longleftrightarrow>
     (\<exists>l fm. prd_at l i fm w \<and> dep \<in> set (deps_of fm)
        \<and> or_currentDependsOn m = filter (\<lambda>j. j \<noteq> dep) (deps_of fm)
        \<and> or_movedToQueueRoot m = (l = WaitingDir \<and> set (deps_of fm) = {dep})
        \<and> prd_at (if or_movedToQueueRoot m then RootDir else l) i
             (override_fm (or_currentDependsOn m) (fm_stack_parent fm = Some dep) fm) w'
        \<and> (or_movedToQueueRoot m \<longrightarrow> \<not> file_exists WaitingDir i (w_disk w')))
     \<and> (\<forall>l j. j \<noteq> i \<longrightarrow> dget (entries l (w_disk w')) j = dget (entries l (w_disk w)) j)
     \<and> (\<forall>j. j \<noteq> i \<longrightarrow> dget (d_locks (w_disk w')) j = dget (d_locks (w_disk w)) j)
     \<and> w_json w' = w_json w \<and> w_md w' = w_md w"

definition same_but :: "prd_id \<Rightarrow> world \<Rightarrow> world \<Rightarrow> bool" where
  "same_but i w w' \<longleftrightarrow>
     (\<forall>l j. j \<noteq> i \<longrightarrow> dget (entries l (w_disk w')) j = dget (entries l (w_disk w)) j)
     \<and> (\<forall>j. j \<noteq> i \<longrightarrow> dget (d_locks (w_disk w')) j = dget (d_locks (w_disk w)) j)
     \<and> w_json w' = w_json w \<and> w_md w' = w_md w"

lemma same_but_trans: "same_but i a b \<Longrightarrow> same_but i b c \<Longrightarrow> same_but i a c"
  by (simp add: same_but_def)

lemma lock_only_same_but: "lock_only i a b \<Longrightarrow> same_but i a b"
  by (auto simp: lock_only_def same_but_def)

lemma set_dir_locks [simp]: "d_locks (set_dir l x d) = d_locks d"
  by (cases l) (simp_all add: set_dir_def)

lemma dget_append_other: "j \<noteq> i \<Longrightarrow> ([i \<mapsto> x] ++ m) j = m j"
  by (simp add: map_add_def split: option.splits)

lemma remove_file_locks [simp]: "d_locks (remove_file l i d) = d_locks d"
  by (simp add: remove_file_def)

lemma mem_dput_new: "(k, v) \<in> set (dput k v m)"
  by (induction m) auto

lemma override_body_spec:
  assumes i: "q_id (lc_prd located) = i"
    and st: "lc_location located = RootDir \<Longrightarrow> lc_status located \<noteq> QsWaiting"
    "lc_location located \<noteq> RootDir \<Longrightarrow> lc_status located = location_status (lc_location located)"
  shows "spec (override_body no_hooks dep located w) (override_done i dep w) (\<lambda>_. True)"
  unfolding override_body_def no_hooks_simps
proof (rule spec_andDo, rule spec_mono [OF reload_keeps])
  let ?l = "lc_location located"
  fix fresh w1 assume "w1 = w \<and> (\<exists>fm. fresh = the_prd ?l (q_id (lc_prd located)) fm \<and> prd_at ?l (q_id (lc_prd located)) fm w)"
  then obtain fm where w1: "w1 = w" and fresh: "fresh = the_prd ?l i fm" and at: "prd_at ?l i fm w" using i by auto
  have only: "filter (\<lambda>j. j \<noteq> dep) xs = [] \<longleftrightarrow> set xs = {dep}" if "dep \<in> set xs" for xs
    using that by (auto simp: filter_empty_conv)
  have waiting: "lc_status located = QsWaiting \<longleftrightarrow> ?l = WaitingDir"
    using st by (cases ?l) auto
  show "spec (case dependencyOverrideMutation dep located fresh of Inl e \<Rightarrow> (w1, Inl e)
      | Inr m \<Rightarrow> andDo (if or_movedToQueueRoot m
          then moveWaitingPrdToQueueRoot (\<lambda>w. w) fresh (or_currentDependsOn m) (or_clearStackParent m) w1
          else setDependencyOverrideExistingOnly fresh (or_currentDependsOn m) (or_clearStackParent m) w1)
        (\<lambda>_ w2. (w2, Inr m))) (override_done i dep w) (\<lambda>_. True)"
  proof (cases "dependencyOverrideMutation dep located fresh")
    case (Inr m)
    have dep: "dep \<in> set (deps_of fm)"
      by (rule ccontr) (use Inr in \<open>simp add: dependencyOverrideMutation_def fresh\<close>)
    have "or_currentDependsOn m = filter (\<lambda>j. j \<noteq> dep) (deps_of fm)
        \<and> or_movedToQueueRoot m = (lc_status located = QsWaiting \<and> filter (\<lambda>j. j \<noteq> dep) (deps_of fm) = [])
        \<and> or_clearStackParent m = (fm_stack_parent fm = Some dep)"
      using Inr dep by (simp add: dependencyOverrideMutation_def fresh Let_def) (drule sym, simp)
    then have m: "or_currentDependsOn m = filter (\<lambda>j. j \<noteq> dep) (deps_of fm)"
        "or_movedToQueueRoot m = (?l = WaitingDir \<and> set (deps_of fm) = {dep})"
        "or_clearStackParent m = (fm_stack_parent fm = Some dep)"
      unfolding only [OF dep] waiting by blast+
    have done1: "override_done i dep w m w'"
      if "prd_at (if or_movedToQueueRoot m then RootDir else ?l) i
             (override_fm (or_currentDependsOn m) (fm_stack_parent fm = Some dep) fm) w'"
         "or_movedToQueueRoot m \<longrightarrow> \<not> file_exists WaitingDir i (w_disk w')" "same_but i w w'" for w'
      using that at dep m(1,2) unfolding override_done_def same_but_def by blast
    show ?thesis
    proof (cases "or_movedToQueueRoot m")
      case True
      with m(2) have l: "?l = WaitingDir" by simp
      show ?thesis unfolding Inr sum.case w1
        using True m(3) l at
        by (auto simp: moveWaitingPrdToQueueRoot_def Let_def fresh andDo_def on_disk_def file_exists_set_dir
            intro!: done1 simp: same_but_def entries_remove dget_append_other removed_gone)
    next
      case False
      show ?thesis unfolding Inr sum.case w1
        using False m(3) at
        by (auto simp: setDependencyOverrideExistingOnly_def rewrite_existing_def Let_def fresh andDo_def on_disk_def
            intro!: done1 simp: same_but_def mem_dput_new)
    qed
  qed simp
qed simp

lemma on_disk_locks_fields [simp]:
  "w_json (on_disk f w) = w_json w" "w_md (on_disk f w) = w_md w" "w_disk (on_disk f w) = f (w_disk w)"
  by (simp_all add: on_disk_def)

lemma override_done_before:
  "lock_only i w w1 \<Longrightarrow> override_done i dep w1 m w' \<Longrightarrow> override_done i dep w m w'"
proof -
  assume lo: "lock_only i w w1" and done_from: "override_done i dep w1 m w'"
  have e: "entries l (w_disk w1) = entries l (w_disk w)" "w_json w1 = w_json w" "w_md w1 = w_md w" for l
    using lo by (auto simp: lock_only_def)
  have "\<forall>j. j \<noteq> i \<longrightarrow> dget (d_locks (w_disk w1)) j = dget (d_locks (w_disk w)) j"
    using lo by (auto simp: lock_only_def)
  with done_from show ?thesis unfolding override_done_def e by presburger
qed

lemma override_done_after:
  assumes "override_done i dep w m w'"
  shows "override_done i dep w m (on_disk (\<lambda>d. d\<lparr>d_locks := releasePrd i (d_locks d)\<rparr>) w')"
  using assms by (simp add: override_done_def releasePrd_def)

lemma override_done_claimed:
  "override_done i dep (on_disk (\<lambda>d. d\<lparr>d_locks := dput i L (d_locks d)\<rparr>) w) m w' \<Longrightarrow> override_done i dep w m w'"
  by (simp add: override_done_def)

text \<open>
  An override removes exactly the dependency it names: when \<open>overrideQueuedPrdDependency\<close>
  returns, the dependency was there, the PRD now lists its other dependencies, it has moved from
  \<open>waiting\<close> to the root exactly when it was waiting on nothing else, a stack parent is dropped only
  if it was that dependency, and no other PRD, lock or sidecar has changed.
\<close>

theorem override_removes_exactly_one:
  assumes "overrideQueuedPrdDependency env no_hooks i dep w = (w', Inr m)" and ok: "qe_release_ok env i"
  shows "override_done i dep w m w'"
proof -
  have "spec (overrideQueuedPrdDependency env no_hooks i dep w) (override_done i dep w) (\<lambda>_. True)"
    unfolding overrideQueuedPrdDependency_def no_hooks_simps Let_def
  proof (rule spec_if, simp, rule spec_andDo, rule spec_mono [OF locate_spec], rule spec_if, simp)
    fix located w1
    assume "located_ok i w located w1" and status: "\<not> (lc_status located \<noteq> QsPending \<and> lc_status located \<noteq> QsWaiting)"
    then have lo: "lock_only i w w1" and i: "q_id (lc_prd located) = i"
      and st: "lc_location located = RootDir \<Longrightarrow> lc_status located \<noteq> QsWaiting"
        "lc_location located \<noteq> RootDir \<Longrightarrow> lc_status located = location_status (lc_location located)"
      by (auto simp: located_ok_def split: if_splits)
    note body = override_body_spec [OF i st, of dep]
    have "spec (under_claim env no_hooks located (override_body no_hooks dep located) w1) (override_done i dep w1) (\<lambda>_. True)"
    proof (rule under_claim_spec [OF ok i [symmetric]])
      fix L w2 assume "w2 = hk_afterRootClaim no_hooks (on_disk (\<lambda>d. d\<lparr>d_locks := dput i L (d_locks d)\<rparr>) w1)"
      then have w2: "w2 = on_disk (\<lambda>d. d\<lparr>d_locks := dput i L (d_locks d)\<rparr>) w1" by simp
      show "spec (override_body no_hooks dep located w2)
          (\<lambda>m w3. override_done i dep w1 m (on_disk (\<lambda>d. d\<lparr>d_locks := releasePrd i (d_locks d)\<rparr>) w3)) (\<lambda>_. True)"
      proof (rule spec_mono [OF body])
        fix m w3 assume "override_done i dep w2 m w3"
        from this [unfolded w2] show "override_done i dep w1 m (on_disk (\<lambda>d. d\<lparr>d_locks := releasePrd i (d_locks d)\<rparr>) w3)"
          by (rule override_done_after [OF override_done_claimed])
      qed simp
    qed (use body in auto)
    then show "spec (under_claim env no_hooks located (override_body no_hooks dep located) w1) (override_done i dep w) (\<lambda>_. True)"
      by (rule spec_mono) (use override_done_before [OF lo] in auto)
  qed simp_all
  with assms(1) show ?thesis by simp
qed


section \<open>Instances\<close>

definition demo_queue :: world where
  "demo_queue = \<lparr>w_disk = (demo_disk [(''b'', demo_file [''a''])])\<lparr>d_failed := Some [(''f'', demo_file [])]\<rparr>,
     w_json = [], w_md = [''f'']\<rparr>"


lemma failed_control_changes_nothing_witness:
  "snd (overrideQueuedPrdDependency flat_env no_hooks ''b'' ''z'' demo_queue) = Inl (QcError QcConflict) \<and>
   lock_only ''b'' demo_queue (fst (overrideQueuedPrdDependency flat_env no_hooks ''b'' ''z'' demo_queue))"
proof -
  have e: "snd (overrideQueuedPrdDependency flat_env no_hooks ''b'' ''z'' demo_queue) = Inl (QcError QcConflict)" by code_simp
  have ok: "\<forall>j. qe_release_ok flat_env j" by (simp add: flat_env_def)
  have "spec (overrideQueuedPrdDependency flat_env no_hooks ''b'' ''z'' demo_queue) (\<lambda>_ _. True) (lock_only ''b'' demo_queue)"
    using failed_control_changes_nothing [OF ok, where i = "''b''" and dep = "''z''" and w = demo_queue] by blast
  with e show ?thesis
    by (cases "overrideQueuedPrdDependency flat_env no_hooks ''b'' ''z'' demo_queue") simp
qed

lemma override_removes_exactly_one_witness:
  "\<exists>w' m. overrideQueuedPrdDependency flat_env no_hooks ''b'' ''a'' demo_queue = (w', Inr m) \<and>
     or_movedToQueueRoot m \<and> override_done ''b'' ''a'' demo_queue m w'"
proof -
  have "(case overrideQueuedPrdDependency flat_env no_hooks ''b'' ''a'' demo_queue of
      (w', Inr m) \<Rightarrow> or_movedToQueueRoot m | (w', Inl e) \<Rightarrow> False)" by code_simp
  then obtain w' m where m: "overrideQueuedPrdDependency flat_env no_hooks ''b'' ''a'' demo_queue = (w', Inr m)" "or_movedToQueueRoot m"
    by (auto split: prod.splits sum.splits)
  with override_removes_exactly_one [OF m(1)] show ?thesis by (auto simp: flat_env_def)
qed

end
