(* ===== verification/QueueCancellation.thy ===== *)
theory QueueCancellation
  imports QueueControl
begin

text \<open>
  Cancelling a running PRD (\<open>queue/cancellation.ts\<close>) and the capabilities offered for a queue item
  (\<open>queue/capabilities.ts\<close>): who owns a running build, the markers that ask for a cancellation,
  how the exit of a build's process is read, and which controls an item offers. The
  lemmas show that ownership needs a live lock bound to a running run of the daemon, that a
  marker is used once, and that what an item offers the control accepts.
\<close>

section \<open>Ownership of a running PRD\<close>

record run_info =
  ri_id :: "string option"
  ri_prdId :: "string option"
  ri_planSet :: "string option"
  ri_planSetName :: "string option"
  ri_name :: "string option"
  ri_status :: string
  ri_pid :: "nat option"
  ri_sessionId :: "string option"

datatype own_reason =
    NoLiveLock | StaleLock | CorruptLock | NoRunningRun | PidNotBound | NoSession | NotDaemonOwned | NoResolver | OtherReason string

record ownership =
  ow_owned :: bool
  ow_sessionId :: "string option"
  ow_runId :: "string option"
  ow_pid :: "nat option"
  ow_reason :: "own_reason option"

definition not_owned :: "own_reason \<Rightarrow> ownership" where
  "not_owned r = \<lparr>ow_owned = False, ow_sessionId = None, ow_runId = None, ow_pid = None, ow_reason = Some r\<rparr>"

definition runMatchesPrd :: "run_info \<Rightarrow> prd_id \<Rightarrow> bool" where
  "runMatchesPrd run i \<longleftrightarrow>
     ri_prdId run = Some i \<or> ri_planSet run = Some i \<or> ri_planSetName run = Some i \<or> ri_name run = Some i"

definition isRunningRun :: "run_info \<Rightarrow> bool" where
  "isRunningRun run \<longleftrightarrow> ri_status run = ''running'' \<or> ri_status run = ''active''"

record ownership_opts =
  oo_runs :: "run_info list"
  oo_sessionIds :: "(prd_id \<times> string) list"
  oo_workerSessions :: "string list"
  oo_adoptedWorkerSessions :: "string list"

text \<open>An empty session id counts as none.\<close>

definition resolveRunningPrdOwnership ::
    "qc_env \<Rightarrow> ownership_opts \<Rightarrow> prd_id \<Rightarrow> qdisk \<Rightarrow> (qc_error, ownership) result" where
  "resolveRunningPrdOwnership env opt i d =
     (if \<not> assertSafePrdId i then Inl (QcError QcValidation)
      else case lock_status env i d of
             None \<Rightarrow> Inl QcThrown
           | Some Absent \<Rightarrow> Inr (not_owned NoLiveLock)
           | Some (Stale _) \<Rightarrow> Inr (not_owned StaleLock)
           | Some Corrupt \<Rightarrow> Inr (not_owned CorruptLock)
           | Some (Live pid) \<Rightarrow>
               (case List.find (\<lambda>r. runMatchesPrd r i \<and> isRunningRun r) (oo_runs opt) of
                  None \<Rightarrow> Inr (not_owned NoRunningRun)
                | Some run \<Rightarrow>
                    if ri_pid run \<noteq> Some pid then Inr ((not_owned PidNotBound)\<lparr>ow_runId := ri_id run\<rparr>)
                    else
                      (let sessionId = (case ri_sessionId run of Some s \<Rightarrow> Some s | None \<Rightarrow> dget (oo_sessionIds opt) i) in
                       case sessionId of
                         None \<Rightarrow> Inr ((not_owned NoSession)\<lparr>ow_runId := ri_id run\<rparr>)
                       | Some s \<Rightarrow>
                           if s = [] then Inr ((not_owned NoSession)\<lparr>ow_runId := ri_id run\<rparr>)
                           else if s \<notin> set (oo_workerSessions opt) \<and> s \<notin> set (oo_adoptedWorkerSessions opt)
                           then Inr ((not_owned NotDaemonOwned)\<lparr>ow_sessionId := Some s, ow_runId := ri_id run\<rparr>)
                           else Inr \<lparr>ow_owned = True, ow_sessionId = Some s, ow_runId = ri_id run,
                                     ow_pid = Some pid, ow_reason = None\<rparr>)))"

section \<open>Cancellation markers\<close>

record marker =
  mk_prdId :: prd_id
  mk_reason :: "string option"
  mk_sessionId :: "string option"
  mk_runId :: "string option"
  mk_pid :: "nat option"
  mk_requestedAt :: string

text \<open>What is at the marker path of a PRD.\<close>

datatype marker_file = Marker marker | MalformedMarker | NotAFile

type_synonym markers = "(prd_id \<times> marker_file) list"

text \<open>\<open>None\<close> for the directory: it does not exist; \<open>unsafe\<close>: it is not a real directory.\<close>

record marker_dir =
  md_unsafe :: bool
  md_markers :: "markers option"

definition requestQueuePrdCancellation :: "prd_id \<Rightarrow> marker \<Rightarrow> marker_dir \<Rightarrow> marker_dir \<times> (qc_error, marker) result" where
  "requestQueuePrdCancellation i mk d =
     (if \<not> assertSafePrdId i then (d, Inl (QcError QcValidation))
      else (let ms = (case md_markers d of None \<Rightarrow> [] | Some ms \<Rightarrow> ms); d1 = d\<lparr>md_markers := Some ms\<rparr> in
            if md_unsafe d then (d1, Inl (QcError QcValidation))
            else case dget ms i of
                   Some _ \<Rightarrow> (d1, Inl (QcError QcConflict))
                 | None \<Rightarrow> (d1\<lparr>md_markers := Some (dput i (Marker mk) ms)\<rparr>, Inr mk)))"

definition removeQueuePrdCancellation :: "prd_id \<Rightarrow> marker_dir \<Rightarrow> marker_dir \<times> (qc_error, unit) result" where
  "removeQueuePrdCancellation i d =
     (if \<not> assertSafePrdId i then (d, Inl (QcError QcValidation))
      else case md_markers d of
             None \<Rightarrow> (d, Inr ())
           | Some ms \<Rightarrow>
               if md_unsafe d then (d, Inl (QcError QcValidation))
               else case dget ms i of
                      None \<Rightarrow> (d, Inr ())
                    | Some NotAFile \<Rightarrow> (d, Inl (QcError QcValidation))
                    | Some _ \<Rightarrow> (d\<lparr>md_markers := Some (ddel i ms)\<rparr>, Inr ()))"

record expected_run =
  xr_sessionId :: "string option"
  xr_runId :: "string option"
  xr_pid :: "nat option"

definition markerMatchesExpected :: "marker \<Rightarrow> expected_run \<Rightarrow> bool" where
  "markerMatchesExpected mk x \<longleftrightarrow>
     (xr_sessionId x \<noteq> None \<longrightarrow> mk_sessionId mk = xr_sessionId x) \<and>
     (xr_runId x \<noteq> None \<longrightarrow> mk_runId mk = xr_runId x) \<and>
     (xr_pid x \<noteq> None \<longrightarrow> mk_pid mk = xr_pid x) \<and>
     (xr_sessionId x \<noteq> None \<or> xr_runId x \<noteq> None \<or> xr_pid x \<noteq> None)"

definition default_max_age_ms :: int where
  "default_max_age_ms = 5 * 60 * 1000"

text \<open>\<open>parse\<close> is \<open>Date.parse\<close> (\<open>None\<close> for NaN), \<open>now\<close> the time in milliseconds.\<close>

definition consumeQueuePrdCancellation ::
    "(string \<Rightarrow> int option) \<Rightarrow> int \<Rightarrow> int \<Rightarrow> expected_run \<Rightarrow> prd_id \<Rightarrow> marker_dir \<Rightarrow>
     marker_dir \<times> (qc_error, marker option) result" where
  "consumeQueuePrdCancellation parse now maxAge x i d =
     (if \<not> assertSafePrdId i then (d, Inl (QcError QcValidation))
      else case md_markers d of
             None \<Rightarrow> (d, Inr None)
           | Some ms \<Rightarrow>
               if md_unsafe d then (d, Inl (QcError QcValidation))
               else case dget ms i of
                      None \<Rightarrow> (d, Inr None)
                    | Some NotAFile \<Rightarrow> (d, Inl (QcError QcValidation))
                    | Some MalformedMarker \<Rightarrow> (d\<lparr>md_markers := Some (ddel i ms)\<rparr>, Inr None)
                    | Some (Marker mk) \<Rightarrow>
                        (d\<lparr>md_markers := Some (ddel i ms)\<rparr>,
                         Inr (case parse (mk_requestedAt mk) of
                                None \<Rightarrow> None
                              | Some t \<Rightarrow>
                                  if mk_prdId mk = i \<and> 0 \<le> now - t \<and> now - t \<le> maxAge \<and> markerMatchesExpected mk x
                                  then Some mk else None)))"

section \<open>The exit of a build's process\<close>

datatype child_status = ChildCompleted | ChildFailed | ChildSkipped | ChildAlreadyClaimed

record child_exit =
  ce_status :: child_status
  ce_moveTo :: "terminal_status option"
  ce_cleanup :: bool

text \<open>\<open>exitCode\<close> is \<open>None\<close> for null; \<open>signal\<close> is whether a signal ended the process.\<close>

definition classifyQueueChildExit :: "nat option \<Rightarrow> bool \<Rightarrow> bool \<Rightarrow> bool \<Rightarrow> child_exit" where
  "classifyQueueChildExit exitCode signal schedulerAborted operatorCancellation =
     (if signal \<and> schedulerAborted then \<lparr>ce_status = ChildSkipped, ce_moveTo = None, ce_cleanup = False\<rparr>
      else if signal \<and> operatorCancellation then \<lparr>ce_status = ChildSkipped, ce_moveTo = Some QSkipped, ce_cleanup = False\<rparr>
      else if signal then \<lparr>ce_status = ChildFailed, ce_moveTo = Some QFailed, ce_cleanup = False\<rparr>
      else if exitCode = Some 0 then \<lparr>ce_status = ChildCompleted, ce_moveTo = None, ce_cleanup = True\<rparr>
      else if exitCode = Some 2 then \<lparr>ce_status = ChildSkipped, ce_moveTo = Some QSkipped, ce_cleanup = False\<rparr>
      else if exitCode = Some 10 then \<lparr>ce_status = ChildAlreadyClaimed, ce_moveTo = None, ce_cleanup = False\<rparr>
      else if exitCode = Some 11 then \<lparr>ce_status = ChildSkipped, ce_moveTo = None, ce_cleanup = False\<rparr>
      else \<lparr>ce_status = ChildFailed, ce_moveTo = Some QFailed, ce_cleanup = False\<rparr>)"

section \<open>Capabilities\<close>

datatype cap_reason =
    TerminalPriority | OverrideTerminal | NoDependency | AlreadyHeldReason | NotHeld | HoldTerminal | UnholdTerminal
  | RunningRemove | DependentRemove | TerminalCancel | LockIsStale | LockIsCorrupt | Owner own_reason
  | RunningCancelUnowned | CascadeCancelUnowned

datatype capability = Allowed | Denied cap_reason

definition live_queue_status :: "q_status \<Rightarrow> bool" where
  "live_queue_status st \<longleftrightarrow> st = QsPending \<or> st = QsWaiting"

definition canPriority :: "qrec \<Rightarrow> capability" where
  "canPriority r = (if live_queue_status (qr_status r) then Allowed else Denied TerminalPriority)"

definition canDependencyOverride :: "qrec \<Rightarrow> capability" where
  "canDependencyOverride r =
     (if \<not> live_queue_status (qr_status r) then Denied OverrideTerminal
      else if length (qr_dependsOn r) > 0 then Allowed else Denied NoDependency)"

definition canHold :: "qrec \<Rightarrow> capability" where
  "canHold r =
     (if \<not> live_queue_status (qr_status r) then Denied HoldTerminal
      else if qr_held r then Denied AlreadyHeldReason else Allowed)"

definition canUnhold :: "qrec \<Rightarrow> capability" where
  "canUnhold r =
     (if \<not> live_queue_status (qr_status r) then Denied UnholdTerminal
      else if qr_held r then Allowed else Denied NotHeld)"

definition canRemove :: "qrec \<Rightarrow> nat \<Rightarrow> capability" where
  "canRemove r dependents =
     (if qr_status r = QsRunning then Denied RunningRemove
      else if dependents > 0 then Denied DependentRemove else Allowed)"

definition canCascadeRemove :: "qrec \<Rightarrow> capability" where
  "canCascadeRemove r = (if qr_status r = QsRunning then Denied RunningRemove else Allowed)"

definition staleOrCorruptLockReason :: "qrec \<Rightarrow> cap_reason option" where
  "staleOrCorruptLockReason r =
     (case qr_lock r of Some (Stale _) \<Rightarrow> Some LockIsStale | Some Corrupt \<Rightarrow> Some LockIsCorrupt | _ \<Rightarrow> None)"

definition owner_reason :: "ownership option \<Rightarrow> cap_reason \<Rightarrow> cap_reason" where
  "owner_reason own r = (case own of Some x \<Rightarrow> (case ow_reason x of Some y \<Rightarrow> Owner y | None \<Rightarrow> r) | None \<Rightarrow> r)"

definition owned :: "ownership option \<Rightarrow> bool" where
  "owned own \<longleftrightarrow> (case own of Some x \<Rightarrow> ow_owned x | None \<Rightarrow> False)"

definition canCancel :: "qrec \<Rightarrow> ownership option \<Rightarrow> capability" where
  "canCancel r own =
     (if qr_status r = QsFailed \<or> qr_status r = QsSkipped then Denied TerminalCancel
      else case staleOrCorruptLockReason r of
             Some reason \<Rightarrow> Denied (owner_reason own reason)
           | None \<Rightarrow>
               if qr_status r = QsRunning \<and> \<not> owned own then Denied (owner_reason own RunningCancelUnowned)
               else Allowed)"

definition canCascadeCancel :: "qc_env \<Rightarrow> qrec \<Rightarrow> qrec list \<Rightarrow> (prd_id \<Rightarrow> ownership option) \<Rightarrow> capability" where
  "canCascadeCancel env r rs own =
     (if qr_status r = QsFailed \<or> qr_status r = QsSkipped then Denied TerminalCancel
      else if list_all (\<lambda>item. staleOrCorruptLockReason item = None \<and> (qr_status item = QsRunning \<longrightarrow> owned (own (qr_id item))))
                (r # map fst (findCascadeDependents env (qr_id r) rs))
      then Allowed else Denied CascadeCancelUnowned)"

record capabilities =
  cap_priority :: capability
  cap_remove :: capability
  cap_dependencyOverride :: capability
  cap_hold :: capability
  cap_unhold :: capability
  cap_cascadeRemove :: capability
  cap_cancel :: capability
  cap_cascadeCancel :: capability

definition item_capabilities :: "qc_env \<Rightarrow> qrec \<Rightarrow> qrec list \<Rightarrow> ownership option \<Rightarrow> (prd_id \<Rightarrow> ownership option) \<Rightarrow> capabilities" where
  "item_capabilities env r rs own owns =
     \<lparr>cap_priority = canPriority r, cap_remove = canRemove r (length (findCascadeDependents env (qr_id r) rs)),
      cap_dependencyOverride = canDependencyOverride r, cap_hold = canHold r, cap_unhold = canUnhold r,
      cap_cascadeRemove = canCascadeRemove r, cap_cancel = canCancel r own,
      cap_cascadeCancel = canCascadeCancel env r rs owns\<rparr>"

definition deriveQueueItemCapabilities :: "qc_env \<Rightarrow> qrec \<Rightarrow> snapshot_rec \<Rightarrow> ownership option \<Rightarrow> capabilities" where
  "deriveQueueItemCapabilities env r sn own =
     item_capabilities env r (sn_records sn) own (\<lambda>i. if i = qr_id r then own else None)"

definition deriveQueueCapabilitiesForSnapshot ::
    "qc_env \<Rightarrow> snapshot_rec \<Rightarrow> (prd_id \<Rightarrow> ownership option) \<Rightarrow> (prd_id \<times> capabilities) list" where
  "deriveQueueCapabilitiesForSnapshot env sn owns =
     fold (\<lambda>r m. dput (qr_id r) (item_capabilities env r (sn_records sn) (owns (qr_id r)) owns) m) (sn_records sn) []"

section \<open>Properties\<close>

text \<open>
  A running PRD is only owned by the daemon on evidence: when \<open>resolveRunningPrdOwnership\<close>
  answers that it is owned, its lock is live, a running run of that PRD has the pid of the
  lock, and the run's session is one of the daemon's workers, started or adopted.
\<close>

theorem ownership_is_evidence:
  assumes "resolveRunningPrdOwnership env opt i d = Inr own" and "ow_owned own"
  shows "\<exists>pid s run. lock_status env i d = Some (Live pid) \<and> ow_pid own = Some pid \<and> ow_sessionId own = Some s \<and>
    run \<in> set (oo_runs opt) \<and> runMatchesPrd run i \<and> isRunningRun run \<and> ri_pid run = Some pid \<and>
    (ri_sessionId run = Some s \<or> dget (oo_sessionIds opt) i = Some s) \<and>
    s \<in> set (oo_workerSessions opt) \<union> set (oo_adoptedWorkerSessions opt)"
proof -
  from assms obtain pid where pid: "lock_status env i d = Some (Live pid)"
    by (auto simp: resolveRunningPrdOwnership_def not_owned_def split: if_splits option.splits prd_lock.splits)
  from assms pid obtain run where run: "List.find (\<lambda>r. runMatchesPrd r i \<and> isRunningRun r) (oo_runs opt) = Some run"
    by (cases "List.find (\<lambda>r. runMatchesPrd r i \<and> isRunningRun r) (oo_runs opt)")
       (auto simp: resolveRunningPrdOwnership_def not_owned_def split: if_splits)
  note found = find_SomeD' [OF run]
  obtain s where s: "own = \<lparr>ow_owned = True, ow_sessionId = Some s, ow_runId = ri_id run, ow_pid = Some pid, ow_reason = None\<rparr>"
      "ri_pid run = Some pid" "(case ri_sessionId run of Some s \<Rightarrow> Some s | None \<Rightarrow> dget (oo_sessionIds opt) i) = Some s"
      "s \<in> set (oo_workerSessions opt) \<or> s \<in> set (oo_adoptedWorkerSessions opt)"
    using assms pid run
    by (auto simp: resolveRunningPrdOwnership_def not_owned_def Let_def split: if_splits option.splits)
  have "ri_sessionId run = Some s \<or> dget (oo_sessionIds opt) i = Some s"
    using s(3) by (cases "ri_sessionId run") simp_all
  then show ?thesis
    using pid found s(2,4) unfolding s(1) by (intro exI [of _ pid] exI [of _ s] exI [of _ run]) simp
qed

definition demo_run :: run_info where
  "demo_run = \<lparr>ri_id = Some ''r1'', ri_prdId = None, ri_planSet = Some ''a'', ri_planSetName = None, ri_name = None,
     ri_status = ''running'', ri_pid = Some 77, ri_sessionId = Some ''s1''\<rparr>"

lemma ownership_is_evidence_witness:
  "\<exists>own. resolveRunningPrdOwnership (flat_env\<lparr>qe_os := (\<lambda>_. Signalled)\<rparr>)
       \<lparr>oo_runs = [demo_run], oo_sessionIds = [], oo_workerSessions = [''s1''], oo_adoptedWorkerSessions = []\<rparr> ''a''
       ((demo_disk [])\<lparr>d_locks := [(''a'', ''77'')]\<rparr>) = Inr own \<and> ow_owned own \<and> ow_pid own = Some 77"
proof -
  let ?env = "flat_env\<lparr>qe_os := (\<lambda>_. Signalled)\<rparr>" and ?d = "(demo_disk [])\<lparr>d_locks := [(''a'', ''77'')]\<rparr>"
  let ?opt = "\<lparr>oo_runs = [demo_run], oo_sessionIds = [], oo_workerSessions = [''s1''], oo_adoptedWorkerSessions = []\<rparr>"
  have "lock_status ?env ''a'' ?d = Some (Live 77)"
    by (simp add: lock_status_def read_lock_def readPrdLockStatus_def demo_disk_def trim_def is_ws_def all_digits_def is_digit_def
        dec_val_def kill0_def max_safe_def Let_def)
  then have "(case resolveRunningPrdOwnership ?env ?opt ''a'' ?d of Inr own \<Rightarrow> ow_owned own | Inl _ \<Rightarrow> False)"
    by (simp add: resolveRunningPrdOwnership_def assertSafePrdId_def demo_run_def runMatchesPrd_def isRunningRun_def)
  then obtain own where own: "resolveRunningPrdOwnership ?env ?opt ''a'' ?d = Inr own" "ow_owned own"
    by (auto split: sum.splits)
  from ownership_is_evidence [OF own] have "ow_pid own = Some 77" by (auto simp: demo_run_def)
  with own show ?thesis by blast
qed

text \<open>
  A requested cancellation is used exactly once: a marker that was written by
  \<open>requestQueuePrdCancellation\<close> and is young enough when the exit of the expected run asks for it is
  returned by \<open>consumeQueuePrdCancellation\<close>, and every later call finds none.
\<close>

theorem cancellation_used_once:
  assumes "requestQueuePrdCancellation i mk d = (d1, Inr mk')" and "mk_prdId mk = i"
    and "parse (mk_requestedAt mk) = Some t" and "t \<le> now" and "now - t \<le> maxAge" and "markerMatchesExpected mk x"
  shows "\<exists>d2. consumeQueuePrdCancellation parse now maxAge x i d1 = (d2, Inr (Some mk)) \<and>
    (\<forall>now' maxAge' x'. consumeQueuePrdCancellation parse now' maxAge' x' i d2 = (d2, Inr None))"
proof -
  have safe: "assertSafePrdId i" "\<not> md_unsafe d"
    using assms(1) by (auto simp: requestQueuePrdCancellation_def Let_def split: if_splits)
  let ?ms = "case md_markers d of None \<Rightarrow> [] | Some ms \<Rightarrow> ms"
  have d1: "d1 = d\<lparr>md_markers := Some (dput i (Marker mk) ?ms)\<rparr>"
    using assms(1) safe by (cases "dget ?ms i") (auto simp: requestQueuePrdCancellation_def Let_def)
  show ?thesis
    using safe assms(2-6) by (simp add: d1 consumeQueuePrdCancellation_def)
qed

definition demo_marker :: marker where
  "demo_marker = \<lparr>mk_prdId = ''a'', mk_reason = None, mk_sessionId = Some ''s1'', mk_runId = None, mk_pid = Some 77, mk_requestedAt = ''t''\<rparr>"

lemma cancellation_used_once_witness:
  "\<exists>d2. consumeQueuePrdCancellation (\<lambda>_. Some 100) 200 default_max_age_ms \<lparr>xr_sessionId = Some ''s1'', xr_runId = None, xr_pid = Some 77\<rparr> ''a''
      (fst (requestQueuePrdCancellation ''a'' demo_marker \<lparr>md_unsafe = False, md_markers = None\<rparr>)) = (d2, Inr (Some demo_marker))"
proof -
  let ?d = "\<lparr>md_unsafe = False, md_markers = None\<rparr>" and ?x = "\<lparr>xr_sessionId = Some ''s1'', xr_runId = None, xr_pid = Some 77\<rparr>"
  have "snd (requestQueuePrdCancellation ''a'' demo_marker ?d) = Inr demo_marker" by code_simp
  then have r: "requestQueuePrdCancellation ''a'' demo_marker ?d = (fst (requestQueuePrdCancellation ''a'' demo_marker ?d), Inr demo_marker)"
    by (metis prod.collapse)
  from cancellation_used_once [OF r, where parse = "\<lambda>_. Some 100" and t = 100 and now = 200 and maxAge = default_max_age_ms and x = ?x]
  show ?thesis by (auto simp: demo_marker_def default_max_age_ms_def markerMatchesExpected_def)
qed

text \<open>
  The exit code contract of a build's process: what \<open>queueExecExitCode\<close> of the child encodes,
  \<open>classifyQueueChildExit\<close> of the parent reads back, when no signal ended the child: the
  same outcome, the claim of another process, and the directory the file goes to.
\<close>

theorem exit_code_read_back:
  "classifyQueueChildExit (Some (queueExecExitCode st reason)) False aborted cancelled =
    (case st of
       Some QCompleted \<Rightarrow> \<lparr>ce_status = ChildCompleted, ce_moveTo = None, ce_cleanup = True\<rparr>
     | Some QSkipped \<Rightarrow>
         if reason = Some ''claimed by another process'' then \<lparr>ce_status = ChildAlreadyClaimed, ce_moveTo = None, ce_cleanup = False\<rparr>
         else if reason = Some ''needs revision'' then \<lparr>ce_status = ChildSkipped, ce_moveTo = None, ce_cleanup = False\<rparr>
         else \<lparr>ce_status = ChildSkipped, ce_moveTo = Some QSkipped, ce_cleanup = False\<rparr>
     | _ \<Rightarrow> \<lparr>ce_status = ChildFailed, ce_moveTo = Some QFailed, ce_cleanup = False\<rparr>)"
proof (cases st)
  case (Some s)
  then show ?thesis by (cases s) (simp_all add: classifyQueueChildExit_def queueExecExitCode_def)
qed (simp add: classifyQueueChildExit_def queueExecExitCode_def)

section \<open>Where the offer and the control differ\<close>

text \<open>A root PRD with a corrupt lock (or a stale one) counts as pending, so hold is offered; the control
  reads the snapshot without clearing the lock and cannot claim the PRD.\<close>

definition corrupt_locked :: world where
  "corrupt_locked = \<lparr>w_disk = (demo_disk [])\<lparr>d_root := Some [(''a'', demo_file [])], d_locks := [(''a'', ''x'')]\<rparr>,
     w_json = [], w_md = []\<rparr>"

lemma dead_lock_refuses_hold:
  "(case loadQueueControlSnapshot flat_env False (w_disk corrupt_locked) of
      (_, Inr sn) \<Rightarrow> map (\<lambda>r. (qr_id r, canHold r)) (sn_records sn) = [(''a'', Allowed)] | _ \<Rightarrow> False) \<and>
   snd (holdQueuedPrd flat_env no_hooks ''t'' ''a'' None corrupt_locked) = Inl (QcError QcConflict) \<and>
   snd (updateQueuedPrdPriority flat_env no_hooks ''a'' 1 corrupt_locked) = Inr QsPending"
  by code_simp

text \<open>A PRD on which only a failed PRD depends: removal is not offered, but accepted.\<close>

definition terminal_dependent :: world where
  "terminal_dependent = \<lparr>w_disk = (demo_disk [])\<lparr>d_root := Some [(''a'', demo_file [])], d_failed := Some [(''b'', demo_file [''a''])]\<rparr>,
     w_json = [], w_md = []\<rparr>"

lemma terminal_dependent_denied_yet_removable:
  "(case loadQueueControlSnapshot flat_env False (w_disk terminal_dependent) of
      (_, Inr sn) \<Rightarrow> map (\<lambda>(i, c). (i, cap_remove c)) (deriveQueueCapabilitiesForSnapshot flat_env sn (\<lambda>_. None)) =
        [(''b'', Allowed), (''a'', Denied DependentRemove)] | _ \<Rightarrow> False) \<and>
   snd (removeQueuedPrd flat_env no_hooks ''a'' terminal_dependent) = Inr (QsPending, [])"
  by code_simp

text \<open>A file that vanishes while its directory is read makes the directory look empty.\<close>

lemma vanished_file_hides_directory:
  "(case loadQueueControlSnapshot (flat_env\<lparr>qe_missing := (\<lambda>i. i = ''b'')\<rparr>) False
      ((demo_disk [(''b'', UnreadableMd), (''c'', demo_file [''a''])])\<lparr>d_root := Some [(''a'', demo_file [])]\<rparr>) of
      (_, Inr sn) \<Rightarrow> map qr_id (sn_records sn) = [''a''] \<and> findCascadeDependents flat_env ''a'' (sn_records sn) = [] | _ \<Rightarrow> False)"
  by code_simp

end
