(* ===== verification/ResumeCascade.thy ===== *)
theory ResumeCascade
  imports QueueControl
begin

text \<open>
  Queue transitions of a resumed build (\<open>queue/resume-cascade.ts\<close>): a failed PRD goes back to the
  queue root and its skipped descendants back to \<open>waiting\<close>, as a sequence of moves that is undone
  when one of them fails. The lemmas show that the descendants are exact, that a blocked
  requeue leaves the files as they were, and that rolling a started resume back restores them.
\<close>

section \<open>Descendants\<close>

text \<open>One round of the worklist: the candidates not seen yet that depend on \<open>current\<close>.\<close>

fun new_dependents :: "prd_id \<Rightarrow> prd_id list \<Rightarrow> queued_prd list \<Rightarrow> prd_id list" where
  "new_dependents current seen [] = []"
| "new_dependents current seen (p # ps) =
     (if q_id p \<in> set seen \<or> current \<notin> set (deps_of (q_fm p)) then new_dependents current seen ps
      else q_id p # new_dependents current (q_id p # seen) ps)"

lemma set_new_dependents:
  "set (new_dependents c seen ps) = {q_id p | p. p \<in> set ps \<and> c \<in> set (deps_of (q_fm p)) \<and> q_id p \<notin> set seen}"
  by (induction c seen ps rule: new_dependents.induct) auto

lemma distinct_new_dependents: "distinct (new_dependents c seen ps)"
  by (induction c seen ps rule: new_dependents.induct) (auto simp: set_new_dependents)

function descend_loop :: "queued_prd list \<Rightarrow> prd_id list \<Rightarrow> prd_id list \<Rightarrow> prd_id list" where
  "descend_loop cands seen [] = []"
| "descend_loop cands seen (current # pending) =
     (let found = new_dependents current seen cands
      in found @ descend_loop cands (seen @ found) (pending @ found))"
  by pat_completeness auto
termination
proof (relation "measures [\<lambda>(cands, seen, _). card (q_id ` set cands - set seen), \<lambda>(_, _, pending). length pending]",
    goal_cases)
  case (2 cands seen current pending found)
  show ?case
  proof (cases found)
    case (Cons j js)
    have "j \<in> set found" using Cons by simp
    then have "j \<in> q_id ` set cands - set seen" unfolding 2 set_new_dependents by auto
    then have "card (q_id ` set cands - set (seen @ found)) < card (q_id ` set cands - set seen)"
      by (intro psubset_card_mono) (use \<open>j \<in> set found\<close> in auto)
    then show ?thesis by simp
  qed simp
qed simp

definition findDescendantIds :: "prd_id \<Rightarrow> queued_prd list \<Rightarrow> prd_id list" where
  "findDescendantIds rootId cands = descend_loop cands [rootId] [rootId]"

definition depends_edges :: "queued_prd list \<Rightarrow> (prd_id \<times> prd_id) set" where
  "depends_edges ps = {(u, q_id p) | u p. p \<in> set ps \<and> u \<in> set (deps_of (q_fm p))}"

lemma new_dependents_edges:
  "set (new_dependents c seen ps) = {j. (c, j) \<in> depends_edges ps} - set seen"
  by (auto simp: set_new_dependents depends_edges_def)

lemma descend_loop_disjoint: "set (descend_loop cands seen pending) \<inter> set seen = {} \<and> distinct (descend_loop cands seen pending)"
proof (induction cands seen pending rule: descend_loop.induct)
  case (2 cands seen current pending)
  let ?f = "new_dependents current seen cands"
  from 2 [OF refl] have ih: "set (descend_loop cands (seen @ ?f) (pending @ ?f)) \<inter> set (seen @ ?f) = {}"
    "distinct (descend_loop cands (seen @ ?f) (pending @ ?f))" by auto
  moreover have "set ?f \<inter> set seen = {}" by (auto simp: new_dependents_edges)
  ultimately show ?case by (auto simp: Let_def distinct_new_dependents)
qed simp

lemma descend_loop_sound:
  "set pending \<subseteq> R \<Longrightarrow> \<forall>(u, v) \<in> depends_edges cands. u \<in> R \<longrightarrow> v \<in> R \<Longrightarrow>
   set (descend_loop cands seen pending) \<subseteq> R"
proof (induction cands seen pending rule: descend_loop.induct)
  case (2 cands seen current pending)
  let ?f = "new_dependents current seen cands"
  have "set ?f \<subseteq> R" using 2(2,3) by (auto simp: new_dependents_edges)
  moreover from this have "set (pending @ ?f) \<subseteq> R" using 2(2) by auto
  then have "set (descend_loop cands (seen @ ?f) (pending @ ?f)) \<subseteq> R"
    using 2(1) [OF refl _ 2(3)] by simp
  ultimately show ?case by (simp add: Let_def)
qed simp

lemma descend_loop_closed:
  "\<forall>(u, v) \<in> depends_edges cands. u \<in> set seen \<longrightarrow> u \<notin> set pending \<longrightarrow> v \<in> set seen \<Longrightarrow> set pending \<subseteq> set seen \<Longrightarrow>
   (u, v) \<in> depends_edges cands \<Longrightarrow> u \<in> set seen \<union> set (descend_loop cands seen pending) \<Longrightarrow>
   v \<in> set seen \<union> set (descend_loop cands seen pending)"
proof (induction cands seen pending rule: descend_loop.induct)
  case (2 cands seen current pending)
  let ?f = "new_dependents current seen cands"
  have closed: "\<forall>(u, v) \<in> depends_edges cands. u \<in> set (seen @ ?f) \<longrightarrow> u \<notin> set (pending @ ?f) \<longrightarrow> v \<in> set (seen @ ?f)"
    using 2(2) by (auto simp: new_dependents_edges)
  have sub: "set (pending @ ?f) \<subseteq> set (seen @ ?f)" using 2(3) by auto
  from 2(5) have "u \<in> set (seen @ ?f) \<union> set (descend_loop cands (seen @ ?f) (pending @ ?f))"
    by (auto simp: Let_def)
  from 2(1) [OF refl closed sub 2(4) this] show ?case by (auto simp: Let_def)
qed auto

text \<open>The descendants are the PRDs that depend on the root transitively.\<close>

lemma findDescendantIds_exact:
  "set (findDescendantIds i ps) = {j. (i, j) \<in> (depends_edges ps)\<^sup>+} - {i}"
proof
  show "set (findDescendantIds i ps) \<subseteq> {j. (i, j) \<in> (depends_edges ps)\<^sup>+} - {i}"
  proof
    fix j assume j: "j \<in> set (findDescendantIds i ps)"
    have "set (findDescendantIds i ps) \<subseteq> {j. (i, j) \<in> (depends_edges ps)\<^sup>*}"
      unfolding findDescendantIds_def
      by (rule descend_loop_sound) (auto intro: rtrancl_into_rtrancl)
    moreover have "j \<noteq> i"
      using j descend_loop_disjoint [of ps "[i]" "[i]"] by (auto simp: findDescendantIds_def)
    ultimately show "j \<in> {j. (i, j) \<in> (depends_edges ps)\<^sup>+} - {i}"
      using j by (auto simp: rtrancl_eq_or_trancl)
  qed
  show "{j. (i, j) \<in> (depends_edges ps)\<^sup>+} - {i} \<subseteq> set (findDescendantIds i ps)"
  proof
    fix j assume "j \<in> {j. (i, j) \<in> (depends_edges ps)\<^sup>+} - {i}"
    then have ij: "(i, j) \<in> (depends_edges ps)\<^sup>+" and ne: "j \<noteq> i" by auto
    from ij have "j \<in> set [i] \<union> set (findDescendantIds i ps)"
    proof (induction rule: trancl_induct)
      case (base y)
      then show ?case unfolding findDescendantIds_def by (rule_tac descend_loop_closed) auto
    next
      case (step y z)
      show ?case unfolding findDescendantIds_def
        by (rule descend_loop_closed [OF _ _ step(2)]) (use step(3) in \<open>auto simp: findDescendantIds_def\<close>)
    qed
    with ne show "j \<in> set (findDescendantIds i ps)" by simp
  qed
qed

lemma distinct_findDescendantIds: "distinct (findDescendantIds i ps)"
  unfolding findDescendantIds_def using descend_loop_disjoint by blast

section \<open>Surroundings\<close>

text \<open>
  \<open>re_fails s t i\<close>: linking or unlinking the file of PRD \<open>i\<close> from \<open>s\<close> to \<open>t\<close> fails; in both cases no
  file is left at the target. \<open>None\<close> as a result is a thrown error.
\<close>

record resume_env =
  re_pid :: nat
  re_now :: string
  re_fails :: "qloc \<Rightarrow> qloc \<Rightarrow> prd_id \<Rightarrow> bool"
  re_release_ok :: "prd_id \<Rightarrow> bool"
  re_registry :: "reg_error option"

type_synonym 'a resume_act = "world \<times> 'a option"

definition unsafePrdIdReason :: "prd_id \<Rightarrow> bool" where
  "unsafePrdIdReason i \<longleftrightarrow>
     i = [] \<or> i = ''.'' \<or> i = ''..'' \<or>
     CHR ''/'' \<in> set i \<or> CHR 0x5C \<in> set i \<or> has_dotdot i \<or> CHR 0x00 \<in> set i"

datatype resume_reason =
    UnsafeResumeId
  | RootConflict
  | NoFailedPrd
  | SourceMissing prd_id
  | TargetExists prd_id
  | AlreadyLocked
  | MoveFailed
  | NoBuiltArtifact
  | FailedTargetExists

record resume_snap =
  rs_queue :: "queued_prd list"
  rs_waiting :: "queued_prd list"
  rs_failed :: "queued_prd list"
  rs_skipped :: "queued_prd list"

definition loadResumeQueueSnapshot :: "world \<Rightarrow> resume_snap option" where
  "loadResumeQueueSnapshot w =
     (case (loadQueue RootDir (w_disk w), loadQueue WaitingDir (w_disk w),
            loadQueue FailedDir (w_disk w), loadQueue SkippedDir (w_disk w)) of
        (Inr queue, Inr waiting, Inr failed, Inr skipped) \<Rightarrow>
          Some \<lparr>rs_queue = queue, rs_waiting = waiting, rs_failed = failed, rs_skipped = skipped\<rparr>
      | _ \<Rightarrow> None)"

section \<open>Moves\<close>

type_synonym q_move = "qloc \<times> qloc \<times> prd_id"

fun preflightMoves :: "q_move list \<Rightarrow> qdisk \<Rightarrow> resume_reason option" where
  "preflightMoves [] d = None"
| "preflightMoves ((source, target, i) # moves) d =
     (if \<not> file_exists source i d then Some (SourceMissing i)
      else if file_exists target i d then Some (TargetExists i)
      else preflightMoves moves d)"

definition moveNoOverwrite :: "resume_env \<Rightarrow> q_move \<Rightarrow> qdisk \<Rightarrow> qdisk \<times> bool" where
  "moveNoOverwrite env m d =
     (case m of (source, target, i) \<Rightarrow>
        let d1 = mkdirp target d in
        case dget (entries source d1) i of
          None \<Rightarrow> (d1, False)
        | Some f \<Rightarrow>
            if file_exists target i d1 \<or> re_fails env source target i then (d1, False)
            else (let d2 = set_dir target (Some (entries target d1 @ [(i, f)])) d1
                  in (set_dir source (Some (ddel i (entries source d2))) d2, True)))"

text \<open>The moves up to the first that fails; the applied ones are returned.\<close>

fun apply_moves :: "resume_env \<Rightarrow> q_move list \<Rightarrow> qdisk \<Rightarrow> qdisk \<times> q_move list \<times> bool" where
  "apply_moves env [] d = (d, [], True)"
| "apply_moves env (m # ms) d =
     (case moveNoOverwrite env m d of
        (d1, False) \<Rightarrow> (d1, [], False)
      | (d1, True) \<Rightarrow> (case apply_moves env ms d1 of (d2, applied, ok) \<Rightarrow> (d2, m # applied, ok)))"

fun undo_moves :: "resume_env \<Rightarrow> q_move list \<Rightarrow> qdisk \<Rightarrow> qdisk \<times> bool" where
  "undo_moves env [] d = (d, True)"
| "undo_moves env ((source, target, i) # moves) d =
     (if \<not> file_exists target i d then undo_moves env moves d
      else if file_exists source i d then (d, False)
      else case moveNoOverwrite env (target, source, i) d of
             (d1, False) \<Rightarrow> (d1, False)
           | (d1, True) \<Rightarrow> undo_moves env moves d1)"

definition rollbackAppliedMoves :: "resume_env \<Rightarrow> q_move list \<Rightarrow> qdisk \<Rightarrow> qdisk \<times> bool" where
  "rollbackAppliedMoves env applied d = undo_moves env (rev applied) d"

definition release_resume :: "resume_env \<Rightarrow> prd_id \<Rightarrow> 'a \<Rightarrow> world \<Rightarrow> 'a resume_act" where
  "release_resume env i x w =
     (if re_release_ok env i then (on_disk (\<lambda>d. d\<lparr>d_locks := releasePrd i (d_locks d)\<rparr>) w, Some x) else (w, None))"

definition find_prd_id :: "prd_id \<Rightarrow> queued_prd list \<Rightarrow> queued_prd option" where
  "find_prd_id i ps = List.find (\<lambda>p. q_id p = i) ps"

text \<open>The move of the failed parent to the root, then of its skipped descendants to \<open>waiting\<close>.\<close>

definition resume_moves :: "prd_id \<Rightarrow> prd_id list \<Rightarrow> q_move list" where
  "resume_moves i descendantIds =
     (FailedDir, RootDir, i) # map (\<lambda>j. (SkippedDir, WaitingDir, j)) descendantIds"

section \<open>Requeue for a compiled resume\<close>

record requeue_opts =
  ro_prdId :: prd_id
  ro_setName :: string
  ro_featureBranch :: string
  ro_baseBranch :: string
  ro_profileOverride :: "string option"

datatype requeue_result = RequeueQueued "prd_id list" | AlreadyQueued | RequeueBlocked resume_reason

datatype requeue_preflight = RequeueReady queued_prd "prd_id list" "q_move list" | RequeueDecided requeue_result

definition compiledResumeMatches :: "queued_prd \<Rightarrow> requeue_opts \<Rightarrow> bool" where
  "compiledResumeMatches prd opt =
     (case getCompiledResumeFrontmatter (q_fm prd) of
        Inr (Some (source, setName, feature, base)) \<Rightarrow>
          source = ro_prdId opt \<and> setName = ro_setName opt \<and> feature = ro_featureBranch opt \<and> base = ro_baseBranch opt
      | _ \<Rightarrow> False)"

definition preflightRequeueFailedPrdForCompiledResume ::
    "requeue_opts \<Rightarrow> world \<Rightarrow> requeue_preflight option" where
  "preflightRequeueFailedPrdForCompiledResume opt w =
     (let i = ro_prdId opt in
      if unsafePrdIdReason i then Some (RequeueDecided (RequeueBlocked UnsafeResumeId))
      else case loadResumeQueueSnapshot w of
             None \<Rightarrow> None
           | Some sn \<Rightarrow>
               Some (case find_prd_id i (rs_queue sn) of
                  Some root \<Rightarrow>
                    RequeueDecided (if compiledResumeMatches root opt then AlreadyQueued else RequeueBlocked RootConflict)
                | None \<Rightarrow>
                    (case find_prd_id i (rs_failed sn) of
                       None \<Rightarrow> RequeueDecided (RequeueBlocked NoFailedPrd)
                     | Some parent \<Rightarrow>
                         (let descendantIds = findDescendantIds i (rs_skipped sn); moves = resume_moves i descendantIds
                          in case preflightMoves moves (w_disk w) of
                               Some reason \<Rightarrow> RequeueDecided (RequeueBlocked reason)
                             | None \<Rightarrow> RequeueReady parent descendantIds moves))))"

text \<open>The frontmatter of the resumed PRD, and what the frontmatter writer accepts.\<close>

definition resume_patch :: "requeue_opts \<Rightarrow> prd_fm \<Rightarrow> prd_fm" where
  "resume_patch opt fm =
     (let fm1 = fm\<lparr>fm_resume_mode := True, fm_resume_from := Some (ro_prdId opt),
                   fm_resume_set_name := Some (ro_setName opt),
                   fm_resume_feature_branch := Some (ro_featureBranch opt),
                   fm_resume_base_branch := Some (ro_baseBranch opt)\<rparr>
      in case ro_profileOverride opt of None \<Rightarrow> fm1 | Some p \<Rightarrow> fm1\<lparr>fm_profile := Some p\<rparr>)"

definition patch_ok :: "requeue_opts \<Rightarrow> bool" where
  "patch_ok opt \<longleftrightarrow>
     (\<forall>s \<in> set [ro_prdId opt, ro_setName opt, ro_featureBranch opt, ro_baseBranch opt]. s \<noteq> [] \<and> \<not> has_control s) \<and>
     (case ro_profileOverride opt of None \<Rightarrow> True | Some p \<Rightarrow> \<not> has_control p)"

text \<open>\<open>writeFile\<close> in a directory that exists.\<close>

definition write_fm :: "qloc \<Rightarrow> prd_id \<Rightarrow> prd_fm \<Rightarrow> qdisk \<Rightarrow> qdisk" where
  "write_fm l i fm d = set_dir l (Some (dput i (Prd fm) (entries l d))) d"

text \<open>After a failed move: undo, then put the original text back where the parent is.\<close>

definition requeue_undo :: "resume_env \<Rightarrow> queued_prd \<Rightarrow> q_move list \<Rightarrow> qdisk \<Rightarrow> qdisk" where
  "requeue_undo env parent applied d =
     (let d1 = fst (rollbackAppliedMoves env applied d); i = q_id parent in
      if file_exists FailedDir i d1 then write_fm FailedDir i (q_fm parent) d1
      else if applied \<noteq> [] \<and> file_exists RootDir i d1 then write_fm RootDir i (q_fm parent) d1
      else d1)"

definition requeueFailedPrdForCompiledResume ::
    "resume_env \<Rightarrow> requeue_opts \<Rightarrow> world \<Rightarrow> requeue_result resume_act" where
  "requeueFailedPrdForCompiledResume env opt w =
     (let i = ro_prdId opt in
      case preflightRequeueFailedPrdForCompiledResume opt w of
        None \<Rightarrow> (w, None)
      | Some (RequeueDecided r) \<Rightarrow>
          (case (r, ro_profileOverride opt) of
             (AlreadyQueued, Some profile) \<Rightarrow>
               (case loadResumeQueueSnapshot w of
                  None \<Rightarrow> (w, None)
                | Some sn \<Rightarrow>
                    (case find_prd_id i (rs_queue sn) of
                       None \<Rightarrow> (w, Some r)
                     | Some root \<Rightarrow>
                         if fm_profile (q_fm root) = Some profile then (w, Some r)
                         else if has_control profile then (w, None)
                         else (on_disk (write_fm RootDir i ((q_fm root)\<lparr>fm_profile := Some profile\<rparr>)) w, Some r)))
           | _ \<Rightarrow> (w, Some r))
      | Some (RequeueReady parent descendantIds moves) \<Rightarrow>
          if \<not> patch_ok opt then (w, None)
          else (let d1 = mkdirp RootDir (write_fm FailedDir i (resume_patch opt (q_fm parent)) (w_disk w)) in
                case apply_moves env moves d1 of
                  (d2, applied, True) \<Rightarrow> release_resume env i (RequeueQueued descendantIds) (w\<lparr>w_disk := d2\<rparr>)
                | (d2, applied, False) \<Rightarrow>
                    (w\<lparr>w_disk := requeue_undo env parent applied d2\<rparr>, Some (RequeueBlocked MoveFailed))))"

section \<open>Begin, finish and roll back a queued resume\<close>

datatype resume_result =
    ResumeNoop
  | ResumeStarted "prd_id list"
  | ResumeCompleted "prd_id list"
  | ResumeRolledBack "prd_id list"
  | ResumeBlocked resume_reason

definition beginQueuedResume :: "resume_env \<Rightarrow> prd_id \<Rightarrow> world \<Rightarrow> resume_result resume_act" where
  "beginQueuedResume env i w =
     (if unsafePrdIdReason i then (w, Some (ResumeBlocked UnsafeResumeId))
      else case loadResumeQueueSnapshot w of
             None \<Rightarrow> (w, None)
           | Some sn \<Rightarrow>
               (case find_prd_id i (rs_failed sn) of
                  None \<Rightarrow> (w, Some ResumeNoop)
                | Some parent \<Rightarrow>
                    (let descendantIds = findDescendantIds i (rs_skipped sn); moves = resume_moves i descendantIds in
                     case preflightMoves moves (w_disk w) of
                       Some reason \<Rightarrow> (w, Some (ResumeBlocked reason))
                     | None \<Rightarrow>
                         (case claimPrd (re_pid env) i (d_locks (w_disk w)) of
                            (_, False) \<Rightarrow> (w, Some (ResumeBlocked AlreadyLocked))
                          | (locks, True) \<Rightarrow>
                              (case apply_moves env moves (mkdirp RootDir ((w_disk w)\<lparr>d_locks := locks\<rparr>)) of
                                 (d2, applied, True) \<Rightarrow> (w\<lparr>w_disk := d2\<rparr>, Some (ResumeStarted descendantIds))
                               | (d2, applied, False) \<Rightarrow>
                                   (case rollbackAppliedMoves env applied d2 of
                                      (d3, True) \<Rightarrow> release_resume env i (ResumeBlocked MoveFailed) (w\<lparr>w_disk := d3\<rparr>)
                                    | (d3, False) \<Rightarrow>
                                        (case release_resume env i () (w\<lparr>w_disk := d3\<rparr>) of (w4, _) \<Rightarrow> (w4, None))))))))"

text \<open>\<open>rm\<close> with \<open>force\<close>: a missing file or directory is no error.\<close>

definition rm_force :: "qloc \<Rightarrow> prd_id \<Rightarrow> qdisk \<Rightarrow> qdisk" where
  "rm_force l i d = (case dir_of l d of None \<Rightarrow> d | Some es \<Rightarrow> set_dir l (Some (ddel i es)) d)"

definition finalizeQueuedResumeSuccess :: "resume_env \<Rightarrow> prd_id \<Rightarrow> world \<Rightarrow> resume_result resume_act" where
  "finalizeQueuedResumeSuccess env i w =
     (if unsafePrdIdReason i then (w, Some (ResumeBlocked UnsafeResumeId))
      else case loadArtifactRegistry (d_artifacts (w_disk w)) of
             Inl _ \<Rightarrow> (w, None)
           | Inr registry \<Rightarrow>
               (case lookupArtifactByPrdId registry i of
                  None \<Rightarrow> (w, Some (ResumeBlocked NoBuiltArtifact))
                | Some artifact \<Rightarrow>
                    if ar_status artifact \<noteq> Built then (w, Some (ResumeBlocked NoBuiltArtifact))
                    else (case (re_registry env, loadCompletionRegistry (d_completions (w_disk w))) of
                            (None, Inr cs) \<Rightarrow>
                              (let c = \<lparr>co_prdId = i, co_status = CCompleted, co_artifactAvailable = True,
                                        co_artifactBranch = Some (ar_artifactBranch artifact),
                                        co_completedAt = re_now env, co_updatedAt = re_now env\<rparr>;
                                   d1 = (w_disk w)\<lparr>d_completions := Json (upsertCompletion (re_now env) c cs)\<rparr>;
                                   d2 = rm_force FailedDir i (rm_force RootDir i d1);
                                   w2 = w\<lparr>w_disk := d2, w_md := removeAll i (w_md w), w_json := ddel i (w_json w)\<rparr>
                               in case release_resume env i () w2 of
                                    (w3, None) \<Rightarrow> (w3, None)
                                  | (w3, Some _) \<Rightarrow>
                                      (case unblockWaiting i True (w_disk w3) of
                                         Inl (_, d4) \<Rightarrow> (w3\<lparr>w_disk := d4\<rparr>, None)
                                       | Inr (d4, unblocked) \<Rightarrow> (w3\<lparr>w_disk := d4\<rparr>, Some (ResumeCompleted unblocked))))
                          | _ \<Rightarrow> (w, None))))"

text \<open>The root file back to \<open>failed\<close> when there is one; the result is whether the move worked.\<close>

definition return_root :: "resume_env \<Rightarrow> prd_id \<Rightarrow> bool \<Rightarrow> qdisk \<Rightarrow> qdisk \<times> bool" where
  "return_root env i rootExists d =
     (if rootExists then moveNoOverwrite env (RootDir, FailedDir, i) (mkdirp FailedDir d) else (d, True))"

definition rollbackQueuedResume :: "resume_env \<Rightarrow> prd_id \<Rightarrow> world \<Rightarrow> resume_result resume_act" where
  "rollbackQueuedResume env i w =
     (if unsafePrdIdReason i then (w, Some (ResumeBlocked UnsafeResumeId))
      else case loadResumeQueueSnapshot w of
             None \<Rightarrow> (w, None)
           | Some sn \<Rightarrow>
               (let rootExists = file_exists RootDir i (w_disk w) in
                if rootExists \<and> file_exists FailedDir i (w_disk w)
                then release_resume env i (ResumeBlocked FailedTargetExists) w
                else
                  (let descendantIds = findDescendantIds i (rs_waiting sn);
                       moves = map (\<lambda>j. (WaitingDir, SkippedDir, j)) descendantIds
                   in case return_root env i rootExists (w_disk w) of
                        (d1, False) \<Rightarrow> (w\<lparr>w_disk := d1\<rparr>, None)
                      | (d1, True) \<Rightarrow>
                          (case preflightMoves moves (w_disk w) of
                             Some reason \<Rightarrow> release_resume env i (ResumeBlocked reason) (w\<lparr>w_disk := d1\<rparr>)
                           | None \<Rightarrow>
                               (case apply_moves env moves (mkdirp SkippedDir d1) of
                                  (d2, applied, False) \<Rightarrow> (w\<lparr>w_disk := d2\<rparr>, None)
                                | (d2, applied, True) \<Rightarrow>
                                    release_resume env i (ResumeRolledBack descendantIds) (w\<lparr>w_disk := d2\<rparr>))))))"

section \<open>The files a sequence of moves leaves\<close>

text \<open>The directories as one function, and everything else on the disk.\<close>

definition files :: "qdisk \<Rightarrow> qloc \<times> prd_id \<Rightarrow> md_file option" where
  "files d = (\<lambda>(l, i). dget (entries l d) i)"

definition rest :: "qdisk \<Rightarrow> lock_dir \<times> artifact list reg_file \<times> completions reg_file" where
  "rest d = (d_locks d, d_artifacts d, d_completions d)"

lemma files_apply: "files d (l, i) = dget (entries l d) i"
  by (simp add: files_def)

lemma file_exists_files: "file_exists l i d \<longleftrightarrow> files d (l, i) \<noteq> None"
  by (simp add: files_apply file_exists_iff)

lemma files_mkdirp [simp]: "files (mkdirp l d) = files d" and rest_mkdirp [simp]: "rest (mkdirp l d) = rest d"
  by (simp_all add: files_def rest_def)

lemma rest_set_dir [simp]: "rest (set_dir l x d) = rest d"
  by (cases l) (simp_all add: rest_def set_dir_def)

lemma files_set_dir: "files (set_dir l (Some es) d) = (\<lambda>(l', i). if l' = l then dget es i else files d (l', i))"
  by (auto simp: files_def)

lemma files_locks [simp]: "files (d\<lparr>d_locks := L\<rparr>) = files d"
  by (simp add: files_def)

lemma files_write_fm: "files (write_fm l i fm d) = (files d)((l, i) := Some (Prd fm))"
  by (auto simp: write_fm_def files_set_dir fun_eq_iff files_apply)

lemma rest_write_fm [simp]: "rest (write_fm l i fm d) = rest d"
  by (simp add: write_fm_def)

definition moved :: "q_move \<Rightarrow> (qloc \<times> prd_id \<Rightarrow> md_file option) \<Rightarrow> qloc \<times> prd_id \<Rightarrow> md_file option" where
  "moved m F = (case m of (s, t, i) \<Rightarrow> F((t, i) := F (s, i), (s, i) := None))"

definition can_move :: "resume_env \<Rightarrow> q_move \<Rightarrow> (qloc \<times> prd_id \<Rightarrow> md_file option) \<Rightarrow> bool" where
  "can_move env m F \<longleftrightarrow>
     (case m of (s, t, i) \<Rightarrow> F (s, i) \<noteq> None \<and> F (t, i) = None \<and> \<not> re_fails env s t i)"

definition proper :: "q_move \<Rightarrow> bool" where
  "proper m \<longleftrightarrow> fst m \<noteq> fst (snd m)"

lemma move_files:
  assumes "moveNoOverwrite env m d = (d', ok)" "proper m"
  shows "ok = can_move env m (files d)" "files d' = (if ok then moved m (files d) else files d)" "rest d' = rest d"
  using assms
  by (auto simp: moveNoOverwrite_def can_move_def moved_def proper_def Let_def file_exists_files files_set_dir
      files_apply fun_eq_iff map_add_def split: prod.splits option.splits if_splits)

lemma undo_append:
  "undo_moves env (xs @ ys) d =
     (case undo_moves env xs d of (d1, True) \<Rightarrow> undo_moves env ys d1 | (d1, False) \<Rightarrow> (d1, False))"
  by (induction env xs d rule: undo_moves.induct) (auto split: prod.splits bool.splits)

definition reverse_ok :: "resume_env \<Rightarrow> q_move list \<Rightarrow> bool" where
  "reverse_ok env ms \<longleftrightarrow> (\<forall>(s, t, i) \<in> set ms. \<not> re_fails env t s i)"

text \<open>Undoing what was applied gives the files back.\<close>

lemma undo_applied:
  "apply_moves env ms d = (d', applied, ok) \<Longrightarrow> \<forall>m \<in> set ms. proper m \<Longrightarrow> reverse_ok env ms \<Longrightarrow>
   files d' = files d0 \<Longrightarrow> rest d' = rest d0 \<Longrightarrow>
   \<exists>d''. undo_moves env (rev applied) d0 = (d'', True) \<and> files d'' = files d \<and> rest d'' = rest d"
proof (induction env ms d arbitrary: d' applied ok d0 rule: apply_moves.induct)
  case (2 env m ms d)
  obtain d1 ok1 where m: "moveNoOverwrite env m d = (d1, ok1)" by (rule prod.exhaust)
  have p: "proper m" using 2(3) by simp
  note f = move_files [OF m p]
  show ?case
  proof (cases ok1)
    case False
    with 2(2) m have "d' = d1" "applied = []" by auto
    with f False 2(5,6) show ?thesis by simp
  next
    case True
    obtain d2 ap2 ok2 where r: "apply_moves env ms d1 = (d2, ap2, ok2)" by (rule prod_cases3)
    with True 2(2) m have e: "d' = d2" "applied = m # ap2" by auto
    obtain d3 where d3: "undo_moves env (rev ap2) d0 = (d3, True)" "files d3 = files d1" "rest d3 = rest d1"
      using 2(1) [OF m [symmetric] _ r, of d0] True 2(3,4,5,6) e(1) by (auto simp: reverse_ok_def)
    obtain s t i where mst: "m = (s, t, i)" by (rule prod_cases3)
    obtain g where g: "files d (s, i) = Some g" "files d (t, i) = None"
      using True f(1) by (auto simp: can_move_def mst)
    obtain d4 ok4 where undo: "moveNoOverwrite env (t, s, i) d3 = (d4, ok4)" by (rule prod.exhaust)
    have "s \<noteq> t" using p by (simp add: proper_def mst)
    then have pb: "proper (t, s, i)" by (simp add: proper_def)
    note fb = move_files [OF undo pb]
    have d1f: "files d1 = (files d)((t, i) := Some g, (s, i) := None)" using f(2) True g by (simp add: moved_def mst)
    have ok4: ok4
      using fb(1) d3(2) d1f \<open>s \<noteq> t\<close> 2(4) by (simp add: can_move_def reverse_ok_def mst)
    have "files d4 = files d"
      using fb(2) ok4 d3(2) d1f g \<open>s \<noteq> t\<close> by (auto simp: moved_def fun_eq_iff)
    moreover have "rest d4 = rest d" using fb(3) d3(3) f(3) by simp
    moreover have "undo_moves env (rev applied) d0 = (d4, True)"
      using d3 undo ok4 d1f \<open>s \<noteq> t\<close> by (simp add: e(2) undo_append mst file_exists_files)
    ultimately show ?thesis by blast
  qed
qed auto

lemma find_prd_file:
  assumes "loadQueue l d = Inr ps" "find_prd_id i ps = Some p" "distinct (ids_in l d)"
  shows "q_id p = i \<and> files d (l, i) = Some (Prd (q_fm p))"
proof -
  obtain fm where fm: "(i, Prd fm) \<in> set (entries l d)" "p = \<lparr>q_id = i, q_loc = l, q_fm = fm\<rparr>"
    by (rule find_loaded [OF assms(1) assms(2) [unfolded find_prd_id_def]])
  with assms(3) have "dget (entries l d) i = Some (Prd fm)" by (simp add: ids_in_def)
  with fm(2) show ?thesis by (simp add: files_apply)
qed

lemma proper_resume_moves: "\<forall>m \<in> set (resume_moves i js). proper m"
  by (auto simp: resume_moves_def proper_def)

definition undo_works :: "resume_env \<Rightarrow> bool" where
  "undo_works env \<longleftrightarrow> (\<forall>j. \<not> re_fails env RootDir FailedDir j \<and> \<not> re_fails env WaitingDir SkippedDir j)"

lemma reverse_ok_resume_moves: "undo_works env \<Longrightarrow> reverse_ok env (resume_moves i js)"
  by (auto simp: undo_works_def reverse_ok_def resume_moves_def)

definition same_files :: "world \<Rightarrow> world \<Rightarrow> bool" where
  "same_files w w' \<longleftrightarrow>
     files (w_disk w') = files (w_disk w) \<and> rest (w_disk w') = rest (w_disk w) \<and> w_json w' = w_json w \<and> w_md w' = w_md w"

lemma snapshot_lists:
  "loadResumeQueueSnapshot w = Some sn \<Longrightarrow>
   loadQueue RootDir (w_disk w) = Inr (rs_queue sn) \<and> loadQueue WaitingDir (w_disk w) = Inr (rs_waiting sn) \<and>
   loadQueue FailedDir (w_disk w) = Inr (rs_failed sn) \<and> loadQueue SkippedDir (w_disk w) = Inr (rs_skipped sn)"
  by (auto simp: loadResumeQueueSnapshot_def split: sum.splits)

lemma preflight_ready:
  assumes "preflightRequeueFailedPrdForCompiledResume opt w = Some (RequeueReady parent ids moves)"
    and "distinct (ids_in FailedDir (w_disk w))"
  shows "q_id parent = ro_prdId opt" "files (w_disk w) (FailedDir, ro_prdId opt) = Some (Prd (q_fm parent))"
    "moves = resume_moves (ro_prdId opt) ids" "preflightMoves moves (w_disk w) = None"
    "\<exists>skipped. loadQueue SkippedDir (w_disk w) = Inr skipped \<and> ids = findDescendantIds (ro_prdId opt) skipped"
  using assms find_prd_file [of FailedDir "w_disk w" _ "ro_prdId opt"]
  by (auto simp: preflightRequeueFailedPrdForCompiledResume_def Let_def split: if_splits option.splits dest!: snapshot_lists)

text \<open>
  A requeue that is blocked changes nothing: when \<open>requeueFailedPrdForCompiledResume\<close> answers
  that it is blocked, also after some of its moves were made, every file is where it was with
  the text it had, provided undoing a move does not fail.
\<close>

theorem blocked_requeue_restores:
  assumes blocked: "requeueFailedPrdForCompiledResume env opt w = (w', Some (RequeueBlocked r))"
    and names: "distinct (ids_in FailedDir (w_disk w))" and undo: "undo_works env"
  shows "same_files w w'"
proof (cases "preflightRequeueFailedPrdForCompiledResume opt w")
  case (Some pre)
  show ?thesis
  proof (cases pre)
    case (RequeueDecided r')
    with blocked Some show ?thesis
      by (auto simp: requeueFailedPrdForCompiledResume_def Let_def same_files_def
          split: requeue_result.splits option.splits if_splits)
  next
    case (RequeueReady parent ids moves)
    note ready = preflight_ready [OF Some [unfolded RequeueReady] names]
    let ?i = "ro_prdId opt"
    let ?d1 = "mkdirp RootDir (write_fm FailedDir ?i (resume_patch opt (q_fm parent)) (w_disk w))"
    obtain d2 applied ok where a: "apply_moves env moves ?d1 = (d2, applied, ok)" by (rule prod_cases3)
    have "patch_ok opt" and "\<not> ok" and w': "w' = w\<lparr>w_disk := requeue_undo env parent applied d2\<rparr>"
      using blocked Some a
      by (auto simp: requeueFailedPrdForCompiledResume_def Let_def RequeueReady release_resume_def split: if_splits bool.splits)
    obtain d3 where d3: "undo_moves env (rev applied) d2 = (d3, True)" "files d3 = files ?d1" "rest d3 = rest ?d1"
      using undo_applied [OF a _ _ refl refl] ready(3) proper_resume_moves reverse_ok_resume_moves [OF undo] by auto
    have "requeue_undo env parent applied d2 = write_fm FailedDir ?i (q_fm parent) d3"
      using d3(1,2) ready(1) by (simp add: requeue_undo_def rollbackAppliedMoves_def file_exists_files files_write_fm Let_def)
    moreover have "files (write_fm FailedDir ?i (q_fm parent) d3) = files (w_disk w)"
      using d3(2) ready(2) by (auto simp: files_write_fm fun_eq_iff)
    ultimately show ?thesis using d3(3) by (simp add: same_files_def w')
  qed
qed (use blocked in \<open>simp add: requeueFailedPrdForCompiledResume_def\<close>)

section \<open>Starting a resume and rolling it back\<close>

definition names :: "qdisk \<Rightarrow> bool" where
  "names d \<longleftrightarrow> (\<forall>l \<in> {RootDir, WaitingDir, FailedDir, SkippedDir}. distinct (ids_in l d))"

lemma namesD: "names d \<Longrightarrow> distinct (ids_in l d)"
  using qloc_all [of l] by (auto simp: names_def)

lemma namesI: "(\<And>l. distinct (ids_in l d)) \<Longrightarrow> names d"
  by (simp add: names_def)

lemma names_mkdirp [simp]: "names (mkdirp l d) = names d" and names_locks [simp]: "names (d\<lparr>d_locks := L\<rparr>) = names d"
  by (simp_all add: names_def ids_in_def)

lemma names_move: "names d \<Longrightarrow> moveNoOverwrite env m d = (d', ok) \<Longrightarrow> names d'"
  by (auto simp: moveNoOverwrite_def Let_def names_def ids_in_def file_exists_def distinct_dkeys_ddel
      split: prod.splits option.splits if_splits)

definition file_edges :: "qloc \<Rightarrow> (qloc \<times> prd_id \<Rightarrow> md_file option) \<Rightarrow> (prd_id \<times> prd_id) set" where
  "file_edges l F = {(u, j). \<exists>fm. F (l, j) = Some (Prd fm) \<and> u \<in> set (deps_of fm)}"

lemma in_entries_files: "names d \<Longrightarrow> (i, f) \<in> set (entries l d) \<longleftrightarrow> files d (l, i) = Some f"
  using namesD [of d l] by (simp add: files_apply ids_in_def)

lemma loaded_edges:
  assumes "names d" "loadQueue l d = Inr ps"
  shows "depends_edges ps = file_edges l (files d)"
proof (rule set_eqI)
  fix e :: "prd_id \<times> prd_id"
  obtain u j where e: "e = (u, j)" by (rule prod.exhaust)
  have "e \<in> depends_edges ps \<longleftrightarrow> (\<exists>p. p \<in> set ps \<and> j = q_id p \<and> u \<in> set (deps_of (q_fm p)))"
    by (auto simp: depends_edges_def e)
  also have "\<dots> \<longleftrightarrow> (\<exists>fm. (j, Prd fm) \<in> set (entries l d) \<and> u \<in> set (deps_of fm))"
    unfolding loadQueue_set [OF assms(2)]
  proof (intro iffI; elim exE conjE)
    fix fm assume "(j, Prd fm) \<in> set (entries l d)" "u \<in> set (deps_of fm)"
    then show "\<exists>p. (\<exists>i fm. (i, Prd fm) \<in> set (entries l d) \<and> p = \<lparr>q_id = i, q_loc = l, q_fm = fm\<rparr>) \<and>
        j = q_id p \<and> u \<in> set (deps_of (q_fm p))"
      by (intro exI [of _ "\<lparr>q_id = j, q_loc = l, q_fm = fm\<rparr>"]) simp
  qed auto
  also have "\<dots> \<longleftrightarrow> e \<in> file_edges l (files d)"
    by (simp add: file_edges_def e in_entries_files [OF assms(1)])
  finally show "e \<in> depends_edges ps \<longleftrightarrow> e \<in> file_edges l (files d)" .
qed

lemma loads_iff: "names d \<Longrightarrow> (\<exists>ps. loadQueue l d = Inr ps) \<longleftrightarrow> (\<forall>i f. files d (l, i) = Some f \<longrightarrow> loadable f)"
  unfolding loadQueue_Inr_iff by (simp only: in_entries_files [symmetric]) (simp add: split_beta Ball_def)

lemma apply_moves_all:
  "apply_moves env ms d = (d', applied, True) \<Longrightarrow> \<forall>m \<in> set ms. proper m \<Longrightarrow> names d \<Longrightarrow>
   files d' = fold moved ms (files d) \<and> rest d' = rest d \<and> names d'"
proof (induction env ms d arbitrary: d' applied rule: apply_moves.induct)
  case (2 env m ms d)
  obtain d1 ok1 where m: "moveNoOverwrite env m d = (d1, ok1)" by (rule prod.exhaust)
  have p: "proper m" using 2(3) by simp
  have ok1: ok1 using 2(2) m by (cases ok1) auto
  obtain d2 ap2 ok2 where r: "apply_moves env ms d1 = (d2, ap2, ok2)" by (rule prod_cases3)
  with ok1 2(2) m have e: "d' = d2" "ok2" by auto
  have "files d2 = fold moved ms (files d1) \<and> rest d2 = rest d1 \<and> names d2"
    using 2(1) [OF m [symmetric] _ _ _ names_move [OF 2(4) m]] ok1 r e 2(3) by auto
  then show ?case using move_files [OF m p] ok1 e by simp
qed simp

lemma fold_moved:
  "distinct js \<Longrightarrow> s \<noteq> t \<Longrightarrow>
   fold moved (map (\<lambda>j. (s, t, j)) js) F =
     (\<lambda>(l, j). if j \<in> set js then (if l = t then F (s, j) else if l = s then None else F (l, j)) else F (l, j))"
proof (induction js arbitrary: F)
  case (Cons j js)
  then show ?case by (auto simp: moved_def fun_eq_iff)
qed auto

lemma apply_moves_succeed:
  "distinct js \<Longrightarrow> s \<noteq> t \<Longrightarrow> \<forall>j \<in> set js. files d (s, j) \<noteq> None \<and> files d (t, j) = None \<and> \<not> re_fails env s t j \<Longrightarrow>
   \<exists>d'. apply_moves env (map (\<lambda>j. (s, t, j)) js) d = (d', map (\<lambda>j. (s, t, j)) js, True)"
proof (induction js arbitrary: d)
  case (Cons j js)
  obtain d1 ok where m: "moveNoOverwrite env (s, t, j) d = (d1, ok)" by (rule prod.exhaust)
  have p: "proper (s, t, j)" using Cons(3) by (simp add: proper_def)
  have ok: ok using move_files(1) [OF m p] Cons(4) by (simp add: can_move_def)
  have "\<forall>i \<in> set js. files d1 (s, i) \<noteq> None \<and> files d1 (t, i) = None \<and> \<not> re_fails env s t i"
    using move_files(2) [OF m p] ok Cons(2,4) by (auto simp: moved_def)
  with Cons(1) [of d1] Cons(2,3) obtain d' where
    "apply_moves env (map (\<lambda>j. (s, t, j)) js) d1 = (d', map (\<lambda>j. (s, t, j)) js, True)" by auto
  with m ok show ?case by simp
qed simp

lemma preflight_None_iff:
  "preflightMoves ms d = None \<longleftrightarrow> (\<forall>(s, t, i) \<in> set ms. files d (s, i) \<noteq> None \<and> files d (t, i) = None)"
  by (induction ms d rule: preflightMoves.induct) (auto simp: file_exists_files)

text \<open>What a started resume has done.\<close>

lemma begin_started:
  assumes "beginQueuedResume env i w = (w1, Some (ResumeStarted ids))" "names (w_disk w)"
  obtains sn where "loadResumeQueueSnapshot w = Some sn" "ids = findDescendantIds i (rs_skipped sn)" "\<not> unsafePrdIdReason i"
    "preflightMoves (resume_moves i ids) (w_disk w) = None" "dget (d_locks (w_disk w)) i = None"
    "files (w_disk w1) = fold moved (resume_moves i ids) (files (w_disk w))" "names (w_disk w1)"
    "d_locks (w_disk w1) = dput i (dec_string (re_pid env)) (d_locks (w_disk w))"
    "d_artifacts (w_disk w1) = d_artifacts (w_disk w)" "d_completions (w_disk w1) = d_completions (w_disk w)"
    "w_json w1 = w_json w" "w_md w1 = w_md w"
proof -
  from assms(1) obtain sn where sn: "loadResumeQueueSnapshot w = Some sn" and safe: "\<not> unsafePrdIdReason i"
    by (auto simp: beginQueuedResume_def split: option.splits if_splits)
  from assms(1) sn safe obtain parent where parent: "find_prd_id i (rs_failed sn) = Some parent"
    by (cases "find_prd_id i (rs_failed sn)") (auto simp: beginQueuedResume_def)
  let ?ids = "findDescendantIds i (rs_skipped sn)"
  have pre: "preflightMoves (resume_moves i ?ids) (w_disk w) = None"
    using assms(1) sn safe parent by (cases "preflightMoves (resume_moves i ?ids) (w_disk w)") (auto simp: beginQueuedResume_def Let_def)
  have lock: "dget (d_locks (w_disk w)) i = None"
    using assms(1) sn safe parent pre
    by (cases "dget (d_locks (w_disk w)) i") (auto simp: beginQueuedResume_def Let_def claimPrd_def)
  let ?d1 = "mkdirp RootDir ((w_disk w)\<lparr>d_locks := dput i (dec_string (re_pid env)) (d_locks (w_disk w))\<rparr>)"
  obtain d2 applied ok where a: "apply_moves env (resume_moves i ?ids) ?d1 = (d2, applied, ok)" by (rule prod_cases3)
  have r: "ok" "ids = ?ids" "w1 = w\<lparr>w_disk := d2\<rparr>"
    using assms(1) sn safe parent pre lock a
    by (auto simp: beginQueuedResume_def Let_def claimPrd_def release_resume_def split: bool.splits prod.splits if_splits)
  have f: "files d2 = fold moved (resume_moves i ?ids) (files ?d1) \<and> rest d2 = rest ?d1 \<and> names d2"
    using apply_moves_all [OF _ proper_resume_moves, of env i ?ids ?d1 d2 applied] a r(1) assms(2) by simp
  show ?thesis
    by (rule that [OF sn r(2) safe]) (use pre lock f r in \<open>auto simp: rest_def\<close>)
qed

text \<open>No PRD that was already waiting is downstream of the resumed one.\<close>

definition none_waiting :: "prd_id \<Rightarrow> world \<Rightarrow> bool" where
  "none_waiting i w \<longleftrightarrow>
     (case loadResumeQueueSnapshot w of
        None \<Rightarrow> True
      | Some sn \<Rightarrow> \<forall>j \<in> set (findDescendantIds i (rs_waiting sn @ rs_skipped sn)). \<not> file_exists WaitingDir j (w_disk w))"

lemma depends_edges_append: "depends_edges (ps @ qs) = depends_edges ps \<union> depends_edges qs"
  by (auto simp: depends_edges_def)

text \<open>Moving the descendants along keeps them the descendants.\<close>

lemma descendants_move:
  fixes F :: "qloc \<times> prd_id \<Rightarrow> md_file option"
  assumes E': "E' = file_edges WaitingDir (\<lambda>(l, j). if j \<in> D then F (SkippedDir, j) else F (l, j))"
    and D: "D = {j. (i, j) \<in> (file_edges SkippedDir F)\<^sup>+} - {i}"
    and none: "\<And>j. (i, j) \<in> (file_edges WaitingDir F \<union> file_edges SkippedDir F)\<^sup>+ \<Longrightarrow> j \<noteq> i \<Longrightarrow> F (WaitingDir, j) = None"
  shows "{j. (i, j) \<in> E'\<^sup>+} - {i} = D"
proof
  show "{j. (i, j) \<in> E'\<^sup>+} - {i} \<subseteq> D"
  proof
    fix j assume "j \<in> {j. (i, j) \<in> E'\<^sup>+} - {i}"
    then have "(i, j) \<in> E'\<^sup>+" "j \<noteq> i" by auto
    have step: "z \<in> insert i D" if "(y, z) \<in> E'" "y \<in> insert i D" for y z
    proof (rule ccontr)
      assume z: "z \<notin> insert i D"
      with that(1) have yz: "(y, z) \<in> file_edges WaitingDir F" by (auto simp: E' file_edges_def)
      have "(i, z) \<in> (file_edges WaitingDir F \<union> file_edges SkippedDir F)\<^sup>+"
      proof (cases "y = i")
        case False
        then have "(i, y) \<in> (file_edges SkippedDir F)\<^sup>+" using that(2) D by auto
        then have "(i, y) \<in> (file_edges WaitingDir F \<union> file_edges SkippedDir F)\<^sup>+"
          by (rule trancl_mono) simp
        with yz show ?thesis by (meson UnI1 trancl.trancl_into_trancl)
      qed (use yz in auto)
      with none [OF this] z have "F (WaitingDir, z) = None" by simp
      with yz show False by (simp add: file_edges_def)
    qed
    from \<open>(i, j) \<in> E'\<^sup>+\<close> have "j \<in> insert i D"
      by (induction rule: trancl_induct) (use step in blast)+
    with \<open>j \<noteq> i\<close> show "j \<in> D" by simp
  qed
  show "D \<subseteq> {j. (i, j) \<in> E'\<^sup>+} - {i}"
  proof
    fix j assume "j \<in> D"
    then have ij: "(i, j) \<in> (file_edges SkippedDir F)\<^sup>+" and ne: "j \<noteq> i" using D by auto
    have edge: "(y, z) \<in> E'" if "(y, z) \<in> file_edges SkippedDir F" "(i, z) \<in> (file_edges SkippedDir F)\<^sup>+" "z \<noteq> i" for y z
      using that by (auto simp: E' D file_edges_def)
    from ij have "j = i \<or> (i, j) \<in> E'\<^sup>+"
    proof (induction rule: trancl_induct)
      case (base y)
      then show ?case using edge [OF base] by blast
    next
      case (step y z)
      have "(i, z) \<in> (file_edges SkippedDir F)\<^sup>+" using step(1,2) by (rule trancl_into_trancl)
      then have "z \<noteq> i \<Longrightarrow> (y, z) \<in> E'" using edge step(2) by blast
      with step(3) show ?case by (metis trancl.intros)
    qed
    with ne show "j \<in> {j. (i, j) \<in> E'\<^sup>+} - {i}" by simp
  qed
qed

definition moved_along :: "prd_id \<Rightarrow> prd_id set \<Rightarrow> (qloc \<times> prd_id \<Rightarrow> md_file option) \<Rightarrow> qloc \<times> prd_id \<Rightarrow> md_file option" where
  "moved_along i D F = (\<lambda>(l, j).
      if j = i then (if l = RootDir then F (FailedDir, i) else if l = FailedDir then None else F (l, i))
      else if j \<in> D then (if l = WaitingDir then F (SkippedDir, j) else if l = SkippedDir then None else F (l, j))
      else F (l, j))"

text \<open>The state a started resume is in.\<close>

definition started :: "resume_env \<Rightarrow> prd_id \<Rightarrow> prd_id list \<Rightarrow> world \<Rightarrow> world \<Rightarrow> bool" where
  "started env i ids w w1 \<longleftrightarrow>
     (\<exists>sn. loadResumeQueueSnapshot w = Some sn) \<and> \<not> unsafePrdIdReason i \<and>
     distinct ids \<and> set ids = {j. (i, j) \<in> (file_edges SkippedDir (files (w_disk w)))\<^sup>+} - {i} \<and>
     files (w_disk w) (FailedDir, i) \<noteq> None \<and> files (w_disk w) (RootDir, i) = None \<and>
     (\<forall>j \<in> set ids. files (w_disk w) (SkippedDir, j) \<noteq> None \<and> files (w_disk w) (WaitingDir, j) = None) \<and>
     files (w_disk w1) = moved_along i (set ids) (files (w_disk w)) \<and> names (w_disk w) \<and> names (w_disk w1) \<and>
     dget (d_locks (w_disk w)) i = None \<and>
     d_locks (w_disk w1) = dput i (dec_string (re_pid env)) (d_locks (w_disk w)) \<and>
     d_artifacts (w_disk w1) = d_artifacts (w_disk w) \<and> d_completions (w_disk w1) = d_completions (w_disk w) \<and>
     w_json w1 = w_json w \<and> w_md w1 = w_md w"

lemma begin_gives_started:
  assumes begin_ok: "beginQueuedResume env i w = (w1, Some (ResumeStarted ids))" and names: "names (w_disk w)"
  shows "started env i ids w w1"
proof -
  let ?F = "files (w_disk w)"
  obtain sn where sn: "loadResumeQueueSnapshot w = Some sn" "ids = findDescendantIds i (rs_skipped sn)" "\<not> unsafePrdIdReason i"
    and pre: "preflightMoves (resume_moves i ids) (w_disk w) = None" and lock: "dget (d_locks (w_disk w)) i = None"
    and F1: "files (w_disk w1) = fold moved (resume_moves i ids) ?F" and names1: "names (w_disk w1)"
    and locks: "d_locks (w_disk w1) = dput i (dec_string (re_pid env)) (d_locks (w_disk w))"
    and other: "d_artifacts (w_disk w1) = d_artifacts (w_disk w)" "d_completions (w_disk w1) = d_completions (w_disk w)"
      "w_json w1 = w_json w" "w_md w1 = w_md w"
    by (rule begin_started [OF begin_ok names])
  have ids: "distinct ids" "i \<notin> set ids" "set ids = {j. (i, j) \<in> (file_edges SkippedDir ?F)\<^sup>+} - {i}"
    using snapshot_lists [OF sn(1)] loaded_edges [OF names, of SkippedDir] findDescendantIds_exact [of i "rs_skipped sn"]
    by (auto simp: sn(2) distinct_findDescendantIds)
  have at: "?F (FailedDir, i) \<noteq> None" "?F (RootDir, i) = None"
    "\<forall>j \<in> set ids. ?F (SkippedDir, j) \<noteq> None \<and> ?F (WaitingDir, j) = None"
    using pre unfolding preflight_None_iff resume_moves_def by auto
  have "files (w_disk w1) = moved_along i (set ids) ?F"
    using ids(2) by (auto simp: F1 resume_moves_def fold_moved [OF ids(1)] moved_def moved_along_def fun_eq_iff)
  with sn ids at names names1 lock locks other show ?thesis by (simp add: started_def)
qed

lemma started_loads:
  assumes "started env i ids w w1"
  shows "\<exists>sn. loadResumeQueueSnapshot w1 = Some sn"
proof -
  obtain sn where "loadResumeQueueSnapshot w = Some sn" using assms by (auto simp: started_def)
  note lists = snapshot_lists [OF this]
  have "loadable f" if "files (w_disk w) (l, j) = Some f" for l j f
    using that lists loads_iff [of "w_disk w" l] qloc_all [of l] assms by (auto simp: started_def)
  moreover have "names (w_disk w1)" "files (w_disk w1) = moved_along i (set ids) (files (w_disk w))"
    using assms by (auto simp: started_def)
  ultimately have "\<exists>ps. loadQueue l (w_disk w1) = Inr ps" for l
    by (auto simp: loads_iff moved_along_def split: if_splits)
  then show ?thesis by (metis (no_types, lifting) loadResumeQueueSnapshot_def prod.case sum.simps(6))
qed

lemma started_descendants:
  assumes st: "started env i ids w w1" and none: "none_waiting i w" and sn1: "loadResumeQueueSnapshot w1 = Some sn1"
  shows "set (findDescendantIds i (rs_waiting sn1)) = set ids"
proof -
  let ?F = "files (w_disk w)"
  obtain sn where sn: "loadResumeQueueSnapshot w = Some sn" using st by (auto simp: started_def)
  have names: "names (w_disk w)" "names (w_disk w1)" and ids: "set ids = {j. (i, j) \<in> (file_edges SkippedDir ?F)\<^sup>+} - {i}"
    using st by (auto simp: started_def)
  have "set (findDescendantIds i (rs_waiting sn1)) = {j. (i, j) \<in> (file_edges WaitingDir (files (w_disk w1)))\<^sup>+} - {i}"
    using snapshot_lists [OF sn1] loaded_edges [OF names(2)] findDescendantIds_exact [of i "rs_waiting sn1"] by metis
  also have "file_edges WaitingDir (files (w_disk w1)) =
      file_edges WaitingDir (\<lambda>(l, j). if j \<in> set ids then ?F (SkippedDir, j) else ?F (l, j))"
    using st by (auto simp: started_def moved_along_def file_edges_def)
  also have "{j. (i, j) \<in> (\<dots>)\<^sup>+} - {i} = set ids"
  proof (rule descendants_move [OF refl ids])
    fix j assume "(i, j) \<in> (file_edges WaitingDir ?F \<union> file_edges SkippedDir ?F)\<^sup>+" "j \<noteq> i"
    then have "j \<in> set (findDescendantIds i (rs_waiting sn @ rs_skipped sn))"
      using snapshot_lists [OF sn] loaded_edges [OF names(1), of WaitingDir "rs_waiting sn"]
        loaded_edges [OF names(1), of SkippedDir "rs_skipped sn"]
      by (simp add: findDescendantIds_exact depends_edges_append)
    with none sn show "?F (WaitingDir, j) = None" by (simp add: none_waiting_def file_exists_files)
  qed
  finally show ?thesis .
qed

text \<open>The root file and then the descendants go back.\<close>

lemma started_moves_back:
  assumes st: "started env i ids w w1" and undo: "undo_works env" and js: "set js = set ids" "distinct js"
  obtains d1 d2 where
    "moveNoOverwrite env (RootDir, FailedDir, i) (mkdirp FailedDir (w_disk w1)) = (d1, True)"
    "apply_moves env (map (\<lambda>j. (WaitingDir, SkippedDir, j)) js) (mkdirp SkippedDir d1) =
      (d2, map (\<lambda>j. (WaitingDir, SkippedDir, j)) js, True)"
    "files d2 = files (w_disk w)" "rest d2 = rest (w_disk w1)"
proof -
  let ?F = "files (w_disk w)"
  have F1: "files (w_disk w1) = moved_along i (set ids) ?F" and names1: "names (w_disk w1)" and i: "i \<notin> set ids"
    and at: "?F (FailedDir, i) \<noteq> None" "?F (RootDir, i) = None"
      "\<forall>j \<in> set ids. ?F (SkippedDir, j) \<noteq> None \<and> ?F (WaitingDir, j) = None"
    using st by (auto simp: started_def)
  obtain d1 ok1 where root: "moveNoOverwrite env (RootDir, FailedDir, i) (mkdirp FailedDir (w_disk w1)) = (d1, ok1)"
    by (rule prod.exhaust)
  have p: "proper (RootDir, FailedDir, i)" by (simp add: proper_def)
  have ok1: "ok1 = True"
    using move_files(1) [OF root p] at(1) undo by (simp add: can_move_def F1 moved_along_def undo_works_def)
  have d1: "files d1 = moved (RootDir, FailedDir, i) (files (w_disk w1))" "rest d1 = rest (w_disk w1)" "names d1"
    using move_files(2,3) [OF root p] ok1 names_move [OF _ root] names1 by simp_all
  have "\<exists>d2. apply_moves env (map (\<lambda>j. (WaitingDir, SkippedDir, j)) js) (mkdirp SkippedDir d1) =
      (d2, map (\<lambda>j. (WaitingDir, SkippedDir, j)) js, True)"
    using at(3) i undo
    by (intro apply_moves_succeed js(2)) (auto simp: js(1) d1 F1 moved_along_def moved_def undo_works_def)
  then obtain d2 where d2: "apply_moves env (map (\<lambda>j. (WaitingDir, SkippedDir, j)) js) (mkdirp SkippedDir d1) =
      (d2, map (\<lambda>j. (WaitingDir, SkippedDir, j)) js, True)" by blast
  have f2: "files d2 = fold moved (map (\<lambda>j. (WaitingDir, SkippedDir, j)) js) (files d1)" "rest d2 = rest d1"
    using apply_moves_all [OF d2] d1(3) by (auto simp: proper_def)
  have "files d2 = ?F"
    using i at by (auto simp: f2 fold_moved [OF js(2)] d1(1) moved_def F1 moved_along_def js(1) fun_eq_iff)
  with root ok1 d2 f2(2) d1(2) show ?thesis by (intro that [of d1 d2]) simp_all
qed

text \<open>A rollback of the descendants \<open>ids\<close> that leaves the state \<open>w\<close>.\<close>

definition rolled_back :: "prd_id list \<Rightarrow> world \<Rightarrow> resume_result resume_act \<Rightarrow> bool" where
  "rolled_back ids w r \<longleftrightarrow>
     (\<exists>w2 ids'. r = (w2, Some (ResumeRolledBack ids')) \<and>
        set ids' = set ids \<and> files (w_disk w2) = files (w_disk w) \<and>
        (\<forall>j. dget (d_locks (w_disk w2)) j = dget (d_locks (w_disk w)) j) \<and>
        d_artifacts (w_disk w2) = d_artifacts (w_disk w) \<and> d_completions (w_disk w2) = d_completions (w_disk w) \<and>
        w_json w2 = w_json w \<and> w_md w2 = w_md w)"

text \<open>
  C35. Starting a resume and rolling it back restores the queue: after \<open>beginQueuedResume\<close> started
  a resume, \<open>rollbackQueuedResume\<close> (when no move back fails) answers with exactly the descendants
  that were moved, every file is again where it was, with the same text, and the claim is gone;
  provided no PRD that was already waiting is downstream of the resumed one.
\<close>

theorem begin_then_rollback_restores:
  assumes begin_ok: "beginQueuedResume env i w = (w1, Some (ResumeStarted ids))"
    and names: "names (w_disk w)" and undo: "undo_works env" and release: "re_release_ok env i"
    and none: "none_waiting i w"
  shows "rolled_back ids w (rollbackQueuedResume env i w1)"
proof -
  have st: "started env i ids w w1" by (rule begin_gives_started [OF begin_ok names])
  then obtain sn1 where sn1: "loadResumeQueueSnapshot w1 = Some sn1" using started_loads by blast
  let ?ids = "findDescendantIds i (rs_waiting sn1)"
  have same: "set ?ids = set ids" by (rule started_descendants [OF st none sn1])
  obtain d1 d2 where d1: "moveNoOverwrite env (RootDir, FailedDir, i) (mkdirp FailedDir (w_disk w1)) = (d1, True)"
    and d2: "apply_moves env (map (\<lambda>j. (WaitingDir, SkippedDir, j)) ?ids) (mkdirp SkippedDir d1) =
      (d2, map (\<lambda>j. (WaitingDir, SkippedDir, j)) ?ids, True)"
    and restored: "files d2 = files (w_disk w)" "rest d2 = rest (w_disk w1)"
    by (rule started_moves_back [OF st undo same distinct_findDescendantIds])
  have "preflightMoves (map (\<lambda>j. (WaitingDir, SkippedDir, j)) ?ids) (w_disk w1) = None"
    unfolding preflight_None_iff using st same by (auto simp: started_def moved_along_def)
  moreover have "file_exists RootDir i (w_disk w1)" "\<not> file_exists FailedDir i (w_disk w1)" "\<not> unsafePrdIdReason i"
    using st by (auto simp: started_def file_exists_files moved_along_def)
  ultimately have "rollbackQueuedResume env i w1 =
      (on_disk (\<lambda>d. d\<lparr>d_locks := releasePrd i (d_locks d)\<rparr>) (w1\<lparr>w_disk := d2\<rparr>), Some (ResumeRolledBack ?ids))"
    using sn1 d1 d2 release by (simp add: rollbackQueuedResume_def Let_def return_root_def release_resume_def)
  then show ?thesis
    using st restored same by (simp add: rolled_back_def started_def rest_def releasePrd_def)
qed

section \<open>Instances\<close>

definition demo_resume_env :: "(qloc \<Rightarrow> qloc \<Rightarrow> prd_id \<Rightarrow> bool) \<Rightarrow> resume_env" where
  "demo_resume_env fails = \<lparr>re_pid = 7, re_now = ''t'', re_fails = fails, re_release_ok = (\<lambda>_. True), re_registry = None\<rparr>"

text \<open>A failed PRD with two skipped descendants.\<close>

definition demo_failed :: world where
  "demo_failed = \<lparr>w_disk = \<lparr>d_root = Some [], d_waiting = None, d_failed = Some [(''a'', demo_file [])],
       d_skipped = Some [(''b'', demo_file [''a'']), (''c'', demo_file [''b''])],
       d_locks = [], d_artifacts = NoFile, d_completions = NoFile\<rparr>, w_json = [], w_md = []\<rparr>"

definition demo_requeue :: requeue_opts where
  "demo_requeue = \<lparr>ro_prdId = ''a'', ro_setName = ''s'', ro_featureBranch = ''f'', ro_baseBranch = ''main'', ro_profileOverride = None\<rparr>"

lemma blocked_requeue_restores_witness:
  "\<exists>w'. requeueFailedPrdForCompiledResume (demo_resume_env (\<lambda>s t j. j = ''c'')) demo_requeue demo_failed =
       (w', Some (RequeueBlocked MoveFailed)) \<and> same_files demo_failed w'"
proof -
  let ?env = "demo_resume_env (\<lambda>s t j. s = SkippedDir \<and> j = ''c'')"
  have same: "requeueFailedPrdForCompiledResume (demo_resume_env (\<lambda>s t j. j = ''c'')) demo_requeue demo_failed =
      requeueFailedPrdForCompiledResume ?env demo_requeue demo_failed" by code_simp
  have r: "snd (requeueFailedPrdForCompiledResume ?env demo_requeue demo_failed) = Some (RequeueBlocked MoveFailed)" by code_simp
  then obtain w' where w': "requeueFailedPrdForCompiledResume ?env demo_requeue demo_failed = (w', Some (RequeueBlocked MoveFailed))"
    by (cases "requeueFailedPrdForCompiledResume ?env demo_requeue demo_failed") simp
  moreover have "distinct (ids_in FailedDir (w_disk demo_failed))" by code_simp
  moreover have "undo_works ?env" by (simp add: undo_works_def demo_resume_env_def)
  ultimately show ?thesis using blocked_requeue_restores [OF w'] same by auto
qed

lemma begin_then_rollback_restores_witness:
  "\<exists>w1. beginQueuedResume (demo_resume_env (\<lambda>_ _ _. False)) ''a'' demo_failed = (w1, Some (ResumeStarted [''b'', ''c''])) \<and>
     rolled_back [''b'', ''c''] demo_failed (rollbackQueuedResume (demo_resume_env (\<lambda>_ _ _. False)) ''a'' w1)"
proof -
  let ?env = "demo_resume_env (\<lambda>_ _ _. False)"
  have r: "snd (beginQueuedResume ?env ''a'' demo_failed) = Some (ResumeStarted [''b'', ''c''])" by code_simp
  then obtain w1 where w1: "beginQueuedResume ?env ''a'' demo_failed = (w1, Some (ResumeStarted [''b'', ''c'']))"
    by (cases "beginQueuedResume ?env ''a'' demo_failed") simp
  have "names (w_disk demo_failed)" "none_waiting ''a'' demo_failed" by code_simp+
  moreover have "undo_works ?env" "re_release_ok ?env ''a''" by (simp_all add: undo_works_def demo_resume_env_def)
  ultimately show ?thesis using begin_then_rollback_restores [OF w1] w1 by blast
qed

text \<open>When undoing fails, the parent stays in the root with its original text: a pending PRD
  without resume metadata, which the scheduler would build from the start.\<close>

lemma failed_undo_leaves_pending:
  "(let (w', r) = requeueFailedPrdForCompiledResume
      (demo_resume_env (\<lambda>s t j. (s = SkippedDir \<and> j = ''c'') \<or> (s = RootDir \<and> t = FailedDir))) demo_requeue demo_failed
    in r = Some (RequeueBlocked MoveFailed) \<and> entries RootDir (w_disk w') = [(''a'', demo_file [])] \<and>
       entries FailedDir (w_disk w') = [])"
  by code_simp

end
