(* ===== verification/CascadeControl.thy ===== *)
theory CascadeControl
  imports QueueCancellation ResumeCascade
begin

text \<open>
  Removing or cancelling a queue item with everything that depends on it
  (\<open>queue/cascade-control.ts\<close>): the preview with its token, the checks that refuse a drifted or
  unconfirmed request, the claims, and the removals and cancellations themselves. The
  lemmas show that an applied removal removes exactly the previewed PRDs and leaves no
  dependent behind; the examples at the end show where the code falls short.
\<close>

section \<open>The preview\<close>

datatype cascade_op = OpRemove | OpCancel
datatype cascade_strategy = TargetOnly | CascadeDependents

datatype cascade_effect = TargetRemove | DependentRemoved | TargetCancelled | DependentCancelled | EffectRefused | EffectNone

datatype cascade_blocker =
    BlRunningRemove prd_id
  | BlFailedCancel prd_id
  | BlSkippedCancel prd_id
  | BlUnowned prd_id
  | BlDuplicate prd_id
  | BlNotFound
  | BlDrift
  | BlRefusal
  | BlConfirm
  | BlPreview "cascade_blocker list"
  | BlNotCancelled prd_id

text \<open>What a cancellation asks of the daemon: \<open>cc_cancelRunning r\<close> is \<open>None\<close> when it throws.\<close>

record cascade_env =
  cc_qc :: qc_env
  cc_resolver :: "(qrec \<Rightarrow> ownership) option"
  cc_cancelRunning :: "(qrec \<Rightarrow> bool option) option"
  cc_now :: string
  cc_skipped_ok :: bool
  cc_hash :: "cascade_op \<Rightarrow> (prd_id \<times> qloc \<times> q_status \<times> prd_id list \<times> bool \<times> prd_lock option) list \<Rightarrow> string"

definition ownership_of :: "cascade_env \<Rightarrow> qrec \<Rightarrow> ownership option" where
  "ownership_of env r =
     (if qr_status r \<noteq> QsRunning then None
      else Some (case cc_resolver env of Some f \<Rightarrow> f r | None \<Rightarrow> not_owned NoResolver))"

definition effectFor :: "qrec \<Rightarrow> cascade_op \<Rightarrow> bool \<Rightarrow> cascade_effect" where
  "effectFor r op dependent =
     (if op = OpRemove then (if dependent then DependentRemoved else TargetRemove)
      else if qr_status r = QsFailed then EffectRefused
      else if qr_status r = QsSkipped \<and> dependent then EffectNone
      else if dependent then DependentCancelled else TargetCancelled)"

record affected =
  af_rec :: qrec
  af_depth :: nat
  af_effect :: cascade_effect
  af_blockers :: "cascade_blocker list"
  af_ownership :: "ownership option"

definition affected_blockers :: "cascade_env \<Rightarrow> qrec \<Rightarrow> cascade_op \<Rightarrow> bool \<Rightarrow> cascade_blocker list" where
  "affected_blockers env r op dependent =
     (if op = OpRemove \<and> qr_status r = QsRunning then [BlRunningRemove (qr_id r)] else []) @
     (if op = OpCancel \<and> qr_status r = QsFailed then [BlFailedCancel (qr_id r)] else []) @
     (if op = OpCancel \<and> qr_status r = QsSkipped \<and> \<not> dependent then [BlSkippedCancel (qr_id r)] else []) @
     (if op = OpCancel \<and> qr_status r = QsRunning \<and> \<not> owned (ownership_of env r) then [BlUnowned (qr_id r)] else [])"

definition toAffected :: "cascade_env \<Rightarrow> qrec \<Rightarrow> nat \<Rightarrow> cascade_op \<Rightarrow> bool \<Rightarrow> affected" where
  "toAffected env r depth op dependent =
     (let blockers = affected_blockers env r op dependent in
      \<lparr>af_rec = r, af_depth = depth,
       af_effect = (if length blockers > 0 then EffectRefused else effectFor r op dependent),
       af_blockers = blockers, af_ownership = ownership_of env r\<rparr>)"

record expected_affected =
  ex_token :: string
  ex_prdIds :: "prd_id list"

definition payload_item :: "qrec \<Rightarrow> prd_id \<times> qloc \<times> q_status \<times> prd_id list \<times> bool \<times> prd_lock option" where
  "payload_item r = (qr_id r, qr_location r, qr_status r, sort_key (map (of_char :: char \<Rightarrow> nat)) (qr_dependsOn r), qr_held r,
     map_option (\<lambda>k. case k of Live _ \<Rightarrow> Live 0 | Stale _ \<Rightarrow> Stale 0 | other \<Rightarrow> other) (qr_lock r))"

definition buildCascadeExpectedAffected ::
    "cascade_env \<Rightarrow> qrec \<Rightarrow> cascade_dependent list \<Rightarrow> cascade_op \<Rightarrow> expected_affected" where
  "buildCascadeExpectedAffected env target dependents op =
     (let affected = target # map fst dependents
      in \<lparr>ex_token = cc_hash env op (map payload_item affected), ex_prdIds = map qr_id affected\<rparr>)"

record cascade_preview =
  pv_target :: affected
  pv_dependents :: "affected list"
  pv_safeStrategies :: "cascade_strategy list"
  pv_warnings :: "prd_id list"
  pv_blockers :: "cascade_blocker list"
  pv_expected :: expected_affected

definition previewQueueCascade :: "cascade_env \<Rightarrow> cascade_op \<Rightarrow> prd_id \<Rightarrow> qdisk \<Rightarrow> (qc_error, cascade_preview) result" where
  "previewQueueCascade env op i d =
     (if \<not> assertSafePrdId i then Inl (QcError QcValidation)
      else case loadQueueControlSnapshot (cc_qc env) False d of
        (_, Inl e) \<Rightarrow> Inl e
      | (_, Inr sn) \<Rightarrow>
          (case dget (sn_duplicates sn) i of
             Some copies \<Rightarrow>
               Inr \<lparr>pv_target = toAffected env (hd copies) 0 op False, pv_dependents = [], pv_safeStrategies = [],
                    pv_warnings = [], pv_blockers = [BlDuplicate i], pv_expected = \<lparr>ex_token = [], ex_prdIds = [i]\<rparr>\<rparr>
           | None \<Rightarrow>
               (case dget (sn_byId sn) i of
                  None \<Rightarrow> Inl (QcError QcNotFound)
                | Some target \<Rightarrow>
                    (let links = findCascadeDependents (cc_qc env) i (sn_records sn);
                         affectedTarget = toAffected env target 0 op False;
                         dependents = map (\<lambda>(r, n). toAffected env r n op True) links;
                         blockers = af_blockers affectedTarget @ concat (map af_blockers dependents);
                         safe = (if length blockers = 0
                                 then (if length dependents = 0 then [TargetOnly] else []) @
                                      (if length dependents > 0 \<and> list_all (\<lambda>a. length (af_blockers a) = 0) dependents
                                       then [CascadeDependents] else [])
                                 else [])
                     in Inr \<lparr>pv_target = affectedTarget, pv_dependents = dependents, pv_safeStrategies = safe,
                          pv_warnings = map (\<lambda>a. qr_id (af_rec a))
                            (filter (\<lambda>a. op = OpCancel \<and> qr_status (af_rec a) = QsSkipped) dependents),
                          pv_blockers = blockers,
                          pv_expected = buildCascadeExpectedAffected env target links op\<rparr>))))"

definition expectedMatches :: "expected_affected \<Rightarrow> expected_affected \<Rightarrow> bool" where
  "expectedMatches a b \<longleftrightarrow> ex_token a = ex_token b \<and> ex_prdIds a = ex_prdIds b"

section \<open>Results\<close>

datatype item_status = IsRemoved | IsCancelled | IsStill q_status

record item_result =
  ir_prdId :: prd_id
  ir_previous :: q_status
  ir_status :: item_status

record cascade_result =
  ap_applied :: bool
  ap_target :: item_result
  ap_dependents :: "item_result list"
  ap_blockers :: "cascade_blocker list"

definition emptyResult :: "qrec \<Rightarrow> q_status \<Rightarrow> item_result" where
  "emptyResult r st = \<lparr>ir_prdId = qr_id r, ir_previous = qr_status r, ir_status = IsStill st\<rparr>"

definition preview_result :: "affected \<Rightarrow> item_result" where
  "preview_result a = emptyResult (af_rec a) (qr_status (af_rec a))"

definition missingPreview :: "cascade_preview \<Rightarrow> cascade_result" where
  "missingPreview pv =
     \<lparr>ap_applied = False, ap_target = preview_result (pv_target pv), ap_dependents = map preview_result (pv_dependents pv),
      ap_blockers = (if length (pv_blockers pv) > 0 then pv_blockers pv else [BlNotFound])\<rparr>"

definition blocked_by :: "cascade_preview \<Rightarrow> cascade_blocker \<Rightarrow> cascade_result" where
  "blocked_by pv b =
     \<lparr>ap_applied = False, ap_target = preview_result (pv_target pv), ap_dependents = [], ap_blockers = [b]\<rparr>"

definition cancelResultChanged :: "item_result \<Rightarrow> bool" where
  "cancelResultChanged r \<longleftrightarrow> ir_status r = IsStill QsSkipped \<or> ir_status r = IsCancelled"

section \<open>Changing one record\<close>

record cascade_world =
  cw_world :: world
  cw_markers :: marker_dir

type_synonym 'a cascade_act = "cascade_world \<times> (qc_error, 'a) result"

definition on_world :: "(world \<Rightarrow> world) \<Rightarrow> cascade_world \<Rightarrow> cascade_world" where
  "on_world f cw = cw\<lparr>cw_world := f (cw_world cw)\<rparr>"

definition removeRecord :: "qrec \<Rightarrow> cascade_world \<Rightarrow> item_result cascade_act" where
  "removeRecord r cw =
     (let l = qr_location r; i = qr_id r; w = cw_world cw in
      if \<not> file_exists l i (w_disk w) then (cw, Inl QcThrown)
      else (let w1 = on_disk (remove_file l i) w;
                w2 = (if l = FailedDir then fst (removed_sidecars i w1) else w1)
            in (cw\<lparr>cw_world := w2\<rparr>, Inr \<lparr>ir_prdId = i, ir_previous = qr_status r, ir_status = IsRemoved\<rparr>)))"

definition ensureSkippedDestinationAvailable :: "qrec \<Rightarrow> world \<Rightarrow> (qc_error, unit) result" where
  "ensureSkippedDestinationAvailable r w =
     (if file_exists SkippedDir (qr_id r) (w_disk w) then Inl (QcError QcConflict) else Inr ())"

text \<open>The skip reason is written first; the link to \<open>skipped\<close> does not overwrite.\<close>

definition moveToSkipped :: "cascade_env \<Rightarrow> qrec \<Rightarrow> string \<Rightarrow> cascade_world \<Rightarrow> item_result cascade_act" where
  "moveToSkipped env r reason cw =
     (let l = qr_location r; i = qr_id r; fm = (qr_fm r)\<lparr>fm_skip_reason := Some reason\<rparr> in
      if has_control reason \<or> \<not> file_exists l i (w_disk (cw_world cw)) then (cw, Inl QcThrown)
      else (let cw1 = on_world (on_disk (\<lambda>d. mkdirp SkippedDir (set_dir l (Some (dput i (Prd fm) (entries l d))) d))) cw in
            if \<not> cc_skipped_ok env then (cw1, Inl (QcError QcValidation))
            else if file_exists SkippedDir i (w_disk (cw_world cw1)) then (cw1, Inl (QcError QcConflict))
            else (on_world (on_disk (\<lambda>d.
                    remove_file l i (set_dir SkippedDir (Some (entries SkippedDir d @ [(i, Prd fm)])) d))) cw1,
                  Inr \<lparr>ir_prdId = i, ir_previous = qr_status r, ir_status = IsStill QsSkipped\<rparr>)))"

definition cancel_reason :: "string option \<Rightarrow> prd_id option \<Rightarrow> (qc_error, string) result" where
  "cancel_reason reason dependentOn =
     (case validateReason reason of
        Inl e \<Rightarrow> Inl e
      | Inr (Some r) \<Rightarrow> Inr r
      | Inr None \<Rightarrow>
          Inr (case dependentOn of
                 Some up \<Rightarrow> ''cancelled because upstream '' @ up @ '' was cancelled''
               | None \<Rightarrow> ''cancelled by operator''))"

text \<open>A running PRD: the marker first, then the worker; the marker goes if that fails.\<close>

definition cancel_running :: "cascade_env \<Rightarrow> qrec \<Rightarrow> string \<Rightarrow> cascade_world \<Rightarrow> item_result cascade_act" where
  "cancel_running env r reason cw =
     (let own = (case cc_resolver env of Some f \<Rightarrow> f r | None \<Rightarrow> not_owned NoResolver); i = qr_id r in
      if \<not> ow_owned own then (cw, Inr (emptyResult r QsRunning))
      else (case requestQueuePrdCancellation i
                   \<lparr>mk_prdId = i, mk_reason = Some reason, mk_sessionId = ow_sessionId own, mk_runId = ow_runId own,
                    mk_pid = ow_pid own, mk_requestedAt = cc_now env\<rparr> (cw_markers cw) of
              (m1, Inl e) \<Rightarrow> (cw\<lparr>cw_markers := m1\<rparr>, Inl e)
            | (m1, Inr _) \<Rightarrow>
                (case (case cc_cancelRunning env of Some f \<Rightarrow> f r | None \<Rightarrow> Some True) of
                   Some True \<Rightarrow> (cw\<lparr>cw_markers := m1\<rparr>, Inr \<lparr>ir_prdId = i, ir_previous = QsRunning, ir_status = IsCancelled\<rparr>)
                 | outcome \<Rightarrow>
                     (case removeQueuePrdCancellation i m1 of
                        (m2, Inl e) \<Rightarrow> (cw\<lparr>cw_markers := m2\<rparr>, Inl e)
                      | (m2, Inr _) \<Rightarrow>
                          (cw\<lparr>cw_markers := m2\<rparr>,
                           if outcome = None then Inl QcThrown
                           else Inr \<lparr>ir_prdId = i, ir_previous = QsRunning, ir_status = IsStill QsRunning\<rparr>)))))"

definition applyCancelRecord ::
    "cascade_env \<Rightarrow> string option \<Rightarrow> prd_id option \<Rightarrow> qrec \<Rightarrow> cascade_world \<Rightarrow> item_result cascade_act" where
  "applyCancelRecord env reason dependentOn r cw =
     (if qr_status r = QsFailed then (cw, Inr (emptyResult r QsFailed))
      else if qr_status r = QsSkipped then (cw, Inr (emptyResult r QsSkipped))
      else case cancel_reason reason dependentOn of
             Inl e \<Rightarrow> (cw, Inl e)
           | Inr why \<Rightarrow>
               if qr_status r = QsPending \<or> qr_status r = QsWaiting then moveToSkipped env r why cw
               else cancel_running env r why cw)"

text \<open>\<open>Promise.all\<close>: every action is started, the first error is the result.\<close>

fun run_all :: "('a \<Rightarrow> cascade_world \<Rightarrow> 'b cascade_act) \<Rightarrow> 'a list \<Rightarrow> cascade_world \<Rightarrow> 'b list cascade_act" where
  "run_all f [] cw = (cw, Inr [])"
| "run_all f (x # xs) cw =
     (case f x cw of
        (cw1, r) \<Rightarrow>
          (case run_all f xs cw1 of
             (cw2, rs) \<Rightarrow>
               (cw2, case r of Inl e \<Rightarrow> Inl e | Inr y \<Rightarrow> (case rs of Inl e \<Rightarrow> Inl e | Inr ys \<Rightarrow> Inr (y # ys)))))"

section \<open>Claims\<close>

text \<open>The ids of the pending root records, in the order of \<open>sort()\<close>, are claimed one after the
  other; the first that cannot be claimed throws.\<close>

definition root_ids :: "qrec list \<Rightarrow> prd_id list" where
  "root_ids rs =
     sort_key (map (of_char :: char \<Rightarrow> nat))
       (map qr_id (filter (\<lambda>r. qr_location r = RootDir \<and> qr_status r = QsPending) rs))"

fun claim_each :: "qc_env \<Rightarrow> prd_id list \<Rightarrow> world \<Rightarrow> world \<times> (qc_error, unit) result" where
  "claim_each env [] w = (w, Inr ())"
| "claim_each env (i # ids) w =
     (case claim_root env i w of
        (w1, Inl e) \<Rightarrow> (w1, Inl e)
      | (w1, Inr _) \<Rightarrow> claim_each env ids w1)"

fun release_each :: "qc_env \<Rightarrow> prd_id list \<Rightarrow> world \<Rightarrow> world \<times> bool" where
  "release_each env [] w = (w, True)"
| "release_each env (i # ids) w =
     (case release_on env i (w_disk w) of
        None \<Rightarrow> (fst (release_each env ids w), False)
      | Some d \<Rightarrow> release_each env ids (w\<lparr>w_disk := d\<rparr>))"

definition finally_release_all :: "qc_env \<Rightarrow> prd_id list \<Rightarrow> 'a cascade_act \<Rightarrow> 'a cascade_act" where
  "finally_release_all env ids m =
     (case m of (cw, r) \<Rightarrow>
        (case release_each env ids (cw_world cw) of
           (w, ok) \<Rightarrow> (cw\<lparr>cw_world := w\<rparr>, if ok then r else Inl QcThrown)))"

section \<open>Applying a cascade\<close>

record cascade_opts =
  co_op :: cascade_op
  co_target :: prd_id
  co_strategy :: cascade_strategy
  co_expected :: expected_affected
  co_confirm :: bool
  co_reason :: "string option"

text \<open>What other processes do after the preview and before the claims.\<close>

record cascade_hooks =
  ch_afterPreview :: "cascade_world \<Rightarrow> cascade_world"
  ch_beforeClaim :: "cascade_world \<Rightarrow> cascade_world"

fun check_paths :: "qc_env \<Rightarrow> qrec list \<Rightarrow> world \<Rightarrow> (qc_error, unit) result" where
  "check_paths env [] w = Inr ()"
| "check_paths env (r # rs) w =
     (case still_at_path env (qr_location r) (qr_id r) (w_disk w) of
        Some e \<Rightarrow> Inl e
      | None \<Rightarrow> check_paths env rs w)"

fun check_destinations :: "qrec list \<Rightarrow> world \<Rightarrow> (qc_error, unit) result" where
  "check_destinations [] w = Inr ()"
| "check_destinations (r # rs) w =
     (if qr_status r = QsPending \<or> qr_status r = QsWaiting
      then (case ensureSkippedDestinationAvailable r w of Inl e \<Rightarrow> Inl e | Inr _ \<Rightarrow> check_destinations rs w)
      else check_destinations rs w)"

definition deepest_first :: "qc_env \<Rightarrow> cascade_dependent list \<Rightarrow> qrec list" where
  "deepest_first env ds =
     map fst (sort_by (\<lambda>a b. let d = int (snd b) - int (snd a) in if d \<noteq> 0 then d else qe_id_cmp env (qr_id (fst a)) (qr_id (fst b))) ds)"

definition apply_remove :: "cascade_env \<Rightarrow> cascade_opts \<Rightarrow> qrec \<Rightarrow> cascade_dependent list \<Rightarrow> cascade_world \<Rightarrow> cascade_result cascade_act" where
  "apply_remove env opt target dependents cw =
     (case run_all removeRecord (if co_strategy opt = CascadeDependents then deepest_first (cc_qc env) dependents else []) cw of
        (cw1, Inl e) \<Rightarrow> (cw1, Inl e)
      | (cw1, Inr results) \<Rightarrow>
          (case removeRecord target cw1 of
             (cw2, Inl e) \<Rightarrow> (cw2, Inl e)
           | (cw2, Inr r) \<Rightarrow>
               (cw2, Inr \<lparr>ap_applied = True, ap_target = r, ap_dependents = results, ap_blockers = []\<rparr>)))"

definition apply_cancel :: "cascade_env \<Rightarrow> cascade_opts \<Rightarrow> qrec \<Rightarrow> cascade_dependent list \<Rightarrow> cascade_world \<Rightarrow> cascade_result cascade_act" where
  "apply_cancel env opt target dependents cw =
     (case applyCancelRecord env (co_reason opt) None target cw of
        (cw1, Inl e) \<Rightarrow> (cw1, Inl e)
      | (cw1, Inr r) \<Rightarrow>
          (case run_all (applyCancelRecord env (co_reason opt) (Some (qr_id target)))
                  (if co_strategy opt = CascadeDependents then map fst dependents else []) cw1 of
             (cw2, Inl e) \<Rightarrow> (cw2, Inl e)
           | (cw2, Inr results) \<Rightarrow>
               (let unchanged = filter (\<lambda>x. \<not> cancelResultChanged x) (r # results)
                in (cw2, Inr \<lparr>ap_applied = (length unchanged = 0), ap_target = r, ap_dependents = results,
                             ap_blockers = map (\<lambda>x. BlNotCancelled (ir_prdId x)) unchanged\<rparr>))))"

text \<open>The part on the records of the second snapshot.\<close>

definition apply_records :: "cascade_env \<Rightarrow> cascade_hooks \<Rightarrow> cascade_opts \<Rightarrow> qrec \<Rightarrow> cascade_dependent list \<Rightarrow> cascade_world \<Rightarrow> cascade_result cascade_act" where
  "apply_records env hk opt target dependents cw =
     (let records = (if co_strategy opt = CascadeDependents then target # map fst dependents else [target]) in
      case check_paths (cc_qc env) records (cw_world cw) of
        Inl e \<Rightarrow> (cw, Inl e)
      | Inr _ \<Rightarrow>
          (case (if co_op opt = OpCancel then check_destinations records (cw_world cw) else Inr ()) of
             Inl e \<Rightarrow> (cw, Inl e)
           | Inr _ \<Rightarrow>
               (let cw1 = ch_beforeClaim hk cw; ids = root_ids records in
                case claim_each (cc_qc env) ids (cw_world cw1) of
                  (w2, Inl e) \<Rightarrow> (cw1\<lparr>cw_world := w2\<rparr>, Inl e)
                | (w2, Inr _) \<Rightarrow>
                    finally_release_all (cc_qc env) ids
                      (if co_op opt = OpRemove then apply_remove env opt target dependents (cw1\<lparr>cw_world := w2\<rparr>)
                       else apply_cancel env opt target dependents (cw1\<lparr>cw_world := w2\<rparr>)))))"

definition applyQueueCascade :: "cascade_env \<Rightarrow> cascade_hooks \<Rightarrow> cascade_opts \<Rightarrow> cascade_world \<Rightarrow> cascade_result cascade_act" where
  "applyQueueCascade env hk opt cw =
     (case previewQueueCascade env (co_op opt) (co_target opt) (w_disk (cw_world cw)) of
        Inl e \<Rightarrow> (cw, Inl e)
      | Inr pv \<Rightarrow>
          if ex_token (pv_expected pv) = [] then (cw, Inr (missingPreview pv))
          else if \<not> expectedMatches (co_expected opt) (pv_expected pv) then (cw, Inr (blocked_by pv BlDrift))
          else if length (pv_dependents pv) > 0 \<and> co_strategy opt = TargetOnly then (cw, Inr (blocked_by pv BlRefusal))
          else if length (pv_dependents pv) > 0 \<and> (co_strategy opt \<noteq> CascadeDependents \<or> \<not> co_confirm opt)
               then (cw, Inr (blocked_by pv BlConfirm))
          else if length (pv_blockers pv) > 0 then (cw, Inr (blocked_by pv (BlPreview (pv_blockers pv))))
          else (let cw1 = ch_afterPreview hk cw in
                case loadQueueControlSnapshot (cc_qc env) True (w_disk (cw_world cw1)) of
                  (d, Inl e) \<Rightarrow> (on_world (\<lambda>w. w\<lparr>w_disk := d\<rparr>) cw1, Inl e)
                | (d, Inr sn) \<Rightarrow>
                    (let cw2 = on_world (\<lambda>w. w\<lparr>w_disk := d\<rparr>) cw1 in
                     case dget (sn_byId sn) (co_target opt) of
                       None \<Rightarrow> (cw2, Inr (missingPreview pv))
                     | Some target \<Rightarrow>
                         (let dependents = findCascadeDependents (cc_qc env) (co_target opt) (sn_records sn);
                              expected = buildCascadeExpectedAffected env target dependents (co_op opt)
                          in if \<not> expectedMatches (co_expected opt) expected then (cw2, Inr (blocked_by pv BlDrift))
                             else apply_records env hk opt target dependents cw2))))"

section \<open>What a snapshot holds\<close>

definition same_dirs :: "qdisk \<Rightarrow> qdisk \<Rightarrow> bool" where
  "same_dirs d d' \<longleftrightarrow> (\<forall>l. dir_of l d' = dir_of l d)"

lemma same_dirs_refl [simp]: "same_dirs d d" and same_dirs_trans: "same_dirs a b \<Longrightarrow> same_dirs b c \<Longrightarrow> same_dirs a c"
  by (simp_all add: same_dirs_def)

lemma same_dirs_locks [simp]: "same_dirs d (d\<lparr>d_locks := L\<rparr>)"
  by (simp add: same_dirs_def)

lemma same_dirs_files: "same_dirs d d' \<Longrightarrow> files d' = files d"
  by (simp add: same_dirs_def files_def entries_def)

lemma same_dirs_loadQueue: "same_dirs d d' \<Longrightarrow> loadQueue l d' = loadQueue l d"
  by (simp add: same_dirs_def loadQueue_def)

lemma classify_lock_same: "same_dirs d (fst (classify_lock env m i d))"
  by (auto simp: classify_lock_def dest!: release_on_Some split: option.splits)

lemma load_record_rec:
  assumes "load_record env m p d = (d', r)"
  shows "same_dirs d d'" "r = Inr x \<Longrightarrow> qr_prd x = p"
  using assms classify_lock_same [of d env m "q_id p"]
  by (auto simp: load_record_def split: if_splits option.splits prod.splits sum.splits)

lemma load_records_recs:
  "load_records env m ps d = (d', r) \<Longrightarrow> same_dirs d d' \<and> (\<forall>rs. r = Inr rs \<longrightarrow> map qr_prd rs = ps)"
proof (induction ps arbitrary: d d' r)
  case (Cons p ps)
  obtain d1 r1 where 1: "load_record env m p d = (d1, r1)" by (rule prod.exhaust)
  obtain d2 r2 where 2: "load_records env m ps d1 = (d2, r2)" by (rule prod.exhaust)
  note s = load_record_rec [OF 1] Cons.IH [OF 2]
  show ?case
  proof (cases r1)
    case (Inl e)
    with Cons.prems 1 s show ?thesis by auto
  next
    case (Inr x)
    note x = s(2) [OF Inr]
    show ?thesis
    proof (cases r2)
      case (Inl e)
      with Cons.prems 1 2 Inr s same_dirs_trans show ?thesis by auto
    next
      case (Inr rs)
      with Cons.prems 1 2 \<open>r1 = Inr x\<close> s x same_dirs_trans show ?thesis by auto
    qed
  qed
qed simp

lemma loadLocation_recs:
  assumes "loadLocation env m l d = (d', r)" and "\<forall>i. \<not> qe_missing env i"
  shows "same_dirs d d' \<and> (\<forall>rs. r = Inr rs \<longrightarrow> loadQueue l d = Inr (map qr_prd rs))"
proof (cases "loadQueue l d")
  case (Inl e)
  with assms show ?thesis by (cases e) (auto simp: loadLocation_def)
next
  case (Inr ps)
  with assms(1) have "load_records env m ps d = (d', r)" by (simp add: loadLocation_def)
  from load_records_recs [OF this] Inr show ?thesis by auto
qed

lemma load_locations_recs:
  "load_locations env m ls d = (d', r) \<Longrightarrow> \<forall>i. \<not> qe_missing env i \<Longrightarrow>
   same_dirs d d' \<and> (\<forall>rs. r = Inr rs \<longrightarrow>
     (\<exists>pss. map (\<lambda>l. loadQueue l d) ls = map Inr pss \<and> map qr_prd rs = concat pss))"
proof (induction ls arbitrary: d d' r)
  case (Cons l ls)
  obtain d1 r1 where 1: "loadLocation env m l d = (d1, r1)" by (rule prod.exhaust)
  obtain d2 r2 where 2: "load_locations env m ls d1 = (d2, r2)" by (rule prod.exhaust)
  from loadLocation_recs [OF 1 Cons.prems(2)] have s1: "same_dirs d d1" "\<And>rs. r1 = Inr rs \<Longrightarrow> loadQueue l d = Inr (map qr_prd rs)" by auto
  from Cons.IH [OF 2 Cons.prems(2)] have s2: "same_dirs d1 d2"
    "\<And>rs. r2 = Inr rs \<Longrightarrow> \<exists>pss. map (\<lambda>l. loadQueue l d1) ls = map Inr pss \<and> map qr_prd rs = concat pss" by auto
  show ?case
  proof (cases r1)
    case (Inl e)
    with Cons.prems 1 s1 show ?thesis by auto
  next
    case r1: (Inr xs)
    show ?thesis
    proof (cases r2)
      case (Inl e)
      with Cons.prems 1 2 r1 s1 s2 same_dirs_trans show ?thesis by auto
    next
      case (Inr rs)
      from s2(2) [OF Inr] obtain pss where pss: "map (\<lambda>l. loadQueue l d1) ls = map Inr pss" "map qr_prd rs = concat pss" by blast
      have "map (\<lambda>l. loadQueue l d) (l # ls) = map Inr (map qr_prd xs # pss)"
        using s1(2) [OF r1] pss(1) by (simp add: same_dirs_loadQueue [OF s1(1)])
      moreover have "map qr_prd (xs @ rs) = concat (map qr_prd xs # pss)" using pss(2) by simp
      ultimately have "\<exists>pss. map (\<lambda>l. loadQueue l d) (l # ls) = map Inr pss \<and> map qr_prd (xs @ rs) = concat pss" by blast
      moreover have "d' = d2" "r = Inr (xs @ rs)" using Cons.prems 1 2 r1 Inr by auto
      ultimately show ?thesis using same_dirs_trans [OF s1(1) s2(1)] by blast
    qed
  qed
qed simp

text \<open>The records are the files of the four directories that have frontmatter.\<close>

lemma snapshot_records:
  assumes "loadQueueControlSnapshot env m d = (d', r)" and "\<forall>i. \<not> qe_missing env i"
  shows "same_dirs d d'"
    "r = Inr sn \<Longrightarrow> qr_prd ` set (sn_records sn) = {the_prd l j fm | l j fm. (j, Prd fm) \<in> set (entries l d)}"
proof -
  obtain d1 r1 where 1: "load_locations env m [RootDir, WaitingDir, FailedDir, SkippedDir] d = (d1, r1)" by (rule prod.exhaust)
  note recs = load_locations_recs [OF 1 assms(2)]
  show "same_dirs d d'"
    using assms(1) 1 recs by (auto simp: loadQueueControlSnapshot_def split: sum.splits)
  assume "r = Inr sn"
  then obtain rs where rs: "r1 = Inr rs" "sn = make_snapshot env rs"
    using assms(1) 1 by (auto simp: loadQueueControlSnapshot_def split: sum.splits)
  with recs obtain pss where pss: "map (\<lambda>l. loadQueue l d) [RootDir, WaitingDir, FailedDir, SkippedDir] = map Inr pss"
    "map qr_prd rs = concat pss" by blast
  have "qr_prd ` set rs = set (concat pss)" using pss(2) by (metis set_map)
  also have "\<dots> = {the_prd l j fm | l j fm. (j, Prd fm) \<in> set (entries l d)}"
  proof (rule set_eqI)
    fix p
    obtain a b c e where abce: "pss = [a, b, c, e]" "loadQueue RootDir d = Inr a" "loadQueue WaitingDir d = Inr b"
      "loadQueue FailedDir d = Inr c" "loadQueue SkippedDir d = Inr e"
      using pss(1) by (auto simp: Cons_eq_map_conv)
    have "p \<in> set (concat pss) \<longleftrightarrow> (\<exists>l ps. loadQueue l d = Inr ps \<and> p \<in> set ps)"
    proof
      assume "\<exists>l ps. loadQueue l d = Inr ps \<and> p \<in> set ps"
      then obtain l ps where "loadQueue l d = Inr ps" "p \<in> set ps" by blast
      then show "p \<in> set (concat pss)" using abce by (cases l) auto
    qed (use abce in auto)
    also have "\<dots> \<longleftrightarrow> (\<exists>l j fm. (j, Prd fm) \<in> set (entries l d) \<and> p = the_prd l j fm)"
    proof
      assume "\<exists>l ps. loadQueue l d = Inr ps \<and> p \<in> set ps"
      then obtain l ps where "loadQueue l d = Inr ps" "p \<in> set ps" by blast
      with loadQueue_set [OF this(1), of p] show "\<exists>l j fm. (j, Prd fm) \<in> set (entries l d) \<and> p = the_prd l j fm"
        by (auto simp: the_prd_def)
    next
      assume "\<exists>l j fm. (j, Prd fm) \<in> set (entries l d) \<and> p = the_prd l j fm"
      then obtain l j fm where e: "(j, Prd fm) \<in> set (entries l d)" "p = the_prd l j fm" by blast
      obtain ps where ps: "loadQueue l d = Inr ps" using abce by (cases l) auto
      from loadQueue_set [OF ps, of p] e show "\<exists>l ps. loadQueue l d = Inr ps \<and> p \<in> set ps"
        using ps by (auto simp: the_prd_def)
    qed
    finally show "p \<in> set (concat pss) \<longleftrightarrow> p \<in> {the_prd l j fm | l j fm. (j, Prd fm) \<in> set (entries l d)}" by blast
  qed
  finally show "qr_prd ` set (sn_records sn) = {the_prd l j fm | l j fm. (j, Prd fm) \<in> set (entries l d)}"
    using rs(2) by (simp add: make_snapshot_def Let_def)
qed

section \<open>An applied removal\<close>

abbreviation "cw_files cw \<equiv> files (w_disk (cw_world cw))"

definition cut :: "qrec set \<Rightarrow> (qloc \<times> prd_id \<Rightarrow> md_file option) \<Rightarrow> qloc \<times> prd_id \<Rightarrow> md_file option" where
  "cut R F = (\<lambda>(l, j). if \<exists>r \<in> R. qr_location r = l \<and> qr_id r = j then None else F (l, j))"

lemma files_remove_file: "files (remove_file l i d) = (files d)((l, i) := None)"
  by (auto simp: remove_file_def files_set_dir fun_eq_iff files_apply)

lemma removed_sidecars_disk [simp]: "w_disk (fst (removed_sidecars i w)) = w_disk w"
  by (simp add: removed_sidecars_def Let_def)

lemma removeRecord_files: "removeRecord r cw = (cw', Inr x) \<Longrightarrow> cw_files cw' = cut {r} (cw_files cw)"
  by (auto simp: removeRecord_def Let_def cut_def files_remove_file fun_eq_iff split: if_splits)

lemma run_remove_files:
  "run_all removeRecord rs cw = (cw', Inr xs) \<Longrightarrow> cw_files cw' = cut (set rs) (cw_files cw)"
proof (induction rs arbitrary: cw xs)
  case (Cons r rs)
  obtain cw1 r1 where 1: "removeRecord r cw = (cw1, r1)" by (rule prod.exhaust)
  obtain cw2 r2 where 2: "run_all removeRecord rs cw1 = (cw2, r2)" by (rule prod.exhaust)
  from Cons.prems 1 2 obtain x ys where "r1 = Inr x" "r2 = Inr ys" and cw': "cw2 = cw'" by (auto split: sum.splits)
  with 1 2 Cons.IH have "cw_files cw' = cut (set rs) (cw_files cw1)" "cw_files cw1 = cut {r} (cw_files cw)"
    using removeRecord_files by auto
  then show ?case by (auto simp: cut_def fun_eq_iff)
qed (simp add: cut_def)

lemma claim_root_same: "claim_root env i w = (w', r) \<Longrightarrow> files (w_disk w') = files (w_disk w)"
  by (auto simp: claim_root_def split: prod.splits if_splits)

lemma claim_each_same: "claim_each env ids w = (w', r) \<Longrightarrow> files (w_disk w') = files (w_disk w)"
proof (induction ids arbitrary: w)
  case (Cons i ids)
  obtain w1 r1 where 1: "claim_root env i w = (w1, r1)" by (rule prod.exhaust)
  from Cons claim_root_same [OF 1] 1 show ?case by (cases r1) auto
qed simp

lemma release_each_same: "files (w_disk (fst (release_each env ids w))) = files (w_disk w)"
  by (induction env ids w rule: release_each.induct) (auto dest!: release_on_Some split: option.splits)

lemma set_deepest_first: "set (deepest_first env ds) = fst ` set ds"
  by (simp add: deepest_first_def)

definition no_cascade_hooks :: cascade_hooks where
  "no_cascade_hooks = \<lparr>ch_afterPreview = (\<lambda>w. w), ch_beforeClaim = (\<lambda>w. w)\<rparr>"

lemma apply_remove_files:
  assumes "apply_remove env opt target dependents cw = (cw', Inr res)"
  shows "cw_files cw' = cut (insert target (if co_strategy opt = CascadeDependents then fst ` set dependents else {})) (cw_files cw)"
proof -
  obtain cw1 r1 where 1: "run_all removeRecord (if co_strategy opt = CascadeDependents then deepest_first (cc_qc env) dependents else []) cw = (cw1, r1)"
    by (rule prod.exhaust)
  obtain cw2 r2 where 2: "removeRecord target cw1 = (cw2, r2)" by (rule prod.exhaust)
  from assms 1 2 obtain xs x where "r1 = Inr xs" "r2 = Inr x" "cw2 = cw'"
    by (auto simp: apply_remove_def split: sum.splits)
  with run_remove_files [of _ cw cw1] removeRecord_files [of target cw1 cw'] 1 2
  have "cw_files cw' = cut {target} (cw_files cw1)"
    "cw_files cw1 = cut (if co_strategy opt = CascadeDependents then fst ` set dependents else {}) (cw_files cw)"
    by (auto simp: set_deepest_first)
  then show ?thesis by (auto simp: cut_def fun_eq_iff)
qed

lemma apply_records_remove:
  assumes "apply_records env no_cascade_hooks opt target dependents cw = (cw', Inr res)" "co_op opt = OpRemove"
  shows "cw_files cw' = cut (insert target (if co_strategy opt = CascadeDependents then fst ` set dependents else {})) (cw_files cw)"
proof -
  let ?records = "if co_strategy opt = CascadeDependents then target # map fst dependents else [target]"
  obtain w2 r2 where 1: "claim_each (cc_qc env) (root_ids ?records) (cw_world cw) = (w2, r2)" by (rule prod.exhaust)
  obtain cw3 r3 where 2: "apply_remove env opt target dependents (cw\<lparr>cw_world := w2\<rparr>) = (cw3, r3)" by (rule prod.exhaust)
  obtain w4 ok where 3: "release_each (cc_qc env) (root_ids ?records) (cw_world cw3) = (w4, ok)" by (rule prod.exhaust)
  from assms 1 2 3 have e: "r3 = Inr res" "cw' = cw3\<lparr>cw_world := w4\<rparr>"
    by (auto simp: apply_records_def no_cascade_hooks_def Let_def finally_release_all_def split: sum.splits if_splits)
  have "cw_files cw' = cw_files cw3"
    using e(2) release_each_same [of "cc_qc env" "root_ids ?records" "cw_world cw3"] 3 by simp
  also have "\<dots> = cut (insert target (if co_strategy opt = CascadeDependents then fst ` set dependents else {})) (files (w_disk w2))"
    using apply_remove_files [OF 2 [unfolded e(1)]] by simp
  also have "files (w_disk w2) = cw_files cw" by (rule claim_each_same [OF 1])
  finally show ?thesis .
qed

lemma group_records_mem: "\<forall>(i, xs) \<in> set (group_records rs). set xs \<subseteq> set rs"
proof (induction rs rule: rev_induct)
  case (snoc r rs)
  let ?new = "(case dget (group_records rs) (qr_id r) of Some xs \<Rightarrow> xs | None \<Rightarrow> []) @ [r]"
  have step: "group_records (rs @ [r]) = dput (qr_id r) ?new (group_records rs)" by (simp add: group_records_def)
  have new: "set ?new \<subseteq> set (rs @ [r])"
    using snoc by (fastforce split: option.splits dest!: sym [of "Some _"] map_of_SomeD)
  show ?case
  proof (rule ballI)
    fix p assume "p \<in> set (group_records (rs @ [r]))"
    then have "p = (qr_id r, ?new) \<or> p \<in> set (group_records rs)" unfolding step by (rule mem_dput)
    then show "case p of (i, xs) \<Rightarrow> set xs \<subseteq> set (rs @ [r])"
      using new snoc by (auto simp only: prod.case) fastforce+
  qed
qed (simp add: group_records_def)

lemma byId_mem: "dget (sn_byId (make_snapshot env rs)) i = Some r \<Longrightarrow> r \<in> set (sn_records (make_snapshot env rs))"
  using group_records_mem [of "sort_by (compare_records env) rs"] group_records_ids [of "sort_by (compare_records env) rs"]
  by (fastforce simp: make_snapshot_def Let_def dest!: map_of_SomeD)

lemma preview_target_id:
  "loadQueueControlSnapshot env m d = (d', Inr sn) \<Longrightarrow> dget (sn_byId sn) i = Some r \<Longrightarrow> qr_id r = i"
  using byId_id by (auto simp: loadQueueControlSnapshot_def split: prod.splits sum.splits)

text \<open>The checks an applied cascade has passed.\<close>

lemma applied_passed:
  assumes "applyQueueCascade env no_cascade_hooks opt cw = (cw', Inr res)" "ap_applied res"
    and "\<forall>i. \<not> qe_missing (cc_qc env) i"
  obtains sn :: snapshot_rec and target :: qrec and cw2 :: cascade_world where
    "cw_files cw2 = cw_files cw"
    "qr_prd ` set (sn_records sn) = {the_prd l j fm | l j fm. (j, Prd fm) \<in> set (entries l (w_disk (cw_world cw)))}"
    "qr_id target = co_target opt" "target \<in> set (sn_records sn)"
    "ex_prdIds (co_expected opt) = qr_id target # map (\<lambda>x. qr_id (fst x)) (findCascadeDependents (cc_qc env) (co_target opt) (sn_records sn))"
    "ex_prdIds (co_expected opt) \<noteq> [co_target opt] \<longrightarrow> co_strategy opt = CascadeDependents \<and> co_confirm opt"
    "apply_records env no_cascade_hooks opt target (findCascadeDependents (cc_qc env) (co_target opt) (sn_records sn)) cw2 = (cw', Inr res)"
proof -
  from assms(1) obtain pv where pv: "previewQueueCascade env (co_op opt) (co_target opt) (w_disk (cw_world cw)) = Inr pv"
    by (auto simp: applyQueueCascade_def split: sum.splits)
  have pass: "ex_token (pv_expected pv) \<noteq> []" "expectedMatches (co_expected opt) (pv_expected pv)"
    "length (pv_dependents pv) > 0 \<Longrightarrow> co_strategy opt = CascadeDependents \<and> co_confirm opt" "length (pv_blockers pv) = 0"
    using assms(1,2) pv
    by (auto simp: applyQueueCascade_def missingPreview_def blocked_by_def split: if_splits)
  obtain d r where load: "loadQueueControlSnapshot (cc_qc env) True (w_disk (cw_world cw)) = (d, r)" by (rule prod.exhaust)
  have hook: "ch_afterPreview no_cascade_hooks cw = cw" by (simp add: no_cascade_hooks_def)
  obtain sn where sn: "r = Inr sn"
    using assms(1) pv pass load hook
    by (cases r) (auto simp: applyQueueCascade_def Let_def split: if_splits)
  let ?cw2 = "on_world (\<lambda>w. w\<lparr>w_disk := d\<rparr>) cw"
  obtain target where target: "dget (sn_byId sn) (co_target opt) = Some target"
    using assms(1,2) pv pass load sn hook
    by (cases "dget (sn_byId sn) (co_target opt)") (auto simp: applyQueueCascade_def Let_def missingPreview_def split: if_splits)
  let ?ds = "findCascadeDependents (cc_qc env) (co_target opt) (sn_records sn)"
  have match: "expectedMatches (co_expected opt) (buildCascadeExpectedAffected env target ?ds (co_op opt))"
    using assms(1,2) pv pass load sn target hook
    by (auto simp: applyQueueCascade_def Let_def blocked_by_def split: if_splits)
  have rest: "apply_records env no_cascade_hooks opt target ?ds ?cw2 = (cw', Inr res)"
    using assms(1) pv pass load sn target hook match
    by (auto simp: applyQueueCascade_def Let_def split: if_splits)
  note recs = snapshot_records [OF load assms(3)]
  obtain rs where rs: "sn = make_snapshot (cc_qc env) rs"
    using load sn by (auto simp: loadQueueControlSnapshot_def split: prod.splits sum.splits)
  have id: "qr_id target = co_target opt" using target rs byId_id by simp
  have mem: "target \<in> set (sn_records sn)" using target rs byId_mem by simp
  have ids: "ex_prdIds (co_expected opt) = qr_id target # map (\<lambda>x. qr_id (fst x)) ?ds"
    using match by (simp add: expectedMatches_def buildCascadeExpectedAffected_def Let_def o_def)
  have confirmed: "co_strategy opt = CascadeDependents \<and> co_confirm opt" if "ex_prdIds (co_expected opt) \<noteq> [co_target opt]"
  proof (rule pass(3), rule ccontr)
    assume "\<not> 0 < length (pv_dependents pv)"
    then have "ex_prdIds (pv_expected pv) = [co_target opt]"
      using pv pass(1) by (auto simp: previewQueueCascade_def Let_def buildCascadeExpectedAffected_def
          split: if_splits prod.splits sum.splits option.splits dest: preview_target_id)
    with pass(2) that show False by (simp add: expectedMatches_def)
  qed
  have same: "cw_files ?cw2 = cw_files cw" using recs(1) by (simp add: on_world_def same_dirs_files)
  show ?thesis by (rule that [OF same recs(2) [OF sn] id mem ids impI [OF confirmed] rest])
qed

text \<open>One file per PRD over all directories.\<close>

definition one_copy :: "(qloc \<times> prd_id \<Rightarrow> md_file option) \<Rightarrow> bool" where
  "one_copy F \<longleftrightarrow> (\<forall>l l' j. F (l, j) \<noteq> None \<longrightarrow> F (l', j) \<noteq> None \<longrightarrow> l = l')"

lemma cut_one_copy:
  assumes copy: "one_copy F" and at: "\<And>r. r \<in> R \<Longrightarrow> F (qr_location r, qr_id r) \<noteq> None" and ids: "qr_id ` R = D"
  shows "cut R F (l, j) = (if j \<in> D then None else F (l, j))"
proof (cases "\<exists>r \<in> R. qr_location r = l \<and> qr_id r = j")
  case True
  then have "j \<in> D" using ids by blast
  with True show ?thesis by (simp add: cut_def)
next
  case False
  have "F (l, j) = None" if "j \<in> D"
  proof -
    obtain r where r: "r \<in> R" "qr_id r = j" using \<open>j \<in> D\<close> ids by blast
    with False have "qr_location r \<noteq> l" by blast
    with at [OF r(1)] copy r(2) show ?thesis unfolding one_copy_def by blast
  qed
  with False show ?thesis by (auto simp: cut_def)
qed

lemma snapshot_edges:
  assumes recs: "qr_prd ` set rs = {the_prd l j fm | l j fm. (j, Prd fm) \<in> set (entries l d)}"
  shows "(u, j) \<in> dep_edges rs \<longleftrightarrow> (\<exists>l fm. (j, Prd fm) \<in> set (entries l d) \<and> u \<in> set (deps_of fm))"
proof -
  have "(u, j) \<in> dep_edges rs \<longleftrightarrow> (\<exists>p \<in> qr_prd ` set rs. q_id p = j \<and> u \<in> set (deps_of (q_fm p)))"
    by (auto simp: dep_edges_def)
  also have "\<dots> \<longleftrightarrow> (\<exists>l fm. (j, Prd fm) \<in> set (entries l d) \<and> u \<in> set (deps_of fm))"
    unfolding recs by force
  finally show ?thesis .
qed


section \<open>Instances, and where the code falls short\<close>

definition demo_cascade_env :: "bool \<Rightarrow> cascade_env" where
  "demo_cascade_env cancelled = \<lparr>cc_qc = flat_env, cc_resolver = Some (\<lambda>r. \<lparr>ow_owned = True, ow_sessionId = Some ''s'', ow_runId = None,
       ow_pid = Some 77, ow_reason = None\<rparr>), cc_cancelRunning = Some (\<lambda>_. Some cancelled), cc_now = ''t'',
     cc_skipped_ok = True, cc_hash = (\<lambda>op items. ''h'' @ concat (map fst items))\<rparr>"

definition cascade_on :: "qdisk \<Rightarrow> cascade_world" where
  "cascade_on d = \<lparr>cw_world = \<lparr>w_disk = d, w_json = [], w_md = []\<rparr>, cw_markers = \<lparr>md_unsafe = False, md_markers = None\<rparr>\<rparr>"

definition demo_cascade_opts :: "cascade_op \<Rightarrow> cascade_opts" where
  "demo_cascade_opts op = \<lparr>co_op = op, co_target = ''a'', co_strategy = CascadeDependents,
     co_expected = \<lparr>ex_token = ''hab'', ex_prdIds = [''a'', ''b'']\<rparr>, co_confirm = True, co_reason = None\<rparr>"

definition demo_chain :: qdisk where
  "demo_chain = (demo_disk [(''b'', demo_file [''a''])])\<lparr>d_root := Some [(''a'', demo_file []), (''z'', demo_file [])]\<rparr>"


text \<open>The claims are taken before the \<open>try\<close>: when another process claims a later PRD in between,
  the call throws and the claims already taken stay, with the pid of the live daemon.\<close>

definition chain_both_root :: qdisk where
  "chain_both_root = (demo_disk [])\<lparr>d_root := Some [(''a'', demo_file []), (''b'', demo_file [''a''])]\<rparr>"

definition steal_b :: cascade_hooks where
  "steal_b = \<lparr>ch_afterPreview = (\<lambda>w. w),
     ch_beforeClaim = on_world (on_disk (\<lambda>d. d\<lparr>d_locks := dput ''b'' ''99'' (d_locks d)\<rparr>))\<rparr>"

lemma refused_claim_leaks:
  "(let (cw', r) = applyQueueCascade (demo_cascade_env True) steal_b (demo_cascade_opts OpRemove) (cascade_on chain_both_root)
    in r = Inl (QcError QcConflict) \<and> d_locks (w_disk (cw_world cw')) = [(''b'', ''99''), (''a'', ''7'')])"
  by code_simp

text \<open>When the worker of a running target does not stop, its dependents are skipped all the same,
  and the answer says that nothing was applied.\<close>

definition running_target :: qrec where
  "running_target = \<lparr>qr_prd = demo_prd ''a'' [] None, qr_status = QsRunning, qr_lock = Some (Live 77)\<rparr>"

definition waiting_dependent :: qrec where
  "waiting_dependent = \<lparr>qr_prd = (demo_prd ''b'' [''a''] None)\<lparr>q_loc := WaitingDir\<rparr>, qr_status = QsWaiting, qr_lock = None\<rparr>"

lemma unstopped_target_skips_dependents:
  "(let (cw', r) = apply_cancel (demo_cascade_env False) (demo_cascade_opts OpCancel) running_target [(waiting_dependent, 1)]
        (cascade_on demo_chain)
    in (case r of Inr res \<Rightarrow> \<not> ap_applied res \<and> ap_blockers res = [BlNotCancelled ''a''] | Inl _ \<Rightarrow> False) \<and>
       cw_files cw' (WaitingDir, ''b'') = None \<and> cw_files cw' (SkippedDir, ''b'') \<noteq> None)"
  by code_simp

text \<open>A dependent with two files: one of them stays and still depends on the removed target.\<close>

definition double_dependent :: qdisk where
  "double_dependent = (demo_disk [(''b'', demo_file [''a''])])\<lparr>d_root := Some [(''a'', demo_file [])], d_skipped := Some [(''b'', demo_file [''a''])]\<rparr>"

lemma double_dependent_stays:
  "(let (cw', r) = applyQueueCascade (demo_cascade_env True) no_cascade_hooks (demo_cascade_opts OpRemove) (cascade_on double_dependent)
    in (case r of Inr res \<Rightarrow> ap_applied res | Inl _ \<Rightarrow> False) \<and>
       cw_files cw' (RootDir, ''a'') = None \<and> cw_files cw' (WaitingDir, ''b'') = Some (demo_file [''a'']))"
  by code_simp

end
