(* ===== verification/QueueRecovery.thy ===== *)
theory QueueRecovery
  imports ResumeCascade DispatchValidation
begin

text \<open>
  Recovery of a failed PRD with its skipped descendants (\<open>queue/recovery-preflight.ts\<close>,
  \<open>queue/recovery-cascade.ts\<close>): the classification of dependencies, the simulation of repairs,
  the analysis that lists the operations, and their guarded application. The lemmas show what
  repairs may change, that an application does exactly the confirmed operations, and that
  reactivated descendants always wait.
\<close>

section \<open>Classification of the dependencies\<close>

datatype dep_status = DepBlocking | DepSatisfied | DepTerminal | DepStale

record dep_class =
  dc_target :: prd_id
  dc_dep :: prd_id
  dc_status :: dep_status
  dc_queueStatus :: "qloc option"
  dc_terminalKind :: "completion_status option"
  dc_artifactUsable :: bool

text \<open>\<open>new Map(records)\<close>: of two records with one id the later wins.\<close>

definition by_id :: "queued_prd list \<Rightarrow> prd_id \<Rightarrow> queued_prd option" where
  "by_id rs i = List.find (\<lambda>r. q_id r = i) (rev rs)"

abbreviation "r_deps r \<equiv> deps_of (q_fm r)"
abbreviation "r_parent r \<equiv> fm_stack_parent (q_fm r)"

definition loc_completion :: "qloc \<Rightarrow> completion_status" where
  "loc_completion l = (if l = FailedDir then CFailed else CSkipped)"

definition classify_dep :: "queued_prd list \<Rightarrow> artifact list \<Rightarrow> completions \<Rightarrow> prd_id \<Rightarrow> prd_id \<Rightarrow> dep_class" where
  "classify_dep rs artifacts completions target dep =
     (let depRecord = by_id rs dep; completion = lookupCompletion completions dep;
          usable = hasUsableArtifact artifacts dep; loc = map_option q_loc depRecord;
          c = (\<lambda>st q k u. \<lparr>dc_target = target, dc_dep = dep, dc_status = st, dc_queueStatus = q, dc_terminalKind = k,
                 dc_artifactUsable = u\<rparr>)
      in if loc = Some RootDir \<or> loc = Some WaitingDir then c DepBlocking loc None usable
         else if usable then c DepSatisfied loc None True
         else if loc = Some FailedDir \<or> loc = Some SkippedDir
           then c DepTerminal loc (map_option loc_completion loc) False
         else if map_option co_status completion = Some CFailed \<or> map_option co_status completion = Some CSkipped
           then c DepTerminal None (map_option co_status completion) False
         else c DepStale None (map_option co_status completion) False)"

definition classifyDependencies ::
    "queued_prd list \<Rightarrow> prd_id list \<Rightarrow> artifact list \<Rightarrow> completions \<Rightarrow> dep_class list" where
  "classifyDependencies rs targets artifacts completions =
     concat (map (\<lambda>r. map (classify_dep rs artifacts completions (q_id r)) (r_deps r))
       (filter (\<lambda>r. q_id r \<in> set targets) rs))"

definition deriveAvailableRepairActions :: "dep_class list \<Rightarrow> (prd_id \<times> prd_id list) list" where
  "deriveAvailableRepairActions cs =
     fold (\<lambda>c m. if dc_status c \<noteq> DepSatisfied then m
        else dput (dc_target c) ((case dget m (dc_target c) of Some ds \<Rightarrow> ds | None \<Rightarrow> []) @ [dc_dep c]) m) cs []"

section \<open>Repair actions\<close>

datatype repair_action = RemoveDependsOn prd_id "prd_id list" | SetStackParent prd_id prd_id

text \<open>A JSON value as far as the validation looks at it.\<close>

datatype raw_value = RawString string | RawArray "raw_value list" | RawObject "(string \<times> raw_value) list" | RawOther

datatype repair_error = ActionNotObject | UnknownKind | UnsafeTarget | BadDependencyIds | UnsafeParent

fun raw_string :: "raw_value option \<Rightarrow> string option" where
  "raw_string (Some (RawString s)) = Some s"
| "raw_string _ = None"

definition isSafePrdId :: "raw_value option \<Rightarrow> bool" where
  "isSafePrdId v \<longleftrightarrow> (case raw_string v of Some s \<Rightarrow> assertSafePrdId s | None \<Rightarrow> False)"

definition validate_fields :: "(string \<times> raw_value) list \<Rightarrow> (repair_error, repair_action) result" where
  "validate_fields fs =
     (let kind = raw_string (dget fs ''kind''); target = dget fs ''targetPrdId'' in
      if kind \<noteq> Some ''remove-depends-on'' \<and> kind \<noteq> Some ''set-stack-parent'' then Inl UnknownKind
      else if \<not> isSafePrdId target then Inl UnsafeTarget
      else if kind = Some ''remove-depends-on''
      then (case dget fs ''dependencyIds'' of
              Some (RawArray vs) \<Rightarrow>
                if vs = [] \<or> \<not> list_all (\<lambda>v. isSafePrdId (Some v)) vs then Inl BadDependencyIds
                else Inr (RemoveDependsOn (the (raw_string target)) (map (\<lambda>v. the (raw_string (Some v))) vs))
            | _ \<Rightarrow> Inl BadDependencyIds)
      else if \<not> isSafePrdId (dget fs ''selectedParentId'') then Inl UnsafeParent
      else Inr (SetStackParent (the (raw_string target)) (the (raw_string (dget fs ''selectedParentId'')))))"

fun validateRepairAction :: "raw_value \<Rightarrow> (repair_error, repair_action) result" where
  "validateRepairAction (RawObject fs) = validate_fields fs"
| "validateRepairAction (RawArray vs) = validate_fields []"
| "validateRepairAction _ = Inl ActionNotObject"

fun validateRepairActions :: "raw_value option \<Rightarrow> repair_action list \<times> nat" where
  "validateRepairActions None = ([], 0)"
| "validateRepairActions (Some (RawArray vs)) =
     (let rs = map validateRepairAction vs
      in (concat (map (\<lambda>r. case r of Inr a \<Rightarrow> [a] | Inl _ \<Rightarrow> []) rs), length (filter isl rs)))"
| "validateRepairActions (Some _) = ([], 1)"

text \<open>The dependencies and the parent a target has in the simulation.\<close>

type_synonym sim_meta = "prd_id list \<times> prd_id option"
type_synonym simulation = "(prd_id \<times> sim_meta) list"

datatype repair_block = UnknownTarget | NeedsConfirmation | NotSatisfied prd_id | ParentNotDependency prd_id

datatype repair_result =
    RepairApplied repair_action sim_meta sim_meta
  | RepairBlocked repair_action repair_block

definition drop_parent :: "sim_meta \<Rightarrow> sim_meta" where
  "drop_parent m =
     (case m of (ds, Some p) \<Rightarrow> if p \<noteq> [] \<and> p \<notin> set ds then (ds, None) else m | _ \<Rightarrow> m)"

fun repair_target :: "repair_action \<Rightarrow> prd_id" where
  "repair_target (RemoveDependsOn t _) = t"
| "repair_target (SetStackParent t _) = t"

definition apply_repair :: "dep_class list \<Rightarrow> bool \<Rightarrow> repair_action \<Rightarrow> simulation \<Rightarrow> simulation \<times> repair_result" where
  "apply_repair cs confirm a sim =
     (case dget sim (repair_target a) of
        None \<Rightarrow> (sim, RepairBlocked a UnknownTarget)
      | Some m \<Rightarrow>
          (case a of
             RemoveDependsOn t ids \<Rightarrow>
               if \<not> confirm then (sim, RepairBlocked a NeedsConfirmation)
               else (case List.find (\<lambda>dep. \<not> list_ex (\<lambda>c. dc_target c = t \<and> dc_dep c = dep \<and> dc_status c = DepSatisfied) cs) ids of
                       Some bad \<Rightarrow> (sim, RepairBlocked a (NotSatisfied bad))
                     | None \<Rightarrow>
                         (let m' = drop_parent (filter (\<lambda>dep. dep \<notin> set ids) (fst m), snd m)
                          in (dput t m' sim, RepairApplied a m m')))
           | SetStackParent t p \<Rightarrow>
               if p \<notin> set (fst m) then (sim, RepairBlocked a (ParentNotDependency p))
               else (dput t (fst m, Some p) sim, RepairApplied a m (fst m, Some p))))"

fun applyRepairsToSimulation ::
    "dep_class list \<Rightarrow> bool \<Rightarrow> repair_action list \<Rightarrow> simulation \<Rightarrow> simulation \<times> repair_result list" where
  "applyRepairsToSimulation cs confirm [] sim = (sim, [])"
| "applyRepairsToSimulation cs confirm (a # as) sim =
     (case apply_repair cs confirm a sim of
        (sim1, r) \<Rightarrow> (case applyRepairsToSimulation cs confirm as sim1 of (sim2, rs) \<Rightarrow> (sim2, r # rs)))"

section \<open>The preflight\<close>

datatype rec_notice =
    UnsafeSelected
  | UnknownSelected
  | SelectedNotFailed qloc
  | OutsideTerminal prd_id prd_id
  | MissingDependency prd_id prd_id
  | StaleDependency prd_id prd_id
  | DispatchBlocked prd_id blocker
  | InvalidRepairs
  | OperationDrift
  | UnsafeDirectory
  | UnsafeOperationId prd_id
  | UnsafePath prd_id
  | OpSourceMissing prd_id
  | OpTargetExists prd_id
  | RepairActionBlocked repair_action
  | RepairTargetMissing prd_id
  | MetadataWriteFailed prd_id
  | OperationFailed prd_id

record rec_preflight =
  rp_classes :: "dep_class list"
  rp_canApply :: bool
  rp_blockers :: "rec_notice list"
  rp_warnings :: "rec_notice list"
  rp_repairs :: "repair_result list"
  rp_simulated :: simulation

definition initial_simulation :: "queued_prd list \<Rightarrow> prd_id list \<Rightarrow> simulation" where
  "initial_simulation rs targets =
     fold (\<lambda>i m. case by_id rs i of None \<Rightarrow> m | Some r \<Rightarrow> dput i (r_deps r, r_parent r) m) targets []"

definition dispatch_blockers :: "queued_prd list \<Rightarrow> bool \<Rightarrow> simulation \<Rightarrow> prd_id list \<Rightarrow> rec_notice list" where
  "dispatch_blockers rs stackingEnabled sim targets =
     concat (map (\<lambda>i. case (by_id rs i, dget sim i) of
         (Some r, Some (ds, p)) \<Rightarrow> map (DispatchBlocked i) (sv_blockers (validateStackedDispatch i ds p stackingEnabled))
       | _ \<Rightarrow> []) targets)"

definition buildRecoveryPreflight ::
    "queued_prd list \<Rightarrow> prd_id list \<Rightarrow> artifact list \<Rightarrow> completions \<Rightarrow> bool \<Rightarrow> raw_value option \<Rightarrow> bool \<Rightarrow> rec_preflight" where
  "buildRecoveryPreflight rs targets artifacts completions stackingEnabled repairActions confirm =
     (let classes = classifyDependencies rs targets artifacts completions;
          validation = validateRepairActions repairActions;
          repaired = applyRepairsToSimulation classes confirm (fst validation) (initial_simulation rs targets);
          blockers = dispatch_blockers rs stackingEnabled (fst repaired) targets @ replicate (snd validation) InvalidRepairs
      in \<lparr>rp_classes = classes, rp_canApply = (length blockers = 0), rp_blockers = blockers,
          rp_warnings = map (\<lambda>c. StaleDependency (dc_target c) (dc_dep c)) (filter (\<lambda>c. dc_status c = DepStale) classes),
          rp_repairs = snd repaired, rp_simulated = fst repaired\<rparr>)"

section \<open>The analysis\<close>

datatype rec_op = MovePrd prd_id qloc qloc | RemoveSidecars prd_id

fun op_prd :: "rec_op \<Rightarrow> prd_id" where
  "op_prd (MovePrd i _ _) = i"
| "op_prd (RemoveSidecars i) = i"

definition loadQueueSnapshot :: "world \<Rightarrow> queued_prd list option" where
  "loadQueueSnapshot w =
     (case loadResumeQueueSnapshot w of
        None \<Rightarrow> None
      | Some sn \<Rightarrow> Some (rs_queue sn @ rs_waiting sn @ rs_failed sn @ rs_skipped sn))"

definition findSkippedDescendants :: "prd_id \<Rightarrow> queued_prd list \<Rightarrow> prd_id list" where
  "findSkippedDescendants selected rs = findDescendantIds selected (filter (\<lambda>r. q_loc r = SkippedDir) rs)"

definition dependency_blocker ::
    "queued_prd list \<Rightarrow> artifact list \<Rightarrow> completions \<Rightarrow> prd_id set \<Rightarrow> prd_id \<Rightarrow> prd_id \<Rightarrow> rec_notice list" where
  "dependency_blocker rs artifacts completions analyzed i dep =
     (if dep \<in> analyzed then []
      else case by_id rs dep of
             Some r \<Rightarrow> if q_loc r = FailedDir \<or> q_loc r = SkippedDir then [OutsideTerminal i dep] else []
           | None \<Rightarrow>
               (let c = lookupCompletion completions dep;
                    bare = (case c of Some x \<Rightarrow> co_status x = CCompleted \<and> \<not> co_artifactAvailable x | None \<Rightarrow> False)
                in if bare \<or> \<not> hasUsableArtifact artifacts dep then [MissingDependency i dep] else []))"

definition addDependencyBlockers ::
    "queued_prd list \<Rightarrow> artifact list \<Rightarrow> completions \<Rightarrow> prd_id set \<Rightarrow> rec_notice list" where
  "addDependencyBlockers rs artifacts completions analyzed =
     concat (map (\<lambda>r. concat (map (dependency_blocker rs artifacts completions analyzed (q_id r)) (r_deps r)))
       (filter (\<lambda>r. q_id r \<in> analyzed \<and> q_loc r = SkippedDir) rs))"

definition shouldMoveSkippedToQueueRoot :: "queued_prd list \<Rightarrow> artifact list \<Rightarrow> completions \<Rightarrow> prd_id \<Rightarrow> bool" where
  "shouldMoveSkippedToQueueRoot rs artifacts completions i =
     (case by_id rs i of
        None \<Rightarrow> False
      | Some r \<Rightarrow>
          list_all (\<lambda>dep. by_id rs dep = None \<and>
            (case lookupCompletion completions dep of
               Some c \<Rightarrow> \<not> (co_status c = CCompleted \<and> \<not> co_artifactAvailable c) | None \<Rightarrow> True) \<and>
            hasUsableArtifact artifacts dep) (r_deps r))"

definition buildOperations :: "queued_prd list \<Rightarrow> artifact list \<Rightarrow> completions \<Rightarrow> prd_id \<Rightarrow> prd_id list \<Rightarrow> rec_op list" where
  "buildOperations rs artifacts completions selected cascade =
     [MovePrd selected FailedDir RootDir, RemoveSidecars selected] @
     map (\<lambda>i. MovePrd i SkippedDir
        (if shouldMoveSkippedToQueueRoot rs artifacts completions i then RootDir else WaitingDir)) cascade"

record rec_analysis =
  ra_blockers :: "rec_notice list"
  ra_warnings :: "rec_notice list"
  ra_operations :: "rec_op list"
  ra_preflight :: "rec_preflight option"

definition emptyAnalyze :: "rec_notice \<Rightarrow> rec_analysis" where
  "emptyAnalyze n = \<lparr>ra_blockers = [n], ra_warnings = [], ra_operations = [], ra_preflight = None\<rparr>"

definition move_targets :: "rec_op list \<Rightarrow> prd_id list" where
  "move_targets ops = concat (map (\<lambda>x. case x of MovePrd i _ _ \<Rightarrow> [i] | RemoveSidecars _ \<Rightarrow> []) ops)"

definition registries :: "world \<Rightarrow> (artifact list \<times> completions) option" where
  "registries w =
     (case (loadArtifactRegistry (d_artifacts (w_disk w)), loadCompletionRegistry (d_completions (w_disk w))) of
        (Inr bs, Inr cs) \<Rightarrow> Some (bs, cs)
      | _ \<Rightarrow> None)"

text \<open>\<open>None\<close>: a file or a registry cannot be read.\<close>

definition analyzeQueueRecovery :: "bool \<Rightarrow> prd_id \<Rightarrow> world \<Rightarrow> rec_analysis option" where
  "analyzeQueueRecovery stackingEnabled selected w =
     (if \<not> assertSafePrdId selected then Some (emptyAnalyze UnsafeSelected)
      else case loadQueueSnapshot w of
        None \<Rightarrow> None
      | Some rs \<Rightarrow>
          (case by_id rs selected of
             None \<Rightarrow> Some (emptyAnalyze UnknownSelected)
           | Some r \<Rightarrow>
               if q_loc r \<noteq> FailedDir then Some (emptyAnalyze (SelectedNotFailed (q_loc r)))
               else (case registries w of
                  None \<Rightarrow> None
                | Some (bs, cs) \<Rightarrow>
                    (let cascade = findSkippedDescendants selected rs;
                         ops = buildOperations rs bs cs selected cascade;
                         pre = buildRecoveryPreflight rs (move_targets ops) bs cs stackingEnabled None False
                     in Some \<lparr>ra_blockers = addDependencyBlockers rs bs cs (insert selected (set cascade)) @ rp_blockers pre,
                           ra_warnings = rp_warnings pre, ra_operations = ops, ra_preflight = Some pre\<rparr>))))"

section \<open>The application\<close>

record recovery_env =
  rv_dirs_ok :: bool
  rv_path_ok :: "rec_op \<Rightarrow> bool"
  rv_write_ok :: "prd_id \<Rightarrow> bool"
  rv_op_ok :: "rec_op \<Rightarrow> bool"

text \<open>The operations as signatures, compared without order.\<close>

definition sameOperations :: "rec_op list \<Rightarrow> rec_op list \<Rightarrow> bool" where
  "sameOperations a b \<longleftrightarrow> mset a = mset b"

definition check_operation :: "recovery_env \<Rightarrow> world \<Rightarrow> rec_op \<Rightarrow> rec_notice option" where
  "check_operation env w x =
     (let i = op_prd x; source = (case x of MovePrd _ s _ \<Rightarrow> s | RemoveSidecars _ \<Rightarrow> FailedDir) in
      if \<not> assertSafePrdId i then Some (UnsafeOperationId i)
      else if \<not> file_exists source i (w_disk w) then Some (OpSourceMissing i)
      else if \<not> rv_path_ok env x then Some (UnsafePath i)
      else case x of
             MovePrd _ _ t \<Rightarrow> if file_exists t i (w_disk w) then Some (OpTargetExists i) else None
           | RemoveSidecars _ \<Rightarrow> None)"

fun first_notice :: "('a \<Rightarrow> rec_notice option) \<Rightarrow> 'a list \<Rightarrow> rec_notice option" where
  "first_notice f [] = None"
| "first_notice f (x # xs) = (case f x of Some n \<Rightarrow> Some n | None \<Rightarrow> first_notice f xs)"

definition preflightApply :: "recovery_env \<Rightarrow> rec_op list \<Rightarrow> rec_op list \<Rightarrow> world \<Rightarrow> rec_notice option" where
  "preflightApply env expected current w =
     (if \<not> sameOperations expected current then Some OperationDrift
      else if \<not> rv_dirs_ok env then Some UnsafeDirectory
      else first_notice (check_operation env w) expected)"

text \<open>Each applied repair rewrites the file as it was loaded with the fields after that repair, and
  deletes the parent if that repair dropped it.\<close>

definition repaired_fm :: "sim_meta \<Rightarrow> sim_meta \<Rightarrow> prd_fm \<Rightarrow> prd_fm" where
  "repaired_fm before after fm =
     (let fm1 = fm\<lparr>fm_depends_on := Some (fst after)\<rparr>;
          fm2 = (case snd after of Some p \<Rightarrow> fm1\<lparr>fm_stack_parent := Some p\<rparr> | None \<Rightarrow> fm1)
      in if snd before \<noteq> None \<and> snd after = None then fm2\<lparr>fm_stack_parent := None\<rparr> else fm2)"

fun writeRepairMetadata :: "recovery_env \<Rightarrow> queued_prd list \<Rightarrow> repair_result list \<Rightarrow> world \<Rightarrow> world \<times> rec_notice option" where
  "writeRepairMetadata env rs [] w = (w, None)"
| "writeRepairMetadata env rs (RepairBlocked _ _ # results) w = writeRepairMetadata env rs results w"
| "writeRepairMetadata env rs (RepairApplied a before after # results) w =
     (let i = repair_target a in
      case by_id rs i of
        None \<Rightarrow> (w, Some (RepairTargetMissing i))
      | Some r \<Rightarrow>
          if \<not> rv_write_ok env i \<or> \<not> file_exists (q_loc r) i (w_disk w) then (w, Some (MetadataWriteFailed i))
          else writeRepairMetadata env rs results
                 (on_disk (write_fm (q_loc r) i (repaired_fm before after (q_fm r))) w))"

text \<open>\<open>rename\<close>: an existing file at the target is replaced.\<close>

definition run_operation :: "recovery_env \<Rightarrow> rec_op \<Rightarrow> world \<Rightarrow> world \<times> bool" where
  "run_operation env x w =
     (case x of
        MovePrd i s t \<Rightarrow>
          if \<not> rv_op_ok env x then (on_disk (mkdirp t) w, False)
          else (case move_file s t i (w_disk w) of
                  Inl (_, d) \<Rightarrow> (w\<lparr>w_disk := d\<rparr>, False)
                | Inr d \<Rightarrow> (w\<lparr>w_disk := d\<rparr>, True))
      | RemoveSidecars i \<Rightarrow>
          if \<not> rv_op_ok env x then (w, False)
          else (w\<lparr>w_md := removeAll i (w_md w), w_json := ddel i (w_json w)\<rparr>, True))"

fun run_operations :: "recovery_env \<Rightarrow> rec_op list \<Rightarrow> world \<Rightarrow> world \<times> rec_op list \<times> rec_op option" where
  "run_operations env [] w = (w, [], None)"
| "run_operations env (x # xs) w =
     (case run_operation env x w of
        (w1, False) \<Rightarrow> (w1, [], Some x)
      | (w1, True) \<Rightarrow> (case run_operations env xs w1 of (w2, applied, failed) \<Rightarrow> (w2, x # applied, failed)))"

record recovery_opts =
  rx_selected :: prd_id
  rx_expected :: "rec_op list"
  rx_repairs :: "raw_value option"
  rx_confirm :: bool
  rx_stacking :: bool

record recovery_result =
  rr_applied :: bool
  rr_operations :: "rec_op list"
  rr_blockers :: "rec_notice list"

definition recovery_blocked :: "rec_notice list \<Rightarrow> recovery_result" where
  "recovery_blocked ns = \<lparr>rr_applied = False, rr_operations = [], rr_blockers = ns\<rparr>"

definition is_dispatch_blocked :: "rec_notice \<Rightarrow> bool" where
  "is_dispatch_blocked n = (case n of DispatchBlocked _ _ \<Rightarrow> True | _ \<Rightarrow> False)"

definition has_repairs :: "raw_value option \<Rightarrow> bool" where
  "has_repairs v = (case v of None \<Rightarrow> False | Some (RawArray vs) \<Rightarrow> length vs > 0 | Some _ \<Rightarrow> True)"

fun result_action :: "repair_result \<Rightarrow> repair_action" where
  "result_action (RepairApplied a _ _) = a"
| "result_action (RepairBlocked a _) = a"

fun not_applied :: "repair_result \<Rightarrow> bool" where
  "not_applied (RepairApplied _ _ _) = False"
| "not_applied (RepairBlocked _ _) = True"

definition write_and_run ::
    "recovery_env \<Rightarrow> queued_prd list \<Rightarrow> repair_result list \<Rightarrow> rec_op list \<Rightarrow> world \<Rightarrow> world \<times> recovery_result" where
  "write_and_run env rs results ops w =
     (case writeRepairMetadata env rs results w of
        (w1, Some n) \<Rightarrow> (w1, recovery_blocked [n])
      | (w1, None) \<Rightarrow>
          (case run_operations env ops w1 of
             (w2, applied, failed) \<Rightarrow>
               (w2, \<lparr>rr_applied = (length ops > 0 \<and> failed = None), rr_operations = applied,
                  rr_blockers = (case failed of Some x \<Rightarrow> [OperationFailed (op_prd x)] | None \<Rightarrow> [])\<rparr>)))"

definition apply_checked :: "recovery_env \<Rightarrow> recovery_opts \<Rightarrow> rec_op list \<Rightarrow> world \<Rightarrow> world \<times> recovery_result option" where
  "apply_checked env opt ops w =
     (case (loadQueueSnapshot w, registries w) of
        (Some rs, Some (bs, cs)) \<Rightarrow>
          (let pre = buildRecoveryPreflight rs (move_targets ops) bs cs (rx_stacking opt) (rx_repairs opt) (rx_confirm opt) in
           case List.find not_applied (rp_repairs pre) of
             Some r \<Rightarrow> (w, Some (recovery_blocked [RepairActionBlocked (result_action r)]))
           | None \<Rightarrow>
               if \<not> rp_canApply pre then (w, Some (recovery_blocked (rp_blockers pre)))
               else (case write_and_run env rs (rp_repairs pre) ops w of (w1, r) \<Rightarrow> (w1, Some r)))
      | _ \<Rightarrow> (w, None))"

definition applyQueueRecovery :: "recovery_env \<Rightarrow> recovery_opts \<Rightarrow> world \<Rightarrow> world \<times> recovery_result option" where
  "applyQueueRecovery env opt w =
     (case analyzeQueueRecovery (rx_stacking opt) (rx_selected opt) w of
        None \<Rightarrow> (w, None)
      | Some analysis \<Rightarrow>
          (let hard = (if has_repairs (rx_repairs opt)
                       then filter (\<lambda>n. \<not> is_dispatch_blocked n) (ra_blockers analysis) else ra_blockers analysis)
           in if length hard > 0 then (w, Some (recovery_blocked hard))
              else case preflightApply env (rx_expected opt) (ra_operations analysis) w of
                     Some n \<Rightarrow> (w, Some (recovery_blocked [n]))
                   | None \<Rightarrow> apply_checked env opt (ra_operations analysis) w))"

section \<open>What repairs may change\<close>

definition safe_action :: "repair_action \<Rightarrow> bool" where
  "safe_action a = (case a of RemoveDependsOn _ ids \<Rightarrow> [] \<notin> set ids | SetStackParent _ p \<Rightarrow> p \<noteq> [])"

text \<open>The metadata a target has after repairs, against the loaded ones: only dependencies classified
  as satisfied are missing, and the parent is none, a remaining dependency, or the loaded parent
  that was never a dependency.\<close>

definition repaired_from :: "dep_class list \<Rightarrow> bool \<Rightarrow> prd_id \<Rightarrow> sim_meta \<Rightarrow> sim_meta \<Rightarrow> bool" where
  "repaired_from cs confirm t before after \<longleftrightarrow>
     (\<exists>X. fst after = filter (\<lambda>dep. dep \<notin> X) (fst before) \<and> [] \<notin> X \<and> (X \<noteq> {} \<longrightarrow> confirm) \<and>
        (\<forall>dep \<in> X. \<exists>c \<in> set cs. dc_target c = t \<and> dc_dep c = dep \<and> dc_status c = DepSatisfied)) \<and>
     (snd after = None \<or> the (snd after) \<in> set (fst after) \<or>
        (snd after = snd before \<and> the (snd before) \<notin> set (fst before)))"

lemma repaired_from_refl: "repaired_from cs confirm t m m"
  by (auto simp: repaired_from_def intro!: exI [of _ "{}"])

lemma find_None_all: "List.find P xs = None \<longleftrightarrow> (\<forall>x \<in> set xs. \<not> P x)"
  by (auto simp: find_None_iff)

lemma repaired_from_remove:
  assumes "repaired_from cs True t m0 m" and "[] \<notin> set ids"
    and "\<forall>dep \<in> set ids. \<exists>c \<in> set cs. dc_target c = t \<and> dc_dep c = dep \<and> dc_status c = DepSatisfied"
  shows "repaired_from cs True t m0 (drop_parent (filter (\<lambda>dep. dep \<notin> set ids) (fst m), snd m))"
proof -
  let ?ds = "filter (\<lambda>dep. dep \<notin> set ids) (fst m)"
  let ?m' = "drop_parent (?ds, snd m)"
  obtain X where X: "fst m = filter (\<lambda>dep. dep \<notin> X) (fst m0)" "[] \<notin> X"
      "\<forall>dep \<in> X. \<exists>c \<in> set cs. dc_target c = t \<and> dc_dep c = dep \<and> dc_status c = DepSatisfied"
    using assms(1) by (auto simp: repaired_from_def)
  have d: "fst ?m' = ?ds" by (auto simp: drop_parent_def split: option.splits)
  have "?ds = filter (\<lambda>dep. dep \<notin> X \<union> set ids) (fst m0)" by (auto simp: X(1) intro: filter_cong)
  then have 1: "\<exists>Y. fst ?m' = filter (\<lambda>dep. dep \<notin> Y) (fst m0) \<and> [] \<notin> Y \<and> (Y \<noteq> {} \<longrightarrow> True) \<and>
        (\<forall>dep \<in> Y. \<exists>c \<in> set cs. dc_target c = t \<and> dc_dep c = dep \<and> dc_status c = DepSatisfied)"
    unfolding d using X(2,3) assms(2,3) by (intro exI [of _ "X \<union> set ids"]) auto
  have 2: "snd ?m' = None \<or> the (snd ?m') \<in> set ?ds \<or> (snd ?m' = snd m \<and> snd m = Some [] \<and> [] \<notin> set ?ds)"
    by (auto simp: drop_parent_def split: option.splits)
  have "snd ?m' = None \<or> the (snd ?m') \<in> set (fst ?m') \<or> (snd ?m' = snd m0 \<and> the (snd m0) \<notin> set (fst m0))"
    using 2 assms(1,2) by (auto simp: repaired_from_def d)
  with 1 show ?thesis by (simp add: repaired_from_def)
qed

lemma repaired_from_parent:
  "repaired_from cs confirm t m0 m \<Longrightarrow> p \<in> set (fst m) \<Longrightarrow> repaired_from cs confirm t m0 (fst m, Some p)"
  by (auto simp: repaired_from_def)

definition sim_ok :: "dep_class list \<Rightarrow> bool \<Rightarrow> simulation \<Rightarrow> simulation \<Rightarrow> bool" where
  "sim_ok cs confirm sim0 sim \<longleftrightarrow>
     dkeys sim = dkeys sim0 \<and>
     (\<forall>t m0 m. dget sim0 t = Some m0 \<longrightarrow> dget sim t = Some m \<longrightarrow> repaired_from cs confirm t m0 m)"

lemma sim_ok_dput:
  assumes "sim_ok cs confirm sim0 sim" "dget sim t = Some m" "\<And>m0. dget sim0 t = Some m0 \<Longrightarrow> repaired_from cs confirm t m0 m'"
  shows "sim_ok cs confirm sim0 (dput t m' sim)"
  using assms by (auto simp: sim_ok_def dkeys_dput_Some dget_dput)

lemma apply_repair_ok:
  assumes "sim_ok cs confirm sim0 sim" and "safe_action a"
  shows "sim_ok cs confirm sim0 (fst (apply_repair cs confirm a sim))"
proof (cases "dget sim (repair_target a)")
  case (Some m)
  have old: "repaired_from cs confirm (repair_target a) m0 m" if "dget sim0 (repair_target a) = Some m0" for m0
    using assms(1) that Some unfolding sim_ok_def by blast
  show ?thesis
  proof (cases a)
    case (RemoveDependsOn t ids)
    let ?bad = "\<lambda>dep. \<not> list_ex (\<lambda>c. dc_target c = t \<and> dc_dep c = dep \<and> dc_status c = DepSatisfied) cs"
    show ?thesis
    proof (cases "confirm \<and> List.find ?bad ids = None")
      case True
      then have confirm and "\<forall>dep \<in> set ids. \<exists>c \<in> set cs. dc_target c = t \<and> dc_dep c = dep \<and> dc_status c = DepSatisfied"
        by (auto simp: find_None_all list_ex_iff)
      then have "repaired_from cs confirm t m0 (drop_parent (filter (\<lambda>dep. dep \<notin> set ids) (fst m), snd m))"
        if "dget sim0 t = Some m0" for m0
        using old [of m0] that repaired_from_remove [of cs t m0 m ids] assms(2)
        by (simp add: RemoveDependsOn safe_action_def)
      with sim_ok_dput [OF assms(1)] Some True show ?thesis
        by (simp add: apply_repair_def RemoveDependsOn Let_def)
    qed (use assms(1) Some in \<open>auto simp: apply_repair_def RemoveDependsOn split: option.splits\<close>)
  next
    case (SetStackParent t p)
    with sim_ok_dput [OF assms(1)] Some old repaired_from_parent assms(1) show ?thesis
      by (auto simp: apply_repair_def)
  qed
qed (use assms(1) in \<open>simp add: apply_repair_def\<close>)

lemma applyRepairs_ok:
  assumes "sim_ok cs confirm sim0 sim" and "\<forall>a \<in> set as. safe_action a"
  shows "sim_ok cs confirm sim0 (fst (applyRepairsToSimulation cs confirm as sim))"
  using assms
proof (induction as arbitrary: sim)
  case (Cons a as)
  then show ?case
    using apply_repair_ok [OF Cons.prems(1), of a] by (auto simp: split_beta)
qed simp

lemma raw_safe: "isSafePrdId v \<Longrightarrow> raw_string v \<noteq> Some []"
  by (auto simp: isSafePrdId_def assertSafePrdId_def split: option.splits)

lemma validate_fields_safe: "validate_fields fs = Inr a \<Longrightarrow> safe_action a"
proof -
  assume a: "validate_fields fs = Inr a"
  have n: "the (raw_string v) \<noteq> []" if "isSafePrdId v" for v
    using raw_safe [OF that] that by (auto simp: isSafePrdId_def split: option.splits)
  show ?thesis
    using a n by (auto simp: validate_fields_def safe_action_def Let_def list_all_iff image_iff
      split: if_splits option.splits raw_value.splits) (metis n)+
qed

lemma validateRepairAction_safe: "validateRepairAction v = Inr a \<Longrightarrow> safe_action a"
  by (cases v) (auto intro: validate_fields_safe)

lemma validateRepairActions_safe: "\<forall>a \<in> set (fst (validateRepairActions v)). safe_action a"
proof (cases v)
  case (Some x)
  then show ?thesis
    by (cases x) (auto simp: Let_def split: sum.splits dest!: validateRepairAction_safe [OF sym])
qed simp

lemma dget_fold_initial:
  "dget (fold (\<lambda>i m. case by_id rs i of None \<Rightarrow> m | Some r \<Rightarrow> dput i (r_deps r, r_parent r) m) targets m) i =
     (if i \<in> set targets \<and> by_id rs i \<noteq> None
      then Some (r_deps (the (by_id rs i)), r_parent (the (by_id rs i))) else dget m i)"
  by (induction targets arbitrary: m) (auto simp: dget_dput split: option.splits)

lemma dget_initial:
  "dget (initial_simulation rs targets) i =
     (if i \<in> set targets \<and> by_id rs i \<noteq> None
      then Some (r_deps (the (by_id rs i)), r_parent (the (by_id rs i))) else None)"
  by (simp add: initial_simulation_def dget_fold_initial)

lemma satisfied_class:
  assumes "c \<in> set (classifyDependencies rs targets artifacts completions)" "dc_status c = DepSatisfied"
  shows "hasUsableArtifact artifacts (dc_dep c)"
    "by_id rs (dc_dep c) = Some d \<Longrightarrow> q_loc d \<noteq> RootDir \<and> q_loc d \<noteq> WaitingDir"
  using assms by (auto simp: classifyDependencies_def classify_dep_def Let_def split: if_splits)

text \<open>
  A repair drops only dependencies that are done: in the metadata a recovery preflight simulates
  for a target, every dependency that is missing has a usable artifact, is not in the queue
  root or waiting, and was only dropped under confirmation; the stack parent is none, a remaining
  dependency, or the parent the file had all along outside its dependencies.
\<close>

theorem repairs_drop_only_done:
  assumes "dget (rp_simulated (buildRecoveryPreflight rs targets artifacts completions stacking raw confirm)) i = Some (ds, p)"
  shows "\<exists>r X. by_id rs i = Some r \<and> i \<in> set targets \<and> ds = filter (\<lambda>dep. dep \<notin> X) (r_deps r) \<and> (X \<noteq> {} \<longrightarrow> confirm) \<and>
     (\<forall>dep \<in> X. hasUsableArtifact artifacts dep \<and>
        (\<forall>d. by_id rs dep = Some d \<longrightarrow> q_loc d \<noteq> RootDir \<and> q_loc d \<noteq> WaitingDir)) \<and>
     (p = None \<or> the p \<in> set ds \<or> (p = r_parent r \<and> the p \<notin> set (r_deps r)))"
proof -
  let ?cs = "classifyDependencies rs targets artifacts completions"
  let ?sim = "fst (applyRepairsToSimulation ?cs confirm (fst (validateRepairActions raw)) (initial_simulation rs targets))"
  have "sim_ok ?cs confirm (initial_simulation rs targets) (initial_simulation rs targets)"
    by (simp add: sim_ok_def repaired_from_refl)
  from applyRepairs_ok [OF this validateRepairActions_safe]
  have ok: "sim_ok ?cs confirm (initial_simulation rs targets) ?sim" .
  have i: "dget ?sim i = Some (ds, p)" using assms by (simp add: buildRecoveryPreflight_def Let_def)
  then have "i \<in> set (dkeys (initial_simulation rs targets))"
    using dget_Some_dkeys [OF i] arg_cong [OF conjunct1 [OF ok [unfolded sim_ok_def]], of set] unfolding set_map by simp
  then have "dget (initial_simulation rs targets) i \<noteq> None" by (simp add: dget_None_iff)
  then obtain r where r: "by_id rs i = Some r" "i \<in> set targets"
      "dget (initial_simulation rs targets) i = Some (r_deps r, r_parent r)"
    by (auto simp: dget_initial split: if_splits)
  with ok i have "repaired_from ?cs confirm i (r_deps r, r_parent r) (ds, p)" unfolding sim_ok_def by blast
  then obtain X where X: "ds = filter (\<lambda>dep. dep \<notin> X) (r_deps r)" "X \<noteq> {} \<longrightarrow> confirm"
      "\<forall>dep \<in> X. \<exists>c \<in> set ?cs. dc_target c = i \<and> dc_dep c = dep \<and> dc_status c = DepSatisfied"
      "p = None \<or> the p \<in> set ds \<or> (p = r_parent r \<and> the (r_parent r) \<notin> set (r_deps r))"
    unfolding repaired_from_def fst_conv snd_conv by blast
  have "\<forall>dep \<in> X. hasUsableArtifact artifacts dep \<and>
        (\<forall>d. by_id rs dep = Some d \<longrightarrow> q_loc d \<noteq> RootDir \<and> q_loc d \<noteq> WaitingDir)"
    using X(3) satisfied_class by fastforce
  with X r show ?thesis by (intro exI [of _ r] exI [of _ X]) auto
qed


section \<open>Reactivated descendants wait\<close>

lemma by_id_Some: "by_id rs i = Some r \<Longrightarrow> r \<in> set rs \<and> q_id r = i"
  by (auto simp: by_id_def dest!: find_SomeD)

lemma by_id_None: "by_id rs i = None \<longleftrightarrow> i \<notin> q_id ` set rs"
  by (auto simp: by_id_def find_None_iff image_iff)

lemma by_id_append: "by_id (rs @ rs') i = (case by_id rs' i of Some r \<Rightarrow> Some r | None \<Rightarrow> by_id rs i)"
proof -
  have "List.find P (xs @ ys) = (case List.find P xs of Some r \<Rightarrow> Some r | None \<Rightarrow> List.find P ys)"
    for P and xs ys :: "queued_prd list"
    by (induction xs) auto
  then show ?thesis by (simp add: by_id_def split: option.split)
qed

lemma by_id_distinct: "distinct (map q_id rs) \<Longrightarrow> r \<in> set rs \<Longrightarrow> by_id rs (q_id r) = Some r"
proof -
  assume d: "distinct (map q_id rs)" and r: "r \<in> set rs"
  then obtain r' where r': "by_id rs (q_id r) = Some r'" by (cases "by_id rs (q_id r)") (auto simp: by_id_None)
  with by_id_Some [OF r'] d r have "r' = r" by (auto simp: distinct_map dest: inj_onD)
  with r' show ?thesis by simp
qed

text \<open>The four lists of a snapshot.\<close>

lemma snapshot_parts:
  assumes "loadQueueSnapshot w = Some rs"
  obtains root waiting failed skipped where
    "rs = root @ waiting @ failed @ skipped" "loadQueue RootDir (w_disk w) = Inr root"
    "loadQueue WaitingDir (w_disk w) = Inr waiting" "loadQueue FailedDir (w_disk w) = Inr failed"
    "loadQueue SkippedDir (w_disk w) = Inr skipped"
  using assms by (auto simp: loadQueueSnapshot_def loadResumeQueueSnapshot_def split: sum.splits)

lemma loaded_loc: "loadQueue l d = Inr ps \<Longrightarrow> p \<in> set ps \<Longrightarrow> q_loc p = l"
  by (auto simp: loadQueue_set)

lemma skipped_by_id:
  assumes "loadQueueSnapshot w = Some rs" "names (w_disk w)" "p \<in> set rs" "q_loc p = SkippedDir"
  shows "by_id rs (q_id p) = Some p"
  using assms(1)
proof (rule snapshot_parts)
  fix root waiting failed skipped
  assume parts: "rs = root @ waiting @ failed @ skipped" "loadQueue RootDir (w_disk w) = Inr root"
    "loadQueue WaitingDir (w_disk w) = Inr waiting" "loadQueue FailedDir (w_disk w) = Inr failed"
    "loadQueue SkippedDir (w_disk w) = Inr skipped"
  have "p \<in> set skipped"
    using assms(3,4) parts loaded_loc by fastforce
  moreover have "distinct (map q_id skipped)"
    by (rule loadQueue_distinct [OF parts(5) namesD [OF assms(2)]])
  ultimately show ?thesis by (simp add: parts(1) by_id_append by_id_distinct)
qed

lemma reached_present: "(i, u) \<in> (depends_edges (filter P rs))\<^sup>+ \<Longrightarrow> u \<in> q_id ` set rs"
  by (induction rule: trancl_induct) (auto simp: depends_edges_def)

text \<open>A skipped descendant depends on a PRD of the snapshot, so it is never moved to the root:
  \<open>reactivate immediately\<close> cannot happen.\<close>

lemma descendants_wait:
  assumes snap: "loadQueueSnapshot w = Some rs" and names: "names (w_disk w)"
    and sel: "by_id rs selected \<noteq> None" and i: "i \<in> set (findSkippedDescendants selected rs)"
  shows "\<not> shouldMoveSkippedToQueueRoot rs artifacts completions i"
    and "\<exists>p. by_id rs i = Some p \<and> q_loc p = SkippedDir"
proof -
  let ?sk = "filter (\<lambda>r. q_loc r = SkippedDir) rs"
  have path: "(selected, i) \<in> (depends_edges ?sk)\<^sup>+" using i by (simp add: findSkippedDescendants_def findDescendantIds_exact)
  then obtain u where u: "u = selected \<or> (selected, u) \<in> (depends_edges ?sk)\<^sup>+" "(u, i) \<in> depends_edges ?sk"
    by (cases rule: tranclE) auto
  then obtain p where p: "p \<in> set rs" "q_loc p = SkippedDir" "q_id p = i" "u \<in> set (r_deps p)"
    by (auto simp: depends_edges_def)
  have byp: "by_id rs i = Some p" using skipped_by_id [OF snap names p(1,2)] p(3) by simp
  have "u = selected \<or> u \<in> q_id ` set rs"
    using u(1) reached_present [of selected u] by auto
  then have "by_id rs u \<noteq> None" using sel by (auto simp: by_id_None)
  with byp p(4) show "\<not> shouldMoveSkippedToQueueRoot rs artifacts completions i"
    by (auto simp: shouldMoveSkippedToQueueRoot_def list_all_iff)
  show "\<exists>p. by_id rs i = Some p \<and> q_loc p = SkippedDir" using byp p(2) by blast
qed

lemma operations_wait:
  assumes "loadQueueSnapshot w = Some rs" "names (w_disk w)" "by_id rs selected \<noteq> None"
  shows "buildOperations rs artifacts completions selected (findSkippedDescendants selected rs) =
    MovePrd selected FailedDir RootDir # RemoveSidecars selected #
      map (\<lambda>i. MovePrd i SkippedDir WaitingDir) (findSkippedDescendants selected rs)"
  using descendants_wait(1) [OF assms] by (simp add: buildOperations_def)


section \<open>What an application does to the files\<close>

fun op_files :: "rec_op \<Rightarrow> (qloc \<times> prd_id \<Rightarrow> md_file option) \<Rightarrow> qloc \<times> prd_id \<Rightarrow> md_file option" where
  "op_files (MovePrd i s t) F = F((t, i) := F (s, i), (s, i) := None)"
| "op_files (RemoveSidecars i) F = F"

definition op_proper :: "rec_op \<Rightarrow> bool" where
  "op_proper x = (case x of MovePrd _ s t \<Rightarrow> s \<noteq> t | RemoveSidecars _ \<Rightarrow> True)"

lemma move_file_Inr: "move_file s t i d = Inr d' \<Longrightarrow> s \<noteq> t \<Longrightarrow>
    files d' = op_files (MovePrd i s t) (files d) \<and> rest d' = rest d"
  by (auto simp: move_file_def Let_def files_set_dir files_apply fun_eq_iff split: option.splits)

lemma move_file_Inl: "move_file s t i d = Inl (e, d') \<Longrightarrow> files d' = files d \<and> rest d' = rest d"
  by (auto simp: move_file_def Let_def split: option.splits)

lemma run_operation_files:
  assumes "run_operation env x w = (w', ok)" "op_proper x"
  shows "files (w_disk w') = (if ok then op_files x (files (w_disk w)) else files (w_disk w)) \<and>
    rest (w_disk w') = rest (w_disk w)"
  using assms
  by (cases x) (auto simp: run_operation_def on_disk_def op_proper_def split: if_splits sum.splits
      dest!: move_file_Inr move_file_Inl)

lemma run_operations_files:
  "run_operations env xs w = (w', made, failed) \<Longrightarrow> \<forall>x \<in> set xs. op_proper x \<Longrightarrow>
   files (w_disk w') = fold op_files made (files (w_disk w)) \<and> rest (w_disk w') = rest (w_disk w) \<and>
   (case failed of None \<Rightarrow> made = xs | Some x \<Rightarrow> \<exists>more. xs = made @ x # more)"
proof (induction env xs w arbitrary: w' made failed rule: run_operations.induct)
  case (2 env x xs w)
  obtain w1 ok where 1: "run_operation env x w = (w1, ok)" by (rule prod.exhaust)
  have x: "op_proper x" using 2(3) by simp
  note f = run_operation_files [OF 1 x]
  show ?case
  proof (cases ok)
    case False
    with 1 2(2) f show ?thesis by auto
  next
    case True
    obtain w2 ap fl where r: "run_operations env xs w1 = (w2, ap, fl)" by (rule prod_cases3)
    have e: "w' = w2" "made = x # ap" "failed = fl" using 2(2) 1 r True by auto
    have "files (w_disk w2) = fold op_files ap (files (w_disk w1)) \<and> rest (w_disk w2) = rest (w_disk w1) \<and>
        (case fl of None \<Rightarrow> ap = xs | Some x \<Rightarrow> \<exists>more. xs = ap @ x # more)"
      using 2(1) [OF 1 [symmetric] _ r] True 2(3) by simp
    with f True show ?thesis by (auto simp: e split: option.splits)
  qed
qed simp

text \<open>Repairs replace texts of files of the targets and nothing else.\<close>

definition relabelled :: "prd_id set \<Rightarrow> (qloc \<times> prd_id \<Rightarrow> md_file option) \<Rightarrow> (qloc \<times> prd_id \<Rightarrow> md_file option) \<Rightarrow> bool" where
  "relabelled I F F' \<longleftrightarrow> (\<forall>l i. F' (l, i) = F (l, i) \<or> (i \<in> I \<and> F (l, i) \<noteq> None \<and> (\<exists>fm. F' (l, i) = Some (Prd fm))))"

lemma relabelled_refl: "relabelled I F F"
  by (simp add: relabelled_def)

lemma relabelled_step: "relabelled I (F((l, i) := Some (Prd fm))) F' \<Longrightarrow> F (l, i) \<noteq> None \<Longrightarrow> i \<in> I \<Longrightarrow> relabelled I F F'"
  unfolding relabelled_def by (metis fun_upd_apply option.distinct(1) prod.inject)

fun result_target :: "repair_result \<Rightarrow> prd_id option" where
  "result_target (RepairApplied a _ _) = Some (repair_target a)"
| "result_target (RepairBlocked _ _) = None"

lemma writeRepairMetadata_files:
  "writeRepairMetadata env rs results w = (w', n) \<Longrightarrow> \<forall>r \<in> set results. \<forall>i. result_target r = Some i \<longrightarrow> i \<in> I \<Longrightarrow>
   relabelled I (files (w_disk w)) (files (w_disk w')) \<and> rest (w_disk w') = rest (w_disk w)"
proof (induction env rs results w arbitrary: w' n rule: writeRepairMetadata.induct)
  case (3 env rs a before after results w)
  let ?i = "repair_target a"
  show ?case
  proof (cases "by_id rs ?i")
    case None
    with 3(2) show ?thesis by (simp add: relabelled_refl)
  next
    case (Some r)
    show ?thesis
    proof (cases "\<not> rv_write_ok env ?i \<or> \<not> file_exists (q_loc r) ?i (w_disk w)")
      case True
      with 3(2) Some show ?thesis by (auto simp: relabelled_refl)
    next
      case False
      let ?w1 = "on_disk (write_fm (q_loc r) ?i (repaired_fm before after (q_fm r))) w"
      have "writeRepairMetadata env rs results ?w1 = (w', n)" using 3(2) Some False by (simp add: Let_def)
      then have "relabelled I (files (w_disk ?w1)) (files (w_disk w')) \<and> rest (w_disk w') = rest (w_disk ?w1)"
        using 3(1) [OF refl Some] False 3(3) by simp
      with False 3(3) show ?thesis
        by (auto simp: on_disk_def files_write_fm file_exists_files intro: relabelled_step)
    qed
  qed
qed (simp_all add: relabelled_refl)


lemma analysis_real:
  assumes "analyzeQueueRecovery stacking selected w = Some a" "filter (\<lambda>n. \<not> is_dispatch_blocked n) (ra_blockers a) = []"
  obtains rs r bs cs where "loadQueueSnapshot w = Some rs" "by_id rs selected = Some r" "q_loc r = FailedDir"
    "registries w = Some (bs, cs)"
    "ra_operations a = buildOperations rs bs cs selected (findSkippedDescendants selected rs)"
  using assms
  by (auto simp: analyzeQueueRecovery_def emptyAnalyze_def is_dispatch_blocked_def Let_def
      split: if_splits option.splits prod.splits)

definition refused :: "world \<Rightarrow> world \<Rightarrow> recovery_result \<Rightarrow> bool" where
  "refused w w' res \<longleftrightarrow> w' = w \<and> \<not> rr_applied res \<and> rr_operations res = [] \<and> rr_blockers res \<noteq> []"

lemma apply_checked_cases:
  assumes "apply_checked env opt ops w = (w', Some res)" "loadQueueSnapshot w = Some rs" "registries w = Some (bs, cs)"
  shows "refused w w' res \<or>
    write_and_run env rs (rp_repairs (buildRecoveryPreflight rs (move_targets ops) bs cs (rx_stacking opt) (rx_repairs opt)
      (rx_confirm opt))) ops w = (w', res)"
proof -
  define pre where "pre = buildRecoveryPreflight rs (move_targets ops) bs cs (rx_stacking opt) (rx_repairs opt) (rx_confirm opt)"
  have blocked: "\<not> rp_canApply pre \<Longrightarrow> rp_blockers pre \<noteq> []" by (auto simp: pre_def buildRecoveryPreflight_def Let_def)
  have run: "(case List.find not_applied (rp_repairs pre) of
             Some r \<Rightarrow> (w, Some (recovery_blocked [RepairActionBlocked (result_action r)]))
           | None \<Rightarrow>
               if \<not> rp_canApply pre then (w, Some (recovery_blocked (rp_blockers pre)))
               else (case write_and_run env rs (rp_repairs pre) ops w of (w1, r) \<Rightarrow> (w1, Some r))) = (w', Some res)"
    using assms(1) unfolding apply_checked_def assms(2,3) option.case prod.case Let_def pre_def [symmetric] .
  show ?thesis unfolding pre_def [symmetric]
    using run blocked
    by (auto simp: refused_def recovery_blocked_def split: option.splits if_splits prod.splits)
qed

lemma apply_cases:
  assumes "applyQueueRecovery env opt w = (w', Some res)"
  shows "refused w w' res \<or>
    (\<exists>rs r bs cs. loadQueueSnapshot w = Some rs \<and> by_id rs (rx_selected opt) = Some r \<and> q_loc r = FailedDir \<and>
       (let ops = buildOperations rs bs cs (rx_selected opt) (findSkippedDescendants (rx_selected opt) rs)
        in sameOperations (rx_expected opt) ops \<and>
           write_and_run env rs (rp_repairs (buildRecoveryPreflight rs (move_targets ops) bs cs (rx_stacking opt)
             (rx_repairs opt) (rx_confirm opt))) ops w = (w', res)))"
proof (cases "analyzeQueueRecovery (rx_stacking opt) (rx_selected opt) w")
  case (Some a)
  define hard where "hard = (if has_repairs (rx_repairs opt)
    then filter (\<lambda>n. \<not> is_dispatch_blocked n) (ra_blockers a) else ra_blockers a)"
  have run: "(if length hard > 0 then (w, Some (recovery_blocked hard))
      else case preflightApply env (rx_expected opt) (ra_operations a) w of
             Some n \<Rightarrow> (w, Some (recovery_blocked [n]))
           | None \<Rightarrow> apply_checked env opt (ra_operations a) w) = (w', Some res)"
    using assms unfolding applyQueueRecovery_def Some option.case Let_def hard_def .
  show ?thesis
  proof (cases "hard = [] \<and> preflightApply env (rx_expected opt) (ra_operations a) w = None")
    case False
    with run show ?thesis by (auto simp: refused_def recovery_blocked_def split: if_splits option.splits)
  next
    case True
    then have "filter (\<lambda>n. \<not> is_dispatch_blocked n) (ra_blockers a) = []"
      by (auto simp: hard_def split: if_splits)
    with Some show ?thesis
    proof (rule analysis_real)
      fix rs r bs cs
      assume real: "loadQueueSnapshot w = Some rs" "by_id rs (rx_selected opt) = Some r" "q_loc r = FailedDir"
        "registries w = Some (bs, cs)"
        "ra_operations a = buildOperations rs bs cs (rx_selected opt) (findSkippedDescendants (rx_selected opt) rs)"
      have "sameOperations (rx_expected opt) (ra_operations a)" using True by (auto simp: preflightApply_def split: if_splits)
      moreover have "apply_checked env opt (ra_operations a) w = (w', Some res)" using run True by simp
      note same = calculation and c = this
      from apply_checked_cases [OF c real(1,4)] show ?thesis
        unfolding Let_def using same real(1-3) unfolding real(5) by blast
    qed
  qed
qed (use assms in \<open>simp add: applyQueueRecovery_def\<close>)


text \<open>Where every file is after a recovery of \<open>i\<close> with the descendants \<open>D\<close>.\<close>

definition recovered :: "prd_id \<Rightarrow> prd_id set \<Rightarrow> (qloc \<times> prd_id \<Rightarrow> md_file option) \<Rightarrow> qloc \<times> prd_id \<Rightarrow> md_file option" where
  "recovered i D F = (\<lambda>(l, j).
     if j = i then (case l of RootDir \<Rightarrow> F (FailedDir, i) | FailedDir \<Rightarrow> None | _ \<Rightarrow> F (l, i))
     else if j \<in> D then (case l of WaitingDir \<Rightarrow> F (SkippedDir, j) | SkippedDir \<Rightarrow> None | _ \<Rightarrow> F (l, j))
     else F (l, j))"

lemma recovered_none: "op_files (MovePrd i FailedDir RootDir) F = recovered i {} F"
  by (auto simp: recovered_def fun_eq_iff split: qloc.split)

lemma recovered_insert:
  "j \<noteq> i \<Longrightarrow> j \<notin> D \<Longrightarrow> op_files (MovePrd j SkippedDir WaitingDir) (recovered i D F) = recovered i (insert j D) F"
  by (auto simp: recovered_def fun_eq_iff split: qloc.splits)

lemma fold_recovered:
  "distinct js \<Longrightarrow> i \<notin> set js \<Longrightarrow> set js \<inter> D = {} \<Longrightarrow>
   fold op_files (map (\<lambda>j. MovePrd j SkippedDir WaitingDir) js) (recovered i D F) = recovered i (set js \<union> D) F"
proof (induction js arbitrary: D)
  case (Cons j js)
  then have "fold op_files (map (\<lambda>j. MovePrd j SkippedDir WaitingDir) js) (recovered i (insert j D) F) =
      recovered i (set js \<union> insert j D) F" by (intro Cons.IH) auto
  moreover have "op_files (MovePrd j SkippedDir WaitingDir) (recovered i D F) = recovered i (insert j D) F"
    using Cons.prems by (intro recovered_insert) auto
  ultimately show ?case by (simp del: op_files.simps)
qed simp

lemma operations_proper: "\<forall>x \<in> set (buildOperations rs bs cs i js). op_proper x"
  by (auto simp: buildOperations_def op_proper_def)

lemma repair_targets:
  "applyRepairsToSimulation cs confirm as sim = (sim', results) \<Longrightarrow>
   \<forall>r \<in> set results. \<forall>i. result_target r = Some i \<longrightarrow> i \<in> set (dkeys sim)"
proof (induction cs confirm as sim arbitrary: sim' results rule: applyRepairsToSimulation.induct)
  case (2 cs confirm a as sim)
  obtain sim1 r where 1: "apply_repair cs confirm a sim = (sim1, r)" by (rule prod.exhaust)
  obtain sim2 rs where r: "applyRepairsToSimulation cs confirm as sim1 = (sim2, rs)" by (rule prod.exhaust)
  have "dkeys sim1 = dkeys sim" and "\<forall>i. result_target r = Some i \<longrightarrow> i \<in> set (dkeys sim)"
    using 1
    by (auto simp: apply_repair_def Let_def split: option.splits repair_action.splits if_splits dest: dget_Some_dkeys)
  with 2(1) [OF 1 [symmetric] r] 2(2) 1 r show ?case by (auto split: prod.splits)
qed simp

lemma preflight_targets:
  assumes "r \<in> set (rp_repairs (buildRecoveryPreflight rs targets bs cs stacking raw confirm))" "result_target r = Some i"
  shows "i \<in> set targets"
proof -
  let ?cs = "classifyDependencies rs targets bs cs" and ?sim = "initial_simulation rs targets"
  obtain sim' results where a: "applyRepairsToSimulation ?cs confirm (fst (validateRepairActions raw)) ?sim = (sim', results)"
    by (rule prod.exhaust)
  with repair_targets [OF a] assms have "i \<in> set (dkeys ?sim)" by (simp add: buildRecoveryPreflight_def Let_def)
  then have "dget ?sim i \<noteq> None" by (simp add: dget_None_iff)
  then show ?thesis by (auto simp: dget_initial split: if_splits)
qed

lemma no_repairs: "rp_repairs (buildRecoveryPreflight rs targets bs cs stacking None confirm) = []"
  by (simp add: buildRecoveryPreflight_def Let_def)

definition queue_facts :: "recovery_opts \<Rightarrow> prd_id set \<Rightarrow> (qloc \<times> prd_id \<Rightarrow> md_file option) \<Rightarrow> (qloc \<times> prd_id \<Rightarrow> md_file option) \<Rightarrow> bool" where
  "queue_facts opt D F F1 \<longleftrightarrow> relabelled (insert (rx_selected opt) D) F F1 \<and> (rx_repairs opt = None \<longrightarrow> F1 = F)"

text \<open>The PRDs in \<open>skipped/\<close> that depend on a PRD, through PRDs in \<open>skipped/\<close>.\<close>

definition skipped_below :: "prd_id \<Rightarrow> qdisk \<Rightarrow> prd_id set" where
  "skipped_below i d = {j. j \<noteq> i \<and> (i, j) \<in> (file_edges SkippedDir (files d))\<^sup>+}"

lemma snapshot_filter:
  assumes "loadQueueSnapshot w = Some rs"
  obtains skipped where "loadQueue SkippedDir (w_disk w) = Inr skipped" "set (filter (\<lambda>r. q_loc r = SkippedDir) rs) = set skipped"
  using assms
proof (rule snapshot_parts)
  fix root waiting failed skipped
  assume parts: "rs = root @ waiting @ failed @ skipped" "loadQueue RootDir (w_disk w) = Inr root"
    "loadQueue WaitingDir (w_disk w) = Inr waiting" "loadQueue FailedDir (w_disk w) = Inr failed"
    "loadQueue SkippedDir (w_disk w) = Inr skipped"
  have "set (filter (\<lambda>r. q_loc r = SkippedDir) rs) = set skipped"
    using loaded_loc [OF parts(2)] loaded_loc [OF parts(3)] loaded_loc [OF parts(4)] loaded_loc [OF parts(5)]
    by (auto simp: parts(1))
  with parts(5) that show thesis by blast
qed

lemma descendants_files:
  assumes "loadQueueSnapshot w = Some rs" "names (w_disk w)"
  shows "set (findSkippedDescendants i rs) = skipped_below i (w_disk w)"
  using assms(1)
proof (rule snapshot_filter)
  fix skipped
  assume s: "loadQueue SkippedDir (w_disk w) = Inr skipped" "set (filter (\<lambda>r. q_loc r = SkippedDir) rs) = set skipped"
  have "depends_edges (filter (\<lambda>r. q_loc r = SkippedDir) rs) = depends_edges skipped"
    unfolding depends_edges_def s(2) ..
  then show ?thesis
    by (auto simp: findSkippedDescendants_def findDescendantIds_exact skipped_below_def loaded_edges [OF assms(2) s(1)])
qed


lemma move_targets_ops: "move_targets (buildOperations rs bs cs i js) = i # js"
  by (simp add: move_targets_def buildOperations_def comp_def)

lemma run_facts:
  assumes run: "write_and_run env rs (rp_repairs (buildRecoveryPreflight rs (move_targets ops) bs cs (rx_stacking opt) (rx_repairs opt)
      (rx_confirm opt))) ops w = (w', res)"
    and snap: "loadQueueSnapshot w = Some rs" and names: "names (w_disk w)"
    and ops: "ops = buildOperations rs bs cs (rx_selected opt) (findSkippedDescendants (rx_selected opt) rs)"
  shows "\<exists>F1. queue_facts opt (skipped_below (rx_selected opt) (w_disk w)) (files (w_disk w)) F1 \<and>
    files (w_disk w') = fold op_files (rr_operations res) F1 \<and> rest (w_disk w') = rest (w_disk w) \<and>
    (rr_applied res \<longrightarrow> rr_operations res = ops \<and> rr_blockers res = []) \<and> (\<not> rr_applied res \<longrightarrow> rr_blockers res \<noteq> [])"
proof -
  define results where "results = rp_repairs (buildRecoveryPreflight rs (move_targets ops) bs cs (rx_stacking opt)
    (rx_repairs opt) (rx_confirm opt))"
  let ?D = "skipped_below (rx_selected opt) (w_disk w)"
  obtain w1 n where w1: "writeRepairMetadata env rs results w = (w1, n)" by (rule prod.exhaust)
  have "set (move_targets ops) = insert (rx_selected opt) ?D"
    by (simp add: ops move_targets_ops descendants_files [OF snap names])
  then have "\<forall>r \<in> set results. \<forall>i. result_target r = Some i \<longrightarrow> i \<in> insert (rx_selected opt) ?D"
    using preflight_targets unfolding results_def by blast
  note meta = writeRepairMetadata_files [OF w1 this]
  have "queue_facts opt ?D (files (w_disk w)) (files (w_disk w1))"
    using meta w1 by (auto simp: queue_facts_def results_def no_repairs)
  moreover have "(case n of
      Some b \<Rightarrow> w' = w1 \<and> res = recovery_blocked [b]
    | None \<Rightarrow> (\<exists>made failed. run_operations env ops w1 = (w', made, failed) \<and>
        res = \<lparr>rr_applied = (length ops > 0 \<and> failed = None), rr_operations = made,
               rr_blockers = (case failed of Some x \<Rightarrow> [OperationFailed (op_prd x)] | None \<Rightarrow> [])\<rparr>))"
    using run w1 unfolding results_def [symmetric]
    by (auto simp: write_and_run_def split: option.splits prod.splits)
  moreover have "length ops > 0" by (simp add: ops buildOperations_def)
  ultimately show ?thesis
    using meta operations_proper [of rs bs cs "rx_selected opt" "findSkippedDescendants (rx_selected opt) rs", folded ops]
    by (intro exI [of _ "files (w_disk w1)"])
       (auto simp: recovery_blocked_def split: option.splits dest!: run_operations_files)
qed

text \<open>
  C31. Recovery reactivates exactly the confirmed PRDs: when \<open>applyQueueRecovery\<close> reports that it was
  applied, the selected failed PRD is in the queue root, every skipped PRD that depends on it
  through skipped PRDs waits, every other file is where it was, locks and registries are
  untouched, and without repair actions no text changed.
\<close>

theorem recovery_reactivates_exactly:
  assumes run: "applyQueueRecovery env opt w = (w', Some res)" and applied: "rr_applied res" and names: "names (w_disk w)"
  shows "\<exists>F1. queue_facts opt (skipped_below (rx_selected opt) (w_disk w)) (files (w_disk w)) F1 \<and>
    files (w_disk w') = recovered (rx_selected opt) (skipped_below (rx_selected opt) (w_disk w)) F1 \<and>
    rest (w_disk w') = rest (w_disk w) \<and> sameOperations (rx_expected opt) (rr_operations res)"
proof -
  let ?i = "rx_selected opt" and ?D = "skipped_below (rx_selected opt) (w_disk w)"
  obtain rs r bs cs where snap: "loadQueueSnapshot w = Some rs" and r: "by_id rs ?i = Some r"
    and same: "sameOperations (rx_expected opt) (buildOperations rs bs cs ?i (findSkippedDescendants ?i rs))"
    and go: "write_and_run env rs (rp_repairs (buildRecoveryPreflight rs
      (move_targets (buildOperations rs bs cs ?i (findSkippedDescendants ?i rs))) bs cs (rx_stacking opt)
      (rx_repairs opt) (rx_confirm opt))) (buildOperations rs bs cs ?i (findSkippedDescendants ?i rs)) w = (w', res)"
    using apply_cases [OF run] applied by (auto simp: refused_def Let_def)
  obtain F1 where F1: "queue_facts opt ?D (files (w_disk w)) F1"
      "files (w_disk w') = fold op_files (rr_operations res) F1" "rest (w_disk w') = rest (w_disk w)"
      "rr_operations res = buildOperations rs bs cs ?i (findSkippedDescendants ?i rs)"
    using run_facts [OF go snap names refl] applied by blast
  have "?i \<notin> set (findSkippedDescendants ?i rs)" "distinct (findSkippedDescendants ?i rs)"
    by (simp_all add: findSkippedDescendants_def findDescendantIds_exact distinct_findDescendantIds)
  from fold_recovered [OF this(2,1), of "{}" F1]
  have "fold op_files (buildOperations rs bs cs ?i (findSkippedDescendants ?i rs)) F1 = recovered ?i ?D F1"
    using r by (simp add: operations_wait [OF snap names] recovered_none descendants_files [OF snap names] del: op_files.simps(1))
  with F1 same show ?thesis by auto
qed

text \<open>
  A recovery that is not applied says why and leaves the files where its completed operations
  put them: there is a blocker, and after metadata repairs, which without repair actions are
  none, the moves that were made are exactly the operations it reports as made.
\<close>

theorem recovery_failure_is_reported:
  assumes run: "applyQueueRecovery env opt w = (w', Some res)" and failed: "\<not> rr_applied res" and names: "names (w_disk w)"
  shows "rr_blockers res \<noteq> [] \<and>
    (\<exists>F1. queue_facts opt (skipped_below (rx_selected opt) (w_disk w)) (files (w_disk w)) F1 \<and>
       files (w_disk w') = fold op_files (rr_operations res) F1 \<and> rest (w_disk w') = rest (w_disk w))"
proof (cases "refused w w' res")
  case True
  then show ?thesis
    by (auto simp: refused_def queue_facts_def relabelled_refl intro!: exI [of _ "files (w_disk w)"])
next
  case False
  with apply_cases [OF run] obtain rs bs cs where snap: "loadQueueSnapshot w = Some rs"
    and go: "write_and_run env rs (rp_repairs (buildRecoveryPreflight rs
      (move_targets (buildOperations rs bs cs (rx_selected opt) (findSkippedDescendants (rx_selected opt) rs))) bs cs
      (rx_stacking opt) (rx_repairs opt) (rx_confirm opt)))
      (buildOperations rs bs cs (rx_selected opt) (findSkippedDescendants (rx_selected opt) rs)) w = (w', res)"
    by (auto simp: Let_def)
  from run_facts [OF go snap names refl] failed show ?thesis by blast
qed


section \<open>Examples\<close>

definition demo_recovery_env :: "(rec_op \<Rightarrow> bool) \<Rightarrow> recovery_env" where
  "demo_recovery_env op_ok = \<lparr>rv_dirs_ok = True, rv_path_ok = (\<lambda>_. True), rv_write_ok = (\<lambda>_. True), rv_op_ok = op_ok\<rparr>"

definition demo_recovery :: recovery_opts where
  "demo_recovery = \<lparr>rx_selected = ''a'',
     rx_expected = [MovePrd ''a'' FailedDir RootDir, RemoveSidecars ''a'', MovePrd ''b'' SkippedDir WaitingDir,
       MovePrd ''c'' SkippedDir WaitingDir],
     rx_repairs = None, rx_confirm = False, rx_stacking = False\<rparr>"

lemma recovery_reactivates_exactly_witness:
  "\<exists>w' res. applyQueueRecovery (demo_recovery_env (\<lambda>_. True)) demo_recovery demo_failed = (w', Some res) \<and> rr_applied res \<and>
     files (w_disk w') = recovered ''a'' (skipped_below ''a'' (w_disk demo_failed)) (files (w_disk demo_failed))"
proof -
  let ?run = "applyQueueRecovery (demo_recovery_env (\<lambda>_. True)) demo_recovery demo_failed"
  have r: "(case snd ?run of Some res \<Rightarrow> rr_applied res | None \<Rightarrow> False)" by code_simp
  then obtain w' res where run: "?run = (w', Some res)" and ok: "rr_applied res"
    by (cases ?run) (auto split: option.splits)
  moreover have "names (w_disk demo_failed)" by code_simp
  ultimately show ?thesis using recovery_reactivates_exactly [OF run ok]
    by (auto simp: demo_recovery_def queue_facts_def)
qed

lemma recovery_failure_is_reported_witness:
  "\<exists>w' res. applyQueueRecovery (demo_recovery_env (\<lambda>x. op_prd x \<noteq> ''c'')) demo_recovery demo_failed = (w', Some res) \<and>
     rr_operations res = take 3 (rx_expected demo_recovery) \<and> rr_blockers res \<noteq> [] \<and>
     files (w_disk w') = fold op_files (take 3 (rx_expected demo_recovery)) (files (w_disk demo_failed))"
proof -
  let ?run = "applyQueueRecovery (demo_recovery_env (\<lambda>x. op_prd x \<noteq> ''c'')) demo_recovery demo_failed"
  have r: "(case snd ?run of Some res \<Rightarrow> \<not> rr_applied res \<and> rr_operations res = take 3 (rx_expected demo_recovery) | None \<Rightarrow> False)"
    by code_simp
  then obtain w' res where run: "?run = (w', Some res)" and ok: "\<not> rr_applied res"
      and made: "rr_operations res = take 3 (rx_expected demo_recovery)"
    by (cases ?run) (auto split: option.splits)
  moreover have "names (w_disk demo_failed)" by code_simp
  moreover have "rx_repairs demo_recovery = None" by (simp add: demo_recovery_def)
  ultimately show ?thesis using recovery_failure_is_reported [OF run ok] by (auto simp: queue_facts_def)
qed

definition demo_chain :: world where
  "demo_chain = \<lparr>w_disk = \<lparr>d_root = Some [], d_waiting = None,
       d_failed = Some [(''b'', Prd ((plain_fm ''t'')\<lparr>fm_depends_on := Some [''x'', ''y'', ''z''], fm_stack_parent := Some ''x''\<rparr>))],
       d_skipped = None, d_locks = [],
       d_artifacts = Json (map (\<lambda>i. demo_artifact\<lparr>ar_prdId := i\<rparr>) [''x'', ''y'', ''z'']), d_completions = NoFile\<rparr>,
     w_json = [], w_md = []\<rparr>"

definition demo_removal :: "prd_id \<Rightarrow> raw_value" where
  "demo_removal dep = RawObject [(''kind'', RawString ''remove-depends-on''), (''targetPrdId'', RawString ''b''),
     (''dependencyIds'', RawArray [RawString dep])]"

definition demo_two_removals :: recovery_opts where
  "demo_two_removals = \<lparr>rx_selected = ''b'', rx_expected = [MovePrd ''b'' FailedDir RootDir, RemoveSidecars ''b''],
     rx_repairs = Some (RawArray [demo_removal ''x'', demo_removal ''y'']), rx_confirm = True, rx_stacking = True\<rparr>"

definition demo_records :: "queued_prd list" where
  "demo_records = [\<lparr>q_id = ''b'', q_loc = FailedDir,
     q_fm = (plain_fm ''t'')\<lparr>fm_depends_on := Some [''x'', ''y'', ''z''], fm_stack_parent := Some ''x''\<rparr>\<rparr>]"

definition demo_preflight :: rec_preflight where
  "demo_preflight = buildRecoveryPreflight demo_records [''b''] (map (\<lambda>i. demo_artifact\<lparr>ar_prdId := i\<rparr>) [''x'', ''y'', ''z''])
     [] True (rx_repairs demo_two_removals) True"

lemma repairs_drop_only_done_witness:
  "dget (rp_simulated demo_preflight) ''b'' = Some ([''z''], None) \<and>
   hasUsableArtifact (map (\<lambda>i. demo_artifact\<lparr>ar_prdId := i\<rparr>) [''x'', ''y'', ''z'']) ''x''"
proof -
  have s: "dget (rp_simulated demo_preflight) ''b'' = Some ([''z''], None)" by code_simp
  obtain r X where rX: "by_id demo_records ''b'' = Some r" "[''z''] = filter (\<lambda>dep. dep \<notin> X) (r_deps r)"
      "\<forall>dep \<in> X. hasUsableArtifact (map (\<lambda>i. demo_artifact\<lparr>ar_prdId := i\<rparr>) [''x'', ''y'', ''z'']) dep"
    using repairs_drop_only_done [OF s [unfolded demo_preflight_def]] by blast
  have "r_deps r = [''x'', ''y'', ''z'']"
    using rX(1) by (auto simp: by_id_def demo_records_def deps_of_def)
  with rX(2) have "''x'' \<in> X" by (auto split: if_splits)
  with rX(3) s show ?thesis by blast
qed

text \<open>The second of two removals for one target is written over the text that was loaded: the
  stack parent that the first one dropped is back, although its dependency is gone, and the PRD that
  the preflight let through cannot be dispatched.\<close>

lemma second_repair_restores_parent:
  "(case applyQueueRecovery (demo_recovery_env (\<lambda>_. True)) demo_two_removals demo_chain of
      (w', Some res) \<Rightarrow> rr_applied res \<and>
        (case dget (entries RootDir (w_disk w')) ''b'' of
           Some (Prd fm) \<Rightarrow> fm_depends_on fm = Some [''z''] \<and> fm_stack_parent fm = Some ''x'' \<and>
             \<not> sv_canDispatch (validateStackedDispatch ''b'' [''z''] (Some ''x'') True)
         | _ \<Rightarrow> False)
    | _ \<Rightarrow> False)"
  by code_simp

end
