(* ===== verification/Retry.thy ===== *)
theory Retry
  imports Frontmatter "HOL-Library.List_Lexorder"
begin

text \<open>
  Retries of agents (\<open>retry.ts\<close>): the wrapper \<open>withRetry\<close>, the policies of the roles, and the
  builders of the input of the next attempt. An agent run, the hooks of a policy and the answers
  of git are functions of the state they run in; the git commands a builder issues are kept in
  order. The lemmas show what a wrapped agent emits and how often it runs, which commands a
  builder may issue, and that the context handed on is bounded.
\<close>

section \<open>Events and predicates\<close>

datatype subtype = MaxTurns | MaxBudget | MaxStructuredOutputRetries | DuringExecution
  | PiToolInfrastructure | ContextWindow | TransientTransport

text \<open>A field of a tool input: a string, or another value with its \<open>String()\<close> text.\<close>

datatype js_field = JStr string | JOther string

record tool_input =
  ti_file_path :: "js_field option"
  ti_pattern :: "js_field option"
  ti_path :: "js_field option"
  ti_command :: "js_field option"

datatype continuation_reason = ReasonMaxTurns | ReasonDroppedSubmission

datatype continuation_kind = PlanningContinuation continuation_reason | ImplementContinuation string "string option"
  | EvaluateContinuation string "nat option" | PlanEvaluateContinuation | ReviewFixContinuation string "nat option"

text \<open>The arguments of \<open>RetryNotice\<close> are agent, attempt, maximum, subtype, label, plan and shard.\<close>

datatype agent_event =
    ToolUse string string string tool_input
  | ToolResult string string string
  | AgentMessage string string
  | AgentStart string string
  | AgentResult string string
  | PlanningSubmission
  | PlanningSkip
  | PlanningComplete
  | InspectionSummary
  | BuildFailed "subtype option" string
  | RetryNotice string nat nat subtype string "string option" "string option"
  | ContinuationNotice nat nat continuation_kind
  | AgentWarning string string
  | OtherEvent string

definition hasAuthoritativePlannerCheckpoint :: "agent_event list \<Rightarrow> bool" where
  "hasAuthoritativePlannerCheckpoint evs = list_ex (\<lambda>e. e = PlanningComplete \<or> e = PlanningSkip) evs"

definition isBeforePlannerSubmissionBoundary :: "agent_event list \<Rightarrow> bool" where
  "isBeforePlannerSubmissionBoundary evs =
     (\<not> list_ex (\<lambda>e. e = PlanningSubmission \<or> e = PlanningSkip \<or> e = PlanningComplete) evs)"

definition isRetryableInfrastructureSubtype :: "subtype \<Rightarrow> bool" where
  "isRetryableInfrastructureSubtype s \<longleftrightarrow> s = TransientTransport \<or> s = PiToolInfrastructure"

text \<open>What the classification looks at in a thrown value: the subtype of an \<open>AgentTerminalError\<close>,
  the answers of the message patterns, and the class of the error.\<close>

record thrown =
  th_terminal :: "subtype option"
  th_transient :: bool
  th_piInfra :: bool
  th_context :: bool
  th_plannerSubmission :: bool
  th_noVerdicts :: bool
  th_text :: string

definition classifyAgentTerminalSubtype :: "thrown \<Rightarrow> subtype option" where
  "classifyAgentTerminalSubtype e =
     (if th_transient e then Some TransientTransport
      else if th_piInfra e then Some PiToolInfrastructure
      else if th_context e then Some ContextWindow
      else th_terminal e)"

definition classifyError :: "thrown \<Rightarrow> subtype option" where
  "classifyError e =
     (case classifyAgentTerminalSubtype e of
        Some s \<Rightarrow> Some s
      | None \<Rightarrow> if th_plannerSubmission e \<or> th_noVerdicts e then Some DuringExecution else None)"

fun extractAgentId :: "agent_event list \<Rightarrow> string \<Rightarrow> string" where
  "extractAgentId [] fallback = fallback"
| "extractAgentId (AgentStart a i # evs) fallback = (if i \<noteq> [] then i else extractAgentId evs fallback)"
| "extractAgentId (AgentResult a i # evs) fallback = (if i \<noteq> [] then i else extractAgentId evs fallback)"
| "extractAgentId (_ # evs) fallback = extractAgentId evs fallback"

definition ends_with :: "string \<Rightarrow> string \<Rightarrow> bool" where
  "ends_with suffix s \<longleftrightarrow> length suffix \<le> length s \<and> drop (length s - length suffix) s = suffix"

definition isPlannerSubmissionToolName :: "string \<Rightarrow> bool" where
  "isPlannerSubmissionToolName tool \<longleftrightarrow> tool = ''submit_plan_set'' \<or> ends_with ''__submit_plan_set'' tool"

definition isDroppedSubmission :: "agent_event list \<Rightarrow> bool" where
  "isDroppedSubmission evs =
     (\<not> list_ex (\<lambda>e. case e of ToolUse _ tool _ _ \<Rightarrow> isPlannerSubmissionToolName tool | _ \<Rightarrow> False) evs \<and>
      \<not> list_ex (\<lambda>e. e = PlanningSkip) evs)"

definition hasCompactInspectionContinuation :: "agent_event list \<Rightarrow> bool" where
  "hasCompactInspectionContinuation evs = list_ex (\<lambda>e. e = InspectionSummary) evs"

section \<open>Discovery context\<close>

abbreviation "max_files_inspected \<equiv> 20 :: nat"
abbreviation "max_searches \<equiv> 20 :: nat"
abbreviation "max_commands \<equiv> 15 :: nat"
abbreviation "max_recent_messages \<equiv> 5 :: nat"
abbreviation "max_snippets \<equiv> 8 :: nat"
abbreviation "snippet_length \<equiv> 500 :: nat"
abbreviation "message_length \<equiv> 2000 :: nat"
abbreviation "summary_length \<equiv> 300 :: nat"

record discovery =
  dx_files :: "string list"
  dx_searches :: "string list"
  dx_commands :: "string list"
  dx_messages :: "string list"
  dx_snippets :: "string list"

text \<open>The context while it is built, with the tools by use id.\<close>

record discovering = discovery +
  dx_index :: "(string \<times> string) list"

definition cut :: "nat \<Rightarrow> string \<Rightarrow> string" where
  "cut n s = (if length s > n then take n s @ ''...'' else s)"

definition last_n :: "nat \<Rightarrow> 'a list \<Rightarrow> 'a list" where
  "last_n n xs = drop (length xs - n) xs"

definition string_of :: "js_field option \<Rightarrow> string" where
  "string_of f = (case f of Some (JStr s) \<Rightarrow> s | _ \<Rightarrow> [])"

definition text_of :: "js_field option \<Rightarrow> string" where
  "text_of f = (case f of Some (JStr s) \<Rightarrow> s | Some (JOther s) \<Rightarrow> s | None \<Rightarrow> [])"

definition add_nonempty :: "string \<Rightarrow> string \<Rightarrow> string list \<Rightarrow> string list" where
  "add_nonempty key x xs = (if key \<noteq> [] then sadd x xs else xs)"

definition note_tool :: "string \<Rightarrow> tool_input \<Rightarrow> discovering \<Rightarrow> discovering" where
  "note_tool tool inp c =
     (if tool = ''Read'' then c\<lparr>dx_files := add_nonempty (text_of (ti_file_path inp)) (text_of (ti_file_path inp)) (dx_files c)\<rparr>
      else if tool = ''Grep''
      then (let pattern = string_of (ti_pattern inp);
                path = (case ti_path inp of Some (JStr p) \<Rightarrow> '' in '' @ p | _ \<Rightarrow> [])
            in c\<lparr>dx_searches := add_nonempty pattern (cut summary_length (trim (''grep: '' @ pattern @ path))) (dx_searches c)\<rparr>)
      else if tool = ''Glob''
      then (let pattern = string_of (ti_pattern inp)
            in c\<lparr>dx_searches := add_nonempty pattern (cut summary_length (''glob: '' @ pattern)) (dx_searches c)\<rparr>)
      else if tool = ''Bash''
      then (let cmd = take 200 (string_of (ti_command inp)) in c\<lparr>dx_commands := add_nonempty cmd cmd (dx_commands c)\<rparr>)
      else c)"

fun note_event :: "string \<Rightarrow> agent_event \<Rightarrow> discovering \<Rightarrow> discovering" where
  "note_event name (ToolUse agent tool i inp) c =
     (if agent \<noteq> name then c else note_tool tool inp (c\<lparr>dx_index := dput i tool (dx_index c)\<rparr>))"
| "note_event name (ToolResult agent i output) c =
     (if agent \<noteq> name then c
      else case dget (dx_index c) i of
             Some tool \<Rightarrow>
               if tool \<in> {''Read'', ''Grep'', ''Glob'', ''Bash''} \<and> trim output \<noteq> []
               then c\<lparr>dx_snippets := dx_snippets c @ [''['' @ tool @ ''] '' @ cut snippet_length output]\<rparr>
               else c
           | None \<Rightarrow> c)"
| "note_event name (AgentMessage agent content) c =
     (if agent \<noteq> name then c else c\<lparr>dx_messages := dx_messages c @ [cut message_length content]\<rparr>)"
| "note_event name _ c = c"

definition no_discovery :: discovering where
  "no_discovery = \<lparr>dx_files = [], dx_searches = [], dx_commands = [], dx_messages = [], dx_snippets = [], dx_index = []\<rparr>"

definition extractAgentDiscoveryContext :: "agent_event list \<Rightarrow> string \<Rightarrow> discovery" where
  "extractAgentDiscoveryContext evs name =
     (let c = fold (note_event name) evs no_discovery in
      \<lparr>dx_files = last_n max_files_inspected (dx_files c), dx_searches = last_n max_searches (dx_searches c),
       dx_commands = last_n max_commands (dx_commands c), dx_messages = last_n max_recent_messages (dx_messages c),
       dx_snippets = last_n max_snippets (dx_snippets c)\<rparr>)"

definition extractReviewFixerDiscoveryContext :: "agent_event list \<Rightarrow> discovery" where
  "extractReviewFixerDiscoveryContext evs = extractAgentDiscoveryContext evs ''review-fixer''"

definition extractBuilderDiscoveryContext :: "agent_event list \<Rightarrow> discovery" where
  "extractBuilderDiscoveryContext evs = extractAgentDiscoveryContext evs ''builder''"


section \<open>Git\<close>

text \<open>\<open>execFile('git', \<dots>)\<close> and \<open>forgeCommit\<close>; \<open>None\<close> is a rejected promise. What git answers may
  depend on the commands issued before.\<close>

datatype git_cmd = Git "string list" | ForgeCommit string

type_synonym git = "git_cmd list \<Rightarrow> git_cmd \<Rightarrow> string option"
type_synonym log = "git_cmd list"

definition exec :: "git \<Rightarrow> git_cmd \<Rightarrow> log \<Rightarrow> log \<times> string option" where
  "exec git c l = (l @ [c], git l c)"

definition git_diff_base :: "string \<Rightarrow> git_cmd" where
  "git_diff_base base = Git [''diff'', base @ ''...HEAD'']"

definition git_status :: git_cmd where
  "git_status = Git [''status'', ''--porcelain'']"

definition number :: "nat \<Rightarrow> string" where
  "number n = int_string (int n)"

abbreviation "diff_char_limit \<equiv> 50000 :: nat"

definition buildContinuationDiff :: "git \<Rightarrow> string \<Rightarrow> log \<Rightarrow> log \<times> string option" where
  "buildContinuationDiff git base l =
     (case exec git (git_diff_base base) l of
        (l1, None) \<Rightarrow> (l1, None)
      | (l1, Some diff) \<Rightarrow>
          if length diff \<le> diff_char_limit then (l1, Some diff)
          else (case exec git (Git [''diff'', ''--stat'', base @ ''...HEAD'']) l1 of
                  (l2, None) \<Rightarrow> (l2, None)
                | (l2, Some stat) \<Rightarrow>
                    (l2, Some (''[Diff too large ('' @ number (length diff) @ '' chars) - showing file summary instead]'' @
                       [nl, nl] @ stat))))"

definition hasUnstagedChangesInternal :: "git \<Rightarrow> log \<Rightarrow> log \<times> bool" where
  "hasUnstagedChangesInternal git l =
     (case exec git (Git [''diff'', ''--name-only'']) l of
        (l1, None) \<Rightarrow> (l1, False)
      | (l1, Some tracked) \<Rightarrow>
          if length (trim tracked) > 0 then (l1, True)
          else (case exec git (Git [''ls-files'', ''--others'', ''--exclude-standard'']) l1 of
                  (l2, None) \<Rightarrow> (l2, False)
                | (l2, Some untracked) \<Rightarrow> (l2, length (trim untracked) > 0)))"

definition hasAnyChanges :: "git \<Rightarrow> log \<Rightarrow> log \<times> bool" where
  "hasAnyChanges git l =
     (case exec git git_status l of (l1, None) \<Rightarrow> (l1, False) | (l1, Some out) \<Rightarrow> (l1, length (trim out) > 0))"

section \<open>Continuation inputs\<close>

record 'i attempt_info =
  ai_attempt :: nat
  ai_max :: nat
  ai_subtype :: subtype
  ai_events :: "agent_event list"
  ai_prev :: 'i
  ai_error :: "thrown option"

datatype 'i decision = RetryWith 'i | AbortSuccess

text \<open>A builder of the next input: \<open>None\<close> is a thrown error.\<close>

type_synonym 'i building = "log \<times> 'i decision option"

record planner_context =
  pc_attempt :: nat
  pc_maxContinuations :: nat
  pc_existingPlans :: string
  pc_reason :: continuation_reason

record planner_input =
  pi_planSetName :: string
  pi_planDir :: string
  pi_context :: "planner_context option"

text \<open>The plan directory: whether it exists, its entries (\<open>None\<close> when they cannot be read), and the
  id and name parsed from a plan file.\<close>

record plan_dir =
  pd_exists :: bool
  pd_entries :: "string list option"
  pd_parse :: "string \<Rightarrow> (string \<times> string) option"

definition commitPlanArtifacts :: "git \<Rightarrow> plan_dir \<Rightarrow> planner_input \<Rightarrow> log \<Rightarrow> log \<times> bool" where
  "commitPlanArtifacts git dir inp l =
     (if \<not> pd_exists dir then (l, True)
      else case exec git (Git [''add'', pi_planDir inp]) l of
        (l1, None) \<Rightarrow> (l1, False)
      | (l1, Some _) \<Rightarrow>
          (case exec git (Git [''diff'', ''--cached'', ''--name-only'']) l1 of
             (l2, None) \<Rightarrow> (l2, False)
           | (l2, Some staged) \<Rightarrow>
               if length (trim staged) = 0 then (l2, True)
               else (case exec git (ForgeCommit (''plan('' @ pi_planSetName inp @ ''): initial planning artifacts'')) l2 of
                       (l3, r) \<Rightarrow> (l3, r \<noteq> None))))"

definition plan_summary :: "plan_dir \<Rightarrow> string \<Rightarrow> string" where
  "plan_summary dir file =
     (case pd_parse dir file of
        Some (i, name) \<Rightarrow> ''- **'' @ i @ ''**: '' @ name
      | None \<Rightarrow> ''- '' @ file @ '' (could not parse frontmatter)'')"

definition existing_plans :: "plan_dir \<Rightarrow> string" where
  "existing_plans dir =
     (let missing = ''[No existing plans found]'' in
      if \<not> pd_exists dir then missing
      else case pd_entries dir of
        None \<Rightarrow> missing
      | Some entries \<Rightarrow>
          (let summaries = map (plan_summary dir) (sort_key (map code) (filter (ends_with ''.md'') entries))
           in if length summaries > 0 then join [nl] summaries else missing))"

definition continuation_reason_of :: "subtype \<Rightarrow> continuation_reason" where
  "continuation_reason_of s = (if s = MaxTurns then ReasonMaxTurns else ReasonDroppedSubmission)"

definition buildPlannerContinuationInput :: "git \<Rightarrow> plan_dir \<Rightarrow> planner_input attempt_info \<Rightarrow> log \<Rightarrow> planner_input building" where
  "buildPlannerContinuationInput git dir info l =
     (let inp = ai_prev info; reason = continuation_reason_of (ai_subtype info) in
      case commitPlanArtifacts git dir inp l of
        (l1, False) \<Rightarrow> (l1, None)
      | (l1, True) \<Rightarrow>
          (l1, Some (RetryWith (inp\<lparr>pi_context := Some \<lparr>pc_attempt = ai_attempt info, pc_maxContinuations = ai_max info - 1,
             pc_existingPlans = (if reason = ReasonDroppedSubmission
               then ''[No existing plans - previous attempt did not submit]'' else existing_plans dir),
             pc_reason = reason\<rparr>\<rparr>))))"

datatype builder_context = CheckpointedDiff nat nat string | DiscoveryOnly nat nat discovery

record builder_input =
  bi_baseBranch :: string
  bi_planId :: string
  bi_context :: "builder_context option"

definition or_text :: "string \<Rightarrow> string option \<Rightarrow> string" where
  "or_text fallback t = (case t of Some x \<Rightarrow> x | None \<Rightarrow> fallback)"

definition buildBuilderContinuationInput :: "git \<Rightarrow> builder_input attempt_info \<Rightarrow> log \<Rightarrow> builder_input building" where
  "buildBuilderContinuationInput git info l =
     (let inp = ai_prev info; k = ai_attempt info; m = ai_max info - 1 in
      case hasAnyChanges git l of
        (l1, False) \<Rightarrow>
          (l1, Some (RetryWith (inp\<lparr>bi_context := Some (DiscoveryOnly k m (extractBuilderDiscoveryContext (ai_events info)))\<rparr>)))
      | (l1, True) \<Rightarrow>
          (case exec git (Git [''add'', ''-A'']) l1 of
             (l2, None) \<Rightarrow> (l2, None)
           | (l2, Some _) \<Rightarrow>
               (case exec git (ForgeCommit (''wip('' @ bi_planId inp @ ''): continuation checkpoint (attempt '' @
                       number (ai_attempt info + 1) @ '')'')) l2 of
                  (l3, None) \<Rightarrow> (l3, None)
                | (l3, Some _) \<Rightarrow>
                    (case buildContinuationDiff git (bi_baseBranch inp) l3 of
                       (l4, d) \<Rightarrow>
                         (l4, Some (RetryWith (inp\<lparr>bi_context :=
                            Some (CheckpointedDiff k m (or_text ''[Unable to generate diff]'' d))\<rparr>)))))))"

section \<open>Shards\<close>

record shard_scope =
  ss_roots :: "string list option"
  ss_files :: "string list option"

record shard_input =
  si_builder :: builder_input
  si_shardId :: string
  si_scope :: shard_scope

definition or_none :: "'a list option \<Rightarrow> 'a list" where
  "or_none xs = (case xs of Some ys \<Rightarrow> ys | None \<Rightarrow> [])"

definition is_prefix :: "string \<Rightarrow> string \<Rightarrow> bool" where
  "is_prefix p s \<longleftrightarrow> take (length p) s = p"

definition under_root :: "string \<Rightarrow> string \<Rightarrow> bool" where
  "under_root file root \<longleftrightarrow> is_prefix (if ends_with ''/'' root then root else root @ ''/'') file \<or> file = root"

definition fileMatchesShardScope :: "string \<Rightarrow> shard_scope \<Rightarrow> bool" where
  "fileMatchesShardScope file scope \<longleftrightarrow>
     list_ex (under_root file) (or_none (ss_roots scope)) \<or> file \<in> set (or_none (ss_files scope))"

definition scope_paths :: "shard_scope \<Rightarrow> string list" where
  "scope_paths scope = or_none (ss_roots scope) @ or_none (ss_files scope)"

definition status_lines :: "string \<Rightarrow> string list" where
  "status_lines out = filter (\<lambda>l. l \<noteq> []) (split_on nl (trim out))"

text \<open>\<open>line.slice(3).trim().replace(/^"(.*)"$/, '$1')\<close>\<close>

definition unquote :: "string \<Rightarrow> string" where
  "unquote s = (if length s \<ge> 2 \<and> hd s = dq \<and> last s = dq \<and> \<not> list_ex line_end (slice1 s) then slice1 s else s)"

definition line_file :: "string \<Rightarrow> string" where
  "line_file l = unquote (trim (drop 3 l))"

definition hasShardScopeChanges :: "git \<Rightarrow> shard_scope \<Rightarrow> log \<Rightarrow> log \<times> bool" where
  "hasShardScopeChanges git scope l =
     (case exec git git_status l of
        (l1, None) \<Rightarrow> (l1, False)
      | (l1, Some out) \<Rightarrow> (l1, list_ex (\<lambda>x. fileMatchesShardScope (line_file x) scope) (status_lines out)))"

definition worktree_line :: "string \<Rightarrow> bool" where
  "worktree_line x \<longleftrightarrow> length x > 1 \<and> x ! 1 \<noteq> CHR '' ''"

definition hasShardScopeWorktreeChanges :: "git \<Rightarrow> shard_scope \<Rightarrow> log \<Rightarrow> log \<times> bool" where
  "hasShardScopeWorktreeChanges git scope l =
     (case exec git git_status l of
        (l1, None) \<Rightarrow> (l1, False)
      | (l1, Some out) \<Rightarrow>
          (l1, list_ex (\<lambda>x. worktree_line x \<and> fileMatchesShardScope (line_file x) scope) (status_lines out)))"

definition stageUntrackedFilesInScope :: "git \<Rightarrow> shard_scope \<Rightarrow> log \<Rightarrow> log \<times> bool" where
  "stageUntrackedFilesInScope git scope l =
     (case exec git git_status l of
        (l1, None) \<Rightarrow> (l1, False)
      | (l1, Some out) \<Rightarrow>
          (let toStage = filter (\<lambda>f. fileMatchesShardScope f scope)
                 (map line_file (filter (\<lambda>x. take 2 x = ''??'') (status_lines out)))
           in if length toStage > 0
              then (case exec git (Git ([''add'', ''--''] @ toStage)) l1 of (l2, r) \<Rightarrow> (l2, r \<noteq> None))
              else (l1, True)))"

definition partial_text :: "string \<Rightarrow> string" where
  "partial_text d = (if length d \<le> diff_char_limit then d
     else ''[Diff too large ('' @ number (length d) @ '' chars) - showing partial]'' @ [nl] @ take diff_char_limit d)"

definition with_paths :: "shard_scope \<Rightarrow> string list" where
  "with_paths scope = (if length (scope_paths scope) > 0 then ''--'' # scope_paths scope else [])"

definition shard_next :: "shard_input \<Rightarrow> builder_context \<Rightarrow> shard_input decision option" where
  "shard_next inp c = Some (RetryWith (inp\<lparr>si_builder := (si_builder inp)\<lparr>bi_context := Some c\<rparr>\<rparr>))"

definition stash_scope :: "git \<Rightarrow> shard_input attempt_info \<Rightarrow> log \<Rightarrow> shard_input building" where
  "stash_scope git info l =
     (let inp = ai_prev info; scope = si_scope inp; k = ai_attempt info; m = ai_max info - 1 in
      case stageUntrackedFilesInScope git scope l of
        (l1, False) \<Rightarrow> (l1, None)
      | (l1, True) \<Rightarrow>
          (case exec git (Git ([''stash'', ''push'', ''--keep-index'', ''-m'',
                  ''eforge-shard-'' @ si_shardId inp @ ''-attempt-'' @ number k] @ with_paths scope)) l1 of
             (l2, None) \<Rightarrow> (l2, None)
           | (l2, Some _) \<Rightarrow>
               (case exec git (Git [''stash'', ''show'', ''-p'', ''stash@'' @ ''{0}'']) l2 of
                  (l3, d) \<Rightarrow> (l3, shard_next inp (CheckpointedDiff k m
                     (or_text ''[Unable to generate stash diff]'' (map_option partial_text d)))))))"

definition buildShardedBuilderContinuationInput :: "git \<Rightarrow> shard_input attempt_info \<Rightarrow> log \<Rightarrow> shard_input building" where
  "buildShardedBuilderContinuationInput git info l =
     (let inp = ai_prev info; scope = si_scope inp; k = ai_attempt info; m = ai_max info - 1 in
      case hasShardScopeChanges git scope l of
        (l1, False) \<Rightarrow> (l1, shard_next inp (DiscoveryOnly k m (extractBuilderDiscoveryContext (ai_events info))))
      | (l1, True) \<Rightarrow>
          (case hasShardScopeWorktreeChanges git scope l1 of
             (l2, False) \<Rightarrow>
               (case exec git (Git ([''diff'', ''--cached''] @ with_paths scope)) l2 of
                  (l3, d) \<Rightarrow> (l3, shard_next inp (CheckpointedDiff k m
                     (or_text ''[Unable to generate staged diff]'' (map_option partial_text d)))))
           | (l2, True) \<Rightarrow> stash_scope git info l2))"


section \<open>Review fixer and evaluator\<close>

record fixer_context =
  fc_attempt :: nat
  fc_maxContinuations :: nat
  fc_partialDiff :: string
  fc_untrackedFiles :: "string list"
  fc_discovery :: discovery

record fixer_input =
  fi_planId :: string
  fi_round :: "nat option"
  fi_context :: "fixer_context option"

abbreviation "fixer_diff_limit \<equiv> 40000 :: nat"

definition fixer_diff :: "string \<Rightarrow> string" where
  "fixer_diff d = (if length d \<le> fixer_diff_limit then d
     else ''[Diff too large ('' @ number (length d) @ '' chars) - showing truncated]'' @ [nl] @ take fixer_diff_limit d)"

definition buildReviewFixerContinuationInput :: "git \<Rightarrow> fixer_input attempt_info \<Rightarrow> log \<Rightarrow> fixer_input building" where
  "buildReviewFixerContinuationInput git info l =
     (case exec git (Git [''diff'', ''HEAD'', ''--'']) l of
        (l1, d) \<Rightarrow>
          (case exec git (Git [''ls-files'', ''--others'', ''--exclude-standard'']) l1 of
             (l2, u) \<Rightarrow>
               (l2, Some (RetryWith ((ai_prev info)\<lparr>fi_context := Some
                  \<lparr>fc_attempt = ai_attempt info, fc_maxContinuations = ai_max info - 1,
                   fc_partialDiff = or_text ''[Unable to generate diff]'' (map_option fixer_diff d),
                   fc_untrackedFiles = (case u of Some out \<Rightarrow> filter (\<lambda>x. x \<noteq> []) (split_on nl (trim out)) | None \<Rightarrow> []),
                   fc_discovery = extractReviewFixerDiscoveryContext (ai_events info)\<rparr>\<rparr>)))))"

record evaluator_input =
  ei_planId :: "string option"
  ei_round :: "nat option"
  ei_snapshot :: "string option"
  ei_context :: "(nat \<times> nat) option"

text \<open>\<open>check\<close> is the override of the clean-worktree check.\<close>

definition buildEvaluatorContinuationInput ::
    "git \<Rightarrow> (log \<Rightarrow> log \<times> bool) option \<Rightarrow> evaluator_input attempt_info \<Rightarrow> log \<Rightarrow> evaluator_input building" where
  "buildEvaluatorContinuationInput git check info l =
     (case (case check of Some c \<Rightarrow> c l | None \<Rightarrow> hasUnstagedChangesInternal git l) of
        (l1, False) \<Rightarrow> (l1, Some AbortSuccess)
      | (l1, True) \<Rightarrow>
          (l1, Some (RetryWith ((ai_prev info)\<lparr>ei_context := Some (ai_attempt info, ai_max info - 1)\<rparr>))))"

section \<open>Policies\<close>

record ('i, 'w) policy =
  po_agent :: string
  po_maxAttempts :: nat
  po_retryable :: "subtype list"
  po_shouldRetry :: "('i attempt_info \<Rightarrow> bool) option"
  po_build :: "('i attempt_info \<Rightarrow> 'w \<Rightarrow> 'w \<times> 'i decision option) option"
  po_onRetry :: "('i attempt_info \<Rightarrow> agent_event list) option"
  po_label :: string
  po_planId :: "('i \<Rightarrow> string option) option"
  po_shardId :: "('i \<Rightarrow> string option) option"
  po_terminalSuccess :: "('i attempt_info \<Rightarrow> 'w \<Rightarrow> bool) option"
  po_onTerminalSuccess :: "('i attempt_info \<Rightarrow> agent_event list) option"

definition getPolicy_default :: "string \<Rightarrow> ('i, 'w) policy" where
  "getPolicy_default role = \<lparr>po_agent = role, po_maxAttempts = 1, po_retryable = [], po_shouldRetry = None,
     po_build = None, po_onRetry = None, po_label = role @ ''-no-retry'', po_planId = None, po_shardId = None,
     po_terminalSuccess = None, po_onTerminalSuccess = None\<rparr>"

definition retryable_max_turns :: "subtype list" where
  "retryable_max_turns = [MaxTurns]"

definition retryable_max_turns_transport_and_infra :: "subtype list" where
  "retryable_max_turns_transport_and_infra = [MaxTurns, TransientTransport, PiToolInfrastructure]"

definition error_is :: "(thrown \<Rightarrow> bool) \<Rightarrow> 'i attempt_info \<Rightarrow> bool" where
  "error_is P info = (case ai_error info of Some e \<Rightarrow> P e | None \<Rightarrow> False)"

definition planner_shouldRetry :: "planner_input attempt_info \<Rightarrow> bool" where
  "planner_shouldRetry info \<longleftrightarrow>
     (let evs = ai_events info; compact = hasCompactInspectionContinuation evs in
      (error_is th_plannerSubmission info \<and> isDroppedSubmission evs \<and> \<not> compact) \<or>
      (ai_subtype info = MaxTurns \<and> \<not> compact) \<or>
      (isRetryableInfrastructureSubtype (ai_subtype info) \<and> isBeforePlannerSubmissionBoundary evs \<and> \<not> compact))"

definition planner_onRetry :: "planner_input attempt_info \<Rightarrow> agent_event list" where
  "planner_onRetry info = [ContinuationNotice (ai_attempt info) (ai_max info - 1)
     (PlanningContinuation (continuation_reason_of (ai_subtype info)))]"

definition planner_terminalSuccess :: "planner_input attempt_info \<Rightarrow> bool" where
  "planner_terminalSuccess info \<longleftrightarrow>
     isRetryableInfrastructureSubtype (ai_subtype info) \<and> hasAuthoritativePlannerCheckpoint (ai_events info)"

definition planner_onTerminalSuccess :: "planner_input attempt_info \<Rightarrow> agent_event list" where
  "planner_onTerminalSuccess info = [AgentWarning (extractAgentId (ai_events info) ''planner-unknown'')
     (''Retryable infrastructure error after planner checkpoint was downgraded: '' @
        (case ai_error info of Some e \<Rightarrow> th_text e | None \<Rightarrow> ''undefined''))]"

definition planner_policy :: "git \<Rightarrow> plan_dir \<Rightarrow> (planner_input, log) policy" where
  "planner_policy git dir = \<lparr>po_agent = ''planner'', po_maxAttempts = 3, po_retryable = [],
     po_shouldRetry = Some planner_shouldRetry, po_build = Some (buildPlannerContinuationInput git dir),
     po_onRetry = Some planner_onRetry, po_label = ''planner-continuation'', po_planId = None, po_shardId = None,
     po_terminalSuccess = Some (\<lambda>info _. planner_terminalSuccess info),
     po_onTerminalSuccess = Some planner_onTerminalSuccess\<rparr>"

definition builder_policy :: "git \<Rightarrow> (builder_input, log) policy" where
  "builder_policy git = \<lparr>po_agent = ''builder'', po_maxAttempts = 4,
     po_retryable = retryable_max_turns_transport_and_infra, po_shouldRetry = None,
     po_build = Some (buildBuilderContinuationInput git),
     po_onRetry = Some (\<lambda>info. [ContinuationNotice (ai_attempt info) (ai_max info - 1)
       (ImplementContinuation (bi_planId (ai_prev info)) None)]),
     po_label = ''builder-continuation'', po_planId = Some (\<lambda>i. Some (bi_planId i)), po_shardId = None,
     po_terminalSuccess = None, po_onTerminalSuccess = None\<rparr>"

definition buildShardPolicy :: "git \<Rightarrow> string \<Rightarrow> nat \<Rightarrow> (shard_input, log) policy" where
  "buildShardPolicy git shardId maxAttempts = \<lparr>po_agent = ''builder'', po_maxAttempts = maxAttempts,
     po_retryable = retryable_max_turns_transport_and_infra, po_shouldRetry = None,
     po_build = Some (buildShardedBuilderContinuationInput git),
     po_onRetry = Some (\<lambda>info. [ContinuationNotice (ai_attempt info) (ai_max info - 1)
       (ImplementContinuation (bi_planId (si_builder (ai_prev info))) (Some shardId))]),
     po_label = ''builder-shard-'' @ shardId @ ''-continuation'',
     po_planId = Some (\<lambda>i. Some (bi_planId (si_builder i))), po_shardId = Some (\<lambda>i. Some (si_shardId i)),
     po_terminalSuccess = None, po_onTerminalSuccess = None\<rparr>"

definition evaluator_policy :: "git \<Rightarrow> (log \<Rightarrow> log \<times> bool) option \<Rightarrow> (evaluator_input, log) policy" where
  "evaluator_policy git check = \<lparr>po_agent = ''evaluator'', po_maxAttempts = 2,
     po_retryable = retryable_max_turns_transport_and_infra, po_shouldRetry = Some (error_is th_noVerdicts),
     po_build = Some (buildEvaluatorContinuationInput git check),
     po_onRetry = Some (\<lambda>info. [ContinuationNotice (ai_attempt info) (ai_max info - 1)
       (EvaluateContinuation (or_text [] (ei_planId (ai_prev info))) (ei_round (ai_prev info)))]),
     po_label = ''evaluator-continuation'', po_planId = Some ei_planId, po_shardId = None,
     po_terminalSuccess = None, po_onTerminalSuccess = None\<rparr>"

definition plan_evaluator_policy :: "git \<Rightarrow> (log \<Rightarrow> log \<times> bool) option \<Rightarrow> (evaluator_input, log) policy" where
  "plan_evaluator_policy git check = \<lparr>po_agent = ''plan-evaluator'', po_maxAttempts = 2,
     po_retryable = retryable_max_turns_transport_and_infra, po_shouldRetry = None,
     po_build = Some (buildEvaluatorContinuationInput git check),
     po_onRetry = Some (\<lambda>info. [ContinuationNotice (ai_attempt info) (ai_max info - 1) PlanEvaluateContinuation]),
     po_label = ''plan-evaluator-continuation'', po_planId = None, po_shardId = None,
     po_terminalSuccess = None, po_onTerminalSuccess = None\<rparr>"

definition review_fixer_policy :: "git \<Rightarrow> (fixer_input, log) policy" where
  "review_fixer_policy git = \<lparr>po_agent = ''review-fixer'', po_maxAttempts = 3, po_retryable = retryable_max_turns,
     po_shouldRetry = None, po_build = Some (buildReviewFixerContinuationInput git),
     po_onRetry = Some (\<lambda>info. [ContinuationNotice (ai_attempt info) (ai_max info - 1)
       (ReviewFixContinuation (fi_planId (ai_prev info)) (fi_round (ai_prev info)))]),
     po_label = ''review-fixer-continuation'', po_planId = Some (\<lambda>i. Some (fi_planId i)), po_shardId = None,
     po_terminalSuccess = None, po_onTerminalSuccess = None\<rparr>"

section \<open>The wrapper\<close>

text \<open>An attempt is the list of events the agent yields and how it ends.\<close>

datatype 'r outcome = Finished 'r | Threw thrown

datatype 'r final = Returned "'r option" | Raised thrown

type_synonym ('i, 'r, 'w) agent = "'i \<Rightarrow> 'w \<Rightarrow> 'w \<times> agent_event list \<times> 'r outcome"

text \<open>The inner loop: what is yielded, and the terminal failure that is held back.\<close>

fun stream :: "agent_event list \<Rightarrow> (subtype \<times> agent_event) option \<Rightarrow> agent_event list \<times> (subtype \<times> agent_event) option" where
  "stream [] held = ([], held)"
| "stream (BuildFailed (Some s) m # evs) held = stream evs (Some (s, BuildFailed (Some s) m))"
| "stream (e # evs) held = (case stream evs held of (out, h) \<Rightarrow> (e # out, h))"

definition retry_notice :: "('i, 'w) policy \<Rightarrow> 'i attempt_info \<Rightarrow> agent_event" where
  "retry_notice pol info = RetryNotice (po_agent pol) (ai_attempt info) (po_maxAttempts pol) (ai_subtype info) (po_label pol)
     (case po_planId pol of Some f \<Rightarrow> f (ai_prev info) | None \<Rightarrow> None)
     (case po_shardId pol of Some f \<Rightarrow> f (ai_prev info) | None \<Rightarrow> None)"

definition hook_events :: "('i attempt_info \<Rightarrow> agent_event list) option \<Rightarrow> 'i attempt_info \<Rightarrow> agent_event list" where
  "hook_events h info = (case h of Some f \<Rightarrow> f info | None \<Rightarrow> [])"

datatype 'i verdict = Stop | Downgrade | Propagate | Again 'i

text \<open>What follows a terminal failure.\<close>

definition decide :: "('i, 'w) policy \<Rightarrow> 'i attempt_info \<Rightarrow> 'w \<Rightarrow> 'w \<times> 'i verdict" where
  "decide pol info w =
     (if (case po_terminalSuccess pol of Some f \<Rightarrow> f info w | None \<Rightarrow> False) then (w, Downgrade)
      else if \<not> (ai_attempt info < po_maxAttempts pol \<and>
          (ai_subtype info \<in> set (po_retryable pol) \<or> (case po_shouldRetry pol of Some f \<Rightarrow> f info | None \<Rightarrow> False)))
        then (w, Propagate)
      else case po_build pol of
             None \<Rightarrow> (w, Again (ai_prev info))
           | Some f \<Rightarrow>
               (case f info w of
                  (w1, None) \<Rightarrow> (w1, Propagate)
                | (w1, Some AbortSuccess) \<Rightarrow> (w1, Stop)
                | (w1, Some (RetryWith i)) \<Rightarrow> (w1, Again i)))"

definition end_with :: "thrown option \<Rightarrow> agent_event option \<Rightarrow> 'r option \<Rightarrow> agent_event list \<times> 'r final" where
  "end_with err held lastResult =
     (case err of Some e \<Rightarrow> ([], Raised e)
      | None \<Rightarrow> ((case held of Some e \<Rightarrow> [e] | None \<Rightarrow> []), Returned lastResult))"

text \<open>The \<open>for\<close> loop: the first argument counts the attempts that are left.\<close>

fun retry_loop :: "('i, 'r, 'w) agent \<Rightarrow> ('i, 'w) policy \<Rightarrow> nat \<Rightarrow> nat \<Rightarrow> 'i \<Rightarrow> 'r option \<Rightarrow> 'w \<Rightarrow> 'w \<times> agent_event list \<times> 'r final" where
  "retry_loop run pol 0 k inp lastResult w = (w, [], Returned lastResult)"
| "retry_loop run pol (Suc n) k inp lastResult w =
     (case run inp w of
        (w1, evs, outcome) \<Rightarrow>
          (let (shown, held) = stream evs None;
               lastResult1 = (case outcome of Finished r \<Rightarrow> Some r | Threw _ \<Rightarrow> lastResult);
               err = (case outcome of Finished _ \<Rightarrow> None | Threw e \<Rightarrow> Some e);
               sub = (case outcome of Finished _ \<Rightarrow> map_option fst held | Threw e \<Rightarrow> classifyError e)
           in case (sub, err) of
                (None, Some e) \<Rightarrow> (w1, shown, Raised e)
              | (None, None) \<Rightarrow> (w1, shown, Returned lastResult1)
              | (Some s, _) \<Rightarrow>
                  (let info = \<lparr>ai_attempt = k, ai_max = po_maxAttempts pol, ai_subtype = s, ai_events = evs,
                          ai_prev = inp, ai_error = err\<rparr>
                   in case decide pol info w1 of
                        (w2, Downgrade) \<Rightarrow> (w2, shown @ hook_events (po_onTerminalSuccess pol) info, Returned lastResult1)
                      | (w2, Stop) \<Rightarrow> (w2, shown, Returned lastResult1)
                      | (w2, Propagate) \<Rightarrow>
                          (case end_with err (map_option snd held) lastResult1 of (es, f) \<Rightarrow> (w2, shown @ es, f))
                      | (w2, Again i) \<Rightarrow>
                          (case retry_loop run pol n (k + 1) i lastResult1 w2 of
                             (w3, es, f) \<Rightarrow>
                               (w3, shown @ [retry_notice pol info] @ hook_events (po_onRetry pol) info @ es, f)))))"

definition withRetry :: "('i, 'r, 'w) agent \<Rightarrow> ('i, 'w) policy \<Rightarrow> 'i \<Rightarrow> 'w \<Rightarrow> 'w \<times> agent_event list \<times> 'r final" where
  "withRetry run pol inp w = retry_loop run pol (po_maxAttempts pol) 1 inp None w"


section \<open>What a wrapped agent emits\<close>

definition is_held :: "agent_event \<Rightarrow> bool" where
  "is_held e = (case e of BuildFailed (Some _) _ \<Rightarrow> True | _ \<Rightarrow> False)"

definition shown :: "agent_event list \<Rightarrow> agent_event list" where
  "shown evs = filter (\<lambda>e. \<not> is_held e) evs"

definition held_subtype :: "agent_event \<Rightarrow> subtype" where
  "held_subtype e = (case e of BuildFailed (Some s) _ \<Rightarrow> s | _ \<Rightarrow> DuringExecution)"

text \<open>The last failure that is held back.\<close>

definition held_back :: "agent_event list \<Rightarrow> agent_event option" where
  "held_back evs = (case filter is_held evs of [] \<Rightarrow> None | hs \<Rightarrow> Some (last hs))"

lemma stream_eq: "stream evs h = (shown evs, case held_back evs of Some e \<Rightarrow> Some (held_subtype e, e) | None \<Rightarrow> h)"
  by (induction evs h rule: stream.induct)
     (auto simp: shown_def held_back_def is_held_def held_subtype_def split: list.splits option.splits)

text \<open>How an attempt ended: \<open>None\<close> is no terminal failure.\<close>

definition ended :: "agent_event list \<Rightarrow> 'r outcome \<Rightarrow> subtype option" where
  "ended evs outcome = (case outcome of Finished _ \<Rightarrow> map_option held_subtype (held_back evs) | Threw e \<Rightarrow> classifyError e)"

definition error_of :: "'r outcome \<Rightarrow> thrown option" where
  "error_of outcome = (case outcome of Finished _ \<Rightarrow> None | Threw e \<Rightarrow> Some e)"

definition may_retry :: "('i, 'w) policy \<Rightarrow> 'i attempt_info \<Rightarrow> bool" where
  "may_retry pol info \<longleftrightarrow> ai_subtype info \<in> set (po_retryable pol) \<or>
     (case po_shouldRetry pol of Some f \<Rightarrow> f info | None \<Rightarrow> False)"

text \<open>\<open>retried run pol k i w infos k' i' w'\<close>: attempt \<open>k\<close> starts with input \<open>i\<close>; the attempts \<open>infos\<close> fail, may
  be retried and are; attempt \<open>k'\<close> starts with \<open>i'\<close>.\<close>

inductive retried :: "('i, 'r, 'w) agent \<Rightarrow> ('i, 'w) policy \<Rightarrow> nat \<Rightarrow> 'i \<Rightarrow> 'w \<Rightarrow> 'i attempt_info list \<Rightarrow> nat \<Rightarrow> 'i \<Rightarrow> 'w \<Rightarrow> bool"
  for run pol where
  retried_none: "retried run pol k i w [] k i w"
| retried_step: "run i w = (w1, evs, outcome) \<Longrightarrow> ended evs outcome = Some s \<Longrightarrow>
    info = \<lparr>ai_attempt = k, ai_max = po_maxAttempts pol, ai_subtype = s, ai_events = evs, ai_prev = i, ai_error = error_of outcome\<rparr> \<Longrightarrow>
    may_retry pol info \<Longrightarrow> k < po_maxAttempts pol \<Longrightarrow> decide pol info w1 = (w2, Again i2) \<Longrightarrow>
    retried run pol (k + 1) i2 w2 infos k' i' w' \<Longrightarrow> retried run pol k i w (info # infos) k' i' w'"

text \<open>How the last attempt ends the run: with its own error, with the failure held back, with the
  events of a downgrade, or with nothing more.\<close>

definition ending :: "('i, 'w) policy \<Rightarrow> nat \<Rightarrow> 'i \<Rightarrow> agent_event list \<Rightarrow> 'r outcome \<Rightarrow> agent_event list \<Rightarrow> 'r final \<Rightarrow> bool" where
  "ending pol k i evs outcome tail fin \<longleftrightarrow>
     (\<exists>e. outcome = Threw e \<and> fin = Raised e \<and> tail = []) \<or>
     ((\<exists>r. fin = Returned r) \<and>
       (tail = [] \<or> (\<exists>e. held_back evs = Some e \<and> tail = [e] \<and> error_of outcome = None) \<or>
        (\<exists>s. ended evs outcome = Some s \<and> tail = hook_events (po_onTerminalSuccess pol)
          \<lparr>ai_attempt = k, ai_max = po_maxAttempts pol, ai_subtype = s, ai_events = evs, ai_prev = i, ai_error = error_of outcome\<rparr>)))"

definition notices :: "('i, 'w) policy \<Rightarrow> 'i attempt_info \<Rightarrow> agent_event list" where
  "notices pol info = shown (ai_events info) @ retry_notice pol info # hook_events (po_onRetry pol) info"

lemma decide_again:
  "decide pol info w = (w', Again i) \<Longrightarrow> may_retry pol info \<and> ai_attempt info < po_maxAttempts pol"
  by (auto simp: decide_def may_retry_def split: if_splits)

lemma retry_loop_step:
  "retry_loop run pol (Suc n) k inp lastResult w =
     (case run inp w of
        (w1, evs, outcome) \<Rightarrow>
          (let lastResult1 = (case outcome of Finished r \<Rightarrow> Some r | Threw _ \<Rightarrow> lastResult)
           in case ended evs outcome of
                None \<Rightarrow> (w1, shown evs, case error_of outcome of Some e \<Rightarrow> Raised e | None \<Rightarrow> Returned lastResult1)
              | Some s \<Rightarrow>
                  (let info = \<lparr>ai_attempt = k, ai_max = po_maxAttempts pol, ai_subtype = s, ai_events = evs,
                          ai_prev = inp, ai_error = error_of outcome\<rparr>
                   in case decide pol info w1 of
                        (w2, Downgrade) \<Rightarrow> (w2, shown evs @ hook_events (po_onTerminalSuccess pol) info, Returned lastResult1)
                      | (w2, Stop) \<Rightarrow> (w2, shown evs, Returned lastResult1)
                      | (w2, Propagate) \<Rightarrow>
                          (case end_with (error_of outcome) (held_back evs) lastResult1 of (es, f) \<Rightarrow> (w2, shown evs @ es, f))
                      | (w2, Again i) \<Rightarrow>
                          (case retry_loop run pol n (k + 1) i lastResult1 w2 of
                             (w3, es, f) \<Rightarrow> (w3, notices pol info @ es, f)))))"
proof -
  obtain w1 evs outcome where run: "run inp w = (w1, evs, outcome)" by (rule prod_cases3)
  have held: "map_option snd (case held_back evs of Some e \<Rightarrow> Some (held_subtype e, e) | None \<Rightarrow> None) = held_back evs"
    "map_option fst (case held_back evs of Some e \<Rightarrow> Some (held_subtype e, e) | None \<Rightarrow> None) = map_option held_subtype (held_back evs)"
    by (simp_all split: option.split)
  show ?thesis
    by (cases outcome)
       (simp_all add: run stream_eq held ended_def error_of_def notices_def Let_def split: option.split prod.split verdict.split)
qed


declare retry_loop.simps(2) [simp del]

definition whole_run :: "('i, 'r, 'w) agent \<Rightarrow> ('i, 'w) policy \<Rightarrow> nat \<Rightarrow> 'i \<Rightarrow> 'w \<Rightarrow> agent_event list \<Rightarrow> 'r final \<Rightarrow> bool" where
  "whole_run run pol k inp w out fin \<longleftrightarrow>
     (\<exists>infos i w1 w2 evs outcome tail.
        retried run pol k inp w infos (k + length infos) i w1 \<and> run i w1 = (w2, evs, outcome) \<and>
        k + length infos \<le> po_maxAttempts pol \<and>
        out = concat (map (notices pol) infos) @ shown evs @ tail \<and> ending pol (k + length infos) i evs outcome tail fin)"

lemma whole_run_last:
  assumes "run inp w = (w1, evs, outcome)" "k \<le> po_maxAttempts pol" "out = shown evs @ tail"
    "ending pol k inp evs outcome tail fin"
  shows "whole_run run pol k inp w out fin"
  unfolding whole_run_def
  by (rule exI [of _ "[]"], rule exI [of _ inp], rule exI [of _ w], rule exI [of _ w1], rule exI [of _ evs],
      rule exI [of _ outcome], rule exI [of _ tail]) (use assms in \<open>simp add: retried_none\<close>)

lemma whole_run_more:
  assumes "run inp w = (w1, evs, outcome)" "ended evs outcome = Some s"
    "info = \<lparr>ai_attempt = k, ai_max = po_maxAttempts pol, ai_subtype = s, ai_events = evs, ai_prev = inp, ai_error = error_of outcome\<rparr>"
    "decide pol info w1 = (w2, Again i2)" "whole_run run pol (k + 1) i2 w2 out fin"
  shows "whole_run run pol k inp w (notices pol info @ out) fin"
proof -
  from assms(5) obtain infos i w3 w4 evs' outcome' tail where r:
    "retried run pol (k + 1) i2 w2 infos (k + 1 + length infos) i w3" "run i w3 = (w4, evs', outcome')"
    "k + 1 + length infos \<le> po_maxAttempts pol" "out = concat (map (notices pol) infos) @ shown evs' @ tail"
    "ending pol (k + 1 + length infos) i evs' outcome' tail fin"
    unfolding whole_run_def by blast
  have "may_retry pol info" "k < po_maxAttempts pol" using decide_again [OF assms(4)] by (simp_all add: assms(3))
  from retried_step [of run inp w, OF assms(1,2,3) this assms(4) r(1)]
  have "retried run pol k inp w (info # infos) (k + length (info # infos)) i w3" by simp
  then show ?thesis
    unfolding whole_run_def
    by (intro exI [of _ "info # infos"] exI [of _ i] exI [of _ w3] exI [of _ w4] exI [of _ evs'] exI [of _ outcome']
        exI [of _ tail]) (use r in simp)
qed

lemma end_with_ending:
  assumes "ended evs outcome = Some s" "end_with (error_of outcome) (held_back evs) r = (es, f)"
  shows "ending pol k i evs outcome es f"
  using assms by (cases outcome) (auto simp: end_with_def error_of_def ending_def ended_def split: option.splits)

lemma retry_loop_run:
  assumes loop: "retry_loop run pol (Suc n) k inp lastResult w = (w', out, fin)" and k: "k + n = po_maxAttempts pol"
    and IH: "\<And>i r v v' es f m. n = Suc m \<Longrightarrow> retry_loop run pol n (k + 1) i r v = (v', es, f) \<Longrightarrow> whole_run run pol (k + 1) i v es f"
  shows "whole_run run pol k inp w out fin"
proof -
  obtain w1 evs outcome where run: "run inp w = (w1, evs, outcome)" by (rule prod_cases3)
  define r where "r = (case outcome of Finished r \<Rightarrow> Some r | Threw _ \<Rightarrow> lastResult)"
  have le: "k \<le> po_maxAttempts pol" using k by simp
  note last = whole_run_last [of run inp w, OF run le]
  show ?thesis
  proof (cases "ended evs outcome")
    case None
    with loop have e: "out = shown evs" "fin = (case error_of outcome of Some e \<Rightarrow> Raised e | None \<Rightarrow> Returned r)"
      by (auto simp: retry_loop_step run r_def Let_def split: option.splits)
    show ?thesis
      by (rule last [of _ "[]"]) (use e in \<open>auto simp: ending_def error_of_def split: outcome.splits\<close>)
  next
    case (Some s)
    define info where "info = \<lparr>ai_attempt = k, ai_max = po_maxAttempts pol, ai_subtype = s, ai_events = evs,
      ai_prev = inp, ai_error = error_of outcome\<rparr>"
    obtain w2 v where d: "decide pol info w1 = (w2, v)" by (rule prod.exhaust)
    note step = loop [unfolded retry_loop_step, simplified run Some Let_def prod.case option.case, folded r_def info_def, simplified d prod.case]
    show ?thesis
    proof (cases v)
      case Stop
      with step have "out = shown evs" "fin = Returned r" by simp_all
      then show ?thesis by (intro last [of _ "[]"]) (auto simp: ending_def)
    next
      case Downgrade
      with step have e: "out = shown evs @ hook_events (po_onTerminalSuccess pol) info" "fin = Returned r" by simp_all
      show ?thesis
        by (rule last [OF e(1)]) (auto simp: ending_def e(2) info_def Some)
    next
      case Propagate
      obtain es f where ef: "end_with (error_of outcome) (held_back evs) r = (es, f)" by (rule prod.exhaust)
      with Propagate step have "out = shown evs @ es" "fin = f" by simp_all
      with end_with_ending [OF Some ef] show ?thesis by (intro last) auto
    next
      case (Again i)
      obtain w3 es f where rest: "retry_loop run pol n (k + 1) i r w2 = (w3, es, f)" by (rule prod_cases3)
      have e: "out = notices pol info @ es" "fin = f" using step Again rest by simp_all
      have "k < po_maxAttempts pol" using decide_again [OF d [unfolded Again]] by (simp add: info_def)
      then obtain m where "n = Suc m" using k by (cases n) auto
      from IH [OF this rest] whole_run_more [of run inp w, OF run Some info_def d [unfolded Again]]
      show ?thesis by (simp add: e)
    qed
  qed
qed

lemma retry_loop_whole:
  "retry_loop run pol (Suc n) k inp lastResult w = (w', out, fin) \<Longrightarrow> k + n = po_maxAttempts pol \<Longrightarrow>
   whole_run run pol k inp w out fin"
proof (induction n arbitrary: k inp lastResult w w' out fin rule: nat_less_induct)
  case (1 n)
  show ?case
  proof (rule retry_loop_run [OF 1(2,3)])
    fix i r v v' es f m
    assume m: "n = Suc m" and rest: "retry_loop run pol n (k + 1) i r v = (v', es, f)"
    then show "whole_run run pol (k + 1) i v es f"
      using 1(1) [rule_format, of m "k + 1" i r v v' es f] 1(3) by simp
  qed
qed

text \<open>
  C36. What a wrapped agent does: \<open>withRetry\<close> makes at least one and at most \<open>maxAttempts\<close> attempts, each
  but the last ended in a terminal failure that the policy may retry and was followed by the
  retry notices; what is emitted is, in order and for every attempt, all its events but the
  failures held back; then at most the held-back failure of the last attempt or the events of a
  downgrade. It raises only the error of the last attempt.
\<close>

theorem withRetry_exact:
  assumes "withRetry run pol inp w = (w', out, fin)" "po_maxAttempts pol \<ge> 1"
  shows "\<exists>infos i w1 w2 evs outcome tail.
    retried run pol 1 inp w infos (1 + length infos) i w1 \<and> run i w1 = (w2, evs, outcome) \<and>
    1 + length infos \<le> po_maxAttempts pol \<and>
    out = concat (map (notices pol) infos) @ shown evs @ tail \<and> ending pol (1 + length infos) i evs outcome tail fin"
proof -
  obtain n where n: "po_maxAttempts pol = Suc n" using assms(2) by (cases "po_maxAttempts pol") auto
  from retry_loop_whole [of run pol n 1 inp None w w' out fin] assms(1) n
  show ?thesis by (simp add: withRetry_def whole_run_def)
qed


section \<open>The planner after its checkpoint\<close>

text \<open>
  A planner that has completed is not run again and does not fail for an infrastructure error:
  when an attempt under the planner policy, in whatever state the retries are, yields a planning
  completion or a skip and then throws an error classified as transport or tool
  infrastructure, the run ends there, with the events of the attempt (failures held back aside)
  and one warning, and returns.
\<close>

theorem planner_checkpoint_stands:
  assumes "run inp w = (w1, evs, Threw e)" "classifyError e = Some s" "isRetryableInfrastructureSubtype s"
    "hasAuthoritativePlannerCheckpoint evs"
  shows "\<exists>text. retry_loop run (planner_policy git dir) (Suc n) k inp lastResult w =
    (w1, shown evs @ [AgentWarning (extractAgentId evs ''planner-unknown'') text], Returned lastResult)"
  using assms
  by (simp add: retry_loop_step Let_def ended_def error_of_def decide_def planner_policy_def planner_terminalSuccess_def
      hook_events_def planner_onTerminalSuccess_def)

section \<open>Commands of the continuation builders\<close>

definition read_only :: "git_cmd \<Rightarrow> bool" where
  "read_only c \<longleftrightarrow> (case c of Git (a # as) \<Rightarrow> a \<in> {''status'', ''diff'', ''ls-files''} \<or> (a = ''stash'' \<and> as \<noteq> [] \<and> hd as = ''show'')
     | _ \<Rightarrow> False)"

text \<open>A shard may also stage files of its scope and stash its scope, which is named in the command.\<close>

definition shard_command :: "shard_scope \<Rightarrow> git_cmd \<Rightarrow> bool" where
  "shard_command scope c \<longleftrightarrow> read_only c \<or>
     (\<exists>fs. c = Git ([''add'', ''--''] @ fs) \<and> fs \<noteq> [] \<and> (\<forall>f \<in> set fs. fileMatchesShardScope f scope)) \<or>
     (\<exists>m. c = Git ([''stash'', ''push'', ''--keep-index'', ''-m'', m, ''--''] @ scope_paths scope) \<and> scope_paths scope \<noteq> [])"

definition issues :: "(git_cmd \<Rightarrow> bool) \<Rightarrow> log \<Rightarrow> log \<Rightarrow> bool" where
  "issues P l l' \<longleftrightarrow> (\<exists>cs. l' = l @ cs \<and> (\<forall>c \<in> set cs. P c))"

lemma issues_refl [intro]: "issues P l l"
  by (simp add: issues_def)

lemma issues_trans [trans]: "issues P l l1 \<Longrightarrow> issues P l1 l2 \<Longrightarrow> issues P l l2"
  by (auto simp: issues_def)

lemma issues_exec: "P c \<Longrightarrow> exec git c l = (l', r) \<Longrightarrow> issues P l l'"
  by (auto simp: issues_def exec_def)

lemma issues_mono: "issues P l l' \<Longrightarrow> (\<And>c. P c \<Longrightarrow> Q c) \<Longrightarrow> issues Q l l'"
  by (auto simp: issues_def)

lemma matching_scope: "fileMatchesShardScope f scope \<Longrightarrow> scope_paths scope \<noteq> []"
  by (auto simp: fileMatchesShardScope_def scope_paths_def)

lemma scope_changes:
  "hasShardScopeChanges git scope l = (l', b) \<Longrightarrow> issues read_only l l' \<and> (b \<longrightarrow> scope_paths scope \<noteq> [])"
  by (auto simp: hasShardScopeChanges_def exec_def issues_def read_only_def git_status_def list_ex_iff
      split: option.splits dest: matching_scope)

lemma worktree_changes: "hasShardScopeWorktreeChanges git scope l = (l', b) \<Longrightarrow> issues read_only l l'"
  by (auto simp: hasShardScopeWorktreeChanges_def exec_def issues_def read_only_def git_status_def split: option.splits)

lemma stage_untracked:
  "stageUntrackedFilesInScope git scope l = (l', b) \<Longrightarrow> issues (shard_command scope) l l'"
proof -
  assume s: "stageUntrackedFilesInScope git scope l = (l', b)"
  show ?thesis
  proof (cases "git l git_status")
    case None
    with s show ?thesis by (auto simp: stageUntrackedFilesInScope_def exec_def issues_def shard_command_def read_only_def git_status_def)
  next
    case (Some out)
    define fs where "fs = filter (\<lambda>f. fileMatchesShardScope f scope) (map line_file (filter (\<lambda>x. take 2 x = ''??'') (status_lines out)))"
    have st: "shard_command scope git_status" by (simp add: shard_command_def read_only_def git_status_def)
    have "l' = l @ [git_status] \<or> (fs \<noteq> [] \<and> l' = l @ [git_status, Git ([''add'', ''--''] @ fs)])"
      using s Some by (auto simp: stageUntrackedFilesInScope_def exec_def Let_def fs_def split: if_splits)
    moreover have "fs \<noteq> [] \<Longrightarrow> shard_command scope (Git ([''add'', ''--''] @ fs))"
      by (auto simp: shard_command_def fs_def)
    ultimately show ?thesis using st by (auto simp: issues_def)
  qed
qed

lemma stash_commands:
  assumes "stash_scope git info l = (l', d)" "scope_paths (si_scope (ai_prev info)) \<noteq> []"
  shows "issues (shard_command (si_scope (ai_prev info))) l l'"
proof -
  let ?scope = "si_scope (ai_prev info)"
  obtain l1 b where s: "stageUntrackedFilesInScope git ?scope l = (l1, b)" by (rule prod.exhaust)
  note i1 = stage_untracked [OF s]
  let ?push = "Git ([''stash'', ''push'', ''--keep-index'', ''-m'',
    ''eforge-shard-'' @ si_shardId (ai_prev info) @ ''-attempt-'' @ number (ai_attempt info)] @ with_paths ?scope)"
  have push: "shard_command ?scope ?push" using assms(2) by (auto simp: shard_command_def with_paths_def)
  have show_ok: "shard_command ?scope (Git [''stash'', ''show'', ''-p'', ''stash@'' @ ''{0}''])"
    by (simp add: shard_command_def read_only_def)
  have "l' = l1 \<or> l' = l1 @ [?push] \<or> l' = l1 @ [?push, Git [''stash'', ''show'', ''-p'', ''stash@'' @ ''{0}'']]"
    using assms(1) s by (auto simp: stash_scope_def Let_def exec_def split: bool.splits option.splits)
  then have "issues (shard_command ?scope) l1 l'" using push show_ok by (auto simp: issues_def)
  with i1 show ?thesis by (rule issues_trans)
qed

text \<open>
  Continuations of shards, review fixers and evaluators do not touch what is not theirs: the
  next input of a shard is built by reading, staging files of the shard's scope, and stashing
  with the non-empty list of the shard's own paths; it never commits. The review fixer and the
  evaluator only read, and the review fixer always gets another attempt.
\<close>

theorem continuation_commands:
  "issues (shard_command (si_scope (ai_prev info))) l (fst (buildShardedBuilderContinuationInput git info l)) \<and>
   issues read_only l (fst (buildReviewFixerContinuationInput git finfo l)) \<and>
   (\<exists>i. snd (buildReviewFixerContinuationInput git finfo l) = Some (RetryWith i)) \<and>
   issues read_only l (fst (buildEvaluatorContinuationInput git None einfo l))"
proof (intro conjI)
  let ?scope = "si_scope (ai_prev info)"
  obtain l1 b where c: "hasShardScopeChanges git ?scope l = (l1, b)" by (rule prod.exhaust)
  note i1 = issues_mono [OF conjunct1 [OF scope_changes [OF c]], of "shard_command ?scope"]
  have i1': "issues (shard_command ?scope) l l1" by (rule i1) (simp add: shard_command_def)
  show "issues (shard_command ?scope) l (fst (buildShardedBuilderContinuationInput git info l))"
  proof (cases b)
    case False
    with c i1' show ?thesis by (simp add: buildShardedBuilderContinuationInput_def Let_def)
  next
    case True
    with scope_changes [OF c] have paths: "scope_paths ?scope \<noteq> []" by simp
    obtain l2 b2 where c2: "hasShardScopeWorktreeChanges git ?scope l1 = (l2, b2)" by (rule prod.exhaust)
    have i2: "issues (shard_command ?scope) l1 l2"
      by (rule issues_mono [OF worktree_changes [OF c2]]) (simp add: shard_command_def)
    show ?thesis
    proof (cases b2)
      case False
      have "issues (shard_command ?scope) l2 (l2 @ [Git ([''diff'', ''--cached''] @ with_paths ?scope)])"
        by (simp add: issues_def shard_command_def read_only_def)
      with False c c2 True i1' i2 show ?thesis
        by (auto simp: buildShardedBuilderContinuationInput_def Let_def exec_def intro: issues_trans)
    next
      case b2: True
      obtain l3 d where st: "stash_scope git info l2 = (l3, d)" by (rule prod.exhaust)
      from stash_commands [OF st paths] b2 c c2 True st i1' i2 show ?thesis
        by (auto simp: buildShardedBuilderContinuationInput_def Let_def intro: issues_trans)
    qed
  qed
  show "issues read_only l (fst (buildReviewFixerContinuationInput git finfo l))"
    by (simp add: buildReviewFixerContinuationInput_def exec_def issues_def read_only_def)
  show "\<exists>i. snd (buildReviewFixerContinuationInput git finfo l) = Some (RetryWith i)"
    by (simp add: buildReviewFixerContinuationInput_def exec_def)
  show "issues read_only l (fst (buildEvaluatorContinuationInput git None einfo l))"
    by (auto simp: buildEvaluatorContinuationInput_def hasUnstagedChangesInternal_def exec_def issues_def read_only_def
        split: option.splits bool.splits)
qed


section \<open>The discovery context is bounded\<close>

text \<open>What holds of the context while it is built.\<close>

definition from_agent :: "string \<Rightarrow> agent_event list \<Rightarrow> discovering \<Rightarrow> bool" where
  "from_agent name evs c \<longleftrightarrow>
     distinct (dx_files c) \<and> distinct (dx_searches c) \<and> distinct (dx_commands c) \<and>
     (\<forall>f \<in> set (dx_files c). \<exists>i inp. ToolUse name ''Read'' i inp \<in> set evs \<and> text_of (ti_file_path inp) = f) \<and>
     (\<forall>s \<in> set (dx_searches c). length s \<le> summary_length + 3) \<and>
     (\<forall>s \<in> set (dx_commands c). length s \<le> 200) \<and>
     (\<forall>s \<in> set (dx_messages c). length s \<le> message_length + 3) \<and>
     (\<forall>s \<in> set (dx_snippets c). length s \<le> snippet_length + 10)"

lemma length_cut: "length (cut n s) \<le> n + 3"
  by (simp add: cut_def)

lemma set_add_nonempty: "set (add_nonempty key x xs) = (if key \<noteq> [] then insert x (set xs) else set xs)"
  by (simp add: add_nonempty_def)

lemma distinct_add_nonempty [simp]: "distinct (add_nonempty key x xs) \<longleftrightarrow> distinct xs"
  by (simp add: add_nonempty_def)

lemma from_agent_mono: "from_agent name evs c \<Longrightarrow> set evs \<subseteq> set evs' \<Longrightarrow> from_agent name evs' c"
  unfolding from_agent_def by blast

lemma from_files:
  assumes "from_agent name evs c" "ToolUse name ''Read'' i inp \<in> set evs"
  shows "from_agent name evs (c\<lparr>dx_files := add_nonempty (text_of (ti_file_path inp)) (text_of (ti_file_path inp)) (dx_files c)\<rparr>)"
  using assms unfolding from_agent_def by (simp add: set_add_nonempty) blast

lemma from_searches:
  assumes "from_agent name evs c" "length s \<le> summary_length + 3"
  shows "from_agent name evs (c\<lparr>dx_searches := add_nonempty key s (dx_searches c)\<rparr>)"
  using assms unfolding from_agent_def by (simp add: set_add_nonempty)

lemma from_commands:
  assumes "from_agent name evs c" "length s \<le> 200"
  shows "from_agent name evs (c\<lparr>dx_commands := add_nonempty key s (dx_commands c)\<rparr>)"
  using assms unfolding from_agent_def by (simp add: set_add_nonempty)

lemma note_tool_from:
  assumes "from_agent name evs c" "ToolUse name tool i inp \<in> set evs"
  shows "from_agent name evs (note_tool tool inp (c\<lparr>dx_index := ix\<rparr>))"
proof -
  let ?c = "c\<lparr>dx_index := ix\<rparr>"
  have c: "from_agent name evs ?c" using assms(1) by (simp add: from_agent_def)
  consider "tool = ''Read''" | "tool = ''Grep''" | "tool = ''Glob''" | "tool = ''Bash''"
    | "tool \<notin> {''Read'', ''Grep'', ''Glob'', ''Bash''}" by auto
  then show ?thesis
  proof cases
    case 1
    with from_files [OF c] assms(2) show ?thesis by (simp add: note_tool_def)
  next
    case 2
    then show ?thesis by (simp add: note_tool_def Let_def from_searches [OF c length_cut, simplified])
  next
    case 3
    then show ?thesis by (simp add: note_tool_def Let_def from_searches [OF c length_cut, simplified])
  next
    case 4
    then show ?thesis using from_commands [OF c, of "take 200 (string_of (ti_command inp))"] by (simp add: note_tool_def Let_def)
  next
    case 5
    with c show ?thesis by (simp add: note_tool_def)
  qed
qed

lemma note_event_from:
  assumes "from_agent name evs c" "e \<in> set evs"
  shows "from_agent name evs (note_event name e c)"
proof (cases e)
  case (ToolUse a t i inp)
  show ?thesis
  proof (cases "a = name")
    case True
    then show ?thesis using note_tool_from [OF assms(1), of t i inp] assms(2) by (simp add: ToolUse)
  qed (simp add: ToolUse assms(1))
next
  case (ToolResult a i out)
  have "length (''['' @ t @ ''] '' @ cut snippet_length out) \<le> snippet_length + 10"
    if "t \<in> {''Read'', ''Grep'', ''Glob'', ''Bash''}" for t
    using that length_cut [of snippet_length out] by auto
  with ToolResult assms(1) show ?thesis by (auto simp: from_agent_def split: option.splits)
next
  case (AgentMessage a s)
  with length_cut [of message_length s] assms(1) show ?thesis by (auto simp: from_agent_def)
qed (use assms in auto)

lemma fold_note_from:
  "from_agent name evs c \<Longrightarrow> set es \<subseteq> set evs \<Longrightarrow> from_agent name evs (fold (note_event name) es c)"
  by (induction es arbitrary: c) (auto intro: note_event_from)

lemma last_n_facts: "length (last_n n xs) \<le> n" "set (last_n n xs) \<subseteq> set xs" "distinct xs \<Longrightarrow> distinct (last_n n xs)"
  by (auto simp: last_n_def dest: in_set_dropD)

text \<open>
  The context handed to the next attempt is bounded whatever the agent did: at most 20 files and
  20 searches, 15 commands, 5 messages and 8 snippets, without repetition among the first three
  and each of bounded length; and every file in it was read by an event of that agent.
\<close>

theorem discovery_bounded:
  "let d = extractAgentDiscoveryContext evs name in
     length (dx_files d) \<le> max_files_inspected \<and> length (dx_searches d) \<le> max_searches \<and>
     length (dx_commands d) \<le> max_commands \<and> length (dx_messages d) \<le> max_recent_messages \<and>
     length (dx_snippets d) \<le> max_snippets \<and>
     distinct (dx_files d) \<and> distinct (dx_searches d) \<and> distinct (dx_commands d) \<and>
     set (map length (dx_searches d)) \<subseteq> {..summary_length + 3} \<and> set (map length (dx_commands d)) \<subseteq> {..200} \<and>
     set (map length (dx_messages d)) \<subseteq> {..message_length + 3} \<and> set (map length (dx_snippets d)) \<subseteq> {..snippet_length + 10} \<and>
     set (dx_files d) \<subseteq> {text_of (ti_file_path inp) | i inp. ToolUse name ''Read'' i inp \<in> set evs}"
proof -
  define c where "c = fold (note_event name) evs no_discovery"
  have "from_agent name evs no_discovery" by (simp add: from_agent_def no_discovery_def)
  then have c: "from_agent name evs c" unfolding c_def by (rule fold_note_from) simp
  note sub = subsetD [OF last_n_facts(2)]
  have d: "extractAgentDiscoveryContext evs name =
    \<lparr>dx_files = last_n max_files_inspected (dx_files c), dx_searches = last_n max_searches (dx_searches c),
     dx_commands = last_n max_commands (dx_commands c), dx_messages = last_n max_recent_messages (dx_messages c),
     dx_snippets = last_n max_snippets (dx_snippets c)\<rparr>"
    by (simp add: extractAgentDiscoveryContext_def c_def Let_def)
  have "set (last_n max_files_inspected (dx_files c)) \<subseteq> {text_of (ti_file_path inp) | i inp. ToolUse name ''Read'' i inp \<in> set evs}"
    using c by (fastforce simp: from_agent_def dest: sub)
  moreover have "set (map length (last_n max_searches (dx_searches c))) \<subseteq> {..summary_length + 3}"
    "set (map length (last_n max_commands (dx_commands c))) \<subseteq> {..200}"
    "set (map length (last_n max_recent_messages (dx_messages c))) \<subseteq> {..message_length + 3}"
    "set (map length (last_n max_snippets (dx_snippets c))) \<subseteq> {..snippet_length + 10}"
    using c by (auto simp: from_agent_def dest: sub)
  ultimately show ?thesis
    using c by (simp add: d Let_def from_agent_def last_n_facts(1,3))
qed

section \<open>Examples\<close>

definition demo_agent :: "(builder_input, nat, log) agent" where
  "demo_agent inp l = (l,
     [OtherEvent ''work'', BuildFailed (Some MaxTurns) ''turns'', OtherEvent ''cleanup''], Finished (length l))"

definition demo_builder :: builder_input where
  "demo_builder = \<lparr>bi_baseBranch = ''main'', bi_planId = ''p'', bi_context = None\<rparr>"

definition clean_git :: git where
  "clean_git l c = Some []"

lemma withRetry_exact_witness:
  "\<exists>infos i w1 w2 evs outcome tail out fin.
    snd (withRetry demo_agent (builder_policy clean_git) demo_builder []) = (out, fin) \<and>
    retried demo_agent (builder_policy clean_git) 1 demo_builder [] infos (1 + length infos) i w1 \<and>
    demo_agent i w1 = (w2, evs, outcome) \<and> length infos \<le> 3 \<and>
    out = concat (map (notices (builder_policy clean_git)) infos) @ shown evs @ tail"
proof -
  obtain w' out fin where r: "withRetry demo_agent (builder_policy clean_git) demo_builder [] = (w', out, fin)" by (rule prod_cases3)
  have "1 \<le> po_maxAttempts (builder_policy clean_git)" "po_maxAttempts (builder_policy clean_git) = 4"
    by (simp_all add: builder_policy_def)
  note max = this
  from withRetry_exact [OF r max(1)] obtain infos i w1 w2 evs outcome tail where
    x: "retried demo_agent (builder_policy clean_git) 1 demo_builder [] infos (1 + length infos) i w1"
      "demo_agent i w1 = (w2, evs, outcome)" "1 + length infos \<le> po_maxAttempts (builder_policy clean_git)"
      "out = concat (map (notices (builder_policy clean_git)) infos) @ shown evs @ tail" by blast
  have "snd (withRetry demo_agent (builder_policy clean_git) demo_builder []) = (out, fin)" "length infos \<le> 3"
    using r x(3) max(2) by simp_all
  with x(1,2,4) show ?thesis by blast
qed

definition demo_thrown :: thrown where
  "demo_thrown = \<lparr>th_terminal = Some DuringExecution, th_transient = True, th_piInfra = False, th_context = False,
     th_plannerSubmission = False, th_noVerdicts = False, th_text = ''socket closed''\<rparr>"

lemma planner_checkpoint_stands_witness:
  "\<exists>text. withRetry (\<lambda>i l. (l, [PlanningComplete], Threw demo_thrown :: unit outcome))
     (planner_policy clean_git \<lparr>pd_exists = False, pd_entries = None, pd_parse = (\<lambda>_. None)\<rparr>)
     \<lparr>pi_planSetName = ''s'', pi_planDir = ''d'', pi_context = None\<rparr> [] =
     ([], [PlanningComplete, AgentWarning ''planner-unknown'' text], Returned None)"
proof -
  let ?run = "\<lambda>(i :: planner_input) (l :: log). (l, [PlanningComplete], Threw demo_thrown :: unit outcome)"
  let ?i = "\<lparr>pi_planSetName = ''s'', pi_planDir = ''d'', pi_context = None\<rparr>"
  let ?dir = "\<lparr>pd_exists = False, pd_entries = None, pd_parse = (\<lambda>_. None)\<rparr>"
  have "classifyError demo_thrown = Some TransientTransport" "isRetryableInfrastructureSubtype TransientTransport"
    "hasAuthoritativePlannerCheckpoint [PlanningComplete]" by code_simp+
  from planner_checkpoint_stands [of ?run ?i "[]" "[]", OF refl this, of clean_git ?dir 2 1 None]
  show ?thesis by (auto simp: withRetry_def planner_policy_def shown_def is_held_def numeral_3_eq_3 numeral_2_eq_2)
qed

text \<open>The only change of a shard is an unstaged modification: the leading blank of the status line is
  trimmed away with the output, the name loses its first character, and the scope counts as clean.\<close>

lemma first_status_line_is_misread:
  "snd (hasShardScopeChanges (\<lambda>_ _. Some ('' M src/a.ts'' @ [nl])) \<lparr>ss_roots = Some [''src''], ss_files = None\<rparr> []) = False \<and>
   snd (hasShardScopeChanges (\<lambda>_ _. Some (''?? b'' @ [nl] @ '' M src/a.ts'' @ [nl])) \<lparr>ss_roots = Some [''src''], ss_files = None\<rparr> []) = True \<and>
   map line_file (status_lines ('' M src/a.ts'' @ [nl])) = [''rc/a.ts'']"
  by code_simp

end
