(* ===== verification/ChildExit.thy ===== *)
theory ChildExit
  imports QueueCancellation ResumeCascade QueueText
begin

text \<open>
  The life of a build's process in the scheduler (\<open>spawnPrdChild\<close> of \<open>eforge.ts\<close>): the check of the
  profile before it is started, its command line, and what the parent does to files, locks and
  records when it ends. The end composes the cancellation marker, the classification of the
  exit, the shared finalizer and the transitions of a queued resume. The lemmas show when the
  promise of the child is settled, that no lock is left behind, and what is recorded.
\<close>

section \<open>Surroundings\<close>

text \<open>
  \<open>xe_evidence\<close> writes the recovery evidence of a failed PRD and \<open>xe_sidecars\<close> that of a failed
  resume: both run agents and return the world they leave, with whether they threw (evidence)
  or returned (sidecars). \<open>xe_release_ok\<close>: an unlink of the lock by this code works.
\<close>

record exit_env =
  xe_fin :: fin_env
  xe_resume :: resume_env
  xe_release_ok :: bool
  xe_evidence :: "qpath \<Rightarrow> world \<Rightarrow> world \<times> bool"
  xe_sidecars :: "world \<Rightarrow> world \<times> bool"
  xe_parse :: "string \<Rightarrow> int option"
  xe_now :: int

record child_run =
  cr_prdId :: prd_id
  cr_fm :: prd_fm
  cr_path :: qpath
  cr_sessionId :: string
  cr_pid :: "nat option"
  cr_aborted :: bool

section \<open>Resumed PRDs\<close>

definition compiledResume :: "prd_fm \<Rightarrow> bool" where
  "compiledResume fm = (case getCompiledResumeFrontmatter fm of Inr (Some _) \<Rightarrow> True | _ \<Rightarrow> False)"

definition isCompiledResumePrd :: "prd_fm \<Rightarrow> bool" where
  "isCompiledResumePrd fm \<longleftrightarrow> compiledResume fm \<or> list_ex snd (resume_fields fm)"

definition release_best :: "exit_env \<Rightarrow> prd_id \<Rightarrow> world \<Rightarrow> world" where
  "release_best env i w =
     (if xe_release_ok env then on_disk (\<lambda>d. d\<lparr>d_locks := releasePrd i (d_locks d)\<rparr>) w else w)"

definition finalizeFailedResumeSidecars :: "exit_env \<Rightarrow> prd_fm \<Rightarrow> world \<Rightarrow> world \<times> bool" where
  "finalizeFailedResumeSidecars env fm w = (if compiledResume fm then xe_sidecars env w else (w, True))"

text \<open>\<open>False\<close>: something threw.\<close>

definition rollback_and_record :: "exit_env \<Rightarrow> child_run \<Rightarrow> world \<Rightarrow> world \<times> bool" where
  "rollback_and_record env run w =
     (case rollbackQueuedResume (xe_resume env) (cr_prdId run) w of
        (w1, None) \<Rightarrow> (w1, False)
      | (w1, Some (ResumeRolledBack _)) \<Rightarrow> finalizeFailedResumeSidecars env (cr_fm run) w1
      | (w1, Some _) \<Rightarrow> (w1, True))"

definition resume_outcome :: "exit_env \<Rightarrow> child_run \<Rightarrow> child_status \<Rightarrow> world \<Rightarrow> world \<times> child_status \<times> bool" where
  "resume_outcome env run status w =
     (if status = ChildCompleted
      then (case finalizeQueuedResumeSuccess (xe_resume env) (cr_prdId run) w of
              (w1, None) \<Rightarrow> (w1, status, False)
            | (w1, Some (ResumeBlocked _)) \<Rightarrow>
                (case rollback_and_record env run w1 of (w2, ok) \<Rightarrow> (w2, ChildFailed, ok))
            | (w1, Some _) \<Rightarrow> (w1, status, True))
      else (case rollback_and_record env run w of (w1, ok) \<Rightarrow> (w1, status, ok)))"

definition finish_resume :: "exit_env \<Rightarrow> child_run \<Rightarrow> child_status \<Rightarrow> world \<Rightarrow> world \<times> child_status" where
  "finish_resume env run status w =
     (case resume_outcome env run status w of
        (w1, st, True) \<Rightarrow> (w1, st)
      | (w1, st, False) \<Rightarrow> (release_best env (cr_prdId run) w1, ChildFailed))"

section \<open>Other PRDs\<close>

definition exit_fin_opts :: "exit_env \<Rightarrow> child_run \<Rightarrow> terminal_status \<Rightarrow> bool \<Rightarrow> fin_opts" where
  "exit_fin_opts env run status release =
     \<lparr>fo_prdId = cr_prdId run, fo_status = status, fo_filePath = Some (cr_path run), fo_releaseLock = Some release,
      fo_requireArtifacts = None,
      fo_writeFailedEvidence = (if status = QFailed then Some (xe_evidence env) else None),
      fo_propagateDependents = (if status = QFailed then Some False else None)\<rparr>"

definition exit_finalize :: "exit_env \<Rightarrow> child_run \<Rightarrow> terminal_status \<Rightarrow> bool \<Rightarrow> world \<Rightarrow> world \<times> bool" where
  "exit_finalize env run status release w =
     (case finalizeQueuedPrd (xe_fin env) (exit_fin_opts env run status release) w of
        (w1, Inr _) \<Rightarrow> (w1, True)
      | (w1, Inl _) \<Rightarrow> (w1, False))"

definition finish_plain :: "exit_env \<Rightarrow> child_run \<Rightarrow> child_exit \<Rightarrow> bool \<Rightarrow> world \<Rightarrow> world \<times> bool" where
  "finish_plain env run ce shouldRelease w =
     (if ce_cleanup ce then exit_finalize env run QCompleted shouldRelease w
      else if ce_moveTo ce = Some QSkipped then exit_finalize env run QSkipped shouldRelease w
      else if ce_moveTo ce = Some QFailed then exit_finalize env run QFailed shouldRelease w
      else (if shouldRelease then release_best env (cr_prdId run) w else w, True))"

section \<open>The exit handler\<close>

text \<open>\<open>xs_status\<close> is what the promise is resolved with, \<open>None\<close> when it never is; \<open>xs_reported\<close>: a
  \<open>daemon:error\<close> of the finalizer was pushed.\<close>

record exit_state =
  xs_world :: world
  xs_markers :: marker_dir
  xs_status :: "child_status option"
  xs_reported :: bool

definition expected_of :: "child_run \<Rightarrow> expected_run" where
  "expected_of run = \<lparr>xr_sessionId = Some (cr_sessionId run), xr_runId = None, xr_pid = cr_pid run\<rparr>"

definition child_finalize :: "exit_env \<Rightarrow> child_run \<Rightarrow> nat option \<Rightarrow> bool \<Rightarrow> world \<Rightarrow> marker_dir \<Rightarrow> exit_state" where
  "child_finalize env run exitCode signal w md =
     (case (if signal
            then consumeQueuePrdCancellation (xe_parse env) (xe_now env) default_max_age_ms (expected_of run) (cr_prdId run) md
            else (md, Inr None)) of
        (md1, Inl _) \<Rightarrow> \<lparr>xs_world = w, xs_markers = md1, xs_status = None, xs_reported = True\<rparr>
      | (md1, Inr cancelled) \<Rightarrow>
          (let ce = classifyQueueChildExit exitCode signal (cr_aborted run) (cancelled \<noteq> None);
               claimed = (exitCode = Some 10)
           in if isCompiledResumePrd (cr_fm run) \<and> \<not> claimed
              then (case finish_resume env run (ce_status ce) w of
                      (w1, st) \<Rightarrow> \<lparr>xs_world = w1, xs_markers = md1, xs_status = Some st, xs_reported = False\<rparr>)
              else (case finish_plain env run ce (\<not> claimed) w of
                      (w1, ok) \<Rightarrow> \<lparr>xs_world = w1, xs_markers = md1, xs_status = Some (ce_status ce), xs_reported = \<not> ok\<rparr>)))"

text \<open>\<open>exit\<close> and \<open>error\<close> may both fire; the first one counts.\<close>

datatype child_event = ChildExited "nat option" bool | ChildSpawnError

fun event_args :: "child_event \<Rightarrow> nat option \<times> bool" where
  "event_args (ChildExited xc signal) = (xc, signal)"
| "event_args ChildSpawnError = (Some 1, False)"

record child_proc =
  cp_finalized :: bool
  cp_state :: exit_state

definition on_child_event :: "exit_env \<Rightarrow> child_run \<Rightarrow> child_event \<Rightarrow> child_proc \<Rightarrow> child_proc" where
  "on_child_event env run e p =
     (if cp_finalized p then p
      else (case event_args e of (xc, signal) \<Rightarrow>
             \<lparr>cp_finalized = True,
              cp_state = child_finalize env run xc signal (xs_world (cp_state p)) (xs_markers (cp_state p))\<rparr>))"

definition child_events :: "exit_env \<Rightarrow> child_run \<Rightarrow> child_event list \<Rightarrow> world \<Rightarrow> marker_dir \<Rightarrow> child_proc" where
  "child_events env run es w md =
     fold (on_child_event env run) es
       \<lparr>cp_finalized = False, cp_state = \<lparr>xs_world = w, xs_markers = md, xs_status = None, xs_reported = False\<rparr>\<rparr>"

section \<open>Before the process is started\<close>

datatype profile_lookup = ProfileFound | ProfileUnknown | ProfileLookupThrows

datatype preflight = Spawn | SettledFailed "string option"

definition effective_profile :: "prd_fm \<Rightarrow> string option \<Rightarrow> string option" where
  "effective_profile fm routed = (case fm_profile fm of Some p \<Rightarrow> Some p | None \<Rightarrow> routed)"

definition fail_unknown_profile :: "exit_env \<Rightarrow> child_run \<Rightarrow> world \<Rightarrow> world" where
  "fail_unknown_profile env run w =
     (if isCompiledResumePrd (cr_fm run)
      then (case rollbackQueuedResume (xe_resume env) (cr_prdId run) w of
              (w1, None) \<Rightarrow> release_best env (cr_prdId run) w1
            | (w1, Some _) \<Rightarrow> w1)
      else (let w1 = release_best env (cr_prdId run) w in
            case cr_path run of
              QPath l i \<Rightarrow> on_disk (\<lambda>d. final_disk (move_file l FailedDir i d)) w1
            | ElsewherePath \<Rightarrow> w1))"

text \<open>The second component: how it goes on; a settled failure carries the name that is unknown.\<close>

definition preflight_child :: "exit_env \<Rightarrow> child_run \<Rightarrow> string option \<Rightarrow> profile_lookup \<Rightarrow> world \<Rightarrow> world \<times> preflight" where
  "preflight_child env run routed lookup w =
     (case effective_profile (cr_fm run) routed of
        Some name \<Rightarrow>
          if name = [] then (w, Spawn)
          else (case lookup of
                  ProfileFound \<Rightarrow> (w, Spawn)
                | ProfileUnknown \<Rightarrow> (fail_unknown_profile env run w, SettledFailed (Some name))
                | ProfileLookupThrows \<Rightarrow> (w, SettledFailed None))
      | None \<Rightarrow> (w, Spawn))"

record spawn_opts =
  so_auto :: bool
  so_verbose :: bool
  so_landingAction :: "landing_action option"
  so_landingAutoMerge :: "bool option"

definition or_else :: "'a option \<Rightarrow> 'a option \<Rightarrow> 'a option" where
  "or_else a b = (case a of Some x \<Rightarrow> Some x | None \<Rightarrow> b)"

definition nonempty_arg :: "string \<Rightarrow> string option \<Rightarrow> string list" where
  "nonempty_arg flag v = (case v of Some s \<Rightarrow> if s = [] then [] else [flag, s] | None \<Rightarrow> [])"

definition child_args :: "spawn_opts \<Rightarrow> child_run \<Rightarrow> string option \<Rightarrow> string list" where
  "child_args opt run routed =
     [''queue'', ''exec'', cr_prdId run] @ (if so_auto opt then [''--auto''] else []) @
     (if so_verbose opt then [''--verbose''] else []) @ [''--no-monitor'', ''--session-id'', cr_sessionId run] @
     (if fm_profile (cr_fm run) \<noteq> None \<and> fm_profile (cr_fm run) \<noteq> Some []
      then nonempty_arg ''--profile'' (fm_profile (cr_fm run)) else nonempty_arg ''--profile'' routed) @
     (case or_else (so_landingAction opt) (fm_landing (cr_fm run)) of
        Some a \<Rightarrow> [''--landing-action'', landing_text a] | None \<Rightarrow> []) @
     (case or_else (so_landingAutoMerge opt) (fm_landing_auto_merge (cr_fm run)) of
        Some b \<Rightarrow> [''--landing-auto-merge'', if b then ''true'' else ''false''] | None \<Rightarrow> [])"

text \<open>The promise as a whole: the events are those of the process, when there is one.\<close>

definition spawnPrdChild ::
    "exit_env \<Rightarrow> child_run \<Rightarrow> string option \<Rightarrow> profile_lookup \<Rightarrow> child_event list \<Rightarrow> world \<Rightarrow> marker_dir \<Rightarrow> exit_state" where
  "spawnPrdChild env run routed lookup es w md =
     (case preflight_child env run routed lookup w of
        (w1, SettledFailed _) \<Rightarrow> \<lparr>xs_world = w1, xs_markers = md, xs_status = Some ChildFailed, xs_reported = False\<rparr>
      | (w1, Spawn) \<Rightarrow> cp_state (child_events env run es w1 md))"


section \<open>When the promise is settled\<close>

lemma child_events_finalized:
  "cp_finalized p \<Longrightarrow> fold (on_child_event env run) es p = p"
  by (induction es) (simp_all add: on_child_event_def)

lemma child_events_first:
  "child_events env run (e # es) w md =
     (case event_args e of (xc, signal) \<Rightarrow>
        \<lparr>cp_finalized = True, cp_state = child_finalize env run xc signal w md\<rparr>)"
  by (simp add: child_events_def on_child_event_def child_events_finalized split: prod.splits)

definition consume_fails :: "exit_env \<Rightarrow> child_run \<Rightarrow> marker_dir \<Rightarrow> bool" where
  "consume_fails env run md \<longleftrightarrow>
     (\<exists>e. snd (consumeQueuePrdCancellation (xe_parse env) (xe_now env) default_max_age_ms (expected_of run)
                 (cr_prdId run) md) = Inl e)"

lemma consume_fails_iff:
  "consume_fails env run md \<longleftrightarrow>
     \<not> assertSafePrdId (cr_prdId run) \<or>
     md_markers md \<noteq> None \<and> (md_unsafe md \<or> dget (the (md_markers md)) (cr_prdId run) = Some NotAFile)"
  by (auto simp: consume_fails_def consumeQueuePrdCancellation_def split: option.splits marker_file.splits)

lemma settled_iff:
  "xs_status (child_finalize env run xc signal w md) = None \<longleftrightarrow> signal \<and> consume_fails env run md"
  by (cases "consumeQueuePrdCancellation (xe_parse env) (xe_now env) default_max_age_ms (expected_of run) (cr_prdId run) md";
      cases signal)
     (auto simp: child_finalize_def consume_fails_def Let_def split: sum.splits prod.splits)

lemma unsettled_state:
  "xs_status (child_finalize env run xc signal w md) = None \<Longrightarrow>
   xs_world (child_finalize env run xc signal w md) = w \<and> xs_reported (child_finalize env run xc signal w md)"
  by (auto simp: child_finalize_def Let_def split: sum.splits prod.splits if_splits)

section \<open>The lock of the PRD\<close>

lemma release_best_frees: "xe_release_ok env \<Longrightarrow> \<not> isPrdRunning i (locks_of (release_best env i w))"
  by (simp add: release_best_def on_disk_def isPrdRunning_def releasePrd_def)

lemma release_resume_frees:
  "release_resume env i x w = (w1, Some y) \<Longrightarrow> \<not> isPrdRunning i (locks_of w1)"
  by (auto simp: release_resume_def on_disk_def isPrdRunning_def releasePrd_def split: if_splits)

lemma rollback_frees:
  "rollbackQueuedResume env i w = (w1, Some r) \<Longrightarrow> \<not> unsafePrdIdReason i \<Longrightarrow> \<not> isPrdRunning i (locks_of w1)"
  by (auto simp: rollbackQueuedResume_def Let_def split: option.splits if_splits prod.splits bool.splits
      dest: release_resume_frees)

lemma unblockWaiting_locks:
  "unblockWaiting i b d = Inl (e, d1) \<Longrightarrow> d_locks d1 = d_locks d"
  "unblockWaiting i b d = Inr (d1, us) \<Longrightarrow> d_locks d1 = d_locks d"
  using meta_unblockWaiting [of i b d] by (simp_all add: final_unblock_def meta_def)

lemma finalizeResume_frees:
  "finalizeQueuedResumeSuccess env i w = (w1, Some (ResumeCompleted us)) \<Longrightarrow> \<not> isPrdRunning i (locks_of w1)"
  by (auto simp: finalizeQueuedResumeSuccess_def Let_def split: option.splits if_splits prod.splits sum.splits
      dest!: release_resume_frees unblockWaiting_locks)

lemma finalizeResume_result:
  "finalizeQueuedResumeSuccess env i w = (w1, Some r) \<Longrightarrow> (\<exists>us. r = ResumeCompleted us) \<or> (\<exists>x. r = ResumeBlocked x)"
  by (auto simp: finalizeQueuedResumeSuccess_def Let_def split: option.splits if_splits prod.splits sum.splits)

text \<open>Writing recovery evidence does not claim a PRD.\<close>

definition sidecars_keep_free :: "exit_env \<Rightarrow> prd_id \<Rightarrow> bool" where
  "sidecars_keep_free env i \<longleftrightarrow>
     (\<forall>w. \<not> isPrdRunning i (locks_of w) \<longrightarrow> \<not> isPrdRunning i (locks_of (fst (xe_sidecars env w))))"

lemma rollback_and_record_frees:
  "rollback_and_record env run w = (w1, True) \<Longrightarrow> \<not> unsafePrdIdReason (cr_prdId run) \<Longrightarrow>
   sidecars_keep_free env (cr_prdId run) \<Longrightarrow> \<not> isPrdRunning (cr_prdId run) (locks_of w1)"
  by (auto simp: rollback_and_record_def finalizeFailedResumeSidecars_def sidecars_keep_free_def
      split: prod.splits option.splits resume_result.splits if_splits dest: rollback_frees)

lemma resume_outcome_frees:
  assumes "resume_outcome env run st w = (w1, st1, True)" and "\<not> unsafePrdIdReason (cr_prdId run)"
    and "sidecars_keep_free env (cr_prdId run)"
  shows "\<not> isPrdRunning (cr_prdId run) (locks_of w1)"
  using assms
  by (auto simp: resume_outcome_def split: if_splits prod.splits option.splits resume_result.splits
      dest: rollback_and_record_frees finalizeResume_frees finalizeResume_result)

lemma finish_resume_frees:
  assumes "\<not> unsafePrdIdReason (cr_prdId run)" and "sidecars_keep_free env (cr_prdId run)" and "xe_release_ok env"
  shows "\<not> isPrdRunning (cr_prdId run) (locks_of (fst (finish_resume env run st w)))"
proof (cases "resume_outcome env run st w")
  case (fields w1 st1 ok)
  then show ?thesis
    using resume_outcome_frees [of env run st w w1 st1] assms
    by (cases ok) (simp_all add: finish_resume_def release_best_frees)
qed

lemma exit_finalize_frees:
  assumes "validatePrdId (cr_prdId run)" and "fe_release_ok (xe_fin env)"
  shows "\<not> isPrdRunning (cr_prdId run) (locks_of (fst (exit_finalize env run st True w)))"
proof -
  let ?opt = "exit_fin_opts env run st True"
  obtain w1 r where f: "finalizeQueuedPrdOnce (xe_fin env) ?opt w = (w1, r)" by fastforce
  have "\<not> isPrdRunning (cr_prdId run) (locks_of w1)"
    using finalize_frees [OF f assms(2)] by (simp add: exit_fin_opts_def)
  then show ?thesis
    using f assms(1) by (simp add: exit_finalize_def finalizeQueuedPrd_def exit_fin_opts_def split: sum.splits)
qed

lemma finish_plain_frees:
  assumes "validatePrdId (cr_prdId run)" and "fe_release_ok (xe_fin env)" and "xe_release_ok env"
  shows "\<not> isPrdRunning (cr_prdId run) (locks_of (fst (finish_plain env run ce True w)))"
  using exit_finalize_frees [OF assms(1,2)] release_best_frees [OF assms(3)] by (simp add: finish_plain_def)

lemma finish_plain_claimed:
  "ce_status ce = ChildAlreadyClaimed \<Longrightarrow> ce = classifyQueueChildExit xc signal ab oc \<Longrightarrow>
   finish_plain env run ce False w = (w, True)"
  by (auto simp: finish_plain_def classifyQueueChildExit_def split: if_splits)

lemma classify_claimed:
  "ce_status (classifyQueueChildExit xc signal ab oc) = ChildAlreadyClaimed \<longleftrightarrow> xc = Some 10 \<and> \<not> signal"
  by (auto simp: classifyQueueChildExit_def)


section \<open>What is recorded\<close>

text \<open>Whether the operator had asked for the cancellation of this very run.\<close>

definition operator_cancelled :: "exit_env \<Rightarrow> child_run \<Rightarrow> bool \<Rightarrow> marker_dir \<Rightarrow> bool" where
  "operator_cancelled env run signal md \<longleftrightarrow>
     signal \<and> (case snd (consumeQueuePrdCancellation (xe_parse env) (xe_now env) default_max_age_ms (expected_of run)
                           (cr_prdId run) md) of
                 Inr (Some _) \<Rightarrow> True | _ \<Rightarrow> False)"

definition exit_class :: "exit_env \<Rightarrow> child_run \<Rightarrow> nat option \<Rightarrow> bool \<Rightarrow> marker_dir \<Rightarrow> child_exit" where
  "exit_class env run xc signal md =
     classifyQueueChildExit xc signal (cr_aborted run) (operator_cancelled env run signal md)"

definition terminal_of :: "child_exit \<Rightarrow> terminal_status option" where
  "terminal_of ce = (if ce_cleanup ce then Some QCompleted else ce_moveTo ce)"

fun child_status_of :: "terminal_status \<Rightarrow> child_status" where
  "child_status_of QCompleted = ChildCompleted"
| "child_status_of QFailed = ChildFailed"
| "child_status_of QSkipped = ChildSkipped"

lemma classify_terminal:
  "terminal_of (classifyQueueChildExit xc signal ab oc) = Some t \<Longrightarrow>
   ce_status (classifyQueueChildExit xc signal ab oc) = child_status_of t"
  by (auto simp: terminal_of_def classifyQueueChildExit_def split: if_splits)

lemma finish_plain_terminal:
  "terminal_of (exit_class env run xc signal md) = Some t \<Longrightarrow>
   finish_plain env run (exit_class env run xc signal md) rel w = exit_finalize env run t rel w"
  by (auto simp: terminal_of_def finish_plain_def exit_class_def classifyQueueChildExit_def split: if_splits)

lemma exit_finalize_records:
  assumes f: "exit_finalize env run t rel w = (w1, True)" and i: "validatePrdId (cr_prdId run)"
    and new: "getTerminalCompletion (cr_prdId run) w = None" and now: "fe_now (xe_fin env) \<noteq> []"
  shows "\<exists>c. getTerminalCompletion (cr_prdId run) w1 = Some c \<and> co_status c = completion_of t"
proof -
  let ?opt = "exit_fin_opts env run t rel"
  have opt: "fo_prdId ?opt = cr_prdId run" "fo_status ?opt = t" by (simp_all add: exit_fin_opts_def)
  from f i obtain r where once: "finalizeQueuedPrdOnce (xe_fin env) ?opt w = (w1, Inr r)"
    by (auto simp: exit_finalize_def finalizeQueuedPrd_def opt split: prod.splits sum.splits)
  then have "finalize_fresh (xe_fin env) ?opt (Some (cr_path run)) w = (w1, Inr r)"
    using new by (simp add: finalizeQueuedPrdOnce_def opt Let_def) (simp add: exit_fin_opts_def)
  then have fin: "fr_finalized r" by (rule finalize_fresh_ok) simp
  have "fo_prdId ?opt \<noteq> []" using i by (simp add: opt validatePrdId_def)
  from finalize_records [OF once fin now this] show ?thesis by (simp add: opt)
qed

text \<open>A settled end.\<close>

definition settled_state :: "exit_env \<Rightarrow> child_run \<Rightarrow> nat option \<Rightarrow> child_exit \<Rightarrow> world \<Rightarrow> marker_dir \<Rightarrow> exit_state" where
  "settled_state env run xc ce w md =
     (if isCompiledResumePrd (cr_fm run) \<and> xc \<noteq> Some 10
      then (let r = finish_resume env run (ce_status ce) w
            in \<lparr>xs_world = fst r, xs_markers = md, xs_status = Some (snd r), xs_reported = False\<rparr>)
      else (let r = finish_plain env run ce (xc \<noteq> Some 10) w
            in \<lparr>xs_world = fst r, xs_markers = md, xs_status = Some (ce_status ce), xs_reported = \<not> snd r\<rparr>))"

lemma child_finalize_settled:
  assumes "xs_status (child_finalize env run xc signal w md) \<noteq> None"
  obtains md1 where "child_finalize env run xc signal w md =
    settled_state env run xc (exit_class env run xc signal md) w md1"
proof (cases "if signal
            then consumeQueuePrdCancellation (xe_parse env) (xe_now env) default_max_age_ms (expected_of run) (cr_prdId run) md
            else (md, Inr None)")
  case (Pair md1 r)
  show thesis
  proof (cases r)
    case (Inl e)
    with Pair assms show thesis by (simp add: child_finalize_def)
  next
    case (Inr c)
    have oc: "operator_cancelled env run signal md = (c \<noteq> None)"
      using Pair Inr by (auto simp: operator_cancelled_def split: if_splits option.splits)
    show thesis
      by (rule that [of md1])
         (unfold child_finalize_def settled_state_def exit_class_def oc Pair Inr Let_def, simp split: prod.splits)
  qed
qed

lemma settled_state_frees:
  assumes "validatePrdId (cr_prdId run)" and "\<not> unsafePrdIdReason (cr_prdId run)"
    and "xe_release_ok env" and "fe_release_ok (xe_fin env)" and "sidecars_keep_free env (cr_prdId run)"
    and "xc \<noteq> Some 10"
  shows "\<not> isPrdRunning (cr_prdId run) (locks_of (xs_world (settled_state env run xc ce w md)))"
  using finish_resume_frees [OF assms(2,5,3)] finish_plain_frees [OF assms(1,4,3)] assms(6)
  by (simp add: settled_state_def Let_def)

section \<open>Properties\<close>

definition marker_lookup_fails :: "child_run \<Rightarrow> marker_dir \<Rightarrow> bool" where
  "marker_lookup_fails run md \<longleftrightarrow>
     \<not> assertSafePrdId (cr_prdId run) \<or>
     md_markers md \<noteq> None \<and> (md_unsafe md \<or> dget (the (md_markers md)) (cr_prdId run) = Some NotAFile)"

definition exit_demo :: exit_env where
  "exit_demo = \<lparr>xe_fin = demo_env,
     xe_resume = \<lparr>re_pid = 1, re_now = ''t'', re_fails = (\<lambda>_ _ _. False), re_release_ok = (\<lambda>_. True), re_registry = None\<rparr>,
     xe_release_ok = True, xe_evidence = (\<lambda>_ w. (w, False)), xe_sidecars = (\<lambda>w. (w, True)),
     xe_parse = (\<lambda>_. None), xe_now = 0\<rparr>"

definition run_demo :: child_run where
  "run_demo = \<lparr>cr_prdId = ''a'', cr_fm = plain_fm ''t'', cr_path = QPath RootDir ''a'', cr_sessionId = ''s'', cr_pid = Some 7,
     cr_aborted = False\<rparr>"

lemma spawn_unfold:
  "snd (preflight_child env run routed lookup w) = Spawn \<Longrightarrow>
   spawnPrdChild env run routed lookup es w md = cp_state (child_events env run es w md)"
  by (auto simp: spawnPrdChild_def preflight_child_def split: prod.splits option.splits if_splits
      profile_lookup.splits preflight.splits)

lemma spawn_settled:
  "snd (preflight_child env run routed lookup w) \<noteq> Spawn \<Longrightarrow>
   xs_status (spawnPrdChild env run routed lookup es w md) = Some ChildFailed"
  by (cases "preflight_child env run routed lookup w") (auto simp: spawnPrdChild_def split: preflight.splits)

text \<open> The promise of a started build stays open in exactly these cases: the process has
  neither ended nor failed to start; or a signal ended it and the cancellation marker cannot be
  looked up (the id is not safe for a path, the directory of markers is not a real one, or what
  is at the marker's place is not a file). A second event of the process changes nothing. \<close>
theorem child_settles:
  "xs_status (spawnPrdChild env run routed lookup es w md) = None \<longleftrightarrow>
     snd (preflight_child env run routed lookup w) = Spawn \<and>
     (case es of
        [] \<Rightarrow> True
      | e # _ \<Rightarrow> snd (event_args e) \<and> marker_lookup_fails run md)"
proof (cases "snd (preflight_child env run routed lookup w) = Spawn")
  case True
  show ?thesis
  proof (cases es)
    case Nil
    then show ?thesis using True by (simp add: spawn_unfold child_events_def)
  next
    case (Cons e es1)
    then show ?thesis
      by (cases "event_args e") (simp add: spawn_unfold True child_events_first settled_iff consume_fails_iff marker_lookup_fails_def)
  qed
qed (simp add: spawn_settled)



text \<open> The outcome of a build that is not a resumed one is recorded: when it had no terminal
  record before and no error of the finalizer is reported, an exit that is terminal (completed,
  skipped or failed) settles the promise with that status and records the completion with it. \<close>
theorem child_outcome_recorded:
  assumes "validatePrdId (cr_prdId run)" and "\<not> isCompiledResumePrd (cr_fm run)"
    and "getTerminalCompletion (cr_prdId run) w = None" and "fe_now (xe_fin env) \<noteq> []"
    and "child_finalize env run xc signal w md = x" and "\<not> xs_reported x"
  shows "case terminal_of (exit_class env run xc signal md) of
           None \<Rightarrow> comps_of (xs_world x) = comps_of w \<and> xs_status x \<in> {Some ChildSkipped, Some ChildAlreadyClaimed}
         | Some t \<Rightarrow> xs_status x = Some (child_status_of t) \<and>
             (\<exists>c. getTerminalCompletion (cr_prdId run) (xs_world x) = Some c \<and> co_status c = completion_of t)"
proof -
  have "xs_status x \<noteq> None" using unsettled_state [of env run xc signal w md] assms(5,6) by auto
  then obtain md1 where x: "x = settled_state env run xc (exit_class env run xc signal md) w md1"
    using child_finalize_settled [of env run xc signal w md] assms(5) by metis
  let ?ce = "exit_class env run xc signal md"
  let ?r = "finish_plain env run ?ce (xc \<noteq> Some 10) w"
  have st: "xs_world x = fst ?r" "xs_status x = Some (ce_status ?ce)" "snd ?r"
    using x assms(2,6) by (simp_all add: settled_state_def Let_def)
  show ?thesis
  proof (cases "terminal_of ?ce")
    case None
    then have "ce_status ?ce \<in> {ChildSkipped, ChildAlreadyClaimed}" and "\<not> ce_cleanup ?ce" "ce_moveTo ?ce = None"
      by (auto simp: terminal_of_def exit_class_def classifyQueueChildExit_def split: if_splits)
    then show ?thesis using None st
      by (auto simp: finish_plain_def release_best_def on_disk_def)
  next
    case (Some t)
    from finish_plain_terminal [OF Some] st(3)
    obtain w1 where "exit_finalize env run t (xc \<noteq> Some 10) w = (w1, True)" and "fst ?r = w1"
      by (metis prod.collapse)
    from exit_finalize_records [OF this(1) assms(1,3,4)] this(2) st Some classify_terminal [OF Some [unfolded exit_class_def]]
    show ?thesis by (simp add: exit_class_def)
  qed
qed


lemma demo_skip_works: "snd (exit_finalize exit_demo run_demo QSkipped True demo_world)"
proof -
  have "validatePrdId ''a''" by code_simp
  then show ?thesis
    by (simp add: exit_finalize_def exit_fin_opts_def exit_demo_def run_demo_def demo_fin_defs finalizer_defs)
qed

theorem child_outcome_recorded_witness:
  "let x = child_finalize exit_demo run_demo (Some 2) False demo_world \<lparr>md_unsafe = False, md_markers = None\<rparr> in
   xs_status x = Some ChildSkipped \<and>
   (\<exists>c. getTerminalCompletion ''a'' (xs_world x) = Some c \<and> co_status c = CSkipped)"
proof -
  let ?md = "\<lparr>md_unsafe = False, md_markers = None\<rparr>"
  let ?x = "child_finalize exit_demo run_demo (Some 2) False demo_world ?md"
  have i: "validatePrdId (cr_prdId run_demo)" by code_simp
  have plain: "\<not> isCompiledResumePrd (cr_fm run_demo)" by code_simp
  have new: "getTerminalCompletion (cr_prdId run_demo) demo_world = None" by code_simp
  have ok: "\<not> xs_reported ?x"
    using demo_skip_works plain
    by (cases "exit_finalize exit_demo run_demo QSkipped True demo_world")
       (simp add: child_finalize_def Let_def finish_plain_def classifyQueueChildExit_def split: prod.splits)
  have "terminal_of (exit_class exit_demo run_demo (Some 2) False ?md) = Some QSkipped"
    by (simp add: terminal_of_def exit_class_def classifyQueueChildExit_def)
  with child_outcome_recorded [OF i plain new _ refl ok] show ?thesis
    by (simp add: exit_demo_def demo_env_def run_demo_def completion_of_def)
qed

text \<open>An id with two dots is a valid id of the queue, but the cancellation marker refuses it: a
  build of such a PRD that is killed is never settled, and its lock stays.\<close>

lemma killed_build_never_settles:
  assumes "cr_prdId run = ''a..b''"
  shows "validatePrdId (cr_prdId run) \<and>
    (let x = cp_state (child_events env run (ChildExited None True # es) w md)
     in xs_status x = None \<and> xs_world x = w)"
proof -
  have v: "validatePrdId ''a..b''" and u: "\<not> assertSafePrdId ''a..b''" by code_simp+
  have "xs_status (child_finalize env run None True w md) = None"
    using u assms by (simp add: settled_iff consume_fails_iff)
  with unsettled_state [OF this] v assms show ?thesis by (simp add: child_events_first Let_def)
qed

text \<open>A resumed PRD with such an id that fails is not rolled back and stays locked.\<close>

lemma dotted_resume_stays_locked:
  assumes "cr_prdId run = ''a..b''" and "isCompiledResumePrd (cr_fm run)"
  shows "finish_resume env run ChildFailed w = (w, ChildFailed)"
proof -
  have "unsafePrdIdReason ''a..b''" by code_simp
  with assms show ?thesis
    by (simp add: finish_resume_def resume_outcome_def rollback_and_record_def rollbackQueuedResume_def)
qed

end
