(* ===== verification/BuildSession.thy ===== *)
theory BuildSession
  imports ChildExit
begin

text \<open>
  The child process of a queued build: \<open>queue/build-single-prd.ts\<close> and the command
  \<open>queue exec\<close> of the CLI (\<open>packages/eforge/src/cli/index.ts\<close>) that runs it and turns its last events
  into an exit code. A generator is a function of the world that gives the world it leaves, the
  events it yields and a result or the message of an error. The lemmas show which session and
  queue events a build yields, in which order, and that the exit code says 10 exactly when another
  process has the claim; together with \<open>ChildExit\<close>, that a parent frees only the lock of its own
  child.
\<close>

section \<open>Events and generators\<close>

datatype stale_verdict = StaleProceed | StaleRevise | StaleObsolete

datatype (plugins only: size code) bevent =
    BPrdStart prd_id string
  | BPrdSkip string
  | BPrdStale stale_verdict "string option"
  | BCommitFailed string
  | BPrdComplete terminal_status
  | BSessionStart string
  | BSessionEnd string terminal_status string
  | BPlanFailed
  | BPlanError string
  | BProgress string
  | BWarning string
  | BPhaseEnd bool
  | BPlanningSkip string
  | BPlain string

text \<open>An event with the session id it is stamped with. \<open>bw_file\<close> is what the child wrote to the file of
  the PRD, \<open>bw_commits\<close> are its commits.\<close>

type_synonym sevent = "string option \<times> bevent"

record bworld =
  bw_locks :: lock_dir
  bw_file :: "string option"
  bw_commits :: "string list"

type_synonym 'a gen = "bworld \<Rightarrow> bworld \<times> sevent list \<times> (string, 'a) result"

definition gret :: "'a \<Rightarrow> 'a gen" where
  "gret x w = (w, [], Inr x)"

definition gthrow :: "string \<Rightarrow> 'a gen" where
  "gthrow msg w = (w, [], Inl msg)"

definition emit :: "bevent list \<Rightarrow> unit gen" where
  "emit es w = (w, map (Pair None) es, Inr ())"

definition gthen :: "'a gen \<Rightarrow> ('a \<Rightarrow> 'b gen) \<Rightarrow> 'b gen" where
  "gthen m f w =
     (case m w of
        (w1, es, Inl msg) \<Rightarrow> (w1, es, Inl msg)
      | (w1, es, Inr x) \<Rightarrow> (case f x w1 of (w2, es2, r) \<Rightarrow> (w2, es @ es2, r)))"

text \<open>The events of an agent or a phase, and the message it throws at the end, if any.\<close>

type_synonym stream = "bevent list \<times> string option"

definition run_stream :: "string option \<Rightarrow> stream \<Rightarrow> bevent list gen" where
  "run_stream sid s w =
     (case s of (es, failure) \<Rightarrow>
        (w, map (Pair sid) es, case failure of None \<Rightarrow> Inr es | Some msg \<Rightarrow> Inl msg))"

section \<open>Surroundings\<close>

text \<open>A string or list that is there and not empty (JavaScript truthiness).\<close>

definition present :: "string option \<Rightarrow> bool" where
  "present v \<longleftrightarrow> v \<noteq> None \<and> v \<noteq> Some []"

record stack_ctx =
  sk_baseBranch :: string
  sk_parentPrdId :: "prd_id option"
  sk_parentArtifactCommit :: "string option"

record sync_result =
  sy_baseRef :: string
  sy_failed :: bool
  sy_diagnostics :: "string list"
  sy_warnings :: "string list"

record compile_overrides =
  cv_baseBranch :: "string option"
  cv_worktreeBaseRef :: "string option"
  cv_pinRequired :: bool

record build_args =
  ba_planSet :: string
  ba_prdId :: prd_id
  ba_stack :: "stack_ctx option"
  ba_landing :: "landing_action option"
  ba_autoMerge :: "bool option"
  ba_postMerge :: "string list option"

record resume_args =
  ra_sourcePrdId :: prd_id
  ra_setName :: string
  ra_featureBranch :: string
  ra_baseBranch :: string
  ra_landing :: "landing_action option"
  ra_autoMerge :: "bool option"

text \<open>
  \<open>be_acceptance\<close> is the message \<open>requireAcceptanceCriteriaInventoryFromPrd\<close> throws; \<open>be_strip\<close> and
  \<open>be_append\<close> remove and add the inventory block; \<open>be_assess\<close> and \<open>be_intake\<close> are agents; \<open>be_write\<close>,
  \<open>be_commit\<close> and \<open>be_provider\<close> are what these calls throw.
\<close>

record 'inv build_ctx =
  be_pid :: nat
  be_uuid :: string
  be_acceptance :: "string \<Rightarrow> string option"
  be_strip :: "string \<Rightarrow> string"
  be_append :: "string \<Rightarrow> 'inv \<Rightarrow> string"
  be_head :: string
  be_assess :: "string \<Rightarrow> stream"
  be_intake :: "string \<Rightarrow> bevent list \<times> (string, string \<times> 'inv) result"
  be_write :: "string option"
  be_commit :: "string option"
  be_stacking :: bool
  be_stack :: "(string, stack_ctx) result"
  be_provider :: "string option"
  be_resolveRef :: "string \<Rightarrow> string option"
  be_trunkSync :: bool
  be_currentBranch :: "(string, string) result"
  be_trunk :: "(string, string) result"
  be_sync :: "string \<Rightarrow> (string, sync_result) result"
  be_compile :: "string \<Rightarrow> compile_overrides \<Rightarrow> stream"
  be_build :: "build_args \<Rightarrow> stream"
  be_resume :: "resume_args \<Rightarrow> stream"

record build_prd =
  bp_prd :: queued_prd
  bp_content :: string
  bp_lastCommit :: string

record build_opts =
  bo_name :: "string option"
  bo_landing :: "landing_action option"
  bo_autoMerge :: "bool option"

text \<open>\<open>si_injected\<close>: the session id came from the parent.\<close>

record session_info =
  si_id :: string
  si_injected :: bool

definition lift_result :: "(string, 'a) result \<Rightarrow> 'a gen" where
  "lift_result r = (case r of Inl msg \<Rightarrow> gthrow msg | Inr x \<Rightarrow> gret x)"

section \<open>Before the build\<close>

definition emitPreBuildFailureEvents :: "session_info \<Rightarrow> string \<Rightarrow> unit gen" where
  "emitPreBuildFailureEvents si msg =
     emit ((if si_injected si then [] else [BSessionStart (si_id si)]) @ [BPlanFailed, BPlanError msg] @
           [BSessionEnd (si_id si) QFailed msg, BPrdComplete QFailed])"

definition emit_skip :: "session_info \<Rightarrow> string \<Rightarrow> string \<Rightarrow> unit gen" where
  "emit_skip si reason summary =
     emit (BPrdSkip reason # (if si_injected si then [BSessionEnd (si_id si) QSkipped summary] else []) @
           [BPrdComplete QSkipped])"

definition emitAlreadyClaimedSkip :: "session_info \<Rightarrow> unit gen" where
  "emitAlreadyClaimedSkip si =
     emit_skip si ''claimed by another process'' ''PRD already claimed by another process''"

definition acceptance_error :: "'inv build_ctx \<Rightarrow> build_prd \<Rightarrow> bool \<Rightarrow> string option" where
  "acceptance_error ctx p resumed = (if resumed then None else be_acceptance ctx (bp_content p))"

section \<open>Staleness\<close>

definition stale_result :: "bevent list \<Rightarrow> stale_verdict \<times> string option" where
  "stale_result es =
     fold (\<lambda>e r. case e of BPrdStale v revision \<Rightarrow> (v, revision) | _ \<Rightarrow> r) es (StaleProceed, None)"

definition assessPrdStaleness :: "'inv build_ctx \<Rightarrow> build_prd \<Rightarrow> (stale_verdict \<times> string option) gen" where
  "assessPrdStaleness ctx p =
     gthen (run_stream None (be_assess ctx (be_strip ctx (bp_content p)))) (\<lambda>es. gret (stale_result es))"

text \<open>A message is a failure, not a throw.\<close>

definition extractRevisionInventory :: "'inv build_ctx \<Rightarrow> string \<Rightarrow> (string, string) result gen" where
  "extractRevisionInventory ctx revision w =
     (case be_intake ctx (trimEnd (be_strip ctx revision)) of
        (es, Inl msg) \<Rightarrow> (w, map (Pair None) es, Inr (Inl msg))
      | (es, Inr (body, inventory)) \<Rightarrow>
          (w, map (Pair None) es, Inr (Inr (trimEnd (be_append ctx body inventory)))))"

definition commitStaleRevision :: "'inv build_ctx \<Rightarrow> build_prd \<Rightarrow> unit gen" where
  "commitStaleRevision ctx p w =
     (case be_commit ctx of
        None \<Rightarrow> (w\<lparr>bw_commits := bw_commits w @ [''chore(queue): revise stale PRD '' @ q_id (bp_prd p)]\<rparr>, [], Inr ())
      | Some msg \<Rightarrow> (w, [(None, BCommitFailed msg)], Inr ()))"

definition write_revision :: "'inv build_ctx \<Rightarrow> string \<Rightarrow> unit gen" where
  "write_revision ctx content w =
     (case be_write ctx of
        None \<Rightarrow> (w\<lparr>bw_file := Some content\<rparr>, [], Inr ())
      | Some msg \<Rightarrow> (w, [], Inl msg))"

text \<open>\<open>None\<close>: the build has ended.\<close>

definition applyStaleRevision ::
    "'inv build_ctx \<Rightarrow> build_prd \<Rightarrow> string option \<Rightarrow> session_info \<Rightarrow> build_prd option gen" where
  "applyStaleRevision ctx p revision si =
     (case revision of
        None \<Rightarrow> gthen (emit_skip si ''needs revision'' ''PRD needs manual revision'') (\<lambda>_. gret None)
      | Some text \<Rightarrow>
          if text = [] then gthen (emit_skip si ''needs revision'' ''PRD needs manual revision'') (\<lambda>_. gret None)
          else gthen (extractRevisionInventory ctx text) (\<lambda>r. case r of
                 Inl msg \<Rightarrow> gthen (emitPreBuildFailureEvents si msg) (\<lambda>_. gret None)
               | Inr value \<Rightarrow>
                   (let content = value @ [nl]; revised = p\<lparr>bp_content := content\<rparr> in
                    gthen (write_revision ctx content) (\<lambda>_.
                    gthen (commitStaleRevision ctx revised) (\<lambda>_. gret (Some revised))))))"

definition assessAndApplyStaleness ::
    "'inv build_ctx \<Rightarrow> build_prd \<Rightarrow> bool \<Rightarrow> session_info \<Rightarrow> build_prd option gen" where
  "assessAndApplyStaleness ctx p resumed si =
     (if resumed \<or> bp_lastCommit p = [] \<or> bp_lastCommit p = be_head ctx then gret (Some p)
      else gthen (assessPrdStaleness ctx p) (\<lambda>(verdict, revision).
             case verdict of
               StaleObsolete \<Rightarrow> gthen (emit_skip si ''obsolete'' ''PRD is obsolete'') (\<lambda>_. gret None)
             | StaleProceed \<Rightarrow> gret (Some p)
             | StaleRevise \<Rightarrow> applyStaleRevision ctx p revision si))"

section \<open>Preparing the compilation\<close>

definition resolveQueuedStackContext :: "'inv build_ctx \<Rightarrow> (string, stack_ctx option) result" where
  "resolveQueuedStackContext ctx =
     (if \<not> be_stacking ctx then Inr None
      else case be_stack ctx of Inl msg \<Rightarrow> Inl msg | Inr sk \<Rightarrow> Inr (Some sk))"

definition requireQueuedStackProvider :: "'inv build_ctx \<Rightarrow> stack_ctx option \<Rightarrow> (string, bool) result" where
  "requireQueuedStackProvider ctx sk =
     (if sk = None then Inr False
      else case be_provider ctx of Some msg \<Rightarrow> Inl msg | None \<Rightarrow> Inr True)"

text \<open>The second component is the summary of a failure.\<close>

definition collectTrunkSyncEvents :: "sync_result \<Rightarrow> bevent list \<times> string option" where
  "collectTrunkSyncEvents r =
     (let es = map BProgress (sy_diagnostics r) @ map BWarning (sy_warnings r);
          failureSummary = (case sy_warnings r of [] \<Rightarrow> ''Trunk sync failed before compile'' | m # _ \<Rightarrow> m)
      in if \<not> sy_failed r then (es, None)
         else (es @ [BPlanFailed, BPlanError failureSummary], Some failureSummary))"

definition yieldTrunkSyncEvents :: "sync_result \<Rightarrow> string option gen" where
  "yieldTrunkSyncEvents r =
     (case collectTrunkSyncEvents r of (es, failure) \<Rightarrow> gthen (emit es) (\<lambda>_. gret failure))"

definition sync_message :: "string \<Rightarrow> prd_id \<Rightarrow> string" where
  "sync_message base i =
     ''Trunk sync: checking '' @ [CHR 0x27] @ base @ [CHR 0x27] @ '' against remote before compile (PRD '' @ i @ '')''"

definition sync_override :: "'inv build_ctx \<Rightarrow> string \<Rightarrow> prd_id \<Rightarrow> (string, string option) result gen" where
  "sync_override ctx base i =
     gthen (emit [BProgress (sync_message base i)]) (\<lambda>_.
     gthen (lift_result (be_sync ctx base)) (\<lambda>r.
     gthen (yieldTrunkSyncEvents r) (\<lambda>failure.
     gret (case failure of
             Some msg \<Rightarrow> Inl msg
           | None \<Rightarrow> Inr (if sy_baseRef r \<noteq> base then Some (sy_baseRef r) else None)))))"

definition resolveStackedTrunkSyncOverride ::
    "'inv build_ctx \<Rightarrow> prd_id \<Rightarrow> stack_ctx \<Rightarrow> (string, string option) result gen" where
  "resolveStackedTrunkSyncOverride ctx i sk =
     (if sk_parentPrdId sk \<noteq> None then gret (Inr None) else sync_override ctx (sk_baseBranch sk) i)"

definition resolveNonStackedTrunkSyncOverride ::
    "'inv build_ctx \<Rightarrow> prd_id \<Rightarrow> (string, string option) result gen" where
  "resolveNonStackedTrunkSyncOverride ctx i =
     gthen (lift_result (be_currentBranch ctx)) (\<lambda>currentRaw.
     gthen (lift_result (be_trunk ctx)) (\<lambda>trunk.
     if trim currentRaw \<noteq> trunk then gret (Inr None) else sync_override ctx trunk i))"

definition no_commit_message :: "prd_id \<Rightarrow> string" where
  "no_commit_message i =
     ''Cannot compile stacked PRD '' @ [CHR 0x27] @ i @ [CHR 0x27] @ '': parent artifact commit is unavailable.''"

definition lost_commit_message :: "prd_id \<Rightarrow> string \<Rightarrow> string" where
  "lost_commit_message i c =
     ''Cannot compile stacked PRD '' @ [CHR 0x27] @ i @ [CHR 0x27] @ '': parent artifact commit '' @ [CHR 0x27] @ c @
     [CHR 0x27] @ '' cannot be resolved.''"

definition resolveCompileWorktreeOverride ::
    "'inv build_ctx \<Rightarrow> prd_id \<Rightarrow> stack_ctx option \<Rightarrow> (string, string option) result gen" where
  "resolveCompileWorktreeOverride ctx i sk =
     (case sk of
        Some c \<Rightarrow>
          if sk_parentPrdId c \<noteq> None
          then gret (case sk_parentArtifactCommit c of
                       None \<Rightarrow> Inl (no_commit_message i)
                     | Some sha \<Rightarrow>
                         if sha = [] then Inl (no_commit_message i)
                         else if present (be_resolveRef ctx sha) then Inr (be_resolveRef ctx sha)
                         else Inl (lost_commit_message i sha))
          else if \<not> be_trunkSync ctx then gret (Inr None)
          else resolveStackedTrunkSyncOverride ctx i c
      | None \<Rightarrow>
          if \<not> be_trunkSync ctx then gret (Inr None)
          else resolveNonStackedTrunkSyncOverride ctx i)"

definition resolveCompileOverrides ::
    "'inv build_ctx \<Rightarrow> prd_id \<Rightarrow> stack_ctx option \<Rightarrow> (string, compile_overrides) result gen" where
  "resolveCompileOverrides ctx i sk =
     gthen (resolveCompileWorktreeOverride ctx i sk) (\<lambda>r. gret (case r of
       Inl msg \<Rightarrow> Inl msg
     | Inr ref \<Rightarrow> Inr \<lparr>cv_baseBranch = map_option sk_baseBranch sk, cv_worktreeBaseRef = ref,
         cv_pinRequired = (case sk of Some c \<Rightarrow> sk_parentPrdId c \<noteq> None | None \<Rightarrow> False)\<rparr>))"

section \<open>The phases\<close>

type_synonym session_result = "terminal_status \<times> string"

definition failed_phase :: "bevent list \<Rightarrow> bool" where
  "failed_phase es \<longleftrightarrow> BPhaseEnd True \<in> set es"

definition skip_reason_of :: "bevent list \<Rightarrow> string option" where
  "skip_reason_of es = fold (\<lambda>e r. case e of BPlanningSkip reason \<Rightarrow> Some reason | _ \<Rightarrow> r) es None"

definition failPreparedPrd :: "string \<Rightarrow> session_result gen" where
  "failPreparedPrd msg = gthen (emit [BPlanFailed, BPlanError msg]) (\<lambda>_. gret (QFailed, msg))"

definition runCompilePhase :: "'inv build_ctx \<Rightarrow> session_info \<Rightarrow> string \<Rightarrow> compile_overrides \<Rightarrow> session_result gen" where
  "runCompilePhase ctx si planSet ov =
     gthen (run_stream (Some (si_id si)) (be_compile ctx planSet ov)) (\<lambda>es. gret
       (if failed_phase es then (QFailed, ''Compile failed'')
        else case skip_reason_of es of
               Some reason \<Rightarrow> (QSkipped, reason)
             | None \<Rightarrow> (QCompleted, ''Compile complete'')))"

definition runBuildPhase ::
    "'inv build_ctx \<Rightarrow> build_opts \<Rightarrow> session_info \<Rightarrow> build_prd \<Rightarrow> string \<Rightarrow> stack_ctx option \<Rightarrow> session_result gen" where
  "runBuildPhase ctx opt si p planSet sk =
     (let fm = q_fm (bp_prd p) in
      gthen (run_stream (Some (si_id si)) (be_build ctx
         \<lparr>ba_planSet = planSet, ba_prdId = q_id (bp_prd p), ba_stack = sk,
          ba_landing = or_else (bo_landing opt) (fm_landing fm),
          ba_autoMerge = or_else (bo_autoMerge opt) (fm_landing_auto_merge fm), ba_postMerge = fm_postMerge fm\<rparr>))
       (\<lambda>es. gret (if failed_phase es then (QFailed, ''Build failed'') else (QCompleted, ''Build complete''))))"

definition runCompiledResumePhase ::
    "'inv build_ctx \<Rightarrow> build_opts \<Rightarrow> session_info \<Rightarrow> build_prd \<Rightarrow> prd_id \<times> string \<times> string \<times> string \<Rightarrow> session_result gen" where
  "runCompiledResumePhase ctx opt si p cr =
     (case cr of (source, setName, feature, base) \<Rightarrow>
        let fm = q_fm (bp_prd p) in
        gthen (run_stream (Some (si_id si)) (be_resume ctx
           \<lparr>ra_sourcePrdId = source, ra_setName = setName, ra_featureBranch = feature, ra_baseBranch = base,
            ra_landing = or_else (bo_landing opt) (fm_landing fm),
            ra_autoMerge = or_else (bo_autoMerge opt) (fm_landing_auto_merge fm)\<rparr>))
         (\<lambda>es. gret (if failed_phase es then (QFailed, ''Continue-and-repair failed'')
                     else (QCompleted, ''Continue-and-repair complete''))))"

text \<open>\<open>Inl\<close>: the preparation is the result of the session.\<close>

definition prepareCompileAndBuild ::
    "'inv build_ctx \<Rightarrow> session_info \<Rightarrow> prd_id \<Rightarrow> string \<Rightarrow> (session_result, stack_ctx option) result gen" where
  "prepareCompileAndBuild ctx si i planSet =
     (case resolveQueuedStackContext ctx of
        Inl msg \<Rightarrow> gthen (failPreparedPrd msg) (\<lambda>r. gret (Inl r))
      | Inr sk \<Rightarrow>
          (case requireQueuedStackProvider ctx sk of
             Inl msg \<Rightarrow> gthen (failPreparedPrd msg) (\<lambda>r. gret (Inl r))
           | Inr _ \<Rightarrow>
               gthen (resolveCompileOverrides ctx i sk) (\<lambda>ov. case ov of
                 Inl msg \<Rightarrow> gthen (failPreparedPrd msg) (\<lambda>r. gret (Inl r))
               | Inr overrides \<Rightarrow>
                   gthen (runCompilePhase ctx si planSet overrides) (\<lambda>r.
                   gret (if fst r = QCompleted then Inr sk else Inl r)))))"

definition main_body ::
    "'inv build_ctx \<Rightarrow> build_opts \<Rightarrow> session_info \<Rightarrow> build_prd \<Rightarrow> (prd_id \<times> string \<times> string \<times> string) option \<Rightarrow>
     session_result gen" where
  "main_body ctx opt si p resume =
     gthen (emit (if si_injected si then [] else [BSessionStart (si_id si)])) (\<lambda>_.
       case resume of
         Some cr \<Rightarrow> runCompiledResumePhase ctx opt si p cr
       | None \<Rightarrow>
           (let i = q_id (bp_prd p); planSet = (case bo_name opt of Some n \<Rightarrow> n | None \<Rightarrow> i) in
            gthen (prepareCompileAndBuild ctx si i planSet) (\<lambda>prep. case prep of
              Inl r \<Rightarrow> gret r
            | Inr sk \<Rightarrow> runBuildPhase ctx opt si p planSet sk)))"

definition emitTerminalQueuedPrdEvents :: "session_info \<Rightarrow> session_result \<Rightarrow> unit gen" where
  "emitTerminalQueuedPrdEvents si r =
     emit [BSessionEnd (si_id si) (fst r) (snd r), BPrdComplete (fst r)]"

definition runMainQueuedPrdSession ::
    "'inv build_ctx \<Rightarrow> build_opts \<Rightarrow> session_info \<Rightarrow> build_prd \<Rightarrow> (prd_id \<times> string \<times> string \<times> string) option \<Rightarrow>
     unit gen" where
  "runMainQueuedPrdSession ctx opt si p resume w =
     (case main_body ctx opt si p resume w of
        (w1, es, r) \<Rightarrow>
          (case emitTerminalQueuedPrdEvents si (case r of Inr x \<Rightarrow> x | Inl msg \<Rightarrow> (QFailed, msg)) w1 of
             (w2, es2, r2) \<Rightarrow> (w2, es @ es2, r2)))"

section \<open>A queued build\<close>

text \<open>\<open>claimPrd\<close> in the world.\<close>

definition claim_gen :: "nat \<Rightarrow> prd_id \<Rightarrow> bool gen" where
  "claim_gen pid i w = (case claimPrd pid i (bw_locks w) of (ls, ok) \<Rightarrow> (w\<lparr>bw_locks := ls\<rparr>, [], Inr ok))"

text \<open>The message of the missing resume fields is their list.\<close>

definition missing_message :: "string list \<Rightarrow> string" where
  "missing_message missing = ''Incomplete compiled resume frontmatter; missing: '' @ join '', '' missing"

definition session_of :: "'inv build_ctx \<Rightarrow> string option \<Rightarrow> session_info" where
  "session_of ctx sessionId =
     (case sessionId of Some s \<Rightarrow> \<lparr>si_id = s, si_injected = True\<rparr>
                      | None \<Rightarrow> \<lparr>si_id = be_uuid ctx, si_injected = False\<rparr>)"

definition runQueuedPrdBuild :: "'inv build_ctx \<Rightarrow> build_opts \<Rightarrow> string option \<Rightarrow> build_prd \<Rightarrow> unit gen" where
  "runQueuedPrdBuild ctx opt sessionId p =
     (let i = q_id (bp_prd p); fm = q_fm (bp_prd p); si = session_of ctx sessionId in
      gthen (emit [BPrdStart i (fm_title fm)]) (\<lambda>_.
      gthen (claim_gen (be_pid ctx) i) (\<lambda>claimed.
        if \<not> claimed then emitAlreadyClaimedSkip si
        else case getCompiledResumeFrontmatter fm of
               Inl missing \<Rightarrow> emitPreBuildFailureEvents si (missing_message missing)
             | Inr resume \<Rightarrow>
                 (case acceptance_error ctx p (resume \<noteq> None) of
                    Some msg \<Rightarrow> emitPreBuildFailureEvents si msg
                  | None \<Rightarrow>
                      gthen (assessAndApplyStaleness ctx p (resume \<noteq> None) si) (\<lambda>outcome. case outcome of
                        None \<Rightarrow> gret ()
                      | Some p1 \<Rightarrow> runMainQueuedPrdSession ctx opt si p1 resume)))))"

section \<open>The command\<close>

text \<open>\<open>qe_landing_ok\<close>, \<open>qe_autoMerge_ok\<close>: the flags are valid; \<open>qe_engine_ok\<close>: the engine can be created
  (its configuration and profile load). \<open>qe_lookup\<close> is the search in the queue, which may throw.\<close>

record queue_exec_env =
  qe_landing_ok :: bool
  qe_autoMerge_ok :: bool
  qe_engine_ok :: bool
  qe_lookup :: "build_prd option option"

definition last_complete :: "sevent list \<Rightarrow> terminal_status option" where
  "last_complete es = fold (\<lambda>(_, e) r. case e of BPrdComplete st \<Rightarrow> Some st | _ \<Rightarrow> r) es None"

definition last_skip :: "sevent list \<Rightarrow> string option" where
  "last_skip es = fold (\<lambda>(_, e) r. case e of BPrdSkip reason \<Rightarrow> Some reason | _ \<Rightarrow> r) es None"

definition queue_exec ::
    "queue_exec_env \<Rightarrow> 'inv build_ctx \<Rightarrow> build_opts \<Rightarrow> string option \<Rightarrow> bworld \<Rightarrow> bworld \<times> sevent list \<times> nat" where
  "queue_exec qe ctx opt sessionId w =
     (if \<not> qe_landing_ok qe \<or> \<not> qe_autoMerge_ok qe \<or> \<not> qe_engine_ok qe then (w, [], 1)
      else case qe_lookup qe of
             None \<Rightarrow> (w, [], 1)
           | Some None \<Rightarrow> (w, [], 127)
           | Some (Some p) \<Rightarrow>
               (case runQueuedPrdBuild ctx opt sessionId p w of
                  (w1, es, Inl _) \<Rightarrow> (w1, es, 1)
                | (w1, es, Inr _) \<Rightarrow> (w1, es, queueExecExitCode (last_complete es) (last_skip es))))"

section \<open>The events of the session and of the queue\<close>

fun is_envelope :: "bevent \<Rightarrow> bool" where
  "is_envelope (BPrdStart _ _) \<longleftrightarrow> True"
| "is_envelope (BPrdSkip _) \<longleftrightarrow> True"
| "is_envelope (BPrdComplete _) \<longleftrightarrow> True"
| "is_envelope (BSessionStart _) \<longleftrightarrow> True"
| "is_envelope (BSessionEnd _ _ _) \<longleftrightarrow> True"
| "is_envelope _ \<longleftrightarrow> False"

definition envelope :: "sevent list \<Rightarrow> bevent list" where
  "envelope es = filter is_envelope (map snd es)"

lemma envelope_simps [simp]:
  "envelope [] = []" "envelope (es @ fs) = envelope es @ envelope fs"
  "envelope (e # es) = (if is_envelope (snd e) then [snd e] else []) @ envelope es"
  "envelope (map (Pair sid) bevs) = filter is_envelope bevs"
  by (simp_all add: envelope_def filter_map comp_def)

text \<open>What agents and phases yield is their own: no event of the session or of the queue.\<close>

definition own_events :: "bevent list \<Rightarrow> bool" where
  "own_events es \<longleftrightarrow> filter is_envelope es = []"

definition plain_ctx :: "'inv build_ctx \<Rightarrow> bool" where
  "plain_ctx ctx \<longleftrightarrow>
     (\<forall>c. own_events (fst (be_assess ctx c))) \<and> (\<forall>c. own_events (fst (be_intake ctx c))) \<and>
     (\<forall>n ov. own_events (fst (be_compile ctx n ov))) \<and> (\<forall>a. own_events (fst (be_build ctx a))) \<and>
     (\<forall>a. own_events (fst (be_resume ctx a)))"

text \<open>A quiet generator yields none of them and leaves the locks alone.\<close>

definition quiet :: "'a gen \<Rightarrow> bool" where
  "quiet m \<longleftrightarrow> (\<forall>w. envelope (fst (snd (m w))) = [] \<and> bw_locks (fst (m w)) = bw_locks w)"

lemma quiet_gret [intro, simp]: "quiet (gret x)"
  by (simp add: quiet_def gret_def)

lemma quiet_gthrow [intro, simp]: "quiet (gthrow msg)"
  by (simp add: quiet_def gthrow_def)

lemma quiet_emit [intro]: "own_events es \<Longrightarrow> quiet (emit es)"
  by (simp add: quiet_def emit_def own_events_def)

lemma quiet_gthen [intro]:
  assumes "quiet m" and "\<And>x. quiet (f x)"
  shows "quiet (gthen m f)"
  unfolding quiet_def
proof
  fix w
  obtain w1 es r where m: "m w = (w1, es, r)" by (cases "m w") auto
  have a: "envelope es = []" "bw_locks w1 = bw_locks w" using assms(1) m by (auto simp: quiet_def dest: spec [of _ w])
  show "envelope (fst (snd (gthen m f w))) = [] \<and> bw_locks (fst (gthen m f w)) = bw_locks w"
  proof (cases r)
    case (Inl msg)
    then show ?thesis using m a by (simp add: gthen_def)
  next
    case (Inr x)
    obtain w2 es2 r2 where f: "f x w1 = (w2, es2, r2)" by (cases "f x w1") auto
    then have "envelope es2 = []" "bw_locks w2 = bw_locks w1"
      using assms(2) [of x] by (auto simp: quiet_def dest: spec [of _ w1])
    then show ?thesis using m f a Inr by (simp add: gthen_def)
  qed
qed

lemma quiet_run_stream [intro]: "own_events (fst s) \<Longrightarrow> quiet (run_stream sid s)"
  by (cases s) (simp add: quiet_def run_stream_def own_events_def)

lemma quiet_lift_result [intro]: "quiet (lift_result r)"
  by (simp add: lift_result_def split: sum.splits)

lemma quiet_yield_sync: "quiet (yieldTrunkSyncEvents r)"
proof -
  have "own_events (fst (collectTrunkSyncEvents r))"
    by (auto simp: collectTrunkSyncEvents_def own_events_def Let_def)
  then show ?thesis
    by (cases "collectTrunkSyncEvents r") (auto simp: yieldTrunkSyncEvents_def intro!: quiet_gthen quiet_emit quiet_gret)
qed

lemma quiet_sync_override: "quiet (sync_override ctx b i)"
  unfolding sync_override_def
  by (intro quiet_gthen quiet_emit quiet_lift_result quiet_yield_sync quiet_gret) (simp add: own_events_def)

lemma quiet_overrides: "quiet (resolveCompileOverrides ctx i sk)"
  unfolding resolveCompileOverrides_def
proof (intro quiet_gthen quiet_gret)
  show "quiet (resolveCompileWorktreeOverride ctx i sk)"
    unfolding resolveCompileWorktreeOverride_def resolveStackedTrunkSyncOverride_def resolveNonStackedTrunkSyncOverride_def
    by (auto intro!: quiet_gthen quiet_gret quiet_sync_override quiet_lift_result split: option.split)
qed

lemma quiet_phases:
  assumes "plain_ctx ctx"
  shows "quiet (runCompilePhase ctx si n ov)" "quiet (runBuildPhase ctx opt si p n sk)"
    and "quiet (runCompiledResumePhase ctx opt si p cr)"
  unfolding runCompilePhase_def runBuildPhase_def runCompiledResumePhase_def Let_def
  using assms
  by (cases cr; simp add: plain_ctx_def; intro quiet_gthen quiet_run_stream quiet_gret; simp add: plain_ctx_def)+

lemma quiet_fail: "quiet (failPreparedPrd msg)"
  unfolding failPreparedPrd_def by (intro quiet_gthen quiet_emit quiet_gret) (simp add: own_events_def)

lemma quiet_prepare:
  assumes "plain_ctx ctx"
  shows "quiet (prepareCompileAndBuild ctx si i n)"
  unfolding prepareCompileAndBuild_def
  by (auto intro!: quiet_gthen quiet_gret quiet_fail quiet_overrides quiet_phases [OF assms] split: sum.split)

text \<open>After the start of the session the body is quiet.\<close>

lemma main_body_envelope:
  assumes ctx: "plain_ctx ctx" and r: "main_body ctx opt si p resume w = (w1, es, r)"
  shows "envelope es = (if si_injected si then [] else [BSessionStart (si_id si)])" and "bw_locks w1 = bw_locks w"
proof -
  define inner where "inner = (case resume of
         Some cr \<Rightarrow> runCompiledResumePhase ctx opt si p cr
       | None \<Rightarrow>
           (let i = q_id (bp_prd p); planSet = (case bo_name opt of Some n \<Rightarrow> n | None \<Rightarrow> i) in
            gthen (prepareCompileAndBuild ctx si i planSet) (\<lambda>prep. case prep of
              Inl r \<Rightarrow> gret r
            | Inr sk \<Rightarrow> runBuildPhase ctx opt si p planSet sk)))"
  have "quiet inner"
    by (auto simp: inner_def Let_def intro!: quiet_gthen quiet_gret quiet_phases [OF ctx] quiet_prepare [OF ctx]
        split: option.split sum.split)
  moreover obtain w2 es2 r2 where i: "inner w = (w2, es2, r2)" by (cases "inner w") auto
  ultimately have "envelope es2 = []" "bw_locks w2 = bw_locks w" by (auto simp: quiet_def dest: spec [of _ w])
  moreover have "main_body ctx opt si p resume w =
      (w2, map (Pair None) (if si_injected si then [] else [BSessionStart (si_id si)]) @ es2, r2)"
    using i by (simp add: main_body_def gthen_def emit_def inner_def [symmetric])
  ultimately show "envelope es = (if si_injected si then [] else [BSessionStart (si_id si)])" "bw_locks w1 = bw_locks w"
    using r by simp_all
qed


text \<open>What holds of the result and of the envelope of a generator that leaves the locks alone.\<close>

definition post :: "((string, 'a) result \<Rightarrow> bevent list \<Rightarrow> bool) \<Rightarrow> 'a gen \<Rightarrow> bool" where
  "post Q m \<longleftrightarrow>
     (\<forall>w. bw_locks (fst (m w)) = bw_locks w \<and> Q (snd (snd (m w))) (envelope (fst (snd (m w)))))"

lemma postD: "post Q m \<Longrightarrow> m w = (w1, es, r) \<Longrightarrow> bw_locks w1 = bw_locks w \<and> Q r (envelope es)"
  by (auto simp: post_def dest: spec [of _ w])

lemma post_gret: "Q (Inr x) [] \<Longrightarrow> post Q (gret x)"
  by (simp add: post_def gret_def)

lemma post_emit: "Q (Inr x) (filter is_envelope es) \<Longrightarrow> post Q (gthen (emit es) (\<lambda>_. gret x))"
  by (simp add: post_def gthen_def emit_def gret_def)

lemma post_quiet:
  assumes "quiet m" and "\<And>x. post Q (f x)" and "\<And>msg. Q (Inl msg) []"
  shows "post Q (gthen m f)"
  unfolding post_def
proof
  fix w
  obtain w1 es r where m: "m w = (w1, es, r)" by (cases "m w") auto
  have a: "envelope es = []" "bw_locks w1 = bw_locks w" using assms(1) m by (auto simp: quiet_def dest: spec [of _ w])
  show "bw_locks (fst (gthen m f w)) = bw_locks w \<and>
    Q (snd (snd (gthen m f w))) (envelope (fst (snd (gthen m f w))))"
  proof (cases r)
    case (Inl msg)
    then show ?thesis using m a assms(3) by (simp add: gthen_def)
  next
    case (Inr x)
    obtain w2 es2 r2 where f: "f x w1 = (w2, es2, r2)" by (cases "f x w1") auto
    show ?thesis using postD [OF assms(2) f] m f a Inr by (simp add: gthen_def)
  qed
qed

text \<open>The two ways a build ends before its main session, and the main session.\<close>

definition skip_ending :: "session_info \<Rightarrow> string set \<Rightarrow> bevent list \<Rightarrow> bool" where
  "skip_ending si reasons es \<longleftrightarrow>
     (\<exists>reason summary. reason \<in> reasons \<and>
        es = BPrdSkip reason # (if si_injected si then [BSessionEnd (si_id si) QSkipped summary] else []) @ [BPrdComplete QSkipped])"

definition session_ending :: "session_info \<Rightarrow> terminal_status \<Rightarrow> bevent list \<Rightarrow> bool" where
  "session_ending si st es \<longleftrightarrow>
     (\<exists>summary. es = (if si_injected si then [] else [BSessionStart (si_id si)]) @
        [BSessionEnd (si_id si) st summary, BPrdComplete st])"

definition stale_post :: "session_info \<Rightarrow> (string, build_prd option) result \<Rightarrow> bevent list \<Rightarrow> bool" where
  "stale_post si r es \<longleftrightarrow>
     (case r of
        Inr None \<Rightarrow> skip_ending si {''needs revision'', ''obsolete''} es \<or> session_ending si QFailed es
      | _ \<Rightarrow> es = [])"

lemma post_skip:
  "reason \<in> {''needs revision'', ''obsolete''} \<Longrightarrow> post (stale_post si) (gthen (emit_skip si reason summary) (\<lambda>_. gret None))"
  unfolding emit_skip_def by (rule post_emit) (auto simp: stale_post_def skip_ending_def)

lemma post_prefail: "post (stale_post si) (gthen (emitPreBuildFailureEvents si msg) (\<lambda>_. gret None))"
  unfolding emitPreBuildFailureEvents_def by (rule post_emit) (auto simp: stale_post_def session_ending_def)

lemma quiet_assess: "plain_ctx ctx \<Longrightarrow> quiet (assessPrdStaleness ctx p)"
  unfolding assessPrdStaleness_def by (intro quiet_gthen quiet_run_stream quiet_gret) (simp add: plain_ctx_def)

lemma quiet_extract: "plain_ctx ctx \<Longrightarrow> quiet (extractRevisionInventory ctx t)"
  by (auto simp: quiet_def extractRevisionInventory_def plain_ctx_def own_events_def split: prod.split sum.split)
     (metis fst_conv)+

lemma quiet_write: "quiet (write_revision ctx c)" and quiet_commit: "quiet (commitStaleRevision ctx p)"
  by (auto simp: quiet_def write_revision_def commitStaleRevision_def split: option.split)

lemma stale_post_simps [simp]: "stale_post si (Inl msg) []" "stale_post si (Inr (Some p)) []"
  by (simp_all add: stale_post_def)

lemma post_apply:
  assumes "plain_ctx ctx"
  shows "post (stale_post si) (applyStaleRevision ctx p revision si)"
proof -
  have revised: "post (stale_post si) (gthen (extractRevisionInventory ctx t) (\<lambda>r. case r of
                 Inl msg \<Rightarrow> gthen (emitPreBuildFailureEvents si msg) (\<lambda>_. gret None)
               | Inr value \<Rightarrow>
                   (let content = value @ [nl]; revised = p\<lparr>bp_content := content\<rparr> in
                    gthen (write_revision ctx content) (\<lambda>_.
                    gthen (commitStaleRevision ctx revised) (\<lambda>_. gret (Some revised))))))" for t
  proof (rule post_quiet [OF quiet_extract [OF assms]])
    fix x :: "(string, string) result"
    show "post (stale_post si) (case x of
                 Inl msg \<Rightarrow> gthen (emitPreBuildFailureEvents si msg) (\<lambda>_. gret None)
               | Inr value \<Rightarrow>
                   (let content = value @ [nl]; revised = p\<lparr>bp_content := content\<rparr> in
                    gthen (write_revision ctx content) (\<lambda>_.
                    gthen (commitStaleRevision ctx revised) (\<lambda>_. gret (Some revised)))))"
      by (cases x) (auto simp: Let_def post_prefail intro!: post_quiet quiet_write quiet_commit post_gret)
  qed simp
  show ?thesis
    unfolding applyStaleRevision_def
    by (auto simp: post_skip revised split: option.split)
qed

lemma post_stale:
  assumes "plain_ctx ctx"
  shows "post (stale_post si) (assessAndApplyStaleness ctx p resumed si)"
proof -
  have "post (stale_post si) (case x of (verdict, revision) \<Rightarrow> case verdict of
               StaleObsolete \<Rightarrow> gthen (emit_skip si ''obsolete'' ''PRD is obsolete'') (\<lambda>_. gret None)
             | StaleProceed \<Rightarrow> gret (Some p)
             | StaleRevise \<Rightarrow> applyStaleRevision ctx p revision si)" for x
    by (auto simp: post_skip post_apply [OF assms] post_gret split: prod.split stale_verdict.split)
  then show ?thesis
    unfolding assessAndApplyStaleness_def by (auto intro!: post_quiet quiet_assess assms post_gret)
qed

lemma main_session:
  assumes "plain_ctx ctx" and r: "runMainQueuedPrdSession ctx opt si p resume w = (w1, es, r)"
  shows "\<exists>st. session_ending si st (envelope es)" and "r = Inr ()" and "bw_locks w1 = bw_locks w"
proof -
  obtain w2 es2 r2 where b: "main_body ctx opt si p resume w = (w2, es2, r2)"
    by (cases "main_body ctx opt si p resume w") auto
  let ?x = "case r2 of Inr x \<Rightarrow> x | Inl msg \<Rightarrow> (QFailed, msg)"
  have "es = es2 @ map (Pair None) [BSessionEnd (si_id si) (fst ?x) (snd ?x), BPrdComplete (fst ?x)]"
    and u: "r = Inr ()" "w1 = w2"
    using r b by (simp_all add: runMainQueuedPrdSession_def emitTerminalQueuedPrdEvents_def emit_def)
  then have "session_ending si (fst ?x) (envelope es)"
    using main_body_envelope(1) [OF assms(1) b] by (auto simp: session_ending_def)
  then show "\<exists>st. session_ending si st (envelope es)" ..
  show "r = Inr ()" "bw_locks w1 = bw_locks w" using u main_body_envelope(2) [OF assms(1) b] by simp_all
qed


definition claimed_reason :: string where
  "claimed_reason = ''claimed by another process''"

text \<open>What the envelope of a build is, by whether it got the claim and how it returned.\<close>

definition build_protocol :: "session_info \<Rightarrow> bool \<Rightarrow> (string, unit) result \<Rightarrow> bevent list \<Rightarrow> bool" where
  "build_protocol si claimed r es \<longleftrightarrow>
     (if \<not> claimed then r = Inr () \<and> skip_ending si {claimed_reason} es
      else case r of
             Inl _ \<Rightarrow> es = []
           | Inr _ \<Rightarrow> skip_ending si {''needs revision'', ''obsolete''} es \<or> (\<exists>st. session_ending si st es))"

lemma after_claim:
  assumes "plain_ctx ctx"
    and r: "(case getCompiledResumeFrontmatter fm of
               Inl missing \<Rightarrow> emitPreBuildFailureEvents si (missing_message missing)
             | Inr resume \<Rightarrow>
                 (case acceptance_error ctx p (resume \<noteq> None) of
                    Some msg \<Rightarrow> emitPreBuildFailureEvents si msg
                  | None \<Rightarrow>
                      gthen (assessAndApplyStaleness ctx p (resume \<noteq> None) si) (\<lambda>outcome. case outcome of
                        None \<Rightarrow> gret ()
                      | Some p1 \<Rightarrow> runMainQueuedPrdSession ctx opt si p1 resume))) w = (w1, es, r)"
  shows "bw_locks w1 = bw_locks w \<and> build_protocol si True r (envelope es)"
proof -
  have prefail: "bw_locks w1 = bw_locks w \<and> build_protocol si True r (envelope es)"
    if "emitPreBuildFailureEvents si msg w = (w1, es, r)" for msg
  proof -
    have "session_ending si QFailed (envelope es)" "w1 = w" "r = Inr ()"
      using that by (auto simp: emitPreBuildFailureEvents_def emit_def session_ending_def)
    then show ?thesis by (auto simp: build_protocol_def)
  qed
  show ?thesis
  proof (cases "getCompiledResumeFrontmatter fm")
    case (Inl missing)
    then show ?thesis using r prefail by simp
  next
    case (Inr resume)
    show ?thesis
    proof (cases "acceptance_error ctx p (resume \<noteq> None)")
      case (Some msg)
      then show ?thesis using r prefail Inr by simp
    next
      case None
      obtain w2 es2 r2 where st: "assessAndApplyStaleness ctx p (resume \<noteq> None) si w = (w2, es2, r2)"
        by (cases "assessAndApplyStaleness ctx p (resume \<noteq> None) si w") auto
      from postD [OF post_stale [OF assms(1)] st] have l: "bw_locks w2 = bw_locks w" and e: "stale_post si r2 (envelope es2)"
        by auto
      have g: "gthen (assessAndApplyStaleness ctx p (resume \<noteq> None) si) (\<lambda>outcome. case outcome of
                        None \<Rightarrow> gret ()
                      | Some p1 \<Rightarrow> runMainQueuedPrdSession ctx opt si p1 resume) w = (w1, es, r)"
        using r Inr None by simp
      show ?thesis
      proof (cases r2)
        case (Inl msg)
        then show ?thesis using g st l e by (auto simp: gthen_def stale_post_def build_protocol_def)
      next
        case outcome: (Inr outcome)
        show ?thesis
        proof (cases outcome)
          case None
          then show ?thesis
            using g st l e outcome by (auto simp: gthen_def gret_def stale_post_def build_protocol_def)
        next
          case (Some p1)
          obtain w3 es3 r3 where m: "runMainQueuedPrdSession ctx opt si p1 resume w2 = (w3, es3, r3)"
            by (cases "runMainQueuedPrdSession ctx opt si p1 resume w2") auto
          have x: "w1 = w3" "es = es2 @ es3" "r = r3" using g st outcome Some m by (simp_all add: gthen_def)
          moreover have "envelope es2 = []" using e outcome Some by (simp add: stale_post_def)
          ultimately show ?thesis
            using main_session [OF assms(1) m] l by (auto simp: build_protocol_def)
        qed
      qed
    qed
  qed
qed

lemma build_envelope:
  assumes "plain_ctx ctx" and r: "runQueuedPrdBuild ctx opt sid p w = (w1, es, r)"
  shows "bw_locks w1 = fst (claimPrd (be_pid ctx) (q_id (bp_prd p)) (bw_locks w))"
    and "\<exists>fs. envelope es = BPrdStart (q_id (bp_prd p)) (fm_title (q_fm (bp_prd p))) # fs \<and>
           build_protocol (session_of ctx sid) (snd (claimPrd (be_pid ctx) (q_id (bp_prd p)) (bw_locks w))) r fs"
proof -
  let ?i = "q_id (bp_prd p)" and ?si = "session_of ctx sid"
  obtain ls ok where c: "claimPrd (be_pid ctx) ?i (bw_locks w) = (ls, ok)" by fastforce
  let ?w = "w\<lparr>bw_locks := ls\<rparr>"
  have "bw_locks w1 = ls \<and> (\<exists>fs. envelope es = BPrdStart ?i (fm_title (q_fm (bp_prd p))) # fs \<and> build_protocol ?si ok r fs)"
  proof (cases ok)
    case False
    have "skip_ending ?si {claimed_reason} (envelope (tl es))" "w1 = ?w" "r = Inr ()" "hd es = (None, BPrdStart ?i (fm_title (q_fm (bp_prd p))))" "es \<noteq> []"
      using r c False
      by (auto simp: runQueuedPrdBuild_def Let_def gthen_def emit_def claim_gen_def emitAlreadyClaimedSkip_def
          emit_skip_def skip_ending_def claimed_reason_def)
    then show ?thesis using False by (cases es) (auto simp: build_protocol_def)
  next
    case True
    obtain w2 es2 r2 where "(case getCompiledResumeFrontmatter (q_fm (bp_prd p)) of
               Inl missing \<Rightarrow> emitPreBuildFailureEvents ?si (missing_message missing)
             | Inr resume \<Rightarrow>
                 (case acceptance_error ctx p (resume \<noteq> None) of
                    Some msg \<Rightarrow> emitPreBuildFailureEvents ?si msg
                  | None \<Rightarrow>
                      gthen (assessAndApplyStaleness ctx p (resume \<noteq> None) ?si) (\<lambda>outcome. case outcome of
                        None \<Rightarrow> gret ()
                      | Some p1 \<Rightarrow> runMainQueuedPrdSession ctx opt ?si p1 resume))) ?w = (w2, es2, r2)" (is "?m = _")
      by (cases ?m) auto
    note a = this
    have "w1 = w2" "es = (None, BPrdStart ?i (fm_title (q_fm (bp_prd p)))) # es2" "r = r2"
      using r c True a by (simp_all add: runQueuedPrdBuild_def Let_def gthen_def emit_def claim_gen_def)
    with after_claim [OF assms(1) a] True show ?thesis by auto
  qed
  then show "bw_locks w1 = fst (claimPrd (be_pid ctx) ?i (bw_locks w))"
    "\<exists>fs. envelope es = BPrdStart ?i (fm_title (q_fm (bp_prd p))) # fs \<and>
           build_protocol ?si (snd (claimPrd (be_pid ctx) ?i (bw_locks w))) r fs"
    using c by auto
qed

section \<open>The exit code\<close>

lemma fold_envelope:
  assumes "\<And>e r. \<not> is_envelope e \<Longrightarrow> f e r = r"
  shows "fold (\<lambda>(_, e) r. f e r) es x = fold f (envelope es) x"
  by (induction es arbitrary: x) (auto simp: assms)

lemma last_complete_envelope:
  "last_complete es = fold (\<lambda>e r. case e of BPrdComplete st \<Rightarrow> Some st | _ \<Rightarrow> r) (envelope es) None"
  unfolding last_complete_def by (rule fold_envelope) (auto split: bevent.split)

lemma last_skip_envelope:
  "last_skip es = fold (\<lambda>e r. case e of BPrdSkip reason \<Rightarrow> Some reason | _ \<Rightarrow> r) (envelope es) None"
  unfolding last_skip_def by (rule fold_envelope) (auto split: bevent.split)

lemma last_of_skip:
  "envelope es = BPrdStart i t # fs \<Longrightarrow> skip_ending si reasons fs \<Longrightarrow>
   last_complete es = Some QSkipped \<and> (\<exists>reason \<in> reasons. last_skip es = Some reason)"
  by (auto simp: last_complete_envelope last_skip_envelope skip_ending_def)

lemma last_of_session:
  "envelope es = BPrdStart i t # fs \<Longrightarrow> session_ending si st fs \<Longrightarrow> last_complete es = Some st \<and> last_skip es = None"
  by (auto simp: last_complete_envelope last_skip_envelope session_ending_def)


definition started :: "queue_exec_env \<Rightarrow> build_prd \<Rightarrow> bool" where
  "started qe p \<longleftrightarrow> qe_landing_ok qe \<and> qe_autoMerge_ok qe \<and> qe_engine_ok qe \<and> qe_lookup qe = Some (Some p)"

lemma early_exit:
  "queue_exec qe ctx opt sid w = (w1, es, c) \<Longrightarrow> (\<nexists>p. started qe p) \<Longrightarrow> w1 = w \<and> es = [] \<and> c \<in> {1, 127}"
  by (auto simp: queue_exec_def started_def split: if_splits option.splits)

lemma exit_code_of_build:
  assumes "plain_ctx ctx" and "started qe p" and q: "queue_exec qe ctx opt sid w = (w1, es, c)"
  shows "bw_locks w1 = fst (claimPrd (be_pid ctx) (q_id (bp_prd p)) (bw_locks w))"
    and "if isPrdRunning (q_id (bp_prd p)) (bw_locks w) then c = 10 else c \<in> {0, 1, 2, 11}"
    and "last_complete es = Some st \<Longrightarrow> c = queueExecExitCode (Some st) (last_skip es)"
    and "last_complete es = None \<Longrightarrow> c = 1"
proof -
  obtain w2 es2 r where b: "runQueuedPrdBuild ctx opt sid p w = (w2, es2, r)" by (cases "runQueuedPrdBuild ctx opt sid p w") auto
  have x: "w1 = w2" "es = es2" "c = (case r of Inl _ \<Rightarrow> 1 | Inr _ \<Rightarrow> queueExecExitCode (last_complete es) (last_skip es))"
    using q b assms(2) by (auto simp: queue_exec_def started_def split: sum.splits)
  show "bw_locks w1 = fst (claimPrd (be_pid ctx) (q_id (bp_prd p)) (bw_locks w))"
    using build_envelope(1) [OF assms(1) b] x by simp
  from build_envelope(2) [OF assms(1) b] obtain fs where
    fs: "envelope es = BPrdStart (q_id (bp_prd p)) (fm_title (q_fm (bp_prd p))) # fs"
    and pr: "build_protocol (session_of ctx sid) (snd (claimPrd (be_pid ctx) (q_id (bp_prd p)) (bw_locks w))) r fs"
    using x by auto
  have ok: "snd (claimPrd (be_pid ctx) (q_id (bp_prd p)) (bw_locks w)) \<longleftrightarrow> \<not> isPrdRunning (q_id (bp_prd p)) (bw_locks w)"
    by (auto simp: claimPrd_def isPrdRunning_def split: option.splits)
  consider (claimed) "skip_ending (session_of ctx sid) {claimed_reason} fs" "isPrdRunning (q_id (bp_prd p)) (bw_locks w)" "r = Inr ()"
    | (threw) msg where "r = Inl msg" "fs = []" "\<not> isPrdRunning (q_id (bp_prd p)) (bw_locks w)"
    | (skipped) "skip_ending (session_of ctx sid) {''needs revision'', ''obsolete''} fs"
        "\<not> isPrdRunning (q_id (bp_prd p)) (bw_locks w)" "r = Inr ()"
    | (run) st where "session_ending (session_of ctx sid) st fs" "\<not> isPrdRunning (q_id (bp_prd p)) (bw_locks w)" "r = Inr ()"
    using pr ok by (auto simp: build_protocol_def split: if_splits sum.splits)
  then have c: "(if isPrdRunning (q_id (bp_prd p)) (bw_locks w) then c = 10 else c \<in> {0, 1, 2, 11}) \<and>
      (last_complete es = None \<longrightarrow> c = 1) \<and>
      (\<forall>st. last_complete es = Some st \<longrightarrow> c = queueExecExitCode (Some st) (last_skip es))"
  proof cases
    case claimed
    then show ?thesis using last_of_skip [OF fs claimed(1)] x
      by (auto simp: queueExecExitCode_def claimed_reason_def)
  next
    case threw
    then show ?thesis using fs x by (simp add: last_complete_envelope)
  next
    case skipped
    then show ?thesis using last_of_skip [OF fs skipped(1)] x by (auto simp: queueExecExitCode_def)
  next
    case run
    then show ?thesis using last_of_session [OF fs run(1)] x
      by (auto simp: queueExecExitCode_def split: terminal_status.split)
  qed
  show "if isPrdRunning (q_id (bp_prd p)) (bw_locks w) then c = 10 else c \<in> {0, 1, 2, 11}"
    "last_complete es = Some st \<Longrightarrow> c = queueExecExitCode (Some st) (last_skip es)"
    "last_complete es = None \<Longrightarrow> c = 1"
    using c by blast+
qed

lemma claimed_exit:
  "child_finalize env run (Some 10) False w md =
     \<lparr>xs_world = w, xs_markers = md, xs_status = Some ChildAlreadyClaimed, xs_reported = False\<rparr>"
  by (simp add: child_finalize_def classifyQueueChildExit_def finish_plain_def Let_def)

lemma code_exit:
  "child_finalize env run (Some c) False w md =
     settled_state env run (Some c) (exit_class env run (Some c) False md) w md"
  by (simp add: child_finalize_def settled_state_def exit_class_def operator_cancelled_def Let_def split: prod.splits)

section \<open>Properties\<close>

text \<open> C33. The session and queue events of a queued build, whatever agents and phases yield: it
  starts with \<open>queue:prd:start\<close>; when another process has the claim, a skip for that reason follows;
  otherwise either a skip (obsolete or to be revised) or a session that is started when the id did
  not come from the parent, ended once, and followed by \<open>queue:prd:complete\<close> with the status of the
  session as the last one. Only a throw during the staleness check leaves the start alone. The lock
  is taken exactly when it was free. \<close>
theorem session_protocol:
  assumes "plain_ctx ctx" and "runQueuedPrdBuild ctx opt sid p w = (w1, es, r)"
  shows "bw_locks w1 = fst (claimPrd (be_pid ctx) (q_id (bp_prd p)) (bw_locks w)) \<and>
    (\<exists>fs. envelope es = BPrdStart (q_id (bp_prd p)) (fm_title (q_fm (bp_prd p))) # fs \<and>
       build_protocol (session_of ctx sid) (\<not> isPrdRunning (q_id (bp_prd p)) (bw_locks w)) r fs)"
proof -
  have ok: "snd (claimPrd (be_pid ctx) (q_id (bp_prd p)) (bw_locks w)) = (\<not> isPrdRunning (q_id (bp_prd p)) (bw_locks w))"
    by (auto simp: claimPrd_def isPrdRunning_def split: option.splits)
  show ?thesis using build_envelope [OF assms] unfolding ok by blast
qed

text \<open> The exit code carries the outcome: a started child exits with 10 exactly when another
  process held the lock of the PRD, and otherwise the parent reads from the code the status of the
  last \<open>queue:prd:complete\<close>, or failed when there was none. \<close>
theorem exit_code_tells_outcome:
  assumes "plain_ctx ctx" and "started qe p" and "queue_exec qe ctx opt sid w = (w1, es, c)"
  shows "ce_status (classifyQueueChildExit (Some c) False aborted cancelled) =
    (if isPrdRunning (q_id (bp_prd p)) (bw_locks w) then ChildAlreadyClaimed
     else case last_complete es of Some st \<Rightarrow> child_status_of st | None \<Rightarrow> ChildFailed)"
proof (cases "isPrdRunning (q_id (bp_prd p)) (bw_locks w)")
  case True
  then show ?thesis using exit_code_of_build(2) [OF assms] by (simp add: classifyQueueChildExit_def)
next
  case False
  then have c: "c \<noteq> 10" using exit_code_of_build(2) [OF assms] by auto
  show ?thesis
  proof (cases "last_complete es")
    case None
    then show ?thesis using False exit_code_of_build(4) [OF assms] by (simp add: classifyQueueChildExit_def)
  next
    case (Some st)
    from exit_code_of_build(3) [OF assms Some] c False Some show ?thesis
      by (cases st) (auto simp: classifyQueueChildExit_def queueExecExitCode_def split: if_splits)
  qed
qed



definition ctx_demo :: "unit build_ctx" where
  "ctx_demo = \<lparr>be_pid = 5, be_uuid = ''u'', be_acceptance = (\<lambda>_. None), be_strip = (\<lambda>s. s), be_append = (\<lambda>s _. s),
     be_head = ''h'', be_assess = (\<lambda>_. ([BPrdStale StaleRevise (Some ''x'')], None)),
     be_intake = (\<lambda>_. ([], Inr (''# T'', ()))), be_write = None, be_commit = None, be_stacking = False,
     be_stack = Inl ''no'', be_provider = None, be_resolveRef = (\<lambda>_. None), be_trunkSync = False,
     be_currentBranch = Inr ''main'', be_trunk = Inr ''main'', be_sync = (\<lambda>_. Inl ''no''),
     be_compile = (\<lambda>_ _. ([BPhaseEnd False], None)), be_build = (\<lambda>_. ([BPhaseEnd True], None)),
     be_resume = (\<lambda>_. ([], None))\<rparr>"

definition prd_demo :: build_prd where
  "prd_demo = \<lparr>bp_prd = \<lparr>q_id = ''a'', q_loc = RootDir, q_fm = plain_fm ''t''\<rparr>, bp_content = ''c'', bp_lastCommit = ''g''\<rparr>"

definition opts_demo :: build_opts where
  "opts_demo = \<lparr>bo_name = None, bo_landing = None, bo_autoMerge = None\<rparr>"

definition qe_demo :: queue_exec_env where
  "qe_demo = \<lparr>qe_landing_ok = True, qe_autoMerge_ok = True, qe_engine_ok = True, qe_lookup = Some (Some prd_demo)\<rparr>"

definition bw_demo :: bworld where
  "bw_demo = \<lparr>bw_locks = [], bw_file = None, bw_commits = []\<rparr>"

lemma demo_started: "plain_ctx ctx_demo" "started qe_demo prd_demo" "q_id (bp_prd prd_demo) = ''a''"
  by (simp_all add: plain_ctx_def ctx_demo_def own_events_def started_def qe_demo_def prd_demo_def)

theorem session_protocol_witness:
  "\<exists>w1 es r fs. runQueuedPrdBuild ctx_demo opts_demo (Some ''s'') prd_demo bw_demo = (w1, es, r) \<and>
     envelope es = BPrdStart ''a'' ''t'' # fs \<and> build_protocol \<lparr>si_id = ''s'', si_injected = True\<rparr> True r fs"
proof -
  obtain w1 es r where b: "runQueuedPrdBuild ctx_demo opts_demo (Some ''s'') prd_demo bw_demo = (w1, es, r)"
    by (cases "runQueuedPrdBuild ctx_demo opts_demo (Some ''s'') prd_demo bw_demo") auto
  with session_protocol [OF demo_started(1) b] show ?thesis
    by (simp add: demo_started(3) bw_demo_def isPrdRunning_def session_of_def)
       (simp add: prd_demo_def plain_fm_def)
qed

theorem exit_code_tells_outcome_witness:
  "\<exists>w1 es c. queue_exec qe_demo ctx_demo opts_demo (Some ''s'') (bw_demo\<lparr>bw_locks := [(''a'', ''9'')]\<rparr>) = (w1, es, c) \<and>
     ce_status (classifyQueueChildExit (Some c) False False False) = ChildAlreadyClaimed"
proof -
  let ?w = "bw_demo\<lparr>bw_locks := [(''a'', ''9'')]\<rparr>"
  obtain w1 es c where q: "queue_exec qe_demo ctx_demo opts_demo (Some ''s'') ?w = (w1, es, c)"
    by (cases "queue_exec qe_demo ctx_demo opts_demo (Some ''s'') ?w") auto
  with exit_code_tells_outcome [OF demo_started(1,2) q, of False False] show ?thesis
    by (simp add: demo_started(3) isPrdRunning_def)
qed


text \<open>A child that ends before its claim (a bad flag, a profile that does not load, the PRD not in the
  queue any more) frees the lock of whoever has it.\<close>

lemma early_exit_frees_foreign_lock:
  assumes "\<nexists>p. started qe p" and "queue_exec qe ctx opt sid w = (w1, es, c)"
    and "validatePrdId (cr_prdId run)" and "\<not> unsafePrdIdReason (cr_prdId run)"
    and "xe_release_ok env" and "fe_release_ok (xe_fin env)" and "sidecars_keep_free env (cr_prdId run)"
  shows "\<not> isPrdRunning (cr_prdId run) (locks_of (xs_world (child_finalize env run (Some c) False v md)))"
proof -
  have "Some c \<noteq> Some 10" using early_exit [OF assms(2,1)] by auto
  from settled_state_frees [OF assms(3-7) this] show ?thesis by (simp add: code_exit)
qed

text \<open>A PRD that another process has completed and removed in the meantime (exit code 127) is
  recorded as failed.\<close>

definition finished_world :: world where
  "finished_world = demo_world\<lparr>w_disk := (w_disk demo_world)\<lparr>d_root := Some [], d_locks := [],
     d_completions := Json [(''a'', \<lparr>co_prdId = ''a'', co_status = CCompleted, co_artifactAvailable = True,
       co_artifactBranch = Some ''b'', co_completedAt = ''t1'', co_updatedAt = ''t1''\<rparr>)]\<rparr>\<rparr>"

lemma finished_elsewhere_recorded_failed:
  "map_option co_status (getTerminalCompletion ''a'' finished_world) = Some CCompleted \<and>
   map_option co_status (getTerminalCompletion ''a''
     (xs_world (child_finalize exit_demo run_demo (Some 127) False finished_world \<lparr>md_unsafe = False, md_markers = None\<rparr>))) =
     Some CFailed"
  by code_simp

text \<open>The text intake makes starts with its title: written over the file, it has no frontmatter any
  more, and the queue does not load it.\<close>

lemma revised_prd_is_unreadable:
  assumes "be_assess ctx (be_strip ctx (bp_content p)) = (es1, None)"
    and "stale_result es1 = (StaleRevise, Some t)" and "t \<noteq> []"
    and "be_intake ctx (trimEnd (be_strip ctx t)) = (es2, Inr (body, inventory))"
    and "trimEnd (be_append ctx body inventory) = CHR ''#'' # cs0" and "be_write ctx = None"
    and "bp_lastCommit p \<noteq> []" and "bp_lastCommit p \<noteq> be_head ctx"
  shows "\<exists>w1 es p1 f. assessAndApplyStaleness ctx p False si w = (w1, es, Inr (Some p1)) \<and>
    bw_file w1 = Some f \<and> parseFrontmatter f = None"
  using assms
  by (cases "be_commit ctx")
     (simp_all add: assessAndApplyStaleness_def assessPrdStaleness_def gthen_def run_stream_def gret_def
      applyStaleRevision_def extractRevisionInventory_def write_revision_def commitStaleRevision_def Let_def
      parseFrontmatter_def split_frontmatter_def)

text \<open>When the staleness assessor throws, nothing ends the session the parent has announced.\<close>

lemma assessor_throw_leaves_session_open:
  assumes "be_assess ctx (be_strip ctx (bp_content p)) = (es1, Some msg)" and "own_events es1"
    and "bp_lastCommit p \<noteq> []" and "bp_lastCommit p \<noteq> be_head ctx" and "be_acceptance ctx (bp_content p) = None"
    and "getCompiledResumeFrontmatter (q_fm (bp_prd p)) = Inr None" and "\<not> isPrdRunning (q_id (bp_prd p)) (bw_locks w)"
  shows "\<exists>w1 es. runQueuedPrdBuild ctx opt (Some s) p w = (w1, es, Inl msg) \<and>
    envelope es = [BPrdStart (q_id (bp_prd p)) (fm_title (q_fm (bp_prd p)))]"
  using assms
  by (simp add: runQueuedPrdBuild_def Let_def gthen_def emit_def claim_gen_def claimPrd_def isPrdRunning_def
      acceptance_error_def assessAndApplyStaleness_def assessPrdStaleness_def run_stream_def own_events_def)

end
