(* ===== verification/Evaluation.thy ===== *)
theory Evaluation
  imports Frontmatter
begin

text \<open>
  Applying the verdicts of an evaluator to the candidate changes of a worktree
  (\<open>evaluation/apply.ts\<close>, \<open>evaluation/issue-outcomes.ts\<close>): the snapshot of the candidates with their
  hunks, the check that the verdicts cover every candidate exactly once, staging what is accepted
  and discarding the rest, and putting everything back when that fails. The lemmas show that the
  check accepts exactly the complete verdict sets, what is in the index and in the worktree
  afterwards, and that a failure restores the snapshot.
\<close>

section \<open>Paths\<close>

text \<open>\<open>posix.normalize\<close> of a relative path without \<open>..\<close>.\<close>

definition to_slash :: "string \<Rightarrow> string" where
  "to_slash = map (\<lambda>c. if c = bs then CHR ''/'' else c)"

definition posix_normalize :: "string \<Rightarrow> string" where
  "posix_normalize s =
     (let segs = filter (\<lambda>p. p \<noteq> [] \<and> p \<noteq> ''.'') (split_on (CHR ''/'') s);
          trailing = (s \<noteq> [] \<and> last s = CHR ''/'')
      in if segs = [] then (if trailing then ''./'' else ''.'')
         else join ''/'' segs @ (if trailing then ''/'' else []))"

definition is_letter :: "char \<Rightarrow> bool" where
  "is_letter c \<longleftrightarrow> (65 \<le> code c \<and> code c \<le> 90) \<or> (97 \<le> code c \<and> code c \<le> 122)"

definition win32_absolute :: "string \<Rightarrow> bool" where
  "win32_absolute s \<longleftrightarrow>
     (case s of
        [] \<Rightarrow> False
      | c # cs \<Rightarrow> c = CHR ''/'' \<or> c = bs \<or>
          (is_letter c \<and> length cs \<ge> 2 \<and> hd cs = CHR '':'' \<and> (hd (tl cs) = CHR ''/'' \<or> hd (tl cs) = bs)))"

datatype ev_error =
    EmptyPath | NulInPath | AbsolutePath | EscapingPath
  | UnknownFile string | InvalidAction string | InvalidHunk string | DuplicateVerdict string "int option"
  | MissingCoverage string | MixedVerdicts string | DuplicateFileVerdict string | NoTextHunks string
  | HunkOutOfRange string int | MissingHunk string nat
  | StagedDrift | CandidateDrift | UntrackedDrift string | DecisionMissing string | GitFailed

definition validateEvaluationPath :: "string \<Rightarrow> (ev_error, string) result" where
  "validateEvaluationPath file =
     (if trim file = [] then Inl EmptyPath
      else if CHR 0x00 \<in> set file then Inl NulInPath
      else (let slashPath = to_slash file in
            if hd slashPath = CHR ''/'' \<or> win32_absolute file then Inl AbsolutePath
            else if ''..'' \<in> set (split_on (CHR ''/'') slashPath) then Inl EscapingPath
            else (let normalized = posix_normalize slashPath in
                  if normalized = ''.'' then Inl EscapingPath else Inr normalized)))"

text \<open>\<open>repoAbsolutePath\<close>: a path below the repository.\<close>

definition repo_path_ok :: "string \<Rightarrow> bool" where
  "repo_path_ok p \<longleftrightarrow> (case validateEvaluationPath p of Inl _ \<Rightarrow> False | Inr n \<Rightarrow> n \<noteq> ''./'')"

definition isInternalEvaluationArtifactPath :: "string \<Rightarrow> bool" where
  "isInternalEvaluationArtifactPath p \<longleftrightarrow> p = ''.eforge'' \<or> take 8 p = ''.eforge/''"

section \<open>Hunks\<close>

record hunk =
  hk_index :: nat
  hk_header :: string
  hk_oldStart :: nat
  hk_oldLines :: nat
  hk_newStart :: nat
  hk_newLines :: nat
  hk_diff :: string

text \<open>The lines of a text with their terminators, as \<open>^\<close> sees them with the flag \<open>m\<close>.\<close>

fun cut_lines :: "string \<Rightarrow> string list" where
  "cut_lines [] = []"
| "cut_lines (c # cs) =
     (if c = nl \<or> code c = 13 then [c] # cut_lines cs
      else case cut_lines cs of
             [] \<Rightarrow> [[c]]
           | l # ls \<Rightarrow> (c # l) # ls)"

text \<open>\<open>(\d+)(?:,(\d+))?\<close>: the two numbers (the second defaults to 1) and what follows.\<close>

definition take_number :: "string \<Rightarrow> (nat \<times> string) option" where
  "take_number s = (case takeWhile is_digit s of [] \<Rightarrow> None | ds \<Rightarrow> Some (dec_val ds, dropWhile is_digit s))"

definition take_range :: "string \<Rightarrow> (nat \<times> nat \<times> string) option" where
  "take_range s =
     (case take_number s of
        None \<Rightarrow> None
      | Some (a, r) \<Rightarrow>
          (case r of
             [] \<Rightarrow> Some (a, 1, r)
           | c # r' \<Rightarrow>
               if c = CHR '','' then (case take_number r' of None \<Rightarrow> Some (a, 1, r) | Some (b, r2) \<Rightarrow> Some (a, b, r2))
               else Some (a, 1, r)))"

text \<open>\<open>/^@@ -(\d+)(?:,(\d+))? \+(\d+)(?:,(\d+))? @@.*$/\<close>.\<close>

definition hunk_match :: "string \<Rightarrow> (nat \<times> nat \<times> nat \<times> nat) option" where
  "hunk_match line =
     (if take 4 line \<noteq> ''@@ -'' then None
      else case take_range (drop 4 line) of
             None \<Rightarrow> None
           | Some (a, b, r) \<Rightarrow>
               if take 2 r \<noteq> '' +'' then None
               else case take_range (drop 2 r) of
                      None \<Rightarrow> None
                    | Some (c, d, r2) \<Rightarrow> if take 3 r2 = '' @@'' then Some (a, b, c, d) else None)"

text \<open>The lines up to the next header, and the rest.\<close>

definition is_hunk :: "string \<Rightarrow> bool" where
  "is_hunk line \<longleftrightarrow> hunk_match line \<noteq> None"

function hunks_from :: "nat \<Rightarrow> string list \<Rightarrow> hunk list" where
  "hunks_from n [] = []"
| "hunks_from n (l # ls) =
     (let body = concat (l # takeWhile (\<lambda>x. \<not> is_hunk x) ls) in
      case hunk_match l of
        None \<Rightarrow> []
      | Some (a, b, c, d) \<Rightarrow>
          \<lparr>hk_index = n, hk_header = takeWhile (\<lambda>x. x \<noteq> nl) body, hk_oldStart = a, hk_oldLines = b,
           hk_newStart = c, hk_newLines = d, hk_diff = body\<rparr> # hunks_from (n + 1) (dropWhile (\<lambda>x. \<not> is_hunk x) ls))"
  by pat_completeness auto
termination
  by (relation "measure (\<lambda>(_, ls). length ls)") (auto simp: le_imp_less_Suc length_dropWhile_le)

definition parseHunks :: "string \<Rightarrow> string \<times> hunk list" where
  "parseHunks diff =
     (let ls = cut_lines diff
      in (concat (takeWhile (\<lambda>x. \<not> is_hunk x) ls), hunks_from 1 (dropWhile (\<lambda>x. \<not> is_hunk x) ls)))"

lemma concat_cut_lines [simp]: "concat (cut_lines s) = s"
  by (induction s rule: cut_lines.induct) (auto split: list.splits)

lemma hunks_from_concat:
  "ls = [] \<or> is_hunk (hd ls) \<Longrightarrow> concat (map hk_diff (hunks_from n ls)) = concat ls"
proof (induction n ls rule: hunks_from.induct)
  case (2 n l ls)
  then obtain a b c d where m: "hunk_match l = Some (a, b, c, d)" by (auto simp: is_hunk_def)
  let ?r = "dropWhile (\<lambda>x. \<not> is_hunk x) ls"
  have "?r = [] \<or> is_hunk (hd ?r)" using hd_dropWhile by blast
  then have "concat (map hk_diff (hunks_from (n + 1) ?r)) = concat ?r"
    using "2.IH" [OF refl m] by simp
  then show ?case
    using m by (simp add: Let_def) (metis concat_append takeWhile_dropWhile_id)
qed simp

lemma hunks_from_index: "map hk_index (hunks_from n ls) = [n..<n + length (hunks_from n ls)]"
proof (induction n ls rule: hunks_from.induct)
  case (2 n l ls)
  show ?case
  proof (cases "hunk_match l")
    case (Some m)
    then show ?thesis using "2.IH" [OF refl Some] by (cases m) (auto simp: Let_def upt_rec)
  qed (simp add: Let_def)
qed simp

text \<open>No line is lost: the header and the hunks are the diff.\<close>

lemma parseHunks_concat: "parseHunks diff = (header, hunks) \<Longrightarrow> header @ concat (map hk_diff hunks) = diff"
proof -
  assume p: "parseHunks diff = (header, hunks)"
  let ?r = "dropWhile (\<lambda>x. \<not> is_hunk x) (cut_lines diff)"
  have "?r = [] \<or> is_hunk (hd ?r)" using hd_dropWhile by blast
  then have "concat (map hk_diff hunks) = concat ?r" and "header = concat (takeWhile (\<lambda>x. \<not> is_hunk x) (cut_lines diff))"
    using p hunks_from_concat by (auto simp: parseHunks_def Let_def)
  then show ?thesis by (metis concat_append concat_cut_lines takeWhile_dropWhile_id)
qed

lemma parseHunks_index: "parseHunks diff = (header, hunks) \<Longrightarrow> map hk_index hunks = [1..<1 + length hunks]"
  using hunks_from_index [of 1 "dropWhile (\<lambda>x. \<not> is_hunk x) (cut_lines diff)"]
  by (simp add: parseHunks_def Let_def)

section \<open>Candidates and verdicts\<close>

datatype entry = RegularFile bool string | SymbolicLink string

text \<open>A candidate; \<open>cf_entry\<close> is the content captured of an untracked one (without its mode).\<close>

datatype candidate_status =
    Modified | Added | Deleted | Renamed | Copied | Typechange | Unmerged | UnknownStatus | Untracked

definition statusFromCode :: "string \<Rightarrow> candidate_status" where
  "statusFromCode s =
     (case s of
        [] \<Rightarrow> UnknownStatus
      | c # _ \<Rightarrow>
          if c = CHR ''M'' then Modified else if c = CHR ''A'' then Added else if c = CHR ''D'' then Deleted
          else if c = CHR ''R'' then Renamed else if c = CHR ''C'' then Copied else if c = CHR ''T'' then Typechange
          else if c = CHR ''U'' then Unmerged else UnknownStatus)"

record candidate =
  cf_path :: string
  cf_oldPath :: "string option"
  cf_status :: candidate_status
  cf_statusCode :: string
  cf_header :: string
  cf_hunks :: "hunk list"
  cf_isBinary :: bool
  cf_isUntracked :: bool
  cf_isRenameOnly :: bool
  cf_requiresFileVerdict :: bool
  cf_entry :: "entry option"

datatype ev_action = Accept | Reject | Review | OtherAction string

datatype issue_outcome =
    Resolved | FalsePositive | Unresolved | UnresolvedBlocking | UnresolvedNonblocking | NeedsHumanReview
  | AcceptedRisk | SplitToFollowup

record ev_verdict =
  vd_file :: string
  vd_hunk :: "int option"
  vd_action :: ev_action
  vd_outcome :: "issue_outcome option"

definition normalizeEvaluationIssueOutcome :: "ev_verdict \<Rightarrow> issue_outcome" where
  "normalizeEvaluationIssueOutcome v =
     (case vd_outcome v of Some x \<Rightarrow> x | None \<Rightarrow> if vd_action v = Accept then Resolved else Unresolved)"

definition isBlockingEvaluationIssueOutcome :: "issue_outcome \<Rightarrow> bool" where
  "isBlockingEvaluationIssueOutcome x \<longleftrightarrow> x = Unresolved \<or> x = UnresolvedBlocking \<or> x = NeedsHumanReview"

record outcome_counts =
  oc_resolved :: nat
  oc_falsePositive :: nat
  oc_unresolved :: nat
  oc_unresolvedNonBlocking :: nat
  oc_needsHumanReview :: nat
  oc_acceptedRisk :: nat
  oc_splitToFollowup :: nat
  oc_blocking :: nat

definition no_outcomes :: outcome_counts where
  "no_outcomes = \<lparr>oc_resolved = 0, oc_falsePositive = 0, oc_unresolved = 0, oc_unresolvedNonBlocking = 0,
     oc_needsHumanReview = 0, oc_acceptedRisk = 0, oc_splitToFollowup = 0, oc_blocking = 0\<rparr>"

definition count_outcome :: "issue_outcome \<Rightarrow> outcome_counts \<Rightarrow> outcome_counts" where
  "count_outcome x n =
     (let n1 = (case x of
          Resolved \<Rightarrow> n\<lparr>oc_resolved := oc_resolved n + 1\<rparr>
        | FalsePositive \<Rightarrow> n\<lparr>oc_falsePositive := oc_falsePositive n + 1\<rparr>
        | Unresolved \<Rightarrow> n\<lparr>oc_unresolved := oc_unresolved n + 1\<rparr>
        | UnresolvedBlocking \<Rightarrow> n\<lparr>oc_unresolved := oc_unresolved n + 1\<rparr>
        | UnresolvedNonblocking \<Rightarrow> n\<lparr>oc_unresolvedNonBlocking := oc_unresolvedNonBlocking n + 1\<rparr>
        | NeedsHumanReview \<Rightarrow> n\<lparr>oc_needsHumanReview := oc_needsHumanReview n + 1\<rparr>
        | AcceptedRisk \<Rightarrow> n\<lparr>oc_acceptedRisk := oc_acceptedRisk n + 1\<rparr>
        | SplitToFollowup \<Rightarrow> n\<lparr>oc_splitToFollowup := oc_splitToFollowup n + 1\<rparr>)
      in if isBlockingEvaluationIssueOutcome x then n1\<lparr>oc_blocking := oc_blocking n1 + 1\<rparr> else n1)"

definition countEvaluationIssueOutcomes :: "ev_verdict list \<Rightarrow> outcome_counts" where
  "countEvaluationIssueOutcomes vs = fold (\<lambda>v. count_outcome (normalizeEvaluationIssueOutcome v)) vs no_outcomes"

section \<open>The check of the verdicts\<close>

text \<open>The first loop: every verdict names a candidate, has a known action, a positive hunk and is the
  first for its file and hunk. The result lists the verdicts by file, with normalised paths.\<close>

fun collect_verdicts ::
    "candidate list \<Rightarrow> (string \<times> int option) list \<Rightarrow> (string \<times> ev_verdict list) list \<Rightarrow> ev_verdict list \<Rightarrow>
     (ev_error, (string \<times> ev_verdict list) list) result" where
  "collect_verdicts files seen byFile [] = Inr byFile"
| "collect_verdicts files seen byFile (raw # vs) =
     (case validateEvaluationPath (vd_file raw) of
        Inl e \<Rightarrow> Inl e
      | Inr file \<Rightarrow>
          if file \<notin> cf_path ` set files then Inl (UnknownFile file)
          else if vd_action raw \<notin> {Accept, Reject, Review} then Inl (InvalidAction file)
          else if (case vd_hunk raw of None \<Rightarrow> False | Some h \<Rightarrow> h < 1) then Inl (InvalidHunk file)
          else if (file, vd_hunk raw) \<in> set seen then Inl (DuplicateVerdict file (vd_hunk raw))
          else (let v = raw\<lparr>vd_file := file\<rparr>; old = (case dget byFile file of Some l \<Rightarrow> l | None \<Rightarrow> [])
                in collect_verdicts files ((file, vd_hunk raw) # seen) (dput file (old @ [v]) byFile) vs))"

datatype ev_decision = DecideFile candidate ev_verdict | DecideHunks candidate "(nat \<times> ev_verdict) list"

record file_summary =
  fs_file :: string
  fs_hunkMode :: bool
  fs_action :: "ev_action option"
  fs_outcome :: "issue_outcome option"
  fs_acceptedHunks :: "nat list"
  fs_rejectedHunks :: "nat list"
  fs_reviewHunks :: "nat list"
  fs_blockingHunks :: "nat list"

record ev_summary =
  es_accepted :: nat
  es_rejected :: nat
  es_review :: nat
  es_fileLevel :: nat
  es_hunkLevel :: nat
  es_files :: "file_summary list"

definition count_action :: "ev_action \<Rightarrow> ev_summary \<Rightarrow> ev_summary" where
  "count_action a s =
     (if a = Accept then s\<lparr>es_accepted := es_accepted s + 1\<rparr>
      else if a = Reject then s\<lparr>es_rejected := es_rejected s + 1\<rparr>
      else s\<lparr>es_rejected := es_rejected s + 1, es_review := es_review s + 1\<rparr>)"

text \<open>\<open>verdictsByHunk\<close>, with the range check of each verdict.\<close>

fun by_hunk :: "candidate \<Rightarrow> (nat \<times> ev_verdict) list \<Rightarrow> ev_verdict list \<Rightarrow> (ev_error, (nat \<times> ev_verdict) list) result" where
  "by_hunk f m [] = Inr m"
| "by_hunk f m (v # vs) =
     (case vd_hunk v of
        None \<Rightarrow> by_hunk f m vs
      | Some h \<Rightarrow>
          if h > int (length (cf_hunks f)) then Inl (HunkOutOfRange (cf_path f) h)
          else by_hunk f (dput (nat h) v m) vs)"

definition hunk_list :: "(ev_action \<Rightarrow> bool) \<Rightarrow> candidate \<Rightarrow> (nat \<times> ev_verdict) list \<Rightarrow> nat list" where
  "hunk_list P f m =
     filter (\<lambda>i. case dget m i of None \<Rightarrow> False | Some v \<Rightarrow> P (vd_action v)) (map hk_index (cf_hunks f))"

definition blocking_hunks :: "candidate \<Rightarrow> (nat \<times> ev_verdict) list \<Rightarrow> nat list" where
  "blocking_hunks f m =
     filter (\<lambda>i. case dget m i of None \<Rightarrow> False
                   | Some v \<Rightarrow> isBlockingEvaluationIssueOutcome (normalizeEvaluationIssueOutcome v)) (map hk_index (cf_hunks f))"

definition count_hunks :: "candidate \<Rightarrow> (nat \<times> ev_verdict) list \<Rightarrow> ev_summary \<Rightarrow> ev_summary" where
  "count_hunks f m s =
     fold (\<lambda>h s. case dget m (hk_index h) of None \<Rightarrow> s | Some v \<Rightarrow> count_action (vd_action v) s) (cf_hunks f) s"

definition decide_file ::
    "(string \<times> ev_verdict list) list \<Rightarrow> candidate \<Rightarrow> ev_summary \<Rightarrow> (ev_error, ev_decision \<times> ev_summary) result" where
  "decide_file byFile f s =
     (let vs = (case dget byFile (cf_path f) of Some l \<Rightarrow> l | None \<Rightarrow> []);
          whole = filter (\<lambda>v. vd_hunk v = None) vs; hunked = filter (\<lambda>v. vd_hunk v \<noteq> None) vs
      in if vs = [] then Inl (MissingCoverage (cf_path f))
         else if whole \<noteq> [] \<and> hunked \<noteq> [] then Inl (MixedVerdicts (cf_path f))
         else if whole \<noteq> [] then
           (if length whole \<noteq> 1 then Inl (DuplicateFileVerdict (cf_path f))
            else (let v = hd whole; s1 = count_action (vd_action v) s in
              Inr (DecideFile f v, s1\<lparr>es_fileLevel := es_fileLevel s1 + 1,
                es_files := es_files s1 @ [\<lparr>fs_file = cf_path f, fs_hunkMode = False, fs_action = Some (vd_action v),
                  fs_outcome = vd_outcome v, fs_acceptedHunks = [], fs_rejectedHunks = [], fs_reviewHunks = [],
                  fs_blockingHunks =
                    (if isBlockingEvaluationIssueOutcome (normalizeEvaluationIssueOutcome v) then [1] else [])\<rparr>]\<rparr>)))
         else if cf_hunks f = [] then Inl (NoTextHunks (cf_path f))
         else case by_hunk f [] hunked of
                Inl e \<Rightarrow> Inl e
              | Inr m \<Rightarrow>
                  (case List.find (\<lambda>h. dget m (hk_index h) = None) (cf_hunks f) of
                     Some h \<Rightarrow> Inl (MissingHunk (cf_path f) (hk_index h))
                   | None \<Rightarrow>
                       (let s1 = count_hunks f m s in
                        Inr (DecideHunks f m, s1\<lparr>es_hunkLevel := es_hunkLevel s1 + length hunked,
                          es_files := es_files s1 @ [\<lparr>fs_file = cf_path f, fs_hunkMode = True, fs_action = None,
                            fs_outcome = None, fs_acceptedHunks = hunk_list (\<lambda>a. a = Accept) f m,
                            fs_rejectedHunks = hunk_list (\<lambda>a. a = Reject) f m,
                            fs_reviewHunks = hunk_list (\<lambda>a. a \<noteq> Accept \<and> a \<noteq> Reject) f m,
                            fs_blockingHunks = blocking_hunks f m\<rparr>]\<rparr>))))"

fun decide_files ::
    "(string \<times> ev_verdict list) list \<Rightarrow> candidate list \<Rightarrow> (string \<times> ev_decision) list \<Rightarrow> ev_summary \<Rightarrow>
     (ev_error, (string \<times> ev_decision) list \<times> ev_summary) result" where
  "decide_files byFile [] ds s = Inr (ds, s)"
| "decide_files byFile (f # fs) ds s =
     (case decide_file byFile f s of
        Inl e \<Rightarrow> Inl e
      | Inr (d, s1) \<Rightarrow> decide_files byFile fs (dput (cf_path f) d ds) s1)"

definition no_summary :: ev_summary where
  "no_summary = \<lparr>es_accepted = 0, es_rejected = 0, es_review = 0, es_fileLevel = 0, es_hunkLevel = 0, es_files = []\<rparr>"

definition validateEvaluationVerdicts ::
    "candidate list \<Rightarrow> ev_verdict list \<Rightarrow> (ev_error, (string \<times> ev_decision) list \<times> ev_summary) result" where
  "validateEvaluationVerdicts files vs =
     (case collect_verdicts files [] [] vs of
        Inl e \<Rightarrow> Inl e
      | Inr byFile \<Rightarrow> decide_files byFile files [] no_summary)"


section \<open>What the check accepts\<close>

definition names_candidate :: "candidate list \<Rightarrow> ev_verdict \<Rightarrow> bool" where
  "names_candidate files v \<longleftrightarrow> (\<exists>f \<in> set files. validateEvaluationPath (vd_file v) = Inr (cf_path f))"

definition verdict_key :: "ev_verdict \<Rightarrow> (ev_error, string) result \<times> int option" where
  "verdict_key v = (validateEvaluationPath (vd_file v), vd_hunk v)"

definition well_formed_verdict :: "ev_verdict \<Rightarrow> bool" where
  "well_formed_verdict v \<longleftrightarrow>
     vd_action v \<in> {Accept, Reject, Review} \<and> (case vd_hunk v of None \<Rightarrow> True | Some h \<Rightarrow> 1 \<le> h)"

definition verdicts_of :: "ev_verdict list \<Rightarrow> string \<Rightarrow> ev_verdict list" where
  "verdicts_of vs p = filter (\<lambda>v. validateEvaluationPath (vd_file v) = Inr p) vs"

text \<open>A candidate is covered by one verdict for the whole file or by one for each of its hunks.\<close>

definition covered :: "ev_verdict list \<Rightarrow> candidate \<Rightarrow> bool" where
  "covered vs f \<longleftrightarrow>
     map vd_hunk (verdicts_of vs (cf_path f)) = [None] \<or>
     (cf_hunks f \<noteq> [] \<and>
      set (map vd_hunk (verdicts_of vs (cf_path f))) = (\<lambda>h. Some (int (hk_index h))) ` set (cf_hunks f))"

definition complete_verdicts :: "candidate list \<Rightarrow> ev_verdict list \<Rightarrow> bool" where
  "complete_verdicts files vs \<longleftrightarrow>
     (\<forall>v \<in> set vs. names_candidate files v \<and> well_formed_verdict v) \<and> distinct (map verdict_key vs) \<and>
     (\<forall>f \<in> set files. covered vs f)"

definition hunks_numbered :: "candidate \<Rightarrow> bool" where
  "hunks_numbered f \<longleftrightarrow> map hk_index (cf_hunks f) = [1..<1 + length (cf_hunks f)]"

definition listed :: "(string \<times> ev_verdict list) list \<Rightarrow> string \<Rightarrow> ev_verdict list" where
  "listed m p = (case dget m p of Some l \<Rightarrow> l | None \<Rightarrow> [])"

lemma listed_dput: "listed (dput p l m) q = (if q = p then l else listed m q)"
  by (simp add: listed_def)

lemma collect_Inr:
  "(\<exists>r. collect_verdicts files seen m vs = Inr r) \<longleftrightarrow>
     (\<forall>v \<in> set vs. names_candidate files v \<and> well_formed_verdict v) \<and> distinct (map verdict_key vs) \<and>
     verdict_key ` set vs \<inter> (\<lambda>(p, h). (Inr p, h)) ` set seen = {}"
proof (induction files seen m vs rule: collect_verdicts.induct)
  case (2 files seen byFile raw vs)
  show ?case
  proof (cases "validateEvaluationPath (vd_file raw)")
    case (Inl e)
    then show ?thesis by (auto simp: names_candidate_def)
  next
    case (Inr p)
    let ?k = "(p, vd_hunk raw)"
    have key: "verdict_key raw = (Inr p, vd_hunk raw)" using Inr by (simp add: verdict_key_def)
    have nc: "names_candidate files raw \<longleftrightarrow> p \<in> cf_path ` set files" using Inr by (auto simp: names_candidate_def)
    have wf: "well_formed_verdict raw \<longleftrightarrow> vd_action raw \<in> {Accept, Reject, Review} \<and>
        \<not> (case vd_hunk raw of None \<Rightarrow> False | Some h \<Rightarrow> h < 1)"
      by (auto simp: well_formed_verdict_def split: option.splits)
    have seen: "(Inr p, vd_hunk raw) \<in> (\<lambda>(p, h). (Inr p, h)) ` set seen \<longleftrightarrow> ?k \<in> set seen"
      by (force simp: image_iff)
    show ?thesis
    proof (cases "p \<in> cf_path ` set files \<and> vd_action raw \<in> {Accept, Reject, Review} \<and>
        \<not> (case vd_hunk raw of None \<Rightarrow> False | Some h \<Rightarrow> h < 1) \<and> ?k \<notin> set seen")
      case True
      let ?old = "case dget byFile p of Some l \<Rightarrow> l | None \<Rightarrow> []"
      have step: "collect_verdicts files seen byFile (raw # vs) =
          collect_verdicts files (?k # seen) (dput p (?old @ [raw\<lparr>vd_file := p\<rparr>]) byFile) vs"
        using True Inr by (simp add: Let_def)
      have ih: "(\<exists>r. collect_verdicts files (?k # seen) (dput p (?old @ [raw\<lparr>vd_file := p\<rparr>]) byFile) vs = Inr r) \<longleftrightarrow>
         (\<forall>v \<in> set vs. names_candidate files v \<and> well_formed_verdict v) \<and> distinct (map verdict_key vs) \<and>
         verdict_key ` set vs \<inter> (\<lambda>(p, h). (Inr p, h)) ` set (?k # seen) = {}"
        using "2.IH" Inr True by (simp add: Let_def)
      show ?thesis unfolding step ih using True nc wf key seen by auto
    next
      case False
      then have "\<not> (\<exists>r. collect_verdicts files seen byFile (raw # vs) = Inr r)" using Inr by (auto simp: Let_def)
      then show ?thesis using False nc wf key seen by auto
    qed
  qed
qed simp

lemma collect_lists:
  "collect_verdicts files seen m vs = Inr r \<Longrightarrow>
   listed r p = listed m p @ map (\<lambda>v. v\<lparr>vd_file := p\<rparr>) (verdicts_of vs p)"
proof (induction files seen m vs rule: collect_verdicts.induct)
  case (2 files seen byFile raw vs)
  then obtain q where q: "validateEvaluationPath (vd_file raw) = Inr q" by (auto split: sum.splits)
  have c: "collect_verdicts files ((q, vd_hunk raw) # seen) (dput q (listed byFile q @ [raw\<lparr>vd_file := q\<rparr>]) byFile) vs = Inr r"
    using "2.prems" q by (auto simp: listed_def Let_def split: if_splits)
  have "listed r p = listed (dput q (listed byFile q @ [raw\<lparr>vd_file := q\<rparr>]) byFile) p @
      map (\<lambda>v. v\<lparr>vd_file := p\<rparr>) (verdicts_of vs p)"
    using "2.IH" [OF q] "2.prems" q c by (auto simp: listed_def Let_def split: if_splits)
  then show ?case using q by (auto simp: listed_dput verdicts_of_def)
qed (simp add: verdicts_of_def)

lemma by_hunk_Inr:
  "\<forall>v \<in> set vs. \<exists>h. vd_hunk v = Some h \<and> 1 \<le> h \<Longrightarrow>
   (\<exists>r. by_hunk f m vs = Inr r) \<longleftrightarrow> (\<forall>v \<in> set vs. the (vd_hunk v) \<le> int (length (cf_hunks f)))"
  by (induction f m vs rule: by_hunk.induct) (auto split: if_splits)

lemma by_hunk_dom:
  "by_hunk f m vs = Inr r \<Longrightarrow> \<forall>v \<in> set vs. \<exists>h. vd_hunk v = Some h \<and> 1 \<le> h \<Longrightarrow>
   dget r i \<noteq> None \<longleftrightarrow> dget m i \<noteq> None \<or> Some (int i) \<in> vd_hunk ` set vs"
proof (induction f m vs rule: by_hunk.induct)
  case (2 f m v vs)
  then obtain h where h: "vd_hunk v = Some h" "1 \<le> h" by auto
  from "2.prems"(1) h(1) have le: "\<not> int (length (cf_hunks f)) < h" and b: "by_hunk f (dput (nat h) v m) vs = Inr r"
    by (simp_all split: if_splits)
  from "2.prems"(2) have rest: "\<forall>v \<in> set vs. \<exists>h. vd_hunk v = Some h \<and> 1 \<le> h" by simp
  have "dget r i \<noteq> None \<longleftrightarrow> dget (dput (nat h) v m) i \<noteq> None \<or> Some (int i) \<in> vd_hunk ` set vs"
    by (rule "2.IH"(2) [OF h(1) le b rest])
  moreover have "dget (dput (nat h) v m) i \<noteq> None \<longleftrightarrow> dget m i \<noteq> None \<or> Some (int i) = vd_hunk v"
    using h by auto
  ultimately show ?case by auto
qed simp

lemma numbered_set: "hunks_numbered f \<Longrightarrow> hk_index ` set (cf_hunks f) = {1..length (cf_hunks f)}"
  by (metis hunks_numbered_def atLeastLessThanSuc_atLeastAtMost list.set_map plus_1_eq_Suc set_upt)

lemma decide_file_ok:
  assumes "hunks_numbered f" and wf: "\<forall>v \<in> set (listed m (cf_path f)). well_formed_verdict v"
    and d: "distinct (map vd_hunk (listed m (cf_path f)))"
  shows "(\<exists>x. decide_file m f s = Inr x) \<longleftrightarrow>
    map vd_hunk (listed m (cf_path f)) = [None] \<or>
    (cf_hunks f \<noteq> [] \<and> set (map vd_hunk (listed m (cf_path f))) = (\<lambda>h. Some (int (hk_index h))) ` set (cf_hunks f))"
proof -
  define vs where "vs = listed m (cf_path f)"
  define whole where "whole = filter (\<lambda>v. vd_hunk v = None) vs"
  define hunked where "hunked = filter (\<lambda>v. vd_hunk v \<noteq> None) vs"
  note defs = decide_file_def Let_def listed_def [symmetric] vs_def [symmetric] whole_def [symmetric] hunked_def [symmetric]
  have idx: "(\<lambda>h. Some (int (hk_index h))) ` set (cf_hunks f) = (\<lambda>i. Some (int i)) ` {1..length (cf_hunks f)}"
    unfolding numbered_set [OF assms(1), symmetric] by (simp add: image_image)
  have d': "distinct (map vd_hunk vs)" and wf': "\<forall>v \<in> set vs. well_formed_verdict v" using d wf by (simp_all add: vs_def)
  have one: "length whole \<le> 1"
  proof -
    have "distinct (map vd_hunk whole)" using d' by (simp add: whole_def distinct_map_filter)
    moreover have "set (map vd_hunk whole) \<subseteq> {None}" by (auto simp: whole_def)
    ultimately show ?thesis
      by (metis card_mono distinct_card finite.emptyI finite_insert length_map is_singletonI is_singleton_altdef)
  qed
  consider (empty) "vs = []" | (mixed) "whole \<noteq> []" "hunked \<noteq> []" | (whole) "whole \<noteq> []" "hunked = []"
    | (hunks) "vs \<noteq> []" "whole = []" by blast
  then show ?thesis
  proof cases
    case empty
    then show ?thesis unfolding defs idx by (cases "cf_hunks f") auto
  next
    case mixed
    then have ne: "vs \<noteq> []" by (auto simp: whole_def)
    from mixed obtain v u where "v \<in> set vs" "vd_hunk v = None" "u \<in> set vs" "vd_hunk u \<noteq> None"
      by (auto simp: whole_def hunked_def filter_empty_conv)
    note w = this
    have "map vd_hunk vs \<noteq> [None]"
    proof
      assume "map vd_hunk vs = [None]"
      then have "set (map vd_hunk vs) = {None}" by simp
      with w(3,4) show False by (metis imageI list.set_map singletonD)
    qed
    moreover have "None \<in> set (map vd_hunk vs)" using w(1,2) by (metis imageI list.set_map)
    then have "set (map vd_hunk vs) \<noteq> (\<lambda>h. Some (int (hk_index h))) ` set (cf_hunks f)" by auto
    ultimately
    show ?thesis unfolding defs using mixed ne by simp
  next
    case whole
    then have eq: "whole = vs" by (auto simp: whole_def hunked_def filter_empty_conv filter_id_conv)
    obtain v where v: "vs = [v]" using one whole eq by (cases vs; cases "tl vs") auto
    then have "vd_hunk v = None" using eq by (auto simp: whole_def split: if_splits)
    then show ?thesis unfolding defs using whole v eq by auto
  next
    case hunks
    then have eq: "hunked = vs" and some: "\<forall>v \<in> set vs. \<exists>h. vd_hunk v = Some h \<and> 1 \<le> h"
      using wf' by (auto simp: whole_def hunked_def filter_empty_conv filter_id_conv well_formed_verdict_def split: option.splits)
    have n1: "map vd_hunk vs \<noteq> [None]" using hunks some by (cases vs) auto
    show ?thesis
    proof (cases "cf_hunks f = []")
      case True
      then show ?thesis unfolding defs using hunks n1 by auto
    next
      case False
      have sub: "(\<forall>v \<in> set vs. the (vd_hunk v) \<le> int (length (cf_hunks f))) \<longleftrightarrow>
          set (map vd_hunk vs) \<subseteq> (\<lambda>i. Some (int i)) ` {1..length (cf_hunks f)}"
      proof
        assume le: "\<forall>v \<in> set vs. the (vd_hunk v) \<le> int (length (cf_hunks f))"
        show "set (map vd_hunk vs) \<subseteq> (\<lambda>i. Some (int i)) ` {1..length (cf_hunks f)}"
        proof
          fix x assume "x \<in> set (map vd_hunk vs)"
          then obtain v where v: "v \<in> set vs" "x = vd_hunk v" by auto
          with some obtain h where h: "vd_hunk v = Some h" "1 \<le> h" by blast
          then have "x = Some (int (nat h))" "nat h \<in> {1..length (cf_hunks f)}" using v le by force+
          then show "x \<in> (\<lambda>i. Some (int i)) ` {1..length (cf_hunks f)}" by blast
        qed
      qed force
      show ?thesis
      proof (cases "by_hunk f [] vs")
        case (Inl e)
        then have "\<not> set (map vd_hunk vs) \<subseteq> (\<lambda>i. Some (int i)) ` {1..length (cf_hunks f)}"
          using by_hunk_Inr [OF some, of f "[]"] sub by auto
        then have "set (map vd_hunk vs) \<noteq> (\<lambda>h. Some (int (hk_index h))) ` set (cf_hunks f)" unfolding idx by blast
        then show ?thesis unfolding defs using hunks n1 False eq Inl by auto
      next
        case (Inr r)
        then have le: "set (map vd_hunk vs) \<subseteq> (\<lambda>i. Some (int i)) ` {1..length (cf_hunks f)}"
          using by_hunk_Inr [OF some, of f "[]"] sub by auto
        have dom: "dget r i \<noteq> None \<longleftrightarrow> Some (int i) \<in> set (map vd_hunk vs)" for i
          using by_hunk_dom [OF Inr some, of i] by auto
        have all: "List.find (\<lambda>h. dget r (hk_index h) = None) (cf_hunks f) = None \<longleftrightarrow>
            (\<lambda>h. Some (int (hk_index h))) ` set (cf_hunks f) \<subseteq> set (map vd_hunk vs)"
          using dom by (auto simp: find_None_iff)
        show ?thesis unfolding defs using hunks n1 False eq Inr all le idx
          by (auto split: option.splits)
      qed
    qed
  qed
qed

lemma decide_files_ok:
  "(\<exists>x. decide_files m fs ds s = Inr x) \<longleftrightarrow> (\<forall>f \<in> set fs. \<exists>x. decide_file m f no_summary = Inr x)"
proof (induction m fs ds s rule: decide_files.induct)
  case (2 m f fs ds s)
  have same: "(\<exists>x. decide_file m f s = Inr x) \<longleftrightarrow> (\<exists>x. decide_file m f no_summary = Inr x)"
    by (auto simp: decide_file_def Let_def split: sum.splits option.splits)
  show ?case
  proof (cases "decide_file m f s")
    case (Inl e)
    then show ?thesis using same by auto
  next
    case (Inr y)
    then show ?thesis using "2.IH" [OF Inr, of "fst y" "snd y"] same by (cases y) auto
  qed
qed simp

lemma validate_ok_iff:
  assumes "\<forall>f \<in> set files. hunks_numbered f"
  shows "(\<exists>x. validateEvaluationVerdicts files vs = Inr x) \<longleftrightarrow> complete_verdicts files vs"
proof (cases "collect_verdicts files [] [] vs")
  case (Inl e)
  then have "\<not> ((\<forall>v \<in> set vs. names_candidate files v \<and> well_formed_verdict v) \<and> distinct (map verdict_key vs))"
    using collect_Inr [of files "[]" "[]" vs] by auto
  then show ?thesis using Inl by (auto simp: validateEvaluationVerdicts_def complete_verdicts_def)
next
  case (Inr m)
  then have ok: "\<forall>v \<in> set vs. names_candidate files v \<and> well_formed_verdict v" "distinct (map verdict_key vs)"
    using collect_Inr [of files "[]" "[]" vs] by auto
  have l: "listed m p = map (\<lambda>v. v\<lparr>vd_file := p\<rparr>) (verdicts_of vs p)" for p
    using collect_lists [OF Inr, of p] by (simp add: listed_def)
  have h: "map vd_hunk (listed m p) = map vd_hunk (verdicts_of vs p)" for p by (simp add: l comp_def)
  have d: "distinct (map vd_hunk (listed m p))" for p
  proof -
    have "distinct (map verdict_key (verdicts_of vs p))"
      using ok(2) by (simp add: verdicts_of_def distinct_map_filter)
    moreover have "map verdict_key (verdicts_of vs p) = map (\<lambda>v. (Inr p, vd_hunk v)) (verdicts_of vs p)"
      by (auto simp: verdicts_of_def verdict_key_def)
    ultimately show ?thesis unfolding h by (auto simp: distinct_map inj_on_def)
  qed
  have wf: "\<forall>v \<in> set (listed m p). well_formed_verdict v" for p
    using ok(1) by (auto simp: l verdicts_of_def well_formed_verdict_def)
  have "(\<exists>x. decide_file m f no_summary = Inr x) \<longleftrightarrow> covered vs f" if "f \<in> set files" for f
  proof -
    have "hunks_numbered f" using assms that by simp
    from decide_file_ok [OF this wf d, where s = no_summary] show ?thesis unfolding covered_def h .
  qed
  then have "(\<exists>x. decide_files m files [] no_summary = Inr x) \<longleftrightarrow> (\<forall>f \<in> set files. covered vs f)"
    unfolding decide_files_ok by blast
  then show ?thesis unfolding complete_verdicts_def validateEvaluationVerdicts_def Inr sum.case using ok by blast
qed


section \<open>The repository\<close>

text \<open>
  A tree gives the entry at a path; a path names a file, a directory is not an entry. \<open>rp_head\<close> is the
  tree of the current commit.
\<close>

type_synonym tree = "string \<Rightarrow> entry option"

record repo =
  rp_head :: tree
  rp_index :: tree
  rp_work :: tree

text \<open>
  What git is asked: the diff of two trees (\<open>gt_pathDiff\<close> for some paths), its name-status output with
  \<open>-z\<close>, the result of \<open>git apply\<close> on a tree (\<open>None\<close> when it fails), the untracked paths that are not
  ignored, and whether a commit works. \<open>gt_sha\<close> is the hash of a content.
\<close>

record git =
  gt_diff :: "tree \<Rightarrow> tree \<Rightarrow> string"
  gt_pathDiff :: "string list \<Rightarrow> tree \<Rightarrow> tree \<Rightarrow> string"
  gt_nameStatus :: "tree \<Rightarrow> tree \<Rightarrow> string"
  gt_apply :: "string \<Rightarrow> tree \<Rightarrow> tree option"
  gt_untracked :: "tree \<Rightarrow> tree \<Rightarrow> string list"
  gt_commit_ok :: bool
  gt_sha :: "string \<Rightarrow> string"

text \<open>The part of the worktree git diff looks at.\<close>

definition tracked :: "repo \<Rightarrow> tree" where
  "tracked r = (\<lambda>p. if rp_index r p = None then None else rp_work r p)"

section \<open>The snapshot\<close>

record ev_snapshot =
  sn_base :: tree
  sn_staged :: string
  sn_candidate :: string
  sn_files :: "candidate list"

definition splitNul :: "string \<Rightarrow> string list" where
  "splitNul s = filter (\<lambda>p. p \<noteq> []) (split_on (CHR 0x00) s)"

fun name_status :: "string list \<Rightarrow> (string \<times> string \<times> string option) list" where
  "name_status [] = []"
| "name_status [_] = []"
| "name_status [c, p] = (if hd c = CHR ''R'' \<or> hd c = CHR ''C'' then [] else [(c, p, None)])"
| "name_status (c # p # q # r) =
     (if hd c = CHR ''R'' \<or> hd c = CHR ''C'' then (c, q, Some p) # name_status r
      else (c, p, None) # name_status (q # r))"

definition parseNameStatusZ :: "string \<Rightarrow> (string \<times> string \<times> string option) list" where
  "parseNameStatusZ s = name_status (splitNul s)"

fun has_infix :: "string \<Rightarrow> string \<Rightarrow> bool" where
  "has_infix p [] \<longleftrightarrow> p = []"
| "has_infix p (c # cs) \<longleftrightarrow> take (length p) (c # cs) = p \<or> has_infix p cs"

definition diffLooksBinary :: "string \<Rightarrow> bool" where
  "diffLooksBinary diff \<longleftrightarrow>
     has_infix ([nl] @ ''GIT binary patch'' @ [nl]) diff \<or> has_infix ([nl] @ ''Binary files '') diff"

fun map_res :: "('a \<Rightarrow> ('e, 'b) result) \<Rightarrow> 'a list \<Rightarrow> ('e, 'b list) result" where
  "map_res f [] = Inr []"
| "map_res f (x # xs) =
     (case f x of
        Inl e \<Rightarrow> Inl e
      | Inr y \<Rightarrow> (case map_res f xs of Inl e \<Rightarrow> Inl e | Inr ys \<Rightarrow> Inr (y # ys)))"

definition diff_candidate :: "git \<Rightarrow> repo \<Rightarrow> string \<times> string \<times> string option \<Rightarrow> (ev_error, candidate) result" where
  "diff_candidate g r e =
     (case e of (statusCode, rawPath, rawOld) \<Rightarrow>
        case validateEvaluationPath rawPath of
          Inl x \<Rightarrow> Inl x
        | Inr path \<Rightarrow>
            (case (case rawOld of None \<Rightarrow> Inr None
                                | Some old \<Rightarrow> (case validateEvaluationPath old of Inl x \<Rightarrow> Inl x | Inr q \<Rightarrow> Inr (Some q))) of
               Inl x \<Rightarrow> Inl x
             | Inr oldPath \<Rightarrow>
                 (let paths = (case oldPath of Some old \<Rightarrow> if old \<noteq> path then [old, path] else [path] | None \<Rightarrow> [path]);
                      diff = gt_pathDiff g paths (rp_index r) (tracked r);
                      (header, hunks) = parseHunks diff; isBinary = diffLooksBinary diff;
                      status = statusFromCode statusCode; renameOnly = (status = Renamed \<and> hunks = [] \<and> \<not> isBinary)
                  in Inr \<lparr>cf_path = path, cf_oldPath = oldPath, cf_status = status, cf_statusCode = statusCode,
                          cf_header = header, cf_hunks = hunks, cf_isBinary = isBinary, cf_isUntracked = False,
                          cf_isRenameOnly = renameOnly,
                          cf_requiresFileVerdict = (isBinary \<or> renameOnly \<or> hunks = []), cf_entry = None\<rparr>)))"

text \<open>The content of an entry without its mode.\<close>

fun plain_entry :: "entry \<Rightarrow> entry" where
  "plain_entry (RegularFile _ c) = RegularFile False c"
| "plain_entry (SymbolicLink t) = SymbolicLink t"

fun entry_binary :: "entry \<Rightarrow> bool" where
  "entry_binary (RegularFile _ c) \<longleftrightarrow> CHR 0x00 \<in> set c"
| "entry_binary (SymbolicLink _) \<longleftrightarrow> False"

definition untracked_candidate :: "repo \<Rightarrow> string \<Rightarrow> (ev_error, candidate) result" where
  "untracked_candidate r path =
     (case rp_work r path of
        None \<Rightarrow> Inl GitFailed
      | Some e \<Rightarrow>
          if \<not> repo_path_ok path then Inl EscapingPath
          else Inr \<lparr>cf_path = path, cf_oldPath = None, cf_status = Untracked, cf_statusCode = ''??'', cf_header = [],
                    cf_hunks = [], cf_isBinary = entry_binary e, cf_isUntracked = True, cf_isRenameOnly = False,
                    cf_requiresFileVerdict = True, cf_entry = Some (plain_entry e)\<rparr>)"

definition untracked_paths :: "git \<Rightarrow> repo \<Rightarrow> (ev_error, string list) result" where
  "untracked_paths g r =
     (case map_res validateEvaluationPath (gt_untracked g (rp_index r) (rp_work r)) of
        Inl e \<Rightarrow> Inl e
      | Inr ps \<Rightarrow> Inr (filter (\<lambda>p. \<not> isInternalEvaluationArtifactPath p) ps))"

definition captureEvaluationSnapshot :: "git \<Rightarrow> tree option \<Rightarrow> repo \<Rightarrow> (ev_error, ev_snapshot) result" where
  "captureEvaluationSnapshot g base r =
     (case map_res (diff_candidate g r) (parseNameStatusZ (gt_nameStatus g (rp_index r) (tracked r))) of
        Inl e \<Rightarrow> Inl e
      | Inr fs \<Rightarrow>
          (case untracked_paths g r of
             Inl e \<Rightarrow> Inl e
           | Inr ps \<Rightarrow>
               (case map_res (untracked_candidate r) ps of
                  Inl e \<Rightarrow> Inl e
                | Inr us \<Rightarrow>
                    Inr \<lparr>sn_base = (case base of Some b \<Rightarrow> b | None \<Rightarrow> rp_head r),
                         sn_staged = gt_diff g (rp_head r) (rp_index r),
                         sn_candidate = gt_diff g (rp_index r) (tracked r), sn_files = fs @ us\<rparr>)))"

text \<open>\<open>git reset --soft\<close>, undone when the capture throws.\<close>

definition softResetForEvaluation :: "tree \<Rightarrow> repo \<Rightarrow> repo" where
  "softResetForEvaluation target r = r\<lparr>rp_head := target\<rparr>"

definition prepareEvaluationSnapshot :: "git \<Rightarrow> tree \<Rightarrow> repo \<Rightarrow> repo \<times> (ev_error, ev_snapshot) result" where
  "prepareEvaluationSnapshot g target r =
     (let r1 = softResetForEvaluation target r in
      case captureEvaluationSnapshot g (Some (rp_head r1)) r1 of
        Inl e \<Rightarrow> (softResetForEvaluation (rp_head r) r1, Inl e)
      | Inr sn \<Rightarrow> (r1, Inr sn))"

section \<open>Git steps\<close>

text \<open>A step and whether it worked; a sequence stops at the first that throws.\<close>

type_synonym step = "repo \<Rightarrow> repo \<times> bool"

fun run_all :: "step list \<Rightarrow> step" where
  "run_all [] r = (r, True)"
| "run_all (s # ss) r = (case s r of (r1, True) \<Rightarrow> run_all ss r1 | (r1, False) \<Rightarrow> (r1, False))"

definition candidatePaths :: "candidate \<Rightarrow> string list" where
  "candidatePaths f =
     (case cf_oldPath f of
        Some old \<Rightarrow> if old \<noteq> [] \<and> old \<noteq> cf_path f then [old, cf_path f] else [cf_path f]
      | None \<Rightarrow> [cf_path f])"

definition removeRepoPath :: "string \<Rightarrow> step" where
  "removeRepoPath p r = (if repo_path_ok p then (r\<lparr>rp_work := (rp_work r)(p := None)\<rparr>, True) else (r, False))"

definition restorePathFromIndex :: "string \<Rightarrow> step" where
  "restorePathFromIndex p r =
     (if rp_index r p \<noteq> None then (r\<lparr>rp_work := (rp_work r)(p := rp_index r p)\<rparr>, True) else removeRepoPath p r)"

definition ensureTrailingNewline :: "string \<Rightarrow> string" where
  "ensureTrailingNewline s = (if s \<noteq> [] \<and> last s = nl then s else s @ [nl])"

datatype patch_mode = PatchWorktree | PatchCached | PatchIndex

definition applyPatch :: "git \<Rightarrow> string \<Rightarrow> patch_mode \<Rightarrow> step" where
  "applyPatch g patch mode r =
     (if trim patch = [] then (r, True)
      else (let p = ensureTrailingNewline patch in
            case mode of
              PatchWorktree \<Rightarrow> (case gt_apply g p (rp_work r) of None \<Rightarrow> (r, False) | Some t \<Rightarrow> (r\<lparr>rp_work := t\<rparr>, True))
            | PatchCached \<Rightarrow> (case gt_apply g p (rp_index r) of None \<Rightarrow> (r, False) | Some t \<Rightarrow> (r\<lparr>rp_index := t\<rparr>, True))
            | PatchIndex \<Rightarrow>
                (case (gt_apply g p (rp_index r), gt_apply g p (rp_work r)) of
                   (Some i, Some t) \<Rightarrow> (r\<lparr>rp_index := i, rp_work := t\<rparr>, True)
                 | _ \<Rightarrow> (r, False))))"

definition hunkPatch :: "candidate \<Rightarrow> hunk list \<Rightarrow> string" where
  "hunkPatch f hs = ensureTrailingNewline (cf_header f @ concat (map hk_diff hs))"

definition stageFileLevelDecision :: "candidate \<Rightarrow> step" where
  "stageFileLevelDecision f r =
     (let paths = candidatePaths f in
      if list_all (\<lambda>p. rp_index r p \<noteq> None \<or> rp_work r p \<noteq> None) paths
      then (r\<lparr>rp_index := (\<lambda>p. if p \<in> set paths then rp_work r p else rp_index r p)\<rparr>, True)
      else (r, False))"

definition rejectFileLevelDecision :: "candidate \<Rightarrow> step" where
  "rejectFileLevelDecision f =
     (if cf_isUntracked f then removeRepoPath (cf_path f) else run_all (map restorePathFromIndex (candidatePaths f)))"

definition accepted_hunks :: "candidate \<Rightarrow> (nat \<times> ev_verdict) list \<Rightarrow> hunk list" where
  "accepted_hunks f m = filter (\<lambda>h. map_option vd_action (dget m (hk_index h)) = Some Accept) (cf_hunks f)"

definition applyHunkDecision :: "git \<Rightarrow> candidate \<Rightarrow> (nat \<times> ev_verdict) list \<Rightarrow> step" where
  "applyHunkDecision g f m =
     (let hs = accepted_hunks f m in
      run_all ((if hs \<noteq> [] then [applyPatch g (hunkPatch f hs) PatchCached] else []) @
               map restorePathFromIndex (candidatePaths f)))"

definition discardEvaluationCandidateFixes :: "ev_snapshot \<Rightarrow> step" where
  "discardEvaluationCandidateFixes sn =
     run_all (concat (map (\<lambda>f. if cf_isUntracked f then [removeRepoPath (cf_path f)]
                               else map restorePathFromIndex (candidatePaths f)) (sn_files sn)))"

section \<open>Restoring\<close>

definition reset_hard :: "tree \<Rightarrow> repo \<Rightarrow> repo" where
  "reset_hard base r =
     r\<lparr>rp_head := base, rp_index := base,
       rp_work := (\<lambda>p. if base p \<noteq> None then base p else if rp_index r p \<noteq> None then None else rp_work r p)\<rparr>"

definition rewrite_untracked :: "candidate \<Rightarrow> step" where
  "rewrite_untracked f r =
     (if \<not> cf_isUntracked f then (r, True)
      else if \<not> repo_path_ok (cf_path f) then (r, False)
      else case cf_entry f of
             None \<Rightarrow> (r, True)
           | Some (SymbolicLink t) \<Rightarrow>
               if rp_work r (cf_path f) \<noteq> None then (r, False)
               else (r\<lparr>rp_work := (rp_work r)(cf_path f := Some (SymbolicLink t))\<rparr>, True)
           | Some (RegularFile _ c) \<Rightarrow>
               (let x = (case rp_work r (cf_path f) of Some (RegularFile x _) \<Rightarrow> x | _ \<Rightarrow> False)
                in (r\<lparr>rp_work := (rp_work r)(cf_path f := Some (RegularFile x c))\<rparr>, True)))"

definition restoreEvaluationSnapshotAfterFailure :: "git \<Rightarrow> ev_snapshot \<Rightarrow> step" where
  "restoreEvaluationSnapshotAfterFailure g sn r =
     (let r1 = reset_hard (sn_base sn) r in
      case untracked_paths g r1 of
        Inl _ \<Rightarrow> (r1, False)
      | Inr ps \<Rightarrow>
          run_all (map removeRepoPath ps @
                   [applyPatch g (sn_staged sn) PatchIndex, applyPatch g (sn_candidate sn) PatchWorktree] @
                   map rewrite_untracked (sn_files sn)) r1)"

section \<open>Drift\<close>

text \<open>What is compared of an untracked file: its kind and the hash of its content.\<close>

fun entry_hash :: "git \<Rightarrow> entry \<Rightarrow> string" where
  "entry_hash g (RegularFile _ c) = ''file:'' @ gt_sha g c"
| "entry_hash g (SymbolicLink t) = ''symlink:'' @ gt_sha g t"

definition currentUntrackedHashes :: "git \<Rightarrow> repo \<Rightarrow> (ev_error, (string \<times> string) list) result" where
  "currentUntrackedHashes g r =
     (case untracked_paths g r of
        Inl e \<Rightarrow> Inl e
      | Inr ps \<Rightarrow>
          map_res (\<lambda>p. if \<not> repo_path_ok p then Inl EscapingPath
                       else Inr (p, case rp_work r p of None \<Rightarrow> ''<unreadable>'' | Some e \<Rightarrow> entry_hash g e)) ps)"

definition expected_untracked :: "git \<Rightarrow> ev_snapshot \<Rightarrow> (string \<times> string) list" where
  "expected_untracked g sn =
     map (\<lambda>f. (cf_path f, case cf_entry f of Some e \<Rightarrow> entry_hash g e | None \<Rightarrow> ''file:''))
       (filter cf_isUntracked (sn_files sn))"

definition assertNoEvaluationDrift :: "git \<Rightarrow> ev_snapshot \<Rightarrow> repo \<Rightarrow> ev_error option" where
  "assertNoEvaluationDrift g sn r =
     (if gt_diff g (rp_head r) (rp_index r) \<noteq> sn_staged sn then Some StagedDrift
      else if gt_diff g (rp_index r) (tracked r) \<noteq> sn_candidate sn then Some CandidateDrift
      else case currentUntrackedHashes g r of
             Inl e \<Rightarrow> Some e
           | Inr current \<Rightarrow>
               (let expected = expected_untracked g sn in
                case List.find (\<lambda>(p, h). dget current p \<noteq> Some h) expected of
                  Some (p, _) \<Rightarrow> Some (UntrackedDrift p)
                | None \<Rightarrow> map_option UntrackedDrift
                            (List.find (\<lambda>p. dget expected p = None) (map fst current))))"

section \<open>Applying the verdicts\<close>

definition decision_step :: "git \<Rightarrow> ev_decision \<Rightarrow> step" where
  "decision_step g d =
     (case d of
        DecideFile f v \<Rightarrow> if vd_action v = Accept then stageFileLevelDecision f else rejectFileLevelDecision f
      | DecideHunks f m \<Rightarrow> applyHunkDecision g f m)"

definition decision_steps :: "git \<Rightarrow> ev_snapshot \<Rightarrow> (string \<times> ev_decision) list \<Rightarrow> step list" where
  "decision_steps g sn ds =
     map (\<lambda>f. case dget ds (cf_path f) of None \<Rightarrow> (\<lambda>r. (r, False)) | Some d \<Rightarrow> decision_step g d) (sn_files sn)"

definition commitEvaluationSnapshot :: "git \<Rightarrow> step" where
  "commitEvaluationSnapshot g r = (if gt_commit_ok g then (r\<lparr>rp_head := rp_index r\<rparr>, True) else (r, False))"

text \<open>The result: the summary and whether a commit was made.\<close>

definition applyEvaluationVerdicts ::
    "git \<Rightarrow> bool \<Rightarrow> ev_snapshot \<Rightarrow> ev_verdict list \<Rightarrow> repo \<Rightarrow> repo \<times> (ev_error, ev_summary \<times> bool) result" where
  "applyEvaluationVerdicts g commit sn vs r =
     (case validateEvaluationVerdicts (sn_files sn) vs of
        Inl e \<Rightarrow> (r, Inl e)
      | Inr (ds, summary) \<Rightarrow>
          (case assertNoEvaluationDrift g sn r of
             Some e \<Rightarrow> (r, Inl e)
           | None \<Rightarrow>
               (case run_all (decision_steps g sn ds @ (if commit then [commitEvaluationSnapshot g] else [])) r of
                  (r1, True) \<Rightarrow> (r1, Inr (summary, commit))
                | (r1, False) \<Rightarrow> (fst (restoreEvaluationSnapshotAfterFailure g sn r1), Inl GitFailed))))"


section \<open>What the steps leave\<close>

lemma run_all_append:
  "run_all (ss @ ts) r = (case run_all ss r of (r1, True) \<Rightarrow> run_all ts r1 | (r1, False) \<Rightarrow> (r1, False))"
  by (induction ss r rule: run_all.induct) (auto split: prod.splits bool.splits)

lemma run_all_inv:
  assumes "\<And>s r r1 b. s \<in> set ss \<Longrightarrow> s r = (r1, b) \<Longrightarrow> P r \<Longrightarrow> P r1"
  shows "run_all ss r = (r1, b) \<Longrightarrow> P r \<Longrightarrow> P r1"
  using assms
proof (induction ss arbitrary: r)
  case (Cons s ss)
  obtain r2 ok where s: "s r = (r2, ok)" by fastforce
  have "s \<in> set (s # ss)" by simp
  from Cons.prems(3) [OF this, of r r2 ok] s Cons.prems(2) have p2: "P r2" by blast
  show ?case
  proof (cases ok)
    case True
    with Cons.prems(1) s have run: "run_all ss r2 = (r1, b)" by simp
    show ?thesis
    proof (rule Cons.IH [OF run p2])
      fix t q q1 c
      assume "t \<in> set ss" "t q = (q1, c)" "P q"
      then show "P q1" using Cons.prems(3) [of t q q1 c] by simp
    qed
  next
    case False
    with Cons.prems(1) s p2 show ?thesis by simp
  qed
qed simp

lemma restore_one:
  "restorePathFromIndex p r = (r1, b) \<Longrightarrow> rp_index r1 = rp_index r \<and> rp_head r1 = rp_head r \<and>
     (b \<longrightarrow> rp_work r1 = (rp_work r)(p := rp_index r p)) \<and> (\<forall>q. q \<noteq> p \<longrightarrow> rp_work r1 q = rp_work r q)"
  by (auto simp: restorePathFromIndex_def removeRepoPath_def split: if_splits)

lemma restore_all:
  "run_all (map restorePathFromIndex ps) r = (r1, b) \<Longrightarrow> rp_index r1 = rp_index r \<and> rp_head r1 = rp_head r \<and>
     (b \<longrightarrow> rp_work r1 = (\<lambda>p. if p \<in> set ps then rp_index r p else rp_work r p)) \<and>
     (\<forall>q. q \<notin> set ps \<longrightarrow> rp_work r1 q = rp_work r q)"
proof (induction ps arbitrary: r)
  case (Cons p ps)
  obtain r2 b2 where s: "restorePathFromIndex p r = (r2, b2)" by fastforce
  note one = restore_one [OF s]
  show ?case
  proof (cases b2)
    case True
    with Cons.prems s have "run_all (map restorePathFromIndex ps) r2 = (r1, b)" by simp
    from Cons.IH [OF this] one True show ?thesis by (auto simp: fun_eq_iff)
  next
    case False
    with Cons.prems s one show ?thesis by auto
  qed
qed (auto simp: fun_eq_iff)

lemma apply_cached:
  "applyPatch g patch PatchCached r = (r1, b) \<Longrightarrow> rp_work r1 = rp_work r \<and> rp_head r1 = rp_head r \<and>
   (b \<longrightarrow> (trim patch = [] \<and> rp_index r1 = rp_index r) \<or>
      gt_apply g (ensureTrailingNewline patch) (rp_index r) = Some (rp_index r1)) \<and> (\<not> b \<longrightarrow> r1 = r)"
  by (auto simp: applyPatch_def Let_def split: if_splits option.splits)

text \<open>A patch of hunks of a candidate touches its paths only.\<close>

definition hunks_local :: "git \<Rightarrow> candidate \<Rightarrow> bool" where
  "hunks_local g f \<longleftrightarrow>
     (\<forall>hs t t' p. gt_apply g (ensureTrailingNewline (hunkPatch f hs)) t = Some t' \<longrightarrow> p \<notin> set (candidatePaths f) \<longrightarrow> t' p = t p)"

fun decision_candidate :: "ev_decision \<Rightarrow> candidate" where
  "decision_candidate (DecideFile f _) = f"
| "decision_candidate (DecideHunks f _) = f"

lemma decision_work_frame:
  assumes "decision_step g d r = (r1, b)" and "p \<notin> set (candidatePaths (decision_candidate d))"
  shows "rp_work r1 p = rp_work r p"
proof (cases d)
  case (DecideFile f v)
  show ?thesis
  proof (cases "vd_action v = Accept")
    case True
    with assms DecideFile show ?thesis
      by (auto simp: decision_step_def stageFileLevelDecision_def Let_def split: if_splits)
  next
    case False
    have "cf_path f \<in> set (candidatePaths f)" by (auto simp: candidatePaths_def split: option.splits)
    then show ?thesis using assms DecideFile False restore_all [of "candidatePaths f" r r1 b]
      by (auto simp: decision_step_def rejectFileLevelDecision_def removeRepoPath_def split: if_splits)
  qed
next
  case (DecideHunks f m)
  show ?thesis
  proof (cases "accepted_hunks f m = []")
    case True
    then show ?thesis using assms DecideHunks restore_all [of "candidatePaths f" r r1 b]
      by (simp add: decision_step_def applyHunkDecision_def)
  next
    case False
    obtain r2 b2 where a: "applyPatch g (hunkPatch f (accepted_hunks f m)) PatchCached r = (r2, b2)" by fastforce
    then have w: "rp_work r2 = rp_work r" by (simp add: apply_cached)
    show ?thesis
    proof (cases b2)
      case True
      then have "run_all (map restorePathFromIndex (candidatePaths f)) r2 = (r1, b)"
        using assms(1) DecideHunks False a by (simp add: decision_step_def applyHunkDecision_def Let_def)
      from restore_all [OF this] assms(2) DecideHunks w show ?thesis by simp
    next
      case False': False
      then have "r1 = r2" using assms(1) DecideHunks False a by (simp add: decision_step_def applyHunkDecision_def Let_def)
      then show ?thesis using w by simp
    qed
  qed
qed

text \<open>What a decision that works does.\<close>

definition decided :: "ev_decision \<Rightarrow> repo \<Rightarrow> repo \<Rightarrow> string \<Rightarrow> bool" where
  "decided d r r1 p \<longleftrightarrow>
     (case d of
        DecideFile f v \<Rightarrow>
          if vd_action v = Accept then rp_index r1 p = rp_work r p \<and> rp_work r1 p = rp_work r p
          else rp_index r1 p = rp_index r p \<and> rp_work r1 p = rp_index r p
      | DecideHunks f m \<Rightarrow>
          rp_work r1 p = rp_index r1 p \<and> (accepted_hunks f m = [] \<longrightarrow> rp_index r1 p = rp_index r p))"

definition untracked_free :: "repo \<Rightarrow> candidate \<Rightarrow> bool" where
  "untracked_free r f \<longleftrightarrow> (cf_isUntracked f \<longrightarrow> rp_index r (cf_path f) = None \<and> cf_oldPath f = None)"

lemma decision_works:
  assumes s: "decision_step g d r = (r1, True)" and l: "hunks_local g (decision_candidate d)"
    and u: "untracked_free r (decision_candidate d)"
  shows "rp_head r1 = rp_head r"
    and "p \<notin> set (candidatePaths (decision_candidate d)) \<Longrightarrow> rp_index r1 p = rp_index r p"
    and "p \<in> set (candidatePaths (decision_candidate d)) \<Longrightarrow> decided d r r1 p"
proof -
  let ?P = "set (candidatePaths (decision_candidate d))"
  have "rp_head r1 = rp_head r \<and> (p \<notin> ?P \<longrightarrow> rp_index r1 p = rp_index r p) \<and> (p \<in> ?P \<longrightarrow> decided d r r1 p)" for p
  proof (cases d)
    case (DecideFile f v)
    consider (stage) "vd_action v = Accept" | (untracked) "vd_action v \<noteq> Accept" "cf_isUntracked f"
      | (restore) "vd_action v \<noteq> Accept" "\<not> cf_isUntracked f" by blast
    then show ?thesis
    proof cases
      case stage
      then show ?thesis using s DecideFile
        by (auto simp: decision_step_def stageFileLevelDecision_def Let_def decided_def split: if_splits)
    next
      case untracked
      then have "candidatePaths f = [cf_path f]" "rp_index r (cf_path f) = None"
        using u DecideFile by (auto simp: untracked_free_def candidatePaths_def)
      then show ?thesis using s DecideFile untracked
        by (auto simp: decision_step_def rejectFileLevelDecision_def removeRepoPath_def decided_def split: if_splits)
    next
      case restore
      then have "run_all (map restorePathFromIndex (candidatePaths f)) r = (r1, True)"
        using s DecideFile by (simp add: decision_step_def rejectFileLevelDecision_def)
      from restore_all [OF this] restore DecideFile show ?thesis by (simp add: decided_def)
    qed
  next
    case (DecideHunks f m)
    show ?thesis
    proof (cases "accepted_hunks f m = []")
      case True
      then have "run_all (map restorePathFromIndex (candidatePaths f)) r = (r1, True)"
        using s DecideHunks by (simp add: decision_step_def applyHunkDecision_def)
      from restore_all [OF this] DecideHunks show ?thesis by (simp add: decided_def)
    next
      case False
      obtain r2 b2 where a: "applyPatch g (hunkPatch f (accepted_hunks f m)) PatchCached r = (r2, b2)" by fastforce
      with s DecideHunks False have b: "b2" "run_all (map restorePathFromIndex (candidatePaths f)) r2 = (r1, True)"
        by (auto simp: decision_step_def applyHunkDecision_def Let_def split: bool.splits)
      have "rp_index r2 p = rp_index r p" if "p \<notin> set (candidatePaths f)"
        using apply_cached [OF a] b(1) l DecideHunks that by (auto simp: hunks_local_def)
      with restore_all [OF b(2)] apply_cached [OF a] b(1) DecideHunks False show ?thesis by (auto simp: decided_def)
    qed
  qed
  then show "rp_head r1 = rp_head r"
    "p \<notin> set (candidatePaths (decision_candidate d)) \<Longrightarrow> rp_index r1 p = rp_index r p"
    "p \<in> set (candidatePaths (decision_candidate d)) \<Longrightarrow> decided d r r1 p" by blast+
qed


abbreviation paths_of :: "candidate \<Rightarrow> string set" where
  "paths_of f \<equiv> set (candidatePaths f)"

lemma own_path: "cf_path f \<in> paths_of f"
  by (auto simp: candidatePaths_def split: option.splits)

lemma decided_cong:
  "decided d r r1 p \<Longrightarrow> rp_index r p = rp_index r' p \<Longrightarrow> rp_work r p = rp_work r' p \<Longrightarrow>
   rp_index r1 p = rp_index r1' p \<Longrightarrow> rp_work r1 p = rp_work r1' p \<Longrightarrow> decided d r' r1' p"
  by (auto simp: decided_def split: ev_decision.splits if_splits)

lemma decisions_work:
  "run_all (map (\<lambda>f. decision_step g (D f)) fs) r = (r1, True) \<Longrightarrow> \<forall>f \<in> set fs. decision_candidate (D f) = f \<Longrightarrow>
   distinct (concat (map candidatePaths fs)) \<Longrightarrow> \<forall>f \<in> set fs. hunks_local g f \<and> untracked_free r f \<Longrightarrow>
   rp_head r1 = rp_head r \<and>
   (\<forall>p. p \<notin> (\<Union>f \<in> set fs. paths_of f) \<longrightarrow> rp_index r1 p = rp_index r p \<and> rp_work r1 p = rp_work r p) \<and>
   (\<forall>f \<in> set fs. \<forall>p \<in> paths_of f. decided (D f) r r1 p)"
proof (induction fs arbitrary: r)
  case (Cons f fs)
  obtain r2 b where s: "decision_step g (D f) r = (r2, b)" by fastforce
  with Cons.prems(1) have b: "b" and run: "run_all (map (\<lambda>f. decision_step g (D f)) fs) r2 = (r1, True)"
    by (cases b; simp)+
  have c: "decision_candidate (D f) = f" using Cons.prems(2) by simp
  have s1: "decision_step g (D f) r = (r2, True)" using s b by simp
  have l: "hunks_local g (decision_candidate (D f))" "untracked_free r (decision_candidate (D f))"
    using Cons.prems(4) c by simp_all
  note w = decision_works [OF s1 l, unfolded c] decision_work_frame [OF s1, unfolded c]
  have disj: "paths_of f \<inter> (\<Union>f \<in> set fs. paths_of f) = {}" using Cons.prems(3) by auto
  have free: "untracked_free r2 f'" if "f' \<in> set fs" for f'
  proof -
    have "cf_path f' \<notin> paths_of f" using disj own_path that by blast
    then show ?thesis using Cons.prems(4) that w(2) by (simp add: untracked_free_def)
  qed
  have h: "rp_head r1 = rp_head r2"
    and fr: "\<And>p. p \<notin> (\<Union>f \<in> set fs. paths_of f) \<Longrightarrow> rp_index r1 p = rp_index r2 p \<and> rp_work r1 p = rp_work r2 p"
    and d: "\<And>f' p. f' \<in> set fs \<Longrightarrow> p \<in> paths_of f' \<Longrightarrow> decided (D f') r2 r1 p"
    using Cons.IH [OF run] Cons.prems free by auto
  show ?case
  proof (intro conjI ballI allI impI)
    show "rp_head r1 = rp_head r" using h w(1) by simp
  next
    fix p assume "p \<notin> (\<Union>f \<in> set (f # fs). paths_of f)"
    then have "p \<notin> (\<Union>f \<in> set fs. paths_of f)" "p \<notin> paths_of f" by auto
    then show "rp_index r1 p = rp_index r p" "rp_work r1 p = rp_work r p"
      using fr w(2) [of p] w(4) [of p] by simp_all
  next
    fix f' p assume f': "f' \<in> set (f # fs)" and p: "p \<in> paths_of f'"
    show "decided (D f') r r1 p"
    proof (cases "f' \<in> set fs")
      case True
      then have "p \<notin> paths_of f" using disj p by blast
      then have "rp_index r2 p = rp_index r p" "rp_work r2 p = rp_work r p" using w(2) [of p] w(4) [of p] by simp_all
      with decided_cong [OF d [OF True p]] show ?thesis by simp
    next
      case False
      then have eq: "f' = f" using f' by simp
      then have "p \<notin> (\<Union>f \<in> set fs. paths_of f)" using disj p by blast
      from fr [OF this] w(3) [of p] p eq show ?thesis by (auto intro: decided_cong)
    qed
  qed
qed simp

lemma decide_file_candidate: "decide_file m f s = Inr (d, s1) \<Longrightarrow> decision_candidate d = f"
  by (auto simp: decide_file_def Let_def split: if_splits sum.splits option.splits)

lemma decide_files_keep:
  "decide_files m fs ds s = Inr (ds1, s1) \<Longrightarrow> p \<notin> cf_path ` set fs \<Longrightarrow> dget ds1 p = dget ds p"
proof (induction m fs ds s rule: decide_files.induct)
  case (2 m f fs ds s)
  then show ?case by (cases "decide_file m f s") auto
qed simp

lemma decide_files_candidates:
  "decide_files m fs ds s = Inr (ds1, s1) \<Longrightarrow> distinct (map cf_path fs) \<Longrightarrow> f \<in> set fs \<Longrightarrow>
   \<exists>d. dget ds1 (cf_path f) = Some d \<and> decision_candidate d = f"
proof (induction m fs ds s rule: decide_files.induct)
  case (2 m f' fs ds s)
  then obtain d s2 where d: "decide_file m f' s = Inr (d, s2)"
    and r: "decide_files m fs (dput (cf_path f') d ds) s2 = Inr (ds1, s1)"
    by (cases "decide_file m f' s") auto
  show ?case
  proof (cases "f \<in> set fs")
    case True
    with "2.IH" [OF d refl r] "2.prems"(2) show ?thesis by simp
  next
    case False
    then have "f = f'" using "2.prems"(3) by simp
    moreover have "cf_path f' \<notin> cf_path ` set fs" using "2.prems"(2) by simp
    ultimately show ?thesis using decide_files_keep [OF r] decide_file_candidate [OF d] by simp
  qed
qed simp

lemma distinct_paths: "distinct (concat (map candidatePaths fs)) \<Longrightarrow> distinct (map cf_path fs)"
proof (induction fs)
  case (Cons f fs)
  have "cf_path f \<notin> cf_path ` set fs"
  proof
    assume "cf_path f \<in> cf_path ` set fs"
    then obtain f' where "f' \<in> set fs" "cf_path f = cf_path f'" by auto
    with own_path [of f] own_path [of f'] Cons.prems show False by auto
  qed
  with Cons show ?case by simp
qed simp

lemma applied:
  assumes a: "applyEvaluationVerdicts g commit sn vs r = (r1, Inr (sm, b))"
    and dist: "distinct (concat (map candidatePaths (sn_files sn)))"
    and loc: "\<forall>f \<in> set (sn_files sn). hunks_local g f \<and> untracked_free r f"
  shows "\<exists>ds. validateEvaluationVerdicts (sn_files sn) vs = Inr (ds, sm) \<and> b = commit \<and>
    rp_head r1 = (if commit then rp_index r1 else rp_head r) \<and>
    (\<forall>p. p \<notin> (\<Union>f \<in> set (sn_files sn). paths_of f) \<longrightarrow> rp_index r1 p = rp_index r p \<and> rp_work r1 p = rp_work r p) \<and>
    (\<forall>f \<in> set (sn_files sn). \<exists>d. dget ds (cf_path f) = Some d \<and> decision_candidate d = f \<and>
       (\<forall>p \<in> paths_of f. decided d r r1 p))"
proof -
  from a obtain ds where v: "validateEvaluationVerdicts (sn_files sn) vs = Inr (ds, sm)" and b: "b = commit"
    and run: "run_all (decision_steps g sn ds @ (if commit then [commitEvaluationSnapshot g] else [])) r = (r1, True)"
    by (auto simp: applyEvaluationVerdicts_def split: sum.splits option.splits prod.splits bool.splits)
  from v obtain m where d: "decide_files m (sn_files sn) [] no_summary = Inr (ds, sm)"
    by (auto simp: validateEvaluationVerdicts_def split: sum.splits)
  have some: "\<exists>d. dget ds (cf_path f) = Some d \<and> decision_candidate d = f" if "f \<in> set (sn_files sn)" for f
    by (rule decide_files_candidates [OF d distinct_paths [OF dist] that])
  define D where "D f = the (dget ds (cf_path f))" for f :: candidate
  have D: "dget ds (cf_path f) = Some (D f)" "decision_candidate (D f) = f" if "f \<in> set (sn_files sn)" for f
    using some [OF that] by (auto simp: D_def)
  have steps: "decision_steps g sn ds = map (\<lambda>f. decision_step g (D f)) (sn_files sn)"
    by (auto simp: decision_steps_def D)
  obtain r2 where r2: "run_all (map (\<lambda>f. decision_step g (D f)) (sn_files sn)) r = (r2, True)"
    and c: "run_all (if commit then [commitEvaluationSnapshot g] else []) r2 = (r1, True)"
    using run unfolding steps run_all_append by (auto split: prod.splits bool.splits)
  have cm: "rp_index r1 = rp_index r2" "rp_work r1 = rp_work r2" "rp_head r1 = (if commit then rp_index r2 else rp_head r2)"
    using c by (auto simp: commitEvaluationSnapshot_def split: if_splits)
  have "rp_head r2 = rp_head r \<and>
   (\<forall>p. p \<notin> (\<Union>f \<in> set (sn_files sn). paths_of f) \<longrightarrow> rp_index r2 p = rp_index r p \<and> rp_work r2 p = rp_work r p) \<and>
   (\<forall>f \<in> set (sn_files sn). \<forall>p \<in> paths_of f. decided (D f) r r2 p)"
    by (rule decisions_work [OF r2 _ dist loc]) (simp add: D)
  moreover from this have "decided (D f) r r1 p" if "f \<in> set (sn_files sn)" "p \<in> paths_of f" for f p
  proof -
    have "decided (D f) r r2 p" using calculation that by blast
    from decided_cong [OF this, of r r1] cm show ?thesis by simp
  qed
  ultimately show ?thesis using v b cm D by (intro exI [of _ ds]) auto
qed


section \<open>A failure restores the snapshot\<close>

text \<open>
  What is relied on of git. \<open>patch_law\<close>: applying the diff of two trees to a tree that agrees with the
  first where they differ gives the second there. \<open>untracked_law\<close>: \<open>ls-files --others\<close> lists the
  untracked paths that are not ignored (\<open>U\<close> lists all paths there are).
\<close>

definition patch_law :: "git \<Rightarrow> tree \<Rightarrow> tree \<Rightarrow> bool" where
  "patch_law g a b \<longleftrightarrow>
     (if trim (gt_diff g a b) = [] then a = b
      else \<forall>t. (\<forall>p. a p \<noteq> b p \<longrightarrow> t p = a p) \<longrightarrow>
             gt_apply g (ensureTrailingNewline (gt_diff g a b)) t = Some (\<lambda>p. if a p \<noteq> b p then b p else t p))"

definition untracked_law :: "git \<Rightarrow> (string \<Rightarrow> bool) \<Rightarrow> string list \<Rightarrow> bool" where
  "untracked_law g ignored U \<longleftrightarrow>
     (\<forall>i w. (\<forall>p. p \<notin> set U \<longrightarrow> i p = None \<and> w p = None) \<longrightarrow>
        set (gt_untracked g i w) = {p. i p = None \<and> w p \<noteq> None \<and> \<not> ignored p})"

definition name_status_law :: "git \<Rightarrow> repo \<Rightarrow> bool" where
  "name_status_law g r \<longleftrightarrow>
     (\<forall>(c, p, old) \<in> set (parseNameStatusZ (gt_nameStatus g (rp_index r) (tracked r))).
        rp_index r p \<noteq> None \<and> (case old of None \<Rightarrow> True | Some q \<Rightarrow> rp_index r q \<noteq> None))"

text \<open>Paths the evaluation leaves alone: ignored ones and those of eforge.\<close>

definition special :: "(string \<Rightarrow> bool) \<Rightarrow> string \<Rightarrow> bool" where
  "special ignored p \<longleftrightarrow> ignored p \<or> isInternalEvaluationArtifactPath p"

definition usual_repo :: "(string \<Rightarrow> bool) \<Rightarrow> string list \<Rightarrow> repo \<Rightarrow> bool" where
  "usual_repo ignored U r \<longleftrightarrow>
     (\<forall>p. p \<notin> set U \<longrightarrow> rp_head r p = None \<and> rp_index r p = None \<and> rp_work r p = None) \<and>
     (\<forall>p \<in> set U. validateEvaluationPath p = Inr p \<and> repo_path_ok p) \<and>
     (\<forall>p. special ignored p \<longrightarrow> rp_head r p = None \<and> rp_index r p = None) \<and>
     (\<forall>p c. rp_index r p = None \<longrightarrow> rp_work r p = Some (RegularFile True c) \<longrightarrow> special ignored p)"

lemma map_res_Inr: "map_res f xs = Inr ys \<longleftrightarrow> length ys = length xs \<and> (\<forall>i < length xs. f (xs ! i) = Inr (ys ! i))"
proof (induction xs arbitrary: ys)
  case (Cons x xs)
  show ?case
  proof (cases ys)
    case Nil
    then show ?thesis by (simp split: sum.splits)
  next
    case (Cons y ys')
    have "map_res f (x # xs) = Inr (y # ys') \<longleftrightarrow> f x = Inr y \<and> map_res f xs = Inr ys'"
      by (auto split: sum.splits)
    then show ?thesis using Cons.IH [of ys'] by (auto simp: Cons All_less_Suc2)
  qed
qed auto

lemma map_res_id: "\<forall>x \<in> set xs. f x = Inr x \<Longrightarrow> map_res f xs = Inr xs"
  by (induction xs) auto

lemma map_res_set: "map_res f xs = Inr ys \<Longrightarrow> y \<in> set ys \<Longrightarrow> \<exists>x \<in> set xs. f x = Inr y"
  by (force simp: map_res_Inr in_set_conv_nth)

lemma map_res_set': "map_res f xs = Inr ys \<Longrightarrow> x \<in> set xs \<Longrightarrow> \<exists>y \<in> set ys. f x = Inr y"
  by (force simp: map_res_Inr in_set_conv_nth)

lemma untracked_paths_usual:
  assumes "untracked_law g ignored U" and "\<forall>p \<in> set U. validateEvaluationPath p = Inr p"
    and "\<forall>p. p \<notin> set U \<longrightarrow> rp_index r p = None \<and> rp_work r p = None"
  shows "\<exists>ps. untracked_paths g r = Inr ps \<and>
    set ps = {p. rp_index r p = None \<and> rp_work r p \<noteq> None \<and> \<not> special ignored p}"
proof -
  have s: "set (gt_untracked g (rp_index r) (rp_work r)) = {p. rp_index r p = None \<and> rp_work r p \<noteq> None \<and> \<not> ignored p}"
    using assms(1,3) by (simp add: untracked_law_def)
  then have "\<forall>p \<in> set (gt_untracked g (rp_index r) (rp_work r)). validateEvaluationPath p = Inr p"
    using assms(2,3) by blast
  then have "map_res validateEvaluationPath (gt_untracked g (rp_index r) (rp_work r)) =
      Inr (gt_untracked g (rp_index r) (rp_work r))" by (rule map_res_id)
  with s show ?thesis by (auto simp: untracked_paths_def special_def)
qed

lemma remove_all:
  "\<forall>p \<in> set ps. repo_path_ok p \<Longrightarrow>
   run_all (map removeRepoPath ps) r = (r\<lparr>rp_work := (\<lambda>p. if p \<in> set ps then None else rp_work r p)\<rparr>, True)"
proof (induction ps arbitrary: r)
  case (Cons p ps)
  have "removeRepoPath p r = (r\<lparr>rp_work := (rp_work r)(p := None)\<rparr>, True)" using Cons.prems by (simp add: removeRepoPath_def)
  with Cons show ?case by (auto simp: fun_eq_iff)
qed simp

lemma apply_index:
  assumes "patch_law g a b" and "rp_index r = a" and "\<forall>p. a p \<noteq> b p \<longrightarrow> rp_work r p = a p"
  shows "applyPatch g (gt_diff g a b) PatchIndex r =
    (r\<lparr>rp_index := b, rp_work := (\<lambda>p. if a p \<noteq> b p then b p else rp_work r p)\<rparr>, True)"
proof (cases "trim (gt_diff g a b) = []")
  case True
  then have "a = b" using assms(1) by (simp add: patch_law_def)
  then show ?thesis using True assms(2) by (simp add: applyPatch_def)
next
  case False
  have "(\<lambda>p. if a p \<noteq> b p then b p else a p) = b" by auto
  then show ?thesis using False assms by (simp add: applyPatch_def patch_law_def Let_def)
qed

lemma apply_worktree:
  assumes "patch_law g a b" and "\<forall>p. a p \<noteq> b p \<longrightarrow> rp_work r p = a p"
  shows "applyPatch g (gt_diff g a b) PatchWorktree r =
    (r\<lparr>rp_work := (\<lambda>p. if a p \<noteq> b p then b p else rp_work r p)\<rparr>, True)"
proof (cases "trim (gt_diff g a b) = []")
  case True
  then have "a = b" using assms(1) by (simp add: patch_law_def)
  then show ?thesis using True by (simp add: applyPatch_def)
next
  case False
  then show ?thesis using assms by (simp add: applyPatch_def patch_law_def Let_def)
qed

text \<open>The untracked candidates of a snapshot are the untracked files, with their contents.\<close>

definition files_captured :: "(string \<Rightarrow> bool) \<Rightarrow> repo \<Rightarrow> candidate list \<Rightarrow> bool" where
  "files_captured ignored r fs \<longleftrightarrow>
     (\<forall>f \<in> set fs. cf_isUntracked f \<longrightarrow> rp_index r (cf_path f) = None \<and> repo_path_ok (cf_path f) \<and> cf_oldPath f = None \<and>
        \<not> special ignored (cf_path f) \<and> rp_work r (cf_path f) \<noteq> None \<and> cf_entry f = map_option plain_entry (rp_work r (cf_path f))) \<and>
     (\<forall>f \<in> set fs. \<not> cf_isUntracked f \<longrightarrow> (\<forall>p \<in> paths_of f. rp_index r p \<noteq> None)) \<and>
     (\<forall>p. rp_index r p = None \<longrightarrow> rp_work r p \<noteq> None \<longrightarrow> \<not> special ignored p \<longrightarrow>
        (\<exists>f \<in> set fs. cf_isUntracked f \<and> cf_path f = p))"

lemma rewrite_all:
  assumes "\<forall>f \<in> set fs. cf_isUntracked f \<longrightarrow> repo_path_ok (cf_path f) \<and> cf_entry f = map_option plain_entry (wk (cf_path f)) \<and>
       (\<forall>c. wk (cf_path f) \<noteq> Some (RegularFile True c)) \<and> wk (cf_path f) \<noteq> None"
    and "distinct (map cf_path fs)" and "\<forall>f \<in> set fs. cf_isUntracked f \<longrightarrow> rp_work r (cf_path f) = None"
  shows "run_all (map rewrite_untracked fs) r =
    (r\<lparr>rp_work := (\<lambda>p. if p \<in> cf_path ` {f \<in> set fs. cf_isUntracked f} then wk p else rp_work r p)\<rparr>, True)"
  using assms
proof (induction fs arbitrary: r)
  case (Cons f fs)
  show ?case
  proof (cases "cf_isUntracked f")
    case False
    then have "rewrite_untracked f r = (r, True)" by (simp add: rewrite_untracked_def)
    moreover have "cf_path ` {f' \<in> set (f # fs). cf_isUntracked f'} = cf_path ` {f' \<in> set fs. cf_isUntracked f'}"
      using False by auto
    ultimately show ?thesis using Cons.IH [of r] Cons.prems by simp
  next
    case True
    have "rewrite_untracked f r = (r\<lparr>rp_work := (rp_work r)(cf_path f := wk (cf_path f))\<rparr>, True)"
    proof -
      have ok: "repo_path_ok (cf_path f)" "rp_work r (cf_path f) = None"
        "cf_entry f = map_option plain_entry (wk (cf_path f))" "\<forall>c. wk (cf_path f) \<noteq> Some (RegularFile True c)"
        using Cons.prems True by simp_all
      obtain e where e: "wk (cf_path f) = Some e" using Cons.prems(1) True by auto
      show ?thesis
      proof (cases e)
        case (RegularFile x c)
        then show ?thesis using True ok e by (cases x) (simp_all add: rewrite_untracked_def)
      next
        case (SymbolicLink t)
        then show ?thesis using True ok e by (simp add: rewrite_untracked_def)
      qed
    qed
    moreover let ?r1 = "r\<lparr>rp_work := (rp_work r)(cf_path f := wk (cf_path f))\<rparr>"
    have "run_all (map rewrite_untracked fs) ?r1 =
        (?r1\<lparr>rp_work := (\<lambda>p. if p \<in> cf_path ` {f \<in> set fs. cf_isUntracked f} then wk p else rp_work ?r1 p)\<rparr>, True)"
    proof (rule Cons.IH)
      show "\<forall>f \<in> set fs. cf_isUntracked f \<longrightarrow> repo_path_ok (cf_path f) \<and> cf_entry f = map_option plain_entry (wk (cf_path f)) \<and>
          (\<forall>c. wk (cf_path f) \<noteq> Some (RegularFile True c)) \<and> wk (cf_path f) \<noteq> None"
        using Cons.prems(1) by simp
      show "distinct (map cf_path fs)" using Cons.prems(2) by simp
      show "\<forall>h \<in> set fs. cf_isUntracked h \<longrightarrow> rp_work ?r1 (cf_path h) = None"
      proof (intro ballI impI)
        fix h assume h: "h \<in> set fs" "cf_isUntracked h"
        then have "cf_path h \<noteq> cf_path f" using Cons.prems(2) by (metis distinct.simps(2) image_eqI list.set_map list.simps(9))
        then show "rp_work ?r1 (cf_path h) = None" using h Cons.prems(3) by simp
      qed
    qed
    moreover have "cf_path ` {h \<in> set (f # fs). cf_isUntracked h} = insert (cf_path f) (cf_path ` {h \<in> set fs. cf_isUntracked h})"
      using True by auto
    ultimately show ?thesis by (simp cong: if_cong) (rule arg_cong [where f = "\<lambda>w. r\<lparr>rp_work := w\<rparr>"], auto)
  qed
qed simp


lemma decision_index_frame:
  assumes "decision_step g d r = (r1, b)" and p: "p \<notin> paths_of (decision_candidate d)" and l: "hunks_local g (decision_candidate d)"
  shows "rp_index r1 p = rp_index r p"
proof (cases d)
  case (DecideFile f v)
  then show ?thesis using assms restore_all [of "candidatePaths f" r r1 b]
    by (auto simp: decision_step_def stageFileLevelDecision_def rejectFileLevelDecision_def removeRepoPath_def Let_def
        split: if_splits)
next
  case (DecideHunks f m)
  show ?thesis
  proof (cases "accepted_hunks f m = []")
    case True
    then show ?thesis using assms DecideHunks restore_all [of "candidatePaths f" r r1 b]
      by (simp add: decision_step_def applyHunkDecision_def)
  next
    case False
    obtain r2 b2 where a: "applyPatch g (hunkPatch f (accepted_hunks f m)) PatchCached r = (r2, b2)" by fastforce
    have i: "rp_index r2 p = rp_index r p"
      using apply_cached [OF a] l p DecideHunks by (cases b2) (auto simp: hunks_local_def)
    show ?thesis
    proof (cases b2)
      case True
      then have "run_all (map restorePathFromIndex (candidatePaths f)) r2 = (r1, b)"
        using assms(1) DecideHunks False a by (simp add: decision_step_def applyHunkDecision_def Let_def)
      from restore_all [OF this] i show ?thesis by simp
    next
      case False': False
      then have "r1 = r2" using assms(1) DecideHunks False a by (simp add: decision_step_def applyHunkDecision_def Let_def)
      then show ?thesis using i by simp
    qed
  qed
qed

text \<open>However far the steps get, other paths stay as they are.\<close>

lemma steps_frame:
  assumes run: "run_all (decision_steps g sn ds @ (if commit then [commitEvaluationSnapshot g] else [])) r = (r1, b)"
    and c: "\<forall>f \<in> set (sn_files sn). \<forall>d. dget ds (cf_path f) = Some d \<longrightarrow> decision_candidate d = f"
    and l: "\<forall>f \<in> set (sn_files sn). hunks_local g f"
    and p: "\<forall>f \<in> set (sn_files sn). p \<notin> paths_of f"
  shows "rp_index r1 p = rp_index r p \<and> rp_work r1 p = rp_work r p"
proof (rule run_all_inv [where P = "\<lambda>q. rp_index q p = rp_index r p \<and> rp_work q p = rp_work r p", OF _ run])
  fix s q q1 b1
  assume s: "s \<in> set (decision_steps g sn ds @ (if commit then [commitEvaluationSnapshot g] else []))" "s q = (q1, b1)"
    and q: "rp_index q p = rp_index r p \<and> rp_work q p = rp_work r p"
  have "rp_index q1 p = rp_index q p \<and> rp_work q1 p = rp_work q p"
  proof (cases "s \<in> set (decision_steps g sn ds)")
    case True
    then obtain f where f: "f \<in> set (sn_files sn)"
      and sf: "s = (case dget ds (cf_path f) of None \<Rightarrow> (\<lambda>r. (r, False)) | Some d \<Rightarrow> decision_step g d)"
      by (auto simp: decision_steps_def)
    show ?thesis
    proof (cases "dget ds (cf_path f)")
      case None
      then show ?thesis using sf s(2) by simp
    next
      case (Some d)
      then have "decision_step g d q = (q1, b1)" "decision_candidate d = f" using sf s(2) c f by simp_all
      with decision_work_frame [OF this(1)] decision_index_frame [OF this(1)] l p f show ?thesis by simp
    qed
  next
    case False
    then show ?thesis using s by (auto simp: commitEvaluationSnapshot_def split: if_splits)
  qed
  with q show "rp_index q1 p = rp_index r p \<and> rp_work q1 p = rp_work r p" by simp
qed simp

lemma restored:
  assumes laws: "patch_law g (rp_head r) (rp_index r)" "patch_law g (rp_index r) (tracked r)" "untracked_law g ignored U"
    and usual: "usual_repo ignored U r" and files: "files_captured ignored r (sn_files sn)"
    and dist: "distinct (map cf_path (sn_files sn))"
    and sn: "sn_base sn = rp_head r" "sn_staged sn = gt_diff g (rp_head r) (rp_index r)"
      "sn_candidate sn = gt_diff g (rp_index r) (tracked r)"
    and frame: "\<And>p. special ignored p \<Longrightarrow> rp_index r1 p = rp_index r p \<and> rp_work r1 p = rp_work r p"
    and small: "\<And>p. p \<notin> set U \<Longrightarrow> rp_work r1 p = None"
  shows "restoreEvaluationSnapshotAfterFailure g sn r1 = (r, True)"
proof -
  define rr where "rr = reset_hard (rp_head r) r1"
  have rr: "rp_head rr = rp_head r" "rp_index rr = rp_head r"
    "rp_work rr p = (if rp_head r p \<noteq> None then rp_head r p else if rp_index r1 p \<noteq> None then None else rp_work r1 p)" for p
    by (simp_all add: rr_def reset_hard_def)
  have U: "p \<notin> set U \<Longrightarrow> rp_head r p = None \<and> rp_index r p = None \<and> rp_work r p = None" for p
    using usual by (simp add: usual_repo_def)
  have spec: "special ignored p \<Longrightarrow> rp_head r p = None \<and> rp_index r p = None" for p
    using usual by (simp add: usual_repo_def)
  have "\<exists>ps. untracked_paths g rr = Inr ps \<and> set ps = {p. rp_index rr p = None \<and> rp_work rr p \<noteq> None \<and> \<not> special ignored p}"
    by (rule untracked_paths_usual [OF laws(3)]) (use usual U small in \<open>auto simp: usual_repo_def rr\<close>)
  then obtain ps where ps: "untracked_paths g rr = Inr ps"
    and set_ps: "set ps = {p. rp_head r p = None \<and> rp_work rr p \<noteq> None \<and> \<not> special ignored p}"
    by (auto simp: rr)
  have "\<forall>p \<in> set ps. p \<in> set U"
  proof (intro ballI, rule ccontr)
    fix p assume p: "p \<in> set ps" "p \<notin> set U"
    then have "rp_work rr p = None" using small [OF p(2)] U [OF p(2)] by (simp add: rr)
    with p(1) set_ps show False by simp
  qed
  then have ok: "\<forall>p \<in> set ps. repo_path_ok p" using usual by (simp add: usual_repo_def)
  define w2 where "w2 = (\<lambda>p. if p \<in> set ps then None else rp_work rr p)"
  have w2: "w2 p = (if special ignored p then rp_work r p else rp_head r p)" for p
    using frame [of p] spec [of p] set_ps by (auto simp: w2_def rr)
  define w3 where "w3 = (\<lambda>p. if rp_head r p \<noteq> rp_index r p then rp_index r p else w2 p)"
  have w3: "w3 p = (if special ignored p then rp_work r p else rp_index r p)" for p
    using spec [of p] by (simp add: w3_def w2)
  define w4 where "w4 = (\<lambda>p. if rp_index r p \<noteq> tracked r p then tracked r p else w3 p)"
  have w4: "w4 p = (if special ignored p \<or> rp_index r p \<noteq> None then rp_work r p else None)" for p
    using spec [of p] by (auto simp: w4_def w3 tracked_def)
  let ?q1 = "rr\<lparr>rp_work := w2\<rparr>" and ?q2 = "rr\<lparr>rp_work := w3, rp_index := rp_index r\<rparr>"
  let ?q3 = "rr\<lparr>rp_work := w4, rp_index := rp_index r\<rparr>"
  have s1: "run_all (map removeRepoPath ps) rr = (?q1, True)" using remove_all [OF ok] by (simp add: w2_def)
  have s2: "applyPatch g (sn_staged sn) PatchIndex ?q1 = (?q2, True)"
    unfolding sn(2) by (subst apply_index [OF laws(1)]) (use spec in \<open>auto simp: rr w2 w3_def cong: if_cong\<close>)
  have s3: "applyPatch g (sn_candidate sn) PatchWorktree ?q2 = (?q3, True)"
    unfolding sn(3) by (subst apply_worktree [OF laws(2)]) (use spec in \<open>auto simp: w3 w4_def tracked_def cong: if_cong\<close>)
  have s4: "run_all (map rewrite_untracked (sn_files sn)) ?q3 =
      (?q3\<lparr>rp_work := (\<lambda>p. if p \<in> cf_path ` {f \<in> set (sn_files sn). cf_isUntracked f} then rp_work r p else rp_work ?q3 p)\<rparr>, True)"
  proof (rule rewrite_all [OF _ dist])
    show "\<forall>f \<in> set (sn_files sn). cf_isUntracked f \<longrightarrow> repo_path_ok (cf_path f) \<and>
        cf_entry f = map_option plain_entry (rp_work r (cf_path f)) \<and>
        (\<forall>c. rp_work r (cf_path f) \<noteq> Some (RegularFile True c)) \<and> rp_work r (cf_path f) \<noteq> None"
      using files usual by (simp add: files_captured_def usual_repo_def) blast
    show "\<forall>f \<in> set (sn_files sn). cf_isUntracked f \<longrightarrow> rp_work ?q3 (cf_path f) = None"
      using files by (simp add: files_captured_def w4)
  qed
  have final: "(\<lambda>p. if p \<in> cf_path ` {f \<in> set (sn_files sn). cf_isUntracked f} then rp_work r p else w4 p) = rp_work r"
  proof
    fix p
    show "(if p \<in> cf_path ` {f \<in> set (sn_files sn). cf_isUntracked f} then rp_work r p else w4 p) = rp_work r p"
    proof (cases "p \<in> cf_path ` {f \<in> set (sn_files sn). cf_isUntracked f}")
      case False
      then have "\<not> (rp_index r p = None \<and> rp_work r p \<noteq> None \<and> \<not> special ignored p)"
        using files by (auto simp: files_captured_def)
      then show ?thesis using False by (auto simp: w4)
    qed simp
  qed
  have "?q3\<lparr>rp_work := rp_work r\<rparr> = r" using rr by (cases r; cases rr) simp
  with s4 final have s4': "run_all (map rewrite_untracked (sn_files sn)) ?q3 = (r, True)" by (simp cong: if_cong)
  show ?thesis
    unfolding restoreEvaluationSnapshotAfterFailure_def Let_def sn(1) rr_def [symmetric] ps sum.case
    by (simp add: run_all_append s1 s2 s3 s4')
qed

lemma captured_files:
  assumes c: "captureEvaluationSnapshot g base r = Inr sn" and laws: "untracked_law g ignored U" "name_status_law g r"
    and usual: "usual_repo ignored U r"
  shows "files_captured ignored r (sn_files sn)"
    and "sn_staged sn = gt_diff g (rp_head r) (rp_index r)" and "sn_candidate sn = gt_diff g (rp_index r) (tracked r)"
proof -
  have "\<exists>ps. untracked_paths g r = Inr ps \<and> set ps = {p. rp_index r p = None \<and> rp_work r p \<noteq> None \<and> \<not> special ignored p}"
    by (rule untracked_paths_usual [OF laws(1)]) (use usual in \<open>auto simp: usual_repo_def\<close>)
  then obtain ps where ps: "untracked_paths g r = Inr ps"
    and set_ps: "set ps = {p. rp_index r p = None \<and> rp_work r p \<noteq> None \<and> \<not> special ignored p}" by blast
  from c ps obtain fs us where fs: "map_res (diff_candidate g r) (parseNameStatusZ (gt_nameStatus g (rp_index r) (tracked r))) = Inr fs"
    and us: "map_res (untracked_candidate r) ps = Inr us" and sn: "sn_files sn = fs @ us"
    and d: "sn_staged sn = gt_diff g (rp_head r) (rp_index r)" "sn_candidate sn = gt_diff g (rp_index r) (tracked r)"
    by (auto simp: captureEvaluationSnapshot_def split: sum.splits)
  have val: "validateEvaluationPath q = Inr q" if "rp_index r q \<noteq> None" for q
    using usual that by (force simp: usual_repo_def)
  have F: "\<not> cf_isUntracked f \<and> (\<forall>p \<in> paths_of f. rp_index r p \<noteq> None)" if f: "f \<in> set fs" for f
  proof -
    obtain e where e: "e \<in> set (parseNameStatusZ (gt_nameStatus g (rp_index r) (tracked r)))" "diff_candidate g r e = Inr f"
      using map_res_set [OF fs f] by blast
    obtain x p old where x: "e = (x, p, old)" by (cases e) auto
    have p: "rp_index r p \<noteq> None" and q: "\<And>q. old = Some q \<Longrightarrow> rp_index r q \<noteq> None"
      using laws(2) e x by (auto simp: name_status_law_def)
    have "cf_path f = p \<and> cf_oldPath f = old \<and> \<not> cf_isUntracked f"
      using e(2) x val [OF p] val q
      by (cases old) (auto simp: diff_candidate_def Let_def split: prod.splits)
    then show ?thesis using p q by (auto simp: candidatePaths_def split: option.splits if_splits)
  qed
  have G: "cf_isUntracked f \<and> cf_path f \<in> set ps \<and> repo_path_ok (cf_path f) \<and> cf_oldPath f = None \<and>
      cf_entry f = map_option plain_entry (rp_work r (cf_path f))" if f: "f \<in> set us" for f
    using map_res_set [OF us f] by (auto simp: untracked_candidate_def split: option.splits if_splits)
  have H: "\<exists>f \<in> set us. cf_path f = p" if "p \<in> set ps" for p
  proof -
    from map_res_set' [OF us that] obtain f where "f \<in> set us" "untracked_candidate r p = Inr f" by blast
    then show ?thesis by (intro bexI [of _ f]) (auto simp: untracked_candidate_def split: option.splits if_splits)
  qed
  show "files_captured ignored r (sn_files sn)"
    unfolding files_captured_def sn
  proof (intro conjI ballI allI impI)
    fix f assume "f \<in> set (fs @ us)" "cf_isUntracked f"
    then have "f \<in> set us" using F by auto
    with G [OF this] set_ps show "rp_index r (cf_path f) = None" "repo_path_ok (cf_path f)" "cf_oldPath f = None"
      "\<not> special ignored (cf_path f)" "rp_work r (cf_path f) \<noteq> None" "cf_entry f = map_option plain_entry (rp_work r (cf_path f))"
      by simp_all
  next
    fix f p assume "f \<in> set (fs @ us)" "\<not> cf_isUntracked f" "p \<in> paths_of f"
    then show "rp_index r p \<noteq> None" using F G by (metis UnE set_append)
  next
    fix p assume "rp_index r p = None" "rp_work r p \<noteq> None" "\<not> special ignored p"
    then have "p \<in> set ps" using set_ps by simp
    with H G show "\<exists>f \<in> set (fs @ us). cf_isUntracked f \<and> cf_path f = p" by (metis UnI2 set_append)
  qed
  show "sn_staged sn = gt_diff g (rp_head r) (rp_index r)" "sn_candidate sn = gt_diff g (rp_index r) (tracked r)"
    using d by simp_all
qed


section \<open>Properties\<close>

text \<open> C7. The check of the verdicts accepts exactly the complete sets: every verdict names a candidate,
  has a known action and a positive hunk, no file and hunk is judged twice, and every candidate has
  one verdict for the whole file or one for each of its hunks (and then it has hunks). \<close>
theorem verdicts_accepted_iff_complete:
  assumes "\<forall>f \<in> set files. hunks_numbered f"
  shows "(\<exists>x. validateEvaluationVerdicts files vs = Inr x) \<longleftrightarrow> complete_verdicts files vs"
  by (rule validate_ok_iff [OF assms])

definition file_u :: candidate where
  "file_u = \<lparr>cf_path = ''u'', cf_oldPath = None, cf_status = Untracked, cf_statusCode = ''??'', cf_header = [],
     cf_hunks = [], cf_isBinary = False, cf_isUntracked = True, cf_isRenameOnly = False, cf_requiresFileVerdict = True,
     cf_entry = Some (RegularFile False ''x'')\<rparr>"

definition verdict_u :: "ev_action \<Rightarrow> ev_verdict" where
  "verdict_u a = \<lparr>vd_file = ''u'', vd_hunk = None, vd_action = a, vd_outcome = None\<rparr>"

theorem verdicts_accepted_iff_complete_witness:
  "complete_verdicts [file_u] [verdict_u Accept]"
proof -
  have "\<forall>f \<in> set [file_u]. hunks_numbered f" by (simp add: hunks_numbered_def file_u_def)
  moreover have "case validateEvaluationVerdicts [file_u] [verdict_u Accept] of Inr _ \<Rightarrow> True | Inl _ \<Rightarrow> False" by code_simp
  then have "\<exists>x. validateEvaluationVerdicts [file_u] [verdict_u Accept] = Inr x" by (auto split: sum.splits)
  ultimately show ?thesis using verdicts_accepted_iff_complete by blast
qed

text \<open> C6. What an application of the verdicts leaves: on the paths of a file accepted as a whole, index and
  worktree have the candidate content; on those of a rejected or to-be-reviewed one both have what
  was in the index; after hunk verdicts the worktree is what the index is, and the index is unchanged
  when no hunk was accepted. Every other path is untouched, and a commit has the tree of the index. \<close>
theorem rejected_changes_are_gone:
  assumes "applyEvaluationVerdicts g commit sn vs r = (r1, Inr (sm, b))"
    and "distinct (concat (map candidatePaths (sn_files sn)))"
    and "\<forall>f \<in> set (sn_files sn). hunks_local g f \<and> untracked_free r f"
  shows "\<exists>ds. validateEvaluationVerdicts (sn_files sn) vs = Inr (ds, sm) \<and> b = commit \<and>
    rp_head r1 = (if commit then rp_index r1 else rp_head r) \<and>
    (\<forall>p. p \<notin> (\<Union>f \<in> set (sn_files sn). set (candidatePaths f)) \<longrightarrow> rp_index r1 p = rp_index r p \<and> rp_work r1 p = rp_work r p) \<and>
    (\<forall>f \<in> set (sn_files sn). \<exists>d. dget ds (cf_path f) = Some d \<and> decision_candidate d = f \<and>
       (\<forall>p \<in> set (candidatePaths f). decided d r r1 p))"
  by (rule applied [OF assms])

definition git_u :: git where
  "git_u = \<lparr>gt_diff = (\<lambda>_ _. []), gt_pathDiff = (\<lambda>_ _ _. []), gt_nameStatus = (\<lambda>_ _. []), gt_apply = (\<lambda>_ _. None),
     gt_untracked = (\<lambda>i w. filter (\<lambda>p. i p = None \<and> w p \<noteq> None) [''u'']), gt_commit_ok = False, gt_sha = (\<lambda>s. s)\<rparr>"

definition repo_u :: repo where
  "repo_u = \<lparr>rp_head = (\<lambda>_. None), rp_index = (\<lambda>_. None), rp_work = (\<lambda>p. if p = ''u'' then Some (RegularFile False ''x'') else None)\<rparr>"

definition snap_u :: ev_snapshot where
  "snap_u = \<lparr>sn_base = (\<lambda>_. None), sn_staged = [], sn_candidate = [], sn_files = [file_u]\<rparr>"

theorem rejected_changes_are_gone_witness:
  "\<exists>r1 sm b. applyEvaluationVerdicts git_u False snap_u [verdict_u Review] repo_u = (r1, Inr (sm, b)) \<and> rp_work r1 ''u'' = None"
proof -
  have "case applyEvaluationVerdicts git_u False snap_u [verdict_u Review] repo_u of (_, Inr _) \<Rightarrow> True | _ \<Rightarrow> False"
    by code_simp
  then obtain r1 sm b where a: "applyEvaluationVerdicts git_u False snap_u [verdict_u Review] repo_u = (r1, Inr (sm, b))"
    by (auto split: prod.splits sum.splits)
  have d: "distinct (concat (map candidatePaths (sn_files snap_u)))" by code_simp
  have u: "\<forall>f \<in> set (sn_files snap_u). hunks_local git_u f \<and> untracked_free repo_u f"
    by (simp add: hunks_local_def git_u_def untracked_free_def snap_u_def repo_u_def file_u_def)
  from rejected_changes_are_gone [OF a d u] obtain ds d where ds: "validateEvaluationVerdicts [file_u] [verdict_u Review] = Inr (ds, sm)"
    "dget ds ''u'' = Some d" "decision_candidate d = file_u" "\<forall>p \<in> set (candidatePaths file_u). decided d repo_u r1 p"
    by (auto simp: snap_u_def file_u_def)
  have "map_option (\<lambda>d. case d of DecideFile _ v \<Rightarrow> vd_action v | _ \<Rightarrow> Accept)
      (case validateEvaluationVerdicts [file_u] [verdict_u Review] of Inr (ds, _) \<Rightarrow> dget ds ''u'' | _ \<Rightarrow> None) = Some Review"
    by code_simp
  then obtain v where "d = DecideFile file_u v" "vd_action v = Review" using ds(1-3) by (auto split: ev_decision.splits)
  moreover have "''u'' \<in> set (candidatePaths file_u)" by code_simp
  ultimately have "rp_work r1 ''u'' = rp_index repo_u ''u''" using ds(4) by (auto simp: decided_def)
  with a show ?thesis by (auto simp: repo_u_def)
qed

text \<open> C5. When applying verdicts fails half-way (a patch that does not apply, a path git refuses, a commit that
  fails), head, index and worktree are again exactly as they were captured: staged changes,
  candidate changes and untracked files (regular files that are not executable, and links). \<close>
theorem failed_application_restores:
  assumes "captureEvaluationSnapshot g (Some (rp_head r)) r = Inr sn" and "applyEvaluationVerdicts g commit sn vs r = (r1, Inl e)"
    and "patch_law g (rp_head r) (rp_index r)" and "patch_law g (rp_index r) (tracked r)"
    and "untracked_law g ignored U" and "name_status_law g r" and "usual_repo ignored U r"
    and "distinct (concat (map candidatePaths (sn_files sn)))" and "\<forall>f \<in> set (sn_files sn). hunks_local g f"
  shows "r1 = r"
proof -
  note cf = captured_files [OF assms(1,5,6,7)]
  have base: "sn_base sn = rp_head r" using assms(1) by (auto simp: captureEvaluationSnapshot_def split: sum.splits)
  show ?thesis
  proof (cases "validateEvaluationVerdicts (sn_files sn) vs")
    case (Inl x)
    then show ?thesis using assms(2) by (simp add: applyEvaluationVerdicts_def)
  next
    case (Inr y)
    obtain ds sm where y: "y = (ds, sm)" by fastforce
    show ?thesis
    proof (cases "assertNoEvaluationDrift g sn r")
      case (Some x)
      then show ?thesis using assms(2) Inr y by (simp add: applyEvaluationVerdicts_def)
    next
      case None
      obtain r2 b where run: "run_all (decision_steps g sn ds @ (if commit then [commitEvaluationSnapshot g] else [])) r = (r2, b)"
        by fastforce
      with assms(2) Inr y None have r1: "r1 = fst (restoreEvaluationSnapshotAfterFailure g sn r2)"
        by (cases b) (auto simp: applyEvaluationVerdicts_def)
      from Inr y obtain m where d: "decide_files m (sn_files sn) [] no_summary = Inr (ds, sm)"
        by (auto simp: validateEvaluationVerdicts_def split: sum.splits)
      have c: "\<forall>f \<in> set (sn_files sn). \<forall>d. dget ds (cf_path f) = Some d \<longrightarrow> decision_candidate d = f"
        using decide_files_candidates [OF d distinct_paths [OF assms(8)]] by fastforce
      have kept: "rp_index r2 p = rp_index r p \<and> rp_work r2 p = rp_work r p" if "\<forall>f \<in> set (sn_files sn). p \<notin> set (candidatePaths f)" for p
        by (rule steps_frame [OF run c assms(9) that])
      have other: "\<forall>f \<in> set (sn_files sn). p \<notin> set (candidatePaths f)" if "special ignored p \<or> p \<notin> set U" for p
      proof (intro ballI notI)
        fix f assume f: "f \<in> set (sn_files sn)" "p \<in> set (candidatePaths f)"
        show False
        proof (cases "cf_isUntracked f")
          case True
          then have "p = cf_path f" using f cf(1) by (auto simp: files_captured_def candidatePaths_def)
          then show False using that True f(1) cf(1) assms(7) by (auto simp: files_captured_def usual_repo_def)
        next
          case False
          then show False using that f cf(1) assms(7) by (force simp: files_captured_def usual_repo_def)
        qed
      qed
      have "restoreEvaluationSnapshotAfterFailure g sn r2 = (r, True)"
      proof (rule restored [OF assms(3,4,5,7) cf(1) distinct_paths [OF assms(8)] base cf(2,3)])
        show "rp_index r2 p = rp_index r p \<and> rp_work r2 p = rp_work r p" if "special ignored p" for p
          using kept other that by blast
        show "rp_work r2 p = None" if "p \<notin> set U" for p
          using kept other that assms(7) by (simp add: usual_repo_def)
      qed
      with r1 show ?thesis by simp
    qed
  qed
qed

theorem failed_application_restores_witness:
  "\<exists>e. applyEvaluationVerdicts git_u True snap_u [verdict_u Reject] repo_u = (repo_u, Inl e)"
proof -
  have c: "captureEvaluationSnapshot git_u (Some (rp_head repo_u)) repo_u = Inr snap_u"
    by (simp add: captureEvaluationSnapshot_def git_u_def repo_u_def snap_u_def parseNameStatusZ_def splitNul_def
        untracked_paths_def validateEvaluationPath_def trim_def is_ws_def to_slash_def win32_absolute_def posix_normalize_def
        is_letter_def code_def isInternalEvaluationArtifactPath_def untracked_candidate_def repo_path_ok_def Let_def file_u_def)
  have "case applyEvaluationVerdicts git_u True snap_u [verdict_u Reject] repo_u of (_, Inl _) \<Rightarrow> True | _ \<Rightarrow> False"
    by code_simp
  then obtain r1 e where a: "applyEvaluationVerdicts git_u True snap_u [verdict_u Reject] repo_u = (r1, Inl e)"
    by (auto split: prod.splits sum.splits)
  have p: "patch_law git_u (rp_head repo_u) (rp_index repo_u)" "patch_law git_u (rp_index repo_u) (tracked repo_u)"
    by (simp_all add: patch_law_def git_u_def repo_u_def tracked_def trim_def)
  have l: "untracked_law git_u (\<lambda>_. False) [''u'']"
    unfolding untracked_law_def
  proof (intro allI impI)
    fix i w :: tree
    assume a: "\<forall>p. p \<notin> set [''u''] \<longrightarrow> i p = None \<and> w p = None"
    show "set (gt_untracked git_u i w) = {p. i p = None \<and> w p \<noteq> None \<and> \<not> False}"
    proof (rule set_eqI)
      fix p show "p \<in> set (gt_untracked git_u i w) \<longleftrightarrow> p \<in> {p. i p = None \<and> w p \<noteq> None \<and> \<not> False}"
        using a by (cases "p = ''u''") (simp_all add: git_u_def)
    qed
  qed
  have n: "name_status_law git_u repo_u"
    by (simp add: name_status_law_def git_u_def parseNameStatusZ_def splitNul_def)
  have v: "validateEvaluationPath ''u'' = Inr ''u''" "repo_path_ok ''u''" "\<not> isInternalEvaluationArtifactPath ''u''" by code_simp+
  have u: "usual_repo (\<lambda>_. False) [''u''] repo_u" using v by (simp add: usual_repo_def repo_u_def)
  have d: "distinct (concat (map candidatePaths (sn_files snap_u)))" by code_simp
  have h: "\<forall>f \<in> set (sn_files snap_u). hunks_local git_u f" by (simp add: hunks_local_def git_u_def)
  from failed_application_restores [OF c a p l n u d h] a show ?thesis by blast
qed


text \<open>The mode of an untracked file is not captured: after a failure the file is no longer executable.\<close>

definition repo_x :: repo where
  "repo_x = repo_u\<lparr>rp_work := (\<lambda>p. if p = ''u'' then Some (RegularFile True ''x'') else None)\<rparr>"

lemma restore_drops_exec_bit:
  "rp_work repo_x ''u'' = Some (RegularFile True ''x'')"
  "rp_work (fst (applyEvaluationVerdicts git_u True snap_u [verdict_u Reject] repo_x)) ''u'' = Some (RegularFile False ''x'')"
  by code_simp+

end
