(* ===== verification/GitOps.thy ===== *)
theory GitOps
  imports PlanState Frontmatter "HOL-Library.Sublist"
begin

text \<open>
  The git commands of a build (\<open>git.ts\<close>, \<open>worktree-ops.ts\<close>, \<open>branch-policy.ts\<close>). What an operation does to the
  repository is the sequence of commands it runs; the answer to a command is an arbitrary function of all
  commands and answers before it, so whatever git, \<open>gh\<close>, the file system or an agent does in between is
  covered. The lemmas say in which order commands are run, and after which answers.
\<close>

section \<open>Calls and answers\<close>

record conflict_info =
  ci_branch :: string
  ci_base :: string
  ci_files :: "string list"
  ci_diff :: string
  ci_planName :: "string option"
  ci_otherPlanName :: "string option"

text \<open>
  \<open>Git\<close> and \<open>Gh\<close> are processes with their directory and arguments; \<open>Resolve\<close> asks the merge resolver,
  \<open>Freshness\<close> a freshness guard (before the push, or before the creation of a pull request); the others
  are file system calls, and \<open>Provenance\<close> and \<open>StripMarkers\<close> helpers that can fail.
\<close>

datatype call =
    Git string "string list" | Gh string "string list" | Resolve string conflict_info | Freshness bool
  | Exists string | MakeDir string | RemoveDir string | Unlink string | AgeOf string | ReadText string
  | WriteText string string | ListDir string | TempDir | Provenance | StripMarkers

datatype reply = Out string | Age nat | Entries "string list" | Yes bool | Failed string | NotFresh bool string "string option"

type_synonym history = "(call \<times> reply) list"
type_synonym answers = "history \<Rightarrow> call \<Rightarrow> reply"

text \<open>What is thrown; \<open>Thrown\<close> is the error of a process or of the file system, with its message.\<close>

datatype op_error =
    Thrown string
  | StaleBase bool string "string option"
  | WrongBranch string | DirtyRepo "string list" | DirtyMergeWorktree "string list" | NothingCommitted
  | NoBaseRef | NoMergeWorktree | PinNotAncestral | NoGh | StillDirty "string list" | ResetFailed op_error string

type_synonym 'a git_act = "history \<Rightarrow> history \<times> (op_error, 'a) result"

definition askOp :: "answers \<Rightarrow> call \<Rightarrow> reply git_act" where
  "askOp g c h =
     (let r = g h c; h1 = h @ [(c, r)]
      in (h1, case r of Failed m \<Rightarrow> Inl (Thrown m) | NotFresh retry why sha \<Rightarrow> Inl (StaleBase retry why sha) | _ \<Rightarrow> Inr r))"

definition retOp :: "'a \<Rightarrow> 'a git_act" where
  "retOp x h = (h, Inr x)"

definition throwOp :: "op_error \<Rightarrow> 'a git_act" where
  "throwOp e h = (h, Inl e)"

definition bindOp :: "'a git_act \<Rightarrow> ('a \<Rightarrow> 'b git_act) \<Rightarrow> 'b git_act" where
  "bindOp m f h = (case m h of (h1, Inl e) \<Rightarrow> (h1, Inl e) | (h1, Inr x) \<Rightarrow> f x h1)"

definition thenOp :: "'a git_act \<Rightarrow> 'b git_act \<Rightarrow> 'b git_act" where
  "thenOp m n = bindOp m (\<lambda>_. n)"

definition catchOp :: "'a git_act \<Rightarrow> (op_error \<Rightarrow> 'a git_act) \<Rightarrow> 'a git_act" where
  "catchOp m f h = (case m h of (h1, Inl e) \<Rightarrow> f e h1 | (h1, Inr x) \<Rightarrow> (h1, Inr x))"

definition bestEffort :: "'a git_act \<Rightarrow> unit git_act" where
  "bestEffort m = catchOp (thenOp m (retOp ())) (\<lambda>_. retOp ())"

text \<open>\<open>try ... finally\<close>: an error of the last part replaces the result.\<close>

definition finallyOp :: "'a git_act \<Rightarrow> 'b git_act \<Rightarrow> 'a git_act" where
  "finallyOp m n h = (case m h of (h1, r) \<Rightarrow> (case n h1 of (h2, Inl e) \<Rightarrow> (h2, Inl e) | (h2, Inr _) \<Rightarrow> (h2, r)))"

fun text_of :: "reply \<Rightarrow> string" where
  "text_of (Out s) = s"
| "text_of _ = []"

definition gitOp :: "answers \<Rightarrow> string \<Rightarrow> string list \<Rightarrow> string git_act" where
  "gitOp g cwd args = bindOp (askOp g (Git cwd args)) (\<lambda>r. retOp (text_of r))"

definition ghOp :: "answers \<Rightarrow> string \<Rightarrow> string list \<Rightarrow> string git_act" where
  "ghOp g cwd args = bindOp (askOp g (Gh cwd args)) (\<lambda>r. retOp (text_of r))"

text \<open>\<open>stdout.trim().split('\n').filter(Boolean)\<close>.\<close>

definition out_lines :: "string \<Rightarrow> string list" where
  "out_lines s = filter (\<lambda>l. l \<noteq> []) (split_on nl (trim s))"

section \<open>Locks and commits (git.ts)\<close>

definition isLockError :: "op_error \<Rightarrow> bool" where
  "isLockError e \<longleftrightarrow>
     (case e of
        Thrown m \<Rightarrow> sublist ''index.lock'' m \<or> (sublist ''Unable to create'' m \<and> sublist ''.lock'' m)
      | _ \<Rightarrow> False)"

definition git_dir :: "string \<Rightarrow> string \<Rightarrow> string" where
  "git_dir cwd out = (let d = trim out in if take 1 d = ''/'' then d else cwd @ ''/'' @ d)"

definition age_of :: "reply \<Rightarrow> nat" where
  "age_of r = (case r of Age n \<Rightarrow> n | _ \<Rightarrow> 0)"

definition removeStaleIndexLock :: "answers \<Rightarrow> string \<Rightarrow> bool git_act" where
  "removeStaleIndexLock g cwd =
     catchOp
       (bindOp (gitOp g cwd [''rev-parse'', ''--git-dir'']) (\<lambda>d.
          let lockPath = git_dir cwd d @ ''/index.lock'' in
          bindOp (askOp g (AgeOf lockPath)) (\<lambda>r.
            if age_of r > 5000 then thenOp (askOp g (Unlink lockPath)) (retOp True) else retOp False)))
       (\<lambda>_. retOp False)"

fun retry_from :: "answers \<Rightarrow> nat \<Rightarrow> 'a git_act \<Rightarrow> string \<Rightarrow> 'a git_act" where
  "retry_from g n fn cwd h =
     (case fn h of
        (h1, Inr x) \<Rightarrow> (h1, Inr x)
      | (h1, Inl e) \<Rightarrow>
          if \<not> isLockError e then (h1, Inl e)
          else case n of
                 0 \<Rightarrow> (h1, Inl e)
               | Suc n1 \<Rightarrow> retry_from g n1 fn cwd (fst (removeStaleIndexLock g cwd h1)))"

definition retryOnLock :: "answers \<Rightarrow> 'a git_act \<Rightarrow> string \<Rightarrow> 'a git_act" where
  "retryOnLock g fn cwd = retry_from g 5 fn cwd"

definition lockedGit :: "answers \<Rightarrow> string \<Rightarrow> string list \<Rightarrow> string git_act" where
  "lockedGit g cwd args = retryOnLock g (gitOp g cwd args) cwd"

definition ATTRIBUTION :: string where
  "ATTRIBUTION = ''Co-Authored-By: forged-by-eforge <noreply@eforge.build>''"

definition forgeCommit :: "answers \<Rightarrow> string \<Rightarrow> string \<Rightarrow> string list \<Rightarrow> unit git_act" where
  "forgeCommit g cwd message paths =
     thenOp (lockedGit g cwd ([''commit'', ''-m'', message @ [nl, nl] @ ATTRIBUTION] @ (if paths = [] then [] else ''--'' # paths)))
       (retOp ())"

text \<open>With \<open>reuseMessage\<close>.\<close>

definition forgeCommitReuse :: "answers \<Rightarrow> string \<Rightarrow> unit git_act" where
  "forgeCommitReuse g cwd =
     bindOp (gitOp g cwd [''rev-parse'', ''--git-dir'']) (\<lambda>d.
       let path = git_dir cwd d @ ''/MERGE_MSG'' in
       bindOp (catchOp (bindOp (askOp g (ReadText path)) (\<lambda>r. retOp (text_of r))) (\<lambda>_. retOp [])) (\<lambda>msg.
         thenOp (if sublist ATTRIBUTION msg then retOp (Out [])
                 else askOp g (WriteText path (trimEnd msg @ [nl, nl] @ ATTRIBUTION)))
           (thenOp (lockedGit g cwd [''commit'', ''--no-edit'']) (retOp ()))))"


section \<open>Diffs\<close>

datatype diff_status = FileAdded | FileModified | FileDeleted | FileRenamed

definition diffStatus :: "string \<Rightarrow> diff_status" where
  "diffStatus s =
     (case s of
        [] \<Rightarrow> FileModified
      | c # _ \<Rightarrow> if c = CHR ''A'' then FileAdded else if c = CHR ''D'' then FileDeleted
                 else if c = CHR ''R'' then FileRenamed else FileModified)"

definition rename_code :: "string \<Rightarrow> bool" where
  "rename_code s \<longleftrightarrow> take 1 s = ''R''"

definition diff_entry :: "string \<Rightarrow> string \<Rightarrow> (string \<times> diff_status) list" where
  "diff_entry statusCode path = (if path = [] then [] else [(path, diffStatus statusCode)])"

fun diff_tokens :: "string list \<Rightarrow> (string \<times> diff_status) list" where
  "diff_tokens [] = []"
| "diff_tokens [_] = []"
| "diff_tokens [c, p] = diff_entry c p"
| "diff_tokens (c # p # q # ts) =
     (if rename_code c then diff_entry c q @ diff_tokens ts else diff_entry c p @ diff_tokens (q # ts))"

definition diff_line :: "string \<Rightarrow> (string \<times> diff_status) list" where
  "diff_line line =
     (if trim line = [] then []
      else case split_on (CHR 0x09) line of
             c # p # q # _ \<Rightarrow> diff_entry c (if rename_code c then q else p)
           | [c, p] \<Rightarrow> diff_entry c p
           | _ \<Rightarrow> [])"

definition parseGitNameStatus :: "string \<Rightarrow> (string \<times> diff_status) list" where
  "parseGitNameStatus out =
     (if CHR 0x00 \<in> set out
      then diff_tokens (rev (dropWhile (\<lambda>t. t = []) (rev (split_on (CHR 0x00) out))))
      else concat (map diff_line (split_on nl (trim out))))"

definition getNameStatusDiff :: "answers \<Rightarrow> string \<Rightarrow> string \<Rightarrow> string \<Rightarrow> (string \<times> diff_status) list git_act" where
  "getNameStatusDiff g cwd fromRef toRef =
     bindOp (gitOp g cwd [''diff'', ''--name-status'', ''--find-renames'', ''-z'', ''--end-of-options'', fromRef, toRef, ''--''])
       (\<lambda>out. retOp (parseGitNameStatus out))"

section \<open>Worktrees (worktree-ops.ts)\<close>

definition path_join :: "string \<Rightarrow> string \<Rightarrow> string" where
  "path_join a b = a @ ''/'' @ b"

definition createWorktree :: "answers \<Rightarrow> string \<Rightarrow> string \<Rightarrow> string \<Rightarrow> string \<Rightarrow> string git_act" where
  "createWorktree g repoRoot worktreeBase branch baseBranch =
     (let path = path_join worktreeBase (map (\<lambda>c. if c = CHR ''/'' then CHR ''-'' else c) branch) in
      thenOp (askOp g (MakeDir worktreeBase))
        (thenOp (catchOp (gitOp g repoRoot [''worktree'', ''add'', ''-b'', branch, path, baseBranch])
                   (\<lambda>_. gitOp g repoRoot [''worktree'', ''add'', path, branch]))
           (retOp path)))"

text \<open>The result says whether the fallback was needed.\<close>

definition removeWorktree :: "answers \<Rightarrow> string \<Rightarrow> string \<Rightarrow> bool git_act" where
  "removeWorktree g repoRoot path =
     catchOp (thenOp (gitOp g repoRoot [''worktree'', ''remove'', path, ''--force'']) (retOp False))
       (\<lambda>_. thenOp (askOp g (RemoveDir path)) (thenOp (gitOp g repoRoot [''worktree'', ''prune'']) (retOp True)))"

definition cleanupWorktrees :: "answers \<Rightarrow> string \<Rightarrow> string \<Rightarrow> unit git_act" where
  "cleanupWorktrees g repoRoot worktreeBase =
     thenOp (gitOp g repoRoot [''worktree'', ''prune'']) (thenOp (askOp g (RemoveDir worktreeBase)) (retOp ()))"

definition unmerged_files :: "answers \<Rightarrow> string \<Rightarrow> string git_act" where
  "unmerged_files g cwd = gitOp g cwd [''diff'', ''--name-only'', ''--diff-filter=U'']"

definition gatherConflictInfo :: "answers \<Rightarrow> string \<Rightarrow> string \<Rightarrow> string \<Rightarrow> conflict_info option git_act" where
  "gatherConflictInfo g cwd branch baseBranch =
     catchOp
       (bindOp (unmerged_files g cwd) (\<lambda>out.
          let files = out_lines out in
          if files = [] then retOp None
          else bindOp (catchOp (gitOp g cwd [''diff'']) (\<lambda>_. retOp [])) (\<lambda>d.
            retOp (Some \<lparr>ci_branch = branch, ci_base = baseBranch, ci_files = files, ci_diff = d,
                         ci_planName = None, ci_otherPlanName = None\<rparr>))))
       (\<lambda>_. retOp None)"

text \<open>A resolver is what it adds to the conflict before it asks the agent; \<open>commit\<close> ends the merge when
  nothing is left unmerged.\<close>

type_synonym resolver = "(conflict_info \<Rightarrow> conflict_info) option"

definition ask_resolver :: "answers \<Rightarrow> resolver \<Rightarrow> string \<Rightarrow> string \<Rightarrow> string \<Rightarrow> 'a git_act \<Rightarrow> 'a option git_act" where
  "ask_resolver g resolver cwd branch baseBranch commit =
     (case resolver of
        None \<Rightarrow> retOp None
      | Some f \<Rightarrow>
          catchOp
            (bindOp (gatherConflictInfo g cwd branch baseBranch) (\<lambda>info.
               case info of
                 None \<Rightarrow> retOp None
               | Some conflict \<Rightarrow>
                   bindOp (askOp g (Resolve cwd (f conflict))) (\<lambda>answer.
                     if answer = Yes True
                     then bindOp (unmerged_files g cwd) (\<lambda>out.
                            if trim out = [] then bindOp commit (\<lambda>x. retOp (Some x)) else retOp None)
                     else retOp None)))
            (\<lambda>_. retOp None))"

definition mergeWorktree :: "answers \<Rightarrow> string \<Rightarrow> string \<Rightarrow> string \<Rightarrow> string \<Rightarrow> resolver \<Rightarrow> unit git_act" where
  "mergeWorktree g cwd branch baseBranch message resolver =
     thenOp (lockedGit g cwd [''checkout'', baseBranch])
       (catchOp (thenOp (lockedGit g cwd [''merge'', ''--squash'', branch]) (forgeCommit g cwd message []))
          (\<lambda>err. bindOp (ask_resolver g resolver cwd branch baseBranch (forgeCommit g cwd message [])) (\<lambda>resolved.
             if resolved \<noteq> None then retOp ()
             else thenOp (bestEffort (lockedGit g cwd [''reset'', ''--merge''])) (throwOp err))))"

definition refExists :: "answers \<Rightarrow> string \<Rightarrow> string \<Rightarrow> bool git_act" where
  "refExists g cwd ref =
     catchOp (thenOp (gitOp g cwd [''rev-parse'', ''--verify'', ''--end-of-options'', ref]) (retOp True)) (\<lambda>_. retOp False)"

definition branchExists :: "answers \<Rightarrow> string \<Rightarrow> string \<Rightarrow> bool git_act" where
  "branchExists g cwd branch =
     catchOp (thenOp (gitOp g cwd [''show-ref'', ''--verify'', ''--quiet'', ''refs/heads/'' @ branch]) (retOp True)) (\<lambda>_. retOp False)"

definition getRefSha :: "answers \<Rightarrow> string \<Rightarrow> string \<Rightarrow> string git_act" where
  "getRefSha g cwd ref =
     bindOp (gitOp g cwd [''rev-parse'', ''--verify'', ''--end-of-options'', ref @ ''^{commit}'']) (\<lambda>out. retOp (trim out))"

definition is_hex :: "char \<Rightarrow> bool" where
  "is_hex c \<longleftrightarrow> (48 \<le> code c \<and> code c \<le> 57) \<or> (65 \<le> code c \<and> code c \<le> 70) \<or> (97 \<le> code c \<and> code c \<le> 102)"

definition is_sha :: "string \<Rightarrow> bool" where
  "is_sha s \<longleftrightarrow> (length s = 40 \<or> length s = 64) \<and> list_all is_hex s"

definition createMergeWorktree :: "answers \<Rightarrow> string \<Rightarrow> string \<Rightarrow> string \<Rightarrow> string \<Rightarrow> string git_act" where
  "createMergeWorktree g repoRoot worktreeBase featureBranch baseBranch =
     (let path = path_join worktreeBase ''__merge__'' in
      thenOp (askOp g (MakeDir worktreeBase))
       (bindOp (refExists g repoRoot baseBranch) (\<lambda>found.
          if \<not> found then throwOp NoBaseRef
          else thenOp
            (catchOp (gitOp g repoRoot [''worktree'', ''add'', ''-b'', featureBranch, path, baseBranch])
               (\<lambda>_. catchOp (gitOp g repoRoot [''worktree'', ''add'', path, featureBranch])
                  (\<lambda>_. catchOp (gitOp g repoRoot [''rev-parse'', ''--verify'', featureBranch]) (\<lambda>_. throwOp NoMergeWorktree))))
            (if is_sha baseBranch
             then thenOp (catchOp (gitOp g repoRoot [''merge-base'', ''--is-ancestor'', baseBranch, featureBranch])
                            (\<lambda>_. throwOp PinNotAncestral)) (retOp path)
             else retOp path))))"

definition getWorktreeDirtyFiles :: "answers \<Rightarrow> string \<Rightarrow> string list git_act" where
  "getWorktreeDirtyFiles g cwd =
     bindOp (gitOp g cwd [''status'', ''--porcelain'', ''--untracked-files=all'']) (\<lambda>out. retOp (out_lines out))"

section \<open>Merging into the base branch\<close>

definition message_of :: "op_error \<Rightarrow> string" where
  "message_of e = (case e of Thrown m \<Rightarrow> m | StaleBase _ m _ \<Rightarrow> m | _ \<Rightarrow> [])"

definition current_branch :: "answers \<Rightarrow> string \<Rightarrow> string git_act" where
  "current_branch g cwd = bindOp (gitOp g cwd [''branch'', ''--show-current'']) (\<lambda>out. retOp (trim out))"

definition head_sha :: "answers \<Rightarrow> string \<Rightarrow> string git_act" where
  "head_sha g cwd = bindOp (gitOp g cwd [''rev-parse'', ''HEAD'']) (\<lambda>out. retOp (trim out))"

definition mergeFeatureBranchToBase :: "answers \<Rightarrow> string \<Rightarrow> string \<Rightarrow> string \<Rightarrow> string \<Rightarrow> resolver \<Rightarrow> string git_act" where
  "mergeFeatureBranchToBase g repoRoot featureBranch baseBranch message resolver =
     bindOp (current_branch g repoRoot) (\<lambda>current.
       if current \<noteq> baseBranch then throwOp (WrongBranch current)
       else bindOp (gitOp g repoRoot [''status'', ''--porcelain'']) (\<lambda>out.
         let dirty = out_lines out in
         if dirty \<noteq> [] then throwOp (DirtyRepo dirty)
         else catchOp
           (thenOp (gitOp g repoRoot [''merge'', ''--no-ff'', featureBranch, ''-m'', message]) (head_sha g repoRoot))
           (\<lambda>err. bindOp (ask_resolver g resolver repoRoot featureBranch baseBranch
                            (thenOp (forgeCommitReuse g repoRoot) (head_sha g repoRoot))) (\<lambda>resolved.
              case resolved of
                Some sha \<Rightarrow> retOp sha
              | None \<Rightarrow>
                  thenOp (catchOp (gitOp g repoRoot [''reset'', ''--merge'']) (\<lambda>e. throwOp (ResetFailed err (message_of e))))
                    (throwOp err)))))"

section \<open>A worktree that left its branch\<close>

definition drift_branch_name :: string where
  "drift_branch_name = ''eforge/drift-recovery''"

definition recoverDriftedWorktree :: "answers \<Rightarrow> string \<Rightarrow> string \<Rightarrow> string \<Rightarrow> unit git_act" where
  "recoverDriftedWorktree g cwd expectedBranch message =
     bindOp (current_branch g cwd) (\<lambda>current.
       if current = expectedBranch then retOp ()
       else bindOp (if current = [] then thenOp (gitOp g cwd [''checkout'', ''-B'', drift_branch_name]) (retOp drift_branch_name)
                    else retOp current) (\<lambda>drift.
         thenOp (catchOp (mergeWorktree g cwd drift expectedBranch message None)
                   (\<lambda>err. bindOp (current_branch g cwd) (\<lambda>after. if after \<noteq> expectedBranch then throwOp err else retOp ())))
           (bestEffort (gitOp g cwd [''branch'', ''-D'', drift]))))"

section \<open>Pull requests\<close>

definition ensureGhAvailable :: "answers \<Rightarrow> string \<Rightarrow> unit git_act" where
  "ensureGhAvailable g cwd = catchOp (thenOp (ghOp g cwd [''--version'']) (retOp ())) (\<lambda>_. throwOp NoGh)"

definition pushFeatureBranch :: "answers \<Rightarrow> string \<Rightarrow> string \<Rightarrow> string \<Rightarrow> bool \<Rightarrow> unit git_act" where
  "pushFeatureBranch g cwd branch remote forceWithLease =
     thenOp (gitOp g cwd ([''push'', ''-u''] @ (if forceWithLease then [''--force-with-lease''] else []) @ [remote, branch])) (retOp ())"

record pr_metadata =
  pm_title :: string
  pm_body :: string

definition with_body_file :: "answers \<Rightarrow> string \<Rightarrow> (string \<Rightarrow> 'a git_act) \<Rightarrow> 'a git_act" where
  "with_body_file g body f =
     bindOp (askOp g TempDir) (\<lambda>r.
       let dir = text_of r; bodyFile = path_join dir ''body.md'' in
       finallyOp (thenOp (askOp g (WriteText bodyFile body)) (f bodyFile)) (askOp g (RemoveDir dir)))"

definition createPullRequest :: "answers \<Rightarrow> string \<Rightarrow> string \<Rightarrow> string \<Rightarrow> pr_metadata \<Rightarrow> string git_act" where
  "createPullRequest g cwd baseBranch featureBranch m =
     with_body_file g (pm_body m) (\<lambda>bodyFile.
       bindOp (ghOp g cwd [''pr'', ''create'', ''--base'', baseBranch, ''--head'', featureBranch,
                           ''--title'', pm_title m, ''--body-file'', bodyFile]) (\<lambda>out. retOp (trim out)))"

definition editPullRequest :: "answers \<Rightarrow> string \<Rightarrow> string \<Rightarrow> pr_metadata \<Rightarrow> unit git_act" where
  "editPullRequest g cwd selector m =
     with_body_file g (pm_body m) (\<lambda>bodyFile.
       thenOp (ghOp g cwd [''pr'', ''edit'', selector, ''--title'', pm_title m, ''--body-file'', bodyFile]) (retOp ()))"

text \<open>\<open>json\<close> reads the fields \<open>url\<close> and \<open>baseRefName\<close> of a text, when they are strings; \<open>None\<close> when it throws.\<close>

type_synonym pr_json = "string \<Rightarrow> (string option \<times> string option) option"

definition getExistingPullRequestUrl :: "answers \<Rightarrow> pr_json \<Rightarrow> string \<Rightarrow> string \<Rightarrow> string option \<Rightarrow> string option git_act" where
  "getExistingPullRequestUrl g json cwd featureBranch baseBranch =
     catchOp
       (if baseBranch \<noteq> None \<and> baseBranch \<noteq> Some []
        then bindOp (ghOp g cwd [''pr'', ''view'', featureBranch, ''--json'', ''url,baseRefName'']) (\<lambda>out.
               case json (trim out) of
                 Some (Some url, Some base) \<Rightarrow> retOp (if Some base = baseBranch then Some url else None)
               | _ \<Rightarrow> retOp None)
        else bindOp (ghOp g cwd [''pr'', ''view'', featureBranch, ''--json'', ''url'', ''-q'', ''.url'']) (\<lambda>out.
               let url = trim out in retOp (if url = [] then None else Some url)))
       (\<lambda>_. retOp None)"

definition enablePullRequestAutoMerge :: "answers \<Rightarrow> string \<Rightarrow> string \<Rightarrow> unit git_act" where
  "enablePullRequestAutoMerge g cwd selector = thenOp (ghOp g cwd [''pr'', ''merge'', selector, ''--auto'', ''--merge'']) (retOp ())"

section \<open>The trunk branch (branch-policy.ts)\<close>

definition resolveTrunkBranch :: "answers \<Rightarrow> string option \<Rightarrow> string \<Rightarrow> string option \<Rightarrow> string git_act" where
  "resolveTrunkBranch g configured cwd remote =
     (case configured of
        Some (c # cs) \<Rightarrow> retOp (c # cs)
      | _ \<Rightarrow>
          (let effectiveRemote = (case remote of Some r \<Rightarrow> r | None \<Rightarrow> ''origin''); prefix = effectiveRemote @ ''/'' in
           catchOp
             (bindOp (gitOp g cwd [''symbolic-ref'', ''refs/remotes/'' @ effectiveRemote @ ''/HEAD'', ''--short'']) (\<lambda>out.
                let ref = trim out; stripped = (if take (length prefix) ref = prefix then drop (length prefix) ref else ref)
                in retOp (if stripped = [] then ''main'' else stripped)))
             (\<lambda>_. retOp ''main'')))"

section \<open>Which commands an operation runs\<close>

text \<open>An operation only adds to the history, and only calls that satisfy \<open>P\<close>.\<close>

definition only :: "(call \<Rightarrow> bool) \<Rightarrow> 'a git_act \<Rightarrow> bool" where
  "only P m \<longleftrightarrow> (\<forall>h. \<exists>l. fst (m h) = h @ l \<and> (\<forall>c \<in> set l. P (fst c)))"

named_theorems only_intros

lemma only_askOp [only_intros]: "P c \<Longrightarrow> only P (askOp g c)"
  by (simp add: only_def askOp_def Let_def)

lemma only_retOp [only_intros]: "only P (retOp x)"
  by (simp add: only_def retOp_def)

lemma only_throwOp [only_intros]: "only P (throwOp e)"
  by (simp add: only_def throwOp_def)

lemma only_step: "only P m \<Longrightarrow> m h = (h1, r) \<Longrightarrow> \<exists>l. h1 = h @ l \<and> (\<forall>c \<in> set l. P (fst c))"
  unfolding only_def by (metis fst_conv)

lemma only_bindOp [only_intros]:
  assumes "only P m" and "\<And>x. only P (f x)"
  shows "only P (bindOp m f)"
  unfolding only_def
proof
  fix h
  obtain h1 r where r: "m h = (h1, r)" by fastforce
  obtain l where l: "h1 = h @ l" "\<forall>c \<in> set l. P (fst c)" using only_step [OF assms(1) r] by blast
  show "\<exists>l. fst (bindOp m f h) = h @ l \<and> (\<forall>c \<in> set l. P (fst c))"
  proof (cases r)
    case (Inl e)
    then show ?thesis using r l by (auto simp: bindOp_def)
  next
    case (Inr x)
    obtain h2 s where s: "f x h1 = (h2, s)" by fastforce
    obtain k where "h2 = h1 @ k" "\<forall>c \<in> set k. P (fst c)" using only_step [OF assms(2) s] by blast
    then show ?thesis using r s l Inr by (intro exI [of _ "l @ k"]) (auto simp: bindOp_def)
  qed
qed

lemma only_catchOp [only_intros]:
  assumes "only P m" and "\<And>e. only P (f e)"
  shows "only P (catchOp m f)"
  unfolding only_def
proof
  fix h
  obtain h1 r where r: "m h = (h1, r)" by fastforce
  obtain l where l: "h1 = h @ l" "\<forall>c \<in> set l. P (fst c)" using only_step [OF assms(1) r] by blast
  show "\<exists>l. fst (catchOp m f h) = h @ l \<and> (\<forall>c \<in> set l. P (fst c))"
  proof (cases r)
    case (Inr x)
    then show ?thesis using r l by (auto simp: catchOp_def)
  next
    case (Inl e)
    obtain h2 s where s: "f e h1 = (h2, s)" by fastforce
    obtain k where "h2 = h1 @ k" "\<forall>c \<in> set k. P (fst c)" using only_step [OF assms(2) s] by blast
    then show ?thesis using r s l Inl by (intro exI [of _ "l @ k"]) (auto simp: catchOp_def)
  qed
qed

lemma only_finallyOp [only_intros]:
  assumes "only P m" and "only P n"
  shows "only P (finallyOp m n)"
  unfolding only_def
proof
  fix h
  obtain h1 r where r: "m h = (h1, r)" by fastforce
  obtain l where l: "h1 = h @ l" "\<forall>c \<in> set l. P (fst c)" using only_step [OF assms(1) r] by blast
  obtain h2 s where s: "n h1 = (h2, s)" by fastforce
  obtain k where "h2 = h1 @ k" "\<forall>c \<in> set k. P (fst c)" using only_step [OF assms(2) s] by blast
  then show "\<exists>l. fst (finallyOp m n h) = h @ l \<and> (\<forall>c \<in> set l. P (fst c))"
    using r s l by (intro exI [of _ "l @ k"]) (auto simp: finallyOp_def split: sum.splits)
qed

lemma only_thenOp [only_intros]: "only P m \<Longrightarrow> only P n \<Longrightarrow> only P (thenOp m n)"
  by (simp add: thenOp_def only_intros)

lemma only_bestEffort [only_intros]: "only P m \<Longrightarrow> only P (bestEffort m)"
  unfolding bestEffort_def by (intro only_intros)

lemma only_gitOp [only_intros]: "P (Git cwd args) \<Longrightarrow> only P (gitOp g cwd args)"
  unfolding gitOp_def by (intro only_intros)

lemma only_ghOp [only_intros]: "P (Gh cwd args) \<Longrightarrow> only P (ghOp g cwd args)"
  unfolding ghOp_def by (intro only_intros)

lemma only_mono: "only P m \<Longrightarrow> (\<And>c. P c \<Longrightarrow> Q c) \<Longrightarrow> only Q m"
  unfolding only_def by meson


section \<open>What a result says\<close>

text \<open>A reply that is no failure.\<close>

definition good :: "reply \<Rightarrow> bool" where
  "good r \<longleftrightarrow> (case r of Failed _ \<Rightarrow> False | NotFresh _ _ _ \<Rightarrow> False | _ \<Rightarrow> True)"

named_theorems result_iff

lemma askOp_Inr [result_iff]: "askOp g c h = (h1, Inr r) \<longleftrightarrow> h1 = h @ [(c, r)] \<and> r = g h c \<and> good r"
  by (auto simp: askOp_def Let_def good_def split: reply.splits)

lemma askOp_Inl [result_iff]: "askOp g c h = (h1, Inl e) \<longleftrightarrow>
    (\<exists>r. h1 = h @ [(c, r)] \<and> r = g h c \<and> \<not> good r \<and>
       e = (case r of NotFresh retry why sha \<Rightarrow> StaleBase retry why sha | Failed m \<Rightarrow> Thrown m | _ \<Rightarrow> e))"
  by (auto simp: askOp_def Let_def good_def split: reply.splits)

lemma retOp_iff [result_iff]: "retOp x h = (h1, r) \<longleftrightarrow> h1 = h \<and> r = Inr x"
  by (auto simp: retOp_def)

lemma throwOp_iff [result_iff]: "throwOp e h = (h1, r) \<longleftrightarrow> h1 = h \<and> r = Inl e"
  by (auto simp: throwOp_def)

lemma bindOp_Inr [result_iff]: "bindOp m f h = (h2, Inr y) \<longleftrightarrow> (\<exists>h1 x. m h = (h1, Inr x) \<and> f x h1 = (h2, Inr y))"
  by (auto simp: bindOp_def split: prod.splits sum.splits)

lemma bindOp_Inl [result_iff]: "bindOp m f h = (h2, Inl e) \<longleftrightarrow>
    m h = (h2, Inl e) \<or> (\<exists>h1 x. m h = (h1, Inr x) \<and> f x h1 = (h2, Inl e))"
  by (auto simp: bindOp_def split: prod.splits sum.splits)

lemma thenOp_Inr [result_iff]: "thenOp m n h = (h2, Inr y) \<longleftrightarrow> (\<exists>h1 x. m h = (h1, Inr x) \<and> n h1 = (h2, Inr y))"
  by (simp add: thenOp_def bindOp_Inr)

lemma thenOp_Inl [result_iff]: "thenOp m n h = (h2, Inl e) \<longleftrightarrow>
    m h = (h2, Inl e) \<or> (\<exists>h1 x. m h = (h1, Inr x) \<and> n h1 = (h2, Inl e))"
  by (simp add: thenOp_def bindOp_Inl)

lemma catchOp_Inr [result_iff]: "catchOp m f h = (h2, Inr y) \<longleftrightarrow>
    m h = (h2, Inr y) \<or> (\<exists>h1 e. m h = (h1, Inl e) \<and> f e h1 = (h2, Inr y))"
  by (auto simp: catchOp_def split: prod.splits sum.splits)

lemma catchOp_Inl [result_iff]: "catchOp m f h = (h2, Inl e) \<longleftrightarrow> (\<exists>h1 e1. m h = (h1, Inl e1) \<and> f e1 h1 = (h2, Inl e))"
  by (auto simp: catchOp_def split: prod.splits sum.splits)

lemma bestEffort_Inr [result_iff]: "bestEffort m h = (h1, Inr ()) \<longleftrightarrow> h1 = fst (m h)"
  by (cases "m h"; cases "snd (m h)") (auto simp: bestEffort_def catchOp_def thenOp_def bindOp_def retOp_def)

lemma bestEffort_Inl [result_iff]: "bestEffort m h \<noteq> (h1, Inl e)"
  by (cases "m h"; cases "snd (m h)") (auto simp: bestEffort_def catchOp_def thenOp_def bindOp_def retOp_def)

lemma gitOp_Inr [result_iff]: "gitOp g cwd args h = (h1, Inr s) \<longleftrightarrow>
    (\<exists>r. h1 = h @ [(Git cwd args, r)] \<and> r = g h (Git cwd args) \<and> good r \<and> s = text_of r)"
  by (auto simp: gitOp_def result_iff)

lemma gitOp_InlD: "gitOp g cwd args h = (h1, Inl e) \<Longrightarrow> \<exists>r. h1 = h @ [(Git cwd args, r)] \<and> \<not> good r"
  by (auto simp: gitOp_def result_iff)

lemma ghOp_Inr [result_iff]: "ghOp g cwd args h = (h1, Inr s) \<longleftrightarrow>
    (\<exists>r. h1 = h @ [(Gh cwd args, r)] \<and> r = g h (Gh cwd args) \<and> good r \<and> s = text_of r)"
  by (auto simp: ghOp_def result_iff)

lemma ghOp_InlD: "ghOp g cwd args h = (h1, Inl e) \<Longrightarrow> \<exists>r. h1 = h @ [(Gh cwd args, r)] \<and> \<not> good r"
  by (auto simp: ghOp_def result_iff)


text \<open>A command run under \<open>retryOnLock\<close> ends with the attempt it reports; between attempts only the
  stale lock is looked at.\<close>

definition lock_call :: "string \<Rightarrow> call \<Rightarrow> bool" where
  "lock_call cwd c \<longleftrightarrow> c = Git cwd [''rev-parse'', ''--git-dir''] \<or> (\<exists>p. c = AgeOf p \<or> c = Unlink p)"

lemma only_removeStaleIndexLock: "only (lock_call cwd) (removeStaleIndexLock g cwd)"
  unfolding removeStaleIndexLock_def Let_def by (intro only_intros) (auto simp: lock_call_def intro!: only_intros)

definition ends_with_attempt :: "call \<Rightarrow> (op_error, string) result \<Rightarrow> history \<Rightarrow> bool" where
  "ends_with_attempt c r l \<longleftrightarrow>
     (\<exists>k o1. l = k @ [(c, o1)] \<and> (case r of Inr s \<Rightarrow> good o1 \<and> s = text_of o1 | Inl _ \<Rightarrow> \<not> good o1))"

lemma retry_from_git:
  "retry_from g n (gitOp g cwd args) cwd h = (h1, r) \<Longrightarrow>
   \<exists>l. h1 = h @ l \<and> ends_with_attempt (Git cwd args) r l \<and> (\<forall>c \<in> set l. fst c = Git cwd args \<or> lock_call cwd (fst c))"
proof (induction n arbitrary: h)
  case 0
  then show ?case
    by (cases "gitOp g cwd args h")
      (auto simp: ends_with_attempt_def gitOp_Inr split: sum.splits if_splits dest!: gitOp_InlD)
next
  case (Suc n)
  obtain h2 s where s: "gitOp g cwd args h = (h2, s)" by fastforce
  show ?case
  proof (cases s)
    case (Inr x)
    then have "h1 = h2" "r = Inr x" using s Suc.prems by simp_all
    then show ?thesis using s [unfolded Inr] by (auto simp: ends_with_attempt_def gitOp_Inr)
  next
    case (Inl e)
    obtain o1 where o1: "h2 = h @ [(Git cwd args, o1)]" "\<not> good o1" using gitOp_InlD s Inl by blast
    show ?thesis
    proof (cases "isLockError e")
      case False
      then have "h1 = h2" "r = Inl e" using s Suc.prems Inl by simp_all
      then show ?thesis using o1 by (auto simp: ends_with_attempt_def)
    next
      case True
      obtain k where k: "fst (removeStaleIndexLock g cwd h2) = h2 @ k" "\<forall>c \<in> set k. lock_call cwd (fst c)"
        using only_removeStaleIndexLock unfolding only_def by blast
      have "retry_from g n (gitOp g cwd args) cwd (h2 @ k) = (h1, r)" using Suc.prems s Inl True k(1) by simp
      from Suc.IH [OF this] obtain l where "h1 = (h2 @ k) @ l" "ends_with_attempt (Git cwd args) r l"
        "\<forall>c \<in> set l. fst c = Git cwd args \<or> lock_call cwd (fst c)" by blast
      then show ?thesis using o1 k(2)
        by (intro exI [of _ "(Git cwd args, o1) # k @ l"]) (auto simp: ends_with_attempt_def)
    qed
  qed
qed

lemma lockedGit_ends:
  "lockedGit g cwd args h = (h1, r) \<Longrightarrow>
   \<exists>l. h1 = h @ l \<and> ends_with_attempt (Git cwd args) r l \<and> (\<forall>c \<in> set l. fst c = Git cwd args \<or> lock_call cwd (fst c))"
  unfolding lockedGit_def retryOnLock_def by (rule retry_from_git)

text \<open>A command is given up after six attempts.\<close>

lemma retry_from_attempts:
  "\<lbrakk>retry_from g n (gitOp g cwd args) cwd h = (h1, r); \<not> lock_call cwd (Git cwd args)\<rbrakk> \<Longrightarrow>
   \<exists>l. h1 = h @ l \<and> length (filter (\<lambda>c. fst c = Git cwd args) l) \<le> Suc n"
proof (induction n arbitrary: h)
  case 0
  then show ?case
    by (cases "gitOp g cwd args h") (auto simp: gitOp_Inr split: sum.splits if_splits dest!: gitOp_InlD)
next
  case (Suc n)
  obtain h2 s where s: "gitOp g cwd args h = (h2, s)" by fastforce
  show ?case
  proof (cases s)
    case (Inr x)
    then have "h1 = h2" "r = Inr x" using s Suc.prems(1) by simp_all
    then show ?thesis using s [unfolded Inr] by (auto simp: gitOp_Inr)
  next
    case (Inl e)
    obtain o1 where o1: "h2 = h @ [(Git cwd args, o1)]" using gitOp_InlD s Inl by blast
    show ?thesis
    proof (cases "isLockError e")
      case False
      then have "h1 = h2" using s Suc.prems(1) Inl by simp
      then show ?thesis using o1 by simp
    next
      case True
      obtain k where k: "fst (removeStaleIndexLock g cwd h2) = h2 @ k" "\<forall>c \<in> set k. lock_call cwd (fst c)"
        using only_removeStaleIndexLock unfolding only_def by blast
      have "retry_from g n (gitOp g cwd args) cwd (h2 @ k) = (h1, r)" using Suc.prems(1) s Inl True k(1) by simp
      from Suc.IH [OF this Suc.prems(2)] obtain l where "h1 = (h2 @ k) @ l"
        "length (filter (\<lambda>c. fst c = Git cwd args) l) \<le> Suc n" by blast
      moreover have "filter (\<lambda>c. fst c = Git cwd args) k = []"
        using k(2) Suc.prems(2) by (auto simp: filter_empty_conv)
      ultimately show ?thesis using o1 by (intro exI [of _ "(Git cwd args, o1) # k @ l"]) simp
    qed
  qed
qed


declare retry_from.simps [simp del]

lemma only_lockedGit [only_intros]:
  assumes "P (Git cwd args)" and "\<And>c. lock_call cwd c \<Longrightarrow> P c"
  shows "only P (lockedGit g cwd args)"
  unfolding only_def
proof
  fix h
  obtain h1 r where r: "lockedGit g cwd args h = (h1, r)" by fastforce
  with lockedGit_ends [OF r] assms show "\<exists>l. fst (lockedGit g cwd args h) = h @ l \<and> (\<forall>c \<in> set l. P (fst c))" by fastforce
qed

section \<open>The merge into the base branch\<close>

text \<open>Calls that only ask.\<close>

definition asks :: "call \<Rightarrow> bool" where
  "asks c \<longleftrightarrow>
     (case c of
        Git _ args \<Rightarrow> args = [''branch'', ''--show-current''] \<or>
          (args \<noteq> [] \<and> hd args \<in> {''status'', ''diff'', ''rev-parse'', ''symbolic-ref'', ''show-ref'', ''merge-base''})
      | Gh _ args \<Rightarrow> args = [''--version''] \<or> take 2 args = [''pr'', ''view'']
      | Exists _ \<Rightarrow> True | AgeOf _ \<Rightarrow> True | ReadText _ \<Rightarrow> True | ListDir _ \<Rightarrow> True | Freshness _ \<Rightarrow> True | Provenance \<Rightarrow> True
      | _ \<Rightarrow> False)"

definition merge_call :: "string \<Rightarrow> string \<Rightarrow> string \<Rightarrow> call" where
  "merge_call repo feature message = Git repo [''merge'', ''--no-ff'', feature, ''-m'', message]"

lemma commit_reuse_ends:
  assumes "forgeCommitReuse g cwd h = (h1, Inr ())"
  shows "\<exists>l o1. h1 = h @ l @ [(Git cwd [''commit'', ''--no-edit''], o1)] \<and> good o1"
proof -
  from assms obtain h2 s where c: "lockedGit g cwd [''commit'', ''--no-edit''] h2 = (h1, Inr s)"
    and h2: "\<exists>l. h2 = h @ l"
    by (auto simp: forgeCommitReuse_def result_iff Let_def split: if_splits)
  from lockedGit_ends [OF c] h2 show ?thesis by (auto simp: ends_with_attempt_def)
qed

lemma only_gatherConflictInfo: "only asks (gatherConflictInfo g cwd b c)"
  unfolding gatherConflictInfo_def Let_def unmerged_files_def
  by (intro only_intros) (auto simp: asks_def intro!: only_intros)


lemma only_prefix: "only P m \<Longrightarrow> m h = (h1, r) \<Longrightarrow> prefix h h1"
  using only_step unfolding prefix_def by metis

lemma ask_resolver_Some:
  assumes "ask_resolver g res cwd b base commit h = (h1, Inr (Some x))"
  shows "\<exists>h2. prefix h h2 \<and> commit h2 = (h1, Inr x)"
proof -
  from assms obtain f info h2 h3 h4 r out where f: "res = Some f"
    and h2: "gatherConflictInfo g cwd b base h = (h2, Inr (Some info))"
    and h3: "askOp g (Resolve cwd (f info)) h2 = (h3, Inr r)"
    and h4: "unmerged_files g cwd h3 = (h4, Inr out)" and c: "commit h4 = (h1, Inr x)"
    by (auto simp: ask_resolver_def bindOp_Inr catchOp_Inr retOp_iff split: option.splits if_splits)
  have "prefix h h2" by (rule only_prefix [OF only_gatherConflictInfo h2])
  moreover have "prefix h2 h4" using h3 h4 by (auto simp: askOp_Inr unmerged_files_def gitOp_Inr)
  ultimately show ?thesis using c prefix_order.trans by blast
qed

lemma ask_resolver_None:
  assumes "ask_resolver g res cwd b base commit h = (h1, r)" and "\<And>h. prefix h (fst (commit h))"
  shows "prefix h h1" and "\<exists>x. r = Inr x"
proof -
  have "only (\<lambda>_. True) commit" using assms(2) by (auto simp: only_def prefix_def)
  then have "only (\<lambda>_. True) (ask_resolver g res cwd b base commit)"
    unfolding ask_resolver_def unmerged_files_def
    by (auto intro!: only_intros split: option.splits intro: only_mono [OF only_gatherConflictInfo])
  then show "prefix h h1" using only_prefix [where m = "ask_resolver g res cwd b base commit"] assms(1) by blast
  show "\<exists>x. r = Inr x"
    using assms(1) by (cases r) (auto simp: ask_resolver_def catchOp_Inl retOp_iff split: option.splits)
qed

definition untouched :: "history \<Rightarrow> bool" where
  "untouched l \<longleftrightarrow> (\<forall>c \<in> set l. asks (fst c))"

text \<open>Before anything else the branch was asked for and was \<open>base\<close>, and the status and was empty.\<close>

definition checked_clean :: "string \<Rightarrow> string \<Rightarrow> history \<Rightarrow> bool" where
  "checked_clean repo base l \<longleftrightarrow>
     (\<exists>b s k. l = (Git repo [''branch'', ''--show-current''], b) # (Git repo [''status'', ''--porcelain''], s) # k \<and>
        trim (text_of b) = base \<and> out_lines (text_of s) = [])"

text \<open>At the end a merge (or the commit of a resolved one) worked, and its commit was asked for.\<close>

definition merged_at_head :: "string \<Rightarrow> string \<Rightarrow> string \<Rightarrow> string \<Rightarrow> history \<Rightarrow> bool" where
  "merged_at_head repo feature message sha l \<longleftrightarrow>
     (\<exists>k c o1 o2. l = k @ [(c, o1), (Git repo [''rev-parse'', ''HEAD''], o2)] \<and>
        (c = merge_call repo feature message \<or> c = Git repo [''commit'', ''--no-edit'']) \<and> good o1 \<and> sha = trim (text_of o2))"

definition merge_undone :: "string \<Rightarrow> history \<Rightarrow> bool" where
  "merge_undone repo l \<longleftrightarrow> l \<noteq> [] \<and> fst (last l) = Git repo [''reset'', ''--merge'']"

lemma commit_part_ends:
  assumes "thenOp (forgeCommitReuse g repo) (head_sha g repo) h2 = (h1, Inr sha)" and "prefix h h2"
  shows "\<exists>l. h1 = h @ l \<and> merged_at_head repo feature message sha l"
proof -
  from assms(1) obtain h3 where c: "forgeCommitReuse g repo h2 = (h3, Inr ())" and s: "head_sha g repo h3 = (h1, Inr sha)"
    by (auto simp: thenOp_Inr)
  from commit_reuse_ends [OF c] assms(2) s show ?thesis
    by (auto simp: prefix_def head_sha_def bindOp_Inr gitOp_Inr retOp_iff merged_at_head_def)
qed

lemma only_commit_part: "prefix h (fst (thenOp (forgeCommitReuse g repo) (head_sha g repo) h))"
proof -
  have "only (\<lambda>_. True) (thenOp (forgeCommitReuse g repo) (head_sha g repo))"
    unfolding forgeCommitReuse_def head_sha_def Let_def by (intro only_intros) (auto intro!: only_intros)
  then show ?thesis unfolding only_def prefix_def by blast
qed

lemma merge_part:
  assumes "catchOp
      (thenOp (gitOp g repo [''merge'', ''--no-ff'', feature, ''-m'', message]) (head_sha g repo))
      (\<lambda>err. bindOp (ask_resolver g res repo feature base (thenOp (forgeCommitReuse g repo) (head_sha g repo))) (\<lambda>resolved.
         case resolved of
           Some sha \<Rightarrow> retOp sha
         | None \<Rightarrow> thenOp (catchOp (gitOp g repo [''reset'', ''--merge'']) (\<lambda>e. throwOp (ResetFailed err (message_of e))))
                     (throwOp err))) h = (h1, r)"
    (is "catchOp ?m ?f h = _")
  shows "\<exists>l. h1 = h @ l \<and> (case r of Inr sha \<Rightarrow> merged_at_head repo feature message sha l | Inl _ \<Rightarrow> merge_undone repo l)"
proof (cases "?m h")
  case (Pair h2 s)
  show ?thesis
  proof (cases s)
    case (Inr sha)
    then have "h1 = h2" "r = Inr sha" using assms Pair by (simp_all add: catchOp_def)
    then show ?thesis using Pair Inr
      by (auto simp: thenOp_Inr gitOp_Inr head_sha_def bindOp_Inr retOp_iff merged_at_head_def merge_call_def)
  next
    case (Inl err)
    have "prefix h h2" using Pair Inl by (auto simp: thenOp_Inl head_sha_def bindOp_Inl retOp_iff gitOp_Inr dest!: gitOp_InlD)
    have F: "?f err h2 = (h1, r)" using assms Pair Inl by (simp add: catchOp_def)
    obtain h3 t where t: "ask_resolver g res repo feature base (thenOp (forgeCommitReuse g repo) (head_sha g repo)) h2 = (h3, t)"
      by fastforce
    note n = ask_resolver_None [OF t only_commit_part]
    obtain x where x: "t = Inr x" using n(2) by blast
    show ?thesis
    proof (cases x)
      case (Some sha)
      then have r: "h1 = h3" "r = Inr sha" using F t x by (simp_all add: bindOp_def retOp_def)
      have "\<exists>h4. prefix h2 h4 \<and> thenOp (forgeCommitReuse g repo) (head_sha g repo) h4 = (h3, Inr sha)"
        by (rule ask_resolver_Some) (use t x Some in simp)
      then obtain h4 where h4: "prefix h2 h4"
        "thenOp (forgeCommitReuse g repo) (head_sha g repo) h4 = (h3, Inr sha)" by blast
      from commit_part_ends [OF h4(2)] h4(1) \<open>prefix h h2\<close> r show ?thesis using prefix_order.trans by fastforce
    next
      case None
      then have "thenOp (catchOp (gitOp g repo [''reset'', ''--merge'']) (\<lambda>e. throwOp (ResetFailed err (message_of e))))
                  (throwOp err) h3 = (h1, r)" using F t x by (simp add: bindOp_def)
      then have "(\<exists>q. h1 = h3 @ [(Git repo [''reset'', ''--merge''], q)]) \<and> (\<exists>e. r = Inl e)"
        by (cases r) (auto simp: thenOp_Inr thenOp_Inl catchOp_Inl catchOp_Inr throwOp_iff gitOp_Inr dest!: gitOp_InlD)
      moreover obtain k where "h3 = h @ k" using \<open>prefix h h2\<close> n(1) prefix_order.trans prefix_def by metis
      ultimately show ?thesis by (auto simp: merge_undone_def)
    qed
  qed
qed

lemma base_merge:
  assumes "mergeFeatureBranchToBase g repo feature base message res h = (h1, r)"
  shows "\<exists>l. h1 = h @ l \<and>
     (case r of Inr sha \<Rightarrow> checked_clean repo base l \<and> merged_at_head repo feature message sha l
      | Inl _ \<Rightarrow> untouched l \<or> (checked_clean repo base l \<and> merge_undone repo l))"
proof (cases "gitOp g repo [''branch'', ''--show-current''] h")
  case (Pair h2 s)
  show ?thesis
  proof (cases s)
    case (Inl e)
    then have "h1 = h2" "r = Inl e"
      using assms Pair by (simp_all add: mergeFeatureBranchToBase_def current_branch_def bindOp_def)
    moreover obtain q where "h2 = h @ [(Git repo [''branch'', ''--show-current''], q)]" using gitOp_InlD Pair Inl by blast
    ultimately show ?thesis by (simp add: untouched_def asks_def)
  next
    case (Inr out)
    then obtain b where b: "h2 = h @ [(Git repo [''branch'', ''--show-current''], b)]" "out = text_of b"
      using Pair by (auto simp: gitOp_Inr)
    show ?thesis
    proof (cases "trim out = base")
      case False
      then have "h1 = h2" "r = Inl (WrongBranch (trim out))"
        using assms Pair Inr by (simp_all add: mergeFeatureBranchToBase_def current_branch_def bindOp_def retOp_def throwOp_def)
      then show ?thesis using b by (simp add: untouched_def asks_def)
    next
      case on_base: True
      obtain h3 t where t: "gitOp g repo [''status'', ''--porcelain''] h2 = (h3, t)" by fastforce
      show ?thesis
      proof (cases t)
        case (Inl e)
        then have "h1 = h3" "r = Inl e"
          using assms Pair Inr t on_base
          by (simp_all add: mergeFeatureBranchToBase_def current_branch_def bindOp_def retOp_def)
        moreover obtain q where "h3 = h2 @ [(Git repo [''status'', ''--porcelain''], q)]" using gitOp_InlD t Inl by blast
        ultimately show ?thesis using b by (simp add: untouched_def asks_def)
      next
        case Inr': (Inr st)
        then obtain q where q: "h3 = h2 @ [(Git repo [''status'', ''--porcelain''], q)]" "st = text_of q"
          using t by (auto simp: gitOp_Inr)
        show ?thesis
        proof (cases "out_lines st = []")
          case False
          then have "h1 = h3" "r = Inl (DirtyRepo (out_lines st))"
            using assms Pair Inr t Inr' on_base
            by (simp_all add: mergeFeatureBranchToBase_def current_branch_def bindOp_def retOp_def throwOp_def Let_def)
          then show ?thesis using b q by (simp add: untouched_def asks_def)
        next
          case True
          have "\<exists>l. h1 = h3 @ l \<and> (case r of Inr sha \<Rightarrow> merged_at_head repo feature message sha l | Inl _ \<Rightarrow> merge_undone repo l)"
            by (rule merge_part [where base = base and res = res])
              (use assms Pair Inr t Inr' on_base True in
                \<open>simp add: mergeFeatureBranchToBase_def current_branch_def bindOp_def [of "bindOp _ _"] bindOp_def [of "gitOp _ _ _"] retOp_def Let_def\<close>)
          then obtain l where l: "h1 = h3 @ l" "case r of Inr sha \<Rightarrow> merged_at_head repo feature message sha l | Inl _ \<Rightarrow> merge_undone repo l"
            by blast
          let ?l = "(Git repo [''branch'', ''--show-current''], b) # (Git repo [''status'', ''--porcelain''], q) # l"
          have "checked_clean repo base ?l" using b(2) q(2) on_base True by (simp add: checked_clean_def)
          moreover have "merged_at_head repo feature message sha l \<Longrightarrow> merged_at_head repo feature message sha ?l" for sha
            unfolding merged_at_head_def by (metis append_Cons)
          moreover have "merge_undone repo l \<Longrightarrow> merge_undone repo ?l" by (simp add: merge_undone_def)
          ultimately show ?thesis using l b q by (intro exI [of _ ?l]) (auto split: sum.splits)
        qed
      qed
    qed
  qed
qed


text \<open>
  A squash of drifted work that cannot be committed (a hook refuses, an identity is missing, a conflict)
  leaves the worktree on its branch, and that is taken for a drift without changes: the branch with
  the work is deleted.
\<close>

definition drift_answers :: answers where
  "drift_answers h c =
     (case c of
        Git _ args \<Rightarrow>
          if args = [''branch'', ''--show-current'']
          then Out (if (Git ''/m'' [''checkout'', ''eforge/x''], Out []) \<in> set h then ''eforge/x'' else ''side'')
          else if take 1 args = [''commit''] then Failed ''hook declined'' else Out []
      | _ \<Rightarrow> Out [])"

lemma drifted_work_discarded:
  "snd (recoverDriftedWorktree drift_answers ''/m'' ''eforge/x'' ''m'' []) = Inr ()"
  "(Git ''/m'' [''branch'', ''-D'', ''side''], Out []) \<in> set (fst (recoverDriftedWorktree drift_answers ''/m'' ''eforge/x'' ''m'' []))"
  "\<forall>c \<in> set (fst (recoverDriftedWorktree drift_answers ''/m'' ''eforge/x'' ''m'' [])).
     case fst c of Git _ args \<Rightarrow> if take 1 args = [''commit''] then \<not> good (snd c) else True | _ \<Rightarrow> True"
  by code_simp+

end
