(* ===== verification/Worktrees.thy ===== *)
theory Worktrees
  imports GitOps
begin

text \<open>
  The worktrees of a build (\<open>worktree-manager.ts\<close>): which are acquired, how a plan and the feature
  branch are merged, how a pull request is issued, and what is left after the clean-up. The lemmas
  show what was asked, and answered, when an operation reports success.
\<close>

section \<open>State\<close>

datatype worktree_status = WtActive | WtMerged | WtRemoved

record managed_worktree =
  mw_path :: string
  mw_branch :: string
  mw_status :: worktree_status
  mw_builtOnMerge :: bool
  mw_baseSha :: "string option"

record worktree_manager =
  wm_repoRoot :: string
  wm_worktreeBase :: string
  wm_featureBranch :: string
  wm_mergeWorktreePath :: string

type_synonym trees = "(plan_id \<times> managed_worktree) list"

section \<open>Plans\<close>

definition acquireForPlan ::
    "answers \<Rightarrow> worktree_manager \<Rightarrow> plan_id \<Rightarrow> string \<Rightarrow> bool \<Rightarrow> trees \<Rightarrow> history \<Rightarrow>
     trees \<times> history \<times> (op_error, string) result" where
  "acquireForPlan g wm planId branch needsPlanWorktrees ts h =
     (case bindOp (gitOp g (if needsPlanWorktrees then wm_repoRoot wm else wm_mergeWorktreePath wm)
                     [''rev-parse'', if needsPlanWorktrees then wm_featureBranch wm else ''HEAD'']) (\<lambda>out.
             bindOp (if needsPlanWorktrees then createWorktree g (wm_repoRoot wm) (wm_worktreeBase wm) branch (wm_featureBranch wm)
                     else retOp (wm_mergeWorktreePath wm)) (\<lambda>path. retOp (path, trim out))) h of
        (h1, Inl e) \<Rightarrow> (ts, h1, Inl e)
      | (h1, Inr (path, baseSha)) \<Rightarrow>
          (dput planId \<lparr>mw_path = path, mw_branch = branch, mw_status = WtActive,
             mw_builtOnMerge = (\<not> needsPlanWorktrees), mw_baseSha = Some baseSha\<rparr> ts, h1, Inr path))"

definition set_wt_status :: "plan_id \<Rightarrow> worktree_status \<Rightarrow> trees \<Rightarrow> trees" where
  "set_wt_status p st ts = (case dget ts p of None \<Rightarrow> ts | Some m \<Rightarrow> dput p (m\<lparr>mw_status := st\<rparr>) ts)"

definition releaseForPlan :: "answers \<Rightarrow> worktree_manager \<Rightarrow> plan_id \<Rightarrow> trees \<Rightarrow> history \<Rightarrow> trees \<times> history" where
  "releaseForPlan g wm planId ts h =
     (case dget ts planId of
        None \<Rightarrow> (ts, h)
      | Some m \<Rightarrow>
          if mw_builtOnMerge m then (ts, h)
          else (case removeWorktree g (wm_repoRoot wm) (mw_path m) h of
                  (h1, Inl _) \<Rightarrow> (ts, h1)
                | (h1, Inr _) \<Rightarrow> (set_wt_status planId WtRemoved ts, h1)))"

definition isBuiltOnMerge :: "trees \<Rightarrow> plan_id \<Rightarrow> bool" where
  "isBuiltOnMerge ts p = (case dget ts p of None \<Rightarrow> False | Some m \<Rightarrow> mw_builtOnMerge m)"

definition getPlanDiff :: "answers \<Rightarrow> worktree_manager \<Rightarrow> trees \<Rightarrow> plan_id \<Rightarrow> string \<Rightarrow> (string \<times> diff_status) list git_act" where
  "getPlanDiff g wm ts planId branch =
     (case dget ts planId of
        Some m \<Rightarrow>
          (case mw_baseSha m of
             Some (c # cs) \<Rightarrow>
               if mw_builtOnMerge m then getNameStatusDiff g (wm_mergeWorktreePath wm) (c # cs) ''HEAD''
               else getNameStatusDiff g (wm_repoRoot wm) (c # cs) branch
           | _ \<Rightarrow> retOp [])
      | None \<Rightarrow> retOp [])"

definition getFinalMergeDiff :: "answers \<Rightarrow> worktree_manager \<Rightarrow> string \<Rightarrow> string option \<Rightarrow> (string \<times> diff_status) list git_act" where
  "getFinalMergeDiff g wm baseBranch diffBaseRef =
     bindOp (gitOp g (wm_repoRoot wm) [''merge-base'', case diffBaseRef of Some r \<Rightarrow> r | None \<Rightarrow> baseBranch, wm_featureBranch wm])
       (\<lambda>out. getNameStatusDiff g (wm_repoRoot wm) (trim out) (wm_featureBranch wm))"

text \<open>\<open>mo_message\<close> is the composed commit message.\<close>

record merge_options =
  mo_name :: string
  mo_branch :: string
  mo_message :: string
  mo_resolver :: resolver
  mo_recent :: "plan_id list"
  mo_planMap :: "(plan_id \<times> string) list option"
  mo_allowNoChanges :: bool
  mo_noChangesReason :: "string option"

definition waiver_valid :: "merge_options \<Rightarrow> bool" where
  "waiver_valid opt \<longleftrightarrow> mo_allowNoChanges opt \<and> (case mo_noChangesReason opt of Some r \<Rightarrow> trim r \<noteq> [] | None \<Rightarrow> False)"

definition contextResolver :: "merge_options \<Rightarrow> resolver" where
  "contextResolver opt =
     (case mo_resolver opt of
        None \<Rightarrow> None
      | Some f \<Rightarrow> Some (\<lambda>conflict.
          let c1 = conflict\<lparr>ci_planName := Some (mo_name opt)\<rparr> in
          f (case (mo_recent opt, mo_planMap opt) of
               (q # qs, Some m) \<Rightarrow>
                 (case dget m (last (q # qs)) of Some other \<Rightarrow> c1\<lparr>ci_otherPlanName := Some other\<rparr> | None \<Rightarrow> c1)
             | _ \<Rightarrow> c1)))"

text \<open>A plan built in the merge worktree: its commits are on the feature branch already. The flag says whether
  the waiver for a plan without changes was used.\<close>

definition merge_in_place :: "answers \<Rightarrow> worktree_manager \<Rightarrow> merge_options \<Rightarrow> string option \<Rightarrow> (string \<times> bool) git_act" where
  "merge_in_place g wm opt baseSha =
     (let path = wm_mergeWorktreePath wm in
      thenOp (recoverDriftedWorktree g path (wm_featureBranch wm) (mo_message opt))
        (bindOp (getWorktreeDirtyFiles g path) (\<lambda>dirty.
           if dirty \<noteq> [] then throwOp (DirtyMergeWorktree dirty)
           else bindOp (head_sha g path) (\<lambda>sha.
             case baseSha of
               Some (c # cs) \<Rightarrow>
                 bindOp (getNameStatusDiff g path (c # cs) ''HEAD'') (\<lambda>files.
                   if files \<noteq> [] then retOp (sha, False)
                   else if waiver_valid opt then retOp (sha, True)
                   else throwOp NothingCommitted)
             | _ \<Rightarrow> retOp (sha, False)))))"

definition merge_squashed :: "answers \<Rightarrow> worktree_manager \<Rightarrow> merge_options \<Rightarrow> (string \<times> bool) git_act" where
  "merge_squashed g wm opt =
     thenOp (mergeWorktree g (wm_mergeWorktreePath wm) (mo_branch opt) (wm_featureBranch wm) (mo_message opt) (contextResolver opt))
       (bindOp (head_sha g (wm_mergeWorktreePath wm)) (\<lambda>sha.
          thenOp (bestEffort (gitOp g (wm_repoRoot wm) [''branch'', ''-D'', mo_branch opt])) (retOp (sha, False))))"

definition mergePlan ::
    "answers \<Rightarrow> worktree_manager \<Rightarrow> plan_id \<Rightarrow> merge_options \<Rightarrow> trees \<Rightarrow> history \<Rightarrow>
     trees \<times> history \<times> (op_error, string \<times> bool) result" where
  "mergePlan g wm planId opt ts h =
     (case (if isBuiltOnMerge ts planId
            then merge_in_place g wm opt (case dget ts planId of Some m \<Rightarrow> mw_baseSha m | None \<Rightarrow> None)
            else merge_squashed g wm opt) h of
        (h1, Inl e) \<Rightarrow> (ts, h1, Inl e)
      | (h1, Inr x) \<Rightarrow> (set_wt_status planId WtMerged ts, h1, Inr x))"

definition mergeToBase :: "answers \<Rightarrow> worktree_manager \<Rightarrow> string \<Rightarrow> string \<Rightarrow> resolver \<Rightarrow> string git_act" where
  "mergeToBase g wm baseBranch message res =
     mergeFeatureBranchToBase g (wm_repoRoot wm) (wm_featureBranch wm) baseBranch message res"

section \<open>Pull requests\<close>

record pr_options =
  po_baseBranch :: string
  po_metadata :: "pr_metadata option"
  po_force :: bool
  po_beforePush :: bool
  po_beforeCreate :: bool

definition run_guard :: "answers \<Rightarrow> bool \<Rightarrow> bool \<Rightarrow> unit git_act" where
  "run_guard g present beforePush = (if present then thenOp (askOp g (Freshness beforePush)) (retOp ()) else retOp ())"

definition issuePr :: "answers \<Rightarrow> pr_json \<Rightarrow> worktree_manager \<Rightarrow> pr_options \<Rightarrow> string git_act" where
  "issuePr g json wm opt =
     (let path = wm_mergeWorktreePath wm; branch = wm_featureBranch wm;
          m = (case po_metadata opt of Some m \<Rightarrow> m | None \<Rightarrow> \<lparr>pm_title = branch, pm_body = []\<rparr>) in
      thenOp (ensureGhAvailable g path)
       (thenOp (run_guard g (po_beforePush opt) True)
         (thenOp (pushFeatureBranch g path branch ''origin'' (po_force opt))
           (catchOp
             (thenOp (run_guard g (po_beforeCreate opt) False) (createPullRequest g path (po_baseBranch opt) branch m))
             (\<lambda>err. case err of
                StaleBase _ _ _ \<Rightarrow> throwOp err
              | _ \<Rightarrow>
                  thenOp (run_guard g (po_beforeCreate opt) False)
                    (bindOp (getExistingPullRequestUrl g json path branch (Some (po_baseBranch opt))) (\<lambda>existing.
                       case existing of
                         Some (c # cs) \<Rightarrow>
                           thenOp (case po_metadata opt of None \<Rightarrow> retOp () | Some m1 \<Rightarrow> bestEffort (editPullRequest g path (c # cs) m1))
                             (retOp (c # cs))
                       | _ \<Rightarrow> throwOp err)))))))"

definition enablePrAutoMerge :: "answers \<Rightarrow> worktree_manager \<Rightarrow> string \<Rightarrow> unit git_act" where
  "enablePrAutoMerge g wm selector = enablePullRequestAutoMerge g (wm_mergeWorktreePath wm) selector"

section \<open>Reconciliation\<close>

record reconciliation =
  rc_valid :: "string list"
  rc_missing :: "string list"
  rc_corrupt :: "string list"
  rc_cleared :: "string list"

record recon =
  rn_state :: eforge_state
  rn_trees :: trees
  rn_report :: reconciliation
  rn_events :: "event list"

definition no_report :: reconciliation where
  "no_report = \<lparr>rc_valid = [], rc_missing = [], rc_corrupt = [], rc_cleared = []\<rparr>"

definition rn_emit :: "event \<Rightarrow> recon \<Rightarrow> recon" where
  "rn_emit e n = n\<lparr>rn_state := mutateState (rn_state n) e, rn_events := rn_events n @ [e]\<rparr>"

definition rn_note :: "(reconciliation \<Rightarrow> reconciliation) \<Rightarrow> recon \<Rightarrow> recon" where
  "rn_note f n = n\<lparr>rn_report := f (rn_report n)\<rparr>"

definition note_missing :: "string \<Rightarrow> reconciliation \<Rightarrow> reconciliation" where
  "note_missing p r = r\<lparr>rc_missing := rc_missing r @ [p], rc_cleared := rc_cleared r @ [p]\<rparr>"

definition note_corrupt :: "string \<Rightarrow> reconciliation \<Rightarrow> reconciliation" where
  "note_corrupt p r = r\<lparr>rc_corrupt := rc_corrupt r @ [p], rc_cleared := rc_cleared r @ [p]\<rparr>"

definition note_valid :: "string \<Rightarrow> reconciliation \<Rightarrow> reconciliation" where
  "note_valid p r = r\<lparr>rc_valid := rc_valid r @ [p]\<rparr>"

text \<open>What is found at a path: nothing, a worktree on the branch, or something else, which is removed.\<close>

datatype found = FoundNothing | FoundValid | FoundOther

definition inspect :: "answers \<Rightarrow> worktree_manager \<Rightarrow> string \<Rightarrow> string \<Rightarrow> history \<Rightarrow> history \<times> found" where
  "inspect g wm path branch h =
     (case askOp g (Exists path) h of
        (h1, Inl _) \<Rightarrow> (h1, FoundNothing)
      | (h1, Inr _) \<Rightarrow>
          (case catchOp (bindOp (current_branch g path) (\<lambda>b. retOp (b = branch))) (\<lambda>_. retOp False) h1 of
             (h2, Inr True) \<Rightarrow> (h2, FoundValid)
           | (h2, _) \<Rightarrow> (fst (removeWorktree g (wm_repoRoot wm) path h2), FoundOther)))"

definition merge_id :: string where
  "merge_id = ''__merge__''"

definition reconcile_merge :: "answers \<Rightarrow> worktree_manager \<Rightarrow> recon \<Rightarrow> history \<Rightarrow> recon \<times> history" where
  "reconcile_merge g wm n h =
     (case es_mergeWorktreePath (rn_state n) of
        Some (c # cs) \<Rightarrow>
          (case inspect g wm (c # cs) (wm_featureBranch wm) h of
             (h1, FoundNothing) \<Rightarrow> (rn_emit MergeWorktreeClear (rn_note (note_missing merge_id) n), h1)
           | (h1, FoundValid) \<Rightarrow> (rn_note (note_valid merge_id) n, h1)
           | (h1, FoundOther) \<Rightarrow> (rn_emit MergeWorktreeClear (rn_note (note_corrupt merge_id) n), h1))
      | _ \<Rightarrow> (n, h))"

text \<open>The path of a plan is cleared, and a running plan is pending again.\<close>

definition clear_plan :: "plan_id \<Rightarrow> plan_state \<Rightarrow> recon \<Rightarrow> recon" where
  "clear_plan p plan n =
     (let n1 = n\<lparr>rn_state := (rn_state n)\<lparr>es_plans := dput p (plan\<lparr>ps_worktreePath := None\<rparr>) (es_plans (rn_state n))\<rparr>\<rparr>
      in if ps_status plan = PRunning then rn_emit (PlanStatusChange p PPending) n1 else n1)"

definition reconcile_plan :: "answers \<Rightarrow> worktree_manager \<Rightarrow> plan_id \<Rightarrow> recon \<Rightarrow> history \<Rightarrow> recon \<times> history" where
  "reconcile_plan g wm p n h =
     (case dget (es_plans (rn_state n)) p of
        None \<Rightarrow> (n, h)
      | Some plan \<Rightarrow>
          (case ps_worktreePath plan of
             Some (c # cs) \<Rightarrow>
               (case inspect g wm (c # cs) (ps_branch plan) h of
                  (h1, FoundNothing) \<Rightarrow>
                    (clear_plan p plan (rn_note (note_missing p) (n\<lparr>rn_trees := ddel p (rn_trees n)\<rparr>)), h1)
                | (h1, FoundValid) \<Rightarrow>
                    (let n1 = rn_note (note_valid p) n in
                     (if dget (rn_trees n) p \<noteq> None then n1
                      else n1\<lparr>rn_trees := dput p \<lparr>mw_path = c # cs, mw_branch = ps_branch plan, mw_status = WtActive,
                                mw_builtOnMerge = False, mw_baseSha = None\<rparr> (rn_trees n1)\<rparr>, h1))
                | (h1, FoundOther) \<Rightarrow> (clear_plan p plan (rn_note (note_corrupt p) n), h1))
           | _ \<Rightarrow> (n, h)))"

fun reconcile_plans :: "answers \<Rightarrow> worktree_manager \<Rightarrow> plan_id list \<Rightarrow> recon \<Rightarrow> history \<Rightarrow> recon \<times> history" where
  "reconcile_plans g wm [] n h = (n, h)"
| "reconcile_plans g wm (p # ps) n h = (case reconcile_plan g wm p n h of (n1, h1) \<Rightarrow> reconcile_plans g wm ps n1 h1)"

definition reconcile :: "answers \<Rightarrow> worktree_manager \<Rightarrow> eforge_state \<Rightarrow> trees \<Rightarrow> history \<Rightarrow> recon \<times> history" where
  "reconcile g wm s ts h =
     (case reconcile_merge g wm \<lparr>rn_state = s, rn_trees = ts, rn_report = no_report, rn_events = []\<rparr> h of
        (n, h1) \<Rightarrow> reconcile_plans g wm (dkeys (es_plans s)) n h1)"

section \<open>Cleaning up\<close>

record cleanup_report =
  cr_removed :: "string list"
  cr_fallback :: "string list"
  cr_failed :: "string list"

definition report_removal :: "string \<Rightarrow> (op_error, bool) result \<Rightarrow> cleanup_report \<Rightarrow> cleanup_report" where
  "report_removal path r rep =
     (case r of
        Inr True \<Rightarrow> rep\<lparr>cr_fallback := cr_fallback rep @ [path]\<rparr>
      | Inr False \<Rightarrow> rep\<lparr>cr_removed := cr_removed rep @ [path]\<rparr>
      | Inl _ \<Rightarrow> rep\<lparr>cr_failed := cr_failed rep @ [path]\<rparr>)"

fun cleanup_trees :: "answers \<Rightarrow> string \<Rightarrow> trees \<Rightarrow> cleanup_report \<Rightarrow> history \<Rightarrow> trees \<times> cleanup_report \<times> history" where
  "cleanup_trees g repo [] rep h = ([], rep, h)"
| "cleanup_trees g repo ((p, m) # ts) rep h =
     (if mw_status m \<noteq> WtActive \<or> mw_builtOnMerge m
      then (case cleanup_trees g repo ts rep h of (ts1, rep1, h1) \<Rightarrow> ((p, m) # ts1, rep1, h1))
      else case removeWorktree g repo (mw_path m) h of
             (h1, r) \<Rightarrow>
               (let m1 = (case r of Inr _ \<Rightarrow> m\<lparr>mw_status := WtRemoved\<rparr> | Inl _ \<Rightarrow> m) in
                case cleanup_trees g repo ts (report_removal (mw_path m) r rep) h1 of
                  (ts1, rep1, h2) \<Rightarrow> ((p, m1) # ts1, rep1, h2)))"

definition cleanupAll :: "answers \<Rightarrow> worktree_manager \<Rightarrow> trees \<Rightarrow> history \<Rightarrow> trees \<times> cleanup_report \<times> history" where
  "cleanupAll g wm ts h =
     (case removeWorktree g (wm_repoRoot wm) (wm_mergeWorktreePath wm) h of
        (h1, r) \<Rightarrow>
          (case cleanup_trees g (wm_repoRoot wm) ts
                  (report_removal (wm_mergeWorktreePath wm) r \<lparr>cr_removed = [], cr_fallback = [], cr_failed = []\<rparr>) h1 of
             (ts1, rep, h2) \<Rightarrow> (ts1, rep, fst (cleanupWorktrees g (wm_repoRoot wm) (wm_worktreeBase wm) h2))))"

text \<open>The \<open>finally\<close> of \<open>Orchestrator.execute\<close>.\<close>

fun delete_branches :: "answers \<Rightarrow> string \<Rightarrow> string list \<Rightarrow> history \<Rightarrow> history" where
  "delete_branches g repo [] h = h"
| "delete_branches g repo (b # bs1) h = delete_branches g repo bs1 (fst (gitOp g repo [''branch'', ''-D'', b] h))"

definition execute_finally ::
    "answers \<Rightarrow> worktree_manager \<Rightarrow> string list \<Rightarrow> bool \<Rightarrow> landing_action \<Rightarrow> trees \<Rightarrow> history \<Rightarrow> history" where
  "execute_finally g wm planBranches landed action ts h =
     (case cleanupAll g wm ts h of
        (_, _, h1) \<Rightarrow>
          delete_branches g (wm_repoRoot wm) (planBranches @ (if landed \<and> action = LandMerge then [wm_featureBranch wm] else [])) h1)"

section \<open>Lemmas\<close>

lemma any_only: "only (\<lambda>_. True) (mergeWorktree g cwd b base msg res)"
proof -
  have "only (\<lambda>_. True) (ask_resolver g res cwd b base (forgeCommit g cwd msg []))"
    unfolding ask_resolver_def unmerged_files_def forgeCommit_def
    by (auto intro!: only_intros split: option.splits intro: only_mono [OF only_gatherConflictInfo])
  then show ?thesis
    unfolding mergeWorktree_def forgeCommit_def by (intro only_intros) (auto intro!: only_intros)
qed

lemma only_recover: "only (\<lambda>_. True) (recoverDriftedWorktree g cwd b msg)"
  unfolding recoverDriftedWorktree_def current_branch_def
  by (intro only_intros) (auto intro!: only_intros any_only)

text \<open>A squash merge that works ends with its commit.\<close>

definition commit_call :: "string \<Rightarrow> string \<Rightarrow> call" where
  "commit_call cwd message = Git cwd [''commit'', ''-m'', message @ [nl, nl] @ ATTRIBUTION]"

lemma forgeCommit_ends:
  assumes "forgeCommit g cwd message [] h2 = (h1, Inr ())" and "prefix h h2"
  shows "\<exists>k o1. h1 = h @ k @ [(commit_call cwd message, o1)] \<and> good o1"
proof -
  from assms(1) obtain s where "lockedGit g cwd [''commit'', ''-m'', message @ [nl, nl] @ ATTRIBUTION] h2 = (h1, Inr s)"
    by (auto simp: forgeCommit_def thenOp_Inr retOp_iff)
  from lockedGit_ends [OF this] assms(2) show ?thesis
    by (auto simp: ends_with_attempt_def commit_call_def prefix_def)
qed

lemma lockedGit_prefix: "lockedGit g cwd args h = (h1, r) \<Longrightarrow> prefix h h1"
  using lockedGit_ends by (fastforce simp: prefix_def)

lemma forgeCommit_prefix: "forgeCommit g cwd message ps h = (h1, r) \<Longrightarrow> prefix h h1"
  by (cases r) (auto simp: forgeCommit_def thenOp_Inr thenOp_Inl retOp_iff dest: lockedGit_prefix)

lemma mergeWorktree_ends:
  assumes "mergeWorktree g cwd b base message res h = (h1, Inr ())"
  shows "\<exists>k o1. h1 = h @ k @ [(commit_call cwd message, o1)] \<and> good o1"
proof -
  let ?m = "thenOp (lockedGit g cwd [''merge'', ''--squash'', b]) (forgeCommit g cwd message [])"
  from assms obtain h2 s where c: "lockedGit g cwd [''checkout'', base] h = (h2, Inr s)"
    and rest': "?m h2 = (h1, Inr ()) \<or> (\<exists>h3 err h4 x.
       ?m h2 = (h3, Inl err) \<and> ask_resolver g res cwd b base (forgeCommit g cwd message []) h3 = (h4, Inr x) \<and>
       (if x \<noteq> None then retOp () else thenOp (bestEffort (lockedGit g cwd [''reset'', ''--merge''])) (throwOp err)) h4 = (h1, Inr ()))"
    by (auto simp: mergeWorktree_def thenOp_Inr catchOp_Inr bindOp_Inr)
  have p: "prefix h h2" using c by (rule lockedGit_prefix)
  from rest' show ?thesis
  proof
    assume "?m h2 = (h1, Inr ())"
    then obtain h3 where "prefix h2 h3" "forgeCommit g cwd message [] h3 = (h1, Inr ())"
      by (auto simp: thenOp_Inr dest: lockedGit_prefix)
    then show ?thesis using forgeCommit_ends p prefix_order.trans by blast
  next
    assume "\<exists>h3 err h4 x.
       ?m h2 = (h3, Inl err) \<and> ask_resolver g res cwd b base (forgeCommit g cwd message []) h3 = (h4, Inr x) \<and>
       (if x \<noteq> None then retOp () else thenOp (bestEffort (lockedGit g cwd [''reset'', ''--merge''])) (throwOp err)) h4 = (h1, Inr ())"
    then obtain h3 err x where m: "?m h2 = (h3, Inl err)"
      and a: "ask_resolver g res cwd b base (forgeCommit g cwd message []) h3 = (h1, Inr (Some x))"
      by (auto simp: retOp_iff thenOp_Inr throwOp_iff split: if_splits)
    have "prefix h2 h3" using m by (auto simp: thenOp_Inl dest: lockedGit_prefix forgeCommit_prefix intro: prefix_order.trans)
    moreover have "\<exists>h5. prefix h3 h5 \<and> forgeCommit g cwd message [] h5 = (h1, Inr x)" by (rule ask_resolver_Some [OF a])
    ultimately show ?thesis using forgeCommit_ends p prefix_order.trans by (metis (full_types) old.unit.exhaust)
  qed
qed

text \<open>What was asked last when the merge of a plan worked.\<close>

definition head_call :: "string \<Rightarrow> call" where
  "head_call cwd = Git cwd [''rev-parse'', ''HEAD'']"

definition clean_at_head :: "worktree_manager \<Rightarrow> merge_options \<Rightarrow> string option \<Rightarrow> string \<Rightarrow> bool \<Rightarrow> history \<Rightarrow> bool" where
  "clean_at_head wm opt baseSha sha waived l \<longleftrightarrow>
     (\<exists>k s o1 later. l = k @ [(Git (wm_mergeWorktreePath wm) [''status'', ''--porcelain'', ''--untracked-files=all''], s),
                            (head_call (wm_mergeWorktreePath wm), o1)] @ later \<and>
        out_lines (text_of s) = [] \<and> sha = trim (text_of o1) \<and>
        (case baseSha of
           Some (c # cs) \<Rightarrow>
             (\<exists>d. later = [(Git (wm_mergeWorktreePath wm) [''diff'', ''--name-status'', ''--find-renames'', ''-z'', ''--end-of-options'', c # cs, ''HEAD'', ''--''], d)] \<and>
                waived = (parseGitNameStatus (text_of d) = []) \<and> (waived \<longrightarrow> waiver_valid opt))
         | _ \<Rightarrow> later = [] \<and> \<not> waived))"

lemma clean_at_headI:
  assumes "l = k @ [(Git (wm_mergeWorktreePath wm) [''status'', ''--porcelain'', ''--untracked-files=all''], s),
      (head_call (wm_mergeWorktreePath wm), o1)] @ later"
    and "out_lines (text_of s) = []" and "sha = trim (text_of o1)"
    and "case baseSha of
           Some (c # cs) \<Rightarrow>
             (\<exists>d. later = [(Git (wm_mergeWorktreePath wm) [''diff'', ''--name-status'', ''--find-renames'', ''-z'', ''--end-of-options'', c # cs, ''HEAD'', ''--''], d)] \<and>
                waived = (parseGitNameStatus (text_of d) = []) \<and> (waived \<longrightarrow> waiver_valid opt))
         | _ \<Rightarrow> later = [] \<and> \<not> waived"
  shows "clean_at_head wm opt baseSha sha waived l"
  unfolding clean_at_head_def using assms by blast

definition squashed_at_head :: "worktree_manager \<Rightarrow> merge_options \<Rightarrow> string \<Rightarrow> history \<Rightarrow> bool" where
  "squashed_at_head wm opt sha l \<longleftrightarrow>
     (\<exists>k c o1 d. l = k @ [(commit_call (wm_mergeWorktreePath wm) (mo_message opt), c), (head_call (wm_mergeWorktreePath wm), o1),
                          (Git (wm_repoRoot wm) [''branch'', ''-D'', mo_branch opt], d)] \<and>
        good c \<and> sha = trim (text_of o1))"

lemma merge_in_place_evidence:
  assumes "merge_in_place g wm opt baseSha h = (h1, Inr (sha, waived))"
  shows "\<exists>l. h1 = h @ l \<and> clean_at_head wm opt baseSha sha waived l"
proof -
  let ?p = "wm_mergeWorktreePath wm"
  from assms obtain h2 s o1 where r: "recoverDriftedWorktree g ?p (wm_featureBranch wm) (mo_message opt) h = (h2, Inr ())"
    and s: "out_lines (text_of s) = []" and sha: "sha = trim (text_of o1)"
    and fin: "(case baseSha of
               Some (c # cs) \<Rightarrow>
                 bindOp (getNameStatusDiff g ?p (c # cs) ''HEAD'') (\<lambda>files.
                   if files \<noteq> [] then retOp (sha, False)
                   else if waiver_valid opt then retOp (sha, True)
                   else throwOp NothingCommitted)
             | _ \<Rightarrow> retOp (sha, False))
        (h2 @ [(Git ?p [''status'', ''--porcelain'', ''--untracked-files=all''], s), (head_call ?p, o1)]) = (h1, Inr (sha, waived))"
    by (auto simp: merge_in_place_def Let_def thenOp_Inr bindOp_Inr getWorktreeDirtyFiles_def gitOp_Inr retOp_iff throwOp_iff
        head_sha_def head_call_def split: if_splits option.splits list.splits)
  obtain k where k: "h2 = h @ k" using only_prefix [OF only_recover r] by (auto simp: prefix_def)
  let ?two = "[(Git ?p [''status'', ''--porcelain'', ''--untracked-files=all''], s), (head_call ?p, o1)]"
  have "\<exists>later. h1 = h2 @ ?two @ later \<and>
      (case baseSha of
         Some (c # cs) \<Rightarrow>
           (\<exists>d. later = [(Git ?p [''diff'', ''--name-status'', ''--find-renames'', ''-z'', ''--end-of-options'', c # cs, ''HEAD'', ''--''], d)] \<and>
              waived = (parseGitNameStatus (text_of d) = []) \<and> (waived \<longrightarrow> waiver_valid opt))
       | _ \<Rightarrow> later = [] \<and> \<not> waived)"
    using fin by (auto simp: bindOp_Inr getNameStatusDiff_def gitOp_Inr retOp_iff throwOp_iff split: if_splits option.splits list.splits)
  then obtain later where later: "h1 = h2 @ ?two @ later" "case baseSha of
         Some (c # cs) \<Rightarrow>
           (\<exists>d. later = [(Git ?p [''diff'', ''--name-status'', ''--find-renames'', ''-z'', ''--end-of-options'', c # cs, ''HEAD'', ''--''], d)] \<and>
              waived = (parseGitNameStatus (text_of d) = []) \<and> (waived \<longrightarrow> waiver_valid opt))
       | _ \<Rightarrow> later = [] \<and> \<not> waived" by blast
  have "clean_at_head wm opt baseSha sha waived (k @ ?two @ later)"
    by (rule clean_at_headI [OF refl s sha later(2)])
  with later(1) k show ?thesis by auto
qed

lemma merge_squashed_evidence:
  assumes "merge_squashed g wm opt h = (h1, Inr (sha, waived))"
  shows "\<exists>l. h1 = h @ l \<and> squashed_at_head wm opt sha l" and "\<not> waived"
proof -
  let ?p = "wm_mergeWorktreePath wm"
  from assms obtain h2 o1 where
    m: "mergeWorktree g ?p (mo_branch opt) (wm_featureBranch wm) (mo_message opt) (contextResolver opt) h = (h2, Inr ())"
    and sha: "sha = trim (text_of o1)"
    and h1: "h1 = fst (gitOp g (wm_repoRoot wm) [''branch'', ''-D'', mo_branch opt] (h2 @ [(head_call ?p, o1)]))" and w: "\<not> waived"
    by (auto simp: merge_squashed_def thenOp_Inr bindOp_Inr head_sha_def head_call_def gitOp_Inr retOp_iff bestEffort_Inr)
  show "\<not> waived" by (rule w)
  have "\<exists>d. h1 = (h2 @ [(head_call ?p, o1)]) @ [(Git (wm_repoRoot wm) [''branch'', ''-D'', mo_branch opt], d)]"
    unfolding h1 by (simp add: gitOp_def bindOp_def askOp_def retOp_def Let_def split: reply.splits)
  with mergeWorktree_ends [OF m] sha show "\<exists>l. h1 = h @ l \<and> squashed_at_head wm opt sha l"
    by (auto simp: squashed_at_head_def)
qed


section \<open>Issuing a pull request\<close>

definition is_create :: "call \<Rightarrow> bool" where
  "is_create c \<longleftrightarrow> (case c of Gh _ args \<Rightarrow> take 2 args = [''pr'', ''create''] | _ \<Rightarrow> False)"

definition push_call :: "worktree_manager \<Rightarrow> pr_options \<Rightarrow> call" where
  "push_call wm opt = Git (wm_mergeWorktreePath wm)
     ([''push'', ''-u''] @ (if po_force opt then [''--force-with-lease''] else []) @ [''origin'', wm_featureBranch wm])"

text \<open>Nothing is changed, or the guard before the push was passed, and no pull request is created before the
  push has worked and the guard after it was passed too.\<close>

definition pr_sequence :: "worktree_manager \<Rightarrow> pr_options \<Rightarrow> history \<Rightarrow> bool" where
  "pr_sequence wm opt l \<longleftrightarrow>
     untouched l \<or>
     (\<exists>v f p k. l = (Gh (wm_mergeWorktreePath wm) [''--version''], v) # (Freshness True, f) # (push_call wm opt, p) # k \<and> good f \<and>
        (k = [] \<or> (\<exists>c m. k = (Freshness False, c) # m \<and> good p \<and> ((\<exists>x \<in> set m. is_create (fst x)) \<longrightarrow> good c))))"

definition url_known :: "pr_json \<Rightarrow> worktree_manager \<Rightarrow> pr_options \<Rightarrow> string \<Rightarrow> history \<Rightarrow> bool" where
  "url_known json wm opt url l \<longleftrightarrow>
     (\<exists>c o1. (c, o1) \<in> set l \<and> is_create c \<and> good o1 \<and> url = trim (text_of o1)) \<or>
     (\<exists>o1. (Gh (wm_mergeWorktreePath wm) [''pr'', ''view'', wm_featureBranch wm, ''--json'', ''url,baseRefName''], o1) \<in> set l \<and>
        good o1 \<and> json (trim (text_of o1)) = Some (Some url, Some (po_baseBranch opt)))"

lemma createPullRequest_Inr:
  assumes "createPullRequest g cwd base feature m h = (h1, Inr url)"
  shows "\<exists>l c o1. h1 = h @ l \<and> (c, o1) \<in> set l \<and> is_create c \<and> good o1 \<and> url = trim (text_of o1)"
proof -
  from assms obtain r h2 f o1 r1 r2 where "h1 = (h @ [(TempDir, r), (WriteText f (pm_body m), r1),
      (Gh cwd [''pr'', ''create'', ''--base'', base, ''--head'', feature, ''--title'', pm_title m, ''--body-file'', f], o1)]) @ [(RemoveDir r2, h2)]"
    "good o1" "url = trim (text_of o1)"
    by (auto simp: createPullRequest_def with_body_file_def bindOp_Inr askOp_Inr finallyOp_def thenOp_Inr ghOp_Inr retOp_iff Let_def
        split: prod.splits sum.splits)
  moreover have "is_create (Gh cwd [''pr'', ''create'', ''--base'', base, ''--head'', feature, ''--title'', pm_title m, ''--body-file'', f])"
    by (simp add: is_create_def)
  ultimately show ?thesis
    by (intro exI conjI) (simp, rule list.set_intros(2), rule list.set_intros(2), rule list.set_intros(1), assumption+)
qed

lemma only_createPullRequest: "only (\<lambda>_. True) (createPullRequest g cwd base feature m)"
  unfolding createPullRequest_def with_body_file_def Let_def by (intro only_intros) auto

definition no_create :: "call \<Rightarrow> bool" where
  "no_create c \<longleftrightarrow> \<not> is_create c"

lemma only_editPullRequest: "only no_create (editPullRequest g cwd sel m)"
  unfolding editPullRequest_def with_body_file_def Let_def
  by (intro only_intros) (auto simp: no_create_def is_create_def)

lemma only_existing: "only no_create (getExistingPullRequestUrl g json cwd feature base)"
proof -
  have "only no_create (case x of Some (Some url, Some b) \<Rightarrow> retOp (if Some b = base then Some url else None) | _ \<Rightarrow> retOp None)" for x
    by (auto intro!: only_intros split: option.splits)
  then show ?thesis
    unfolding getExistingPullRequestUrl_def Let_def
    by (auto intro!: only_intros simp: no_create_def is_create_def)
qed

lemma existing_Inr:
  assumes "getExistingPullRequestUrl g json cwd feature (Some base) h = (h1, Inr (Some url))" and "base \<noteq> []"
  shows "\<exists>o1. h1 = h @ [(Gh cwd [''pr'', ''view'', feature, ''--json'', ''url,baseRefName''], o1)] \<and> good o1 \<and>
     json (trim (text_of o1)) = Some (Some url, Some base)"
  using assms
  by (auto simp: getExistingPullRequestUrl_def catchOp_Inr bindOp_Inr ghOp_Inr retOp_iff split: option.splits if_splits prod.splits)


text \<open>The part after the push.\<close>

definition publish :: "answers \<Rightarrow> pr_json \<Rightarrow> worktree_manager \<Rightarrow> pr_options \<Rightarrow> string git_act" where
  "publish g json wm opt =
     (let path = wm_mergeWorktreePath wm; branch = wm_featureBranch wm;
          m = (case po_metadata opt of Some m \<Rightarrow> m | None \<Rightarrow> \<lparr>pm_title = branch, pm_body = []\<rparr>) in
      catchOp
        (thenOp (run_guard g (po_beforeCreate opt) False) (createPullRequest g path (po_baseBranch opt) branch m))
        (\<lambda>err. case err of
           StaleBase _ _ _ \<Rightarrow> throwOp err
         | _ \<Rightarrow>
             thenOp (run_guard g (po_beforeCreate opt) False)
               (bindOp (getExistingPullRequestUrl g json path branch (Some (po_baseBranch opt))) (\<lambda>existing.
                  case existing of
                    Some (c # cs) \<Rightarrow>
                      thenOp (case po_metadata opt of None \<Rightarrow> retOp () | Some m1 \<Rightarrow> bestEffort (editPullRequest g path (c # cs) m1))
                        (retOp (c # cs))
                  | _ \<Rightarrow> throwOp err))))"

lemma issuePr_publish:
  "issuePr g json wm opt =
     thenOp (ensureGhAvailable g (wm_mergeWorktreePath wm))
       (thenOp (run_guard g (po_beforePush opt) True)
         (thenOp (pushFeatureBranch g (wm_mergeWorktreePath wm) (wm_featureBranch wm) ''origin'' (po_force opt))
            (publish g json wm opt)))"
  by (simp add: issuePr_def publish_def Let_def)

definition fallback :: "answers \<Rightarrow> pr_json \<Rightarrow> worktree_manager \<Rightarrow> pr_options \<Rightarrow> op_error \<Rightarrow> string git_act" where
  "fallback g json wm opt err =
     thenOp (run_guard g (po_beforeCreate opt) False)
       (bindOp (getExistingPullRequestUrl g json (wm_mergeWorktreePath wm) (wm_featureBranch wm) (Some (po_baseBranch opt))) (\<lambda>existing.
          case existing of
            Some (c # cs) \<Rightarrow>
              thenOp (case po_metadata opt of None \<Rightarrow> retOp ()
                      | Some m1 \<Rightarrow> bestEffort (editPullRequest g (wm_mergeWorktreePath wm) (c # cs) m1))
                (retOp (c # cs))
          | _ \<Rightarrow> throwOp err))"

lemma only_fallback: "only no_create (fallback g json wm opt err)"
proof -
  have guard: "only no_create (run_guard g b False)" for b
    unfolding run_guard_def by (auto intro!: only_intros simp: no_create_def is_create_def)
  have edit: "only no_create (case po_metadata opt of None \<Rightarrow> retOp () | Some m1 \<Rightarrow> bestEffort (editPullRequest g p x m1))" for p x
    by (auto intro!: only_intros only_editPullRequest split: option.splits)
  have "only no_create (case ex of Some (c # cs) \<Rightarrow> thenOp (case po_metadata opt of None \<Rightarrow> retOp ()
                      | Some m1 \<Rightarrow> bestEffort (editPullRequest g (wm_mergeWorktreePath wm) (c # cs) m1)) (retOp (c # cs)) | _ \<Rightarrow> throwOp err)" for ex
  proof (cases "\<exists>c cs. ex = Some (c # cs)")
    case True
    then obtain c cs where "ex = Some (c # cs)" by blast
    then show ?thesis using only_thenOp [OF edit only_retOp] by simp
  next
    case False
    then show ?thesis by (cases ex; cases "the ex") (auto intro: only_throwOp)
  qed
  then show ?thesis unfolding fallback_def by (intro only_thenOp only_bindOp guard only_existing)
qed

lemma fallback_Inr:
  assumes "fallback g json wm opt err h = (h1, Inr url)" and "po_baseBranch opt \<noteq> []"
  shows "\<exists>l. h1 = h @ l \<and> url_known json wm opt url l"
proof -
  obtain h2 where h2: "run_guard g (po_beforeCreate opt) False h = (h2, Inr ())"
    and "bindOp (getExistingPullRequestUrl g json (wm_mergeWorktreePath wm) (wm_featureBranch wm) (Some (po_baseBranch opt))) (\<lambda>existing.
          case existing of
            Some (c # cs) \<Rightarrow>
              thenOp (case po_metadata opt of None \<Rightarrow> retOp ()
                      | Some m1 \<Rightarrow> bestEffort (editPullRequest g (wm_mergeWorktreePath wm) (c # cs) m1))
                (retOp (c # cs))
          | _ \<Rightarrow> throwOp err) h2 = (h1, Inr url)" (is "bindOp _ ?f h2 = _")
    using assms(1) by (auto simp: fallback_def thenOp_Inr)
  then obtain h3 ex where h3: "getExistingPullRequestUrl g json (wm_mergeWorktreePath wm) (wm_featureBranch wm) (Some (po_baseBranch opt)) h2 = (h3, Inr ex)"
    and f: "?f ex h3 = (h1, Inr url)" by (auto simp: bindOp_Inr)
  from f have ex: "ex = Some url" by (auto simp: thenOp_Inr retOp_iff throwOp_iff split: option.splits list.splits)
  have "only no_create (?f ex)"
    using ex by (cases url) (auto intro!: only_intros only_editPullRequest split: option.splits)
  then have "prefix h3 h1" using f by (rule only_prefix)
  moreover have "prefix h h2" using h2 by (auto simp: run_guard_def thenOp_Inr askOp_Inr retOp_iff split: if_splits)
  moreover obtain o1 where "h3 = h2 @ [(Gh (wm_mergeWorktreePath wm) [''pr'', ''view'', wm_featureBranch wm, ''--json'', ''url,baseRefName''], o1)]"
    "good o1" "json (trim (text_of o1)) = Some (Some url, Some (po_baseBranch opt))"
    using existing_Inr [OF h3 [unfolded ex] assms(2)] by blast
  ultimately show ?thesis unfolding url_known_def prefix_def by fastforce
qed

lemma publish_fallback:
  "publish g json wm opt =
     catchOp
       (thenOp (run_guard g (po_beforeCreate opt) False)
          (createPullRequest g (wm_mergeWorktreePath wm) (po_baseBranch opt) (wm_featureBranch wm)
             (case po_metadata opt of Some m \<Rightarrow> m | None \<Rightarrow> \<lparr>pm_title = wm_featureBranch wm, pm_body = []\<rparr>)))
       (\<lambda>err. case err of StaleBase _ _ _ \<Rightarrow> throwOp err | _ \<Rightarrow> fallback g json wm opt err)"
  unfolding publish_def fallback_def Let_def by (rule refl)


lemma url_known_append: "url_known json wm opt url l \<Longrightarrow> url_known json wm opt url (k @ l)"
  unfolding url_known_def by (auto simp only: set_append Un_iff)

lemma askOp_good: "good (g h c) \<Longrightarrow> askOp g c h = (h @ [(c, g h c)], Inr (g h c))"
  by (auto simp: askOp_def Let_def good_def split: reply.splits)

lemma askOp_bad: "\<not> good (g h c) \<Longrightarrow> \<exists>e. askOp g c h = (h @ [(c, g h c)], Inl e)"
  by (auto simp: askOp_def Let_def good_def split: reply.splits)

lemma publish_order:
  assumes "publish g json wm opt h = (h1, r)" and "po_beforeCreate opt" and "po_baseBranch opt \<noteq> []"
  shows "\<exists>c m. h1 = h @ (Freshness False, c) # m \<and> ((\<exists>x \<in> set m. is_create (fst x)) \<longrightarrow> good c) \<and>
    (case r of Inr url \<Rightarrow> url_known json wm opt url ((Freshness False, c) # m) | Inl _ \<Rightarrow> True)"
proof -
  let ?c = "g h (Freshness False)"
  let ?m = "case po_metadata opt of Some m \<Rightarrow> m | None \<Rightarrow> \<lparr>pm_title = wm_featureBranch wm, pm_body = []\<rparr>"
  let ?create = "createPullRequest g (wm_mergeWorktreePath wm) (po_baseBranch opt) (wm_featureBranch wm) ?m"
  let ?h2 = "h @ [(Freshness False, ?c)]"
  let ?f = "\<lambda>err. case err of StaleBase _ _ _ \<Rightarrow> throwOp err | _ \<Rightarrow> fallback g json wm opt err"
  have f: "only no_create (?f err)" for err
    by (cases err) (auto intro: only_throwOp only_fallback)
  have f_ok: "\<exists>l. k = j @ l \<and> url_known json wm opt url l" if "?f err j = (k, Inr url)" for err j k url
    using that fallback_Inr [OF _ assms(3)] by (cases err) (auto simp: throwOp_iff)
  show ?thesis
  proof (cases "good ?c")
    case True
    then have P: "publish g json wm opt h = catchOp ?create ?f ?h2"
      using assms(2) by (auto simp: publish_fallback catchOp_def thenOp_def bindOp_def run_guard_def askOp_def retOp_def Let_def good_def
          split: reply.splits)
    obtain h3 s where s: "?create ?h2 = (h3, s)" by fastforce
    obtain m1 where m1: "h3 = ?h2 @ m1" using only_prefix [OF only_createPullRequest s] by (auto simp: prefix_def)
    show ?thesis
    proof (cases s)
      case (Inr url)
      then have e: "h1 = h3" "r = Inr url" using assms(1) P s by (simp_all add: catchOp_def)
      from createPullRequest_Inr [OF s [unfolded Inr]] m1 have "url_known json wm opt url m1" by (auto simp: url_known_def)
      then have "url_known json wm opt url ([(Freshness False, ?c)] @ m1)" by (rule url_known_append)
      then show ?thesis using e m1 True by auto
    next
      case (Inl err)
      then have e: "?f err h3 = (h1, r)" using assms(1) P s by (simp add: catchOp_def)
      obtain m2 where m2: "h1 = h3 @ m2" using only_prefix [of no_create "?f err" h3 h1 r] f e by (auto simp: prefix_def)
      have "url_known json wm opt url (((Freshness False, ?c) # m1) @ m2)" if "r = Inr url" for url
      proof (rule url_known_append)
        show "url_known json wm opt url m2" using f_ok [OF e [unfolded that]] m2 by auto
      qed
      then show ?thesis using m1 m2 True
        by (intro exI [of _ ?c] exI [of _ "m1 @ m2"]) (auto split: sum.splits)
    qed
  next
    case False
    then obtain err where "askOp g (Freshness False) h = (?h2, Inl err)" using askOp_bad by blast
    then have e: "?f err ?h2 = (h1, r)"
      using assms(1,2) by (simp add: publish_fallback catchOp_def thenOp_def bindOp_def run_guard_def)
    obtain m2 where m2: "h1 = ?h2 @ m2" "\<forall>x \<in> set m2. no_create (fst x)"
      using only_step [of no_create "?f err" ?h2 h1 r] f e by blast
    have "url_known json wm opt url ([(Freshness False, ?c)] @ m2)" if "r = Inr url" for url
    proof (rule url_known_append)
      show "url_known json wm opt url m2" using f_ok [OF e [unfolded that]] m2 by auto
    qed
    then show ?thesis using m2 by (intro exI [of _ ?c] exI [of _ m2]) (auto simp: no_create_def split: sum.splits)
  qed
qed

lemma push_ask: "pushFeatureBranch g (wm_mergeWorktreePath wm) (wm_featureBranch wm) ''origin'' (po_force opt) =
    thenOp (bindOp (askOp g (push_call wm opt)) (\<lambda>r. retOp (text_of r))) (retOp ())"
  by (simp add: pushFeatureBranch_def gitOp_def push_call_def)

lemma issue_pr:
  assumes "issuePr g json wm opt h = (h1, r)" and "po_beforePush opt" and "po_beforeCreate opt" and "po_baseBranch opt \<noteq> []"
  shows "\<exists>l. h1 = h @ l \<and> pr_sequence wm opt l \<and> (case r of Inr url \<Rightarrow> url_known json wm opt url l | Inl _ \<Rightarrow> True)"
proof -
  let ?p = "wm_mergeWorktreePath wm"
  let ?v = "g h (Gh ?p [''--version''])"
  let ?h1 = "h @ [(Gh ?p [''--version''], ?v)]"
  let ?f = "g ?h1 (Freshness True)"
  let ?h2 = "?h1 @ [(Freshness True, ?f)]"
  let ?q = "g ?h2 (push_call wm opt)"
  let ?h3 = "?h2 @ [(push_call wm opt, ?q)]"
  show ?thesis
  proof (cases "good ?v \<and> good ?f \<and> good ?q")
    case True
    then have "publish g json wm opt ?h3 = (h1, r)"
      using assms(1,2) by (simp add: issuePr_publish thenOp_def bindOp_def ensureGhAvailable_def catchOp_def ghOp_def askOp_good
          run_guard_def push_ask retOp_def)
    from publish_order [OF this assms(3,4)] obtain c m where m: "h1 = ?h3 @ (Freshness False, c) # m"
      "(\<exists>x \<in> set m. is_create (fst x)) \<longrightarrow> good c"
      "case r of Inr url \<Rightarrow> url_known json wm opt url ((Freshness False, c) # m) | Inl _ \<Rightarrow> True" by blast
    let ?l = "(Gh ?p [''--version''], ?v) # (Freshness True, ?f) # (push_call wm opt, ?q) # (Freshness False, c) # m"
    have "pr_sequence wm opt ?l" using True m(2) by (auto simp: pr_sequence_def)
    moreover have "url_known json wm opt url ?l" if "url_known json wm opt url ((Freshness False, c) # m)" for url
      using url_known_append [OF that, of "[(Gh ?p [''--version''], ?v), (Freshness True, ?f), (push_call wm opt, ?q)]"] by simp
    then have "case r of Inr url \<Rightarrow> url_known json wm opt url ?l | Inl _ \<Rightarrow> True" using m(3) by (cases r) simp_all
    moreover have "h1 = h @ ?l" using m(1) by simp
    ultimately show ?thesis by blast
  next
    case False
    have e: "(h1 = ?h1 \<or> h1 = ?h2 \<or> (good ?f \<and> h1 = ?h3)) \<and> (\<exists>e. r = Inl e)"
    proof (cases "good ?v")
      case v: False
      from askOp_bad [of g h, OF v] show ?thesis
        using assms(1) by (auto simp: issuePr_publish thenOp_def bindOp_def ensureGhAvailable_def catchOp_def ghOp_def throwOp_def)
    next
      case v: True
      show ?thesis
      proof (cases "good ?f")
        case f: False
        from askOp_bad [of g ?h1, OF f] show ?thesis
          using assms(1,2) v by (auto simp: issuePr_publish thenOp_def bindOp_def ensureGhAvailable_def catchOp_def ghOp_def
              run_guard_def retOp_def askOp_good)
      next
        case f: True
        then have q: "\<not> good ?q" using False v by simp
        from askOp_bad [of g ?h2, OF q] show ?thesis
          using assms(1,2) v f by (auto simp: issuePr_publish thenOp_def bindOp_def ensureGhAvailable_def catchOp_def ghOp_def
              run_guard_def retOp_def askOp_good push_ask)
      qed
    qed
    have "pr_sequence wm opt [(Gh ?p [''--version''], ?v)]" "pr_sequence wm opt [(Gh ?p [''--version''], ?v), (Freshness True, ?f)]"
      by (simp_all add: pr_sequence_def untouched_def asks_def)
    moreover have "good ?f \<Longrightarrow> pr_sequence wm opt [(Gh ?p [''--version''], ?v), (Freshness True, ?f), (push_call wm opt, ?q)]"
      by (simp add: pr_sequence_def)
    ultimately have "\<exists>l. h1 = h @ l \<and> pr_sequence wm opt l" using e by (elim conjE disjE) (auto simp: append_assoc)
    with e show ?thesis by (auto split: sum.splits)
  qed
qed


section \<open>What a clean-up accounts for\<close>

definition remove_call :: "string \<Rightarrow> string \<Rightarrow> call" where
  "remove_call repo path = Git repo [''worktree'', ''remove'', path, ''--force'']"

definition own_active :: "managed_worktree \<Rightarrow> bool" where
  "own_active m \<longleftrightarrow> mw_status m = WtActive \<and> \<not> mw_builtOnMerge m"

definition reported :: "cleanup_report \<Rightarrow> string list" where
  "reported rep = cr_removed rep @ cr_fallback rep @ cr_failed rep"

lemma only_removeWorktree: "only (\<lambda>_. True) (removeWorktree g repo path)"
  unfolding removeWorktree_def by (intro only_intros) auto

lemma removeWorktree_clean: "removeWorktree g repo path h = (h1, Inr False) \<Longrightarrow> \<exists>o1. (remove_call repo path, o1) \<in> set h1 \<and> good o1"
  by (auto simp: removeWorktree_def catchOp_Inr thenOp_Inr gitOp_Inr retOp_iff remove_call_def)

lemma report_removal_reported [simp]: "mset (reported (report_removal path r rep)) = add_mset path (mset (reported rep))"
  by (cases r; cases "projr r") (auto simp: report_removal_def reported_def)

lemma report_removal_removed: "cr_removed (report_removal path r rep) = cr_removed rep @ (if r = Inr False then [path] else [])"
  by (cases r; cases "projr r") (auto simp: report_removal_def)

lemma cleanup_trees_all:
  "cleanup_trees g repo ts rep h = (ts1, rep1, h1) \<Longrightarrow>
   prefix h h1 \<and> mset (reported rep1) = mset (reported rep) + mset (map (\<lambda>e. mw_path (snd e)) (filter (\<lambda>e. own_active (snd e)) ts)) \<and>
   (\<forall>x \<in> set (cr_removed rep1) - set (cr_removed rep). \<exists>o1. (remove_call repo x, o1) \<in> set h1 \<and> good o1)"
proof (induction ts arbitrary: rep h ts1 rep1 h1)
  case Nil
  then show ?case by simp
next
  case (Cons e ts)
  obtain p m where e: "e = (p, m)" by fastforce
  note c = Cons.prems
  show ?case
  proof (cases "own_active m")
    case False
    then have "\<exists>us. cleanup_trees g repo ts rep h = (us, rep1, h1)"
      using c e by (auto simp: own_active_def split: prod.splits)
    then obtain us where "cleanup_trees g repo ts rep h = (us, rep1, h1)" by blast
    from Cons.IH [OF this] False e show ?thesis by simp
  next
    case True
    obtain h2 r where r: "removeWorktree g repo (mw_path m) h = (h2, r)" by fastforce
    have "\<exists>us. cleanup_trees g repo ts (report_removal (mw_path m) r rep) h2 = (us, rep1, h1)"
      using c e True r by (auto simp: own_active_def Let_def split: prod.splits)
    then obtain us where us: "cleanup_trees g repo ts (report_removal (mw_path m) r rep) h2 = (us, rep1, h1)" by blast
    note IH = Cons.IH [OF us, THEN conjunct1] Cons.IH [OF us, THEN conjunct2, THEN conjunct1] Cons.IH [OF us, THEN conjunct2, THEN conjunct2]
    have "prefix h h2" using only_prefix [of "\<lambda>_. True" "removeWorktree g repo (mw_path m)"] only_removeWorktree r by blast
    then have "prefix h h1" using IH(1) prefix_order.trans by blast
    moreover have "\<exists>o1. (remove_call repo (mw_path m), o1) \<in> set h1 \<and> good o1" if "r = Inr False"
      using removeWorktree_clean [OF r [unfolded that]] set_mono_prefix [OF IH(1)] by blast
    ultimately show ?thesis
      using IH(2,3) True e by (auto simp: report_removal_removed split: if_splits)
  qed
qed

lemma cleanup_all:
  assumes "cleanupAll g wm ts h = (ts1, rep, h1)"
  shows "mset (reported rep) = add_mset (wm_mergeWorktreePath wm) (mset (map (\<lambda>e. mw_path (snd e)) (filter (\<lambda>e. own_active (snd e)) ts))) \<and>
    (\<forall>x \<in> set (cr_removed rep). \<exists>o1. (remove_call (wm_repoRoot wm) x, o1) \<in> set h1 \<and> good o1)"
proof -
  let ?repo = "wm_repoRoot wm" and ?p = "wm_mergeWorktreePath wm" and ?e = "\<lparr>cr_removed = [], cr_fallback = [], cr_failed = []\<rparr>"
  obtain h2 r where r: "removeWorktree g ?repo ?p h = (h2, r)" by fastforce
  obtain us rep2 h3 where c: "cleanup_trees g ?repo ts (report_removal ?p r ?e) h2 = (us, rep2, h3)" by (metis prod_cases3)
  have rep: "rep = rep2" "h1 = fst (cleanupWorktrees g ?repo (wm_worktreeBase wm) h3)"
    using assms r c by (simp_all add: cleanupAll_def)
  note spec = cleanup_trees_all [OF c, THEN conjunct1] cleanup_trees_all [OF c, THEN conjunct2, THEN conjunct1]
    cleanup_trees_all [OF c, THEN conjunct2, THEN conjunct2]
  have "only (\<lambda>_. True) (cleanupWorktrees g ?repo (wm_worktreeBase wm))"
    unfolding cleanupWorktrees_def by (intro only_intros) auto
  then have p: "prefix h3 h1" unfolding rep(2) only_def prefix_def by blast
  have "\<exists>o1. (remove_call ?repo ?p, o1) \<in> set h1 \<and> good o1" if "r = Inr False"
    using removeWorktree_clean [OF r [unfolded that]] set_mono_prefix [OF spec(1)] set_mono_prefix [OF p] by blast
  then have "\<forall>x \<in> set (cr_removed rep). \<exists>o1. (remove_call ?repo x, o1) \<in> set h1 \<and> good o1"
    using spec(3) set_mono_prefix [OF p] rep(1) by (auto simp: report_removal_removed split: if_splits)
  then show ?thesis using spec(2) rep(1) by (simp add: reported_def [of ?e])
qed

text \<open>
  A plan built in the merge worktree has the path of that worktree but its own branch: \<open>reconcile\<close>, which
  the engine does not call at present, finds the merge worktree valid and then removes it as corrupt.
\<close>

definition state_m :: eforge_state where
  "state_m = \<lparr>es_setName = ''x'', es_status = RunRunning, es_baseBranch = ''main'', es_featureBranch = ''eforge/x'',
     es_worktreeBase = ''/w'', es_mergeWorktreePath = Some ''/w/__merge__'',
     es_plans = [(''p'', \<lparr>ps_status = PRunning, ps_worktreePath = Some ''/w/__merge__'', ps_branch = ''x/p'', ps_dependsOn = [],
                        ps_merged = False, ps_error = None\<rparr>)],
     es_completedPlans = [], es_ended = False\<rparr>"

definition manager_m :: worktree_manager where
  "manager_m = \<lparr>wm_repoRoot = ''/r'', wm_worktreeBase = ''/w'', wm_featureBranch = ''eforge/x'', wm_mergeWorktreePath = ''/w/__merge__''\<rparr>"

definition answers_m :: answers where
  "answers_m h c = Out (if c = Git ''/w/__merge__'' [''branch'', ''--show-current''] then ''eforge/x'' else [])"

lemma reconcile_removes_merge_worktree:
  "rc_valid (rn_report (fst (reconcile answers_m manager_m state_m [] []))) = [''__merge__'']"
  "(remove_call ''/r'' ''/w/__merge__'', Out []) \<in> set (snd (reconcile answers_m manager_m state_m [] []))"
  by code_simp+

end
