(* ===== verification/Landing.thy ===== *)
theory Landing
  imports Worktrees
begin

text \<open>
  The landing actions of a build (\<open>landing.ts\<close>): merge into the base branch, pull request, or leaving the
  branch, with the clean-up of plan files before (\<open>cleanup.ts\<close>). An action is a generator: it adds to the
  history of calls, yields events and returns an outcome. The lemmas show that the events tell the
  outcome, and what has been asked and answered when it is a success.
\<close>

section \<open>Generators\<close>

datatype landing_workflow = TrunkPr | TrunkLocalMerge | FeaturePr | FeatureLocalMerge | LeaveBranch

datatype landing_reason = NotPermitted string | FinalMergeFailed op_error | PrFailed op_error

datatype auto_skip = PolicyIsNever | DisabledForRun | NotRequested | GhMergeFailed op_error

datatype landing_event =
    LdStart landing_action landing_workflow string
  | LdFinalizeStart | LdFinalizeComplete string | LdFinalizeSkipped landing_reason
  | LdComplete landing_action "string option" "string option" | LdSkipped landing_action landing_reason
  | LdProgress | LdCleanupStart | LdCleanupComplete
  | LdAutoMergeStart string | LdAutoMergeComplete string | LdAutoMergeSkipped string auto_skip

type_synonym 'a lgen = "history \<Rightarrow> history \<times> landing_event list \<times> (op_error, 'a) result"

definition gret :: "'a \<Rightarrow> 'a lgen" where
  "gret x h = (h, [], Inr x)"

definition gthrow :: "op_error \<Rightarrow> 'a lgen" where
  "gthrow e h = (h, [], Inl e)"

definition gemit :: "landing_event \<Rightarrow> unit lgen" where
  "gemit e h = (h, [e], Inr ())"

definition glift :: "'a git_act \<Rightarrow> 'a lgen" where
  "glift m h = (case m h of (h1, r) \<Rightarrow> (h1, [], r))"

definition gbind :: "'a lgen \<Rightarrow> ('a \<Rightarrow> 'b lgen) \<Rightarrow> 'b lgen" where
  "gbind m f h =
     (case m h of
        (h1, es, Inl e) \<Rightarrow> (h1, es, Inl e)
      | (h1, es, Inr x) \<Rightarrow> (case f x h1 of (h2, es2, r) \<Rightarrow> (h2, es @ es2, r)))"

definition gthen :: "'a lgen \<Rightarrow> 'b lgen \<Rightarrow> 'b lgen" where
  "gthen m n = gbind m (\<lambda>_. n)"

definition gcatch :: "'a lgen \<Rightarrow> (op_error \<Rightarrow> 'a lgen) \<Rightarrow> 'a lgen" where
  "gcatch m f h =
     (case m h of
        (h1, es, Inl e) \<Rightarrow> (case f e h1 of (h2, es2, r) \<Rightarrow> (h2, es @ es2, r))
      | (h1, es, Inr x) \<Rightarrow> (h1, es, Inr x))"

section \<open>Clean-up of plan files (cleanup.ts)\<close>

definition resolve_path :: "string \<Rightarrow> string \<Rightarrow> string" where
  "resolve_path cwd p = (if take 1 p = ''/'' then p else path_join cwd p)"

definition is_some_text :: "string option \<Rightarrow> bool" where
  "is_some_text x \<longleftrightarrow> x \<noteq> None \<and> x \<noteq> Some []"

definition remove_plan_dir :: "answers \<Rightarrow> string \<Rightarrow> string \<Rightarrow> string \<Rightarrow> unit git_act" where
  "remove_plan_dir g cwd planSet outputDir =
     bestEffort
       (thenOp (lockedGit g cwd [''rm'', ''-r'', ''--'', path_join (resolve_path cwd outputDir) planSet])
         (bestEffort (bindOp (askOp g (ListDir (resolve_path cwd outputDir))) (\<lambda>r.
            if r = Entries [] then thenOp (askOp g (RemoveDir (resolve_path cwd outputDir))) (retOp ()) else retOp ()))))"

definition remove_prd :: "answers \<Rightarrow> string \<Rightarrow> string \<Rightarrow> unit git_act" where
  "remove_prd g cwd prd =
     bestEffort
       (catchOp (thenOp (lockedGit g cwd [''rm'', ''-f'', ''--'', prd]) (retOp ()))
          (\<lambda>_. thenOp (askOp g (Unlink (resolve_path cwd prd))) (bestEffort (lockedGit g cwd [''add'', ''--'', prd]))))"

definition cleanup_message :: "string \<Rightarrow> string option \<Rightarrow> string" where
  "cleanup_message planSet prd =
     ''cleanup('' @ planSet @ (if is_some_text prd then ''): remove plan files and PRD provenance artifact''
                               else ''): remove plan files after successful build'')"

definition cleanupPlanFiles :: "answers \<Rightarrow> string \<Rightarrow> string \<Rightarrow> string \<Rightarrow> string option \<Rightarrow> unit lgen" where
  "cleanupPlanFiles g cwd planSet outputDir prd =
     gthen (gemit LdCleanupStart)
      (gthen
        (gcatch
          (gthen (glift (remove_plan_dir g cwd planSet outputDir))
            (gthen (if is_some_text prd then glift (remove_prd g cwd (the prd)) else gret ())
              (gthen (gcatch (glift (thenOp (askOp g StripMarkers) (retOp ()))) (\<lambda>_. gemit LdProgress))
                (glift (forgeCommit g cwd (cleanup_message planSet prd) [])))))
          (\<lambda>_. gemit LdProgress))
        (gemit LdCleanupComplete))"

section \<open>Options and outcome\<close>

datatype auto_policy = AutoAsk | AutoAlways | AutoNever

definition resolvePrAutoMergeIntent :: "auto_policy \<Rightarrow> bool option \<Rightarrow> bool" where
  "resolvePrAutoMergeIntent policy requested =
     (case policy of AutoNever \<Rightarrow> False | AutoAlways \<Rightarrow> requested \<noteq> Some False | AutoAsk \<Rightarrow> requested = Some True)"

text \<open>\<open>lo_compose\<close> is the message composed from a raw body and the provenance, when there is a raw body;
  \<open>lo_metadata\<close> renders the metadata of a pull request from the provenance.\<close>

record landing_options =
  lo_action :: landing_action
  lo_base :: string
  lo_wm :: worktree_manager
  lo_resolver :: resolver
  lo_message :: string
  lo_compose :: "(string \<Rightarrow> string) option"
  lo_cleanup :: bool
  lo_planSet :: "string option"
  lo_outputDir :: "string option"
  lo_prdFile :: "string option"
  lo_trunk :: "string option"
  lo_allowLocalMerge :: bool
  lo_policy :: auto_policy
  lo_autoMerge :: "bool option"
  lo_pushGuard :: bool
  lo_createGuard :: bool
  lo_force :: bool
  lo_metadata :: "string option \<Rightarrow> pr_metadata"

record landing_outcome =
  lx_succeeded :: bool
  lx_prUrl :: "string option"
  lx_commitSha :: "string option"
  lx_retry :: "(string \<times> string option) option"

definition not_landed :: landing_outcome where
  "not_landed = \<lparr>lx_succeeded = False, lx_prUrl = None, lx_commitSha = None, lx_retry = None\<rparr>"

definition has_plan_files :: "landing_options \<Rightarrow> bool" where
  "has_plan_files opt \<longleftrightarrow> is_some_text (lo_planSet opt) \<and> is_some_text (lo_outputDir opt)"

definition runCleanup :: "answers \<Rightarrow> landing_options \<Rightarrow> unit lgen" where
  "runCleanup g opt =
     (let path = wm_mergeWorktreePath (lo_wm opt) in
      gcatch
        (gthen (glift (gitOp g path [''checkout'', wm_featureBranch (lo_wm opt)]))
           (cleanupPlanFiles g path (the (lo_planSet opt)) (the (lo_outputDir opt)) (lo_prdFile opt)))
        (\<lambda>_. gemit LdProgress))"

definition maybe_cleanup :: "answers \<Rightarrow> landing_options \<Rightarrow> unit lgen" where
  "maybe_cleanup g opt = (if lo_cleanup opt \<and> has_plan_files opt then runCleanup g opt else gret ())"

definition dirty_files :: "answers \<Rightarrow> string \<Rightarrow> string list git_act" where
  "dirty_files g repo = bindOp (gitOp g repo [''status'', ''--porcelain'']) (\<lambda>out. retOp (out_lines out))"

definition recoverDirtyTree :: "answers \<Rightarrow> string \<Rightarrow> unit lgen" where
  "recoverDirtyTree g repo =
     gbind (glift (dirty_files g repo)) (\<lambda>dirty.
       if dirty = [] then gret ()
       else gthen (gemit LdProgress)
         (gthen (glift (gitOp g repo [''checkout'', ''--'', ''.'']))
           (gthen (glift (gitOp g repo [''clean'', ''-fd'']))
             (gbind (glift (dirty_files g repo)) (\<lambda>left.
                if left \<noteq> [] then gthrow (StillDirty left) else gemit LdProgress)))))"

section \<open>The actions\<close>

definition final_message :: "answers \<Rightarrow> landing_options \<Rightarrow> string git_act" where
  "final_message g opt =
     (case lo_compose opt of
        Some f \<Rightarrow>
          if has_plan_files opt
          then catchOp (bindOp (askOp g Provenance) (\<lambda>r. retOp (f (text_of r)))) (\<lambda>_. retOp (lo_message opt))
          else retOp (lo_message opt)
      | None \<Rightarrow> retOp (lo_message opt))"

definition skip_merge :: "landing_reason \<Rightarrow> landing_outcome lgen" where
  "skip_merge reason = gthen (gemit (LdFinalizeSkipped reason)) (gthen (gemit (LdSkipped LandMerge reason)) (gret not_landed))"

definition land_merge :: "answers \<Rightarrow> landing_options \<Rightarrow> landing_outcome lgen" where
  "land_merge g opt =
     gthen (gemit LdFinalizeStart)
      (gcatch
        (gthen (recoverDirtyTree g (wm_repoRoot (lo_wm opt)))
          (gthen (maybe_cleanup g opt)
            (gbind (glift (final_message g opt)) (\<lambda>message.
              gbind (glift (mergeToBase g (lo_wm opt) (lo_base opt) message (lo_resolver opt))) (\<lambda>sha.
                gthen (gemit (LdFinalizeComplete sha))
                 (gthen (gemit (LdComplete LandMerge (Some sha) None))
                   (gret \<lparr>lx_succeeded = True, lx_prUrl = None, lx_commitSha = Some sha, lx_retry = None\<rparr>)))))))
        (\<lambda>err. skip_merge (FinalMergeFailed err)))"

definition provenance_refs :: "answers \<Rightarrow> landing_options \<Rightarrow> string option git_act" where
  "provenance_refs g opt =
     (if has_plan_files opt
      then catchOp (bindOp (askOp g Provenance) (\<lambda>r. retOp (if text_of r = [] then None else Some (text_of r)))) (\<lambda>_. retOp None)
      else retOp None)"

definition auto_skip_reason :: "landing_options \<Rightarrow> auto_skip" where
  "auto_skip_reason opt =
     (if lo_policy opt = AutoNever then PolicyIsNever
      else if lo_policy opt = AutoAlways \<and> lo_autoMerge opt = Some False then DisabledForRun else NotRequested)"

definition auto_merge :: "answers \<Rightarrow> landing_options \<Rightarrow> string \<Rightarrow> unit lgen" where
  "auto_merge g opt url =
     (if resolvePrAutoMergeIntent (lo_policy opt) (lo_autoMerge opt)
      then gthen (gemit (LdAutoMergeStart url))
             (gcatch (gthen (glift (enablePrAutoMerge g (lo_wm opt) url)) (gemit (LdAutoMergeComplete url)))
                (\<lambda>e. gemit (LdAutoMergeSkipped url (GhMergeFailed e))))
      else gemit (LdAutoMergeSkipped url (auto_skip_reason opt)))"

definition pr_options_of :: "landing_options \<Rightarrow> string option \<Rightarrow> pr_options" where
  "pr_options_of opt refs =
     \<lparr>po_baseBranch = lo_base opt, po_metadata = Some (lo_metadata opt refs), po_force = lo_force opt,
      po_beforePush = lo_pushGuard opt, po_beforeCreate = lo_createGuard opt\<rparr>"

definition land_pr :: "answers \<Rightarrow> pr_json \<Rightarrow> landing_options \<Rightarrow> landing_outcome lgen" where
  "land_pr g json opt =
     gthen (maybe_cleanup g opt)
      (gbind (glift (provenance_refs g opt)) (\<lambda>refs.
        gcatch
          (gbind (glift (issuePr g json (lo_wm opt) (pr_options_of opt refs))) (\<lambda>url.
             gthen (gemit (LdComplete LandPr None (Some url)))
              (gthen (auto_merge g opt url)
                (gret \<lparr>lx_succeeded = True, lx_prUrl = Some url, lx_commitSha = None, lx_retry = None\<rparr>))))
          (\<lambda>err. case err of
             StaleBase True reason sha \<Rightarrow> gthen (gemit LdProgress) (gret (not_landed\<lparr>lx_retry := Some (reason, sha)\<rparr>))
           | _ \<Rightarrow> gthen (gemit (LdSkipped LandPr (PrFailed err))) (gret not_landed))))"

definition workflow_of :: "landing_action \<Rightarrow> bool \<Rightarrow> landing_workflow" where
  "workflow_of action trunk =
     (case action of
        LandLeave \<Rightarrow> LeaveBranch
      | LandMerge \<Rightarrow> if trunk then TrunkLocalMerge else FeatureLocalMerge
      | LandPr \<Rightarrow> if trunk then TrunkPr else FeaturePr)"

definition executeLandingAction :: "answers \<Rightarrow> pr_json \<Rightarrow> landing_options \<Rightarrow> landing_outcome lgen" where
  "executeLandingAction g json opt =
     gbind (glift (resolveTrunkBranch g (lo_trunk opt) (wm_repoRoot (lo_wm opt)) None)) (\<lambda>trunk.
       gthen (gemit (LdStart (lo_action opt) (workflow_of (lo_action opt) (lo_base opt = trunk)) trunk))
         (if lo_action opt = LandMerge \<and> lo_base opt = trunk \<and> \<not> lo_allowLocalMerge opt then skip_merge (NotPermitted trunk)
          else case lo_action opt of
                 LandMerge \<Rightarrow> land_merge g opt
               | LandPr \<Rightarrow> land_pr g json opt
               | LandLeave \<Rightarrow>
                   gthen (gemit (LdComplete LandLeave None None))
                     (gret \<lparr>lx_succeeded = True, lx_prUrl = None, lx_commitSha = None, lx_retry = None\<rparr>)))"

section \<open>Lemmas\<close>

definition terminal :: "landing_event \<Rightarrow> bool" where
  "terminal e \<longleftrightarrow> (case e of LdComplete _ _ _ \<Rightarrow> True | LdSkipped _ _ \<Rightarrow> True | _ \<Rightarrow> False)"

text \<open>A part of a generator that only adds to the history and yields no terminal event.\<close>

definition calm :: "'a lgen \<Rightarrow> bool" where
  "calm m \<longleftrightarrow> (\<forall>h. prefix h (fst (m h)) \<and> (\<forall>e \<in> set (fst (snd (m h))). \<not> terminal e))"

lemma calmD: "calm m \<Longrightarrow> m h = (h1, es, r) \<Longrightarrow> prefix h h1 \<and> (\<forall>e \<in> set es. \<not> terminal e)"
  unfolding calm_def by (metis fst_conv snd_conv)

lemma calm_gret [simp]: "calm (gret x)"
  by (simp add: calm_def gret_def)

lemma calm_gthrow [simp]: "calm (gthrow e)"
  by (simp add: calm_def gthrow_def)

lemma calm_gemit [simp]: "\<not> terminal e \<Longrightarrow> calm (gemit e)"
  by (simp add: calm_def gemit_def)

lemma calm_glift: "only P m \<Longrightarrow> calm (glift m)"
  unfolding calm_def glift_def only_def prefix_def by (auto split: prod.splits) (metis fst_conv)

lemma calm_gbind: "calm m \<Longrightarrow> (\<And>x. calm (f x)) \<Longrightarrow> calm (gbind m f)"
  unfolding calm_def gbind_def by (auto split: prod.splits sum.splits) (metis fst_conv snd_conv prefix_order.trans UnE)+

lemma calm_gthen: "calm m \<Longrightarrow> calm n \<Longrightarrow> calm (gthen m n)"
  unfolding gthen_def by (rule calm_gbind)

lemma calm_gcatch: "calm m \<Longrightarrow> (\<And>e. calm (f e)) \<Longrightarrow> calm (gcatch m f)"
  unfolding calm_def gcatch_def by (auto split: prod.splits sum.splits) (metis fst_conv snd_conv prefix_order.trans UnE)+

lemmas calm_intros = calm_gbind calm_gthen calm_gcatch calm_gret calm_gthrow calm_gemit

lemma calm_git: "calm (glift (gitOp g cwd args))"
  by (rule calm_glift [of "\<lambda>_. True"]) (rule only_gitOp, simp)

lemma calm_cleanupPlanFiles: "calm (cleanupPlanFiles g cwd planSet outputDir prd)"
proof -
  have "only (\<lambda>_. True) (remove_plan_dir g cwd planSet outputDir)"
    unfolding remove_plan_dir_def by (intro only_intros) (auto intro!: only_intros)
  moreover have "only (\<lambda>_. True) (remove_prd g cwd (the prd))"
    unfolding remove_prd_def by (intro only_intros) auto
  moreover have "only (\<lambda>_. True) (thenOp (askOp g StripMarkers) (retOp ()))" by (intro only_intros) simp
  moreover have "only (\<lambda>_. True) (forgeCommit g cwd m [])" for m unfolding forgeCommit_def by (intro only_intros) auto
  ultimately show ?thesis
    unfolding cleanupPlanFiles_def
    by (intro calm_intros calm_glift) (auto simp: terminal_def intro: calm_glift)
qed

lemma calm_maybe_cleanup: "calm (maybe_cleanup g opt)"
  unfolding maybe_cleanup_def runCleanup_def Let_def
  by (auto intro!: calm_intros calm_git calm_cleanupPlanFiles simp: terminal_def)

lemma calm_recoverDirtyTree: "calm (recoverDirtyTree g repo)"
proof -
  have "only (\<lambda>_. True) (dirty_files g repo)" unfolding dirty_files_def by (intro only_intros) auto
  then have d: "calm (glift (dirty_files g repo))" by (rule calm_glift)
  have t: "\<not> terminal LdProgress" by (simp add: terminal_def)
  show ?thesis unfolding recoverDirtyTree_def using t by (auto intro!: calm_intros calm_git d)
qed

lemma calm_auto_merge: "calm (auto_merge g opt url)"
proof -
  have "only (\<lambda>_. True) (enablePrAutoMerge g (lo_wm opt) url)"
    unfolding enablePrAutoMerge_def enablePullRequestAutoMerge_def by (intro only_intros) auto
  then show ?thesis
    unfolding auto_merge_def by (auto intro!: calm_intros calm_glift simp: terminal_def)
qed

lemma auto_merge_returns: "auto_merge g opt url h = (h1, es, r) \<Longrightarrow> r = Inr ()"
  by (auto simp: auto_merge_def gthen_def gbind_def gcatch_def gemit_def split: if_splits prod.splits sum.splits)

lemma only_final_message: "only (\<lambda>_. True) (final_message g opt)"
  unfolding final_message_def by (auto intro!: only_intros split: option.splits)

lemma only_provenance_refs: "only (\<lambda>_. True) (provenance_refs g opt)"
  unfolding provenance_refs_def by (auto intro!: only_intros)

lemma gbind_iff: "gbind m f h = (h2, es, r) \<longleftrightarrow>
    (\<exists>e. m h = (h2, es, Inl e) \<and> r = Inl e) \<or>
    (\<exists>h1 es1 x es2. m h = (h1, es1, Inr x) \<and> f x h1 = (h2, es2, r) \<and> es = es1 @ es2)"
  by (auto simp: gbind_def split: prod.splits sum.splits)

lemma glift_iff: "glift m h = (h1, es, r) \<longleftrightarrow> m h = (h1, r) \<and> es = []"
  by (auto simp: glift_def split: prod.splits)

lemma gemit_iff: "gemit e h = (h1, es, r) \<longleftrightarrow> h1 = h \<and> es = [e] \<and> r = Inr ()"
  by (auto simp: gemit_def)

lemma gret_iff: "gret x h = (h1, es, r) \<longleftrightarrow> h1 = h \<and> es = [] \<and> r = Inr x"
  by (auto simp: gret_def)

lemma gcatch_iff: "gcatch m f h = (h2, es, r) \<longleftrightarrow>
    (\<exists>x. m h = (h2, es, Inr x) \<and> r = Inr x) \<or>
    (\<exists>h1 es1 e es2. m h = (h1, es1, Inl e) \<and> f e h1 = (h2, es2, r) \<and> es = es1 @ es2)"
  by (auto simp: gcatch_def split: prod.splits sum.splits)

lemmas gen_iff = gbind_iff glift_iff gemit_iff gret_iff gcatch_iff


section \<open>What the actions do\<close>

definition merged_outcome :: "string \<Rightarrow> landing_outcome" where
  "merged_outcome sha = \<lparr>lx_succeeded = True, lx_prUrl = None, lx_commitSha = Some sha, lx_retry = None\<rparr>"

definition pr_outcome :: "string \<Rightarrow> landing_outcome" where
  "pr_outcome url = \<lparr>lx_succeeded = True, lx_prUrl = Some url, lx_commitSha = None, lx_retry = None\<rparr>"

definition quiet :: "landing_event list \<Rightarrow> bool" where
  "quiet es \<longleftrightarrow> (\<forall>e \<in> set es. \<not> terminal e)"

lemma quiet_simps [simp]: "quiet []" "quiet (e # es) \<longleftrightarrow> \<not> terminal e \<and> quiet es" "quiet (es @ fs) \<longleftrightarrow> quiet es \<and> quiet fs"
  by (auto simp: quiet_def)

lemma terminal_simps [simp]:
  "terminal (LdComplete a b c)" "terminal (LdSkipped a x)" "\<not> terminal LdFinalizeStart" "\<not> terminal (LdFinalizeComplete sha)"
  "\<not> terminal (LdFinalizeSkipped x)" "\<not> terminal LdProgress" "\<not> terminal (LdStart a w t)"
  by (simp_all add: terminal_def)

lemma skip_merge_result:
  "skip_merge reason h = (h, [LdFinalizeSkipped reason, LdSkipped LandMerge reason], Inr not_landed)"
  by (simp add: skip_merge_def gthen_def gbind_def gemit_def gret_def)

text \<open>The part of a merge that can throw.\<close>

definition merge_body :: "answers \<Rightarrow> landing_options \<Rightarrow> landing_outcome lgen" where
  "merge_body g opt =
     gthen (recoverDirtyTree g (wm_repoRoot (lo_wm opt)))
       (gthen (maybe_cleanup g opt)
         (gbind (glift (final_message g opt)) (\<lambda>message.
           gbind (glift (mergeToBase g (lo_wm opt) (lo_base opt) message (lo_resolver opt))) (\<lambda>sha.
             gthen (gemit (LdFinalizeComplete sha))
              (gthen (gemit (LdComplete LandMerge (Some sha) None)) (gret (merged_outcome sha)))))))"

lemma land_merge_body: "land_merge g opt = gthen (gemit LdFinalizeStart) (gcatch (merge_body g opt) (\<lambda>err. skip_merge (FinalMergeFailed err)))"
  by (simp add: land_merge_def merge_body_def merged_outcome_def)

definition merged_now :: "landing_options \<Rightarrow> string \<Rightarrow> history \<Rightarrow> bool" where
  "merged_now opt sha l \<longleftrightarrow>
     (\<exists>message. checked_clean (wm_repoRoot (lo_wm opt)) (lo_base opt) l \<and>
        merged_at_head (wm_repoRoot (lo_wm opt)) (wm_featureBranch (lo_wm opt)) message sha l)"

lemma mergeToBase_prefix: "mergeToBase g wm base m res h = (h1, r) \<Longrightarrow> prefix h h1"
  unfolding mergeToBase_def using base_merge by (fastforce simp: prefix_def)

lemma mergeToBase_now:
  assumes "mergeToBase g (lo_wm opt) (lo_base opt) m (lo_resolver opt) h = (h1, Inr sha)"
  shows "\<exists>l. h1 = h @ l \<and> merged_now opt sha l"
  using base_merge [OF assms [unfolded mergeToBase_def]] by (auto simp: merged_now_def)

lemma merge_body_result:
  assumes "merge_body g opt h = (h1, es, r)"
  shows "prefix h h1 \<and>
    (case r of
       Inl e \<Rightarrow> quiet es
     | Inr out \<Rightarrow> \<exists>pre sha k l. es = pre @ [LdComplete LandMerge (Some sha) None] \<and> quiet pre \<and> out = merged_outcome sha \<and>
         h1 = h @ k @ l \<and> merged_now opt sha l)"
proof -
  obtain h2 e1 r1 where 1: "recoverDirtyTree g (wm_repoRoot (lo_wm opt)) h = (h2, e1, r1)" by (metis prod_cases3)
  note c1 = calmD [OF calm_recoverDirtyTree 1]
  show ?thesis
  proof (cases r1)
    case (Inl e)
    then show ?thesis using assms 1 c1 by (auto simp: merge_body_def gthen_def gbind_def quiet_def)
  next
    case r1: (Inr u1)
    obtain h3 e2 r2 where 2: "maybe_cleanup g opt h2 = (h3, e2, r2)" by (metis prod_cases3)
    note c2 = calmD [OF calm_maybe_cleanup 2]
    have p3: "prefix h h3" using c1 c2 prefix_order.trans by blast
    show ?thesis
    proof (cases r2)
      case (Inl e)
      then show ?thesis using assms 1 2 r1 c1 c2 p3 by (auto simp: merge_body_def gthen_def gbind_def quiet_def ball_Un)
    next
      case r2: (Inr u2)
      obtain h4 r3 where 3: "final_message g opt h3 = (h4, r3)" by fastforce
      have p4: "prefix h h4"
        using p3 only_prefix [of "\<lambda>_. True" "final_message g opt" h3 h4 r3] only_final_message 3 prefix_order.trans by blast
      show ?thesis
      proof (cases r3)
        case (Inl e)
        then show ?thesis using assms 1 2 3 r1 r2 c1 c2 p4 by (auto simp: merge_body_def gthen_def gbind_def glift_def quiet_def ball_Un)
      next
        case r3: (Inr message)
        obtain h5 r4 where 4: "mergeToBase g (lo_wm opt) (lo_base opt) message (lo_resolver opt) h4 = (h5, r4)" by fastforce
        have p5: "prefix h h5" using p4 mergeToBase_prefix [OF 4] prefix_order.trans by blast
        show ?thesis
        proof (cases r4)
          case (Inl e)
          then show ?thesis using assms 1 2 3 4 r1 r2 r3 c1 c2 p5
            by (auto simp: merge_body_def gthen_def gbind_def glift_def quiet_def ball_Un)
        next
          case r4: (Inr sha)
          have "h1 = h5" "r = Inr (merged_outcome sha)" "es = (e1 @ e2 @ [LdFinalizeComplete sha]) @ [LdComplete LandMerge (Some sha) None]"
            using assms 1 2 3 4 r1 r2 r3 r4 by (simp_all add: merge_body_def gthen_def gbind_def glift_def gemit_def gret_def)
          moreover obtain l where "h5 = h4 @ l" "merged_now opt sha l" using mergeToBase_now 4 r4 by blast
          moreover have "quiet (e1 @ e2 @ [LdFinalizeComplete sha])" using c1 c2 by (simp add: quiet_def ball_Un)
          moreover obtain k where "h4 = h @ k" using p4 by (auto simp: prefix_def)
          ultimately show ?thesis using p5 by fastforce
        qed
      qed
    qed
  qed
qed

lemma land_merge_result:
  assumes "land_merge g opt h = (h1, es, r)"
  shows "(\<exists>pre sha k l. es = pre @ [LdComplete LandMerge (Some sha) None] \<and> quiet pre \<and> r = Inr (merged_outcome sha) \<and>
       h1 = h @ k @ l \<and> merged_now opt sha l) \<or>
    (\<exists>pre reason l. es = pre @ [LdSkipped LandMerge reason] \<and> quiet pre \<and> r = Inr not_landed \<and> h1 = h @ l)"
proof -
  obtain h2 e1 r1 where 1: "merge_body g opt h = (h2, e1, r1)" by (metis prod_cases3)
  note b = merge_body_result [OF 1]
  show ?thesis
  proof (cases r1)
    case (Inl e)
    then have "h1 = h2" "r = Inr not_landed"
      "es = (LdFinalizeStart # e1 @ [LdFinalizeSkipped (FinalMergeFailed e)]) @ [LdSkipped LandMerge (FinalMergeFailed e)]"
      using assms 1 by (simp_all add: land_merge_body gthen_def gbind_def gemit_def gcatch_def skip_merge_result)
    moreover have "quiet (LdFinalizeStart # e1 @ [LdFinalizeSkipped (FinalMergeFailed e)])" using b Inl by simp
    moreover obtain l where "h2 = h @ l" using b by (auto simp: prefix_def)
    ultimately show ?thesis by blast
  next
    case (Inr out)
    then have e: "h1 = h2" "r = Inr out" "es = LdFinalizeStart # e1"
      using assms 1 by (simp_all add: land_merge_body gthen_def gbind_def gemit_def gcatch_def)
    from b Inr obtain pre sha k l where "e1 = pre @ [LdComplete LandMerge (Some sha) None]" "quiet pre" "out = merged_outcome sha"
         "h2 = h @ k @ l" "merged_now opt sha l" by auto
    with e have "es = (LdFinalizeStart # pre) @ [LdComplete LandMerge (Some sha) None] \<and> quiet (LdFinalizeStart # pre) \<and>
       r = Inr (merged_outcome sha) \<and> h1 = h @ k @ l \<and> merged_now opt sha l" by simp
    then show ?thesis by blast
  qed
qed

definition published :: "pr_json \<Rightarrow> landing_options \<Rightarrow> string \<Rightarrow> history \<Rightarrow> bool" where
  "published json opt url l \<longleftrightarrow>
     (\<exists>refs. if lo_pushGuard opt \<and> lo_createGuard opt \<and> lo_base opt \<noteq> []
             then pr_sequence (lo_wm opt) (pr_options_of opt refs) l \<and> url_known json (lo_wm opt) (pr_options_of opt refs) url l
             else True)"

lemma only_issuePr: "only (\<lambda>_. True) (issuePr g json wm opt)"
proof -
  have pub: "only (\<lambda>_. True) (case err of StaleBase _ _ _ \<Rightarrow> throwOp err | _ \<Rightarrow> fallback g json wm opt err)" for err
    by (cases err) (auto intro: only_throwOp only_mono [OF only_fallback])
  have "only (\<lambda>_. True) (publish g json wm opt)"
    unfolding publish_fallback run_guard_def
    by (intro only_catchOp only_thenOp pub only_createPullRequest) (auto intro!: only_intros)
  then show ?thesis
    unfolding issuePr_publish ensureGhAvailable_def run_guard_def pushFeatureBranch_def
    by (intro only_thenOp) (auto intro!: only_intros)
qed

lemma issuePr_published:
  assumes "issuePr g json (lo_wm opt) (pr_options_of opt refs) h = (h1, Inr url)"
  shows "\<exists>l. h1 = h @ l \<and> published json opt url l"
proof (cases "lo_pushGuard opt \<and> lo_createGuard opt \<and> lo_base opt \<noteq> []")
  case True
  then have "po_beforePush (pr_options_of opt refs)" "po_beforeCreate (pr_options_of opt refs)" "po_baseBranch (pr_options_of opt refs) \<noteq> []"
    by (simp_all add: pr_options_of_def)
  from issue_pr [OF assms this] True show ?thesis by (auto simp: published_def)
next
  case False
  moreover have "prefix h h1"
    using only_prefix [of "\<lambda>_. True" "issuePr g json (lo_wm opt) (pr_options_of opt refs)" h h1] only_issuePr assms by blast
  ultimately show ?thesis by (auto simp: published_def prefix_def)
qed


lemma land_pr_result:
  assumes "land_pr g json opt h = (h1, es, r)"
  shows "(\<exists>pre post url k l m. es = pre @ [LdComplete LandPr None (Some url)] @ post \<and> quiet pre \<and> quiet post \<and> r = Inr (pr_outcome url) \<and>
       h1 = h @ k @ l @ m \<and> published json opt url l) \<or>
    (\<exists>pre reason l. es = pre @ [LdSkipped LandPr reason] \<and> quiet pre \<and> r = Inr not_landed \<and> h1 = h @ l) \<or>
    (\<exists>x l. quiet es \<and> r = Inr (not_landed\<lparr>lx_retry := Some x\<rparr>) \<and> h1 = h @ l) \<or>
    (\<exists>e l. quiet es \<and> r = Inl e \<and> h1 = h @ l)"
proof -
  obtain h2 e1 r1 where 1: "maybe_cleanup g opt h = (h2, e1, r1)" by (metis prod_cases3)
  note c1 = calmD [OF calm_maybe_cleanup 1]
  then obtain k1 where k1: "h2 = h @ k1" by (auto simp: prefix_def)
  have q1: "quiet e1" using c1 by (simp add: quiet_def)
  show ?thesis
  proof (cases r1)
    case (Inl e)
    then have "es = e1 \<and> r = Inl e \<and> h1 = h2" using assms 1 by (simp add: land_pr_def gthen_def gbind_def)
    then show ?thesis using q1 k1 by blast
  next
    case r1: (Inr u1)
    obtain h3 r2 where 2: "provenance_refs g opt h2 = (h3, r2)" by fastforce
    obtain k2 where k2: "h3 = h2 @ k2"
      using only_prefix [of "\<lambda>_. True" "provenance_refs g opt" h2 h3 r2] only_provenance_refs 2 by (auto simp: prefix_def)
    show ?thesis
    proof (cases r2)
      case (Inl e)
      then have "es = e1 \<and> r = Inl e \<and> h1 = h3" using assms 1 2 r1 by (simp add: land_pr_def gthen_def gbind_def glift_def)
      then show ?thesis using q1 k1 k2 by auto
    next
      case r2: (Inr refs)
      obtain h4 r3 where 3: "issuePr g json (lo_wm opt) (pr_options_of opt refs) h3 = (h4, r3)" by fastforce
      obtain k3 where k3: "h4 = h3 @ k3"
        using only_prefix [of "\<lambda>_. True" "issuePr g json (lo_wm opt) (pr_options_of opt refs)" h3 h4 r3] only_issuePr 3
        by (auto simp: prefix_def)
      have h4: "h4 = h @ k1 @ k2 @ k3" using k1 k2 k3 by simp
      note simps = land_pr_def gthen_def gbind_def glift_def gcatch_def gemit_def gret_def
      show ?thesis
      proof (cases r3)
        case (Inl err)
        show ?thesis
        proof (cases "\<exists>why sha. err = StaleBase True why sha")
          case True
          then obtain why sha where "err = StaleBase True why sha" by blast
          then have "es = e1 @ [LdProgress]" "r = Inr (not_landed\<lparr>lx_retry := Some (why, sha)\<rparr>)" "h1 = h4"
            using assms 1 2 3 r1 r2 Inl by (simp_all add: simps)
          then show ?thesis using q1 h4 by auto
        next
          case False
          then have "es = e1 @ [LdSkipped LandPr (PrFailed err)]" "r = Inr not_landed" "h1 = h4"
            using assms 1 2 3 r1 r2 Inl by (auto simp: simps split: op_error.splits bool.splits)
          then show ?thesis using q1 h4 by blast
        qed
      next
        case (Inr url)
        obtain h5 e2 r4 where 4: "auto_merge g opt url h4 = (h5, e2, r4)" by (metis prod_cases3)
        note c2 = calmD [OF calm_auto_merge 4] and r4 = auto_merge_returns [OF 4]
        then obtain k5 where k5: "h5 = h4 @ k5" by (auto simp: prefix_def)
        have e: "es = e1 @ [LdComplete LandPr None (Some url)] @ e2" "r = Inr (pr_outcome url)" "h1 = h5"
          using assms 1 2 3 4 r1 r2 r4 Inr by (simp_all add: simps pr_outcome_def)
        obtain l where l: "h4 = h3 @ l" "published json opt url l" using issuePr_published 3 Inr by blast
        then have "h1 = h @ (k1 @ k2) @ l @ k5" using e(3) k5 k1 k2 by simp
        moreover have "quiet e2" using c2 by (simp add: quiet_def)
        ultimately show ?thesis using e(1,2) q1 l(2) by blast
      qed
    qed
  qed
qed

lemma land_pr_returns:
  assumes "land_pr g json opt h = (h1, es, Inl e)"
  shows False
proof -
  have auto: "\<not> (\<exists>h h1 es e. auto_merge g opt url h = (h1, es, Inl e))" for url
    using auto_merge_returns by fastforce
  have clean: "\<not> (\<exists>h h1 es e. maybe_cleanup g opt h = (h1, es, Inl e))"
    by (auto simp: maybe_cleanup_def runCleanup_def Let_def gcatch_iff gemit_iff gret_iff)
  have refs: "\<not> (\<exists>h h1 e. provenance_refs g opt h = (h1, Inl e))"
    by (auto simp: provenance_refs_def catchOp_Inl retOp_iff split: if_splits)
  have handler: "\<not> (\<exists>h h1 es e. (case err of
             StaleBase True reason sha \<Rightarrow> gthen (gemit LdProgress) (gret (not_landed\<lparr>lx_retry := Some (reason, sha)\<rparr>))
           | _ \<Rightarrow> gthen (gemit (LdSkipped LandPr (PrFailed err))) (gret not_landed)) h = (h1, es, Inl e))" for err
    by (auto simp: gthen_def gbind_iff gemit_iff gret_iff split: op_error.splits bool.splits)
  show False
    using assms clean refs handler unfolding land_pr_def gthen_def [of "maybe_cleanup g opt"]
    by (simp add: gbind_iff glift_iff) (auto simp: gcatch_iff)
qed


text \<open>The events of an action tell its outcome: after the start exactly one completion, exactly one skip, or
  (for a pull request) neither, when the base has moved and the attempt can be repeated.\<close>

definition outcome_told :: "landing_options \<Rightarrow> string \<Rightarrow> landing_event list \<Rightarrow> landing_outcome \<Rightarrow> bool" where
  "outcome_told opt trunk es out \<longleftrightarrow>
     (\<exists>w pre post. quiet pre \<and> quiet post \<and>
        (es = LdStart (lo_action opt) w trunk # pre @ [LdComplete (lo_action opt) (lx_commitSha out) (lx_prUrl out)] @ post \<and>
           lx_succeeded out \<and> lx_retry out = None \<or>
         (\<exists>reason. es = LdStart (lo_action opt) w trunk # pre @ [LdSkipped (lo_action opt) reason] \<and> out = not_landed) \<or>
         es = LdStart (lo_action opt) w trunk # pre \<and> lo_action opt = LandPr \<and> (\<exists>x. out = not_landed\<lparr>lx_retry := Some x\<rparr>)))"

definition forbidden :: "landing_options \<Rightarrow> string \<Rightarrow> bool" where
  "forbidden opt trunk \<longleftrightarrow> lo_action opt = LandMerge \<and> lo_base opt = trunk \<and> \<not> lo_allowLocalMerge opt"

text \<open>A merge into the trunk that was not allowed, and leaving the branch, run no command that changes anything.
  A merge that succeeded was made in a clean tree on the base branch, and a pull request in the
  sequence of \<open>pr_sequence\<close>.\<close>

definition landing_backed :: "pr_json \<Rightarrow> landing_options \<Rightarrow> string \<Rightarrow> landing_outcome \<Rightarrow> history \<Rightarrow> bool" where
  "landing_backed json opt trunk out l \<longleftrightarrow>
     (if forbidden opt trunk then untouched l \<and> \<not> lx_succeeded out
      else if lo_action opt = LandLeave then untouched l \<and> lx_succeeded out
      else if \<not> lx_succeeded out then True
      else case lo_action opt of
             LandMerge \<Rightarrow> (\<exists>sha k m. l = k @ m \<and> lx_commitSha out = Some sha \<and> merged_now opt sha m)
           | _ \<Rightarrow> (\<exists>url k m n. l = k @ m @ n \<and> lx_prUrl out = Some url \<and> published json opt url m))"

lemma resolveTrunk_asks:
  assumes "resolveTrunkBranch g t repo None h = (h1, r)"
  shows "\<exists>l trunk. h1 = h @ l \<and> untouched l \<and> r = Inr trunk"
proof -
  have "only asks (resolveTrunkBranch g t repo None)"
    unfolding resolveTrunkBranch_def Let_def
    by (auto intro!: only_intros simp: asks_def split: option.splits list.splits)
  then obtain l where "h1 = h @ l" "untouched l" using only_step [of asks "resolveTrunkBranch g t repo None" h h1 r] assms
    by (auto simp: untouched_def)
  moreover have "\<exists>trunk. r = Inr trunk"
    using assms by (cases r) (auto simp: resolveTrunkBranch_def Let_def catchOp_Inl retOp_iff split: option.splits list.splits)
  ultimately show ?thesis by blast
qed

lemma landing_outcome:
  assumes "executeLandingAction g json opt h = (h1, es, r)"
  shows "\<exists>l out trunk. h1 = h @ l \<and> r = Inr out \<and> outcome_told opt trunk es out \<and> landing_backed json opt trunk out l"
proof -
  obtain h2 r2 where 1: "resolveTrunkBranch g (lo_trunk opt) (wm_repoRoot (lo_wm opt)) None h = (h2, r2)" by fastforce
  from resolveTrunk_asks [OF this] obtain k trunk where k: "h2 = h @ k" "untouched k" "r2 = Inr trunk" by blast
  let ?w = "workflow_of (lo_action opt) (lo_base opt = trunk)"
  note simps = executeLandingAction_def gthen_def gbind_def glift_def gemit_def
  show ?thesis
  proof (cases "forbidden opt trunk")
    case True
    then have e: "h1 = h2" "r = Inr not_landed"
      "es = LdStart (lo_action opt) ?w trunk # [LdFinalizeSkipped (NotPermitted trunk)] @ [LdSkipped (lo_action opt) (NotPermitted trunk)]"
      using assms 1 k by (simp_all add: simps forbidden_def skip_merge_result)
    then have "outcome_told opt trunk es not_landed"
      unfolding outcome_told_def by (intro exI [of _ ?w] exI [of _ "[LdFinalizeSkipped (NotPermitted trunk)]"] exI [of _ "[]"]) auto
    moreover have "landing_backed json opt trunk not_landed k" using True k by (simp add: landing_backed_def not_landed_def)
    ultimately show ?thesis using e k by blast
  next
    case allowed: False
    show ?thesis
    proof (cases "lo_action opt")
      case LandLeave
      let ?out = "\<lparr>lx_succeeded = True, lx_prUrl = None, lx_commitSha = None, lx_retry = None\<rparr>"
      have e: "h1 = h2" "r = Inr ?out" "es = LdStart (lo_action opt) ?w trunk # [] @ [LdComplete (lo_action opt) None None] @ []"
        using assms 1 k LandLeave by (simp_all add: simps gret_def)
      then have "outcome_told opt trunk es ?out"
        unfolding outcome_told_def by (intro exI [of _ ?w] exI [of _ "[]"]) auto
      moreover have "landing_backed json opt trunk ?out k" using LandLeave allowed k by (simp add: landing_backed_def)
      ultimately show ?thesis using e k by blast
    next
      case LandMerge
      obtain h3 e3 r3 where 3: "land_merge g opt h2 = (h3, e3, r3)" by (metis prod_cases3)
      have e: "h1 = h3" "r = r3" "es = LdStart (lo_action opt) ?w trunk # e3"
        using assms 1 k 3 LandMerge allowed by (auto simp: simps forbidden_def split: if_splits)
      from land_merge_result [OF 3] show ?thesis
      proof (elim disjE exE conjE)
        fix pre sha a l assume m: "e3 = pre @ [LdComplete LandMerge (Some sha) None]" "quiet pre" "r3 = Inr (merged_outcome sha)"
          "h3 = h2 @ a @ l" "merged_now opt sha l"
        have "outcome_told opt trunk es (merged_outcome sha)"
          unfolding outcome_told_def
          by (intro exI [of _ ?w] exI [of _ pre] exI [of _ "[]"]) (use e m LandMerge in \<open>auto simp: merged_outcome_def\<close>)
        moreover have "landing_backed json opt trunk (merged_outcome sha) ((k @ a) @ l)"
          unfolding landing_backed_def using m(5) LandMerge allowed by (simp add: merged_outcome_def) (metis append_assoc)
        moreover have "h1 = h @ (k @ a) @ l" using e k m by simp
        ultimately show ?thesis using e m by blast
      next
        fix pre reason l assume m: "e3 = pre @ [LdSkipped LandMerge reason]" "quiet pre" "r3 = Inr not_landed" "h3 = h2 @ l"
        have "outcome_told opt trunk es not_landed"
          unfolding outcome_told_def
          by (intro exI [of _ ?w] exI [of _ pre] exI [of _ "[]"]) (use e m LandMerge in auto)
        moreover have "landing_backed json opt trunk not_landed (k @ l)"
          using LandMerge allowed by (simp add: landing_backed_def not_landed_def)
        moreover have "h1 = h @ k @ l" using e k m by simp
        ultimately show ?thesis using e m by blast
      qed
    next
      case LandPr
      obtain h3 e3 r3 where 3: "land_pr g json opt h2 = (h3, e3, r3)" by (metis prod_cases3)
      have e: "h1 = h3" "r = r3" "es = LdStart (lo_action opt) ?w trunk # e3"
        using assms 1 k 3 LandPr allowed by (simp_all add: simps forbidden_def)
      from land_pr_result [OF 3] show ?thesis
      proof (elim disjE exE conjE)
        fix pre post url a l m assume m: "e3 = pre @ [LdComplete LandPr None (Some url)] @ post" "quiet pre" "quiet post"
          "r3 = Inr (pr_outcome url)" "h3 = h2 @ a @ l @ m" "published json opt url l"
        have "outcome_told opt trunk es (pr_outcome url)"
          unfolding outcome_told_def
          by (intro exI [of _ ?w] exI [of _ pre] exI [of _ post]) (use e m LandPr in \<open>auto simp: pr_outcome_def\<close>)
        moreover have ev: "\<exists>url1 k1 m1 n1. (k @ a) @ l @ m = k1 @ m1 @ n1 \<and> lx_prUrl (pr_outcome url) = Some url1 \<and> published json opt url1 m1"
          by (intro exI [of _ url] exI [of _ "k @ a"] exI [of _ l] exI [of _ m]) (simp add: m(6) pr_outcome_def)
        moreover from ev have "landing_backed json opt trunk (pr_outcome url) ((k @ a) @ l @ m)"
          unfolding landing_backed_def using LandPr allowed by simp
        moreover have "h1 = h @ (k @ a) @ l @ m" using e k m by simp
        ultimately show ?thesis using e m by blast
      next
        fix pre reason l assume m: "e3 = pre @ [LdSkipped LandPr reason]" "quiet pre" "r3 = Inr not_landed" "h3 = h2 @ l"
        have "outcome_told opt trunk es not_landed"
          unfolding outcome_told_def
          by (intro exI [of _ ?w] exI [of _ pre] exI [of _ "[]"]) (use e m LandPr in auto)
        moreover have "landing_backed json opt trunk not_landed (k @ l)"
          using LandPr allowed by (simp add: landing_backed_def not_landed_def)
        moreover have "h1 = h @ k @ l" using e k m by simp
        ultimately show ?thesis using e m by blast
      next
        fix x1 x2 l assume m: "quiet e3" "r3 = Inr (not_landed\<lparr>lx_retry := Some x1\<rparr>)" "h3 = h2 @ x2"
        have "outcome_told opt trunk es (not_landed\<lparr>lx_retry := Some x1\<rparr>)"
          unfolding outcome_told_def
          by (intro exI [of _ ?w] exI [of _ e3] exI [of _ "[]"]) (use e m LandPr in \<open>cases x1, auto\<close>)
        moreover have "landing_backed json opt trunk (not_landed\<lparr>lx_retry := Some x1\<rparr>) (k @ x2)"
          using LandPr allowed by (simp add: landing_backed_def not_landed_def)
        moreover have "h1 = h @ k @ x2" using e k m by simp
        ultimately show ?thesis using e m by blast
      next
        fix err assume "r3 = Inl err"
        then show ?thesis using land_pr_returns 3 by blast
      qed
    qed
  qed
qed


section \<open>Properties\<close>

text \<open>
  The clean-up of a dirty repository comes before the checks of the merge: on another branch the work
  that was not committed is thrown away, and then the merge is refused.
\<close>

definition answers_d :: answers where
  "answers_d h c =
     Out (if c = Git ''/r'' [''branch'', ''--show-current''] then ''feature''
          else if c = Git ''/r'' [''status'', ''--porcelain''] \<and> (Git ''/r'' [''clean'', ''-fd''], Out []) \<notin> set h then ''?? notes.txt''
          else [])"

definition landing_d :: "landing_action \<Rightarrow> landing_options" where
  "landing_d a = \<lparr>lo_action = a, lo_base = ''dev'', lo_wm = manager_m, lo_resolver = None, lo_message = ''m'', lo_compose = None,
     lo_cleanup = False, lo_planSet = None, lo_outputDir = None, lo_prdFile = None, lo_trunk = Some ''main'',
     lo_allowLocalMerge = False, lo_policy = AutoNever, lo_autoMerge = None, lo_pushGuard = True, lo_createGuard = True,
     lo_force = True, lo_metadata = (\<lambda>_. \<lparr>pm_title = ''t'', pm_body = ''b''\<rparr>)\<rparr>"

lemma work_cleaned_then_refused:
  "case executeLandingAction answers_d (\<lambda>_. None) (landing_d LandMerge) [] of
     (h, es, r) \<Rightarrow> (Git ''/r'' [''clean'', ''-fd''], Out []) \<in> set h \<and> r = Inr not_landed \<and>
       LdSkipped LandMerge (FinalMergeFailed (WrongBranch ''feature'')) \<in> set es"
  by code_simp




definition answers_c :: answers where
  "answers_c h c =
     (if c = Git ''/r'' [''branch'', ''--show-current''] then Out ''dev''
      else if c = merge_call ''/r'' ''eforge/x'' ''m'' then Failed ''conflict'' else Out [])"


text \<open> C10. A plan counts as merged only with evidence: when it was built in the merge worktree, the worktree was clean
  and the commit reported is its head, which differs from where the plan started unless an explicit
  waiver with a reason applies; otherwise a squash commit has just worked in the merge worktree and
  the head after it is reported. \<close>
theorem plan_merge_has_evidence:
  assumes "mergePlan g wm p opt ts h = (ts1, h1, Inr (sha, waived))"
  shows "\<exists>l. h1 = h @ l \<and> ts1 = set_wt_status p WtMerged ts \<and>
    (if isBuiltOnMerge ts p
     then clean_at_head wm opt (case dget ts p of Some m \<Rightarrow> mw_baseSha m | None \<Rightarrow> None) sha waived l
     else squashed_at_head wm opt sha l \<and> \<not> waived)"
proof (cases "isBuiltOnMerge ts p")
  case True
  with assms have "merge_in_place g wm opt (case dget ts p of Some m \<Rightarrow> mw_baseSha m | None \<Rightarrow> None) h = (h1, Inr (sha, waived))"
    and t: "ts1 = set_wt_status p WtMerged ts" by (auto simp: mergePlan_def split: prod.splits sum.splits)
  from merge_in_place_evidence [OF this(1)] t True show ?thesis by simp
next
  case False
  with assms have "merge_squashed g wm opt h = (h1, Inr (sha, waived))" and t: "ts1 = set_wt_status p WtMerged ts"
    by (auto simp: mergePlan_def split: prod.splits sum.splits)
  from merge_squashed_evidence [OF this(1)] t False show ?thesis by simp
qed

definition merge_x :: merge_options where
  "merge_x = \<lparr>mo_name = ''P'', mo_branch = ''x/p'', mo_message = ''m'', mo_resolver = None, mo_recent = [], mo_planMap = None,
     mo_allowNoChanges = False, mo_noChangesReason = None\<rparr>"

theorem plan_merge_has_evidence_witness:
  "\<exists>ts h1 sha waived. mergePlan answers_m manager_m ''p'' merge_x [] [] = (ts, h1, Inr (sha, waived)) \<and>
     squashed_at_head manager_m merge_x sha h1 \<and> \<not> waived"
proof -
  have "case mergePlan answers_m manager_m ''p'' merge_x [] [] of (_, _, Inr _) \<Rightarrow> True | _ \<Rightarrow> False" by code_simp
  then obtain ts h1 sha waived where a: "mergePlan answers_m manager_m ''p'' merge_x [] [] = (ts, h1, Inr (sha, waived))"
    by (auto split: prod.splits sum.splits)
  from plan_merge_has_evidence [OF a] a show ?thesis by (auto simp: isBuiltOnMerge_def)
qed

text \<open> C12. The clean-up after a build accounts for the merge worktree and every active worktree of its own exactly once, as
  removed, removed by the fallback or failed; what it reports as removed git has removed. \<close>
theorem cleanup_accounts_for_all:
  assumes "cleanupAll g wm ts h = (ts1, rep, h1)"
  shows "mset (reported rep) = add_mset (wm_mergeWorktreePath wm) (mset (map (\<lambda>e. mw_path (snd e)) (filter (\<lambda>e. own_active (snd e)) ts))) \<and>
    (\<forall>x \<in> set (cr_removed rep). \<exists>o1. (remove_call (wm_repoRoot wm) x, o1) \<in> set h1 \<and> good o1)"
  by (rule cleanup_all [OF assms])

theorem cleanup_accounts_for_all_witness:
  "\<exists>ts rep h1. cleanupAll answers_m manager_m [] [] = (ts, rep, h1) \<and> reported rep = [''/w/__merge__'']"
proof -
  obtain ts rep h1 where a: "cleanupAll answers_m manager_m [] [] = (ts, rep, h1)" by (metis prod_cases3)
  from cleanup_accounts_for_all [OF a] a show ?thesis by (auto simp: manager_m_def)
qed

end
