(* ===== verification/RecoveryVerdict.thy ===== *)
theory RecoveryVerdict
  imports Frontmatter Evaluation
begin

text \<open>
  What is done with a failed build (\<open>recovery/recommendation.ts\<close>): the deterministic
  recommendation computed from the summary of the failure, the check of the analyst's verdict,
  and the selection of the final verdict from the two. The texts of the source are represented by
  what they are composed of (\<open>rationale\<close>, \<open>invalid_reason\<close>). The lemmas characterise when a
  retry or a repair is recommended, when the analyst's verdict is used, and what the final
  verdict is.
\<close>

section \<open>The summary of a failed build\<close>

datatype recovery_kind = RkRetry | RkContinueRepair | RkAbandon | RkManual | RkSplit

record failing_plan =
  fp_planId :: plan_id
  fp_terminalSubtype :: "string option"
  fp_toolUseCount :: "int option"

record summary_plan =
  su_planId :: plan_id
  su_status :: string

record summary_landing =
  lf_status :: string
  lf_reason :: "string option"

record terminal_failure =
  tf_scope :: "string option"
  tf_message :: "string option"
  tf_terminalSubtype :: "string option"
  tf_stage :: "string option"
  tf_landing :: "summary_landing option"

record failure_summary =
  fs_prdId :: prd_id
  fs_plans :: "summary_plan list"
  fs_failingPlan :: failing_plan
  fs_failingPlans :: "failing_plan list option"
  fs_landedCommits :: "string list"
  fs_diffStat :: string
  fs_partial :: "bool option"
  fs_terminalFailure :: "terminal_failure option"
  fs_landing :: "summary_landing option"

record repair_eligibility =
  el_eligible :: bool
  el_featureBranch :: "string option"
  el_artifactAvailability :: "string option"
  el_artifactCommit :: "string option"
  el_landedCommitCount :: "int option"
  el_failingPlanId :: "string option"
  el_partial :: "bool option"
  el_reason :: "string option"

section \<open>Texts\<close>

text \<open>The reasons a verdict of the analyst is not used.\<close>

datatype invalid_reason =
    LegacyVerdict
  | MissingPlanIds "plan_id list"
  | CompileScopeReadOnly
  | RepairNotSelected

datatype rationale =
    PartialContext
  | StackBaseMissing
  | RepairEligible prd_id "string list"
  | CompileScopeFailure "string option"
  | NoFailingPlans
  | NonTransientPlans "(plan_id \<times> string option) list"
  | PlansWithToolUse "(plan_id \<times> int option) list"
  | PreservedWork "plan_id list" "string option"
  | TransientRetry "plan_id list"
  | AnalystText string
  | AnalystRejected invalid_reason rationale
  | AnalystFailed "string option"

record recommendation =
  rn_verdict :: recovery_kind
  rn_rationale :: rationale

section \<open>The deterministic recommendation\<close>

definition isTransientSubtype :: "string option \<Rightarrow> bool" where
  "isTransientSubtype t \<longleftrightarrow> t = Some ''error_transient_transport''"

definition hasCompletedOrMergedPlans :: "failure_summary \<Rightarrow> bool" where
  "hasCompletedOrMergedPlans s \<longleftrightarrow>
     list_ex (\<lambda>p. su_status p = ''completed'' \<or> su_status p = ''merged'') (fs_plans s) \<or>
     fs_landedCommits s \<noteq> [] \<or>
     trim (fs_diffStat s) \<noteq> []"

text \<open>\<open>message.replace(/\s+/g, ' ').trim()\<close>.\<close>

function collapse_ws :: "string \<Rightarrow> string" where
  "collapse_ws [] = []"
| "collapse_ws (c # cs) = (if is_ws c then CHR '' '' # collapse_ws (dropWhile is_ws cs) else c # collapse_ws cs)"
  by pat_completeness auto
termination
  by (relation "measure length") (auto simp: le_imp_less_Suc length_dropWhile_le)

definition normalizeFailureMessage :: "string \<Rightarrow> string" where
  "normalizeFailureMessage m = trim (collapse_ws m)"

text \<open>
  \<open>/base branch\b[\s\S]*\bdoes not exist in the remote/i\<close> on a lower-case text. The flag says
  whether the character before the text is a word character.
\<close>

definition is_word :: "char \<Rightarrow> bool" where
  "is_word c \<longleftrightarrow> (let n = (of_char c :: nat) in
     48 \<le> n \<and> n \<le> 57 \<or> 65 \<le> n \<and> n \<le> 90 \<or> n = 95 \<or> 97 \<le> n \<and> n \<le> 122)"

definition begins :: "string \<Rightarrow> string \<Rightarrow> bool" where
  "begins p s \<longleftrightarrow> take (length p) s = p"

fun missing_from :: "bool \<Rightarrow> string \<Rightarrow> bool" where
  "missing_from before [] = False"
| "missing_from before (c # cs) =
     (\<not> before \<and> begins ''does not exist in the remote'' (c # cs) \<or> missing_from (is_word c) cs)"

fun base_not_in_remote :: "string \<Rightarrow> bool" where
  "base_not_in_remote [] = False"
| "base_not_in_remote (c # cs) =
     (begins ''base branch'' (c # cs) \<and>
        (let after = drop (length ''base branch'') (c # cs)
         in (case after of [] \<Rightarrow> True | d # _ \<Rightarrow> \<not> is_word d) \<and> missing_from True after) \<or>
      base_not_in_remote cs)"

text \<open>\<open>/base branch(?:\s+\S+)?\s+has not been submitted yet/i\<close> on a lower-case text.\<close>

definition not_submitted_after :: "string \<Rightarrow> bool" where
  "not_submitted_after s \<longleftrightarrow>
     (case s of [] \<Rightarrow> False | c # _ \<Rightarrow> is_ws c \<and> begins ''has not been submitted yet'' (dropWhile is_ws s))"

definition skip_name :: "string \<Rightarrow> string" where
  "skip_name s =
     (case s of [] \<Rightarrow> [] | c # _ \<Rightarrow> if is_ws c then dropWhile (\<lambda>d. \<not> is_ws d) (dropWhile is_ws s) else [])"

fun base_not_submitted :: "string \<Rightarrow> bool" where
  "base_not_submitted [] = False"
| "base_not_submitted (c # cs) =
     (begins ''base branch'' (c # cs) \<and>
        (let after = drop (length ''base branch'') (c # cs)
         in not_submitted_after after \<or> not_submitted_after (skip_name after)) \<or>
      base_not_submitted cs)"

definition isGitSpiceMissingBaseMessage :: "string option \<Rightarrow> bool" where
  "isGitSpiceMissingBaseMessage message =
     (case message of
        None \<Rightarrow> False
      | Some m \<Rightarrow> trim m \<noteq> [] \<and>
          (let normalized = map lower_ascii (normalizeFailureMessage m)
           in base_not_in_remote normalized \<or> base_not_submitted normalized))"

definition hasGitSpiceMissingBaseLandingFailure :: "failure_summary \<Rightarrow> bool" where
  "hasGitSpiceMissingBaseLandingFailure s =
     (let terminal = (case fs_terminalFailure s of
            Some t \<Rightarrow> if tf_scope t = Some ''landing'' \<or> tf_stage t = Some ''landing''
                      then [tf_message t, Option.bind (tf_landing t) lf_reason] else []
          | None \<Rightarrow> []);
          landing = (case fs_landing s of
            Some l \<Rightarrow> if lf_status l = ''failed'' then [lf_reason l] else []
          | None \<Rightarrow> [])
      in list_ex isGitSpiceMissingBaseMessage (terminal @ landing))"

definition stackBaseMissingRecommendation :: recommendation where
  "stackBaseMissingRecommendation = \<lparr>rn_verdict = RkManual, rn_rationale = StackBaseMissing\<rparr>"

definition detail :: "string \<Rightarrow> string option \<Rightarrow> string list" where
  "detail label x = (case x of None \<Rightarrow> [] | Some t \<Rightarrow> [label @ t])"

definition continueRepairRecommendation :: "failure_summary \<Rightarrow> repair_eligibility \<Rightarrow> recommendation" where
  "continueRepairRecommendation s e =
     \<lparr>rn_verdict = RkContinueRepair,
      rn_rationale = RepairEligible (fs_prdId s)
        (detail ''artifact source: '' (el_artifactAvailability e) @
         detail ''artifact commit: '' (el_artifactCommit e) @
         (case el_landedCommitCount e of None \<Rightarrow> [] | Some n \<Rightarrow> [int_string n @ '' landed commit(s)'']) @
         detail ''failing plan: '' (el_failingPlanId e) @
         detail ''feature branch: '' (el_featureBranch e))\<rparr>"

definition isContinueRepairEligible :: "repair_eligibility option \<Rightarrow> failure_summary \<Rightarrow> bool" where
  "isContinueRepairEligible eligibility s =
     (case eligibility of None \<Rightarrow> False
      | Some e \<Rightarrow> el_eligible e \<and> fs_partial s \<noteq> Some True \<and> el_partial e \<noteq> Some True)"

definition isCompileScopeContextTerminalFailure :: "failure_summary \<Rightarrow> bool" where
  "isCompileScopeContextTerminalFailure s =
     (case fs_terminalFailure s of None \<Rightarrow> False
      | Some t \<Rightarrow> tf_scope t = Some ''compile'' \<and> tf_terminalSubtype t = Some ''error_context_window'')"

definition used_tools :: "failing_plan \<Rightarrow> bool" where
  "used_tools p = (case fp_toolUseCount p of None \<Rightarrow> False | Some n \<Rightarrow> 0 < n)"

definition manual :: "rationale \<Rightarrow> recommendation" where
  "manual r = \<lparr>rn_verdict = RkManual, rn_rationale = r\<rparr>"

text \<open>An empty text counts as absent.\<close>

definition truthy :: "string option \<Rightarrow> string option" where
  "truthy t = (if t = Some [] then None else t)"

definition ineligible_reason :: "repair_eligibility option \<Rightarrow> string option" where
  "ineligible_reason eligibility =
     (case eligibility of None \<Rightarrow> None
      | Some e \<Rightarrow> if el_eligible e then None else truthy (el_reason e))"

text \<open>The tail of the recommendation, on a list of failing plans that is not empty.\<close>

definition recommend_for_plans ::
    "failure_summary \<Rightarrow> repair_eligibility option \<Rightarrow> failing_plan list \<Rightarrow> recommendation" where
  "recommend_for_plans s eligibility failingPlans =
     (let nonTransient = filter (\<lambda>p. \<not> isTransientSubtype (fp_terminalSubtype p)) failingPlans;
          withToolUse = filter used_tools failingPlans;
          planIds = map fp_planId failingPlans
      in if nonTransient \<noteq> [] then manual (NonTransientPlans (map (\<lambda>p. (fp_planId p, fp_terminalSubtype p)) nonTransient))
         else if withToolUse \<noteq> [] then manual (PlansWithToolUse (map (\<lambda>p. (fp_planId p, fp_toolUseCount p)) withToolUse))
         else if hasCompletedOrMergedPlans s then manual (PreservedWork planIds (ineligible_reason eligibility))
         else \<lparr>rn_verdict = RkRetry, rn_rationale = TransientRetry planIds\<rparr>)"

definition determineRecoveryRecommendation ::
    "failure_summary \<Rightarrow> repair_eligibility option \<Rightarrow> recommendation" where
  "determineRecoveryRecommendation s eligibility =
     (if fs_partial s = Some True then manual PartialContext
      else if hasGitSpiceMissingBaseLandingFailure s then stackBaseMissingRecommendation
      else if isContinueRepairEligible eligibility s then continueRepairRecommendation s (the eligibility)
      else if isCompileScopeContextTerminalFailure s
        then manual (CompileScopeFailure (truthy (Option.bind (fs_terminalFailure s) tf_stage)))
      else case fs_failingPlans s of
             None \<Rightarrow> manual NoFailingPlans
           | Some failingPlans \<Rightarrow>
               if failingPlans = [] then manual NoFailingPlans
               else recommend_for_plans s eligibility failingPlans)"

section \<open>The analyst's verdict\<close>

datatype confidence = CLow | CMedium | CHigh
datatype verdict_source = SourceDeterministic | SourceAnalyst | SourceManualFallback

text \<open>The rationale of a verdict is a text when the analyst wrote it.\<close>

record 'r recovery_verdict =
  rv_verdict :: recovery_kind
  rv_confidence :: confidence
  rv_rationale :: 'r
  rv_completedWork :: "string list"
  rv_remainingWork :: "string list"
  rv_risks :: "string list"
  rv_partial :: "bool option"
  rv_source :: "verdict_source option"
  rv_recRationale :: "rationale option"
  rv_invalidation :: "invalid_reason option"
  rv_error :: "string option"

definition coverage_ids :: "failure_summary \<Rightarrow> plan_id list" where
  "coverage_ids s =
     (case fs_failingPlans s of
        Some (p # ps) \<Rightarrow> map fp_planId (p # ps)
      | _ \<Rightarrow> if fp_planId (fs_failingPlan s) \<noteq> [] \<and> fp_planId (fs_failingPlan s) \<noteq> ''unknown''
            then [fp_planId (fs_failingPlan s)] else [])"

text \<open>\<open>Some\<close> is the reason the verdict is invalid.\<close>

definition validateAnalystVerdict :: "string recovery_verdict \<Rightarrow> failure_summary \<Rightarrow> invalid_reason option" where
  "validateAnalystVerdict v s =
     (if rv_verdict v = RkSplit then Some LegacyVerdict
      else let missing = filter (\<lambda>i. \<not> has_infix i (rv_rationale v)) (coverage_ids s)
           in if missing \<noteq> [] then Some (MissingPlanIds missing) else None)"

section \<open>The final verdict\<close>

definition orFalse :: "bool option \<Rightarrow> bool" where
  "orFalse b \<longleftrightarrow> b = Some True"

definition deterministicVerdict ::
    "recommendation \<Rightarrow> failure_summary \<Rightarrow> string recovery_verdict option \<Rightarrow> invalid_reason option \<Rightarrow> string option
      \<Rightarrow> rationale recovery_verdict" where
  "deterministicVerdict rn s details invalidation err =
     \<lparr>rv_verdict = rn_verdict rn,
      rv_confidence = (if rn_verdict rn = RkContinueRepair then CHigh else CMedium),
      rv_rationale = rn_rationale rn,
      rv_completedWork = (case details of None \<Rightarrow> [] | Some d \<Rightarrow> rv_completedWork d),
      rv_remainingWork = (case details of None \<Rightarrow> [] | Some d \<Rightarrow> rv_remainingWork d),
      rv_risks = (case details of None \<Rightarrow> [] | Some d \<Rightarrow> rv_risks d),
      rv_partial = Some (orFalse (fs_partial s) \<or> (case details of None \<Rightarrow> False | Some d \<Rightarrow> orFalse (rv_partial d))),
      rv_source = Some SourceDeterministic,
      rv_recRationale = Some (rn_rationale rn),
      rv_invalidation = invalidation,
      rv_error = err\<rparr>"

record select_options =
  so_recommendation :: recommendation
  so_analyst :: "string recovery_verdict option"
  so_analystError :: "string option"
  so_parseError :: "string option"
  so_summary :: failure_summary

definition errorContext :: "select_options \<Rightarrow> string option" where
  "errorContext opt = (case so_analystError opt of None \<Rightarrow> so_parseError opt | Some e \<Rightarrow> Some e)"

text \<open>\<open>{ ...analystVerdict, recommendationSource: 'analyst', recommendationRationale }\<close>.\<close>

definition use_analyst :: "recommendation \<Rightarrow> string recovery_verdict \<Rightarrow> rationale recovery_verdict" where
  "use_analyst rn v =
     \<lparr>rv_verdict = rv_verdict v, rv_confidence = rv_confidence v, rv_rationale = AnalystText (rv_rationale v),
      rv_completedWork = rv_completedWork v, rv_remainingWork = rv_remainingWork v, rv_risks = rv_risks v,
      rv_partial = rv_partial v, rv_source = Some SourceAnalyst, rv_recRationale = Some (rn_rationale rn),
      rv_invalidation = rv_invalidation v, rv_error = rv_error v\<rparr>"

definition rejected_fallback ::
    "recommendation \<Rightarrow> failure_summary \<Rightarrow> string recovery_verdict \<Rightarrow> invalid_reason \<Rightarrow> rationale recovery_verdict" where
  "rejected_fallback rn s v reason =
     \<lparr>rv_verdict = RkManual, rv_confidence = CLow, rv_rationale = AnalystRejected reason (rn_rationale rn),
      rv_completedWork = rv_completedWork v, rv_remainingWork = rv_remainingWork v, rv_risks = rv_risks v,
      rv_partial = Some (orFalse (fs_partial s) \<or> orFalse (rv_partial v)),
      rv_source = Some SourceManualFallback, rv_recRationale = Some (rn_rationale rn),
      rv_invalidation = Some reason, rv_error = None\<rparr>"

definition failed_fallback :: "select_options \<Rightarrow> rationale recovery_verdict" where
  "failed_fallback opt =
     \<lparr>rv_verdict = RkManual, rv_confidence = CLow, rv_rationale = AnalystFailed (errorContext opt),
      rv_completedWork = [], rv_remainingWork = [], rv_risks = [],
      rv_partial = Some (orFalse (fs_partial (so_summary opt)) \<or> so_analystError opt \<noteq> None),
      rv_source = Some SourceManualFallback, rv_recRationale = Some (rn_rationale (so_recommendation opt)),
      rv_invalidation = None, rv_error = errorContext opt\<rparr>"

text \<open>An analyst verdict when the recommendation is not a repair.\<close>

definition select_with_analyst ::
    "recommendation \<Rightarrow> failure_summary \<Rightarrow> string recovery_verdict \<Rightarrow> rationale recovery_verdict" where
  "select_with_analyst rn s v =
     (let validation = validateAnalystVerdict v s;
          unsupportedContinueRepair = (rv_verdict v = RkContinueRepair)
      in if validation = None \<and> \<not> unsupportedContinueRepair then use_analyst rn v
         else let reason = (if unsupportedContinueRepair then RepairNotSelected else the validation)
              in if rn_verdict rn \<noteq> RkManual then deterministicVerdict rn s (Some v) (Some reason) None
                 else rejected_fallback rn s v reason)"

definition selectFinalVerdict :: "select_options \<Rightarrow> rationale recovery_verdict" where
  "selectFinalVerdict opt =
     (let rn = so_recommendation opt; s = so_summary opt in
      if rn_verdict rn = RkContinueRepair then
        (case so_analyst opt of
           Some v \<Rightarrow> (case validateAnalystVerdict v s of
               None \<Rightarrow> deterministicVerdict rn s (Some v) None None
             | Some reason \<Rightarrow> deterministicVerdict rn s None (Some reason) None)
         | None \<Rightarrow> deterministicVerdict rn s None None (errorContext opt))
      else case so_analyst opt of
             Some v \<Rightarrow>
               if isCompileScopeContextTerminalFailure s \<and> rn_verdict rn = RkManual \<and> rv_verdict v \<noteq> RkManual
               then deterministicVerdict rn s (Some v) (Some CompileScopeReadOnly) None
               else select_with_analyst rn s v
           | None \<Rightarrow>
               if rn_verdict rn \<noteq> RkManual then deterministicVerdict rn s None None (errorContext opt)
               else failed_fallback opt)"


text \<open>The recommendation, the analyst's answer and the selection as the recovery of a failed PRD
  puts them together: \<open>analyst\<close> is the verdict of the agent, if any, and the errors are those of
  the agent and of parsing its output.\<close>

definition recovery_options ::
    "failure_summary \<Rightarrow> repair_eligibility option \<Rightarrow> string recovery_verdict option \<Rightarrow> string option \<Rightarrow> string option
      \<Rightarrow> select_options" where
  "recovery_options s eligibility analyst agentError parseError =
       \<lparr>so_recommendation = determineRecoveryRecommendation s eligibility, so_analyst = analyst,
        so_analystError = agentError, so_parseError = parseError, so_summary = s\<rparr>"

definition recoverVerdict ::
    "failure_summary \<Rightarrow> repair_eligibility option \<Rightarrow> string recovery_verdict option \<Rightarrow> string option \<Rightarrow> string option
      \<Rightarrow> rationale recovery_verdict" where
  "recoverVerdict s eligibility analyst agentError parseError =
     selectFinalVerdict (recovery_options s eligibility analyst agentError parseError)"

section \<open>What is recommended\<close>

text \<open>The facts under which a retry from scratch is recommended.\<close>

definition retry_facts :: "failure_summary \<Rightarrow> failing_plan list \<Rightarrow> bool" where
  "retry_facts s ps \<longleftrightarrow>
     fs_failingPlans s = Some ps \<and> ps \<noteq> [] \<and>
     (\<forall>p \<in> set ps. fp_terminalSubtype p = Some ''error_transient_transport'' \<and> \<not> used_tools p) \<and>
     (\<forall>p \<in> set (fs_plans s). su_status p \<noteq> ''completed'' \<and> su_status p \<noteq> ''merged'') \<and>
     fs_landedCommits s = [] \<and> (\<forall>c \<in> set (fs_diffStat s). is_ws c)"

text \<open>The facts that come before the plans are looked at.\<close>

definition open_to_automation :: "failure_summary \<Rightarrow> bool" where
  "open_to_automation s \<longleftrightarrow> fs_partial s \<noteq> Some True \<and> \<not> hasGitSpiceMissingBaseLandingFailure s"

lemma trim_empty_iff: "trim s = [] \<longleftrightarrow> (\<forall>c \<in> set s. is_ws c)"
proof -
  have "dropWhile is_ws (rev (dropWhile is_ws s)) = [] \<longleftrightarrow> (\<forall>c \<in> set (dropWhile is_ws s). is_ws c)"
    by (simp add: dropWhile_eq_Nil_conv)
  also have "\<dots> \<longleftrightarrow> dropWhile is_ws s = []"
    by (metis dropWhile_eq_Nil_conv empty_iff empty_set hd_dropWhile list.set_sel(1))
  finally show ?thesis by (simp add: trim_def dropWhile_eq_Nil_conv)
qed

lemma no_completion_iff:
  "\<not> hasCompletedOrMergedPlans s \<longleftrightarrow>
     (\<forall>p \<in> set (fs_plans s). su_status p \<noteq> ''completed'' \<and> su_status p \<noteq> ''merged'') \<and>
     fs_landedCommits s = [] \<and> (\<forall>c \<in> set (fs_diffStat s). is_ws c)"
  by (auto simp: hasCompletedOrMergedPlans_def list_ex_iff trim_empty_iff)

lemma recommend_for_plans_verdict:
  "rn_verdict (recommend_for_plans s e ps) =
     (if (\<forall>p \<in> set ps. fp_terminalSubtype p = Some ''error_transient_transport'' \<and> \<not> used_tools p) \<and>
         \<not> hasCompletedOrMergedPlans s
      then RkRetry else RkManual)"
  by (auto simp: recommend_for_plans_def Let_def manual_def isTransientSubtype_def filter_empty_conv)

lemma determine_verdict:
  "rn_verdict (determineRecoveryRecommendation s e) =
     (if \<not> open_to_automation s then RkManual
      else if isContinueRepairEligible e s then RkContinueRepair
      else if \<not> isCompileScopeContextTerminalFailure s \<and> (\<exists>ps. retry_facts s ps) then RkRetry
      else RkManual)"
  by (auto simp: determineRecoveryRecommendation_def open_to_automation_def manual_def retry_facts_def
      stackBaseMissingRecommendation_def continueRepairRecommendation_def recommend_for_plans_verdict
      no_completion_iff split: option.splits)

section \<open>Which verdict is final\<close>

text \<open>
  The analyst's verdict is accepted when the recommendation is not a repair, the verdict is
  neither a repair nor a legacy one, it does not act on a failure of the compile scope that the
  recommendation leaves to a human, and its rationale contains the id of every failed plan.
\<close>

definition accepted_analyst :: "select_options \<Rightarrow> string recovery_verdict option" where
  "accepted_analyst opt =
     (case so_analyst opt of
        None \<Rightarrow> None
      | Some v \<Rightarrow>
          if rn_verdict (so_recommendation opt) \<noteq> RkContinueRepair \<and>
             rv_verdict v \<noteq> RkContinueRepair \<and> rv_verdict v \<noteq> RkSplit \<and>
             (isCompileScopeContextTerminalFailure (so_summary opt) \<longrightarrow>
              rn_verdict (so_recommendation opt) = RkManual \<longrightarrow> rv_verdict v = RkManual) \<and>
             (\<forall>i \<in> set (coverage_ids (so_summary opt)). has_infix i (rv_rationale v))
          then Some v else None)"

lemma validate_None_iff:
  "validateAnalystVerdict v s = None \<longleftrightarrow>
     rv_verdict v \<noteq> RkSplit \<and> (\<forall>i \<in> set (coverage_ids s). has_infix i (rv_rationale v))"
  by (auto simp: validateAnalystVerdict_def Let_def filter_empty_conv)

lemma validate_Some_iff:
  "(\<exists>r. validateAnalystVerdict v s = Some r) \<longleftrightarrow>
     rv_verdict v = RkSplit \<or> (\<exists>i \<in> set (coverage_ids s). \<not> has_infix i (rv_rationale v))"
  using validate_None_iff [of v s] by (auto simp del: split_paired_Ex)

lemma deterministicVerdict_fields [simp]:
  "rv_verdict (deterministicVerdict rn s d i err) = rn_verdict rn"
  "rv_source (deterministicVerdict rn s d i err) = Some SourceDeterministic"
  "rv_recRationale (deterministicVerdict rn s d i err) = Some (rn_rationale rn)"
  "rv_invalidation (deterministicVerdict rn s d i err) = i"
  by (simp_all add: deterministicVerdict_def)

lemma use_analyst_fields [simp]:
  "rv_verdict (use_analyst rn v) = rv_verdict v"
  "rv_source (use_analyst rn v) = Some SourceAnalyst"
  "rv_recRationale (use_analyst rn v) = Some (rn_rationale rn)"
  by (simp_all add: use_analyst_def)

lemma fallback_fields [simp]:
  "rv_verdict (rejected_fallback rn s v r) = RkManual"
  "rv_source (rejected_fallback rn s v r) = Some SourceManualFallback"
  "rv_recRationale (rejected_fallback rn s v r) = Some (rn_rationale rn)"
  "rv_invalidation (rejected_fallback rn s v r) = Some r"
  "rv_verdict (failed_fallback opt) = RkManual"
  "rv_source (failed_fallback opt) = Some SourceManualFallback"
  "rv_recRationale (failed_fallback opt) = Some (rn_rationale (so_recommendation opt))"
  "rv_invalidation (failed_fallback opt) = None"
  by (simp_all add: rejected_fallback_def failed_fallback_def)

lemma select_verdict:
  "rv_verdict (selectFinalVerdict opt) =
     (case accepted_analyst opt of Some v \<Rightarrow> rv_verdict v | None \<Rightarrow> rn_verdict (so_recommendation opt))"
  by (auto simp: selectFinalVerdict_def select_with_analyst_def accepted_analyst_def Let_def
      validate_None_iff split: option.splits)

lemma select_source:
  "rv_source (selectFinalVerdict opt) = Some SourceAnalyst \<longleftrightarrow> accepted_analyst opt \<noteq> None"
  by (auto simp: selectFinalVerdict_def select_with_analyst_def accepted_analyst_def Let_def
      validate_None_iff split: option.splits)

lemma select_audit:
  "rv_recRationale (selectFinalVerdict opt) = Some (rn_rationale (so_recommendation opt))"
  by (auto simp: selectFinalVerdict_def select_with_analyst_def Let_def split: option.splits)

lemma select_rejection_recorded:
  "so_analyst opt = Some v \<Longrightarrow> accepted_analyst opt = None \<Longrightarrow>
   rn_verdict (so_recommendation opt) \<noteq> RkContinueRepair \<Longrightarrow>
   rv_invalidation (selectFinalVerdict opt) \<noteq> None"
  by (auto simp: selectFinalVerdict_def select_with_analyst_def accepted_analyst_def Let_def
      validate_None_iff validate_Some_iff split: option.splits if_splits)


lemma recovery_options_fields [simp]:
  "so_recommendation (recovery_options s e a err perr) = determineRecoveryRecommendation s e"
  "so_analyst (recovery_options s e a err perr) = a"
  "so_summary (recovery_options s e a err perr) = s"
  by (simp_all add: recovery_options_def)

lemma accepted_is_not_repair:
  "accepted_analyst opt = Some v \<Longrightarrow> rv_verdict v \<noteq> RkContinueRepair \<and> rn_verdict (so_recommendation opt) \<noteq> RkContinueRepair"
  by (auto simp: accepted_analyst_def split: option.splits if_splits)

lemma repair_blocks_analyst:
  "rn_verdict (so_recommendation opt) = RkContinueRepair \<Longrightarrow> accepted_analyst opt = None"
  by (simp add: accepted_analyst_def split: option.splits)

section \<open>Properties\<close>


text \<open> C14. Which verdict ends the recovery of a failed build. It is the analyst's when that one is
  accepted, and the recommended one in every other case; the source recorded with it says
  which, and the recommended rationale is recorded always. A repair is the final verdict
  exactly when the policy selects it: the analyst can neither ask for one nor prevent it.\<close>

theorem final_verdict_exact:
  "rv_verdict (recoverVerdict s e analyst err perr) =
      (case accepted_analyst (recovery_options s e analyst err perr) of
         Some v \<Rightarrow> rv_verdict v
       | None \<Rightarrow> rn_verdict (determineRecoveryRecommendation s e)) \<and>
   (rv_source (recoverVerdict s e analyst err perr) = Some SourceAnalyst \<longleftrightarrow>
      accepted_analyst (recovery_options s e analyst err perr) \<noteq> None) \<and>
   rv_recRationale (recoverVerdict s e analyst err perr) =
      Some (rn_rationale (determineRecoveryRecommendation s e)) \<and>
   (rv_verdict (recoverVerdict s e analyst err perr) = RkContinueRepair \<longleftrightarrow>
      open_to_automation s \<and> isContinueRepairEligible e s)"
proof -
  let ?opt = "recovery_options s e analyst err perr"
  have rep: "rn_verdict (determineRecoveryRecommendation s e) = RkContinueRepair \<longleftrightarrow>
      open_to_automation s \<and> isContinueRepairEligible e s" by (simp add: determine_verdict)
  have "rv_verdict (recoverVerdict s e analyst err perr) = RkContinueRepair \<longleftrightarrow>
      open_to_automation s \<and> isContinueRepairEligible e s"
    using accepted_is_not_repair [of ?opt] rep
    by (auto simp: recoverVerdict_def select_verdict split: option.splits)
  then show ?thesis
    by (simp add: recoverVerdict_def select_verdict select_source select_audit
        cong: option.case_cong del: not_None_eq)
qed

section \<open>Findings and examples\<close>

definition demo_plan :: "string \<Rightarrow> int option \<Rightarrow> failing_plan" where
  "demo_plan i n = \<lparr>fp_planId = i, fp_terminalSubtype = Some ''error_transient_transport'', fp_toolUseCount = n\<rparr>"

definition demo_summary :: "failing_plan list \<Rightarrow> string \<Rightarrow> failure_summary" where
  "demo_summary ps landing =
     \<lparr>fs_prdId = ''feature'', fs_plans = [], fs_failingPlan = demo_plan ''unknown'' None,
      fs_failingPlans = Some ps, fs_landedCommits = [], fs_diffStat = '' '', fs_partial = None,
      fs_terminalFailure = None,
      fs_landing = Some \<lparr>lf_status = ''failed'', lf_reason = Some landing\<rparr>\<rparr>"

definition demo_analyst :: "recovery_kind \<Rightarrow> string \<Rightarrow> string recovery_verdict" where
  "demo_analyst k why =
     \<lparr>rv_verdict = k, rv_confidence = CHigh, rv_rationale = why, rv_completedWork = [], rv_remainingWork = [],
      rv_risks = [], rv_partial = None, rv_source = None, rv_recRationale = None, rv_invalidation = None,
      rv_error = None\<rparr>"

text \<open>The comment asks for zero tool use; a plan whose count is not known is retried as well.\<close>

lemma unknown_tool_use_is_retried:
  "rn_verdict (determineRecoveryRecommendation (demo_summary [demo_plan ''p'' None] ''disk full'') None) = RkRetry"
  by code_simp

text \<open>The id of a failed plan counts as mentioned when it is a part of a longer id.\<close>

lemma longer_id_covers:
  "validateAnalystVerdict (demo_analyst RkAbandon ''plan-10 is obsolete'')
     (demo_summary [demo_plan ''plan-1'' None] '''') = None"
  by code_simp

text \<open>Messages of git-spice about a missing base, and one that is not.\<close>

lemma missing_base_examples:
  "isGitSpiceMissingBaseMessage (Some ''Base  branch eforge/x does not exist in the remote'')"
  "isGitSpiceMissingBaseMessage (Some ''base branch feature has not been submitted yet'')"
  "isGitSpiceMissingBaseMessage (Some ''base branch has not been submitted yet'')"
  "\<not> isGitSpiceMissingBaseMessage (Some ''base branches xdoes not exist in the remote'')"
  "\<not> isGitSpiceMissingBaseMessage (Some ''base branch a b has not been submitted yet'')"
  by code_simp+

end
