(* ===== verification/RecoveryApply.thy ===== *)
theory RecoveryApply
  imports ResumeCascade RecoveryVerdict
begin

text \<open>
  Applying a recovery verdict to a failed PRD (\<open>recovery/apply.ts\<close>, the markers of
  \<open>recovery/applied-sidecar.ts\<close>, \<open>resume/queued-resume.ts\<close>), and the route of the daemon that
  dispatches on the verdict (\<open>applyRecovery\<close> in \<open>packages/monitor/src/routes/recovery.ts\<close>). The state
  is the world of the queue, with the recovery sidecars of the failed directory; an operation
  returns the world it leaves, also when it throws. The lemmas show that a PRD is never lost and a
  queued one never overwritten, and that an action that was applied is not overwritten by another.
\<close>

section \<open>Guidance\<close>

datatype patch_status = PatchPatched | PatchCurrent | PatchMissing | PatchBlocked

record patched_plan =
  gp_planId :: plan_id
  gp_status :: patch_status
  gp_reason :: "string option"

record guidance =
  gd_plans :: "patched_plan list"
  gd_commitSha :: "string option"

fun patch_status_text :: "patch_status \<Rightarrow> string" where
  "patch_status_text PatchPatched = ''patched''"
| "patch_status_text PatchCurrent = ''already-current''"
| "patch_status_text PatchMissing = ''artifact-missing''"
| "patch_status_text PatchBlocked = ''blocked''"

definition patch_done :: "patched_plan \<Rightarrow> bool" where
  "patch_done p \<longleftrightarrow> gp_status p = PatchPatched \<or> gp_status p = PatchCurrent"

definition recoveryGuidanceResumeBlocker :: "guidance \<Rightarrow> string option" where
  "recoveryGuidanceResumeBlocker g =
     (if gd_plans g = [] then Some ''Recovery guidance found no root failed plans to patch.''
      else case List.find (\<lambda>p. \<not> patch_done p) (gd_plans g) of
             None \<Rightarrow> None
           | Some p \<Rightarrow> Some (''Recovery guidance for '' @ gp_planId p @ '' is '' @ patch_status_text (gp_status p) @
               (case truthy (gp_reason p) of None \<Rightarrow> [] | Some r \<Rightarrow> '': '' @ r)))"

definition guidance_detail :: "guidance \<Rightarrow> string option" where
  "guidance_detail g =
     (if gd_plans g \<noteq> [] \<and> list_all patch_done (gd_plans g)
      then Some (''Recovery guidance '' @
        (if list_ex (\<lambda>p. gp_status p = PatchPatched) (gd_plans g) then ''patched'' else ''already current'') @ ''.'')
      else None)"

section \<open>Surroundings\<close>

record queued_metadata =
  qm_prdId :: prd_id
  qm_setName :: string
  qm_featureBranch :: string
  qm_baseBranch :: string

text \<open>What reading the sidecar of a PRD gives: the name of its plan set, and the identity in its
  summary.\<close>

record summary_identity =
  si_setName :: "string option"
  si_featureBranch :: "string option"
  si_baseBranch :: "string option"

record sidecar_projection =
  pj_setName :: "string option"
  pj_summary :: "summary_identity option"

datatype sidecar_file = SidecarMd | SidecarJson | FailedPrd

text \<open>
  Errors of the file system are the optional codes. \<open>ap_guidance\<close> prepares the guidance in the
  merge worktree of the PRD, and may find the queue changed when it is done; \<open>ap_projection\<close> and
  \<open>ap_eligibility\<close> read, and \<open>ap_summary\<close> builds the failure summary, or throws.
\<close>

record apply_env =
  ap_mkdir :: "string option"
  ap_link :: "string option"
  ap_unlink :: "string option"
  ap_undo :: "string option"
  ap_rm :: "sidecar_file \<Rightarrow> string option"
  ap_write :: "string option"
  ap_guidance :: "prd_id \<Rightarrow> queued_metadata option \<Rightarrow> world \<Rightarrow> world \<times> (string, guidance) result"
  ap_projection :: "prd_id \<Rightarrow> world \<Rightarrow> (string, sidecar_projection option) result"
  ap_summary :: "string \<Rightarrow> prd_id \<Rightarrow> summary_identity option"
  ap_eligibility :: "queued_metadata \<Rightarrow> world \<Rightarrow> (string, string option) result"
  ap_trunk :: "string option"
  ap_resume :: resume_env

datatype refusal = RefusalText string | RefusalQueue resume_reason

text \<open>\<open>RecoveryApplyConflictError\<close>, and any other error with its message.\<close>

datatype apply_error = ApplyConflict refusal | ApplyThrown string

type_synonym 'a apply_act = "world \<times> (apply_error, 'a) result"

section \<open>Applied markers\<close>

text \<open>\<open>applied.action\<close> of the sidecar; \<open>None\<close> when the file is missing or has none.\<close>

definition readRawAppliedAction :: "prd_id \<Rightarrow> world \<Rightarrow> string option" where
  "readRawAppliedAction i w = Option.bind (dget (w_json w) i) sc_appliedAction"

definition assertNoConflictingAppliedMarker :: "prd_id \<Rightarrow> string \<Rightarrow> world \<Rightarrow> apply_error option" where
  "assertNoConflictingAppliedMarker i action w =
     (case readRawAppliedAction i w of
        None \<Rightarrow> None
      | Some existing \<Rightarrow>
          if existing = action then None
          else Some (ApplyConflict (RefusalText
            (''A different recovery action ('' @ [CHR 0x27] @ existing @ [CHR 0x27] @
             '') was already applied to this PRD; refusing to apply '' @ [CHR 0x27] @ action @ [CHR 0x27] @
             '' and overwrite its durable applied marker.''))))"

definition writeRecoveryAppliedMetadata :: "apply_env \<Rightarrow> prd_id \<Rightarrow> string \<Rightarrow> world \<Rightarrow> unit apply_act" where
  "writeRecoveryAppliedMetadata env i action w =
     (case (dget (w_json w) i, ap_write env) of
        (None, _) \<Rightarrow> (w, Inl (ApplyThrown ''ENOENT''))
      | (Some sc, Some e) \<Rightarrow> (w, Inl (ApplyThrown e))
      | (Some sc, None) \<Rightarrow> (w\<lparr>w_json := dput i (sc\<lparr>sc_appliedAction := Some action\<rparr>) (w_json w)\<rparr>, Inr ()))"

section \<open>Retry\<close>

definition queueMoveConflictMessage :: "prd_id \<Rightarrow> string" where
  "queueMoveConflictMessage i =
     ''Failed PRD '' @ i @ ''.md cannot be safely moved back to the queue; the failed source may be missing or the queue root already contains the PRD.''"

definition queue_move_conflict :: "prd_id \<Rightarrow> apply_error" where
  "queue_move_conflict i = ApplyConflict (RefusalText (queueMoveConflictMessage i))"

definition assertRetryQueueMovePreflight :: "prd_id \<Rightarrow> world \<Rightarrow> apply_error option" where
  "assertRetryQueueMovePreflight i w =
     (if \<not> file_exists FailedDir i (w_disk w) then Some (queue_move_conflict i)
      else if file_exists RootDir i (w_disk w) then Some (queue_move_conflict i)
      else None)"

definition isQueueMoveConflict :: "string \<Rightarrow> bool" where
  "isQueueMoveConflict err \<longleftrightarrow> err = ''EEXIST'' \<or> err = ''ENOENT''"

text \<open>\<open>moveNoOverwrite\<close> from \<open>failed\<close> to the root: a hard link, and the removal of the source, undone
  when it fails. \<open>Some\<close> is the code of the error.\<close>

definition move_failed_to_root :: "apply_env \<Rightarrow> prd_id \<Rightarrow> qdisk \<Rightarrow> qdisk \<times> string option" where
  "move_failed_to_root env i d =
     (case ap_mkdir env of
        Some e \<Rightarrow> (d, Some e)
      | None \<Rightarrow>
          (let d1 = mkdirp RootDir d in
           case dget (entries FailedDir d1) i of
             None \<Rightarrow> (d1, Some ''ENOENT'')
           | Some f \<Rightarrow>
               if file_exists RootDir i d1 then (d1, Some ''EEXIST'')
               else case ap_link env of
                      Some e \<Rightarrow> (d1, Some e)
                    | None \<Rightarrow>
                        (let d2 = set_dir RootDir (Some (entries RootDir d1 @ [(i, f)])) d1 in
                         case ap_unlink env of
                           None \<Rightarrow> (set_dir FailedDir (Some (ddel i (entries FailedDir d2))) d2, None)
                         | Some e \<Rightarrow>
                             (case ap_undo env of
                                Some e2 \<Rightarrow> (d2, Some e2)
                              | None \<Rightarrow> (rm_force RootDir i d2, Some e)))))"

definition prepareRetryRecoveryGuidance :: "apply_env \<Rightarrow> prd_id \<Rightarrow> world \<Rightarrow> guidance apply_act" where
  "prepareRetryRecoveryGuidance env i w =
     (case ap_guidance env i None w of
        (w1, Inl message) \<Rightarrow>
          (w1, Inl (ApplyConflict (RefusalText (''Recovery guidance could not be prepared: '' @ message))))
      | (w1, Inr g) \<Rightarrow>
          (case recoveryGuidanceResumeBlocker g of
             Some b \<Rightarrow> (w1, Inl (ApplyConflict (RefusalText b)))
           | None \<Rightarrow> (w1, Inr g)))"

text \<open>\<open>rm\<close> with \<open>force\<close> of the files of a failed PRD.\<close>

definition rm_failed :: "apply_env \<Rightarrow> sidecar_file \<Rightarrow> prd_id \<Rightarrow> world \<Rightarrow> unit apply_act" where
  "rm_failed env file_kind i w =
     (case ap_rm env file_kind of
        Some e \<Rightarrow> (w, Inl (ApplyThrown e))
      | None \<Rightarrow>
          (case file_kind of
             SidecarMd \<Rightarrow> w\<lparr>w_md := removeAll i (w_md w)\<rparr>
           | SidecarJson \<Rightarrow> w\<lparr>w_json := ddel i (w_json w)\<rparr>
           | FailedPrd \<Rightarrow> on_disk (rm_force FailedDir i) w, Inr ()))"

definition thenDo :: "'a apply_act \<Rightarrow> ('a \<Rightarrow> world \<Rightarrow> 'b apply_act) \<Rightarrow> 'b apply_act" where
  "thenDo m k = (case m of (w, Inl e) \<Rightarrow> (w, Inl e) | (w, Inr x) \<Rightarrow> k x w)"

definition commit_of :: "guidance \<Rightarrow> string" where
  "commit_of g = (case gd_commitSha g of None \<Rightarrow> [] | Some c \<Rightarrow> c)"

text \<open>The move and the removal of both sidecars, once the guidance is prepared.\<close>

definition requeue_for_retry :: "apply_env \<Rightarrow> prd_id \<Rightarrow> guidance \<Rightarrow> world \<Rightarrow> (string \<times> string option) apply_act" where
  "requeue_for_retry env i g w =
     (case move_failed_to_root env i (w_disk w) of
        (d, Some err) \<Rightarrow>
          (w\<lparr>w_disk := d\<rparr>, Inl (if isQueueMoveConflict err then queue_move_conflict i else ApplyThrown err))
      | (d, None) \<Rightarrow>
          thenDo (rm_failed env SidecarMd i (w\<lparr>w_disk := d\<rparr>)) (\<lambda>_ w1.
            thenDo (rm_failed env SidecarJson i w1) (\<lambda>_ w2.
              (w2, Inr (commit_of g, guidance_detail g)))))"

definition applyRecoveryRetry :: "apply_env \<Rightarrow> prd_id \<Rightarrow> world \<Rightarrow> (string \<times> string option) apply_act" where
  "applyRecoveryRetry env i w =
     (case assertNoConflictingAppliedMarker i ''retry'' w of
        Some e \<Rightarrow> (w, Inl e)
      | None \<Rightarrow>
          (case assertRetryQueueMovePreflight i w of
             Some e \<Rightarrow> (w, Inl e)
           | None \<Rightarrow> thenDo (prepareRetryRecoveryGuidance env i w) (requeue_for_retry env i)))"

section \<open>Abandon and manual\<close>

definition applyRecoveryAbandon :: "apply_env \<Rightarrow> prd_id \<Rightarrow> world \<Rightarrow> string apply_act" where
  "applyRecoveryAbandon env i w =
     (case assertNoConflictingAppliedMarker i ''abandon'' w of
        Some e \<Rightarrow> (w, Inl e)
      | None \<Rightarrow>
          thenDo (rm_failed env FailedPrd i w) (\<lambda>_ w1.
            thenDo (rm_failed env SidecarMd i w1) (\<lambda>_ w2.
              thenDo (rm_failed env SidecarJson i w2) (\<lambda>_ w3. (w3, Inr [])))))"

definition applyRecoveryManual :: "prd_id \<Rightarrow> world \<Rightarrow> bool apply_act" where
  "applyRecoveryManual i w = (w, Inr True)"

section \<open>Continue and repair\<close>

text \<open>\<open>value && value.trim().length > 0 ? value : undefined\<close>.\<close>

definition nonEmpty :: "string option \<Rightarrow> string option" where
  "nonEmpty v = (case v of None \<Rightarrow> None | Some t \<Rightarrow> if trim t \<noteq> [] then Some t else None)"

text \<open>\<open>a ?? b\<close>.\<close>

definition or_else :: "'a option \<Rightarrow> 'a option \<Rightarrow> 'a option" where
  "or_else a b = (case a of None \<Rightarrow> b | Some x \<Rightarrow> Some x)"

definition assertSafePathSegment :: "string \<Rightarrow> bool" where
  "assertSafePathSegment v \<longleftrightarrow> v \<noteq> [] \<and> CHR ''/'' \<notin> set v \<and> CHR 0x5C \<notin> set v \<and> \<not> has_dotdot v"

definition validatePlanSetName :: "string \<Rightarrow> bool" where
  "validatePlanSetName n \<longleftrightarrow>
     n \<noteq> [] \<and> n \<noteq> ''unnamed'' \<and> \<not> has_dotdot n \<and> CHR 0x5C \<notin> set n \<and> CHR ''/'' \<notin> set n"

definition ref_forbidden :: "char \<Rightarrow> bool" where
  "ref_forbidden c \<longleftrightarrow> (of_char c :: nat) \<le> 32 \<or> c \<in> set ''~^:?*[{}@'' \<or> c = CHR 0x5C"

definition validateResumeGitRefName :: "string \<Rightarrow> bool" where
  "validateResumeGitRefName n \<longleftrightarrow>
     \<not> (n \<noteq> [] \<and> (hd n = CHR ''.'' \<or> hd n = CHR ''-'' \<or> last n = CHR ''.'')) \<and>
     \<not> list_ex ref_forbidden n \<and>
     \<not> begins (rev ''.lock'') (rev n) \<and> \<not> has_dotdot n"

record prepare_options =
  po_prdId :: prd_id
  po_setName :: "string option"
  po_profileOverride :: "string option"
  po_checkEligibility :: "bool option"

text \<open>The sidecar's summary counts when it is about the requested plan set.\<close>

definition metadata_from ::
    "apply_env \<Rightarrow> prepare_options \<Rightarrow> string \<Rightarrow> summary_identity option \<Rightarrow> queued_metadata" where
  "metadata_from env opt setName sidecarSummary =
     (let canUse = (po_setName opt = None \<or> nonEmpty (Option.bind sidecarSummary si_setName) = Some setName);
          matching = (if canUse then sidecarSummary else None);
          summary = or_else (ap_summary env setName (po_prdId opt)) matching;
          feature = or_else (nonEmpty (Option.bind matching si_featureBranch)) (nonEmpty (Option.bind summary si_featureBranch));
          base = or_else (or_else (nonEmpty (Option.bind matching si_baseBranch)) (nonEmpty (Option.bind summary si_baseBranch)))
                   (ap_trunk env)
      in \<lparr>qm_prdId = po_prdId opt, qm_setName = setName,
          qm_featureBranch = (case feature of None \<Rightarrow> ''eforge/'' @ setName | Some b \<Rightarrow> b),
          qm_baseBranch = (case base of None \<Rightarrow> ''main'' | Some b \<Rightarrow> b)\<rparr>)"

definition readResumeSetName :: "prd_id \<Rightarrow> sidecar_projection option \<Rightarrow> string" where
  "readResumeSetName i projection =
     (case nonEmpty (Option.bind projection pj_setName) of None \<Rightarrow> i | Some n \<Rightarrow> n)"

definition resume_set_name :: "apply_env \<Rightarrow> prepare_options \<Rightarrow> world \<Rightarrow> (string, string) result" where
  "resume_set_name env opt w =
     (case po_setName opt of
        Some n \<Rightarrow> Inr n
      | None \<Rightarrow> (case ap_projection env (po_prdId opt) w of
                   Inl e \<Rightarrow> Inl e
                 | Inr projection \<Rightarrow> Inr (readResumeSetName (po_prdId opt) projection)))"

definition resolveQueuedCompiledResumeMetadata ::
    "apply_env \<Rightarrow> prepare_options \<Rightarrow> world \<Rightarrow> (string, queued_metadata) result" where
  "resolveQueuedCompiledResumeMetadata env opt w =
     (if \<not> assertSafePathSegment (po_prdId opt) then Inl ''Invalid prdId''
      else case resume_set_name env opt w of
             Inl e \<Rightarrow> Inl e
           | Inr setName \<Rightarrow>
               if \<not> validatePlanSetName setName then Inl ''Invalid plan set name''
               else if \<not> validateResumeGitRefName setName then Inl ''Invalid setName''
               else (case ap_projection env (po_prdId opt) w of
                       Inl e \<Rightarrow> Inl e
                     | Inr projection \<Rightarrow> Inr (metadata_from env opt setName (Option.bind projection pj_summary))))"

datatype prepared = Prepared requeue_result "guidance option" | PrepareBlocked refusal "guidance option"

definition requeue_options_of :: "prepare_options \<Rightarrow> queued_metadata \<Rightarrow> requeue_opts" where
  "requeue_options_of opt m =
     \<lparr>ro_prdId = qm_prdId m, ro_setName = qm_setName m, ro_featureBranch = qm_featureBranch m,
      ro_baseBranch = qm_baseBranch m, ro_profileOverride = po_profileOverride opt\<rparr>"

text \<open>The reason the compiled work is not eligible, when that is checked.\<close>

definition check_eligibility ::
    "apply_env \<Rightarrow> prepare_options \<Rightarrow> queued_metadata \<Rightarrow> world \<Rightarrow> (string, string option) result" where
  "check_eligibility env opt m w =
     (if po_checkEligibility opt = Some False then Inr None else ap_eligibility env m w)"

definition requeue_prepared ::
    "apply_env \<Rightarrow> prepare_options \<Rightarrow> queued_metadata \<Rightarrow> guidance \<Rightarrow> world \<Rightarrow> prepared apply_act" where
  "requeue_prepared env opt m g w =
     (case requeueFailedPrdForCompiledResume (ap_resume env) (requeue_options_of opt m) w of
        (w1, None) \<Rightarrow> (w1, Inl (ApplyThrown ''requeue failed''))
      | (w1, Some (RequeueBlocked r)) \<Rightarrow> (w1, Inr (PrepareBlocked (RefusalQueue r) (Some g)))
      | (w1, Some r) \<Rightarrow> (w1, Inr (Prepared r (Some g))))"

definition prepareFailedPrdForQueuedCompiledResume ::
    "apply_env \<Rightarrow> prepare_options \<Rightarrow> world \<Rightarrow> prepared apply_act" where
  "prepareFailedPrdForQueuedCompiledResume env opt w =
     (case resolveQueuedCompiledResumeMetadata env opt w of
        Inl e \<Rightarrow> (w, Inl (ApplyThrown e))
      | Inr m \<Rightarrow>
          (case check_eligibility env opt m w of
             Inl e \<Rightarrow> (w, Inl (ApplyThrown e))
           | Inr (Some reason) \<Rightarrow> (w, Inr (PrepareBlocked (RefusalText reason) None))
           | Inr None \<Rightarrow>
               (case ap_guidance env (qm_prdId m) (Some m) w of
                  (w1, Inl message) \<Rightarrow>
                    (w1, Inr (PrepareBlocked (RefusalText (''Recovery guidance could not be prepared: '' @ message)) None))
                | (w1, Inr g) \<Rightarrow>
                    (case recoveryGuidanceResumeBlocker g of
                       Some b \<Rightarrow> (w1, Inr (PrepareBlocked (RefusalText b) (Some g)))
                     | None \<Rightarrow> requeue_prepared env opt m g w1))))"

datatype repair_status = RepairQueued | RepairAlreadyQueued

record repair_applied =
  ra_commitSha :: string
  ra_status :: repair_status
  ra_detail :: string

definition repair_applied_of :: "requeue_result \<Rightarrow> guidance option \<Rightarrow> repair_applied" where
  "repair_applied_of r g =
     (let st = (if r = AlreadyQueued then RepairAlreadyQueued else RepairQueued)
      in \<lparr>ra_commitSha = (case g of None \<Rightarrow> [] | Some g \<Rightarrow> commit_of g), ra_status = st,
          ra_detail = (if st = RepairAlreadyQueued then ''Continue-and-repair was already queued.''
                       else ''Continue-and-repair queued.'') @
                      (case Option.bind g guidance_detail of None \<Rightarrow> [] | Some t \<Rightarrow> '' '' @ t)\<rparr>)"

definition applyRecoveryContinueRepair :: "apply_env \<Rightarrow> prd_id \<Rightarrow> world \<Rightarrow> repair_applied apply_act" where
  "applyRecoveryContinueRepair env i w =
     (case assertNoConflictingAppliedMarker i ''continue-repair'' w of
        Some e \<Rightarrow> (w, Inl e)
      | None \<Rightarrow>
          thenDo (prepareFailedPrdForQueuedCompiledResume env
              \<lparr>po_prdId = i, po_setName = None, po_profileOverride = None, po_checkEligibility = None\<rparr> w)
            (\<lambda>p w1. case p of
                PrepareBlocked reason _ \<Rightarrow> (w1, Inl (ApplyConflict reason))
              | Prepared r g \<Rightarrow>
                  thenDo (writeRecoveryAppliedMetadata env i ''continue-repair'' w1) (\<lambda>_ w2.
                    (w2, Inr (repair_applied_of r g)))))"

section \<open>The route\<close>

text \<open>
  The answer of the daemon: the verdict applied, 409 with the reason, or 500. \<open>readRecoveryVerdictForApply\<close>
  gives the verdict of the sidecar or its own answer.
\<close>

datatype apply_response =
    AppliedRetry string "string option"
  | AppliedRepair repair_applied
  | AppliedAbandon string
  | AppliedManual
  | Response409 refusal
  | Response500 apply_error
  | Response500Unknown
  | ResponseOther nat

definition answer_conflicts :: "('a \<Rightarrow> apply_response) \<Rightarrow> 'a apply_act \<Rightarrow> world \<times> apply_response" where
  "answer_conflicts ok r =
     (case r of
        (w, Inr x) \<Rightarrow> (w, ok x)
      | (w, Inl (ApplyConflict c)) \<Rightarrow> (w, Response409 c)
      | (w, Inl e) \<Rightarrow> (w, Response500 e))"

definition answer_errors :: "('a \<Rightarrow> apply_response) \<Rightarrow> 'a apply_act \<Rightarrow> world \<times> apply_response" where
  "answer_errors ok r = (case r of (w, Inr x) \<Rightarrow> (w, ok x) | (w, Inl e) \<Rightarrow> (w, Response500 e))"

definition applyRecovery_route :: "apply_env \<Rightarrow> (nat, recovery_kind) result \<Rightarrow> prd_id \<Rightarrow> world \<Rightarrow> world \<times> apply_response" where
  "applyRecovery_route env verdict i w =
     (case verdict of
        Inl http_status \<Rightarrow> (w, ResponseOther http_status)
      | Inr RkRetry \<Rightarrow> answer_conflicts (\<lambda>(c, t). AppliedRetry c t) (applyRecoveryRetry env i w)
      | Inr RkContinueRepair \<Rightarrow> answer_conflicts AppliedRepair (applyRecoveryContinueRepair env i w)
      | Inr RkAbandon \<Rightarrow> answer_errors AppliedAbandon (applyRecoveryAbandon env i w)
      | Inr RkManual \<Rightarrow> answer_errors (\<lambda>_. AppliedManual) (applyRecoveryManual i w)
      | Inr RkSplit \<Rightarrow> (w, Response500Unknown))"

section \<open>The move of a retry\<close>

definition held :: "qloc \<Rightarrow> prd_id \<Rightarrow> qdisk \<Rightarrow> md_file option" where
  "held l i d = dget (entries l d) i"

lemma held_file_exists: "file_exists l i d \<longleftrightarrow> held l i d \<noteq> None"
  by (simp add: file_exists_def ids_in_def held_def dget_None_iff)

lemma held_mkdirp [simp]: "held l i (mkdirp l' d) = held l i d"
  by (simp add: held_def mkdirp_def)

lemma held_set_dir: "held l i (set_dir l' (Some es) d) = (if l = l' then dget es i else held l i d)"
  by (simp add: held_def)

lemma dget_snoc: "dget (es @ [(i, f)]) j = (case dget es j of None \<Rightarrow> if j = i then Some f else None | Some g \<Rightarrow> Some g)"
  by (simp add: map_add_def split: option.splits)

lemma held_rm_force: "held l i (rm_force l' j d) = (if l = l' \<and> i = j then None else held l i d)"
  by (cases "dir_of l' d") (auto simp: rm_force_def held_set_dir held_def entries_def)

lemmas held_simps = held_set_dir held_rm_force dget_snoc held_def [symmetric] held_file_exists

text \<open>A move that works takes the file over; one that fails leaves the source, and adds at most the
  link it could not undo.\<close>

lemma move_ok:
  assumes "move_failed_to_root env i d = (d', None)"
  shows "\<exists>f. held FailedDir i d = Some f \<and> held RootDir i d = None \<and>
    (\<forall>l j. held l j d' =
       (if j = i \<and> l = FailedDir then None else if j = i \<and> l = RootDir then Some f else held l j d))"
  using assms
  by (auto simp: move_failed_to_root_def Let_def held_simps simp del: map_of_append
      split: option.splits if_splits)

lemma move_failed:
  assumes "move_failed_to_root env i d = (d', Some e)"
  shows "\<forall>l j. held l j d' = held l j d \<or>
    (l = RootDir \<and> j = i \<and> held RootDir i d = None \<and> held RootDir i d' = held FailedDir i d \<and> ap_undo env = Some e)"
  using assms
  by (auto simp: move_failed_to_root_def Let_def held_simps simp del: map_of_append
      split: option.splits if_splits)

section \<open>What an applied verdict leaves\<close>

text \<open>The queue of \<open>v\<close> in \<open>w\<close>: the other PRDs are where they were, a file of PRD \<open>i\<close> in the root is not
  touched, and the failed one is still there, or its text is in the root.\<close>

definition prd_kept :: "prd_id \<Rightarrow> world \<Rightarrow> world \<Rightarrow> bool" where
  "prd_kept i v w \<longleftrightarrow>
     (\<forall>l j. j \<noteq> i \<longrightarrow> held l j (w_disk w) = held l j (w_disk v)) \<and>
     (held RootDir i (w_disk v) \<noteq> None \<longrightarrow> held RootDir i (w_disk w) = held RootDir i (w_disk v)) \<and>
     (held FailedDir i (w_disk v) = held FailedDir i (w_disk w) \<or>
      held FailedDir i (w_disk v) = held RootDir i (w_disk w) \<and> held FailedDir i (w_disk w) = None)"

definition prd_requeued :: "prd_id \<Rightarrow> world \<Rightarrow> world \<Rightarrow> bool" where
  "prd_requeued i v w \<longleftrightarrow>
     held FailedDir i (w_disk v) \<noteq> None \<and> held RootDir i (w_disk v) = None \<and>
     held RootDir i (w_disk w) = held FailedDir i (w_disk v) \<and> held FailedDir i (w_disk w) = None \<and>
     i \<notin> set (w_md w) \<and> dget (w_json w) i = None"

lemma thenDo_cases:
  "thenDo m k = (w', r) \<longleftrightarrow>
     (\<exists>e. m = (w', Inl e) \<and> r = Inl e) \<or> (\<exists>w1 x. m = (w1, Inr x) \<and> k x w1 = (w', r))"
  by (auto simp: thenDo_def split: prod.splits sum.splits)

lemma rm_failed_cases:
  "rm_failed env s i w = (w', r) \<Longrightarrow>
   (\<exists>e. r = Inl (ApplyThrown e) \<and> w' = w) \<or>
   r = Inr () \<and> w' = (case s of SidecarMd \<Rightarrow> w\<lparr>w_md := removeAll i (w_md w)\<rparr>
     | SidecarJson \<Rightarrow> w\<lparr>w_json := ddel i (w_json w)\<rparr> | FailedPrd \<Rightarrow> on_disk (rm_force FailedDir i) w)"
  by (auto simp: rm_failed_def split: option.splits)

lemma prd_kept_refl [simp]: "prd_kept i w w"
  by (simp add: prd_kept_def)

lemma requeue_for_retry_kept:
  assumes "requeue_for_retry env i g w = (w', r)"
  shows "prd_kept i w w' \<and> (case r of Inr _ \<Rightarrow> prd_requeued i w w' | Inl _ \<Rightarrow> True)"
proof (cases "move_failed_to_root env i (w_disk w)")
  case (Pair d err)
  show ?thesis
  proof (cases err)
    case None
    from move_ok [OF Pair [unfolded None]] obtain f where
      "held FailedDir i (w_disk w) = Some f" "held RootDir i (w_disk w) = None"
      "\<forall>l j. held l j d =
         (if j = i \<and> l = FailedDir then None else if j = i \<and> l = RootDir then Some f else held l j (w_disk w))" by blast
    with assms Pair None show ?thesis
      by (auto simp: requeue_for_retry_def thenDo_cases prd_kept_def prd_requeued_def dest!: rm_failed_cases)
  next
    case (Some e)
    from move_failed [OF Pair [unfolded Some]] assms Pair Some show ?thesis
      by (auto simp: requeue_for_retry_def prd_kept_def) metis+
  qed
qed

lemma prepareRetry_world: "fst (prepareRetryRecoveryGuidance env i w) = fst (ap_guidance env i None w)"
  by (auto simp: prepareRetryRecoveryGuidance_def split: prod.splits sum.splits option.splits)

text \<open> C15. A retry never loses a PRD and never overwrites a queued one, whatever error the file system
  returns and whatever happens to the queue while the guidance is prepared. When it answers a
  result, the failed file (as it was after the guidance) is in the root, where there was none,
  with the same text, and both sidecars are gone. When it answers an error, the file is still in
  \<open>failed\<close> or its text is in the root, a file of the root is what it was, and in no case is
  another PRD touched.\<close>

theorem retry_moves_or_keeps:
  assumes run: "applyRecoveryRetry env i w = (w', r)"
  shows "case r of
      Inr _ \<Rightarrow> prd_kept i (fst (ap_guidance env i None w)) w' \<and> prd_requeued i (fst (ap_guidance env i None w)) w'
    | Inl _ \<Rightarrow> prd_kept i w w' \<or> prd_kept i (fst (ap_guidance env i None w)) w'"
proof -
  let ?w1 = "fst (ap_guidance env i None w)"
  consider (early) e where "r = Inl e" "w' = w"
    | (guided) e where "r = Inl e" "w' = ?w1"
    | (moved) g where "requeue_for_retry env i g ?w1 = (w', r)"
    using run prepareRetry_world [of env i w]
    by (auto simp: applyRecoveryRetry_def thenDo_cases split: option.splits)
  then show ?thesis
  proof cases
    case (moved g)
    from requeue_for_retry_kept [OF this] show ?thesis by (auto split: sum.splits)
  qed auto
qed

section \<open>Markers\<close>

text \<open>The action a verdict applies; \<open>manual\<close> applies none.\<close>

definition action_of :: "recovery_kind \<Rightarrow> string option" where
  "action_of k =
     (case k of RkRetry \<Rightarrow> Some ''retry'' | RkContinueRepair \<Rightarrow> Some ''continue-repair'' | RkAbandon \<Rightarrow> Some ''abandon''
      | _ \<Rightarrow> None)"

definition refused :: "apply_response \<Rightarrow> bool" where
  "refused x \<longleftrightarrow> (case x of Response409 _ \<Rightarrow> True | Response500 _ \<Rightarrow> True | _ \<Rightarrow> False)"

lemma conflicting_marker:
  assumes "readRawAppliedAction i w = Some a" and "a \<noteq> action"
  shows "\<exists>t. assertNoConflictingAppliedMarker i action w = Some (ApplyConflict (RefusalText t))"
  using assms by (simp add: assertNoConflictingAppliedMarker_def)

text \<open>An action that was applied to a PRD is not overwritten by another: when the sidecar carries the
  marker of an action (also of one this route does not know, such as an accepted success), applying
  a verdict of another action is refused and leaves the queue, the locks and the sidecars as they
  are.\<close>

theorem applied_action_stands:
  assumes marked: "readRawAppliedAction i w = Some a"
    and other: "action_of verdict = Some action" "a \<noteq> action"
  shows "fst (applyRecovery_route env (Inr verdict) i w) = w \<and>
    refused (snd (applyRecovery_route env (Inr verdict) i w))"
proof -
  obtain t where t: "assertNoConflictingAppliedMarker i action w = Some (ApplyConflict (RefusalText t))"
    using conflicting_marker [OF marked other(2)] by blast
  with other(1) show ?thesis
    by (cases verdict)
      (auto simp: action_of_def applyRecovery_route_def answer_conflicts_def answer_errors_def refused_def
        applyRecoveryRetry_def applyRecoveryContinueRepair_def applyRecoveryAbandon_def)
qed

section \<open>Examples and findings\<close>

definition demo_apply :: apply_env where
  "demo_apply =
     \<lparr>ap_mkdir = None, ap_link = None, ap_unlink = None, ap_undo = None, ap_rm = (\<lambda>_. None), ap_write = None,
      ap_guidance = (\<lambda>i m w. (w, Inr \<lparr>gd_plans = [\<lparr>gp_planId = ''p'', gp_status = PatchPatched, gp_reason = None\<rparr>],
                                     gd_commitSha = Some ''c0ffee''\<rparr>)),
      ap_projection = (\<lambda>i w. Inr None), ap_summary = (\<lambda>s i. None), ap_eligibility = (\<lambda>m w. Inr None),
      ap_trunk = None, ap_resume = demo_resume_env (\<lambda>s t j. False)\<rparr>"

definition demo_marked :: "string option \<Rightarrow> world" where
  "demo_marked a = demo_failed\<lparr>w_json := [(''a'', \<lparr>sc_rationale = [], sc_appliedAction = a, sc_autoResume = False\<rparr>)]\<rparr>"

theorem retry_moves_or_keeps_witness:
  "prd_requeued ''a'' (demo_marked None) (fst (applyRecoveryRetry demo_apply ''a'' (demo_marked None)))"
proof -
  let ?r = "applyRecoveryRetry demo_apply ''a'' (demo_marked None)"
  have "(case snd ?r of Inr _ \<Rightarrow> True | Inl _ \<Rightarrow> False)" by code_simp
  then obtain x where "snd ?r = Inr x" by (cases "snd ?r") auto
  then have "?r = (fst ?r, Inr x)" by (metis prod.collapse)
  from retry_moves_or_keeps [OF this] show ?thesis by (simp add: demo_apply_def)
qed

theorem applied_action_stands_witness:
  "fst (applyRecovery_route demo_apply (Inr RkRetry) ''a'' (demo_marked (Some ''accepted-success''))) =
     demo_marked (Some ''accepted-success'')"
  using applied_action_stands [of "''a''" "demo_marked (Some ''accepted-success'')" "''accepted-success''" RkRetry "''retry''" demo_apply]
  by (simp add: readRawAppliedAction_def demo_marked_def action_of_def)

text \<open>A repair applied to a failed PRD queues it, with its marker; applied again it finds it queued.\<close>

lemma repair_twice:
  "(let (w1, r1) = applyRecoveryContinueRepair demo_apply ''a'' (demo_marked None);
        (w2, r2) = applyRecoveryContinueRepair demo_apply ''a'' w1
    in (case r1 of Inr x \<Rightarrow> ra_status x = RepairQueued | _ \<Rightarrow> False) \<and>
       (case r2 of Inr x \<Rightarrow> ra_status x = RepairAlreadyQueued | _ \<Rightarrow> False) \<and>
       readRawAppliedAction ''a'' w1 = Some ''continue-repair'' \<and>
       w_disk w2 = w_disk w1)"
  by code_simp

text \<open>The same conflict is answered with 409 for a retry and with 500 for an abandonment.\<close>

lemma abandon_conflict_is_500:
  "(case snd (applyRecovery_route demo_apply (Inr RkRetry) ''a'' (demo_marked (Some ''accepted-success''))) of
      Response409 _ \<Rightarrow> True | _ \<Rightarrow> False)"
  "(case snd (applyRecovery_route demo_apply (Inr RkAbandon) ''a'' (demo_marked (Some ''accepted-success''))) of
      Response500 (ApplyConflict _) \<Rightarrow> True | _ \<Rightarrow> False)"
  by code_simp+

text \<open>An error after the move is reported although the PRD is queued again.\<close>

lemma retry_error_after_requeue:
  "(let (w', r) = applyRecoveryRetry (demo_apply\<lparr>ap_rm := (\<lambda>_. Some ''EACCES'')\<rparr>) ''a'' (demo_marked None)
    in (case r of Inl (ApplyThrown _) \<Rightarrow> True | _ \<Rightarrow> False) \<and> file_exists RootDir ''a'' (w_disk w'))"
  by code_simp

end
