(* ===== verification/AutoResume.thy ===== *)
theory AutoResume
  imports RecoveryApply Acceptance
begin

text \<open>
  The guarded automatic resume of a failed build (\<open>packages/monitor/src/recovery-auto-resume.ts\<close>): the
  daemon applies a repair without a human when every guard lets it pass, and remembers in the
  sidecar how often it has tried and what the failure was. The guards only read, so they are a
  list of answers of which the first that decides counts. The lemmas show what an automatic
  resume presupposes and that the number of attempts is bounded.
\<close>

section \<open>The state in the sidecar\<close>

text \<open>\<open>None\<close> is a field that is missing or of another type; an attempt count is an integer.\<close>

record auto_state =
  as_attempts :: "int option"
  as_lastFailureSignature :: "string option"
  as_lastProgressMarker :: "string option"
  as_lastAttemptAt :: "string option"

record auto_world =
  aw_world :: world
  aw_auto :: "(prd_id \<times> auto_state) list"

definition readAutoResumeState :: "auto_state option \<Rightarrow> auto_state" where
  "readAutoResumeState sidecar =
     (case sidecar of
        None \<Rightarrow> \<lparr>as_attempts = None, as_lastFailureSignature = None, as_lastProgressMarker = None, as_lastAttemptAt = None\<rparr>
      | Some raw \<Rightarrow> raw\<lparr>as_attempts := Some (case as_attempts raw of None \<Rightarrow> 0 | Some n \<Rightarrow> if n \<ge> 0 then n else 0)\<rparr>)"

definition attempts_of :: "auto_state \<Rightarrow> int" where
  "attempts_of s = (case as_attempts s of None \<Rightarrow> 0 | Some n \<Rightarrow> n)"

definition non_empty_text :: "string option \<Rightarrow> bool" where
  "non_empty_text t = (case t of None \<Rightarrow> False | Some x \<Rightarrow> x \<noteq> [])"

definition hasValidPriorMarkers :: "auto_state \<Rightarrow> bool" where
  "hasValidPriorMarkers s \<longleftrightarrow> non_empty_text (as_lastProgressMarker s) \<and> non_empty_text (as_lastFailureSignature s)"

section \<open>Markers of progress and of the failure\<close>

record stable_failure =
  sf_planId :: "string option"
  sf_stage :: "string option"
  sf_scope :: "string option"
  sf_errorMessage :: "string option"
  sf_message :: "string option"
  sf_terminalSubtype :: "string option"
  sf_subtype :: "string option"

record stable_terminal =
  st_stage :: "string option"
  st_scope :: "string option"
  st_subtype :: "string option"
  st_terminalSubtype :: "string option"
  st_sourceEventType :: "string option"
  st_sourceEvent :: "string option"
  st_message :: "string option"
  st_errorMessage :: "string option"

record bounded_evidence =
  be_commits :: "string option list option"
  be_diffStat :: "string option"
  be_failingPlan :: "stable_failure option"
  be_failingPlans :: "stable_failure list option"
  be_terminalFailure :: "stable_terminal option"

text \<open>\<open>JSON.stringify\<close> of an object whose values are rendered already; an undefined one is left out.\<close>

definition json_object :: "(string \<times> string option) list \<Rightarrow> string" where
  "json_object kvs =
     ''{'' @ join_with '','' (concat (map (\<lambda>(k, v). case v of None \<Rightarrow> [] | Some t \<Rightarrow> [json_stringify k @ '':'' @ t]) kvs)) @ ''}''"

definition text_field :: "string \<Rightarrow> string option \<Rightarrow> string \<times> string option" where
  "text_field k v = (k, map_option json_stringify v)"

definition buildProgressMarker :: "bounded_evidence \<Rightarrow> string" where
  "buildProgressMarker e =
     (let commits = (case be_commits e of None \<Rightarrow> []
            | Some cs \<Rightarrow> join_with '','' (filter (\<lambda>s. s \<noteq> []) (map (\<lambda>c. case c of None \<Rightarrow> [] | Some s \<Rightarrow> s) cs)))
      in json_object [text_field ''commits'' (Some commits),
           text_field ''diffStat'' (or_else (be_diffStat e) (Some []))])"

definition stableFailure :: "stable_failure \<Rightarrow> string" where
  "stableFailure f =
     json_object [text_field ''planId'' (sf_planId f), text_field ''stage'' (sf_stage f), text_field ''scope'' (sf_scope f),
       text_field ''terminalSubtype'' (or_else (sf_terminalSubtype f) (sf_subtype f)),
       text_field ''errorMessage'' (or_else (sf_errorMessage f) (sf_message f))]"

definition stableTerminal :: "stable_terminal \<Rightarrow> string" where
  "stableTerminal t =
     json_object [text_field ''stage'' (st_stage t), text_field ''scope'' (st_scope t),
       text_field ''subtype'' (or_else (st_subtype t) (st_terminalSubtype t)),
       text_field ''sourceEventType'' (or_else (st_sourceEventType t) (st_sourceEvent t)),
       text_field ''message'' (or_else (st_message t) (st_errorMessage t))]"

definition buildFailureSignature :: "bounded_evidence \<Rightarrow> string" where
  "buildFailureSignature e =
     (let failures = (case be_failingPlans e of Some fs \<Rightarrow> fs
            | None \<Rightarrow> (case be_failingPlan e of Some f \<Rightarrow> [f] | None \<Rightarrow> []))
      in json_object
           [(''failures'', Some (''['' @ join_with '','' (map stableFailure failures) @ '']'')),
            (''terminalFailure'', Some (case be_terminalFailure e of None \<Rightarrow> ''null'' | Some t \<Rightarrow> stableTerminal t))])"

section \<open>The worktree\<close>

fun split_nul :: "string \<Rightarrow> string \<Rightarrow> string list" where
  "split_nul acc [] = [rev acc]"
| "split_nul acc (c # cs) = (if c = CHR 0x00 then rev acc # split_nul [] cs else split_nul (c # acc) cs)"

definition renamed :: "string \<Rightarrow> bool" where
  "renamed entry \<longleftrightarrow> entry ! 0 \<in> {CHR ''R'', CHR ''C''} \<or> entry ! 1 \<in> {CHR ''R'', CHR ''C''}"

fun porcelain_paths :: "string list \<Rightarrow> string list" where
  "porcelain_paths [] = []"
| "porcelain_paths [e] = (if length e < 4 then [] else [drop 3 e])"
| "porcelain_paths (e # original # es) =
     (if length e < 4 then porcelain_paths (original # es)
      else if renamed e then drop 3 e # original # porcelain_paths es
      else drop 3 e # porcelain_paths (original # es))"

definition parsePorcelainZPaths :: "string \<Rightarrow> string list" where
  "parsePorcelainZPaths output = porcelain_paths (filter (\<lambda>e. e \<noteq> []) (split_nul [] output))"

text \<open>\<open>^dir/failed/[^/]+\.(?:md|recovery\.json|recovery\.md)$\<close>.\<close>

definition ends_in :: "string \<Rightarrow> string \<Rightarrow> bool" where
  "ends_in suffix s \<longleftrightarrow> length suffix < length s \<and> begins (rev suffix) (rev s)"

definition isAllowedFailedSidecarPath :: "string \<Rightarrow> string \<Rightarrow> bool" where
  "isAllowedFailedSidecarPath queueDir path =
     (let folder = queueDir @ ''/failed/''; name = drop (length folder) path
      in begins folder path \<and> CHR ''/'' \<notin> set name \<and>
         (ends_in ''.md'' name \<or> ends_in ''.recovery.json'' name \<or> ends_in ''.recovery.md'' name))"

section \<open>Answers and errors\<close>

datatype stop_reason =
    StopBudget | StopNotRepair | StopNotHigh | StopNotEligible | StopManual | StopPartial | StopMalformed
  | StopMissing | StopIneligible | StopDirty | StopConflicting | StopQueue | StopMarker | StopGate | StopRepeated | StopError

datatype auto_error = ErrMissing | ErrSidecarRead string | ErrConflict refusal | ErrThrown string

datatype auto_event =
    AutoEvaluated int
  | AutoStopped stop_reason int
  | AutoQueuedEvent int

datatype auto_outcome =
    AutoQueued int string
  | AutoStop stop_reason "string option" int
  | AutoSkipped

text \<open>The sidecar as \<open>readRecoverySidecarProjection\<close> returns it.\<close>

record auto_projection =
  ax_setName :: string
  ax_verdict :: recovery_kind
  ax_confidence :: confidence
  ax_verdictPartial :: "bool option"
  ax_summaryPartial :: "bool option"
  ax_identityPartial :: "bool option"
  ax_featureBranch :: string
  ax_baseBranch :: string
  ax_eligibility :: "repair_eligibility option"
  ax_evidence :: bounded_evidence

text \<open>
  \<open>ae_unmerged\<close> and \<open>ae_status\<close> are the outputs of the two git commands, \<open>ae_policyGate\<close> and
  \<open>ae_eligibility\<close> the reason a policy gate or the compiled work blocks the resume; \<open>Inl\<close> is a thrown
  error. \<open>ae_active\<close> says whether the watcher is still active when asked for the first and the second
  time.
\<close>

record auto_env =
  ae_enabled :: bool
  ae_maxAttempts :: int
  ae_configured :: bool
  ae_queueDir :: string
  ae_rawError :: "string option"
  ae_projection :: "world \<Rightarrow> (auto_error, auto_projection) result"
  ae_paused :: "(bool \<times> bool) option"
  ae_unmerged :: "(string, string) result"
  ae_status :: "(string, string) result"
  ae_policyGate :: "auto_projection \<Rightarrow> world \<Rightarrow> (string, string option) result"
  ae_eligibility :: "auto_projection \<Rightarrow> world \<Rightarrow> (string, string option) result"
  ae_active :: "bool \<times> bool"
  ae_now :: string
  ae_writeState :: "string option"
  ae_moveError :: string
  ae_apply :: apply_env

text \<open>The reasons a requeue gives; the last ones are not answers of a requeue.\<close>

fun queue_reason_text :: "string \<Rightarrow> prd_id \<Rightarrow> resume_reason \<Rightarrow> string" where
  "queue_reason_text e i UnsafeResumeId =
     (if i \<in> {[], ''.'', ''..''} then ''PRD id must be a non-empty queue filename segment.''
      else ''PRD id must not contain path separators, traversal, or NUL bytes.'')"
| "queue_reason_text e i RootConflict = ''Queue root already contains '' @ i @ ''.md without matching compiled-resume metadata.''"
| "queue_reason_text e i NoFailedPrd = ''No failed queue PRD found for continue-and-repair requeue.''"
| "queue_reason_text e i (SourceMissing j) = ''Queue resume source is missing: '' @ j @ ''.md''"
| "queue_reason_text e i (TargetExists j) = ''Queue resume target already exists: '' @ j @ ''.md''"
| "queue_reason_text e i MoveFailed = ''Continue-and-repair requeue blocked: '' @ e"
| "queue_reason_text e i _ = []"

definition refusal_text :: "string \<Rightarrow> prd_id \<Rightarrow> refusal \<Rightarrow> string" where
  "refusal_text e i r = (case r of RefusalText t \<Rightarrow> t | RefusalQueue q \<Rightarrow> queue_reason_text e i q)"

definition error_text :: "string \<Rightarrow> prd_id \<Rightarrow> auto_error \<Rightarrow> string" where
  "error_text e i err =
     (case err of ErrMissing \<Rightarrow> ''ENOENT'' | ErrSidecarRead t \<Rightarrow> t | ErrConflict r \<Rightarrow> refusal_text e i r | ErrThrown t \<Rightarrow> t)"

definition mentions :: "string list \<Rightarrow> string \<Rightarrow> bool" where
  "mentions words t \<longleftrightarrow> list_ex (\<lambda>p. has_infix p (map lower_ascii t)) words"

definition classifyResumeError :: "string \<Rightarrow> prd_id \<Rightarrow> auto_error \<Rightarrow> stop_reason" where
  "classifyResumeError e i err =
     (case err of
        ErrMissing \<Rightarrow> StopMissing
      | ErrSidecarRead _ \<Rightarrow> StopMalformed
      | ErrConflict r \<Rightarrow>
          (let t = refusal_text e i r in
           if mentions [''applied marker'', ''already applied''] t then StopMarker
           else if mentions [''policy gate'', ''approval'', ''hold'', ''held''] t then StopGate
           else if mentions [''eligible'', ''artifact''] t then StopIneligible
           else StopQueue)
      | ErrThrown t \<Rightarrow> if mentions [''sidecar''] t then StopMalformed else StopError)"

definition of_apply_error :: "apply_error \<Rightarrow> auto_error" where
  "of_apply_error err =
     (case err of ApplyConflict r \<Rightarrow> ErrConflict r
      | ApplyThrown t \<Rightarrow> if t = ''ENOENT'' then ErrMissing else ErrThrown t)"

section \<open>Guards\<close>

text \<open>A guard passes, stops with a reason, or throws; the first that does not pass decides.\<close>

type_synonym guard = "(auto_error, (stop_reason \<times> string option) option) result"

abbreviation pass :: guard where
  "pass \<equiv> Inr None"

definition stop_if :: "bool \<Rightarrow> stop_reason \<Rightarrow> guard" where
  "stop_if b reason = (if b then Inr (Some (reason, None)) else pass)"

definition blocked_by :: "stop_reason \<Rightarrow> string option \<Rightarrow> guard" where
  "blocked_by reason t = (case t of None \<Rightarrow> pass | Some m \<Rightarrow> Inr (Some (reason, Some m)))"

definition or_thrown :: "(string, 'a) result \<Rightarrow> ('a \<Rightarrow> guard) \<Rightarrow> guard" where
  "or_thrown r k = (case r of Inl e \<Rightarrow> Inl (ErrThrown e) | Inr x \<Rightarrow> k x)"

fun first_stop :: "guard list \<Rightarrow> guard" where
  "first_stop [] = pass"
| "first_stop (g # gs) = (case g of Inr None \<Rightarrow> first_stop gs | _ \<Rightarrow> g)"

definition verdict_guard :: "auto_projection \<Rightarrow> guard" where
  "verdict_guard p =
     (if ax_verdict p \<noteq> RkContinueRepair
      then Inr (Some (if ax_verdict p \<in> {RkManual, RkRetry, RkAbandon} then StopManual else StopNotRepair, None))
      else pass)"

definition eligibility_guard :: "auto_projection \<Rightarrow> guard" where
  "eligibility_guard p =
     (case ax_eligibility p of
        None \<Rightarrow> Inr (Some (StopNotEligible, Some ''Recovery sidecar does not contain continue-and-repair artifact eligibility.''))
      | Some e \<Rightarrow>
          if \<not> el_eligible e then Inr (Some (StopIneligible, el_reason e))
          else stop_if (el_partial e = Some True) StopPartial)"

definition autoBuildPausePreflight :: "auto_env \<Rightarrow> string option" where
  "autoBuildPausePreflight env =
     (case ae_paused env of None \<Rightarrow> None
      | Some (mode_paused, scheduler_paused) \<Rightarrow>
          if mode_paused \<or> scheduler_paused then Some ''Auto-build scheduler is paused.'' else None)"

definition worktreePreflight :: "auto_env \<Rightarrow> guard" where
  "worktreePreflight env =
     or_thrown (ae_unmerged env) (\<lambda>unmerged.
       if trim unmerged \<noteq> [] then Inr (Some (StopConflicting, Some ''Worktree has unmerged/conflicting paths.''))
       else or_thrown (ae_status env) (\<lambda>status.
         if filter (\<lambda>p. \<not> isAllowedFailedSidecarPath (ae_queueDir env) p) (parsePorcelainZPaths status) \<noteq> []
         then Inr (Some (StopDirty, Some ''Worktree has uncommitted changes outside the failed recovery sidecar.''))
         else pass))"

definition queuePreflight :: "prd_id \<Rightarrow> string option \<Rightarrow> world \<Rightarrow> guard" where
  "queuePreflight i appliedAction w =
     (case loadQueue FailedDir (w_disk w) of
        Inl _ \<Rightarrow> Inl (ErrThrown ''loadQueue'')
      | Inr failed \<Rightarrow>
          if (case find_prd_id i failed of None \<Rightarrow> False | Some prd \<Rightarrow> fm_held (q_fm prd) = Some True)
          then Inr (Some (StopGate, Some (''Failed PRD '' @ i @ '' is held.'')))
          else if file_exists RootDir i (w_disk w) \<and> appliedAction \<noteq> Some ''continue-repair''
          then Inr (Some (StopQueue, Some (''Queue root already contains '' @ i @ ''.md.'')))
          else if \<not> file_exists FailedDir i (w_disk w) \<and> appliedAction \<noteq> Some ''continue-repair''
          then Inr (Some (StopQueue, Some (''No failed queue PRD found for '' @ i @ ''.'')))
          else pass)"

definition repeat_guard :: "auto_state \<Rightarrow> string \<Rightarrow> string \<Rightarrow> guard" where
  "repeat_guard s marker signature =
     (if attempts_of s > 0 then
        if \<not> hasValidPriorMarkers s
        then Inr (Some (StopMalformed, Some ''Prior auto-resume markers are missing or malformed.''))
        else stop_if (as_lastProgressMarker s = Some marker \<and> as_lastFailureSignature s = Some signature) StopRepeated
      else pass)"

definition queueTransitionPreflight :: "auto_env \<Rightarrow> prd_id \<Rightarrow> auto_projection \<Rightarrow> world \<Rightarrow> guard" where
  "queueTransitionPreflight env i p w =
     (case preflightRequeueFailedPrdForCompiledResume
             \<lparr>ro_prdId = i, ro_setName = ax_setName p, ro_featureBranch = ax_featureBranch p,
              ro_baseBranch = ax_baseBranch p, ro_profileOverride = None\<rparr> w of
        None \<Rightarrow> Inl (ErrThrown ''loadQueue'')
      | Some (RequeueDecided (RequeueBlocked r)) \<Rightarrow> Inr (Some (StopQueue, Some (queue_reason_text (ae_moveError env) i r)))
      | Some _ \<Rightarrow> pass)"

text \<open>The guards in the order of the source.\<close>

definition auto_guards :: "auto_env \<Rightarrow> prd_id \<Rightarrow> auto_projection \<Rightarrow> auto_state \<Rightarrow> world \<Rightarrow> guard list" where
  "auto_guards env i p s w =
     (let appliedAction = readRawAppliedAction i w in
      [stop_if (attempts_of s \<ge> ae_maxAttempts env) StopBudget,
       verdict_guard p,
       stop_if (ax_confidence p \<noteq> CHigh) StopNotHigh,
       stop_if (ax_verdictPartial p = Some True \<or> ax_summaryPartial p = Some True \<or> ax_identityPartial p = Some True) StopPartial,
       eligibility_guard p,
       stop_if (appliedAction \<noteq> None \<and> appliedAction \<noteq> Some ''continue-repair'') StopMarker,
       blocked_by StopGate (autoBuildPausePreflight env),
       worktreePreflight env,
       queuePreflight i appliedAction w,
       or_thrown (ae_policyGate env p w) (blocked_by StopGate),
       repeat_guard s (buildProgressMarker (ax_evidence p)) (buildFailureSignature (ax_evidence p)),
       or_thrown (ae_eligibility env p w) (blocked_by StopIneligible),
       queueTransitionPreflight env i p w])"

section \<open>The evaluation\<close>

type_synonym evaluation = "auto_world \<times> auto_event list \<times> auto_outcome"

text \<open>The sidecar is read, and its projection; an error other than a missing file is one of the sidecar.\<close>

definition read_for_auto :: "auto_env \<Rightarrow> prd_id \<Rightarrow> auto_world \<Rightarrow> (auto_error, auto_state \<times> auto_projection) result" where
  "read_for_auto env i aw =
     (if dget (w_json (aw_world aw)) i = None then Inl ErrMissing
      else case ae_rawError env of
             Some e \<Rightarrow> Inl (ErrSidecarRead e)
           | None \<Rightarrow>
               (case ae_projection env (aw_world aw) of
                  Inl ErrMissing \<Rightarrow> Inl ErrMissing
                | Inl e \<Rightarrow> Inl (ErrSidecarRead (error_text (ae_moveError env) i e))
                | Inr p \<Rightarrow> Inr (readAutoResumeState (dget (aw_auto aw) i), p)))"

definition auto_stop :: "auto_world \<Rightarrow> auto_event list \<Rightarrow> stop_reason \<Rightarrow> string option \<Rightarrow> int \<Rightarrow> evaluation" where
  "auto_stop aw evs reason message attempt = (aw, evs @ [AutoStopped reason attempt], AutoStop reason message attempt)"

text \<open>The \<open>catch\<close>: the attempts are read again, as none when the sidecar cannot be read.\<close>

definition caught :: "auto_env \<Rightarrow> prd_id \<Rightarrow> auto_world \<Rightarrow> auto_event list \<Rightarrow> auto_error \<Rightarrow> evaluation" where
  "caught env i aw evs err =
     (let raw = (if dget (w_json (aw_world aw)) i = None \<or> ae_rawError env \<noteq> None then None else dget (aw_auto aw) i)
      in auto_stop aw evs (classifyResumeError (ae_moveError env) i err)
           (Some (error_text (ae_moveError env) i err)) (attempts_of (readAutoResumeState raw)))"

definition inactiveMessage :: string where
  "inactiveMessage = ''Auto-build watcher is no longer active.''"

text \<open>After the guards: the attempt is recorded, then the repair is applied.\<close>

definition attempt_resume :: "auto_env \<Rightarrow> prd_id \<Rightarrow> auto_projection \<Rightarrow> int \<Rightarrow> auto_event list \<Rightarrow> auto_world \<Rightarrow> evaluation" where
  "attempt_resume env i p attempt evs aw =
     (if \<not> fst (ae_active env) then auto_stop aw evs StopGate (Some inactiveMessage) attempt
      else case ae_writeState env of
             Some e \<Rightarrow> caught env i aw evs (ErrThrown e)
           | None \<Rightarrow>
               (let aw1 = aw\<lparr>aw_auto := dput i
                      \<lparr>as_attempts = Some (attempt + 1), as_lastFailureSignature = Some (buildFailureSignature (ax_evidence p)),
                       as_lastProgressMarker = Some (buildProgressMarker (ax_evidence p)), as_lastAttemptAt = Some (ae_now env)\<rparr>
                      (aw_auto aw)\<rparr>
                in if \<not> snd (ae_active env) then auto_stop aw1 evs StopGate (Some inactiveMessage) attempt
                   else case applyRecoveryContinueRepair (ae_apply env) i (aw_world aw1) of
                          (w, Inl err) \<Rightarrow> caught env i (aw1\<lparr>aw_world := w\<rparr>) evs (of_apply_error err)
                        | (w, Inr r) \<Rightarrow>
                            (aw1\<lparr>aw_world := w\<rparr>, evs @ [AutoQueuedEvent (attempt + 1)], AutoQueued (attempt + 1) (ra_detail r))))"

definition evaluateGuardedRecoveryAutoResume :: "auto_env \<Rightarrow> prd_id \<Rightarrow> auto_world \<Rightarrow> evaluation" where
  "evaluateGuardedRecoveryAutoResume env i aw =
     (if \<not> ae_enabled env then (aw, [], AutoSkipped)
      else if \<not> ae_configured env
      then auto_stop aw [] StopError (Some ''Working directory or queue directory is not configured.'') 0
      else case read_for_auto env i aw of
             Inl e \<Rightarrow> caught env i aw [] e
           | Inr (s, p) \<Rightarrow>
               (let attempt = attempts_of s; evs = [AutoEvaluated attempt]
                in case first_stop (auto_guards env i p s (aw_world aw)) of
                     Inl e \<Rightarrow> caught env i aw evs e
                   | Inr (Some (reason, message)) \<Rightarrow> auto_stop aw evs reason message attempt
                   | Inr None \<Rightarrow> attempt_resume env i p attempt evs aw))"

section \<open>What an automatic resume presupposes\<close>

definition clean_but_sidecars :: "auto_env \<Rightarrow> bool" where
  "clean_but_sidecars env \<longleftrightarrow>
     (\<exists>unmerged status. ae_unmerged env = Inr unmerged \<and> ae_status env = Inr status \<and> trim unmerged = [] \<and>
        (\<forall>path \<in> set (parsePorcelainZPaths status). isAllowedFailedSidecarPath (ae_queueDir env) path))"

definition auto_allowed :: "auto_env \<Rightarrow> prd_id \<Rightarrow> auto_state \<Rightarrow> auto_projection \<Rightarrow> world \<Rightarrow> bool" where
  "auto_allowed env i s p w \<longleftrightarrow>
     ae_enabled env \<and> attempts_of s < ae_maxAttempts env \<and>
     ax_verdict p = RkContinueRepair \<and> ax_confidence p = CHigh \<and>
     Some True \<notin> {ax_verdictPartial p, ax_summaryPartial p, ax_identityPartial p} \<and>
     (\<exists>e. ax_eligibility p = Some e \<and> el_eligible e \<and> el_partial e \<noteq> Some True) \<and>
     readRawAppliedAction i w \<in> {None, Some ''continue-repair''} \<and>
     ae_paused env \<notin> {Some (True, True), Some (True, False), Some (False, True)} \<and>
     clean_but_sidecars env \<and>
     (\<forall>prd fs. loadQueue FailedDir (w_disk w) = Inr fs \<longrightarrow> find_prd_id i fs = Some prd \<longrightarrow> fm_held (q_fm prd) \<noteq> Some True) \<and>
     ae_policyGate env p w = Inr None \<and> ae_eligibility env p w = Inr None \<and>
     (attempts_of s > 0 \<longrightarrow>
       (as_lastProgressMarker s, as_lastFailureSignature s) \<noteq>
       (Some (buildProgressMarker (ax_evidence p)), Some (buildFailureSignature (ax_evidence p))))"

lemma first_stop_pass: "first_stop gs = pass \<longleftrightarrow> list_all (\<lambda>g. g = pass) gs"
  by (induction gs) (auto split: sum.splits option.splits)

lemma stop_if_pass [simp]: "stop_if b r = pass \<longleftrightarrow> \<not> b"
  by (simp add: stop_if_def)

lemma blocked_by_pass [simp]: "blocked_by r t = pass \<longleftrightarrow> t = None"
  by (simp add: blocked_by_def split: option.splits)

lemma or_thrown_pass [simp]: "or_thrown r k = pass \<longleftrightarrow> (\<exists>x. r = Inr x \<and> k x = pass)"
  by (auto simp: or_thrown_def split: sum.splits)

lemma verdict_guard_pass [simp]: "verdict_guard p = pass \<longleftrightarrow> ax_verdict p = RkContinueRepair"
  by (simp add: verdict_guard_def)

lemma eligibility_guard_pass [simp]:
  "eligibility_guard p = pass \<longleftrightarrow> (\<exists>e. ax_eligibility p = Some e \<and> el_eligible e \<and> el_partial e \<noteq> Some True)"
  by (simp add: eligibility_guard_def split: option.splits)

lemma pause_None [simp]:
  "autoBuildPausePreflight env = None \<longleftrightarrow> ae_paused env \<notin> {Some (True, True), Some (True, False), Some (False, True)}"
  by (auto simp: autoBuildPausePreflight_def split: option.splits)

lemma worktreePreflight_pass [simp]: "worktreePreflight env = pass \<longleftrightarrow> clean_but_sidecars env"
  by (auto simp: worktreePreflight_def clean_but_sidecars_def filter_empty_conv)

lemma queuePreflight_held:
  "queuePreflight i a w = pass \<Longrightarrow> loadQueue FailedDir (w_disk w) = Inr fs \<Longrightarrow> find_prd_id i fs = Some prd \<Longrightarrow>
   fm_held (q_fm prd) \<noteq> Some True"
  by (auto simp: queuePreflight_def split: if_splits)

lemma repeat_guard_pass:
  "repeat_guard s marker signature = pass \<Longrightarrow> attempts_of s > 0 \<Longrightarrow>
   (as_lastProgressMarker s, as_lastFailureSignature s) \<noteq> (Some marker, Some signature)"
  by (auto simp: repeat_guard_def split: if_splits)

lemma guards_allow:
  assumes pass: "first_stop (auto_guards env i p s w) = pass" and "ae_enabled env"
  shows "auto_allowed env i s p w"
proof -
  note g = pass [unfolded first_stop_pass auto_guards_def Let_def, simplified]
  have "\<forall>prd fs. loadQueue FailedDir (w_disk w) = Inr fs \<longrightarrow> find_prd_id i fs = Some prd \<longrightarrow> fm_held (q_fm prd) \<noteq> Some True"
    using g queuePreflight_held by blast
  moreover have "attempts_of s > 0 \<longrightarrow> (as_lastProgressMarker s, as_lastFailureSignature s) \<noteq>
       (Some (buildProgressMarker (ax_evidence p)), Some (buildFailureSignature (ax_evidence p)))"
    using g repeat_guard_pass by blast
  ultimately show ?thesis using g assms(2) unfolding auto_allowed_def by auto
qed

text \<open>The only way to a queued outcome, and what it leaves.\<close>

lemma queued_run:
  assumes "evaluateGuardedRecoveryAutoResume env i aw = (aw', evs, AutoQueued n d)"
  obtains s p r w' where
    "read_for_auto env i aw = Inr (s, p)" "auto_allowed env i s p (aw_world aw)" "n = attempts_of s + 1"
    "applyRecoveryContinueRepair (ae_apply env) i (aw_world aw) = (w', Inr r)"
    "aw' = \<lparr>aw_world = w', aw_auto = dput i
       \<lparr>as_attempts = Some n, as_lastFailureSignature = Some (buildFailureSignature (ax_evidence p)),
        as_lastProgressMarker = Some (buildProgressMarker (ax_evidence p)), as_lastAttemptAt = Some (ae_now env)\<rparr>
       (aw_auto aw)\<rparr>"
    "evs = [AutoEvaluated (n - 1), AutoQueuedEvent n]"
  using assms guards_allow
  by (auto simp: evaluateGuardedRecoveryAutoResume_def attempt_resume_def auto_stop_def caught_def Let_def
      split: if_splits sum.splits prod.splits option.splits)

lemma repair_marks:
  assumes "applyRecoveryContinueRepair env i w = (w', Inr r)"
  shows "readRawAppliedAction i w' = Some ''continue-repair''"
proof -
  obtain w1 x where x: "(case x of PrepareBlocked reason _ \<Rightarrow> (w1, Inl (ApplyConflict reason))
      | Prepared r g \<Rightarrow> thenDo (writeRecoveryAppliedMetadata env i ''continue-repair'' w1) (\<lambda>_ w2.
          (w2, Inr (repair_applied_of r g)))) = (w', Inr r)"
    using assms by (auto simp: applyRecoveryContinueRepair_def thenDo_cases split: option.splits)
  then show ?thesis
    by (cases x; cases "dget (w_json w1) i"; cases "ap_write env")
      (auto simp: thenDo_cases writeRecoveryAppliedMetadata_def readRawAppliedAction_def)
qed

text \<open> C16. A failed build is resumed without a human only when every guard holds: the policy is on and its
  budget not spent, the verdict is a repair with high confidence, nothing about the evidence is
  partial, the compiled work is eligible, no other action was applied, auto-build is not paused,
  the worktree is clean but for the files of failed PRDs, the PRD is not held, no policy gate
  objects, and the failure is not the one of the attempt before. The attempt is counted and the
  failure remembered in the sidecar, whose marker says that the repair was applied.\<close>

theorem auto_resume_guarded:
  assumes run: "evaluateGuardedRecoveryAutoResume env i aw = (aw', evs, AutoQueued n d)"
  shows "\<exists>s p st. read_for_auto env i aw = Inr (s, p) \<and> auto_allowed env i s p (aw_world aw) \<and>
    n = attempts_of s + 1 \<and> evs = [AutoEvaluated (n - 1), AutoQueuedEvent n] \<and>
    dget (aw_auto aw') i = Some st \<and> attempts_of st = n \<and>
    as_lastProgressMarker st = Some (buildProgressMarker (ax_evidence p)) \<and>
    as_lastFailureSignature st = Some (buildFailureSignature (ax_evidence p)) \<and>
    readRawAppliedAction i (aw_world aw') = Some ''continue-repair''"
  by (rule queued_run [OF run]) (auto simp: attempts_of_def dest: repair_marks)

section \<open>The budget\<close>

definition attempts_at :: "prd_id \<Rightarrow> auto_world \<Rightarrow> int" where
  "attempts_at i aw = attempts_of (readAutoResumeState (dget (aw_auto aw) i))"

text \<open>
  Evaluations of one PRD one after the other, each followed by whatever the build and other processes
  do to the queue and the rest of the sidecar; the failed build keeps \<open>autoResume\<close>. The number of
  those that resumed the build.
\<close>

fun resumes :: "prd_id \<Rightarrow> (auto_env \<times> (world \<Rightarrow> world)) list \<Rightarrow> auto_world \<Rightarrow> nat" where
  "resumes i [] aw = 0"
| "resumes i ((env, others) # rounds) aw =
     (case evaluateGuardedRecoveryAutoResume env i aw of
        (aw1, _, outcome) \<Rightarrow>
          (case outcome of AutoQueued _ _ \<Rightarrow> 1 | _ \<Rightarrow> 0) +
          resumes i rounds (aw1\<lparr>aw_world := others (aw_world aw1)\<rparr>))"

lemma attempts_at_world [simp]: "attempts_at i (aw\<lparr>aw_world := w\<rparr>) = attempts_at i aw"
  by (simp add: attempts_at_def)

lemma attempts_nonneg: "0 \<le> attempts_at i aw"
  by (auto simp: attempts_at_def readAutoResumeState_def attempts_of_def split: option.splits)

lemma read_for_auto_attempts:
  "read_for_auto env i aw = Inr (s, p) \<Longrightarrow> attempts_of s = attempts_at i aw"
  by (auto simp: read_for_auto_def attempts_at_def split: if_splits option.splits sum.splits auto_error.splits)

lemma fst_stop [simp]: "fst (auto_stop aw evs r t n) = aw" "fst (caught env i aw evs e) = aw"
  by (simp_all add: auto_stop_def caught_def Let_def)

lemma attempts_at_put:
  "0 \<le> n \<Longrightarrow> as_attempts st = Some n \<Longrightarrow> attempts_at i (aw\<lparr>aw_auto := dput i st (aw_auto aw)\<rparr>) = n"
  by (simp add: attempts_at_def readAutoResumeState_def attempts_of_def)

lemma attempts_counted:
  assumes "0 \<le> attempt" and "attempt = attempts_at i aw"
  shows "attempts_at i aw \<le> attempts_at i (fst (attempt_resume env i p attempt evs aw))"
  using assms attempts_at_put [of "attempt + 1"]
  by (simp add: attempt_resume_def Let_def split: option.splits prod.splits sum.splits)

lemma attempts_grow: "attempts_at i aw \<le> attempts_at i (fst (evaluateGuardedRecoveryAutoResume env i aw))"
  using attempts_nonneg [of i aw] attempts_counted [of _ i aw env] read_for_auto_attempts [of env i aw]
  by (simp add: evaluateGuardedRecoveryAutoResume_def Let_def split: sum.splits option.splits prod.splits)

lemma queued_counts:
  assumes "evaluateGuardedRecoveryAutoResume env i aw = (aw', evs, AutoQueued n d)"
  shows "attempts_at i aw' = attempts_at i aw + 1 \<and> attempts_at i aw < ae_maxAttempts env"
proof (rule queued_run [OF assms])
  fix s p r w'
  assume rd: "read_for_auto env i aw = Inr (s, p)" and al: "auto_allowed env i s p (aw_world aw)" and n: "n = attempts_of s + 1"
    and aw': "aw' = \<lparr>aw_world = w', aw_auto = dput i
       \<lparr>as_attempts = Some n, as_lastFailureSignature = Some (buildFailureSignature (ax_evidence p)),
        as_lastProgressMarker = Some (buildProgressMarker (ax_evidence p)), as_lastAttemptAt = Some (ae_now env)\<rparr>
       (aw_auto aw)\<rparr>"
  have s: "attempts_of s = attempts_at i aw" using read_for_auto_attempts [OF rd] .
  have "attempts_at i aw' = n"
    using n s attempts_nonneg [of i aw] by (simp add: aw' attempts_at_def readAutoResumeState_def attempts_of_def)
  with al n s show ?thesis by (simp add: auto_allowed_def)
qed


section \<open>Examples and a finding\<close>

definition demo_failure :: "string \<Rightarrow> bounded_evidence" where
  "demo_failure message =
     \<lparr>be_commits = Some [Some ''c1''], be_diffStat = None,
      be_failingPlan = Some \<lparr>sf_planId = Some ''p'', sf_stage = None, sf_scope = None, sf_errorMessage = Some message,
        sf_message = None, sf_terminalSubtype = None, sf_subtype = None\<rparr>,
      be_failingPlans = None, be_terminalFailure = None\<rparr>"

definition demo_auto :: "string \<Rightarrow> auto_env" where
  "demo_auto message =
     \<lparr>ae_enabled = True, ae_maxAttempts = 2, ae_configured = True, ae_queueDir = ''.eforge/queue'', ae_rawError = None,
      ae_projection = (\<lambda>w. Inr \<lparr>ax_setName = ''a'', ax_verdict = RkContinueRepair, ax_confidence = CHigh,
        ax_verdictPartial = None, ax_summaryPartial = None, ax_identityPartial = None,
        ax_featureBranch = ''eforge/a'', ax_baseBranch = ''main'',
        ax_eligibility = Some \<lparr>el_eligible = True, el_featureBranch = None, el_artifactAvailability = None,
          el_artifactCommit = None, el_landedCommitCount = None, el_failingPlanId = None, el_partial = None, el_reason = None\<rparr>,
        ax_evidence = demo_failure message\<rparr>),
      ae_paused = Some (False, False), ae_unmerged = Inr [],
      ae_status = Inr (''?? .eforge/queue/failed/a.recovery.md'' @ [CHR 0x00]),
      ae_policyGate = (\<lambda>p w. Inr None), ae_eligibility = (\<lambda>p w. Inr None), ae_active = (True, True), ae_now = ''t'',
      ae_writeState = None, ae_moveError = [], ae_apply = demo_apply\<rparr>"

definition demo_auto_world :: auto_world where
  "demo_auto_world = \<lparr>aw_world = demo_marked None, aw_auto = []\<rparr>"

theorem auto_resume_guarded_witness:
  "\<exists>s p. read_for_auto (demo_auto ''boom'') ''a'' demo_auto_world = Inr (s, p) \<and>
     auto_allowed (demo_auto ''boom'') ''a'' s p (demo_marked None)"
proof -
  let ?r = "evaluateGuardedRecoveryAutoResume (demo_auto ''boom'') ''a'' demo_auto_world"
  have "(case snd (snd ?r) of AutoQueued _ _ \<Rightarrow> True | _ \<Rightarrow> False)" by code_simp
  then obtain n d where "snd (snd ?r) = AutoQueued n d" by (cases "snd (snd ?r)") auto
  then have "?r = (fst ?r, fst (snd ?r), AutoQueued n d)" by (metis prod.collapse)
  from auto_resume_guarded [OF this] show ?thesis by (auto simp: demo_auto_world_def)
qed

text \<open>Four rounds: the second is stopped by the repeated failure, the last one by the budget.\<close>

definition demo_rounds :: "(auto_env \<times> (world \<Rightarrow> world)) list" where
  "demo_rounds = map (\<lambda>message. (demo_auto message, \<lambda>w. demo_marked None)) [''boom'', ''boom'', ''crash'', ''other'']"


lemma budget_is_reached: "resumes ''a'' demo_rounds demo_auto_world = 2"
  by code_simp

text \<open>The class of an error depends on the names in its message: a missing artifact of a plan whose id
  contains \<open>hold\<close> is reported as an active gate or hold.\<close>

lemma plan_name_decides_class:
  "classifyResumeError [] ''a'' (ErrConflict (RefusalText ''Recovery guidance for plan-1 is artifact-missing'')) = StopIneligible"
  "classifyResumeError [] ''a'' (ErrConflict (RefusalText ''Recovery guidance for threshold is artifact-missing'')) = StopGate"
  by code_simp+

end
